(* ===== verification/Flinter_Prelude.thy ===== *)
theory Flinter_Prelude
  imports Main "HOL-Library.Word"
begin

text \<open>
  Shared material of the development: the types that name C++ data (bytes, 64-bit integers),
  the model of \<open>std::map\<close> as an ordered association list, and the interfaces several
  components rely on, stated as locales:
  \<^item> \<open>ordered_map\<close>: what the containers promise to \<open>ObjectMap\<close>, \<open>TimeoutPool\<close> and \<open>Tree\<close>;
  \<^item> \<open>three_way\<close>: what a \<open>Compare\<close> method must satisfy for the six comparison
    operators built on it to be a linear order;
  \<^item> \<open>step_invariant\<close>: an invariant kept by every step of a component holds in every
    state a sequence of steps reaches;
  \<^item> \<open>refines_operation\<close>, \<open>refines_machine\<close>: an operation, or a step relation, implements an
    abstract one.
\<close>

section \<open>Types of the program\<close>

type_synonym byte = "8 word"
type_synonym bytes = "byte list"
type_synonym u64 = "64 word"

named_theorems smap_simps \<open>ordered association lists\<close>

section \<open>Associative containers\<close>

text \<open>
  \<open>std::map\<close> keeps its entries ordered by key and its iterators visit them in that order,
  so it is modelled by the list an iteration from \<open>begin()\<close> to \<open>end()\<close> visits.
\<close>

type_synonym ('k, 'v) smap = "('k \<times> 'v) list"

definition smap_wf :: "('k::linorder, 'v) smap \<Rightarrow> bool" where
  "smap_wf m = sorted_wrt (<) (map fst m)"

definition smap_find :: "('k, 'v) smap \<Rightarrow> 'k \<Rightarrow> 'v option" where
  "smap_find m k = map_of m k"

text \<open>\<open>m[k] = v\<close>: the entry of \<open>k\<close> is created or overwritten.\<close>

definition smap_put :: "'k::linorder \<Rightarrow> 'v \<Rightarrow> ('k, 'v) smap \<Rightarrow> ('k, 'v) smap" where
  "smap_put k v m = takeWhile (\<lambda>e. fst e < k) m @ (k, v) # dropWhile (\<lambda>e. fst e \<le> k) m"

text \<open>\<open>m.insert(make_pair(k, v))\<close>: an existing entry is left alone.\<close>

definition smap_insert :: "'k::linorder \<Rightarrow> 'v \<Rightarrow> ('k, 'v) smap \<Rightarrow> ('k, 'v) smap" where
  "smap_insert k v m = (case smap_find m k of Some _ \<Rightarrow> m | None \<Rightarrow> smap_put k v m)"

definition smap_erase :: "'k \<Rightarrow> ('k, 'v) smap \<Rightarrow> ('k, 'v) smap" where
  "smap_erase k m = filter (\<lambda>e. fst e \<noteq> k) m"

text \<open>\<open>std::multimap\<close>: \<open>insert\<close> puts an entry after those with its key.\<close>

definition mmap_insert :: "'k::linorder \<Rightarrow> 'v \<Rightarrow> ('k \<times> 'v) list \<Rightarrow> ('k \<times> 'v) list" where
  "mmap_insert k v m = takeWhile (\<lambda>e. fst e \<le> k) m @ (k, v) # dropWhile (\<lambda>e. fst e \<le> k) m"

lemma set_mmap_insert: "set (mmap_insert k v m) = insert (k, v) (set m)"
proof -
  have "set (takeWhile (\<lambda>e. fst e \<le> k) m) \<union> set (dropWhile (\<lambda>e. fst e \<le> k) m) = set m"
    by (metis set_append takeWhile_dropWhile_id)
  then show ?thesis unfolding mmap_insert_def by (metis Un_insert_right list.simps(15) set_append)
qed

lemma smap_wf_Nil [simp, smap_simps]: "smap_wf []"
  by (simp add: smap_wf_def)

lemma smap_wf_Cons [smap_simps]:
  "smap_wf (e # m) \<longleftrightarrow> (\<forall>x \<in> set m. fst e < fst x) \<and> smap_wf m"
  by (simp add: smap_wf_def)

lemma smap_wf_distinct: "smap_wf m \<Longrightarrow> distinct (map fst m)"
  by (auto simp: smap_wf_def strict_sorted_iff)

lemma smap_find_Nil [simp, smap_simps]: "smap_find [] k = None"
  by (simp add: smap_find_def)

lemma smap_find_Cons [smap_simps]:
  "smap_find ((a, b) # m) k = (if k = a then Some b else smap_find m k)"
  by (auto simp: smap_find_def)

lemma smap_put_Nil [simp, smap_simps]: "smap_put k v [] = [(k, v)]"
  by (simp add: smap_put_def)

lemma dropWhile_all_greater:
  "\<forall>x \<in> set m. (k::'k::linorder) < fst x \<Longrightarrow> dropWhile (\<lambda>e. fst e \<le> k) m = m"
  by (cases m) auto

lemma smap_put_Cons [smap_simps]:
  assumes "smap_wf ((a, b) # m)"
  shows "smap_put k v ((a, b) # m) =
    (if a < k then (a, b) # smap_put k v m else if a = k then (k, v) # m else (k, v) # (a, b) # m)"
  using assms by (auto simp: smap_put_def smap_wf_Cons dropWhile_all_greater)

lemma set_keys_smap_put:
  "smap_wf m \<Longrightarrow> fst ` set (smap_put k v m) = insert k (fst ` set m)"
proof (induction m)
  case Nil
  then show ?case by simp
next
  case (Cons e m)
  obtain a b where "e = (a, b)" by (cases e)
  with Cons show ?case by (auto simp: smap_put_Cons smap_wf_Cons)
qed

lemma smap_wf_put [simp, intro]: "smap_wf m \<Longrightarrow> smap_wf (smap_put k v m)"
proof (induction m)
  case Nil
  then show ?case by (simp add: smap_wf_Cons)
next
  case (Cons e m)
  obtain a b where e: "e = (a, b)" by (cases e)
  have wf: "smap_wf m" and gt: "\<forall>x \<in> fst ` set m. a < x"
    using Cons.prems e by (auto simp: smap_wf_Cons)
  have "\<forall>x \<in> set (smap_put k v m). a < fst x" if "a < k"
    using that gt set_keys_smap_put [OF wf, of k v] by (metis image_eqI insertE)
  with Cons.IH [OF wf] Cons.prems e show ?case
    by (fastforce simp: smap_put_Cons smap_wf_Cons)
qed

lemma smap_find_put [simp, smap_simps]:
  "smap_wf m \<Longrightarrow> smap_find (smap_put k v m) = (smap_find m)(k \<mapsto> v)"
proof (induction m)
  case Nil
  then show ?case by (auto simp: smap_find_def fun_eq_iff)
next
  case (Cons e m)
  obtain a b where e: "e = (a, b)" by (cases e)
  with Cons show ?case
    by (auto simp: smap_put_Cons smap_wf_Cons smap_find_Cons fun_eq_iff)
qed

lemma smap_wf_erase [simp, intro]: "smap_wf m \<Longrightarrow> smap_wf (smap_erase k m)"
  unfolding smap_wf_def smap_erase_def
  by (induction m) auto

lemma smap_find_erase [simp, smap_simps]:
  "smap_find (smap_erase k m) = (smap_find m)(k := None)"
  by (induction m) (auto simp: smap_find_def smap_erase_def fun_eq_iff)

lemma smap_wf_insert [simp, intro]: "smap_wf m \<Longrightarrow> smap_wf (smap_insert k v m)"
  by (auto simp: smap_insert_def split: option.splits)

lemma smap_find_insert [simp, smap_simps]:
  "smap_wf m \<Longrightarrow> smap_find (smap_insert k v m) =
    (case smap_find m k of Some _ \<Rightarrow> smap_find m | None \<Rightarrow> (smap_find m)(k \<mapsto> v))"
  by (auto simp: smap_insert_def split: option.splits)

lemma smap_find_in: "smap_find m k = Some v \<Longrightarrow> (k, v) \<in> set m"
  by (simp add: smap_find_def map_of_SomeD)

lemma in_smap_find: "smap_wf m \<Longrightarrow> (k, v) \<in> set m \<Longrightarrow> smap_find m k = Some v"
  by (simp add: smap_find_def smap_wf_distinct)

lemma smap_find_None: "smap_find m k = None \<longleftrightarrow> k \<notin> fst ` set m"
  by (simp add: smap_find_def map_of_eq_None_iff)

text \<open>Splitting an ordered map at a key.\<close>

lemma smap_split:
  assumes "smap_wf m" and "smap_find m k = Some v"
  obtains a b where "m = a @ (k, v) # b" "\<forall>w. smap_put k w m = a @ (k, w) # b"
    "smap_erase k m = a @ b"
proof -
  from assms(2) obtain a b where m: "m = a @ (k, v) # b"
    by (meson smap_find_in split_list)
  with assms(1) have lt: "\<forall>e \<in> set a. fst e < k" "\<forall>e \<in> set b. k < fst e"
    by (auto simp: smap_wf_def sorted_wrt_append)
  have "takeWhile (\<lambda>e. fst e < k) m = a" "dropWhile (\<lambda>e. fst e \<le> k) m = b"
    using lt unfolding m by (auto simp: takeWhile_append dropWhile_append dropWhile_all_greater)
  moreover have "filter (\<lambda>e. fst e \<noteq> k) a = a" "filter (\<lambda>e. fst e \<noteq> k) b = b"
    using lt by (auto simp: filter_id_conv)
  then have "smap_erase k m = a @ b" by (simp add: m smap_erase_def)
  ultimately show thesis using that m by (simp add: smap_put_def)
qed

lemma smap_new_split:
  assumes "smap_wf m" and "smap_find m k = None"
  obtains a b where "m = a @ b" "\<forall>w. smap_put k w m = a @ (k, w) # b"
proof -
  have "takeWhile (\<lambda>e. fst e < k) m = takeWhile (\<lambda>e. fst e \<le> k) m"
    using assms(2) by (intro takeWhile_cong) (auto simp: smap_find_None order_le_less)
  then have "m = takeWhile (\<lambda>e. fst e < k) m @ dropWhile (\<lambda>e. fst e \<le> k) m" by simp
  then show thesis using that by (simp add: smap_put_def)
qed

lemma smap_put_other: "k \<noteq> k' \<Longrightarrow> smap_find m k = None \<Longrightarrow> smap_find (smap_put k' v m) k = None"
  by (auto simp: smap_find_None smap_put_def dest: set_takeWhileD set_dropWhileD)

lemma set_smap_put_sub: "set (smap_put k v m) \<subseteq> insert (k, v) (set m)"
  by (auto simp: smap_put_def dest: set_takeWhileD set_dropWhileD)

text \<open>What a container promises to the components that keep one.\<close>

locale ordered_map =
  fixes wf :: "'m \<Rightarrow> bool"
    and empty :: "'m"
    and find :: "'m \<Rightarrow> 'k \<Rightarrow> 'v option"
    and put :: "'k \<Rightarrow> 'v \<Rightarrow> 'm \<Rightarrow> 'm"
    and erase :: "'k \<Rightarrow> 'm \<Rightarrow> 'm"
  assumes wf_empty: "wf empty"
    and wf_put: "wf m \<Longrightarrow> wf (put k v m)"
    and wf_erase: "wf m \<Longrightarrow> wf (erase k m)"
    and find_empty: "find empty = (\<lambda>_. None)"
    and find_put: "wf m \<Longrightarrow> find (put k v m) = (find m)(k \<mapsto> v)"
    and find_erase: "wf m \<Longrightarrow> find (erase k m) = (find m)(k := None)"
begin

lemma put_erase_lookup: "wf m \<Longrightarrow> find (erase k (put k v m)) = (find m)(k := None)"
  by (simp add: find_erase find_put wf_put)

lemma put_put_lookup: "wf m \<Longrightarrow> find (put k w (put k v m)) = find (put k w m)"
  by (simp add: find_put wf_put)

lemma finite_dom_put: "wf m \<Longrightarrow> finite (dom (find m)) \<Longrightarrow> finite (dom (find (put k v m)))"
  by (simp add: find_put)

lemma foldr_erase:
  "wf m \<Longrightarrow> wf (foldr erase ks m) \<and> find (foldr erase ks m) = (find m) |` (- set ks)"
proof (induction ks)
  case Nil
  then show ?case by (simp add: restrict_map_def)
next
  case (Cons k ks)
  then have "find (foldr erase (k # ks) m) = ((find m) |` (- set ks))(k := None)"
    by (simp add: find_erase)
  with Cons show ?case
    by (auto simp: restrict_map_def wf_erase fun_eq_iff)
qed

end

interpretation std_map: ordered_map smap_wf "[]" smap_find smap_put smap_erase
  by unfold_locales (auto simp: fun_eq_iff)

section \<open>Decimal digits\<close>

text \<open>Numbers as \<open>printf\<close>, streams and GMP write and read them.\<close>

definition is_digit :: "char \<Rightarrow> bool" where
  "is_digit c \<longleftrightarrow> 48 \<le> (of_char c :: nat) \<and> (of_char c :: nat) \<le> 57"

definition digit_value :: "char \<Rightarrow> nat" where
  "digit_value c = of_char c - 48"

definition digits_value :: "string \<Rightarrow> nat" where
  "digits_value s = foldl (\<lambda>n c. n * 10 + digit_value c) 0 s"

fun dec_digits :: "nat \<Rightarrow> string" where
  "dec_digits n = (if n < 10 then [char_of (n + 48)] else dec_digits (n div 10) @ [char_of (n mod 10 + 48)])"

declare dec_digits.simps [simp del]

definition dec_string :: "int \<Rightarrow> string" where
  "dec_string z = (if z < 0 then ''-'' else []) @ dec_digits (nat \<bar>z\<bar>)"

section \<open>Comparison methods\<close>

text \<open>
  The value types of the library define one \<open>Compare\<close>/\<open>compare\<close> method and derive the six
  relational operators from the sign of its result.
\<close>

definition cmp_lt :: "('a \<Rightarrow> 'a \<Rightarrow> int) \<Rightarrow> 'a \<Rightarrow> 'a \<Rightarrow> bool" where
  "cmp_lt cmp a b \<longleftrightarrow> cmp a b < 0"

definition cmp_le :: "('a \<Rightarrow> 'a \<Rightarrow> int) \<Rightarrow> 'a \<Rightarrow> 'a \<Rightarrow> bool" where
  "cmp_le cmp a b \<longleftrightarrow> cmp a b \<le> 0"

definition cmp_eq :: "('a \<Rightarrow> 'a \<Rightarrow> int) \<Rightarrow> 'a \<Rightarrow> 'a \<Rightarrow> bool" where
  "cmp_eq cmp a b \<longleftrightarrow> cmp a b = 0"

locale three_way =
  fixes cmp :: "'a \<Rightarrow> 'a \<Rightarrow> int"
    and val :: "'a \<Rightarrow> 'v::linorder"
    and ok :: "'a \<Rightarrow> bool"
  assumes cmp_neg: "ok a \<Longrightarrow> ok b \<Longrightarrow> cmp a b < 0 \<longleftrightarrow> val a < val b"
    and cmp_zero: "ok a \<Longrightarrow> ok b \<Longrightarrow> cmp a b = 0 \<longleftrightarrow> val a = val b"
begin

lemma cmp_pos: "ok a \<Longrightarrow> ok b \<Longrightarrow> 0 < cmp a b \<longleftrightarrow> val b < val a"
  using cmp_neg [of a b] cmp_zero [of a b] by force

lemma cmp_sgn: "ok a \<Longrightarrow> ok b \<Longrightarrow> sgn (cmp a b) = - sgn (cmp b a)"
  using cmp_neg [of a b] cmp_zero [of a b] cmp_pos [of a b]
    cmp_neg [of b a] cmp_zero [of b a] cmp_pos [of b a]
  by (auto simp: sgn_if)

lemma lt_trichotomy:
  "ok a \<Longrightarrow> ok b \<Longrightarrow> cmp_lt cmp a b \<or> cmp_eq cmp a b \<or> cmp_lt cmp b a"
  by (auto simp: cmp_lt_def cmp_eq_def cmp_neg cmp_zero)

lemma lt_trans:
  "ok a \<Longrightarrow> ok b \<Longrightarrow> ok c \<Longrightarrow> cmp_lt cmp a b \<Longrightarrow> cmp_lt cmp b c \<Longrightarrow> cmp_lt cmp a c"
  by (auto simp: cmp_lt_def cmp_neg)

lemma lt_asym: "ok a \<Longrightarrow> ok b \<Longrightarrow> cmp_lt cmp a b \<Longrightarrow> \<not> cmp_lt cmp b a"
  by (auto simp: cmp_lt_def cmp_neg)

lemma le_iff: "ok a \<Longrightarrow> ok b \<Longrightarrow> cmp_le cmp a b \<longleftrightarrow> val a \<le> val b"
  using cmp_pos [of a b] by (auto simp: cmp_le_def not_less [symmetric])

end

section \<open>Invariants of step relations\<close>

locale step_invariant =
  fixes step :: "'s \<Rightarrow> 's \<Rightarrow> bool"
    and inv :: "'s \<Rightarrow> bool"
  assumes step_keeps: "step s t \<Longrightarrow> inv s \<Longrightarrow> inv t"
begin

lemma steps_keep: "step\<^sup>*\<^sup>* s t \<Longrightarrow> inv s \<Longrightarrow> inv t"
  by (induction rule: rtranclp_induct) (auto intro: step_keeps)

end

section \<open>Refinement of an abstract operation\<close>

text \<open>
  An operation \<open>op\<close> on representations implements \<open>spec\<close> on what they denote; then a sequence of
  operations implements the sequence of their specifications.
\<close>

locale refines_operation =
  fixes abs :: "'c \<Rightarrow> 'a"
    and good :: "'c \<Rightarrow> bool"
    and op :: "'c \<Rightarrow> 'c \<Rightarrow> 'c"
    and spec :: "'a \<Rightarrow> 'a \<Rightarrow> 'a"
  assumes op_refines: "good x \<Longrightarrow> good y \<Longrightarrow> abs (op x y) = spec (abs x) (abs y)"
    and op_good: "good x \<Longrightarrow> good y \<Longrightarrow> good (op x y)"
begin

lemma fold_refines:
  "good x \<Longrightarrow> \<forall>y \<in> set ys. good y \<Longrightarrow>
    good (foldl op x ys) \<and> abs (foldl op x ys) = foldl spec (abs x) (map abs ys)"
  by (induction ys arbitrary: x) (auto simp: op_good op_refines)

end

text \<open>
  A component refines an abstract machine when every step from a state with the invariant is, under
  the abstraction, a step of the machine or none.
\<close>

locale refines_machine =
  fixes step :: "'c \<Rightarrow> 'c \<Rightarrow> bool"
    and inv :: "'c \<Rightarrow> bool"
    and abs :: "'c \<Rightarrow> 'a"
    and spec :: "'a \<Rightarrow> 'a \<Rightarrow> bool"
  assumes machine_keeps: "step s t \<Longrightarrow> inv s \<Longrightarrow> inv t"
    and machine_simulates: "step s t \<Longrightarrow> inv s \<Longrightarrow> spec\<^sup>=\<^sup>= (abs s) (abs t)"
begin

lemma run_simulates: "step\<^sup>*\<^sup>* s t \<Longrightarrow> inv s \<Longrightarrow> inv t \<and> spec\<^sup>*\<^sup>* (abs s) (abs t)"
proof (induction rule: rtranclp_induct)
  case base
  then show ?case by simp
next
  case (step t u)
  then have "inv u" "spec\<^sup>=\<^sup>= (abs t) (abs u)" using machine_keeps machine_simulates by blast+
  with step show ?case by (auto intro: rtranclp.rtrancl_into_rtrancl)
qed

end

end
