(* ===== verification/Linkage_Worker.thy ===== *)
theory Linkage_Worker
  imports Flinter_Prelude "HOL-Library.AList"
begin

text \<open>
  \<open>flinter/linkage/linkage_worker.cpp\<close>: one event loop over the connections attached to it.
  The state is the record \<open>worker\<close>; pointers are natural numbers and 0 is \<open>NULL\<close>.
  The libev watchers are modelled by what the loop keeps of them: whether each one is started
  (\<open>c_watch_r\<close>, \<open>c_watch_w\<close>). Calls through \<open>LinkageBase\<close> and \<open>Runnable\<close> go through
  \<open>worker_vt\<close>, a record of the virtual methods acting on the whole state, which may extend
  the worker's record. A result \<open>None\<close> means that there is no successor state: the code would
  fail an assertion or touch a client that has been freed, or the virtual method never returns.
\<close>

section \<open>State\<close>

type_synonym ptr = nat

record client_t =
  c_auto_release :: bool
  c_running_r :: bool
  c_running_w :: bool
  c_watch_r :: bool
  c_watch_w :: bool
  c_fd :: int

datatype runnable = HealthTimer | Command ptr

record timer_t =
  t_runnable :: runnable
  t_auto_release :: bool
  t_after :: int
  t_repeat :: int

record worker =
  w_events :: "(ptr \<times> client_t) list"
  w_timers :: "(nat \<times> timer_t) list"
  w_next_timer :: nat
  w_commands :: "ptr list"
  w_quit :: bool
  w_running_thread_id :: int

definition worker_keys :: "'z worker_scheme \<Rightarrow> ptr set" where
  "worker_keys st = fst ` set (w_events st)"

definition worker_client :: "ptr \<Rightarrow> 'z worker_scheme \<Rightarrow> client_t option" where
  "worker_client l st = map_of (w_events st) l"

definition set_client :: "ptr \<Rightarrow> client_t \<Rightarrow> 'z worker_scheme \<Rightarrow> 'z worker_scheme" where
  "set_client l c st = st\<lparr>w_events := AList.update l c (w_events st)\<rparr>"

text \<open>The constructor: an empty worker, its loop not yet run.\<close>

definition new_worker :: worker where
  "new_worker = \<lparr>w_events = [], w_timers = [], w_next_timer = 1, w_commands = [],
     w_quit = False, w_running_thread_id = 0\<rparr>"

section \<open>Watchers and registration\<close>

definition ev_io_r :: "bool \<Rightarrow> client_t \<Rightarrow> client_t" where
  "ev_io_r start c = c\<lparr>c_watch_r := start\<rparr>"

definition ev_io_w :: "bool \<Rightarrow> client_t \<Rightarrow> client_t" where
  "ev_io_w start c = c\<lparr>c_watch_w := start\<rparr>"

definition Attach ::
  "ptr \<Rightarrow> int \<Rightarrow> bool \<Rightarrow> bool \<Rightarrow> bool \<Rightarrow> 'z worker_scheme \<Rightarrow> bool \<times> 'z worker_scheme" where
  "Attach l fd read_now write_now auto_release st =
    (if l = 0 then (False, st)
     else if worker_client l st \<noteq> None then (True, st)
     else
       let c = \<lparr>c_auto_release = auto_release, c_running_r = read_now, c_running_w = write_now,
                c_watch_r = False, c_watch_w = False, c_fd = fd\<rparr>;
           c1 = (if read_now then ev_io_r True c else c);
           c2 = (if write_now then ev_io_w True c1 else c1)
       in (True, set_client l c2 st))"

definition Detach :: "ptr \<Rightarrow> 'z worker_scheme \<Rightarrow> bool \<times> 'z worker_scheme" where
  "Detach l st =
    (if l = 0 then (False, st)
     else if worker_client l st = None then (True, st)
     else (True, st\<lparr>w_events := AList.delete l (w_events st)\<rparr>))"

definition SetWannaRead :: "ptr \<Rightarrow> bool \<Rightarrow> 'z worker_scheme \<Rightarrow> bool \<times> 'z worker_scheme" where
  "SetWannaRead l wanna st =
    (case worker_client l st of
       None \<Rightarrow> (False, st)
     | Some c \<Rightarrow>
         if wanna = c_running_r c then (True, st)
         else (True, set_client l ((ev_io_r wanna c)\<lparr>c_running_r := wanna\<rparr>) st))"

definition SetWannaWrite :: "ptr \<Rightarrow> bool \<Rightarrow> 'z worker_scheme \<Rightarrow> bool \<times> 'z worker_scheme" where
  "SetWannaWrite l wanna st =
    (case worker_client l st of
       None \<Rightarrow> (False, st)
     | Some c \<Rightarrow>
         if wanna = c_running_w c then (True, st)
         else (True, set_client l ((ev_io_w wanna c)\<lparr>c_running_w := wanna\<rparr>) st))"

definition SetWanna :: "ptr \<Rightarrow> bool \<Rightarrow> bool \<Rightarrow> 'z worker_scheme \<Rightarrow> bool \<times> 'z worker_scheme" where
  "SetWanna l wanna_read wanna_write st =
    (case worker_client l st of
       None \<Rightarrow> (False, st)
     | Some c \<Rightarrow>
         let c1 = (if wanna_read \<noteq> c_running_r c
                   then ev_io_r wanna_read (c\<lparr>c_running_r := wanna_read\<rparr>) else c);
             c2 = (if wanna_write \<noteq> c_running_w c1
                   then ev_io_w wanna_write (c1\<lparr>c_running_w := wanna_write\<rparr>) else c1)
         in (True, set_client l c2 st))"

section \<open>Virtual methods\<close>

record 's worker_vt =
  vOnReadable :: "ptr \<Rightarrow> 's \<Rightarrow> (int \<times> 's) option"
  vOnWritable :: "ptr \<Rightarrow> 's \<Rightarrow> (int \<times> 's) option"
  vOnError :: "ptr \<Rightarrow> bool \<Rightarrow> 's \<Rightarrow> 's"
  vOnDisconnected :: "ptr \<Rightarrow> 's \<Rightarrow> 's"
  vCleanup :: "ptr \<Rightarrow> int \<Rightarrow> 's \<Rightarrow> bool \<times> 's"
  vDelete :: "ptr \<Rightarrow> 's \<Rightarrow> 's"
  vRun :: "ptr \<Rightarrow> 's \<Rightarrow> bool \<times> 's"
  vRelease :: "ptr \<Rightarrow> 's \<Rightarrow> 's"
  vOnInitialize :: "'s \<Rightarrow> bool \<times> 's"
  vOnShutdown :: "'s \<Rightarrow> 's"

section \<open>Releasing a client\<close>

text \<open>
  What \<open>DoRelease\<close> does after the client has left \<open>_events\<close>: the linkage is told it is
  disconnected and deleted when the worker owns it.
\<close>

definition release_linkage :: "'s worker_vt \<Rightarrow> ptr \<Rightarrow> client_t \<Rightarrow> 's \<Rightarrow> 's" where
  "release_linkage vt l c st =
    (let st1 = vOnDisconnected vt l st
     in if c_auto_release c then vDelete vt l st1 else st1)"

definition DoRelease ::
  "'z worker_scheme worker_vt \<Rightarrow> ptr \<Rightarrow> 'z worker_scheme \<Rightarrow> 'z worker_scheme option" where
  "DoRelease vt l st =
    (case worker_client l st of
       None \<Rightarrow> None
     | Some c \<Rightarrow>
         Some (release_linkage vt l c (st\<lparr>w_events := AList.delete l (w_events st)\<rparr>)))"

text \<open>\<open>DoRelease(client, false)\<close> of the loop that ends \<open>Run\<close>: the entry stays.\<close>

definition DoRelease_keep ::
  "'z worker_scheme worker_vt \<Rightarrow> ptr \<times> client_t \<Rightarrow> 'z worker_scheme \<Rightarrow> 'z worker_scheme" where
  "DoRelease_keep vt e st = release_linkage vt (fst e) (snd e) st"

section \<open>Callbacks of the event loop\<close>

definition WorkerOnError ::
  "'z worker_scheme worker_vt \<Rightarrow> ptr \<Rightarrow> bool \<Rightarrow> 'z worker_scheme \<Rightarrow> 'z worker_scheme option" where
  "WorkerOnError vt l reading_or_writing st =
    DoRelease vt l (vOnError vt l reading_or_writing st)"

definition after_callback ::
  "'z worker_scheme worker_vt \<Rightarrow> ptr \<Rightarrow> bool \<Rightarrow> (int \<times> 'z worker_scheme) option
    \<Rightarrow> 'z worker_scheme option"
where
  "after_callback vt l reading_or_writing r =
    (case r of None \<Rightarrow> None | Some (ret, st) \<Rightarrow>
       if ret < 0 then WorkerOnError vt l reading_or_writing st
       else if ret = 0 then DoRelease vt l st
       else Some st)"

definition WorkerOnReadable ::
  "'z worker_scheme worker_vt \<Rightarrow> ptr \<Rightarrow> 'z worker_scheme \<Rightarrow> 'z worker_scheme option" where
  "WorkerOnReadable vt l st = after_callback vt l True (vOnReadable vt l st)"

definition WorkerOnWritable ::
  "'z worker_scheme worker_vt \<Rightarrow> ptr \<Rightarrow> 'z worker_scheme \<Rightarrow> 'z worker_scheme option" where
  "WorkerOnWritable vt l st = after_callback vt l False (vOnWritable vt l st)"

text \<open>
  \<open>OnHealthCheck\<close>: every attached linkage is asked whether it is still healthy; the ones
  that say no are released after the iteration.
\<close>

fun ask_cleanup ::
  "'s worker_vt \<Rightarrow> int \<Rightarrow> ptr list \<Rightarrow> 's \<Rightarrow> ptr list \<times> 's" where
  "ask_cleanup vt now [] st = ([], st)"
| "ask_cleanup vt now (l # ls) st =
    (case vCleanup vt l now st of (healthy, st1) \<Rightarrow>
       case ask_cleanup vt now ls st1 of (drops, st2) \<Rightarrow>
         (if healthy then drops else l # drops, st2))"

fun release_all ::
  "'z worker_scheme worker_vt \<Rightarrow> ptr list \<Rightarrow> 'z worker_scheme \<Rightarrow> 'z worker_scheme option" where
  "release_all vt [] st = Some st"
| "release_all vt (l # ls) st =
    (case DoRelease vt l st of None \<Rightarrow> None | Some st1 \<Rightarrow> release_all vt ls st1)"

definition OnHealthCheck ::
  "'z worker_scheme worker_vt \<Rightarrow> int \<Rightarrow> 'z worker_scheme \<Rightarrow> 'z worker_scheme option" where
  "OnHealthCheck vt now st =
    (case ask_cleanup vt now (map fst (w_events st)) st of (drops, st1) \<Rightarrow>
       release_all vt drops st1)"

section \<open>Commands and timers\<close>

definition SendCommand :: "ptr \<Rightarrow> 'z worker_scheme \<Rightarrow> bool \<times> 'z worker_scheme" where
  "SendCommand command st = (True, st\<lparr>w_commands := w_commands st @ [command]\<rparr>)"

definition WorkerShutdown :: "'z worker_scheme \<Rightarrow> bool \<times> 'z worker_scheme" where
  "WorkerShutdown st = SendCommand 0 st"

text \<open>The first loop of \<open>OnCommand\<close>; True when it left the method at a \<open>NULL\<close>.\<close>

fun run_commands ::
  "'z worker_scheme worker_vt \<Rightarrow> ptr list \<Rightarrow> 'z worker_scheme \<Rightarrow> bool \<times> 'z worker_scheme" where
  "run_commands vt [] st = (False, st)"
| "run_commands vt (c # cs) st =
    (if c = 0 then (True, st\<lparr>w_quit := True\<rparr>)
     else case vRun vt c st of (ok, st1) \<Rightarrow>
       if \<not> ok then (False, st1) else run_commands vt cs st1)"

definition OnCommand ::
  "'z worker_scheme worker_vt \<Rightarrow> 'z worker_scheme \<Rightarrow> 'z worker_scheme" where
  "OnCommand vt st =
    (let q = w_commands st in
     case run_commands vt q (st\<lparr>w_commands := []\<rparr>) of (returned, st1) \<Rightarrow>
       if returned then st1
       else fold (\<lambda>c s. if c = 0 then s else vRelease vt c s) q st1)"

definition RegisterTimer ::
  "int \<Rightarrow> int \<Rightarrow> runnable \<Rightarrow> bool \<Rightarrow> 'z worker_scheme \<Rightarrow> bool \<times> 'z worker_scheme" where
  "RegisterTimer after repeat run auto_release st =
    (if after < 0 \<or> repeat \<le> 0 \<or> run = Command 0 then (False, st)
     else (True, st\<lparr>w_timers := (w_next_timer st,
                      \<lparr>t_runnable = run, t_auto_release = auto_release,
                       t_after = after, t_repeat = repeat\<rparr>) # w_timers st,
                    w_next_timer := Suc (w_next_timer st)\<rparr>))"

definition release_runnable :: "'s worker_vt \<Rightarrow> timer_t \<Rightarrow> 's \<Rightarrow> 's" where
  "release_runnable vt t st =
    (case t_runnable t of HealthTimer \<Rightarrow> st
     | Command r \<Rightarrow> if t_auto_release t then vRelease vt r st else st)"

definition DoReleaseTimer ::
  "'z worker_scheme worker_vt \<Rightarrow> nat \<Rightarrow> timer_t \<Rightarrow> 'z worker_scheme \<Rightarrow> 'z worker_scheme" where
  "DoReleaseTimer vt i t st =
    (let st1 = release_runnable vt t st
     in st1\<lparr>w_timers := AList.delete i (w_timers st1)\<rparr>)"

text \<open>\<open>Run\<close> of a timer's runnable: \<open>HealthTimer\<close> checks the connections and goes on.\<close>

definition run_runnable ::
  "'z worker_scheme worker_vt \<Rightarrow> int \<Rightarrow> runnable \<Rightarrow> 'z worker_scheme
    \<Rightarrow> (bool \<times> 'z worker_scheme) option" where
  "run_runnable vt now r st =
    (case r of
       HealthTimer \<Rightarrow> map_option (Pair True) (OnHealthCheck vt now st)
     | Command p \<Rightarrow> Some (vRun vt p st))"

definition OnTimer ::
  "'z worker_scheme worker_vt \<Rightarrow> int \<Rightarrow> nat \<Rightarrow> timer_t \<Rightarrow> 'z worker_scheme \<Rightarrow> 'z worker_scheme option"
where
  "OnTimer vt now i t st =
    (case run_runnable vt now (t_runnable t) st of
       None \<Rightarrow> None
     | Some (ok, st1) \<Rightarrow> Some (if ok then st1 else DoReleaseTimer vt i t st1))"

section \<open>Running the loop\<close>

datatype worker_error = InitializeFailed | TimerFailed

definition health_interval :: int where
  "health_interval = 1000000000"

definition RunPrologue ::
  "'z worker_scheme worker_vt \<Rightarrow> int \<Rightarrow> 'z worker_scheme \<Rightarrow> worker_error + 'z worker_scheme" where
  "RunPrologue vt tid st =
    (case vOnInitialize vt st of (ok, st1) \<Rightarrow>
       if \<not> ok then Inl InitializeFailed
       else case RegisterTimer health_interval health_interval HealthTimer True st1 of (reg, st2) \<Rightarrow>
         if \<not> reg then Inl TimerFailed
         else Inr (st2\<lparr>w_running_thread_id := tid\<rparr>))"

definition RunEpilogue ::
  "'z worker_scheme worker_vt \<Rightarrow> 'z worker_scheme \<Rightarrow> 'z worker_scheme" where
  "RunEpilogue vt st =
    (let st1 = vOnShutdown vt (st\<lparr>w_running_thread_id := 0\<rparr>);
         st2 = fold (DoRelease_keep vt) (w_events st1) st1;
         st3 = fold (\<lambda>(i, t) s. release_runnable vt t s) (w_timers st2) st2
     in st3\<lparr>w_events := [], w_timers := []\<rparr>)"

text \<open>
  One turn of \<open>ev_run\<close>: libev invokes the callback of a started watcher, of an expired timer
  or of the wake-up watcher. Which one is the environment's choice.
\<close>

inductive worker_step ::
  "'z worker_scheme worker_vt \<Rightarrow> 'z worker_scheme \<Rightarrow> 'z worker_scheme \<Rightarrow> bool" for vt where
  readable_cb: "\<not> w_quit st \<Longrightarrow> worker_client l st = Some c \<Longrightarrow> c_watch_r c \<Longrightarrow>
     WorkerOnReadable vt l st = Some st' \<Longrightarrow> worker_step vt st st'"
| writable_cb: "\<not> w_quit st \<Longrightarrow> worker_client l st = Some c \<Longrightarrow> c_watch_w c \<Longrightarrow>
     WorkerOnWritable vt l st = Some st' \<Longrightarrow> worker_step vt st st'"
| timer_cb: "\<not> w_quit st \<Longrightarrow> map_of (w_timers st) i = Some t \<Longrightarrow>
     OnTimer vt now i t st = Some st' \<Longrightarrow> worker_step vt st st'"
| command_cb: "\<not> w_quit st \<Longrightarrow> OnCommand vt st = st' \<Longrightarrow> worker_step vt st st'"


section \<open>Well-formed workers\<close>

text \<open>
  The entries of \<open>_events\<close> have distinct non-null keys, a watcher is started exactly when the
  \<open>running\<close> flag says so, and timers have distinct identities.
\<close>

definition client_ok :: "client_t \<Rightarrow> bool" where
  "client_ok c \<longleftrightarrow> c_watch_r c = c_running_r c \<and> c_watch_w c = c_running_w c"

definition worker_wf :: "'z worker_scheme \<Rightarrow> bool" where
  "worker_wf st \<longleftrightarrow>
     distinct (map fst (w_events st)) \<and> 0 \<notin> worker_keys st \<and>
     (\<forall>e \<in> set (w_events st). client_ok (snd e)) \<and>
     distinct (map fst (w_timers st)) \<and> (\<forall>e \<in> set (w_timers st). fst e < w_next_timer st)"

definition wk_keeps :: "'z worker_scheme \<Rightarrow> 'z worker_scheme \<Rightarrow> bool" where
  "wk_keeps st st' \<longleftrightarrow> (worker_wf st \<longrightarrow> worker_wf st') \<and> worker_keys st' = worker_keys st"

definition wk_grows :: "'z worker_scheme \<Rightarrow> 'z worker_scheme \<Rightarrow> bool" where
  "wk_grows st st' \<longleftrightarrow> (worker_wf st \<longrightarrow> worker_wf st' \<and> worker_keys st \<subseteq> worker_keys st')"

lemma wk_keeps_refl [simp, intro]: "wk_keeps st st"
  by (simp add: wk_keeps_def)

lemma wk_keeps_trans [trans]: "wk_keeps a b \<Longrightarrow> wk_keeps b c \<Longrightarrow> wk_keeps a c"
  by (simp add: wk_keeps_def)

lemma wk_keeps_grows: "wk_keeps a b \<Longrightarrow> wk_grows a b"
  by (simp add: wk_keeps_def wk_grows_def)

lemma wk_grows_trans [trans]: "wk_grows a b \<Longrightarrow> wk_grows b c \<Longrightarrow> wk_grows a c"
  by (auto simp: wk_grows_def)

lemma worker_client_key: "worker_client l st = Some c \<Longrightarrow> l \<in> worker_keys st"
  by (force simp: worker_client_def worker_keys_def dest: map_of_SomeD)

lemma worker_client_None: "worker_client l st = None \<longleftrightarrow> l \<notin> worker_keys st"
  by (simp add: worker_client_def worker_keys_def map_of_eq_None_iff)

lemma worker_key_client: "l \<in> worker_keys st \<Longrightarrow> \<exists>c. worker_client l st = Some c"
  using worker_client_None by fastforce

lemma worker_client_set [simp]:
  "worker_client k (set_client l c st) = (if k = l then Some c else worker_client k st)"
  by (simp add: worker_client_def set_client_def update_conv')

lemma worker_keys_set [simp]: "worker_keys (set_client l c st) = insert l (worker_keys st)"
proof -
  have "k \<in> worker_keys (set_client l c st) \<longleftrightarrow> k \<in> insert l (worker_keys st)" for k
    using worker_client_None [of k "set_client l c st"] worker_client_None [of k st]
    by (auto split: if_splits)
  then show ?thesis by blast
qed

lemma client_ok_client: "worker_wf st \<Longrightarrow> worker_client l st = Some c \<Longrightarrow> client_ok c"
  by (force simp: worker_wf_def worker_client_def dest: map_of_SomeD)

lemma worker_wf_clients:
  "worker_wf st \<longleftrightarrow> distinct (map fst (w_events st)) \<and> 0 \<notin> worker_keys st \<and>
     (\<forall>l c. worker_client l st = Some c \<longrightarrow> client_ok c) \<and>
     distinct (map fst (w_timers st)) \<and> (\<forall>e \<in> set (w_timers st). fst e < w_next_timer st)"
  by (cases "distinct (map fst (w_events st))")
    (auto simp: worker_wf_def worker_client_def)

lemma worker_wf_set:
  "worker_wf st \<Longrightarrow> l \<noteq> 0 \<Longrightarrow> client_ok c \<Longrightarrow> worker_wf (set_client l c st)"
  unfolding worker_wf_clients
  by (auto simp: set_client_def distinct_update worker_client_def update_conv' worker_keys_def
      dom_update split: if_splits)

lemma set_client_keeps:
  assumes "worker_client l st = Some c'" and "client_ok c' \<Longrightarrow> client_ok c"
  shows "wk_keeps st (set_client l c st)"
proof -
  from assms(1) have l: "l \<in> worker_keys st" by (rule worker_client_key)
  have "worker_wf (set_client l c st)" if wf: "worker_wf st"
  proof (rule worker_wf_set [OF wf])
    show "l \<noteq> 0" using wf l by (metis worker_wf_def)
    show "client_ok c" using assms client_ok_client [OF wf assms(1)] by blast
  qed
  with l show ?thesis by (auto simp: wk_keeps_def)
qed

lemma SetWannaRead_keeps: "wk_keeps st (snd (SetWannaRead l wanna st))"
  by (auto simp: SetWannaRead_def client_ok_def ev_io_r_def split: option.splits
      intro!: set_client_keeps)

lemma SetWannaWrite_keeps: "wk_keeps st (snd (SetWannaWrite l wanna st))"
  by (auto simp: SetWannaWrite_def client_ok_def ev_io_w_def split: option.splits
      intro!: set_client_keeps)

lemma SetWanna_keeps: "wk_keeps st (snd (SetWanna l r w st))"
  by (auto simp: SetWanna_def client_ok_def ev_io_r_def ev_io_w_def Let_def split: option.splits
      intro!: set_client_keeps)

lemma Attach_grows: "wk_grows st (snd (Attach l fd r w a st))"
proof -
  have "worker_wf (set_client l c st)" if "l \<noteq> 0" "worker_wf st" "client_ok c" for c
    using that by (intro worker_wf_set) auto
  then show ?thesis
    by (auto simp: Attach_def wk_grows_def Let_def client_ok_def ev_io_r_def ev_io_w_def)
qed

lemma worker_keys_delete:
  "worker_keys (st\<lparr>w_events := AList.delete l (w_events st)\<rparr>) = worker_keys st - {l}"
  using worker_client_None [of _ "st\<lparr>w_events := AList.delete l (w_events st)\<rparr>"]
    worker_client_None [of _ st]
  by (auto simp: worker_client_def delete_conv' worker_keys_def AList.delete_eq)

lemma worker_wf_delete:
  "worker_wf st \<Longrightarrow> worker_wf (st\<lparr>w_events := AList.delete l (w_events st)\<rparr>)"
proof -
  assume wf: "worker_wf st"
  have "set (AList.delete l (w_events st)) \<subseteq> set (w_events st)"
    by (auto simp: AList.delete_eq)
  with wf show ?thesis
    by (auto simp: worker_wf_def worker_keys_def distinct_delete)
qed

lemma worker_keys_Detach:
  "worker_wf st \<Longrightarrow> worker_keys (snd (Detach l st)) = worker_keys st - {l}"
  by (auto simp: Detach_def worker_keys_delete worker_client_None worker_wf_def)

lemma worker_wf_Detach: "worker_wf st \<Longrightarrow> worker_wf (snd (Detach l st))"
  by (auto simp: Detach_def worker_wf_delete)

lemma worker_wf_new [simp]: "worker_wf new_worker"
  by (simp add: worker_wf_def new_worker_def worker_keys_def)

section \<open>The contract of the virtual methods\<close>

text \<open>
  What the worker relies on when it calls through \<open>LinkageBase\<close> and \<open>Runnable\<close>: every method
  keeps the worker well-formed, the event and command methods may attach connections but detach
  none, the others leave the set of attached connections alone.
\<close>

locale linkage_base =
  fixes vt :: "'z worker_scheme worker_vt"
  assumes readable_grows: "vOnReadable vt l st = Some r \<Longrightarrow> wk_grows st (snd r)"
    and writable_grows: "vOnWritable vt l st = Some r \<Longrightarrow> wk_grows st (snd r)"
    and run_grows: "wk_grows st (snd (vRun vt l st))"
    and error_keeps: "wk_keeps st (vOnError vt l b st)"
    and disconnected_keeps: "wk_keeps st (vOnDisconnected vt l st)"
    and cleanup_keeps: "wk_keeps st (snd (vCleanup vt l now st))"
    and delete_keeps: "wk_keeps st (vDelete vt l st)"
    and release_keeps: "wk_keeps st (vRelease vt l st)"
begin

lemma release_linkage_keeps: "wk_keeps st (release_linkage vt l c st)"
  by (auto simp: release_linkage_def Let_def intro: wk_keeps_trans disconnected_keeps delete_keeps)

lemma DoRelease_ok:
  assumes "worker_wf st" and "l \<in> worker_keys st"
  shows "\<exists>st'. DoRelease vt l st = Some st' \<and> worker_wf st' \<and> worker_keys st' = worker_keys st - {l}"
proof -
  from assms(2) obtain c where c: "worker_client l st = Some c" by (auto dest: worker_key_client)
  let ?st = "st\<lparr>w_events := AList.delete l (w_events st)\<rparr>"
  have "wk_keeps ?st (release_linkage vt l c ?st)" by (rule release_linkage_keeps)
  moreover have "worker_wf ?st" using assms(1) by (rule worker_wf_delete)
  ultimately show ?thesis
    by (auto simp: DoRelease_def c wk_keeps_def worker_keys_delete)
qed

lemma after_callback_ok:
  assumes "worker_wf st" and "l \<in> worker_keys st" and "wk_grows st (snd r)"
  shows "\<exists>st'. after_callback vt l b (Some r) = Some st' \<and> worker_wf st' \<and>
    worker_keys st - {l} \<subseteq> worker_keys st'"
proof -
  obtain ret st1 where r: "r = (ret, st1)" by (cases r)
  from assms r have 1: "worker_wf st1" "l \<in> worker_keys st1" "worker_keys st \<subseteq> worker_keys st1"
    by (auto simp: wk_grows_def)
  have e: "wk_keeps st1 (vOnError vt l b st1)" by (rule error_keeps)
  with 1 have 2: "worker_wf (vOnError vt l b st1)" "l \<in> worker_keys (vOnError vt l b st1)"
    "worker_keys (vOnError vt l b st1) = worker_keys st1"
    by (auto simp: wk_keeps_def)
  show ?thesis
    using DoRelease_ok [OF 1(1,2)] DoRelease_ok [OF 2(1,2)] 1 2
    by (auto simp: after_callback_def r WorkerOnError_def)
qed

lemma readable_ok:
  assumes "worker_wf st" and "l \<in> worker_keys st" and "vOnReadable vt l st = Some r"
  shows "\<exists>st'. WorkerOnReadable vt l st = Some st' \<and> worker_wf st' \<and>
    worker_keys st - {l} \<subseteq> worker_keys st'"
  unfolding WorkerOnReadable_def assms(3) using assms(1,2) readable_grows [OF assms(3)]
  by (rule after_callback_ok)

lemma writable_ok:
  assumes "worker_wf st" and "l \<in> worker_keys st" and "vOnWritable vt l st = Some r"
  shows "\<exists>st'. WorkerOnWritable vt l st = Some st' \<and> worker_wf st' \<and>
    worker_keys st - {l} \<subseteq> worker_keys st'"
  unfolding WorkerOnWritable_def assms(3) using assms(1,2) writable_grows [OF assms(3)]
  by (rule after_callback_ok)

lemma ask_cleanup_keeps: "wk_keeps st (snd (ask_cleanup vt now ls st))"
proof (induction ls arbitrary: st)
  case Nil
  then show ?case by simp
next
  case (Cons l ls)
  have "wk_keeps st (snd (vCleanup vt l now st))" by (rule cleanup_keeps)
  also have "wk_keeps (snd (vCleanup vt l now st)) (snd (ask_cleanup vt now (l # ls) st))"
    using Cons.IH [of "snd (vCleanup vt l now st)"] by (simp add: case_prod_beta)
  finally show ?case .
qed

lemma ask_cleanup_drops:
  "set (fst (ask_cleanup vt now ls st)) \<subseteq> set ls \<and>
   (distinct ls \<longrightarrow> distinct (fst (ask_cleanup vt now ls st)))"
proof (induction ls arbitrary: st)
  case Nil
  then show ?case by simp
next
  case (Cons l ls)
  show ?case
    using Cons.IH [of "snd (vCleanup vt l now st)"]
    by (auto split: prod.splits if_splits)
qed

lemma release_all_ok:
  assumes "worker_wf st" and "distinct ls" and "set ls \<subseteq> worker_keys st"
  shows "\<exists>st'. release_all vt ls st = Some st' \<and> worker_wf st' \<and>
    worker_keys st' = worker_keys st - set ls"
  using assms
proof (induction ls arbitrary: st)
  case Nil
  then show ?case by simp
next
  case (Cons l ls)
  from Cons.prems obtain st1 where
    "DoRelease vt l st = Some st1" "worker_wf st1" "worker_keys st1 = worker_keys st - {l}"
    using DoRelease_ok [of st l] by auto
  moreover from this Cons.prems have "set ls \<subseteq> worker_keys st1" by auto
  moreover have "worker_keys st - {l} - set ls = worker_keys st - set (l # ls)" by auto
  ultimately show ?case using Cons.IH [of st1] Cons.prems by auto
qed

lemma health_check_ok:
  assumes "worker_wf st"
  shows "\<exists>st'. OnHealthCheck vt now st = Some st' \<and> worker_wf st' \<and>
    worker_keys st' = worker_keys st - set (fst (ask_cleanup vt now (map fst (w_events st)) st))"
proof -
  let ?r = "ask_cleanup vt now (map fst (w_events st)) st"
  have k: "wk_keeps st (snd ?r)" by (rule ask_cleanup_keeps)
  from assms have "distinct (map fst (w_events st))" by (simp add: worker_wf_def)
  then have d: "distinct (fst ?r)" "set (fst ?r) \<subseteq> worker_keys st"
    using ask_cleanup_drops [of now "map fst (w_events st)" st] by (auto simp: worker_keys_def)
  from k assms d have "worker_wf (snd ?r)" "set (fst ?r) \<subseteq> worker_keys (snd ?r)"
    "worker_keys (snd ?r) = worker_keys st"
    by (auto simp: wk_keeps_def)
  with release_all_ok [of "snd ?r" "fst ?r"] d show ?thesis
    by (simp add: OnHealthCheck_def case_prod_beta)
qed

lemma run_commands_grows: "wk_grows st (snd (run_commands vt q st))"
proof (induction q arbitrary: st)
  case Nil
  then show ?case by (simp add: wk_grows_def)
next
  case (Cons c q)
  have "wk_grows st (st\<lparr>w_quit := True\<rparr>)"
    by (simp add: wk_grows_def worker_wf_def worker_keys_def)
  moreover have "wk_grows st (snd (run_commands vt q (snd (vRun vt c st))))"
    using run_grows Cons.IH by (rule wk_grows_trans)
  ultimately show ?case
    using run_grows [of st c] by (auto split: prod.splits)
qed

lemma fold_keeps:
  assumes "\<And>x s. wk_keeps s (f x s)"
  shows "wk_keeps s (fold f xs s)"
proof (induction xs arbitrary: s)
  case Nil
  then show ?case by simp
next
  case (Cons x xs)
  have "wk_keeps s (f x s)" by (rule assms)
  also have "wk_keeps (f x s) (fold f xs (f x s))" by (rule Cons.IH)
  finally show ?case by simp
qed

lemma OnCommand_grows: "wk_grows st (OnCommand vt st)"
proof -
  let ?s = "st\<lparr>w_commands := []\<rparr>"
  let ?r = "run_commands vt (w_commands st) ?s"
  have 1: "wk_grows st ?s" by (simp add: wk_grows_def worker_wf_def worker_keys_def)
  have 2: "wk_grows ?s (snd ?r)" by (rule run_commands_grows)
  have 3: "wk_grows (snd ?r) (fold (\<lambda>c s. if c = 0 then s else vRelease vt c s) (w_commands st) (snd ?r))"
    by (rule wk_keeps_grows, rule fold_keeps) (simp add: release_keeps)
  from wk_grows_trans [OF 1 2] wk_grows_trans [OF wk_grows_trans [OF 1 2] 3]
  show ?thesis by (auto simp: OnCommand_def Let_def case_prod_beta)
qed

lemma release_runnable_keeps: "wk_keeps st (release_runnable vt t st)"
  by (auto simp: release_runnable_def release_keeps split: runnable.splits)

lemma DoReleaseTimer_keeps: "wk_keeps st (DoReleaseTimer vt i t st)"
proof -
  have "wk_keeps s (s\<lparr>w_timers := AList.delete i (w_timers s)\<rparr>)" for s
  proof -
    have "set (AList.delete i (w_timers s)) \<subseteq> set (w_timers s)" by (auto simp: AList.delete_eq)
    then show ?thesis
      by (auto simp: wk_keeps_def worker_wf_def worker_keys_def distinct_delete)
  qed
  with release_runnable_keeps show ?thesis
    by (simp add: DoReleaseTimer_def Let_def) (blast intro: wk_keeps_trans)
qed

lemma OnTimer_wf:
  assumes "worker_wf st" and "OnTimer vt now i t st = Some st'"
  shows "worker_wf st'"
proof -
  obtain ok st1 where r: "run_runnable vt now (t_runnable t) st = Some (ok, st1)"
    and st': "st' = (if ok then st1 else DoReleaseTimer vt i t st1)"
    using assms(2) by (auto simp: OnTimer_def split: option.splits)
  have "worker_wf st1"
  proof (cases "t_runnable t")
    case HealthTimer
    with r obtain st2 where "OnHealthCheck vt now st = Some st2" "st1 = st2"
      by (auto simp: run_runnable_def)
    with health_check_ok [OF assms(1), of now] show ?thesis by auto
  next
    case (Command p)
    with r run_grows [of st p] assms(1) show ?thesis
      by (auto simp: run_runnable_def wk_grows_def)
  qed
  with DoReleaseTimer_keeps [of st1 i t] st' show ?thesis by (auto simp: wk_keeps_def)
qed

lemma worker_step_wf: "worker_step vt st st' \<Longrightarrow> worker_wf st \<Longrightarrow> worker_wf st'"
proof (induction rule: worker_step.induct)
  case (readable_cb st l c st')
  then obtain r where "vOnReadable vt l st = Some r"
    by (auto simp: WorkerOnReadable_def after_callback_def split: option.splits)
  with readable_ok [of st l r] readable_cb show ?case by (auto dest: worker_client_key)
next
  case (writable_cb st l c st')
  then obtain r where "vOnWritable vt l st = Some r"
    by (auto simp: WorkerOnWritable_def after_callback_def split: option.splits)
  with writable_ok [of st l r] writable_cb show ?case by (auto dest: worker_client_key)
next
  case (timer_cb st i t now st')
  then show ?case by (blast intro: OnTimer_wf)
next
  case (command_cb st st')
  with OnCommand_grows [of st] show ?case by (auto simp: wk_grows_def)
qed

end

text \<open>A worker's loop keeps it well-formed: the generic invariant argument applies.\<close>

sublocale linkage_base \<subseteq> worker_inv: step_invariant "worker_step vt" worker_wf
  by unfold_locales (rule worker_step_wf)

end
