(* ===== verification/Linkage.thy ===== *)
theory Linkage
  imports Linkage_Worker
begin

text \<open>
  \<open>flinter/linkage/abstract_io.h\<close>, \<open>linkage.h\<close>, \<open>linkage.cpp\<close>: one connection. Its record
  extends the worker's, so that the calls \<open>worker->SetWanna(this, ...)\<close> act on the same state.
  The transport (\<open>AbstractIo\<close>) and the user's \<open>LinkageHandler\<close> are records of virtual methods:
  the transport acts on its own state \<open>'io\<close>, a handler sees the whole state and answers with a
  return code, its own new state and the list of public calls it makes on the linkage
  (\<open>Send\<close>, \<open>Disconnect\<close>). \<open>get_monotonic_timestamp()\<close> reads the field \<open>l_clock\<close>, which only the
  environment changes. The fields \<open>l_delivered\<close> (messages passed to \<open>OnMessage\<close>) and \<open>l_wire\<close>
  (bytes the transport accepted) record what the connection did; no operation reads them.
\<close>

section \<open>The transport interface\<close>

datatype io_status =
    kStatusOk
  | kStatusBug
  | kStatusError
  | kStatusJammed
  | kStatusClosed
  | kStatusWannaRead
  | kStatusWannaWrite

datatype io_action =
    kActionNone
  | kActionRead
  | kActionWrite
  | kActionAccept
  | kActionConnect
  | kActionShutdown

text \<open>
  \<open>ioRead\<close> is given the size of the buffer and returns the bytes it put there and \<open>more\<close>;
  \<open>ioWrite\<close> returns how many bytes it took; \<open>ioInitialize\<close> returns its result, \<open>action\<close>,
  \<open>next_action\<close>, \<open>wanna_read\<close> and \<open>wanna_write\<close>.
\<close>

record 'io io_vt =
  ioInitialize :: "'io \<Rightarrow> (bool \<times> io_action \<times> io_action \<times> bool \<times> bool) \<times> 'io"
  ioRead :: "nat \<Rightarrow> 'io \<Rightarrow> (io_status \<times> bytes \<times> bool) \<times> 'io"
  ioWrite :: "bytes \<Rightarrow> 'io \<Rightarrow> (io_status \<times> nat) \<times> 'io"
  ioShutdown :: "'io \<Rightarrow> io_status \<times> 'io"
  ioConnect :: "'io \<Rightarrow> io_status \<times> 'io"
  ioAccept :: "'io \<Rightarrow> io_status \<times> 'io"

definition INCOMPLETE :: "io_status \<Rightarrow> bool" where
  "INCOMPLETE x \<longleftrightarrow> x = kStatusWannaRead \<or> x = kStatusWannaWrite"

section \<open>State and handlers\<close>

record ('io, 'u) linkage = worker +
  l_self :: ptr
  l_rbuffer :: bytes
  l_wbuffer :: bytes
  l_last_writing :: nat
  l_fd :: int
  l_io :: 'io
  l_receive_timeout :: int
  l_connect_timeout :: int
  l_last_received :: int
  l_idle_timeout :: int
  l_send_timeout :: int
  l_receive_jam :: int
  l_connect_jam :: int
  l_last_sent :: int
  l_send_jam :: int
  l_action :: io_action
  l_worker :: ptr
  l_rlength :: nat
  l_graceful :: bool
  l_closed :: bool
  l_user :: 'u
  l_clock :: int
  l_delivered :: "bytes list"
  l_wire :: bytes

datatype call = CallSend "bytes option" | CallDisconnect bool

record ('s, 'u) handler_vt =
  hGetMessageLength :: "bytes \<Rightarrow> 's \<Rightarrow> int"
  hOnMessage :: "bytes \<Rightarrow> 's \<Rightarrow> int \<times> call list \<times> 'u"
  hOnConnected :: "'s \<Rightarrow> bool \<times> call list \<times> 'u"
  hOnDisconnected :: "'s \<Rightarrow> call list \<times> 'u"
  hOnError :: "bool \<Rightarrow> 's \<Rightarrow> call list \<times> 'u"
  hCleanup :: "int \<Rightarrow> 's \<Rightarrow> bool \<times> call list \<times> 'u"

definition kDefaultReceiveTimeout :: int where "kDefaultReceiveTimeout = 15000000000"
definition kDefaultConnectTimeout :: int where "kDefaultConnectTimeout = 15000000000"
definition kDefaultSendTimeout :: int where "kDefaultSendTimeout = 15000000000"
definition kDefaultIdleTimeout :: int where "kDefaultIdleTimeout = 300000000000"

text \<open>The constructor, in a state whose worker part is \<open>w\<close>.\<close>

definition new_linkage :: "worker \<Rightarrow> ptr \<Rightarrow> int \<Rightarrow> 'io \<Rightarrow> 'u \<Rightarrow> int \<Rightarrow> ('io, 'u) linkage" where
  "new_linkage w p fd io u now = worker.extend w
    \<lparr>l_self = p, l_rbuffer = [], l_wbuffer = [], l_last_writing = 0, l_fd = fd, l_io = io,
     l_receive_timeout = kDefaultReceiveTimeout, l_connect_timeout = kDefaultConnectTimeout,
     l_last_received = now, l_idle_timeout = kDefaultIdleTimeout,
     l_send_timeout = kDefaultSendTimeout, l_receive_jam = 0, l_connect_jam = 0,
     l_last_sent = now, l_send_jam = 0, l_action = kActionNone, l_worker = 0, l_rlength = 0,
     l_graceful = False, l_closed = False, l_user = u, l_clock = now, l_delivered = [],
     l_wire = []\<rparr>"

section \<open>Sending buffer and timestamps\<close>

definition kMaximumBytes :: nat where
  "kMaximumBytes = 64 * 1024 * 1024"

definition INT_MAX :: nat where
  "INT_MAX = 2147483647"

text \<open>\<open>size_t\<close> subtraction wraps around, so the room left is computed on 64-bit words.\<close>

definition AppendSendingBuffer :: "bytes \<Rightarrow> ('io, 'u) linkage \<Rightarrow> bool \<times> ('io, 'u) linkage" where
  "AppendSendingBuffer buffer s =
    (let left = (of_nat kMaximumBytes - of_nat (length (l_wbuffer s)) :: u64)
     in if left < of_nat (length buffer) then (False, s)
        else (True, s\<lparr>l_wbuffer := l_wbuffer s @ buffer\<rparr>))"

definition PickSendingBuffer :: "('io, 'u) linkage \<Rightarrow> bytes \<times> ('io, 'u) linkage" where
  "PickSendingBuffer s =
    (if l_wbuffer s = [] then ([], s)
     else if l_last_writing s \<noteq> 0
       then (take (l_last_writing s) (l_wbuffer s), s\<lparr>l_last_writing := 0\<rparr>)
     else (l_wbuffer s, s))"

definition ConsumeSendingBuffer :: "nat \<Rightarrow> ('io, 'u) linkage \<Rightarrow> ('io, 'u) linkage" where
  "ConsumeSendingBuffer n s = s\<lparr>l_wbuffer := drop n (l_wbuffer s)\<rparr>"

definition GetSendingBufferSize :: "('io, 'u) linkage \<Rightarrow> nat" where
  "GetSendingBufferSize s = length (l_wbuffer s)"

definition DumpSendingBuffer :: "('io, 'u) linkage \<Rightarrow> ('io, 'u) linkage" where
  "DumpSendingBuffer s = s\<lparr>l_wbuffer := []\<rparr>"

definition UpdateLastReceived :: "('io, 'u) linkage \<Rightarrow> ('io, 'u) linkage" where
  "UpdateLastReceived s = s\<lparr>l_last_received := l_clock s\<rparr>"

definition UpdateReceiveJam :: "bool \<Rightarrow> ('io, 'u) linkage \<Rightarrow> ('io, 'u) linkage" where
  "UpdateReceiveJam jammed s =
    (if jammed then (if l_receive_jam s = 0 then s\<lparr>l_receive_jam := l_clock s\<rparr> else s)
     else s\<lparr>l_receive_jam := 0\<rparr>)"

definition UpdateConnectJam :: "bool \<Rightarrow> ('io, 'u) linkage \<Rightarrow> ('io, 'u) linkage" where
  "UpdateConnectJam jammed s =
    (if jammed then (if l_connect_jam s = 0 then s\<lparr>l_connect_jam := l_clock s\<rparr> else s)
     else s\<lparr>l_connect_jam := 0\<rparr>)"

definition UpdateLastSent :: "bool \<Rightarrow> bool \<Rightarrow> ('io, 'u) linkage \<Rightarrow> ('io, 'u) linkage" where
  "UpdateLastSent sent jammed s =
    (let now = l_clock s;
         s1 = (if sent then s\<lparr>l_last_sent := now\<rparr> else s)
     in if jammed then (if l_send_jam s1 = 0 then s1\<lparr>l_send_jam := now\<rparr> else s1)
        else s1\<lparr>l_send_jam := 0\<rparr>)"

text \<open>\<open>worker->SetWanna(this, r, w)\<close> and its one-sided variants, results unused.\<close>

definition set_wanna :: "bool \<Rightarrow> bool \<Rightarrow> ('io, 'u) linkage \<Rightarrow> ('io, 'u) linkage" where
  "set_wanna r w s = snd (SetWanna (l_self s) r w s)"

definition set_wanna_read :: "bool \<Rightarrow> ('io, 'u) linkage \<Rightarrow> ('io, 'u) linkage" where
  "set_wanna_read b s = snd (SetWannaRead (l_self s) b s)"

definition set_wanna_write :: "bool \<Rightarrow> ('io, 'u) linkage \<Rightarrow> ('io, 'u) linkage" where
  "set_wanna_write b s = snd (SetWannaWrite (l_self s) b s)"

text \<open>\<open>_io->Write(buffer, length, &retlen)\<close>.\<close>

definition io_write ::
  "'io io_vt \<Rightarrow> bytes \<Rightarrow> ('io, 'u) linkage \<Rightarrow> (io_status \<times> nat) \<times> ('io, 'u) linkage" where
  "io_write V b s =
    (case ioWrite V b (l_io s) of ((status, n), io') \<Rightarrow>
       ((status, n), s\<lparr>l_io := io',
          l_wire := (if status = kStatusOk then l_wire s @ take n b else l_wire s)\<rparr>))"

section \<open>Sending\<close>

definition Send ::
  "'io io_vt \<Rightarrow> bytes option \<Rightarrow> ('io, 'u) linkage \<Rightarrow> bool \<times> ('io, 'u) linkage" where
  "Send V buffer s =
    (case buffer of None \<Rightarrow> (False, s) | Some b \<Rightarrow>
     if length b > INT_MAX \<or> l_worker s = 0 \<or> l_graceful s then (False, s)
     else if b = [] then (True, s)
     else if l_action s \<noteq> kActionNone \<or> GetSendingBufferSize s \<noteq> 0 then AppendSendingBuffer b s
     else case io_write V b s of ((status, retlen), s1) \<Rightarrow>
       (case status of
          kStatusJammed \<Rightarrow>
            (case AppendSendingBuffer b s1 of (ok, s2) \<Rightarrow>
               if \<not> ok then (False, s2)
               else (True, UpdateLastSent False True (set_wanna False True s2)))
        | kStatusWannaRead \<Rightarrow>
            (case AppendSendingBuffer b s1 of (ok, s2) \<Rightarrow>
               if \<not> ok then (False, s2)
               else (True, (UpdateLastSent False True
                      (set_wanna True False (s2\<lparr>l_action := kActionWrite\<rparr>)))
                        \<lparr>l_last_writing := length b\<rparr>))
        | kStatusWannaWrite \<Rightarrow>
            (case AppendSendingBuffer b s1 of (ok, s2) \<Rightarrow>
               if \<not> ok then (False, s2)
               else (True, (UpdateLastSent False True
                      (set_wanna False True (s2\<lparr>l_action := kActionWrite\<rparr>)))
                        \<lparr>l_last_writing := length b\<rparr>))
        | kStatusOk \<Rightarrow>
            if retlen < length b then
              (case AppendSendingBuffer (drop retlen b) s1 of (ok, s2) \<Rightarrow>
                 if \<not> ok then (False, s2)
                 else (True, UpdateLastSent True True (set_wanna_write True s2)))
            else (True, UpdateLastSent True False s1)
        | _ \<Rightarrow> (False, s1)))"

section \<open>Shutting down\<close>

definition AfterEvent :: "io_status \<Rightarrow> ('io, 'u) linkage \<Rightarrow> int \<times> ('io, 'u) linkage" where
  "AfterEvent status s =
    (case status of
       kStatusWannaRead \<Rightarrow> (1, set_wanna True False s)
     | kStatusWannaWrite \<Rightarrow> (1, set_wanna False True s)
     | kStatusClosed \<Rightarrow> (0, s)
     | kStatusOk \<Rightarrow> (1, s)
     | _ \<Rightarrow> (-1, s))"

text \<open>\<open>Shutdown(&status)\<close>; \<open>status\<close> is what the variable holds before the call.\<close>

definition LinkageShutdown ::
  "'io io_vt \<Rightarrow> io_status \<Rightarrow> ('io, 'u) linkage \<Rightarrow> (int \<times> io_status) \<times> ('io, 'u) linkage" where
  "LinkageShutdown V status s =
    (let s1 = s\<lparr>l_graceful := True\<rparr> in
     if l_closed s1 then ((0, status), s1)
     else
       let s2 = UpdateConnectJam True s1 in
       case ioShutdown V (l_io s2) of (st, io') \<Rightarrow>
         let s3 = s2\<lparr>l_io := io'\<rparr> in
         if st = kStatusOk \<or> st = kStatusClosed then ((0, st), s3\<lparr>l_closed := True\<rparr>)
         else if INCOMPLETE st then ((1, st), s3)
         else ((-1, st), s3))"

text \<open>The branch of \<open>OnEventOnce\<close> for \<open>kActionShutdown\<close>; it never asks for a next action.\<close>

definition OnEventShutdown :: "'io io_vt \<Rightarrow> ('io, 'u) linkage \<Rightarrow> int \<times> ('io, 'u) linkage" where
  "OnEventShutdown V s =
    (case LinkageShutdown V kStatusBug s of ((ret, status), s1) \<Rightarrow>
       if ret \<le> 0 then (ret, set_wanna_read True (s1\<lparr>l_action := kActionNone\<rparr>))
       else AfterEvent status
              (s1\<lparr>l_action := (if INCOMPLETE status then kActionShutdown else kActionNone)\<rparr>))"

text \<open>What \<open>OnEvent\<close> does after its loop.\<close>

definition restore_wanna :: "('io, 'u) linkage \<Rightarrow> ('io, 'u) linkage" where
  "restore_wanna s =
    (if l_action s = kActionNone then set_wanna True (GetSendingBufferSize s \<noteq> 0) s else s)"

text \<open>
  \<open>Disconnect\<close> runs \<open>OnEvent(_worker, kActionShutdown)\<close> when no action is in progress; the loop
  of \<open>OnEvent\<close> then runs its body once, which lemma \<open>OnEvent_shutdown\<close> states.
  The call asserts that the linkage is attached.
\<close>

definition Disconnect :: "'io io_vt \<Rightarrow> bool \<Rightarrow> ('io, 'u) linkage \<Rightarrow> int \<times> ('io, 'u) linkage" where
  "Disconnect V finish_write s =
    (let s1 = s\<lparr>l_graceful := True\<rparr>;
         s2 = (if \<not> finish_write then DumpSendingBuffer s1 else s1)
     in if l_action s2 \<noteq> kActionNone then (1, s2)
        else case OnEventShutdown V s2 of (ret, s3) \<Rightarrow> (ret, restore_wanna s3))"

text \<open>The public calls a handler makes before it returns.\<close>

fun apply_calls :: "'io io_vt \<Rightarrow> call list \<Rightarrow> ('io, 'u) linkage \<Rightarrow> ('io, 'u) linkage" where
  "apply_calls V [] s = s"
| "apply_calls V (CallSend b # cs) s = apply_calls V cs (snd (Send V b s))"
| "apply_calls V (CallDisconnect f # cs) s = apply_calls V cs (snd (Disconnect V f s))"

section \<open>Receiving\<close>

definition OnMessage ::
  "'io io_vt \<Rightarrow> (('io, 'u) linkage, 'u) handler_vt \<Rightarrow> bytes \<Rightarrow> ('io, 'u) linkage
    \<Rightarrow> int \<times> ('io, 'u) linkage" where
  "OnMessage V H m s =
    (case hOnMessage H m s of (ret, calls, u) \<Rightarrow>
       (ret, apply_calls V calls (s\<lparr>l_user := u, l_delivered := l_delivered s @ [m]\<rparr>)))"

text \<open>
  The length test at the head of the loop of \<open>DoReceived\<close>: \<open>Inl\<close> leaves the loop with a return
  code, \<open>Inr\<close> goes on with \<open>_rlength\<close> set. \<open>_rlength\<close> is private and no public method a handler
  can call writes it, so the loop reads it once per message.
\<close>

definition determine_length ::
  "(('io, 'u) linkage, 'u) handler_vt \<Rightarrow> bytes \<Rightarrow> ('io, 'u) linkage
    \<Rightarrow> int \<times> ('io, 'u) linkage + ('io, 'u) linkage" where
  "determine_length H p s =
    (if l_rlength s \<noteq> 0 then Inr s
     else let ret = hGetMessageLength H p s in
       if ret < 0 then Inl (-1, s)
       else if ret = 0 then Inl (1, UpdateReceiveJam True s)
       else Inr (s\<lparr>l_rlength := nat ret\<rparr>))"

lemma determine_length_pos: "determine_length H p s = Inr s1 \<Longrightarrow> 0 < l_rlength s1"
  by (auto simp: determine_length_def Let_def split: if_splits)

text \<open>\<open>DoReceived(ptr, length, &consumed)\<close>: return code, \<open>consumed\<close> and the state.\<close>

function DoReceived ::
  "'io io_vt \<Rightarrow> (('io, 'u) linkage, 'u) handler_vt \<Rightarrow> bytes \<Rightarrow> nat \<Rightarrow> ('io, 'u) linkage
    \<Rightarrow> (int \<times> nat) \<times> ('io, 'u) linkage" where
  "DoReceived V H p consumed s =
    (if p = [] then ((1, consumed), s)
     else case determine_length H p s of
       Inl (ret, s1) \<Rightarrow> ((ret, consumed), s1)
     | Inr s1 \<Rightarrow>
         if length p < l_rlength s1 then ((1, consumed), UpdateReceiveJam True s1)
         else case OnMessage V H (take (l_rlength s1) p) (UpdateReceiveJam False s1) of
           (next_ret, s2) \<Rightarrow>
             if next_ret < 0 then ((-1, consumed), s2)
             else if next_ret = 0 then ((0, consumed), s2)
             else DoReceived V H (drop (l_rlength s1) p) (consumed + l_rlength s1)
                    (s2\<lparr>l_rlength := 0\<rparr>))"
  by pat_completeness auto
termination
  by (relation "measure (\<lambda>(V, H, p, c, s). length p)") (auto dest: determine_length_pos)

declare DoReceived.simps [simp del]

definition OnReceived ::
  "'io io_vt \<Rightarrow> (('io, 'u) linkage, 'u) handler_vt \<Rightarrow> bytes \<Rightarrow> ('io, 'u) linkage
    \<Rightarrow> int \<times> ('io, 'u) linkage" where
  "OnReceived V H buffer s =
    (if buffer = [] then (1, s)
     else
       let s1 = UpdateLastReceived s in
       if l_graceful s1 then (1, s1)
       else if l_rbuffer s1 = [] then
         (case DoReceived V H buffer 0 s1 of ((ret, consumed), s2) \<Rightarrow>
            if ret \<le> 0 then (ret, s2)
            else (1, s2\<lparr>l_rbuffer := drop consumed buffer\<rparr>))
       else if l_rlength s1 \<noteq> 0 \<and> l_rlength s1 \<le> length (l_rbuffer s1) + length buffer then
         (let last = length (l_rbuffer s1);
              s2 = s1\<lparr>l_rbuffer := l_rbuffer s1 @ take (l_rlength s1 - last) buffer\<rparr>
          in case DoReceived V H (l_rbuffer s2) 0 s2 of ((ret, consumed), s3) \<Rightarrow>
               if ret \<le> 0 then (ret, s3)
               else
                 let s4 = s3\<lparr>l_rbuffer := []\<rparr>;
                     rest = drop (consumed - last) buffer
                 in if rest = [] then (1, s4)
                    else case DoReceived V H rest 0 s4 of ((ret2, consumed2), s5) \<Rightarrow>
                      if ret2 \<le> 0 then (ret2, s5)
                      else (1, s5\<lparr>l_rbuffer := drop consumed2 rest\<rparr>))
       else
         (let s2 = s1\<lparr>l_rbuffer := l_rbuffer s1 @ buffer\<rparr>
          in case DoReceived V H (l_rbuffer s2) 0 s2 of ((ret, consumed), s3) \<Rightarrow>
               if ret \<le> 0 then (ret, s3)
               else (1, s3\<lparr>l_rbuffer := drop consumed (l_rbuffer s3)\<rparr>)))"

section \<open>Events\<close>

definition OnConnected ::
  "'io io_vt \<Rightarrow> (('io, 'u) linkage, 'u) handler_vt \<Rightarrow> ('io, 'u) linkage
    \<Rightarrow> bool \<times> ('io, 'u) linkage" where
  "OnConnected V H s =
    (case hOnConnected H s of (ok, calls, u) \<Rightarrow> (ok, apply_calls V calls (s\<lparr>l_user := u\<rparr>)))"

definition DoConnected ::
  "'io io_vt \<Rightarrow> (('io, 'u) linkage, 'u) handler_vt \<Rightarrow> ('io, 'u) linkage
    \<Rightarrow> bool \<times> ('io, 'u) linkage" where
  "DoConnected V H s =
    (let s1 = set_wanna True (GetSendingBufferSize s \<noteq> 0) s;
         s2 = s1\<lparr>l_action := kActionNone\<rparr>
     in OnConnected V H (UpdateLastReceived (UpdateConnectJam False s2)))"

text \<open>The common end of \<open>OnEventOnce\<close>: keep an incomplete action, then \<open>AfterEvent\<close>.\<close>

definition finish_event ::
  "io_action \<Rightarrow> io_status \<Rightarrow> ('io, 'u) linkage \<Rightarrow> (int \<times> io_action) \<times> ('io, 'u) linkage" where
  "finish_event action status s =
    (case AfterEvent status
            (s\<lparr>l_action := (if INCOMPLETE status then action else kActionNone)\<rparr>) of
       (ret, s1) \<Rightarrow> ((ret, kActionNone), s1))"

definition kReadBuffer :: nat where
  "kReadBuffer = 65536"

definition EventRead ::
  "'io io_vt \<Rightarrow> (('io, 'u) linkage, 'u) handler_vt \<Rightarrow> ('io, 'u) linkage
    \<Rightarrow> (int \<times> io_action) \<times> ('io, 'u) linkage" where
  "EventRead V H s =
    (case ioRead V kReadBuffer (l_io s) of ((status, data, has_more), io') \<Rightarrow>
       let s1 = s\<lparr>l_io := io'\<rparr> in
       if status = kStatusOk then
         (case OnReceived V H data (s1\<lparr>l_action := kActionNone\<rparr>) of (ret, s2) \<Rightarrow>
            if ret = 0 then ((1, kActionShutdown), s2)
            else if ret > 0 then ((1, if has_more then kActionRead else kActionNone), s2)
            else ((-1, kActionNone), s2))
       else finish_event kActionRead status s1)"

definition EventWrite ::
  "'io io_vt \<Rightarrow> ('io, 'u) linkage \<Rightarrow> (int \<times> io_action) \<times> ('io, 'u) linkage" where
  "EventWrite V s =
    (case PickSendingBuffer s of (buffer, s0) \<Rightarrow>
       if buffer \<noteq> [] then
         (case io_write V buffer s0 of ((status, retlen), s1) \<Rightarrow>
            if status = kStatusOk then
              let s2 = s1\<lparr>l_action := kActionNone\<rparr> in
              if retlen < length buffer
              then ((1, kActionNone), ConsumeSendingBuffer retlen (UpdateLastSent True True s2))
              else ((1, kActionNone),
                    ConsumeSendingBuffer (length buffer) (UpdateLastSent True False s2))
            else
              let s2 = UpdateLastSent False True s1;
                  s3 = (if INCOMPLETE status then s2\<lparr>l_last_writing := length buffer\<rparr> else s2)
              in finish_event kActionWrite status s3)
       else if l_graceful s0 then ((1, kActionShutdown), s0\<lparr>l_action := kActionNone\<rparr>)
       else ((1, kActionNone), s0\<lparr>l_action := kActionNone\<rparr>))"

definition EventHandshake ::
  "'io io_vt \<Rightarrow> (('io, 'u) linkage, 'u) handler_vt \<Rightarrow> io_action \<Rightarrow> io_status \<Rightarrow> ('io, 'u) linkage
    \<Rightarrow> (int \<times> io_action) \<times> ('io, 'u) linkage" where
  "EventHandshake V H action status s =
    (if status = kStatusOk then
       (case DoConnected V H (s\<lparr>l_action := kActionNone\<rparr>) of (ok, s1) \<Rightarrow>
          ((if ok then 1 else -1, kActionNone), s1))
     else finish_event action status s)"

text \<open>\<open>OnEventOnce\<close>: the return code, the next action to perform at once, and the state.\<close>

definition OnEventOnce ::
  "'io io_vt \<Rightarrow> (('io, 'u) linkage, 'u) handler_vt \<Rightarrow> io_action \<Rightarrow> ('io, 'u) linkage
    \<Rightarrow> (int \<times> io_action) \<times> ('io, 'u) linkage" where
  "OnEventOnce V H action s =
    (case action of
       kActionRead \<Rightarrow> EventRead V H s
     | kActionWrite \<Rightarrow> EventWrite V s
     | kActionAccept \<Rightarrow>
         (case ioAccept V (l_io s) of (status, io') \<Rightarrow>
            EventHandshake V H action status (s\<lparr>l_io := io'\<rparr>))
     | kActionConnect \<Rightarrow>
         (case ioConnect V (l_io s) of (status, io') \<Rightarrow>
            EventHandshake V H action status (s\<lparr>l_io := io'\<rparr>))
     | kActionShutdown \<Rightarrow>
         (case OnEventShutdown V s of (ret, s1) \<Rightarrow> ((ret, kActionNone), s1))
     | kActionNone \<Rightarrow> finish_event action kStatusBug s)"

text \<open>
  The loop of \<open>OnEvent\<close>. A transport that always reports \<open>more\<close> keeps it running, so the result
  is an option: \<open>None\<close> when it never returns.
\<close>

partial_function (option) event_loop ::
  "'io io_vt \<Rightarrow> (('io, 'u) linkage, 'u) handler_vt \<Rightarrow> io_action \<Rightarrow> ('io, 'u) linkage
    \<Rightarrow> (int \<times> ('io, 'u) linkage) option" where
  "event_loop V H action s =
    (case OnEventOnce V H action s of ((ret, next_action), s1) \<Rightarrow>
       if next_action = kActionNone then Some (ret, s1) else event_loop V H next_action s1)"

definition OnEvent ::
  "'io io_vt \<Rightarrow> (('io, 'u) linkage, 'u) handler_vt \<Rightarrow> io_action \<Rightarrow> ('io, 'u) linkage
    \<Rightarrow> (int \<times> ('io, 'u) linkage) option" where
  "OnEvent V H idle_action s =
    (let action = (if l_action s = kActionNone then idle_action else l_action s)
     in case event_loop V H action s of
          None \<Rightarrow> None
        | Some (ret, s1) \<Rightarrow> Some (ret, restore_wanna s1))"

definition LinkageOnReadable ::
  "'io io_vt \<Rightarrow> (('io, 'u) linkage, 'u) handler_vt \<Rightarrow> ('io, 'u) linkage
    \<Rightarrow> (int \<times> ('io, 'u) linkage) option" where
  "LinkageOnReadable V H s = OnEvent V H kActionRead s"

definition LinkageOnWritable ::
  "'io io_vt \<Rightarrow> (('io, 'u) linkage, 'u) handler_vt \<Rightarrow> ('io, 'u) linkage
    \<Rightarrow> (int \<times> ('io, 'u) linkage) option" where
  "LinkageOnWritable V H s = OnEvent V H kActionWrite s"

definition LinkageOnError ::
  "'io io_vt \<Rightarrow> (('io, 'u) linkage, 'u) handler_vt \<Rightarrow> bool \<Rightarrow> ('io, 'u) linkage \<Rightarrow> ('io, 'u) linkage"
where
  "LinkageOnError V H reading_or_writing s =
    (case hOnError H reading_or_writing s of (calls, u) \<Rightarrow> apply_calls V calls (s\<lparr>l_user := u\<rparr>))"

definition LinkageOnDisconnected ::
  "'io io_vt \<Rightarrow> (('io, 'u) linkage, 'u) handler_vt \<Rightarrow> ('io, 'u) linkage \<Rightarrow> ('io, 'u) linkage" where
  "LinkageOnDisconnected V H s =
    (case hOnDisconnected H s of (calls, u) \<Rightarrow> apply_calls V calls (s\<lparr>l_user := u\<rparr>))"

section \<open>Health check, attaching and detaching\<close>

definition timed_out :: "int \<Rightarrow> int \<Rightarrow> int \<Rightarrow> bool" where
  "timed_out now jam timeout =
    (let jammed = (if jam \<noteq> 0 then now - jam else 0)
     in timeout \<noteq> 0 \<and> jammed \<noteq> 0 \<and> jammed \<ge> timeout)"

definition LinkageCleanup ::
  "'io io_vt \<Rightarrow> (('io, 'u) linkage, 'u) handler_vt \<Rightarrow> int \<Rightarrow> ('io, 'u) linkage
    \<Rightarrow> bool \<times> ('io, 'u) linkage" where
  "LinkageCleanup V H now s =
    (if timed_out now (l_connect_jam s) (l_connect_timeout s) then (False, s)
     else if timed_out now (l_send_jam s) (l_send_timeout s) then (False, s)
     else if timed_out now (l_receive_jam s) (l_receive_timeout s) then (False, s)
     else
       let passed_w = now - l_last_sent s;
           passed_r = now - l_last_received s;
           idle = (if passed_r < passed_w then passed_r else passed_w)
       in if l_idle_timeout s \<noteq> 0 \<and> idle \<ge> l_idle_timeout s then (False, s)
          else case hCleanup H now s of (ok, calls, u) \<Rightarrow>
            (ok, apply_calls V calls (s\<lparr>l_user := u\<rparr>)))"

definition LinkageAttach ::
  "'io io_vt \<Rightarrow> (('io, 'u) linkage, 'u) handler_vt \<Rightarrow> ptr \<Rightarrow> ('io, 'u) linkage
    \<Rightarrow> (bool \<times> ('io, 'u) linkage) option" where
  "LinkageAttach V H worker s =
    (if worker = 0 then Some (False, s)
     else if l_worker s \<noteq> 0 then Some (l_worker s = worker, s)
     else case ioInitialize V (l_io s) of
       ((ok, action, next_action, wanna_read, wanna_write), io') \<Rightarrow>
         let s1 = s\<lparr>l_io := io'\<rparr> in
         if \<not> ok then Some (False, s1)
         else if action \<noteq> kActionNone \<and> next_action \<noteq> kActionNone then None
         else
           let connecting = (action \<noteq> kActionNone \<or> next_action \<noteq> kActionNone);
               wr = (if \<not> connecting then True else wanna_read)
           in case Attach (l_self s1) (l_fd s1) wr wanna_write True s1 of (attached, s2) \<Rightarrow>
             if \<not> attached then Some (False, s2)
             else
               let s3 = s2\<lparr>l_worker := worker\<rparr> in
               if \<not> connecting then
                 (case DoConnected V H s3 of (conn, s4) \<Rightarrow>
                    if \<not> conn then Some (False, (snd (Detach (l_self s4) s4))\<lparr>l_worker := 0\<rparr>)
                    else Some (True, s4))
               else
                 let s4 = UpdateConnectJam True s3 in
                 if action = kActionNone then Some (True, s4\<lparr>l_action := next_action\<rparr>)
                 else case OnEvent V H action (s4\<lparr>l_action := action\<rparr>) of
                   None \<Rightarrow> None
                 | Some (ret, s5) \<Rightarrow>
                     if ret \<le> 0
                     then Some (False, (snd (Detach (l_self s5) s5))\<lparr>l_worker := 0\<rparr>)
                     else Some (True, s5))"

definition LinkageDetach :: "ptr \<Rightarrow> ('io, 'u) linkage \<Rightarrow> bool \<times> ('io, 'u) linkage" where
  "LinkageDetach worker s =
    (if worker = 0 then (False, s)
     else if l_worker s = 0 \<or> l_worker s \<noteq> worker then (True, s)
     else case Detach (l_self s) s of (ok, s1) \<Rightarrow>
       if \<not> ok then (False, s1) else (True, s1\<lparr>l_worker := 0\<rparr>))"

end
