(* ===== verification/Linkage_Receive.thy ===== *)
theory Linkage_Receive
  imports Linkage
begin

text \<open>
  The receiving side of \<open>Linkage\<close>: however the transport cuts the incoming bytes into reads, the
  handler gets the messages a reference parser finds in the whole stream, each once and in
  order, and what is left in \<open>_rbuffer\<close> is the unfinished tail.
\<close>

section \<open>What the sending side leaves alone\<close>

text \<open>
  Sending and disconnecting touch neither the receive buffer nor the delivered messages, and a
  connection that is being closed stays so.
\<close>

definition rx_same :: "('io, 'u) linkage \<Rightarrow> ('io, 'u) linkage \<Rightarrow> bool" where
  "rx_same s s' \<longleftrightarrow> l_rbuffer s' = l_rbuffer s \<and> l_rlength s' = l_rlength s \<and>
     l_delivered s' = l_delivered s \<and> (l_graceful s \<longrightarrow> l_graceful s') \<and>
     l_self s' = l_self s \<and> l_worker s' = l_worker s"

named_theorems rx_frame \<open>operations that leave the receiving side alone\<close>

lemma rx_same_refl [simp, rx_frame]: "rx_same s s"
  by (simp add: rx_same_def)

lemma rx_same_trans: "rx_same a b \<Longrightarrow> rx_same b c \<Longrightarrow> rx_same a c"
  by (simp add: rx_same_def)

lemma rx_same_SetWanna [rx_frame]:
  "rx_same s0 s \<Longrightarrow> rx_same s0 (set_wanna r w s)"
  "rx_same s0 s \<Longrightarrow> rx_same s0 (set_wanna_read b s)"
  "rx_same s0 s \<Longrightarrow> rx_same s0 (set_wanna_write b s)"
  by (auto simp: rx_same_def set_wanna_def set_wanna_read_def set_wanna_write_def SetWanna_def
      SetWannaRead_def SetWannaWrite_def Let_def set_client_def split: option.splits)

lemma rx_same_updates [rx_frame]:
  "rx_same s0 s \<Longrightarrow> rx_same s0 (UpdateLastSent a b s)"
  "rx_same s0 s \<Longrightarrow> rx_same s0 (UpdateConnectJam b s)"
  "rx_same s0 s \<Longrightarrow> rx_same s0 (UpdateReceiveJam b s)"
  "rx_same s0 s \<Longrightarrow> rx_same s0 (UpdateLastReceived s)"
  "rx_same s0 s \<Longrightarrow> rx_same s0 (DumpSendingBuffer s)"
  "rx_same s0 s \<Longrightarrow> rx_same s0 (ConsumeSendingBuffer n s)"
  by (auto simp: rx_same_def UpdateLastSent_def UpdateConnectJam_def UpdateReceiveJam_def
      UpdateLastReceived_def DumpSendingBuffer_def ConsumeSendingBuffer_def Let_def)

lemma rx_same_fields [rx_frame]:
  "rx_same s0 s \<Longrightarrow> rx_same s0 (s\<lparr>l_action := a\<rparr>)"
  "rx_same s0 s \<Longrightarrow> rx_same s0 (s\<lparr>l_last_writing := n\<rparr>)"
  "rx_same s0 s \<Longrightarrow> rx_same s0 (s\<lparr>l_io := io\<rparr>)"
  "rx_same s0 s \<Longrightarrow> rx_same s0 (s\<lparr>l_closed := b\<rparr>)"
  "rx_same s0 s \<Longrightarrow> rx_same s0 (s\<lparr>l_graceful := True\<rparr>)"
  by (auto simp: rx_same_def)

lemma rx_same_append: "rx_same s0 s \<Longrightarrow> rx_same s0 (snd (AppendSendingBuffer b s))"
  by (auto simp: rx_same_def AppendSendingBuffer_def Let_def)

lemma rx_same_append_eq [rx_frame]:
  "AppendSendingBuffer b s = (ok, s') \<Longrightarrow> rx_same s0 s \<Longrightarrow> rx_same s0 s'"
  using rx_same_append [of s0 s b] by simp

lemma rx_same_io_write [rx_frame]: "io_write V b s = (r, s') \<Longrightarrow> rx_same s0 s \<Longrightarrow> rx_same s0 s'"
  by (auto simp: rx_same_def io_write_def split: prod.splits)

lemma rx_same_io_write_snd: "rx_same s (snd (io_write V b s))"
  by (auto simp: rx_same_def io_write_def split: prod.splits)

lemma rx_same_Send: "rx_same s (snd (Send V b s))"
proof (cases b)
  case None
  then show ?thesis by (simp add: Send_def)
next
  case (Some buf)
  obtain st n s1 where w: "io_write V buf s = ((st, n), s1)" by (metis prod.exhaust)
  have s1: "rx_same s s1" using rx_same_io_write_snd [of s V buf] w by simp
  obtain ok2 s2 where a2: "AppendSendingBuffer buf s1 = (ok2, s2)" by (metis prod.exhaust)
  have s2: "rx_same s s2" using a2 s1 by (rule rx_same_append_eq)
  obtain ok3 s3 where a3: "AppendSendingBuffer (drop n buf) s1 = (ok3, s3)" by (metis prod.exhaust)
  have s3: "rx_same s s3" using a3 s1 by (rule rx_same_append_eq)
  have s4: "rx_same s (snd (AppendSendingBuffer buf s))" by (simp add: rx_same_append)
  show ?thesis
    using s1 s2 s3 s4 by (cases st) (auto simp: Send_def Some w a2 a3 intro!: rx_frame)
qed

lemma rx_same_AfterEvent: "rx_same s0 s \<Longrightarrow> rx_same s0 (snd (AfterEvent st s))"
  by (auto simp: AfterEvent_def split: io_status.splits intro: rx_frame)

lemma rx_same_LinkageShutdown: "rx_same s (snd (LinkageShutdown V st s))"
  unfolding LinkageShutdown_def
  by (auto simp: Let_def split: prod.splits intro!: rx_frame)

lemma rx_same_OnEventShutdown: "rx_same s (snd (OnEventShutdown V s))"
proof -
  obtain ret st s1 where r: "LinkageShutdown V kStatusBug s = ((ret, st), s1)"
    by (metis prod.exhaust)
  then have "rx_same s s1" using rx_same_LinkageShutdown [of s V kStatusBug] by simp
  then show ?thesis
    by (auto simp: OnEventShutdown_def r intro!: rx_frame rx_same_AfterEvent)
qed

lemma rx_same_restore: "rx_same s0 s \<Longrightarrow> rx_same s0 (restore_wanna s)"
  by (auto simp: restore_wanna_def intro: rx_frame)

lemma rx_same_Disconnect: "rx_same s (snd (Disconnect V f s))"
proof -
  define s2 where "s2 = (if \<not> f then DumpSendingBuffer (s\<lparr>l_graceful := True\<rparr>)
                          else s\<lparr>l_graceful := True\<rparr>)"
  have s2: "rx_same s s2" by (auto simp: s2_def intro!: rx_frame)
  moreover have "rx_same s2 (restore_wanna (snd (OnEventShutdown V s2)))"
    by (rule rx_same_restore, rule rx_same_OnEventShutdown)
  ultimately show ?thesis
    by (auto simp: Disconnect_def Let_def s2_def [symmetric] case_prod_beta intro: rx_same_trans)
qed

lemma rx_same_calls: "rx_same s (apply_calls V cs s)"
proof (induction cs arbitrary: s)
  case Nil
  then show ?case by simp
next
  case (Cons c cs)
  then show ?case
    by (cases c) (auto intro: rx_same_trans rx_same_Send rx_same_Disconnect)
qed

text \<open>A message goes to the handler, which is the one place where \<open>l_delivered\<close> grows.\<close>

lemma OnMessage_rx:
  assumes "OnMessage V H m s = (r, s')"
  shows "l_rbuffer s' = l_rbuffer s" and "l_rlength s' = l_rlength s"
    and "l_delivered s' = l_delivered s @ [m]" and "l_graceful s \<Longrightarrow> l_graceful s'"
    and "l_self s' = l_self s" and "l_worker s' = l_worker s"
proof -
  obtain calls u where s': "s' = apply_calls V calls (s\<lparr>l_user := u, l_delivered := l_delivered s @ [m]\<rparr>)"
    using assms by (auto simp: OnMessage_def split: prod.splits)
  have "rx_same (s\<lparr>l_user := u, l_delivered := l_delivered s @ [m]\<rparr>) s'"
    unfolding s' by (rule rx_same_calls)
  then show "l_rbuffer s' = l_rbuffer s" "l_rlength s' = l_rlength s"
    "l_delivered s' = l_delivered s @ [m]" "l_graceful s \<Longrightarrow> l_graceful s'"
    "l_self s' = l_self s" "l_worker s' = l_worker s"
    by (auto simp: rx_same_def)
qed

section \<open>The reference parser\<close>

text \<open>
  \<open>frames g bs\<close> cuts a byte stream into messages with the length function \<open>g\<close>: the complete
  messages and the unfinished rest.
\<close>

function frames :: "(bytes \<Rightarrow> int) \<Rightarrow> bytes \<Rightarrow> bytes list \<times> bytes" where
  "frames g bs =
    (if bs = [] \<or> g bs \<le> 0 \<or> int (length bs) < g bs then ([], bs)
     else case frames g (drop (nat (g bs)) bs) of (ms, rest) \<Rightarrow>
       (take (nat (g bs)) bs # ms, rest))"
  by pat_completeness auto
termination
  by (relation "measure (\<lambda>(g, bs). length bs)") auto

declare frames.simps [simp del]

text \<open>
  What \<open>linkage_handler.h\<close> asks of \<open>GetMessageLength\<close>: it may look at any prefix of a message,
  and once it can tell the length, more bytes do not change its mind.
\<close>

definition stable_length :: "(bytes \<Rightarrow> int) \<Rightarrow> bool" where
  "stable_length g \<longleftrightarrow> (\<forall>p q. 0 < g p \<longrightarrow> g (p @ q) = g p)"

definition length_of ::
  "(bytes \<Rightarrow> int) \<Rightarrow> (('io, 'u) linkage, 'u) handler_vt \<Rightarrow> bool" where
  "length_of g H \<longleftrightarrow> (\<forall>p s. hGetMessageLength H p s = g p)"

lemma frames_stop:
  "bs = [] \<or> g bs \<le> 0 \<or> int (length bs) < g bs \<Longrightarrow> frames g bs = ([], bs)"
  by (subst frames.simps) simp

lemma frames_step:
  "0 < g bs \<Longrightarrow> g bs \<le> int (length bs) \<Longrightarrow>
   frames g bs = (take (nat (g bs)) bs # fst (frames g (drop (nat (g bs)) bs)),
                  snd (frames g (drop (nat (g bs)) bs)))"
  by (subst frames.simps) (auto split: prod.splits)

lemma concat_frames: "concat (fst (frames g bs)) @ snd (frames g bs) = bs"
proof (induction g bs rule: frames.induct)
  case (1 g bs)
  show ?case
  proof (cases "bs = [] \<or> g bs \<le> 0 \<or> int (length bs) < g bs")
    case True
    then show ?thesis by (simp add: frames_stop)
  next
    case False
    with 1 show ?thesis by (simp add: frames_step)
  qed
qed

text \<open>Parsing a stream in two parts: the rest of the first part is prepended to the second.\<close>

lemma frames_append:
  assumes "stable_length g"
  shows "frames g (bs @ cs) =
    (fst (frames g bs) @ fst (frames g (snd (frames g bs) @ cs)),
     snd (frames g (snd (frames g bs) @ cs)))"
  using assms
proof (induction g bs rule: frames.induct)
  case (1 g bs)
  show ?case
  proof (cases "bs = [] \<or> g bs \<le> 0 \<or> int (length bs) < g bs")
    case True
    then show ?thesis by (simp add: frames_stop)
  next
    case False
    then have pos: "0 < g bs" "g bs \<le> int (length bs)" by auto
    let ?n = "nat (g bs)"
    have g: "g (bs @ cs) = g bs" using "1.prems" pos by (simp add: stable_length_def)
    with pos have "frames g (bs @ cs) = (take ?n bs # fst (frames g (drop ?n bs @ cs)),
        snd (frames g (drop ?n bs @ cs)))"
      using frames_step [of g "bs @ cs"] by simp
    with frames_step [of g bs] pos "1" False show ?thesis by simp
  qed
qed


section \<open>The receive loop implements the reference parser\<close>

text \<open>
  The state between two reads: \<open>b\<close> is the unfinished tail, and \<open>_rlength\<close> is either unknown
  because the handler cannot tell yet, or the length of the message \<open>b\<close> begins.
\<close>

definition rx_wait :: "(bytes \<Rightarrow> int) \<Rightarrow> bytes \<Rightarrow> ('io, 'u) linkage \<Rightarrow> bool" where
  "rx_wait g b s \<longleftrightarrow>
    (if l_rlength s = 0 then b = [] \<or> g b = 0
     else b \<noteq> [] \<and> g b = int (l_rlength s) \<and> length b < l_rlength s)"

lemma rx_wait_cong:
  "l_rlength s' = l_rlength s \<Longrightarrow> rx_wait g b s' \<longleftrightarrow> rx_wait g b s"
  by (simp add: rx_wait_def)

lemma rx_wait_frames: "rx_wait g b s \<Longrightarrow> frames g b = ([], b)"
  by (rule frames_stop) (auto simp: rx_wait_def split: if_splits)

lemma determine_length_Inr:
  assumes "length_of g H" and "determine_length H p s = Inr s1"
    and "l_rlength s \<noteq> 0 \<longrightarrow> g p = int (l_rlength s)"
  shows "g p = int (l_rlength s1)" and "0 < l_rlength s1"
    and "l_rbuffer s1 = l_rbuffer s" "l_delivered s1 = l_delivered s"
    and "l_graceful s1 = l_graceful s" "l_self s1 = l_self s" "l_worker s1 = l_worker s"
  using assms
  by (auto simp: determine_length_def length_of_def Let_def split: if_splits)

lemma determine_length_Inl:
  assumes "length_of g H" and "determine_length H p s = Inl (ret, s1)" and "0 < ret"
  shows "l_rlength s = 0" and "g p = 0" and "rx_same s s1"
  using assms
  by (auto simp: determine_length_def length_of_def Let_def split: if_splits intro!: rx_frame)

definition rx_done ::
  "(bytes \<Rightarrow> int) \<Rightarrow> bytes \<Rightarrow> nat \<Rightarrow> ('io, 'u) linkage \<Rightarrow> ('io, 'u) linkage \<Rightarrow> bool" where
  "rx_done g p n s s' \<longleftrightarrow>
     l_delivered s' = l_delivered s @ fst (frames g p) \<and>
     drop n p = snd (frames g p) \<and> n \<le> length p \<and> rx_wait g (snd (frames g p)) s' \<and>
     l_rbuffer s' = l_rbuffer s \<and> (l_graceful s \<longrightarrow> l_graceful s') \<and>
     l_self s' = l_self s \<and> l_worker s' = l_worker s"

lemma rx_done_stop:
  assumes "rx_same s s'" and "rx_wait g p s'"
  shows "rx_done g p 0 s s'"
proof -
  have "frames g p = ([], p)" using assms(2) by (rule rx_wait_frames)
  with assms show ?thesis by (simp add: rx_done_def rx_same_def)
qed

lemma DoReceived_done:
  assumes "length_of g H" and "DoReceived V H p c s = ((ret, c'), s')" and "0 < ret"
    and "l_rlength s \<noteq> 0 \<longrightarrow> p \<noteq> [] \<and> g p = int (l_rlength s)"
  shows "c \<le> c' \<and> rx_done g p (c' - c) s s'"
  using assms
proof (induction V H p c s arbitrary: ret c' s' rule: DoReceived.induct)
  case (1 V H p c s)
  note eq = "1.prems"(2) [unfolded DoReceived.simps [of V H p c s]]
  show ?case
  proof (cases "p = []")
    case True
    with "1.prems" eq show ?thesis
      by (auto simp: rx_wait_def intro!: rx_done_stop)
  next
    case False
    show ?thesis
    proof (cases "determine_length H p s")
      case (Inl r)
      obtain ret1 s1 where r: "r = (ret1, s1)" by (cases r)
      with Inl eq False have "ret1 = ret" "s1 = s'" "c' = c" by auto
      with determine_length_Inl [OF "1.prems"(1) Inl [unfolded r]] "1.prems"(3)
      show ?thesis by (auto simp: rx_wait_def rx_same_def intro!: rx_done_stop)
    next
      case (Inr s1)
      note len = determine_length_Inr [OF "1.prems"(1) Inr] and prem = "1.prems"(4)
      let ?n = "l_rlength s1"
      show ?thesis
      proof (cases "length p < ?n")
        case True
        with eq Inr False have c: "c' = c" and s': "s' = UpdateReceiveJam True s1" by auto
        have "rx_same s1 s'" unfolding s' by (intro rx_frame)
        then have "rx_done g p 0 s1 s'"
          using True False len prem
          by (intro rx_done_stop) (auto simp: rx_wait_def rx_same_def)
        with c len prem show ?thesis by (auto simp: rx_done_def)
      next
        case le: False
        obtain next_ret s2 where
          m: "OnMessage V H (take ?n p) (UpdateReceiveJam False s1) = (next_ret, s2)"
          by (metis prod.exhaust)
        have jam: "rx_same s1 (UpdateReceiveJam False s1)" by (intro rx_frame)
        from eq Inr False le m "1.prems"(3) have pos: "0 < next_ret"
          and rec: "DoReceived V H (drop ?n p) (c + ?n) (s2\<lparr>l_rlength := 0\<rparr>) = ((ret, c'), s')"
          by (auto split: if_splits)
        have IH: "c + ?n \<le> c' \<and> rx_done g (drop ?n p) (c' - (c + ?n)) (s2\<lparr>l_rlength := 0\<rparr>) s'"
          by (rule "1.IH" [OF False Inr le m [symmetric] _ _ "1.prems"(1) rec "1.prems"(3)])
            (use pos in auto)
        have fr: "frames g p = (take ?n p # fst (frames g (drop ?n p)), snd (frames g (drop ?n p)))"
          using frames_step [of g p] len prem le by auto
        have "drop (c' - c) p = drop (c' - (c + ?n)) (drop ?n p)"
          using IH by (simp add: drop_drop)
        with IH fr OnMessage_rx [OF m] jam len prem le show ?thesis
          by (auto simp: rx_done_def rx_same_def)
      qed
    qed
  qed
qed

section \<open>Reads of any size\<close>

lemma OnReceived_graceful:
  assumes "OnReceived V H buf s = (ret, s')" and "l_graceful s"
  shows "l_graceful s'"
  using assms by (auto simp: OnReceived_def UpdateLastReceived_def Let_def split: if_splits)

lemma frames_whole:
  assumes "g p = int (length p)" and "p \<noteq> []"
  shows "frames g p = ([p], [])"
  using frames_step [of g p] assms by (simp add: frames_stop)

text \<open>The three branches of \<open>OnReceived\<close>, each over the state after \<open>UpdateLastReceived\<close>.\<close>

lemma rx_done_whole:
  assumes g: "g p = int (length p)" "p \<noteq> []" and fin: "rx_done g p n s s'"
  shows "n = length p" and "l_rlength s' = 0" and "l_delivered s' = l_delivered s @ [p]"
    and "l_graceful s \<Longrightarrow> l_graceful s'"
proof -
  have fr: "frames g p = ([p], [])" using g by (rule frames_whole)
  with fin have "n \<le> length p" "drop n p = []" "rx_wait g [] s'" by (auto simp: rx_done_def)
  then show "n = length p" "l_rlength s' = 0" by (auto simp: rx_wait_def split: if_splits)
  from fin fr show "l_delivered s' = l_delivered s @ [p]" "l_graceful s \<Longrightarrow> l_graceful s'"
    by (auto simp: rx_done_def)
qed

lemma OnReceived_frames:
  assumes H: "length_of g H" and st: "stable_length g" and wait: "rx_wait g (l_rbuffer s) s"
    and rcv: "OnReceived V H buf s = (ret, s')" and ret: "0 < ret" and "\<not> l_graceful s'"
  shows "l_delivered s' = l_delivered s @ fst (frames g (l_rbuffer s @ buf)) \<and>
    l_rbuffer s' = snd (frames g (l_rbuffer s @ buf)) \<and> rx_wait g (l_rbuffer s') s'"
proof (cases "buf = []")
  case True
  with rcv wait show ?thesis by (simp add: OnReceived_def rx_wait_frames)
next
  case buf: False
  define s1 where "s1 = UpdateLastReceived s"
  have s1: "l_rbuffer s1 = l_rbuffer s" "l_rlength s1 = l_rlength s" "l_delivered s1 = l_delivered s"
    "l_graceful s1 = l_graceful s" by (simp_all add: s1_def UpdateLastReceived_def)
  have ng: "\<not> l_graceful s" using OnReceived_graceful [OF rcv] assms(6) by auto
  have grow: "0 < g p \<Longrightarrow> g (p @ q) = g p" for p q using st by (simp add: stable_length_def)
  let ?b = "l_rbuffer s"
  let ?last = "length ?b"
  consider (empty) "?b = []"
    | (known) "?b \<noteq> []" "l_rlength s \<noteq> 0" "l_rlength s \<le> ?last + length buf"
    | (worst) "?b \<noteq> []" "\<not> (l_rlength s \<noteq> 0 \<and> l_rlength s \<le> ?last + length buf)"
    by blast
  then show ?thesis
  proof cases
    case empty
    then have z: "l_rlength s = 0" using wait by (simp add: rx_wait_def split: if_splits)
    obtain r c s2 where d: "DoReceived V H buf 0 s1 = ((r, c), s2)" by (metis prod.exhaust)
    from rcv buf ng empty s1 d ret have r: "0 < r" and s': "s' = s2\<lparr>l_rbuffer := drop c buf\<rparr>"
      by (auto simp: OnReceived_def s1_def [symmetric] Let_def split: if_splits)
    have "rx_done g buf c s1 s2" using DoReceived_done [OF H d r] z s1 by simp
    with s' s1 empty show ?thesis by (auto simp: rx_done_def rx_wait_def)
  next
    case known
    define q where "q = take (l_rlength s - ?last) buf"
    define rest where "rest = drop (l_rlength s - ?last) buf"
    have lb: "?last < l_rlength s" "g ?b = int (l_rlength s)"
      using wait known by (auto simp: rx_wait_def)
    then have lq: "length (?b @ q) = l_rlength s" using known by (auto simp: q_def)
    have gq: "g (?b @ q) = int (length (?b @ q))" using grow [of ?b q] lb lq by simp
    have split: "?b @ buf = (?b @ q) @ rest" by (simp add: q_def rest_def)
    let ?s2 = "s1\<lparr>l_rbuffer := ?b @ q\<rparr>"
    obtain r c s3 where d: "DoReceived V H (?b @ q) 0 ?s2 = ((r, c), s3)" by (metis prod.exhaust)
    let ?s4 = "s3\<lparr>l_rbuffer := []\<rparr>"
    have r: "0 < r"
      using rcv buf ng known s1 d ret
      by (auto simp: OnReceived_def s1_def [symmetric] q_def Let_def split: if_splits prod.splits)
    have w: "rx_done g (?b @ q) c ?s2 s3"
      using DoReceived_done [OF H d r] s1 gq lq known by simp
    have ne: "?b @ q \<noteq> []" using known by simp
    note whole = rx_done_whole [of g "?b @ q", OF gq ne w]
    have fr: "frames g (?b @ buf) = ((?b @ q) # fst (frames g rest), snd (frames g rest))"
      unfolding split using frames_append [OF st, of "?b @ q" rest] frames_whole [of g "?b @ q", OF gq ne] by simp
    have rest: "drop (c - ?last) buf = rest" using whole(1) unfolding lq by (simp add: rest_def)
    show ?thesis
    proof (cases "rest = []")
      case True
      with rcv buf ng known s1 d r rest have "s' = ?s4"
        by (auto simp: OnReceived_def s1_def [symmetric] q_def Let_def split: if_splits)
      with True whole fr s1 show ?thesis by (simp add: frames_stop rx_wait_def)
    next
      case False
      obtain r2 c2 s5 where d2: "DoReceived V H rest 0 ?s4 = ((r2, c2), s5)" by (metis prod.exhaust)
      from rcv buf ng known s1 d r rest False d2 ret
      have r2: "0 < r2" and s': "s' = s5\<lparr>l_rbuffer := drop c2 rest\<rparr>"
        by (auto simp: OnReceived_def s1_def [symmetric] q_def Let_def split: if_splits)
      have "rx_done g rest c2 ?s4 s5" using DoReceived_done [OF H d2 r2] whole by simp
      with s' whole fr s1 show ?thesis by (auto simp: rx_done_def rx_wait_def)
    qed
  next
    case worst
    have len: "l_rlength s \<noteq> 0 \<longrightarrow> ?b @ buf \<noteq> [] \<and> g (?b @ buf) = int (l_rlength s)"
      using wait worst grow [of ?b buf] by (auto simp: rx_wait_def)
    let ?s2 = "s1\<lparr>l_rbuffer := ?b @ buf\<rparr>"
    obtain r c s3 where d: "DoReceived V H (?b @ buf) 0 ?s2 = ((r, c), s3)" by (metis prod.exhaust)
    from rcv buf ng worst s1 d ret
    have r: "0 < r" and s': "s' = s3\<lparr>l_rbuffer := drop c (l_rbuffer s3)\<rparr>"
      by (auto simp: OnReceived_def s1_def [symmetric] Let_def split: if_splits)
    have "rx_done g (?b @ buf) c ?s2 s3" using DoReceived_done [OF H d r] len s1 by simp
    with s' s1 show ?thesis by (auto simp: rx_done_def rx_wait_def)
  qed
qed

text \<open>A connection fed one read after the other, until the first result that closes it.\<close>

fun feed ::
  "'io io_vt \<Rightarrow> (('io, 'u) linkage, 'u) handler_vt \<Rightarrow> bytes list \<Rightarrow> ('io, 'u) linkage
    \<Rightarrow> int \<times> ('io, 'u) linkage" where
  "feed V H [] s = (1, s)"
| "feed V H (c # cs) s =
    (case OnReceived V H c s of (ret, s1) \<Rightarrow> if ret \<le> 0 then (ret, s1) else feed V H cs s1)"

lemma feed_graceful: "feed V H cs s = (ret, s') \<Longrightarrow> l_graceful s \<Longrightarrow> l_graceful s'"
  by (induction cs arbitrary: s)
    (auto split: prod.splits if_splits dest: OnReceived_graceful)

lemma feed_frames:
  assumes "length_of g H" and "stable_length g" and "rx_wait g (l_rbuffer s) s"
    and "feed V H cs s = (ret, s')" and "0 < ret" and "\<not> l_graceful s'"
  shows "l_delivered s' = l_delivered s @ fst (frames g (l_rbuffer s @ concat cs)) \<and>
    l_rbuffer s' = snd (frames g (l_rbuffer s @ concat cs))"
  using assms(3-)
proof (induction cs arbitrary: s)
  case Nil
  then show ?case by (auto simp: rx_wait_frames)
next
  case (Cons c cs)
  obtain r s1 where r: "OnReceived V H c s = (r, s1)" by (cases "OnReceived V H c s")
  with Cons.prems have pos: "0 < r" and f: "feed V H cs s1 = (ret, s')" by (auto split: if_splits)
  have "\<not> l_graceful s1" using feed_graceful [OF f] Cons.prems(4) by auto
  note one = OnReceived_frames [OF assms(1,2) Cons.prems(1) r pos this]
  then have "rx_wait g (l_rbuffer s1) s1" by blast
  note rest = Cons.IH [OF this f Cons.prems(3,4)]
  show ?case
    using one rest frames_append [OF assms(2), of "l_rbuffer s @ c" "concat cs"] by simp
qed

end
