(* ===== verification/Linkage_Events.thy ===== *)
theory Linkage_Events
  imports Linkage_Receive
begin

text \<open>
  What every entry point of \<open>Linkage\<close> keeps. The locale \<open>linkage_invariant\<close> asks that a property
  of the connection survives the operations that write to its sending side (\<open>Send\<close>,
  \<open>Disconnect\<close>, a write event, a shutdown event, \<open>SetWanna\<close>) and does not look at the receiving
  side; then it survives every event, for every handler. Each invariant of the connection
  is an interpretation.
\<close>

section \<open>Operations that do not touch the sending side\<close>

definition rx_only :: "('io, 'u) linkage \<Rightarrow> ('io, 'u) linkage \<Rightarrow> bool" where
  "rx_only s s' \<longleftrightarrow>
     l_wire s' = l_wire s \<and> l_wbuffer s' = l_wbuffer s \<and> l_last_writing s' = l_last_writing s \<and>
     l_self s' = l_self s \<and> l_worker s' = l_worker s \<and> l_graceful s' = l_graceful s \<and>
     w_events s' = w_events s \<and> w_timers s' = w_timers s \<and> w_next_timer s' = w_next_timer s"

named_theorems rx_only_ops \<open>operations that leave the sending side alone\<close>

lemma rx_only_refl [simp, rx_only_ops]: "rx_only s s"
  by (simp add: rx_only_def)

lemma rx_only_updates [rx_only_ops]:
  "rx_only s (UpdateReceiveJam b s)"
  "rx_only s (UpdateLastReceived s)"
  "rx_only s (UpdateConnectJam b s)"
  "rx_only s (s\<lparr>l_action := a\<rparr>)"
  "rx_only s (s\<lparr>l_user := u\<rparr>)"
  "rx_only s (s\<lparr>l_user := u, l_delivered := d\<rparr>)"
  "rx_only s (s\<lparr>l_io := io\<rparr>)"
  "rx_only s (s\<lparr>l_rbuffer := rb\<rparr>)"
  "rx_only s (s\<lparr>l_rlength := n\<rparr>)"
  by (auto simp: rx_only_def UpdateReceiveJam_def UpdateLastReceived_def UpdateConnectJam_def)

lemma determine_length_rx_only:
  "determine_length H p s = Inr s1 \<Longrightarrow> rx_only s s1"
  "determine_length H p s = Inl (r, s1) \<Longrightarrow> rx_only s s1"
  by (auto simp: determine_length_def Let_def split: if_splits intro: rx_only_ops)

definition calls_of :: "(call \<Rightarrow> bool) \<Rightarrow> (('io, 'u) linkage, 'u) handler_vt \<Rightarrow> bool" where
  "calls_of okc H \<longleftrightarrow>
     (\<forall>m s. list_all okc (fst (snd (hOnMessage H m s)))) \<and>
     (\<forall>s. list_all okc (fst (snd (hOnConnected H s)))) \<and>
     (\<forall>s. list_all okc (fst (hOnDisconnected H s))) \<and>
     (\<forall>b s. list_all okc (fst (hOnError H b s))) \<and>
     (\<forall>now s. list_all okc (fst (snd (hCleanup H now s))))"

lemma calls_of_any: "calls_of (\<lambda>_. True) H"
  by (simp add: calls_of_def list_all_iff)

section \<open>The generic argument\<close>

locale linkage_invariant =
  fixes V :: "'io io_vt"
    and P :: "('io, 'u) linkage \<Rightarrow> bool"
    and okc :: "call \<Rightarrow> bool"
  assumes P_rx_only: "P s \<Longrightarrow> rx_only s s' \<Longrightarrow> P s'"
    and P_wanna: "P s \<Longrightarrow> P (set_wanna r w s)"
    and P_Send: "P s \<Longrightarrow> okc (CallSend b) \<Longrightarrow> P (snd (Send V b s))"
    and P_Disconnect: "P s \<Longrightarrow> okc (CallDisconnect f) \<Longrightarrow> P (snd (Disconnect V f s))"
    and P_EventWrite: "P s \<Longrightarrow> P (snd (EventWrite V s))"
    and P_EventShutdown: "P s \<Longrightarrow> P (snd (OnEventShutdown V s))"
begin

lemma P_calls: "P s \<Longrightarrow> list_all okc cs \<Longrightarrow> P (apply_calls V cs s)"
proof (induction cs arbitrary: s)
  case Nil
  then show ?case by simp
next
  case (Cons c cs)
  then show ?case by (cases c) (auto intro: P_Send P_Disconnect)
qed

lemma P_OnMessage:
  assumes "P s" and "calls_of okc H" and "OnMessage V H m s = (r, s')"
  shows "P s'"
proof -
  obtain ret calls u where h: "hOnMessage H m s = (ret, calls, u)" by (metis prod.exhaust)
  with assms(2) have "list_all okc calls" unfolding calls_of_def by (metis fst_conv snd_conv)
  moreover have "P (s\<lparr>l_user := u, l_delivered := l_delivered s @ [m]\<rparr>)"
    using assms(1) by (rule P_rx_only) (rule rx_only_ops)
  ultimately have "P (apply_calls V calls (s\<lparr>l_user := u, l_delivered := l_delivered s @ [m]\<rparr>))"
    by (intro P_calls)
  with assms(3) h show ?thesis by (simp add: OnMessage_def)
qed

lemma P_DoReceived:
  assumes "P s" and "calls_of okc H" and "DoReceived V H p c s = (r, s')"
  shows "P s'"
  using assms
proof (induction V\<equiv>V H p c s arbitrary: r s' rule: DoReceived.induct)
  case (1 H p c s)
  note eq = "1.prems"(3) [unfolded DoReceived.simps [of V H p c s]]
  show ?case
  proof (cases "p = []")
    case True
    with "1.prems" eq show ?thesis by simp
  next
    case False
    show ?thesis
    proof (cases "determine_length H p s")
      case (Inl x)
      obtain ret1 s1 where x: "x = (ret1, s1)" by (cases x)
      with Inl eq False have "s' = s1" by auto
      with determine_length_rx_only(2) [OF Inl [unfolded x]] "1.prems"(1) show ?thesis
        by (auto intro: P_rx_only)
    next
      case (Inr s1)
      have s1: "P s1" using "1.prems"(1) determine_length_rx_only(1) [OF Inr] by (rule P_rx_only)
      show ?thesis
      proof (cases "length p < l_rlength s1")
        case True
        with eq Inr False have "s' = UpdateReceiveJam True s1" by auto
        with s1 show ?thesis by (auto intro: P_rx_only rx_only_ops)
      next
        case le: False
        obtain next_ret s2 where
          m: "OnMessage V H (take (l_rlength s1) p) (UpdateReceiveJam False s1) = (next_ret, s2)"
          by (metis prod.exhaust)
        have "P (UpdateReceiveJam False s1)" using s1 by (rule P_rx_only) (rule rx_only_ops)
        then have s2: "P s2" using "1.prems"(2) m by (rule P_OnMessage)
        then have s3: "P (s2\<lparr>l_rlength := 0\<rparr>)" by (rule P_rx_only) (rule rx_only_ops)
        show ?thesis
        proof (cases "next_ret \<le> 0")
          case True
          with eq Inr False le m s2 show ?thesis by (auto split: if_splits)
        next
          case go: False
          with eq Inr False le m have
            "DoReceived V H (drop (l_rlength s1) p) (c + l_rlength s1) (s2\<lparr>l_rlength := 0\<rparr>) = (r, s')"
            by auto
          with "1.hyps" [OF False Inr le m [symmetric] _ _ s3 "1.prems"(2)] go show ?thesis by auto
        qed
      qed
    qed
  qed
qed

lemma P_OnReceived:
  assumes "P s" and "calls_of okc H"
  shows "P (snd (OnReceived V H buf s))"
proof -
  have rec: "P (snd (DoReceived V H p c t))" if "P t" for p c t
    using P_DoReceived [OF that assms(2), of p c] by (metis prod.collapse)
  have upd: "P t \<Longrightarrow> P (t\<lparr>l_rbuffer := rb\<rparr>)" for t rb by (erule P_rx_only) (rule rx_only_ops)
  have "P (UpdateLastReceived s)" using assms(1) by (rule P_rx_only) (rule rx_only_ops)
  then show ?thesis
    by (simp add: OnReceived_def Let_def case_prod_beta assms(1) rec upd)
qed

lemma P_OnConnected: "P s \<Longrightarrow> calls_of okc H \<Longrightarrow> P (snd (OnConnected V H s))"
  by (auto simp: OnConnected_def case_prod_beta calls_of_def
      intro!: P_calls intro: P_rx_only rx_only_ops)

lemma P_DoConnected:
  assumes "P s" and "calls_of okc H"
  shows "P (snd (DoConnected V H s))"
proof -
  have upd: "P t \<Longrightarrow> P (UpdateLastReceived (UpdateConnectJam False (t\<lparr>l_action := a\<rparr>)))" for t a
    by (erule P_rx_only)
      (simp add: rx_only_def UpdateLastReceived_def UpdateConnectJam_def)
  show ?thesis
    unfolding DoConnected_def Let_def
    by (intro P_OnConnected assms(2) upd P_wanna assms(1))
qed

lemma P_AfterEvent: "P s \<Longrightarrow> P (snd (AfterEvent st s))"
  by (auto simp: AfterEvent_def P_wanna split: io_status.splits)

lemma P_finish: "P s \<Longrightarrow> P (snd (finish_event a st s))"
proof -
  assume "P s"
  then have "P (s\<lparr>l_action := x\<rparr>)" for x by (rule P_rx_only) (rule rx_only_ops)
  then show ?thesis by (auto simp: finish_event_def case_prod_beta intro: P_AfterEvent)
qed

lemma P_EventRead:
  assumes "P s" and "calls_of okc H"
  shows "P (snd (EventRead V H s))"
proof -
  have 1: "P (s\<lparr>l_io := io\<rparr>)" for io using assms(1) by (rule P_rx_only) (rule rx_only_ops)
  have 2: "P (s\<lparr>l_io := io, l_action := a\<rparr>)" for io a
    using 1 by (rule P_rx_only) (rule rx_only_ops)
  show ?thesis
    by (auto simp: EventRead_def Let_def 1 case_prod_beta intro!: P_OnReceived assms(2) P_finish 2)
qed

lemma P_EventHandshake:
  assumes "P s" and "calls_of okc H"
  shows "P (snd (EventHandshake V H a st s))"
proof -
  have 1: "P (s\<lparr>l_action := x\<rparr>)" for x using assms(1) by (rule P_rx_only) (rule rx_only_ops)
  show ?thesis
    using assms by (auto simp: EventHandshake_def case_prod_beta intro!: P_DoConnected P_finish 1)
qed

lemma P_OnEventOnce:
  assumes "P s" and "calls_of okc H"
  shows "P (snd (OnEventOnce V H a s))"
proof -
  have 1: "P (s\<lparr>l_io := io\<rparr>)" for io using assms(1) by (rule P_rx_only) (rule rx_only_ops)
  show ?thesis
    using assms 1
    by (cases a) (auto simp: OnEventOnce_def case_prod_beta
        intro!: P_finish P_EventRead P_EventWrite P_EventHandshake P_EventShutdown)
qed

lemma P_restore: "P s \<Longrightarrow> P (restore_wanna s)"
  by (simp add: restore_wanna_def P_wanna)

lemma P_event_loop:
  assumes loop: "event_loop V H a s = Some r" and "P s" and "calls_of okc H"
  shows "P (snd r)"
proof -
  have "V = V \<longrightarrow> P s \<longrightarrow> calls_of okc H \<longrightarrow> P (snd r)"
  proof (rule event_loop.raw_induct
      [where P = "\<lambda>W H a s r. W = V \<longrightarrow> P s \<longrightarrow> calls_of okc H \<longrightarrow> P (snd r)", OF _ loop])
    fix f W H a s r
    assume IH: "\<And>W H a s r. f W H a s = Some r \<Longrightarrow>
        W = V \<longrightarrow> P s \<longrightarrow> calls_of okc H \<longrightarrow> P (snd r)"
      and eq: "(case OnEventOnce W H a s of ((ret, next_action), s1) \<Rightarrow>
        if next_action = kActionNone then Some (ret, s1) else f W H next_action s1) = Some r"
    show "W = V \<longrightarrow> P s \<longrightarrow> calls_of okc H \<longrightarrow> P (snd r)"
    proof (intro impI)
      assume W: "W = V" and s: "P s" and H: "calls_of okc H"
      obtain ret na s1 where o: "OnEventOnce V H a s = ((ret, na), s1)" by (metis prod.exhaust)
      with P_OnEventOnce [OF s H, of a] have "P s1" by simp
      with eq o W H IH [of V H na s1 r] show "P (snd r)" by (auto split: if_splits)
    qed
  qed
  with assms(2,3) show ?thesis by blast
qed

lemma P_OnEvent:
  assumes "OnEvent V H a s = Some (r, s')" and "P s" and "calls_of okc H"
  shows "P s'"
  using assms(1) P_event_loop [OF _ assms(2,3)]
  by (auto simp: OnEvent_def Let_def split: option.splits intro!: P_restore)

lemma P_OnError: "P s \<Longrightarrow> calls_of okc H \<Longrightarrow> P (LinkageOnError V H b s)"
  by (auto simp: LinkageOnError_def case_prod_beta calls_of_def
      intro!: P_calls intro: P_rx_only rx_only_ops)

lemma P_OnDisconnected: "P s \<Longrightarrow> calls_of okc H \<Longrightarrow> P (LinkageOnDisconnected V H s)"
  by (auto simp: LinkageOnDisconnected_def case_prod_beta calls_of_def
      intro!: P_calls intro: P_rx_only rx_only_ops)

lemma P_Cleanup: "P s \<Longrightarrow> calls_of okc H \<Longrightarrow> P (snd (LinkageCleanup V H now s))"
  by (auto simp: LinkageCleanup_def Let_def case_prod_beta calls_of_def
      intro!: P_calls intro: P_rx_only rx_only_ops)

end

end
