(* ===== verification/Linkage_Send.thy ===== *)
theory Linkage_Send
  imports Linkage_Events "HOL-Library.Sublist"
begin

text \<open>
  The sending side of \<open>Linkage\<close>. The bytes a connection owes its peer are those the transport has
  taken followed by those still buffered: \<open>sent_stream\<close>. \<open>Send\<close> appends to it, write events move
  bytes from the buffer to the wire without touching it, and nothing but \<open>Disconnect(false)\<close>
  shortens it. A write the transport could not finish is repeated with the same bytes.
\<close>

section \<open>Fields the primitives leave alone\<close>

named_theorems tx_fields \<open>fields of the sending side under the primitive operations\<close>

lemma set_wanna_events: "\<exists>e. set_wanna r w s = s\<lparr>w_events := e\<rparr>"
  by (auto simp: set_wanna_def SetWanna_def set_client_def Let_def split: option.splits
      intro: exI [of _ "w_events s"])

lemma set_wanna_read_events: "\<exists>e. set_wanna_read b s = s\<lparr>w_events := e\<rparr>"
  by (auto simp: set_wanna_read_def SetWannaRead_def set_client_def split: option.splits
      intro: exI [of _ "w_events s"])

lemma set_wanna_write_events: "\<exists>e. set_wanna_write b s = s\<lparr>w_events := e\<rparr>"
  by (auto simp: set_wanna_write_def SetWannaWrite_def set_client_def split: option.splits
      intro: exI [of _ "w_events s"])

lemma set_wanna_fields [simp, tx_fields]:
  "l_wire (set_wanna r w s) = l_wire s" "l_wbuffer (set_wanna r w s) = l_wbuffer s"
  "l_last_writing (set_wanna r w s) = l_last_writing s" "l_graceful (set_wanna r w s) = l_graceful s"
  "l_self (set_wanna r w s) = l_self s" "l_worker (set_wanna r w s) = l_worker s"
  "l_action (set_wanna r w s) = l_action s" "l_closed (set_wanna r w s) = l_closed s"
  "l_io (set_wanna r w s) = l_io s" "l_send_jam (set_wanna r w s) = l_send_jam s"
  using set_wanna_events [of r w s] by auto

lemma set_wanna_read_fields [simp, tx_fields]:
  "l_wire (set_wanna_read b s) = l_wire s" "l_wbuffer (set_wanna_read b s) = l_wbuffer s"
  "l_last_writing (set_wanna_read b s) = l_last_writing s" "l_graceful (set_wanna_read b s) = l_graceful s"
  "l_self (set_wanna_read b s) = l_self s" "l_worker (set_wanna_read b s) = l_worker s"
  "l_action (set_wanna_read b s) = l_action s" "l_closed (set_wanna_read b s) = l_closed s"
  using set_wanna_read_events [of b s] by auto

lemma set_wanna_write_fields [simp, tx_fields]:
  "l_wire (set_wanna_write b s) = l_wire s" "l_wbuffer (set_wanna_write b s) = l_wbuffer s"
  "l_last_writing (set_wanna_write b s) = l_last_writing s" "l_graceful (set_wanna_write b s) = l_graceful s"
  "l_self (set_wanna_write b s) = l_self s" "l_worker (set_wanna_write b s) = l_worker s"
  "l_action (set_wanna_write b s) = l_action s" "l_closed (set_wanna_write b s) = l_closed s"
  using set_wanna_write_events [of b s] by auto

lemma UpdateLastSent_fields [simp, tx_fields]:
  "l_wire (UpdateLastSent a j s) = l_wire s" "l_wbuffer (UpdateLastSent a j s) = l_wbuffer s"
  "l_last_writing (UpdateLastSent a j s) = l_last_writing s" "l_graceful (UpdateLastSent a j s) = l_graceful s"
  "l_self (UpdateLastSent a j s) = l_self s" "l_worker (UpdateLastSent a j s) = l_worker s"
  "l_action (UpdateLastSent a j s) = l_action s" "l_closed (UpdateLastSent a j s) = l_closed s"
  "w_events (UpdateLastSent a j s) = w_events s"
  by (simp_all add: UpdateLastSent_def Let_def)

lemma UpdateConnectJam_fields [simp, tx_fields]:
  "l_wire (UpdateConnectJam b s) = l_wire s" "l_wbuffer (UpdateConnectJam b s) = l_wbuffer s"
  "l_last_writing (UpdateConnectJam b s) = l_last_writing s" "l_graceful (UpdateConnectJam b s) = l_graceful s"
  "l_self (UpdateConnectJam b s) = l_self s" "l_worker (UpdateConnectJam b s) = l_worker s"
  "l_action (UpdateConnectJam b s) = l_action s" "l_closed (UpdateConnectJam b s) = l_closed s"
  "l_io (UpdateConnectJam b s) = l_io s" "w_events (UpdateConnectJam b s) = w_events s"
  by (simp_all add: UpdateConnectJam_def)

lemma io_write_eq:
  "io_write V b s = (let r = ioWrite V b (l_io s); st = fst (fst r); n = snd (fst r) in
     ((st, n), s\<lparr>l_io := snd r, l_wire := (if st = kStatusOk then l_wire s @ take n b else l_wire s)\<rparr>))"
  by (simp add: io_write_def case_prod_beta Let_def)

lemma AfterEvent_fields [simp, tx_fields]:
  "l_wire (snd (AfterEvent st s)) = l_wire s" "l_wbuffer (snd (AfterEvent st s)) = l_wbuffer s"
  "l_last_writing (snd (AfterEvent st s)) = l_last_writing s"
  "l_graceful (snd (AfterEvent st s)) = l_graceful s"
  "l_self (snd (AfterEvent st s)) = l_self s" "l_worker (snd (AfterEvent st s)) = l_worker s"
  "l_action (snd (AfterEvent st s)) = l_action s" "l_closed (snd (AfterEvent st s)) = l_closed s"
  by (cases st; simp add: AfterEvent_def)+

lemma restore_wanna_fields [simp, tx_fields]:
  "l_wire (restore_wanna s) = l_wire s" "l_wbuffer (restore_wanna s) = l_wbuffer s"
  "l_last_writing (restore_wanna s) = l_last_writing s" "l_graceful (restore_wanna s) = l_graceful s"
  "l_self (restore_wanna s) = l_self s" "l_worker (restore_wanna s) = l_worker s"
  "l_action (restore_wanna s) = l_action s" "l_closed (restore_wanna s) = l_closed s"
  by (simp_all add: restore_wanna_def)

lemma OnEventShutdown_fields [simp, tx_fields]:
  "l_wire (snd (OnEventShutdown V s)) = l_wire s"
  "l_wbuffer (snd (OnEventShutdown V s)) = l_wbuffer s"
  "l_last_writing (snd (OnEventShutdown V s)) = l_last_writing s"
  "l_graceful (snd (OnEventShutdown V s))"
  "l_self (snd (OnEventShutdown V s)) = l_self s"
  "l_worker (snd (OnEventShutdown V s)) = l_worker s"
  by (simp_all add: OnEventShutdown_def LinkageShutdown_def Let_def case_prod_beta)

lemma Disconnect_fields [simp, tx_fields]:
  "l_wire (snd (Disconnect V f s)) = l_wire s"
  "l_wbuffer (snd (Disconnect V f s)) = (if f then l_wbuffer s else [])"
  "l_last_writing (snd (Disconnect V f s)) = l_last_writing s"
  "l_graceful (snd (Disconnect V f s))"
  "l_self (snd (Disconnect V f s)) = l_self s"
  "l_worker (snd (Disconnect V f s)) = l_worker s"
  by (simp_all add: Disconnect_def Let_def case_prod_beta DumpSendingBuffer_def)

section \<open>The stream of bytes\<close>

definition sent_stream :: "('io, 'u) linkage \<Rightarrow> bytes" where
  "sent_stream s = l_wire s @ l_wbuffer s"

definition wbuffer_ok :: "('io, 'u) linkage \<Rightarrow> bool" where
  "wbuffer_ok s \<longleftrightarrow> length (l_wbuffer s) \<le> kMaximumBytes"

lemma room_left:
  assumes "length (l_wbuffer s) \<le> kMaximumBytes" and "length b \<le> INT_MAX"
  shows "(of_nat kMaximumBytes - of_nat (length (l_wbuffer s)) :: u64) < of_nat (length b) \<longleftrightarrow>
    kMaximumBytes < length (l_wbuffer s) + length b"
proof -
  have "(of_nat kMaximumBytes - of_nat (length (l_wbuffer s)) :: u64) =
      of_nat (kMaximumBytes - length (l_wbuffer s))"
    using assms(1) by (simp add: of_nat_diff)
  moreover have "unat (of_nat (kMaximumBytes - length (l_wbuffer s)) :: u64) =
      kMaximumBytes - length (l_wbuffer s)"
    by (simp add: unsigned_of_nat take_bit_nat_eq_self kMaximumBytes_def)
  moreover have "unat (of_nat (length b) :: u64) = length b"
    using assms(2) by (simp add: unsigned_of_nat take_bit_nat_eq_self INT_MAX_def)
  ultimately show ?thesis
    using assms(1) by (simp only: word_less_nat_alt) arith
qed

lemma AppendSendingBuffer_eq:
  assumes "wbuffer_ok s" and "length b \<le> INT_MAX"
  shows "AppendSendingBuffer b s =
    (if kMaximumBytes < length (l_wbuffer s) + length b then (False, s)
     else (True, s\<lparr>l_wbuffer := l_wbuffer s @ b\<rparr>))"
  using assms room_left [of s b] by (simp add: AppendSendingBuffer_def wbuffer_ok_def Let_def)

text \<open>The two ways \<open>Send\<close> goes on once it has accepted to send \<open>b\<close>.\<close>

lemma Send_refuse:
  "INT_MAX < length b \<or> l_worker s = 0 \<or> l_graceful s \<Longrightarrow> Send V (Some b) s = (False, s)"
  by (auto simp: Send_def)

lemma Send_empty: "l_worker s \<noteq> 0 \<Longrightarrow> \<not> l_graceful s \<Longrightarrow> Send V (Some []) s = (True, s)"
  by (simp add: Send_def)

lemma Send_queue:
  assumes "length b \<le> INT_MAX" and "l_worker s \<noteq> 0" and "\<not> l_graceful s" and "b \<noteq> []"
    and "l_action s \<noteq> kActionNone \<or> l_wbuffer s \<noteq> []"
  shows "Send V (Some b) s = AppendSendingBuffer b s"
  using assms by (auto simp: Send_def GetSendingBufferSize_def)

text \<open>The buffer is empty and the transport has answered \<open>((st, n), io)\<close>.\<close>

definition after_write :: "io_status \<Rightarrow> nat \<Rightarrow> 'io \<Rightarrow> bytes \<Rightarrow> ('io, 'u) linkage \<Rightarrow> ('io, 'u) linkage" where
  "after_write st n io' b s =
    s\<lparr>l_io := io', l_wire := (if st = kStatusOk then l_wire s @ take n b else l_wire s)\<rparr>"

lemma after_write_fields [simp]:
  "l_wbuffer (after_write st n io' b s) = l_wbuffer s"
  "l_wire (after_write st n io' b s) = (if st = kStatusOk then l_wire s @ take n b else l_wire s)"
  "l_action (after_write st n io' b s) = l_action s"
  "l_last_writing (after_write st n io' b s) = l_last_writing s"
  "l_graceful (after_write st n io' b s) = l_graceful s"
  "l_self (after_write st n io' b s) = l_self s"
  "l_worker (after_write st n io' b s) = l_worker s"
  by (simp_all add: after_write_def)

lemma wbuffer_ok_after_write [simp]: "wbuffer_ok (after_write st n io' b s) = wbuffer_ok s"
  by (simp add: wbuffer_ok_def)

lemma Send_write:
  assumes "length b \<le> INT_MAX" and "l_worker s \<noteq> 0" and "\<not> l_graceful s" and "b \<noteq> []"
    and "l_action s = kActionNone" and "l_wbuffer s = []" and "ioWrite V b (l_io s) = ((st, n), io')"
  shows "Send V (Some b) s =
    (let s1 = after_write st n io' b s;
         queue = (\<lambda>q t. (length q \<le> kMaximumBytes,
                        if length q \<le> kMaximumBytes then t (s1\<lparr>l_wbuffer := q\<rparr>) else s1))
     in case st of
          kStatusJammed \<Rightarrow> queue b (\<lambda>s2. UpdateLastSent False True (set_wanna False True s2))
        | kStatusWannaRead \<Rightarrow> queue b (\<lambda>s2. (UpdateLastSent False True
            (set_wanna True False (s2\<lparr>l_action := kActionWrite\<rparr>)))\<lparr>l_last_writing := length b\<rparr>)
        | kStatusWannaWrite \<Rightarrow> queue b (\<lambda>s2. (UpdateLastSent False True
            (set_wanna False True (s2\<lparr>l_action := kActionWrite\<rparr>)))\<lparr>l_last_writing := length b\<rparr>)
        | kStatusOk \<Rightarrow>
            if n < length b
            then queue (drop n b) (\<lambda>s2. UpdateLastSent True True (set_wanna_write True s2))
            else (True, UpdateLastSent True False s1)
        | _ \<Rightarrow> (False, s1))"
proof -
  let ?s1 = "after_write st n io' b s"
  have app: "AppendSendingBuffer q ?s1 = (length q \<le> kMaximumBytes,
      if length q \<le> kMaximumBytes then ?s1\<lparr>l_wbuffer := q\<rparr> else ?s1)" if "length q \<le> INT_MAX" for q
    using that assms(6) AppendSendingBuffer_eq [of ?s1 q] by (simp add: wbuffer_ok_def)
  have w: "io_write V b s = ((st, n), ?s1)"
    by (simp add: io_write_def assms(7) after_write_def)
  have le: "length b \<le> INT_MAX" "length (drop n b) \<le> INT_MAX" using assms(1) by auto
  show ?thesis
    using assms(1-6) w app [OF le(1)] app [OF le(2)]
    by (cases st) (simp_all add: Send_def GetSendingBufferSize_def Let_def)
qed

text \<open>What \<open>Send\<close> does to the stream, on every branch.\<close>

lemma Send_stream:
  assumes ok: "wbuffer_ok s" and send: "Send V (Some b) s = (r, s')"
  shows "wbuffer_ok s' \<and> (r \<longrightarrow> sent_stream s' = sent_stream s @ b) \<and>
    (\<not> r \<longrightarrow> l_wbuffer s' = l_wbuffer s \<and> (\<exists>n. l_wire s' = l_wire s @ take n b) \<and>
      (length b \<le> kMaximumBytes \<or> l_wbuffer s \<noteq> [] \<longrightarrow> l_wire s' = l_wire s))"
proof -
  have nil: "\<exists>n. xs = xs @ take n ys" for xs ys :: bytes by (rule exI [of _ 0]) simp
  consider "INT_MAX < length b \<or> l_worker s = 0 \<or> l_graceful s"
    | "l_worker s \<noteq> 0" "\<not> l_graceful s" "b = []"
    | "length b \<le> INT_MAX" "l_worker s \<noteq> 0" "\<not> l_graceful s" "b \<noteq> []"
      "l_action s \<noteq> kActionNone \<or> l_wbuffer s \<noteq> []"
    | "length b \<le> INT_MAX" "l_worker s \<noteq> 0" "\<not> l_graceful s" "b \<noteq> []"
      "l_action s = kActionNone" "l_wbuffer s = []"
    by force
  then show ?thesis
  proof cases
    case 1
    with send ok show ?thesis by (simp add: Send_refuse nil)
  next
    case 2
    with send ok show ?thesis by (auto simp: Send_empty)
  next
    case 3
    with send ok Send_queue [OF 3, of V] AppendSendingBuffer_eq [OF ok 3(1)] show ?thesis
      by (auto simp: sent_stream_def wbuffer_ok_def nil split: if_splits)
  next
    case 4
    obtain st n io' where w: "ioWrite V b (l_io s) = ((st, n), io')" by (metis prod.exhaust)
    have drop: "\<not> length b - n \<le> kMaximumBytes \<Longrightarrow> \<not> length b \<le> kMaximumBytes" by arith
    show ?thesis
      using send ok Send_write [OF 4 w] 4(6) drop
      by (cases st) (auto simp: Let_def sent_stream_def wbuffer_ok_def nil split: if_splits)
  qed
qed

lemma EventWrite_fields [simp, tx_fields]:
  "l_graceful (snd (EventWrite V s)) = l_graceful s"
  "l_self (snd (EventWrite V s)) = l_self s"
  "l_worker (snd (EventWrite V s)) = l_worker s"
  by (simp_all add: EventWrite_def PickSendingBuffer_def io_write_def finish_event_def
      ConsumeSendingBuffer_def Let_def case_prod_beta)

lemma PickSendingBuffer_eq:
  assumes "PickSendingBuffer s = (b, s0)"
  shows "take (length b) (l_wbuffer s) = b" and "\<exists>n. s0 = s\<lparr>l_last_writing := n\<rparr>"
proof -
  have "s = s\<lparr>l_last_writing := l_last_writing s\<rparr>" by simp
  then have "\<exists>n. s = s\<lparr>l_last_writing := n\<rparr>" by (rule exI)
  then show "\<exists>n. s0 = s\<lparr>l_last_writing := n\<rparr>"
    using assms by (auto simp: PickSendingBuffer_def split: if_splits)
  show "take (length b) (l_wbuffer s) = b"
    using assms by (auto simp: PickSendingBuffer_def min_def split: if_splits)
qed

lemma EventWrite_buffers:
  assumes b: "PickSendingBuffer s = (b, s0)" "b \<noteq> []"
    and w: "ioWrite V b (l_io s) = ((st, n), io')"
  shows "l_wire (snd (EventWrite V s)) = (if st = kStatusOk then l_wire s @ take n b else l_wire s)"
    and "l_wbuffer (snd (EventWrite V s)) =
      (if st = kStatusOk then drop (min n (length b)) (l_wbuffer s) else l_wbuffer s)"
    and "INCOMPLETE st \<Longrightarrow> l_action (snd (EventWrite V s)) = kActionWrite"
    and "INCOMPLETE st \<Longrightarrow> l_last_writing (snd (EventWrite V s)) = length b"
proof -
  obtain k where s0: "s0 = s\<lparr>l_last_writing := k\<rparr>" using PickSendingBuffer_eq(2) [OF b(1)] ..
  have "io_write V b s0 = ((st, n), after_write st n io' b s0)"
    using w by (simp add: io_write_def after_write_def s0)
  note io = this [unfolded s0]
  show "l_wire (snd (EventWrite V s)) = (if st = kStatusOk then l_wire s @ take n b else l_wire s)"
    using b(2) by (simp add: EventWrite_def b(1) io s0 ConsumeSendingBuffer_def finish_event_def
        Let_def case_prod_beta)
  show "l_wbuffer (snd (EventWrite V s)) =
      (if st = kStatusOk then drop (min n (length b)) (l_wbuffer s) else l_wbuffer s)"
    using b(2) by (simp add: EventWrite_def b(1) io s0 ConsumeSendingBuffer_def finish_event_def
        Let_def case_prod_beta)
  show "INCOMPLETE st \<Longrightarrow> l_action (snd (EventWrite V s)) = kActionWrite"
    using b(2) by (auto simp: EventWrite_def b(1) io s0 finish_event_def
        Let_def case_prod_beta INCOMPLETE_def)
  show "INCOMPLETE st \<Longrightarrow> l_last_writing (snd (EventWrite V s)) = length b"
    using b(2) by (auto simp: EventWrite_def b(1) io s0 finish_event_def
        Let_def case_prod_beta INCOMPLETE_def)
qed

lemma EventWrite_idle:
  "PickSendingBuffer s = ([], s0) \<Longrightarrow>
    l_wire (snd (EventWrite V s)) = l_wire s \<and> l_wbuffer (snd (EventWrite V s)) = l_wbuffer s"
  using PickSendingBuffer_eq(2) [of s "[]" s0] by (auto simp: EventWrite_def)

lemma EventWrite_stream: "sent_stream (snd (EventWrite V s)) = sent_stream s"
proof -
  obtain b s0 where b: "PickSendingBuffer s = (b, s0)" by (metis prod.exhaust)
  obtain st n io' where w: "ioWrite V b (l_io s) = ((st, n), io')" by (metis prod.exhaust)
  have "take n b = take (min n (length b)) (l_wbuffer s)"
    using PickSendingBuffer_eq(1) [OF b] by (metis take_take min.commute)
  with EventWrite_buffers(1,2) [OF b _ w] EventWrite_idle [of s s0 V] b show ?thesis
    by (cases "b = []") (auto simp: sent_stream_def)
qed

lemma wbuffer_ok_EventWrite: "wbuffer_ok s \<Longrightarrow> wbuffer_ok (snd (EventWrite V s))"
proof -
  assume ok: "wbuffer_ok s"
  obtain b s0 where b: "PickSendingBuffer s = (b, s0)" by (metis prod.exhaust)
  obtain st n io' where w: "ioWrite V b (l_io s) = ((st, n), io')" by (metis prod.exhaust)
  with EventWrite_buffers(2) [OF b _ w] EventWrite_idle [of s s0 V] b ok show ?thesis
    by (cases "b = []") (auto simp: wbuffer_ok_def)
qed

end
