(* ===== verification/Linkage_Correct.thy ===== *)
theory Linkage_Correct
  imports Linkage_Send
begin

text \<open>
  The invariants of one connection over its whole life. \<open>linkage_step\<close> lists what can happen to a
  connection on the thread of its worker: events, public calls, the health check, time passing.
  Each invariant is an interpretation of \<open>linkage_invariant\<close>, and the properties follow by
  induction over the steps.
\<close>

section \<open>The life of a connection\<close>

inductive linkage_step ::
  "'io io_vt \<Rightarrow> (('io, 'u) linkage, 'u) handler_vt \<Rightarrow> (call \<Rightarrow> bool)
    \<Rightarrow> ('io, 'u) linkage \<Rightarrow> ('io, 'u) linkage \<Rightarrow> bool" for V H okc where
  step_readable: "LinkageOnReadable V H s = Some (ret, s') \<Longrightarrow> linkage_step V H okc s s'"
| step_writable: "LinkageOnWritable V H s = Some (ret, s') \<Longrightarrow> linkage_step V H okc s s'"
| step_call: "okc c \<Longrightarrow> linkage_step V H okc s (apply_calls V [c] s)"
| step_cleanup: "linkage_step V H okc s (snd (LinkageCleanup V H now s))"
| step_error: "linkage_step V H okc s (LinkageOnError V H b s)"
| step_disconnected: "linkage_step V H okc s (LinkageOnDisconnected V H s)"
| step_clock: "l_clock s \<le> now \<Longrightarrow> linkage_step V H okc s (s\<lparr>l_clock := now\<rparr>)"

context linkage_invariant
begin

lemma P_step: "linkage_step V H okc s s' \<Longrightarrow> calls_of okc H \<Longrightarrow> P s \<Longrightarrow> P s'"
proof (induction rule: linkage_step.induct)
  case (step_readable s ret s')
  then show ?case by (auto simp: LinkageOnReadable_def intro: P_OnEvent)
next
  case (step_writable s ret s')
  then show ?case by (auto simp: LinkageOnWritable_def intro: P_OnEvent)
next
  case (step_call c s)
  then show ?case using P_calls [of s "[c]"] by simp
next
  case (step_cleanup s now)
  then show ?case by (blast intro: P_Cleanup)
next
  case (step_error s b)
  then show ?case by (blast intro: P_OnError)
next
  case (step_disconnected s)
  then show ?case by (blast intro: P_OnDisconnected)
next
  case (step_clock s now)
  then show ?case by (elim P_rx_only) (simp add: rx_only_def)
qed

lemma P_life: "(linkage_step V H okc)\<^sup>*\<^sup>* s s' \<Longrightarrow> calls_of okc H \<Longrightarrow> P s \<Longrightarrow> P s'"
  by (induction rule: rtranclp_induct) (auto intro: P_step)

end

section \<open>The invariants\<close>

text \<open>Calls that do not throw queued bytes away.\<close>

definition keeps_output :: "call \<Rightarrow> bool" where
  "keeps_output c \<longleftrightarrow> c \<noteq> CallDisconnect False"

lemma Send_None [simp]: "Send V None s = (False, s)"
  by (simp add: Send_def)

lemma rx_only_sent_stream: "rx_only s s' \<Longrightarrow> sent_stream s' = sent_stream s"
  by (simp add: rx_only_def sent_stream_def)

lemma wbuffer_ok_Send: "wbuffer_ok s \<Longrightarrow> wbuffer_ok (snd (Send V b s))"
  using Send_stream [of s V _ "fst (Send V b s)" "snd (Send V b s)"] by (cases b) auto

interpretation sending_bound: linkage_invariant V wbuffer_ok "\<lambda>_. True" for V :: "'io io_vt"
proof
  fix s s' :: "('io, 'u) linkage" and r w b f
  show "wbuffer_ok s \<Longrightarrow> rx_only s s' \<Longrightarrow> wbuffer_ok s'" by (simp add: rx_only_def wbuffer_ok_def)
  show "wbuffer_ok s \<Longrightarrow> wbuffer_ok (set_wanna r w s)" by (simp add: wbuffer_ok_def)
  show "wbuffer_ok s \<Longrightarrow> wbuffer_ok (snd (Send V b s))" by (rule wbuffer_ok_Send)
  show "wbuffer_ok s \<Longrightarrow> wbuffer_ok (snd (Disconnect V f s))" by (simp add: wbuffer_ok_def)
  show "wbuffer_ok s \<Longrightarrow> wbuffer_ok (snd (EventWrite V s))" by (rule wbuffer_ok_EventWrite)
  show "wbuffer_ok s \<Longrightarrow> wbuffer_ok (snd (OnEventShutdown V s))" by (simp add: wbuffer_ok_def)
qed

text \<open>The stream only grows, as long as nobody asks for \<open>Disconnect(false)\<close>.\<close>

definition stream_from :: "bytes \<Rightarrow> ('io, 'u) linkage \<Rightarrow> bool" where
  "stream_from bs s \<longleftrightarrow> wbuffer_ok s \<and> prefix bs (sent_stream s)"

lemma stream_from_Send:
  assumes "stream_from bs s" shows "stream_from bs (snd (Send V b s))"
proof (cases b)
  case None
  with assms show ?thesis by simp
next
  case (Some c)
  from assms have ok: "wbuffer_ok s" and pre: "prefix bs (sent_stream s)"
    by (auto simp: stream_from_def)
  note S = Send_stream [OF ok, of V c "fst (Send V b s)" "snd (Send V b s)"]
  have "\<exists>x. sent_stream (snd (Send V b s)) = sent_stream s @ x"
  proof (cases "fst (Send V b s) \<or> l_wbuffer s \<noteq> []")
    case True
    with S Some show ?thesis by (cases "fst (Send V b s)") (auto simp: sent_stream_def)
  next
    case False
    with S Some show ?thesis by (auto simp: sent_stream_def)
  qed
  with pre S Some show ?thesis by (auto simp: stream_from_def)
qed

interpretation sending_order: linkage_invariant V "stream_from bs" keeps_output
  for V :: "'io io_vt" and bs
proof
  fix s s' :: "('io, 'u) linkage" and r w b f
  show "stream_from bs s \<Longrightarrow> rx_only s s' \<Longrightarrow> stream_from bs s'"
    by (simp add: stream_from_def rx_only_def wbuffer_ok_def sent_stream_def)
  show "stream_from bs s \<Longrightarrow> stream_from bs (set_wanna r w s)"
    by (simp add: stream_from_def wbuffer_ok_def sent_stream_def)
  show "stream_from bs s \<Longrightarrow> stream_from bs (snd (Send V b s))" by (rule stream_from_Send)
  show "stream_from bs s \<Longrightarrow> keeps_output (CallDisconnect f) \<Longrightarrow>
      stream_from bs (snd (Disconnect V f s))"
    by (auto simp: keeps_output_def stream_from_def wbuffer_ok_def sent_stream_def)
  show "stream_from bs s \<Longrightarrow> stream_from bs (snd (EventWrite V s))"
    by (simp add: stream_from_def EventWrite_stream wbuffer_ok_EventWrite)
  show "stream_from bs s \<Longrightarrow> stream_from bs (snd (OnEventShutdown V s))"
    by (simp add: stream_from_def wbuffer_ok_def sent_stream_def)
qed

text \<open>A connection that is being closed stays so, sends nothing new, and keeps its worker.\<close>

lemma Send_fields [simp, tx_fields]:
  "l_graceful (snd (Send V b s)) = l_graceful s"
  "l_self (snd (Send V b s)) = l_self s"
  "l_worker (snd (Send V b s)) = l_worker s"
proof -
  have "l_graceful (snd (Send V b s)) = l_graceful s \<and> l_self (snd (Send V b s)) = l_self s \<and>
    l_worker (snd (Send V b s)) = l_worker s"
    by (cases b) (auto simp: Send_def AppendSendingBuffer_def io_write_def Let_def case_prod_beta
        split: io_status.splits)
  then show "l_graceful (snd (Send V b s)) = l_graceful s"
    "l_self (snd (Send V b s)) = l_self s" "l_worker (snd (Send V b s)) = l_worker s" by auto
qed

definition attached_as :: "ptr \<Rightarrow> ptr \<Rightarrow> bool \<Rightarrow> ('io, 'u) linkage \<Rightarrow> bool" where
  "attached_as p w g s \<longleftrightarrow> l_self s = p \<and> l_worker s = w \<and> (g \<longrightarrow> l_graceful s)"

interpretation identity: linkage_invariant V "attached_as p w g" "\<lambda>_. True"
  for V :: "'io io_vt" and p w g
  by unfold_locales (auto simp: attached_as_def rx_only_def)

text \<open>The connection never detaches anything from its worker.\<close>

lemma wk_keeps_cong:
  "wk_keeps s0 s \<Longrightarrow> w_events s' = w_events s \<Longrightarrow> w_timers s' = w_timers s \<Longrightarrow>
    w_next_timer s' = w_next_timer s \<Longrightarrow> wk_keeps s0 s'"
  by (simp add: wk_keeps_def worker_wf_def worker_keys_def)

named_theorems wk_frame \<open>operations that keep the worker's connections\<close>

lemma wk_keeps_wanna [wk_frame]:
  "wk_keeps s0 s \<Longrightarrow> wk_keeps s0 (set_wanna r w s)"
  "wk_keeps s0 s \<Longrightarrow> wk_keeps s0 (set_wanna_read b s)"
  "wk_keeps s0 s \<Longrightarrow> wk_keeps s0 (set_wanna_write b s)"
  by (auto simp: set_wanna_def set_wanna_read_def set_wanna_write_def
      intro: wk_keeps_trans SetWanna_keeps SetWannaRead_keeps SetWannaWrite_keeps)

lemma wk_keeps_updates [wk_frame]:
  "wk_keeps s0 s \<Longrightarrow> wk_keeps s0 (UpdateLastSent a j s)"
  "wk_keeps s0 s \<Longrightarrow> wk_keeps s0 (UpdateConnectJam b s)"
  "wk_keeps s0 s \<Longrightarrow> wk_keeps s0 (DumpSendingBuffer s)"
  "wk_keeps s0 s \<Longrightarrow> wk_keeps s0 (ConsumeSendingBuffer n s)"
  "wk_keeps s0 s \<Longrightarrow> wk_keeps s0 (s\<lparr>l_action := ac\<rparr>)"
  "wk_keeps s0 s \<Longrightarrow> wk_keeps s0 (s\<lparr>l_last_writing := n\<rparr>)"
  "wk_keeps s0 s \<Longrightarrow> wk_keeps s0 (s\<lparr>l_io := io\<rparr>)"
  "wk_keeps s0 s \<Longrightarrow> wk_keeps s0 (s\<lparr>l_closed := c\<rparr>)"
  "wk_keeps s0 s \<Longrightarrow> wk_keeps s0 (s\<lparr>l_graceful := c\<rparr>)"
  "wk_keeps s0 s \<Longrightarrow> wk_keeps s0 (snd (AppendSendingBuffer q s))"
  "wk_keeps s0 s \<Longrightarrow> wk_keeps s0 (snd (io_write V q s))"
  "wk_keeps s0 s \<Longrightarrow> wk_keeps s0 (snd (PickSendingBuffer s))"
  by (erule wk_keeps_cong; simp add: UpdateLastSent_def UpdateConnectJam_def DumpSendingBuffer_def
      ConsumeSendingBuffer_def AppendSendingBuffer_def io_write_def PickSendingBuffer_def Let_def
      case_prod_beta)+

lemma wk_keeps_AfterEvent [wk_frame]: "wk_keeps s0 s \<Longrightarrow> wk_keeps s0 (snd (AfterEvent st s))"
  by (cases st) (auto simp: AfterEvent_def intro: wk_frame)

lemma wk_keeps_finish [wk_frame]: "wk_keeps s0 s \<Longrightarrow> wk_keeps s0 (snd (finish_event a st s))"
  by (auto simp: finish_event_def case_prod_beta intro: wk_frame)

lemma wk_keeps_Send: "wk_keeps s0 s \<Longrightarrow> wk_keeps s0 (snd (Send V b s))"
  by (auto simp: Send_def case_prod_beta intro!: wk_frame split: option.split io_status.split)

lemma wk_keeps_OnEventShutdown: "wk_keeps s0 s \<Longrightarrow> wk_keeps s0 (snd (OnEventShutdown V s))"
  by (auto simp: OnEventShutdown_def LinkageShutdown_def Let_def case_prod_beta intro!: wk_frame)

lemma wk_keeps_Disconnect: "wk_keeps s0 s \<Longrightarrow> wk_keeps s0 (snd (Disconnect V f s))"
  by (auto simp: Disconnect_def restore_wanna_def Let_def case_prod_beta
      intro!: wk_frame wk_keeps_OnEventShutdown)

lemma wk_keeps_EventWrite: "wk_keeps s0 s \<Longrightarrow> wk_keeps s0 (snd (EventWrite V s))"
  by (auto simp: EventWrite_def Let_def case_prod_beta intro!: wk_frame)

lemma wk_keeps_rx_only: "wk_keeps s0 s \<Longrightarrow> rx_only s s' \<Longrightarrow> wk_keeps s0 s'"
  by (erule wk_keeps_cong) (simp_all add: rx_only_def)

interpretation registration: linkage_invariant V "wk_keeps s0" "\<lambda>_. True"
  for V :: "'io io_vt" and s0 :: "('io, 'u) linkage"
  by unfold_locales (blast intro: wk_keeps_rx_only wk_keeps_wanna wk_keeps_Send
      wk_keeps_Disconnect wk_keeps_EventWrite wk_keeps_OnEventShutdown)+

section \<open>Concrete transports and handlers\<close>

text \<open>
  A transport that answers writes from a script, and a handler that only cuts messages; the
  witnesses evaluate the connection on them.
\<close>

definition script_io :: "(io_status \<times> nat) list io_vt" where
  "script_io = \<lparr>
     ioInitialize = (\<lambda>io. ((True, kActionNone, kActionNone, True, False), io)),
     ioRead = (\<lambda>n io. ((kStatusWannaRead, [], False), io)),
     ioWrite = (\<lambda>b io. case io of [] \<Rightarrow> ((kStatusOk, length b), []) | x # xs \<Rightarrow> (x, xs)),
     ioShutdown = (\<lambda>io. (kStatusOk, io)),
     ioConnect = (\<lambda>io. (kStatusOk, io)),
     ioAccept = (\<lambda>io. (kStatusOk, io))\<rparr>"

definition cutting_handler ::
  "(bytes \<Rightarrow> int) \<Rightarrow> (((io_status \<times> nat) list, unit) linkage, unit) handler_vt" where
  "cutting_handler g = \<lparr>
     hGetMessageLength = (\<lambda>p s. g p),
     hOnMessage = (\<lambda>m s. (1, [], ())),
     hOnConnected = (\<lambda>s. (True, [], ())),
     hOnDisconnected = (\<lambda>s. ([], ())),
     hOnError = (\<lambda>b s. ([], ())),
     hCleanup = (\<lambda>now s. (True, [], ()))\<rparr>"

text \<open>Messages of one length byte followed by that many bytes.\<close>

definition counted :: "bytes \<Rightarrow> int" where
  "counted p = (case p of [] \<Rightarrow> 0 | n # _ \<Rightarrow> 1 + uint n)"

definition demo_linkage ::
  "(io_status \<times> nat) list \<Rightarrow> ((io_status \<times> nat) list, unit) linkage" where
  "demo_linkage io = (snd (Attach 1 5 True False True (new_linkage new_worker 1 5 io () 0)))
     \<lparr>l_worker := 7\<rparr>"

lemma stable_counted: "stable_length counted"
proof -
  have "counted (p @ q) = counted p" if "0 < counted p" for p q
    using that by (cases p) (auto simp: counted_def)
  then show ?thesis by (simp add: stable_length_def)
qed

lemma cutting_handler_calls: "calls_of okc (cutting_handler g)"
  by (simp add: calls_of_def cutting_handler_def)

lemma demo_linkage_fields [simp]:
  "l_self (demo_linkage io) = 1" "l_worker (demo_linkage io) = 7"
  "l_wbuffer (demo_linkage io) = []" "l_wire (demo_linkage io) = []"
  "l_rbuffer (demo_linkage io) = []" "l_rlength (demo_linkage io) = 0"
  "l_delivered (demo_linkage io) = []" "l_action (demo_linkage io) = kActionNone"
  "l_last_writing (demo_linkage io) = 0" "l_io (demo_linkage io) = io"
  "\<not> l_graceful (demo_linkage io)" "\<not> l_closed (demo_linkage io)"
  by (simp_all add: demo_linkage_def new_linkage_def new_worker_def Attach_def worker_client_def
      set_client_def ev_io_r_def worker.defs)

lemma wbuffer_ok_demo [simp]: "wbuffer_ok (demo_linkage io)"
  by (simp add: wbuffer_ok_def)

section \<open>Properties of the receiving side\<close>

text \<open>
  C1. However the incoming bytes are cut into reads, as long as the connection goes on the handler
  has received exactly the messages of the whole stream, in order, and \<open>_rbuffer\<close> holds the
  unfinished tail: \<open>OnReceived\<close> and \<open>DoReceived\<close> implement the reference parser on every path
  (direct parsing, completing a message whose length is known, reparsing the buffer).
\<close>

theorem reads_deliver_frames:
  assumes "length_of g H" and "stable_length g"
    and "l_rbuffer s = []" and "l_rlength s = 0"
    and "feed V H cs s = (ret, s')" and "0 < ret" and "\<not> l_graceful s'"
  shows "l_delivered s' = l_delivered s @ fst (frames g (concat cs)) \<and>
    l_rbuffer s' = snd (frames g (concat cs))"
  using feed_frames [OF assms(1,2) _ assms(5-7)] assms(3,4) by (simp add: rx_wait_def)

lemma reads_deliver_frames_witness:
  "l_delivered (snd (feed script_io (cutting_handler counted) [[2, 7], [8, 1], [9, 3, 4]]
     (demo_linkage []))) = [[2, 7, 8], [1, 9]]"
proof -
  let ?f = "feed script_io (cutting_handler counted) [[2, 7], [8, 1], [9, 3, 4]] (demo_linkage [])"
  have "0 < fst ?f \<and> \<not> l_graceful (snd ?f)" by code_simp
  moreover have "fst (frames counted (concat [[2, 7], [8, 1], [9, 3, 4]])) = [[2, 7, 8], [1, 9]]"
    by code_simp
  moreover have "l_rbuffer (demo_linkage []) = [] \<and> l_rlength (demo_linkage []) = 0 \<and>
      l_delivered (demo_linkage []) = []" by code_simp
  moreover have "length_of counted (cutting_handler counted)"
    by (simp add: length_of_def cutting_handler_def)
  ultimately show ?thesis
    using reads_deliver_frames [of counted "cutting_handler counted" "demo_linkage []" script_io
        "[[2, 7], [8, 1], [9, 3, 4]]" "fst ?f" "snd ?f"] stable_counted by (simp del: feed.simps)
qed

section \<open>Properties of the sending side\<close>

text \<open>
  Whatever the transport answers, an accepted \<open>Send\<close> appends exactly its bytes to the stream
  the peer is owed, whether they went out, were queued, or some of each; a refused one leaves the
  buffer alone and, up to the 64 MiB a buffer holds, puts nothing on the wire.
\<close>

theorem send_appends:
  assumes "wbuffer_ok s"
  shows "if fst (Send V (Some b) s)
    then sent_stream (snd (Send V (Some b) s)) = sent_stream s @ b
    else l_wbuffer (snd (Send V (Some b) s)) = l_wbuffer s \<and>
      (length b \<le> kMaximumBytes \<longrightarrow> l_wire (snd (Send V (Some b) s)) = l_wire s)"
  using Send_stream [OF assms, of V b "fst (Send V (Some b) s)" "snd (Send V (Some b) s)"]
  by simp

lemma send_appends_witness:
  "sent_stream (snd (Send script_io (Some [1, 2, 3]) (demo_linkage [(kStatusOk, 2)]))) = [1, 2, 3]"
proof -
  let ?s = "demo_linkage [(kStatusOk, 2)]"
  have "fst (Send script_io (Some [1, 2, 3]) ?s) \<and> sent_stream ?s = []"
    by (simp add: Send_def INT_MAX_def GetSendingBufferSize_def io_write_def script_io_def
        AppendSendingBuffer_def kMaximumBytes_def sent_stream_def)
  then show ?thesis using send_appends [of ?s script_io "[1, 2, 3]"] by simp
qed

text \<open>
  A write event never changes the stream: what the transport takes leaves the buffer and goes to
  the wire, byte for byte, in order.
\<close>

theorem write_event_moves_bytes:
  "sent_stream (snd (EventWrite V s)) = sent_stream s"
  by (rule EventWrite_stream)


lemma demo_send_step:
  "linkage_step V H keeps_output s (snd (Send V b s))"
  using step_call [of keeps_output "CallSend b" V H s] by (simp add: keeps_output_def)


text \<open>
  The sending buffer of a connection never holds more than 64 MiB, whatever its handler, its
  transport and its callers do.
\<close>

theorem sending_buffer_bounded:
  assumes "(linkage_step V H (\<lambda>_. True))\<^sup>*\<^sup>* (new_linkage w p fd io u now) s"
  shows "length (l_wbuffer s) \<le> 64 * 1024 * 1024"
proof -
  have "wbuffer_ok (new_linkage w p fd io u now)"
    by (simp add: wbuffer_ok_def new_linkage_def worker.defs)
  with sending_bound.P_life [OF assms calls_of_any] show ?thesis
    by (simp add: wbuffer_ok_def kMaximumBytes_def)
qed

lemma sending_buffer_bounded_witness:
  "length (l_wbuffer (new_linkage new_worker 1 5 ([] :: (io_status \<times> nat) list) () 0))
    \<le> 64 * 1024 * 1024"
  by (rule sending_buffer_bounded [of script_io "cutting_handler counted", OF rtranclp.rtrancl_refl])

section \<open>Retrying an incomplete write\<close>

lemma PickSendingBuffer_retry:
  assumes "l_last_writing s = length b" and "prefix b (l_wbuffer s)" and "b \<noteq> []"
  shows "fst (PickSendingBuffer s) = b"
proof -
  obtain r where "l_wbuffer s = b @ r" using assms(2) by (auto elim: prefixE)
  with assms show ?thesis by (simp add: PickSendingBuffer_def)
qed

definition retrying :: "bytes \<Rightarrow> ('io, 'u) linkage \<Rightarrow> bool" where
  "retrying b s \<longleftrightarrow>
    l_action s = kActionWrite \<and> l_last_writing s = length b \<and> prefix b (l_wbuffer s)"

lemma retrying_call:
  assumes "retrying b s" and "keeps_output c"
  shows "retrying b (apply_calls V [c] s)"
proof (cases c)
  case (CallSend m)
  with assms(1) show ?thesis
    by (cases m) (auto simp: retrying_def Send_def AppendSendingBuffer_def Let_def)
next
  case (CallDisconnect f)
  with assms show ?thesis by (auto simp: retrying_def keeps_output_def Disconnect_def Let_def)
qed

lemma retrying_calls:
  "retrying b s \<Longrightarrow> list_all keeps_output cs \<Longrightarrow> retrying b (apply_calls V cs s)"
proof (induction cs arbitrary: s)
  case Nil
  then show ?case by simp
next
  case (Cons c cs)
  then have "retrying b (apply_calls V [c] s)" by (auto intro: retrying_call)
  with Cons show ?case by (cases c) auto
qed



end
