(* ===== verification/Linkage_Lifecycle.thy ===== *)
theory Linkage_Lifecycle
  imports Linkage_Correct
begin

text \<open>
  Closing, waking up, attaching and timing out: what the entry points of \<open>Linkage\<close> promise to the
  worker that drives them.
\<close>

section \<open>Closing\<close>

text \<open>\<open>Disconnect\<close> is one iteration of the loop of \<open>OnEvent\<close>, as in the source.\<close>

lemma OnEvent_shutdown:
  "l_action s = kActionNone \<Longrightarrow>
   OnEvent V H kActionShutdown s =
     Some (case OnEventShutdown V s of (ret, s1) \<Rightarrow> (ret, restore_wanna s1))"
  by (simp add: OnEvent_def Let_def event_loop.simps OnEventOnce_def case_prod_beta)

lemma Disconnect_OnEvent:
  "l_action s = kActionNone \<Longrightarrow>
   Some (Disconnect V f s) =
     OnEvent V H kActionShutdown
       (if f then s\<lparr>l_graceful := True\<rparr> else DumpSendingBuffer (s\<lparr>l_graceful := True\<rparr>))"
  by (simp add: OnEvent_shutdown Disconnect_def DumpSendingBuffer_def Let_def)

lemma Send_graceful: "l_graceful s \<Longrightarrow> Send V b s = (False, s)"
  by (cases b) (auto simp: Send_def)

text \<open>
  Once \<open>Disconnect\<close> has been called, or the handler has ended the connection, every later
  \<open>Send\<close> is refused and changes nothing, and the connection keeps the worker it is attached to:
  whatever happens in between.
\<close>

theorem closing_refuses_sends:
  assumes "(linkage_step V H (\<lambda>_. True))\<^sup>*\<^sup>* (snd (Disconnect V f s)) s'"
  shows "Send V b s' = (False, s') \<and> l_worker s' = l_worker s"
proof -
  have "attached_as (l_self s) (l_worker s) True (snd (Disconnect V f s))"
    by (simp add: attached_as_def)
  with identity.P_life [OF assms calls_of_any] have
    "attached_as (l_self s) (l_worker s) True s'" by simp
  then show ?thesis by (simp add: attached_as_def Send_graceful)
qed

lemma closing_refuses_sends_witness:
  "fst (Send script_io (Some [1]) (snd (Disconnect script_io True (demo_linkage [])))) = False"
  using closing_refuses_sends [of script_io "cutting_handler counted" True "demo_linkage []",
      OF rtranclp.rtrancl_refl, of "Some [1]"] by simp

text \<open>
  \<open>Disconnect(true)\<close> on a connection with queued output and no action in progress shuts the
  transport down at once. The output stays in the buffer and is never announced as lost: the
  argument \<open>finish_write\<close> delays the shutdown only while an action is in progress.
\<close>

theorem disconnect_closes_at_once:
  assumes "l_action s = kActionNone" and "\<not> l_closed s"
    and "ioShutdown V (l_io s) = (st, io')" and "st = kStatusOk \<or> st = kStatusClosed"
  shows "\<exists>s'. Disconnect V True s = (0, s') \<and> l_closed s' \<and> l_io s' = io' \<and>
    l_wbuffer s' = l_wbuffer s \<and> l_wire s' = l_wire s"
proof -
  have [simp]: "l_io (set_wanna_read b t) = l_io t" for b and t :: "('a, 'b) linkage"
    using set_wanna_read_events [of b t] by auto
  have [simp]: "l_io (restore_wanna t) = l_io t" for t :: "('a, 'b) linkage"
    by (simp add: restore_wanna_def)
  show ?thesis
    using assms by (auto simp: Disconnect_def OnEventShutdown_def LinkageShutdown_def Let_def)
qed

lemma disconnect_closes_at_once_witness:
  "l_closed (snd (Disconnect script_io True ((demo_linkage [])\<lparr>l_wbuffer := [1, 2]\<rparr>)))"
  using disconnect_closes_at_once [of "(demo_linkage [])\<lparr>l_wbuffer := [1, 2]\<rparr>" script_io
      kStatusOk "[]"]
  by (auto simp: script_io_def)

text \<open>
  \<open>Disconnect(true)\<close> while a write is in progress relies on a write event finding the buffer
  empty. But when the pending write completes the buffer, the event ends with no action in progress
  and write events switched off, so the transport is not shut down: the connection stays open, with
  every \<open>Send\<close> refused, until its peer or a timeout ends it.
\<close>

theorem graceful_close_forgotten:
  assumes "l_action s = kActionWrite" and "l_graceful s" and "l_wbuffer s \<noteq> []"
    and "fst (PickSendingBuffer s) = l_wbuffer s"
    and "ioWrite V (l_wbuffer s) (l_io s) = ((kStatusOk, n), io')" and "length (l_wbuffer s) \<le> n"
  shows "\<exists>s1. LinkageOnWritable V H s = Some (1, set_wanna True False s1) \<and> l_self s1 = l_self s \<and>
    l_action s1 = kActionNone \<and> l_wbuffer s1 = [] \<and> l_closed s1 = l_closed s"
proof -
  obtain b s0 where p: "PickSendingBuffer s = (b, s0)" by (metis prod.exhaust)
  with assms(4) have b: "b = l_wbuffer s" by simp
  obtain k where s0: "s0 = s\<lparr>l_last_writing := k\<rparr>" using PickSendingBuffer_eq(2) [OF p] ..
  let ?s1 = "ConsumeSendingBuffer (length b)
    (UpdateLastSent True False ((after_write kStatusOk n io' b s0)\<lparr>l_action := kActionNone\<rparr>))"
  have "io_write V b s0 = ((kStatusOk, n), after_write kStatusOk n io' b s0)"
    using assms(5) b by (simp add: io_write_def after_write_def s0)
  with assms(3,6) b p have "EventWrite V s = ((1, kActionNone), ?s1)"
    by (simp add: EventWrite_def Let_def)
  moreover have f: "l_action ?s1 = kActionNone" "l_wbuffer ?s1 = []" "l_closed ?s1 = l_closed s"
    "l_self ?s1 = l_self s"
    using b by (simp_all add: ConsumeSendingBuffer_def s0 after_write_def)
  ultimately have "LinkageOnWritable V H s = Some (1, set_wanna True False ?s1)"
    using assms(1)
    by (simp add: LinkageOnWritable_def OnEvent_def event_loop.simps OnEventOnce_def
        restore_wanna_def GetSendingBufferSize_def)
  with f show ?thesis by blast
qed

lemma graceful_close_forgotten_witness:
  "\<exists>s1. LinkageOnWritable script_io (cutting_handler counted)
     ((demo_linkage [(kStatusOk, 2)])\<lparr>l_wbuffer := [1, 2], l_last_writing := 2,
       l_action := kActionWrite, l_graceful := True\<rparr>) = Some (1, set_wanna True False s1) \<and>
     \<not> l_closed s1"
proof -
  let ?s = "(demo_linkage [(kStatusOk, 2)])\<lparr>l_wbuffer := [1, 2], l_last_writing := 2,
       l_action := kActionWrite, l_graceful := True\<rparr>"
  have "ioWrite script_io (l_wbuffer ?s) (l_io ?s) = ((kStatusOk, 2), [])"
    by (simp add: script_io_def)
  from graceful_close_forgotten [of ?s, OF _ _ _ _ this, of "cutting_handler counted"]
  show ?thesis by (auto simp: PickSendingBuffer_def)
qed

section \<open>No stalled output\<close>

text \<open>
  Between events, a connection with queued output and no action in progress is registered for write
  events, so the output goes out as soon as the transport can take it.
\<close>

definition output_watched :: "('io, 'u) linkage \<Rightarrow> bool" where
  "output_watched s \<longleftrightarrow>
    (l_action s = kActionNone \<and> l_wbuffer s \<noteq> [] \<longrightarrow>
      (\<forall>c. worker_client (l_self s) s = Some c \<longrightarrow> c_running_w c))"

lemma worker_client_cong: "w_events s' = w_events s \<Longrightarrow> worker_client l s' = worker_client l s"
  by (simp add: worker_client_def)

lemma set_wanna_running:
  "worker_client (l_self s) (set_wanna r w s) = Some c \<Longrightarrow> c_running_r c = r \<and> c_running_w c = w"
  by (auto simp: set_wanna_def SetWanna_def Let_def ev_io_r_def ev_io_w_def
      split: option.splits if_splits)

lemma set_wanna_write_running:
  "worker_client (l_self s) (set_wanna_write w s) = Some c \<Longrightarrow> c_running_w c = w"
  by (auto simp: set_wanna_write_def SetWannaWrite_def ev_io_w_def
      split: option.splits if_splits)

lemma watched_restore: "output_watched (restore_wanna s)"
  using set_wanna_running [of s True "GetSendingBufferSize s \<noteq> 0"]
  by (auto simp: output_watched_def restore_wanna_def GetSendingBufferSize_def)

lemma watched_wanna_write: "output_watched (set_wanna r True s)"
  using set_wanna_running [of s r True] by (auto simp: output_watched_def)

lemma watched_set_write: "output_watched (set_wanna_write True s)"
  using set_wanna_write_running [of s True] by (auto simp: output_watched_def)

lemma watched_cong:
  "output_watched s \<Longrightarrow> l_action s' = l_action s \<Longrightarrow> l_wbuffer s' = l_wbuffer s \<Longrightarrow>
   l_self s' = l_self s \<Longrightarrow> w_events s' = w_events s \<Longrightarrow> output_watched s'"
  using worker_client_cong [of s' s] by (simp add: output_watched_def)

lemma watched_UpdateLastSent: "output_watched s \<Longrightarrow> output_watched (UpdateLastSent a j s)"
  by (erule watched_cong) simp_all

lemma watched_busy: "l_action s \<noteq> kActionNone \<Longrightarrow> output_watched s"
  by (simp add: output_watched_def)

lemma watched_nothing: "l_wbuffer s = [] \<Longrightarrow> output_watched s"
  by (simp add: output_watched_def)

lemma watched_append: "output_watched s \<Longrightarrow> l_action s \<noteq> kActionNone \<or> l_wbuffer s \<noteq> [] \<Longrightarrow>
    output_watched (snd (AppendSendingBuffer b s))"
  by (auto simp: AppendSendingBuffer_def Let_def output_watched_def worker_client_def)

lemma watched_Send: "output_watched s \<Longrightarrow> output_watched (snd (Send V b s))"
proof (cases b)
  case (Some m)
  assume s: "output_watched s"
  show ?thesis
  proof (cases "length m \<le> INT_MAX \<and> l_worker s \<noteq> 0 \<and> \<not> l_graceful s \<and> m \<noteq> []")
    case False
    with s Some show ?thesis by (auto simp: Send_def)
  next
    case go: True
    show ?thesis
    proof (cases "l_action s \<noteq> kActionNone \<or> l_wbuffer s \<noteq> []")
      case True
      with go Some s watched_append show ?thesis by (simp add: Send_queue)
    next
      case False
      obtain st n io' where w: "ioWrite V m (l_io s) = ((st, n), io')" by (metis prod.exhaust)
      have nil: "output_watched (after_write st n io' m s)" using False by (intro watched_nothing) simp
      then show ?thesis
        using go False Some Send_write [OF _ _ _ _ _ _ w]
        by (cases st)
          (auto simp: Let_def intro!: watched_UpdateLastSent watched_wanna_write watched_set_write
            intro: watched_busy)
    qed
  qed
qed simp

lemma watched_Disconnect: "output_watched (snd (Disconnect V f s))
    \<or> snd (Disconnect V f s) = (if f then s else DumpSendingBuffer s)\<lparr>l_graceful := True\<rparr>"
  by (auto simp: Disconnect_def Let_def case_prod_beta watched_restore DumpSendingBuffer_def)

lemma watched_Disconnect_keeps: "output_watched s \<Longrightarrow> output_watched (snd (Disconnect V f s))"
  using watched_Disconnect [of V f s]
  by (auto simp: DumpSendingBuffer_def output_watched_def worker_client_def split: if_splits)

lemma watched_calls: "output_watched s \<Longrightarrow> output_watched (apply_calls V cs s)"
proof (induction cs arbitrary: s)
  case Nil
  then show ?case by simp
next
  case (Cons c cs)
  then show ?case by (cases c) (auto intro: watched_Send watched_Disconnect_keeps)
qed

lemma watched_user: "output_watched s \<Longrightarrow> output_watched (apply_calls V cs (s\<lparr>l_user := u\<rparr>))"
  by (rule watched_calls, erule watched_cong) simp_all

lemma watched_OnEvent: "OnEvent V H a s = Some (r, s') \<Longrightarrow> output_watched s'"
  by (auto simp: OnEvent_def Let_def watched_restore split: option.splits)

lemma watched_step: "linkage_step V H okc s s' \<Longrightarrow> output_watched s \<Longrightarrow> output_watched s'"
proof (induction rule: linkage_step.induct)
  case (step_readable s ret s')
  then show ?case by (auto simp: LinkageOnReadable_def intro: watched_OnEvent)
next
  case (step_writable s ret s')
  then show ?case by (auto simp: LinkageOnWritable_def intro: watched_OnEvent)
next
  case (step_call c s)
  then show ?case by (blast intro: watched_calls)
next
  case (step_cleanup s now)
  then show ?case
    by (auto simp: LinkageCleanup_def Let_def case_prod_beta intro!: watched_user)
next
  case (step_error s b)
  then show ?case by (auto simp: LinkageOnError_def case_prod_beta intro!: watched_user)
next
  case (step_disconnected s)
  then show ?case by (auto simp: LinkageOnDisconnected_def case_prod_beta intro!: watched_user)
next
  case (step_clock s now)
  then show ?case by (elim watched_cong) simp_all
qed

interpretation no_stall: step_invariant "linkage_step V H okc" output_watched for V H okc
  by unfold_locales (rule watched_step)

text \<open>
  C4. No lost wake-up: at any time between events, a connection that has queued output and no
  action in progress has its write watcher started, whatever sends, events and calls led there.
\<close>

theorem queued_output_is_watched:
  assumes "(linkage_step V H (\<lambda>_. True))\<^sup>*\<^sup>* s s'" and "output_watched s" and "worker_wf s"
    and "l_action s' = kActionNone" and "l_wbuffer s' \<noteq> []"
    and "worker_client (l_self s') s' = Some c"
  shows "c_watch_w c"
proof -
  have "output_watched s'" using assms(1,2) by (rule no_stall.steps_keep)
  then have "c_running_w c" using assms(4-6) by (simp add: output_watched_def)
  moreover have "wk_keeps s s'"
    using registration.P_life [OF assms(1) calls_of_any wk_keeps_refl] .
  ultimately show ?thesis
    using assms(3,6) client_ok_client by (auto simp: wk_keeps_def client_ok_def)
qed

lemma queued_output_is_watched_witness:
  "\<exists>c. worker_client 1 (snd (Send script_io (Some [1, 2]) (demo_linkage [(kStatusOk, 1)]))) = Some c \<and>
     c_watch_w c"
proof -
  let ?d = "demo_linkage [(kStatusOk, 1)]" and ?f = "after_write kStatusOk 1 []"
  let ?s = "snd (Send script_io (Some [1, 2]) ?d)"
  have w: "worker_wf ?d \<and> output_watched ?d"
    by (simp add: output_watched_def demo_linkage_def new_linkage_def new_worker_def Attach_def
        worker_client_def set_client_def ev_io_r_def worker.defs worker_wf_def worker_keys_def
        client_ok_def)
  have step: "(linkage_step script_io (cutting_handler counted) (\<lambda>_. True))\<^sup>*\<^sup>* ?d ?s"
    using step_call [of "\<lambda>_. True" "CallSend (Some [1, 2])" script_io "cutting_handler counted" ?d]
    by (intro r_into_rtranclp) simp
  have "ioWrite script_io [1, 2] (l_io ?d) = ((kStatusOk, 1), [])" by (simp add: script_io_def)
  then have eq: "?s = UpdateLastSent True True
      (set_wanna_write True ((?f [1, 2] ?d)\<lparr>l_wbuffer := [2]\<rparr>))"
    by (subst Send_write) (auto simp: INT_MAX_def kMaximumBytes_def)
  have "1 \<in> worker_keys ?d"
    by (simp add: demo_linkage_def new_linkage_def new_worker_def Attach_def
        worker_client_def set_client_def ev_io_r_def worker.defs worker_keys_def)
  moreover have "wk_keeps ?d ?s"
    using registration.P_life [OF step calls_of_any wk_keeps_refl] .
  ultimately obtain c where "worker_client 1 ?s = Some c"
    using worker_key_client [of 1 ?s] by (auto simp: wk_keeps_def)
  moreover have "l_action ?s = kActionNone" "l_wbuffer ?s \<noteq> []" "l_self ?s = 1"
    unfolding eq by simp_all
  ultimately show ?thesis using queued_output_is_watched [OF step] w by auto
qed

section \<open>Attaching\<close>

lemma Attach_client:
  assumes "l \<noteq> 0" and "l \<notin> worker_keys s"
  shows "fst (Attach l fd r w a s)" and
    "worker_keys (snd (Attach l fd r w a s)) = insert l (worker_keys s)"
  using assms worker_client_None [of l s] by (auto simp: Attach_def Let_def)

lemma Attach_linkage_fields [simp]:
  "l_self (snd (Attach l fd r w a s)) = l_self s" "l_worker (snd (Attach l fd r w a s)) = l_worker s"
  by (simp_all add: Attach_def set_client_def Let_def)

lemma Detach_linkage_fields [simp]:
  "l_self (snd (Detach l s)) = l_self s" "l_worker (snd (Detach l s)) = l_worker s"
  by (simp_all add: Detach_def)

lemma worker_wf_field [simp]:
  "worker_wf (s\<lparr>l_worker := w\<rparr>) = worker_wf s" "worker_keys (s\<lparr>l_worker := w\<rparr>) = worker_keys s"
  "worker_wf (s\<lparr>l_io := io\<rparr>) = worker_wf s" "worker_keys (s\<lparr>l_io := io\<rparr>) = worker_keys s"
  "worker_wf (s\<lparr>l_action := ac\<rparr>) = worker_wf s" "worker_keys (s\<lparr>l_action := ac\<rparr>) = worker_keys s"
  "worker_wf (UpdateConnectJam b s) = worker_wf s"
  "worker_keys (UpdateConnectJam b s) = worker_keys s"
  by (simp_all add: worker_wf_def worker_keys_def UpdateConnectJam_def)

text \<open>What the two connecting paths of \<open>Attach\<close> have in common once the watchers are there.\<close>

definition attach_ended :: "ptr \<Rightarrow> ('io, 'u) linkage \<Rightarrow> bool \<Rightarrow> ('io, 'u) linkage \<Rightarrow> bool" where
  "attach_ended worker s ok s' \<longleftrightarrow>
    worker_wf s' \<and> l_self s' = l_self s \<and> l_worker s' = (if ok then worker else 0) \<and>
    worker_keys s' = (if ok then insert (l_self s) (worker_keys s) else worker_keys s)"

lemma attach_end:
  assumes "worker_wf s2" and "worker_keys s2 = insert (l_self s) (worker_keys s)"
    and "l_self s2 = l_self s" and "l_worker s2 = worker" and "l_self s \<notin> worker_keys s"
    and "wk_keeps s2 s4" and "attached_as (l_self s) worker False s4"
  shows "attach_ended worker s True s4 \<and>
    attach_ended worker s False ((snd (Detach (l_self s4) s4))\<lparr>l_worker := 0\<rparr>)"
proof -
  have wf: "worker_wf s4" and k: "worker_keys s4 = insert (l_self s) (worker_keys s)"
    and a: "l_self s4 = l_self s" "l_worker s4 = worker"
    using assms by (auto simp: wk_keeps_def attached_as_def)
  have "worker_keys s4 - {l_self s} = worker_keys s" using k assms(5) by auto
  with wf a k worker_keys_Detach [OF wf, of "l_self s4"] worker_wf_Detach [OF wf, of "l_self s4"]
  show ?thesis by (simp add: attach_ended_def)
qed

lemma attach_parts:
  assumes "LinkageAttach V H worker s = Some (ok, s')" and "worker \<noteq> 0"
    and "l_worker s = 0" and "worker_wf s" and "l_self s \<noteq> 0" and "l_self s \<notin> worker_keys s"
  shows "worker_wf s' \<and> l_self s' = l_self s \<and> l_worker s' = (if ok then worker else 0) \<and>
    worker_keys s' = (if ok then insert (l_self s) (worker_keys s) else worker_keys s)"
proof -
  obtain ini action next_action wr ww io' where
    i: "ioInitialize V (l_io s) = ((ini, action, next_action, wr, ww), io')" by (metis prod.exhaust)
  let ?s1 = "s\<lparr>l_io := io'\<rparr>"
  let ?idle = "action = kActionNone \<and> next_action = kActionNone"
  obtain att s2 where at: "Attach (l_self s) (l_fd s) (?idle \<or> wr) ww True ?s1 = (att, s2)"
    by (metis prod.exhaust)
  let ?s3 = "s2\<lparr>l_worker := worker\<rparr>"
  have keys1: "l_self s \<notin> worker_keys ?s1" using assms(6) by simp
  from Attach_client [OF assms(5) keys1, of "l_fd s" "?idle \<or> wr" ww True] at
  have att: "att" and keys: "worker_keys ?s3 = insert (l_self s) (worker_keys s)" by auto
  have wf: "worker_wf ?s3"
    using Attach_grows [of ?s1 "l_self s" "l_fd s" "?idle \<or> wr" ww True] at assms(4)
    by (simp add: wk_grows_def)
  have self: "l_self ?s3 = l_self s"
    using Attach_linkage_fields(1) [of "l_self s" "l_fd s" "?idle \<or> wr" ww True ?s1] at by simp
  have att_as: "attached_as (l_self s) worker False ?s3" using self by (simp add: attached_as_def)
  note fin = attach_end [OF _ _ _ _ assms(6)]
  note conn = fin [OF wf keys self _ registration.P_DoConnected [OF wk_keeps_refl calls_of_any]
      identity.P_DoConnected [OF att_as calls_of_any], of V H]
  let ?s4 = "(UpdateConnectJam True ?s3)"
  have wf4: "worker_wf (?s4\<lparr>l_action := a\<rparr>)" "worker_keys (?s4\<lparr>l_action := a\<rparr>) =
      insert (l_self s) (worker_keys s)" "l_self (?s4\<lparr>l_action := a\<rparr>) = l_self s"
      "l_worker (?s4\<lparr>l_action := a\<rparr>) = worker" for a
    using wf keys self by simp_all
  have as4: "attached_as (l_self s) worker False (?s4\<lparr>l_action := a\<rparr>)" for a
    using wf4 by (simp add: attached_as_def)
  note wait = fin [OF wf4 wk_keeps_refl as4]
  have wait0: "attach_ended worker s True ?s4"
    using wf keys self by (simp add: attach_ended_def)
  have ev: "attach_ended worker s True s5 \<and>
      attach_ended worker s False ((snd (Detach (l_self s5) s5))\<lparr>l_worker := 0\<rparr>)"
    if "OnEvent V H a (?s4\<lparr>l_action := a\<rparr>) = Some (ret, s5)" for a ret s5
    by (rule fin [OF wf4 registration.P_OnEvent [OF that wk_keeps_refl calls_of_any]
        identity.P_OnEvent [OF that as4 calls_of_any]])
  have unchanged: "attach_ended worker s False ?s1"
    using assms(3,4) by (simp add: attach_ended_def)
  have "attach_ended worker s ok s'"
  proof (cases "ini \<and> (action = kActionNone \<or> next_action = kActionNone)")
    case False
    with assms(1-3) i unchanged show ?thesis
      by (auto simp: LinkageAttach_def Let_def split: if_splits)
  next
    case True
    show ?thesis
    proof (cases ?idle)
      case idle: True
      obtain c s5 where d: "DoConnected V H ?s3 = (c, s5)" by (metis prod.exhaust)
      with conn have "attach_ended worker s True s5"
        "attach_ended worker s False ((snd (Detach (l_self s5) s5))\<lparr>l_worker := 0\<rparr>)" by auto
      with assms(1-3) i True idle at att d show ?thesis
        by (auto simp: LinkageAttach_def Let_def split: if_splits)
    next
      case busy: False
      with assms(1-3) i True at att wait wait0 show ?thesis
        by (auto simp: LinkageAttach_def Let_def split: if_splits option.splits dest!: ev)
    qed
  qed
  then show ?thesis by (simp add: attach_ended_def)
qed

text \<open>
  C22. Attaching a fresh connection either succeeds, and then it is registered with the worker and
  points to it, or fails, and then the worker's connections are exactly those it had and the
  connection points to no worker: also when the user's \<open>OnConnected\<close> refuses it or the immediate
  handshake fails after the watchers were started.
\<close>

theorem attach_all_or_nothing:
  assumes "LinkageAttach V H worker s = Some (ok, s')" and "worker \<noteq> 0"
    and "l_worker s = 0" and "worker_wf s" and "l_self s \<noteq> 0" and "l_self s \<notin> worker_keys s"
  shows "worker_wf s' \<and> l_self s' = l_self s \<and> l_worker s' = (if ok then worker else 0) \<and>
    worker_keys s' = (if ok then insert (l_self s) (worker_keys s) else worker_keys s)"
  using attach_parts [OF assms] .

lemma attach_all_or_nothing_witness:
  "\<exists>ok s'. LinkageAttach script_io (cutting_handler counted) 7
     (new_linkage new_worker 1 5 ([] :: (io_status \<times> nat) list) () 0) = Some (ok, s') \<and>
     l_worker s' = (if ok then 7 else 0)"
proof -
  let ?s = "new_linkage new_worker 1 5 ([] :: (io_status \<times> nat) list) () 0"
  have "LinkageAttach script_io (cutting_handler counted) 7 ?s \<noteq> None"
    by (auto simp: LinkageAttach_def script_io_def new_linkage_def worker.defs Let_def
        case_prod_beta)
  then obtain ok s' where
    at: "LinkageAttach script_io (cutting_handler counted) 7 ?s = Some (ok, s')" by auto
  moreover have "l_worker ?s = 0 \<and> worker_wf ?s \<and> l_self ?s \<noteq> 0 \<and> l_self ?s \<notin> worker_keys ?s"
    by (simp add: new_linkage_def worker.defs new_worker_def worker_wf_def worker_keys_def)
  ultimately have "l_worker s' = (if ok then 7 else 0)"
    using attach_all_or_nothing [OF at] by simp
  with at show ?thesis by blast
qed

section \<open>Timing out\<close>

definition jam_deadline :: "int \<Rightarrow> int \<Rightarrow> int \<Rightarrow> bool" where
  "jam_deadline now jam timeout \<longleftrightarrow>
    jam \<noteq> 0 \<and> timeout \<noteq> 0 \<and> now \<noteq> jam \<and> jam + timeout \<le> now"

text \<open>No deadline of the connection has passed.\<close>

definition in_time :: "int \<Rightarrow> ('io, 'u) linkage \<Rightarrow> bool" where
  "in_time now s \<longleftrightarrow>
    \<not> jam_deadline now (l_connect_jam s) (l_connect_timeout s) \<and>
    \<not> jam_deadline now (l_send_jam s) (l_send_timeout s) \<and>
    \<not> jam_deadline now (l_receive_jam s) (l_receive_timeout s) \<and>
    (l_idle_timeout s = 0 \<or> now < max (l_last_sent s) (l_last_received s) + l_idle_timeout s)"

lemma LinkageCleanup_eq:
  "LinkageCleanup V H now s =
    (if in_time now s
     then case hCleanup H now s of (ok, calls, u) \<Rightarrow> (ok, apply_calls V calls (s\<lparr>l_user := u\<rparr>))
     else (False, s))"
proof -
  have "timed_out now jam timeout = jam_deadline now jam timeout" for jam timeout
    by (auto simp: timed_out_def jam_deadline_def)
  then show ?thesis
    by (auto simp: LinkageCleanup_def in_time_def Let_def max_def)
qed

text \<open>
  The health check drops a connection exactly when one of its deadlines has passed or its handler
  gives it up: a connect, send or receive jam that has lasted its timeout, or no traffic in either
  direction for the idle timeout. A jam mark or a timeout of 0 means none, and no deadline is
  reached at the instant the jam began.
\<close>

theorem cleanup_verdict:
  "fst (LinkageCleanup V H now s) \<longleftrightarrow>
    \<not> jam_deadline now (l_connect_jam s) (l_connect_timeout s) \<and>
    \<not> jam_deadline now (l_send_jam s) (l_send_timeout s) \<and>
    \<not> jam_deadline now (l_receive_jam s) (l_receive_timeout s) \<and>
    (l_idle_timeout s = 0 \<or> now < max (l_last_sent s) (l_last_received s) + l_idle_timeout s) \<and>
    fst (hCleanup H now s)"
  by (auto simp: LinkageCleanup_eq in_time_def case_prod_beta)

section \<open>Termination of the event loop\<close>

text \<open>
  The loop of \<open>OnEvent\<close> goes on after a read only when the transport reports \<open>more\<close>, otherwise at
  most once, to shut down.
\<close>

definition reports_no_more :: "'io io_vt \<Rightarrow> bool" where
  "reports_no_more V \<longleftrightarrow> (\<forall>n io. snd (snd (fst (ioRead V n io))) = False)"

lemma finish_event_next [simp]: "snd (fst (finish_event a st s)) = kActionNone"
  by (simp add: finish_event_def case_prod_beta)

lemma OnEventOnce_next:
  assumes "reports_no_more V"
  shows "snd (fst (OnEventOnce V H a s)) = kActionNone \<or> snd (fst (OnEventOnce V H a s)) = kActionShutdown"
    and "a = kActionShutdown \<Longrightarrow> snd (fst (OnEventOnce V H a s)) = kActionNone"
proof -
  obtain st d m io' where r: "ioRead V kReadBuffer (l_io s) = ((st, d, m), io')" by (metis prod.exhaust)
  with assms have "\<not> m" by (metis reports_no_more_def fst_conv snd_conv)
  then show "snd (fst (OnEventOnce V H a s)) = kActionNone \<or>
      snd (fst (OnEventOnce V H a s)) = kActionShutdown"
    by (cases a) (auto simp: OnEventOnce_def EventRead_def r EventWrite_def EventHandshake_def Let_def
        case_prod_beta)
  show "a = kActionShutdown \<Longrightarrow> snd (fst (OnEventOnce V H a s)) = kActionNone"
    by (simp add: OnEventOnce_def case_prod_beta)
qed

lemma event_loop_total:
  assumes "reports_no_more V"
  shows "\<exists>r. event_loop V H a s = Some r"
proof -
  have sd: "\<exists>r. event_loop V H kActionShutdown t = Some r" for t
    using OnEventOnce_next(2) [OF assms refl, of H t]
    by (subst event_loop.simps) (auto simp: case_prod_beta)
  show ?thesis
    using OnEventOnce_next(1) [OF assms, of H a s] sd
    by (subst event_loop.simps) (auto simp: case_prod_beta)
qed

lemma OnEvent_total:
  assumes "reports_no_more V"
  shows "\<exists>ret s'. OnEvent V H a s = Some (ret, s')"
proof -
  obtain r where "event_loop V H (if l_action s = kActionNone then a else l_action s) s = Some r"
    using event_loop_total [OF assms] by blast
  then show ?thesis by (cases r) (auto simp: OnEvent_def Let_def)
qed

end
