(* ===== verification/Linkage_Loop.thy ===== *)
theory Linkage_Loop
  imports Linkage_Lifecycle
begin

text \<open>
  A worker driving its connections: the virtual calls of \<open>LinkageWorker\<close> resolved to \<open>Linkage\<close>. The
  state \<open>loop\<close> adds to the worker the connections and the queued commands by address. The contract
  \<open>linkage_base\<close> is discharged on this table of methods, which gives the properties of the worker.
\<close>

section \<open>The table of methods\<close>

text \<open>
  A queued command calls public methods of connections by their address, or attaches a new one, and
  ends with the result of its \<open>Run\<close>.
\<close>

datatype ('io, 'u) loop_op =
    LoopCall ptr call
  | LoopAttach ptr ptr "('io, 'u) linkage"

record ('io, 'u) loop = worker +
  h_links :: "ptr \<Rightarrow> ('io, 'u) linkage option"
  h_jobs :: "ptr \<Rightarrow> (('io, 'u) loop_op list \<times> bool) option"
  h_ran :: "ptr list"

text \<open>A connection sees the worker it is attached to.\<close>

definition share_worker :: "'a worker_scheme \<Rightarrow> 'b worker_scheme \<Rightarrow> 'b worker_scheme" where
  "share_worker st x = x\<lparr>w_events := w_events st, w_timers := w_timers st,
     w_next_timer := w_next_timer st, w_commands := w_commands st, w_quit := w_quit st,
     w_running_thread_id := w_running_thread_id st\<rparr>"

definition load_link :: "ptr \<Rightarrow> ('io, 'u) loop \<Rightarrow> ('io, 'u) linkage option" where
  "load_link p st = map_option (share_worker st) (h_links st p)"

definition save_link :: "ptr \<Rightarrow> ('io, 'u) linkage \<Rightarrow> ('io, 'u) loop \<Rightarrow> ('io, 'u) loop" where
  "save_link p x st = (share_worker x st)\<lparr>h_links := (h_links st)(p \<mapsto> x)\<rparr>"

text \<open>Run a method of connection \<open>p\<close>; a dangling address has no successor.\<close>

definition on_link ::
  "ptr \<Rightarrow> (('io, 'u) linkage \<Rightarrow> ('a \<times> ('io, 'u) linkage) option) \<Rightarrow> ('io, 'u) loop
    \<Rightarrow> ('a \<times> ('io, 'u) loop) option" where
  "on_link p f st =
    (case load_link p st of None \<Rightarrow> None
     | Some x \<Rightarrow> (case f x of None \<Rightarrow> None | Some (r, x') \<Rightarrow> Some (r, save_link p x' st)))"

definition upd_link ::
  "ptr \<Rightarrow> (('io, 'u) linkage \<Rightarrow> ('io, 'u) linkage) \<Rightarrow> ('io, 'u) loop \<Rightarrow> ('io, 'u) loop" where
  "upd_link p f st =
    (case load_link p st of None \<Rightarrow> st | Some x \<Rightarrow> save_link p (f x) st)"

definition loop_cleanup ::
  "'io io_vt \<Rightarrow> (('io, 'u) linkage, 'u) handler_vt \<Rightarrow> ptr \<Rightarrow> int \<Rightarrow> ('io, 'u) loop
    \<Rightarrow> bool \<times> ('io, 'u) loop" where
  "loop_cleanup V H p now st =
    (case load_link p st of None \<Rightarrow> (True, st)
     | Some x \<Rightarrow> (case LinkageCleanup V H now x of (ok, x') \<Rightarrow> (ok, save_link p x' st)))"

fun loop_op_run ::
  "'io io_vt \<Rightarrow> (('io, 'u) linkage, 'u) handler_vt \<Rightarrow> ('io, 'u) loop_op \<Rightarrow> ('io, 'u) loop
    \<Rightarrow> ('io, 'u) loop" where
  "loop_op_run V H (LoopCall p c) st = upd_link p (apply_calls V [c]) st"
| "loop_op_run V H (LoopAttach p w x) st =
    (if p = 0 \<or> p \<in> worker_keys st \<or> l_worker x \<noteq> 0 \<or> w = 0 then st
     else case LinkageAttach V H w ((share_worker st x)\<lparr>l_self := p\<rparr>) of
            None \<Rightarrow> st
          | Some (ok, x') \<Rightarrow>
              if ok then save_link p x' st
              else (save_link p x' st)\<lparr>h_links := (h_links st)(p := None)\<rparr>)"

definition loop_run ::
  "'io io_vt \<Rightarrow> (('io, 'u) linkage, 'u) handler_vt \<Rightarrow> ptr \<Rightarrow> ('io, 'u) loop
    \<Rightarrow> bool \<times> ('io, 'u) loop" where
  "loop_run V H r st =
    (case h_jobs st r of None \<Rightarrow> (True, st)
     | Some (ops, ok) \<Rightarrow> (ok, (fold (loop_op_run V H) ops st)\<lparr>h_ran := h_ran st @ [r]\<rparr>))"

definition loop_vt ::
  "'io io_vt \<Rightarrow> (('io, 'u) linkage, 'u) handler_vt \<Rightarrow> ('io, 'u) loop worker_vt" where
  "loop_vt V H = \<lparr>
     vOnReadable = (\<lambda>p. on_link p (LinkageOnReadable V H)),
     vOnWritable = (\<lambda>p. on_link p (LinkageOnWritable V H)),
     vOnError = (\<lambda>p b. upd_link p (LinkageOnError V H b)),
     vOnDisconnected = (\<lambda>p. upd_link p (LinkageOnDisconnected V H)),
     vCleanup = loop_cleanup V H,
     vDelete = (\<lambda>p st. st\<lparr>h_links := (h_links st)(p := None)\<rparr>),
     vRun = loop_run V H,
     vRelease = (\<lambda>r st. st\<lparr>h_jobs := (h_jobs st)(r := None)\<rparr>),
     vOnInitialize = Pair True,
     vOnShutdown = (\<lambda>st. st)\<rparr>"

section \<open>The methods keep the worker's contract\<close>

lemma share_worker_wf [simp]:
  "worker_wf (share_worker st x) = worker_wf st"
  "worker_keys (share_worker st x) = worker_keys st"
  by (simp_all add: worker_wf_def worker_keys_def share_worker_def)

lemma links_wf [simp]:
  "worker_wf (st\<lparr>h_links := h\<rparr>) = worker_wf st" "worker_keys (st\<lparr>h_links := h\<rparr>) = worker_keys st"
  "worker_wf (st\<lparr>h_jobs := j\<rparr>) = worker_wf st" "worker_keys (st\<lparr>h_jobs := j\<rparr>) = worker_keys st"
  "worker_wf (st\<lparr>h_ran := rs\<rparr>) = worker_wf st" "worker_keys (st\<lparr>h_ran := rs\<rparr>) = worker_keys st"
  by (simp_all add: worker_wf_def worker_keys_def)

lemma save_link_wf [simp]:
  "worker_wf (save_link p x st) = worker_wf x" "worker_keys (save_link p x st) = worker_keys x"
  by (simp_all add: save_link_def)

lemma load_link_wf:
  "load_link p st = Some x \<Longrightarrow> worker_wf x = worker_wf st \<and> worker_keys x = worker_keys st"
  by (auto simp: load_link_def)

lemma save_link_keeps:
  "load_link p st = Some x \<Longrightarrow> wk_keeps x x' \<Longrightarrow> wk_keeps st (save_link p x' st)"
  by (auto simp: wk_keeps_def dest: load_link_wf)

lemma upd_link_keeps: "(\<And>x. wk_keeps x (f x)) \<Longrightarrow> wk_keeps st (upd_link p f st)"
  by (auto simp: upd_link_def split: option.splits intro: save_link_keeps)

lemma on_link_keeps:
  assumes "on_link p f st = Some r" and "\<And>x y. f x = Some y \<Longrightarrow> wk_keeps x (snd y)"
  shows "wk_keeps st (snd r)"
  using assms save_link_keeps by (fastforce simp: on_link_def split: option.splits)

lemma OnEvent_keeps: "OnEvent V H a x = Some y \<Longrightarrow> wk_keeps x (snd y)"
  using registration.P_OnEvent [OF _ wk_keeps_refl calls_of_any, of V H a x "fst y" "snd y"] by simp

lemma readable_keeps: "LinkageOnReadable V H x = Some y \<Longrightarrow> wk_keeps x (snd y)"
  unfolding LinkageOnReadable_def by (rule OnEvent_keeps)

lemma writable_keeps: "LinkageOnWritable V H x = Some y \<Longrightarrow> wk_keeps x (snd y)"
  unfolding LinkageOnWritable_def by (rule OnEvent_keeps)

lemma wk_grows_refl [simp, intro]: "wk_grows st st"
  by (simp add: wk_grows_def)

lemma calls_keep: "wk_keeps x (apply_calls V cs x)"
  by (rule registration.P_calls [OF wk_keeps_refl]) (simp add: list_all_iff)

lemma loop_op_grows: "wk_grows st (loop_op_run V H op st)"
proof (cases op)
  case (LoopCall p c)
  have "wk_keeps st (upd_link p (apply_calls V [c]) st)"
    by (rule upd_link_keeps) (rule calls_keep)
  with LoopCall show ?thesis by (simp only: loop_op_run.simps wk_keeps_grows)
next
  case (LoopAttach p w x)
  show ?thesis
  proof (cases "p = 0 \<or> p \<in> worker_keys st \<or> l_worker x \<noteq> 0 \<or> w = 0")
    case True
    with LoopAttach show ?thesis by auto
  next
    case False
    let ?x = "(share_worker st x)\<lparr>l_self := p\<rparr>"
    have f: "l_self ?x = p" "l_worker ?x = l_worker x" "worker_wf ?x = worker_wf st"
      "worker_keys ?x = worker_keys st"
      by (simp_all add: share_worker_def worker_wf_def worker_keys_def)
    show ?thesis
    proof (cases "LinkageAttach V H w ?x")
      case None
      with LoopAttach False show ?thesis by auto
    next
      case (Some y)
      obtain ok x' where y: "y = (ok, x')" by (cases y)
      have "worker_wf st \<Longrightarrow> worker_wf x' \<and>
          worker_keys x' = (if ok then insert p (worker_keys st) else worker_keys st)"
        using attach_parts [OF Some [unfolded y]] False f by auto
      with LoopAttach False Some y show ?thesis by (auto simp: wk_grows_def)
    qed
  qed
qed

lemma loop_ops_grow: "wk_grows st (fold (loop_op_run V H) ops st)"
proof (induction ops arbitrary: st)
  case Nil
  then show ?case by simp
next
  case (Cons op ops)
  have "wk_grows st (loop_op_run V H op st)" by (rule loop_op_grows)
  also have "wk_grows (loop_op_run V H op st) (fold (loop_op_run V H) ops (loop_op_run V H op st))"
    by (rule Cons.IH)
  finally show ?case by simp
qed

lemma loop_run_grows: "wk_grows st (snd (loop_run V H r st))"
proof (cases "h_jobs st r")
  case None
  then show ?thesis by (simp add: loop_run_def)
next
  case (Some j)
  obtain ops ok where "j = (ops, ok)" by (cases j)
  with Some loop_ops_grow [of st V H ops] show ?thesis
    by (auto simp: loop_run_def wk_grows_def)
qed

lemma loop_cleanup_keeps: "wk_keeps st (snd (loop_cleanup V H p now st))"
proof (cases "load_link p st")
  case None
  then show ?thesis by (simp add: loop_cleanup_def)
next
  case (Some x)
  have "wk_keeps x (snd (LinkageCleanup V H now x))"
    by (rule registration.P_Cleanup [OF wk_keeps_refl calls_of_any])
  with Some save_link_keeps [OF Some] show ?thesis
    by (simp add: loop_cleanup_def case_prod_beta)
qed

lemma loop_vt_fields [simp]:
  "vOnReadable (loop_vt V H) = (\<lambda>p. on_link p (LinkageOnReadable V H))"
  "vOnWritable (loop_vt V H) = (\<lambda>p. on_link p (LinkageOnWritable V H))"
  "vOnError (loop_vt V H) = (\<lambda>p b. upd_link p (LinkageOnError V H b))"
  "vOnDisconnected (loop_vt V H) = (\<lambda>p. upd_link p (LinkageOnDisconnected V H))"
  "vCleanup (loop_vt V H) = loop_cleanup V H"
  "vDelete (loop_vt V H) = (\<lambda>p st. st\<lparr>h_links := (h_links st)(p := None)\<rparr>)"
  "vRun (loop_vt V H) = loop_run V H"
  "vRelease (loop_vt V H) = (\<lambda>r st. st\<lparr>h_jobs := (h_jobs st)(r := None)\<rparr>)"
  by (simp_all add: loop_vt_def)

interpretation linkage_loop: linkage_base "loop_vt V H" for V :: "'io io_vt"
    and H :: "(('io, 'u) linkage, 'u) handler_vt"
proof
  fix l b now and st :: "('io, 'u) loop" and r
  show "vOnReadable (loop_vt V H) l st = Some r \<Longrightarrow> wk_grows st (snd r)"
    by (simp add: wk_keeps_grows on_link_keeps readable_keeps)
  show "vOnWritable (loop_vt V H) l st = Some r \<Longrightarrow> wk_grows st (snd r)"
    by (simp add: wk_keeps_grows on_link_keeps writable_keeps)
  show "wk_grows st (snd (vRun (loop_vt V H) l st))"
    by (simp add: loop_run_grows)
  show "wk_keeps st (vOnError (loop_vt V H) l b st)"
    by (auto intro!: upd_link_keeps registration.P_OnError [OF wk_keeps_refl calls_of_any])
  show "wk_keeps st (vOnDisconnected (loop_vt V H) l st)"
    by (auto intro!: upd_link_keeps registration.P_OnDisconnected [OF wk_keeps_refl calls_of_any])
  show "wk_keeps st (snd (vCleanup (loop_vt V H) l now st))"
    by (simp add: loop_cleanup_keeps)
  show "wk_keeps st (vDelete (loop_vt V H) l st)"
    by (simp add: wk_keeps_def)
  show "wk_keeps st (vRelease (loop_vt V H) l st)"
    by (simp add: wk_keeps_def)
qed

section \<open>No dangling connections\<close>

text \<open>
  Every address the worker has registered is that of a live connection which knows its own address.
\<close>

definition links_ok :: "('io, 'u) loop \<Rightarrow> bool" where
  "links_ok st \<longleftrightarrow> worker_wf st \<and> worker_keys st \<subseteq> dom (h_links st) \<and>
    (\<forall>p x. h_links st p = Some x \<longrightarrow> l_self x = p)"

text \<open>Methods that keep the registered connections and free none of them.\<close>

definition live_keeps :: "('io, 'u) loop \<Rightarrow> ('io, 'u) loop \<Rightarrow> bool" where
  "live_keeps st st' \<longleftrightarrow> (links_ok st \<longrightarrow> links_ok st' \<and> worker_keys st \<subseteq> worker_keys st')"

lemma live_refl [simp, intro]: "live_keeps st st"
  by (simp add: live_keeps_def)

lemma live_trans [trans]: "live_keeps a b \<Longrightarrow> live_keeps b c \<Longrightarrow> live_keeps a c"
  by (auto simp: live_keeps_def)

lemma live_save:
  assumes "load_link p st = Some x" and "wk_keeps x x'" and "l_self x' = l_self x"
  shows "live_keeps st (save_link p x' st)"
proof -
  obtain x0 where x0: "h_links st p = Some x0" "x = share_worker st x0"
    using assms(1) by (auto simp: load_link_def)
  then have "l_self x = l_self x0" by (simp add: share_worker_def)
  with x0 assms(2,3) load_link_wf [OF assms(1)] show ?thesis
    by (auto simp: live_keeps_def links_ok_def wk_keeps_def)
      (auto simp: save_link_def share_worker_def split: if_splits)
qed

lemma live_upd:
  "(\<And>x. wk_keeps x (f x) \<and> l_self (f x) = l_self x) \<Longrightarrow> live_keeps st (upd_link p f st)"
  by (auto simp: upd_link_def split: option.splits intro: live_save)

lemma live_on_link:
  assumes "on_link p f st = Some r"
    and "\<And>x y. f x = Some y \<Longrightarrow> wk_keeps x (snd y) \<and> l_self (snd y) = l_self x"
  shows "live_keeps st (snd r)"
  using assms live_save by (fastforce simp: on_link_def split: option.splits)

text \<open>The methods of a connection keep its address.\<close>

lemma attached_self: "attached_as (l_self x) (l_worker x) False x"
  by (simp add: attached_as_def)

lemma method_self:
  "LinkageOnReadable V H x = Some y \<Longrightarrow> l_self (snd y) = l_self x"
  "LinkageOnWritable V H x = Some y \<Longrightarrow> l_self (snd y) = l_self x"
  "l_self (LinkageOnError V H b x) = l_self x"
  "l_self (LinkageOnDisconnected V H x) = l_self x"
  "l_self (snd (LinkageCleanup V H now x)) = l_self x"
  "l_self (apply_calls V cs x) = l_self x"
proof -
  have ev: "OnEvent V H a x = Some y \<Longrightarrow> attached_as (l_self x) (l_worker x) False (snd y)" for a
    by (cases y) (auto elim: identity.P_OnEvent [OF _ attached_self calls_of_any])
  show "LinkageOnReadable V H x = Some y \<Longrightarrow> l_self (snd y) = l_self x"
    by (drule ev [of kActionRead, unfolded LinkageOnReadable_def [symmetric]])
      (simp add: attached_as_def)
  show "LinkageOnWritable V H x = Some y \<Longrightarrow> l_self (snd y) = l_self x"
    by (drule ev [of kActionWrite, unfolded LinkageOnWritable_def [symmetric]])
      (simp add: attached_as_def)
  have "attached_as (l_self x) (l_worker x) False (LinkageOnError V H b x)"
    by (rule identity.P_OnError [OF attached_self calls_of_any])
  then show "l_self (LinkageOnError V H b x) = l_self x" by (simp add: attached_as_def)
  have "attached_as (l_self x) (l_worker x) False (LinkageOnDisconnected V H x)"
    by (rule identity.P_OnDisconnected [OF attached_self calls_of_any])
  then show "l_self (LinkageOnDisconnected V H x) = l_self x" by (simp add: attached_as_def)
  have "attached_as (l_self x) (l_worker x) False (snd (LinkageCleanup V H now x))"
    by (rule identity.P_Cleanup [OF attached_self calls_of_any])
  then show "l_self (snd (LinkageCleanup V H now x)) = l_self x" by (simp add: attached_as_def)
  have "attached_as (l_self x) (l_worker x) False (apply_calls V cs x)"
    by (rule identity.P_calls [OF attached_self]) (simp add: list_all_iff)
  then show "l_self (apply_calls V cs x) = l_self x" by (simp add: attached_as_def)
qed

lemma live_events:
  "on_link p (LinkageOnReadable V H) st = Some r \<Longrightarrow> live_keeps st (snd r)"
  "on_link p (LinkageOnWritable V H) st = Some r \<Longrightarrow> live_keeps st (snd r)"
  "live_keeps st (upd_link p (LinkageOnError V H b) st)"
proof -
  show "on_link p (LinkageOnReadable V H) st = Some r \<Longrightarrow> live_keeps st (snd r)"
    by (erule live_on_link) (rule conjI, erule readable_keeps, erule method_self(1))
  show "on_link p (LinkageOnWritable V H) st = Some r \<Longrightarrow> live_keeps st (snd r)"
    by (erule live_on_link) (rule conjI, erule writable_keeps, erule method_self(2))
  show "live_keeps st (upd_link p (LinkageOnError V H b) st)"
    by (rule live_upd)
      (simp add: method_self registration.P_OnError [OF wk_keeps_refl calls_of_any])
qed

lemma links_ok_free:
  assumes "links_ok st" and "l \<notin> worker_keys st"
  shows "links_ok (st\<lparr>h_links := (h_links st)(l := None)\<rparr>)"
proof -
  have "worker_keys st \<subseteq> dom ((h_links st)(l := None))"
    using assms unfolding links_ok_def dom_def by force
  moreover have "l_self x = p" if "((h_links st)(l := None)) p = Some x" for p x
    using that assms(1) by (simp add: links_ok_def split: if_splits)
  ultimately show ?thesis using assms(1) by (simp add: links_ok_def)
qed

lemma DoRelease_live:
  assumes "links_ok st" and "l \<in> worker_keys st"
  shows "\<exists>st'. DoRelease (loop_vt V H) l st = Some st' \<and> links_ok st' \<and>
    worker_keys st' = worker_keys st - {l}"
proof -
  from assms(2) obtain c where c: "worker_client l st = Some c" by (auto dest: worker_key_client)
  let ?st = "st\<lparr>w_events := AList.delete l (w_events st)\<rparr>"
  let ?u = "upd_link l (LinkageOnDisconnected V H) ?st"
  have "links_ok ?st"
    using assms(1) worker_wf_delete [of st l] by (auto simp: links_ok_def worker_keys_delete)
  moreover have "live_keeps ?st ?u"
    by (rule live_upd) (simp add: method_self registration.P_OnDisconnected [OF wk_keeps_refl calls_of_any])
  moreover have "worker_keys ?u = worker_keys ?st"
  proof -
    have "wk_keeps ?st ?u"
      by (rule upd_link_keeps, rule registration.P_OnDisconnected [OF wk_keeps_refl calls_of_any])
    then show ?thesis by (simp add: wk_keeps_def)
  qed
  ultimately have u: "links_ok ?u" "worker_keys ?u = worker_keys st - {l}"
    by (auto simp: live_keeps_def worker_keys_delete)
  then have "links_ok (?u\<lparr>h_links := (h_links ?u)(l := None)\<rparr>)"
    by (intro links_ok_free) simp_all
  with u show ?thesis by (simp add: DoRelease_def c release_linkage_def Let_def)
qed

lemma callback_live:
  assumes "links_ok st" and "l \<in> worker_keys st" and "live_keeps st (snd r)"
    and "after_callback (loop_vt V H) l b (Some r) = Some st'"
  shows "links_ok st'"
proof -
  obtain ret st1 where r: "r = (ret, st1)" by (cases r)
  with assms have st1: "links_ok st1" "l \<in> worker_keys st1" by (auto simp: live_keeps_def)
  moreover have "live_keeps st1 (upd_link l (LinkageOnError V H b) st1)" by (rule live_events)
  ultimately have e: "links_ok (upd_link l (LinkageOnError V H b) st1)"
    "l \<in> worker_keys (upd_link l (LinkageOnError V H b) st1)"
    by (auto simp: live_keeps_def)
  obtain s2 where 2: "DoRelease (loop_vt V H) l st1 = Some s2" "links_ok s2"
    using DoRelease_live [OF st1, where V = V and H = H] by (elim exE conjE) (rule that)
  obtain s3 where 3: "DoRelease (loop_vt V H) l (upd_link l (LinkageOnError V H b) st1) = Some s3"
    "links_ok s3"
    using DoRelease_live [OF e, where V = V and H = H] by (elim exE conjE) (rule that)
  show ?thesis
    using assms(4) st1 2 3 by (simp add: after_callback_def r WorkerOnError_def split: if_splits)
qed

lemma loop_op_live: "live_keeps st (loop_op_run V H op st)"
proof (cases op)
  case (LoopCall p c)
  have "live_keeps st (upd_link p (apply_calls V [c]) st)"
    by (rule live_upd) (simp only: method_self calls_keep simp_thms)
  with LoopCall show ?thesis by (simp only: loop_op_run.simps)
next
  case (LoopAttach p w x)
  let ?x = "(share_worker st x)\<lparr>l_self := p\<rparr>"
  show ?thesis
  proof (cases "p = 0 \<or> p \<in> worker_keys st \<or> l_worker x \<noteq> 0 \<or> w = 0 \<or> LinkageAttach V H w ?x = None")
    case True
    with LoopAttach show ?thesis by auto
  next
    case False
    then obtain ok x' where at: "LinkageAttach V H w ?x = Some (ok, x')" by auto
    have f: "l_self ?x = p" "l_worker ?x = l_worker x" "worker_wf ?x = worker_wf st"
      "worker_keys ?x = worker_keys st"
      by (simp_all add: share_worker_def worker_wf_def worker_keys_def)
    have "links_ok (loop_op_run V H op st) \<and> worker_keys st \<subseteq> worker_keys (loop_op_run V H op st)"
      if ok: "links_ok st"
    proof -
      have wf: "worker_wf st" using ok by (simp add: links_ok_def)
      have x': "worker_wf x'" "l_self x' = p"
        "worker_keys x' = (if ok then insert p (worker_keys st) else worker_keys st)"
        using attach_parts [OF at] False f wf by auto
      have dom: "worker_keys st \<subseteq> dom (h_links st)" using ok by (simp add: links_ok_def)
      have self: "h_links st q = Some y \<Longrightarrow> l_self y = q" for q y
        using ok by (simp add: links_ok_def)
      have run: "loop_op_run V H op st = (if ok then save_link p x' st
          else (save_link p x' st)\<lparr>h_links := (h_links st)(p := None)\<rparr>)"
        using LoopAttach False at by simp
      have h: "h_links (save_link p x' st) = (h_links st)(p \<mapsto> x')"
        by (simp add: save_link_def)
      have dom2: "worker_keys st \<subseteq> dom ((h_links st)(p := None))"
        using dom False by (auto simp: dom_def)
      show ?thesis
      proof (cases ok)
        case True
        with x' dom self show ?thesis unfolding links_ok_def run by (auto simp: h)
      next
        case False
        with x' dom2 self show ?thesis
          unfolding links_ok_def run by (auto split: if_splits)
      qed
    qed
    then show ?thesis by (simp add: live_keeps_def)
  qed
qed

lemma live_fold: "(\<And>x s. live_keeps s (f x s)) \<Longrightarrow> live_keeps s (fold f xs s)"
proof (induction xs arbitrary: s)
  case Nil
  then show ?case by simp
next
  case (Cons x xs)
  then have "live_keeps s (f x s)" "live_keeps (f x s) (fold f xs (f x s))" by blast+
  then show ?case by (auto intro: live_trans)
qed

lemma links_ok_fields [simp]:
  "links_ok (st\<lparr>h_jobs := j\<rparr>) = links_ok st" "links_ok (st\<lparr>h_ran := rs\<rparr>) = links_ok st"
  "links_ok (st\<lparr>w_commands := q\<rparr>) = links_ok st" "links_ok (st\<lparr>w_quit := b\<rparr>) = links_ok st"
  by (simp_all add: links_ok_def worker_wf_def worker_keys_def)

lemma worker_keys_fields [simp]:
  "worker_keys (st\<lparr>w_commands := q\<rparr>) = worker_keys st"
  "worker_keys (st\<lparr>w_quit := b\<rparr>) = worker_keys st"
  "worker_keys (st\<lparr>w_timers := ts\<rparr>) = worker_keys st"
  by (simp_all add: worker_keys_def)

lemma loop_run_live: "live_keeps st (snd (loop_run V H r st))"
proof (cases "h_jobs st r")
  case None
  then show ?thesis by (simp add: loop_run_def)
next
  case (Some j)
  obtain ops ok where j: "j = (ops, ok)" by (cases j)
  have "live_keeps st (fold (loop_op_run V H) ops st)" by (rule live_fold) (rule loop_op_live)
  with Some j show ?thesis by (auto simp: loop_run_def live_keeps_def)
qed

lemma release_job_live: "live_keeps st (vRelease (loop_vt V H) r st)"
  by (simp add: live_keeps_def)

lemma run_commands_live: "live_keeps st (snd (run_commands (loop_vt V H) q st))"
proof (induction q arbitrary: st)
  case Nil
  then show ?case by simp
next
  case (Cons c q)
  have "live_keeps st (st\<lparr>w_quit := True\<rparr>)" by (simp add: live_keeps_def)
  moreover have "live_keeps st (snd (run_commands (loop_vt V H) q (snd (loop_run V H c st))))"
    using loop_run_live Cons.IH by (rule live_trans)
  ultimately show ?case
    using loop_run_live [of st V H c] by (simp add: case_prod_beta)
qed

lemma OnCommand_live: "live_keeps st (OnCommand (loop_vt V H) st)"
proof -
  let ?r = "run_commands (loop_vt V H) (w_commands st) (st\<lparr>w_commands := []\<rparr>)"
  have "live_keeps st (st\<lparr>w_commands := []\<rparr>)" by (simp add: live_keeps_def)
  also have "live_keeps (st\<lparr>w_commands := []\<rparr>) (snd ?r)" by (rule run_commands_live)
  finally have 1: "live_keeps st (snd ?r)" .
  have 2: "live_keeps (snd ?r)
      (fold (\<lambda>c s. if c = 0 then s else vRelease (loop_vt V H) c s) (w_commands st) (snd ?r))"
    by (rule live_fold) (simp add: live_keeps_def)
  show ?thesis
    using 1 live_trans [OF 1 2] by (simp add: OnCommand_def Let_def case_prod_beta)
qed

lemma cleanup_live: "live_keeps st (snd (loop_cleanup V H p now st))"
proof (cases "load_link p st")
  case None
  then show ?thesis by (simp add: loop_cleanup_def)
next
  case (Some x)
  have "live_keeps st (save_link p (snd (LinkageCleanup V H now x)) st)"
    by (rule live_save [OF Some])
      (simp_all add: method_self registration.P_Cleanup [OF wk_keeps_refl calls_of_any])
  with Some show ?thesis by (simp add: loop_cleanup_def case_prod_beta)
qed

lemma ask_cleanup_live: "live_keeps st (snd (ask_cleanup (loop_vt V H) now ls st))"
proof (induction ls arbitrary: st)
  case Nil
  then show ?case by simp
next
  case (Cons l ls)
  have "live_keeps st (snd (loop_cleanup V H l now st))" by (rule cleanup_live)
  also have "live_keeps (snd (loop_cleanup V H l now st))
      (snd (ask_cleanup (loop_vt V H) now ls (snd (loop_cleanup V H l now st))))" by (rule Cons.IH)
  finally show ?case by (simp add: case_prod_beta)
qed

lemma release_all_live:
  "links_ok st \<Longrightarrow> distinct ls \<Longrightarrow> set ls \<subseteq> worker_keys st \<Longrightarrow>
    \<exists>st'. release_all (loop_vt V H) ls st = Some st' \<and> links_ok st' \<and>
      worker_keys st' = worker_keys st - set ls"
proof (induction ls arbitrary: st)
  case Nil
  then show ?case by simp
next
  case (Cons l ls)
  from Cons.prems obtain st1 where d: "DoRelease (loop_vt V H) l st = Some st1"
    and st1: "links_ok st1" "worker_keys st1 = worker_keys st - {l}"
    using DoRelease_live [of st l V H] by (auto simp del: loop_vt_fields)
  have "set ls \<subseteq> worker_keys st1" using Cons.prems st1 by auto
  moreover have "worker_keys st - {l} - set ls = worker_keys st - set (l # ls)" by auto
  ultimately show ?case using Cons.IH [OF st1(1)] Cons.prems(2) d st1(2) by auto
qed

end
