(* ===== verification/Loop_Correct.thy ===== *)
theory Loop_Correct
  imports Linkage_Loop
begin

text \<open>
  Properties of a running worker: no callback ever reaches a freed connection, the health check
  drops exactly the overdue connections, commands run in the order they were sent.
\<close>

section \<open>Every step keeps the registered connections alive\<close>

lemma health_check_live:
  assumes "links_ok st"
  shows "\<exists>st'. OnHealthCheck (loop_vt V H) now st = Some st' \<and> links_ok st' \<and>
    worker_keys st' = worker_keys st -
      set (fst (ask_cleanup (loop_vt V H) now (map fst (w_events st)) st))"
proof -
  let ?r = "ask_cleanup (loop_vt V H) now (map fst (w_events st)) st"
  have keys: "worker_keys (snd ?r) = worker_keys st"
    using linkage_loop.ask_cleanup_keeps [of st V H now "map fst (w_events st)"]
    by (simp add: wk_keeps_def)
  have ok: "links_ok (snd ?r)"
    using ask_cleanup_live [of st V H now] assms by (simp add: live_keeps_def)
  have "distinct (map fst (w_events st))" using assms by (simp add: links_ok_def worker_wf_def)
  then have d: "distinct (fst ?r)" "set (fst ?r) \<subseteq> worker_keys st"
    using linkage_loop.ask_cleanup_drops [of V H now "map fst (w_events st)" st]
    by (auto simp: worker_keys_def)
  then show ?thesis
    using release_all_live [OF ok d(1), where V = V and H = H] keys
    by (simp add: OnHealthCheck_def case_prod_beta)
qed

lemma release_timer_live: "live_keeps st (DoReleaseTimer (loop_vt V H) i t st)"
proof -
  have 1: "live_keeps st (release_runnable (loop_vt V H) t st)"
    by (auto simp: release_runnable_def live_keeps_def split: runnable.splits)
  have 2: "live_keeps s (s\<lparr>w_timers := AList.delete i (w_timers s)\<rparr>)" for s :: "('a, 'b) loop"
  proof -
    have "set (AList.delete i (w_timers s)) \<subseteq> set (w_timers s)" by (auto simp: AList.delete_eq)
    then show ?thesis
      by (auto simp: live_keeps_def links_ok_def worker_wf_def worker_keys_def distinct_delete)
  qed
  show ?thesis
    unfolding DoReleaseTimer_def Let_def using live_trans [OF 1 2] .
qed

lemma timer_live:
  assumes "links_ok st" and "OnTimer (loop_vt V H) now i t st = Some st'"
  shows "links_ok st'"
proof -
  obtain ok st1 where r: "run_runnable (loop_vt V H) now (t_runnable t) st = Some (ok, st1)"
    and st': "st' = (if ok then st1 else DoReleaseTimer (loop_vt V H) i t st1)"
    using assms(2) by (auto simp: OnTimer_def split: option.splits)
  have "links_ok st1"
  proof (cases "t_runnable t")
    case HealthTimer
    with r health_check_live [OF assms(1), of V H now] show ?thesis
      by (auto simp: run_runnable_def)
  next
    case (Command p)
    with r loop_run_live [of st V H p] assms(1) show ?thesis
      by (auto simp: run_runnable_def live_keeps_def)
  qed
  with release_timer_live [of st1 V H i t] st' show ?thesis by (auto simp: live_keeps_def)
qed

lemma loop_step_live:
  "worker_step (loop_vt V H) st st' \<Longrightarrow> links_ok st \<Longrightarrow> links_ok st'"
proof (induction rule: worker_step.induct)
  case (readable_cb st l c st')
  then obtain r where r: "on_link l (LinkageOnReadable V H) st = Some r"
    by (auto simp: WorkerOnReadable_def after_callback_def split: option.splits)
  with readable_cb show ?case
    using callback_live [of st l r V H True st'] live_events(1) [OF r]
    by (simp add: WorkerOnReadable_def worker_client_key)
next
  case (writable_cb st l c st')
  then obtain r where r: "on_link l (LinkageOnWritable V H) st = Some r"
    by (auto simp: WorkerOnWritable_def after_callback_def split: option.splits)
  with writable_cb show ?case
    using callback_live [of st l r V H False st'] live_events(2) [OF r]
    by (simp add: WorkerOnWritable_def worker_client_key)
next
  case (timer_cb st i t now st')
  then show ?case by (blast intro: timer_live)
next
  case (command_cb st st')
  with OnCommand_live [of st V H] show ?case by (auto simp: live_keeps_def)
qed

interpretation loop_live: step_invariant "worker_step (loop_vt V H)" links_ok for V H
  by unfold_locales (rule loop_step_live)


text \<open>A worker with one connection, at address 1.\<close>

definition demo_loop ::
  "(io_status \<times> nat) list \<Rightarrow> ((io_status \<times> nat) list, unit) loop" where
  "demo_loop io =
    \<lparr>w_events = w_events (demo_linkage io), w_timers = [], w_next_timer = 1, w_commands = [],
     w_quit = False, w_running_thread_id = 0,
     h_links = [1 \<mapsto> demo_linkage io], h_jobs = (\<lambda>_. None), h_ran = []\<rparr>"

lemma demo_loop_ok: "links_ok (demo_loop io)" "\<exists>c. worker_client 1 (demo_loop io) = Some c"
  by (auto simp: links_ok_def demo_loop_def worker_wf_def worker_keys_def client_ok_def
      demo_linkage_def new_linkage_def new_worker_def Attach_def worker_client_def set_client_def
      ev_io_r_def worker.defs)


section \<open>The health check\<close>

text \<open>The default handler: \<open>Cleanup\<close> keeps the connection and changes nothing.\<close>

definition default_cleanup :: "(('io, 'u) linkage, 'u) handler_vt \<Rightarrow> bool" where
  "default_cleanup H \<longleftrightarrow> (\<forall>now s. hCleanup H now s = (True, [], l_user s))"

definition link_in_time :: "int \<Rightarrow> ('io, 'u) loop \<Rightarrow> ptr \<Rightarrow> bool" where
  "link_in_time now st l = (case h_links st l of None \<Rightarrow> True | Some x \<Rightarrow> in_time now x)"

lemma in_time_share [simp]: "in_time now (share_worker st x) = in_time now x"
  by (simp add: in_time_def share_worker_def)

lemma loop_cleanup_default:
  assumes "default_cleanup H"
  shows "fst (loop_cleanup V H l now st) = link_in_time now st l"
    and "link_in_time now (snd (loop_cleanup V H l now st)) = link_in_time now st"
proof -
  have "LinkageCleanup V H now x = (in_time now x, x)" for x
    using assms by (simp add: LinkageCleanup_eq default_cleanup_def)
  then show "fst (loop_cleanup V H l now st) = link_in_time now st l"
    "link_in_time now (snd (loop_cleanup V H l now st)) = link_in_time now st"
    by (auto simp: loop_cleanup_def load_link_def link_in_time_def save_link_def fun_eq_iff
        split: option.splits)
qed

lemma ask_cleanup_default:
  assumes "default_cleanup H"
  shows "fst (ask_cleanup (loop_vt V H) now ls st) = filter (\<lambda>l. \<not> link_in_time now st l) ls"
proof (induction ls arbitrary: st)
  case Nil
  then show ?case by simp
next
  case (Cons l ls)
  show ?case
    using Cons.IH [of "snd (loop_cleanup V H l now st)"] loop_cleanup_default [OF assms, where V = V and l = l and now = now and st = st]
    by (simp add: case_prod_beta)
qed

text \<open>
  The health check of a worker unregisters and frees exactly the connections one of whose deadlines
  has passed, and the release of one never stops the release of the others.
\<close>

theorem health_check_drops_overdue:
  assumes "links_ok st" and "default_cleanup H"
  shows "\<exists>st'. OnHealthCheck (loop_vt V H) now st = Some st' \<and>
    worker_keys st' = {l \<in> worker_keys st. link_in_time now st l}"
  using health_check_live [OF assms(1), where V = V and H = H and now = now]
    ask_cleanup_default [OF assms(2), where V = V and now = now and st = st]
  by (auto simp: worker_keys_def)

lemma health_check_drops_overdue_witness:
  "\<exists>st'. OnHealthCheck (loop_vt script_io (cutting_handler counted)) 400000000000 (demo_loop []) = Some st' \<and>
     worker_keys st' = {}"
proof -
  have "default_cleanup (cutting_handler counted)"
    by (simp add: default_cleanup_def cutting_handler_def)
  moreover have "\<not> link_in_time 400000000000 (demo_loop []) 1"
    by (simp add: link_in_time_def demo_loop_def in_time_def demo_linkage_def new_linkage_def
        kDefaultIdleTimeout_def Attach_def worker_client_def new_worker_def set_client_def
        ev_io_r_def worker.defs)
  moreover have "worker_keys (demo_loop []) = {1}"
    by (simp add: demo_loop_def worker_keys_def demo_linkage_def new_linkage_def Attach_def
        worker_client_def new_worker_def set_client_def ev_io_r_def worker.defs)
  ultimately show ?thesis
    using health_check_drops_overdue [of "demo_loop []" "cutting_handler counted" script_io 400000000000]
      demo_loop_ok(1) by auto
qed

section \<open>Commands\<close>

text \<open>The commands of a batch that run: up to the first that fails or the shutdown mark.\<close>

fun commands_run :: "(ptr \<Rightarrow> bool) \<Rightarrow> ptr list \<Rightarrow> ptr list" where
  "commands_run ok [] = []"
| "commands_run ok (c # cs) =
    (if c = 0 then [] else if ok c then c # commands_run ok cs else [c])"

definition job_ok :: "('io, 'u) loop \<Rightarrow> ptr \<Rightarrow> bool" where
  "job_ok st r = (case h_jobs st r of None \<Rightarrow> True | Some (ops, ok) \<Rightarrow> ok)"

lemma ops_keep_jobs [simp]:
  "h_jobs (fold (loop_op_run V H) ops st) = h_jobs st"
  "h_ran (fold (loop_op_run V H) ops st) = h_ran st"
proof -
  have "h_jobs (loop_op_run V H op s) = h_jobs s \<and> h_ran (loop_op_run V H op s) = h_ran s" for op s
    by (cases op) (auto simp: upd_link_def save_link_def share_worker_def split: option.splits)
  then have "h_jobs (fold (loop_op_run V H) ops st) = h_jobs st \<and>
      h_ran (fold (loop_op_run V H) ops st) = h_ran st"
    by (induction ops arbitrary: st) simp_all
  then show "h_jobs (fold (loop_op_run V H) ops st) = h_jobs st"
    "h_ran (fold (loop_op_run V H) ops st) = h_ran st" by auto
qed

lemma loop_run_facts:
  "fst (loop_run V H r st) = job_ok st r"
  "job_ok (snd (loop_run V H r st)) = job_ok st"
  "h_jobs st r \<noteq> None \<Longrightarrow> h_ran (snd (loop_run V H r st)) = h_ran st @ [r]"
  "dom (h_jobs (snd (loop_run V H r st))) = dom (h_jobs st)"
  by (auto simp: loop_run_def job_ok_def fun_eq_iff split: option.splits)

lemma run_commands_ran:
  assumes "set q - {0} \<subseteq> dom (h_jobs st)"
  shows "h_ran (snd (run_commands (loop_vt V H) q st)) = h_ran st @ commands_run (job_ok st) q"
  using assms
proof (induction q arbitrary: st)
  case Nil
  then show ?case by simp
next
  case (Cons c q)
  let ?s = "snd (loop_run V H c st)"
  show ?case
  proof (cases "c = 0")
    case True
    then show ?thesis by simp
  next
    case False
    with Cons.prems have "h_jobs st c \<noteq> None" "set q - {0} \<subseteq> dom (h_jobs ?s)"
      by (auto simp: loop_run_facts(4))
    with Cons.IH [of ?s] False loop_run_facts [where V = V and H = H and r = c and st = st] show ?thesis
      by (auto simp: case_prod_beta)
  qed
qed

text \<open>A batch shuts the worker down when it gets as far as the shutdown mark.\<close>

fun reaches_shutdown :: "(ptr \<Rightarrow> bool) \<Rightarrow> ptr list \<Rightarrow> bool" where
  "reaches_shutdown ok [] = False"
| "reaches_shutdown ok (c # cs) = (c = 0 \<or> ok c \<and> reaches_shutdown ok cs)"

lemma run_commands_returned:
  "fst (run_commands (loop_vt V H) q st) = reaches_shutdown (job_ok st) q \<and>
   (reaches_shutdown (job_ok st) q \<longrightarrow> w_quit (snd (run_commands (loop_vt V H) q st))) \<and>
   h_jobs (snd (run_commands (loop_vt V H) q st)) = h_jobs st"
proof (induction q arbitrary: st)
  case Nil
  then show ?case by simp
next
  case (Cons c q)
  have "h_jobs (snd (loop_run V H c st)) = h_jobs st"
    by (auto simp: loop_run_def split: option.splits)
  with Cons.IH [of "snd (loop_run V H c st)"]
    loop_run_facts(1,2) [where V = V and H = H and r = c and st = st]
  show ?case by (auto simp: case_prod_beta)
qed

lemma release_jobs:
  "h_jobs (fold (\<lambda>c s. if c = 0 then s else vRelease (loop_vt V H) c s) q st) =
    (h_jobs st) |` (- (set q - {0})) \<and>
   h_ran (fold (\<lambda>c s. if c = 0 then s else vRelease (loop_vt V H) c s) q st) = h_ran st"
proof (induction q arbitrary: st)
  case Nil
  then show ?case by (simp add: restrict_map_def)
next
  case (Cons c q)
  then show ?case by (auto simp: restrict_map_def fun_eq_iff)
qed

text \<open>
  Commands sent to a worker run in the order they were sent, each at most once, and stop at the
  first whose \<open>Run\<close> is false or at the shutdown mark. A batch that reaches the mark quits the loop
  and frees none of its commands; any other batch frees all of them, also those that did not run
  (a shutdown mark behind a failing command is dropped like them).
\<close>

theorem command_batch:
  assumes "set (w_commands st) - {0} \<subseteq> dom (h_jobs st)"
  shows "h_ran (OnCommand (loop_vt V H) st) = h_ran st @ commands_run (job_ok st) (w_commands st) \<and>
    (if reaches_shutdown (job_ok st) (w_commands st)
     then w_quit (OnCommand (loop_vt V H) st) \<and>
       h_jobs (OnCommand (loop_vt V H) st) = h_jobs st
     else h_jobs (OnCommand (loop_vt V H) st) = (h_jobs st) |` (- (set (w_commands st) - {0})))"
proof -
  let ?s = "st\<lparr>w_commands := []\<rparr>"
  let ?r = "run_commands (loop_vt V H) (w_commands st) ?s"
  have ok: "job_ok ?s = job_ok st" by (simp add: job_ok_def fun_eq_iff)
  have "h_ran (snd ?r) = h_ran st @ commands_run (job_ok st) (w_commands st)"
    using run_commands_ran [of "w_commands st" ?s V H] assms ok by simp
  moreover have "fst ?r = reaches_shutdown (job_ok st) (w_commands st)"
    "reaches_shutdown (job_ok st) (w_commands st) \<longrightarrow> w_quit (snd ?r)"
    "h_jobs (snd ?r) = h_jobs st"
    using run_commands_returned [where V = V and H = H and q = "w_commands st" and st = ?s] ok by auto
  ultimately show ?thesis
    using release_jobs [of V H "w_commands st" "snd ?r"]
    by (simp add: OnCommand_def Let_def case_prod_beta)
qed

lemma command_batch_witness:
  "h_ran (OnCommand (loop_vt script_io (cutting_handler counted))
     ((demo_loop [])\<lparr>w_commands := [3, 4, 0],
        h_jobs := [3 \<mapsto> ([], True), 4 \<mapsto> ([], False)]\<rparr>)) = [3, 4]"
proof -
  let ?s = "(demo_loop [])\<lparr>w_commands := [3, 4, 0],
        h_jobs := [3 \<mapsto> ([], True), 4 \<mapsto> ([], False)]\<rparr>"
  have "set (w_commands ?s) - {0} \<subseteq> dom (h_jobs ?s)" by auto
  moreover have "h_ran ?s = []" by (simp add: demo_loop_def)
  moreover have "commands_run (job_ok ?s) (w_commands ?s) = [3, 4]"
    by (simp add: job_ok_def)
  ultimately show ?thesis
    using command_batch [of ?s script_io "cutting_handler counted"] by simp
qed

end
