(* ===== verification/File_Descriptor_Io.thy ===== *)
theory File_Descriptor_Io
  imports Linkage_Lifecycle
begin

text \<open>
  \<open>flinter/linkage/file_descriptor_io.cpp\<close>: the transport over a plain socket. The system calls it
  makes through \<open>safeio.c\<close> and \<open>Interface\<close> are a parameter, the record \<open>syscalls\<close> over the state
  of the kernel: a call either fails with an \<open>errno\<close> or gives its result.
\<close>

section \<open>System calls\<close>

datatype errno = EAGAIN | EPIPE | EOther int

text \<open>
  \<open>sys_read fd n\<close> is \<open>safe_read\<close> (the bytes read), \<open>sys_write fd b\<close> is \<open>safe_write\<close> (how many were
  written), \<open>sys_shutdown\<close> is \<open>Interface::Shutdown\<close> and \<open>sys_connected\<close> tells whether
  \<open>safe_test_if_connected\<close> gives 0. \<open>EWOULDBLOCK\<close> is \<open>EAGAIN\<close>.
\<close>

record 'k syscalls =
  sys_read :: "int \<Rightarrow> nat \<Rightarrow> 'k \<Rightarrow> (errno + bytes) \<times> 'k"
  sys_write :: "int \<Rightarrow> bytes \<Rightarrow> 'k \<Rightarrow> (errno + nat) \<times> 'k"
  sys_shutdown :: "int \<Rightarrow> 'k \<Rightarrow> bool \<times> 'k"
  sys_connected :: "int \<Rightarrow> 'k \<Rightarrow> bool \<times> 'k"

record 'k fd_io =
  f_fd :: int
  f_connecting :: bool
  f_kernel :: 'k

section \<open>The transport\<close>

definition FdWrite ::
  "'k syscalls \<Rightarrow> bytes \<Rightarrow> 'k fd_io \<Rightarrow> (io_status \<times> nat) \<times> 'k fd_io" where
  "FdWrite K b io =
    (if f_fd io < 0 then ((kStatusBug, 0), io)
     else case sys_write K (f_fd io) b (f_kernel io) of (r, k) \<Rightarrow>
       (case r of
          Inr n \<Rightarrow> (kStatusOk, n)
        | Inl EAGAIN \<Rightarrow> (kStatusJammed, 0)
        | Inl EPIPE \<Rightarrow> (kStatusClosed, 0)
        | Inl _ \<Rightarrow> (kStatusError, 0), io\<lparr>f_kernel := k\<rparr>))"

definition FdRead ::
  "'k syscalls \<Rightarrow> nat \<Rightarrow> 'k fd_io \<Rightarrow> (io_status \<times> bytes \<times> bool) \<times> 'k fd_io" where
  "FdRead K n io =
    (if f_fd io < 0 then ((kStatusBug, [], False), io)
     else case sys_read K (f_fd io) n (f_kernel io) of (r, k) \<Rightarrow>
       (case r of
          Inr [] \<Rightarrow> (kStatusClosed, [], False)
        | Inr data \<Rightarrow> (kStatusOk, data, False)
        | Inl EAGAIN \<Rightarrow> (kStatusJammed, [], False)
        | Inl _ \<Rightarrow> (kStatusError, [], False), io\<lparr>f_kernel := k\<rparr>))"

definition FdShutdown :: "'k syscalls \<Rightarrow> 'k fd_io \<Rightarrow> io_status \<times> 'k fd_io" where
  "FdShutdown K io =
    (if f_fd io < 0 then (kStatusOk, io)
     else case sys_shutdown K (f_fd io) (f_kernel io) of (ok, k) \<Rightarrow>
       (if \<not> ok then kStatusError else kStatusClosed, io\<lparr>f_kernel := k\<rparr>))"

definition FdConnect :: "'k syscalls \<Rightarrow> 'k fd_io \<Rightarrow> io_status \<times> 'k fd_io" where
  "FdConnect K io =
    (if f_fd io < 0 then (kStatusBug, io)
     else case sys_connected K (f_fd io) (f_kernel io) of (ok, k) \<Rightarrow>
       if \<not> ok then (kStatusError, io\<lparr>f_kernel := k\<rparr>)
       else (kStatusOk, io\<lparr>f_kernel := k, f_connecting := False\<rparr>))"

definition FdAccept :: "'k fd_io \<Rightarrow> io_status \<times> 'k fd_io" where
  "FdAccept io = (kStatusOk, io)"

definition FdInitialize ::
  "'k fd_io \<Rightarrow> (bool \<times> io_action \<times> io_action \<times> bool \<times> bool) \<times> 'k fd_io" where
  "FdInitialize io =
    ((if f_connecting io then (True, kActionNone, kActionConnect, False, True)
      else (True, kActionNone, kActionNone, False, False)), io)"

definition fd_vt :: "'k syscalls \<Rightarrow> 'k fd_io io_vt" where
  "fd_vt K = \<lparr>ioInitialize = FdInitialize, ioRead = FdRead K, ioWrite = FdWrite K,
     ioShutdown = FdShutdown K, ioConnect = FdConnect K, ioAccept = FdAccept\<rparr>"

section \<open>Events always return\<close>

lemma fd_reports_no_more: "reports_no_more (fd_vt K)"
  by (auto simp: reports_no_more_def fd_vt_def FdRead_def split: prod.splits sum.splits list.splits
      errno.splits)

text \<open>
  C28. Over a plain socket every event returns, whatever the kernel answers and the handler does: the
  loop of \<open>OnEvent\<close> cannot spin, because this transport never reports that there is more to read.
\<close>

theorem socket_events_return:
  "\<exists>ret s'. OnEvent (fd_vt K) H a s = Some (ret, s')"
  by (rule OnEvent_total) (rule fd_reports_no_more)

section \<open>No action is left half done but a connect\<close>

text \<open>
  A plain socket never asks to be called again: no read, write or shutdown is ever incomplete.
\<close>

lemma fd_not_incomplete:
  "\<not> INCOMPLETE (fst (fst (ioWrite (fd_vt K) b io)))"
  "\<not> INCOMPLETE (fst (fst (ioRead (fd_vt K) n io)))"
  "\<not> INCOMPLETE (fst (ioShutdown (fd_vt K) io))"
  "\<not> INCOMPLETE (fst (ioConnect (fd_vt K) io))"
  "\<not> INCOMPLETE (fst (ioAccept (fd_vt K) io))"
  by (auto simp: fd_vt_def FdWrite_def FdRead_def FdShutdown_def FdConnect_def FdAccept_def
      INCOMPLETE_def split: prod.splits sum.splits errno.splits list.splits)

lemma fd_Send_action: "l_action (snd (Send (fd_vt K) b s)) = l_action s"
proof (cases b)
  case (Some m)
  obtain st n io' where w: "ioWrite (fd_vt K) m (l_io s) = ((st, n), io')" by (metis prod.exhaust)
  with fd_not_incomplete(1) [of K m "l_io s"] have "st \<noteq> kStatusWannaRead \<and> st \<noteq> kStatusWannaWrite"
    by (simp add: INCOMPLETE_def)
  with Some show ?thesis
    by (cases st) (auto simp: Send_def io_write_def w AppendSendingBuffer_def Let_def)
qed simp

lemma fd_shutdown_action:
  "l_action (snd (OnEventShutdown (fd_vt K) s)) = kActionNone"
  using fd_not_incomplete(3) [of K "l_io s"]
  by (auto simp: OnEventShutdown_def LinkageShutdown_def Let_def case_prod_beta UpdateConnectJam_def
      INCOMPLETE_def)

lemma fd_Disconnect_action:
  "l_action s = kActionNone \<Longrightarrow> l_action (snd (Disconnect (fd_vt K) f s)) = kActionNone"
  by (simp add: Disconnect_def Let_def case_prod_beta fd_shutdown_action DumpSendingBuffer_def)

lemma fd_calls_action:
  "l_action s = kActionNone \<Longrightarrow> l_action (apply_calls (fd_vt K) cs s) = kActionNone"
proof (induction cs arbitrary: s)
  case Nil
  then show ?case by simp
next
  case (Cons c cs)
  then show ?case by (cases c) (auto simp: fd_Send_action fd_Disconnect_action)
qed

text \<open>
  On a connected plain socket \<open>Disconnect\<close> always finishes on the spot: it never leaves an action
  for later, and unless the kernel refuses the shutdown the transport is closed when it returns.
\<close>

theorem socket_disconnect_is_final:
  assumes "l_action s = kActionNone"
  shows "let (ret, s') = Disconnect (fd_vt K) f s in
    l_action s' = kActionNone \<and> l_graceful s' \<and> (ret = 0 \<longrightarrow> l_closed s') \<and> (ret = 0 \<or> ret = -1)"
proof -
  define t where "t = (if \<not> f then DumpSendingBuffer (s\<lparr>l_graceful := True\<rparr>)
    else s\<lparr>l_graceful := True\<rparr>)"
  have "l_action t = kActionNone" using assms by (simp add: t_def DumpSendingBuffer_def)
  then have d: "Disconnect (fd_vt K) f s =
      (fst (OnEventShutdown (fd_vt K) t), restore_wanna (snd (OnEventShutdown (fd_vt K) t)))"
    using assms by (simp add: Disconnect_def Let_def t_def [symmetric] case_prod_beta)
  have "fst (ioShutdown (fd_vt K) (l_io t)) \<noteq> kStatusWannaRead \<and>
      fst (ioShutdown (fd_vt K) (l_io t)) \<noteq> kStatusWannaWrite"
    using fd_not_incomplete(3) [of K "l_io t"] by (simp add: INCOMPLETE_def)
  then have "fst (OnEventShutdown (fd_vt K) t) = 0 \<and> l_closed (snd (OnEventShutdown (fd_vt K) t)) \<or>
      fst (OnEventShutdown (fd_vt K) t) = -1"
    by (auto simp: OnEventShutdown_def LinkageShutdown_def Let_def case_prod_beta INCOMPLETE_def)
  with d fd_shutdown_action [of K t] show ?thesis by auto
qed

text \<open>A kernel that accepts everything and has nothing to read.\<close>

definition quiet_kernel :: "unit syscalls" where
  "quiet_kernel = \<lparr>sys_read = (\<lambda>fd n k. (Inl EAGAIN, k)), sys_write = (\<lambda>fd b k. (Inr (length b), k)),
     sys_shutdown = (\<lambda>fd k. (True, k)), sys_connected = (\<lambda>fd k. (True, k))\<rparr>"

lemma socket_disconnect_is_final_witness:
  "l_closed (snd (Disconnect (fd_vt quiet_kernel) True
     (new_linkage new_worker 1 5 \<lparr>f_fd = 5, f_connecting = False, f_kernel = ()\<rparr> () 0)))"
proof -
  let ?s = "new_linkage new_worker 1 5 \<lparr>f_fd = 5, f_connecting = False, f_kernel = ()\<rparr> () 0"
  have "l_action ?s = kActionNone" by (simp add: new_linkage_def worker.defs)
  moreover have "fst (Disconnect (fd_vt quiet_kernel) True ?s) = 0"
    by (simp add: new_linkage_def worker.defs Disconnect_def OnEventShutdown_def LinkageShutdown_def
        fd_vt_def FdShutdown_def quiet_kernel_def UpdateConnectJam_def Let_def)
  ultimately show ?thesis
    using socket_disconnect_is_final [of ?s quiet_kernel True] by (simp add: case_prod_beta)
qed

end
