(* ===== verification/Easy_Server.thy ===== *)
theory Easy_Server
  imports Flinter_Prelude
begin

unbundle bit_operations_syntax

text \<open>
  \<open>flinter/linkage/easy_server.cpp\<close>: channels, connections and job queues of a server. A channel is
  a 64-bit number that names a connection (its top bit tells an outgoing one) and, modulo the number
  of I/O threads, the thread it lives on; every I/O thread has its tables in an \<open>IoContext\<close>. Objects
  are addresses, 0 is \<open>NULL\<close>. The outcome of the calls into the operating system, the handlers and
  the thread pool are arguments, named after what they decide. \<open>Undefined\<close> is a failed assertion, a
  division by zero or an access out of range; \<open>LogicError\<close> is the exception.
\<close>

section \<open>State\<close>

type_synonym channel = u64
type_synonym addr = nat

datatype server_error = Undefined | LogicError

type_synonym 'a srv = "server_error + 'a"

record outgoing_info =
  oi_handler :: addr
  oi_thread :: nat

record io_context =
  i_thread :: nat
  i_channel :: channel
  i_outgoing :: "channel \<Rightarrow> outgoing_info option"
  i_connect :: "channel \<Rightarrow> addr option"
  i_linkages :: "channel \<Rightarrow> addr option"

record timeouts =
  t_receive :: int
  t_connect :: int
  t_send :: int
  t_idle :: int

record configure =
  incoming_receive_timeout :: int
  incoming_connect_timeout :: int
  incoming_send_timeout :: int
  incoming_idle_timeout :: int
  outgoing_receive_timeout :: int
  outgoing_connect_timeout :: int
  outgoing_send_timeout :: int
  outgoing_idle_timeout :: int
  maximum_incoming_connections :: u64

record server =
  s_slots :: nat
  s_workers :: nat
  s_io_workers :: "int list list"
  s_job_workers :: "int list list"
  s_io_context :: "io_context list"
  s_jobs :: "addr list"
  s_hashjobs :: "addr list list"
  s_listeners :: "addr list"
  s_listen_handlers :: "addr list"
  s_timers :: "(addr \<times> int \<times> int) list"
  s_incoming :: u64
  s_outgoing :: u64
  s_configure :: configure
  s_freed :: "addr list"

definition kDefaultConfigure :: configure where
  "kDefaultConfigure = \<lparr>incoming_receive_timeout = 5000000000,
     incoming_connect_timeout = 5000000000, incoming_send_timeout = 5000000000,
     incoming_idle_timeout = 60000000000, outgoing_receive_timeout = 5000000000,
     outgoing_connect_timeout = 5000000000, outgoing_send_timeout = 5000000000,
     outgoing_idle_timeout = 60000000000, maximum_incoming_connections = 50000\<rparr>"

definition kInvalidChannel :: channel where "kInvalidChannel = 0"
definition kMaximumWorkers :: nat where "kMaximumWorkers = 16384"
definition kMaximumSlots :: nat where "kMaximumSlots = 128"

definition new_io_context :: "nat \<Rightarrow> io_context" where
  "new_io_context thread_id = \<lparr>i_thread = thread_id, i_channel = of_nat thread_id,
     i_outgoing = (\<lambda>_. None), i_connect = (\<lambda>_. None), i_linkages = (\<lambda>_. None)\<rparr>"

definition new_server :: server where
  "new_server = \<lparr>s_slots = 0, s_workers = 0, s_io_workers = [], s_job_workers = [],
     s_io_context = [], s_jobs = [], s_hashjobs = [], s_listeners = [], s_listen_handlers = [],
     s_timers = [], s_incoming = 0, s_outgoing = 0, s_configure = kDefaultConfigure,
     s_freed = []\<rparr>"

definition set_ioc :: "nat \<Rightarrow> io_context \<Rightarrow> server \<Rightarrow> server" where
  "set_ioc t i st = st\<lparr>s_io_context := (s_io_context st)[t := i]\<rparr>"

section \<open>Channels\<close>

definition IsOutgoingChannel :: "channel \<Rightarrow> bool" where
  "IsOutgoingChannel c \<longleftrightarrow> c AND 0x8000000000000000 \<noteq> 0"

definition IsValidChannel :: "channel \<Rightarrow> bool" where
  "IsValidChannel c \<longleftrightarrow> c \<noteq> kInvalidChannel"

definition GetThreadId :: "channel \<Rightarrow> server \<Rightarrow> nat srv" where
  "GetThreadId c st =
    (if s_slots st = 0 then Inl Undefined
     else Inr (unat (c AND 0x7fffffffffffffff) mod s_slots st))"

text \<open>The index of the context, or none for the invalid channel.\<close>

definition GetIoContext :: "channel \<Rightarrow> server \<Rightarrow> nat option srv" where
  "GetIoContext c st =
    (if \<not> IsValidChannel c then Inr None
     else case GetThreadId c st of
            Inl e \<Rightarrow> Inl e
          | Inr t \<Rightarrow> if t < length (s_io_context st) then Inr (Some t) else Inl Undefined)"

definition AllocateChannel :: "nat \<Rightarrow> bool \<Rightarrow> io_context \<Rightarrow> channel \<times> io_context" where
  "AllocateChannel slots incoming_or_outgoing i =
    (let i1 = i\<lparr>i_channel := i_channel i + of_nat slots\<rparr>;
         channel = i_channel i1
     in (if incoming_or_outgoing then channel else channel OR 0x8000000000000000, i1))"

section \<open>Incoming connections\<close>

definition incoming_timeouts :: "configure \<Rightarrow> timeouts" where
  "incoming_timeouts c = \<lparr>t_receive = incoming_receive_timeout c,
     t_connect = incoming_connect_timeout c, t_send = incoming_send_timeout c,
     t_idle = incoming_idle_timeout c\<rparr>"

text \<open>
  \<open>AllocateChannel(worker, ...)\<close>: \<open>accepted\<close> is the result of \<open>Interface::Accepted\<close>, \<open>linkage\<close> the
  address of the new connection.
\<close>

definition AllocateIncoming ::
  "nat \<Rightarrow> bool \<Rightarrow> addr \<Rightarrow> server \<Rightarrow> ((channel \<times> addr \<times> timeouts) option \<times> server) srv" where
  "AllocateIncoming t accepted linkage st =
    (if t \<ge> length (s_io_context st) then Inl Undefined
     else
       let inconn = s_incoming st + 1;
           st1 = st\<lparr>s_incoming := inconn\<rparr>
       in if inconn \<ge> maximum_incoming_connections (s_configure st1)
          then Inr (None, st1\<lparr>s_incoming := s_incoming st1 - 1\<rparr>)
          else case AllocateChannel (s_slots st1) True (s_io_context st1 ! t) of (channel, i) \<Rightarrow>
            if \<not> accepted
            then Inr (None, (set_ioc t i st1)\<lparr>s_incoming := s_incoming st1 - 1\<rparr>)
            else Inr (Some (channel, linkage, incoming_timeouts (s_configure st1)),
                   set_ioc t (i\<lparr>i_linkages := (i_linkages i)(channel \<mapsto> linkage)\<rparr>) st1))"

text \<open>
  The end of \<open>Listener::OnReadable\<close>: a connection that cannot be attached is deleted.
\<close>

definition AcceptConnection ::
  "nat \<Rightarrow> bool \<Rightarrow> addr \<Rightarrow> bool \<Rightarrow> server \<Rightarrow> server srv" where
  "AcceptConnection t accepted linkage attached st =
    (case AllocateIncoming t accepted linkage st of
       Inl e \<Rightarrow> Inl e
     | Inr (None, st1) \<Rightarrow> Inr st1
     | Inr (Some _, st1) \<Rightarrow>
         if \<not> attached then Inr (st1\<lparr>s_freed := s_freed st1 @ [linkage]\<rparr>) else Inr st1)"

text \<open>\<open>ReleaseChannel\<close>, called when a connection is told it is disconnected.\<close>

definition ReleaseChannel :: "channel \<Rightarrow> server \<Rightarrow> server srv" where
  "ReleaseChannel c st =
    (case GetIoContext c st of
       Inl e \<Rightarrow> Inl e
     | Inr None \<Rightarrow> Inr st
     | Inr (Some t) \<Rightarrow>
         let i = (s_io_context st ! t);
             i1 = i\<lparr>i_linkages := (i_linkages i)(c := None)\<rparr>;
             st1 = set_ioc t i1 st
         in if \<not> IsOutgoingChannel c then Inr (st1\<lparr>s_incoming := s_incoming st1 - 1\<rparr>)
            else
              let st2 = st1\<lparr>s_outgoing := s_outgoing st1 - 1\<rparr>
              in if i_outgoing i1 c \<noteq> None then Inr st2
                 else case i_connect i1 c of
                        None \<Rightarrow> Inl Undefined
                      | Some h \<Rightarrow>
                          Inr ((set_ioc t (i1\<lparr>i_connect := (i_connect i1)(c := None)\<rparr>) st2)
                            \<lparr>s_freed := s_freed st2 @ [h]\<rparr>))"

section \<open>Outgoing connections\<close>

text \<open>\<open>Connect\<close>: \<open>pick\<close> is the random thread, \<open>handler\<close> the address of the new \<open>ProxyHandler\<close>.\<close>

definition Connect ::
  "bool \<Rightarrow> bool \<Rightarrow> int \<Rightarrow> nat \<Rightarrow> addr \<Rightarrow> server \<Rightarrow> (channel \<times> server) srv" where
  "Connect has_handler has_factory thread_id pick handler st =
    (if has_handler = has_factory then Inr (kInvalidChannel, st)
     else if s_io_workers st = [] then Inl LogicError
     else
       let n = length (s_io_workers st);
           t = (if thread_id < 0 \<or> nat thread_id \<ge> n then pick mod n else nat thread_id)
       in if t \<ge> length (s_io_context st) then Inl Undefined
          else case AllocateChannel (s_slots st) False (s_io_context st ! t) of (c, i) \<Rightarrow>
            Inr (c, set_ioc t
              (i\<lparr>i_connect := (i_connect i)(c := (case i_connect i c of None \<Rightarrow> Some handler | x \<Rightarrow> x)),
                 i_outgoing := (i_outgoing i)(c := (case i_outgoing i c of
                    None \<Rightarrow> Some \<lparr>oi_handler = handler, oi_thread = t\<rparr> | x \<Rightarrow> x))\<rparr>) st))"

definition outgoing_timeouts :: "configure \<Rightarrow> timeouts" where
  "outgoing_timeouts c = \<lparr>t_receive = outgoing_receive_timeout c,
     t_connect = outgoing_receive_timeout c, t_send = outgoing_send_timeout c,
     t_idle = outgoing_idle_timeout c\<rparr>"

text \<open>What the handler is told when a connection cannot be made.\<close>

datatype told = ToldError | ToldDisconnected

text \<open>
  \<open>DoReconnect\<close>: \<open>ret\<close> is the result of \<open>Interface::Connect\<close>, \<open>attached\<close> that of \<open>Attach\<close>,
  \<open>linkage\<close> the address of the new connection. \<open>insert\<close> keeps an entry that is already there.
\<close>

definition DoReconnect ::
  "channel \<Rightarrow> int \<Rightarrow> bool \<Rightarrow> addr \<Rightarrow> server \<Rightarrow> ((addr \<times> timeouts) option \<times> told list \<times> server) srv" where
  "DoReconnect c ret attached linkage st =
    (case GetIoContext c st of
       Inl e \<Rightarrow> Inl e
     | Inr None \<Rightarrow> Inl Undefined
     | Inr (Some t) \<Rightarrow>
         if ret < 0 then Inr (None, [ToldError, ToldDisconnected], st)
         else if \<not> attached
           then Inr (None, [ToldError], st\<lparr>s_freed := s_freed st @ [linkage]\<rparr>)
         else
           let i = s_io_context st ! t;
               i1 = i\<lparr>i_linkages := (i_linkages i)(c :=
                        (case i_linkages i c of None \<Rightarrow> Some linkage | x \<Rightarrow> x))\<rparr>
           in Inr (Some (linkage, outgoing_timeouts (s_configure st)), [],
                (set_ioc t i1 st)\<lparr>s_outgoing := s_outgoing st + 1\<rparr>))"

definition Forget :: "channel \<Rightarrow> server \<Rightarrow> server srv" where
  "Forget c st =
    (case GetIoContext c st of
       Inl e \<Rightarrow> Inl e
     | Inr None \<Rightarrow> Inr st
     | Inr (Some t) \<Rightarrow>
         let i = s_io_context st ! t;
             i1 = i\<lparr>i_outgoing := (i_outgoing i)(c := None)\<rparr>;
             st1 = set_ioc t i1 st
         in if i_linkages i1 c \<noteq> None then Inr st1
            else case i_connect i1 c of
                   None \<Rightarrow> Inr st1
                 | Some h \<Rightarrow>
                     Inr ((set_ioc t (i1\<lparr>i_connect := (i_connect i1)(c := None)\<rparr>) st1)
                       \<lparr>s_freed := s_freed st1 @ [h]\<rparr>))"

section \<open>Sending and disconnecting\<close>

text \<open>
  What \<open>Send\<close> and \<open>Disconnect\<close> decide under the lock: return at once, call the connection in the
  current thread, or send a job to the worker of a thread.
\<close>

datatype io_call = Return bool | CallNow addr | QueueTo nat

definition GetIoWorker :: "int \<Rightarrow> nat \<Rightarrow> server \<Rightarrow> nat srv" where
  "GetIoWorker thread_id pick st =
    (let n = length (s_io_workers st)
     in if thread_id < 0 \<or> nat thread_id \<ge> n
        then (if n = 0 then Inl Undefined else Inr (pick mod n))
        else Inr (nat thread_id))"

definition DisconnectChannel :: "channel \<Rightarrow> (nat \<Rightarrow> bool) \<Rightarrow> server \<Rightarrow> io_call srv" where
  "DisconnectChannel c here st =
    (case GetIoContext c st of
       Inl e \<Rightarrow> Inl e
     | Inr None \<Rightarrow> Inr (Return True)
     | Inr (Some t) \<Rightarrow>
         (case i_linkages (s_io_context st ! t) c of
            None \<Rightarrow> Inr (Return True)
          | Some l \<Rightarrow> Inr (if here t then CallNow l else QueueTo t)))"

definition DoRealDisconnect :: "channel \<Rightarrow> server \<Rightarrow> addr option srv" where
  "DoRealDisconnect c st =
    (case GetIoContext c st of
       Inl e \<Rightarrow> Inl e
     | Inr None \<Rightarrow> Inr None
     | Inr (Some t) \<Rightarrow> Inr (i_linkages (s_io_context st ! t) c))"

text \<open>
  \<open>Send\<close>: \<open>here t\<close> tells whether the caller is the thread of worker \<open>t\<close>; \<open>ret\<close>, \<open>attached\<close> and
  \<open>linkage\<close> are those of the reconnection, if one is made.
\<close>

definition SendChannel ::
  "channel \<Rightarrow> bool \<Rightarrow> (nat \<Rightarrow> bool) \<Rightarrow> nat \<Rightarrow> int \<Rightarrow> bool \<Rightarrow> addr \<Rightarrow> server
    \<Rightarrow> (io_call \<times> server) srv" where
  "SendChannel c empty_buffer here pick ret attached linkage st =
    (case GetIoContext c st of
       Inl e \<Rightarrow> Inl e
     | Inr None \<Rightarrow> Inr (Return False, st)
     | Inr (Some t) \<Rightarrow>
         let i = s_io_context st ! t in
         (case i_linkages i c of
            Some l \<Rightarrow>
              if empty_buffer then Inr (Return True, st)
              else Inr (if here t then CallNow l else QueueTo t, st)
          | None \<Rightarrow>
              if \<not> IsOutgoingChannel c then Inr (Return True, st)
              else (case i_outgoing i c of
                      None \<Rightarrow> Inr (Return True, st)
                    | Some info \<Rightarrow>
                        (case GetIoWorker (int (oi_thread info)) pick st of
                           Inl e \<Rightarrow> Inl e
                         | Inr w \<Rightarrow>
                             if here w then
                               (case DoReconnect c ret attached linkage st of
                                  Inl e \<Rightarrow> Inl e
                                | Inr (None, _, st1) \<Rightarrow> Inr (Return False, st1)
                                | Inr (Some (l, _), _, st1) \<Rightarrow>
                                    Inr (if empty_buffer then Return True else CallNow l, st1))
                             else Inr (QueueTo w, st)))))"

text \<open>
  \<open>DoRealSend\<close> up to the call of \<open>Send\<close> on the connection: the connection to send to, if any.
\<close>

definition DoRealSend ::
  "channel \<Rightarrow> bool \<Rightarrow> int \<Rightarrow> bool \<Rightarrow> addr \<Rightarrow> server \<Rightarrow> (addr option \<times> server) srv" where
  "DoRealSend c empty_buffer ret attached linkage st =
    (case GetIoContext c st of
       Inl e \<Rightarrow> Inl e
     | Inr None \<Rightarrow> Inr (None, st)
     | Inr (Some t) \<Rightarrow>
         let i = s_io_context st ! t in
         (case i_linkages i c of
            Some l \<Rightarrow> Inr (if empty_buffer then None else Some l, st)
          | None \<Rightarrow>
              if IsOutgoingChannel c \<and> i_outgoing i c \<noteq> None then
                (case DoReconnect c ret attached linkage st of
                   Inl e \<Rightarrow> Inl e
                 | Inr (None, _, st1) \<Rightarrow> Inr (None, st1)
                 | Inr (Some (l, _), _, st1) \<Rightarrow> Inr (if empty_buffer then None else Some l, st1))
              else Inr (None, st)))"

section \<open>Jobs\<close>

definition DoAppendJob :: "addr \<Rightarrow> int \<Rightarrow> server \<Rightarrow> server srv" where
  "DoAppendJob job hash st =
    (if hash < 0 then Inr (st\<lparr>s_jobs := s_jobs st @ [job]\<rparr>)
     else if s_hashjobs st = [] then Inl Undefined
     else
       let i = nat hash mod length (s_hashjobs st)
       in Inr (st\<lparr>s_hashjobs := (s_hashjobs st)[i := s_hashjobs st ! i @ [job]]\<rparr>))"

text \<open>\<open>GetJob\<close>: none while the caller has to wait.\<close>

definition GetJob :: "nat \<Rightarrow> server \<Rightarrow> (addr \<times> server) option srv" where
  "GetJob who st =
    (if who \<ge> length (s_hashjobs st) then Inl Undefined
     else Inr (case s_hashjobs st ! who of
       job # q \<Rightarrow> Some (job, st\<lparr>s_hashjobs := (s_hashjobs st)[who := q]\<rparr>)
     | [] \<Rightarrow> (case s_jobs st of
                job # q \<Rightarrow> Some (job, st\<lparr>s_jobs := q\<rparr>)
              | [] \<Rightarrow> None)))"

text \<open>\<open>QueueOrExecuteJob\<close>: whether the job is run by the caller, and the state.\<close>

definition QueueOrExecuteJob :: "addr \<Rightarrow> int \<Rightarrow> server \<Rightarrow> (bool \<times> server) srv" where
  "QueueOrExecuteJob job hash st =
    (if job = 0 then Inr (False, st)
     else if s_workers st \<noteq> 0 then
       (case DoAppendJob job hash st of Inl e \<Rightarrow> Inl e | Inr st1 \<Rightarrow> Inr (False, st1))
     else Inr (True, st\<lparr>s_freed := s_freed st @ [job]\<rparr>))"

text \<open>\<open>QueueIo\<close>: the worker the job is sent to, none for a missing job.\<close>

definition QueueIo :: "addr \<Rightarrow> int \<Rightarrow> server \<Rightarrow> nat option srv" where
  "QueueIo job thread_id st =
    (if job = 0 then Inr None
     else if thread_id < 0 \<or> nat thread_id \<ge> length (s_io_workers st) then Inl Undefined
     else Inr (Some (nat thread_id)))"

section \<open>Starting and stopping\<close>

definition DoDumpJobs :: "server \<Rightarrow> server" where
  "DoDumpJobs st =
    st\<lparr>s_freed := s_freed st @ s_jobs st @ concat (s_hashjobs st), s_jobs := [],
       s_hashjobs := map (\<lambda>_. []) (s_hashjobs st)\<rparr>"

fun append_quits :: "nat list \<Rightarrow> server \<Rightarrow> server srv" where
  "append_quits [] st = Inr st"
| "append_quits (i # is) st =
    (case DoAppendJob 0 (int i) st of Inl e \<Rightarrow> Inl e | Inr st1 \<Rightarrow> append_quits is st1)"

text \<open>
  \<open>DoShutdown\<close> until it waits for the threads, and the rest of it once they are gone, when the
  \<open>IoContext\<close>s with the handlers and descriptions they own, the listeners, the listening handlers
  and the timers that never started are deleted.
\<close>

definition StopThreads :: "server \<Rightarrow> server srv" where
  "StopThreads st = append_quits [0..<s_workers st] (DoDumpJobs st)"

definition ReleaseAll :: "server \<Rightarrow> server" where
  "ReleaseAll st =
    (let st1 = st\<lparr>s_freed := s_freed st @ s_listen_handlers st @ s_listeners st @ map fst (s_timers st)\<rparr>;
         st2 = DoDumpJobs st1
     in st2\<lparr>s_listen_handlers := [], s_job_workers := [], s_io_workers := [], s_io_context := [],
          s_listeners := [], s_hashjobs := [], s_timers := [], s_workers := 0, s_slots := 0\<rparr>)"

definition DoShutdown :: "server \<Rightarrow> server srv" where
  "DoShutdown st = (case StopThreads st of Inl e \<Rightarrow> Inl e | Inr st1 \<Rightarrow> Inr (ReleaseAll st1))"

text \<open>
  \<open>Initialize\<close> with the two affinity lists already parsed (\<open>None\<close> for a parse error). \<open>pool_ok\<close>,
  \<open>listeners_ok i\<close>, \<open>timer_ok p\<close> and \<open>append_ok k\<close> are the results of the calls it makes: the thread pool, the
  listeners for worker \<open>i\<close>, the timers and the pool's \<open>k\<close>-th job.
\<close>

fun start_io ::
  "(nat \<Rightarrow> bool) \<Rightarrow> nat \<Rightarrow> int list list \<Rightarrow> server \<Rightarrow> bool \<times> server" where
  "start_io listeners_ok i [] st = (True, st)"
| "start_io listeners_ok i (a # as) st =
    (let st1 = st\<lparr>s_io_workers := s_io_workers st @ [a]\<rparr>
     in if \<not> listeners_ok i then (False, st1) else start_io listeners_ok (Suc i) as st1)"

fun start_timers :: "(addr \<Rightarrow> bool) \<Rightarrow> (addr \<times> int \<times> int) list \<Rightarrow> server \<Rightarrow> bool \<times> server" where
  "start_timers timer_ok [] st = (True, st\<lparr>s_timers := []\<rparr>)"
| "start_timers timer_ok (t # ts) st =
    (if \<not> timer_ok (fst t) then (False, st\<lparr>s_timers := t # ts\<rparr>)
     else start_timers timer_ok ts st)"

definition fail_start :: "server \<Rightarrow> (bool \<times> server) srv" where
  "fail_start st = (case DoShutdown st of Inl e \<Rightarrow> Inl e | Inr st1 \<Rightarrow> Inr (False, st1))"

definition Initialize ::
  "int list list option \<Rightarrow> int list list option \<Rightarrow> bool \<Rightarrow> (nat \<Rightarrow> bool) \<Rightarrow> (addr \<Rightarrow> bool)
    \<Rightarrow> (nat \<Rightarrow> bool) \<Rightarrow> server \<Rightarrow> (bool \<times> server) srv" where
  "Initialize slots workers pool_ok listeners_ok timer_ok append_ok st =
    (case (slots, workers) of
       (Some as, Some aw) \<Rightarrow>
         if as = [] \<or> length as > kMaximumSlots \<or> length aw > kMaximumWorkers then Inr (False, st)
         else if \<not> pool_ok then Inr (False, st)
         else
           let st1 = st\<lparr>s_workers := length aw, s_slots := length as\<rparr> in
           (case start_io listeners_ok 0 as st1 of (ok, st2) \<Rightarrow>
              if \<not> ok then fail_start st2
              else case start_timers timer_ok (s_timers st2) st2 of (ok2, st3) \<Rightarrow>
                if \<not> ok2 then fail_start st3
                else
                  let st4 = st3\<lparr>
                        s_io_context := s_io_context st3 @ map new_io_context [0..<length as],
                        s_job_workers := s_job_workers st3 @ aw,
                        s_hashjobs := take (length aw) (s_hashjobs st3 @ replicate (length aw) [])\<rparr>
                  in if \<not> list_all append_ok [0..<length as + length aw] then fail_start st4
                     else Inr (True, st4))
     | _ \<Rightarrow> Inr (False, st))"

text \<open>
  \<open>RegisterTimer\<close>: before the threads run the timer is kept, afterwards it goes to a random worker,
  directly when the caller is that worker's thread.
\<close>

datatype timer_call = TimerReturn bool | TimerNow nat | TimerQueue nat

definition ServerRegisterTimer ::
  "int \<Rightarrow> int \<Rightarrow> addr \<Rightarrow> (nat \<Rightarrow> bool) \<Rightarrow> nat \<Rightarrow> server \<Rightarrow> (timer_call \<times> server) srv" where
  "ServerRegisterTimer after repeat timer here pick st =
    (if after < 0 \<or> repeat \<le> 0 \<or> timer = 0 then Inr (TimerReturn False, st)
     else if s_io_workers st = []
       then Inr (TimerReturn True, st\<lparr>s_timers := s_timers st @ [(timer, after, repeat)]\<rparr>)
     else case GetIoWorker (-1) pick st of
            Inl e \<Rightarrow> Inl e
          | Inr w \<Rightarrow> Inr (if here w then TimerNow w else TimerQueue w, st))"

text \<open>\<open>Listen\<close>: \<open>ok\<close> is the result of the listener's own \<open>Listen\<close>.\<close>

definition ServerListen ::
  "bool \<Rightarrow> bool \<Rightarrow> bool \<Rightarrow> bool \<Rightarrow> addr \<Rightarrow> addr \<Rightarrow> server \<Rightarrow> (bool \<times> server) srv" where
  "ServerListen has_handler has_factory stream ok handler listener st =
    (if has_handler = has_factory \<or> \<not> stream then Inr (False, st)
     else if \<not> ok then Inr (False, st\<lparr>s_freed := s_freed st @ [listener, handler]\<rparr>)
     else if s_io_workers st \<noteq> [] then Inl LogicError
     else Inr (True, st\<lparr>s_listen_handlers := s_listen_handlers st @ [handler],
                       s_listeners := s_listeners st @ [listener]\<rparr>))"

end
