(* ===== verification/Easy_Server_Correct.thy ===== *)
theory Easy_Server_Correct
  imports Easy_Server
begin

unbundle bit_operations_syntax

text \<open>
  Properties of \<open>EasyServer\<close>: channels are unique and lead back to their thread, the tables of a
  thread agree with each other (a handler lives exactly as long as its channel is remembered or
  connected), the counters count the connections, jobs reach the worker they are meant for.
\<close>

section \<open>Channel numbers\<close>

definition channel_number :: "channel \<Rightarrow> nat" where
  "channel_number c = unat (c AND 0x7fffffffffffffff)"

lemma channel_number_eq: "channel_number c = unat c mod 2 ^ 63"
proof -
  have "(0x7fffffffffffffff :: u64) = mask 63" by (simp add: mask_eq_exp_minus_1)
  then have "c AND 0x7fffffffffffffff = take_bit 63 c" by (simp add: take_bit_eq_mask)
  then have "channel_number c = take_bit 63 (unat c)"
    by (simp only: channel_number_def unsigned_take_bit_eq)
  then show ?thesis by (simp only: take_bit_eq_mod)
qed

lemma IsOutgoing_iff: "IsOutgoingChannel c \<longleftrightarrow> 2 ^ 63 \<le> unat c"
proof -
  have "(0x8000000000000000 :: u64) = push_bit 63 1" by (simp add: push_bit_eq_mult)
  then have "IsOutgoingChannel c \<longleftrightarrow> bit c 63"
    by (simp add: IsOutgoingChannel_def bit_iff_and_push_bit_not_eq_0)
  also have "\<dots> \<longleftrightarrow> bit (unat c) 63" by (simp add: bit_unsigned_iff)
  also have "\<dots> \<longleftrightarrow> odd (unat c div 2 ^ 63)" by (simp add: bit_iff_odd)
  also have "\<dots> \<longleftrightarrow> 2 ^ 63 \<le> unat c"
  proof -
    have "unat c < 2 ^ 64" using unsigned_less [of c] by simp
    then have "unat c div 2 ^ 63 < 2" by simp
    then have "odd (unat c div 2 ^ 63) \<longleftrightarrow> unat c div 2 ^ 63 \<noteq> 0"
      by (cases "unat c div 2 ^ 63") (auto simp: less_Suc_eq numeral_2_eq_2)
    then show ?thesis by (simp add: div_eq_0_iff not_less)
  qed
  finally show ?thesis .
qed

lemma GetThreadId_eq:
  "0 < s_slots st \<Longrightarrow> GetThreadId c st = Inr (channel_number c mod s_slots st)"
  by (simp add: GetThreadId_def channel_number_def)

lemma outgoing_mark:
  assumes "unat (x :: channel) < 2 ^ 63"
  shows "unat (x OR 0x8000000000000000) = unat x + 2 ^ 63"
proof -
  have "x AND 0x8000000000000000 = 0"
    using IsOutgoing_iff [of x] assms by (simp add: IsOutgoingChannel_def)
  then have "x OR 0x8000000000000000 = x + 0x8000000000000000"
    by (simp add: disjunctive_add_eq_or)
  then show ?thesis using assms by (simp add: unat_word_ariths)
qed

text \<open>A new channel: its number is the bumped counter, its top bit says where it comes from.\<close>

lemma AllocateChannel_facts:
  assumes "AllocateChannel n incoming i = (c, i')" and "unat (i_channel i) + n < 2 ^ 63"
  shows "unat (i_channel i') = unat (i_channel i) + n"
    and "channel_number c = unat (i_channel i) + n"
    and "IsOutgoingChannel c \<longleftrightarrow> \<not> incoming"
    and "i' = i\<lparr>i_channel := i_channel i'\<rparr>"
proof -
  have c: "c = (if incoming then i_channel i' else i_channel i' OR 0x8000000000000000)"
    and i': "i' = i\<lparr>i_channel := i_channel i + of_nat n\<rparr>"
    using assms(1) by (auto simp: AllocateChannel_def Let_def)
  have n: "unat (of_nat n :: u64) = n"
    using assms(2) by (simp add: unsigned_of_nat take_bit_nat_eq_self)
  show u: "unat (i_channel i') = unat (i_channel i) + n"
    using assms(2) n by (simp add: i' unat_word_ariths)
  show "channel_number c = unat (i_channel i) + n"
    using u assms(2) outgoing_mark [of "i_channel i'"]
    by (simp add: c channel_number_eq)
  show "IsOutgoingChannel c \<longleftrightarrow> \<not> incoming"
    using u assms(2) outgoing_mark [of "i_channel i'"] by (simp add: c IsOutgoing_iff)
  show "i' = i\<lparr>i_channel := i_channel i'\<rparr>" by (simp add: i')
qed

section \<open>The tables of one thread\<close>

definition issued :: "nat \<Rightarrow> nat \<Rightarrow> io_context \<Rightarrow> channel \<Rightarrow> bool" where
  "issued n t i c \<longleftrightarrow> channel_number c mod n = t \<and> n \<le> channel_number c \<and>
    channel_number c \<le> unat (i_channel i)"

definition known :: "io_context \<Rightarrow> channel set" where
  "known i = dom (i_linkages i) \<union> dom (i_connect i) \<union> dom (i_outgoing i)"

definition ioc_ok :: "nat \<Rightarrow> nat \<Rightarrow> io_context \<Rightarrow> bool" where
  "ioc_ok n t i \<longleftrightarrow>
    unat (i_channel i) mod n = t \<and> unat (i_channel i) < 2 ^ 63 \<and>
    (\<forall>c \<in> known i. issued n t i c) \<and>
    dom (i_connect i) = {c. IsOutgoingChannel c \<and> (c \<in> dom (i_outgoing i) \<or> c \<in> dom (i_linkages i))} \<and>
    (\<forall>c \<in> dom (i_outgoing i). IsOutgoingChannel c) \<and>
    (\<forall>c info. i_outgoing i c = Some info \<longrightarrow>
       i_connect i c = Some (oi_handler info) \<and> oi_thread info = t) \<and>
    finite (dom (i_linkages i))"

definition in_count :: "io_context \<Rightarrow> nat" where
  "in_count i = card {c \<in> dom (i_linkages i). \<not> IsOutgoingChannel c}"

definition out_count :: "io_context \<Rightarrow> nat" where
  "out_count i = card {c \<in> dom (i_linkages i). IsOutgoingChannel c}"

lemma ioc_ok_new: "t < n \<Longrightarrow> n \<le> 128 \<Longrightarrow> ioc_ok n t (new_io_context t)"
  by (simp add: ioc_ok_def new_io_context_def known_def unsigned_of_nat take_bit_nat_eq_self)

lemma counts_new: "in_count (new_io_context t) = 0" "out_count (new_io_context t) = 0"
  by (simp_all add: in_count_def out_count_def new_io_context_def)

lemma ioc_alloc:
  assumes ok: "ioc_ok n t i" and al: "AllocateChannel n incoming i = (c, i')"
    and room: "unat (i_channel i) + n < 2 ^ 63" and "0 < n"
  shows "ioc_ok n t i'" and "c \<notin> known i'" and "issued n t i' c"
    and "in_count i' = in_count i" and "out_count i' = out_count i"
proof -
  note f = AllocateChannel_facts [OF al room]
  have same: "i_linkages i' = i_linkages i" "i_connect i' = i_connect i" "i_outgoing i' = i_outgoing i"
    by (subst f(4), simp)+
  have kn: "known i' = known i" by (simp add: known_def same)
  have iss: "issued n t i' d" if "issued n t i d" for d
    using that f(1) by (simp add: issued_def)
  show "ioc_ok n t i'"
    using ok f(1) room iss by (simp add: ioc_ok_def same kn)
  show "c \<notin> known i'"
    using ok f(2) \<open>0 < n\<close> by (auto simp: ioc_ok_def kn issued_def)
  show "issued n t i' c"
    using ok f(1,2) by (simp add: issued_def ioc_ok_def)
  show "in_count i' = in_count i" "out_count i' = out_count i"
    by (simp_all add: in_count_def out_count_def same)
qed

lemma ioc_link_in:
  assumes "ioc_ok n t i" and "issued n t i c" and "c \<notin> known i" and "\<not> IsOutgoingChannel c"
  shows "ioc_ok n t (i\<lparr>i_linkages := (i_linkages i)(c \<mapsto> l)\<rparr>)"
    and "in_count (i\<lparr>i_linkages := (i_linkages i)(c \<mapsto> l)\<rparr>) = Suc (in_count i)"
    and "out_count (i\<lparr>i_linkages := (i_linkages i)(c \<mapsto> l)\<rparr>) = out_count i"
proof -
  show "ioc_ok n t (i\<lparr>i_linkages := (i_linkages i)(c \<mapsto> l)\<rparr>)"
    using assms unfolding ioc_ok_def known_def issued_def by auto
  have "{d \<in> dom ((i_linkages i)(c \<mapsto> l)). \<not> IsOutgoingChannel d} =
      insert c {d \<in> dom (i_linkages i). \<not> IsOutgoingChannel d}" using assms(4) by auto
  moreover have "c \<notin> dom (i_linkages i)" "finite (dom (i_linkages i))"
    using assms(1,3) unfolding known_def ioc_ok_def by blast+
  ultimately show "in_count (i\<lparr>i_linkages := (i_linkages i)(c \<mapsto> l)\<rparr>) = Suc (in_count i)"
    by (simp add: in_count_def)
  have "{d \<in> dom ((i_linkages i)(c \<mapsto> l)). IsOutgoingChannel d} =
      {d \<in> dom (i_linkages i). IsOutgoingChannel d}" using assms(4) by auto
  then show "out_count (i\<lparr>i_linkages := (i_linkages i)(c \<mapsto> l)\<rparr>) = out_count i"
    by (simp add: out_count_def)
qed

text \<open>The other changes to the tables of a thread.\<close>

lemma ioc_unlink:
  assumes "ioc_ok n t i" and "c \<in> dom (i_linkages i)"
  defines "i1 \<equiv> i\<lparr>i_linkages := (i_linkages i)(c := None)\<rparr>"
  shows "\<not> IsOutgoingChannel c \<Longrightarrow> ioc_ok n t i1"
    and "i_outgoing i c \<noteq> None \<Longrightarrow> ioc_ok n t i1"
    and "IsOutgoingChannel c \<Longrightarrow> i_connect i c \<noteq> None"
    and "i_outgoing i c = None \<Longrightarrow> ioc_ok n t (i1\<lparr>i_connect := (i_connect i1)(c := None)\<rparr>)"
    and "in_count i1 = (if IsOutgoingChannel c then in_count i else in_count i - 1)"
    and "out_count i1 = (if IsOutgoingChannel c then out_count i - 1 else out_count i)"
    and "if IsOutgoingChannel c then 0 < out_count i else 0 < in_count i"
proof -
  note ok = assms(1) [unfolded ioc_ok_def known_def issued_def]
  show "\<not> IsOutgoingChannel c \<Longrightarrow> ioc_ok n t i1"
    using ok unfolding i1_def ioc_ok_def known_def issued_def by auto
  show "i_outgoing i c \<noteq> None \<Longrightarrow> ioc_ok n t i1"
    using ok unfolding i1_def ioc_ok_def known_def issued_def by auto
  show "IsOutgoingChannel c \<Longrightarrow> i_connect i c \<noteq> None"
    using ok assms(2) by (auto simp: dom_def)
  show "i_outgoing i c = None \<Longrightarrow> ioc_ok n t (i1\<lparr>i_connect := (i_connect i1)(c := None)\<rparr>)"
    using ok unfolding i1_def ioc_ok_def known_def issued_def by auto
  have fin: "finite (dom (i_linkages i))" using ok by blast
  have 1: "{d \<in> dom (i_linkages i1). \<not> IsOutgoingChannel d} =
      {d \<in> dom (i_linkages i). \<not> IsOutgoingChannel d} - {c}"
    "{d \<in> dom (i_linkages i1). IsOutgoingChannel d} =
      {d \<in> dom (i_linkages i). IsOutgoingChannel d} - {c}"
    by (auto simp: i1_def)
  show "in_count i1 = (if IsOutgoingChannel c then in_count i else in_count i - 1)"
    "out_count i1 = (if IsOutgoingChannel c then out_count i - 1 else out_count i)"
    using fin assms(2) by (simp_all add: in_count_def out_count_def 1 card_Diff_singleton_if)
  show "if IsOutgoingChannel c then 0 < out_count i else 0 < in_count i"
    using fin assms(2) by (auto simp: in_count_def out_count_def card_gt_0_iff)
qed

lemma ioc_connect:
  assumes "ioc_ok n t i" and "issued n t i c" and "c \<notin> known i" and "IsOutgoingChannel c"
  shows "ioc_ok n t (i\<lparr>i_connect := (i_connect i)(c \<mapsto> h),
      i_outgoing := (i_outgoing i)(c \<mapsto> \<lparr>oi_handler = h, oi_thread = t\<rparr>)\<rparr>)"
  using assms unfolding ioc_ok_def known_def issued_def by auto

lemma ioc_relink:
  fixes l :: addr
  assumes "ioc_ok n t i" and "i_outgoing i c \<noteq> None" and "i_linkages i c = None"
  defines "i1 \<equiv> i\<lparr>i_linkages := (i_linkages i)(c \<mapsto> l)\<rparr>"
  shows "ioc_ok n t i1" and "in_count i1 = in_count i" and "out_count i1 = Suc (out_count i)"
proof -
  have out: "IsOutgoingChannel c" using assms(1,2) unfolding ioc_ok_def by blast
  have fin: "finite (dom (i_linkages i))" using assms(1) unfolding ioc_ok_def by blast
  show "ioc_ok n t i1"
    using assms unfolding i1_def ioc_ok_def known_def issued_def by auto
  have 1: "{d \<in> dom (i_linkages i1). \<not> IsOutgoingChannel d} =
      {d \<in> dom (i_linkages i). \<not> IsOutgoingChannel d}"
    "{d \<in> dom (i_linkages i1). IsOutgoingChannel d} =
      insert c {d \<in> dom (i_linkages i). IsOutgoingChannel d}"
    using out by (auto simp: i1_def)
  show "in_count i1 = in_count i" "out_count i1 = Suc (out_count i)"
    using fin assms(3) by (auto simp: in_count_def out_count_def 1 card_insert_if)
qed

lemma ioc_forget:
  fixes c :: channel
  assumes "ioc_ok n t i"
  defines "i1 \<equiv> i\<lparr>i_outgoing := (i_outgoing i)(c := None)\<rparr>"
  shows "i_linkages i c \<noteq> None \<Longrightarrow> ioc_ok n t i1"
    and "i_connect i c = None \<Longrightarrow> ioc_ok n t i1"
    and "i_linkages i c = None \<Longrightarrow> ioc_ok n t (i1\<lparr>i_connect := (i_connect i1)(c := None)\<rparr>)"
    and "in_count i1 = in_count i" "out_count i1 = out_count i"
proof -
  note ok = assms(1) [unfolded ioc_ok_def known_def issued_def]
  show "i_linkages i c \<noteq> None \<Longrightarrow> ioc_ok n t i1"
    using ok unfolding i1_def ioc_ok_def known_def issued_def by auto
  show "ioc_ok n t i1" if none: "i_connect i c = None"
  proof -
    have "i_outgoing i c = None" using ok none by (cases "i_outgoing i c") auto
    then have "i1 = i" by (simp add: i1_def fun_upd_idem)
    with assms(1) show ?thesis by simp
  qed
  show "i_linkages i c = None \<Longrightarrow> ioc_ok n t (i1\<lparr>i_connect := (i_connect i1)(c := None)\<rparr>)"
    using ok unfolding i1_def ioc_ok_def known_def issued_def by auto
  show "in_count i1 = in_count i" "out_count i1 = out_count i"
    by (simp_all add: i1_def in_count_def out_count_def)
qed

section \<open>The server\<close>

definition total :: "(io_context \<Rightarrow> nat) \<Rightarrow> server \<Rightarrow> nat" where
  "total f st = sum_list (map f (s_io_context st))"

definition server_ok :: "server \<Rightarrow> bool" where
  "server_ok st \<longleftrightarrow>
    0 < s_slots st \<and> length (s_io_context st) = s_slots st \<and> length (s_io_workers st) = s_slots st \<and>
    (\<forall>t < s_slots st. ioc_ok (s_slots st) t (s_io_context st ! t)) \<and>
    unat (s_incoming st) = total in_count st \<and> unat (s_outgoing st) = total out_count st \<and>
    (s_incoming st = 0 \<or> s_incoming st < maximum_incoming_connections (s_configure st))"

lemma total_set_ioc:
  assumes "t < length (s_io_context st)"
  shows "total f (set_ioc t i st) = total f st + f i - f (s_io_context st ! t)"
  using assms by (simp add: total_def set_ioc_def map_update sum_list_update)

lemma total_ge: "t < length (s_io_context st) \<Longrightarrow> f (s_io_context st ! t) \<le> total f st"
  unfolding total_def by (rule member_le_sum_list) auto

lemma total_fields [simp]:
  "total f (st\<lparr>s_incoming := a\<rparr>) = total f st" "total f (st\<lparr>s_outgoing := a\<rparr>) = total f st"
  "total f (st\<lparr>s_freed := x\<rparr>) = total f st"
  by (simp_all add: total_def)

lemma set_ioc_fields [simp]:
  "s_slots (set_ioc t i st) = s_slots st" "s_io_workers (set_ioc t i st) = s_io_workers st"
  "s_incoming (set_ioc t i st) = s_incoming st" "s_outgoing (set_ioc t i st) = s_outgoing st"
  "s_configure (set_ioc t i st) = s_configure st" "s_freed (set_ioc t i st) = s_freed st"
  "s_io_context (set_ioc t i st) = (s_io_context st)[t := i]"
  "s_workers (set_ioc t i st) = s_workers st" "s_hashjobs (set_ioc t i st) = s_hashjobs st"
  "s_jobs (set_ioc t i st) = s_jobs st"
  by (simp_all add: set_ioc_def)

text \<open>One thread's tables change, and the counters with them.\<close>

lemma server_ok_set:
  assumes ok: "server_ok st" and t: "t < s_slots st" and i: "ioc_ok (s_slots st) t i"
    and st': "st' = (set_ioc t i st)\<lparr>s_incoming := a, s_outgoing := b, s_freed := x\<rparr>"
    and a: "unat a + in_count (s_io_context st ! t) = unat (s_incoming st) + in_count i"
    and b: "unat b + out_count (s_io_context st ! t) = unat (s_outgoing st) + out_count i"
    and adm: "a = 0 \<or> a < maximum_incoming_connections (s_configure st)"
  shows "server_ok st'"
proof -
  have len: "t < length (s_io_context st)" using ok t by (simp add: server_ok_def)
  have "total in_count st' = total in_count st + in_count i - in_count (s_io_context st ! t)"
    "total out_count st' = total out_count st + out_count i - out_count (s_io_context st ! t)"
    using total_set_ioc [OF len] by (simp_all add: st')
  moreover have "in_count (s_io_context st ! t) \<le> total in_count st"
    "out_count (s_io_context st ! t) \<le> total out_count st" using total_ge [OF len] by auto
  ultimately have "unat a = total in_count st'" "unat b = total out_count st'"
    using ok a b by (auto simp: server_ok_def)
  moreover have "ioc_ok (s_slots st) u ((s_io_context st)[t := i] ! u)" if "u < s_slots st" for u
    using ok i len that by (cases "u = t") (auto simp: server_ok_def)
  ultimately show ?thesis using ok adm by (simp add: server_ok_def st')
qed

lemma GetIoContext_ok:
  assumes "server_ok st" and "c \<noteq> 0"
  shows "GetIoContext c st = Inr (Some (channel_number c mod s_slots st))"
    and "channel_number c mod s_slots st < s_slots st"
proof -
  have "0 < s_slots st" "length (s_io_context st) = s_slots st"
    using assms(1) by (auto simp: server_ok_def)
  then show "GetIoContext c st = Inr (Some (channel_number c mod s_slots st))"
    "channel_number c mod s_slots st < s_slots st"
    using assms(2)
    by (simp_all add: GetIoContext_def IsValidChannel_def kInvalidChannel_def GetThreadId_eq)
qed

lemma server_ok_ioc: "server_ok st \<Longrightarrow> t < s_slots st \<Longrightarrow> ioc_ok (s_slots st) t (s_io_context st ! t)"
  by (simp add: server_ok_def)

text \<open>A registered channel names the thread whose tables hold it.\<close>

lemma known_thread:
  assumes "server_ok st" and "t < s_slots st" and "c \<in> known (s_io_context st ! t)"
  shows "c \<noteq> 0" and "GetIoContext c st = Inr (Some t)"
proof -
  have i: "issued (s_slots st) t (s_io_context st ! t) c"
    using server_ok_ioc [OF assms(1,2)] assms(3) by (simp add: ioc_ok_def)
  moreover have "0 < s_slots st" using assms(1) by (simp add: server_ok_def)
  ultimately have "channel_number c \<noteq> 0" by (auto simp: issued_def)
  then show c: "c \<noteq> 0" by (auto simp: channel_number_def)
  show "GetIoContext c st = Inr (Some t)"
    using GetIoContext_ok [OF assms(1) c] i by (simp add: issued_def)
qed

section \<open>Every operation keeps the tables consistent\<close>

lemma unat_inc: "(x :: u64) + 1 \<noteq> 0 \<Longrightarrow> unat (x + 1) = unat x + 1"
  using unatSuc [of x] by (simp add: add.commute)

lemma below_inc: "(x :: u64) < y \<Longrightarrow> x + 1 \<noteq> 0"
  using max_word_wrap [of x] word_order.extremum_strict [of y] by auto

lemma Accept_ok:
  assumes ok: "server_ok st" and t: "t < s_slots st"
    and room: "unat (i_channel (s_io_context st ! t)) + s_slots st < 2 ^ 63"
  shows "\<exists>st'. AcceptConnection t accepted l attached st = Inr st' \<and> server_ok st'"
proof -
  let ?i = "s_io_context st ! t" and ?n = "s_slots st"
  have len: "length (s_io_context st) = ?n" "0 < ?n" using ok by (auto simp: server_ok_def)
  note i_ok = server_ok_ioc [OF ok t]
  obtain c i where al: "AllocateChannel ?n True ?i = (c, i)" by (metis prod.exhaust)
  note A = ioc_alloc [OF i_ok al room len(2)] and f = AllocateChannel_facts [OF al room]
  have bound: "s_incoming st = 0 \<or> s_incoming st < maximum_incoming_connections (s_configure st)"
    using ok by (simp add: server_ok_def)
  show ?thesis
  proof (cases "maximum_incoming_connections (s_configure st) \<le> s_incoming st + 1")
    case True
    then have "AcceptConnection t accepted l attached st = Inr (st\<lparr>s_incoming := s_incoming st\<rparr>)"
      using t len by (simp add: AcceptConnection_def AllocateIncoming_def Let_def)
    with ok show ?thesis by simp
  next
    case room_left: False
    then have lt: "s_incoming st + 1 < maximum_incoming_connections (s_configure st)" by simp
    show ?thesis
    proof (cases accepted)
      case False
      let ?st = "(set_ioc t i (st\<lparr>s_incoming := s_incoming st + 1\<rparr>))\<lparr>s_incoming := s_incoming st\<rparr>"
      have "server_ok ?st"
      proof (rule server_ok_set [OF ok t A(1)])
        show "?st = (set_ioc t i st)\<lparr>s_incoming := s_incoming st, s_outgoing := s_outgoing st,
            s_freed := s_freed st\<rparr>"
          by (rule server.equality) (simp_all add: set_ioc_def)
      qed (use A bound in auto)
      moreover have "AcceptConnection t accepted l attached st = Inr ?st"
        using False room_left t len al by (simp add: AcceptConnection_def AllocateIncoming_def Let_def)
      ultimately show ?thesis by blast
    next
      case True
      let ?i2 = "i\<lparr>i_linkages := (i_linkages i)(c \<mapsto> l)\<rparr>"
      let ?x = "if attached then s_freed st else s_freed st @ [l]"
      let ?st = "(set_ioc t ?i2 st)\<lparr>s_incoming := s_incoming st + 1, s_outgoing := s_outgoing st,
          s_freed := ?x\<rparr>"
      have L: "ioc_ok ?n t ?i2" "in_count ?i2 = Suc (in_count ?i)" "out_count ?i2 = out_count ?i"
        using ioc_link_in [OF A(1,3,2), of l] f(3) A(4,5) by auto
      have "unat (s_incoming st + 1) = unat (s_incoming st) + 1"
        using bound below_inc by (intro unat_inc) auto
      with L lt have "server_ok ?st" by (intro server_ok_set [OF ok t L(1) refl]) auto
      moreover have "AcceptConnection t accepted l attached st = Inr ?st"
      proof -
        have "attached \<Longrightarrow> set_ioc t ?i2 (st\<lparr>s_incoming := s_incoming st + 1\<rparr>) = ?st"
          by (rule server.equality) (simp_all add: set_ioc_def)
        moreover have "\<not> attached \<Longrightarrow>
            (set_ioc t ?i2 (st\<lparr>s_incoming := s_incoming st + 1\<rparr>))\<lparr>s_freed := s_freed st @ [l]\<rparr> = ?st"
          by (rule server.equality) (simp_all add: set_ioc_def)
        ultimately show ?thesis
          using True room_left t len al
          by (cases attached) (simp_all add: AcceptConnection_def AllocateIncoming_def Let_def)
      qed
      ultimately show ?thesis by blast
    qed
  qed
qed

lemma Release_ok:
  assumes ok: "server_ok st" and t: "t < s_slots st"
    and c: "i_linkages (s_io_context st ! t) c \<noteq> None"
  shows "\<exists>st'. ReleaseChannel c st = Inr st' \<and> server_ok st'"
proof -
  let ?i = "s_io_context st ! t" and ?n = "s_slots st"
  have dom: "c \<in> dom (i_linkages ?i)" using c by auto
  then have known: "c \<in> known ?i" by (simp add: known_def)
  have g: "GetIoContext c st = Inr (Some t)" using known_thread(2) [OF ok t known] .
  have len: "t < length (s_io_context st)" using ok t by (simp add: server_ok_def)
  note U = ioc_unlink [OF server_ok_ioc [OF ok t] dom]
  let ?i1 = "?i\<lparr>i_linkages := (i_linkages ?i)(c := None)\<rparr>"
  have in_le: "in_count ?i \<le> unat (s_incoming st)" and out_le: "out_count ?i \<le> unat (s_outgoing st)"
    using total_ge [OF len] ok by (auto simp: server_ok_def)
  have dec: "0 < unat x \<Longrightarrow> unat (x - 1) = unat x - 1" for x :: u64
    using unat_minus_one [of x] by (cases "x = 0") auto
  have adm: "s_incoming st = 0 \<or> s_incoming st < maximum_incoming_connections (s_configure st)"
    using ok by (simp add: server_ok_def)
  show ?thesis
  proof (cases "IsOutgoingChannel c")
    case False
    let ?st = "(set_ioc t ?i1 st)\<lparr>s_incoming := s_incoming st - 1, s_outgoing := s_outgoing st,
        s_freed := s_freed st\<rparr>"
    have "0 < unat (s_incoming st)" using U(7) False in_le by simp
    then have "unat (s_incoming st - 1) = unat (s_incoming st) - 1" by (rule dec)
    moreover have "s_incoming st - 1 \<le> s_incoming st"
      using calculation by (simp add: word_le_nat_alt)
    ultimately have "server_ok ?st"
      using U(1) [OF False] U(5-7) False adm in_le
      by (intro server_ok_set [OF ok t U(1) [OF False] refl]) auto
    moreover have "ReleaseChannel c st = Inr ?st"
    proof -
      have "(set_ioc t ?i1 st)\<lparr>s_incoming := s_incoming st - 1\<rparr> = ?st"
        by (rule server.equality) simp_all
      then show ?thesis using False g by (simp add: ReleaseChannel_def Let_def)
    qed
    ultimately show ?thesis by blast
  next
    case out: True
    have "0 < unat (s_outgoing st)" using U(7) out out_le by simp
    then have o1: "unat (s_outgoing st - 1) = unat (s_outgoing st) - 1" by (rule dec)
    show ?thesis
    proof (cases "i_outgoing ?i c")
      case (Some info)
      let ?st = "(set_ioc t ?i1 st)\<lparr>s_incoming := s_incoming st, s_outgoing := s_outgoing st - 1,
          s_freed := s_freed st\<rparr>"
      have "ioc_ok ?n t ?i1" using U(2) Some by simp
      then have "server_ok ?st"
        using U(5-7) out adm out_le o1 by (intro server_ok_set [OF ok t _ refl]) auto
      moreover have "(set_ioc t ?i1 st)\<lparr>s_outgoing := s_outgoing st - 1\<rparr> = ?st"
        by (rule server.equality) simp_all
      then have "ReleaseChannel c st = Inr ?st"
        using out g Some by (simp add: ReleaseChannel_def Let_def)
      ultimately show ?thesis by blast
    next
      case None
      obtain h where h: "i_connect ?i c = Some h" using U(3) [OF out] by auto
      let ?i2 = "?i1\<lparr>i_connect := (i_connect ?i1)(c := None)\<rparr>"
      let ?st = "(set_ioc t ?i2 st)\<lparr>s_incoming := s_incoming st, s_outgoing := s_outgoing st - 1,
          s_freed := s_freed st @ [h]\<rparr>"
      have "in_count ?i2 = in_count ?i1" "out_count ?i2 = out_count ?i1"
        by (simp_all add: in_count_def out_count_def)
      then have "server_ok ?st"
        using U(4) [OF None] U(5-7) out adm out_le o1
        by (intro server_ok_set [OF ok t U(4) [OF None] refl]) auto
      moreover have "(set_ioc t ?i2 ((set_ioc t ?i1 st)\<lparr>s_outgoing := s_outgoing st - 1\<rparr>))
          \<lparr>s_freed := s_freed st @ [h]\<rparr> = ?st"
        by (rule server.equality) (simp_all add: set_ioc_def)
      then have "ReleaseChannel c st = Inr ?st"
        using out g None h by (simp add: ReleaseChannel_def Let_def)
      ultimately show ?thesis by blast
    qed
  qed
qed

text \<open>Every thread can still issue a channel.\<close>

definition room :: "server \<Rightarrow> bool" where
  "room st \<longleftrightarrow> (\<forall>i \<in> set (s_io_context st). unat (i_channel i) + s_slots st < 2 ^ 63)"

lemma roomD: "server_ok st \<Longrightarrow> room st \<Longrightarrow> t < s_slots st \<Longrightarrow>
    unat (i_channel (s_io_context st ! t)) + s_slots st < 2 ^ 63"
  by (simp add: room_def server_ok_def)

lemma admitted: "server_ok st \<Longrightarrow>
    s_incoming st = 0 \<or> s_incoming st < maximum_incoming_connections (s_configure st)"
  by (simp add: server_ok_def)

lemma Connect_ok:
  assumes ok: "server_ok st" and rm: "room st" and h: "has_handler \<noteq> has_factory"
  shows "\<exists>c st' t. Connect has_handler has_factory thread_id pick h st = Inr (c, st') \<and>
    server_ok st' \<and> t < s_slots st \<and> GetThreadId c st = Inr t \<and> IsOutgoingChannel c \<and>
    (0 \<le> thread_id \<and> nat thread_id < s_slots st \<longrightarrow> t = nat thread_id) \<and>
    (\<forall>u < s_slots st. c \<notin> known (s_io_context st ! u)) \<and>
    i_connect (s_io_context st' ! t) c = Some h \<and>
    i_outgoing (s_io_context st' ! t) c = Some \<lparr>oi_handler = h, oi_thread = t\<rparr>"
proof -
  let ?n = "s_slots st"
  have len: "length (s_io_context st) = ?n" "length (s_io_workers st) = ?n" "0 < ?n"
    using ok by (auto simp: server_ok_def)
  define t where "t = (if thread_id < 0 \<or> ?n \<le> nat thread_id then pick mod ?n else nat thread_id)"
  have t: "t < ?n" using len by (auto simp: t_def)
  let ?i = "s_io_context st ! t"
  note i_ok = server_ok_ioc [OF ok t] and rm_t = roomD [OF ok rm t]
  obtain c i where al: "AllocateChannel ?n False ?i = (c, i)" by (metis prod.exhaust)
  note A = ioc_alloc [OF i_ok al rm_t len(3)] and f = AllocateChannel_facts [OF al rm_t]
  have out: "IsOutgoingChannel c" using f(3) by simp
  have none: "i_connect i c = None" "i_outgoing i c = None" using A(2) by (auto simp: known_def)
  let ?i2 = "i\<lparr>i_connect := (i_connect i)(c \<mapsto> h),
      i_outgoing := (i_outgoing i)(c \<mapsto> \<lparr>oi_handler = h, oi_thread = t\<rparr>)\<rparr>"
  let ?st = "set_ioc t ?i2 st"
  have st: "server_ok ?st"
  proof (rule server_ok_set [OF ok t ioc_connect [OF A(1,3,2) out, of h]])
    show "?st = (set_ioc t ?i2 st)\<lparr>s_incoming := s_incoming st, s_outgoing := s_outgoing st,
        s_freed := s_freed st\<rparr>"
      by (rule server.equality) simp_all
    show "unat (s_incoming st) + in_count ?i = unat (s_incoming st) + in_count ?i2"
      "unat (s_outgoing st) + out_count ?i = unat (s_outgoing st) + out_count ?i2"
      using A(4,5) by (simp_all add: in_count_def out_count_def)
  qed (rule admitted [OF ok])
  have run: "Connect has_handler has_factory thread_id pick h st = Inr (c, ?st)"
  proof -
    have "s_io_workers st \<noteq> []" using len by auto
    then show ?thesis
      using h t al len(1,2) none by (auto simp: Connect_def Let_def t_def [symmetric])
  qed
  have issued: "channel_number c mod ?n = t" using A(3) by (simp add: issued_def)
  then have tid: "GetThreadId c st = Inr t" using len(3) by (simp add: GetThreadId_eq)
  have fresh: "c \<notin> known (s_io_context st ! u)" if u: "u < ?n" for u
  proof
    assume k: "c \<in> known (s_io_context st ! u)"
    have "channel_number c mod ?n = u"
      using server_ok_ioc [OF ok u] k by (simp add: ioc_ok_def issued_def)
    then have "c \<in> known ?i" using issued k by simp
    moreover have "known i = known ?i" by (subst f(4)) (simp add: known_def)
    ultimately show False using A(2) by simp
  qed
  have "0 \<le> thread_id \<and> nat thread_id < ?n \<longrightarrow> t = nat thread_id" by (auto simp: t_def)
  moreover have "s_io_context ?st ! t = ?i2" using t len(1) by simp
  ultimately show ?thesis
    using run st t tid out fresh
    by (intro exI [where x = c] exI [where x = ?st] exI [where x = t]) simp
qed

lemma Reconnect_ok:
  assumes ok: "server_ok st" and t: "t < s_slots st"
    and out: "i_outgoing (s_io_context st ! t) c \<noteq> None" and link: "i_linkages (s_io_context st ! t) c = None"
    and few: "unat (s_outgoing st) + 1 < 2 ^ 64"
  shows "\<exists>r told st'. DoReconnect c ret attached l st = Inr (r, told, st') \<and> server_ok st' \<and>
    s_slots st' = s_slots st"
proof -
  let ?i = "s_io_context st ! t"
  have known: "c \<in> known ?i" using out by (auto simp: known_def)
  have g: "GetIoContext c st = Inr (Some t)" using known_thread(2) [OF ok t known] .
  show ?thesis
  proof (cases "ret < 0 \<or> \<not> attached")
    case True
    have "server_ok (st\<lparr>s_freed := x\<rparr>)" for x
      using ok by (simp add: server_ok_def total_def)
    with True g ok show ?thesis by (auto simp: DoReconnect_def)
  next
    case False
    note R = ioc_relink [OF server_ok_ioc [OF ok t] out link, of l]
    let ?i1 = "?i\<lparr>i_linkages := (i_linkages ?i)(c \<mapsto> l)\<rparr>"
    let ?st = "(set_ioc t ?i1 st)\<lparr>s_incoming := s_incoming st, s_outgoing := s_outgoing st + 1,
        s_freed := s_freed st\<rparr>"
    have "unat (s_outgoing st + 1) = unat (s_outgoing st) + 1"
      using few by (simp add: unat_word_ariths)
    then have "server_ok ?st"
      using R admitted [OF ok] by (intro server_ok_set [OF ok t R(1) refl]) auto
    moreover have "(set_ioc t ?i1 st)\<lparr>s_outgoing := s_outgoing st + 1\<rparr> = ?st"
      by (rule server.equality) simp_all
    then have "DoReconnect c ret attached l st =
        Inr (Some (l, outgoing_timeouts (s_configure st)), [], ?st)"
      using False g link by (simp add: DoReconnect_def Let_def)
    ultimately show ?thesis by simp
  qed
qed

lemma Send_ok:
  assumes ok: "server_ok st" and few: "unat (s_outgoing st) + 1 < 2 ^ 64"
  shows "\<exists>r st'. SendChannel c e here pick ret attached l st = Inr (r, st') \<and> server_ok st'"
proof (cases "c = 0")
  case True
  with ok show ?thesis
    by (simp add: SendChannel_def GetIoContext_def IsValidChannel_def kInvalidChannel_def)
next
  case False
  let ?t = "channel_number c mod s_slots st"
  note g = GetIoContext_ok [OF ok False]
  have len: "length (s_io_workers st) = s_slots st" using ok by (simp add: server_ok_def)
  show ?thesis
  proof (cases "i_linkages (s_io_context st ! ?t) c = None \<and> IsOutgoingChannel c \<and>
      i_outgoing (s_io_context st ! ?t) c \<noteq> None")
    case True
    then obtain info where info: "i_outgoing (s_io_context st ! ?t) c = Some info" by auto
    then have th: "oi_thread info = ?t"
      using server_ok_ioc [OF ok g(2)] unfolding ioc_ok_def by blast
    then have w: "GetIoWorker (int (oi_thread info)) pick st = Inr ?t"
      using g(2) len by (simp add: GetIoWorker_def Let_def)
    obtain r told st' where d: "DoReconnect c ret attached l st = Inr (r, told, st')" "server_ok st'"
      using Reconnect_ok [OF ok g(2) _ _ few] True by blast
    show ?thesis
    proof (cases r)
      case None
      with True info w d ok g show ?thesis by (simp add: SendChannel_def Let_def)
    next
      case (Some lt)
      obtain l' ts where "lt = (l', ts)" by (cases lt)
      with Some True info w d ok g show ?thesis by (simp add: SendChannel_def Let_def)
    qed
  next
    case False
    with ok g show ?thesis by (auto simp: SendChannel_def Let_def split: option.splits)
  qed
qed

lemma RealSend_ok:
  assumes ok: "server_ok st" and few: "unat (s_outgoing st) + 1 < 2 ^ 64"
  shows "\<exists>r st'. DoRealSend c e ret attached l st = Inr (r, st') \<and> server_ok st'"
proof (cases "c = 0")
  case True
  with ok show ?thesis
    by (simp add: DoRealSend_def GetIoContext_def IsValidChannel_def kInvalidChannel_def)
next
  case False
  let ?t = "channel_number c mod s_slots st"
  note g = GetIoContext_ok [OF ok False]
  show ?thesis
  proof (cases "i_linkages (s_io_context st ! ?t) c = None \<and> IsOutgoingChannel c \<and>
      i_outgoing (s_io_context st ! ?t) c \<noteq> None")
    case True
    then obtain r told st' where d: "DoReconnect c ret attached l st = Inr (r, told, st')" "server_ok st'"
      using Reconnect_ok [OF ok g(2) _ _ few] by blast
    show ?thesis
    proof (cases r)
      case None
      with True d ok g show ?thesis by (auto simp: DoRealSend_def Let_def)
    next
      case (Some lt)
      obtain l' ts where "lt = (l', ts)" by (cases lt)
      with Some True d ok g show ?thesis by (auto simp: DoRealSend_def Let_def)
    qed
  next
    case False
    with ok g show ?thesis by (auto simp: DoRealSend_def Let_def split: option.splits)
  qed
qed

lemma Forget_ok:
  assumes ok: "server_ok st"
  shows "\<exists>st'. Forget c st = Inr st' \<and> server_ok st'"
proof (cases "c = 0")
  case True
  with ok show ?thesis
    by (simp add: Forget_def GetIoContext_def IsValidChannel_def kInvalidChannel_def)
next
  case False
  let ?t = "channel_number c mod s_slots st"
  let ?i = "s_io_context st ! ?t"
  note g = GetIoContext_ok [OF ok False]
  note F = ioc_forget [OF server_ok_ioc [OF ok g(2)], of c]
  let ?i1 = "?i\<lparr>i_outgoing := (i_outgoing ?i)(c := None)\<rparr>"
  have keep: "server_ok (set_ioc ?t ?i1 st)" if "ioc_ok (s_slots st) ?t ?i1"
  proof (rule server_ok_set [OF ok g(2) that])
    show "set_ioc ?t ?i1 st = (set_ioc ?t ?i1 st)\<lparr>s_incoming := s_incoming st,
        s_outgoing := s_outgoing st, s_freed := s_freed st\<rparr>"
      by (rule server.equality) simp_all
  qed (use F(4,5) admitted [OF ok] in auto)
  show ?thesis
  proof (cases "i_linkages ?i c \<noteq> None \<or> i_connect ?i c = None")
    case True
    then have "ioc_ok (s_slots st) ?t ?i1" using F(1,2) by blast
    from keep [OF this] True g show ?thesis by (auto simp: Forget_def Let_def)
  next
    case drop: False
    then obtain h where h: "i_connect ?i c = Some h" by auto
    let ?i2 = "?i1\<lparr>i_connect := (i_connect ?i1)(c := None)\<rparr>"
    let ?st = "(set_ioc ?t ?i2 st)\<lparr>s_incoming := s_incoming st, s_outgoing := s_outgoing st,
        s_freed := s_freed st @ [h]\<rparr>"
    have "in_count ?i2 = in_count ?i1" "out_count ?i2 = out_count ?i1"
      by (simp_all add: in_count_def out_count_def)
    then have "server_ok ?st"
      using F(3-5) drop admitted [OF ok] by (intro server_ok_set [OF ok g(2) _ refl]) auto
    moreover have "(set_ioc ?t ?i2 (set_ioc ?t ?i1 st))\<lparr>s_freed := s_freed st @ [h]\<rparr> = ?st"
      by (rule server.equality) (simp_all add: set_ioc_def)
    then have "Forget c st = Inr ?st" using drop h g by (simp add: Forget_def Let_def)
    ultimately show ?thesis by blast
  qed
qed

end
