(* ===== verification/Easy_Server_Life.thy ===== *)
theory Easy_Server_Life
  imports Easy_Server_Correct
begin

text \<open>
  The life of a server: \<open>Initialize\<close> gives consistent tables, every operation the user, the listeners
  and the connections perform keeps them so, and the properties of the channels, of the counters
  and of the job queues follow in every state the server reaches.
\<close>

section \<open>Steps of a running server\<close>

text \<open>
  Each step runs under a mutex of the code, so a run is a sequence of steps. \<open>room\<close> bounds the
  channels issued so far by \<open>2^63\<close>, the range of the number in a channel.
\<close>

inductive server_step :: "server \<Rightarrow> server \<Rightarrow> bool" where
  accept: "t < s_slots st \<Longrightarrow> room st \<Longrightarrow> AcceptConnection t accepted l attached st = Inr st' \<Longrightarrow>
     server_step st st'"
| release: "t < s_slots st \<Longrightarrow> i_linkages (s_io_context st ! t) c \<noteq> None \<Longrightarrow>
     ReleaseChannel c st = Inr st' \<Longrightarrow> server_step st st'"
| connect: "room st \<Longrightarrow> Connect has_handler has_factory thread_id pick h st = Inr (c, st') \<Longrightarrow>
     server_step st st'"
| send: "unat (s_outgoing st) + 1 < 2 ^ 64 \<Longrightarrow>
     SendChannel c e here pick ret attached l st = Inr (r, st') \<Longrightarrow> server_step st st'"
| real_send: "unat (s_outgoing st) + 1 < 2 ^ 64 \<Longrightarrow>
     DoRealSend c e ret attached l st = Inr (r', st') \<Longrightarrow> server_step st st'"
| forget: "Forget c st = Inr st' \<Longrightarrow> server_step st st'"
| append_job: "DoAppendJob job hash st = Inr st' \<Longrightarrow> server_step st st'"
| get_job: "GetJob who st = Inr (Some (job, st')) \<Longrightarrow> server_step st st'"

lemma server_ok_jobs:
  "server_ok (st\<lparr>s_jobs := a\<rparr>) = server_ok st" "server_ok (st\<lparr>s_hashjobs := b\<rparr>) = server_ok st"
  by (simp_all add: server_ok_def total_def)

lemma DoAppendJob_cases:
  assumes "DoAppendJob job hash st = Inr st'"
  obtains "hash < 0" "st' = st\<lparr>s_jobs := s_jobs st @ [job]\<rparr>"
  | i where "0 \<le> hash" "i = nat hash mod length (s_hashjobs st)" "i < length (s_hashjobs st)"
      "st' = st\<lparr>s_hashjobs := (s_hashjobs st)[i := s_hashjobs st ! i @ [job]]\<rparr>"
  using assms by (auto simp: DoAppendJob_def Let_def split: if_splits)

lemma GetJob_cases:
  assumes "GetJob who st = Inr (Some (job, st'))"
  obtains q where "s_hashjobs st ! who = job # q" "st' = st\<lparr>s_hashjobs := (s_hashjobs st)[who := q]\<rparr>"
  | q where "s_hashjobs st ! who = []" "s_jobs st = job # q" "st' = st\<lparr>s_jobs := q\<rparr>"
  using assms by (auto simp: GetJob_def split: if_splits list.splits)

interpretation server_life: step_invariant server_step server_ok
proof
  fix st st' :: server
  assume "server_step st st'" and ok: "server_ok st"
  then show "server_ok st'"
  proof (induction rule: server_step.induct)
    case (accept t st accepted l attached st')
    obtain s2 where "AcceptConnection t accepted l attached st = Inr s2" "server_ok s2"
      using Accept_ok [OF accept(4,1) roomD [OF accept(4,2,1)]] by blast
    with accept(3) show ?case by simp
  next
    case (release t st c st')
    obtain s2 where "ReleaseChannel c st = Inr s2" "server_ok s2"
      using Release_ok [OF release(4,1,2)] by blast
    with release(3) show ?case by simp
  next
    case (connect st has_handler has_factory thread_id pick h c st')
    show ?case
    proof (cases "has_handler = has_factory")
      case True
      with connect show ?thesis by (simp add: Connect_def)
    next
      case False
      obtain c2 s2 where "Connect has_handler has_factory thread_id pick h st = Inr (c2, s2)" "server_ok s2"
        using Connect_ok [OF connect(3,1) False] by blast
      with connect(2) show ?thesis by simp
    qed
  next
    case (send st c e here pick ret attached l r st')
    obtain r2 s2 where "SendChannel c e here pick ret attached l st = Inr (r2, s2)" "server_ok s2"
      using Send_ok [OF send(3,1)] by blast
    with send(2) show ?case by simp
  next
    case (real_send st c e ret attached l r' st')
    obtain r2 s2 where "DoRealSend c e ret attached l st = Inr (r2, s2)" "server_ok s2"
      using RealSend_ok [OF real_send(3,1)] by blast
    with real_send(2) show ?case by simp
  next
    case (forget c st st')
    obtain s2 where "Forget c st = Inr s2" "server_ok s2"
      using Forget_ok [OF forget(2)] by blast
    with forget(1) show ?case by simp
  next
    case (append_job job hash st st')
    show ?case by (rule DoAppendJob_cases [OF append_job(1)]) (use append_job(2) server_ok_jobs in auto)
  next
    case (get_job who st job st')
    show ?case by (rule GetJob_cases [OF get_job(1)]) (use get_job(2) server_ok_jobs in auto)
  qed
qed

section \<open>Starting\<close>

definition idle :: "server \<Rightarrow> bool" where
  "idle st \<longleftrightarrow> s_io_workers st = [] \<and> s_io_context st = [] \<and> s_incoming st = 0 \<and> s_outgoing st = 0"

lemma start_io_spec:
  "start_io lok i as st = (ok, st') \<Longrightarrow>
    s_io_context st' = s_io_context st \<and> s_slots st' = s_slots st \<and> s_workers st' = s_workers st \<and>
    s_incoming st' = s_incoming st \<and> s_outgoing st' = s_outgoing st \<and> s_hashjobs st' = s_hashjobs st \<and>
    s_timers st' = s_timers st \<and> (ok \<longrightarrow> s_io_workers st' = s_io_workers st @ as)"
proof (induction as arbitrary: i st)
  case Nil
  then show ?case by simp
next
  case (Cons a as)
  let ?st1 = "st\<lparr>s_io_workers := s_io_workers st @ [a]\<rparr>"
  show ?case
  proof (cases "lok i")
    case True
    with Cons.prems have "start_io lok (Suc i) as ?st1 = (ok, st')" by (simp add: Let_def)
    from Cons.IH [OF this] show ?thesis by simp
  next
    case False
    with Cons.prems have "ok = False \<and> st' = ?st1" by (simp add: Let_def)
    then show ?thesis by simp
  qed
qed

lemma start_timers_spec:
  "start_timers tok ts st = (ok, st') \<Longrightarrow>
    s_io_context st' = s_io_context st \<and> s_slots st' = s_slots st \<and> s_workers st' = s_workers st \<and>
    s_incoming st' = s_incoming st \<and> s_outgoing st' = s_outgoing st \<and> s_hashjobs st' = s_hashjobs st \<and>
    s_io_workers st' = s_io_workers st \<and> (ok \<longrightarrow> s_timers st' = [])"
  by (induction tok ts st arbitrary: ok st' rule: start_timers.induct) (auto split: if_splits)

lemma fail_start_False: "fail_start st \<noteq> Inr (True, st')"
  by (auto simp: fail_start_def split: sum.splits)

lemma Initialize_True:
  assumes "Initialize slots workers pok lok tok aok st = Inr (True, st')"
  obtains as aw where "slots = Some as" "workers = Some aw" "as \<noteq> []" "length as \<le> kMaximumSlots"
    "s_slots st' = length as" "s_io_workers st' = s_io_workers st @ as" "s_workers st' = length aw"
    "s_io_context st' = s_io_context st @ map new_io_context [0..<length as]"
    "s_incoming st' = s_incoming st" "s_outgoing st' = s_outgoing st"
    "s_hashjobs st' = take (length aw) (s_hashjobs st @ replicate (length aw) [])"
    "s_timers st' = []"
proof -
  obtain as aw where so: "slots = Some as" "workers = Some aw"
    using assms by (auto simp: Initialize_def split: option.splits)
  let ?st1 = "st\<lparr>s_workers := length aw, s_slots := length as\<rparr>"
  obtain ok st2 where io: "start_io lok 0 as ?st1 = (ok, st2)" by fastforce
  obtain ok2 st3 where ti: "start_timers tok (s_timers st2) st2 = (ok2, st3)" by fastforce
  have g: "as \<noteq> []" "length as \<le> kMaximumSlots" ok ok2
    and st': "st' = st3\<lparr>s_io_context := s_io_context st3 @ map new_io_context [0..<length as],
        s_job_workers := s_job_workers st3 @ aw,
        s_hashjobs := take (length aw) (s_hashjobs st3 @ replicate (length aw) [])\<rparr>"
    using assms so io ti
    by (auto simp: Initialize_def Let_def fail_start_False split: if_splits)
  show thesis
    using that [OF so g(1,2)] start_io_spec [OF io] start_timers_spec [OF ti] g(3,4)
    by (simp add: st')
qed

lemma Initialize_ok:
  assumes i: "Initialize slots workers pok lok tok aok st = Inr (True, st')" and "idle st"
  shows "server_ok st'"
  using i
proof (rule Initialize_True)
  fix as aw
  assume f: "as \<noteq> []" "length as \<le> kMaximumSlots" "s_slots st' = length as"
    "s_io_workers st' = s_io_workers st @ as"
    "s_io_context st' = s_io_context st @ map new_io_context [0..<length as]"
    "s_incoming st' = s_incoming st" "s_outgoing st' = s_outgoing st"
  have "total g st' = 0" if "\<And>t. g (new_io_context t) = 0" for g
    using f \<open>idle st\<close> that by (simp add: total_def idle_def sum_list_eq_0_iff o_def)
  with f \<open>idle st\<close> show ?thesis
    by (simp add: server_ok_def idle_def counts_new ioc_ok_new kMaximumSlots_def)
qed

section \<open>Channels and counters\<close>

definition started :: "server \<Rightarrow> bool" where
  "started st \<longleftrightarrow> (\<exists>slots workers pok lok tok aok s0. idle s0 \<and>
     Initialize slots workers pok lok tok aok s0 = Inr (True, st))"

lemma started_ok: "started s0 \<Longrightarrow> server_step\<^sup>*\<^sup>* s0 st \<Longrightarrow> server_ok st"
  using server_life.steps_keep Initialize_ok by (auto simp: started_def)

text \<open>A small server that has been started: two I/O threads, no job worker.\<close>

definition demo_server :: server where
  "demo_server = new_server\<lparr>s_slots := 2, s_io_workers := [[], []],
     s_io_context := [new_io_context 0, new_io_context 1]\<rparr>"

lemma demo_started: "started demo_server"
proof -
  have "Initialize (Some [[], []]) (Some []) True (\<lambda>_. True) (\<lambda>_. True) (\<lambda>_. True) new_server
      = Inr (True, demo_server)"
    by (simp add: Initialize_def new_server_def demo_server_def kMaximumSlots_def kMaximumWorkers_def)
  moreover have "idle new_server" by (simp add: idle_def new_server_def)
  ultimately show ?thesis unfolding started_def by blast
qed

text \<open>The server of the examples with one connection accepted by thread 1.\<close>

definition demo_accepted :: server where
  "demo_accepted = set_ioc 1 \<lparr>i_thread = 1, i_channel = 3, i_outgoing = (\<lambda>_. None),
     i_connect = (\<lambda>_. None), i_linkages = [3 \<mapsto> 70]\<rparr> (demo_server\<lparr>s_incoming := 1\<rparr>)"

lemma demo_room: "room demo_server"
  by (simp add: room_def demo_server_def new_server_def new_io_context_def)

lemma demo_accept: "AcceptConnection 1 True 70 True demo_server = Inr demo_accepted"
  by (simp add: AcceptConnection_def AllocateIncoming_def AllocateChannel_def demo_server_def
      demo_accepted_def new_server_def new_io_context_def set_ioc_def kDefaultConfigure_def Let_def word_le_nat_alt)

lemma demo_run: "server_step\<^sup>*\<^sup>* demo_server demo_accepted"
proof -
  have "1 < s_slots demo_server" by (simp add: demo_server_def)
  from server_step.accept [OF this demo_room demo_accept] show ?thesis by blast
qed

lemma demo_link: "1 < s_slots demo_accepted" "i_linkages (s_io_context demo_accepted ! 1) 3 = Some 70"
  by (simp_all add: demo_accepted_def demo_server_def new_server_def)

text \<open>
  C5. In every state a started server reaches, a registered channel leads to the thread that holds
  its connection, and releasing it succeeds: the assertion in \<open>ReleaseChannel\<close> never fails. Its
  connection is gone from the table afterwards, and its counter is one less.
\<close>

theorem release_always_succeeds:
  assumes "started s0" and "server_step\<^sup>*\<^sup>* s0 st" and "t < s_slots st"
    and "i_linkages (s_io_context st ! t) c \<noteq> None"
  shows "GetThreadId c st = Inr t \<and>
    (\<exists>st'. ReleaseChannel c st = Inr st' \<and> i_linkages (s_io_context st' ! t) c = None \<and>
      (if IsOutgoingChannel c
       then s_outgoing st' = s_outgoing st - 1 \<and> 0 < s_outgoing st
       else s_incoming st' = s_incoming st - 1 \<and> 0 < s_incoming st))"
proof -
  have ok: "server_ok st" by (rule started_ok [OF assms(1,2)])
  have k: "c \<in> known (s_io_context st ! t)" using assms(4) by (auto simp: known_def)
  have g: "GetIoContext c st = Inr (Some t)" by (rule known_thread(2) [OF ok assms(3) k])
  then have th: "GetThreadId c st = Inr t"
    by (auto simp: GetIoContext_def split: if_splits sum.splits)
  have len: "t < length (s_io_context st)" using ok assms(3) by (simp add: server_ok_def)
  have dom: "c \<in> dom (i_linkages (s_io_context st ! t))" using assms(4) by auto
  note U = ioc_unlink(7) [OF server_ok_ioc [OF ok assms(3)] dom]
  have pos: "if IsOutgoingChannel c then 0 < s_outgoing st else 0 < s_incoming st"
    using U ok total_ge [OF len, of in_count] total_ge [OF len, of out_count]
    by (auto simp: server_ok_def word_neq_0_conv [symmetric] simp flip: unat_eq_0 split: if_splits)
  obtain st' where st': "ReleaseChannel c st = Inr st'" using Release_ok [OF ok assms(3,4)] by blast
  then have "i_linkages (s_io_context st' ! t) c = None \<and>
      (if IsOutgoingChannel c then s_outgoing st' = s_outgoing st - 1 else s_incoming st' = s_incoming st - 1)"
    using g len by (auto simp: ReleaseChannel_def Let_def set_ioc_def split: if_splits option.splits)
  with th st' pos show ?thesis by (auto split: if_splits)
qed

lemma release_always_succeeds_witness:
  "GetThreadId 3 demo_accepted = Inr 1 \<and> (\<exists>st'. ReleaseChannel 3 demo_accepted = Inr st')"
  using release_always_succeeds [OF demo_started demo_run demo_link(1), of 3] demo_link(2) by auto



text \<open>
  \<open>Connect\<close> with exactly one of handler and factory always gives a valid outgoing channel no
  thread knows yet, on the requested thread when there is one; its description and its handler are
  registered there.
\<close>

theorem connect_gives_fresh_channel:
  assumes "started s0" and "server_step\<^sup>*\<^sup>* s0 st" and "room st" and "has_handler \<noteq> has_factory"
  shows "\<exists>c st' t. Connect has_handler has_factory thread_id pick h st = Inr (c, st') \<and>
    t < s_slots st \<and> GetThreadId c st = Inr t \<and> IsOutgoingChannel c \<and> IsValidChannel c \<and>
    (0 \<le> thread_id \<and> nat thread_id < s_slots st \<longrightarrow> t = nat thread_id) \<and>
    (\<forall>i \<in> set (s_io_context st). i_linkages i c = None \<and> i_connect i c = None \<and> i_outgoing i c = None) \<and>
    i_connect (s_io_context st' ! t) c = Some h \<and>
    i_outgoing (s_io_context st' ! t) c = Some \<lparr>oi_handler = h, oi_thread = t\<rparr>"
proof -
  have ok: "server_ok st" by (rule started_ok [OF assms(1,2)])
  obtain c st' t where C: "Connect has_handler has_factory thread_id pick h st = Inr (c, st')"
    "t < s_slots st" "GetThreadId c st = Inr t" "IsOutgoingChannel c"
    "0 \<le> thread_id \<and> nat thread_id < s_slots st \<longrightarrow> t = nat thread_id"
    "\<forall>u < s_slots st. c \<notin> known (s_io_context st ! u)"
    and tabs: "i_connect (s_io_context st' ! t) c = Some h"
    "i_outgoing (s_io_context st' ! t) c = Some \<lparr>oi_handler = h, oi_thread = t\<rparr>"
    using Connect_ok [OF ok assms(3,4)] by metis
  have "IsValidChannel c" using C(4) by (auto simp: IsValidChannel_def kInvalidChannel_def IsOutgoingChannel_def)
  moreover have "i_linkages i c = None \<and> i_connect i c = None \<and> i_outgoing i c = None"
    if "i \<in> set (s_io_context st)" for i
    using that C(6) ok by (auto simp: in_set_conv_nth server_ok_def known_def)
  ultimately show ?thesis using C tabs by blast
qed

lemma connect_gives_fresh_channel_witness:
  "\<exists>c st' t. Connect True False 1 0 70 demo_server = Inr (c, st') \<and> GetThreadId c demo_server = Inr t \<and> t = 1"
proof -
  have "s_slots demo_server = 2" by (simp add: demo_server_def)
  then show ?thesis
    using connect_gives_fresh_channel [OF demo_started rtranclp.rtrancl_refl demo_room, of True False 1 0 70]
    by auto
qed

section \<open>Jobs\<close>

fun append_jobs :: "addr list \<Rightarrow> int \<Rightarrow> server \<Rightarrow> server srv" where
  "append_jobs [] hash st = Inr st"
| "append_jobs (j # js) hash st =
    (case DoAppendJob j hash st of Inl e \<Rightarrow> Inl e | Inr st1 \<Rightarrow> append_jobs js hash st1)"

fun take_jobs :: "nat \<Rightarrow> nat \<Rightarrow> server \<Rightarrow> (addr list \<times> server) srv" where
  "take_jobs who 0 st = Inr ([], st)"
| "take_jobs who (Suc n) st =
    (case GetJob who st of
       Inl e \<Rightarrow> Inl e
     | Inr None \<Rightarrow> Inr ([], st)
     | Inr (Some (j, st1)) \<Rightarrow>
         (case take_jobs who n st1 of Inl e \<Rightarrow> Inl e | Inr (js, st2) \<Rightarrow> Inr (j # js, st2)))"

lemma append_jobs_hash:
  assumes "0 \<le> hash" and "s_hashjobs st \<noteq> []"
  shows "append_jobs js hash st = Inr (st\<lparr>s_hashjobs := (s_hashjobs st)
    [nat hash mod length (s_hashjobs st) :=
       s_hashjobs st ! (nat hash mod length (s_hashjobs st)) @ js]\<rparr>)"
  using assms(2)
proof (induction js arbitrary: st)
  case Nil
  have "nat hash mod length (s_hashjobs st) < length (s_hashjobs st)" using Nil by simp
  then show ?case by (simp add: list_update_id)
next
  case (Cons j js)
  let ?w = "nat hash mod length (s_hashjobs st)"
  let ?st1 = "st\<lparr>s_hashjobs := (s_hashjobs st)[?w := s_hashjobs st ! ?w @ [j]]\<rparr>"
  have w: "?w < length (s_hashjobs st)" using Cons.prems by simp
  have "DoAppendJob j hash st = Inr ?st1" using assms(1) Cons.prems by (simp add: DoAppendJob_def Let_def)
  moreover have "s_hashjobs ?st1 \<noteq> []" using Cons.prems by simp
  ultimately show ?case using Cons.IH [of ?st1] w by simp
qed

lemma take_jobs_hash:
  assumes "who < length (s_hashjobs st)" and "s_hashjobs st ! who = js @ r"
  shows "take_jobs who (length js) st = Inr (js, st\<lparr>s_hashjobs := (s_hashjobs st)[who := r]\<rparr>)"
  using assms
proof (induction js arbitrary: st)
  case Nil
  then have "(s_hashjobs st)[who := r] = s_hashjobs st" by (metis append_Nil list_update_id)
  then show ?case by simp
next
  case (Cons j js)
  let ?st1 = "st\<lparr>s_hashjobs := (s_hashjobs st)[who := js @ r]\<rparr>"
  have "GetJob who st = Inr (Some (j, ?st1))" using Cons.prems by (simp add: GetJob_def)
  moreover have "take_jobs who (length js) ?st1 = Inr (js, ?st1\<lparr>s_hashjobs := (s_hashjobs ?st1)[who := r]\<rparr>)"
    using Cons.prems by (intro Cons.IH) simp_all
  ultimately show ?case by simp
qed

text \<open>
  Jobs with a hash go to one worker, the hash modulo the number of workers, in the order they
  were queued, after the jobs that worker already had and before any job without a hash. The queues of
  the other workers do not change.
\<close>

theorem hashed_jobs_in_order:
  assumes "0 \<le> hash" and "s_hashjobs st \<noteq> []"
  shows "\<exists>st1 st2. append_jobs js hash st = Inr st1 \<and>
    take_jobs (nat hash mod length (s_hashjobs st))
      (length (s_hashjobs st ! (nat hash mod length (s_hashjobs st)) @ js)) st1 =
      Inr (s_hashjobs st ! (nat hash mod length (s_hashjobs st)) @ js, st2) \<and>
    s_jobs st2 = s_jobs st \<and> s_hashjobs st2 ! (nat hash mod length (s_hashjobs st)) = [] \<and>
    (\<forall>w. w \<noteq> nat hash mod length (s_hashjobs st) \<longrightarrow> s_hashjobs st2 ! w = s_hashjobs st ! w)"
proof -
  let ?w = "nat hash mod length (s_hashjobs st)"
  have w: "?w < length (s_hashjobs st)" using assms(2) by simp
  let ?st1 = "st\<lparr>s_hashjobs := (s_hashjobs st)[?w := s_hashjobs st ! ?w @ js]\<rparr>"
  have "append_jobs js hash st = Inr ?st1" by (rule append_jobs_hash [OF assms])
  moreover have "take_jobs ?w (length (s_hashjobs st ! ?w @ js)) ?st1 =
      Inr (s_hashjobs st ! ?w @ js, ?st1\<lparr>s_hashjobs := (s_hashjobs ?st1)[?w := []]\<rparr>)"
    using w by (intro take_jobs_hash) simp_all
  ultimately show ?thesis using w by (intro exI conjI) (assumption, assumption, simp_all)
qed

lemma hashed_jobs_in_order_witness:
  "\<exists>st1 st2. append_jobs [7, 8] 5 (new_server\<lparr>s_jobs := [3], s_hashjobs := [[], [4], []]\<rparr>) = Inr st1 \<and>
    take_jobs 2 2 st1 = Inr ([7, 8], st2)"
  using hashed_jobs_in_order [of 5 "new_server\<lparr>s_jobs := [3], s_hashjobs := [[], [4], []]\<rparr>" "[7, 8]"]
  by (simp add: numeral_2_eq_2) blast

text \<open>Every step keeps one queue per job worker.\<close>

definition queues_ok :: "server \<Rightarrow> bool" where
  "queues_ok st \<longleftrightarrow> length (s_hashjobs st) = s_workers st"

definition same_jobs :: "server \<Rightarrow> server \<Rightarrow> bool" where
  "same_jobs st st' \<longleftrightarrow> s_hashjobs st' = s_hashjobs st \<and> s_workers st' = s_workers st"

lemma same_jobs_refl [simp]: "same_jobs st st"
  by (simp add: same_jobs_def)

lemma same_jobs_ops:
  "AllocateIncoming t accepted l st = Inr (r1, st') \<Longrightarrow> same_jobs st st'"
  "ReleaseChannel c st = Inr st' \<Longrightarrow> same_jobs st st'"
  "Connect hh hf ti pick h st = Inr (c', st') \<Longrightarrow> same_jobs st st'"
  "DoReconnect c ret attached l st = Inr (r2, told, st') \<Longrightarrow> same_jobs st st'"
  "Forget c st = Inr st' \<Longrightarrow> same_jobs st st'"
proof -
  show "same_jobs st st'" if "AllocateIncoming t accepted l st = Inr (r1, st')"
    using that by (auto simp: AllocateIncoming_def Let_def same_jobs_def split: if_splits prod.splits)
  show "same_jobs st st'" if "ReleaseChannel c st = Inr st'"
    using that by (auto simp: ReleaseChannel_def Let_def same_jobs_def
        split: if_splits sum.splits option.splits)
  show "same_jobs st st'" if "Connect hh hf ti pick h st = Inr (c', st')"
    using that by (auto simp: Connect_def Let_def same_jobs_def split: if_splits prod.splits)
  show "same_jobs st st'" if "DoReconnect c ret attached l st = Inr (r2, told, st')"
    using that by (auto simp: DoReconnect_def Let_def same_jobs_def split: if_splits sum.splits option.splits)
  show "same_jobs st st'" if "Forget c st = Inr st'"
    using that by (auto simp: Forget_def Let_def same_jobs_def split: if_splits sum.splits option.splits)
qed

lemma same_jobs_accept: "AcceptConnection t accepted l attached st = Inr st' \<Longrightarrow> same_jobs st st'"
  by (auto simp: AcceptConnection_def split: sum.splits option.splits if_splits
      dest!: same_jobs_ops(1)) (simp_all add: same_jobs_def)

lemma same_jobs_send: "SendChannel c e here pick ret attached l st = Inr (r, st') \<Longrightarrow> same_jobs st st'"
  by (auto simp: SendChannel_def Let_def split: sum.splits option.splits if_splits prod.splits
      dest!: same_jobs_ops(4))

lemma same_jobs_real_send: "DoRealSend c e ret attached l st = Inr (r, st') \<Longrightarrow> same_jobs st st'"
  by (auto simp: DoRealSend_def Let_def split: sum.splits option.splits if_splits prod.splits
      dest!: same_jobs_ops(4))

lemma queues_ok_append: "DoAppendJob job hash st = Inr st' \<Longrightarrow> queues_ok st \<Longrightarrow> queues_ok st'"
  by (erule DoAppendJob_cases) (simp_all add: queues_ok_def)

interpretation job_queues: step_invariant server_step queues_ok
proof
  fix st st' :: server
  assume "server_step st st'" and "queues_ok st"
  moreover have "queues_ok st'" if "same_jobs st st'" "queues_ok st"
    using that by (simp add: same_jobs_def queues_ok_def)
  ultimately show "queues_ok st'"
  proof (cases rule: server_step.cases)
    case (append_job job hash)
    then show ?thesis using queues_ok_append \<open>queues_ok st\<close> by blast
  next
    case (get_job who job)
    show ?thesis
      by (rule GetJob_cases [OF get_job]) (use \<open>queues_ok st\<close> in \<open>simp_all add: queues_ok_def\<close>)
  qed (blast dest: same_jobs_ops same_jobs_accept same_jobs_send same_jobs_real_send)+
qed

lemma started_queues:
  assumes "started s0" and "server_step\<^sup>*\<^sup>* s0 st"
  shows "queues_ok st"
proof (rule job_queues.steps_keep [OF assms(2)])
  show "queues_ok s0"
    using assms(1) unfolding started_def queues_ok_def by (auto elim!: Initialize_True)
qed

lemma append_quits_spec:
  assumes "queues_ok st" and "n \<le> s_workers st"
    and "s_hashjobs st = replicate i [0] @ replicate n []"
  shows "append_quits [i..<i + n] st = Inr (st\<lparr>s_hashjobs := replicate (i + n) [0]\<rparr>)"
  using assms
proof (induction n arbitrary: i st)
  case 0
  then have "st\<lparr>s_hashjobs := replicate i [0]\<rparr> = st" by (intro server.equality) simp_all
  then show ?case by simp
next
  case (Suc n)
  let ?st1 = "st\<lparr>s_hashjobs := replicate (Suc i) [0] @ replicate n []\<rparr>"
  have len: "length (s_hashjobs st) = i + Suc n" using Suc.prems(3) by simp
  have "(replicate i [0] @ replicate (Suc n) [])[i := [0 :: addr]] = replicate (Suc i) [0] @ replicate n []"
    by (simp add: list_update_append replicate_app_Cons_same)
  moreover have "s_hashjobs st ! i = []" using Suc.prems(3) by (simp add: nth_append)
  ultimately have "DoAppendJob 0 (int i) st = Inr ?st1"
    using Suc.prems(3) len by (simp add: DoAppendJob_def Let_def)
  moreover have "append_quits [Suc i..<Suc i + n] ?st1 = Inr (?st1\<lparr>s_hashjobs := replicate (Suc i + n) [0]\<rparr>)"
    using Suc.prems len by (intro Suc.IH) (simp_all add: queues_ok_def)
  moreover have "[i..<i + Suc n] = i # [Suc i..<Suc i + n]" by (simp add: upt_conv_Cons)
  ultimately show ?case by simp
qed

text \<open>
  Shutting down in any reachable state frees every job that is still queued, once, and leaves
  exactly the quit mark for each job worker: whatever it was doing, the next job each worker gets is
  \<open>NULL\<close>, which ends it.
\<close>

theorem shutdown_stops_every_worker:
  assumes "started s0" and "server_step\<^sup>*\<^sup>* s0 st"
  shows "\<exists>st'. StopThreads st = Inr st' \<and>
    s_freed st' = s_freed st @ s_jobs st @ concat (s_hashjobs st) \<and>
    (\<forall>w < s_workers st. \<exists>st''. GetJob w st' = Inr (Some (0, st'')) \<and> GetJob w st'' = Inr None)"
proof -
  have q: "queues_ok st" by (rule started_queues [OF assms])
  let ?n = "s_workers st" and ?st = "DoDumpJobs st"
  let ?st' = "?st\<lparr>s_hashjobs := replicate ?n [0]\<rparr>"
  have "s_hashjobs ?st = replicate ?n []"
    using q by (simp add: DoDumpJobs_def queues_ok_def map_replicate_const)
  then have "append_quits [0..<0 + ?n] ?st = Inr (?st\<lparr>s_hashjobs := replicate (0 + ?n) [0]\<rparr>)"
    using q by (intro append_quits_spec) (simp_all add: queues_ok_def DoDumpJobs_def)
  then have "StopThreads st = Inr ?st'" by (simp add: StopThreads_def)
  moreover have "\<exists>st''. GetJob w ?st' = Inr (Some (0, st'')) \<and> GetJob w st'' = Inr None" if "w < ?n" for w
    using that by (simp add: GetJob_def DoDumpJobs_def)
  ultimately show ?thesis by (simp add: DoDumpJobs_def)
qed

text \<open>A started server with two job workers and work in its queues.\<close>

definition demo_workers :: server where
  "demo_workers = new_server\<lparr>s_slots := 1, s_workers := 2, s_io_workers := [[]],
     s_job_workers := [[], []], s_io_context := [new_io_context 0], s_hashjobs := [[], []]\<rparr>"

lemma demo_workers_started: "started demo_workers"
proof -
  have "Initialize (Some [[]]) (Some [[], []]) True (\<lambda>_. True) (\<lambda>_. True) (\<lambda>_. True) new_server
      = Inr (True, demo_workers)"
    by (simp add: Initialize_def new_server_def demo_workers_def kMaximumSlots_def
        kMaximumWorkers_def numeral_2_eq_2)
  moreover have "idle new_server" by (simp add: idle_def new_server_def)
  ultimately show ?thesis unfolding started_def by blast
qed

lemma shutdown_stops_every_worker_witness:
  "\<exists>st'. StopThreads (demo_workers\<lparr>s_hashjobs := [[], [5]]\<rparr>) = Inr st' \<and> s_freed st' = [5]"
proof -
  have "DoAppendJob 5 1 demo_workers = Inr (demo_workers\<lparr>s_hashjobs := [[], [5]]\<rparr>)"
    by (simp add: DoAppendJob_def demo_workers_def new_server_def)
  then have "server_step\<^sup>*\<^sup>* demo_workers (demo_workers\<lparr>s_hashjobs := [[], [5]]\<rparr>)"
    using server_step.append_job by blast
  from shutdown_stops_every_worker [OF demo_workers_started this] show ?thesis
    by (auto simp: demo_workers_def new_server_def)
qed

section \<open>Failures\<close>

text \<open>
  A first \<open>Initialize\<close> with job workers whose listeners cannot be attached does not return false:
  \<open>DoShutdown\<close> appends a quit job for every worker to the queues that do not exist yet, where the
  index is taken modulo zero.
\<close>

theorem failed_start_aborts:
  assumes "as \<noteq> []" and "length as \<le> kMaximumSlots" and "aw \<noteq> []" and "length aw \<le> kMaximumWorkers"
    and "s_hashjobs st = []" and "\<not> listeners_ok 0"
  shows "Initialize (Some as) (Some aw) True listeners_ok timer_ok append_ok st = Inl Undefined"
proof -
  obtain a as' where as: "as = a # as'" using assms(1) by (cases as) auto
  have quits: "append_quits [0..<length aw] s = Inl Undefined" if "s_hashjobs s = []" for s
    using that assms(3) by (simp add: upt_conv_Cons DoAppendJob_def)
  then have "fail_start s = Inl Undefined" if "s_hashjobs s = []" "s_workers s = length aw" for s
    using that by (simp add: fail_start_def DoShutdown_def StopThreads_def DoDumpJobs_def)
  then show ?thesis
    using assms by (simp add: Initialize_def as Let_def)
qed

lemma failed_start_aborts_witness:
  "Initialize (Some [[]]) (Some [[]]) True (\<lambda>_. False) (\<lambda>_. True) (\<lambda>_. True) new_server = Inl Undefined"
  by (rule failed_start_aborts) (simp_all add: kMaximumSlots_def kMaximumWorkers_def new_server_def)

text \<open>
  A connection that is accepted but cannot be attached is deleted and stays registered: its
  channel still names the freed object, and the number of incoming connections is not given back.
\<close>

theorem refused_connection_stays:
  assumes "started s0" and "server_step\<^sup>*\<^sup>* s0 st" and "t < s_slots st"
    and "s_incoming st + 1 < maximum_incoming_connections (s_configure st)"
  shows "\<exists>c st'. AcceptConnection t True l False st = Inr st' \<and>
    i_linkages (s_io_context st' ! t) c = Some l \<and> l \<in> set (s_freed st') \<and>
    s_incoming st' = s_incoming st + 1"
proof -
  have "t < length (s_io_context st)"
    using started_ok [OF assms(1,2)] assms(3) by (simp add: server_ok_def)
  moreover obtain c i where "AllocateChannel (s_slots st) True (s_io_context st ! t) = (c, i)"
    by (metis prod.exhaust)
  ultimately show ?thesis
    using assms(4)
    by (intro exI [where x = c]) (simp add: AcceptConnection_def AllocateIncoming_def Let_def
        set_ioc_def not_le [symmetric])
qed

lemma refused_connection_stays_witness:
  "\<exists>c st'. AcceptConnection 1 True 70 False demo_server = Inr st' \<and>
    i_linkages (s_io_context st' ! 1) c = Some 70 \<and> 70 \<in> set (s_freed st')"
proof -
  have "1 < s_slots demo_server"
    "s_incoming demo_server + 1 < maximum_incoming_connections (s_configure demo_server)"
    by (simp_all add: demo_server_def new_server_def kDefaultConfigure_def word_less_nat_alt)
  from refused_connection_stays [OF demo_started rtranclp.rtrancl_refl this] show ?thesis by blast
qed

end
