(* ===== verification/Object_Map.thy ===== *)
theory Object_Map
  imports Flinter_Prelude "HOL-Library.Multiset"
begin

text \<open>
  \<open>flinter/object_map.h\<close>: a map of reference counted objects. An object erased while it is in use
  moves to \<open>_drop\<close> and is destroyed when its last user releases it. Objects are addresses, 0 is
  \<open>NULL\<close>; \<open>Create\<close> is a pure virtual method, so the operations that call it take its result as an
  argument. \<open>om_created\<close> and \<open>om_destroyed\<close> record the calls of \<open>Create\<close> that gave an object and
  those of \<open>Destroy\<close>; no operation reads them. Counters are 64-bit words. Every operation holds the
  mutex from its first to its last line, so operations are atomic; the wait at the end of
  \<open>EraseAll\<close> is the condition \<open>om_drained\<close>.
\<close>

section \<open>State and operations\<close>

type_synonym obj = nat

record 'k omap =
  om_map :: "('k, obj \<times> u64) smap"
  om_drop :: "('k \<times> obj \<times> u64) list"
  om_ptr :: "'k option"
  om_created :: "obj list"
  om_destroyed :: "obj list"

definition new_omap :: "'k omap" where
  "new_omap = \<lparr>om_map = [], om_drop = [], om_ptr = None, om_created = [], om_destroyed = []\<rparr>"

definition om_size :: "'k omap \<Rightarrow> nat" where
  "om_size st = length (om_map st) + length (om_drop st)"

text \<open>Insertion into the multimap: behind the entries of the same key.\<close>

definition drop_insert :: "'k::linorder \<times> obj \<times> u64 \<Rightarrow> ('k \<times> obj \<times> u64) list \<Rightarrow> ('k \<times> obj \<times> u64) list"
where
  "drop_insert e d =
    takeWhile (\<lambda>x. fst x \<le> fst e) d @ e # dropWhile (\<lambda>x. fst x \<le> fst e) d"

definition DoAdd :: "obj \<Rightarrow> 'k::linorder \<Rightarrow> u64 \<Rightarrow> 'k omap \<Rightarrow> obj \<times> 'k omap" where
  "DoAdd create k init st =
    (case smap_find (om_map st) k of
       Some (obj, n) \<Rightarrow> (obj, st\<lparr>om_map := smap_put k (obj, n + 1) (om_map st)\<rparr>)
     | None \<Rightarrow>
         if create = 0 then (0, st)
         else (create, st\<lparr>om_map := smap_insert k (create, init) (om_map st), om_ptr := None,
                          om_created := om_created st @ [create]\<rparr>))"

definition Add :: "obj \<Rightarrow> 'k::linorder \<Rightarrow> 'k omap \<Rightarrow> obj \<times> 'k omap" where
  "Add create k st = DoAdd create k 1 st"

definition Get :: "'k::linorder \<Rightarrow> 'k omap \<Rightarrow> obj \<times> 'k omap" where
  "Get k st =
    (case smap_find (om_map st) k of
       None \<Rightarrow> (0, st)
     | Some (obj, n) \<Rightarrow> (obj, st\<lparr>om_map := smap_put k (obj, n + 1) (om_map st)\<rparr>))"

definition DoErase :: "'k::linorder \<Rightarrow> 'k omap \<Rightarrow> 'k omap" where
  "DoErase k st =
    (case smap_find (om_map st) k of
       None \<Rightarrow> st
     | Some (obj, n) \<Rightarrow>
         let st1 = (if n = 0 then st\<lparr>om_destroyed := om_destroyed st @ [obj]\<rparr>
                    else st\<lparr>om_drop := drop_insert (k, obj, n) (om_drop st)\<rparr>)
         in st1\<lparr>om_map := smap_erase k (om_map st1), om_ptr := None\<rparr>)"

text \<open>The loops of \<open>EraseAll\<close> and of \<open>Release\<close> over \<open>_drop\<close>.\<close>

fun erase_entries :: "('k::linorder \<times> obj \<times> u64) list \<Rightarrow> 'k omap \<Rightarrow> 'k omap" where
  "erase_entries [] st = st"
| "erase_entries ((k, obj, n) # es) st =
    erase_entries es
      (if n = 0 then st\<lparr>om_destroyed := om_destroyed st @ [obj]\<rparr>
       else st\<lparr>om_drop := drop_insert (k, obj, n) (om_drop st)\<rparr>)"

definition EraseAll :: "'k::linorder omap \<Rightarrow> 'k omap" where
  "EraseAll st = (erase_entries (om_map st) st)\<lparr>om_map := [], om_ptr := None\<rparr>"

definition om_drained :: "'k omap \<Rightarrow> bool" where
  "om_drained st \<longleftrightarrow> om_drop st = []"

fun drop_release :: "'k \<Rightarrow> obj \<Rightarrow> ('k \<times> obj \<times> u64) list \<Rightarrow> bool \<times> ('k \<times> obj \<times> u64) list" where
  "drop_release k obj [] = (False, [])"
| "drop_release k obj ((k', obj', n) # d) =
    (if k' = k \<and> obj' = obj
     then (if n - 1 = 0 then (True, d) else (False, (k', obj', n - 1) # d))
     else case drop_release k obj d of (gone, d') \<Rightarrow> (gone, (k', obj', n) # d'))"

definition Release :: "'k::linorder \<Rightarrow> obj \<Rightarrow> 'k omap \<Rightarrow> 'k omap" where
  "Release k obj st =
    (case smap_find (om_map st) k of
       Some (o', n) \<Rightarrow>
         if o' = obj then st\<lparr>om_map := smap_put k (obj, n - 1) (om_map st)\<rparr>
         else (case drop_release k obj (om_drop st) of (gone, d) \<Rightarrow>
                st\<lparr>om_drop := d,
                  om_destroyed := om_destroyed st @ (if gone then [obj] else [])\<rparr>)
     | None \<Rightarrow>
         (case drop_release k obj (om_drop st) of (gone, d) \<Rightarrow>
            st\<lparr>om_drop := d,
              om_destroyed := om_destroyed st @ (if gone then [obj] else [])\<rparr>))"

text \<open>\<open>_ptr\<close> is the key the iterator points to, \<open>None\<close> for \<open>end()\<close>.\<close>

definition next_ptr :: "'k::linorder omap \<Rightarrow> ('k \<times> obj \<times> u64) option" where
  "next_ptr st =
    (let p = (case om_ptr st of None \<Rightarrow> None | Some k \<Rightarrow> find (\<lambda>e. k < fst e) (om_map st))
     in case p of Some e \<Rightarrow> Some e
        | None \<Rightarrow> (case om_map st of [] \<Rightarrow> None | e # _ \<Rightarrow> Some e))"

definition GetNext :: "'k::linorder omap \<Rightarrow> ('k \<times> obj) option \<times> 'k omap" where
  "GetNext st =
    (case next_ptr st of
       None \<Rightarrow> (None, st)
     | Some (k, obj, n) \<Rightarrow>
         (Some (k, obj), st\<lparr>om_map := smap_put k (obj, n + 1) (om_map st), om_ptr := Some k\<rparr>))"

definition SetAll :: "('k::linorder \<Rightarrow> obj) \<Rightarrow> 'k list \<Rightarrow> 'k omap \<Rightarrow> 'k omap" where
  "SetAll create keys st =
    (let st1 = fold (\<lambda>k s. if smap_find (om_map s) k = None then snd (DoAdd (create k) k 0 s) else s)
                 keys st;
         gone = filter (\<lambda>k. k \<notin> set keys) (map fst (om_map st1))
     in fold DoErase gone st1)"

definition ClearAll :: "'k omap \<Rightarrow> 'k omap" where
  "ClearAll st = st\<lparr>om_destroyed := om_destroyed st @ map (fst \<circ> snd) (om_drop st)
       @ map (fst \<circ> snd) (om_map st),
     om_map := [], om_drop := [], om_ptr := None\<rparr>"

section \<open>Entries as a multiset\<close>

lemma smap_put_mset:
  "smap_wf m \<Longrightarrow> smap_find m k = Some v \<Longrightarrow>
    mset m = add_mset (k, v) (mset (smap_erase k m)) \<and>
    mset (smap_put k w m) = add_mset (k, w) (mset (smap_erase k m))"
proof -
  assume "smap_wf m" and "smap_find m k = Some v"
  then obtain a b where m: "m = a @ (k, v) # b" and put: "\<forall>w. smap_put k w m = a @ (k, w) # b"
    and erase: "smap_erase k m = a @ b" by (rule smap_split)
  show ?thesis unfolding put [rule_format] erase by (simp add: m)
qed

lemma smap_new_mset:
  "smap_wf m \<Longrightarrow> smap_find m k = None \<Longrightarrow> mset (smap_put k w m) = add_mset (k, w) (mset m)"
proof -
  assume "smap_wf m" and "smap_find m k = None"
  then obtain a b where m: "m = a @ b" and put: "\<forall>w. smap_put k w m = a @ (k, w) # b"
    by (rule smap_new_split)
  show ?thesis unfolding put [rule_format] by (simp add: m)
qed

lemma drop_insert_mset [simp]: "mset (drop_insert e d) = add_mset e (mset d)"
proof -
  have "mset d = mset (takeWhile (\<lambda>x. fst x \<le> fst e) d @ dropWhile (\<lambda>x. fst x \<le> fst e) d)" by simp
  then show ?thesis by (simp add: drop_insert_def del: takeWhile_dropWhile_id)
qed

lemma drop_release_cases:
  assumes "(k, obj) \<in> (\<lambda>(k, obj, n). (k, obj)) ` set d"
  obtains a b n where "d = a @ (k, obj, n) # b"
    "drop_release k obj d = (if n - 1 = 0 then (True, a @ b) else (False, a @ (k, obj, n - 1) # b))"
  using assms
proof (induction d arbitrary: thesis)
  case Nil
  then show ?case by simp
next
  case (Cons e d)
  obtain k' obj' n' where e: "e = (k', obj', n')" by (cases e)
  show ?case
  proof (cases "k' = k \<and> obj' = obj")
    case True
    with e Cons.prems(1) [of "[]" n' d] show ?thesis by simp
  next
    case False
    with Cons.prems(2) e have "(k, obj) \<in> (\<lambda>(k, obj, n). (k, obj)) ` set d" by auto
    then obtain a b n where d: "d = a @ (k, obj, n) # b"
      "drop_release k obj d = (if n - 1 = 0 then (True, a @ b) else (False, a @ (k, obj, n - 1) # b))"
      by (rule Cons.IH [rotated])
    with False e show ?thesis by (intro Cons.prems(1) [of "e # a" n b]) auto
  qed
qed

end
