(* ===== verification/Object_Map_Correct.thy ===== *)
theory Object_Map_Correct
  imports Object_Map
begin

text \<open>
  \<open>ObjectMap\<close> against its users: the references they hold are a multiset of (key, object) pairs, and
  \<open>om_step\<close> is any call a well-behaved user may make (it releases only what it holds). The counters
  always equal the number of references held, so no object in use is ever destroyed, none is
  destroyed twice and none leaks.
\<close>

section \<open>Accounting for references\<close>

type_synonym 'k refs = "('k \<times> obj) multiset"

definition ents :: "'k omap \<Rightarrow> ('k \<times> obj \<times> u64) multiset" where
  "ents st = mset (om_map st) + mset (om_drop st)"

definition ref_of :: "'k \<times> obj \<times> u64 \<Rightarrow> 'k \<times> obj" where
  "ref_of e = (fst e, fst (snd e))"

definition acc :: "('k \<times> obj \<times> u64) multiset \<Rightarrow> obj list \<Rightarrow> obj list \<Rightarrow> 'k refs \<Rightarrow> bool" where
  "acc E C D h \<longleftrightarrow>
    distinct C \<and> 0 \<notin> set C \<and> mset C = image_mset (\<lambda>e. fst (snd e)) E + mset D \<and>
    (\<forall>e. e \<in># E \<longrightarrow> unat (snd (snd e)) = count h (ref_of e)) \<and>
    (\<forall>r. r \<in># h \<longrightarrow> (\<exists>e. e \<in># E \<and> ref_of e = r))"

lemma accD:
  assumes "acc E C D h"
  shows "distinct C" and "0 \<notin> set C" and "mset C = image_mset (\<lambda>e. fst (snd e)) E + mset D"
  using assms unfolding acc_def by blast+

lemma acc_count: "acc E C D h \<Longrightarrow> e \<in># E \<Longrightarrow> unat (snd (snd e)) = count h (ref_of e)"
  unfolding acc_def by blast

lemma acc_held: "acc E C D h \<Longrightarrow> r \<in># h \<Longrightarrow> \<exists>e. e \<in># E \<and> ref_of e = r"
  unfolding acc_def by blast

lemma acc_obj_unique:
  assumes "acc (add_mset (k, obj, n) E) C D h" and "e \<in># E"
  shows "ref_of e \<noteq> (k, obj)"
proof
  assume "ref_of e = (k, obj)"
  then have o: "fst (snd e) = obj" by (simp add: ref_of_def)
  obtain E' where E: "E = add_mset e E'" using assms(2) by (metis insert_DiffM)
  have "count (mset C) obj \<ge> 2" using accD(3) [OF assms(1)] o by (simp add: E)
  moreover have "count (mset C) obj \<le> 1"
    using accD(1) [OF assms(1)] by (simp add: distinct_count_atmost_1)
  ultimately show False by simp
qed

lemma acc_set:
  assumes a: "acc (add_mset (k, obj, n) E) C D h" and "unat n' = count h' (k, obj)"
    and eq: "\<And>r. r \<noteq> (k, obj) \<Longrightarrow> count h' r = count h r"
  shows "acc (add_mset (k, obj, n') E) C D h'"
proof -
  have 1: "unat (snd (snd e)) = count h' (ref_of e)" if e: "e \<in># add_mset (k, obj, n') E" for e
  proof (cases "e = (k, obj, n')")
    case True
    with assms(2) show ?thesis by (simp add: ref_of_def)
  next
    case False
    with e have e: "e \<in># E" by simp
    with acc_count [OF a, of e] eq [OF acc_obj_unique [OF a e]] show ?thesis by simp
  qed
  have 2: "\<exists>e. e \<in># add_mset (k, obj, n') E \<and> ref_of e = r" if r: "r \<in># h'" for r
  proof (cases "r = (k, obj)")
    case True
    then show ?thesis by (intro exI [of _ "(k, obj, n')"]) (simp add: ref_of_def)
  next
    case False
    with r eq have "r \<in># h" by (metis count_eq_zero_iff)
    then obtain e where e: "e \<in># add_mset (k, obj, n) E" "ref_of e = r"
      using acc_held [OF a] by blast
    with False have "e \<noteq> (k, obj, n)" by (auto simp: ref_of_def)
    with e have "e \<in># add_mset (k, obj, n') E" by simp
    with e(2) show ?thesis by blast
  qed
  have 3: "mset C = image_mset (\<lambda>e. fst (snd e)) (add_mset (k, obj, n') E) + mset D"
    using accD(3) [OF a] by simp
  show ?thesis using accD(1,2) [OF a] 1 2 3 unfolding acc_def by blast
qed

lemma acc_new:
  assumes a: "acc E C D h" and "obj \<notin> set C" and "obj \<noteq> 0"
  shows "acc (add_mset (k, obj, 0) E) (C @ [obj]) D h"
proof -
  have zero: "count h (k, obj) = 0"
  proof (rule ccontr)
    assume "count h (k, obj) \<noteq> 0"
    then obtain e where e: "e \<in># E" "ref_of e = (k, obj)"
      using acc_held [OF a, of "(k, obj)"] by auto
    have "fst (snd e) \<in># image_mset (\<lambda>e. fst (snd e)) E" using e(1) by simp
    moreover have "fst (snd e) = obj" using e(2) by (simp add: ref_of_def)
    ultimately have "obj \<in># image_mset (\<lambda>e. fst (snd e)) E" by simp
    then have "obj \<in># mset C" using accD(3) [OF a] by simp
    with assms(2) show False by simp
  qed
  have 1: "unat (snd (snd e)) = count h (ref_of e)" if e: "e \<in># add_mset (k, obj, 0) E" for e
  proof (cases "e = (k, obj, 0)")
    case True
    with zero show ?thesis by (simp add: ref_of_def)
  next
    case False
    with e acc_count [OF a, of e] show ?thesis by simp
  qed
  have 2: "\<exists>e. e \<in># add_mset (k, obj, 0) E \<and> ref_of e = r" if "r \<in># h" for r
  proof -
    obtain e where "e \<in># E" "ref_of e = r" using acc_held [OF a \<open>r \<in># h\<close>] by blast
    then have "e \<in># add_mset (k, obj, 0) E" by simp
    with \<open>ref_of e = r\<close> show ?thesis by blast
  qed
  have 3: "mset (C @ [obj]) = image_mset (\<lambda>e. fst (snd e)) (add_mset (k, obj, 0) E) + mset D"
    using accD(3) [OF a] by simp
  have 4: "distinct (C @ [obj])" "0 \<notin> set (C @ [obj])" using accD(1,2) [OF a] assms(2,3) by auto
  show ?thesis using 1 2 3 4 unfolding acc_def by blast
qed

lemma acc_destroy:
  assumes a: "acc (add_mset (k, obj, n) E) C D h" and "count h (k, obj) = 0"
  shows "acc E C (D @ [obj]) h"
proof -
  have 2: "\<exists>e. e \<in># E \<and> ref_of e = r" if r: "r \<in># h" for r
  proof -
    obtain e where e: "e \<in># add_mset (k, obj, n) E" "ref_of e = r"
      using acc_held [OF a r] by blast
    have "r \<noteq> (k, obj)" using r assms(2) by (metis not_in_iff)
    with e have "e \<noteq> (k, obj, n)" by (auto simp: ref_of_def)
    with e(1) have "e \<in># E" by simp
    with e(2) show ?thesis by blast
  qed
  have 1: "unat (snd (snd e)) = count h (ref_of e)" if "e \<in># E" for e
    using acc_count [OF a, of e] that by simp
  have 3: "mset C = image_mset (\<lambda>e. fst (snd e)) E + mset (D @ [obj])"
    using accD(3) [OF a] by simp
  show ?thesis using accD(1,2) [OF a] 1 2 3 unfolding acc_def by blast
qed

section \<open>The invariant\<close>

definition om_inv :: "'k::linorder omap \<times> 'k refs \<Rightarrow> bool" where
  "om_inv sh \<longleftrightarrow> (case sh of (st, h) \<Rightarrow>
    smap_wf (om_map st) \<and> size h < 2 ^ 64 \<and>
    (\<forall>e \<in> set (om_drop st). snd (snd e) \<noteq> 0) \<and>
    acc (ents st) (om_created st) (om_destroyed st) h)"

lemma om_inv_new: "om_inv (new_omap, {#})"
  by (simp add: om_inv_def new_omap_def ents_def acc_def)

lemma unat_suc:
  assumes "unat (n :: u64) = c" and "c + 1 < 2 ^ 64"
  shows "unat (n + 1) = c + 1"
  using assms by (simp add: unat_word_ariths)

lemma unat_pred:
  assumes "unat (n :: u64) = c + 1"
  shows "unat (n - 1) = c"
proof -
  have "n \<noteq> 0" using assms by auto
  then show ?thesis using assms by (simp add: unat_minus_one)
qed

text \<open>The entry of a key taken out of the rest.\<close>

lemma ents_map:
  assumes "smap_wf (om_map st)" and "smap_find (om_map st) k = Some (obj, n)"
  defines "E \<equiv> mset (smap_erase k (om_map st)) + mset (om_drop st)"
  shows "ents st = add_mset (k, obj, n) E"
    and "ents (st\<lparr>om_map := smap_put k w (om_map st)\<rparr>) = add_mset (k, w) E"
    and "ents (st\<lparr>om_map := smap_erase k (om_map st)\<rparr>) = E"
  using smap_put_mset [OF assms(1,2), of w] by (simp_all add: ents_def assms(3))

lemma ents_ptr [simp]: "ents (st\<lparr>om_ptr := p\<rparr>) = ents st"
  "ents (st\<lparr>om_created := c\<rparr>) = ents st" "ents (st\<lparr>om_destroyed := d\<rparr>) = ents st"
  by (simp_all add: ents_def)

text \<open>One more reference to an object of the map: \<open>Get\<close>, \<open>GetNext\<close> and \<open>Add\<close> of a known key.\<close>

lemma om_inv_ref:
  assumes "om_inv (st, h)" and "smap_find (om_map st) k = Some (obj, n)" and "size h + 1 < 2 ^ 64"
  shows "om_inv (st\<lparr>om_map := smap_put k (obj, n + 1) (om_map st), om_ptr := p\<rparr>,
    add_mset (k, obj) h)"
proof -
  have wf: "smap_wf (om_map st)" and a: "acc (ents st) (om_created st) (om_destroyed st) h"
    using assms(1) by (auto simp: om_inv_def)
  note E = ents_map [OF wf assms(2)]
  have "unat n = count h (k, obj)"
    using acc_count [OF a, of "(k, obj, n)"] by (simp add: E(1) ref_of_def)
  moreover have "count h (k, obj) \<le> size h" by (rule count_le_size)
  ultimately have "unat (n + 1) = count (add_mset (k, obj) h) (k, obj)"
    using assms(3) by (simp add: unat_suc)
  then have "acc (ents (st\<lparr>om_map := smap_put k (obj, n + 1) (om_map st)\<rparr>)) (om_created st)
      (om_destroyed st) (add_mset (k, obj) h)"
    unfolding E(2) by (rule acc_set [OF a [unfolded E(1)]]) simp
  with assms(1,3) wf show ?thesis by (simp add: om_inv_def ents_def)
qed

lemma om_invD:
  assumes "om_inv (st, h)"
  shows "smap_wf (om_map st)" and "size h < 2 ^ 64"
    and "e \<in> set (om_drop st) \<Longrightarrow> snd (snd e) \<noteq> 0"
    and "acc (ents st) (om_created st) (om_destroyed st) h"
  using assms unfolding om_inv_def by auto

lemma om_invI:
  assumes "smap_wf (om_map st)" and "size h < 2 ^ 64"
    and "\<And>e. e \<in> set (om_drop st) \<Longrightarrow> snd (snd e) \<noteq> 0"
    and "acc (ents st) (om_created st) (om_destroyed st) h"
  shows "om_inv (st, h)"
  using assms unfolding om_inv_def by auto

section \<open>Every operation keeps the invariant\<close>

lemma om_inv_create:
  assumes inv: "om_inv (st, h)" and none: "smap_find (om_map st) k = None"
    and fresh: "create \<notin> set (om_created st)" "create \<noteq> 0"
  defines "st1 \<equiv> \<lambda>init. st\<lparr>om_map := smap_put k (create, init) (om_map st), om_ptr := None,
      om_created := om_created st @ [create]\<rparr>"
  shows "om_inv (st1 0, h)"
    and "size h + 1 < 2 ^ 64 \<Longrightarrow> om_inv (st1 1, add_mset (k, create) h)"
proof -
  note wf = om_invD(1) [OF inv] and a = om_invD(4) [OF inv]
  have E: "ents (st1 init) = add_mset (k, create, init) (ents st)" for init
    using smap_new_mset [OF wf none] by (simp add: ents_def st1_def)
  note new = acc_new [OF a fresh, of k]
  have f: "om_created (st1 i) = om_created st @ [create]" "om_destroyed (st1 i) = om_destroyed st"
    "om_drop (st1 i) = om_drop st" "smap_wf (om_map (st1 i))" for i
    using wf by (simp_all add: st1_def)
  show "om_inv (st1 0, h)"
    by (rule om_invI) (use new om_invD(2,3) [OF inv] f in \<open>auto simp: E\<close>)
  have "count h (k, create) = 0"
    using acc_count [OF new, of "(k, create, 0)"] by (simp add: ref_of_def)
  then have 1: "unat (1 :: u64) = count (add_mset (k, create) h) (k, create)" by simp
  have "acc (add_mset (k, create, 1) (ents st)) (om_created st @ [create]) (om_destroyed st)
      (add_mset (k, create) h)"
    using 1 by (rule acc_set [OF new]) simp
  then show "size h + 1 < 2 ^ 64 \<Longrightarrow> om_inv (st1 1, add_mset (k, create) h)"
    by (intro om_invI) (use om_invD(3) [OF inv] f in \<open>auto simp: E\<close>)
qed

lemma om_inv_Get:
  assumes "om_inv (st, h)" and "size h + 1 < 2 ^ 64" and "Get k st = (obj, st')"
  shows "om_inv (st', if obj = 0 \<and> smap_find (om_map st) k = None then h else add_mset (k, obj) h)"
  using assms om_inv_ref [OF assms(1) _ assms(2), of k _ _ "om_ptr st"]
  by (auto simp: Get_def split: option.splits)

lemma next_ptr_find:
  assumes "smap_wf (om_map st)" and "next_ptr st = Some (k, obj, n)"
  shows "smap_find (om_map st) k = Some (obj, n)"
proof -
  have "(k, obj, n) \<in> set (om_map st)"
    using assms(2) by (auto simp: next_ptr_def Let_def find_Some_iff split: option.splits list.splits)
  then show ?thesis using assms(1) by (intro in_smap_find)
qed

lemma om_inv_GetNext:
  assumes "om_inv (st, h)" and "size h + 1 < 2 ^ 64" and "GetNext st = (r, st')"
  shows "om_inv (st', case r of None \<Rightarrow> h | Some ref \<Rightarrow> add_mset ref h)"
proof (cases "next_ptr st")
  case None
  with assms show ?thesis by (auto simp: GetNext_def)
next
  case (Some e)
  obtain k obj n where e: "e = (k, obj, n)" by (cases e)
  have "smap_find (om_map st) k = Some (obj, n)"
    using next_ptr_find [OF om_invD(1) [OF assms(1)]] Some e by simp
  from om_inv_ref [OF assms(1) this assms(2), of "Some k"] assms(3) Some e show ?thesis
    by (auto simp: GetNext_def)
qed

lemma om_inv_Add:
  assumes "om_inv (st, h)" and "size h + 1 < 2 ^ 64"
    and "create \<notin> set (om_created st)" and "Add create k st = (obj, st')"
  shows "om_inv (st', if smap_find (om_map st) k = None \<and> create = 0 then h else add_mset (k, obj) h)"
proof (cases "smap_find (om_map st) k")
  case None
  with assms om_inv_create(2) [OF assms(1) None assms(3) _ assms(2)] show ?thesis
    by (auto simp: Add_def DoAdd_def smap_insert_def split: if_splits)
next
  case (Some v)
  obtain obj0 n where v: "v = (obj0, n)" by (cases v)
  with assms Some om_inv_ref [OF assms(1) Some [unfolded v] assms(2), of "om_ptr st"] show ?thesis
    by (auto simp: Add_def DoAdd_def)
qed

text \<open>An entry leaves the map: destroyed when unused, dropped otherwise.\<close>

lemma om_inv_DoErase:
  assumes inv: "om_inv (st, h)"
  shows "om_inv (DoErase k st, h)"
proof (cases "smap_find (om_map st) k")
  case None
  with inv show ?thesis by (simp add: DoErase_def)
next
  case (Some v)
  obtain obj n where v: "v = (obj, n)" by (cases v)
  note wf = om_invD(1) [OF inv] and a = om_invD(4) [OF inv]
  note E = ents_map [OF wf Some [unfolded v]]
  let ?E = "mset (smap_erase k (om_map st)) + mset (om_drop st)"
  show ?thesis
  proof (cases "n = 0")
    case True
    have "count h (k, obj) = 0"
      using acc_count [OF a, of "(k, obj, n)"] True by (simp add: E(1) ref_of_def)
    then have "acc ?E (om_created st) (om_destroyed st @ [obj]) h"
      by (rule acc_destroy [OF a [unfolded E(1)]])
    then show ?thesis using True Some v om_invD(2,3) [OF inv] wf
      by (intro om_invI) (auto simp: DoErase_def ents_def)
  next
    case False
    have "ents (DoErase k st) = ents st"
      using False Some v unfolding E(1) by (simp add: DoErase_def ents_def)
    then show ?thesis using False Some v om_invD(2,3) [OF inv] wf a
      by (intro om_invI) (auto simp: DoErase_def drop_insert_def dest: set_takeWhileD set_dropWhileD)
  qed
qed

lemma om_inv_erase_entries:
  assumes "om_inv (st, h)" and "om_map st = es"
  shows "om_inv ((erase_entries es st)\<lparr>om_map := [], om_ptr := p\<rparr>, h)"
proof -
  have set_drop: "set (drop_insert e d) = insert e (set d)" for e :: "'a \<times> obj \<times> u64" and d
    using drop_insert_mset [of e d] by (metis set_mset_add_mset_insert set_mset_mset)
  have "acc (mset es + mset (om_drop t)) C (om_destroyed t) h \<Longrightarrow>
      (\<forall>e \<in> set (om_drop t). snd (snd e) \<noteq> 0) \<Longrightarrow>
      acc (mset (om_drop (erase_entries es t))) C (om_destroyed (erase_entries es t)) h \<and>
      (\<forall>e \<in> set (om_drop (erase_entries es t)). snd (snd e) \<noteq> 0) \<and>
      om_created (erase_entries es t) = om_created t" for es C and t :: "'a omap"
  proof (induction es t rule: erase_entries.induct)
    case (1 t)
    then show ?case by simp
  next
    case (2 k obj n es t)
    let ?t = "if n = 0 then t\<lparr>om_destroyed := om_destroyed t @ [obj]\<rparr>
       else t\<lparr>om_drop := drop_insert (k, obj, n) (om_drop t)\<rparr>"
    have a: "acc (add_mset (k, obj, n) (mset es + mset (om_drop t))) C (om_destroyed t) h"
      using "2.prems"(1) by simp
    have "acc (mset es + mset (om_drop ?t)) C (om_destroyed ?t) h"
    proof (cases "n = 0")
      case True
      then have "count h (k, obj) = 0" using acc_count [OF a, of "(k, obj, n)"] by (simp add: ref_of_def)
      with acc_destroy [OF a] True show ?thesis by simp
    next
      case False
      with a show ?thesis by simp
    qed
    moreover have "\<forall>e \<in> set (om_drop ?t). snd (snd e) \<noteq> 0"
      using "2.prems"(2) by (simp add: set_drop)
    moreover have "om_created ?t = om_created t" by simp
    ultimately show ?case using "2.IH" by simp
  qed
  from this [of es st "om_created st"] om_invD [OF assms(1)] assms(2) show ?thesis
    by (intro om_invI) (auto simp: ents_def)
qed

lemma om_inv_EraseAll: "om_inv (st, h) \<Longrightarrow> om_inv (EraseAll st, h)"
  unfolding EraseAll_def by (rule om_inv_erase_entries) simp_all

text \<open>A user gives back a reference it holds.\<close>

lemma om_inv_drop_release:
  assumes inv: "om_inv (st, h)" and held: "(k, obj) \<in># h"
    and other: "\<forall>n. smap_find (om_map st) k \<noteq> Some (obj, n)"
    and rel: "drop_release k obj (om_drop st) = (gone, d)"
  shows "om_inv (st\<lparr>om_drop := d, om_destroyed := om_destroyed st @ (if gone then [obj] else [])\<rparr>,
    h - {#(k, obj)#})"
proof -
  note wf = om_invD(1) [OF inv] and a = om_invD(4) [OF inv]
  let ?h = "h - {#(k, obj)#}"
  obtain e where e: "e \<in># ents st" "ref_of e = (k, obj)" using acc_held [OF a held] by blast
  obtain n0 where e2: "e = (k, obj, n0)" using e(2) by (cases e) (auto simp: ref_of_def)
  have "e \<notin> set (om_map st)"
    using other in_smap_find [OF wf, of k "(obj, n0)"] e2 by auto
  with e(1) have "(k, obj) \<in> (\<lambda>(k, obj, n). (k, obj)) ` set (om_drop st)"
    using e2 by (force simp: ents_def)
  then obtain x y n where d: "om_drop st = x @ (k, obj, n) # y"
    "drop_release k obj (om_drop st) =
      (if n - 1 = 0 then (True, x @ y) else (False, x @ (k, obj, n - 1) # y))"
    by (rule drop_release_cases)
  let ?E = "mset (om_map st) + mset (x @ y)"
  have E: "ents st = add_mset (k, obj, n) ?E" by (simp add: ents_def d)
  obtain c where c: "count h (k, obj) = Suc c" using held by (metis count_eq_zero_iff not0_implies_Suc)
  have "unat n = c + 1" using acc_count [OF a, of "(k, obj, n)"] c by (simp add: E ref_of_def)
  then have n1: "unat (n - 1) = c" by (rule unat_pred)
  have hc: "count ?h (k, obj) = c" using c by simp
  have a1: "acc (add_mset (k, obj, n - 1) ?E) (om_created st) (om_destroyed st) ?h"
    by (rule acc_set [OF a [unfolded E]]) (use n1 hc in auto)
  have sz: "size ?h < 2 ^ 64" using om_invD(2) [OF inv] size_Diff_submset [of "{#(k, obj)#}" h] held
    by (simp add: size_Diff_singleton)
  show ?thesis
  proof (cases "n - 1 = 0")
    case True
    then have "count ?h (k, obj) = 0" using hc n1 by simp
    from acc_destroy [OF a1 this] True rel d wf sz om_invD(3) [OF inv] show ?thesis
      by (intro om_invI) (auto simp: ents_def)
  next
    case False
    with a1 rel d wf sz om_invD(3) [OF inv] show ?thesis
      by (intro om_invI) (auto simp: ents_def)
  qed
qed

lemma om_inv_Release:
  assumes inv: "om_inv (st, h)" and held: "(k, obj) \<in># h"
  shows "om_inv (Release k obj st, h - {#(k, obj)#})"
proof (cases "\<exists>n. smap_find (om_map st) k = Some (obj, n)")
  case True
  then obtain n where f: "smap_find (om_map st) k = Some (obj, n)" by blast
  note wf = om_invD(1) [OF inv] and a = om_invD(4) [OF inv] and E = ents_map [OF om_invD(1) [OF inv] f]
  obtain c where c: "count h (k, obj) = Suc c" using held by (metis count_eq_zero_iff not0_implies_Suc)
  have "unat n = c + 1" using acc_count [OF a, of "(k, obj, n)"] c by (simp add: E(1) ref_of_def)
  then have n1: "unat (n - 1) = count (h - {#(k, obj)#}) (k, obj)"
    using c by (simp add: unat_pred)
  have "acc (ents (st\<lparr>om_map := smap_put k (obj, n - 1) (om_map st)\<rparr>)) (om_created st)
      (om_destroyed st) (h - {#(k, obj)#})"
    unfolding E(2) by (rule acc_set [OF a [unfolded E(1)]]) (use n1 in auto)
  moreover have "size (h - {#(k, obj)#}) < 2 ^ 64"
    using om_invD(2) [OF inv] held by (simp add: size_Diff_singleton)
  ultimately show ?thesis
    using f wf om_invD(3) [OF inv] by (intro om_invI) (auto simp: Release_def)
next
  case False
  obtain gone d where r: "drop_release k obj (om_drop st) = (gone, d)" by (metis prod.exhaust)
  have "Release k obj st =
      st\<lparr>om_drop := d, om_destroyed := om_destroyed st @ (if gone then [obj] else [])\<rparr>"
    using False r by (auto simp: Release_def split: option.splits)
  with om_inv_drop_release [OF inv held _ r] False show ?thesis by simp
qed

text \<open>\<open>Create\<close> gives addresses that are new, or \<open>NULL\<close>.\<close>

definition fresh_create :: "('k \<Rightarrow> obj) \<Rightarrow> 'k list \<Rightarrow> 'k omap \<Rightarrow> bool" where
  "fresh_create create keys st \<longleftrightarrow>
    (\<forall>k \<in> set keys. create k \<noteq> 0 \<longrightarrow> create k \<notin> set (om_created st)) \<and>
    (\<forall>k \<in> set keys. \<forall>k' \<in> set keys. create k = create k' \<longrightarrow> create k = 0 \<or> k = k')"

definition add_missing :: "('k::linorder \<Rightarrow> obj) \<Rightarrow> 'k \<Rightarrow> 'k omap \<Rightarrow> 'k omap" where
  "add_missing create k s =
    (if smap_find (om_map s) k = None then snd (DoAdd (create k) k 0 s) else s)"

lemma SetAll_eq:
  "SetAll create keys st =
    fold DoErase (filter (\<lambda>k. k \<notin> set keys) (map fst (om_map (fold (add_missing create) keys st))))
      (fold (add_missing create) keys st)"
  by (simp add: SetAll_def Let_def add_missing_def [abs_def])

text \<open>Every address created so far is an old one or that of a visited key now in the map.\<close>

definition sa_mid :: "('k::linorder \<Rightarrow> obj) \<Rightarrow> 'k list \<Rightarrow> 'k omap \<Rightarrow> 'k omap \<Rightarrow> bool" where
  "sa_mid create done_keys st s \<longleftrightarrow>
    set (om_created s) \<subseteq> set (om_created st) \<union> create ` set done_keys \<and>
    (\<forall>k \<in> set done_keys. create k \<noteq> 0 \<longrightarrow> smap_find (om_map s) k \<noteq> None) \<and>
    (\<forall>k v. smap_find (om_map st) k = Some v \<longrightarrow> smap_find (om_map s) k = Some v) \<and>
    (\<forall>k. smap_find (om_map s) k \<noteq> None \<longrightarrow>
      smap_find (om_map st) k \<noteq> None \<or> k \<in> set done_keys \<and> smap_find (om_map s) k = Some (create k, 0))"

lemma add_missing_fold:
  assumes "om_inv (st, h)" and "fresh_create create keys st" and "keys = ks1 @ ks2"
  shows "om_inv (fold (add_missing create) ks1 st, h) \<and>
    sa_mid create ks1 st (fold (add_missing create) ks1 st)"
  using assms(3)
proof (induction ks1 arbitrary: ks2 rule: rev_induct)
  case Nil
  with assms(1) show ?case by (simp add: sa_mid_def)
next
  case (snoc k ks1)
  let ?s = "fold (add_missing create) ks1 st"
  from snoc.IH [of "k # ks2"] snoc.prems have inv: "om_inv (?s, h)" and mid: "sa_mid create ks1 st ?s"
    by auto
  note wf = om_invD(1) [OF inv]
  show ?case
  proof (cases "smap_find (om_map ?s) k = None \<and> create k \<noteq> 0")
    case False
    then have same: "fold (add_missing create) (ks1 @ [k]) st = ?s"
      by (auto simp: add_missing_def DoAdd_def)
    have m: "set (om_created ?s) \<subseteq> set (om_created st) \<union> create ` set ks1"
      "\<forall>k \<in> set ks1. create k \<noteq> 0 \<longrightarrow> smap_find (om_map ?s) k \<noteq> None"
      "\<forall>k v. smap_find (om_map st) k = Some v \<longrightarrow> smap_find (om_map ?s) k = Some v"
      "\<forall>k. smap_find (om_map ?s) k \<noteq> None \<longrightarrow> smap_find (om_map st) k \<noteq> None \<or>
        k \<in> set ks1 \<and> smap_find (om_map ?s) k = Some (create k, 0)"
      using mid unfolding sa_mid_def by blast+
    have "set (om_created ?s) \<subseteq> set (om_created st) \<union> create ` set (ks1 @ [k])" using m(1) by auto
    moreover have "\<forall>k' \<in> set (ks1 @ [k]). create k' \<noteq> 0 \<longrightarrow> smap_find (om_map ?s) k' \<noteq> None"
      using m(2) False by (cases "create k = 0") (simp_all del: not_None_eq neq0_conv)
    moreover have "\<forall>k'. smap_find (om_map ?s) k' \<noteq> None \<longrightarrow> smap_find (om_map st) k' \<noteq> None \<or>
        k' \<in> set (ks1 @ [k]) \<and> smap_find (om_map ?s) k' = Some (create k', 0)"
      using m(4) unfolding set_append by blast
    ultimately have "sa_mid create (ks1 @ [k]) st ?s" using m(3) unfolding sa_mid_def by blast
    with inv show ?thesis unfolding same by blast
  next
    case True
    have "create k \<notin> set (om_created ?s)"
    proof
      assume "create k \<in> set (om_created ?s)"
      with mid assms(2) True snoc.prems obtain k' where "k' \<in> set ks1" "create k' = create k"
        by (auto simp: sa_mid_def fresh_create_def)
      with assms(2) True snoc.prems have "k' = k" by (auto simp: fresh_create_def)
      with mid \<open>k' \<in> set ks1\<close> True show False by (auto simp: sa_mid_def)
    qed
    then have inv': "om_inv (fold (add_missing create) (ks1 @ [k]) st, h)"
      using om_inv_create(1) [OF inv, of k "create k"] True
      by (simp add: add_missing_def DoAdd_def smap_insert_def)
    have step: "fold (add_missing create) (ks1 @ [k]) st =
        ?s\<lparr>om_map := smap_put k (create k, 0) (om_map ?s), om_ptr := None,
           om_created := om_created ?s @ [create k]\<rparr>"
      using True by (simp add: add_missing_def DoAdd_def smap_insert_def)
    have "smap_find (om_map st) k = None"
      using mid True by (metis not_Some_eq sa_mid_def)
    with inv' mid True wf show ?thesis
      unfolding step sa_mid_def by (auto split: if_splits)
  qed
qed

lemma om_inv_fold_erase: "om_inv (st, h) \<Longrightarrow> om_inv (fold DoErase ks st, h)"
  by (induction ks arbitrary: st) (simp_all add: om_inv_DoErase)

lemma om_inv_SetAll:
  assumes "om_inv (st, h)" and "fresh_create create keys st"
  shows "om_inv (SetAll create keys st, h)"
  unfolding SetAll_eq using add_missing_fold [OF assms, of keys "[]"]
  by (intro om_inv_fold_erase) simp

section \<open>Well-behaved users\<close>

text \<open>
  One call, with the references the users hold before and after it. A user releases only what it
  holds, \<open>Create\<close> gives new addresses, and fewer than 2 to the 64 references exist.
\<close>

inductive om_step :: "'k::linorder omap \<times> 'k refs \<Rightarrow> 'k omap \<times> 'k refs \<Rightarrow> bool" where
  om_get: "size h + 1 < 2 ^ 64 \<Longrightarrow> Get k st = (obj, st') \<Longrightarrow>
    om_step (st, h) (st', if obj = 0 \<and> smap_find (om_map st) k = None then h else add_mset (k, obj) h)"
| om_next: "size h + 1 < 2 ^ 64 \<Longrightarrow> GetNext st = (r, st') \<Longrightarrow>
    om_step (st, h) (st', case r of None \<Rightarrow> h | Some ref \<Rightarrow> add_mset ref h)"
| om_add: "size h + 1 < 2 ^ 64 \<Longrightarrow> create \<notin> set (om_created st) \<Longrightarrow> Add create k st = (obj, st') \<Longrightarrow>
    om_step (st, h) (st', if smap_find (om_map st) k = None \<and> create = 0 then h else add_mset (k, obj) h)"
| om_release: "(k, obj) \<in># h \<Longrightarrow> om_step (st, h) (Release k obj st, h - {#(k, obj)#})"
| om_erase: "om_step (st, h) (DoErase k st, h)"
| om_erase_all: "om_step (st, h) (EraseAll st, h)"
| om_set_all: "fresh_create create keys st \<Longrightarrow> om_step (st, h) (SetAll create keys st, h)"

lemma om_step_inv: "om_step sh sh' \<Longrightarrow> om_inv sh \<Longrightarrow> om_inv sh'"
proof (induction rule: om_step.induct)
  case (om_get h k st obj st')
  then show ?case by (intro om_inv_Get)
next
  case (om_next h st r st')
  then show ?case by (intro om_inv_GetNext)
next
  case (om_add h create st k obj st')
  then show ?case by (intro om_inv_Add)
next
  case (om_release k obj h st)
  then show ?case by (intro om_inv_Release)
next
  case (om_erase st h k)
  then show ?case by (intro om_inv_DoErase)
next
  case (om_erase_all st h)
  then show ?case by (intro om_inv_EraseAll)
next
  case (om_set_all create keys st h)
  then show ?case by (intro om_inv_SetAll)
qed

interpretation om_life: step_invariant om_step om_inv
  by unfold_locales (rule om_step_inv)

lemma acc_live_not_destroyed:
  assumes "acc E C D h" and "(k, obj) \<in># h"
  shows "obj \<notin> set D"
proof
  assume "obj \<in> set D"
  obtain e where e: "e \<in># E" "ref_of e = (k, obj)" using acc_held [OF assms] by blast
  obtain E' where "E = add_mset e E'" using e(1) by (metis insert_DiffM)
  moreover have "fst (snd e) = obj" using e(2) by (simp add: ref_of_def)
  moreover have "count (mset D) obj \<ge> 1" using \<open>obj \<in> set D\<close> by (simp add: Suc_leI)
  ultimately have "count (mset C) obj = Suc (count (image_mset (\<lambda>e. fst (snd e)) E' + mset D) obj)"
    "count (mset D) obj \<ge> 1"
    using accD(3) [OF assms(1)] by simp_all
  then have "count (mset C) obj \<ge> 2" by (simp only: count_union)
  moreover have "count (mset C) obj \<le> 1"
    using accD(1) [OF assms(1)] by (simp add: distinct_count_atmost_1)
  ultimately show False by simp
qed



section \<open>Replacing the set of keys\<close>

lemma find_DoErase: "smap_find (om_map (DoErase k st)) = (smap_find (om_map st))(k := None)"
  by (auto simp: DoErase_def Let_def fun_eq_iff split: option.splits)

lemma find_fold_erase:
  "smap_find (om_map (fold DoErase ks st)) k = (if k \<in> set ks then None else smap_find (om_map st) k)"
  by (induction ks arbitrary: st) (auto simp: find_DoErase)

text \<open>
  \<open>SetAll\<close> makes the keys of the map exactly the given ones: keys that stay keep their object and
  their references, new keys get a new unused object unless \<open>Create\<close> fails, all others leave.
\<close>

theorem set_all_keys:
  assumes "om_inv (st, h)" and "fresh_create create keys st"
  shows "smap_find (om_map (SetAll create keys st)) k =
    (if k \<notin> set keys then None
     else case smap_find (om_map st) k of
            Some v \<Rightarrow> Some v
          | None \<Rightarrow> if create k = 0 then None else Some (create k, 0))"
proof -
  let ?s = "fold (add_missing create) keys st"
  have mid: "sa_mid create keys st ?s" using add_missing_fold [OF assms, of keys "[]"] by simp
  have find: "smap_find (om_map (SetAll create keys st)) k =
      (if k \<in> set keys then smap_find (om_map ?s) k else None)"
    by (auto simp: SetAll_eq find_fold_erase smap_find_None simp del: split_paired_Ex)
  have none: "create k = 0 \<Longrightarrow> smap_find (om_map st) k = None \<Longrightarrow> smap_find (om_map ?s) k = None"
  proof (induction keys arbitrary: st)
    case Nil
    then show ?case by simp
  next
    case (Cons k' ks)
    have "smap_find (om_map (add_missing create k' st)) k = None"
      using Cons.prems
      by (cases "k = k'")
        (auto simp: add_missing_def DoAdd_def smap_insert_def smap_put_other split: option.splits)
    with Cons show ?case by simp
  qed
  show ?thesis
  proof (cases "k \<in> set keys")
    case False
    with find show ?thesis by simp
  next
    case True
    show ?thesis
    proof (cases "smap_find (om_map st) k")
      case (Some v)
      with mid have "smap_find (om_map ?s) k = Some v" unfolding sa_mid_def by blast
      with find True Some show ?thesis by simp
    next
      case None
      show ?thesis
      proof (cases "create k = 0")
        case True
        with None none find \<open>k \<in> set keys\<close> show ?thesis by simp
      next
        case False
        with mid True have "smap_find (om_map ?s) k \<noteq> None" unfolding sa_mid_def by blast
        with mid None have "smap_find (om_map ?s) k = Some (create k, 0)"
          unfolding sa_mid_def by blast
        with find True None False show ?thesis by simp
      qed
    qed
  qed
qed

lemma set_all_keys_witness:
  "smap_find (om_map (SetAll (\<lambda>k. k + 1) [3, 5] (snd (Add 1 (5 :: nat) new_omap)))) 3 = Some (4, 0)"
proof -
  let ?st = "snd (Add 1 (5 :: nat) new_omap)"
  have st: "?st = \<lparr>om_map = [(5, 1, 1)], om_drop = [], om_ptr = None, om_created = [1], om_destroyed = []\<rparr>"
    by (simp add: Add_def DoAdd_def new_omap_def smap_insert_def)
  have "om_inv (?st, {#(5, 1)#})"
    using om_inv_Add [of new_omap "{#}" 1 5 1 ?st] om_inv_new
    by (simp add: Add_def DoAdd_def new_omap_def)
  moreover have "fresh_create (\<lambda>k. k + 1) [3, 5] ?st"
    unfolding st by (auto simp: fresh_create_def)
  ultimately show ?thesis
    using set_all_keys [of ?st "{#(5, 1)#}" "\<lambda>k. k + 1" "[3, 5]" 3] unfolding st
    by (simp add: smap_find_def)
qed

section \<open>Round robin\<close>

text \<open>The keys \<open>n\<close> calls of \<open>GetNext\<close> give.\<close>

fun get_nexts :: "nat \<Rightarrow> 'k::linorder omap \<Rightarrow> 'k list \<times> 'k omap" where
  "get_nexts 0 st = ([], st)"
| "get_nexts (Suc n) st =
    (case GetNext st of (r, st1) \<Rightarrow>
       case get_nexts n st1 of (ks, st2) \<Rightarrow>
         (case r of None \<Rightarrow> ks | Some (k, obj) \<Rightarrow> k # ks, st2))"

lemma keys_put_same:
  assumes "smap_wf m" and "smap_find m k = Some v"
  shows "map fst (smap_put k w m) = map fst m"
proof -
  obtain a b where m: "m = a @ (k, v) # b" and put: "\<forall>w. smap_put k w m = a @ (k, w) # b"
    using smap_split [OF assms] by metis
  show ?thesis unfolding put [rule_format] by (simp add: m)
qed

lemma next_after:
  assumes "smap_wf m" and "i < length m"
  shows "find (\<lambda>e. fst (m ! i) < fst e) m =
    (if i + 1 < length m then Some (m ! (i + 1)) else None)"
proof -
  have lt: "fst (m ! a) < fst (m ! b)" if "a < b" "b < length m" for a b
    using assms(1) that by (auto simp: smap_wf_def sorted_wrt_iff_nth_less)
  have le: "\<not> fst (m ! i) < fst (m ! a)" if "a \<le> i" for a
    using lt [of a i] that assms(2) by (cases "a = i") auto
  show ?thesis
  proof (cases "i + 1 < length m")
    case True
    have "i + 1 < length m \<and> fst (m ! i) < fst (m ! (i + 1)) \<and> m ! (i + 1) = m ! (i + 1) \<and>
        (\<forall>j < i + 1. \<not> fst (m ! i) < fst (m ! j))"
      using True lt [of i "i + 1"] le by simp
    then have "find (\<lambda>e. fst (m ! i) < fst e) m = Some (m ! (i + 1))"
      unfolding find_Some_iff by blast
    with True show ?thesis by simp
  next
    case False
    have "\<not> fst (m ! i) < fst e" if e: "e \<in> set m" for e
    proof -
      obtain a where "a < length m" "m ! a = e" using e by (auto simp: in_set_conv_nth)
      with False le [of a] show ?thesis by simp
    qed
    then have "find (\<lambda>e. fst (m ! i) < fst e) m = None" unfolding find_None_iff by blast
    with False show ?thesis by simp
  qed
qed

text \<open>Where the iterator is: before the first call, or at the position of the last one.\<close>

definition ptr_at :: "'k::linorder omap \<Rightarrow> nat \<Rightarrow> bool" where
  "ptr_at st i \<longleftrightarrow> smap_wf (om_map st) \<and> om_map st \<noteq> [] \<and>
    om_ptr st = (if i = 0 then None else Some (map fst (om_map st) ! ((i - 1) mod length (om_map st))))"

lemma GetNext_at:
  assumes "ptr_at st i"
  shows "\<exists>obj st'. GetNext st = (Some (map fst (om_map st) ! (i mod length (om_map st)), obj), st') \<and>
    map fst (om_map st') = map fst (om_map st) \<and> ptr_at st' (Suc i)"
proof -
  let ?m = "om_map st" and ?n = "length (om_map st)"
  have wf: "smap_wf ?m" and ne: "?m \<noteq> []" using assms by (auto simp: ptr_at_def)
  then have n: "0 < ?n" by simp
  have np: "next_ptr st = Some (?m ! (i mod ?n))"
  proof (cases i)
    case 0
    with assms show ?thesis by (cases ?m) (auto simp: next_ptr_def ptr_at_def)
  next
    case (Suc j)
    let ?j = "j mod ?n"
    have j: "?j < ?n" using n by simp
    then have "om_ptr st = Some (fst (?m ! ?j))"
      using assms Suc by (simp add: ptr_at_def)
    moreover have "Suc j mod ?n = (if ?j + 1 < ?n then ?j + 1 else 0)"
      using j by (simp add: mod_Suc)
    moreover have "?m ! 0 = hd ?m" using ne by (simp add: hd_conv_nth)
    ultimately show ?thesis
      using next_after [OF wf j] Suc ne by (cases ?m) (auto simp: next_ptr_def)
  qed
  obtain k obj c where e: "?m ! (i mod ?n) = (k, obj, c)" by (cases "?m ! (i mod ?n)")
  have k: "map fst ?m ! (i mod ?n) = k" using e n by simp
  have f: "smap_find ?m k = Some (obj, c)"
    using e n by (intro in_smap_find [OF wf]) (metis mod_less_divisor nth_mem)
  let ?st = "st\<lparr>om_map := smap_put k (obj, c + 1) ?m, om_ptr := Some k\<rparr>"
  have g: "GetNext st = (Some (k, obj), ?st)" using np e by (simp add: GetNext_def)
  have keys: "map fst (om_map ?st) = map fst ?m" using keys_put_same [OF wf f] by simp
  then have len: "length (om_map ?st) = ?n" by (metis length_map)
  have "om_map ?st \<noteq> []" using len n by auto
  moreover have "smap_wf (om_map ?st)" using wf by simp
  moreover have "om_ptr ?st = Some (map fst (om_map ?st) ! (i mod ?n))" unfolding keys
    using k by simp
  ultimately have "ptr_at ?st (Suc i)" by (simp only: ptr_at_def len) simp
  with g keys k show ?thesis by blast
qed

text \<open>
  \<open>GetNext\<close> is fair: from the start of a cycle, \<open>n\<close> calls give the keys of the map in ascending
  order, over and over, each key once per round.
\<close>

theorem get_next_round_robin:
  assumes "smap_wf (om_map st)" and "om_map st \<noteq> []" and "om_ptr st = None"
  shows "fst (get_nexts n st) = map (\<lambda>i. map fst (om_map st) ! (i mod length (om_map st))) [0..<n]"
proof -
  have "fst (get_nexts n t) = map (\<lambda>j. map fst (om_map t) ! ((i + j) mod length (om_map t))) [0..<n]"
    if "ptr_at t i" for t :: "'a omap" and i
    using that
  proof (induction n arbitrary: t i)
    case 0
    then show ?case by simp
  next
    case (Suc n)
    obtain obj t' where g: "GetNext t = (Some (map fst (om_map t) ! (i mod length (om_map t)), obj), t')"
      and keys: "map fst (om_map t') = map fst (om_map t)" and at: "ptr_at t' (Suc i)"
      using GetNext_at [OF Suc.prems] by blast
    have len: "length (om_map t') = length (om_map t)" using keys by (metis length_map)
    have "[0..<Suc n] = 0 # map Suc [0..<n]" by (simp add: upt_conv_Cons map_Suc_upt)
    then show ?case
      using Suc.IH [OF at] by (simp add: g case_prod_beta keys len o_def)
  qed
  from this [of st 0] assms show ?thesis by (simp add: ptr_at_def)
qed

lemma get_next_round_robin_witness:
  "fst (get_nexts 5 \<lparr>om_map = [(2 :: nat, 7, 0), (4, 8, 0)], om_drop = [], om_ptr = None,
     om_created = [7, 8], om_destroyed = []\<rparr>) = [2, 4, 2, 4, 2]"
proof -
  have "map (\<lambda>i. map fst [(2 :: nat, 7 :: obj, 0 :: u64), (4, 8, 0)] ! (i mod 2)) [0..<5] = [2, 4, 2, 4, 2]"
    by code_simp
  then show ?thesis by (subst get_next_round_robin) (simp_all add: smap_wf_def numeral_2_eq_2)
qed

end
