(* ===== verification/Pools.thy ===== *)
theory Pools
  imports Flinter_Prelude "HOL-Library.Multiset"
begin

text \<open>
  The two pools of \<open>flinter/timeout_pool.h\<close> and \<open>flinter/object_pool.h\<close>. Objects are addresses, 0 is
  \<open>NULL\<close>; the clock is an argument. Times are mathematical integers: the code's \<open>int64_t\<close>
  nanoseconds stay in range for 292 years. What a pool deletes or destroys is recorded in order.
\<close>

type_synonym ptr = nat

section \<open>TimeoutPool\<close>

record tvalue =
  tv_d :: int
  tv_v :: ptr

record 'k tpool =
  tp_default_timeout :: int
  tp_auto_release :: bool
  tp_pool :: "('k, tvalue) smap"
  tp_deleted :: "ptr list"

definition new_tpool :: "int \<Rightarrow> bool \<Rightarrow> 'k tpool" where
  "new_tpool default_timeout auto_release =
    \<lparr>tp_default_timeout = default_timeout, tp_auto_release = auto_release, tp_pool = [],
     tp_deleted = []\<rparr>"

definition tp_delete :: "ptr list \<Rightarrow> 'k tpool \<Rightarrow> 'k tpool" where
  "tp_delete vs p = (if tp_auto_release p then p\<lparr>tp_deleted := tp_deleted p @ vs\<rparr> else p)"

definition TpInsert :: "'k::linorder \<Rightarrow> ptr \<Rightarrow> int \<Rightarrow> int \<Rightarrow> 'k tpool \<Rightarrow> 'k tpool" where
  "TpInsert k v timeout now p =
    (let deadline = now + (if timeout > 0 then timeout else tp_default_timeout p);
         value = \<lparr>tv_d = deadline, tv_v = v\<rparr>
     in case smap_find (tp_pool p) k of
          None \<Rightarrow> p\<lparr>tp_pool := smap_insert k value (tp_pool p)\<rparr>
        | Some old \<Rightarrow>
            let p1 = tp_delete [tv_v old] p
            in p1\<lparr>tp_pool := smap_put k value (tp_pool p1)\<rparr>)"

definition TpErase :: "'k::linorder \<Rightarrow> 'k tpool \<Rightarrow> ptr \<times> 'k tpool" where
  "TpErase k p =
    (case smap_find (tp_pool p) k of
       None \<Rightarrow> (0, p)
     | Some e \<Rightarrow> (tv_v e, p\<lparr>tp_pool := smap_erase k (tp_pool p)\<rparr>))"

definition TpCheck :: "int \<Rightarrow> 'k::linorder tpool \<Rightarrow> 'k tpool" where
  "TpCheck now p =
    (let due = filter (\<lambda>(k, e). tv_d e \<le> now) (tp_pool p);
         p1 = tp_delete (map (\<lambda>(k, e). tv_v e) due) p
     in p1\<lparr>tp_pool := fold smap_erase (map fst due) (tp_pool p1)\<rparr>)"

definition TpClear :: "'k tpool \<Rightarrow> 'k tpool" where
  "TpClear p = (tp_delete (map (\<lambda>(k, e). tv_v e) (tp_pool p)) p)\<lparr>tp_pool := []\<rparr>"

subsection \<open>Facts\<close>

definition tp_values :: "'k tpool \<Rightarrow> ptr multiset" where
  "tp_values p = mset (map (tv_v \<circ> snd) (tp_pool p))"

lemma tp_delete_simps [simp]:
  "tp_pool (tp_delete vs p) = tp_pool p" "tp_auto_release (tp_delete vs p) = tp_auto_release p"
  "tp_default_timeout (tp_delete vs p) = tp_default_timeout p"
  "tp_auto_release p \<Longrightarrow> tp_deleted (tp_delete vs p) = tp_deleted p @ vs"
  "\<not> tp_auto_release p \<Longrightarrow> tp_deleted (tp_delete vs p) = tp_deleted p"
  by (simp_all add: tp_delete_def)

lemma fold_erase_filter:
  "fold smap_erase ks m = filter (\<lambda>e. fst e \<notin> set ks) m"
  by (induction ks arbitrary: m) (auto simp: smap_erase_def intro: filter_cong)

lemma check_pool:
  assumes "smap_wf (tp_pool p)"
  shows "tp_pool (TpCheck now p) = filter (\<lambda>(k, e). now < tv_d e) (tp_pool p)"
proof -
  have "fst x \<notin> fst ` {y \<in> set (tp_pool p). tv_d (snd y) \<le> now} \<longleftrightarrow> now < tv_d (snd x)"
    if "x \<in> set (tp_pool p)" for x
    using that eq_key_imp_eq_value [OF smap_wf_distinct [OF assms]]
    by (auto simp: image_iff not_le [symmetric]) (metis prod.collapse)
  then show ?thesis
    by (simp add: TpCheck_def Let_def fold_erase_filter case_prod_beta cong: filter_cong)
qed

lemma mset_put:
  assumes "smap_wf m"
  shows "mset (smap_put k v m) = mset (smap_erase k m) + {#(k, v)#}"
  using assms
proof (induction m)
  case Nil
  then show ?case by (simp add: smap_erase_def)
next
  case (Cons e m)
  obtain a b where e: "e = (a, b)" by (cases e)
  have gt: "\<forall>x \<in> set m. a < fst x" and wf: "smap_wf m" using Cons.prems e by (auto simp: smap_wf_Cons)
  have same: "smap_erase k m = m" if "k \<le> a"
    using gt that by (auto simp: smap_erase_def filter_id_conv)
  show ?case
    using Cons.IH [OF wf] Cons.prems same
    by (auto simp: e smap_put_Cons not_less) (auto simp: smap_erase_def)
qed

lemma mset_erase:
  assumes "smap_wf m" and "smap_find m k = Some v"
  shows "mset m = mset (smap_erase k m) + {#(k, v)#}"
  using assms
proof (induction m)
  case Nil
  then show ?case by simp
next
  case (Cons e m)
  obtain a b where e: "e = (a, b)" by (cases e)
  have gt: "\<forall>x \<in> set m. a < fst x" and wf: "smap_wf m" using Cons.prems e by (auto simp: smap_wf_Cons)
  have same: "smap_erase a m = m" using gt by (auto simp: smap_erase_def filter_id_conv)
  show ?case
    using Cons.IH [OF wf] Cons.prems same
    by (auto simp: e smap_find_Cons split: if_splits) (auto simp: smap_erase_def)
qed

lemma erase_absent: "smap_find m k = None \<Longrightarrow> smap_erase k m = m"
  by (auto simp: smap_find_None smap_erase_def filter_id_conv)

text \<open>A sequence of calls, with what it inserted and what it gave back to the callers.\<close>

datatype 'k tp_call = CallInsert 'k ptr int int | CallErase 'k | CallCheck int | CallClear

fun tp_run :: "'k::linorder tp_call list \<Rightarrow> 'k tpool \<Rightarrow> ptr list \<times> ptr list \<times> 'k tpool" where
  "tp_run [] p = ([], [], p)"
| "tp_run (CallInsert k v t now # cs) p =
    (case tp_run cs (TpInsert k v t now p) of (ins, outs, q) \<Rightarrow> (v # ins, outs, q))"
| "tp_run (CallErase k # cs) p =
    (case TpErase k p of (v, p1) \<Rightarrow>
      (case tp_run cs p1 of (ins, outs, q) \<Rightarrow>
        (ins, if smap_find (tp_pool p) k = None then outs else v # outs, q)))"
| "tp_run (CallCheck now # cs) p = tp_run cs (TpCheck now p)"
| "tp_run (CallClear # cs) p = tp_run cs (TpClear p)"

lemma insert_account:
  assumes "smap_wf (tp_pool p)" and "tp_auto_release p"
  shows "smap_wf (tp_pool (TpInsert k v t now p)) \<and> tp_auto_release (TpInsert k v t now p) \<and>
    tp_values (TpInsert k v t now p) + mset (tp_deleted (TpInsert k v t now p)) =
    tp_values p + mset (tp_deleted p) + {#v#}"
proof (cases "smap_find (tp_pool p) k")
  case None
  then show ?thesis
    using assms mset_put [OF assms(1)] erase_absent [OF None]
    by (auto simp: TpInsert_def Let_def tp_values_def smap_insert_def)
next
  case (Some old)
  then show ?thesis
    using assms mset_put [OF assms(1), of k] mset_erase [OF assms(1) Some]
    by (auto simp: TpInsert_def Let_def tp_values_def)
qed

lemma erase_account:
  assumes "smap_wf (tp_pool p)" and "TpErase k p = (v, q)"
  shows "smap_wf (tp_pool q) \<and> tp_auto_release q = tp_auto_release p \<and> tp_deleted q = tp_deleted p \<and>
    tp_values p = tp_values q + (if smap_find (tp_pool p) k = None then {#} else {#v#})"
proof (cases "smap_find (tp_pool p) k")
  case None
  then show ?thesis using assms by (auto simp: TpErase_def)
next
  case (Some e)
  then show ?thesis
    using assms mset_erase [OF assms(1) Some]
    by (auto simp: TpErase_def tp_values_def)
qed

lemma mset_parts:
  "mset (map (tv_v \<circ> snd) (filter (\<lambda>(k, e). now < tv_d e) m)) +
   mset (map (\<lambda>(k, e). tv_v e) (filter (\<lambda>(k, e). tv_d e \<le> now) m)) = mset (map (tv_v \<circ> snd) m)"
  by (induction m) auto

lemma check_account:
  assumes "smap_wf (tp_pool p)" and "tp_auto_release p"
  shows "smap_wf (tp_pool (TpCheck now p)) \<and> tp_auto_release (TpCheck now p) \<and>
    tp_values (TpCheck now p) + mset (tp_deleted (TpCheck now p)) = tp_values p + mset (tp_deleted p)"
proof -
  have "smap_wf (filter P (tp_pool p))" for P
    using assms(1) by (simp add: smap_wf_def sorted_wrt_filter sorted_wrt_map)
  moreover have "tp_values (TpCheck now p) + mset (map (\<lambda>(k, e). tv_v e) (filter (\<lambda>(k, e). tv_d e \<le> now) (tp_pool p)))
      = tp_values p"
    unfolding tp_values_def check_pool [OF assms(1)] by (rule mset_parts)
  ultimately show ?thesis
    using assms(2) check_pool [OF assms(1)] by (auto simp: TpCheck_def Let_def)
qed

lemma clear_account:
  assumes "tp_auto_release p"
  shows "smap_wf (tp_pool (TpClear p)) \<and> tp_auto_release (TpClear p) \<and>
    tp_values (TpClear p) + mset (tp_deleted (TpClear p)) = tp_values p + mset (tp_deleted p)"
  using assms by (simp add: TpClear_def tp_values_def case_prod_beta' comp_def)

lemma run_account:
  "smap_wf (tp_pool p) \<Longrightarrow> tp_auto_release p \<Longrightarrow> tp_run cs p = (ins, outs, q) \<Longrightarrow>
    tp_values q + mset (tp_deleted q) + mset outs = tp_values p + mset (tp_deleted p) + mset ins"
proof (induction cs p arbitrary: ins outs q rule: tp_run.induct)
  case (1 p)
  then show ?case by simp
next
  case (2 k v t now cs p)
  obtain i o' where r: "tp_run cs (TpInsert k v t now p) = (i, o', q)" and ins: "ins = v # i" "outs = o'"
    using 2(4) by (auto split: prod.splits)
  note A = insert_account [OF 2(2,3), of k v t now]
  have "tp_values q + mset (tp_deleted q) + mset o' = tp_values (TpInsert k v t now p)
      + mset (tp_deleted (TpInsert k v t now p)) + mset i"
    using 2(1) A r by blast
  with A ins show ?case by simp
next
  case (3 k cs p)
  obtain v p1 where e: "TpErase k p = (v, p1)" by fastforce
  obtain i o' where r: "tp_run cs p1 = (i, o', q)"
    and outs: "outs = (if smap_find (tp_pool p) k = None then o' else v # o')" "ins = i"
    using 3(4) e by (auto split: prod.splits)
  note A = erase_account [OF 3(2) e]
  have "tp_values q + mset (tp_deleted q) + mset o' = tp_values p1 + mset (tp_deleted p1) + mset i"
    using 3(1) [OF e [symmetric]] A 3(3) r by blast
  with A outs show ?case by (auto split: if_splits)
next
  case (4 now cs p)
  note A = check_account [OF 4(2,3), of now]
  have "tp_values q + mset (tp_deleted q) + mset outs = tp_values (TpCheck now p)
      + mset (tp_deleted (TpCheck now p)) + mset ins"
    using 4(1) A 4(4) by simp
  with A show ?case by simp
next
  case (5 cs p)
  note A = clear_account [OF 5(3)]
  have "tp_values q + mset (tp_deleted q) + mset outs = tp_values (TpClear p)
      + mset (tp_deleted (TpClear p)) + mset ins"
    using 5(1) A 5(4) by simp
  with A show ?case by simp
qed

text \<open>
  C20. A pool that releases its values accounts for each of them: over any sequence of calls on a new
  pool, the values inserted are exactly those still pooled, those deleted and those given back
  by \<open>Erase\<close>, each once. After \<open>Clear\<close> every value not given back has been deleted.
\<close>

theorem timeout_pool_accounts:
  assumes "tp_run cs (new_tpool d True) = (ins, outs, p)"
  shows "mset ins = tp_values p + mset (tp_deleted p) + mset outs \<and>
    mset ins = mset (tp_deleted (TpClear p)) + mset outs \<and> tp_pool (TpClear p) = []"
proof -
  have s: "smap_wf (tp_pool (new_tpool d True :: 'a tpool))" "tp_auto_release (new_tpool d True :: 'a tpool)"
    by (simp_all add: new_tpool_def)
  have 1: "mset ins = tp_values p + mset (tp_deleted p) + mset outs"
    using run_account [OF s assms] by (simp add: new_tpool_def tp_values_def)
  have "tp_run (cs @ [CallClear]) q = (case tp_run cs q of (i, o', r) \<Rightarrow> (i, o', TpClear r))" for q :: "'a tpool"
    by (induction cs q rule: tp_run.induct) (auto split: prod.splits)
  then have "tp_run (cs @ [CallClear]) (new_tpool d True) = (ins, outs, TpClear p)" using assms by simp
  from run_account [OF s this] have "mset ins = tp_values (TpClear p) + mset (tp_deleted (TpClear p)) + mset outs"
    by (simp add: new_tpool_def tp_values_def)
  with 1 show ?thesis by (simp add: TpClear_def tp_values_def)
qed

lemma timeout_pool_accounts_witness:
  "\<exists>p. tp_run [CallInsert (1 :: nat) 11 0 100, CallInsert 1 12 0 110, CallInsert 2 13 0 120, CallErase 2, CallCheck 150]
      (new_tpool 30 True) = ([11, 12, 13], [13], p) \<and>
    {#11, 12, 13#} = tp_values p + mset (tp_deleted p) + {#13#}"
proof -
  have "tp_run [CallInsert (1 :: nat) 11 0 100, CallInsert 1 12 0 110, CallInsert 2 13 0 120, CallErase 2, CallCheck 150]
      (new_tpool 30 True) = ([11, 12, 13], [13],
        \<lparr>tp_default_timeout = 30, tp_auto_release = True, tp_pool = [], tp_deleted = [11, 12]\<rparr>)"
    by code_simp
  note r = this
  let ?p = "\<lparr>tp_default_timeout = 30, tp_auto_release = True, tp_pool = [] :: (nat, tvalue) smap,
    tp_deleted = [11, 12]\<rparr>"
  from timeout_pool_accounts [OF r] have "mset [11, 12, 13] = tp_values ?p + mset (tp_deleted ?p) + mset [13]"
    by blast
  then have "{#11, 12, 13#} = tp_values ?p + mset (tp_deleted ?p) + {#13#}" by simp
  with r show ?thesis by blast
qed

text \<open>Calls that leave the entry of a key alone.\<close>

fun spares :: "'k \<Rightarrow> int \<Rightarrow> 'k tp_call \<Rightarrow> bool" where
  "spares k d (CallInsert k' _ _ _) = (k' \<noteq> k)"
| "spares k d (CallErase k') = (k' \<noteq> k)"
| "spares k d (CallCheck now) = (now < d)"
| "spares k d CallClear = False"

lemma find_filter_wf:
  assumes "smap_wf m"
  shows "smap_find (filter P m) k = (case smap_find m k of None \<Rightarrow> None | Some e \<Rightarrow> if P (k, e) then Some e else None)"
  using smap_wf_distinct [OF assms]
  by (induction m) (auto simp: smap_find_Cons split: option.splits
      dest: map_of_SomeD simp: smap_find_def map_of_eq_None_iff image_iff)

lemma spared:
  "list_all (spares k (tv_d e)) cs \<Longrightarrow> smap_wf (tp_pool p) \<Longrightarrow> smap_find (tp_pool p) k = Some e \<Longrightarrow>
    tp_run cs p = (ins, outs, q) \<Longrightarrow> smap_find (tp_pool q) k = Some e"
proof (induction cs p arbitrary: ins outs q rule: tp_run.induct)
  case (2 k' v t now cs p)
  have "smap_find (tp_pool (TpInsert k' v t now p)) k = Some e" "smap_wf (tp_pool (TpInsert k' v t now p))"
    using 2(2-4) by (auto simp: TpInsert_def Let_def split: option.splits)
  with 2 show ?case by (auto split: prod.splits)
next
  case (3 k' cs p)
  obtain v p1 where e: "TpErase k' p = (v, p1)" by fastforce
  have "smap_find (tp_pool p1) k = Some e" "smap_wf (tp_pool p1)"
    using 3(2-4) e by (auto simp: TpErase_def split: option.splits)
  with 3(1) [OF e [symmetric]] 3(2,5) e show ?case by (auto split: prod.splits)
next
  case (4 now cs p)
  have "smap_find (tp_pool (TpCheck now p)) k = Some e"
    using 4(2-4) by (simp add: check_pool find_filter_wf)
  moreover have "smap_wf (tp_pool (TpCheck now p))"
    using 4(3) by (simp add: check_pool smap_wf_def sorted_wrt_filter sorted_wrt_map)
  ultimately show ?case using 4 by simp
qed auto

text \<open>
  A value stays available until its deadline: after \<open>Insert\<close>, whatever happens to other keys and
  however often the pool is checked before the deadline, \<open>Erase\<close> gives the value back and removes the
  key; one check at the deadline or later deletes it, and \<open>Erase\<close> gives \<open>NULL\<close>.
\<close>

theorem kept_until_deadline:
  assumes "smap_wf (tp_pool p)" and "tp_auto_release p"
    and "deadline = now + (if timeout > 0 then timeout else tp_default_timeout p)"
    and "list_all (spares k deadline) cs" and "tp_run cs (TpInsert k v timeout now p) = (ins, outs, q)"
  shows "fst (TpErase k q) = v \<and> fst (TpErase k (snd (TpErase k q))) = 0 \<and>
    (\<forall>now'. fst (TpErase k (TpCheck now' q)) = (if deadline \<le> now' then 0 else v)) \<and>
    (\<forall>now' \<ge> deadline. v \<in> set (tp_deleted (TpCheck now' q)))"
proof -
  let ?e = "\<lparr>tv_d = deadline, tv_v = v\<rparr>"
  have f: "smap_find (tp_pool (TpInsert k v timeout now p)) k = Some ?e"
    using assms(1,3) by (auto simp: TpInsert_def Let_def split: option.splits)
  note I = insert_account [OF assms(1,2), of k v timeout now]
  have q: "smap_find (tp_pool q) k = Some ?e"
    by (rule spared [OF _ _ f assms(5)]) (use assms(4) I in simp_all)
  have keep: "smap_wf (tp_pool r) \<and> tp_auto_release r" if "tp_run cs s = (i, o', r)" "smap_wf (tp_pool s)" "tp_auto_release s"
    for cs i o' r and s :: "'a tpool"
    using that
  proof (induction cs s arbitrary: i o' r rule: tp_run.induct)
    case (2 k v t now cs p)
    with insert_account [OF 2(3,4), of k v t now] show ?case by (auto split: prod.splits)
  next
    case (3 k cs p)
    obtain v p1 where e: "TpErase k p = (v, p1)" by fastforce
    with 3 erase_account [OF 3(3) e] show ?case by (auto split: prod.splits)
  next
    case (4 now cs p)
    with check_account [OF 4(3,4)] show ?case by auto
  next
    case (5 cs p)
    with clear_account [OF 5(4)] show ?case by auto
  qed simp
  have wf: "smap_wf (tp_pool q)" and auto': "tp_auto_release q" using keep [OF assms(5)] I by auto
  have "fst (TpErase k (TpCheck now' q)) = (if deadline \<le> now' then 0 else v)" for now'
    using q wf by (simp add: TpErase_def check_pool find_filter_wf)
  moreover have "v \<in> set (tp_deleted (TpCheck now' q))" if "deadline \<le> now'" for now'
    using smap_find_in [OF q] auto' that by (force simp: TpCheck_def Let_def)
  moreover have "fst (TpErase k q) = v \<and> fst (TpErase k (snd (TpErase k q))) = 0"
    using q by (simp add: TpErase_def)
  ultimately show ?thesis by blast
qed

lemma kept_until_deadline_witness:
  "\<exists>ins outs q. tp_run [CallInsert 2 12 0 100, CallCheck 129] (TpInsert (3 :: nat) 11 0 100 (new_tpool 30 True))
      = (ins, outs, q) \<and> fst (TpErase 3 q) = 11"
proof -
  obtain ins outs q where r:
    "tp_run [CallInsert 2 12 0 100, CallCheck 129] (TpInsert (3 :: nat) 11 0 100 (new_tpool 30 True)) = (ins, outs, q)"
    by (metis prod_cases3)
  have pre: "smap_wf (tp_pool (new_tpool 30 True :: nat tpool))" "tp_auto_release (new_tpool 30 True :: nat tpool)"
    "(130 :: int) = 100 + (if (0 :: int) > 0 then 0 else tp_default_timeout (new_tpool 30 True :: nat tpool))"
    "list_all (spares (3 :: nat) 130) [CallInsert 2 12 0 100, CallCheck 129]"
    by (simp_all add: new_tpool_def)
  from kept_until_deadline [OF pre r] r show ?thesis by blast
qed

section \<open>ObjectPool\<close>

record pobject =
  po_object :: ptr
  po_in_use :: bool
  po_timestamp :: int

record opool =
  op_pool :: "pobject list"
  op_destroyed :: "ptr list"

text \<open>\<open>Grab\<close> up to its \<open>Unlock\<close>: the first object nobody uses, if there is one.\<close>

fun grab_first :: "pobject list \<Rightarrow> (ptr \<times> pobject list) option" where
  "grab_first [] = None"
| "grab_first (p # ps) =
    (if \<not> po_in_use p then Some (po_object p, p\<lparr>po_in_use := True\<rparr> # ps)
     else case grab_first ps of None \<Rightarrow> None | Some (x, ps') \<Rightarrow> Some (x, p # ps'))"

definition OpGrabIdle :: "opool \<Rightarrow> (ptr \<times> opool) option" where
  "OpGrabIdle st =
    (case grab_first (op_pool st) of None \<Rightarrow> None | Some (x, ps) \<Rightarrow> Some (x, st\<lparr>op_pool := ps\<rparr>))"

text \<open>The rest of \<open>Grab\<close>: \<open>created\<close> is the result of \<open>Create\<close>, which runs without the lock.\<close>

definition OpGrabNew :: "ptr \<Rightarrow> opool \<Rightarrow> ptr \<times> opool" where
  "OpGrabNew created st =
    (if created = 0 then (0, st)
     else (created, st\<lparr>op_pool := op_pool st @
       [\<lparr>po_object = created, po_in_use = True, po_timestamp = -1\<rparr>]\<rparr>))"

definition OpGrab :: "ptr \<Rightarrow> opool \<Rightarrow> ptr \<times> opool" where
  "OpGrab created st = (case OpGrabIdle st of Some r \<Rightarrow> r | None \<Rightarrow> OpGrabNew created st)"

fun remove_first :: "ptr \<Rightarrow> pobject list \<Rightarrow> pobject list" where
  "remove_first x [] = []"
| "remove_first x (p # ps) = (if po_object p = x then ps else p # remove_first x ps)"

definition OpRemove :: "ptr \<Rightarrow> opool \<Rightarrow> opool" where
  "OpRemove x st = st\<lparr>op_pool := remove_first x (op_pool st), op_destroyed := op_destroyed st @ [x]\<rparr>"

definition OpExchange :: "ptr \<Rightarrow> ptr \<Rightarrow> opool \<Rightarrow> ptr \<times> opool" where
  "OpExchange x created st = OpGrab created (OpRemove x st)"

fun release_first :: "ptr \<Rightarrow> int \<Rightarrow> pobject list \<Rightarrow> pobject list" where
  "release_first x now [] = []"
| "release_first x now (p # ps) =
    (if po_object p = x then p\<lparr>po_in_use := False, po_timestamp := now\<rparr> # ps
     else p # release_first x now ps)"

definition OpRelease :: "ptr \<Rightarrow> int \<Rightarrow> opool \<Rightarrow> opool" where
  "OpRelease x now st = st\<lparr>op_pool := release_first x now (op_pool st)\<rparr>"

definition OpClear :: "bool \<Rightarrow> int \<Rightarrow> int \<Rightarrow> opool \<Rightarrow> opool" where
  "OpClear all now max_idle_time st =
    (let gone = \<lambda>p. all \<or> \<not> po_in_use p \<and> po_timestamp p < now - max_idle_time
     in st\<lparr>op_pool := filter (\<lambda>p. \<not> gone p) (op_pool st),
          op_destroyed := op_destroyed st @ map po_object (filter gone (op_pool st))\<rparr>)"

definition OpShrink :: "int \<Rightarrow> int \<Rightarrow> opool \<Rightarrow> opool" where
  "OpShrink now max_idle_time st = OpClear False now max_idle_time st"

subsection \<open>An object has one user\<close>

text \<open>
  The users of a pool as a step relation over the pool and the objects held: \<open>Create\<close> gives an
  address that is neither in the pool nor \<open>NULL\<close>, a user gives back or removes what it holds, and
  the two halves of \<open>Grab\<close> may be separated by steps of other threads.
\<close>

inductive op_step :: "opool \<times> ptr multiset \<Rightarrow> opool \<times> ptr multiset \<Rightarrow> bool" where
  grab: "OpGrabIdle st = Some (x, st') \<Longrightarrow> op_step (st, held) (st', add_mset x held)"
| create: "c \<noteq> 0 \<Longrightarrow> c \<notin> po_object ` set (op_pool st) \<Longrightarrow> OpGrabNew c st = (x, st') \<Longrightarrow>
     op_step (st, held) (st', add_mset x held)"
| release: "x \<in># held \<Longrightarrow> op_step (st, held) (OpRelease x now st, held - {#x#})"
| remove: "x \<in># held \<Longrightarrow> op_step (st, held) (OpRemove x st, held - {#x#})"
| shrink: "op_step (st, held) (OpShrink now idle st, held)"

definition op_inv :: "opool \<times> ptr multiset \<Rightarrow> bool" where
  "op_inv s \<longleftrightarrow> distinct (map po_object (op_pool (fst s))) \<and>
    snd s = mset (map po_object (filter po_in_use (op_pool (fst s))))"

lemma grab_first_parts:
  "grab_first ps = Some (x, ps') \<Longrightarrow> \<exists>a p b. ps = a @ p # b \<and> \<not> po_in_use p \<and> po_object p = x \<and>
    ps' = a @ p\<lparr>po_in_use := True\<rparr> # b"
proof (induction ps arbitrary: ps')
  case Nil
  then show ?case by simp
next
  case (Cons p ps)
  show ?case
  proof (cases "po_in_use p")
    case False
    then have "p # ps = [] @ p # ps \<and> \<not> po_in_use p \<and> po_object p = x \<and> ps' = [] @ p\<lparr>po_in_use := True\<rparr> # ps"
      using Cons.prems by auto
    then show ?thesis by blast
  next
    case True
    then obtain qs where "grab_first ps = Some (x, qs)" "ps' = p # qs"
      using Cons.prems by (auto split: option.splits)
    with Cons.IH show ?thesis by (metis append_Cons)
  qed
qed

lemma grab_first_None: "grab_first ps = None \<longleftrightarrow> (\<forall>p \<in> set ps. po_in_use p)"
  by (induction ps) (auto split: option.splits)

lemma split_first:
  "x \<in> po_object ` set ps \<Longrightarrow> \<exists>a p b. ps = a @ p # b \<and> po_object p = x \<and> x \<notin> po_object ` set a \<and>
    remove_first x ps = a @ b \<and> release_first x now ps = a @ p\<lparr>po_in_use := False, po_timestamp := now\<rparr> # b"
proof (induction ps)
  case Nil
  then show ?case by simp
next
  case (Cons q ps)
  show ?case
  proof (cases "po_object q = x")
    case True
    then have "q # ps = [] @ q # ps \<and> po_object q = x \<and> x \<notin> po_object ` set [] \<and>
        remove_first x (q # ps) = [] @ ps \<and>
        release_first x now (q # ps) = [] @ q\<lparr>po_in_use := False, po_timestamp := now\<rparr> # ps" by simp
    then show ?thesis by blast
  next
    case False
    then obtain a p b where "ps = a @ p # b" "po_object p = x" "x \<notin> po_object ` set a"
      "remove_first x ps = a @ b" "release_first x now ps = a @ p\<lparr>po_in_use := False, po_timestamp := now\<rparr> # b"
      using Cons by auto
    with False have "q # ps = (q # a) @ p # b \<and> po_object p = x \<and> x \<notin> po_object ` set (q # a) \<and>
        remove_first x (q # ps) = (q # a) @ b \<and>
        release_first x now (q # ps) = (q # a) @ p\<lparr>po_in_use := False, po_timestamp := now\<rparr> # b" by simp
    then show ?thesis by blast
  qed
qed

lemma held_in_use:
  assumes "op_inv (st, held)" and "x \<in># held"
  obtains a p b where "op_pool st = a @ p # b" "po_object p = x" "po_in_use p"
    "remove_first x (op_pool st) = a @ b"
    "release_first x now (op_pool st) = a @ p\<lparr>po_in_use := False, po_timestamp := now\<rparr> # b"
proof -
  obtain q where q: "q \<in> set (op_pool st)" "po_in_use q" "po_object q = x"
    using assms by (auto simp: op_inv_def)
  then have "x \<in> po_object ` set (op_pool st)" by auto
  then obtain a p b where P: "op_pool st = a @ p # b" "po_object p = x"
    "remove_first x (op_pool st) = a @ b"
    "release_first x now (op_pool st) = a @ p\<lparr>po_in_use := False, po_timestamp := now\<rparr> # b"
    using split_first [of x "op_pool st" now] by auto
  have "p = q" using assms(1) q P(1,2) by (auto simp: op_inv_def image_iff)
  with that P q show thesis by blast
qed

interpretation op_users: step_invariant op_step op_inv
proof
  fix s t :: "opool \<times> ptr multiset"
  assume "op_step s t" and "op_inv s"
  then show "op_inv t"
  proof (cases rule: op_step.cases)
    case (grab st x st' held)
    then obtain ps where "grab_first (op_pool st) = Some (x, ps)" "st' = st\<lparr>op_pool := ps\<rparr>"
      by (auto simp: OpGrabIdle_def split: option.splits)
    with \<open>op_inv s\<close> grab show ?thesis by (auto simp: op_inv_def dest!: grab_first_parts)
  next
    case (create c st x st' held)
    with \<open>op_inv s\<close> show ?thesis by (auto simp: op_inv_def OpGrabNew_def)
  next
    case (release x held st now)
    obtain a p b where "op_pool st = a @ p # b" "po_object p = x" "po_in_use p"
      "release_first x now (op_pool st) = a @ p\<lparr>po_in_use := False, po_timestamp := now\<rparr> # b"
      using held_in_use [OF _ release(3)] \<open>op_inv s\<close> release(1) by metis
    with \<open>op_inv s\<close> release show ?thesis by (auto simp: op_inv_def OpRelease_def)
  next
    case (remove x held st)
    obtain a p b where "op_pool st = a @ p # b" "po_object p = x" "po_in_use p"
      "remove_first x (op_pool st) = a @ b"
      using held_in_use [OF _ remove(3)] \<open>op_inv s\<close> remove(1) by metis
    with \<open>op_inv s\<close> remove show ?thesis by (auto simp: op_inv_def OpRemove_def)
  next
    case (shrink st held now max_idle)
    have "(A \<and> (A \<or> B)) = A" for A B by blast
    with \<open>op_inv s\<close> shrink show ?thesis
      by (auto simp: op_inv_def OpShrink_def OpClear_def Let_def distinct_map_filter conj_commute)
  qed
qed

text \<open>
  In every state the users of a pool reach from an empty one, no object is held twice, what is
  held is in the pool and marked in use, \<open>Grab\<close> hands out an object nobody holds, and \<open>Shrink\<close>
  destroys only objects that have been idle longer than the limit and are held by nobody.
\<close>

theorem pooled_object_has_one_user:
  assumes "op_step\<^sup>*\<^sup>* (\<lparr>op_pool = [], op_destroyed = []\<rparr>, {#}) (st, held)"
  shows "(\<forall>x. count held x \<le> 1) \<and>
    (\<forall>x \<in># held. \<exists>p \<in> set (op_pool st). po_object p = x \<and> po_in_use p) \<and>
    (\<forall>x st'. OpGrabIdle st = Some (x, st') \<longrightarrow> x \<notin># held) \<and>
    (\<forall>now idle. \<exists>gone. op_destroyed (OpShrink now idle st) = op_destroyed st @ gone \<and>
      (\<forall>x \<in> set gone. x \<notin># held \<and> (\<exists>p \<in> set (op_pool st). po_object p = x \<and> po_timestamp p < now - idle)))"
proof -
  have "op_inv (\<lparr>op_pool = [], op_destroyed = []\<rparr>, {#})" by (simp add: op_inv_def)
  with op_users.steps_keep [OF assms] have inv: "op_inv (st, held)" by blast
  then have held: "held = mset (map po_object (filter po_in_use (op_pool st)))"
    and dist: "distinct (map po_object (op_pool st))" by (auto simp: op_inv_def)
  have one: "count held x \<le> 1" for x
  proof -
    have "distinct (map po_object (filter po_in_use (op_pool st)))" using dist by (rule distinct_map_filter)
    then have "count held x = (if x \<in> set (map po_object (filter po_in_use (op_pool st))) then 1 else 0)"
      unfolding held distinct_count_atmost_1 by blast
    then show ?thesis by simp
  qed
  have idle: "po_object p \<notin># held" if "p \<in> set (op_pool st)" "\<not> po_in_use p" for p
    using that dist unfolding held by (auto simp: distinct_map inj_on_def)
  have "x \<notin># held" if "OpGrabIdle st = Some (x, st')" for x st'
    using that idle by (auto simp: OpGrabIdle_def split: option.splits dest!: grab_first_parts)
  moreover have "\<exists>gone. op_destroyed (OpShrink now lim st) = op_destroyed st @ gone \<and>
      (\<forall>x \<in> set gone. x \<notin># held \<and> (\<exists>p \<in> set (op_pool st). po_object p = x \<and> po_timestamp p < now - lim))" for now lim
    using idle by (auto simp: OpShrink_def OpClear_def)
  ultimately show ?thesis using one by (auto simp: held)
qed

lemma pooled_object_has_one_user_witness:
  "\<exists>st. op_step\<^sup>*\<^sup>* (\<lparr>op_pool = [], op_destroyed = []\<rparr>, {#}) (st, {#5 :: nat#}) \<and>
    (\<forall>x st'. OpGrabIdle st = Some (x, st') \<longrightarrow> x \<notin># {#5 :: nat#})"
proof -
  have "op_step (\<lparr>op_pool = [], op_destroyed = []\<rparr>, {#})
      (\<lparr>op_pool = [\<lparr>po_object = 5, po_in_use = True, po_timestamp = -1\<rparr>], op_destroyed = []\<rparr>, {#5 :: nat#})"
    using op_step.create [of 5 "\<lparr>op_pool = [], op_destroyed = []\<rparr>" 5 _ "{#}"] by (simp add: OpGrabNew_def)
  then have run: "op_step\<^sup>*\<^sup>* (\<lparr>op_pool = [], op_destroyed = []\<rparr>, {#})
      (\<lparr>op_pool = [\<lparr>po_object = 5, po_in_use = True, po_timestamp = -1\<rparr>], op_destroyed = []\<rparr>, {#5 :: nat#})"
    by (rule r_into_rtranclp)
  from pooled_object_has_one_user [OF run] run show ?thesis by blast
qed

end
