(* ===== verification/Thread_Pools.thy ===== *)
theory Thread_Pools
  imports Flinter_Prelude "HOL-Library.Multiset"
begin

text \<open>
  The thread pools of \<open>flinter/thread/\<close>: \<open>fixed_thread_pool.cpp\<close>, \<open>keyed_thread_pool.cpp\<close> and
  \<open>growable_thread_pool.cpp\<close>. Threads and jobs are addresses. Every definition is one stretch of
  code under the pool's mutex: \<open>RequestJob\<close> is a round of its loop (a thread that has to wait asks
  again, which a wake-up, spurious or not, does in the code), \<open>Shutdown\<close> is what happens before and
  after the joins. An operation whose assertion fails, or that divides by zero, gives \<open>None\<close>.
\<close>

section \<open>Jobs\<close>

type_synonym tid = nat

record job =
  j_runnable :: nat
  j_auto_release :: bool

text \<open>\<open>Purge\<close>: the runnables it deletes.\<close>

definition Purge :: "job list \<Rightarrow> nat list" where
  "Purge jobs = map j_runnable (filter j_auto_release jobs)"

text \<open>What \<open>Shutdown\<close> does under its first lock: return, or terminate some threads and join all.\<close>

datatype shutdown = ShutdownReturn bool | ShutdownJoin "tid list" "tid list"

section \<open>FixedThreadPool\<close>

record fpool =
  f_actives :: "tid list"
  f_threads :: "tid list"
  f_initializing :: bool
  f_pending :: "job list"
  f_deleted :: "nat list"

definition new_fpool :: fpool where
  "new_fpool = \<lparr>f_actives = [], f_threads = [], f_initializing = False, f_pending = [], f_deleted = []\<rparr>"

text \<open>\<open>Spawn\<close>, with the addresses of the new threads.\<close>

definition FSpawn :: "tid list \<Rightarrow> fpool \<Rightarrow> fpool" where
  "FSpawn fresh p = p\<lparr>f_threads := f_threads p @ fresh\<rparr>"

definition FInitialize :: "tid list \<Rightarrow> fpool \<Rightarrow> bool \<times> fpool" where
  "FInitialize fresh p =
    (if length fresh = 0 then (False, p)
     else if f_initializing p \<or> f_threads p \<noteq> [] then (False, p)
     else (True, FSpawn fresh p))"

definition FShutdownBegin :: "bool \<Rightarrow> fpool \<Rightarrow> shutdown \<times> fpool" where
  "FShutdownBegin wait_for_jobs_done p =
    (if f_initializing p then (ShutdownReturn False, p)
     else if f_threads p = [] then (ShutdownReturn True, p)
     else (ShutdownJoin (f_threads p) (if wait_for_jobs_done then [] else f_actives p),
       p\<lparr>f_deleted := f_deleted p @ Purge (f_pending p), f_pending := [], f_actives := [],
         f_threads := [], f_initializing := True\<rparr>))"

definition FShutdownEnd :: "fpool \<Rightarrow> fpool" where
  "FShutdownEnd p = p\<lparr>f_initializing := False\<rparr>"

text \<open>\<open>TryRequestJob\<close>: no answer, or a job or \<open>NULL\<close>.\<close>

definition FTryRequestJob :: "fpool \<Rightarrow> job option option \<times> fpool" where
  "FTryRequestJob p =
    (if f_initializing p then (Some None, p)
     else case f_pending p of
            [] \<Rightarrow> (None, p)
          | j # js \<Rightarrow> (Some (Some j), p\<lparr>f_pending := js\<rparr>))"

definition FRequestJob :: "tid \<Rightarrow> fpool \<Rightarrow> job option option \<times> fpool" where
  "FRequestJob t p =
    (case FTryRequestJob (p\<lparr>f_actives := removeAll t (f_actives p)\<rparr>) of
       (Some (Some j), p1) \<Rightarrow> (Some (Some j), p1\<lparr>f_actives := List.insert t (f_actives p1)\<rparr>)
     | r \<Rightarrow> r)"

definition FAppendJob :: "nat \<Rightarrow> bool \<Rightarrow> fpool \<Rightarrow> (bool \<times> fpool) option" where
  "FAppendJob runnable auto_release p =
    (if runnable = 0 then None
     else if f_initializing p then Some (False, p)
     else Some (True, p\<lparr>f_pending := f_pending p @
       [\<lparr>j_runnable = runnable, j_auto_release = auto_release\<rparr>]\<rparr>))"

text \<open>\<open>KillAll\<close>: \<open>kill t\<close> is the result of the signal to thread \<open>t\<close>.\<close>

definition FKillAll :: "(tid \<Rightarrow> bool) \<Rightarrow> fpool \<Rightarrow> bool" where
  "FKillAll kill p = (if f_initializing p then False else fold (\<lambda>t result. result \<and> kill t) (f_actives p) True)"

section \<open>KeyedThreadPool\<close>

record kcontext =
  k_thread :: tid
  k_pending :: "job list"

record kpool =
  k_actives :: "tid list"
  k_threads :: "kcontext list"
  k_initializing :: bool
  k_deleted :: "nat list"

definition new_kpool :: kpool where
  "new_kpool = \<lparr>k_actives = [], k_threads = [], k_initializing = False, k_deleted = []\<rparr>"

definition KSpawn :: "tid list \<Rightarrow> kpool \<Rightarrow> kpool" where
  "KSpawn fresh p =
    p\<lparr>k_threads := k_threads p @ map (\<lambda>t. \<lparr>k_thread = t, k_pending = []\<rparr>) fresh\<rparr>"

definition KInitialize :: "tid list \<Rightarrow> kpool \<Rightarrow> bool \<times> kpool" where
  "KInitialize fresh p =
    (if length fresh = 0 then (False, p)
     else if k_initializing p \<or> k_threads p \<noteq> [] then (False, p)
     else (True, KSpawn fresh p))"

definition KShutdownBegin :: "bool \<Rightarrow> kpool \<Rightarrow> shutdown \<times> kpool" where
  "KShutdownBegin wait_for_jobs_done p =
    (if k_initializing p then (ShutdownReturn False, p)
     else if k_threads p = [] then (ShutdownReturn True, p)
     else (ShutdownJoin (map k_thread (k_threads p)) (if wait_for_jobs_done then [] else k_actives p),
       p\<lparr>k_deleted := k_deleted p @ concat (map (\<lambda>c. Purge (k_pending c)) (k_threads p)),
         k_actives := [], k_threads := [], k_initializing := True\<rparr>))"

definition KShutdownEnd :: "kpool \<Rightarrow> kpool" where
  "KShutdownEnd p = p\<lparr>k_initializing := False\<rparr>"

text \<open>
  A thread keeps the address of its context; \<open>i\<close> is where the context is in the vector, which does
  not matter any more once the pool shuts down.
\<close>

definition KTryRequestJob :: "nat \<Rightarrow> kpool \<Rightarrow> job option option \<times> kpool" where
  "KTryRequestJob i p =
    (if k_initializing p then (Some None, p)
     else case k_pending (k_threads p ! i) of
            [] \<Rightarrow> (None, p)
          | j # js \<Rightarrow> (Some (Some j), p\<lparr>k_threads := (k_threads p)[i := (k_threads p ! i)\<lparr>k_pending := js\<rparr>]\<rparr>))"

definition KRequestJob :: "nat \<Rightarrow> tid \<Rightarrow> kpool \<Rightarrow> job option option \<times> kpool" where
  "KRequestJob i t p =
    (case KTryRequestJob i (p\<lparr>k_actives := removeAll t (k_actives p)\<rparr>) of
       (Some (Some j), p1) \<Rightarrow> (Some (Some j), p1\<lparr>k_actives := List.insert t (k_actives p1)\<rparr>)
     | r \<Rightarrow> r)"

definition AppendJobWithKey :: "nat \<Rightarrow> nat \<Rightarrow> bool \<Rightarrow> kpool \<Rightarrow> (bool \<times> kpool) option" where
  "AppendJobWithKey key runnable auto_release p =
    (if runnable = 0 then None
     else if k_initializing p then Some (False, p)
     else let sz = length (k_threads p) in
       if sz = 0 then None
       else let index = key mod sz; context = k_threads p ! index
            in Some (True, p\<lparr>k_threads := (k_threads p)[index := context\<lparr>k_pending := k_pending context @
                 [\<lparr>j_runnable = runnable, j_auto_release = auto_release\<rparr>]\<rparr>]\<rparr>))"

definition KAppendJob :: "nat \<Rightarrow> bool \<Rightarrow> kpool \<Rightarrow> (bool \<times> kpool) option" where
  "KAppendJob runnable auto_release p = AppendJobWithKey 0 runnable auto_release p"

definition KKillAll :: "(tid \<Rightarrow> bool) \<Rightarrow> kpool \<Rightarrow> bool" where
  "KKillAll kill p = (if k_initializing p then False else fold (\<lambda>t result. result \<and> kill t) (k_actives p) True)"

section \<open>GrowableThreadPool\<close>

text \<open>
  \<open>size_t\<close> arithmetic wraps around; the counts below are numbers smaller than \<open>2^64\<close>. Besides the
  fields of the class, \<open>g_pc\<close> is where each thread is: it has not asked for a job yet, it waits in
  \<open>MaybeShrink\<close> for so many threads to exit, it waits for a job, it runs one, or it has left (or never
  was).
\<close>

definition size_sub :: "nat \<Rightarrow> nat \<Rightarrow> nat" where
  "size_sub a b = (a + 2 ^ 64 - b) mod 2 ^ 64"

datatype pc = Fresh | Reaping nat | Waiting | Running job | Gone

record gpool =
  g_actives :: "tid set"
  g_exited :: "tid list"
  g_threads :: "tid set"
  g_exits :: nat
  g_size :: nat
  g_initializing :: bool
  g_pending :: "job list"
  g_deleted :: "nat list"
  g_pc :: "tid \<Rightarrow> pc"

definition new_gpool :: gpool where
  "new_gpool = \<lparr>g_actives = {}, g_exited = [], g_threads = {}, g_exits = 0, g_size = 0,
     g_initializing = False, g_pending = [], g_deleted = [], g_pc = (\<lambda>_. Gone)\<rparr>"

definition GInitialize :: "nat \<Rightarrow> gpool \<Rightarrow> bool \<times> gpool" where
  "GInitialize sz p =
    (if sz = 0 then (False, p)
     else if g_initializing p \<or> g_threads p \<noteq> {} then (False, p)
     else (True, p\<lparr>g_size := sz\<rparr>))"

definition GSpawn :: "tid list \<Rightarrow> gpool \<Rightarrow> gpool" where
  "GSpawn fresh p =
    p\<lparr>g_threads := g_threads p \<union> set fresh,
      g_pc := (\<lambda>t. if t \<in> set fresh then Fresh else g_pc p t)\<rparr>"

text \<open>The number of idle threads, as \<open>MaybeShrink\<close> computes it, and how many it lets exit.\<close>

definition idles :: "gpool \<Rightarrow> nat" where
  "idles p = size_sub (size_sub (size_sub (card (g_threads p)) (card (g_actives p)))
    (length (g_pending p))) (g_exits p)"

definition threshold :: "gpool \<Rightarrow> nat" where
  "threshold p = (g_size p + (g_size p div 2 + g_size p mod 2)) mod 2 ^ 64"

definition shrink_by :: "gpool \<Rightarrow> nat" where
  "shrink_by p =
    (if g_initializing p \<or> idles p < threshold p then 0
     else let exits = idles p div g_size p * g_size p
          in if idles p mod g_size p = 0 then size_sub exits (g_size p) else exits)"

text \<open>
  \<open>RequestJob\<close> up to the loop: the thread is not active any more and, if there are too many idle
  threads, waits for some of them to exit before it goes on.
\<close>

definition GEnter :: "tid \<Rightarrow> gpool \<Rightarrow> gpool" where
  "GEnter t p =
    (let p1 = p\<lparr>g_actives := g_actives p - {t}\<rparr>;
         exits = shrink_by p1
     in if exits = 0 then p1\<lparr>g_pc := (g_pc p1)(t := Waiting)\<rparr>
        else p1\<lparr>g_exits := (g_exits p1 + exits) mod 2 ^ 64, g_pc := (g_pc p1)(t := Reaping exits)\<rparr>)"

text \<open>A round of the loop of \<open>MaybeShrink\<close>, when a thread has exited.\<close>

definition GReap :: "tid \<Rightarrow> nat \<Rightarrow> gpool \<Rightarrow> gpool" where
  "GReap t n p =
    p\<lparr>g_exited := tl (g_exited p), g_pc := (g_pc p)(t := (if n = 1 then Waiting else Reaping (n - 1)))\<rparr>"

definition GTryRequestJob :: "gpool \<Rightarrow> job option option \<times> gpool" where
  "GTryRequestJob p =
    (if g_exits p \<noteq> 0 then (Some None, p\<lparr>g_exits := g_exits p - 1\<rparr>)
     else case g_pending p of
            [] \<Rightarrow> (None, p)
          | j # js \<Rightarrow> (Some (Some j), p\<lparr>g_pending := js\<rparr>))"

text \<open>A round of the loop of \<open>RequestJob\<close> and what follows it.\<close>

definition GTry :: "tid \<Rightarrow> gpool \<Rightarrow> job option option \<times> gpool" where
  "GTry t p =
    (case GTryRequestJob p of
       (None, p1) \<Rightarrow> (None, p1)
     | (Some (Some j), p1) \<Rightarrow>
         (Some (Some j), p1\<lparr>g_actives := insert t (g_actives p1), g_pc := (g_pc p1)(t := Running j)\<rparr>)
     | (Some None, p1) \<Rightarrow>
         if \<not> g_initializing p1 then
           (Some None, p1\<lparr>g_exited := g_exited p1 @ [t], g_threads := g_threads p1 - {t},
              g_pc := (g_pc p1)(t := Gone)\<rparr>)
         else (Some None, p1\<lparr>g_pc := (g_pc p1)(t := Gone)\<rparr>))"

definition GAppendJob :: "nat \<Rightarrow> bool \<Rightarrow> tid list \<Rightarrow> gpool \<Rightarrow> (bool \<times> gpool) option" where
  "GAppendJob runnable auto_release fresh p =
    (if runnable = 0 then None
     else if g_initializing p then Some (False, p)
     else
       let p1 = p\<lparr>g_pending := g_pending p @
             [\<lparr>j_runnable = runnable, j_auto_release = auto_release\<rparr>]\<rparr>;
           remains = size_sub (size_sub (card (g_threads p1)) (card (g_actives p1))) (g_exits p1)
       in Some (True, if remains < length (g_pending p1) then GSpawn fresh p1 else p1))"

definition GShutdownBegin :: "bool \<Rightarrow> gpool \<Rightarrow> (bool option) \<times> gpool" where
  "GShutdownBegin wait_for_jobs_done p =
    (if g_initializing p then (Some False, p)
     else if g_threads p = {} then (Some True, p)
     else
       let kill = (if wait_for_jobs_done then {} else g_actives p)
       in (None, p\<lparr>g_deleted := g_deleted p @ Purge (g_pending p), g_pending := [],
             g_exits := size_sub (card (g_threads p)) (card kill),
             g_pc := (\<lambda>t. if t \<in> kill then Gone else g_pc p t),
             g_actives := {}, g_threads := {}, g_initializing := True\<rparr>))"

definition GShutdownEnd :: "gpool \<Rightarrow> gpool" where
  "GShutdownEnd p = p\<lparr>g_initializing := False\<rparr>"

definition GKillAll :: "(tid \<Rightarrow> bool) \<Rightarrow> gpool \<Rightarrow> bool" where
  "GKillAll kill p \<longleftrightarrow> \<not> g_initializing p \<and> (\<forall>t \<in> g_actives p. kill t)"

end
