(* ===== verification/Growable_Pool.thy ===== *)
theory Growable_Pool
  imports Thread_Pools
begin

text \<open>
  How a growable pool grows and shrinks (\<open>flinter/thread/growable_thread_pool.cpp\<close>): a step is what one
  thread, or a caller of \<open>AppendJob\<close>, does between taking and releasing the mutex. The invariant
  gives the arithmetic (no count wraps around, every queued job has an idle thread, a shrink retires
  exactly \<open>_size\<close> threads), and that a thread waiting for others to exit is not stuck -- unless the
  pool is shut down meanwhile.
\<close>

section \<open>Steps\<close>

inductive g_step :: "gpool \<Rightarrow> gpool \<Rightarrow> bool" where
  enter: "g_pc p t = Fresh \<or> g_pc p t = Running j \<Longrightarrow> g_step p (GEnter t p)"
| reap: "g_pc p t = Reaping n \<Longrightarrow> g_exited p \<noteq> [] \<Longrightarrow> g_step p (GReap t n p)"
| attempt: "g_pc p t = Waiting \<Longrightarrow> g_step p (snd (GTry t p))"
| add: "length fresh = g_size p \<Longrightarrow> distinct fresh \<Longrightarrow> \<forall>t \<in> set fresh. g_pc p t = Gone \<Longrightarrow>
     card (g_threads p) + g_size p < 2 ^ 63 \<Longrightarrow> GAppendJob x a fresh p = Some (True, q) \<Longrightarrow> g_step p q"

text \<open>How many exited threads a thread still waits for.\<close>

fun need :: "pc \<Rightarrow> nat" where
  "need (Reaping n) = n"
| "need _ = 0"

text \<open>Where the threads are, what is still to be reaped, and how many there are.\<close>

definition g_pcs :: "tid set \<Rightarrow> tid set \<Rightarrow> (tid \<Rightarrow> pc) \<Rightarrow> bool" where
  "g_pcs threads actives f \<longleftrightarrow> finite threads \<and> (\<forall>t. t \<in> threads \<longleftrightarrow> f t \<noteq> Gone) \<and>
    (\<forall>t. t \<in> actives \<longleftrightarrow> (\<exists>j. f t = Running j)) \<and> (\<forall>t. f t \<noteq> Reaping 0)"

definition g_balance :: "tid set \<Rightarrow> (tid \<Rightarrow> pc) \<Rightarrow> nat \<Rightarrow> bool" where
  "g_balance threads f n \<longleftrightarrow> (\<Sum>t \<in> threads. need (f t)) = n"

definition g_counts :: "nat \<Rightarrow> nat \<Rightarrow> nat \<Rightarrow> nat \<Rightarrow> nat \<Rightarrow> bool" where
  "g_counts threads actives pending exits sz \<longleftrightarrow>
    threads < 2 ^ 63 \<and> 0 < sz \<and> sz < 2 ^ 62 \<and> actives + pending + exits \<le> threads \<and>
    threads < actives + pending + exits + (sz + (sz + 1) div 2) \<and>
    (0 < exits \<longrightarrow> actives + exits < threads)"

definition g_inv :: "gpool \<Rightarrow> bool" where
  "g_inv p \<longleftrightarrow> \<not> g_initializing p \<and> g_pcs (g_threads p) (g_actives p) (g_pc p) \<and>
    g_balance (g_threads p) (g_pc p) (g_exits p + length (g_exited p)) \<and>
    g_counts (card (g_threads p)) (card (g_actives p)) (length (g_pending p)) (g_exits p) (g_size p)"

lemma size_sub_eq: "b \<le> a \<Longrightarrow> a < 2 ^ 64 \<Longrightarrow> size_sub a b = a - b"
proof -
  assume "b \<le> a" "a < 2 ^ 64"
  then have e: "a + 2 ^ 64 - b = (a - b) + 2 ^ 64" and l: "a - b < 2 ^ 64" by auto
  show ?thesis unfolding size_sub_def e mod_add_self2 using l by (rule mod_less)
qed

lemma threshold_eq:
  "g_size p < 2 ^ 62 \<Longrightarrow> threshold p = g_size p + (g_size p + 1) div 2"
proof -
  assume "g_size p < 2 ^ 62"
  moreover have "g_size p div 2 + g_size p mod 2 = (g_size p + 1) div 2" by presburger
  ultimately show ?thesis by (simp add: threshold_def)
qed

lemma g_pcsD:
  assumes "g_pcs T A f"
  shows "finite T" "finite A" "A \<subseteq> T" "t \<in> T \<longleftrightarrow> f t \<noteq> Gone" "t \<in> A \<longleftrightarrow> (\<exists>j. f t = Running j)" "f t \<noteq> Reaping 0"
proof -
  show "finite T" using assms by (simp add: g_pcs_def)
  show "A \<subseteq> T" using assms by (auto simp: g_pcs_def)
  then show "finite A" using \<open>finite T\<close> by (rule finite_subset)
qed (use assms in \<open>auto simp: g_pcs_def\<close>)

lemma g_countsD:
  assumes "g_counts T a w e n"
  shows "T < 2 ^ 63" "0 < n" "n < 2 ^ 62" "a + w + e \<le> T" "T < a + w + e + (n + (n + 1) div 2)"
    "0 < e \<Longrightarrow> a + e < T"
  using assms by (simp_all add: g_counts_def)

lemma idles_eq:
  assumes "card (g_threads p) < 2 ^ 63"
    and "card (g_actives p) + length (g_pending p) + g_exits p \<le> card (g_threads p)"
  shows "idles p = card (g_threads p) - (card (g_actives p) + length (g_pending p) + g_exits p)"
  using assms by (simp add: idles_def size_sub_eq)

text \<open>A shrink happens exactly at the threshold, so it retires \<open>_size\<close> threads.\<close>

lemma shrink_at:
  assumes "\<not> g_initializing p" and "0 < g_size p" and "g_size p < 2 ^ 62" and "idles p \<le> threshold p"
  shows "shrink_by p = (if idles p = threshold p then g_size p else 0)"
proof (cases "idles p = threshold p")
  case False
  with assms show ?thesis by (simp add: shrink_by_def)
next
  case True
  let ?n = "g_size p" and ?e = "(g_size p + 1) div 2"
  have i: "idles p = ?n + ?e" using True threshold_eq assms(3) by simp
  show ?thesis
  proof (cases "?n = 1")
    case one: True
    then have "idles p = 2" using i by simp
    moreover from this have "threshold p = 2" using True by simp
    moreover have "size_sub 2 1 = 1" by (simp add: size_sub_eq)
    ultimately show ?thesis using one assms(1) by (simp add: shrink_by_def)
  next
    case False
    then have e: "0 < ?e" "?e < ?n" using assms(2) by auto
    then have "idles p div ?n = 1" "idles p mod ?n = ?e" unfolding i by (simp_all add: div_add_self1)
    moreover from e have "idles p mod ?n \<noteq> 0" unfolding calculation(2) by simp
    ultimately show ?thesis using True assms(1) by (simp add: shrink_by_def Let_def)
  qed
qed

lemma balance_update:
  assumes "g_balance T f n" and "finite T" and "t \<in> T" and "need (f t) \<le> n + need x"
  shows "g_balance T (f(t := x)) (n + need x - need (f t))"
proof -
  have "(\<Sum>u \<in> T - {t}. need ((f(t := x)) u)) = (\<Sum>u \<in> T - {t}. need (f u))"
    by (intro sum.cong) auto
  moreover have "(\<Sum>u \<in> T. need (g u)) = need (g t) + (\<Sum>u \<in> T - {t}. need (g u))" for g
    by (rule sum.remove [OF assms(2,3)])
  ultimately show ?thesis using assms(1) unfolding g_balance_def by simp
qed

section \<open>Every step keeps the counts\<close>

lemma enter_keeps:
  assumes inv: "g_inv p" and pc: "g_pc p t = Fresh \<or> g_pc p t = Running j"
  shows "g_inv (GEnter t p) \<and> shrink_by (p\<lparr>g_actives := g_actives p - {t}\<rparr>) \<in> {0, g_size p}"
proof -
  let ?A = "g_actives p - {t}" and ?n = "g_size p"
  let ?p1 = "p\<lparr>g_actives := ?A\<rparr>"
  let ?T = "card (g_threads p)" and ?a = "card (g_actives p)" and ?w = "length (g_pending p)"
  have run: "\<not> g_initializing p" and pcs: "g_pcs (g_threads p) (g_actives p) (g_pc p)"
    and bal: "g_balance (g_threads p) (g_pc p) (g_exits p + length (g_exited p))"
    and cnt: "g_counts ?T ?a ?w (g_exits p) ?n"
    using inv by (auto simp: g_inv_def)
  note P = g_pcsD [OF pcs] and C = g_countsD [OF cnt]
  have t: "t \<in> g_threads p" using P(4) [of t] pc by auto
  have need0: "need (g_pc p t) = 0" using pc by auto
  obtain b where b: "card ?A + b = ?a" "b \<le> 1"
  proof (cases "t \<in> g_actives p")
    case True
    from card_Suc_Diff1 [OF P(2) True] that [of 1] show thesis by simp
  next
    case False
    with that [of 0] show thesis by simp
  qed
  have th: "threshold ?p1 = ?n + (?n + 1) div 2"
    using C(3) by (subst threshold_eq) simp_all
  have id: "idles ?p1 = ?T - (card ?A + ?w + g_exits p)"
    using C(1,4) b by (subst idles_eq) simp_all
  have le: "idles ?p1 \<le> threshold ?p1" using C(5) b unfolding id th by simp
  have sh: "shrink_by ?p1 = (if idles ?p1 = threshold ?p1 then ?n else 0)"
    using shrink_at [OF _ _ _ le] run C(2,3) by simp
  have pcs': "g_pcs (g_threads p) ?A ((g_pc p)(t := x))" if "x = Waiting \<or> (\<exists>n. 0 < n \<and> x = Reaping n)" for x
    using pcs t that unfolding g_pcs_def by auto
  have bal': "g_balance (g_threads p) ((g_pc p)(t := x)) (g_exits p + length (g_exited p) + need x)" for x
    using balance_update [OF bal P(1) t, of x] need0 by simp
  show ?thesis
  proof (cases "idles ?p1 = threshold ?p1")
    case False
    have e: "GEnter t p = ?p1\<lparr>g_pc := (g_pc p)(t := Waiting)\<rparr>"
      using sh False by (simp add: GEnter_def Let_def)
    have "g_counts ?T (card ?A) ?w (g_exits p) ?n"
      unfolding g_counts_def
    proof (intro conjI impI)
      show "?T < card ?A + ?w + g_exits p + (?n + (?n + 1) div 2)"
        using le False b C(4) unfolding id th by linarith
      show "card ?A + g_exits p < ?T" if "0 < g_exits p" using C(6) [OF that] b by simp
    qed (use C b in simp_all)
    then show ?thesis
      using sh False run pcs' [of Waiting] bal' [of Waiting] by (simp add: e g_inv_def del: fun_upd_apply)
  next
    case True
    have n: "0 < ?n" "0 < (?n + 1) div 2" using C(2) by auto
    have sum: "card ?A + ?w + (g_exits p + ?n) + (?n + 1) div 2 = ?T"
      using True n C(4) b unfolding id th by linarith
    then have "g_exits p + ?n < 2 ^ 64" using C(1) by simp
    then have small: "(g_exits p + ?n) mod 2 ^ 64 = g_exits p + ?n" by (rule mod_less)
    have e: "GEnter t p = ?p1\<lparr>g_exits := g_exits p + ?n, g_pc := (g_pc p)(t := Reaping ?n)\<rparr>"
      using sh True n small by (simp add: GEnter_def Let_def)
    have "g_counts ?T (card ?A) ?w (g_exits p + ?n) ?n"
      unfolding g_counts_def using C(1-3) sum n by auto
    then show ?thesis
      using sh True run pcs' [of "Reaping ?n"] bal' [of "Reaping ?n"] n
      by (simp add: e g_inv_def add.commute add.left_commute del: fun_upd_apply)
  qed
qed

lemma reap_keeps:
  assumes inv: "g_inv p" and pc: "g_pc p t = Reaping n" and ex: "g_exited p \<noteq> []"
  shows "g_inv (GReap t n p)"
proof -
  let ?x = "if n = 1 then Waiting else Reaping (n - 1)"
  have pcs: "g_pcs (g_threads p) (g_actives p) (g_pc p)"
    and bal: "g_balance (g_threads p) (g_pc p) (g_exits p + length (g_exited p))"
    using inv by (auto simp: g_inv_def)
  note P = g_pcsD [OF pcs]
  have t: "t \<in> g_threads p" and n: "0 < n" using P(4,6) [of t] pc by (auto intro: gr0I)
  have l: "length (tl (g_exited p)) + 1 = length (g_exited p)" using ex by (cases "g_exited p") auto
  have x: "need ?x + 1 = n" using n by simp
  have "need (g_pc p t) \<le> g_exits p + length (g_exited p) + need ?x" using l x pc by simp
  note upd = balance_update [OF bal P(1) t this]
  have "need (g_pc p t) = n" using pc by simp
  then have "g_exits p + length (g_exited p) + need ?x - need (g_pc p t) = g_exits p + length (tl (g_exited p))"
    using l x n by linarith
  from upd [unfolded this]
  have "g_balance (g_threads p) ((g_pc p)(t := ?x)) (g_exits p + length (tl (g_exited p)))" .
  moreover have "g_pcs (g_threads p) (g_actives p) ((g_pc p)(t := ?x))"
    using pcs t pc n unfolding g_pcs_def by auto
  ultimately show ?thesis
    using inv by (simp add: g_inv_def GReap_def del: fun_upd_apply)
qed

lemma attempt_keeps:
  assumes inv: "g_inv p" and pc: "g_pc p t = Waiting"
  shows "g_inv (snd (GTry t p))"
proof -
  let ?T = "card (g_threads p)" and ?a = "card (g_actives p)" and ?w = "length (g_pending p)"
  have run: "\<not> g_initializing p" and pcs: "g_pcs (g_threads p) (g_actives p) (g_pc p)"
    and bal: "g_balance (g_threads p) (g_pc p) (g_exits p + length (g_exited p))"
    and cnt: "g_counts ?T ?a ?w (g_exits p) (g_size p)"
    using inv by (auto simp: g_inv_def)
  note P = g_pcsD [OF pcs]
  have t: "t \<in> g_threads p" "t \<notin> g_actives p" using P(4,5) [of t] pc by auto
  have bal': "g_balance (g_threads p) ((g_pc p)(t := x)) (g_exits p + length (g_exited p) + need x)" for x
    using balance_update [OF bal P(1) t(1), of x] pc by simp
  show ?thesis
  proof (cases "g_exits p = 0")
    case False
    have T: "card (g_threads p - {t}) + 1 = ?T" using card_Suc_Diff1 [OF P(1) t(1)] by simp
    have "g_counts (card (g_threads p - {t})) ?a ?w (g_exits p - 1) (g_size p)"
      using cnt T False unfolding g_counts_def by linarith
    moreover have "g_pcs (g_threads p - {t}) (g_actives p) ((g_pc p)(t := Gone))"
      using pcs t unfolding g_pcs_def by auto
    moreover have "g_balance (g_threads p - {t}) ((g_pc p)(t := Gone)) (g_exits p + length (g_exited p))"
      using bal' [of Gone] sum.remove [OF P(1) t(1), of "\<lambda>u. need (((g_pc p)(t := Gone)) u)"]
      by (simp add: g_balance_def)
    ultimately show ?thesis
      using run False by (simp add: GTry_def GTryRequestJob_def g_inv_def del: fun_upd_apply)
  next
    case none: True
    show ?thesis
    proof (cases "g_pending p")
      case Nil
      with none inv show ?thesis by (simp add: GTry_def GTryRequestJob_def)
    next
      case (Cons j js)
      have "card (insert t (g_actives p)) = ?a + 1" using t(2) P(2) by simp
      then have "g_counts ?T (card (insert t (g_actives p))) (length js) (g_exits p) (g_size p)"
        using cnt Cons none unfolding g_counts_def by simp
      moreover have "g_pcs (g_threads p) (insert t (g_actives p)) ((g_pc p)(t := Running j))"
        using pcs t unfolding g_pcs_def by auto
      ultimately show ?thesis
        using run none Cons bal' [of "Running j"]
        by (simp add: GTry_def GTryRequestJob_def g_inv_def del: fun_upd_apply)
    qed
  qed
qed

lemma append_keeps:
  assumes inv: "g_inv p" and fresh: "length fresh = g_size p" "distinct fresh" "\<forall>t \<in> set fresh. g_pc p t = Gone"
    and room: "card (g_threads p) + g_size p < 2 ^ 63"
    and run: "GAppendJob x a fresh p = Some (True, q)"
  shows "g_inv q"
proof -
  let ?T = "card (g_threads p)" and ?a = "card (g_actives p)" and ?w = "length (g_pending p)"
  let ?j = "\<lparr>j_runnable = x, j_auto_release = a\<rparr>"
  let ?p1 = "p\<lparr>g_pending := g_pending p @ [?j]\<rparr>"
  have on: "\<not> g_initializing p" and pcs: "g_pcs (g_threads p) (g_actives p) (g_pc p)"
    and bal: "g_balance (g_threads p) (g_pc p) (g_exits p + length (g_exited p))"
    and cnt: "g_counts ?T ?a ?w (g_exits p) (g_size p)"
    using inv by (auto simp: g_inv_def)
  note P = g_pcsD [OF pcs]
  have rem: "size_sub (size_sub ?T ?a) (g_exits p) = ?T - (?a + g_exits p)"
  proof -
    note C = g_countsD [OF cnt]
    have "size_sub ?T ?a = ?T - ?a" using C(1,4) by (intro size_sub_eq) simp_all
    moreover have "size_sub (?T - ?a) (g_exits p) = ?T - ?a - g_exits p"
      using C(1,4) by (intro size_sub_eq) simp_all
    ultimately show ?thesis by simp
  qed
  have q: "q = (if ?T - (?a + g_exits p) < ?w + 1 then GSpawn fresh ?p1 else ?p1)"
    using run on by (simp add: GAppendJob_def Let_def rem split: if_splits)
  show ?thesis
  proof (cases "?T - (?a + g_exits p) < ?w + 1")
    case False
    have "g_counts ?T ?a (?w + 1) (g_exits p) (g_size p)"
      using cnt False unfolding g_counts_def by linarith
    with False q on pcs bal show ?thesis by (simp add: g_inv_def)
  next
    case True
    let ?f = "\<lambda>t. if t \<in> set fresh then Fresh else g_pc p t"
    have dis: "g_threads p \<inter> set fresh = {}" using P(4) fresh(3) by auto
    then have T: "card (g_threads p \<union> set fresh) = ?T + g_size p"
      using P(1) fresh(1,2) by (simp add: card_Un_disjoint distinct_card)
    have "g_counts (?T + g_size p) ?a (?w + 1) (g_exits p) (g_size p)"
      using cnt True room unfolding g_counts_def by linarith
    moreover have "g_pcs (g_threads p \<union> set fresh) (g_actives p) ?f"
      using pcs fresh(3) unfolding g_pcs_def by auto
    moreover have "g_balance (g_threads p \<union> set fresh) ?f (g_exits p + length (g_exited p))"
    proof -
      have "(\<Sum>t \<in> g_threads p. need (?f t)) = (\<Sum>t \<in> g_threads p. need (g_pc p t))"
        using dis by (intro sum.cong) auto
      moreover have "(\<Sum>t \<in> set fresh. need (?f t)) = 0" by simp
      ultimately show ?thesis using bal sum.union_disjoint [OF P(1) _ dis, of "\<lambda>t. need (?f t)"]
        by (simp add: g_balance_def)
    qed
    moreover have "GSpawn fresh ?p1 = ?p1\<lparr>g_threads := g_threads p \<union> set fresh, g_pc := ?f\<rparr>"
      by (rule gpool.equality) (simp_all add: GSpawn_def fun_eq_iff)
    ultimately show ?thesis
      using True q on T by (simp add: g_inv_def)
  qed
qed

interpretation g_life: step_invariant g_step g_inv
proof
  fix p q :: gpool
  assume "g_step p q" and "g_inv p"
  then show "g_inv q"
  proof (cases rule: g_step.cases)
    case (enter t j)
    with enter_keeps [OF \<open>g_inv p\<close>] show ?thesis by blast
  next
    case (reap t n)
    with reap_keeps [OF \<open>g_inv p\<close>] show ?thesis by blast
  next
    case (attempt t)
    with attempt_keeps [OF \<open>g_inv p\<close>] show ?thesis by blast
  next
    case (add fresh x a)
    with append_keeps [OF \<open>g_inv p\<close>] show ?thesis by blast
  qed
qed

lemma initialized_inv:
  "GInitialize sz new_gpool = (True, p) \<Longrightarrow> sz < 2 ^ 62 \<Longrightarrow> g_inv p"
  by (auto simp: GInitialize_def new_gpool_def g_inv_def g_pcs_def g_balance_def g_counts_def split: if_splits)

text \<open>A pool that spawns one thread at a time, and its first states.\<close>

definition demo_pool :: gpool where
  "demo_pool = new_gpool\<lparr>g_size := 1\<rparr>"

lemma demo_initialized: "GInitialize 1 new_gpool = (True, demo_pool)"
  by (simp add: GInitialize_def new_gpool_def demo_pool_def)

definition jb :: "nat \<Rightarrow> job" where "jb x = \<lparr>j_runnable = x, j_auto_release = False\<rparr>"

definition demo_queued :: gpool where
  "demo_queued = demo_pool\<lparr>g_pending := [jb 7], g_threads := {1}, g_pc := (\<lambda>_. Gone)(1 := Fresh)\<rparr>"

lemma demo_append: "g_step demo_pool demo_queued"
proof -
  have "GAppendJob 7 False [1] demo_pool = Some (True, demo_queued)"
    by (simp add: GAppendJob_def demo_pool_def new_gpool_def demo_queued_def jb_def size_sub_def
        GSpawn_def fun_eq_iff)
  then show ?thesis
    by (rule g_step.add [rotated -1]) (simp_all add: demo_pool_def new_gpool_def)
qed

text \<open>
  C27. The counts of a growable pool never wrap around. In every state it reaches, the threads that run
  no job are enough for every queued job and for every thread that has been told to exit; the idle
  ones stay below one and a half times the batch size; and whenever a thread shrinks the pool, it
  retires exactly one batch.
\<close>

theorem growable_counts_exact:
  assumes "GInitialize sz new_gpool = (True, p0)" and "sz < 2 ^ 62" and "g_step\<^sup>*\<^sup>* p0 p"
  shows "card (g_actives p) + length (g_pending p) + g_exits p \<le> card (g_threads p) \<and>
    idles p = card (g_threads p) - (card (g_actives p) + length (g_pending p) + g_exits p) \<and>
    idles p < threshold p \<and> threshold p = g_size p + (g_size p + 1) div 2 \<and>
    (\<forall>t j. g_pc p t = Fresh \<or> g_pc p t = Running j \<longrightarrow>
      shrink_by (p\<lparr>g_actives := g_actives p - {t}\<rparr>) \<in> {0, g_size p})"
proof -
  have inv: "g_inv p" by (rule g_life.steps_keep [OF assms(3) initialized_inv [OF assms(1,2)]])
  then have cnt: "g_counts (card (g_threads p)) (card (g_actives p)) (length (g_pending p)) (g_exits p) (g_size p)"
    by (simp add: g_inv_def)
  note C = g_countsD [OF cnt]
  have id: "idles p = card (g_threads p) - (card (g_actives p) + length (g_pending p) + g_exits p)"
    by (rule idles_eq [OF C(1,4)])
  have th: "threshold p = g_size p + (g_size p + 1) div 2" by (rule threshold_eq [OF C(3)])
  have "idles p < threshold p" using C(4,5) unfolding id th by linarith
  with id th C(4) enter_keeps [OF inv] show ?thesis by blast
qed

lemma growable_counts_exact_witness:
  "idles demo_queued = 0 \<and> threshold demo_queued = 2"
  using growable_counts_exact [OF demo_initialized _ r_into_rtranclp, OF _ demo_append]
  by (simp add: demo_queued_def demo_pool_def new_gpool_def)

section \<open>Waiting for threads to exit\<close>

lemma card_reaping:
  assumes "g_pcs T A f" and "g_balance T f n"
  shows "card {t \<in> T. \<exists>k. f t = Reaping k} \<le> n"
proof -
  let ?R = "{t \<in> T. \<exists>k. f t = Reaping k}"
  have fin: "finite T" by (rule g_pcsD(1) [OF assms(1)])
  have "1 \<le> need (f t)" if "t \<in> ?R" for t
    using that g_pcsD(6) [OF assms(1), of t] by (auto simp: Suc_le_eq intro: gr0I)
  then have "card ?R \<le> (\<Sum>t \<in> ?R. need (f t))" using sum_bounded_below [of ?R 1 "\<lambda>t. need (f t)"] by auto
  also have "\<dots> \<le> (\<Sum>t \<in> T. need (f t))" using fin by (intro sum_mono2) auto
  finally show ?thesis using assms(2) by (simp add: g_balance_def)
qed

text \<open>Some thread is free to exit when a thread waits for that.\<close>

lemma someone_can_exit:
  assumes inv: "g_inv p" and ex: "0 < g_exits p" "g_exited p = []"
  obtains u where "g_pc p u = Fresh \<or> g_pc p u = Waiting"
proof -
  let ?R = "{t \<in> g_threads p. \<exists>k. g_pc p t = Reaping k}"
  have pcs: "g_pcs (g_threads p) (g_actives p) (g_pc p)"
    and bal: "g_balance (g_threads p) (g_pc p) (g_exits p + length (g_exited p))"
    and cnt: "g_counts (card (g_threads p)) (card (g_actives p)) (length (g_pending p)) (g_exits p) (g_size p)"
    using inv by (auto simp: g_inv_def)
  note P = g_pcsD [OF pcs]
  have "card (g_actives p \<union> ?R) \<le> card (g_actives p) + card ?R" by (rule card_Un_le)
  also have "\<dots> \<le> card (g_actives p) + g_exits p" using card_reaping [OF pcs bal] ex(2) by simp
  also have "\<dots> < card (g_threads p)" by (rule g_countsD(6) [OF cnt ex(1)])
  finally have "\<not> g_threads p \<subseteq> g_actives p \<union> ?R"
    using card_mono [of "g_actives p \<union> ?R" "g_threads p"] P(1,2) by (auto simp: not_le [symmetric])
  then obtain u where u: "u \<in> g_threads p" "u \<notin> g_actives p" "\<not> (\<exists>k. g_pc p u = Reaping k)" by blast
  then have "g_pc p u = Fresh \<or> g_pc p u = Waiting"
    using P(4,5) [of u] by (cases "g_pc p u") auto
  with that show thesis by blast
qed

text \<open>The steps of threads that hold no job: they begin to ask for one, or ask again.\<close>

inductive quiet_step :: "gpool \<Rightarrow> gpool \<Rightarrow> bool" where
  begins: "g_pc p t = Fresh \<Longrightarrow> quiet_step p (GEnter t p)"
| asks: "g_pc p t = Waiting \<Longrightarrow> quiet_step p (snd (GTry t p))"

lemma quiet_is_step: "quiet_step p q \<Longrightarrow> g_step p q"
  by (induction rule: quiet_step.induct) (auto intro: g_step.intros)

lemma shrink_progress:
  assumes "g_inv p" and "g_pc p t = Reaping n"
  shows "\<exists>q. quiet_step\<^sup>*\<^sup>* p q \<and> g_pc q t = Reaping n \<and> g_exited q \<noteq> []"
proof (cases "g_exited p = []")
  case False
  with assms(2) show ?thesis by blast
next
  case True
  have pcs: "g_pcs (g_threads p) (g_actives p) (g_pc p)"
    and bal: "g_balance (g_threads p) (g_pc p) (g_exits p + length (g_exited p))"
    and run: "\<not> g_initializing p" using assms(1) by (auto simp: g_inv_def)
  note P = g_pcsD [OF pcs]
  have t: "t \<in> g_threads p" "0 < n" using P(4,6) [of t] assms(2) by (auto intro: gr0I)
  have "need (g_pc p t) \<le> (\<Sum>t \<in> g_threads p. need (g_pc p t))" using P(1) t(1) by (intro member_le_sum) auto
  then have ex: "0 < g_exits p" using bal True t(2) assms(2) by (simp add: g_balance_def)
  obtain u where u: "g_pc p u = Fresh \<or> g_pc p u = Waiting"
    using someone_can_exit [OF assms(1) ex True] by blast
  then have ut: "u \<noteq> t" using assms(2) by auto
  have quit: "\<exists>q. quiet_step r q \<and> g_pc q t = Reaping n \<and> g_exited q \<noteq> []"
    if "g_pc r u = Waiting" "g_pc r t = Reaping n" "0 < g_exits r" "\<not> g_initializing r" for r
    using quiet_step.asks [OF that(1)] that ut
    by (intro exI [where x = "snd (GTry u r)"]) (simp add: GTry_def GTryRequestJob_def)
  from u show ?thesis
  proof
    assume "g_pc p u = Waiting"
    with quit [OF _ assms(2) ex run] show ?thesis by blast
  next
    assume fr: "g_pc p u = Fresh"
    have s: "quiet_step p (GEnter u p)" by (rule quiet_step.begins [OF fr])
    have "u \<notin> g_actives p" using P(5) [of u] fr by simp
    then have same: "p\<lparr>g_actives := g_actives p - {u}\<rparr> = p" by simp
    have cnt: "g_counts (card (g_threads p)) (card (g_actives p)) (length (g_pending p)) (g_exits p) (g_size p)"
      using assms(1) by (simp add: g_inv_def)
    note C = g_countsD [OF cnt]
    have "idles p < threshold p"
      using C(4,5) unfolding idles_eq [OF C(1,4)] threshold_eq [OF C(3)] by linarith
    then have "GEnter u p = p\<lparr>g_pc := (g_pc p)(u := Waiting)\<rparr>"
      unfolding GEnter_def same by (simp add: shrink_by_def)
    with quit [of "GEnter u p"] ut assms(2) ex run obtain q where "quiet_step (GEnter u p) q"
      "g_pc q t = Reaping n" "g_exited q \<noteq> []" by auto
    with s show ?thesis by (meson converse_rtranclp_into_rtranclp rtranclp.rtrancl_refl)
  qed
qed

text \<open>
  A thread that waits in \<open>MaybeShrink\<close> for others to exit is never stuck while the pool runs: in
  every state the pool reaches, a thread has exited already, or threads that hold no job lead to such
  a state by themselves, without a new job and without any running job being finished.
\<close>

theorem shrink_is_never_stuck:
  assumes "GInitialize sz new_gpool = (True, p0)" and "sz < 2 ^ 62" and "g_step\<^sup>*\<^sup>* p0 p"
    and "g_pc p t = Reaping n"
  shows "\<exists>q. quiet_step\<^sup>*\<^sup>* p q \<and> g_pc q t = Reaping n \<and> g_exited q \<noteq> []"
  by (rule shrink_progress [OF g_life.steps_keep [OF assms(3) initialized_inv [OF assms(1,2)]] assms(4)])

text \<open>A run that ends with a thread waiting for another one to exit.\<close>

definition demo_at :: "tid set \<Rightarrow> tid set \<Rightarrow> job list \<Rightarrow> nat \<Rightarrow> pc \<Rightarrow> pc \<Rightarrow> gpool" where
  "demo_at threads actives pending exits pc1 pc2 = demo_pool\<lparr>g_threads := threads, g_actives := actives,
     g_pending := pending, g_exits := exits, g_pc := (\<lambda>_. Gone)(3 := pc1, 4 := pc2)\<rparr>"

lemmas demo_simps = demo_at_def demo_pool_def new_gpool_def GEnter_def shrink_by_def idles_def
  threshold_def size_sub_def GTry_def GTryRequestJob_def GAppendJob_def GSpawn_def jb_def Let_def

lemma demo_shrink_run:
  "g_step\<^sup>*\<^sup>* demo_pool (demo_at {3, 4} {} [] 1 Waiting (Reaping 1))"
proof -
  let ?s1 = "demo_at {3} {} [jb 7] 0 Fresh Gone" and ?s2 = "demo_at {3} {} [jb 7] 0 Waiting Gone"
  let ?s3 = "demo_at {3} {3} [] 0 (Running (jb 7)) Gone"
  let ?s4 = "demo_at {3, 4} {3} [jb 8] 0 (Running (jb 7)) Fresh"
  let ?s5 = "demo_at {3, 4} {3} [jb 8] 0 (Running (jb 7)) Waiting"
  let ?s6 = "demo_at {3, 4} {3, 4} [] 0 (Running (jb 7)) (Running (jb 8))"
  let ?s7 = "demo_at {3, 4} {4} [] 0 Waiting (Running (jb 8))"
  let ?s8 = "demo_at {3, 4} {} [] 1 Waiting (Reaping 1)"
  have pc: "g_pc (demo_at T A w e x y) 3 = x" "g_pc (demo_at T A w e x y) 4 = y" for T A w e x y
    by (simp_all add: demo_at_def)
  have "GAppendJob 7 False [3] demo_pool = Some (True, ?s1)"
    by (simp add: demo_simps) (auto simp: fun_eq_iff)
  then have "g_step demo_pool ?s1"
    by (rule g_step.add [rotated -1]) (simp_all add: demo_pool_def new_gpool_def)
  moreover have "GEnter 3 ?s1 = ?s2" by (simp add: demo_simps) (auto simp: fun_eq_iff)
  then have "g_step ?s1 ?s2" using g_step.enter [of ?s1 3] by (simp add: pc)
  moreover have "snd (GTry 3 ?s2) = ?s3" by (simp add: demo_simps) (auto simp: fun_eq_iff)
  then have "g_step ?s2 ?s3" using g_step.attempt [of ?s2 3] by (simp add: pc)
  moreover have "GAppendJob 8 False [4] ?s3 = Some (True, ?s4)"
    by (simp add: demo_simps) (auto simp: fun_eq_iff)
  then have "g_step ?s3 ?s4"
    by (rule g_step.add [rotated -1]) (simp_all add: demo_at_def demo_pool_def new_gpool_def)
  moreover have "GEnter 4 ?s4 = ?s5" by (simp add: demo_simps)
  then have "g_step ?s4 ?s5" using g_step.enter [of ?s4 4] by (simp add: pc)
  moreover have "snd (GTry 4 ?s5) = ?s6" by (simp add: demo_simps) (auto simp: fun_eq_iff)
  then have "g_step ?s5 ?s6" using g_step.attempt [of ?s5 4] by (simp add: pc)
  moreover have "GEnter 3 ?s6 = ?s7" by (simp add: demo_simps) (auto simp: fun_eq_iff)
  then have "g_step ?s6 ?s7" using g_step.enter [of ?s6 3 "jb 7"] by (simp add: pc)
  moreover have "GEnter 4 ?s7 = ?s8" by (simp add: demo_simps)
  then have "g_step ?s7 ?s8" using g_step.enter [of ?s7 4 "jb 8"] by (simp add: pc)
  ultimately show ?thesis by (meson rtranclp.rtrancl_into_rtrancl rtranclp.rtrancl_refl)
qed

lemma shrink_is_never_stuck_witness:
  "\<exists>q. quiet_step\<^sup>*\<^sup>* (demo_at {3, 4} {} [] 1 Waiting (Reaping 1)) q \<and> g_exited q \<noteq> []"
proof -
  have "g_pc (demo_at {3, 4} {} [] 1 Waiting (Reaping 1)) 4 = Reaping 1" by (simp add: demo_at_def)
  from shrink_is_never_stuck [OF demo_initialized _ demo_shrink_run this] show ?thesis by auto
qed

section \<open>Shutting down\<close>

text \<open>
  \<open>Shutdown\<close> while a thread waits in \<open>MaybeShrink\<close> never ends: from then on the threads that exit
  do not announce it any more, so that thread waits forever, and \<open>Shutdown\<close> is joining it.
\<close>

theorem shutdown_during_shrink_hangs:
  assumes "g_pc p t = Reaping n" and "g_exited p = []" and "t \<in> g_threads p" and "\<not> g_initializing p"
    and "GShutdownBegin True p = (r, q0)" and "g_step\<^sup>*\<^sup>* q0 q"
  shows "g_pc q t = Reaping n \<and> g_initializing q"
proof -
  have "g_pc q t = Reaping n \<and> g_exited q = [] \<and> g_initializing q"
    using assms(6)
  proof (induction rule: rtranclp_induct)
    case base
    then show ?case using assms by (auto simp: GShutdownBegin_def Let_def split: if_splits)
  next
    case (step y z)
    from step.hyps(2) step.IH show ?case
    proof (cases rule: g_step.cases)
      case (enter u j)
      then have "u \<noteq> t" using step.IH by auto
      then show ?thesis using step.IH unfolding enter by (auto simp: GEnter_def Let_def)
    next
      case (attempt u)
      then have "u \<noteq> t" using step.IH by auto
      then show ?thesis using step.IH unfolding attempt
        by (auto simp: GTry_def GTryRequestJob_def split: list.splits)
    next
      case (add fresh x a)
      then show ?thesis using step.IH by (auto simp: GAppendJob_def split: if_splits)
    qed simp
  qed
  then show ?thesis by blast
qed

lemma shutdown_during_shrink_hangs_witness:
  "\<exists>p q0. g_step\<^sup>*\<^sup>* demo_pool p \<and> GShutdownBegin True p = (None, q0) \<and>
    (\<forall>q. g_step\<^sup>*\<^sup>* q0 q \<longrightarrow> g_pc q 4 = Reaping 1)"
proof -
  let ?p = "demo_at {3, 4} {} [] 1 Waiting (Reaping 1)"
  have p: "g_pc ?p 4 = Reaping 1" "g_exited ?p = []" "4 \<in> g_threads ?p" "\<not> g_initializing ?p"
    by (simp_all add: demo_at_def demo_pool_def new_gpool_def)
  obtain r q0 where q: "GShutdownBegin True ?p = (r, q0)" by fastforce
  moreover from this have "r = None"
    by (simp add: GShutdownBegin_def Let_def demo_at_def demo_pool_def new_gpool_def)
  ultimately show ?thesis
    using demo_shrink_run shutdown_during_shrink_hangs [OF p q] by blast
qed

end
