(* ===== verification/Text_Explode.thy ===== *)
theory Text_Explode
  imports Flinter_Prelude
begin

text \<open>
  \<open>flinter/explode.cpp\<close>, \<open>flinter/explode.h\<close> and \<open>flinter/trim.cpp\<close>: splitting, joining and trimming
  strings, and the lists of CPU numbers \<open>EasyServer::Initialize\<close> is configured with. A
  \<open>std::string\<close> is a list of characters; a \<open>const char *\<close> into one is what is left of it, its end the
  terminating zero.
\<close>

section \<open>explode\<close>

definition find_first_of :: "string \<Rightarrow> string \<Rightarrow> nat \<Rightarrow> nat option" where
  "find_first_of s delim pos =
    (let n = length (takeWhile (\<lambda>c. c \<notin> set delim) (drop pos s))
     in if pos + n < length s then Some (pos + n) else None)"

definition substr :: "string \<Rightarrow> nat \<Rightarrow> nat \<Rightarrow> string" where
  "substr s pos n = take n (drop pos s)"

text \<open>The loop of \<open>explode_internal\<close>, from position \<open>pos\<close>, with the fields found so far.\<close>

function explode_loop :: "string \<Rightarrow> string \<Rightarrow> bool \<Rightarrow> nat \<Rightarrow> string list \<Rightarrow> string list" where
  "explode_loop methods delim preserve_null pos result =
    (if pos < length methods then
       (case find_first_of methods delim pos of
          None \<Rightarrow> result @ [substr methods pos (length methods - pos)]
        | Some hit \<Rightarrow>
            explode_loop methods delim preserve_null (hit + 1)
              (if pos \<noteq> hit \<or> preserve_null then result @ [substr methods pos (hit - pos)] else result))
     else if preserve_null then result @ [[]]
     else result)"
  by pat_completeness auto
termination
  by (relation "measure (\<lambda>(m, d, p, pos, r). length m - pos)")
    (auto simp: find_first_of_def Let_def split: if_splits)

declare explode_loop.simps [simp del]

definition explode_internal :: "string \<Rightarrow> string \<Rightarrow> bool \<Rightarrow> string list" where
  "explode_internal methods delim preserve_null = explode_loop methods delim preserve_null 0 []"

text \<open>The variant into a \<open>std::set\<close>.\<close>

function explode_set_loop :: "string \<Rightarrow> string \<Rightarrow> nat \<Rightarrow> string set \<Rightarrow> string set" where
  "explode_set_loop methods delim pos result =
    (if pos < length methods then
       (case find_first_of methods delim pos of
          None \<Rightarrow> insert (substr methods pos (length methods - pos)) result
        | Some hit \<Rightarrow>
            explode_set_loop methods delim (hit + 1)
              (if pos \<noteq> hit then insert (substr methods pos (hit - pos)) result else result))
     else result)"
  by pat_completeness auto
termination
  by (relation "measure (\<lambda>(m, d, pos, r). length m - pos)")
    (auto simp: find_first_of_def Let_def split: if_splits)

declare explode_set_loop.simps [simp del]

definition explode_set :: "string \<Rightarrow> string \<Rightarrow> string set" where
  "explode_set methods delim = explode_set_loop methods delim 0 {}"

fun implode :: "string \<Rightarrow> string list \<Rightarrow> string" where
  "implode glue [] = []"
| "implode glue (p # ps) = fold (\<lambda>q result. result @ glue @ q) ps p"

text \<open>What the fields of a string are: everything between two delimiters.\<close>

fun fields :: "char set \<Rightarrow> string \<Rightarrow> string list" where
  "fields D [] = [[]]"
| "fields D (c # cs) =
    (if c \<in> D then [] # fields D cs
     else case fields D cs of f # fs \<Rightarrow> (c # f) # fs | [] \<Rightarrow> [[c]])"

lemma fields_not_Nil: "fields D s \<noteq> []"
  by (induction s) (auto split: list.splits)

lemma fields_none: "set s \<inter> D = {} \<Longrightarrow> fields D s = [s]"
  by (induction s) auto

lemma fields_split:
  "set f \<inter> D = {} \<Longrightarrow> d \<in> D \<Longrightarrow> fields D (f @ d # s) = f # fields D s"
  by (induction f) auto

lemma find_first_of_Some:
  assumes "find_first_of s delim pos = Some hit"
  shows "pos \<le> hit" "hit < length s" "s ! hit \<in> set delim"
    "set (substr s pos (hit - pos)) \<inter> set delim = {}"
    "drop pos s = substr s pos (hit - pos) @ s ! hit # drop (hit + 1) s"
proof -
  let ?t = "takeWhile (\<lambda>c. c \<notin> set delim) (drop pos s)"
  have h: "hit = pos + length ?t" "hit < length s"
    using assms by (auto simp: find_first_of_def Let_def split: if_splits)
  then have lt: "length ?t < length (drop pos s)" by simp
  show "pos \<le> hit" "hit < length s" using h by auto
  have "drop pos s ! length ?t \<in> set delim" using nth_length_takeWhile [OF lt] by simp
  then show at: "s ! hit \<in> set delim" using h by simp
  have t: "substr s pos (hit - pos) = ?t"
    unfolding substr_def h(1) add_diff_cancel_left' by (rule takeWhile_eq_take [symmetric])
  show "set (substr s pos (hit - pos)) \<inter> set delim = {}"
    unfolding t by (auto dest: set_takeWhileD)
  have "drop (hit - pos) (drop pos s) = s ! hit # drop (hit + 1) s"
    using h by (simp add: Cons_nth_drop_Suc add.commute)
  moreover have "take (hit - pos) (drop pos s) = substr s pos (hit - pos)" by (simp add: substr_def)
  ultimately show "drop pos s = substr s pos (hit - pos) @ s ! hit # drop (hit + 1) s"
    using append_take_drop_id [of "hit - pos" "drop pos s"] by simp
qed

lemma find_first_of_None:
  assumes "find_first_of s delim pos = None" and "pos < length s"
  shows "set (drop pos s) \<inter> set delim = {}"
proof -
  let ?t = "takeWhile (\<lambda>c. c \<notin> set delim) (drop pos s)"
  have "\<not> length ?t < length (drop pos s)"
    using assms by (auto simp: find_first_of_def Let_def split: if_splits)
  then have "?t = drop pos s" using takeWhile_eq_take [of "\<lambda>c. c \<notin> set delim" "drop pos s"] by (metis take_all not_less)
  then show ?thesis by (metis disjoint_iff set_takeWhileD)
qed

lemma explode_loop_fields:
  "pos \<le> length s \<Longrightarrow> explode_loop s delim keep pos r =
    r @ (if keep then fields (set delim) (drop pos s)
         else filter (\<lambda>f. f \<noteq> []) (fields (set delim) (drop pos s)))"
proof (induction s delim keep pos r rule: explode_loop.induct)
  case (1 s delim keep pos r)
  show ?case
  proof (cases "pos < length s")
    case False
    with 1(2) show ?thesis by (subst explode_loop.simps) simp
  next
    case True
    show ?thesis
    proof (cases "find_first_of s delim pos")
      case None
      with find_first_of_None [OF None True] True show ?thesis
        by (subst explode_loop.simps) (simp add: fields_none substr_def)
    next
      case (Some hit)
      note f = find_first_of_Some [OF Some]
      let ?f = "substr s pos (hit - pos)"
      have fs: "fields (set delim) (drop pos s) = ?f # fields (set delim) (drop (hit + 1) s)"
        by (subst f(5)) (rule fields_split [OF f(4,3)])
      have "length ?f = hit - pos" using f(2) by (simp add: substr_def)
      then have e: "?f = [] \<longleftrightarrow> pos = hit" using f(1) by auto
      show ?thesis
        using 1(1) [OF True Some] f(2) True Some e
        by (subst explode_loop.simps) (auto simp: fs)
    qed
  qed
qed

lemma explode_set_loop_fields:
  "pos \<le> length s \<Longrightarrow> explode_set_loop s delim pos r =
    r \<union> set (explode_loop s delim False pos [])"
proof (induction s delim pos r rule: explode_set_loop.induct)
  case (1 s delim pos r)
  have acc: "explode_loop s delim False p q = q @ explode_loop s delim False p []" if "p \<le> length s" for p q
    using that by (simp add: explode_loop_fields)
  show ?case
  proof (cases "pos < length s")
    case False
    then show ?thesis by (subst explode_set_loop.simps, subst explode_loop.simps) simp
  next
    case True
    show ?thesis
    proof (cases "find_first_of s delim pos")
      case None
      with True show ?thesis by (subst explode_set_loop.simps, subst explode_loop.simps) simp
    next
      case (Some hit)
      have "hit + 1 \<le> length s" using find_first_of_Some(2) [OF Some] by simp
      note IH = 1(1) [OF True Some this]
      have step: "explode_loop s delim False pos [] =
          (if pos \<noteq> hit then [substr s pos (hit - pos)] else []) @ explode_loop s delim False (hit + 1) []"
        using True Some acc [OF \<open>hit + 1 \<le> length s\<close>, of "[substr s pos (hit - pos)]"]
        by (subst explode_loop.simps) simp
      have "explode_set_loop s delim pos r = explode_set_loop s delim (hit + 1)
          (if pos \<noteq> hit then insert (substr s pos (hit - pos)) r else r)"
        using True Some by (subst explode_set_loop.simps) simp
      then show ?thesis unfolding step IH by auto
    qed
  qed
qed

text \<open>
  C29. \<open>explode\<close> computes the fields of the string, every delimiter ending one: with \<open>preserve_null\<close>
  all of them, an empty last one included, without it the nonempty ones; the variant into a set
  collects exactly those.
\<close>

theorem explode_computes_fields:
  "explode_internal s delim True = fields (set delim) s \<and>
   explode_internal s delim False = filter (\<lambda>f. f \<noteq> []) (fields (set delim) s) \<and>
   explode_set s delim = {f \<in> set (fields (set delim) s). f \<noteq> []}"
  using explode_loop_fields [of 0 s delim True "[]"] explode_loop_fields [of 0 s delim False "[]"]
    explode_set_loop_fields [of 0 s delim "{}"]
  by (auto simp: explode_internal_def explode_set_def)

lemma implode_eq: "implode glue (p # ps) = p @ concat (map (\<lambda>q. glue @ q) ps)"
proof -
  have "fold (\<lambda>q result. result @ glue @ q) ps p = p @ concat (map (\<lambda>q. glue @ q) ps)"
    by (induction ps arbitrary: p) auto
  then show ?thesis by simp
qed

lemma implode_Cons: "fs \<noteq> [] \<Longrightarrow> implode glue (f # fs) = f @ glue @ implode glue fs"
  by (cases fs) (simp_all add: implode_eq del: implode.simps)

lemma implode_fields: "implode [d] (fields {d} s) = s"
proof (induction s)
  case Nil
  then show ?case by simp
next
  case (Cons c s)
  show ?case
  proof (cases "c = d")
    case True
    then show ?thesis
      using Cons implode_Cons [OF fields_not_Nil] by (simp del: implode.simps)
  next
    case False
    obtain f fs where f: "fields {d} s = f # fs" using fields_not_Nil by (metis neq_Nil_conv)
    then show ?thesis using Cons False by (simp add: implode_eq del: implode.simps)
  qed
qed

lemma fields_implode:
  "fs \<noteq> [] \<Longrightarrow> \<forall>f \<in> set fs. d \<notin> set f \<Longrightarrow> fields {d} (implode [d] fs) = fs"
proof (induction fs)
  case Nil
  then show ?case by simp
next
  case (Cons f fs)
  show ?case
  proof (cases "fs = []")
    case True
    with Cons.prems show ?thesis by (simp add: fields_none)
  next
    case False
    with Cons fields_split [of f "{d}" d "implode [d] fs"] show ?thesis
      by (simp add: implode_Cons del: implode.simps)
  qed
qed

text \<open>
  Joining with one delimiter and splitting at it are inverse: \<open>implode\<close> rebuilds every exploded
  string, and exploding a joined list of fields that do not contain the delimiter gives it back.
\<close>

theorem implode_explode:
  "implode [d] (explode_internal s [d] True) = s \<and>
   (fs \<noteq> [] \<and> (\<forall>f \<in> set fs. d \<notin> set f) \<longrightarrow> explode_internal (implode [d] fs) [d] True = fs)"
proof -
  have "explode_internal t [d] True = fields {d} t" for t
    using explode_loop_fields [of 0 t "[d]" True "[]"] by (simp add: explode_internal_def)
  then show ?thesis using implode_fields fields_implode by simp
qed

lemma implode_explode_witness:
  "explode_internal (implode '';'' [''1'', ''2-3'', '''']) '';'' True = [''1'', ''2-3'', '''']"
  using implode_explode [of "CHR '';''" "[]" "[''1'', ''2-3'', '''']"] by simp

section \<open>Lists of numbers\<close>

text \<open>\<open>strtoul\<close> at a digit: the value of the digits, at most \<open>ULONG_MAX\<close>, and what follows them.\<close>

definition is_digit :: "char \<Rightarrow> bool" where
  "is_digit c \<longleftrightarrow> 48 \<le> (of_char c :: nat) \<and> (of_char c :: nat) \<le> 57"

definition digits_value :: "string \<Rightarrow> nat" where
  "digits_value s = foldl (\<lambda>v c. 10 * v + (of_char c - 48)) 0 s"

definition strtoul :: "string \<Rightarrow> nat \<times> string" where
  "strtoul s = (min (digits_value (takeWhile is_digit s)) (2 ^ 64 - 1), dropWhile is_digit s)"

datatype last_token = NONE | DASH | COMMA | DIGIT | RANGE

text \<open>
  \<open>explode_list_internal\<close> on what is left of the string. The result is the list and where the code's
  pointer is: \<open>None\<close> when it is past the terminating zero.
\<close>

definition sort_unique :: "int list \<Rightarrow> int list" where
  "sort_unique xs = remdups_adj (sort xs)"

definition list_end :: "last_token \<Rightarrow> int \<Rightarrow> int list \<Rightarrow> string option \<Rightarrow> (int list \<times> string option) option" where
  "list_end last_tok digit acc s =
    (if last_tok = DIGIT then Some (sort_unique (acc @ [digit]), s)
     else if last_tok \<noteq> RANGE \<and> last_tok \<noteq> NONE then None
     else Some (sort_unique acc, s))"

function list_loop ::
  "int \<Rightarrow> last_token \<Rightarrow> int \<Rightarrow> int list \<Rightarrow> string \<Rightarrow> (int list \<times> string option) option" where
  "list_loop mx last_tok digit acc [] = list_end last_tok digit acc None"
| "list_loop mx last_tok digit acc (c # s) =
    (if is_digit c then
       (if last_tok \<noteq> COMMA \<and> last_tok \<noteq> DASH \<and> last_tok \<noteq> NONE then None
        else case strtoul (c # s) of (n, s') \<Rightarrow>
          if int n > mx then None
          else if last_tok = DASH then
            (if digit > int n then None
             else list_loop mx RANGE digit (acc @ [digit..int n]) s')
          else list_loop mx DIGIT (int n) acc s')
     else if c = CHR '','' then
       (if last_tok \<noteq> DIGIT \<and> last_tok \<noteq> RANGE then None
        else list_loop mx COMMA digit (if last_tok = DIGIT then acc @ [digit] else acc) s)
     else if c = CHR ''-'' then
       (if last_tok \<noteq> DIGIT then None else list_loop mx DASH digit acc s)
     else if c = CHR '' '' \<or> c = CHR 0x09 then list_loop mx last_tok digit acc s
     else if c = CHR '';'' \<or> c = CHR 0x00 then list_end last_tok digit acc (Some s)
     else None)"
  by pat_completeness auto
termination
  by (relation "measure (\<lambda>(m, l, d, a, s). length s)")
    (auto simp: strtoul_def less_Suc_eq_le length_dropWhile_le)

declare list_loop.simps(2) [simp del]

definition explode_list_internal :: "string \<Rightarrow> int \<Rightarrow> (int list \<times> string option) option" where
  "explode_list_internal s mx = list_loop mx NONE (- 1) [] s"

text \<open>A missing output is an error too; the result is the output of a call that returns 0.\<close>

definition explode_list :: "string \<Rightarrow> int \<Rightarrow> int list option" where
  "explode_list input mx =
    (if mx < 0 then None
     else case explode_list_internal input mx of
            None \<Rightarrow> None | Some (out, _) \<Rightarrow> Some out)"

text \<open>One step of the loop: it ends, or goes on with less to read and its numbers in bounds.\<close>

definition loop_inv :: "int \<Rightarrow> last_token \<Rightarrow> int \<Rightarrow> int list \<Rightarrow> bool" where
  "loop_inv mx l d acc \<longleftrightarrow> (\<forall>x \<in> set acc. 0 \<le> x \<and> x \<le> mx) \<and> (l = DIGIT \<or> l = DASH \<longrightarrow> 0 \<le> d \<and> d \<le> mx)"

lemma list_loop_step:
  assumes "list_loop mx l d acc (c # s) = Some R"
  obtains (stop) "list_end l d acc (Some s) = Some R"
  | (continue) l' d' acc' s' where "length s' \<le> length s" "list_loop mx l' d' acc' s' = Some R"
      "loop_inv mx l d acc \<Longrightarrow> loop_inv mx l' d' acc'"
proof (cases "is_digit c")
  case True
  obtain n s1 where st: "strtoul (c # s) = (n, s1)" by fastforce
  then have len: "length s1 \<le> length s" using True by (auto simp: strtoul_def length_dropWhile_le)
  show thesis
  proof (cases "l = DASH")
    case dash: True
    have "list_loop mx RANGE d (acc @ [d..int n]) s1 = Some R" "int n \<le> mx"
      using assms True st dash by (auto simp: list_loop.simps(2) split: if_splits)
    note run = this(1) and n = this(2)
    have "loop_inv mx RANGE d (acc @ [d..int n])" if "loop_inv mx l d acc"
      using that n unfolding loop_inv_def dash by force
    with continue [OF len run] show thesis by blast
  next
    case False
    have "list_loop mx DIGIT (int n) acc s1 = Some R" "int n \<le> mx"
      using assms True st False by (auto simp: list_loop.simps(2) split: if_splits)
    with continue [OF len this(1)] show thesis by (auto simp: loop_inv_def)
  qed
next
  case False
  note r = assms [unfolded list_loop.simps(2)]
  consider "c = CHR '',''" | "c = CHR ''-''" | "c = CHR '' '' \<or> c = CHR 0x09" | "c = CHR '';'' \<or> c = CHR 0x00"
    using r False by (auto split: if_splits)
  then show thesis
  proof cases
    case 1
    then have "list_loop mx COMMA d (if l = DIGIT then acc @ [d] else acc) s = Some R"
      using r False by (auto split: if_splits)
    from continue [OF le_refl this] show thesis by (auto simp: loop_inv_def)
  next
    case 2
    then have "list_loop mx DASH d acc s = Some R" "l = DIGIT" using r False by (auto split: if_splits)
    from continue [OF le_refl this(1)] this(2) show thesis by (auto simp: loop_inv_def)
  next
    case 3
    then have "list_loop mx l d acc s = Some R" using r False by (auto split: if_splits)
    from continue [OF le_refl this] show thesis by auto
  next
    case 4
    then have "list_end l d acc (Some s) = Some R" using r False by auto
    then show thesis by (rule stop)
  qed
qed

lemma list_loop_shorter:
  "list_loop mx l d acc s = Some (out, Some s') \<Longrightarrow> length s' < length s"
proof (induction "length s" arbitrary: l d acc s rule: less_induct)
  case less
  show ?case
  proof (cases s)
    case Nil
    with less.prems show ?thesis by (auto simp: list_end_def split: if_splits)
  next
    case (Cons c cs)
    from less.prems [unfolded Cons] show ?thesis
    proof (cases rule: list_loop_step)
      case stop
      then show ?thesis using Cons by (auto simp: list_end_def split: if_splits)
    next
      case (continue l' d' acc' s1)
      with less.hyps [of s1 l' d' acc'] Cons show ?thesis by simp
    qed
  qed
qed

function lists_loop :: "string \<Rightarrow> int \<Rightarrow> int list list \<Rightarrow> int list list option" where
  "lists_loop s mx output =
    (case explode_list_internal s mx of
       None \<Rightarrow> None
     | Some (one, None) \<Rightarrow> Some (output @ [one])
     | Some (one, Some s') \<Rightarrow> lists_loop s' mx (output @ [one]))"
  by pat_completeness auto
termination
  by (relation "measure (\<lambda>(s, m, r). length s)")
    (auto simp: explode_list_internal_def dest: list_loop_shorter)

declare lists_loop.simps [simp del]

definition explode_lists :: "string \<Rightarrow> int \<Rightarrow> int list list option" where
  "explode_lists input mx = (if mx < 0 then None else lists_loop input mx [])"

section \<open>What the lists mean\<close>

lemma sort_unique_set: "sort_unique xs = sorted_list_of_set (set xs)"
proof -
  have "sorted (remdups_adj ys) \<and> distinct (remdups_adj ys)" if "sorted ys" for ys :: "int list"
    using that
  proof (induction ys rule: remdups_adj.induct)
    case (3 x y ys)
    then show ?case by (auto simp: le_less)
  qed simp_all
  from this [of "sort xs"] show ?thesis
    unfolding sort_unique_def by (intro sorted_distinct_set_unique) simp_all
qed

lemma list_loop_bounds:
  "list_loop mx l d acc s = Some (out, r) \<Longrightarrow> loop_inv mx l d acc \<Longrightarrow>
    \<exists>xs. out = sort_unique xs \<and> (\<forall>x \<in> set xs. 0 \<le> x \<and> x \<le> mx)"
proof (induction "length s" arbitrary: l d acc s rule: less_induct)
  case less
  have ends: ?case if "list_end l d acc q = Some (out, r)" for q
    using that less.prems(2)
    by (intro exI [where x = "if l = DIGIT then acc @ [d] else acc"])
      (auto simp: list_end_def loop_inv_def split: if_splits)
  show ?case
  proof (cases s)
    case Nil
    with less.prems ends show ?thesis by simp
  next
    case (Cons c cs)
    from less.prems(1) [unfolded Cons] show ?thesis
    proof (cases rule: list_loop_step)
      case stop
      from ends [OF stop] show ?thesis .
    next
      case (continue l' d' acc' s1)
      with less.hyps [of s1 l' d' acc'] less.prems(2) Cons show ?thesis by simp
    qed
  qed
qed

text \<open>The texts a list is written as.\<close>

datatype item = One nat | Span nat nat

fun print_nat :: "nat \<Rightarrow> string" where
  "print_nat n = (if n < 10 then [char_of (48 + n)] else print_nat (n div 10) @ [char_of (48 + n mod 10)])"

declare print_nat.simps [simp del]

fun print_item :: "item \<Rightarrow> string" where
  "print_item (One n) = print_nat n"
| "print_item (Span a b) = print_nat a @ CHR ''-'' # print_nat b"

fun item_values :: "item \<Rightarrow> int set" where
  "item_values (One n) = {int n}"
| "item_values (Span a b) = {int a..int b}"

fun item_ok :: "int \<Rightarrow> item \<Rightarrow> bool" where
  "item_ok mx (One n) = (int n \<le> mx)"
| "item_ok mx (Span a b) = (a \<le> b \<and> int b \<le> mx)"

definition print_items :: "item list \<Rightarrow> string" where
  "print_items its = implode '','' (map print_item its)"

definition list_values :: "item list \<Rightarrow> int list" where
  "list_values its = sorted_list_of_set (\<Union> (item_values ` set its))"

lemma digit_char: "n < 10 \<Longrightarrow> is_digit (char_of (48 + n)) \<and> (of_char (char_of (48 + n)) :: nat) - 48 = n"
  by (simp add: is_digit_def)

lemma print_nat_digits: "set (print_nat n) \<subseteq> Collect is_digit \<and> print_nat n \<noteq> [] \<and> digits_value (print_nat n) = n"
proof (induction n rule: print_nat.induct)
  case (1 n)
  show ?case
  proof (cases "n < 10")
    case True
    then show ?thesis using digit_char by (subst (1 2 3) print_nat.simps) (simp add: digits_value_def)
  next
    case False
    have "n mod 10 < 10" by simp
    from digit_char [OF this] 1 False show ?thesis
      by (subst (1 2 3) print_nat.simps) (simp add: digits_value_def)
  qed
qed

definition ends_number :: "string \<Rightarrow> bool" where
  "ends_number s \<longleftrightarrow> (case s of [] \<Rightarrow> True | c # _ \<Rightarrow> \<not> is_digit c)"

lemma strtoul_print:
  assumes "ends_number s" and "n < 2 ^ 64"
  shows "strtoul (print_nat n @ s) = (n, s)"
proof -
  have "takeWhile is_digit (print_nat n @ s) = print_nat n" "dropWhile is_digit (print_nat n @ s) = s"
    using print_nat_digits [of n] assms(1)
    by (auto simp: takeWhile_append dropWhile_append ends_number_def split: list.splits)
  with assms(2) print_nat_digits [of n] show ?thesis by (simp add: strtoul_def)
qed

lemma loop_number:
  assumes "ends_number s" and "int n \<le> mx" and "mx < 2 ^ 64"
  shows "l = NONE \<or> l = COMMA \<Longrightarrow> list_loop mx l d acc (print_nat n @ s) = list_loop mx DIGIT (int n) acc s"
    and "d \<le> int n \<Longrightarrow> list_loop mx DASH d acc (print_nat n @ s) = list_loop mx RANGE d (acc @ [d..int n]) s"
proof -
  obtain c cs where p: "print_nat n = c # cs" "is_digit c"
    using print_nat_digits [of n] by (cases "print_nat n") auto
  have "n < 2 ^ 64" using assms(2,3) by simp
  from strtoul_print [OF assms(1) this] have st: "strtoul (c # cs @ s) = (n, s)" by (simp add: p)
  show "l = NONE \<or> l = COMMA \<Longrightarrow> list_loop mx l d acc (print_nat n @ s) = list_loop mx DIGIT (int n) acc s"
    using st p assms(2) by (auto simp: list_loop.simps(2))
  show "d \<le> int n \<Longrightarrow> list_loop mx DASH d acc (print_nat n @ s) = list_loop mx RANGE d (acc @ [d..int n]) s"
    using st p assms(2) by (simp add: list_loop.simps(2))
qed

lemma sep_not_digit: "\<not> is_digit (CHR '','')" "\<not> is_digit (CHR ''-'')" "\<not> is_digit (CHR '';'')"
  by (simp_all add: is_digit_def)

text \<open>The whole list, up to the end of the string or a semicolon.\<close>

definition at_end :: "string \<Rightarrow> string option \<Rightarrow> bool" where
  "at_end s r \<longleftrightarrow> s = [] \<and> r = None \<or> (\<exists>t. s = CHR '';'' # t \<and> r = Some t)"

lemma at_end_loop: "at_end s r \<Longrightarrow> list_loop mx l d acc s = list_end l d acc r"
  by (auto simp: at_end_def list_loop.simps(2) sep_not_digit)

lemma at_end_number: "at_end s r \<Longrightarrow> ends_number s"
  by (auto simp: at_end_def ends_number_def sep_not_digit)

definition item_list :: "item \<Rightarrow> int list" where
  "item_list it = (case it of One n \<Rightarrow> [int n] | Span a b \<Rightarrow> [int a..int b])"

lemma item_list_values: "item_ok mx it \<Longrightarrow> set (item_list it) = item_values it"
  by (cases it) (auto simp: item_list_def)

lemma loop_item:
  assumes "item_ok mx it" and "mx < 2 ^ 64" and "l = NONE \<or> l = COMMA"
  shows "at_end s r \<Longrightarrow> list_loop mx l d acc (print_item it @ s) = Some (sort_unique (acc @ item_list it), r)"
    and "\<exists>d'. list_loop mx l d acc (print_item it @ CHR '','' # s) = list_loop mx COMMA d' (acc @ item_list it) s"
proof -
  have comma: "ends_number (CHR '','' # s)" by (simp add: ends_number_def sep_not_digit)
  have dash: "ends_number (CHR ''-'' # t)" for t by (simp add: ends_number_def sep_not_digit)
  have minus: "list_loop mx DIGIT e acc (CHR ''-'' # t) = list_loop mx DASH e acc t" for e t
    by (simp add: list_loop.simps(2) sep_not_digit)
  show "at_end s r \<Longrightarrow> list_loop mx l d acc (print_item it @ s) = Some (sort_unique (acc @ item_list it), r)"
  proof (cases it)
    case (One n)
    assume "at_end s r"
    with One assms loop_number(1) [OF at_end_number] at_end_loop show ?thesis
      by (simp add: list_end_def item_list_def)
  next
    case (Span a b)
    assume e: "at_end s r"
    have "int a \<le> mx" using Span assms(1) by simp
    then show ?thesis
      using Span assms loop_number(1) [OF dash] loop_number(2) [OF at_end_number [OF e]] at_end_loop [OF e]
      by (simp add: list_end_def item_list_def minus)
  qed
  show "\<exists>d'. list_loop mx l d acc (print_item it @ CHR '','' # s) = list_loop mx COMMA d' (acc @ item_list it) s"
  proof (cases it)
    case (One n)
    with assms loop_number(1) [OF comma] show ?thesis
      by (simp add: item_list_def) (simp add: list_loop.simps(2) sep_not_digit, blast)
  next
    case (Span a b)
    have "int a \<le> mx" using Span assms(1) by simp
    then have "list_loop mx l d acc (print_item it @ CHR '','' # s) =
        list_loop mx RANGE (int a) (acc @ item_list it) (CHR '','' # s)"
      using Span assms loop_number(1) [OF dash] loop_number(2) [OF comma]
      by (simp add: item_list_def minus)
    then show ?thesis by (simp add: list_loop.simps(2) sep_not_digit) blast
  qed
qed

lemma loop_items:
  "its \<noteq> [] \<Longrightarrow> list_all (item_ok mx) its \<Longrightarrow> mx < 2 ^ 64 \<Longrightarrow> l = NONE \<or> l = COMMA \<Longrightarrow> at_end s r \<Longrightarrow>
    list_loop mx l d acc (print_items its @ s) = Some (sort_unique (acc @ concat (map item_list its)), r)"
proof (induction its arbitrary: l d acc)
  case Nil
  then show ?case by simp
next
  case (Cons it its)
  show ?case
  proof (cases "its = []")
    case True
    with Cons.prems loop_item(1) [of mx it l s r d acc] show ?thesis by (simp add: print_items_def)
  next
    case False
    then have p: "print_items (it # its) @ s = print_item it @ CHR '','' # (print_items its @ s)"
      by (simp add: print_items_def implode_Cons del: implode.simps)
    obtain d' where "list_loop mx l d acc (print_item it @ CHR '','' # (print_items its @ s)) =
        list_loop mx COMMA d' (acc @ item_list it) (print_items its @ s)"
      using loop_item(2) [of mx it l d acc] Cons.prems by auto
    with Cons.IH [OF False, of COMMA d' "acc @ item_list it"] Cons.prems show ?thesis
      unfolding p by simp
  qed
qed

lemma internal_items:
  assumes "list_all (item_ok mx) its" and "mx < 2 ^ 64" and "at_end s r"
  shows "explode_list_internal (print_items its @ s) mx = Some (list_values its, r)"
proof (cases "its = []")
  case True
  then show ?thesis
    using at_end_loop [OF assms(3)]
    by (simp add: explode_list_internal_def print_items_def list_end_def list_values_def sort_unique_def)
next
  case False
  have "set (concat (map item_list its)) = \<Union> (item_values ` set its)"
    using assms(1) item_list_values by (fastforce simp: list_all_iff)
  with loop_items [OF False assms(1,2) _ assms(3), of NONE "-1" "[]"] show ?thesis
    by (simp add: explode_list_internal_def list_values_def sort_unique_set)
qed

text \<open>
  \<open>explode_list\<close> reads back every written list of numbers and ranges: the result is the ascending
  list of the numbers named, each once. What follows a semicolon is not looked at, whatever it is.
\<close>

theorem explode_list_reads:
  assumes "list_all (item_ok mx) its" and "0 \<le> mx" and "mx < 2 ^ 31"
  shows "explode_list (print_items its) mx = Some (sorted_list_of_set (\<Union> (item_values ` set its))) \<and>
    explode_list (print_items its @ CHR '';'' # junk) mx = explode_list (print_items its) mx"
proof -
  have mx: "mx < 2 ^ 64" using assms(3) by simp
  have 1: "at_end [] None" "at_end (CHR '';'' # junk) (Some junk)" by (simp_all add: at_end_def)
  show ?thesis
    using internal_items [OF assms(1) mx 1(1)] internal_items [OF assms(1) mx 1(2)] assms(2)
    by (simp add: explode_list_def list_values_def)
qed

lemma explode_list_reads_witness:
  "explode_list ''1,3-6,8;x'' 256 = Some [1, 3, 4, 5, 6, 8]"
proof -
  have p: "print_items [One 1, Span 3 6, One 8] = ''1,3-6,8''"
    by code_simp
  have "sorted_list_of_set (\<Union> (item_values ` set [One 1, Span 3 6, One 8])) = [1, 3, 4, 5, 6, 8]"
  proof -
    have "\<Union> (item_values ` set [One 1, Span 3 6, One 8]) = set [1, 3, 4, 5, 6, 8]"
      by auto
    then show ?thesis by (simp only: sorted_list_of_set_sort_remdups) simp
  qed
  with explode_list_reads [of 256 "[One 1, Span 3 6, One 8]" "''x''"] show ?thesis
    unfolding p by simp
qed

lemma lists_loop_reads:
  "ls \<noteq> [] \<Longrightarrow> list_all (list_all (item_ok mx)) ls \<Longrightarrow> mx < 2 ^ 64 \<Longrightarrow>
    lists_loop (implode '';'' (map print_items ls)) mx acc = Some (acc @ map list_values ls)"
proof (induction ls arbitrary: acc)
  case Nil
  then show ?case by simp
next
  case (Cons its ls)
  show ?case
  proof (cases "ls = []")
    case True
    have "at_end [] None" by (simp add: at_end_def)
    from internal_items [OF _ _ this, of mx its] Cons.prems True show ?thesis
      by (subst lists_loop.simps) simp
  next
    case False
    let ?t = "implode '';'' (map print_items ls)"
    have "at_end (CHR '';'' # ?t) (Some ?t)" by (simp add: at_end_def)
    from internal_items [OF _ _ this, of mx its] Cons.prems
    have "explode_list_internal (print_items its @ CHR '';'' # ?t) mx = Some (list_values its, Some ?t)"
      by simp
    moreover have "implode '';'' (map print_items (its # ls)) = print_items its @ CHR '';'' # ?t"
      using False by (simp add: implode_Cons del: implode.simps)
    ultimately show ?thesis
      using Cons.IH [OF False] Cons.prems by (subst lists_loop.simps) (simp del: implode.simps)
  qed
qed

text \<open>
  \<open>explode_lists\<close> reads back written lists separated by semicolons: one result per list, in
  order, empty lists included, each the ascending list of the numbers it names.
\<close>

theorem explode_lists_reads:
  assumes "ls \<noteq> []" and "list_all (list_all (item_ok mx)) ls" and "0 \<le> mx" and "mx < 2 ^ 31"
  shows "explode_lists (implode '';'' (map print_items ls)) mx =
    Some (map (\<lambda>its. sorted_list_of_set (\<Union> (item_values ` set its))) ls)"
  using lists_loop_reads [OF assms(1,2), of "[]"] assms(3,4)
  by (simp add: explode_lists_def list_values_def [abs_def] del: implode.simps)

lemma explode_lists_reads_witness: "explode_lists ''2;;2-2'' 256 = Some [[2], [], [2]]"
proof -
  have p: "implode '';'' (map print_items [[One 2], [], [Span 2 2]]) = ''2;;2-2''" by code_simp
  from explode_lists_reads [of "[[One 2], [], [Span 2 2]]" 256] show ?thesis unfolding p by (simp del: implode.simps)
qed

lemma lists_loop_bounds:
  "lists_loop s mx acc = Some ls \<Longrightarrow> \<forall>l \<in> set acc. sorted_wrt (<) l \<and> (\<forall>x \<in> set l. 0 \<le> x \<and> x \<le> mx) \<Longrightarrow>
    \<forall>l \<in> set ls. sorted_wrt (<) l \<and> (\<forall>x \<in> set l. 0 \<le> x \<and> x \<le> mx)"
proof (induction s mx acc rule: lists_loop.induct)
  case (1 s mx acc)
  obtain one r where one: "explode_list_internal s mx = Some (one, r)"
    using 1(2) by (subst (asm) lists_loop.simps) (auto split: option.splits)
  have "loop_inv mx NONE (-1) []" by (simp add: loop_inv_def)
  from list_loop_bounds [OF one [unfolded explode_list_internal_def] this]
  have "sorted_wrt (<) one \<and> (\<forall>x \<in> set one. 0 \<le> x \<and> x \<le> mx)"
    by (auto simp: sort_unique_set strict_sorted_iff)
  then have acc: "\<forall>l \<in> set (acc @ [one]). sorted_wrt (<) l \<and> (\<forall>x \<in> set l. 0 \<le> x \<and> x \<le> mx)"
    using 1(3) by auto
  show ?case
  proof (cases r)
    case None
    with 1(2) one acc show ?thesis by (subst (asm) lists_loop.simps) auto
  next
    case (Some s')
    have "lists_loop s' mx (acc @ [one]) = Some ls"
      using 1(2) one Some by (subst (asm) lists_loop.simps) simp
    from 1(1) [OF one refl Some this acc] show ?thesis .
  qed
qed

text \<open>
  Whatever the input, \<open>explode_lists\<close> either refuses it or gives strictly ascending lists of
  numbers between 0 and the maximum.
\<close>

theorem explode_lists_bounded:
  assumes "explode_lists input mx = Some ls" and "l \<in> set ls"
  shows "sorted_wrt (<) l \<and> (\<forall>x \<in> set l. 0 \<le> x \<and> x \<le> mx)"
  using lists_loop_bounds [of input mx "[]" ls] assms by (auto simp: explode_lists_def split: if_splits)

lemma explode_lists_bounded_witness: "sorted_wrt (<) (list_values [One 1, One 2])"
proof -
  have "explode_lists (implode '';'' (map print_items [[One 1, One 2], []])) 2 =
      Some (map list_values [[One 1, One 2], []])"
    using lists_loop_reads [of "[[One 1, One 2], []]" 2 "[]"]
    by (simp add: explode_lists_def del: implode.simps)
  from explode_lists_bounded [OF this, of "list_values [One 1, One 2]"] show ?thesis by simp
qed

section \<open>trim\<close>

definition DELIMITER :: "char set" where
  "DELIMITER = {CHR '' '', CHR 0x09, CHR 0x0D, CHR 0x0A, CHR 0x0C, CHR 0x0B, CHR 0x08, CHR 0x07}"

definition c_str :: "string \<Rightarrow> string" where
  "c_str s = takeWhile (\<lambda>c. c \<noteq> CHR 0x00) s"

definition find_first_not_of :: "string \<Rightarrow> char set \<Rightarrow> nat option" where
  "find_first_not_of s D =
    (let n = length (takeWhile (\<lambda>c. c \<in> D) s) in if n < length s then Some n else None)"

definition find_last_not_of :: "string \<Rightarrow> char set \<Rightarrow> nat option" where
  "find_last_not_of s D =
    (let n = length (takeWhile (\<lambda>c. c \<in> D) (rev s)) in if n < length s then Some (length s - 1 - n) else None)"

definition trim :: "string \<Rightarrow> string" where
  "trim string =
    (let str = c_str string in
     case (find_first_not_of str DELIMITER, find_last_not_of str DELIMITER) of
       (Some strhead, Some strtail) \<Rightarrow> substr str strhead (strtail - strhead + 1)
     | _ \<Rightarrow> [])"

definition ltrim :: "string \<Rightarrow> string" where
  "ltrim string =
    (let str = c_str string in
     case find_first_not_of str DELIMITER of
       None \<Rightarrow> [] | Some strhead \<Rightarrow> substr str strhead (length str - strhead))"

definition rtrim :: "string \<Rightarrow> string" where
  "rtrim string =
    (let str = c_str string in
     case find_last_not_of str DELIMITER of
       None \<Rightarrow> [] | Some strtail \<Rightarrow> substr str 0 (strtail + 1))"

lemma takeWhile_short: "c \<in> set xs \<Longrightarrow> \<not> P c \<Longrightarrow> length (takeWhile P xs) < length xs"
  by (induction xs) auto

text \<open>What trimming means.\<close>

definition drop_last_while :: "('a \<Rightarrow> bool) \<Rightarrow> 'a list \<Rightarrow> 'a list" where
  "drop_last_while P xs = rev (dropWhile P (rev xs))"

lemma ltrim_spec: "ltrim s = dropWhile (\<lambda>c. c \<in> DELIMITER) (c_str s)"
proof -
  let ?s = "c_str s" and ?P = "\<lambda>c. c \<in> DELIMITER"
  have "dropWhile ?P ?s = drop (length (takeWhile ?P ?s)) ?s" by (rule dropWhile_eq_drop)
  moreover have "length (takeWhile ?P ?s) \<le> length ?s" by (rule length_takeWhile_le)
  ultimately show ?thesis
    by (auto simp: ltrim_def find_first_not_of_def Let_def substr_def)
qed

lemma drop_last_while_take:
  "drop_last_while P xs = take (length xs - length (takeWhile P (rev xs))) xs"
  by (simp add: drop_last_while_def dropWhile_eq_drop rev_drop)

lemma rtrim_spec: "rtrim s = drop_last_while (\<lambda>c. c \<in> DELIMITER) (c_str s)"
proof -
  let ?s = "c_str s" and ?P = "\<lambda>c. c \<in> DELIMITER"
  show ?thesis
    by (auto simp: rtrim_def find_last_not_of_def Let_def substr_def drop_last_while_take Suc_diff_Suc)
qed

text \<open>
  \<open>trim\<close> removes the blanks at both ends and nothing else, and is the same as trimming the left and
  then the right end; the result never begins or ends with a blank.
\<close>

theorem trim_removes_blanks:
  "trim s = rtrim (ltrim s) \<and>
   (\<exists>a b. c_str s = a @ trim s @ b \<and> set a \<subseteq> DELIMITER \<and> set b \<subseteq> DELIMITER) \<and>
   (trim s = [] \<or> hd (trim s) \<notin> DELIMITER \<and> last (trim s) \<notin> DELIMITER)"
proof -
  let ?s = "c_str s" and ?P = "\<lambda>c. c \<in> DELIMITER"
  let ?h = "length (takeWhile ?P ?s)" and ?t = "length (takeWhile ?P (rev ?s))"
  have l: "ltrim s = drop ?h ?s" by (simp add: ltrim_spec dropWhile_eq_drop)
  have z: "takeWhile (\<lambda>c. c \<noteq> CHR 0x00) (drop n ?s) = drop n ?s" for n
    by (rule takeWhile_eq_all_conv [THEN iffD2]) (auto simp: c_str_def dest!: in_set_dropD set_takeWhileD)
  have t: "trim s = drop_last_while ?P (dropWhile ?P ?s)"
  proof (cases "\<forall>c \<in> set ?s. ?P c")
    case True
    then have "takeWhile ?P ?s = ?s" "dropWhile ?P ?s = []" by simp_all
    then show ?thesis by (simp only: trim_def find_first_not_of_def Let_def drop_last_while_def) simp
  next
    case False
    then obtain c where c: "c \<in> set ?s" "\<not> ?P c" by blast
    have c2: "c \<in> set (drop ?h ?s)"
      using c append_take_drop_id [of ?h ?s] set_takeWhileD [of _ ?P ?s]
      by (metis Un_iff set_append takeWhile_eq_take)
    have "rev ?s = rev (drop ?h ?s) @ rev (take ?h ?s)" by (metis append_take_drop_id rev_append)
    then have tr: "takeWhile ?P (rev ?s) = takeWhile ?P (rev (drop ?h ?s))"
      using c(2) c2 by (metis (mono_tags, lifting) set_rev takeWhile_append1)
    have lt: "?h < length ?s" "?t < length ?s"
      using c takeWhile_short [of c ?s ?P] takeWhile_short [of c "rev ?s" ?P] by simp_all
    have le: "?t < length (drop ?h ?s)"
      unfolding tr using c(2) c2 takeWhile_short [of c "rev (drop ?h ?s)" ?P] by simp
    have "trim s = take (length ?s - 1 - ?t - ?h + 1) (drop ?h ?s)"
      using lt by (simp add: trim_def find_first_not_of_def find_last_not_of_def Let_def substr_def)
    moreover have "drop_last_while ?P (drop ?h ?s) = take (length (drop ?h ?s) - ?t) (drop ?h ?s)"
      by (simp only: drop_last_while_take tr)
    moreover have "length ?s - 1 - ?t - ?h + 1 = length (drop ?h ?s) - ?t" using le by simp
    ultimately show ?thesis by (simp add: dropWhile_eq_drop)
  qed
  have ends: "\<exists>b. xs = drop_last_while ?P xs @ b \<and> set b \<subseteq> DELIMITER" for xs
    by (rule exI [where x = "rev (takeWhile ?P (rev xs))"])
      (auto simp: drop_last_while_def rev_append [symmetric] simp del: rev_append dest: set_takeWhileD)
  obtain b where b: "dropWhile ?P ?s = trim s @ b" "set b \<subseteq> DELIMITER" using ends t by metis
  have "?s = takeWhile ?P ?s @ trim s @ b" by (metis b(1) takeWhile_dropWhile_id)
  moreover have "set (takeWhile ?P ?s) \<subseteq> DELIMITER" by (auto dest: set_takeWhileD)
  moreover have "trim s = rtrim (ltrim s)" by (simp add: t rtrim_spec ltrim_spec c_str_def z [unfolded c_str_def, folded dropWhile_eq_drop] dropWhile_eq_drop)
  moreover have "hd (trim s) \<notin> DELIMITER \<and> last (trim s) \<notin> DELIMITER" if ne: "trim s \<noteq> []"
  proof
    have "hd (dropWhile ?P ?s) \<notin> DELIMITER" using hd_dropWhile [of ?P ?s] b(1) ne by auto
    with b(1) ne show "hd (trim s) \<notin> DELIMITER" by simp
    have "dropWhile ?P (rev (dropWhile ?P ?s)) \<noteq> []" using ne t by (auto simp: drop_last_while_def)
    from hd_dropWhile [OF this] show "last (trim s) \<notin> DELIMITER"
      by (simp add: t drop_last_while_def last_rev)
  qed
  ultimately show ?thesis using b(2) by blast
qed

end
