(* ===== verification/Text_Encode.thy ===== *)
theory Text_Encode
  imports Flinter_Prelude
begin

text \<open>
  The value types and codecs of the library: hexadecimal and HTML encoding
  (\<open>flinter/encode.cpp\<close>) and 128-bit integers (\<open>flinter/types/uint128_t.cpp\<close>, \<open>.h\<close>). A
  \<open>std::string\<close> is a list of characters.
\<close>

section \<open>Hexadecimal\<close>

definition HexChar :: "char \<Rightarrow> int" where
  "HexChar c =
    (let n = of_char c :: nat in
     if 48 \<le> n \<and> n \<le> 57 then int n - 48
     else if 65 \<le> n \<and> n \<le> 70 then int n - 65 + 10
     else if 97 \<le> n \<and> n \<le> 102 then int n - 97 + 10
     else -1)"

definition HEX :: string where "HEX = ''0123456789ABCDEF''"

definition EncodeHex :: "string \<Rightarrow> string" where
  "EncodeHex what = concat (map (\<lambda>q. [HEX ! (of_char q div 16), HEX ! (of_char q mod 16)]) what)"

text \<open>
  \<open>DecodeHex\<close> into the string \<open>what\<close>, which is resized first and keeps what was decoded before a
  character that is not a digit.
\<close>

fun decode_loop :: "string \<Rightarrow> nat \<Rightarrow> string \<Rightarrow> int \<times> string" where
  "decode_loop (a # b # hex) i what =
    (let h = HexChar a; l = HexChar b in
     if h < 0 \<or> l < 0 then (-1, what)
     else decode_loop hex (i + 1) (what[i := char_of (nat (h * 16 + l))]))"
| "decode_loop _ i what = (0, what)"

definition string_resize :: "nat \<Rightarrow> string \<Rightarrow> string" where
  "string_resize n s = take n s @ replicate (n - length s) (CHR 0x00)"

definition DecodeHexTo :: "string \<Rightarrow> string \<Rightarrow> int \<times> string" where
  "DecodeHexTo hex what =
    (if length hex = 0 \<or> length hex mod 2 \<noteq> 0 then (-1, what)
     else decode_loop hex 0 (string_resize (length hex div 2) what))"

definition DecodeHex :: "string \<Rightarrow> string" where
  "DecodeHex hex = (case DecodeHexTo hex [] of (ret, what) \<Rightarrow> if ret \<noteq> 0 then [] else what)"

lemma HEX_digit: "n < 16 \<Longrightarrow> HexChar (HEX ! n) = int n"
proof -
  have "\<forall>n \<in> set [0..<16]. HexChar (HEX ! n) = int n" by code_simp
  then show "n < 16 \<Longrightarrow> HexChar (HEX ! n) = int n" by simp
qed

lemma length_EncodeHex: "length (EncodeHex s) = 2 * length s"
  by (induction s) (simp_all add: EncodeHex_def)

lemma decode_encode:
  "i + length s = length what \<Longrightarrow> decode_loop (EncodeHex s) i what = (0, take i what @ s)"
proof (induction s arbitrary: i what)
  case Nil
  then show ?case by (simp add: EncodeHex_def)
next
  case (Cons c s)
  let ?n = "of_char c :: nat"
  have "?n div 16 < 16" "?n mod 16 < 16" by (simp_all add: less_mult_imp_div_less of_char_of)
  then have h: "HexChar (HEX ! (?n div 16)) = int (?n div 16)" "HexChar (HEX ! (?n mod 16)) = int (?n mod 16)"
    by (simp_all only: HEX_digit)
  have "nat (int (?n div 16) * 16 + int (?n mod 16)) = ?n"
    by (simp add: nat_add_distrib nat_mult_distrib)
  then have "char_of (nat (int (?n div 16) * 16 + int (?n mod 16))) = c" by simp
  then have "decode_loop (EncodeHex (c # s)) i what = decode_loop (EncodeHex s) (i + 1) (what[i := c])"
    using h by (simp add: EncodeHex_def Let_def)
  also have "\<dots> = (0, take (i + 1) (what[i := c]) @ s)"
    using Cons.prems by (intro Cons.IH) simp
  also have "take (i + 1) (what[i := c]) @ s = take i what @ c # s"
    using Cons.prems by (simp add: take_Suc_conv_app_nth)
  finally show ?case .
qed

definition isxdigit :: "char \<Rightarrow> bool" where
  "isxdigit c \<longleftrightarrow> (of_char c :: nat) \<in> {48..57} \<union> {65..70} \<union> {97..102}"

lemma HexChar_nonneg: "0 \<le> HexChar c \<longleftrightarrow> isxdigit c"
  by (auto simp: HexChar_def isxdigit_def Let_def)

lemma HexChar_less: "HexChar c < 16"
  by (simp add: HexChar_def Let_def)

lemma decode_ret: "even (length hex) \<Longrightarrow>
    fst (decode_loop hex i what) = (if \<forall>c \<in> set hex. 0 \<le> HexChar c then 0 else -1)"
  by (induction hex i what rule: decode_loop.induct) (auto simp: Let_def)

text \<open>
  Hexadecimal encoding is decoded to the bytes it came from, for every nonempty string; decoding
  succeeds exactly on the nonempty strings of an even number of hexadecimal digits, and then does not
  depend on what the output held before.
\<close>

theorem hex_roundtrip:
  "(what \<noteq> [] \<longrightarrow> DecodeHexTo (EncodeHex what) old = (0, what)) \<and> DecodeHex (EncodeHex what) = what \<and>
   (fst (DecodeHexTo hex old) = 0 \<longleftrightarrow>
     hex \<noteq> [] \<and> even (length hex) \<and> list_all isxdigit hex)"
proof -
  have 1: "DecodeHexTo (EncodeHex s) old = (0, s)" if "s \<noteq> []" for s old
  proof -
    have "decode_loop (EncodeHex s) 0 (string_resize (length s) old) = (0, s)"
      using decode_encode [of 0 s] by (simp add: string_resize_def)
    then show ?thesis using that by (simp add: DecodeHexTo_def length_EncodeHex)
  qed
  then have 2: "DecodeHex (EncodeHex what) = what"
    by (cases "what = []") (simp_all add: DecodeHex_def DecodeHexTo_def EncodeHex_def)
  have "fst (DecodeHexTo hex old) = 0 \<longleftrightarrow>
      hex \<noteq> [] \<and> even (length hex) \<and> list_all isxdigit hex"
    using decode_ret [of hex 0]
    by (auto simp: DecodeHexTo_def HexChar_nonneg odd_iff_mod_2_eq_one list_all_iff split: if_splits)
  with 1 2 show ?thesis by blast
qed

lemma hex_roundtrip_witness: "DecodeHexTo (EncodeHex ''flinter'') ''xyz'' = (0, ''flinter'')"
  using hex_roundtrip [of "''flinter''" "''xyz''" "[]"] by blast

section \<open>HTML\<close>

fun html_extra :: "string \<Rightarrow> nat" where
  "html_extra [] = 0"
| "html_extra (c # cs) =
    (if c = CHR ''<'' \<or> c = CHR ''>'' then 3
     else if c = CHR ''&'' then 4
     else if c = CHR 0x27 \<or> c = CHR 0x22 then 5 else 0) + html_extra cs"

definition html_char :: "bool \<Rightarrow> char \<Rightarrow> string" where
  "html_char ie_compatible c =
    (if c = CHR ''<'' then ''&lt;''
     else if c = CHR ''>'' then ''&gt;''
     else if c = CHR ''&'' then ''&amp;''
     else if c = CHR 0x22 then ''&quot;''
     else if c = CHR 0x27 then (if ie_compatible then ''&#039;'' else ''&apos;'')
     else [c])"

definition EscapeHtml :: "string \<Rightarrow> bool \<Rightarrow> string" where
  "EscapeHtml html ie_compatible =
    (if html = [] then html
     else if html_extra html = 0 then html
     else fold (\<lambda>p result. result @ html_char ie_compatible p) html [])"

text \<open>Reading the escaped text back.\<close>

fun unescape :: "string \<Rightarrow> string" where
  "unescape [] = []"
| "unescape (c # cs) =
    (if c \<noteq> CHR ''&'' then c # unescape cs
     else if take 3 cs = ''lt;'' then CHR ''<'' # unescape (drop 3 cs)
     else if take 3 cs = ''gt;'' then CHR ''>'' # unescape (drop 3 cs)
     else if take 4 cs = ''amp;'' then CHR ''&'' # unescape (drop 4 cs)
     else if take 5 cs = ''quot;'' then CHR 0x22 # unescape (drop 5 cs)
     else if take 5 cs = ''apos;'' \<or> take 5 cs = ''#039;'' then CHR 0x27 # unescape (drop 5 cs)
     else c # unescape cs)"

lemma escape_concat: "EscapeHtml html ie = concat (map (html_char ie) html)"
proof -
  have "fold (\<lambda>p result. result @ html_char ie p) html r = r @ concat (map (html_char ie) html)" for r
    by (induction html arbitrary: r) auto
  moreover have "html_extra html = 0 \<Longrightarrow> concat (map (html_char ie) html) = html"
    by (induction html) (auto simp: html_char_def split: if_splits)
  ultimately show ?thesis by (simp add: EscapeHtml_def)
qed

lemma length_html_char:
  "length (html_char ie c) = Suc (if c = CHR ''<'' \<or> c = CHR ''>'' then 3
     else if c = CHR ''&'' then 4 else if c = CHR 0x27 \<or> c = CHR 0x22 then 5 else 0)"
  by (simp add: html_char_def)

lemma unescape_char: "unescape (html_char ie c @ s) = c # unescape s"
  by (simp add: html_char_def)

text \<open>
  Escaping leaves no character that has a meaning in HTML except the ampersands of its entities,
  takes exactly the space that was reserved for it, and loses nothing: decoding the entities gives
  the text back.
\<close>

theorem escape_html_roundtrip:
  "unescape (EscapeHtml html ie) = html \<and>
   set (EscapeHtml html ie) \<inter> {CHR ''<'', CHR ''>'', CHR 0x22, CHR 0x27} = {} \<and>
   length (EscapeHtml html ie) = length html + html_extra html"
proof (induction html)
  case Nil
  then show ?case by (simp add: escape_concat)
next
  case (Cons c html)
  have "set (html_char ie c) \<inter> {CHR ''<'', CHR ''>'', CHR 0x22, CHR 0x27} = {}"
    by (simp add: html_char_def)
  with Cons unescape_char length_html_char [of ie c] show ?case
    by (auto simp: escape_concat)
qed

section \<open>128-bit integers\<close>

record uint128 =
  u_high :: u64
  u_low :: u64

definition uint128_of_unsigned :: "u64 \<Rightarrow> uint128" where
  "uint128_of_unsigned low = \<lparr>u_high = 0, u_low = low\<rparr>"

definition uint128_of_signed :: "int \<Rightarrow> uint128" where
  "uint128_of_signed low = \<lparr>u_high = (if low < 0 then -1 else 0), u_low = word_of_int low\<rparr>"

definition uint128_assign_unsigned :: "u64 \<Rightarrow> uint128 \<Rightarrow> uint128" where
  "uint128_assign_unsigned low u = u\<lparr>u_high := 0, u_low := low\<rparr>"

definition uint128_assign_signed :: "int \<Rightarrow> uint128 \<Rightarrow> uint128" where
  "uint128_assign_signed low u = u\<lparr>u_high := (if low < 0 then -1 else 0), u_low := word_of_int low\<rparr>"

definition uint128_compare :: "uint128 \<Rightarrow> uint128 \<Rightarrow> int" where
  "uint128_compare a b =
    (if u_high a < u_high b then -1
     else if u_high a = u_high b then
       (if u_low a < u_low b then -1 else if u_low a = u_low b then 0 else 1)
     else 1)"

definition llx_digit :: "nat \<Rightarrow> char" where
  "llx_digit n = ''0123456789abcdef'' ! n"

text \<open>\<open>snprintf\<close> with \<open>%016llx\<close>, and \<open>sscanf\<close> with it on sixteen digits.\<close>

definition print_016llx :: "u64 \<Rightarrow> string" where
  "print_016llx w = map (\<lambda>i. llx_digit (unat w div 16 ^ (15 - i) mod 16)) [0..<16]"

definition scan_016llx :: "string \<Rightarrow> u64" where
  "scan_016llx s = of_nat (foldl (\<lambda>v c. 16 * v + nat (HexChar c)) 0 s)"

definition ToHexString :: "uint128 \<Rightarrow> string" where
  "ToHexString u = print_016llx (u_high u) @ print_016llx (u_low u)"

definition HEX_STRING_LENGTH :: nat where "HEX_STRING_LENGTH = 32"

text \<open>\<open>FromHexString\<close>: a string that is too short ends in a zero, which is no digit.\<close>

definition FromHexString :: "string option \<Rightarrow> uint128 \<Rightarrow> bool \<times> uint128" where
  "FromHexString hex u =
    (case hex of
       None \<Rightarrow> (False, u)
     | Some s \<Rightarrow>
         if \<not> (\<forall>i < HEX_STRING_LENGTH. i < length s \<and> isxdigit (s ! i)) then (False, u)
         else (True, u\<lparr>u_high := scan_016llx (take 16 s), u_low := scan_016llx (take 16 (drop 16 s))\<rparr>))"

definition uint128_val :: "uint128 \<Rightarrow> nat" where
  "uint128_val u = unat (u_high u) * 2 ^ 64 + unat (u_low u)"

lemma uint128_val_less:
  "uint128_val a < uint128_val b \<longleftrightarrow> u_high a < u_high b \<or> u_high a = u_high b \<and> u_low a < u_low b"
proof -
  have l: "unat (u_low a) < 2 ^ 64" "unat (u_low b) < 2 ^ 64"
    using unsigned_less [of "u_low a"] unsigned_less [of "u_low b"] by simp_all
  show ?thesis
  proof (cases "unat (u_high a)" "unat (u_high b)" rule: linorder_cases)
    case less
    then have "Suc (unat (u_high a)) * 2 ^ 64 \<le> unat (u_high b) * 2 ^ 64" by (intro mult_le_mono1) simp
    with l less show ?thesis by (simp add: uint128_val_def word_less_nat_alt)
  next
    case equal
    then show ?thesis by (simp add: uint128_val_def word_less_nat_alt word_unat_eq_iff)
  next
    case greater
    then have "Suc (unat (u_high b)) * 2 ^ 64 \<le> unat (u_high a) * 2 ^ 64" by (intro mult_le_mono1) simp
    with l greater show ?thesis by (auto simp: uint128_val_def word_less_nat_alt)
  qed
qed

lemma uint128_val_inj: "uint128_val a = uint128_val b \<longleftrightarrow> a = b"
proof
  assume e: "uint128_val a = uint128_val b"
  have "\<not> uint128_val a < uint128_val b" "\<not> uint128_val b < uint128_val a" using e by simp_all
  then show "a = b" unfolding uint128_val_less
    by (intro uint128.equality) (auto simp: not_less)
qed simp

interpretation u128: three_way uint128_compare uint128_val "\<lambda>_. True"
  by unfold_locales (auto simp: uint128_compare_def uint128_val_less uint128_val_inj intro: uint128.equality)

text \<open>
  The comparison operators of \<open>uint128_t\<close> are those of the 128-bit numbers, so they are a linear
  order, and equality is that of the two halves.
\<close>

theorem uint128_order:
  "(cmp_lt uint128_compare a b \<longleftrightarrow> uint128_val a < uint128_val b) \<and>
   (cmp_le uint128_compare a b \<longleftrightarrow> uint128_val a \<le> uint128_val b) \<and>
   (cmp_eq uint128_compare a b \<longleftrightarrow> a = b) \<and>
   sgn (uint128_compare a b) = - sgn (uint128_compare b a)"
  using u128.cmp_neg [of a b] u128.le_iff [of a b] u128.cmp_zero [of a b] u128.cmp_sgn [of a b]
  by (simp add: cmp_lt_def cmp_eq_def uint128_val_inj)

text \<open>Sixteen digits.\<close>

lemma llx_HexChar: "n < 16 \<Longrightarrow> HexChar (llx_digit n) = int n \<and> isxdigit (llx_digit n)"
proof -
  have "\<forall>n \<in> set [0..<16]. HexChar (llx_digit n) = int n" by code_simp
  then show "n < 16 \<Longrightarrow> HexChar (llx_digit n) = int n \<and> isxdigit (llx_digit n)"
    by (simp flip: HexChar_nonneg)
qed

lemma foldl_digits:
  "foldl (\<lambda>v c. 16 * v + nat (HexChar c)) 0 (map (\<lambda>i. llx_digit (n div 16 ^ (k - Suc i) mod 16)) [0..<k])
    = n mod 16 ^ k"
proof (induction k arbitrary: n)
  case 0
  then show ?case by simp
next
  case (Suc k)
  let ?F = "foldl (\<lambda>v c. 16 * v + nat (HexChar c)) 0" and ?f = "\<lambda>i. llx_digit (n div 16 ^ (Suc k - Suc i) mod 16)"
  have e: "map ?f [0..<k] = map (\<lambda>i. llx_digit (n div 16 div 16 ^ (k - Suc i) mod 16)) [0..<k]"
    by (intro map_cong refl) (simp add: div_mult2_eq [symmetric] Suc_diff_Suc flip: power_Suc)
  have "?F (map ?f [0..<Suc k]) = 16 * ?F (map ?f [0..<k]) + nat (HexChar (?f k))" by simp
  also have "\<dots> = 16 * (n div 16 mod 16 ^ k) + n mod 16"
    unfolding e Suc by (simp add: llx_HexChar)
  also have "\<dots> = n mod 16 ^ Suc k" by (simp add: mod_mult2_eq)
  finally show ?case .
qed

lemma scan_print: "scan_016llx (print_016llx w) = w"
proof -
  have "foldl (\<lambda>v c. 16 * v + nat (HexChar c)) 0 (print_016llx w) = unat w mod 16 ^ 16"
    using foldl_digits [of "unat w" 16] by (simp add: print_016llx_def)
  moreover have "unat w < 16 ^ 16" using unsigned_less [of w] by simp
  ultimately show ?thesis by (simp add: scan_016llx_def)
qed

lemma llx_facts: "length (print_016llx w) = 16" "list_all isxdigit (print_016llx w)"
  by (simp_all add: print_016llx_def list_all_iff llx_HexChar)

text \<open>
  A 128-bit number survives its hexadecimal form, which has 32 digits: \<open>FromHexString\<close> reads it
  back, ignoring whatever follows the 32 digits, and refuses a string with fewer.
\<close>

theorem uint128_hex_roundtrip:
  "length (ToHexString u) = HEX_STRING_LENGTH \<and>
   FromHexString (Some (ToHexString u @ rest)) old = (True, u) \<and>
   (n < HEX_STRING_LENGTH \<longrightarrow> FromHexString (Some (take n (ToHexString u))) old = (False, old))"
proof -
  let ?s = "ToHexString u"
  have len: "length ?s = 32" by (simp add: ToHexString_def llx_facts)
  have digits: "isxdigit (?s ! i)" if "i < 32" for i
    using that llx_facts [of "u_high u"] llx_facts [of "u_low u"]
    by (auto simp: ToHexString_def nth_append list_all_length)
  have parts: "take 16 (?s @ rest) = print_016llx (u_high u)" "take 16 (drop 16 (?s @ rest)) = print_016llx (u_low u)"
    by (simp_all add: ToHexString_def llx_facts)
  have "FromHexString (Some (?s @ rest)) old = (True, u)"
  proof -
    have "(True, old\<lparr>u_high := scan_016llx (take 16 (?s @ rest)), u_low := scan_016llx (take 16 (drop 16 (?s @ rest)))\<rparr>)
        = (True, u)"
      unfolding parts scan_print by (simp add: uint128.equality)
    moreover have "\<forall>i < 32. i < length (?s @ rest) \<and> isxdigit ((?s @ rest) ! i)"
      using len digits by (simp add: nth_append)
    ultimately show ?thesis by (simp only: FromHexString_def HEX_STRING_LENGTH_def) simp
  qed
  moreover have "FromHexString (Some (take n ?s)) old = (False, old)" if "n < HEX_STRING_LENGTH"
    using that len by (auto simp: FromHexString_def HEX_STRING_LENGTH_def)
  ultimately show ?thesis using len by (simp add: HEX_STRING_LENGTH_def)
qed

lemma uint128_hex_roundtrip_witness:
  "FromHexString (Some (take 31 (ToHexString \<lparr>u_high = 1, u_low = 255\<rparr>))) \<lparr>u_high = 7, u_low = 7\<rparr>
    = (False, \<lparr>u_high = 7, u_low = 7\<rparr>)"
  using uint128_hex_roundtrip [of "\<lparr>u_high = 1, u_low = 255\<rparr>" "[]" "\<lparr>u_high = 7, u_low = 7\<rparr>" 31]
  by (simp add: HEX_STRING_LENGTH_def)

lemma mod_complement: "- m \<le> i \<Longrightarrow> i < m \<Longrightarrow> i mod m = (if i < 0 then i + m else i)" for i m :: int
  using mod_pos_pos_trivial [of "i + m" m] by (cases "i < 0") auto

text \<open>
  The conversions keep the number: an unsigned one is extended with zeros, a negative one with
  ones, as in two's complement; assigning does the same whatever the old value.
\<close>

theorem uint128_conversions:
  assumes "- (2 ^ 63) \<le> i" and "i < 2 ^ 63"
  shows "int (uint128_val (uint128_of_signed i)) = i mod 2 ^ 128 \<and>
    uint128_val (uint128_of_unsigned w) = unat w \<and>
    uint128_assign_signed i u = uint128_of_signed i \<and> uint128_assign_unsigned w u = uint128_of_unsigned w"
proof -
  have "int (unat (word_of_int i :: u64)) = i mod 2 ^ 64" by (simp add: unsigned_of_int take_bit_eq_mod)
  moreover have "int (unat (-1 :: u64)) = 2 ^ 64 - 1"
    by (simp add: unsigned_minus_1_eq_mask mask_eq_exp_minus_1)
  moreover have "i mod 2 ^ 64 = (if i < 0 then i + 2 ^ 64 else i)"
    using assms by (intro mod_complement) simp_all
  moreover have "i mod 2 ^ 128 = (if i < 0 then i + 2 ^ 128 else i)"
    using assms by (intro mod_complement) simp_all
  ultimately have "int (uint128_val (uint128_of_signed i)) = i mod 2 ^ 128"
    by (simp add: uint128_val_def uint128_of_signed_def)
  then show ?thesis
    by (simp add: uint128_val_def uint128_of_unsigned_def uint128_of_signed_def
        uint128_assign_signed_def uint128_assign_unsigned_def uint128.equality)
qed

lemma uint128_conversions_witness: "int (uint128_val (uint128_of_signed (-5))) = 2 ^ 128 - 5"
proof -
  have "(-5 :: int) mod 2 ^ 128 = 2 ^ 128 - 5" by simp
  with uint128_conversions [of "-5" 0 "uint128_of_unsigned 0"] show ?thesis by simp
qed

end
