(* ===== verification/Decimal.thy ===== *)
theory Decimal
  imports Flinter_Prelude Complex_Main
begin

text \<open>
  Decimal numbers of arbitrary precision (\<open>flinter/types/decimal.cpp\<close>, \<open>decimal.h\<close>): an integer and
  the number of its digits after the point. The integers are GMP's, which is outside the
  repository: its operations are a record \<open>gmp\<close> given to every definition, and \<open>gmp_documented\<close> is
  what its manual promises of them. An \<open>mpz_t\<close> is an integer. \<open>_scale\<close> is a natural number: the code
  assigns 0, a sum of scales, \<open>max(0, ...)\<close>, a checked argument, or one less than a scale that is
  not 0. This theory holds the operations; \<open>Decimal_Correct\<close> and \<open>Decimal_Text\<close> their properties.
\<close>

section \<open>What GMP provides\<close>

record gmp =
  mpz_add :: "int \<Rightarrow> int \<Rightarrow> int"
  mpz_sub :: "int \<Rightarrow> int \<Rightarrow> int"
  mpz_mul :: "int \<Rightarrow> int \<Rightarrow> int"
  mpz_neg :: "int \<Rightarrow> int"
  mpz_ui_pow_ui :: "nat \<Rightarrow> nat \<Rightarrow> int"
  mpz_tdiv_qr :: "int \<Rightarrow> int \<Rightarrow> int \<times> int"
  mpz_mul_2exp :: "int \<Rightarrow> nat \<Rightarrow> int"
  mpz_cmp :: "int \<Rightarrow> int \<Rightarrow> int"
  mpz_cmpabs :: "int \<Rightarrow> int \<Rightarrow> int"
  mpz_odd_p :: "int \<Rightarrow> bool"
  mpz_mod_ui :: "int \<Rightarrow> nat \<Rightarrow> int"
  mpz_divexact_ui :: "int \<Rightarrow> nat \<Rightarrow> int"
  mpz_set_str :: "string \<Rightarrow> nat \<Rightarrow> int option"
  mpz_get_str :: "nat \<Rightarrow> int \<Rightarrow> string option"
  mpz_sizeinbase :: "int \<Rightarrow> nat \<Rightarrow> nat"

definition gmp_arith_documented :: "gmp \<Rightarrow> bool" where
  "gmp_arith_documented G \<longleftrightarrow>
    (\<forall>a b. mpz_add G a b = a + b) \<and> (\<forall>a b. mpz_sub G a b = a - b) \<and>
    (\<forall>a b. mpz_mul G a b = a * b) \<and> (\<forall>a. mpz_neg G a = - a) \<and>
    (\<forall>b e. mpz_ui_pow_ui G b e = int b ^ e) \<and>
    (\<forall>n d. d \<noteq> 0 \<longrightarrow> (case mpz_tdiv_qr G n d of (q, r) \<Rightarrow>
       n = q * d + r \<and> \<bar>r\<bar> < \<bar>d\<bar> \<and> (r = 0 \<or> sgn r = sgn n))) \<and>
    (\<forall>a e. mpz_mul_2exp G a e = a * 2 ^ e) \<and>
    (\<forall>a b. sgn (mpz_cmp G a b) = sgn (a - b)) \<and>
    (\<forall>a b. sgn (mpz_cmpabs G a b) = sgn (\<bar>a\<bar> - \<bar>b\<bar>)) \<and>
    (\<forall>a. mpz_odd_p G a = odd a) \<and>
    (\<forall>a n. 0 < n \<longrightarrow> mpz_mod_ui G a n = a mod int n) \<and>
    (\<forall>a n. 0 < n \<longrightarrow> int n dvd a \<longrightarrow> mpz_divexact_ui G a n * int n = a)"

definition gmp_text_documented :: "gmp \<Rightarrow> bool" where
  "gmp_text_documented G \<longleftrightarrow>
    (\<forall>s. s \<noteq> [] \<longrightarrow> (\<forall>c \<in> set s. is_digit c) \<longrightarrow> mpz_set_str G s 10 = Some (int (digits_value s))) \<and>
    (\<forall>s. s \<noteq> [] \<longrightarrow> (\<forall>c \<in> set s. is_digit c) \<longrightarrow> mpz_set_str G (CHR ''-'' # s) 10 = Some (- int (digits_value s))) \<and>
    (\<forall>z. mpz_get_str G 10 z = Some (dec_string z)) \<and>
    (\<forall>z. mpz_sizeinbase G z 10 = length (dec_digits (nat \<bar>z\<bar>)) \<or>
         mpz_sizeinbase G z 10 = length (dec_digits (nat \<bar>z\<bar>)) + 1)"

section \<open>The class\<close>

datatype rounding = kRoundingTiesToEven | kRoundingTiesAwayFromZero | kRoundingTowardsZero
  | kRoundingTowardsPositiveInfinity | kRoundingTowardsNegativeInfinity

record decimal =
  dec_v :: int
  dec_scale :: nat
  dec_dscale :: int
  dec_rounding :: rounding

datatype decimal_error = Invalid_argument | Runtime_error | Assertion | Buffer_overflow

type_synonym 'a dec = "decimal_error + 'a"

definition new_decimal :: decimal where
  "new_decimal = \<lparr>dec_v = 0, dec_scale = 0, dec_dscale = -1, dec_rounding = kRoundingTiesToEven\<rparr>"

text \<open>The copy constructor and the assignment: the rounding mode is not copied.\<close>

definition copy_decimal :: "decimal \<Rightarrow> decimal" where
  "copy_decimal o' = \<lparr>dec_v = dec_v o', dec_scale = dec_scale o', dec_dscale = dec_dscale o',
    dec_rounding = kRoundingTiesToEven\<rparr>"

text \<open>The constructors from integers; a value wider than \<open>long\<close> goes through its decimal string.\<close>

definition decimal_of_int :: "int \<Rightarrow> decimal" where
  "decimal_of_int s = \<lparr>dec_v = s, dec_scale = 0, dec_dscale = -1, dec_rounding = kRoundingTiesToEven\<rparr>"

text \<open>The argument of a binary operation is a number, or the object itself (\<open>this == &o\<close>).\<close>

datatype operand = Itself | Other decimal

fun operand_of :: "decimal \<Rightarrow> operand \<Rightarrow> decimal" where
  "operand_of d Itself = d"
| "operand_of d (Other e) = e"

section \<open>Parsing\<close>

text \<open>
  The loop of \<open>Parse\<close>: what is left of the string, the number of digits, the scale, the buffer and
  the number of zeros at its end. \<open>None\<close> is \<open>return false\<close>.
\<close>

fun parse_loop :: "string \<Rightarrow> nat \<Rightarrow> int \<Rightarrow> string \<Rightarrow> nat \<Rightarrow> (nat \<times> int \<times> string \<times> nat) option" where
  "parse_loop [] digits scale buffer zdigits = Some (digits, scale, buffer, zdigits)"
| "parse_loop (c # p) digits scale buffer zdigits =
    (if is_digit c then
       parse_loop p (digits + 1) (if scale \<ge> 0 then scale + 1 else scale) (buffer @ [c])
         (if c = CHR ''0'' then zdigits + 1 else 0)
     else if c = CHR ''.'' then
       (if scale \<ge> 0 then None else parse_loop p digits 0 buffer zdigits)
     else None)"

definition DecParse :: "gmp \<Rightarrow> string \<Rightarrow> decimal \<Rightarrow> bool \<times> decimal" where
  "DecParse G s d =
    (if s = [] \<or> length s \<ge> 1024 then (False, d)
     else
       let start = (if hd s = CHR ''-'' then (''-'', tl s) else ([], s)) in
       case parse_loop (snd start) 0 (-1) (fst start) 0 of
         None \<Rightarrow> (False, d)
       | Some (digits, scale, buffer, zdigits) \<Rightarrow>
         if digits = 0 then (False, d)
         else if zdigits = digits then (True, d\<lparr>dec_v := 0, dec_scale := 0\<rparr>)
         else
           let z = (if scale > 0 then min zdigits (nat scale) else 0);
               scale' = scale - int z;
               buffer' = take (length buffer - z) buffer in
           case mpz_set_str G buffer' 10 of
             None \<Rightarrow> (False, d)
           | Some v \<Rightarrow> (True, d\<lparr>dec_v := v, dec_scale := nat (max 0 scale')\<rparr>))"

definition decimal_of_string :: "gmp \<Rightarrow> string \<Rightarrow> decimal dec" where
  "decimal_of_string G s =
    (case DecParse G s new_decimal of
       (ok, d) \<Rightarrow> if ok then Inr (d\<lparr>dec_rounding := kRoundingTiesToEven, dec_dscale := -1\<rparr>)
                 else Inl Invalid_argument)"

section \<open>Arithmetic\<close>

definition Upscale :: "gmp \<Rightarrow> nat \<Rightarrow> decimal \<Rightarrow> decimal" where
  "Upscale G s d = d\<lparr>dec_v := mpz_mul G (dec_v d) (mpz_ui_pow_ui G 10 s), dec_scale := dec_scale d + s\<rparr>"

fun cleanup_loop :: "gmp \<Rightarrow> int \<Rightarrow> nat \<Rightarrow> int \<times> nat" where
  "cleanup_loop G v 0 = (v, 0)"
| "cleanup_loop G v (Suc scale) =
    (if mpz_mod_ui G v 10 \<noteq> 0 then (v, Suc scale) else cleanup_loop G (mpz_divexact_ui G v 10) scale)"

definition DecCleanup :: "gmp \<Rightarrow> decimal \<Rightarrow> decimal" where
  "DecCleanup G d = (case cleanup_loop G (dec_v d) (dec_scale d) of
     (v, scale) \<Rightarrow> d\<lparr>dec_v := v, dec_scale := scale\<rparr>)"

definition DecAdd :: "gmp \<Rightarrow> operand \<Rightarrow> decimal \<Rightarrow> decimal" where
  "DecAdd G x d =
    (let e = operand_of d x;
         d' = (if dec_scale d < dec_scale e then
                 (let u = Upscale G (dec_scale e - dec_scale d) d
                  in u\<lparr>dec_v := mpz_add G (dec_v u) (dec_v e)\<rparr>)
               else if dec_scale d > dec_scale e then
                 (let t = Upscale G (dec_scale d - dec_scale e) (copy_decimal e)
                  in d\<lparr>dec_v := mpz_add G (dec_v d) (dec_v t)\<rparr>)
               else d\<lparr>dec_v := mpz_add G (dec_v d) (dec_v e)\<rparr>)
     in DecCleanup G d')"

definition DecSub :: "gmp \<Rightarrow> operand \<Rightarrow> decimal \<Rightarrow> decimal" where
  "DecSub G x d =
    (let e = operand_of d x;
         d' = (if x = Itself then d\<lparr>dec_v := 0, dec_scale := 0\<rparr>
               else if dec_scale d < dec_scale e then
                 (let u = Upscale G (dec_scale e - dec_scale d) d
                  in u\<lparr>dec_v := mpz_sub G (dec_v u) (dec_v e)\<rparr>)
               else if dec_scale d > dec_scale e then
                 (let t = Upscale G (dec_scale d - dec_scale e) (copy_decimal e)
                  in d\<lparr>dec_v := mpz_sub G (dec_v d) (dec_v t)\<rparr>)
               else d\<lparr>dec_v := mpz_sub G (dec_v d) (dec_v e)\<rparr>)
     in DecCleanup G d')"

definition DecMul :: "gmp \<Rightarrow> operand \<Rightarrow> decimal \<Rightarrow> decimal" where
  "DecMul G x d =
    (let e = operand_of d x
     in DecCleanup G (d\<lparr>dec_v := mpz_mul G (dec_v d) (dec_v e), dec_scale := dec_scale d + dec_scale e\<rparr>))"

text \<open>The quotient and the remainder are brought to the requested mode: the result of \<open>Div\<close> and the quotient.\<close>

definition round_quotient :: "gmp \<Rightarrow> rounding \<Rightarrow> int \<Rightarrow> int \<Rightarrow> int \<Rightarrow> int \<Rightarrow> int \<times> int" where
  "round_quotient G rounding v d q r =
    (let qdir = (if sgn v = sgn d then 1 else -1 :: int) in
     if mpz_cmp G r 0 \<noteq> 0 then
       (case rounding of
          kRoundingTowardsPositiveInfinity \<Rightarrow> (1, if qdir > 0 then mpz_add G q 1 else q)
        | kRoundingTowardsNegativeInfinity \<Rightarrow> (-1, if qdir < 0 then mpz_sub G q 1 else q)
        | kRoundingTowardsZero \<Rightarrow> (- qdir, q)
        | _ \<Rightarrow>
          (let r' = mpz_mul_2exp G r 1;
               cmp = mpz_cmpabs G r' d;
               bump = (if cmp = 0 then (if rounding = kRoundingTiesToEven then mpz_odd_p G q else True)
                       else if cmp < 0 then False else True)
           in if bump then (qdir, if qdir > 0 then mpz_add G q 1 else mpz_sub G q 1)
              else (- qdir, q)))
     else (0, q))"

definition DecDiv :: "gmp \<Rightarrow> operand \<Rightarrow> int \<Rightarrow> rounding \<Rightarrow> decimal \<Rightarrow> (int \<times> decimal) dec" where
  "DecDiv G x scale rounding d =
    (let e = operand_of d x in
     if scale < 0 then Inl Invalid_argument
     else if mpz_cmp G (dec_v e) 0 = 0 then Inl Invalid_argument
     else if x = Itself then Inr (0, d\<lparr>dec_v := 1, dec_scale := 0\<rparr>)
     else if mpz_cmp G (dec_v d) 0 = 0 then Inr (0, d)
     else
       let diff = int (dec_scale d) - int (dec_scale e);
           dd = (if diff > scale then mpz_mul G (dec_v e) (mpz_ui_pow_ui G 10 (nat (diff - scale))) else dec_v e);
           nn = (if diff < scale then mpz_mul G (dec_v d) (mpz_ui_pow_ui G 10 (nat (scale - diff))) else dec_v d)
       in case mpz_tdiv_qr G nn dd of (q, r) \<Rightarrow>
          case round_quotient G rounding (dec_v d) dd q r of (result, q') \<Rightarrow>
            Inr (result, DecCleanup G (d\<lparr>dec_v := q', dec_scale := nat scale\<rparr>)))"

text \<open>The comparison, and the operators: a binary one works on a copy.\<close>

definition dec_compare :: "gmp \<Rightarrow> operand \<Rightarrow> decimal \<Rightarrow> int" where
  "dec_compare G x d =
    (let e = operand_of d x in
     if x = Itself then 0
     else if dec_scale d = dec_scale e then mpz_cmp G (dec_v d) (dec_v e)
     else if dec_scale d < dec_scale e then
       mpz_cmp G (dec_v (Upscale G (dec_scale e - dec_scale d) (copy_decimal d))) (dec_v e)
     else mpz_cmp G (dec_v d) (dec_v (Upscale G (dec_scale d - dec_scale e) (copy_decimal e))))"

datatype relation = Greater | Less | Equal | Unequal | Greater_equal | Less_equal

fun dec_relation :: "relation \<Rightarrow> gmp \<Rightarrow> operand \<Rightarrow> decimal \<Rightarrow> bool" where
  "dec_relation Greater G x d = (dec_compare G x d > 0)"
| "dec_relation Less G x d = (dec_compare G x d < 0)"
| "dec_relation Equal G x d = (dec_compare G x d = 0)"
| "dec_relation Unequal G x d = (dec_compare G x d \<noteq> 0)"
| "dec_relation Greater_equal G x d = (dec_compare G x d \<ge> 0)"
| "dec_relation Less_equal G x d = (dec_compare G x d \<le> 0)"

text \<open>\<open>zero()\<close>, \<open>positive()\<close> and \<open>negative()\<close>.\<close>

definition dec_signs :: "gmp \<Rightarrow> decimal \<Rightarrow> bool \<times> bool \<times> bool" where
  "dec_signs G d = (mpz_cmp G (dec_v d) 0 = 0, mpz_cmp G (dec_v d) 0 > 0, mpz_cmp G (dec_v d) 0 < 0)"

definition plus_op :: "gmp \<Rightarrow> decimal \<Rightarrow> decimal \<Rightarrow> decimal" where
  "plus_op G d e = DecAdd G (Other e) (copy_decimal d)"

definition minus_op :: "gmp \<Rightarrow> decimal \<Rightarrow> decimal \<Rightarrow> decimal" where
  "minus_op G d e = DecSub G (Other e) (copy_decimal d)"

definition times_op :: "gmp \<Rightarrow> decimal \<Rightarrow> decimal \<Rightarrow> decimal" where
  "times_op G d e = DecMul G (Other e) (copy_decimal d)"

definition negate_op :: "gmp \<Rightarrow> decimal \<Rightarrow> decimal" where
  "negate_op G d = (let n = copy_decimal d in n\<lparr>dec_v := mpz_neg G (dec_v n)\<rparr>)"

definition default_div_scale :: "decimal \<Rightarrow> decimal \<Rightarrow> int" where
  "default_div_scale d e = (if dec_dscale d \<ge> 0 then dec_dscale d else max 6 (int (dec_scale d) - int (dec_scale e)))"

definition divide_op :: "gmp \<Rightarrow> decimal \<Rightarrow> decimal \<Rightarrow> decimal dec" where
  "divide_op G d e =
    (case DecDiv G (Other e) (default_div_scale d e) (dec_rounding d) (copy_decimal d) of
       Inl err \<Rightarrow> Inl err | Inr (_, n) \<Rightarrow> Inr n)"

definition divide_assign :: "gmp \<Rightarrow> operand \<Rightarrow> decimal \<Rightarrow> decimal dec" where
  "divide_assign G x d =
    (case DecDiv G x (default_div_scale d (operand_of d x)) (dec_rounding d) d of
       Inl err \<Rightarrow> Inl err | Inr (_, n) \<Rightarrow> Inr n)"

section \<open>Printing\<close>

text \<open>
  \<open>SerializeWithAppending\<close>: the digits without the sign are \<open>p\<close>; the buffer for \<open>mpz_get_str\<close> must hold
  the string and its end.
\<close>

definition SerializeWithAppending :: "gmp \<Rightarrow> int \<Rightarrow> decimal \<Rightarrow> string dec" where
  "SerializeWithAppending G scale d =
    (if scale < 0 \<or> scale - int (dec_scale d) < 0 then Inl Assertion
     else case mpz_get_str G 10 (dec_v d) of
       None \<Rightarrow> Inl Runtime_error
     | Some s \<Rightarrow>
       if length s + 1 > mpz_sizeinbase G (dec_v d) 10 + 2 then Inl Buffer_overflow
       else
         let extra = nat (scale - int (dec_scale d));
             neg = s \<noteq> [] \<and> hd s = CHR ''-'';
             sign = (if neg then ''-'' else []);
             p = (if neg then tl s else s);
             len = length p;
             body = (if dec_scale d \<noteq> 0 then
                       if dec_scale d \<ge> len then
                         (replicate (dec_scale d - len + 2) (CHR ''0'') @ p)[1 := CHR ''.'']
                       else take (len - dec_scale d) p @ CHR ''.'' # drop (len - dec_scale d) p
                     else if extra > 0 then p @ ''.'' else p)
         in Inr (sign @ body @ replicate extra (CHR ''0'')))"

definition SerializeWithRounding :: "gmp \<Rightarrow> int \<Rightarrow> rounding \<Rightarrow> decimal \<Rightarrow> (int \<times> string) dec" where
  "SerializeWithRounding G scale rounding d =
    (if scale < 0 then Inl Assertion
     else case DecDiv G (Other (decimal_of_int 1)) scale rounding (copy_decimal d) of
       Inl err \<Rightarrow> Inl err
     | Inr (ret, m) \<Rightarrow> (case SerializeWithAppending G scale m of Inl err \<Rightarrow> Inl err | Inr s \<Rightarrow> Inr (ret, s)))"

definition PrintZero :: "nat \<Rightarrow> string" where
  "PrintZero scale = (if scale = 0 then ''0'' else (replicate (scale + 2) (CHR ''0''))[1 := CHR ''.''])"

definition PrintOne :: "bool \<Rightarrow> nat \<Rightarrow> string" where
  "PrintOne negative scale =
    (if scale = 0 then (if negative then ''-1'' else ''1'')
     else if negative then
       ((replicate (scale + 3) (CHR ''0''))[scale + 2 := CHR ''1''])[2 := CHR ''.'', 0 := CHR ''-'']
     else (replicate (scale + 2) (CHR ''0''))[scale + 1 := CHR ''1'', 1 := CHR ''.''])"

definition Serialize :: "gmp \<Rightarrow> int \<Rightarrow> rounding \<Rightarrow> decimal \<Rightarrow> (int \<times> string) dec" where
  "Serialize G scale rounding d =
    (if scale < 0 \<and> mpz_cmp G (dec_v d) 0 = 0 then Inr (0, PrintZero 0)
     else
       let ns = (if scale \<ge> 0 then scale else int (dec_scale d)) in
       if ns - int (dec_scale d) \<ge> 0 then
         (case SerializeWithAppending G ns d of Inl err \<Rightarrow> Inl err | Inr s \<Rightarrow> Inr (0, s))
       else SerializeWithRounding G ns rounding d)"

definition dec_str :: "gmp \<Rightarrow> int \<Rightarrow> decimal \<Rightarrow> string dec" where
  "dec_str G scale d =
    (case Serialize G (if scale \<ge> 0 then scale else dec_dscale d) (dec_rounding d) d of
       Inl err \<Rightarrow> Inl err | Inr (_, s) \<Rightarrow> Inr s)"

end
