(* ===== verification/Decimal_Correct.thy ===== *)
theory Decimal_Correct
  imports Decimal
begin

text \<open>
  What the arithmetic of \<open>Decimal\<close> computes. A number denotes the rational \<open>dec_value\<close>; it is normal
  when it has no zero at the end of its fraction. Every operation is a refinement of the operation on
  rationals and keeps numbers normal; \<open>Div\<close> is the exact quotient rounded by \<open>round_to\<close>, the
  reference for the five rounding modes. The facts about GMP are the locale \<open>gmp_arith\<close>.
\<close>

section \<open>Rounding rationals\<close>

fun round_to :: "rounding \<Rightarrow> rat \<Rightarrow> int" where
  "round_to kRoundingTowardsPositiveInfinity x = \<lceil>x\<rceil>"
| "round_to kRoundingTowardsNegativeInfinity x = \<lfloor>x\<rfloor>"
| "round_to kRoundingTowardsZero x = (if 0 \<le> x then \<lfloor>x\<rfloor> else \<lceil>x\<rceil>)"
| "round_to kRoundingTiesAwayFromZero x = (if 0 \<le> x then \<lfloor>x + 1/2\<rfloor> else \<lceil>x - 1/2\<rceil>)"
| "round_to kRoundingTiesToEven x =
    (let f = \<lfloor>x\<rfloor>; rest = x - of_int f
     in if rest < 1/2 then f else if rest > 1/2 then f + 1 else if even f then f else f + 1)"

definition result_sign :: "rat \<Rightarrow> int" where
  "result_sign x = (if x < 0 then -1 else if x = 0 then 0 else 1)"

lemma round_to_int [simp]: "round_to m (of_int q) = q"
  by (cases m) (simp_all add: floor_eq_iff ceiling_eq_iff)

lemma floor_ceiling_above:
  assumes "0 < (f :: rat)" "f < 1"
  shows "\<lfloor>of_int q + f\<rfloor> = q" "\<lceil>of_int q + f\<rceil> = q + 1"
  using assms by (simp_all add: floor_eq_iff ceiling_eq_iff)

lemma floor_ceiling_below:
  assumes "-1 < (f :: rat)" "f < 0"
  shows "\<lfloor>of_int q + f\<rfloor> = q - 1" "\<lceil>of_int q + f\<rceil> = q"
  using assms by (simp_all add: floor_eq_iff ceiling_eq_iff)

lemma round_to_above:
  assumes "0 < f" "f < 1" "0 \<le> q"
  shows "round_to m (of_int q + f) =
    (case m of kRoundingTowardsPositiveInfinity \<Rightarrow> q + 1 | kRoundingTowardsNegativeInfinity \<Rightarrow> q
       | kRoundingTowardsZero \<Rightarrow> q
       | kRoundingTiesAwayFromZero \<Rightarrow> (if f < 1/2 then q else q + 1)
       | kRoundingTiesToEven \<Rightarrow> (if f < 1/2 \<or> (f = 1/2 \<and> even q) then q else q + 1))"
proof -
  have pos: "0 \<le> of_int q + f" using assms by simp
  have half: "\<lfloor>of_int q + f + 1/2\<rfloor> = (if f < 1/2 then q else q + 1)"
    using assms by (simp add: floor_eq_iff)
  show ?thesis using pos half floor_ceiling_above [OF assms(1,2), of q]
    by (cases m) (simp_all add: Let_def not_less)
qed

lemma round_to_below:
  assumes "-1 < f" "f < 0" "q \<le> 0"
  shows "round_to m (of_int q + f) =
    (case m of kRoundingTowardsPositiveInfinity \<Rightarrow> q | kRoundingTowardsNegativeInfinity \<Rightarrow> q - 1
       | kRoundingTowardsZero \<Rightarrow> q
       | kRoundingTiesAwayFromZero \<Rightarrow> (if - f < 1/2 then q else q - 1)
       | kRoundingTiesToEven \<Rightarrow> (if - f < 1/2 \<or> (- f = 1/2 \<and> even q) then q else q - 1))"
proof -
  have "of_int q \<le> (0 :: rat)" using assms by simp
  then have neg: "\<not> 0 \<le> of_int q + f" using assms(2) by linarith
  have half: "\<lceil>of_int q + f - 1/2\<rceil> = (if - f < 1/2 then q else q - 1)"
    using assms by (simp add: ceiling_eq_iff)
  show ?thesis using neg half floor_ceiling_below [OF assms(1,2), of q]
    by (cases m) (auto simp: Let_def not_less)
qed

section \<open>Numbers denoted\<close>

definition dec_value :: "decimal \<Rightarrow> rat" where
  "dec_value d = of_int (dec_v d) / 10 ^ dec_scale d"

definition dec_normal :: "decimal \<Rightarrow> bool" where
  "dec_normal d \<longleftrightarrow> dec_scale d = 0 \<or> dec_v d mod 10 \<noteq> 0"

lemma dec_value_simps [simp]:
  "dec_value (copy_decimal d) = dec_value d" "dec_normal (copy_decimal d) = dec_normal d"
  "dec_value new_decimal = 0" "dec_normal new_decimal"
  "dec_value (decimal_of_int z) = of_int z" "dec_normal (decimal_of_int z)"
  by (simp_all add: dec_value_def dec_normal_def copy_decimal_def new_decimal_def decimal_of_int_def)

text \<open>A number has one normal form.\<close>

lemma normal_unique:
  assumes "dec_normal d" "dec_normal e" "dec_value d = dec_value e"
  shows "dec_v d = dec_v e \<and> dec_scale d = dec_scale e"
proof -
  have less: "dec_v x mod 10 = 0" if eq: "dec_value x = dec_value y" and lt: "dec_scale y < dec_scale x" for x y
  proof -
    obtain k where k: "dec_scale x = dec_scale y + Suc k" using lt less_iff_Suc_add by auto
    then have "(of_int (dec_v x) :: rat) = of_int (dec_v y * 10 * 10 ^ k)"
      using eq by (simp add: dec_value_def field_simps power_add)
    then have "dec_v x = dec_v y * 10 * 10 ^ k" by (simp only: of_int_eq_iff)
    then show ?thesis by simp
  qed
  have "dec_scale d = dec_scale e"
    using less [of d e] less [of e d] assms by (cases rule: linorder_cases) (auto simp: dec_normal_def)
  with assms(3) show ?thesis by (simp add: dec_value_def)
qed

fun relation_of :: "relation \<Rightarrow> rat \<Rightarrow> rat \<Rightarrow> bool" where
  "relation_of Greater a b = (a > b)"
| "relation_of Less a b = (a < b)"
| "relation_of Equal a b = (a = b)"
| "relation_of Unequal a b = (a \<noteq> b)"
| "relation_of Greater_equal a b = (a \<ge> b)"
| "relation_of Less_equal a b = (a \<le> b)"

section \<open>Facts about GMP\<close>

locale gmp_arith =
  fixes G :: gmp
  assumes documented: "gmp_arith_documented G"
begin

lemma gmp_ops [simp]:
  "mpz_add G a b = a + b" "mpz_sub G a b = a - b" "mpz_mul G a b = a * b" "mpz_neg G a = - a"
  "mpz_ui_pow_ui G c e = int c ^ e" "mpz_mul_2exp G a e = a * 2 ^ e" "mpz_odd_p G a = odd a"
  "mpz_mod_ui G a 10 = a mod 10"
  using documented by (simp_all add: gmp_arith_documented_def)

lemma mpz_cmp_sgn: "sgn (mpz_cmp G a b) = sgn (a - b)"
  using documented by (simp add: gmp_arith_documented_def)

lemma cmp_iff [simp]:
  "mpz_cmp G a b < 0 \<longleftrightarrow> a < b" "mpz_cmp G a b = 0 \<longleftrightarrow> a = b"
proof -
  have "sgn (mpz_cmp G a b) = sgn (a - b)" using documented by (simp add: gmp_arith_documented_def)
  then show "mpz_cmp G a b < 0 \<longleftrightarrow> a < b" "mpz_cmp G a b = 0 \<longleftrightarrow> a = b"
    by (auto simp: sgn_if split: if_splits)
qed

lemma cmpabs_iff [simp]:
  "mpz_cmpabs G a b < 0 \<longleftrightarrow> \<bar>a\<bar> < \<bar>b\<bar>" "mpz_cmpabs G a b = 0 \<longleftrightarrow> \<bar>a\<bar> = \<bar>b\<bar>"
proof -
  have "sgn (mpz_cmpabs G a b) = sgn (\<bar>a\<bar> - \<bar>b\<bar>)" using documented by (simp add: gmp_arith_documented_def)
  then show "mpz_cmpabs G a b < 0 \<longleftrightarrow> \<bar>a\<bar> < \<bar>b\<bar>" "mpz_cmpabs G a b = 0 \<longleftrightarrow> \<bar>a\<bar> = \<bar>b\<bar>"
    by (auto simp: sgn_if split: if_splits)
qed

lemma tdiv:
  assumes "d \<noteq> 0" "mpz_tdiv_qr G n d = (q, r)"
  shows "n = q * d + r" "\<bar>r\<bar> < \<bar>d\<bar>" "r = 0 \<or> sgn r = sgn n"
proof -
  have "\<forall>n d. d \<noteq> 0 \<longrightarrow> (case mpz_tdiv_qr G n d of (q, r) \<Rightarrow>
       n = q * d + r \<and> \<bar>r\<bar> < \<bar>d\<bar> \<and> (r = 0 \<or> sgn r = sgn n))"
    using documented unfolding gmp_arith_documented_def by (elim conjE)
  from this [rule_format, OF assms(1), of n, unfolded assms(2) prod.case]
  show "n = q * d + r" "\<bar>r\<bar> < \<bar>d\<bar>" "r = 0 \<or> sgn r = sgn n" by blast+
qed

lemma divexact: "10 dvd a \<Longrightarrow> mpz_divexact_ui G a 10 * 10 = a"
proof -
  have "\<forall>a n. 0 < n \<longrightarrow> int n dvd a \<longrightarrow> mpz_divexact_ui G a n * int n = a"
    using documented unfolding gmp_arith_documented_def by (elim conjE)
  from this [rule_format, of 10 a] show "10 dvd a \<Longrightarrow> ?thesis" by simp
qed

text \<open>A remainder of \<open>mpz_tdiv_qr\<close> as the distance of the quotient from the exact one.\<close>

lemma tdiv_rat:
  assumes "d \<noteq> 0" "mpz_tdiv_qr G n d = (q, r)" "r \<noteq> 0"
  defines "f \<equiv> of_int r / of_int d :: rat"
  shows "of_int n / of_int d = of_int q + f" "\<bar>f\<bar> < 1"
    "sgn n = sgn d \<Longrightarrow> 0 < f \<and> 0 \<le> q" "sgn n \<noteq> sgn d \<Longrightarrow> f < 0 \<and> q \<le> 0"
proof -
  note td = tdiv [OF assms(1,2)]
  show "of_int n / of_int d = of_int q + f"
    using assms(1) by (simp add: f_def td(1) add_divide_distrib)
  show "\<bar>f\<bar> < 1"
    using td(2) assms(1) by (simp add: f_def abs_divide flip: of_int_abs)
  have far: "\<bar>d\<bar> \<le> \<bar>q * d\<bar>" if "q \<noteq> 0"
    using that mult_right_mono [of 1 "\<bar>q\<bar>" "\<bar>d\<bar>"] by (simp add: abs_mult)
  have n: "n \<noteq> 0" using td assms(3) by (metis sgn_0_0)
  have up: "0 < r \<and> 0 \<le> q * d" if "0 < n"
    using that td far assms(3) by (cases "q = 0") (auto simp: sgn_if split: if_splits)
  have down: "r < 0 \<and> q * d \<le> 0" if "n < 0"
    using that td far assms(3) by (cases "q = 0") (auto simp: sgn_if split: if_splits)
  show "0 < f \<and> 0 \<le> q" if "sgn n = sgn d"
  proof (cases "0 < n")
    case True
    then show ?thesis using up that by (auto simp: f_def sgn_if zero_le_mult_iff split: if_splits)
  next
    case False
    then show ?thesis using down that n assms(1)
      by (auto simp: f_def sgn_if mult_le_0_iff zero_less_divide_iff split: if_splits)
  qed
  show "f < 0 \<and> q \<le> 0" if "sgn n \<noteq> sgn d"
  proof (cases "0 < n")
    case True
    then show ?thesis using up that assms(1)
      by (auto simp: f_def sgn_if zero_le_mult_iff divide_less_0_iff split: if_splits)
  next
    case False
    then show ?thesis using down that n assms(1)
      by (auto simp: f_def sgn_if mult_le_0_iff divide_less_0_iff split: if_splits)
  qed
qed

lemma half_iff:
  fixes r d :: int
  assumes "d \<noteq> 0"
  defines "f \<equiv> of_int r / of_int d :: rat"
  shows "\<bar>r * 2\<bar> < \<bar>d\<bar> \<longleftrightarrow> \<bar>f\<bar> < 1/2" "\<bar>r * 2\<bar> = \<bar>d\<bar> \<longleftrightarrow> \<bar>f\<bar> = 1/2"
proof -
  have d: "(0 :: rat) < \<bar>of_int d\<bar>" using assms(1) by simp
  have f: "\<bar>f\<bar> = \<bar>of_int r\<bar> / \<bar>of_int d\<bar>" by (simp add: f_def abs_divide)
  have "\<bar>f\<bar> < 1/2 \<longleftrightarrow> \<bar>of_int r\<bar> * 2 < (\<bar>of_int d\<bar> :: rat)" using d by (simp add: f field_simps)
  also have "\<dots> \<longleftrightarrow> (of_int (\<bar>r\<bar> * 2) :: rat) < of_int \<bar>d\<bar>" by simp
  also have "\<dots> \<longleftrightarrow> \<bar>r * 2\<bar> < \<bar>d\<bar>" by (simp only: of_int_less_iff) (simp add: abs_mult)
  finally show "\<bar>r * 2\<bar> < \<bar>d\<bar> \<longleftrightarrow> \<bar>f\<bar> < 1/2" ..
  have "\<bar>f\<bar> = 1/2 \<longleftrightarrow> \<bar>of_int r\<bar> * 2 = (\<bar>of_int d\<bar> :: rat)" using d by (auto simp: f field_simps)
  also have "\<dots> \<longleftrightarrow> (of_int (\<bar>r\<bar> * 2) :: rat) = of_int \<bar>d\<bar>" by simp
  also have "\<dots> \<longleftrightarrow> \<bar>r * 2\<bar> = \<bar>d\<bar>" by (simp only: of_int_eq_iff) (simp add: abs_mult)
  finally show "\<bar>r * 2\<bar> = \<bar>d\<bar> \<longleftrightarrow> \<bar>f\<bar> = 1/2" ..
qed

text \<open>What \<open>Div\<close> makes of quotient and remainder is the reference rounding and the sign of its error.\<close>

lemma round_quotient_correct:
  assumes "d \<noteq> 0" "mpz_tdiv_qr G n d = (q, r)" "sgn v = sgn n"
  defines "x \<equiv> of_int n / of_int d :: rat"
  shows "round_quotient G m v d q r = (result_sign (of_int (round_to m x) - x), round_to m x)"
proof (cases "r = 0")
  case True
  then have "x = of_int q" using tdiv(1) [OF assms(1,2)] assms(1) by (simp add: x_def)
  with True show ?thesis by (simp add: round_quotient_def result_sign_def)
next
  case False
  define f :: rat where "f = of_int r / of_int d"
  note td = tdiv_rat [OF assms(1,2) False, folded f_def x_def]
  note half = half_iff [OF assms(1), of r, folded f_def]
  show ?thesis
  proof (cases "sgn n = sgn d")
    case True
    then have f: "0 < f" "f < 1" "0 \<le> q" using td by auto
    show ?thesis using False True f half
      unfolding td(1) round_to_above [OF f] round_quotient_def assms(3)
      by (cases m) (auto simp: result_sign_def Let_def)
  next
    case Neg: False
    then have f: "-1 < f" "f < 0" "q \<le> 0" using td by auto
    show ?thesis using False Neg f half
      unfolding td(1) round_to_below [OF f] round_quotient_def assms(3)
      by (cases m) (auto simp: result_sign_def Let_def)
  qed
qed

text \<open>Every operation computes what it should on the numbers denoted, and the result is normal.\<close>

lemma cleanup_loop_correct:
  assumes "cleanup_loop G v s = (v', s')"
  shows "(of_int v' :: rat) / 10 ^ s' = of_int v / 10 ^ s \<and> (s' = 0 \<or> v' mod 10 \<noteq> 0) \<and> s' \<le> s"
  using assms
proof (induction s arbitrary: v)
  case 0
  then show ?case by simp
next
  case (Suc s)
  show ?case
  proof (cases "v mod 10 = 0")
    case True
    then have v: "mpz_divexact_ui G v 10 * 10 = v" by (intro divexact) presburger
    have "(of_int v :: rat) = of_int (mpz_divexact_ui G v 10) * 10" by (subst v [symmetric]) simp
    moreover have "cleanup_loop G (mpz_divexact_ui G v 10) s = (v', s')" using Suc.prems True by simp
    note Suc.IH [OF this]
    ultimately show ?thesis by (auto simp: field_simps)
  next
    case False
    with Suc show ?thesis by auto
  qed
qed

lemma cleanup_correct [simp]:
  "dec_value (DecCleanup G d) = dec_value d" "dec_normal (DecCleanup G d)"
  using cleanup_loop_correct [of "dec_v d" "dec_scale d"]
  by (auto simp: DecCleanup_def dec_value_def dec_normal_def split: prod.splits)

lemma cleanup_settings [simp]:
  "dec_dscale (DecCleanup G d) = dec_dscale d" "dec_rounding (DecCleanup G d) = dec_rounding d"
  by (auto simp: DecCleanup_def split: prod.splits)

lemma cleanup_scale: "dec_scale (DecCleanup G d) \<le> dec_scale d"
  using cleanup_loop_correct [of "dec_v d" "dec_scale d"]
  by (auto simp: DecCleanup_def split: prod.splits)

lemma upscale_correct:
  "dec_value (Upscale G s d) = dec_value d"
  "dec_v (Upscale G s d) = dec_v d * 10 ^ s" "dec_scale (Upscale G s d) = dec_scale d + s"
  by (simp_all add: Upscale_def dec_value_def power_add)

lemma align:
  assumes "i \<le> j"
  shows "(of_int (v * 10 ^ (j - i)) :: rat) / 10 ^ j = of_int v / 10 ^ i"
  using assms by (simp add: field_simps flip: power_add)

lemma add_correct: "dec_value (DecAdd G x d) = dec_value d + dec_value (operand_of d x)"
  using align [of "dec_scale d" "dec_scale (operand_of d x)" "dec_v d"]
    align [of "dec_scale (operand_of d x)" "dec_scale d" "dec_v (operand_of d x)"]
  by (simp add: DecAdd_def Let_def copy_decimal_def upscale_correct) (simp add: dec_value_def upscale_correct add_divide_distrib)

lemma sub_correct: "dec_value (DecSub G x d) = dec_value d - dec_value (operand_of d x)"
  using align [of "dec_scale d" "dec_scale (operand_of d x)" "dec_v d"]
    align [of "dec_scale (operand_of d x)" "dec_scale d" "dec_v (operand_of d x)"]
  by (simp add: DecSub_def Let_def copy_decimal_def upscale_correct)
    (auto simp: dec_value_def upscale_correct diff_divide_distrib)

lemma mul_correct: "dec_value (DecMul G x d) = dec_value d * dec_value (operand_of d x)"
  by (simp add: DecMul_def Let_def) (simp add: dec_value_def power_add)

lemma negate_correct: "dec_value (negate_op G d) = - dec_value d" "dec_normal d \<Longrightarrow> dec_normal (negate_op G d)"
  by (auto simp: negate_op_def copy_decimal_def dec_value_def dec_normal_def zmod_zminus1_eq_if)

lemma results_normal: "dec_normal (DecAdd G x d)" "dec_normal (DecSub G x d)" "dec_normal (DecMul G x d)"
  by (simp_all add: DecAdd_def DecSub_def DecMul_def Let_def)

lemma compare_correct:
  "sgn (dec_compare G x d) = result_sign (dec_value d - dec_value (operand_of d x))"
proof -
  let ?e = "operand_of d x"
  have cmp: "sgn (mpz_cmp G a b) = result_sign (of_int a / 10 ^ k - of_int b / 10 ^ k)" for a b k
    unfolding mpz_cmp_sgn by (simp add: result_sign_def sgn_if field_simps)
  show ?thesis
    using align [of "dec_scale d" "dec_scale ?e" "dec_v d"] align [of "dec_scale ?e" "dec_scale d" "dec_v ?e"]
      cmp [of "dec_v d" "dec_v ?e" "dec_scale d"]
      cmp [of "dec_v d * 10 ^ (dec_scale ?e - dec_scale d)" "dec_v ?e" "dec_scale ?e"]
      cmp [of "dec_v d" "dec_v ?e * 10 ^ (dec_scale d - dec_scale ?e)" "dec_scale d"]
    by (auto simp: dec_compare_def Let_def copy_decimal_def upscale_correct dec_value_def result_sign_def)
qed

lemma relation_correct: "dec_relation r G x d = relation_of r (dec_value d) (dec_value (operand_of d x))"
  using compare_correct [of x d] by (cases r) (auto simp: result_sign_def sgn_if split: if_splits)

lemma signs_correct: "dec_signs G d = (dec_value d = 0, dec_value d > 0, dec_value d < 0)"
proof -
  have "sgn (mpz_cmp G (dec_v d) 0) = sgn (dec_v d)" by (simp add: mpz_cmp_sgn)
  then have "0 < mpz_cmp G (dec_v d) 0 \<longleftrightarrow> 0 < dec_v d" by (metis sgn_1_pos)
  then show ?thesis by (simp add: dec_signs_def dec_value_def divide_less_0_iff zero_less_divide_iff)
qed

text \<open>\<open>Div\<close>: the exact quotient, rounded to the requested number of digits, and the sign of the error.\<close>

lemma div_correct:
  assumes "0 \<le> scale" "dec_value e \<noteq> 0" "dec_value d \<noteq> 0"
  defines "x \<equiv> dec_value d / dec_value e * 10 ^ nat scale"
  shows "\<exists>d'. DecDiv G (Other e) scale m d = Inr (result_sign (of_int (round_to m x) - x), d') \<and>
    dec_value d' = of_int (round_to m x) / 10 ^ nat scale \<and> dec_normal d' \<and> dec_scale d' \<le> nat scale"
proof -
  let ?diff = "int (dec_scale d) - int (dec_scale e)"
  let ?dd = "if ?diff > scale then dec_v e * 10 ^ nat (?diff - scale) else dec_v e"
  let ?nn = "if ?diff < scale then dec_v d * 10 ^ nat (scale - ?diff) else dec_v d"
  have nz: "dec_v e \<noteq> 0" "dec_v d \<noteq> 0" using assms(2,3) by (simp_all add: dec_value_def)
  obtain q r where qr: "mpz_tdiv_qr G ?nn ?dd = (q, r)" by (cases "mpz_tdiv_qr G ?nn ?dd")
  have x: "x = of_int ?nn / of_int ?dd"
  proof (cases "?diff < scale")
    case True
    then have "nat (scale - ?diff) + dec_scale d = dec_scale e + nat scale" using assms(1) by linarith
    then have "(10 :: rat) ^ nat (scale - ?diff) * 10 ^ dec_scale d = 10 ^ dec_scale e * 10 ^ nat scale"
      by (simp flip: power_add)
    with True show ?thesis using nz by (simp add: x_def dec_value_def field_simps)
  next
    case False
    then have "nat (?diff - scale) + (dec_scale e + nat scale) = dec_scale d" using assms(1) by linarith
    then have "(10 :: rat) ^ nat (?diff - scale) * 10 ^ (dec_scale e + nat scale) = 10 ^ dec_scale d"
      by (simp flip: power_add)
    with False show ?thesis using nz by (auto simp: x_def dec_value_def field_simps power_add)
  qed
  have dd: "?dd \<noteq> 0" and nn: "sgn (dec_v d) = sgn ?nn" using nz by (auto simp: sgn_mult)
  note rq = round_quotient_correct [OF dd qr nn, of m, folded x]
  let ?d = "DecCleanup G (d\<lparr>dec_v := round_to m x, dec_scale := nat scale\<rparr>)"
  have "DecDiv G (Other e) scale m d = Inr (result_sign (of_int (round_to m x) - x), ?d)"
    using assms(1) nz qr rq by (cases "?diff < scale"; cases "scale < ?diff") (simp_all add: DecDiv_def Let_def)
  moreover have "dec_value ?d = of_int (round_to m x) / 10 ^ nat scale" by simp (simp add: dec_value_def)
  moreover have "dec_scale ?d \<le> nat scale" using cleanup_scale [of "d\<lparr>dec_v := round_to m x, dec_scale := nat scale\<rparr>"] by simp
  ultimately show ?thesis by simp
qed

end

text \<open>The comparison methods are the order of the numbers denoted.\<close>

sublocale gmp_arith < decimal_order: three_way "\<lambda>d e. dec_compare G (Other e) d" dec_value "\<lambda>_. True"
proof
  fix d e
  have "sgn (dec_compare G (Other e) d) = result_sign (dec_value d - dec_value e)"
    using compare_correct [of "Other e" d] by simp
  then show "dec_compare G (Other e) d < 0 \<longleftrightarrow> dec_value d < dec_value e"
    "dec_compare G (Other e) d = 0 \<longleftrightarrow> dec_value d = dec_value e"
    by (auto simp: result_sign_def sgn_if split: if_splits)
qed

sublocale gmp_arith < sum: refines_operation dec_value dec_normal "plus_op G" "(+)"
  by unfold_locales (simp_all add: plus_op_def add_correct results_normal)

sublocale gmp_arith < difference: refines_operation dec_value dec_normal "minus_op G" "(-)"
  by unfold_locales (simp_all add: minus_op_def sub_correct results_normal)

sublocale gmp_arith < product: refines_operation dec_value dec_normal "times_op G" "(*)"
  by unfold_locales (simp_all add: times_op_def mul_correct results_normal)

end
