(* ===== verification/Digits.thy ===== *)
theory Digits
  imports Flinter_Prelude
begin

text \<open>Strings of decimal digits: their value, and the digits of a number, also padded with zeros.\<close>

definition all_digits :: "string \<Rightarrow> bool" where
  "all_digits s \<longleftrightarrow> (\<forall>c \<in> set s. is_digit c)"

lemma all_digits_simps [simp]:
  "all_digits []" "all_digits (c # s) \<longleftrightarrow> is_digit c \<and> all_digits s"
  "all_digits (s @ t) \<longleftrightarrow> all_digits s \<and> all_digits t"
  by (auto simp: all_digits_def)

lemma all_digits_take [simp]: "all_digits s \<Longrightarrow> all_digits (take n s)"
  and all_digits_drop [simp]: "all_digits s \<Longrightarrow> all_digits (drop n s)"
  by (auto simp: all_digits_def dest: in_set_takeD in_set_dropD)

lemma all_digits_zeros [simp]: "all_digits (replicate n (CHR ''0''))"
  by (auto simp: all_digits_def is_digit_def)

lemma not_digit [simp]: "\<not> is_digit (CHR ''-'')" "\<not> is_digit (CHR ''.'')"
  by (simp_all add: is_digit_def)

lemma digits_value_simps [simp]:
  "digits_value [] = 0" "digits_value (s @ [c]) = digits_value s * 10 + digit_value c"
  by (simp_all add: digits_value_def)

lemma digits_value_append: "digits_value (s @ t) = digits_value s * 10 ^ length t + digits_value t"
proof (induction t rule: rev_induct)
  case Nil
  then show ?case by simp
next
  case (snoc c t)
  have "digits_value (s @ t @ [c]) = digits_value ((s @ t) @ [c])" by simp
  also have "\<dots> = digits_value (s @ t) * 10 + digit_value c" by (rule digits_value_simps(2))
  finally show ?case using snoc by (simp add: algebra_simps)
qed

lemma digits_value_zeros [simp]: "digits_value (replicate n (CHR ''0'')) = 0"
  by (induction n) (simp_all add: digits_value_def digit_value_def)

lemma dec_digits_value [simp]: "digits_value (dec_digits n) = n"
proof (induction n rule: dec_digits.induct)
  case (1 n)
  show ?case
  proof (cases "n < 10")
    case True
    then show ?thesis by (simp add: dec_digits.simps [of n] digits_value_def digit_value_def)
  next
    case False
    with 1 show ?thesis by (simp add: dec_digits.simps [of n] digit_value_def)
  qed
qed

lemma dec_digits_digits [simp]: "all_digits (dec_digits n)"
proof (induction n rule: dec_digits.induct)
  case (1 n)
  then show ?case by (cases "n < 10") (simp_all add: dec_digits.simps [of n] is_digit_def)
qed

lemma dec_digits_nonempty [simp]: "dec_digits n \<noteq> []"
  by (simp add: dec_digits.simps [of n])

lemma hd_dec_digits [simp]: "hd (dec_digits n) \<noteq> CHR ''-''"
proof -
  have "is_digit (hd (dec_digits n))" using dec_digits_digits [of n] by (cases "dec_digits n") (auto simp: all_digits_def)
  then show ?thesis by auto
qed

text \<open>\<open>setfill('0')\<close> and \<open>setw(10)\<close>, or \<open>%010d\<close>, for a number that is not negative.\<close>

definition pad10 :: "nat \<Rightarrow> string" where
  "pad10 n = replicate (10 - length (dec_digits n)) (CHR ''0'') @ dec_digits n"

lemma pad10_digits: "pad10 n \<noteq> []" "all_digits (pad10 n)" "digits_value (pad10 n) = n"
  by (simp_all add: pad10_def digits_value_append)

lemma dec_digits_length: "n < 10 ^ k \<Longrightarrow> 0 < k \<Longrightarrow> length (dec_digits n) \<le> k"
proof (induction n arbitrary: k rule: dec_digits.induct)
  case (1 n)
  show ?case
  proof (cases "n < 10")
    case True
    with 1(3) show ?thesis by (simp add: dec_digits.simps [of n])
  next
    case False
    then obtain j where k: "k = Suc j" "0 < j" using 1(2,3) by (cases k; cases "k - 1") auto
    have "n div 10 < 10 ^ j" using 1(2) by (simp add: k(1) less_mult_imp_div_less mult.commute)
    with 1(1) [OF False _ k(2)] False show ?thesis by (simp add: dec_digits.simps [of n] k(1))
  qed
qed

lemma pad10_length: "n < 10 ^ 10 \<Longrightarrow> length (pad10 n) = 10"
  using dec_digits_length [of n 10] by (simp add: pad10_def)

end
