(* ===== verification/Decimal_Text.thy ===== *)
theory Decimal_Text
  imports Decimal_Correct Digits
begin

text \<open>
  Decimal numbers as strings: \<open>Parse\<close> accepts exactly the literals \<open>[-]digits[.digits]\<close> with a digit,
  shorter than its buffer, and \<open>Serialize\<close> writes a literal with the requested number of digits that
  denotes the rounded number. The facts about GMP's strings are the locale \<open>gmp_text\<close>; both locales
  are interpreted on \<open>gmp_reference\<close>, which computes what the manual of GMP says.
\<close>

section \<open>Literals\<close>

definition literal :: "bool \<Rightarrow> string \<Rightarrow> string option \<Rightarrow> string" where
  "literal neg i f = (if neg then ''-'' else []) @ i @ (case f of None \<Rightarrow> [] | Some t \<Rightarrow> CHR ''.'' # t)"

definition fraction :: "string option \<Rightarrow> string" where
  "fraction f = (case f of None \<Rightarrow> [] | Some t \<Rightarrow> t)"

definition literal_ok :: "string \<Rightarrow> string option \<Rightarrow> bool" where
  "literal_ok i f \<longleftrightarrow> all_digits i \<and> all_digits (fraction f) \<and> i @ fraction f \<noteq> []"

definition literal_value :: "bool \<Rightarrow> string \<Rightarrow> string option \<Rightarrow> rat" where
  "literal_value neg i f =
    (if neg then -1 else 1) * of_nat (digits_value (i @ fraction f)) / 10 ^ length (fraction f)"

fun zeros_at_end :: "nat \<Rightarrow> string \<Rightarrow> nat" where
  "zeros_at_end z [] = z"
| "zeros_at_end z (c # s) = zeros_at_end (if c = CHR ''0'' then z + 1 else 0) s"

lemma zeros_at_end_append: "zeros_at_end z (s @ t) = zeros_at_end (zeros_at_end z s) t"
  by (induction s arbitrary: z) auto

lemma zeros_at_end_split:
  "\<exists>t. s = t @ replicate (zeros_at_end 0 s) (CHR ''0'') \<and> (t \<noteq> [] \<longrightarrow> last t \<noteq> CHR ''0'')"
proof (induction s rule: rev_induct)
  case Nil
  then show ?case by simp
next
  case (snoc c s)
  show ?case
  proof (cases "c = CHR ''0''")
    case True
    define k where "k = zeros_at_end 0 s"
    from snoc obtain t where t: "s = t @ replicate k (CHR ''0'')" "t \<noteq> [] \<longrightarrow> last t \<noteq> CHR ''0''"
      unfolding k_def by blast
    have "zeros_at_end 0 (s @ [c]) = Suc k" using True by (simp add: zeros_at_end_append k_def)
    moreover have "s @ [c] = t @ replicate (Suc k) (CHR ''0'')"
      using True unfolding t(1) by (simp add: replicate_append_same)
    ultimately have "s @ [c] = t @ replicate (zeros_at_end 0 (s @ [c])) (CHR ''0'')" by simp
    with t(2) show ?thesis by blast
  qed (auto simp: zeros_at_end_append)
qed

lemma parse_digits:
  "all_digits i \<Longrightarrow> parse_loop (i @ rest) n sc b z =
    parse_loop rest (n + length i) (if sc \<ge> 0 then sc + int (length i) else sc) (b @ i) (zeros_at_end z i)"
  by (induction i arbitrary: n sc b z) (auto simp: add.assoc)

lemma parse_literal:
  "literal_ok i f \<Longrightarrow> parse_loop (i @ (case f of None \<Rightarrow> [] | Some t \<Rightarrow> CHR ''.'' # t)) 0 (-1) b 0 =
    Some (length (i @ fraction f), (case f of None \<Rightarrow> -1 | Some t \<Rightarrow> int (length t)), b @ i @ fraction f,
          zeros_at_end 0 (i @ fraction f))"
  using parse_digits [of "fraction f" "[]"]
  by (cases f) (auto simp: literal_ok_def fraction_def parse_digits [of _ "[]", simplified] parse_digits zeros_at_end_append)

lemma parse_loop_point: "parse_loop s n sc b z = Some r \<Longrightarrow> 0 \<le> sc \<Longrightarrow> all_digits s"
  by (induction s arbitrary: n sc b z) (auto split: if_splits)

lemma parse_loop_literal:
  "parse_loop s n sc b z = Some r \<Longrightarrow> sc < 0 \<Longrightarrow>
    \<exists>i f. s = i @ (case f of None \<Rightarrow> [] | Some t \<Rightarrow> CHR ''.'' # t) \<and> all_digits i \<and> all_digits (fraction f)"
proof (induction s arbitrary: n sc b z)
  case Nil
  show ?case by (rule exI [of _ "[]"], rule exI [of _ None]) (simp add: fraction_def)
next
  case (Cons c s)
  show ?case
  proof (cases "is_digit c")
    case True
    then have "parse_loop s (n + 1) sc (b @ [c]) (if c = CHR ''0'' then z + 1 else 0) = Some r"
      using Cons.prems by (simp split: if_splits)
    from Cons.IH [OF this Cons.prems(2)] obtain i f where
      "s = i @ (case f of None \<Rightarrow> [] | Some t \<Rightarrow> CHR ''.'' # t)" "all_digits i" "all_digits (fraction f)" by blast
    with True show ?thesis by (intro exI [of _ "c # i"] exI [of _ f]) simp
  next
    case False
    then have c: "c = CHR ''.''" and "parse_loop s n 0 b z = Some r" using Cons.prems by (auto split: if_splits)
    then have "all_digits s" by (rule_tac parse_loop_point) auto
    with c show ?thesis by (intro exI [of _ "[]"] exI [of _ "Some s"]) (simp add: fraction_def)
  qed
qed

section \<open>Parsing\<close>

text \<open>Cutting zeros from the end of a string of digits.\<close>

lemma cut_zeros:
  assumes "all_digits ds" "z \<le> zeros_at_end 0 ds"
  shows "digits_value ds = digits_value (take (length ds - z) ds) * 10 ^ z" "z \<le> length ds"
    "z = zeros_at_end 0 ds \<Longrightarrow> z < length ds \<Longrightarrow> digits_value (take (length ds - z) ds) mod 10 \<noteq> 0"
    "zeros_at_end 0 ds = length ds \<Longrightarrow> digits_value ds = 0"
proof -
  define k where "k = zeros_at_end 0 ds"
  obtain t where t: "ds = t @ replicate k (CHR ''0'')" "t \<noteq> [] \<longrightarrow> last t \<noteq> CHR ''0''"
    using zeros_at_end_split [of ds] unfolding k_def by blast
  have zk: "z \<le> k" using assms(2) by (simp add: k_def)
  then have "replicate k (CHR ''0'') = replicate (k - z) (CHR ''0'') @ replicate z (CHR ''0'')"
    by (simp flip: replicate_add)
  then have cut: "ds = take (length ds - z) ds @ replicate z (CHR ''0'')"
    using zk unfolding t(1) by simp
  show "digits_value ds = digits_value (take (length ds - z) ds) * 10 ^ z"
    by (subst cut) (simp add: digits_value_append)
  show "z \<le> length ds" using zk unfolding t(1) by simp
  show "digits_value ds = 0" if "zeros_at_end 0 ds = length ds"
  proof -
    have "length ds = length t + k" unfolding t(1) by simp
    with that have "t = []" by (simp add: k_def)
    then show ?thesis unfolding t(1) by simp
  qed
  show "digits_value (take (length ds - z) ds) mod 10 \<noteq> 0" if z: "z = zeros_at_end 0 ds" "z < length ds"
  proof -
    have "z = k" using z(1) by (simp add: k_def)
    then have u: "take (length ds - z) ds = t" and "t \<noteq> []" using z(2) unfolding t(1) by auto
    then obtain t' c where c: "t = t' @ [c]" by (metis append_butlast_last_id)
    then have "is_digit c" "c \<noteq> CHR ''0''" using t assms(1) by auto
    moreover from this have "(of_char c :: nat) \<noteq> of_char (CHR ''0'')" by (simp only: of_char_eq_iff) simp
    ultimately have "0 < digit_value c" "digit_value c < 10"
      by (auto simp: is_digit_def digit_value_def)
    with u c show ?thesis by simp
  qed
qed

locale gmp_text = gmp_arith +
  assumes text_documented: "gmp_text_documented G"
begin

lemma set_str:
  assumes "all_digits u" "u \<noteq> []"
  shows "mpz_set_str G ((if neg then ''-'' else []) @ u) 10 = Some (if neg then - int (digits_value u) else int (digits_value u))"
  using text_documented assms by (simp add: gmp_text_documented_def all_digits_def)

lemma DecParse_literal:
  assumes ok: "literal_ok i f" and short: "length (literal neg i f) < 1024"
  shows "\<exists>d'. DecParse G (literal neg i f) d = (True, d') \<and> dec_value d' = literal_value neg i f \<and>
    dec_normal d' \<and> dec_dscale d' = dec_dscale d \<and> dec_rounding d' = dec_rounding d"
proof -
  let ?ds = "i @ fraction f" and ?L = "length (fraction f)" and ?sign = "if neg then ''-'' else []"
  let ?z0 = "zeros_at_end 0 ?ds"
  define z where "z = (if ?L > 0 then min ?z0 ?L else 0)"
  let ?u = "take (length ?ds - z) ?ds"
  have digits: "all_digits ?ds" and ne: "?ds \<noteq> []" using ok by (auto simp: literal_ok_def)
  have lit: "literal neg i f \<noteq> []" "\<not> 1024 \<le> length (literal neg i f)"
    "(if hd (literal neg i f) = CHR ''-'' then (''-'', tl (literal neg i f)) else ([], literal neg i f)) =
      (?sign, i @ (case f of None \<Rightarrow> [] | Some t \<Rightarrow> CHR ''.'' # t))"
    using ok short by (cases i; cases f; force simp: literal_def literal_ok_def fraction_def)+
  note loop = parse_literal [OF ok, of ?sign]
  have zle: "z \<le> ?z0" by (simp add: z_def)
  note cut = cut_zeros [OF digits zle]
  show ?thesis
  proof (cases "?z0 = length ?ds")
    case True
    then have "DecParse G (literal neg i f) d = (True, d\<lparr>dec_v := 0, dec_scale := 0\<rparr>)"
      using lit loop ne by (simp add: DecParse_def Let_def)
    then show ?thesis using cut(4) True by (simp add: dec_value_def dec_normal_def literal_value_def)
  next
    case False
    let ?v = "if neg then - int (digits_value ?u) else int (digits_value ?u)"
    let ?d = "d\<lparr>dec_v := ?v, dec_scale := ?L - z\<rparr>"
    have zl: "z < length ?ds" using False cut_zeros(2) [OF digits order_refl] zle by linarith
    then have "all_digits ?u" "?u \<noteq> []" using digits by auto
    note str = set_str [OF this, of neg]
    have buf: "take (length (?sign @ ?ds) - z) (?sign @ ?ds) = ?sign @ ?u" using zl by (cases neg) (auto simp: Suc_diff_le)
    have sc: "(if (case f of None \<Rightarrow> -1 | Some t \<Rightarrow> int (length t)) > 0
        then min ?z0 (nat (case f of None \<Rightarrow> -1 | Some t \<Rightarrow> int (length t))) else 0) = z"
      "nat (max 0 ((case f of None \<Rightarrow> -1 | Some t \<Rightarrow> int (length t)) - int z)) = ?L - z"
      by (auto simp: z_def fraction_def split: option.splits)
    have "DecParse G (literal neg i f) d = (True, ?d)"
      using lit ne False by (simp only: DecParse_def if_False Let_def snd_conv fst_conv loop)
        (simp add: sc buf [simplified] str [simplified])
    moreover have "dec_normal ?d"
    proof (cases "?L - z = 0")
      case no: False
      then have "z = ?z0" by (auto simp: z_def split: if_splits)
      then have "digits_value ?u mod 10 \<noteq> 0" using cut(3) zl by blast
      moreover have "(10 :: int) dvd int n \<longleftrightarrow> n mod 10 = 0" for n :: nat by presburger
      ultimately have "?v mod 10 \<noteq> 0" by (simp only: mod_eq_0_iff_dvd dvd_minus_iff if_split) simp
      then show ?thesis by (simp add: dec_normal_def)
    qed (simp add: dec_normal_def)
    moreover have "(10 :: rat) ^ ?L = 10 ^ (?L - z) * 10 ^ z"
      by (simp add: z_def flip: power_add)
    then have "dec_value ?d = literal_value neg i f"
      by (simp add: dec_value_def literal_value_def cut(1))
    ultimately show ?thesis by auto
  qed
qed

lemma DecParse_accepts:
  assumes "DecParse G s d = (True, d')"
  shows "\<exists>neg i f. literal_ok i f \<and> s = literal neg i f \<and> length s < 1024"
proof -
  let ?neg = "hd s = CHR ''-''" and ?rest = "if hd s = CHR ''-'' then tl s else s"
  have s: "s \<noteq> []" "length s < 1024" using assms by (auto simp: DecParse_def split: if_splits)
  obtain digits scale buffer zdigits where
    loop: "parse_loop ?rest 0 (-1) (if ?neg then ''-'' else []) 0 = Some (digits, scale, buffer, zdigits)" and "digits \<noteq> 0"
    using assms by (auto simp: DecParse_def Let_def split: if_splits option.splits)
  from parse_loop_literal [OF loop] obtain i f where
    i: "?rest = i @ (case f of None \<Rightarrow> [] | Some t \<Rightarrow> CHR ''.'' # t)" "all_digits i" "all_digits (fraction f)" by auto
  have "i @ fraction f \<noteq> []"
  proof
    assume "i @ fraction f = []"
    with i(1) loop \<open>digits \<noteq> 0\<close> show False by (cases f) (auto simp: fraction_def split: if_splits)
  qed
  with i have "literal_ok i f" by (simp add: literal_ok_def)
  moreover have "s = literal ?neg i f" using i(1) s(1) by (cases s) (auto simp: literal_def split: if_splits)
  ultimately show ?thesis using s(2) by blast
qed

lemma DecParse_failure: "DecParse G s d = (False, d') \<Longrightarrow> d' = d"
  by (auto simp: DecParse_def Let_def split: if_splits option.splits)

section \<open>Printing\<close>

text \<open>The text of a number of which \<open>k\<close> digits belong to the fraction.\<close>

lemma place_point:
  assumes "k \<noteq> 0" "ds \<noteq> []"
  shows "\<exists>i t. (if length ds \<le> k then (replicate (k - length ds + 2) (CHR ''0'') @ ds)[1 := CHR ''.'']
            else take (length ds - k) ds @ CHR ''.'' # drop (length ds - k) ds) = i @ CHR ''.'' # t \<and>
          i \<noteq> [] \<and> length t = k \<and> digits_value (i @ t) = digits_value ds \<and> (all_digits ds \<longrightarrow> all_digits i \<and> all_digits t)"
proof (cases "length ds \<le> k")
  case True
  let ?t = "replicate (k - length ds) (CHR ''0'') @ ds"
  have "(replicate (k - length ds + 2) (CHR ''0'') @ ds)[1 := CHR ''.''] = ''0'' @ CHR ''.'' # ?t"
    by (simp add: numeral_2_eq_2)
  moreover have "digits_value (''0'' @ ?t) = digits_value ds"
    using digits_value_append [of "replicate (Suc (k - length ds)) (CHR ''0'')" ds] by (simp del: replicate_Suc) simp
  ultimately show ?thesis using True
    by (intro exI [of _ "''0''"] exI [of _ ?t]) (simp add: is_digit_def)
next
  case False
  then show ?thesis using assms
    by (intro exI [of _ "take (length ds - k) ds"] exI [of _ "drop (length ds - k) ds"]) simp
qed

lemma append_literal:
  assumes "int (dec_scale d) \<le> scale"
  shows "\<exists>i f. SerializeWithAppending G scale d = Inr (literal (dec_v d < 0) i f) \<and> literal_ok i f \<and> i \<noteq> [] \<and>
    length (fraction f) = nat scale \<and>
    digits_value (i @ fraction f) = nat \<bar>dec_v d\<bar> * 10 ^ (nat scale - dec_scale d)"
proof -
  let ?ds = "dec_digits (nat \<bar>dec_v d\<bar>)" and ?extra = "nat scale - dec_scale d"
  let ?zeros = "replicate ?extra (CHR ''0'')" and ?neg = "dec_v d < 0"
  have str: "mpz_get_str G 10 (dec_v d) = Some (dec_string (dec_v d))"
    and base: "mpz_sizeinbase G (dec_v d) 10 = length ?ds \<or> mpz_sizeinbase G (dec_v d) 10 = length ?ds + 1"
    using text_documented by (simp_all add: gmp_text_documented_def)
  have fits: "\<not> mpz_sizeinbase G (dec_v d) 10 + 2 < length (dec_string (dec_v d)) + 1"
    using base by (auto simp: dec_string_def)
  have extra: "nat (scale - int (dec_scale d)) = ?extra" "0 \<le> scale" using assms by simp_all
  have sign: "(dec_string (dec_v d) \<noteq> [] \<and> hd (dec_string (dec_v d)) = CHR ''-'') = ?neg"
    "(if ?neg then tl (dec_string (dec_v d)) else dec_string (dec_v d)) = ?ds"
    by (simp_all add: dec_string_def)
  have form: "SerializeWithAppending G scale d = Inr ((if ?neg then ''-'' else []) @
      (if dec_scale d \<noteq> 0 then
         if length ?ds \<le> dec_scale d then (replicate (dec_scale d - length ?ds + 2) (CHR ''0'') @ ?ds)[1 := CHR ''.'']
         else take (length ?ds - dec_scale d) ?ds @ CHR ''.'' # drop (length ?ds - dec_scale d) ?ds
       else if ?extra > 0 then ?ds @ ''.'' else ?ds) @ ?zeros)"
    using assms fits by (simp only: SerializeWithAppending_def Let_def str option.case sign extra) simp
  show ?thesis
  proof (cases "dec_scale d = 0")
    case True
    then show ?thesis using extra(2) unfolding form
      by (intro exI [of _ ?ds] exI [of _ "if ?extra > 0 then Some ?zeros else None"])
        (auto simp: literal_def fraction_def literal_ok_def digits_value_append)
  next
    case False
    obtain i t where it: "(if length ?ds \<le> dec_scale d
          then (replicate (dec_scale d - length ?ds + 2) (CHR ''0'') @ ?ds)[1 := CHR ''.'']
          else take (length ?ds - dec_scale d) ?ds @ CHR ''.'' # drop (length ?ds - dec_scale d) ?ds) = i @ CHR ''.'' # t"
      "i \<noteq> []" "length t = dec_scale d" "digits_value (i @ t) = nat \<bar>dec_v d\<bar>" "all_digits i" "all_digits t"
      using place_point [OF False, of ?ds] by auto
    have "digits_value (i @ t @ ?zeros) = nat \<bar>dec_v d\<bar> * 10 ^ ?extra"
      using it(4) digits_value_append [of "i @ t" ?zeros] by simp
    moreover have "SerializeWithAppending G scale d = Inr (literal ?neg i (Some (t @ ?zeros)))"
      unfolding form it(1) using False by (simp add: literal_def)
    ultimately show ?thesis using it assms
      by (intro exI [of _ i] exI [of _ "Some (t @ ?zeros)"]) (auto simp: fraction_def literal_ok_def)
  qed
qed

lemma append_value:
  assumes "int (dec_scale d) \<le> scale"
  shows "\<exists>neg i f. SerializeWithAppending G scale d = Inr (literal neg i f) \<and> literal_ok i f \<and>
    length (fraction f) = nat scale \<and> literal_value neg i f = dec_value d"
proof -
  from append_literal [OF assms] obtain i f where
    f: "SerializeWithAppending G scale d = Inr (literal (dec_v d < 0) i f)" "literal_ok i f"
      "length (fraction f) = nat scale"
      "digits_value (i @ fraction f) = nat \<bar>dec_v d\<bar> * 10 ^ (nat scale - dec_scale d)" by blast
  have "(10 :: rat) ^ nat scale = 10 ^ (nat scale - dec_scale d) * 10 ^ dec_scale d"
    using assms by (simp flip: power_add)
  then have "literal_value (dec_v d < 0) i f = dec_value d"
    using f(3,4) by (simp add: literal_value_def dec_value_def)
  with f show ?thesis by blast
qed

lemma result_sign_scale: "0 < c \<Longrightarrow> result_sign (x / c) = result_sign x"
  by (auto simp: result_sign_def divide_less_0_iff)

lemma Serialize_correct:
  assumes "dec_normal d"
  shows "\<exists>ret neg i f. Serialize G scale m d = Inr (ret, literal neg i f) \<and> literal_ok i f \<and>
    length (fraction f) = (if scale < 0 then dec_scale d else nat scale) \<and>
    literal_value neg i f = (if scale < 0 then dec_value d
      else of_int (round_to m (dec_value d * 10 ^ nat scale)) / 10 ^ nat scale) \<and>
    ret = result_sign (literal_value neg i f - dec_value d)"
proof -
  consider (zero) "scale < 0" "dec_v d = 0" | (exact) "scale < 0" "dec_v d \<noteq> 0"
    | (longer) "0 \<le> scale" "int (dec_scale d) \<le> scale" | (shorter) "0 \<le> scale" "scale < int (dec_scale d)"
    by linarith
  then show ?thesis
  proof cases
    case zero
    moreover have "literal_ok ''0'' None" "literal False ''0'' None = ''0''" "literal_value False ''0'' None = 0"
      by (simp_all add: literal_ok_def fraction_def is_digit_def literal_def literal_value_def digits_value_def digit_value_def)
    ultimately show ?thesis using assms
      by (intro exI [of _ 0] exI [of _ False] exI [of _ "''0''"] exI [of _ None])
        (auto simp: Serialize_def PrintZero_def fraction_def dec_value_def dec_normal_def result_sign_def)
  next
    case exact
    obtain neg i f where "SerializeWithAppending G (int (dec_scale d)) d = Inr (literal neg i f)" "literal_ok i f"
      "length (fraction f) = dec_scale d" "literal_value neg i f = dec_value d"
      using append_value [of d "int (dec_scale d)"] by auto
    with exact show ?thesis
      by (intro exI [of _ 0] exI [of _ neg] exI [of _ i] exI [of _ f]) (auto simp: Serialize_def result_sign_def)
  next
    case longer
    have "dec_value d * 10 ^ nat scale = of_int (dec_v d * 10 ^ (nat scale - dec_scale d))"
      using longer by (simp add: dec_value_def field_simps flip: power_add)
    then have "of_int (round_to m (dec_value d * 10 ^ nat scale)) / 10 ^ nat scale = dec_value d"
      by (simp only: round_to_int) (simp add: field_simps)
    moreover obtain neg i f where "SerializeWithAppending G scale d = Inr (literal neg i f)" "literal_ok i f"
      "length (fraction f) = nat scale" "literal_value neg i f = dec_value d"
      using append_value [of d scale] longer by auto
    ultimately show ?thesis using longer
      by (intro exI [of _ 0] exI [of _ neg] exI [of _ i] exI [of _ f]) (auto simp: Serialize_def result_sign_def)
  next
    case shorter
    have "dec_v d \<noteq> 0" using shorter assms by (auto simp: dec_normal_def)
    then have nz: "dec_value (copy_decimal d) \<noteq> 0" by (simp add: dec_value_def copy_decimal_def)
    let ?x = "dec_value d * 10 ^ nat scale"
    from div_correct [of scale "decimal_of_int 1" "copy_decimal d" m] nz shorter(1) obtain d' where
      d': "DecDiv G (Other (decimal_of_int 1)) scale m (copy_decimal d) = Inr (result_sign (of_int (round_to m ?x) - ?x), d')"
        "dec_value d' = of_int (round_to m ?x) / 10 ^ nat scale" "dec_scale d' \<le> nat scale" by auto
    from d'(3) shorter(1) have "int (dec_scale d') \<le> scale" by linarith
    from append_value [OF this] obtain neg i f where lit: "SerializeWithAppending G scale d' = Inr (literal neg i f)"
      "literal_ok i f" "length (fraction f) = nat scale" "literal_value neg i f = dec_value d'" by blast
    have "result_sign (of_int (round_to m ?x) - ?x) = result_sign (dec_value d' - dec_value d)"
      using result_sign_scale [of "10 ^ nat scale" "of_int (round_to m ?x) - ?x"]
      by (simp add: d'(2) diff_divide_distrib)
    moreover have "Serialize G scale m d = Inr (result_sign (of_int (round_to m ?x) - ?x), literal neg i f)"
      using shorter d'(1) lit(1) by (simp add: Serialize_def SerializeWithRounding_def)
    ultimately show ?thesis using shorter lit d'(2)
      by (intro exI [of _ "result_sign (of_int (round_to m ?x) - ?x)"] exI [of _ neg] exI [of _ i] exI [of _ f]) simp
  qed
qed

end

section \<open>A GMP that does what its manual says\<close>

definition gmp_reference :: gmp where
  "gmp_reference = \<lparr>mpz_add = (+), mpz_sub = (-), mpz_mul = (*), mpz_neg = uminus,
    mpz_ui_pow_ui = (\<lambda>b e. int b ^ e),
    mpz_tdiv_qr = (\<lambda>n d. (sgn n * sgn d * (\<bar>n\<bar> div \<bar>d\<bar>), sgn n * (\<bar>n\<bar> mod \<bar>d\<bar>))),
    mpz_mul_2exp = (\<lambda>a e. a * 2 ^ e), mpz_cmp = (-), mpz_cmpabs = (\<lambda>a b. \<bar>a\<bar> - \<bar>b\<bar>), mpz_odd_p = odd,
    mpz_mod_ui = (\<lambda>a n. a mod int n), mpz_divexact_ui = (\<lambda>a n. a div int n),
    mpz_set_str = (\<lambda>s b. if s \<noteq> [] \<and> hd s = CHR ''-'' then
        (if tl s \<noteq> [] \<and> all_digits (tl s) then Some (- int (digits_value (tl s))) else None)
      else if s \<noteq> [] \<and> all_digits s then Some (int (digits_value s)) else None),
    mpz_get_str = (\<lambda>b z. Some (dec_string z)),
    mpz_sizeinbase = (\<lambda>z b. length (dec_digits (nat \<bar>z\<bar>)))\<rparr>"

lemma tdiv_reference:
  fixes n d :: int
  assumes "d \<noteq> 0"
  shows "n = sgn n * sgn d * (\<bar>n\<bar> div \<bar>d\<bar>) * d + sgn n * (\<bar>n\<bar> mod \<bar>d\<bar>)"
    "\<bar>sgn n * (\<bar>n\<bar> mod \<bar>d\<bar>)\<bar> < \<bar>d\<bar>"
    "sgn n * (\<bar>n\<bar> mod \<bar>d\<bar>) = 0 \<or> sgn (sgn n * (\<bar>n\<bar> mod \<bar>d\<bar>)) = sgn n"
proof -
  have "n = sgn n * (\<bar>n\<bar> div \<bar>d\<bar> * \<bar>d\<bar> + \<bar>n\<bar> mod \<bar>d\<bar>)" by (simp add: sgn_mult_abs)
  also have "\<dots> = sgn n * (\<bar>n\<bar> div \<bar>d\<bar> * (d * sgn d)) + sgn n * (\<bar>n\<bar> mod \<bar>d\<bar>)"
    by (simp only: distrib_left flip: abs_sgn)
  finally show "n = sgn n * sgn d * (\<bar>n\<bar> div \<bar>d\<bar>) * d + sgn n * (\<bar>n\<bar> mod \<bar>d\<bar>)" by (simp only: ac_simps)
  have pos: "0 \<le> \<bar>n\<bar> mod \<bar>d\<bar>" "\<bar>n\<bar> mod \<bar>d\<bar> < \<bar>d\<bar>" using assms by simp_all
  then show "\<bar>sgn n * (\<bar>n\<bar> mod \<bar>d\<bar>)\<bar> < \<bar>d\<bar>" using assms by (auto simp: abs_mult sgn_if)
  show "sgn n * (\<bar>n\<bar> mod \<bar>d\<bar>) = 0 \<or> sgn (sgn n * (\<bar>n\<bar> mod \<bar>d\<bar>)) = sgn n"
    using pos(1) by (auto simp: sgn_mult sgn_if)
qed

lemma gmp_reference_arith: "gmp_arith_documented gmp_reference"
  using tdiv_reference unfolding gmp_arith_documented_def by (simp add: gmp_reference_def)

lemma gmp_reference_text: "gmp_text_documented gmp_reference"
proof -
  have "hd s \<noteq> CHR ''-''" if "s \<noteq> []" "\<forall>c \<in> set s. is_digit c" for s
    using that by (cases s) auto
  then show ?thesis by (auto simp: gmp_text_documented_def gmp_reference_def all_digits_def)
qed

interpretation reference: gmp_text gmp_reference
  by unfold_locales (fact gmp_reference_arith gmp_reference_text)+

section \<open>What the class promises\<close>

context gmp_text
begin

lemma div_rounds:
  assumes "0 \<le> scale" "dec_value (operand_of d x) \<noteq> 0" "dec_normal d"
  defines "exact \<equiv> dec_value d / dec_value (operand_of d x)"
  shows "\<exists>ret d'. DecDiv G x scale m d = Inr (ret, d') \<and> dec_normal d' \<and> dec_scale d' \<le> nat scale \<and>
    dec_value d' = of_int (round_to m (exact * 10 ^ nat scale)) / 10 ^ nat scale \<and>
    ret = result_sign (dec_value d' - exact)"
proof (cases "x = Itself \<or> dec_value d = 0")
  case True
  define z :: int where "z = (if x = Itself then 1 else 0)"
  have "dec_v (operand_of d x) \<noteq> 0" using assms(2) by (simp add: dec_value_def)
  moreover have "x \<noteq> Itself \<Longrightarrow> dec_v d = 0 \<and> dec_scale d = 0"
    using True assms(3) by (auto simp: dec_value_def dec_normal_def)
  ultimately have d': "\<exists>d'. DecDiv G x scale m d = Inr (0, d') \<and> dec_v d' = z \<and> dec_scale d' = 0"
    using assms(1) by (auto simp: DecDiv_def Let_def z_def)
  have exact: "exact = of_int z" using True assms(2) by (auto simp: exact_def z_def)
  have "exact * 10 ^ nat scale = of_int (z * 10 ^ nat scale)" by (simp add: exact)
  then have "(of_int (round_to m (exact * 10 ^ nat scale)) :: rat) = of_int (z * 10 ^ nat scale)" by (simp only: round_to_int)
  then show ?thesis using d' exact by (auto simp: dec_value_def dec_normal_def result_sign_def)
next
  case False
  then obtain e where e: "x = Other e" by (cases x) auto
  let ?x = "exact * 10 ^ nat scale"
  from False assms(2) obtain d' where d': "DecDiv G x scale m d = Inr (result_sign (of_int (round_to m ?x) - ?x), d')"
    "dec_value d' = of_int (round_to m ?x) / 10 ^ nat scale" "dec_normal d'" "dec_scale d' \<le> nat scale"
    using div_correct [OF assms(1), of e d m] unfolding e exact_def by auto
  have "result_sign (of_int (round_to m ?x) - ?x) = result_sign (dec_value d' - exact)"
    using result_sign_scale [of "10 ^ nat scale" "of_int (round_to m ?x) - ?x"] by (simp add: d'(2) diff_divide_distrib)
  with d' show ?thesis by auto
qed

lemma parse_serialized:
  assumes "dec_normal d"
  shows "\<exists>ret s. Serialize G scale m d = Inr (ret, s) \<and>
    (length s < 1024 \<longrightarrow> (\<exists>d'. DecParse G s d0 = (True, d') \<and> dec_normal d' \<and>
      dec_value d' = (if scale < 0 then dec_value d
        else of_int (round_to m (dec_value d * 10 ^ nat scale)) / 10 ^ nat scale) \<and>
      ret = result_sign (dec_value d' - dec_value d)))"
proof -
  from Serialize_correct [OF assms, of scale m] obtain ret neg i f where
    r: "Serialize G scale m d = Inr (ret, literal neg i f)" "literal_ok i f"
      "literal_value neg i f = (if scale < 0 then dec_value d
        else of_int (round_to m (dec_value d * 10 ^ nat scale)) / 10 ^ nat scale)"
      "ret = result_sign (literal_value neg i f - dec_value d)" by blast
  have "\<exists>d'. DecParse G (literal neg i f) d0 = (True, d') \<and> dec_normal d' \<and> dec_value d' = literal_value neg i f"
    if "length (literal neg i f) < 1024" using DecParse_literal [OF r(2) that] by blast
  then show ?thesis using r by (intro exI [of _ ret] exI [of _ "literal neg i f"]) auto
qed

end





text \<open>
  \<open>Div\<close> fails exactly for a negative scale or a zero divisor; otherwise its quotient is the exact one
  rounded to \<open>scale\<close> digits in the mode asked for, and its result says on which side of the exact
  quotient it lies.
\<close>

theorem decimal_division_rounds:
  assumes "gmp_arith_documented G" "gmp_text_documented G" "dec_normal d"
  shows "if scale < 0 \<or> dec_value (operand_of d x) = 0 then DecDiv G x scale m d = Inl Invalid_argument
    else \<exists>ret q. DecDiv G x scale m d = Inr (ret, q) \<and> dec_scale q \<le> nat scale \<and>
      dec_value q = of_int (round_to m (dec_value d / dec_value (operand_of d x) * 10 ^ nat scale)) / 10 ^ nat scale \<and>
      ret = result_sign (dec_value q - dec_value d / dec_value (operand_of d x))"
proof -
  note gmp = gmp_arith.intro [OF assms(1)]
  note str = gmp_text.intro [OF gmp gmp_text_axioms.intro [OF assms(2)]]
  have "dec_value (operand_of d x) = 0 \<Longrightarrow> DecDiv G x scale m d = Inl Invalid_argument"
    using gmp_arith.cmp_iff(2) [OF gmp] by (auto simp: DecDiv_def Let_def dec_value_def)
  moreover have "scale < 0 \<Longrightarrow> DecDiv G x scale m d = Inl Invalid_argument" by (simp add: DecDiv_def Let_def)
  ultimately show ?thesis using gmp_text.div_rounds [OF str, of scale d x m] assms(3) by fastforce
qed

lemma decimal_division_rounds_witness:
  "\<exists>q. DecDiv gmp_reference (Other (decimal_of_int 3)) 2 kRoundingTiesToEven (decimal_of_int 2) = Inr (1, q) \<and>
    dec_value q = 67 / 100"
proof -
  have "\<lfloor>200 / 3 :: rat\<rfloor> = 66" by (simp add: floor_eq_iff)
  then have r: "round_to kRoundingTiesToEven (200 / 3) = 67" by (simp add: Let_def)
  show ?thesis
    using decimal_division_rounds [OF gmp_reference_arith gmp_reference_text dec_value_simps(6),
        of 2 2 "Other (decimal_of_int 3)" kRoundingTiesToEven]
    by (auto simp: r result_sign_def simp del: round_to.simps)
qed

text \<open>
  \<open>Parse\<close> accepts exactly the literals shorter than its buffer, and the number it reads is the one the
  literal denotes; a string it refuses changes nothing.
\<close>

theorem decimal_parse_literals:
  assumes "gmp_arith_documented G" "gmp_text_documented G"
  shows "case DecParse G s d of (ok, d') \<Rightarrow>
    (ok \<longleftrightarrow> length s < 1024 \<and> (\<exists>neg i f. literal_ok i f \<and> s = literal neg i f)) \<and>
    (\<forall>neg i f. ok \<and> literal_ok i f \<and> s = literal neg i f \<longrightarrow> dec_value d' = literal_value neg i f) \<and>
    (\<not> ok \<longrightarrow> d' = d)"
proof -
  note str = gmp_text.intro [OF gmp_arith.intro [OF assms(1)] gmp_text_axioms.intro [OF assms(2)]]
  show ?thesis
    using gmp_text.DecParse_literal [OF str, of _ _ _ d] gmp_text.DecParse_accepts [OF str, of s d]
      gmp_text.DecParse_failure [OF str, of s d]
    by (cases "DecParse G s d"; cases "fst (DecParse G s d)") fastforce+
qed

lemma decimal_parse_literals_witness:
  "\<exists>d. DecParse gmp_reference ''-1.50'' new_decimal = (True, d) \<and> dec_value d = -3 / 2"
proof -
  have ok: "literal_ok ''1'' (Some ''50'')" "''-1.50'' = literal True ''1'' (Some ''50'')"
    by (simp_all add: literal_ok_def fraction_def is_digit_def literal_def)
  have v: "literal_value True ''1'' (Some ''50'') = -3 / 2"
    by (simp add: literal_value_def fraction_def digits_value_def digit_value_def)
  obtain b d where d: "DecParse gmp_reference ''-1.50'' new_decimal = (b, d)" by fastforce
  have ex: "\<exists>neg i f. literal_ok i f \<and> ''-1.50'' = literal neg i f" using ok by blast
  from decimal_parse_literals [OF gmp_reference_arith gmp_reference_text, of "''-1.50''" new_decimal, unfolded d prod.case]
  have "b \<longleftrightarrow> length ''-1.50'' < 1024 \<and> (\<exists>neg i f. literal_ok i f \<and> ''-1.50'' = literal neg i f)"
    and val: "b \<and> literal_ok i f \<and> ''-1.50'' = literal neg i f \<Longrightarrow> dec_value d = literal_value neg i f" for neg i f
    by blast+
  with ex have b by simp
  with val [of "''1''" "Some ''50''" True] ok v d show ?thesis by simp
qed



end
