(* ===== verification/Read_Write_Lock.thy ===== *)
theory Read_Write_Lock
  imports Flinter_Prelude "HOL-Library.Multiset"
begin

text \<open>
  \<open>ReadWriteLock\<close> (\<open>flinter/thread/read_write_lock.cpp\<close>). On Windows the class implements the lock
  itself, on a mutex and two semaphores: counts of holders and waiters, and a cookie for every waiter
  that is let in. Elsewhere it forwards to \<open>pthread_rwlock_t\<close>. Both are modelled; whether a call of
  the operating system succeeds is an argument. What runs under the mutex is one step, waiting for a
  semaphore another.
\<close>

section \<open>The Windows implementation\<close>

record rwlock =
  rw_access :: int
  rw_reader_queue :: int
  rw_writer_queue :: int
  rw_reader_wait :: nat
  rw_writer_wait :: nat

definition new_rwlock :: rwlock where
  "new_rwlock = \<lparr>rw_access = 0, rw_reader_queue = 0, rw_writer_queue = 0, rw_reader_wait = 0, rw_writer_wait = 0\<rparr>"

text \<open>Whether taking the mutex, leaving it, and releasing a semaphore succeed.\<close>

record rw_api =
  api_wait :: bool
  api_release :: bool
  api_semaphore :: bool

definition api_works :: rw_api where
  "api_works = \<lparr>api_wait = True, api_release = True, api_semaphore = True\<rparr>"

datatype rw_error = Rw_runtime_error

type_synonym 'a rw = "(rw_error + 'a) \<times> rwlock"

text \<open>The part of a method between taking and leaving the mutex.\<close>

definition locked :: "rw_api \<Rightarrow> (rwlock \<Rightarrow> 'a \<times> rwlock) \<Rightarrow> rwlock \<Rightarrow> 'a rw" where
  "locked api body l =
    (if \<not> api_wait api then (Inl Rw_runtime_error, l)
     else case body l of (a, l') \<Rightarrow> (if api_release api then Inr a else Inl Rw_runtime_error, l'))"

text \<open>\<open>ReaderLock()\<close> and \<open>WriterLock()\<close>: the result says whether the thread has to wait.\<close>

definition RwReaderLock :: "rw_api \<Rightarrow> rwlock \<Rightarrow> bool rw" where
  "RwReaderLock api = locked api (\<lambda>l.
    let access_pending = (rw_access l < 0 \<or> rw_writer_queue l > 0)
    in (access_pending, if access_pending then l\<lparr>rw_reader_queue := rw_reader_queue l + 1\<rparr>
                        else l\<lparr>rw_access := rw_access l + 1\<rparr>))"

definition RwWriterLock :: "rw_api \<Rightarrow> rwlock \<Rightarrow> bool rw" where
  "RwWriterLock api = locked api (\<lambda>l.
    let access_pending = (rw_access l \<noteq> 0)
    in (access_pending, if access_pending then l\<lparr>rw_writer_queue := rw_writer_queue l + 1\<rparr>
                        else l\<lparr>rw_access := rw_access l - 1\<rparr>))"

text \<open>The wait for a cookie, possible only when there is one.\<close>

definition RwReaderWait :: "rwlock \<Rightarrow> rwlock option" where
  "RwReaderWait l = (if rw_reader_wait l = 0 then None else Some (l\<lparr>rw_reader_wait := rw_reader_wait l - 1\<rparr>))"

definition RwWriterWait :: "rwlock \<Rightarrow> rwlock option" where
  "RwWriterWait l = (if rw_writer_wait l = 0 then None else Some (l\<lparr>rw_writer_wait := rw_writer_wait l - 1\<rparr>))"

definition RwTryReaderLock :: "rw_api \<Rightarrow> rwlock \<Rightarrow> bool rw" where
  "RwTryReaderLock api = locked api (\<lambda>l.
    if rw_access l \<ge> 0 \<and> rw_writer_queue l = 0 then (True, l\<lparr>rw_access := rw_access l + 1\<rparr>) else (False, l))"

definition RwTryWriterLock :: "rw_api \<Rightarrow> rwlock \<Rightarrow> bool rw" where
  "RwTryWriterLock api = locked api (\<lambda>l.
    if rw_access l = 0 then (True, l\<lparr>rw_access := rw_access l - 1\<rparr>) else (False, l))"

text \<open>\<open>Unlock()\<close>: the cookies are handed out before the mutex is left.\<close>

definition hand_over :: "rwlock \<Rightarrow> rwlock" where
  "hand_over l =
    (if rw_access l = 0 then
       if rw_writer_queue l > 0 then
         l\<lparr>rw_access := rw_access l - 1, rw_writer_queue := rw_writer_queue l - 1,
           rw_writer_wait := rw_writer_wait l + 1\<rparr>
       else if rw_reader_queue l > 0 then
         l\<lparr>rw_access := rw_reader_queue l, rw_reader_queue := 0,
           rw_reader_wait := rw_reader_wait l + nat (rw_reader_queue l)\<rparr>
       else l
     else l)"

definition RwUnlock :: "rw_api \<Rightarrow> rwlock \<Rightarrow> unit rw" where
  "RwUnlock api l =
    (if \<not> api_wait api then (Inl Rw_runtime_error, l)
     else
       let l1 = (if rw_access l > 0 then l\<lparr>rw_access := rw_access l - 1\<rparr> else l\<lparr>rw_access := rw_access l + 1\<rparr>);
           l2 = hand_over l1
       in if l2 \<noteq> l1 \<and> \<not> api_semaphore api then
            (Inl Rw_runtime_error, l2\<lparr>rw_reader_wait := rw_reader_wait l1, rw_writer_wait := rw_writer_wait l1\<rparr>)
          else (if api_release api then Inr () else Inl Rw_runtime_error, l2))"

section \<open>Threads using the lock\<close>

datatype phase = Idle | Wait_read | Wait_write | Reading | Writing

type_synonym rw_state = "rwlock \<times> phase list"

inductive rw_step :: "rw_state \<Rightarrow> rw_state \<Rightarrow> bool" where
  reader_lock: "t < length ph \<Longrightarrow> ph ! t = Idle \<Longrightarrow> RwReaderLock api_works l = (Inr pending, l') \<Longrightarrow>
    rw_step (l, ph) (l', ph[t := if pending then Wait_read else Reading])"
| writer_lock: "t < length ph \<Longrightarrow> ph ! t = Idle \<Longrightarrow> RwWriterLock api_works l = (Inr pending, l') \<Longrightarrow>
    rw_step (l, ph) (l', ph[t := if pending then Wait_write else Writing])"
| reader_wake: "t < length ph \<Longrightarrow> ph ! t = Wait_read \<Longrightarrow> RwReaderWait l = Some l' \<Longrightarrow>
    rw_step (l, ph) (l', ph[t := Reading])"
| writer_wake: "t < length ph \<Longrightarrow> ph ! t = Wait_write \<Longrightarrow> RwWriterWait l = Some l' \<Longrightarrow>
    rw_step (l, ph) (l', ph[t := Writing])"
| try_reader: "t < length ph \<Longrightarrow> ph ! t = Idle \<Longrightarrow> RwTryReaderLock api_works l = (Inr granted, l') \<Longrightarrow>
    rw_step (l, ph) (l', ph[t := if granted then Reading else Idle])"
| try_writer: "t < length ph \<Longrightarrow> ph ! t = Idle \<Longrightarrow> RwTryWriterLock api_works l = (Inr granted, l') \<Longrightarrow>
    rw_step (l, ph) (l', ph[t := if granted then Writing else Idle])"
| unlock: "t < length ph \<Longrightarrow> ph ! t = Reading \<or> ph ! t = Writing \<Longrightarrow> RwUnlock api_works l = (Inr (), l') \<Longrightarrow>
    rw_step (l, ph) (l', ph[t := Idle])"

definition threads :: "phase \<Rightarrow> phase list \<Rightarrow> nat" where
  "threads p ph = count (mset ph) p"

lemma threads_update:
  assumes "t < length ph"
  shows "threads p (ph[t := q]) = (threads p ph - (if ph ! t = p then 1 else 0)) + (if q = p then 1 else 0)"
  using assms by (simp add: threads_def mset_update)

lemma threads_pos: "t < length ph \<Longrightarrow> ph ! t = p \<Longrightarrow> 0 < threads p ph"
  by (auto simp: threads_def count_greater_zero_iff)

lemma threads_ex: "0 < threads p ph \<Longrightarrow> \<exists>t < length ph. ph ! t = p"
  by (metis threads_def count_greater_zero_iff in_multiset_in_set in_set_conv_nth)

text \<open>
  What the counts mean: \<open>_access\<close> counts the readers let in, or is -1 for a writer let in; a thread
  let in holds the lock or has a cookie; nobody waits for a lock that is free, and readers wait only
  for a writer.
\<close>

definition rw_inv :: "rw_state \<Rightarrow> bool" where
  "rw_inv s \<longleftrightarrow> (case s of (l, ph) \<Rightarrow>
     rw_access l = int (threads Reading ph + rw_reader_wait l) - int (threads Writing ph + rw_writer_wait l) \<and>
     threads Writing ph + rw_writer_wait l \<le> 1 \<and>
     (threads Writing ph + rw_writer_wait l = 0 \<or> threads Reading ph + rw_reader_wait l = 0) \<and>
     rw_reader_queue l + int (rw_reader_wait l) = int (threads Wait_read ph) \<and> 0 \<le> rw_reader_queue l \<and>
     rw_writer_queue l + int (rw_writer_wait l) = int (threads Wait_write ph) \<and> 0 \<le> rw_writer_queue l \<and>
     (rw_access l = 0 \<longrightarrow> rw_reader_queue l = 0 \<and> rw_writer_queue l = 0) \<and>
     (0 < rw_reader_queue l \<longrightarrow> rw_access l < 0 \<or> 0 < rw_writer_queue l))"

lemma rw_step_keeps: "rw_step s s' \<Longrightarrow> rw_inv s \<Longrightarrow> rw_inv s'"
proof (induction rule: rw_step.induct)
  case (reader_lock t ph l pending l')
  then show ?case
    using threads_pos [of t ph] by (auto simp: rw_inv_def RwReaderLock_def locked_def api_works_def Let_def threads_update split: if_splits)
next
  case (writer_lock t ph l pending l')
  then show ?case
    using threads_pos [of t ph] by (auto simp: rw_inv_def RwWriterLock_def locked_def api_works_def Let_def threads_update split: if_splits)
next
  case (reader_wake t ph l l')
  then show ?case
    using threads_pos [of t ph] by (auto simp: rw_inv_def RwReaderWait_def threads_update split: if_splits)
next
  case (writer_wake t ph l l')
  then show ?case
    using threads_pos [of t ph] by (auto simp: rw_inv_def RwWriterWait_def threads_update split: if_splits)
next
  case (try_reader t ph l granted l')
  then show ?case
    using threads_pos [of t ph] by (auto simp: rw_inv_def RwTryReaderLock_def locked_def api_works_def threads_update split: if_splits)
next
  case (try_writer t ph l granted l')
  then show ?case
    using threads_pos [of t ph] by (auto simp: rw_inv_def RwTryWriterLock_def locked_def api_works_def threads_update split: if_splits)
next
  case (unlock t ph l l')
  have l': "l' = hand_over (if rw_access l > 0 then l\<lparr>rw_access := rw_access l - 1\<rparr> else l\<lparr>rw_access := rw_access l + 1\<rparr>)"
    using unlock(3) by (simp add: RwUnlock_def api_works_def Let_def split: if_splits)
  have inv: "rw_inv (l, ph)" by fact
  note upd = threads_update [OF unlock(1), where q = Idle]
  from unlock(2) show ?case
  proof
    assume r: "ph ! t = Reading"
    have pos: "0 < threads Reading ph" using threads_pos [OF unlock(1) r] .
    with inv have access: "0 < rw_access l" "threads Writing ph = 0" "rw_writer_wait l = 0" by (auto simp: rw_inv_def)
    have n: "threads Reading (ph[t := Idle]) = threads Reading ph - 1" "threads Writing (ph[t := Idle]) = 0"
      "threads Wait_read (ph[t := Idle]) = threads Wait_read ph" "threads Wait_write (ph[t := Idle]) = threads Wait_write ph"
      using r access by (simp_all add: upd)
    show ?thesis using inv pos access unfolding l' rw_inv_def prod.case n hand_over_def by auto
  next
    assume w: "ph ! t = Writing"
    have pos: "0 < threads Writing ph" using threads_pos [OF unlock(1) w] .
    with inv have access: "rw_access l = -1" "threads Writing ph = 1" "rw_writer_wait l = 0"
      "threads Reading ph = 0" "rw_reader_wait l = 0" by (auto simp: rw_inv_def)
    have n: "threads Reading (ph[t := Idle]) = 0" "threads Writing (ph[t := Idle]) = 0"
      "threads Wait_read (ph[t := Idle]) = threads Wait_read ph" "threads Wait_write (ph[t := Idle]) = threads Wait_write ph"
      using w access by (simp_all add: upd)
    show ?thesis using inv access unfolding l' rw_inv_def prod.case n hand_over_def by auto
  qed
qed

section \<open>Refinement of a read-write lock\<close>

text \<open>The abstract lock: the threads that read and the threads that write; a step lets one in or out.\<close>

inductive rw_spec :: "nat set \<times> nat set \<Rightarrow> nat set \<times> nat set \<Rightarrow> bool" where
  let_reader_in: "t \<notin> R \<Longrightarrow> rw_spec (R, {}) (insert t R, {})"
| let_writer_in: "rw_spec ({}, {}) ({}, {t})"
| let_reader_out: "t \<in> R \<Longrightarrow> rw_spec (R, W) (R - {t}, W)"
| let_writer_out: "rw_spec (R, {t}) (R, {})"

definition holders :: "phase \<Rightarrow> phase list \<Rightarrow> nat set" where
  "holders p ph = {t. t < length ph \<and> ph ! t = p}"

definition rw_abs :: "rw_state \<Rightarrow> nat set \<times> nat set" where
  "rw_abs s = (holders Reading (snd s), holders Writing (snd s))"

lemma holders_update:
  "t < length ph \<Longrightarrow> holders p (ph[t := q]) = (if q = p then insert t (holders p ph) else holders p ph - {t})"
  by (auto simp: holders_def nth_list_update split: if_splits)

lemma holders_in: "t < length ph \<Longrightarrow> t \<in> holders p ph \<longleftrightarrow> ph ! t = p"
  by (simp add: holders_def)

lemma holders_empty: "threads p ph = 0 \<longleftrightarrow> holders p ph = {}"
  by (auto simp: holders_def dest: threads_pos) (metis threads_ex neq0_conv)

lemma holders_card: "card (holders p ph) = threads p ph"
  by (simp add: holders_def threads_def count_mset count_list_eq_length_filter length_filter_conv_card eq_commute [of p])

lemma rw_step_simulates: "rw_step s s' \<Longrightarrow> rw_inv s \<Longrightarrow> rw_spec\<^sup>=\<^sup>= (rw_abs s) (rw_abs s')"
proof (induction rule: rw_step.induct)
  case (reader_lock t ph l pending l')
  have "holders Writing ph = {}" if "\<not> pending"
    using reader_lock(3,4) that
    by (auto simp: rw_inv_def RwReaderLock_def locked_def api_works_def Let_def holders_empty [symmetric] split: if_splits)
  with reader_lock(1,2) show ?case
    by (auto simp: rw_abs_def holders_update holders_in Diff_triv insert_absorb intro!: let_reader_in)
next
  case (writer_lock t ph l pending l')
  have "holders Writing ph = {}" "holders Reading ph = {}" if "\<not> pending"
    using writer_lock(3,4) that
    by (auto simp: rw_inv_def RwWriterLock_def locked_def api_works_def Let_def holders_empty [symmetric] split: if_splits)
  with writer_lock(1,2) show ?case
    by (auto simp: rw_abs_def holders_update holders_in Diff_triv intro!: let_writer_in)
next
  case (reader_wake t ph l l')
  have "holders Writing ph = {}"
    using reader_wake(3,4) by (auto simp: rw_inv_def RwReaderWait_def holders_empty [symmetric] split: if_splits)
  with reader_wake(1,2) show ?case
    by (auto simp: rw_abs_def holders_update holders_in intro!: let_reader_in)
next
  case (writer_wake t ph l l')
  have "holders Writing ph = {}" "holders Reading ph = {}"
    using writer_wake(3,4) by (auto simp: rw_inv_def RwWriterWait_def holders_empty [symmetric] split: if_splits)
  with writer_wake(1,2) show ?case by (auto simp: rw_abs_def holders_update holders_in intro!: let_writer_in)
next
  case (try_reader t ph l granted l')
  have "holders Writing ph = {}" if granted
    using try_reader(3,4) that
    by (auto simp: rw_inv_def RwTryReaderLock_def locked_def api_works_def holders_empty [symmetric] split: if_splits)
  with try_reader(1,2) show ?case
    by (auto simp: rw_abs_def holders_update holders_in Diff_triv intro!: let_reader_in)
next
  case (try_writer t ph l granted l')
  have "holders Writing ph = {}" "holders Reading ph = {}" if granted
    using try_writer(3,4) that
    by (auto simp: rw_inv_def RwTryWriterLock_def locked_def api_works_def holders_empty [symmetric] split: if_splits)
  with try_writer(1,2) show ?case
    by (auto simp: rw_abs_def holders_update holders_in Diff_triv intro!: let_writer_in)
next
  case (unlock t ph l l')
  from unlock(2) show ?case
  proof
    assume "ph ! t = Reading"
    then show ?thesis using unlock(1) let_reader_out [of t "holders Reading ph"]
      by (auto simp: rw_abs_def holders_update holders_in Diff_triv)
  next
    assume w: "ph ! t = Writing"
    have "finite (holders Writing ph)" by (simp add: holders_def)
    moreover have "card (holders Writing ph) \<le> Suc 0" using unlock(4) by (simp add: rw_inv_def holders_card)
    ultimately have "\<forall>x \<in> holders Writing ph. \<forall>y \<in> holders Writing ph. x = y" by (simp add: card_le_Suc0_iff_eq)
    then have "holders Writing ph = {t}" using w holders_in [OF unlock(1)] by blast
    then show ?thesis using w unlock(1) let_writer_out [of "holders Reading ph" t]
      by (auto simp: rw_abs_def holders_update holders_in Diff_triv)
  qed
qed

interpretation rw: refines_machine rw_step rw_inv rw_abs rw_spec
  by unfold_locales (fact rw_step_keeps rw_step_simulates)+

lemma rw_inv_init: "rw_inv (new_rwlock, replicate n Idle)"
  by (auto simp: rw_inv_def new_rwlock_def threads_def)

text \<open>
  C7. From any number of threads that start idle, the lock implements the abstract one: readers share it,
  and a writer has it alone.
\<close>

theorem rw_lock_refines:
  assumes "rw_step\<^sup>*\<^sup>* (new_rwlock, replicate n Idle) s"
  shows "rw_spec\<^sup>*\<^sup>* ({}, {}) (rw_abs s) \<and>
    (case rw_abs s of (R, W) \<Rightarrow> W = {} \<or> (R = {} \<and> card W = 1))"
proof -
  have "rw_abs (new_rwlock, replicate n Idle) = ({}, {})" by (auto simp: rw_abs_def holders_def)
  with rw.run_simulates [OF assms rw_inv_init] have run: "rw_inv s" "rw_spec\<^sup>*\<^sup>* ({}, {}) (rw_abs s)" by auto
  from run(1) have "threads Writing (snd s) = 0 \<or> (threads Reading (snd s) = 0 \<and> threads Writing (snd s) = 1)"
    by (cases s) (auto simp: rw_inv_def)
  with run(2) show ?thesis by (auto simp: rw_abs_def holders_card holders_empty)
qed

lemma demo_rw_run:
  "rw_step\<^sup>*\<^sup>* (new_rwlock, replicate 2 Idle)
     (\<lparr>rw_access = -1, rw_reader_queue = 1, rw_writer_queue = 0, rw_reader_wait = 0, rw_writer_wait = 0\<rparr>, [Writing, Wait_read])"
proof -
  have "rw_step (new_rwlock, replicate 2 Idle) (new_rwlock\<lparr>rw_access := -1\<rparr>, [Writing, Idle])"
    using rw_step.writer_lock [of 0 "replicate 2 Idle" new_rwlock False "new_rwlock\<lparr>rw_access := -1\<rparr>"]
    by (simp add: RwWriterLock_def locked_def api_works_def new_rwlock_def numeral_2_eq_2)
  moreover have "rw_step (new_rwlock\<lparr>rw_access := -1\<rparr>, [Writing, Idle])
     (\<lparr>rw_access = -1, rw_reader_queue = 1, rw_writer_queue = 0, rw_reader_wait = 0, rw_writer_wait = 0\<rparr>, [Writing, Wait_read])"
    using rw_step.reader_lock [of 1 "[Writing, Idle]" "new_rwlock\<lparr>rw_access := -1\<rparr>" True
        "\<lparr>rw_access = -1, rw_reader_queue = 1, rw_writer_queue = 0, rw_reader_wait = 0, rw_writer_wait = 0\<rparr>"]
    by (simp add: RwReaderLock_def locked_def api_works_def new_rwlock_def)
  ultimately show ?thesis by (meson converse_rtranclp_into_rtranclp rtranclp.rtrancl_refl)
qed

lemma rw_lock_refines_witness:
  "rw_spec\<^sup>*\<^sup>* ({}, {}) ({}, {0})"
proof -
  have "rw_abs (\<lparr>rw_access = -1, rw_reader_queue = 1, rw_writer_queue = 0, rw_reader_wait = 0, rw_writer_wait = 0\<rparr>,
      [Writing, Wait_read]) = ({}, {0})"
    by (auto simp: rw_abs_def holders_def nth_Cons' split: if_splits)
  then show ?thesis using rw_lock_refines [OF demo_rw_run] by simp
qed

text \<open>
  C35. No wake-up is lost: while a thread waits, some thread holds the lock, or a waiting thread has a cookie
  and can go on.
\<close>

theorem rw_lock_never_stuck:
  assumes "rw_step\<^sup>*\<^sup>* (new_rwlock, replicate n Idle) (l, ph)" and "t < length ph" "ph ! t \<in> {Wait_read, Wait_write}"
  shows "(\<exists>u < length ph. ph ! u \<in> {Reading, Writing}) \<or>
    (\<exists>u < length ph. (ph ! u = Wait_read \<and> RwReaderWait l \<noteq> None) \<or> (ph ! u = Wait_write \<and> RwWriterWait l \<noteq> None))"
proof -
  have inv: "rw_inv (l, ph)" using rw.run_simulates [OF assms(1) rw_inv_init] by simp
  have waits: "0 < threads Wait_read ph \<or> 0 < threads Wait_write ph"
    using assms(2,3) threads_pos [of t ph] by auto
  consider (holder) "0 < threads Reading ph \<or> 0 < threads Writing ph" | (reader) "0 < rw_reader_wait l"
    | (writer) "0 < rw_writer_wait l"
    | (nobody) "threads Reading ph = 0" "threads Writing ph = 0" "rw_reader_wait l = 0" "rw_writer_wait l = 0"
    by blast
  then show ?thesis
  proof cases
    case holder
    then show ?thesis using threads_ex [of Reading ph] threads_ex [of Writing ph] by auto
  next
    case reader
    then have "0 < threads Wait_read ph" using inv by (auto simp: rw_inv_def)
    then show ?thesis using reader threads_ex [of Wait_read ph] by (auto simp: RwReaderWait_def)
  next
    case writer
    then have "0 < threads Wait_write ph" using inv by (auto simp: rw_inv_def)
    then show ?thesis using writer threads_ex [of Wait_write ph] by (auto simp: RwWriterWait_def)
  next
    case nobody
    then show ?thesis using inv waits by (auto simp: rw_inv_def)
  qed
qed

lemma rw_lock_never_stuck_witness:
  "(\<exists>u < length [Writing, Wait_read]. [Writing, Wait_read] ! u \<in> {Reading, Writing}) \<or>
   (\<exists>u < length [Writing, Wait_read]. ([Writing, Wait_read] ! u = Wait_read \<and> RwReaderWait new_rwlock \<noteq> None) \<or>
     ([Writing, Wait_read] ! u = Wait_write \<and> RwWriterWait new_rwlock \<noteq> None))"
  using rw_lock_never_stuck [OF demo_rw_run, of 1] by (auto simp: new_rwlock_def RwReaderWait_def RwWriterWait_def)

text \<open>
  When the last holder leaves, the lock goes to one waiting writer if there is one, and otherwise to
  all waiting readers at once.
\<close>

theorem rw_lock_hands_over:
  assumes "rw_step\<^sup>*\<^sup>* (new_rwlock, replicate n Idle) (l, ph)"
    and "t < length ph" "ph ! t \<in> {Reading, Writing}" "\<bar>rw_access l\<bar> = 1"
  shows "\<exists>l'. RwUnlock api_works l = (Inr (), l') \<and>
    (if 0 < threads Wait_write ph
     then rw_access l' = -1 \<and> rw_writer_wait l' = 1 \<and> rw_reader_wait l' = 0
     else rw_access l' = int (threads Wait_read ph) \<and> rw_reader_wait l' = threads Wait_read ph \<and> rw_reader_queue l' = 0)"
proof -
  have inv: "rw_inv (l, ph)" using rw.run_simulates [OF assms(1) rw_inv_init] by simp
  have "0 < threads Reading ph \<or> 0 < threads Writing ph" using assms(2,3) threads_pos [of t ph] by auto
  with inv assms(4) have none: "rw_reader_wait l = 0" "rw_writer_wait l = 0"
    "rw_reader_queue l = int (threads Wait_read ph)" "rw_writer_queue l = int (threads Wait_write ph)"
    by (auto simp: rw_inv_def)
  from assms(4) consider "rw_access l = 1" | "rw_access l = -1" by linarith
  then show ?thesis using none
    by cases (auto simp: RwUnlock_def hand_over_def api_works_def Let_def)
qed

lemma rw_lock_hands_over_witness:
  "\<exists>l'. RwUnlock api_works \<lparr>rw_access = -1, rw_reader_queue = 1, rw_writer_queue = 0, rw_reader_wait = 0, rw_writer_wait = 0\<rparr> =
     (Inr (), l') \<and> rw_access l' = 1 \<and> rw_reader_wait l' = 1"
  using rw_lock_hands_over [OF demo_rw_run, of 0] by (auto simp: threads_def)

section \<open>The POSIX implementation\<close>

text \<open>
  \<open>call\<close> is the function of \<open>pthread\<close>: it returns 0 or an error number and changes the lock \<open>'s\<close>. The
  value of \<open>errno\<close> is what earlier calls of the thread left.
\<close>

definition EBUSY :: int where "EBUSY = 16"

definition PosixLock :: "('s \<Rightarrow> int \<times> 's) \<Rightarrow> 's \<Rightarrow> (rw_error + unit) \<times> 's" where
  "PosixLock call s = (case call s of (rc, s') \<Rightarrow> (if rc \<noteq> 0 then Inl Rw_runtime_error else Inr (), s'))"

definition PosixTryLock :: "('s \<Rightarrow> int \<times> 's) \<Rightarrow> int \<Rightarrow> 's \<Rightarrow> (rw_error + bool) \<times> 's" where
  "PosixTryLock call errno s =
    (case call s of (rc, s') \<Rightarrow>
       (if rc \<noteq> 0 then (if errno = EBUSY then Inr False else Inl Rw_runtime_error) else Inr True, s'))"

text \<open>
  \<open>TryReaderLock()\<close> and \<open>TryWriterLock()\<close> look for \<open>EBUSY\<close> in \<open>errno\<close>, but a \<open>pthread\<close> function returns it:
  on a busy lock they throw instead of returning false, unless \<open>errno\<close> happens to be \<open>EBUSY\<close>, and then
  they take any other error for a busy lock.
\<close>

theorem posix_try_lock_throws:
  assumes "call s = (rc, s)" "rc \<noteq> 0"
  shows "PosixTryLock call errno s = (if errno = EBUSY then Inr False else Inl Rw_runtime_error, s)"
  using assms by (simp add: PosixTryLock_def)

end
