(* ===== verification/Value_Tree.thy ===== *)
theory Value_Tree
  imports Flinter_Prelude "HOL-Library.List_Lexorder" "HOL-Library.Char_ord"
begin

text \<open>
  The trees of values (\<open>flinter/types/tree.cpp\<close>, \<open>tree.h\<close>): a node has a key, a value, the path it was
  created under and a \<open>std::map\<close> of children. A pointer to a node is the list of keys that leads to it.
  A path is a string that is copied and read up to its first zero byte.
\<close>

section \<open>The class\<close>

datatype tree = Node (t_key: string) (t_value: string) (t_full_path: string) (t_children: "(string, tree) smap")

definition new_tree :: tree where "new_tree = Node [] [] [] []"

fun set_children :: "(string, tree) smap \<Rightarrow> tree \<Rightarrow> tree" where
  "set_children cs (Node k v f _) = Node k v f cs"

definition find_child :: "string \<Rightarrow> tree \<Rightarrow> tree option" where
  "find_child k t = smap_find (t_children t) k"

definition put_child :: "string \<Rightarrow> tree \<Rightarrow> tree \<Rightarrow> tree" where
  "put_child k c t = set_children (smap_put k c (t_children t)) t"

definition GetFullPath :: "string \<Rightarrow> tree \<Rightarrow> string" where
  "GetFullPath child t = (if t_full_path t = [] then child else t_full_path t @ ''.'' @ child)"

definition c_str :: "string \<Rightarrow> string" where
  "c_str s = takeWhile (\<lambda>c. c \<noteq> CHR 0x00) s"

text \<open>\<open>strchr(cp, '.')\<close>: what stands before the point and, if there is one, what follows.\<close>

definition split_point :: "string \<Rightarrow> string \<times> string option" where
  "split_point cp = (takeWhile (\<lambda>c. c \<noteq> CHR ''.'') cp,
    case dropWhile (\<lambda>c. c \<noteq> CHR ''.'') cp of [] \<Rightarrow> None | _ # r \<Rightarrow> Some r)"

lemma split_point_shorter: "split_point cp = (k, Some r) \<Longrightarrow> length r < length cp"
  using length_dropWhile_le [of "\<lambda>c. c \<noteq> CHR ''.''" cp]
  by (auto simp: split_point_def split: list.splits)

text \<open>The loop of \<open>CreateOrSet\<close>: a missing node is created on the way, the last one with the value.\<close>

function create_or_set :: "string \<Rightarrow> string \<Rightarrow> tree \<Rightarrow> tree \<times> string list option" where
  "create_or_set cp value t =
    (case split_point cp of (key, rest) \<Rightarrow>
       if rest \<noteq> None \<and> key = [] then (t, None)
       else
         let node = Node key (if rest = None then value else []) (GetFullPath key t) [];
             t' = (if find_child key t = None then put_child key node t else t)
         in case rest of
              None \<Rightarrow> (t', Some [key])
            | Some r \<Rightarrow>
                if r = [] then (t', None)
                else (case create_or_set r value (the (find_child key t')) of
                        (c, res) \<Rightarrow> (put_child key c t', map_option (Cons key) res)))"
  by pat_completeness auto
termination
  by (relation "measure (\<lambda>(cp, v, t). length cp)") (auto dest!: split_point_shorter [OF sym])

declare create_or_set.simps [simp del]

definition CreateOrSet :: "string \<Rightarrow> string \<Rightarrow> tree \<Rightarrow> tree \<times> string list option" where
  "CreateOrSet path value t = (if path = [] then (t, None) else create_or_set (c_str path) value t)"

function find_loop :: "string \<Rightarrow> tree \<Rightarrow> tree option" where
  "find_loop cp t =
    (case split_point cp of (key, rest) \<Rightarrow>
       if rest \<noteq> None \<and> key = [] then None
       else case find_child key t of
              None \<Rightarrow> None
            | Some c \<Rightarrow> (case rest of None \<Rightarrow> Some c | Some r \<Rightarrow> if r = [] then None else find_loop r c))"
  by pat_completeness auto
termination
  by (relation "measure (\<lambda>(cp, t). length cp)") (auto dest!: split_point_shorter [OF sym])

declare find_loop.simps [simp del]

definition Find :: "string \<Rightarrow> tree \<Rightarrow> tree option" where
  "Find path t = (if path = [] then None else find_loop (c_str path) t)"

definition TreeHas :: "string \<Rightarrow> tree \<Rightarrow> bool" where
  "TreeHas path t \<longleftrightarrow> Find path t \<noteq> None"

text \<open>\<open>Get\<close> of a constant tree, and of one that may change: the latter throws for a path that is not valid.\<close>

definition TreeGetConst :: "string \<Rightarrow> tree \<Rightarrow> tree" where
  "TreeGetConst path t = (case Find path t of Some c \<Rightarrow> c | None \<Rightarrow> new_tree)"

datatype tree_error = Tree_runtime_error

definition TreeGet :: "string \<Rightarrow> tree \<Rightarrow> (tree_error + string list) \<times> tree" where
  "TreeGet path t = (case CreateOrSet path [] t of
     (t', None) \<Rightarrow> (Inl Tree_runtime_error, t') | (t', Some p) \<Rightarrow> (Inr p, t'))"

definition TreeSet :: "string \<Rightarrow> string \<Rightarrow> tree \<Rightarrow> tree" where
  "TreeSet path value t = fst (CreateOrSet path value t)"

fun SetValue :: "string \<Rightarrow> tree \<Rightarrow> tree" where
  "SetValue value (Node k v f cs) = Node k value f cs"

fun TreeClear :: "tree \<Rightarrow> tree" where
  "TreeClear (Node k v f cs) = Node [] [] f []"

text \<open>
  \<open>Merge\<close> of another object. The children of the other tree are visited in order; the key and the value
  are copied last.
\<close>

fun Merge :: "bool \<Rightarrow> tree \<Rightarrow> tree \<Rightarrow> tree"
and merge_children :: "bool \<Rightarrow> (string \<times> tree) list \<Rightarrow> tree \<Rightarrow> tree" where
  "Merge overwrite (Node k v f cs) t =
    (let t' = merge_children overwrite cs t
     in if overwrite then Node k v (t_full_path t') (t_children t') else t')"
| "merge_children overwrite [] t = t"
| "merge_children overwrite ((key, c) # cs) t =
    (let q = (case find_child key t of
                Some q \<Rightarrow> q
              | None \<Rightarrow> Node key (t_value c) (t_full_path t @ ''.'' @ key) [])
     in merge_children overwrite cs (put_child key (Merge overwrite c q) t))"

definition copy_tree :: "tree \<Rightarrow> tree" where
  "copy_tree other = Merge True other new_tree"

definition assign_tree :: "tree \<Rightarrow> tree \<Rightarrow> tree" where
  "assign_tree other t = (let copy = copy_tree other in Merge True copy (TreeClear t))"

text \<open>The constructor from a \<open>std::map\<close>.\<close>

definition tree_of_map :: "(string, string) smap \<Rightarrow> tree" where
  "tree_of_map m = foldl (\<lambda>t (k, v). TreeSet k v t) new_tree m"

text \<open>\<open>FormatDuplicatedKey\<close>: an index in brackets, with the zeros that bring it to the width of the total.\<close>

definition FormatDuplicatedKey :: "nat \<Rightarrow> nat \<Rightarrow> string option" where
  "FormatDuplicatedKey i n =
    (if n \<le> 1 then None
     else let width = length (dec_digits n); ds = dec_digits i
          in Some (''['' @ replicate (width - length ds) (CHR ''0'') @ ds @ '']''))"

section \<open>JSON\<close>

text \<open>
  What the iterators of \<open>Json::Value\<close> show of a value: the members or elements of a container with
  their names, which are empty in an array, or the text a stream prints of anything else. \<open>insert\<close>
  leaves an existing child alone.
\<close>

datatype json = Json_container "(string \<times> json) list" | Json_scalar string

fun ParseFromJsonInternal :: "json \<Rightarrow> tree \<Rightarrow> tree"
and json_children :: "(string \<times> json) list \<Rightarrow> nat \<Rightarrow> tree \<Rightarrow> tree" where
  "json_children [] index t = t"
| "json_children ((name, j) # p) index t =
    (let key = (if name = [] then ''['' @ dec_digits index @ '']'' else name);
         full_path = GetFullPath key t;
         child = (case j of
             Json_container _ \<Rightarrow> ParseFromJsonInternal j (Node key [] full_path [])
           | Json_scalar s \<Rightarrow> Node key s full_path []);
         t' = (if find_child key t = None then put_child key child t else t)
     in json_children p (if name = [] then index + 1 else index) t')"
| "ParseFromJsonInternal (Json_container ps) t = json_children ps 0 t"
| "ParseFromJsonInternal (Json_scalar s) t = t"

definition ParseFromJson :: "json \<Rightarrow> tree \<Rightarrow> tree" where
  "ParseFromJson j t = ParseFromJsonInternal j (TreeClear t)"

end
