(* ===== verification/Value_Tree_Correct.thy ===== *)
theory Value_Tree_Correct
  imports Value_Tree "HOL-Library.Sublist"
begin

text \<open>
  What the operations of \<open>Tree\<close> do, told of the finite map from key sequences to values a tree stands
  for: \<open>CreateOrSet\<close> and \<open>Find\<close> for every path string, valid or not, \<open>Merge\<close>, copying, and the paths the
  nodes carry.
\<close>

section \<open>Paths\<close>

fun split_dots :: "string \<Rightarrow> string list" where
  "split_dots [] = [[]]"
| "split_dots (c # s) = (if c = CHR ''.'' then [] # split_dots s
     else (c # hd (split_dots s)) # tl (split_dots s))"

lemma split_dots_nonempty [simp]: "split_dots s \<noteq> []"
  by (induction s) auto

lemma split_dots_point:
  "split_dots cp = (case split_point cp of (key, rest) \<Rightarrow> key # (case rest of None \<Rightarrow> [] | Some r \<Rightarrow> split_dots r))"
  by (induction cp) (auto simp: split_point_def split: list.splits option.splits)

lemma split_dots_single: "split_dots r = [[]] \<longleftrightarrow> r = []"
  by (cases r) auto

text \<open>
  The keys a path string leads along, and whether it is valid: every key must be nonempty, except that
  a string that starts with a zero byte stands for the one empty key.
\<close>

definition path_keys :: "string \<Rightarrow> string list" where
  "path_keys cp = (if cp = [] then [[]] else takeWhile (\<lambda>k. k \<noteq> []) (split_dots cp))"

definition path_valid :: "string \<Rightarrow> bool" where
  "path_valid cp \<longleftrightarrow> cp = [] \<or> [] \<notin> set (split_dots cp)"

lemma path_point:
  "split_point cp = (key, None) \<Longrightarrow> path_keys cp = [key] \<and> path_valid cp"
  "split_point cp = ([], Some r) \<Longrightarrow> path_keys cp = [] \<and> \<not> path_valid cp"
  "split_point cp = (key, Some r) \<Longrightarrow> key \<noteq> [] \<Longrightarrow>
    path_keys cp = key # (if r = [] then [] else path_keys r) \<and> (path_valid cp \<longleftrightarrow> r \<noteq> [] \<and> path_valid r)"
proof -
  assume "split_point cp = (key, None)"
  then show "path_keys cp = [key] \<and> path_valid cp"
    using split_dots_point [of cp] split_dots_single [of cp]
    by (auto simp: path_keys_def path_valid_def split_point_def)
next
  assume s: "split_point cp = ([], Some r)"
  then have "cp \<noteq> []" by (auto simp: split_point_def)
  with s show "path_keys cp = [] \<and> \<not> path_valid cp"
    using split_dots_point [of cp] by (simp add: path_keys_def path_valid_def)
next
  assume s: "split_point cp = (key, Some r)" "key \<noteq> []"
  then have "cp \<noteq> []" by (auto simp: split_point_def)
  with s show "path_keys cp = key # (if r = [] then [] else path_keys r) \<and> (path_valid cp \<longleftrightarrow> r \<noteq> [] \<and> path_valid r)"
    using split_dots_point [of cp] split_dots_single [of r] by (auto simp: path_keys_def path_valid_def)
qed

section \<open>Trees as maps\<close>

fun tree_wf :: "tree \<Rightarrow> bool" where
  "tree_wf (Node k v f cs) \<longleftrightarrow> smap_wf cs \<and> (\<forall>e \<in> set cs. tree_wf (snd e))"

fun subtree :: "tree \<Rightarrow> string list \<Rightarrow> tree option" where
  "subtree t [] = Some t"
| "subtree t (k # ks) = (case find_child k t of None \<Rightarrow> None | Some c \<Rightarrow> subtree c ks)"

definition value_at :: "tree \<Rightarrow> string list \<Rightarrow> string option" where
  "value_at t q = map_option t_value (subtree t q)"

lemma tree_wf_iff: "tree_wf t \<longleftrightarrow> smap_wf (t_children t) \<and> (\<forall>e \<in> set (t_children t). tree_wf (snd e))"
  by (cases t) simp

lemma find_child_wf: "tree_wf t \<Longrightarrow> find_child k t = Some c \<Longrightarrow> tree_wf c"
  by (auto simp: tree_wf_iff [of t] find_child_def dest!: smap_find_in)

lemma put_child_sels [simp]:
  "t_key (put_child k c t) = t_key t" "t_value (put_child k c t) = t_value t"
  "t_full_path (put_child k c t) = t_full_path t" "t_children (put_child k c t) = smap_put k c (t_children t)"
  by (cases t; simp add: put_child_def)+

lemma set_smap_put: "set (smap_put k v m) \<subseteq> insert (k, v) (set m)"
  by (auto simp: smap_put_def dest: set_takeWhileD set_dropWhileD)

lemma put_child_wf [simp]: "tree_wf t \<Longrightarrow> tree_wf c \<Longrightarrow> tree_wf (put_child k c t)"
  using set_smap_put [of k c "t_children t"] by (auto simp: tree_wf_iff [of t] tree_wf_iff [of "put_child k c t"])

lemma find_put_child [simp]: "tree_wf t \<Longrightarrow> find_child k (put_child k' c t) = (if k = k' then Some c else find_child k t)"
  by (simp add: tree_wf_iff [of t] find_child_def)

lemma value_at_simps [simp]:
  "value_at t [] = Some (t_value t)"
  "value_at t (k # q) = (case find_child k t of None \<Rightarrow> None | Some c \<Rightarrow> value_at c q)"
  by (auto simp: value_at_def split: option.splits)

lemma find_child_leaf [simp]: "find_child k (Node a b f []) = None"
  by (simp add: find_child_def)

lemma value_at_leaf [simp]: "value_at (Node a b f []) q = (if q = [] then Some b else None)"
  by (cases q) auto

section \<open>\<open>CreateOrSet\<close> and \<open>Find\<close>\<close>

text \<open>What a path adds: its nodes where they are missing, empty but for the last one of a valid path.\<close>

definition added :: "string \<Rightarrow> string \<Rightarrow> string list \<Rightarrow> string option" where
  "added cp v q =
    (if q \<noteq> [] \<and> prefix q (path_keys cp)
     then Some (if path_valid cp \<and> q = path_keys cp then v else []) else None)"

definition or_else :: "'a option \<Rightarrow> 'a option \<Rightarrow> 'a option" where
  "or_else x y = (case x of Some _ \<Rightarrow> x | None \<Rightarrow> y)"

lemma or_else_simps [simp]: "or_else (Some a) y = Some a" "or_else None y = y" "or_else x None = x"
  by (auto simp: or_else_def split: option.splits)

text \<open>The step of \<open>CreateOrSet\<close> down to a child, created if need be, that the rest of the path changes.\<close>

lemma create_below:
  fixes f :: string
  defines "node key \<equiv> Node key [] f []"
  assumes wf: "tree_wf t" and sp: "split_point cp = (key, Some r)" and key: "key \<noteq> []" and r: "r \<noteq> []"
    and c: "find_child key (if find_child key t = None then put_child key (node key) t else t) = Some c"
    and below: "\<And>q. value_at c' q = or_else (value_at c q) (added r v q)"
  shows "value_at (put_child key c' (if find_child key t = None then put_child key (node key) t else t)) q =
    or_else (value_at t q) (added cp v q)"
proof (cases q)
  case (Cons k q')
  let ?t = "if find_child key t = None then put_child key (node key) t else t"
  note pp = path_point(3) [OF sp key]
  have "tree_wf ?t" using wf by (simp add: node_def)
  then have put: "value_at (put_child key c' ?t) q = (if k = key then value_at c' q' else value_at ?t q)"
    using Cons by simp
  have other: "value_at ?t q = value_at t q" if "k \<noteq> key" using wf Cons that by (simp add: node_def)
  have old: "value_at c q' = (case find_child key t of Some c0 \<Rightarrow> value_at c0 q'
      | None \<Rightarrow> if q' = [] then Some [] else None)"
    using c wf by (cases "find_child key t") (auto simp: node_def)
  have "hd (split_dots r) = [] \<Longrightarrow> [] \<in> set (split_dots r)" by (metis hd_in_set split_dots_nonempty)
  then have "path_keys r \<noteq> [] \<or> \<not> path_valid r"
    by (auto simp: path_keys_def path_valid_def takeWhile_eq_Nil_iff)
  then have add: "added cp v q = (if k \<noteq> key then None else if q' = [] then Some [] else added r v q')"
    using pp r Cons by (auto simp: added_def)
  have "added r v [] = None" by (simp add: added_def)
  show ?thesis
  proof (cases "k = key")
    case True
    then show ?thesis using old below [of q'] Cons \<open>added r v [] = None\<close> unfolding put add
      by (cases "find_child key t"; cases "q' = []") auto
  next
    case False
    then show ?thesis using other unfolding put add by simp
  qed
qed (simp add: added_def)

lemma create_or_set_correct:
  "tree_wf t \<Longrightarrow> case create_or_set cp v t of (t', res) \<Rightarrow>
    tree_wf t' \<and> res = (if path_valid cp then Some (path_keys cp) else None) \<and>
    (\<forall>q. value_at t' q = or_else (value_at t q) (added cp v q))"
proof (induction cp v t rule: create_or_set.induct)
  case (1 cp v t)
  obtain key rest where sp: "split_point cp = (key, rest)" by fastforce
  let ?node = "Node key (if rest = None then v else []) (GetFullPath key t) []"
  let ?t = "if find_child key t = None then put_child key ?node t else t"
  show ?case
  proof (cases "rest \<noteq> None \<and> key = []")
    case True
    then show ?thesis using sp 1(2) path_point(2) [of cp]
      by (auto simp: create_or_set.simps [of cp] added_def)
  next
    case no: False
    have wf: "tree_wf ?t" using 1(2) by simp
    show ?thesis
    proof (cases rest)
      case None
      then have "path_keys cp = [key]" "path_valid cp" using path_point(1) sp by auto
      then have "value_at ?t q = or_else (value_at t q) (added cp v q)" for q
        using None 1(2) by (cases q) (auto simp: added_def or_else_def split: option.splits list.splits)
      then show ?thesis using sp None wf \<open>path_keys cp = [key]\<close> \<open>path_valid cp\<close>
        by (cases "find_child key t") (simp_all add: create_or_set.simps [of cp] Let_def)
    next
      case (Some r)
      then have key: "key \<noteq> []" using no by simp
      note pp = path_point(3) [OF sp [unfolded Some] key]
      show ?thesis
      proof (cases "r = []")
        case True
        have "value_at ?t q = or_else (value_at t q) (added cp v q)" for q
          using Some True pp 1(2) by (cases q) (auto simp: added_def or_else_def split: option.splits list.splits)
        then show ?thesis using sp Some True key wf pp
          by (cases "find_child key t") (simp_all add: create_or_set.simps [of cp] Let_def)
      next
        case False
        obtain c where c: "find_child key ?t = Some c" using 1(2) by (cases "find_child key t") auto
        have cwf: "tree_wf c" using find_child_wf [OF wf c] .
        obtain c' res where rec: "create_or_set r v c = (c', res)" by fastforce
        have "the (find_child key ?t) = c" using c by simp
        with 1(1) [OF sp [symmetric] no refl refl Some False] cwf rec
        have ih: "tree_wf c'" "res = (if path_valid r then Some (path_keys r) else None)"
          "value_at c' q = or_else (value_at c q) (added r v q)" for q by auto
        have eq: "create_or_set cp v t = (put_child key c' ?t, map_option (Cons key) res)"
          using sp Some False key c rec 1(2)
          by (cases "find_child key t") (auto simp: create_or_set.simps [of cp] Let_def)
        have "value_at (put_child key c' ?t) q = or_else (value_at t q) (added cp v q)" for q
          using create_below [OF 1(2) sp [unfolded Some] key False _ ih(3), of "GetFullPath key t"] c
          by (simp only: Some option.simps if_False simp_thms)
        then show ?thesis unfolding eq using wf ih(1,2) pp False by simp
      qed
    qed
  qed
qed

lemma find_loop_correct:
  "find_loop cp t = (if path_valid cp then subtree t (path_keys cp) else None)"
proof (induction cp t rule: find_loop.induct)
  case (1 cp t)
  obtain key rest where sp: "split_point cp = (key, rest)" by fastforce
  show ?case
  proof (cases rest)
    case None
    then show ?thesis using sp path_point(1) [of cp key] by (auto simp: find_loop.simps [of cp] split: option.splits)
  next
    case (Some r)
    show ?thesis
    proof (cases "key = []")
      case True
      then show ?thesis using sp Some path_point(2) [of cp] by (simp add: find_loop.simps [of cp])
    next
      case False
      then have "rest \<noteq> None \<and> key = [] \<Longrightarrow> False" by simp
      with 1 sp Some False path_point(3) [of cp key r] show ?thesis
        by (auto simp: find_loop.simps [of cp] split: option.splits)
    qed
  qed
qed

section \<open>\<open>Merge\<close> and copies\<close>

lemma merge_settings [simp]:
  "t_full_path (Merge ow s t) = t_full_path t"
  "t_full_path (merge_children ow cs t) = t_full_path t \<and> t_value (merge_children ow cs t) = t_value t \<and>
    t_key (merge_children ow cs t) = t_key t"
  by (induction ow s t and ow cs t rule: Merge_merge_children.induct) (auto simp: Let_def)

text \<open>What merging makes of the two values at a path.\<close>

definition merged :: "bool \<Rightarrow> 'a option \<Rightarrow> 'a option \<Rightarrow> 'a option" where
  "merged ow new old = (if ow then or_else new old else or_else old new)"

lemma merged_simps [simp]: "merged ow None old = old" "merged ow new None = new"
  by (auto simp: merged_def)

lemma tree_wf_root [simp]: "tree_wf (Node k v f (t_children t)) = tree_wf t"
  by (cases t) simp

lemma value_at_root: "value_at (Node k v f (t_children t)) q = (if q = [] then Some v else value_at t q)"
  by (cases q) (auto simp: find_child_def)

lemma merge_correct:
  "tree_wf s \<Longrightarrow> tree_wf t \<Longrightarrow> tree_wf (Merge ow s t) \<and>
    (\<forall>q. value_at (Merge ow s t) q = merged ow (value_at s q) (value_at t q))"
  "smap_wf cs \<Longrightarrow> \<forall>e \<in> set cs. tree_wf (snd e) \<Longrightarrow> tree_wf t \<Longrightarrow> tree_wf (merge_children ow cs t) \<and>
    (\<forall>k q. value_at (merge_children ow cs t) (k # q) =
      merged ow (case smap_find cs k of None \<Rightarrow> None | Some c \<Rightarrow> value_at c q) (value_at t (k # q)))"
proof (induction ow s t and ow cs t rule: Merge_merge_children.induct)
  case (1 ow k v f cs t)
  then have ih: "tree_wf (merge_children ow cs t)"
    "value_at (merge_children ow cs t) (k # q) =
      merged ow (case smap_find cs k of None \<Rightarrow> None | Some c \<Rightarrow> value_at c q) (value_at t (k # q))" for k q
    by auto
  have "value_at (Merge ow (Node k v f cs) t) q = merged ow (value_at (Node k v f cs) q) (value_at t q)" for q
  proof (cases q)
    case Nil
    then show ?thesis by (simp add: Let_def value_at_root) (simp add: merged_def)
  next
    case (Cons a q')
    then show ?thesis using ih(2) [of a q'] by (cases ow) (simp_all add: find_child_def)
  qed
  with ih(1) show ?case by (cases ow) (simp_all add: tree_wf_iff [of "merge_children b cs t" for b])
next
  case (2 ow t)
  then show ?case by (simp add: smap_find_def)
next
  case (3 ow key c cs t)
  define q0 where "q0 = (case find_child key t of Some q \<Rightarrow> q | None \<Rightarrow> Node key (t_value c) (t_full_path t @ ''.'' @ key) [])"
  let ?t = "put_child key (Merge ow c q0) t"
  have wf: "tree_wf c" "tree_wf q0" using 3(3-5) by (auto simp: q0_def find_child_wf split: option.splits)
  with 3(1) [folded q0_def] have m: "tree_wf (Merge ow c q0)"
    "value_at (Merge ow c q0) q = merged ow (value_at c q) (value_at q0 q)" for q by auto
  have cs: "smap_wf cs" "\<forall>e \<in> set cs. tree_wf (snd e)" "smap_find cs key = None"
    using 3(3,4) by (auto simp: smap_wf_Cons smap_find_None)
  have twf: "tree_wf ?t" using 3(5) m(1) by simp
  note ih = 3(2) [folded q0_def, OF refl cs(1,2) twf]
  have new: "merged ow (value_at c q) (value_at q0 q) = merged ow (value_at c q) (value_at t (key # q))" for q
    by (cases "find_child key t") (auto simp: q0_def merged_def or_else_def split: option.splits)
  show ?case
    using ih 3(5) m(2) cs(3) new by (auto simp: Let_def smap_find_Cons simp flip: q0_def)
qed

lemma new_tree_wf [simp]: "tree_wf new_tree" and value_at_new [simp]: "value_at new_tree q = (if q = [] then Some [] else None)"
  by (simp_all add: new_tree_def smap_wf_def)

lemma clear_wf [simp]: "tree_wf (TreeClear t)" and value_at_clear [simp]: "value_at (TreeClear t) q = (if q = [] then Some [] else None)"
  by (cases t; simp add: smap_wf_def)+

lemma copy_correct:
  "tree_wf s \<Longrightarrow> tree_wf (copy_tree s) \<and> value_at (copy_tree s) q = value_at s q"
  using merge_correct(1) [of s new_tree True] by (auto simp: copy_tree_def merged_def or_else_def split: option.splits)

lemma assign_correct: "tree_wf s \<Longrightarrow> value_at (assign_tree s t) q = value_at s q"
  using copy_correct [of s] merge_correct(1) [of "copy_tree s" "TreeClear t" True]
  by (auto simp: assign_tree_def Let_def merged_def or_else_def split: option.splits)

section \<open>The paths nodes carry\<close>

text \<open>A node knows the keys that lead to it, joined with points, after the path of the root.\<close>

definition paths_by :: "(string \<Rightarrow> string \<Rightarrow> string) \<Rightarrow> tree \<Rightarrow> bool" where
  "paths_by g t \<longleftrightarrow> (\<forall>q s. subtree t q = Some s \<longrightarrow> t_full_path s = foldl g (t_full_path t) q)"

definition point_join :: "string \<Rightarrow> string \<Rightarrow> string" where
  "point_join p k = (if p = [] then k else p @ ''.'' @ k)"

definition point_append :: "string \<Rightarrow> string \<Rightarrow> string" where
  "point_append p k = p @ ''.'' @ k"

lemma point_append_apply: "point_append p k = p @ ''.'' @ k"
  by (simp add: point_append_def)

abbreviation paths_known :: "tree \<Rightarrow> bool" where "paths_known \<equiv> paths_by point_join"

lemma paths_by_child:
  "paths_by g t \<longleftrightarrow> (\<forall>k c. find_child k t = Some c \<longrightarrow> t_full_path c = g (t_full_path t) k \<and> paths_by g c)"
proof -
  have root: "t_full_path c = g (t_full_path t) k" if "paths_by g t" "find_child k t = Some c" for k c
  proof -
    have "subtree t [k] = Some c" using that by simp
    then have "t_full_path c = foldl g (t_full_path t) [k]" using that(1) unfolding paths_by_def by blast
    then show ?thesis by simp
  qed
  moreover have "paths_by g c" if p: "paths_by g t" "find_child k t = Some c" for k c
    unfolding paths_by_def
  proof (intro allI impI)
    fix q s assume "subtree c q = Some s"
    then have "subtree t (k # q) = Some s" using p by simp
    then have "t_full_path s = foldl g (t_full_path t) (k # q)" using p(1) unfolding paths_by_def by blast
    then show "t_full_path s = foldl g (t_full_path c) q" by (simp add: root [OF p])
  qed
  moreover have "paths_by g t" if "\<forall>k c. find_child k t = Some c \<longrightarrow> t_full_path c = g (t_full_path t) k \<and> paths_by g c"
    unfolding paths_by_def
  proof (intro allI impI)
    fix q s assume "subtree t q = Some s"
    then show "t_full_path s = foldl g (t_full_path t) q"
      using that by (cases q) (auto simp: paths_by_def split: option.splits)
  qed
  ultimately show ?thesis by blast
qed

lemma GetFullPath_put [simp]: "GetFullPath k' (put_child k c t) = GetFullPath k' t"
  by (simp add: GetFullPath_def)

lemma point_join_GetFullPath: "point_join (t_full_path t) k = GetFullPath k t"
  by (simp add: GetFullPath_def point_join_def)

lemma put_paths_by:
  "tree_wf t \<Longrightarrow> paths_by g t \<Longrightarrow> t_full_path c = g (t_full_path t) k \<Longrightarrow> paths_by g c \<Longrightarrow>
    paths_by g (put_child k c t)"
  using paths_by_child [of g t] paths_by_child [of g "put_child k c t"] by simp

lemma leaf_paths_by [simp]: "paths_by g (Node k v f [])"
  by (simp add: paths_by_child [of g "Node k v f []"])

lemma create_full_path [simp]: "t_full_path (fst (create_or_set cp v t)) = t_full_path t"
  by (subst create_or_set.simps) (auto simp: Let_def split: prod.splits option.splits)

lemma create_paths_known:
  "tree_wf t \<Longrightarrow> paths_known t \<Longrightarrow> paths_known (fst (create_or_set cp v t))"
proof (induction cp v t rule: create_or_set.induct)
  case (1 cp v t)
  obtain key rest where sp: "split_point cp = (key, rest)" by fastforce
  let ?node = "Node key (if rest = None then v else []) (GetFullPath key t) []"
  let ?t = "if find_child key t = None then put_child key ?node t else t"
  have wf: "tree_wf ?t" using 1(2) by simp
  have known: "paths_known ?t"
    using put_paths_by [OF 1(2,3), of ?node key] 1(3) by (simp add: point_join_GetFullPath)
  show ?case
  proof (cases "(rest \<noteq> None \<and> key = []) \<or> rest = None \<or> rest = Some []")
    case True
    then show ?thesis using sp known 1(3) by (auto simp: create_or_set.simps [of cp] Let_def split: option.splits)
  next
    case False
    then obtain r where r: "rest = Some r" "r \<noteq> []" "key \<noteq> []" by auto
    obtain c where c: "find_child key ?t = Some c" using 1(2) by (cases "find_child key t") auto
    have ck: "t_full_path c = GetFullPath key ?t" "paths_known c"
      using known c paths_by_child [of point_join ?t] by (auto simp: point_join_GetFullPath)
    obtain c' res where rec: "create_or_set r v c = (c', res)" by fastforce
    have "the (find_child key ?t) = c" using c by simp
    with 1(1) [OF sp [symmetric] _ refl refl r(1,2)] r find_child_wf [OF wf c] ck(2) rec
    have c': "paths_known c'" by simp
    have "t_full_path c' = t_full_path c" using create_full_path [of r v c] rec by simp
    then have "paths_known (put_child key c' ?t)"
      using put_paths_by [OF wf known _ c'] ck(1) by (simp add: point_join_GetFullPath)
    moreover have "fst (create_or_set cp v t) = put_child key c' ?t"
      using sp r c rec 1(2) by (cases "find_child key t") (auto simp: create_or_set.simps [of cp] Let_def)
    ultimately show ?thesis by simp
  qed
qed

lemma merge_paths:
  "tree_wf s \<Longrightarrow> tree_wf t \<Longrightarrow> paths_by point_append t \<Longrightarrow> paths_by point_append (Merge ow s t)"
  "smap_wf cs \<Longrightarrow> \<forall>e \<in> set cs. tree_wf (snd e) \<Longrightarrow> tree_wf t \<Longrightarrow> paths_by point_append t \<Longrightarrow>
    paths_by point_append (merge_children ow cs t)"
proof (induction ow s t and ow cs t rule: Merge_merge_children.induct)
  case (1 ow k v f cs t)
  then have "paths_by point_append (merge_children ow cs t)" by simp
  then show ?case
    using paths_by_child [of point_append "merge_children ow cs t"]
      paths_by_child [of point_append "Node k v (t_full_path t) (t_children (merge_children ow cs t))"]
    by (auto simp: Let_def find_child_def)
next
  case (3 ow key c cs t)
  define q0 where "q0 = (case find_child key t of Some q \<Rightarrow> q | None \<Rightarrow> Node key (t_value c) (t_full_path t @ ''.'' @ key) [])"
  have q0: "tree_wf q0 \<and> paths_by point_append q0 \<and> t_full_path q0 = point_append (t_full_path t) key"
  proof (cases "find_child key t")
    case None
    then show ?thesis unfolding q0_def by (simp add: smap_wf_def) (simp add: point_append_def)
  next
    case (Some q)
    then have "q0 = q" by (simp add: q0_def)
    then show ?thesis using Some 3(5) find_child_wf [OF 3(5) Some] 3(6) [unfolded paths_by_child [of point_append t]] by blast
  qed
  have c: "tree_wf c" using 3(4) by simp
  have m: "paths_by point_append (Merge ow c q0)" using 3(1) [folded q0_def] c q0 by blast
  have "paths_by point_append (put_child key (Merge ow c q0) t)"
    using put_paths_by [OF 3(5,6) _ m] q0 by simp
  moreover have "tree_wf (put_child key (Merge ow c q0) t)"
    using 3(5) merge_correct(1) [OF c] q0 by simp
  ultimately show ?case using 3(2) [folded q0_def, OF refl] 3(3,4) by (simp add: smap_wf_Cons flip: q0_def)
qed simp

lemma foldl_point_append: "foldl point_append b q = b @ concat (map (Cons (CHR ''.'')) q)"
  by (induction q arbitrary: b) (auto simp: point_append_def)

section \<open>What the class promises\<close>

text \<open>
  \<open>CreateOrSet\<close> creates the nodes of the path that are missing, as far as the path is valid, gives the
  value to the last node if it created it, and changes no other value; it returns the node exactly for
  a valid path. In particular the value of a node that already exists stays, whatever \<open>Set\<close> is given.
\<close>

theorem tree_create_or_set:
  assumes "tree_wf t"
  shows "case CreateOrSet path v t of (t', res) \<Rightarrow>
    tree_wf t' \<and>
    res = (if path \<noteq> [] \<and> path_valid (c_str path) then Some (path_keys (c_str path)) else None) \<and>
    (\<forall>q. value_at t' q = or_else (value_at t q) (if path = [] then None else added (c_str path) v q))"
  using assms create_or_set_correct [OF assms, of "c_str path" v] by (simp add: CreateOrSet_def)

lemma tree_create_or_set_witness:
  "value_at (TreeSet ''a.b'' ''7'' new_tree) [''a'', ''b''] = Some ''7'' \<and>
   value_at (TreeSet ''a.b'' ''8'' (TreeSet ''a.b'' ''7'' new_tree)) [''a'', ''b''] = Some ''7'' \<and>
   value_at (TreeSet ''a..b'' ''7'' new_tree) [''a''] = Some []"
proof -
  have p: "path_keys (c_str ''a.b'') = [''a'', ''b'']" "path_valid (c_str ''a.b'')"
    "path_keys (c_str ''a..b'') = [''a'']" "\<not> path_valid (c_str ''a..b'')" by code_simp+
  have one: "tree_wf (TreeSet ''a.b'' ''7'' new_tree)"
    "value_at (TreeSet ''a.b'' ''7'' new_tree) [''a'', ''b''] = Some ''7''"
    using tree_create_or_set [OF new_tree_wf, of "''a.b''" "''7''"]
    by (auto simp: TreeSet_def p added_def split: prod.splits simp del: value_at_simps)
  moreover have "value_at (TreeSet ''a..b'' ''7'' new_tree) [''a''] = Some []"
    using tree_create_or_set [OF new_tree_wf, of "''a..b''" "''7''"]
    by (auto simp: TreeSet_def p added_def split: prod.splits simp del: value_at_simps)
  ultimately show ?thesis
    using tree_create_or_set [OF one(1), of "''a.b''" "''8''"]
    by (auto simp: TreeSet_def split: prod.splits simp del: value_at_simps)
qed

text \<open>
  \<open>Find\<close> and with it \<open>Has\<close> and the constant \<open>Get\<close> see exactly the node the keys of a valid path lead to;
  after \<open>Get\<close> of a tree that may change, a valid path is found, and an invalid one throws.
\<close>

theorem tree_find:
  "Find path t = (if path \<noteq> [] \<and> path_valid (c_str path) then subtree t (path_keys (c_str path)) else None) \<and>
   (tree_wf t \<longrightarrow> (case TreeGet path t of
      (Inl e, t') \<Rightarrow> Find path t' = None
    | (Inr node, t') \<Rightarrow> TreeHas path t' \<and> subtree t' node = Find path t'))"
proof -
  let ?cp = "c_str path"
  have find: "Find path t = (if path \<noteq> [] \<and> path_valid ?cp then subtree t (path_keys ?cp) else None)" for t
    using find_loop_correct [of ?cp t] by (simp add: Find_def)
  obtain t' res where c: "CreateOrSet path [] t = (t', res)" by fastforce
  have "case TreeGet path t of
      (Inl e, t') \<Rightarrow> Find path t' = None
    | (Inr node, t') \<Rightarrow> TreeHas path t' \<and> subtree t' node = Find path t'" if wf: "tree_wf t"
  proof (cases "path \<noteq> [] \<and> path_valid ?cp")
    case True
    with create_or_set_correct [OF wf, of ?cp "[]"] c
    have res: "res = Some (path_keys ?cp)"
      and val: "value_at t' (path_keys ?cp) = or_else (value_at t (path_keys ?cp)) (added ?cp [] (path_keys ?cp))"
      by (auto simp: CreateOrSet_def)
    have "path_keys ?cp \<noteq> []" using True by (cases ?cp) (auto simp: path_keys_def path_valid_def)
    then have "value_at t' (path_keys ?cp) \<noteq> None" unfolding val by (auto simp: added_def or_else_def split: option.splits)
    then show ?thesis using True c res by (simp add: TreeGet_def find TreeHas_def value_at_def)
  next
    case False
    with create_or_set_correct [OF wf, of ?cp "[]"] c have "res = None" by (auto simp: CreateOrSet_def split: if_splits)
    with False c show ?thesis by (auto simp: TreeGet_def find)
  qed
  with find show ?thesis by blast
qed

lemma tree_find_witness:
  "Find ''a.b'' new_tree = None \<and> TreeHas ''a.b'' (snd (TreeGet ''a.b'' new_tree)) \<and> TreeGet ''a..b'' new_tree \<noteq> TreeGet ''a.b'' new_tree"
proof -
  have p: "path_keys (c_str ''a.b'') = [''a'', ''b'']" "path_valid (c_str ''a.b'')" by code_simp+
  have g: "TreeGet ''a.b'' new_tree = (Inr [''a'', ''b''], snd (TreeGet ''a.b'' new_tree))"
    "fst (TreeGet ''a..b'' new_tree) = Inl Tree_runtime_error" by code_simp+
  have "TreeHas ''a.b'' (snd (TreeGet ''a.b'' new_tree))"
    using tree_find [of "''a.b''" new_tree] by (subst (asm) g(1)) simp
  moreover have "Find ''a.b'' new_tree = None" by code_simp
  ultimately show ?thesis using g by (metis fst_conv sum.distinct(1))
qed

text \<open>
  C8. \<open>Merge\<close> is the union of the two maps, in favour of the other tree or of this one; a copy stands for the
  same map as the original, and so does a tree after an assignment.
\<close>

theorem tree_merge_is_union:
  assumes "tree_wf other" "tree_wf t"
  shows "value_at (Merge True other t) q = or_else (value_at other q) (value_at t q) \<and>
    value_at (Merge False other t) q = or_else (value_at t q) (value_at other q) \<and>
    value_at (copy_tree other) q = value_at other q \<and> value_at (assign_tree other t) q = value_at other q"
  using merge_correct(1) [OF assms, of True] merge_correct(1) [OF assms, of False]
    copy_correct [OF assms(1)] assign_correct [OF assms(1)]
  by (simp add: merged_def)

lemma tree_merge_is_union_witness:
  "value_at (Merge True (TreeSet ''a'' ''1'' new_tree) (TreeSet ''a.b'' ''2'' new_tree)) [''a''] = Some ''1'' \<and>
   value_at (Merge False (TreeSet ''a'' ''1'' new_tree) (TreeSet ''a.b'' ''2'' new_tree)) [''a''] = Some []"
proof -
  have wf: "tree_wf (TreeSet p v new_tree)" for p v
    using create_or_set_correct [OF new_tree_wf, of "c_str p" v] by (auto simp: TreeSet_def CreateOrSet_def split: prod.splits)
  have "value_at (TreeSet ''a'' ''1'' new_tree) [''a''] = Some ''1''"
    "value_at (TreeSet ''a.b'' ''2'' new_tree) [''a''] = Some []" by code_simp+
  then show ?thesis using tree_merge_is_union [OF wf wf, of "''a''" "''1''" "''a.b''" "''2''" "[''a'']"] by simp
qed

text \<open>
  The nodes created by \<open>Set\<close> and \<open>Get\<close> carry the path that leads to them; the nodes of a copy carry it with
  a point in front.
\<close>

theorem tree_full_paths:
  assumes "tree_wf t"
  shows "(paths_known t \<longrightarrow> paths_known (TreeSet path v t) \<and> paths_known (snd (TreeGet path t))) \<and>
    (\<forall>q s. subtree (copy_tree t) q = Some s \<longrightarrow> t_full_path s = concat (map (Cons (CHR ''.'')) q))"
proof -
  have "paths_by point_append (copy_tree t)"
    using merge_paths(1) [OF assms new_tree_wf, of True] by (simp add: copy_tree_def new_tree_def)
  moreover have "t_full_path (copy_tree t) = []" by (simp add: copy_tree_def new_tree_def)
  moreover have "snd (TreeGet path t) = fst (CreateOrSet path [] t)" by (simp add: TreeGet_def split: prod.splits option.splits)
  ultimately show ?thesis
    using create_paths_known [OF assms, of "c_str path" v] create_paths_known [OF assms, of "c_str path" "[]"]
    by (auto simp: paths_by_def [of point_append] foldl_point_append TreeSet_def CreateOrSet_def)
qed

lemma tree_full_paths_witness:
  "paths_known (TreeSet ''a.b'' ''7'' new_tree) \<and>
   (\<exists>s. subtree (copy_tree (TreeSet ''a.b'' ''7'' new_tree)) [''a'', ''b''] = Some s \<and> t_full_path s = ''.a.b'')"
proof -
  let ?t = "TreeSet ''a.b'' ''7'' new_tree"
  have wf: "tree_wf ?t"
    using create_or_set_correct [OF new_tree_wf, of "c_str ''a.b''" "''7''"] by (auto simp: TreeSet_def CreateOrSet_def split: prod.splits)
  have "value_at (copy_tree ?t) [''a'', ''b''] = Some ''7''" by code_simp
  then obtain s where "subtree (copy_tree ?t) [''a'', ''b''] = Some s" unfolding value_at_def by blast
  then show ?thesis
    using tree_full_paths [OF wf] tree_full_paths [OF new_tree_wf, of "''a.b''" "''7''"]
    by (auto simp: new_tree_def simp del: subtree.simps)
qed

end
