(* ===== verification/Async_Router.thy ===== *)
theory Async_Router
  imports Object_Map_Correct Pools
begin

text \<open>
  \<open>flinter/linkage/async_router.h\<close>: calls in progress over a set of connections. It is built on an
  \<open>ObjectMap\<close>, which owns one \<open>context_t\<close> per host and hands them out in turn, and a \<open>TimeoutPool\<close>,
  which owns a \<open>Track\<close> per call. \<open>C obj\<close> is what the \<open>context_t\<close> at the address \<open>obj\<close> holds, its key
  and channel. Deleting a \<open>Track\<close> that is not done is a timeout: \<open>settle\<close> runs it for the values the
  pool deleted. The calls of the user's \<open>RouteHandler\<close> and what becomes of the tasks are recorded.
\<close>

section \<open>State and operations\<close>

type_synonym task = nat

record 's track =
  tr_seq :: 's
  tr_task :: task
  tr_context :: obj

record ('k, 's) router =
  ar_map :: "'k omap"
  ar_timeout :: "'s tpool"
  ar_tracks :: "ptr \<Rightarrow> 's track option"
  ar_clearing :: bool
  ar_timed_out :: "('s \<times> task) list"
  ar_freed_tasks :: "task list"

definition new_router :: "int \<Rightarrow> ('k, 's) router" where
  "new_router default_timeout = \<lparr>ar_map = new_omap,
     ar_timeout = new_tpool (if default_timeout > 0 then default_timeout else 5000000000) True,
     ar_tracks = (\<lambda>_. None), ar_clearing = False, ar_timed_out = [], ar_freed_tasks = []\<rparr>"

text \<open>\<open>OnTimeout\<close>, from the destructor of a track.\<close>

definition ArOnTimeout :: "(obj \<Rightarrow> 'k \<times> u64) \<Rightarrow> ptr \<Rightarrow> ('k::linorder, 's) router \<Rightarrow> ('k, 's) router" where
  "ArOnTimeout C p r =
    (case ar_tracks r p of
       None \<Rightarrow> r
     | Some t \<Rightarrow>
         if ar_clearing r then r
         else r\<lparr>ar_timed_out := ar_timed_out r @ [(tr_seq t, tr_task t)],
                ar_map := Release (fst (C (tr_context t))) (tr_context t) (ar_map r),
                ar_freed_tasks := ar_freed_tasks r @ [tr_task t]\<rparr>)"

definition settle :: "(obj \<Rightarrow> 'k \<times> u64) \<Rightarrow> 's tpool \<Rightarrow> ('k::linorder, 's) router \<Rightarrow> ('k, 's) router" where
  "settle C pool r =
    fold (ArOnTimeout C) (drop (length (tp_deleted (ar_timeout r))) (tp_deleted pool)) (r\<lparr>ar_timeout := pool\<rparr>)"

text \<open>\<open>Get\<close>: \<open>track\<close> is the address of the new \<open>Track\<close>; the result is the channel, if there is a host.\<close>

definition ArGet ::
  "(obj \<Rightarrow> 'k \<times> u64) \<Rightarrow> 's::linorder \<Rightarrow> task \<Rightarrow> int \<Rightarrow> int \<Rightarrow> ptr \<Rightarrow> ('k::linorder, 's) router
    \<Rightarrow> u64 option \<times> ('k, 's) router" where
  "ArGet C seq task timeout now track r =
    (case GetNext (ar_map r) of
       (None, m) \<Rightarrow> (None, r\<lparr>ar_map := m\<rparr>)
     | (Some (k, c), m) \<Rightarrow>
         let r1 = r\<lparr>ar_map := m, ar_tracks := (ar_tracks r)(track \<mapsto> \<lparr>tr_seq = seq, tr_task = task, tr_context = c\<rparr>)\<rparr>
         in (Some (snd (C c)), settle C (TpInsert seq track timeout now (ar_timeout r1)) r1))"

text \<open>\<open>Put\<close>: the task of the call, given back to the caller, if the call is still in progress.\<close>

definition ArPut ::
  "(obj \<Rightarrow> 'k \<times> u64) \<Rightarrow> 's::linorder \<Rightarrow> ('k::linorder, 's) router \<Rightarrow> task option \<times> ('k, 's) router" where
  "ArPut C seq r =
    (case TpErase seq (ar_timeout r) of
       (p, pool) \<Rightarrow>
         let r1 = r\<lparr>ar_timeout := pool\<rparr> in
         if p = 0 then (None, r1)
         else case ar_tracks r1 p of
           None \<Rightarrow> (None, r1)
         | Some t \<Rightarrow>
             (Some (tr_task t),
              r1\<lparr>ar_map := Release (fst (C (tr_context t))) (tr_context t) (ar_map r1)\<rparr>))"

definition ArCleanup :: "(obj \<Rightarrow> 'k \<times> u64) \<Rightarrow> int \<Rightarrow> ('k::linorder, 's::linorder) router \<Rightarrow> ('k, 's) router" where
  "ArCleanup C now r = settle C (TpCheck now (ar_timeout r)) r"

definition ArShutdown :: "(obj \<Rightarrow> 'k \<times> u64) \<Rightarrow> ('k::linorder, 's::linorder) router \<Rightarrow> ('k, 's) router" where
  "ArShutdown C r = (let r1 = settle C (TpClear (ar_timeout r)) r in r1\<lparr>ar_map := EraseAll (ar_map r1)\<rparr>)"

definition ArClear :: "(obj \<Rightarrow> 'k \<times> u64) \<Rightarrow> ('k::linorder, 's::linorder) router \<Rightarrow> ('k, 's) router" where
  "ArClear C r =
    (let r1 = r\<lparr>ar_clearing := True\<rparr>;
         r2 = settle C (TpClear (ar_timeout r1)) r1
     in r2\<lparr>ar_map := ClearAll (ar_map r2), ar_clearing := False\<rparr>)"

text \<open>\<open>Add\<close>, \<open>Del\<close> and \<open>SetAll\<close>; \<open>create\<close> is what \<open>CreateConnection\<close> gives, 0 when the handler refuses.\<close>

definition ArAdd :: "obj \<Rightarrow> 'k::linorder \<Rightarrow> ('k, 's) router \<Rightarrow> ('k, 's) router" where
  "ArAdd create host r =
    (case Add create host (ar_map r) of
       (c, m) \<Rightarrow> if c = 0 then r\<lparr>ar_map := m\<rparr> else r\<lparr>ar_map := Release host c m\<rparr>)"

definition ArDel :: "'k::linorder \<Rightarrow> ('k, 's) router \<Rightarrow> ('k, 's) router" where
  "ArDel host r = r\<lparr>ar_map := DoErase host (ar_map r)\<rparr>"

definition ArSetAll :: "('k::linorder \<Rightarrow> obj) \<Rightarrow> 'k list \<Rightarrow> ('k, 's) router \<Rightarrow> ('k, 's) router" where
  "ArSetAll create hosts r = r\<lparr>ar_map := SetAll create hosts (ar_map r)\<rparr>"

section \<open>Keys of contexts\<close>

definition keyed :: "(obj \<Rightarrow> 'k \<times> u64) \<Rightarrow> 'k omap \<Rightarrow> bool" where
  "keyed C m \<longleftrightarrow> (\<forall>e \<in> set (om_map m). fst (C (fst (snd e))) = fst e)"

lemma keyed_put:
  "keyed C m \<Longrightarrow> smap_find (om_map m) k = Some (obj, n) \<Longrightarrow> keyed C (m\<lparr>om_map := smap_put k (obj, n') (om_map m)\<rparr>)"
  using set_smap_put_sub [of k "(obj, n')" "om_map m"] by (fastforce simp: keyed_def dest: smap_find_in)

lemma keyed_map: "keyed C m \<Longrightarrow> set (om_map m') \<subseteq> set (om_map m) \<Longrightarrow> keyed C m'"
  by (auto simp: keyed_def)

lemma keyed_find: "keyed C m \<Longrightarrow> smap_find (om_map m) k = Some (obj, n) \<Longrightarrow> fst (C obj) = k"
  unfolding keyed_def by (drule smap_find_in) (drule bspec, assumption, simp)

lemma keyed_GetNext:
  assumes "keyed C m" "smap_wf (om_map m)" "GetNext m = (r, m')"
  shows "keyed C m' \<and> (case r of None \<Rightarrow> True | Some (k, obj) \<Rightarrow> fst (C obj) = k)"
proof (cases "next_ptr m")
  case None
  with assms show ?thesis by (auto simp: GetNext_def)
next
  case (Some e)
  obtain k obj n where e: "e = (k, obj, n)" by (cases e)
  have f: "smap_find (om_map m) k = Some (obj, n)" using next_ptr_find [OF assms(2)] Some e by blast
  have "om_map m' = smap_put k (obj, n + 1) (om_map m)" "r = Some (k, obj)"
    using assms(3) Some e by (auto simp: GetNext_def)
  with keyed_put [OF assms(1) f, of "n + 1"] keyed_find [OF assms(1) f] show ?thesis by (simp add: keyed_def)
qed

lemma keyed_Release: "keyed C m \<Longrightarrow> keyed C (Release k obj m)"
  using keyed_put [of C m k obj] by (auto simp: Release_def keyed_def split: option.splits prod.splits)

lemma keyed_DoAdd:
  assumes "keyed C m" "create \<noteq> 0 \<Longrightarrow> fst (C create) = k"
  shows "keyed C (snd (DoAdd create k n m))"
proof (cases "smap_find (om_map m) k")
  case None
  have "keyed C (m\<lparr>om_map := smap_put k (create, n) (om_map m)\<rparr>)" if "create \<noteq> 0"
    unfolding keyed_def
  proof
    fix e assume "e \<in> set (om_map (m\<lparr>om_map := smap_put k (create, n) (om_map m)\<rparr>))"
    then have "e = (k, create, n) \<or> e \<in> set (om_map m)" using set_smap_put_sub [of k "(create, n)" "om_map m"] by auto
    then show "fst (C (fst (snd e))) = fst e" using assms(1) assms(2) [OF that] by (auto simp: keyed_def)
  qed
  with None assms(1) show ?thesis by (simp add: DoAdd_def smap_insert_def keyed_def)
next
  case (Some v)
  then show ?thesis using keyed_put [OF assms(1), of k "fst v" "snd v"] by (cases v) (simp add: DoAdd_def)
qed

lemma keyed_DoErase: "keyed C m \<Longrightarrow> keyed C (DoErase k m)"
  by (auto simp: DoErase_def Let_def keyed_def smap_erase_def split: option.splits prod.splits)

lemma keyed_SetAll:
  assumes "keyed C m" "\<forall>k \<in> set keys. create k \<noteq> 0 \<longrightarrow> fst (C (create k)) = k"
  shows "keyed C (SetAll create keys m)"
proof -
  have add: "keyed C (fold (\<lambda>k s. if smap_find (om_map s) k = None then snd (DoAdd (create k) k 0 s) else s) ks m)"
    if "set ks \<subseteq> set keys" "keyed C m" for ks m
    using that assms(2) by (induction ks arbitrary: m) (auto intro!: keyed_DoAdd)
  have "keyed C (fold DoErase ks m)" if "keyed C m" for ks m
    using that by (induction ks arbitrary: m) (auto intro: keyed_DoErase)
  then show ?thesis using add [of keys m] assms(1) by (simp add: SetAll_def Let_def)
qed


section \<open>Invariant\<close>

text \<open>What the track at an address refers to, and the references of the calls in progress.\<close>

definition track_ref :: "(obj \<Rightarrow> 'k \<times> u64) \<Rightarrow> ('k, 's) router \<Rightarrow> ptr \<Rightarrow> 'k \<times> obj" where
  "track_ref C r p = (let c = tr_context (the (ar_tracks r p)) in (fst (C c), c))"

definition track_call :: "('k, 's) router \<Rightarrow> ptr \<Rightarrow> 's \<times> task" where
  "track_call r p = (let t = the (ar_tracks r p) in (tr_seq t, tr_task t))"

definition pending_refs :: "(obj \<Rightarrow> 'k \<times> u64) \<Rightarrow> ('k, 's) router \<Rightarrow> 'k refs" where
  "pending_refs C r = image_mset (track_ref C r) (tp_values (ar_timeout r))"

definition pending_calls :: "('k, 's) router \<Rightarrow> ('s \<times> task) multiset" where
  "pending_calls r = image_mset (track_call r) (tp_values (ar_timeout r))"

definition ar_inv :: "(obj \<Rightarrow> 'k \<times> u64) \<Rightarrow> ('k::linorder, 's::linorder) router \<Rightarrow> bool" where
  "ar_inv C r \<longleftrightarrow> smap_wf (tp_pool (ar_timeout r)) \<and> tp_auto_release (ar_timeout r) \<and> \<not> ar_clearing r \<and>
    (\<forall>(k, e) \<in> set (tp_pool (ar_timeout r)). tv_v e \<noteq> 0 \<and> (\<exists>t. ar_tracks r (tv_v e) = Some t \<and> tr_seq t = k)) \<and>
    keyed C (ar_map r) \<and> om_inv (ar_map r, pending_refs C r) \<and>
    ar_freed_tasks r = map snd (ar_timed_out r)"

lemma pooled_track:
  "ar_inv C r \<Longrightarrow> smap_find (tp_pool (ar_timeout r)) k = Some e \<Longrightarrow>
    tv_v e \<noteq> 0 \<and> (\<exists>t. ar_tracks r (tv_v e) = Some t \<and> tr_seq t = k)"
  unfolding ar_inv_def by (drule smap_find_in) fast

lemma ar_inv_new: "ar_inv C (new_router d)"
  using om_inv_new
  by (auto simp: ar_inv_def new_router_def new_tpool_def keyed_def pending_refs_def tp_values_def new_omap_def)

text \<open>The timeouts of a list of tracks give back the references they hold.\<close>

lemma on_timeouts:
  assumes "\<forall>p \<in> set vs. ar_tracks r p \<noteq> None" "\<not> ar_clearing r" "keyed C (ar_map r)"
    and "om_inv (ar_map r, image_mset (track_ref C r) (mset vs) + R)" "r' = fold (ArOnTimeout C) vs r"
  shows "om_inv (ar_map r', R) \<and> keyed C (ar_map r') \<and> ar_tracks r' = ar_tracks r \<and> ar_timeout r' = ar_timeout r \<and>
    \<not> ar_clearing r' \<and> ar_timed_out r' = ar_timed_out r @ map (track_call r) vs \<and>
    ar_freed_tasks r' = ar_freed_tasks r @ map (snd \<circ> track_call r) vs"
  using assms
proof (induction vs arbitrary: r)
  case Nil
  then show ?case by simp
next
  case (Cons p vs)
  obtain t where t: "ar_tracks r p = Some t" using Cons.prems(1) by auto
  define c where "c = tr_context t"
  define r1 where "r1 = ArOnTimeout C p r"
  have r1: "r1 = r\<lparr>ar_timed_out := ar_timed_out r @ [track_call r p], ar_map := Release (fst (C c)) c (ar_map r),
      ar_freed_tasks := ar_freed_tasks r @ [snd (track_call r p)]\<rparr>"
    using t Cons.prems(2) by (simp add: r1_def c_def ArOnTimeout_def track_call_def)
  have same: "track_ref C r1 = track_ref C r" "track_call r1 = track_call r"
    by (simp_all add: fun_eq_iff track_ref_def track_call_def r1)
  have ref: "track_ref C r p = (fst (C c), c)" using t by (simp add: track_ref_def c_def Let_def)
  have "om_inv (ar_map r, add_mset (fst (C c), c) (image_mset (track_ref C r) (mset vs) + R))"
    using Cons.prems(4) by (simp add: ref)
  from om_inv_Release [OF this, of "fst (C c)" c]
  have "om_inv (ar_map r1, image_mset (track_ref C r1) (mset vs) + R)" by (simp add: r1 same [unfolded r1])
  moreover have "keyed C (ar_map r1)" using keyed_Release [OF Cons.prems(3)] by (simp add: r1)
  moreover have "\<forall>p \<in> set vs. ar_tracks r1 p \<noteq> None" "\<not> ar_clearing r1"
    using Cons.prems(1,2) by (simp_all add: r1)
  moreover have "r' = fold (ArOnTimeout C) vs r1" using Cons.prems(5) by (simp add: r1_def)
  ultimately have "om_inv (ar_map r', R) \<and> keyed C (ar_map r') \<and> ar_tracks r' = ar_tracks r1 \<and>
      ar_timeout r' = ar_timeout r1 \<and> \<not> ar_clearing r' \<and> ar_timed_out r' = ar_timed_out r1 @ map (track_call r1) vs \<and>
      ar_freed_tasks r' = ar_freed_tasks r1 @ map (snd \<circ> track_call r1) vs"
    by (intro Cons.IH)
  then show ?case unfolding same by (simp add: r1)
qed


lemma settle_keeps:
  assumes pool: "smap_wf (tp_pool pool)" "tp_auto_release pool"
      "\<forall>(k, e) \<in> set (tp_pool pool). tv_v e \<noteq> 0 \<and> (\<exists>t. ar_tracks r (tv_v e) = Some t \<and> tr_seq t = k)"
    and deleted: "tp_deleted pool = tp_deleted (ar_timeout r) @ vs" "\<forall>p \<in> set vs. ar_tracks r p \<noteq> None"
    and r: "\<not> ar_clearing r" "keyed C (ar_map r)" "ar_freed_tasks r = map snd (ar_timed_out r)"
      "om_inv (ar_map r, image_mset (track_ref C r) (tp_values pool + mset vs))"
  shows "ar_inv C (settle C pool r) \<and> ar_timeout (settle C pool r) = pool \<and> ar_tracks (settle C pool r) = ar_tracks r \<and>
    ar_timed_out (settle C pool r) = ar_timed_out r @ map (track_call r) vs"
proof -
  define r1 where "r1 = r\<lparr>ar_timeout := pool\<rparr>"
  define r' where "r' = fold (ArOnTimeout C) vs r1"
  have settle: "settle C pool r = r'" by (simp add: settle_def deleted(1) r1_def r'_def)
  have same: "track_ref C r1 = track_ref C r" "track_call r1 = track_call r"
    by (simp_all add: fun_eq_iff track_ref_def track_call_def r1_def)
  have "om_inv (ar_map r1, image_mset (track_ref C r1) (mset vs) + image_mset (track_ref C r1) (tp_values pool))"
    using r(4) unfolding same by (simp add: r1_def add.commute)
  moreover have "\<forall>p \<in> set vs. ar_tracks r1 p \<noteq> None" "\<not> ar_clearing r1" "keyed C (ar_map r1)"
    using deleted(2) r(1,2) by (simp_all add: r1_def)
  ultimately have "om_inv (ar_map r', image_mset (track_ref C r1) (tp_values pool)) \<and> keyed C (ar_map r') \<and>
      ar_tracks r' = ar_tracks r1 \<and> ar_timeout r' = ar_timeout r1 \<and> \<not> ar_clearing r' \<and>
      ar_timed_out r' = ar_timed_out r1 @ map (track_call r1) vs \<and>
      ar_freed_tasks r' = ar_freed_tasks r1 @ map (snd \<circ> track_call r1) vs"
    by (intro on_timeouts) (simp_all add: r'_def)
  note res = this [unfolded same]
  have "track_ref C r' = track_ref C r" using res by (simp add: fun_eq_iff track_ref_def r1_def)
  then have "pending_refs C r' = image_mset (track_ref C r) (tp_values pool)"
    using res by (simp add: pending_refs_def r1_def)
  with res pool r(3) show ?thesis unfolding settle by (simp add: ar_inv_def r1_def)
qed

lemma pending_cong:
  assumes "tp_values (ar_timeout r') = tp_values (ar_timeout r)" "\<forall>p \<in># tp_values (ar_timeout r). ar_tracks r' p = ar_tracks r p"
  shows "pending_refs C r' = pending_refs C r" "pending_calls r' = pending_calls r"
  unfolding pending_refs_def pending_calls_def assms(1)
  by (rule image_mset_cong, use assms(2) in \<open>simp add: track_ref_def track_call_def\<close>)+

lemma pooled_values: "p \<in># tp_values q \<longleftrightarrow> (\<exists>k e. (k, e) \<in> set (tp_pool q) \<and> p = tv_v e)"
  by (force simp: tp_values_def)

section \<open>Every operation keeps the invariant\<close>

lemma tp_insert_parts:
  assumes "smap_wf (tp_pool p)" "tp_auto_release p"
  shows "\<exists>vs. tp_deleted (TpInsert k v timeout now p) = tp_deleted p @ vs \<and>
      tp_values (TpInsert k v timeout now p) + mset vs = tp_values p + {#v#} \<and>
      set vs = (case smap_find (tp_pool p) k of None \<Rightarrow> {} | Some e \<Rightarrow> {tv_v e}) \<and>
      smap_wf (tp_pool (TpInsert k v timeout now p)) \<and> tp_auto_release (TpInsert k v timeout now p) \<and>
      smap_find (tp_pool (TpInsert k v timeout now p)) =
        (smap_find (tp_pool p))(k \<mapsto> \<lparr>tv_d = now + (if timeout > 0 then timeout else tp_default_timeout p), tv_v = v\<rparr>)"
proof -
  let ?vs = "case smap_find (tp_pool p) k of None \<Rightarrow> [] | Some e \<Rightarrow> [tv_v e]"
  have d: "tp_deleted (TpInsert k v timeout now p) = tp_deleted p @ ?vs"
    using assms by (auto simp: TpInsert_def Let_def split: option.splits)
  have f: "smap_find (tp_pool (TpInsert k v timeout now p)) =
      (smap_find (tp_pool p))(k \<mapsto> \<lparr>tv_d = now + (if timeout > 0 then timeout else tp_default_timeout p), tv_v = v\<rparr>)"
    using assms by (auto simp: TpInsert_def Let_def split: option.splits)
  note A = insert_account [OF assms, of k v timeout now]
  have "tp_values (TpInsert k v timeout now p) + mset ?vs = tp_values p + {#v#}" using A unfolding d by simp
  moreover have "set ?vs = (case smap_find (tp_pool p) k of None \<Rightarrow> {} | Some e \<Rightarrow> {tv_v e})" by (simp split: option.split)
  ultimately show ?thesis using A d f by (intro exI [of _ ?vs]) simp
qed


lemma size_pending: "size (pending_refs C r) = length (tp_pool (ar_timeout r))"
  by (simp add: pending_refs_def tp_values_def)

lemma ar_inv_Get:
  assumes inv: "ar_inv C r" and room: "length (tp_pool (ar_timeout r)) + 1 < 2 ^ 64"
    and fresh: "track \<noteq> 0" "track \<notin># tp_values (ar_timeout r)"
    and get: "ArGet C seq task timeout now track r = (Some ch, r')"
  shows "ar_inv C r' \<and>
    pending_calls r' + mset (ar_timed_out r') = pending_calls r + mset (ar_timed_out r) + {#(seq, task)#} \<and>
    smap_find (tp_pool (ar_timeout r')) seq =
      Some \<lparr>tv_d = now + (if timeout > 0 then timeout else tp_default_timeout (ar_timeout r)), tv_v = track\<rparr> \<and>
    (\<exists>c. ch = snd (C c) \<and> ar_tracks r' track = Some \<lparr>tr_seq = seq, tr_task = task, tr_context = c\<rparr>)"
proof -
  define pool where "pool = TpInsert seq track timeout now (ar_timeout r)"
  obtain k c m where next1: "GetNext (ar_map r) = (Some (k, c), m)"
    using get by (auto simp: ArGet_def split: prod.splits option.splits)
  define r1 where "r1 = r\<lparr>ar_map := m, ar_tracks := (ar_tracks r)(track \<mapsto> \<lparr>tr_seq = seq, tr_task = task, tr_context = c\<rparr>)\<rparr>"
  have r': "r' = settle C pool r1" and ch: "ch = snd (C c)"
    using get by (simp_all add: ArGet_def next1 Let_def r1_def pool_def)
  have wf: "smap_wf (tp_pool (ar_timeout r))" "tp_auto_release (ar_timeout r)" "smap_wf (om_map (ar_map r))"
    "keyed C (ar_map r)" "om_inv (ar_map r, pending_refs C r)"
    using inv om_invD(1) by (auto simp: ar_inv_def)
  have "keyed C m \<and> fst (C c) = k" using keyed_GetNext [OF wf(4,3) next1] by simp
  then have k: "keyed C m" "fst (C c) = k" by simp_all
  obtain vs where vs: "tp_deleted pool = tp_deleted (ar_timeout r) @ vs"
      "tp_values pool + mset vs = tp_values (ar_timeout r) + {#track#}"
      "set vs = (case smap_find (tp_pool (ar_timeout r)) seq of None \<Rightarrow> {} | Some e \<Rightarrow> {tv_v e})"
      "smap_wf (tp_pool pool)" "tp_auto_release pool"
      "smap_find (tp_pool pool) = (smap_find (tp_pool (ar_timeout r)))(seq \<mapsto>
         \<lparr>tv_d = now + (if timeout > 0 then timeout else tp_default_timeout (ar_timeout r)), tv_v = track\<rparr>)"
    using tp_insert_parts [OF wf(1,2), of seq track timeout now] unfolding pool_def by blast
  have old: "tv_v e \<noteq> 0 \<and> tv_v e \<noteq> track \<and> (\<exists>t. ar_tracks r (tv_v e) = Some t \<and> tr_seq t = k')"
    if "smap_find (tp_pool (ar_timeout r)) k' = Some e" for k' e
    using pooled_track [OF inv that] fresh(2) smap_find_in [OF that] by (auto simp: pooled_values)
  have same: "track_ref C r1 p = track_ref C r p" "track_call r1 p = track_call r p" if "p \<in># tp_values (ar_timeout r)" for p
    using that fresh(2) by (auto simp: track_ref_def track_call_def r1_def)
  have new: "track_ref C r1 track = (k, c)" "track_call r1 track = (seq, task)"
    using k by (simp_all add: track_ref_def track_call_def r1_def)
  have refs: "image_mset (track_ref C r1) (tp_values pool + mset vs) = add_mset (k, c) (pending_refs C r)"
    using same(1) unfolding vs(2) by (simp add: new pending_refs_def cong: image_mset_cong)
  have calls: "image_mset (track_call r1) (tp_values pool + mset vs) = add_mset (seq, task) (pending_calls r)"
    using same(2) unfolding vs(2) by (simp add: new pending_calls_def cong: image_mset_cong)
  have "\<forall>(k', e) \<in> set (tp_pool pool). tv_v e \<noteq> 0 \<and> (\<exists>t. ar_tracks r1 (tv_v e) = Some t \<and> tr_seq t = k')"
  proof (clarify, goal_cases)
    case (1 k' e)
    have "smap_find (tp_pool pool) k' = Some e" using in_smap_find [OF vs(4) 1] .
    then show ?case using old [of k' e] fresh(1) by (cases "k' = seq") (auto simp: vs(6) r1_def)
  qed
  moreover have "\<forall>p \<in> set vs. ar_tracks r1 p \<noteq> None"
    using old by (auto simp: vs(3) r1_def split: option.splits)
  moreover have "om_inv (ar_map r1, image_mset (track_ref C r1) (tp_values pool + mset vs))"
    using om_inv_GetNext [OF wf(5) _ next1] room unfolding refs by (simp add: size_pending r1_def)
  moreover have "tp_deleted pool = tp_deleted (ar_timeout r1) @ vs" using vs(1) by (simp add: r1_def)
  moreover have "\<not> ar_clearing r1" "keyed C (ar_map r1)" "ar_freed_tasks r1 = map snd (ar_timed_out r1)"
    using inv k(1) by (simp_all add: r1_def ar_inv_def)
  ultimately have S: "ar_inv C r' \<and> ar_timeout r' = pool \<and> ar_tracks r' = ar_tracks r1 \<and>
      ar_timed_out r' = ar_timed_out r1 @ map (track_call r1) vs"
    unfolding r' by (intro settle_keeps vs(4,5))
  have "track_call r' = track_call r1" using S by (simp add: fun_eq_iff track_call_def)
  then have "pending_calls r' + mset (ar_timed_out r') = image_mset (track_call r1) (tp_values pool + mset vs) + mset (ar_timed_out r)"
    using S by (simp add: pending_calls_def r1_def)
  then show ?thesis using S ch unfolding calls by (simp add: vs(6) r1_def)
qed

lemma ar_inv_Get_none:
  assumes "ar_inv C r" "ArGet C seq task timeout now track r = (None, r')"
  shows "r' = r"
proof -
  obtain x m where g: "GetNext (ar_map r) = (x, m)" by fastforce
  with assms(2) have "x = None" "r' = r\<lparr>ar_map := m\<rparr>" by (auto simp: ArGet_def Let_def split: option.splits prod.splits)
  moreover from this(1) g have "m = ar_map r" by (auto simp: GetNext_def split: option.splits prod.splits)
  ultimately show ?thesis by simp
qed


lemma ar_inv_Put:
  assumes inv: "ar_inv C r" and put: "ArPut C seq r = (res, r')"
  shows "ar_inv C r' \<and> ar_timed_out r' = ar_timed_out r \<and>
    smap_find (tp_pool (ar_timeout r')) = (smap_find (tp_pool (ar_timeout r)))(seq := None) \<and>
    (case smap_find (tp_pool (ar_timeout r)) seq of
       None \<Rightarrow> res = None \<and> pending_calls r' = pending_calls r
     | Some e \<Rightarrow> \<exists>t. ar_tracks r (tv_v e) = Some t \<and> res = Some (tr_task t) \<and>
         pending_calls r = add_mset (seq, tr_task t) (pending_calls r'))"
proof (cases "smap_find (tp_pool (ar_timeout r)) seq")
  case None
  then have "r' = r" "res = None" using put by (simp_all add: ArPut_def TpErase_def)
  with inv None show ?thesis by (simp add: fun_upd_idem)
next
  case (Some e)
  obtain t where t: "tv_v e \<noteq> 0" "ar_tracks r (tv_v e) = Some t" "tr_seq t = seq"
    using pooled_track [OF inv Some] by blast
  define c where "c = tr_context t"
  define pool where "pool = snd (TpErase seq (ar_timeout r))"
  have er: "TpErase seq (ar_timeout r) = (tv_v e, pool)" by (simp add: pool_def TpErase_def Some)
  have r': "res = Some (tr_task t)" "r' = r\<lparr>ar_timeout := pool, ar_map := Release (fst (C c)) c (ar_map r)\<rparr>"
    using put t by (simp_all add: ArPut_def er Let_def c_def)
  have wf: "smap_wf (tp_pool (ar_timeout r))" using inv by (simp add: ar_inv_def)
  have A: "smap_wf (tp_pool pool)" "tp_auto_release pool = tp_auto_release (ar_timeout r)"
    "tp_values (ar_timeout r) = add_mset (tv_v e) (tp_values pool)"
    using erase_account [OF wf er] Some by simp_all
  have pool: "tp_pool pool = smap_erase seq (tp_pool (ar_timeout r))" by (simp add: pool_def TpErase_def Some)
  have same: "track_ref C r' = track_ref C r" "track_call r' = track_call r"
    by (simp_all add: fun_eq_iff track_ref_def track_call_def r')
  have refs: "pending_refs C r' = pending_refs C r - {#(fst (C c), c)#}" "(fst (C c), c) \<in># pending_refs C r"
    using t unfolding pending_refs_def A(3) same by (simp_all add: r' track_ref_def Let_def c_def)
  have calls: "pending_calls r = add_mset (seq, tr_task t) (pending_calls r')"
    using t unfolding pending_calls_def A(3) same by (simp add: r' track_call_def Let_def)
  have om: "om_inv (ar_map r, pending_refs C r)" "keyed C (ar_map r)" using inv by (simp_all add: ar_inv_def)
  have "om_inv (ar_map r', pending_refs C r')" using om_inv_Release [OF om(1) refs(2)] unfolding refs(1) by (simp add: r')
  moreover have "keyed C (ar_map r')" using keyed_Release [OF om(2)] by (simp add: r')
  moreover have "\<forall>(k, e) \<in> set (tp_pool pool). tv_v e \<noteq> 0 \<and> (\<exists>t. ar_tracks r (tv_v e) = Some t \<and> tr_seq t = k)"
    using inv unfolding pool smap_erase_def ar_inv_def by auto
  ultimately have "ar_inv C r'" using inv A(1,2) by (simp add: ar_inv_def r')
  then show ?thesis using t calls by (simp add: Some r' pool)
qed

text \<open>\<open>Check\<close> and \<open>Clear\<close> of the pool: the entries that leave it time out, in the order of the pool.\<close>

lemma ar_inv_expire:
  assumes inv: "ar_inv C r"
    and pool: "tp_pool pool = filter P (tp_pool (ar_timeout r))" "tp_auto_release pool"
      "tp_deleted pool = tp_deleted (ar_timeout r) @ map (tv_v \<circ> snd) gone"
    and gone: "gone = filter (\<lambda>x. \<not> P x) (tp_pool (ar_timeout r))"
    and r': "r' = settle C pool r"
  shows "ar_inv C r' \<and> ar_timeout r' = pool \<and>
    pending_calls r' + mset (ar_timed_out r') = pending_calls r + mset (ar_timed_out r) \<and>
    ar_timed_out r' = ar_timed_out r @ map (track_call r \<circ> tv_v \<circ> snd) gone"
proof -
  let ?vs = "map (tv_v \<circ> snd) gone"
  have vs: "tp_values pool + mset ?vs = tp_values (ar_timeout r)"
    unfolding tp_values_def pool(1) gone mset_map image_mset_union [symmetric] mset_filter
    by (simp add: multiset_partition [symmetric])
  have "smap_wf (tp_pool pool)"
    using inv unfolding pool(1) by (simp add: ar_inv_def smap_wf_def sorted_wrt_filter sorted_wrt_map)
  moreover have "\<forall>(k, e) \<in> set (tp_pool pool). tv_v e \<noteq> 0 \<and> (\<exists>t. ar_tracks r (tv_v e) = Some t \<and> tr_seq t = k)"
    using inv unfolding pool(1) ar_inv_def by auto
  moreover have "\<forall>p \<in> set ?vs. ar_tracks r p \<noteq> None" using inv unfolding gone ar_inv_def by fastforce
  moreover have "om_inv (ar_map r, image_mset (track_ref C r) (tp_values pool + mset ?vs))"
    using inv unfolding vs by (simp add: ar_inv_def pending_refs_def)
  moreover have "\<not> ar_clearing r" "keyed C (ar_map r)" "ar_freed_tasks r = map snd (ar_timed_out r)"
    using inv by (simp_all add: ar_inv_def)
  ultimately have S: "ar_inv C r' \<and> ar_timeout r' = pool \<and> ar_tracks r' = ar_tracks r \<and>
      ar_timed_out r' = ar_timed_out r @ map (track_call r) ?vs"
    unfolding r' by (intro settle_keeps pool(2,3))
  have "track_call r' = track_call r" using S by (simp add: fun_eq_iff track_call_def)
  then have "pending_calls r' + mset (ar_timed_out r') =
      image_mset (track_call r) (tp_values pool + mset ?vs) + mset (ar_timed_out r)"
    using S by (simp add: pending_calls_def image_mset.compositionality o_assoc)
  then show ?thesis using S unfolding vs by (simp add: pending_calls_def o_assoc)
qed

lemma ar_inv_Cleanup:
  assumes inv: "ar_inv C r" and r': "r' = ArCleanup C now r"
  shows "ar_inv C r' \<and> pending_calls r' + mset (ar_timed_out r') = pending_calls r + mset (ar_timed_out r) \<and>
    tp_pool (ar_timeout r') = filter (\<lambda>(k, e). now < tv_d e) (tp_pool (ar_timeout r)) \<and>
    ar_timed_out r' = ar_timed_out r @ map (track_call r \<circ> tv_v \<circ> snd) (filter (\<lambda>(k, e). tv_d e \<le> now) (tp_pool (ar_timeout r)))"
proof -
  let ?pool = "TpCheck now (ar_timeout r)" and ?gone = "filter (\<lambda>(k, e). tv_d e \<le> now) (tp_pool (ar_timeout r))"
  have wf: "smap_wf (tp_pool (ar_timeout r))" "tp_auto_release (ar_timeout r)" using inv by (simp_all add: ar_inv_def)
  have p: "tp_pool ?pool = filter (\<lambda>(k, e). now < tv_d e) (tp_pool (ar_timeout r))" by (rule check_pool [OF wf(1)])
  have d: "tp_auto_release ?pool" "tp_deleted ?pool = tp_deleted (ar_timeout r) @ map (tv_v \<circ> snd) ?gone"
    using wf by (auto simp: TpCheck_def Let_def)
  have g: "?gone = filter (\<lambda>x. \<not> (case x of (k, e) \<Rightarrow> now < tv_d e)) (tp_pool (ar_timeout r))"
    by (rule filter_cong) auto
  have r2: "r' = settle C ?pool r" by (simp add: r' ArCleanup_def)
  note E = ar_inv_expire [OF inv p d g r2]
  then have "ar_timeout r' = ?pool" by blast
  then have "tp_pool (ar_timeout r') = filter (\<lambda>(k, e). now < tv_d e) (tp_pool (ar_timeout r))" by (simp only: p)
  with E show ?thesis by blast
qed


lemma ar_inv_map:
  assumes "ar_inv C r" "om_inv (m, pending_refs C r)" "keyed C m" "r' = r\<lparr>ar_map := m\<rparr>"
  shows "ar_inv C r' \<and> pending_calls r' = pending_calls r \<and> ar_timed_out r' = ar_timed_out r"
proof -
  have "track_ref C r' = track_ref C r" "track_call r' = track_call r"
    using assms(4) by (simp_all add: fun_eq_iff track_ref_def track_call_def)
  then have "pending_refs C r' = pending_refs C r" "pending_calls r' = pending_calls r"
    using assms(4) by (simp_all add: pending_refs_def pending_calls_def)
  with assms show ?thesis by (simp add: ar_inv_def)
qed

lemma ar_inv_Shutdown:
  assumes inv: "ar_inv C r" and r': "r' = ArShutdown C r"
  shows "ar_inv C r' \<and> pending_calls r' + mset (ar_timed_out r') = pending_calls r + mset (ar_timed_out r) \<and>
    tp_pool (ar_timeout r') = []"
proof -
  let ?pool = "TpClear (ar_timeout r)" and ?gone = "tp_pool (ar_timeout r)"
  define r1 where "r1 = settle C ?pool r"
  have "tp_auto_release (ar_timeout r)" using inv by (simp add: ar_inv_def)
  then have d: "tp_auto_release ?pool" "tp_deleted ?pool = tp_deleted (ar_timeout r) @ map (tv_v \<circ> snd) ?gone"
    by (auto simp: TpClear_def)
  have p: "tp_pool ?pool = filter (\<lambda>_. False) (tp_pool (ar_timeout r))" by (simp add: TpClear_def)
  have g: "?gone = filter (\<lambda>x. \<not> False) (tp_pool (ar_timeout r))" by simp
  note E = ar_inv_expire [OF inv p d g r1_def]
  have "keyed C (ar_map r1)" "om_inv (ar_map r1, pending_refs C r1)" using E by (simp_all add: ar_inv_def)
  then have k: "keyed C (EraseAll (ar_map r1))" "om_inv (EraseAll (ar_map r1), pending_refs C r1)"
    using om_inv_EraseAll by (simp_all add: keyed_def EraseAll_def)
  have r2: "r' = r1\<lparr>ar_map := EraseAll (ar_map r1)\<rparr>" by (simp add: r' ArShutdown_def Let_def r1_def)
  have "ar_inv C r1" using E by blast
  note M = ar_inv_map [OF this k(2,1) r2]
  have "tp_pool (ar_timeout r1) = []" using E by (simp add: TpClear_def)
  then have "tp_pool (ar_timeout r') = []" by (simp add: r2)
  moreover have "pending_calls r1 + mset (ar_timed_out r1) = pending_calls r + mset (ar_timed_out r)" using E by blast
  ultimately show ?thesis using M by simp
qed

lemma ar_inv_Add:
  assumes inv: "ar_inv C r" and room: "length (tp_pool (ar_timeout r)) + 1 < 2 ^ 64"
    and create: "create \<notin> set (om_created (ar_map r))" "create \<noteq> 0 \<Longrightarrow> fst (C create) = host"
    and r': "r' = ArAdd create host r"
  shows "ar_inv C r' \<and> pending_calls r' = pending_calls r \<and> ar_timed_out r' = ar_timed_out r"
proof -
  obtain c m where a: "Add create host (ar_map r) = (c, m)" by fastforce
  have om: "om_inv (ar_map r, pending_refs C r)" "keyed C (ar_map r)" using inv by (simp_all add: ar_inv_def)
  have "keyed C m" using keyed_DoAdd [OF om(2) create(2), of 1] a by (simp add: Add_def)
  have M: "om_inv (m, if smap_find (om_map (ar_map r)) host = None \<and> create = 0 then pending_refs C r
      else add_mset (host, c) (pending_refs C r))"
    using om_inv_Add [OF om(1) _ create(1) a] room by (simp add: size_pending)
  have zero: "smap_find (om_map (ar_map r)) host = None \<and> create = 0 \<longleftrightarrow> c = 0"
  proof (cases "smap_find (om_map (ar_map r)) host")
    case None
    with a show ?thesis by (auto simp: Add_def DoAdd_def split: if_splits)
  next
    case (Some v)
    then have "c = fst v" using a by (auto simp: Add_def DoAdd_def split: prod.splits)
    moreover have "fst v \<in> set (om_created (ar_map r))"
    proof -
      have "(host, v) \<in># ents (ar_map r)" using smap_find_in [OF Some] by (simp add: ents_def)
      then have "fst v \<in># image_mset (\<lambda>e. fst (snd e)) (ents (ar_map r))" by force
      then show ?thesis using accD(3) [OF om_invD(4) [OF om(1)]] by (metis set_mset_mset union_iff)
    qed
    moreover have "0 \<notin> set (om_created (ar_map r))" using accD(2) [OF om_invD(4) [OF om(1)]] .
    ultimately have "c \<noteq> 0" by metis
    with Some show ?thesis by simp
  qed
  show ?thesis
  proof (cases "c = 0")
    case True
    then have "r' = r\<lparr>ar_map := m\<rparr>" using a by (simp add: r' ArAdd_def)
    with M zero True show ?thesis using ar_inv_map [OF inv _ \<open>keyed C m\<close>] by simp
  next
    case False
    then have "r' = r\<lparr>ar_map := Release host c m\<rparr>" using a by (simp add: r' ArAdd_def)
    moreover have "om_inv (Release host c m, pending_refs C r)"
      using om_inv_Release [of m "add_mset (host, c) (pending_refs C r)" host c] M zero False by (auto split: if_splits)
    ultimately show ?thesis using ar_inv_map [OF inv _ keyed_Release [OF \<open>keyed C m\<close>]] by simp
  qed
qed


section \<open>Using a router\<close>

text \<open>
  Calls of the operations by any number of threads, with the calls accepted by \<open>Get\<close> and those given
  back by \<open>Put\<close>. The address of a new track is not that of a track in use, an address \<open>CreateConnection\<close>
  returns has not been returned before, and there are fewer than \<open>2^64\<close> calls in progress. \<open>Clear\<close> is left
  out: the header says it must not run together with the others.
\<close>

type_synonym ('k, 's) ar_state = "('k, 's) router \<times> ('s \<times> task) list \<times> ('s \<times> task) list"

inductive ar_step :: "(obj \<Rightarrow> 'k \<times> u64) \<Rightarrow> ('k::linorder, 's::linorder) ar_state \<Rightarrow> ('k, 's) ar_state \<Rightarrow> bool"
  for C where
  call_get: "length (tp_pool (ar_timeout r)) + 1 < 2 ^ 64 \<Longrightarrow> track \<noteq> 0 \<Longrightarrow> track \<notin># tp_values (ar_timeout r) \<Longrightarrow>
    ArGet C seq task timeout now track r = (ch, r') \<Longrightarrow>
    ar_step C (r, accepted, given) (r', if ch = None then accepted else accepted @ [(seq, task)], given)"
| call_put: "ArPut C seq r = (res, r') \<Longrightarrow>
    ar_step C (r, accepted, given) (r', accepted, case res of None \<Rightarrow> given | Some task \<Rightarrow> given @ [(seq, task)])"
| call_cleanup: "ar_step C (r, accepted, given) (ArCleanup C now r, accepted, given)"
| call_shutdown: "ar_step C (r, accepted, given) (ArShutdown C r, accepted, given)"
| call_add: "length (tp_pool (ar_timeout r)) + 1 < 2 ^ 64 \<Longrightarrow> create \<notin> set (om_created (ar_map r)) \<Longrightarrow>
    (create \<noteq> 0 \<Longrightarrow> fst (C create) = host) \<Longrightarrow>
    ar_step C (r, accepted, given) (ArAdd create host r, accepted, given)"
| call_del: "ar_step C (r, accepted, given) (ArDel host r, accepted, given)"
| call_set_all: "fresh_create create hosts (ar_map r) \<Longrightarrow>
    \<forall>k \<in> set hosts. create k \<noteq> 0 \<longrightarrow> fst (C (create k)) = k \<Longrightarrow>
    ar_step C (r, accepted, given) (ArSetAll create hosts r, accepted, given)"

definition ar_good :: "(obj \<Rightarrow> 'k \<times> u64) \<Rightarrow> ('k::linorder, 's::linorder) ar_state \<Rightarrow> bool" where
  "ar_good C s \<longleftrightarrow> (case s of (r, accepted, given) \<Rightarrow> ar_inv C r \<and>
    mset accepted = pending_calls r + mset given + mset (ar_timed_out r))"

lemma ar_step_keeps: "ar_step C s s' \<Longrightarrow> ar_good C s \<Longrightarrow> ar_good C s'"
proof (induction rule: ar_step.induct)
  case (call_get r track seq task timeout now ch r' accepted given)
  then have inv: "ar_inv C r" by (simp add: ar_good_def)
  show ?case
  proof (cases ch)
    case None
    with ar_inv_Get_none [OF inv] call_get(4) have "r' = r" by blast
    with call_get(5) None show ?thesis by simp
  next
    case (Some c)
    with ar_inv_Get [OF inv call_get(1,2,3)] call_get(4,5) show ?thesis
      by (fastforce simp: ar_good_def add.commute add.left_commute)
  qed
next
  case (call_put seq r res r' accepted given)
  then have inv: "ar_inv C r" by (simp add: ar_good_def)
  from ar_inv_Put [OF inv call_put(1)] call_put(2) show ?case
    by (auto simp: ar_good_def split: option.splits)
next
  case (call_cleanup r accepted given now)
  then have inv: "ar_inv C r" by (simp add: ar_good_def)
  have "pending_calls (ArCleanup C now r) + mset (ar_timed_out (ArCleanup C now r)) = pending_calls r + mset (ar_timed_out r)"
    "ar_inv C (ArCleanup C now r)" using ar_inv_Cleanup [OF inv refl] by blast+
  with call_cleanup show ?case by (simp add: ar_good_def union_ac)
next
  case (call_shutdown r accepted given)
  then have inv: "ar_inv C r" by (simp add: ar_good_def)
  have "pending_calls (ArShutdown C r) + mset (ar_timed_out (ArShutdown C r)) = pending_calls r + mset (ar_timed_out r)"
    "ar_inv C (ArShutdown C r)" using ar_inv_Shutdown [OF inv refl] by blast+
  with call_shutdown show ?case by (simp add: ar_good_def union_ac)
next
  case (call_add r create host accepted given)
  then have inv: "ar_inv C r" by (simp add: ar_good_def)
  from ar_inv_Add [OF inv call_add(1,2,3) refl] call_add(4) show ?case by (simp add: ar_good_def)
next
  case (call_del r accepted given host)
  then have inv: "ar_inv C r" by (simp add: ar_good_def)
  then have "om_inv (DoErase host (ar_map r), pending_refs C r)" "keyed C (DoErase host (ar_map r))"
    by (simp_all add: ar_inv_def om_inv_DoErase keyed_DoErase)
  from ar_inv_map [OF inv this refl] call_del show ?case by (simp add: ar_good_def ArDel_def)
next
  case (call_set_all create hosts r accepted given)
  then have inv: "ar_inv C r" by (simp add: ar_good_def)
  then have "om_inv (SetAll create hosts (ar_map r), pending_refs C r)" "keyed C (SetAll create hosts (ar_map r))"
    using call_set_all(1,2) by (simp_all add: ar_inv_def om_inv_SetAll keyed_SetAll)
  from ar_inv_map [OF inv this refl] call_set_all(3) show ?case by (simp add: ar_good_def ArSetAll_def)
qed

interpretation router_use: step_invariant "ar_step C" "ar_good C" for C
  by unfold_locales (rule ar_step_keeps)

lemma ar_good_new: "ar_good C (new_router d, [], [])"
  unfolding ar_good_def prod.case using ar_inv_new [of C d]
  by (simp add: pending_calls_def tp_values_def new_router_def new_tpool_def)

lemma router_run_good: "(ar_step C)\<^sup>*\<^sup>* (new_router d, [], []) s \<Longrightarrow> ar_good C s"
  by (erule router_use.steps_keep) (rule ar_good_new)

lemma ar_inv_acc:
  "ar_inv C r \<Longrightarrow> acc (ents (ar_map r)) (om_created (ar_map r)) (om_destroyed (ar_map r)) (pending_refs C r)"
  using om_invD(4) by (auto simp: ar_inv_def)

lemma tracks_fold: "ar_tracks (fold (ArOnTimeout C) vs r) = ar_tracks r"
  by (induction vs arbitrary: r) (simp_all add: ArOnTimeout_def split: option.split)

text \<open>A run: one host, one call.\<close>

definition demo_context :: "obj \<Rightarrow> nat \<times> u64" where
  "demo_context c = (7, of_nat c + 41)"

definition demo_host :: "(nat, nat) router" where
  "demo_host = ArAdd 1 7 (new_router 0)"

definition demo_called :: "(nat, nat) router" where
  "demo_called = snd (ArGet demo_context 5 60 0 100 11 demo_host)"

lemma demo_host_eq: "demo_host = \<lparr>ar_map = \<lparr>om_map = [(7, 1, 0)], om_drop = [], om_ptr = None, om_created = [1], om_destroyed = []\<rparr>,
    ar_timeout = \<lparr>tp_default_timeout = 5000000000, tp_auto_release = True, tp_pool = [], tp_deleted = []\<rparr>,
    ar_tracks = (\<lambda>_. None), ar_clearing = False, ar_timed_out = [], ar_freed_tasks = []\<rparr>"
  by (simp add: demo_host_def ArAdd_def new_router_def new_omap_def new_tpool_def Add_def DoAdd_def Release_def
      smap_insert_def smap_find_def smap_put_def)

lemma demo_get: "ArGet demo_context 5 60 0 100 11 demo_host = (Some 42, demo_called)"
  by (simp add: demo_called_def demo_host_eq ArGet_def GetNext_def next_ptr_def Let_def demo_context_def)

lemma demo_calls:
  "(ar_step demo_context)\<^sup>*\<^sup>* (new_router 0, [], []) (demo_host, [], [])"
  "(ar_step demo_context)\<^sup>*\<^sup>* (new_router 0, [], []) (demo_called, [(5, 60)], [])"
proof -
  have "ar_step demo_context (new_router 0, [], []) (demo_host, [], [])" unfolding demo_host_def
    by (rule call_add) (simp_all add: new_router_def new_tpool_def new_omap_def demo_context_def)
  then show 1: "(ar_step demo_context)\<^sup>*\<^sup>* (new_router 0, [], []) (demo_host, [], [])" by simp
  have "ar_step demo_context (demo_host, [], [])
      (demo_called, if (Some 42 :: u64 option) = None then [] else [] @ [(5, 60)], [])"
    by (rule call_get [OF _ _ _ demo_get]) (simp_all add: demo_host_eq tp_values_def)
  with 1 show "(ar_step demo_context)\<^sup>*\<^sup>* (new_router 0, [], []) (demo_called, [(5, 60)], [])" by simp
qed

text \<open>\<open>Clear\<close> drops the calls in progress: their tasks are neither reported nor freed.\<close>

lemma clearing_fold: "ar_clearing r \<Longrightarrow> fold (ArOnTimeout C) vs r = r"
  by (induction vs) (simp_all add: ArOnTimeout_def split: option.split)

lemma clear_drops_calls:
  "tp_pool (ar_timeout (ArClear C r)) = [] \<and> ar_timed_out (ArClear C r) = ar_timed_out r \<and>
    ar_freed_tasks (ArClear C r) = ar_freed_tasks r"
  by (simp add: ArClear_def settle_def Let_def TpClear_def clearing_fold)





text \<open>
  A call ends with its reply or its deadline: after \<open>Get\<close> accepted a call, \<open>Put\<close> of its number gives back
  its task, and only once; a \<open>Cleanup\<close> before the deadline changes neither, one at the deadline or later
  reports the call to the handler as timed out, and \<open>Put\<close> then finds nothing.
\<close>

theorem router_reply_or_timeout:
  assumes "(ar_step C)\<^sup>*\<^sup>* (new_router d, [], []) (r, accepted, given)"
    and "length (tp_pool (ar_timeout r)) + 1 < 2 ^ 64" "track \<noteq> 0" "track \<notin># tp_values (ar_timeout r)"
    and "ArGet C seq task timeout now track r = (Some ch, r1)"
    and "deadline = now + (if timeout > 0 then timeout else tp_default_timeout (ar_timeout r))"
  shows "fst (ArPut C seq r1) = Some task \<and> fst (ArPut C seq (snd (ArPut C seq r1))) = None \<and>
    (\<forall>now' < deadline. fst (ArPut C seq (ArCleanup C now' r1)) = Some task) \<and>
    (\<forall>now' \<ge> deadline. fst (ArPut C seq (ArCleanup C now' r1)) = None \<and>
      (seq, task) \<in> set (ar_timed_out (ArCleanup C now' r1)))"
proof -
  have "ar_inv C r" using router_run_good [OF assms(1)] by (simp add: ar_good_def)
  note G = ar_inv_Get [OF this assms(2-5)]
  have inv: "ar_inv C r1" and f: "smap_find (tp_pool (ar_timeout r1)) seq = Some \<lparr>tv_d = deadline, tv_v = track\<rparr>"
    using G assms(6) by simp_all
  obtain c where t: "ar_tracks r1 track = Some \<lparr>tr_seq = seq, tr_task = task, tr_context = c\<rparr>" using G by blast
  have wf: "smap_wf (tp_pool (ar_timeout r1))" using inv by (simp add: ar_inv_def)
  have 1: "fst (ArPut C seq r1) = Some task \<and> fst (ArPut C seq (snd (ArPut C seq r1))) = None"
    using ar_inv_Put [OF inv, of seq] f t by (cases "ArPut C seq r1") (auto simp: ArPut_def TpErase_def)
  have find: "smap_find (tp_pool (ar_timeout (ArCleanup C now' r1))) seq =
      (if now' < deadline then Some \<lparr>tv_d = deadline, tv_v = track\<rparr> else None)" for now'
    using ar_inv_Cleanup [OF inv refl, of now'] by (simp add: find_filter_wf [OF wf] f)
  have tracks: "ar_tracks (ArCleanup C now' r1) = ar_tracks r1" for now'
    by (simp add: ArCleanup_def settle_def tracks_fold)
  have "fst (ArPut C seq (ArCleanup C now' r1)) = (if now' < deadline then Some task else None)" for now'
    using find [of now'] tracks [of now'] t assms(3) by (simp add: ArPut_def TpErase_def Let_def)
  moreover have "(seq, task) \<in> set (ar_timed_out (ArCleanup C now' r1))" if "deadline \<le> now'" for now'
  proof -
    have "(seq, \<lparr>tv_d = deadline, tv_v = track\<rparr>) \<in> set (filter (\<lambda>(k, e). tv_d e \<le> now') (tp_pool (ar_timeout r1)))"
      using smap_find_in [OF f] that by simp
    then have "track_call r1 track \<in> (track_call r1 \<circ> tv_v \<circ> snd) ` set (filter (\<lambda>(k, e). tv_d e \<le> now') (tp_pool (ar_timeout r1)))"
      by (intro image_eqI [where x = "(seq, \<lparr>tv_d = deadline, tv_v = track\<rparr>)"]) simp_all
    moreover have "track_call r1 track = (seq, task)" using t by (simp add: track_call_def)
    moreover have "ar_timed_out (ArCleanup C now' r1) = ar_timed_out r1 @
        map (track_call r1 \<circ> tv_v \<circ> snd) (filter (\<lambda>(k, e). tv_d e \<le> now') (tp_pool (ar_timeout r1)))"
      using ar_inv_Cleanup [OF inv refl, of now'] by blast
    ultimately show ?thesis by (simp only: set_append set_map Un_iff) simp
  qed
  ultimately show ?thesis using 1 by simp
qed


lemma router_reply_or_timeout_witness:
  "fst (ArPut demo_context 5 demo_called) = Some 60 \<and>
    fst (ArPut demo_context 5 (ArCleanup demo_context 5000000100 demo_called)) = None"
proof -
  have "length (tp_pool (ar_timeout demo_host)) + 1 < 2 ^ 64" "(11 :: ptr) \<noteq> 0" "11 \<notin># tp_values (ar_timeout demo_host)"
    by (simp_all add: demo_host_eq tp_values_def)
  from router_reply_or_timeout [OF demo_calls(1) this demo_get refl] show ?thesis
    by (auto simp: demo_host_eq)
qed

end
