(* ===== verification/Utility.thy ===== *)
theory Utility
  imports Flinter_Prelude
begin

text \<open>
  The portable functions of \<open>flinter/utility.c\<close>: \<open>atoi32\<close>, \<open>ranged_rand\<close> (and \<open>ranged_rand_r\<close>, the same
  text with a seed), and \<open>make_clean_path\<close>. A C string is the list of its characters without the
  terminator. \<open>make_clean_path\<close> works on two buffers of a fixed size with bare pointers; a write past
  the end of a buffer is the outcome \<open>Overrun\<close>.
\<close>

unbundle bit_operations_syntax

section \<open>atoi32\<close>

text \<open>\<open>strtol(3)\<close> in base 10: value, rest of the string, and whether it set \<open>errno\<close> to \<open>ERANGE\<close>.\<close>

definition is_space :: "char \<Rightarrow> bool" where
  "is_space c \<longleftrightarrow> c \<in> {CHR '' '', CHR 0x09, CHR 0x0A, CHR 0x0B, CHR 0x0C, CHR 0x0D}"

definition strtol :: "string \<Rightarrow> int \<times> string \<times> bool" where
  "strtol s =
    (let p = dropWhile is_space s;
         neg = (p \<noteq> [] \<and> hd p = CHR ''-'');
         q = (if p \<noteq> [] \<and> hd p \<in> {CHR ''-'', CHR ''+''} then tl p else p);
         ds = takeWhile is_digit q;
         v = (if neg then - int (digits_value ds) else int (digits_value ds))
     in if ds = [] then (0, s, False)
        else if v > 2 ^ 63 - 1 then (2 ^ 63 - 1, dropWhile is_digit q, True)
        else if v < - (2 ^ 63) then (- (2 ^ 63), dropWhile is_digit q, True)
        else (v, dropWhile is_digit q, False))"

text \<open>\<open>erange\<close>: whether \<open>errno\<close> is \<open>ERANGE\<close> from an earlier call.\<close>

definition atoi32 :: "bool \<Rightarrow> string option \<Rightarrow> int" where
  "atoi32 erange val =
    (case val of
       None \<Rightarrow> -1
     | Some s \<Rightarrow>
         if s = [] then -1
         else case strtol s of (i, end, set_erange) \<Rightarrow>
           if end \<noteq> [] \<or> (i = 2 ^ 63 - 1 \<and> (erange \<or> set_erange)) \<or> i > 2 ^ 31 - 1 \<or> i < 0 then -1 else i)"

section \<open>ranged_rand\<close>

text \<open>\<open>rnd\<close> is \<open>rand()\<close>, a function on its hidden state; the loop may draw forever.\<close>

partial_function (option) draw_until :: "('s \<Rightarrow> int \<times> 's) \<Rightarrow> int \<Rightarrow> 's \<Rightarrow> (int \<times> 's) option" where
  "draw_until rnd bad s = (case rnd s of (r, s') \<Rightarrow> if r > bad then draw_until rnd bad s' else Some (r, s'))"

definition ranged_rand :: "int \<Rightarrow> ('s \<Rightarrow> int \<times> 's) \<Rightarrow> int \<Rightarrow> 's \<Rightarrow> (int \<times> 's) option" where
  "ranged_rand rand_max rnd limit s =
    (if limit < 0 \<or> limit > rand_max then Some (-1, s)
     else if limit = 0 then Some (0, s)
     else if limit = rand_max then Some (rnd s)
     else let n = limit + 1 in
       if n AND - n = n then Some (case rnd s of (r, s') \<Rightarrow> (r mod n, s'))
       else map_option (\<lambda>(r, s'). (r mod n, s')) (draw_until rnd (rand_max - rand_max mod n) s))"

section \<open>make_clean_path\<close>

datatype cleaned = Cleaned string | Failed | Overrun

definition is_blank :: "char \<Rightarrow> bool" where
  "is_blank c \<longleftrightarrow> c = CHR '' '' \<or> c = CHR 0x09"

text \<open>Stage 1.3: \<open>r\<close> is what has been written so far.\<close>

fun squeeze :: "string \<Rightarrow> string \<Rightarrow> string" where
  "squeeze r [] = r"
| "squeeze r (c # p) =
    (if c = CHR ''/'' \<or> c = CHR 0x5C
     then (if r = [] \<or> last r \<noteq> CHR ''/'' then squeeze (r @ [CHR ''/'']) p else squeeze r p)
     else squeeze (r @ [c]) p)"

definition make_clean_path_stage_one :: "string \<Rightarrow> bool \<Rightarrow> string" where
  "make_clean_path_stage_one path trim =
    (let p = (if trim then dropWhile is_blank path else path);
         r = squeeze [] p;
         r = (if trim then rev (dropWhile is_blank (rev r)) else r);
         r = (if r = [] then [CHR ''.''] else r)
     in if last r \<noteq> CHR ''/'' then r @ [CHR ''/''] else r)"

text \<open>The start of the last token of \<open>r\<close>, which ends with a slash.\<close>

definition rewind :: "string \<Rightarrow> string \<times> string" where
  "rewind r =
    (let t = rev (takeWhile (\<lambda>c. c \<noteq> CHR ''/'') (tl (rev r)))
     in (take (length r - 1 - length t) r, t @ [last r]))"

definition put_chars :: "nat \<Rightarrow> string \<Rightarrow> string \<Rightarrow> string option" where
  "put_chars cap r cs = (if length r + length cs \<le> cap then Some (r @ cs) else None)"

text \<open>A token \<open>..\<close>.\<close>

definition go_up :: "nat \<Rightarrow> string \<Rightarrow> string option" where
  "go_up cap r =
    (if r = [] then put_chars cap r ''../''
     else case rewind r of (s, t) \<Rightarrow>
       if s = [] \<and> hd t = CHR ''/'' then Some r
       else if s = [] \<and> hd t \<noteq> CHR ''.'' then Some s
       else if t = ''../'' then put_chars cap r ''../''
       else Some s)"

text \<open>
  The loop of stage two over the rest \<open>p\<close> of the stage. A token that begins with a dot and is
  neither \<open>.\<close> nor \<open>..\<close> is copied without moving \<open>p\<close>, so the loop goes on behind its first character.
\<close>

function stage_two_loop :: "nat \<Rightarrow> string \<Rightarrow> string \<Rightarrow> string option" where
  "stage_two_loop cap r p =
    (if p = [] then Some r
     else if CHR ''/'' \<notin> set p then None
     else let t = takeWhile (\<lambda>c. c \<noteq> CHR ''/'') p in
       if t = ''..'' then Option.bind (go_up cap r) (\<lambda>r. stage_two_loop cap r (drop 3 p))
       else if t = ''.'' then stage_two_loop cap r (drop 2 p)
       else if t \<noteq> [] \<and> hd t = CHR ''.''
         then Option.bind (put_chars cap r (t @ ''/'')) (\<lambda>r. stage_two_loop cap r (drop 1 p))
       else Option.bind (put_chars cap r (t @ ''/'')) (\<lambda>r. stage_two_loop cap r (drop (length t + 1) p)))"
  by auto
termination by (relation "measure (\<lambda>(cap, r, p). length p)") auto

declare stage_two_loop.simps [simp del]

definition make_clean_path_stage_two :: "string \<Rightarrow> string option" where
  "make_clean_path_stage_two stage =
    (let cap = length stage + 2 + 1;
         start = (if hd stage = CHR ''/'' then (''/'', tl stage) else ([], stage))
     in Option.bind (stage_two_loop cap (fst start) (snd start)) (\<lambda>r.
        Option.bind (if r = [] then put_chars cap r ''.'' else Some r) (\<lambda>r.
        let r = (if last r = CHR ''/'' \<and> length r \<noteq> 1 then butlast r else r)
        in if length r + 1 \<le> cap then Some r else None)))"

text \<open>\<open>mem1\<close> and \<open>mem2\<close>: whether the two allocations succeed.\<close>

definition make_clean_path :: "bool \<Rightarrow> bool \<Rightarrow> string option \<Rightarrow> bool \<Rightarrow> cleaned" where
  "make_clean_path mem1 mem2 path trim =
    (case path of
       None \<Rightarrow> Failed
     | Some p \<Rightarrow>
         if \<not> mem1 \<or> \<not> mem2 then Failed
         else case make_clean_path_stage_two (make_clean_path_stage_one p trim) of
           None \<Rightarrow> Overrun
         | Some r \<Rightarrow> Cleaned r)"


section \<open>What a clean path is\<close>

definition is_slash :: "char \<Rightarrow> bool" where
  "is_slash c \<longleftrightarrow> c = CHR ''/'' \<or> c = CHR 0x5C"

text \<open>The components of a path: what is between slashes, unless it is empty.\<close>

fun components :: "string \<Rightarrow> string \<Rightarrow> string list" where
  "components cur [] = (if cur = [] then [] else [cur])"
| "components cur (c # s) =
    (if is_slash c then (if cur = [] then [] else [cur]) @ components [] s else components (cur @ [c]) s)"

definition parts :: "string \<Rightarrow> string list" where
  "parts s = components [] s"

text \<open>A component taken onto the path that leads to it.\<close>

definition walk :: "bool \<Rightarrow> string list \<Rightarrow> string \<Rightarrow> string list" where
  "walk absolute st t =
    (if t = ''.'' then st
     else if t = ''..''
       then (if st = [] then (if absolute then [] else [''..'']) else if last st = ''..'' then st @ [''..''] else butlast st)
     else st @ [t])"

definition catenate :: "string list \<Rightarrow> string" where
  "catenate ts = concat (map (\<lambda>t. t @ ''/'') ts)"

definition render :: "bool \<Rightarrow> string list \<Rightarrow> string" where
  "render absolute st =
    (if absolute then ''/'' @ butlast (catenate st) else if st = [] then ''.'' else butlast (catenate st))"

definition trimmed :: "bool \<Rightarrow> string \<Rightarrow> string" where
  "trimmed trim s = (if trim then rev (dropWhile is_blank (rev (dropWhile is_blank s))) else s)"

definition absolute :: "string \<Rightarrow> bool" where
  "absolute s \<longleftrightarrow> s \<noteq> [] \<and> is_slash (hd s)"

definition hidden :: "string \<Rightarrow> bool" where
  "hidden t \<longleftrightarrow> t \<noteq> [] \<and> hd t = CHR ''.'' \<and> t \<noteq> ''.'' \<and> t \<noteq> ''..''"

definition clean_path :: "bool \<Rightarrow> string \<Rightarrow> string" where
  "clean_path trim path =
    (let s = trimmed trim path in render (absolute s) (foldl (walk (absolute s)) [] (parts s)))"

section \<open>Stage one\<close>

lemma components_slash:
  "is_slash c \<Longrightarrow> components cur (x @ c # y) = components cur x @ components [] y"
  by (induction cur x rule: components.induct) auto

lemma parts_slash: "is_slash c \<Longrightarrow> parts (x @ c # y) = parts x @ parts y"
  by (simp add: parts_def components_slash)

lemma parts_snoc_slash: "is_slash c \<Longrightarrow> parts (x @ [c]) = parts x"
  using parts_slash [of c x "[]"] by (simp add: parts_def)

lemma parts_squeeze: "parts (squeeze r p) = parts (r @ p)"
proof (induction r p rule: squeeze.induct)
  case (1 r)
  then show ?case by simp
next
  case (2 r c p)
  show ?case
  proof (cases "is_slash c")
    case False
    then show ?thesis using 2 by (simp add: is_slash_def)
  next
    case True
    have slash: "is_slash (CHR ''/'')" by (simp add: is_slash_def)
    show ?thesis
    proof (cases "r = [] \<or> last r \<noteq> CHR ''/''")
      case True
      with \<open>is_slash c\<close> 2 have "parts (squeeze r (c # p)) = parts (r @ CHR ''/'' # p)" by (auto simp: is_slash_def)
      then show ?thesis using parts_slash [OF slash] parts_slash [OF \<open>is_slash c\<close>] by metis
    next
      case False
      then obtain r0 where r0: "r = r0 @ [CHR ''/'']" by (metis append_butlast_last_id)
      have "parts (squeeze r (c # p)) = parts (r @ p)" using 2 False \<open>is_slash c\<close> by (auto simp: is_slash_def)
      also have "\<dots> = parts r0 @ parts p" using parts_slash [OF slash, of r0 p] by (simp add: r0)
      also have "parts r0 = parts r" using parts_snoc_slash [OF slash, of r0] by (simp add: r0)
      finally show ?thesis using parts_slash [OF \<open>is_slash c\<close>, of r p] by simp
    qed
  qed
qed

text \<open>A squeezed string has no backslash and no two slashes in a row.\<close>

fun squeezed :: "string \<Rightarrow> bool" where
  "squeezed [] \<longleftrightarrow> True"
| "squeezed (c # s) \<longleftrightarrow> c \<noteq> CHR 0x5C \<and> (c = CHR ''/'' \<longrightarrow> s = [] \<or> hd s \<noteq> CHR ''/'') \<and> squeezed s"

lemma squeezed_snoc:
  "squeezed (r @ [c]) \<longleftrightarrow> squeezed r \<and> c \<noteq> CHR 0x5C \<and> (c = CHR ''/'' \<longrightarrow> r = [] \<or> last r \<noteq> CHR ''/'')"
  by (induction r) (auto simp: hd_append)

lemma squeezed_append: "squeezed (a @ b) \<Longrightarrow> squeezed a \<and> squeezed b"
  by (induction a) (auto simp: hd_append split: if_splits)

lemma squeezed_squeeze: "squeezed r \<Longrightarrow> squeezed (squeeze r p)"
  by (induction r p rule: squeeze.induct) (auto simp: squeezed_snoc)

lemma squeeze_append: "squeeze r (p @ q) = squeeze (squeeze r p) q"
  by (induction r p rule: squeeze.induct) auto

lemma squeeze_plain: "\<forall>c \<in> set p. \<not> is_slash c \<Longrightarrow> squeeze r p = r @ p"
  by (induction p arbitrary: r) (auto simp: is_slash_def)

lemma squeeze_hd: "squeeze r p \<noteq> [] \<longleftrightarrow> r \<noteq> [] \<or> p \<noteq> []"
  "r \<noteq> [] \<Longrightarrow> hd (squeeze r p) = hd r"
  by (induction r p rule: squeeze.induct) auto

lemma absolute_squeeze: "absolute (squeeze [] p) \<longleftrightarrow> absolute p"
proof (cases p)
  case (Cons c q)
  then have "squeeze [] p = squeeze [if is_slash c then CHR ''/'' else c] q" by (simp add: is_slash_def)
  then show ?thesis using Cons squeeze_hd [of "[if is_slash c then CHR ''/'' else c]" q]
    by (auto simp: absolute_def is_slash_def)
qed (simp add: absolute_def)

lemma last_squeeze:
  "p \<noteq> [] \<Longrightarrow> last (squeeze r p) = (if is_slash (last p) then CHR ''/'' else last p)"
proof (induction p arbitrary: r rule: rev_induct)
  case (snoc c p)
  then show ?case by (auto simp: squeeze_append is_slash_def)
qed simp

lemma blank_not_slash: "is_blank c \<Longrightarrow> \<not> is_slash c"
  by (auto simp: is_blank_def is_slash_def)

lemma trim_squeeze:
  "rev (dropWhile is_blank (rev (squeeze [] p))) = squeeze [] (rev (dropWhile is_blank (rev p)))"
proof -
  let ?q = "rev (dropWhile is_blank (rev p))" and ?b = "rev (takeWhile is_blank (rev p))"
  have p: "p = ?q @ ?b" by (metis rev_append rev_rev_ident takeWhile_dropWhile_id)
  have b: "\<forall>c \<in> set ?b. is_blank c" by (auto dest: set_takeWhileD)
  then have plain: "\<forall>c \<in> set ?b. \<not> is_slash c" using blank_not_slash by blast
  have "squeeze [] p = squeeze (squeeze [] ?q) ?b" by (subst p) (rule squeeze_append)
  then have sq: "squeeze [] p = squeeze [] ?q @ ?b" using squeeze_plain [OF plain] by (rule trans)
  have stop: "squeeze [] ?q = [] \<or> \<not> is_blank (last (squeeze [] ?q))"
  proof (cases "?q = []")
    case False
    then have ne: "dropWhile is_blank (rev p) \<noteq> []" by simp
    then have "last ?q = hd (dropWhile is_blank (rev p))" by (simp add: last_rev)
    with hd_dropWhile [OF ne] have "\<not> is_blank (last ?q)" by simp
    with last_squeeze [OF False, of "[]"] show ?thesis by (simp add: is_blank_def)
  next
    case True
    then have "squeeze [] ?q = []" by (simp only: squeeze.simps)
    then show ?thesis by (rule disjI1)
  qed
  have "dropWhile is_blank (rev (squeeze [] p)) = dropWhile is_blank (rev ?b @ rev (squeeze [] ?q))" by (simp only: sq rev_append)
  also have "\<dots> = dropWhile is_blank (rev (squeeze [] ?q))" using b by (subst dropWhile_append2) auto
  also have "\<dots> = rev (squeeze [] ?q)"
    using stop by (cases "squeeze [] ?q" rule: rev_cases) auto
  finally show ?thesis by simp
qed

lemma stage_one:
  fixes path trim
  defines "s \<equiv> make_clean_path_stage_one path trim" and "q \<equiv> trimmed trim path"
  shows "s \<noteq> [] \<and> last s = CHR ''/'' \<and> squeezed s \<and> absolute s = absolute q \<and>
    parts s = (if q = [] then [''.''] else parts q)"
proof -
  define r where "r = squeeze [] q"
  have s: "s = (let r = (if r = [] then ''.'' else r) in if last r \<noteq> CHR ''/'' then r @ ''/'' else r)"
    unfolding s_def q_def r_def trimmed_def make_clean_path_stage_one_def Let_def by (simp add: trim_squeeze)
  have slash: "is_slash (CHR ''/'')" by (simp add: is_slash_def)
  have r: "squeezed r" "parts r = parts q" "absolute r = absolute q" "r = [] \<longleftrightarrow> q = []"
    using squeezed_squeeze [of "[]" q] parts_squeeze [of "[]" q] absolute_squeeze [of q] squeeze_hd(1) [of "[]" q]
    by (simp_all add: r_def)
  show ?thesis
  proof (cases "r = []")
    case True
    then have "s = ''./''" by (simp add: s)
    with True r show ?thesis by (simp add: absolute_def is_slash_def parts_def)
  next
    case False
    have q: "q \<noteq> []" using r(4) False by simp
    show ?thesis
    proof (cases "last r = CHR ''/''")
      case True
      with False have "s = r" by (simp add: s)
      with True False r q show ?thesis by simp
    next
      case last: False
      with False have s2: "s = r @ ''/''" by (simp add: s)
      have "squeezed s" using r(1) last by (simp add: s2 squeezed_snoc)
      moreover have "parts s = parts r" unfolding s2 by (rule parts_snoc_slash [OF slash])
      moreover have "absolute s = absolute r" using False by (simp add: s2 absolute_def)
      ultimately show ?thesis using r q by (simp add: s2)
    qed
  qed
qed


section \<open>Stage two\<close>

lemma components_token:
  "\<forall>c \<in> set t. \<not> is_slash c \<Longrightarrow> components cur (t @ s) = components (cur @ t) s"
  by (induction t arbitrary: cur) auto

lemma parts_token:
  assumes "\<forall>c \<in> set t. \<not> is_slash c" "t \<noteq> []"
  shows "parts (t @ CHR ''/'' # s) = t # parts s"
  using assms components_token [OF assms(1), of "[]" "CHR ''/'' # s"] by (simp add: parts_def is_slash_def)

text \<open>A stage is its leading slash, if any, and its components, each with a slash behind it.\<close>

lemma stage_tokens:
  "squeezed s \<Longrightarrow> s \<noteq> [] \<Longrightarrow> last s = CHR ''/'' \<Longrightarrow> hd s \<noteq> CHR ''/'' \<Longrightarrow>
    s = catenate (parts s) \<and> (\<forall>t \<in> set (parts s). t \<noteq> [] \<and> (\<forall>c \<in> set t. \<not> is_slash c))"
proof (induction "length s" arbitrary: s rule: less_induct)
  case less
  define t where "t = takeWhile (\<lambda>c. c \<noteq> CHR ''/'') s"
  have mem: "CHR ''/'' \<in> set s" using less.prems(2,3) last_in_set by metis
  then have ne: "dropWhile (\<lambda>c. c \<noteq> CHR ''/'') s \<noteq> []" by simp
  then obtain u where u: "dropWhile (\<lambda>c. c \<noteq> CHR ''/'') s = CHR ''/'' # u"
    using hd_dropWhile [OF ne] by (cases "dropWhile (\<lambda>c. c \<noteq> CHR ''/'') s") auto
  have s: "s = t @ CHR ''/'' # u" using u by (metis t_def takeWhile_dropWhile_id)
  have t: "t \<noteq> []" using less.prems(4) s by (cases t) auto
  have sq: "squeezed t" "squeezed (CHR ''/'' # u)" using squeezed_append [of t "CHR ''/'' # u"] less.prems(1) s by simp_all
  have "CHR 0x5C \<notin> set t" using sq(1) by (induction t rule: squeezed.induct) auto
  moreover have "CHR ''/'' \<notin> set t" unfolding t_def by (auto dest: set_takeWhileD)
  ultimately have plain: "\<forall>c \<in> set t. \<not> is_slash c" unfolding is_slash_def by metis
  have parts: "parts s = t # parts u" unfolding s by (rule parts_token [OF plain t])
  show ?case
  proof (cases "u = []")
    case True
    with parts s t plain show ?thesis by (simp add: parts_def catenate_def)
  next
    case False
    have "squeezed u" "hd u \<noteq> CHR ''/''" using sq(2) False by simp_all
    moreover have "last u = CHR ''/''" using less.prems(3) s False by simp
    ultimately have "u = catenate (parts u) \<and> (\<forall>t \<in> set (parts u). t \<noteq> [] \<and> (\<forall>c \<in> set t. \<not> is_slash c))"
      using less.hyps [of u] s False by simp
    then show ?thesis unfolding parts using s t plain by (simp add: catenate_def)
  qed
qed

definition lead :: "bool \<Rightarrow> string" where
  "lead ab = (if ab then ''/'' else [])"

text \<open>The path walked so far, as a list of components: no empty ones, none with a slash.\<close>

definition walked :: "bool \<Rightarrow> string list \<Rightarrow> bool" where
  "walked ab st \<longleftrightarrow> (\<forall>t \<in> set st. t \<noteq> [] \<and> CHR ''/'' \<notin> set t \<and> \<not> hidden t \<and> t \<noteq> ''.'') \<and> (ab \<longrightarrow> ''..'' \<notin> set st)"

lemma catenate_snoc: "catenate (st @ [t]) = catenate st @ t @ ''/''"
  by (simp add: catenate_def)

lemma rewind_snoc:
  assumes "CHR ''/'' \<notin> set t" "pre = [] \<or> last pre = CHR ''/''"
  shows "rewind (pre @ t @ ''/'') = (pre, t @ ''/'')"
proof -
  have "takeWhile (\<lambda>c. c \<noteq> CHR ''/'') (rev t @ rev pre) = rev t"
    using assms by (cases pre rule: rev_cases) (auto simp: takeWhile_tail)
  then show ?thesis by (simp add: rewind_def)
qed

lemma catenate_last: "st \<noteq> [] \<Longrightarrow> last (catenate st) = CHR ''/'' \<and> catenate st \<noteq> []"
  by (cases st rule: rev_cases) (auto simp: catenate_def)

lemma go_up_name:
  "r \<noteq> [] \<Longrightarrow> rewind r = (s, t) \<Longrightarrow> hd t \<noteq> CHR ''/'' \<Longrightarrow> (hd t = CHR ''.'' \<longleftrightarrow> t = ''../'') \<Longrightarrow>
    go_up cap r = (if t = ''../'' then put_chars cap r ''../'' else Some s)"
  by (auto simp: go_up_def)

lemma go_up_walk:
  assumes "walked ab st" "length (lead ab @ catenate st) + 3 \<le> cap"
  shows "go_up cap (lead ab @ catenate st) = Some (lead ab @ catenate (walk ab st ''..''))"
proof (cases st rule: rev_cases)
  case Nil
  have "rewind ''/'' = ([], ''/'')" by (simp add: rewind_def)
  with Nil assms(2) show ?thesis
    by (simp add: go_up_def catenate_def lead_def walk_def put_chars_def)
next
  case (snoc st' t)
  have t: "t \<noteq> []" "CHR ''/'' \<notin> set t" "\<not> hidden t" "t \<noteq> ''.''" "ab \<Longrightarrow> t \<noteq> ''..''"
    using assms(1) unfolding snoc walked_def by auto
  have pre: "lead ab @ catenate st' = [] \<or> last (lead ab @ catenate st') = CHR ''/''"
    using catenate_last [of st'] by (cases "st' = []") (auto simp: lead_def catenate_def)
  have rw: "rewind (lead ab @ catenate st) = (lead ab @ catenate st', t @ ''/'')"
    using rewind_snoc [OF t(2) pre] by (simp add: snoc catenate_snoc)
  have hd: "hd (t @ ''/'') = hd t" "hd t \<noteq> CHR ''/''" using t(1,2) by (auto simp: hd_append) (metis hd_in_set)
  have dots: "hd t = CHR ''.'' \<longleftrightarrow> t = ''..''" using t(1,3,4) by (auto simp: hidden_def)
  have nonempty: "lead ab @ catenate st \<noteq> []" using snoc t(1) by (simp add: catenate_snoc)
  have up: "t @ ''/'' = ''../'' \<longleftrightarrow> t = ''..''" by auto
  have "hd (t @ ''/'') \<noteq> CHR ''/''" "hd (t @ ''/'') = CHR ''.'' \<longleftrightarrow> t @ ''/'' = ''../''"
    using hd dots up by simp_all
  note go = go_up_name [OF nonempty rw this]
  show ?thesis
  proof (cases "t = ''..''")
    case True
    with t(5) have "\<not> ab" by blast
    with True assms(2) go show ?thesis
      by (simp add: put_chars_def walk_def snoc catenate_def lead_def)
  next
    case False
    with go up show ?thesis by (simp add: walk_def snoc)
  qed
qed

lemma walked_walk:
  assumes "walked ab st" "t \<noteq> []" "CHR ''/'' \<notin> set t" "\<not> hidden t"
  shows "walked ab (walk ab st t)"
proof -
  have "walked ab (butlast st)" using assms(1) by (auto simp: walked_def dest: in_set_butlastD)
  moreover have "last st = ''..'' \<Longrightarrow> st \<noteq> [] \<Longrightarrow> \<not> ab" using assms(1) last_in_set [of st] by (auto simp: walked_def)
  ultimately show ?thesis using assms by (auto simp: walk_def walked_def hidden_def)
qed


lemma walk_length: "length (catenate (walk ab st t)) \<le> length (catenate st) + length t + 1"
  by (cases st rule: rev_cases) (auto simp: walk_def catenate_def)

lemma stage_two_loop_walk:
  assumes "\<forall>t \<in> set ts. t \<noteq> [] \<and> CHR ''/'' \<notin> set t \<and> \<not> hidden t" "walked ab st"
    and "length (lead ab @ catenate st) + length (catenate ts) \<le> cap"
  shows "stage_two_loop cap (lead ab @ catenate st) (catenate ts) = Some (lead ab @ catenate (foldl (walk ab) st ts)) \<and>
    walked ab (foldl (walk ab) st ts) \<and> length (lead ab @ catenate (foldl (walk ab) st ts)) \<le> cap"
  using assms
proof (induction ts arbitrary: st)
  case Nil
  then show ?case by (simp add: stage_two_loop.simps catenate_def)
next
  case (Cons t ts)
  have t: "t \<noteq> []" "CHR ''/'' \<notin> set t" "\<not> hidden t" using Cons.prems(1) by simp_all
  have p: "catenate (t # ts) = t @ CHR ''/'' # catenate ts" by (simp add: catenate_def)
  have tok: "takeWhile (\<lambda>c. c \<noteq> CHR ''/'') (t @ CHR ''/'' # catenate ts) = t"
    using t(2) by (auto simp: takeWhile_tail)
  have len: "length (lead ab @ catenate st) + length t + 1 + length (catenate ts) \<le> cap"
    using Cons.prems(3) unfolding p by simp
  have walked: "walked ab (walk ab st t)" by (rule walked_walk [OF Cons.prems(2) t])
  have "length (lead ab @ catenate (walk ab st t)) + length (catenate ts) \<le> cap"
    using len walk_length [of ab st t] by simp
  note IH = Cons.IH [OF _ walked this]
  have step: "stage_two_loop cap (lead ab @ catenate st) (catenate (t # ts)) =
      stage_two_loop cap (lead ab @ catenate (walk ab st t)) (catenate ts)"
  proof -
    consider (up) "t = ''..''" | (dot) "t = ''.''" | (name) "t \<noteq> ''..''" "t \<noteq> ''.''" "hd t \<noteq> CHR ''.''"
      using t by (auto simp: hidden_def)
    then show ?thesis
    proof cases
      case up
      then show ?thesis using go_up_walk [OF Cons.prems(2), of cap] len tok unfolding p
        by (subst stage_two_loop.simps) simp
    next
      case dot
      then show ?thesis using tok unfolding p by (subst stage_two_loop.simps) (simp add: walk_def)
    next
      case name
      then show ?thesis using t tok len unfolding p
        by (subst stage_two_loop.simps) (simp add: walk_def put_chars_def catenate_snoc)
    qed
  qed
  show ?case unfolding step using IH Cons.prems(1) by simp
qed

lemma catenate_parts_render:
  assumes "walked ab st"
  shows "(let r = (if lead ab @ catenate st = [] then ''.'' else lead ab @ catenate st)
      in if last r = CHR ''/'' \<and> length r \<noteq> 1 then butlast r else r) = render ab st"
proof (cases "st = []")
  case True
  then show ?thesis by (simp add: lead_def render_def catenate_def)
next
  case False
  then have "last (catenate st) = CHR ''/''" "catenate st \<noteq> []" using catenate_last by auto
  moreover have "length (catenate st) \<noteq> 1"
    using assms False by (cases st rule: rev_cases) (auto simp: walked_def catenate_def)
  ultimately show ?thesis using False by (simp add: lead_def render_def butlast_append Let_def)
qed

text \<open>
  C10. A path without hidden names is cleaned as its reference says: split it at slashes and
  backslashes, walk along its components, \<open>.\<close> staying and \<open>..\<close> going up (but not above the root), and
  put the names walked between single slashes. The buffers are never overrun.
\<close>

theorem clean_path_reference:
  assumes "\<forall>t \<in> set (parts (trimmed trim path)). \<not> hidden t"
  shows "make_clean_path True True (Some path) trim = Cleaned (clean_path trim path)"
proof -
  define q where "q = trimmed trim path"
  define s where "s = make_clean_path_stage_one path trim"
  define ab where "ab = absolute q"
  define p where "p = (if ab then tl s else s)"
  have one: "s \<noteq> []" "last s = CHR ''/''" "squeezed s" "absolute s = ab" "parts s = (if q = [] then [''.''] else parts q)"
    using stage_one [of path trim] by (simp_all add: s_def q_def ab_def)
  have lead: "hd s = CHR ''/'' \<longleftrightarrow> ab"
    using one(1,3,4) by (cases s) (auto simp: absolute_def is_slash_def)
  have s: "s = lead ab @ p" using one(1) lead by (cases s) (auto simp: p_def lead_def)
  have slash: "is_slash (CHR ''/'')" by (simp add: is_slash_def)
  have "parts s = parts p" using parts_slash [OF slash, of "[]" p] by (simp add: s lead_def parts_def)
  then have fold: "foldl (walk ab) [] (parts p) = foldl (walk ab) [] (parts q)"
    using one(5) by (simp add: walk_def parts_def)
  have hidden: "\<forall>t \<in> set (parts p). \<not> hidden t"
    using assms one(5) \<open>parts s = parts p\<close> by (auto simp: q_def hidden_def split: if_splits)
  have tokens: "p = catenate (parts p) \<and> (\<forall>t \<in> set (parts p). t \<noteq> [] \<and> CHR ''/'' \<notin> set t \<and> \<not> hidden t)"
  proof (cases "p = []")
    case True
    then show ?thesis by (simp add: parts_def catenate_def)
  next
    case False
    have "squeezed p" using one(3) squeezed_append [of "lead ab" p] by (simp add: s)
    moreover have "last p = CHR ''/''" using one(2) False by (simp add: s)
    moreover have "hd p \<noteq> CHR ''/''" using one(3) False lead by (auto simp: s lead_def split: if_splits)
    ultimately have "p = catenate (parts p) \<and> (\<forall>t \<in> set (parts p). t \<noteq> [] \<and> (\<forall>c \<in> set t. \<not> is_slash c))"
      using stage_tokens False by blast
    with hidden slash show ?thesis by blast
  qed
  define st where "st = foldl (walk ab) [] (parts p)"
  let ?cap = "length s + 2 + 1"
  have "length (lead ab @ catenate []) + length (catenate (parts p)) \<le> length s"
    using tokens by (simp add: s catenate_def)
  note len = this
  have cap: "length (lead ab @ catenate []) + length (catenate (parts p)) \<le> ?cap" using len by simp
  have w0: "walked ab []" by (simp add: walked_def)
  have loop: "stage_two_loop ?cap (lead ab) p = Some (lead ab @ catenate st)" "walked ab st"
    using stage_two_loop_walk [OF _ w0 cap] tokens by (auto simp: st_def catenate_def)
  have short: "length (lead ab @ catenate st) \<le> length s"
    using stage_two_loop_walk [OF _ w0 len] tokens by (auto simp: st_def)
  have start: "(if hd s = CHR ''/'' then (''/'', tl s) else ([], s)) = (lead ab, p)"
    using lead by (simp add: lead_def p_def)
  let ?r = "if lead ab @ catenate st = [] then ''.'' else lead ab @ catenate st"
  have dot: "(if lead ab @ catenate st = [] then put_chars ?cap (lead ab @ catenate st) ''.'' else Some (lead ab @ catenate st)) = Some ?r"
    by (simp add: put_chars_def)
  have "length (render ab st) \<le> length s + 1"
    using short by (auto simp: render_def lead_def)
  moreover have "(let r = ?r in if last r = CHR ''/'' \<and> length r \<noteq> 1 then butlast r else r) = render ab st"
    by (rule catenate_parts_render [OF loop(2)])
  ultimately have "make_clean_path_stage_two s = Some (render ab st)"
    unfolding make_clean_path_stage_two_def start Let_def fst_conv snd_conv loop(1) bind.bind_lunit dot by simp
  then show ?thesis
    by (simp add: make_clean_path_def s_def [symmetric] clean_path_def st_def fold q_def [symmetric] ab_def [symmetric])
qed

lemma clean_path_reference_witness:
  "make_clean_path True True (Some '' //a/b///c/..'') True = Cleaned ''/a/b''"
proof -
  have "\<forall>t \<in> set (parts (trimmed True '' //a/b///c/..'')). \<not> hidden t" "clean_path True '' //a/b///c/..'' = ''/a/b''"
    by code_simp+
  with clean_path_reference [of True "'' //a/b///c/..''"] show ?thesis by simp
qed

text \<open>
  A hidden name breaks the cleaning: the token is copied, then parsed once more behind its dot, so
  \<open>.x\<close> becomes \<open>.x/x\<close>, and a hidden name with more than two characters behind the dot writes past the
  end of the result buffer.
\<close>

theorem clean_path_hidden_overrun:
  assumes "w \<noteq> []" "\<forall>c \<in> set w. \<not> is_slash c" "hd w \<noteq> CHR ''.''"
  shows "make_clean_path True True (Some (CHR ''.'' # w)) False =
    (if length w \<le> 2 then Cleaned (CHR ''.'' # w @ ''/'' @ w) else Overrun)"
proof -
  let ?t = "CHR ''.'' # w"
  have sq: "squeeze [] ?t = ?t" using assms(2) by (intro trans [OF squeeze_plain]) (auto simp: is_slash_def)
  have slash: "CHR ''/'' \<notin> set w" "is_slash (CHR ''/'')" using assms(2) by (auto simp: is_slash_def)
  have lw: "last w \<noteq> CHR ''/''" using slash(1) last_in_set [OF assms(1)] by metis
  have one: "make_clean_path_stage_one ?t False = ?t @ ''/''"
    unfolding make_clean_path_stage_one_def Let_def if_False sq using lw assms(1) by simp
  have t1: "takeWhile (\<lambda>c. c \<noteq> CHR ''/'') (w @ ''/'') = w" using slash(1) by (auto simp: takeWhile_tail)
  have w: "w \<noteq> ''.''" "w \<noteq> ''..''" using assms(1,3) by auto
  let ?cap = "length w + 5"
  have second: "stage_two_loop ?cap r (w @ ''/'') = put_chars ?cap r (w @ ''/'')" for r
    using t1 w assms(1,3) slash(1)
    by (subst stage_two_loop.simps) (cases "put_chars ?cap r (w @ ''/'')", auto simp: stage_two_loop.simps [of _ _ "[]"])
  have loop: "stage_two_loop ?cap [] (?t @ ''/'') =
      (if length w \<le> 2 then Some (?t @ ''/'' @ w @ ''/'') else None)"
    using t1 w assms(1) slash(1) second
    by (subst stage_two_loop.simps) (auto simp: put_chars_def)
  have cap: "length (?t @ ''/'') + 2 + 1 = ?cap" by simp
  have "make_clean_path_stage_two (?t @ ''/'') = (if length w \<le> 2 then Some (?t @ ''/'' @ w) else None)"
    unfolding make_clean_path_stage_two_def Let_def cap using loop assms(1) by (simp add: butlast_append)
  then show ?thesis by (simp add: make_clean_path_def one del: append_Cons)
qed

lemma clean_path_hidden_overrun_witness: "make_clean_path True True (Some ''.bashrc'') False = Overrun"
proof -
  have "\<forall>c \<in> set ''bashrc''. \<not> is_slash c" "hd ''bashrc'' \<noteq> CHR ''.''" by code_simp+
  with clean_path_hidden_overrun [of "''bashrc''"] show ?thesis by simp
qed


section \<open>The distribution of ranged_rand\<close>

lemma draw_until_stops:
  "fst (rnd (((\<lambda>s. snd (rnd s)) ^^ k) s)) \<le> bad \<Longrightarrow> \<forall>j < k. bad < fst (rnd (((\<lambda>s. snd (rnd s)) ^^ j) s)) \<Longrightarrow>
    draw_until rnd bad s = Some (rnd (((\<lambda>s. snd (rnd s)) ^^ k) s))"
proof (induction k arbitrary: s)
  case 0
  then show ?case by (subst draw_until.simps) (auto split: prod.split)
next
  case (Suc k)
  have "draw_until rnd bad (snd (rnd s)) = Some (rnd (((\<lambda>s. snd (rnd s)) ^^ k) (snd (rnd s))))"
  proof (rule Suc.IH)
    show "fst (rnd (((\<lambda>s. snd (rnd s)) ^^ k) (snd (rnd s)))) \<le> bad"
      using Suc.prems(1) unfolding funpow_Suc_right comp_apply .
    show "\<forall>j < k. bad < fst (rnd (((\<lambda>s. snd (rnd s)) ^^ j) (snd (rnd s))))"
      using Suc.prems(2) by (metis Suc_less_eq comp_apply funpow_Suc_right)
  qed
  moreover have "bad < fst (rnd s)" using Suc.prems(2) by (metis funpow_0 zero_less_Suc)
  ultimately show ?case unfolding funpow_Suc_right comp_apply
    by (subst draw_until.simps) (simp add: case_prod_beta)
qed

lemma residues:
  fixes n q v :: int
  assumes "0 < n" "0 \<le> q" "0 \<le> v" "v < n"
  shows "card {r \<in> {0..q * n}. r mod n = v} = nat q + (if v = 0 then 1 else 0)"
proof -
  define top where "top = (if v = 0 then q else q - 1)"
  have "{r \<in> {0..q * n}. r mod n = v} = (\<lambda>i. v + i * n) ` {0..top}"
  proof (intro equalityI subsetI)
    fix r assume r: "r \<in> {r \<in> {0..q * n}. r mod n = v}"
    then have rr: "r = v + (r div n) * n" using mod_div_mult_eq [of r n] by simp
    have "0 \<le> r div n" using r assms(1) by (simp add: pos_imp_zdiv_nonneg_iff)
    moreover have "r div n \<le> top"
    proof (cases "v = 0")
      case True
      then have "r div n * n \<le> q * n" using r rr by simp
      then show ?thesis using True assms(1) by (simp add: top_def)
    next
      case False
      then have "r div n * n < q * n" using r rr assms(3) by simp
      then show ?thesis using False assms(1) by (simp add: top_def)
    qed
    ultimately show "r \<in> (\<lambda>i. v + i * n) ` {0..top}" using rr by (intro image_eqI [of _ _ "r div n"]) simp_all
  next
    fix r assume "r \<in> (\<lambda>i. v + i * n) ` {0..top}"
    then obtain i where i: "r = v + i * n" "i \<in> {0..top}" by (elim imageE)
    then have i: "r = v + i * n" "0 \<le> i" "i \<le> top" by simp_all
    have "v + i * n \<le> q * n"
    proof (cases "v = 0")
      case True
      with i(3) assms(1) show ?thesis by (simp add: top_def)
    next
      case False
      then have "(i + 1) * n \<le> q * n" using i(3) assms(1) by (intro mult_right_mono) (simp_all add: top_def)
      then show ?thesis using assms(4) by (simp add: distrib_right)
    qed
    with i assms show "r \<in> {r \<in> {0..q * n}. r mod n = v}" by simp
  qed
  moreover have "inj_on (\<lambda>i. v + i * n) {0..top}" using assms(1) by (intro inj_onI) simp
  ultimately have "card {r \<in> {0..q * n}. r mod n = v} = nat (top + 1)" by (simp add: card_image)
  then show ?thesis using assms(2) by (simp add: top_def nat_add_distrib)
qed

text \<open>
  A call with a limit inside the range of \<open>rand()\<close> returns as soon as a draw is accepted, and the value
  is in \<open>[0, limit]\<close>, both ends included; unless the number of values is a power of two they are not
  equally distributed: one more draw gives 0 than gives each of the others.
\<close>

theorem ranged_rand_distribution:
  assumes "0 < limit" "limit < rand_max" "(limit + 1) AND - (limit + 1) \<noteq> limit + 1"
    and "\<forall>s. 0 \<le> fst (rnd s)"
    and "accepted = {0..rand_max - rand_max mod (limit + 1)}" "\<exists>k. fst (rnd (((\<lambda>s. snd (rnd s)) ^^ k) s)) \<in> accepted"
  shows "(\<exists>r s'. ranged_rand rand_max rnd limit s = Some (r mod (limit + 1), s') \<and> r \<in> accepted) \<and>
    (\<forall>v \<in> {0..limit}. card {r \<in> accepted. r mod (limit + 1) = v} = nat (rand_max div (limit + 1)) + (if v = 0 then 1 else 0))"
proof -
  let ?n = "limit + 1" and ?bad = "rand_max - rand_max mod (limit + 1)"
  let ?d = "\<lambda>k. rnd (((\<lambda>s. snd (rnd s)) ^^ k) s)"
  define k where "k = (LEAST k. fst (?d k) \<le> ?bad)"
  have ex: "\<exists>k. fst (?d k) \<le> ?bad" using assms(5,6) by auto
  have k: "fst (?d k) \<le> ?bad" unfolding k_def using ex by (rule LeastI_ex)
  have "\<forall>j < k. ?bad < fst (?d j)" using not_less_Least unfolding k_def by fastforce
  note draw = draw_until_stops [OF k this]
  have "ranged_rand rand_max rnd limit s = Some (fst (?d k) mod ?n, snd (?d k))"
    using assms(1-3) draw by (simp add: ranged_rand_def Let_def case_prod_beta)
  then have 1: "\<exists>r s'. ranged_rand rand_max rnd limit s = Some (r mod ?n, s') \<and> r \<in> accepted"
    using k assms(4,5) by auto
  have "?bad = rand_max div ?n * ?n" by (simp add: minus_mod_eq_div_mult)
  then have acc: "accepted = {0..rand_max div ?n * ?n}" using assms(5) by simp
  have "0 \<le> rand_max div ?n" using assms(1,2) by (simp add: pos_imp_zdiv_nonneg_iff)
  then have "\<forall>v \<in> {0..limit}. card {r \<in> accepted. r mod ?n = v} = nat (rand_max div ?n) + (if v = 0 then 1 else 0)"
    unfolding acc using residues [of ?n "rand_max div ?n"] assms(1) by simp
  with 1 show ?thesis by blast
qed

lemma ranged_rand_distribution_witness:
  "\<exists>r s'. ranged_rand 7 (\<lambda>s :: int. (s mod 8, s + 1)) 2 7 = Some (r mod 3, s') \<and> r \<in> {0..6}"
proof -
  have "(2 + 1) AND - (2 + 1) \<noteq> (2 + 1 :: int)" "(7 :: int) - 7 mod (2 + 1) = 6" by simp_all
  moreover have "\<exists>k. fst ((\<lambda>s :: int. (s mod 8, s + 1)) (((\<lambda>s. snd ((\<lambda>s :: int. (s mod 8, s + 1)) s)) ^^ k) 7)) \<in> {0..6 :: int}"
    by (intro exI [of _ 1]) simp
  ultimately show ?thesis
    using ranged_rand_distribution [of 2 7 "\<lambda>s :: int. (s mod 8, s + 1)" "{0..6}" 7] by simp
qed

section \<open>The strings atoi32 accepts\<close>

text \<open>Blanks, an optional sign and digits, with nothing behind them.\<close>

definition denotes :: "string \<Rightarrow> int \<Rightarrow> bool" where
  "denotes s z \<longleftrightarrow> (\<exists>ws sign ds. s = ws @ sign @ ds \<and> (\<forall>c \<in> set ws. is_space c) \<and> sign \<in> {[], ''+'', ''-''} \<and>
    ds \<noteq> [] \<and> (\<forall>c \<in> set ds. is_digit c) \<and>
    z = (if sign = ''-'' then - int (digits_value ds) else int (digits_value ds)))"

lemma digit_plain: "is_digit c \<Longrightarrow> \<not> is_space c \<and> c \<noteq> CHR ''-'' \<and> c \<noteq> CHR ''+''"
  by (auto simp: is_digit_def is_space_def)

lemma sign_plain: "\<not> is_space (CHR ''-'')" "\<not> is_space (CHR ''+'')"
  by (simp_all add: is_space_def)

lemma strtol_denotes:
  assumes "denotes s z" "0 \<le> z" "z < 2 ^ 31"
  shows "strtol s = (z, [], False)"
proof -
  from assms(1) obtain ws sign ds where s: "s = ws @ sign @ ds" and ws: "\<forall>c \<in> set ws. is_space c"
    and sign: "sign \<in> {[], ''+'', ''-''}" and ds: "ds \<noteq> []" "\<forall>c \<in> set ds. is_digit c"
    and z: "z = (if sign = ''-'' then - int (digits_value ds) else int (digits_value ds))"
    unfolding denotes_def by blast
  have hd: "\<not> is_space (hd (sign @ ds))" "sign @ ds \<noteq> []"
    using sign ds digit_plain [of "hd ds"] sign_plain by (auto simp: hd_append)
  then have "dropWhile is_space (sign @ ds) = sign @ ds" by (cases "sign @ ds") auto
  then have p: "dropWhile is_space s = sign @ ds" using ws by (simp add: s dropWhile_append2)
  have q: "(if sign @ ds \<noteq> [] \<and> hd (sign @ ds) \<in> {CHR ''-'', CHR ''+''} then tl (sign @ ds) else sign @ ds) = ds"
    using sign ds digit_plain [of "hd ds"] by auto
  have neg: "sign @ ds \<noteq> [] \<and> hd (sign @ ds) = CHR ''-'' \<longleftrightarrow> sign = ''-''"
    using sign ds digit_plain [of "hd ds"] by auto
  have tw: "takeWhile is_digit ds = ds" "dropWhile is_digit ds = []" using ds(2) by simp_all
  show ?thesis unfolding strtol_def Let_def p q tw neg using assms(2,3) ds(1) z by simp
qed

lemma denotes_strtol:
  assumes "strtol s = (z, [], False)" "s \<noteq> []"
  shows "denotes s z"
proof -
  define p where "p = dropWhile is_space s"
  define q where "q = (if p \<noteq> [] \<and> hd p \<in> {CHR ''-'', CHR ''+''} then tl p else p)"
  define sign where "sign = (if p \<noteq> [] \<and> hd p \<in> {CHR ''-'', CHR ''+''} then [hd p] else [])"
  define ds where "ds = takeWhile is_digit q"
  have st: "strtol s = (let v = (if p \<noteq> [] \<and> hd p = CHR ''-'' then - int (digits_value ds) else int (digits_value ds))
     in if ds = [] then (0, s, False)
        else if v > 2 ^ 63 - 1 then (2 ^ 63 - 1, dropWhile is_digit q, True)
        else if v < - (2 ^ 63) then (- (2 ^ 63), dropWhile is_digit q, True)
        else (v, dropWhile is_digit q, False))"
    unfolding strtol_def Let_def p_def q_def ds_def ..
  have ne: "ds \<noteq> []" using assms st by (auto simp: Let_def)
  with assms(1) have rest: "dropWhile is_digit q = []"
    and z: "z = (if p \<noteq> [] \<and> hd p = CHR ''-'' then - int (digits_value ds) else int (digits_value ds))"
    unfolding st Let_def by (auto split: if_splits)
  have q: "q = ds" using rest unfolding ds_def by (metis append.right_neutral takeWhile_dropWhile_id)
  have "p = sign @ q" by (simp add: sign_def q_def)
  then have "s = takeWhile is_space s @ sign @ ds" using q by (metis p_def takeWhile_dropWhile_id)
  moreover have "\<forall>c \<in> set (takeWhile is_space s). is_space c" by (auto dest: set_takeWhileD)
  moreover have "sign \<in> {[], ''+'', ''-''}" by (auto simp: sign_def)
  moreover have "\<forall>c \<in> set ds. is_digit c" unfolding ds_def by (auto dest: set_takeWhileD)
  moreover have "z = (if sign = ''-'' then - int (digits_value ds) else int (digits_value ds))"
    using z by (auto simp: sign_def)
  ultimately show ?thesis unfolding denotes_def using ne by blast
qed

text \<open>
  \<open>atoi32\<close> gives a number exactly for blanks, an optional sign and at least one digit with nothing
  behind them, when their value is in \<open>[0, 2^31 - 1]\<close>; otherwise it gives -1, also for \<open>NULL\<close> and
  whatever \<open>errno\<close> was.
\<close>

theorem atoi32_accepts:
  "(\<forall>s z. denotes s z \<and> 0 \<le> z \<and> z < 2 ^ 31 \<longrightarrow> atoi32 erange (Some s) = z) \<and>
   (atoi32 erange val \<noteq> -1 \<longrightarrow>
     (\<exists>s. val = Some s \<and> denotes s (atoi32 erange val) \<and> 0 \<le> atoi32 erange val \<and> atoi32 erange val < 2 ^ 31))"
proof (intro conjI allI impI)
  fix s z assume d: "denotes s z \<and> 0 \<le> z \<and> z < 2 ^ 31"
  then have "s \<noteq> []" by (auto simp: denotes_def)
  with d strtol_denotes [of s z] show "atoi32 erange (Some s) = z" by (simp add: atoi32_def)
next
  assume a: "atoi32 erange val \<noteq> -1"
  then obtain s where s: "val = Some s" "s \<noteq> []" by (auto simp: atoi32_def split: option.splits if_splits)
  obtain i e r where st: "strtol s = (i, e, r)" by (cases "strtol s")
  have i: "e = []" "i \<le> 2 ^ 31 - 1" "0 \<le> i" "atoi32 erange val = i"
    using a s st by (auto simp: atoi32_def split: if_splits)
  have "\<not> r" using st i(2,3) by (auto simp: strtol_def Let_def split: if_splits)
  with st i(1) denotes_strtol [of s i] s(2) have "denotes s i" by simp
  with s(1) i show "\<exists>s. val = Some s \<and> denotes s (atoi32 erange val) \<and> 0 \<le> atoi32 erange val \<and> atoi32 erange val < 2 ^ 31"
    by auto
qed

lemma atoi32_accepts_witness: "atoi32 True (Some '' +42'') = 42"
proof -
  have "denotes '' +42'' 42" unfolding denotes_def
    by (intro exI [of _ "'' ''"] exI [of _ "''+''"] exI [of _ "''42''"])
      (simp add: is_space_def is_digit_def digits_value_def digit_value_def)
  with atoi32_accepts [of True] show ?thesis by simp
qed

end
