(* ===== verification/Election.thy ===== *)
theory Election
  imports Utility Digits
begin

text \<open>
  \<open>flinter/zookeeper/council.cpp\<close> and \<open>naming.cpp\<close>: an election over the numbered children of a ZooKeeper
  node, and a registry of names kept as such children. The calls of the classes \<open>ZooKeeper\<close> and
  \<open>ZooKeeperTracker\<close>, and of the host name, are the operations of the record \<open>zk_ops\<close> over a state \<open>'z\<close>, the
  service and its trackers. A failed assertion and a use of \<open>NULL\<close> are \<open>None\<close>. What a council tells its
  \<open>Callback\<close> is recorded; every operation holds the mutex of its object to the end.
\<close>

section \<open>The ZooKeeper service\<close>

text \<open>Result codes of the C client.\<close>

definition ZOK :: int where "ZOK = 0"
definition ZNONODE :: int where "ZNONODE = -101"
definition ZSESSIONEXPIRED :: int where "ZSESSIONEXPIRED = -112"

record 'z zk_ops =
  zk_create :: "string \<Rightarrow> 'z \<Rightarrow> int \<times> string \<times> 'z"
  zk_erase :: "string \<Rightarrow> 'z \<Rightarrow> int \<times> 'z"
  zk_get_children :: "string \<Rightarrow> 'z \<Rightarrow> int \<times> string list \<times> 'z"
  zkt_initialize :: "'z \<Rightarrow> bool \<times> 'z"
  zkt_track :: "string \<Rightarrow> 'z \<Rightarrow> bool \<times> 'z"
  zkt_track_existing :: "string \<Rightarrow> 'z \<Rightarrow> bool \<times> 'z"
  zkt_cancel :: "string \<Rightarrow> 'z \<Rightarrow> 'z"
  zkt_shutdown :: "'z \<Rightarrow> 'z"
  zkt_clear_error_state :: "'z \<Rightarrow> 'z"
  os_hostname :: "'z \<Rightarrow> string option"

text \<open>A child of the form \<open>name_0000000042\<close>: its number and its name.\<close>

fun last_underscore :: "string \<Rightarrow> nat option" where
  "last_underscore [] = None"
| "last_underscore (c # s) =
    (case last_underscore s of Some i \<Rightarrow> Some (Suc i) | None \<Rightarrow> if c = CHR ''_'' then Some 0 else None)"

definition parse_member :: "string \<Rightarrow> (int \<times> string) option" where
  "parse_member s =
    (case last_underscore s of
       None \<Rightarrow> None
     | Some pos \<Rightarrow>
         if pos = 0 \<or> pos + 11 \<noteq> length s then None
         else let i = atoi32 False (Some (drop (pos + 1) s)) in if i \<ge> 0 then Some (i, take pos s) else None)"

definition members :: "string list \<Rightarrow> (int, string) smap" where
  "members children =
    fold (\<lambda>s m. case parse_member s of None \<Rightarrow> m | Some (i, name) \<Rightarrow> smap_insert i name m) children []"

section \<open>Council\<close>

datatype council_call = CalledFired string bool | CalledElected string int

record council =
  co_zk :: bool
  co_cb :: bool
  co_actual_id :: int
  co_election_path :: string
  co_node_name :: string
  co_name :: string
  co_id :: int
  co_size :: int
  co_calls :: "council_call list"

definition new_council :: "string \<Rightarrow> council" where
  "new_council name = \<lparr>co_zk = False, co_cb = False, co_actual_id = -1, co_election_path = [], co_node_name = [],
     co_name = name, co_id = -1, co_size = -1, co_calls = []\<rparr>"

definition IsElected :: "council \<Rightarrow> int" where
  "IsElected c = (if \<not> co_zk c \<or> co_id c < -1 then -1 else if co_id c \<ge> 0 then 0 else 1)"

text \<open>One round of the loop of \<open>WaitUntilAttended\<close>: the result, or \<open>None\<close> to wait.\<close>

definition WaitUntilAttended :: "council \<Rightarrow> bool option" where
  "WaitUntilAttended c =
    (if \<not> co_zk c then Some False
     else if co_id c < 0 then (if co_id c < -1 then Some False else None)
     else Some True)"

definition ResetState :: "bool \<Rightarrow> council \<Rightarrow> council" where
  "ResetState recoverable c =
    (if recoverable then c\<lparr>co_id := -1\<rparr> else c\<lparr>co_id := -2, co_size := -1, co_actual_id := -1\<rparr>)"

definition DoLostClean :: "bool \<Rightarrow> council \<Rightarrow> council" where
  "DoLostClean recoverable c =
    (let notify = (co_id c \<ge> 0 \<or> \<not> recoverable);
         c1 = ResetState recoverable c
     in if notify \<and> co_cb c1 then c1\<lparr>co_calls := co_calls c1 @ [CalledFired (co_election_path c1) recoverable]\<rparr>
        else c1)"

definition member_path :: "string \<Rightarrow> string \<Rightarrow> int \<Rightarrow> string" where
  "member_path path name i = path @ ''/'' @ name @ ''_'' @ pad10 (nat i)"

definition DoQuitClean :: "'z zk_ops \<Rightarrow> bool \<Rightarrow> council \<times> 'z \<Rightarrow> (council \<times> 'z) option" where
  "DoQuitClean E recoverable cz =
    (case cz of (c, z) \<Rightarrow>
       if co_election_path c = [] then None
       else if co_actual_id c \<ge> 0 then
         (if \<not> co_zk c then None
          else case zk_erase E (member_path (co_election_path c) (co_node_name c) (co_actual_id c)) z of
            (rc, z1) \<Rightarrow> Some (DoLostClean (recoverable \<and> rc = ZOK) (c\<lparr>co_actual_id := -1\<rparr>), z1))
       else Some (DoLostClean recoverable c, z))"

definition OnFired :: "'z zk_ops \<Rightarrow> bool \<Rightarrow> council \<times> 'z \<Rightarrow> (council \<times> 'z) option" where
  "OnFired E recoverable cz = DoQuitClean E recoverable cz"

definition OnQuit :: "'z zk_ops \<Rightarrow> council \<times> 'z \<Rightarrow> (council \<times> 'z) option" where
  "OnQuit E cz = DoQuitClean E True cz"

definition OnShrinked :: "bool \<Rightarrow> council \<Rightarrow> council" where
  "OnShrinked recoverable c = DoLostClean recoverable c"

definition OnLost :: "council \<Rightarrow> council" where
  "OnLost c = (DoLostClean True c)\<lparr>co_actual_id := -1, co_size := -1\<rparr>"

definition CoOnError :: "'z zk_ops \<Rightarrow> int \<Rightarrow> council \<times> 'z \<Rightarrow> (council \<times> 'z) option" where
  "CoOnError E error cz =
    (case cz of (c, z) \<Rightarrow>
      Option.bind (if error = ZSESSIONEXPIRED then Some (OnLost c, z) else OnFired E False (c, z))
        (\<lambda>(c1, z1). Some (c1, zkt_clear_error_state E z1)))"

definition UpdateName :: "'z zk_ops \<Rightarrow> 'z \<Rightarrow> council \<Rightarrow> council option" where
  "UpdateName E z c =
    (if co_name c \<noteq> [] then Some (c\<lparr>co_node_name := co_name c\<rparr>)
     else case os_hostname E z of None \<Rightarrow> None | Some h \<Rightarrow> Some (c\<lparr>co_node_name := h\<rparr>))"

definition CreateNodeAsNeeded :: "'z zk_ops \<Rightarrow> council \<times> 'z \<Rightarrow> (bool \<times> council \<times> 'z) option" where
  "CreateNodeAsNeeded E cz =
    (case cz of (c, z) \<Rightarrow>
       if co_actual_id c \<ge> 0 then Some (True, c, z)
       else case UpdateName E z c of
         None \<Rightarrow> map_option (Pair False) (OnFired E False (c, z))
       | Some c1 \<Rightarrow>
           if \<not> co_zk c1 then None
           else case zk_create E (co_election_path c1 @ ''/'' @ co_node_name c1 @ ''_'') z of (rc, actual, z1) \<Rightarrow>
             if rc \<noteq> ZOK then Some (False, c1\<lparr>co_size := -1\<rparr>, z1)
             else let offset = length (co_election_path c1) + 1 + length (co_node_name c1) + 1 in
               if length actual \<noteq> offset + 10 then Some (False, c1, snd (zk_erase E actual z1))
               else let c2 = c1\<lparr>co_actual_id := atoi32 False (Some (drop offset actual))\<rparr> in
                 if co_actual_id c2 < 0 then Some (False, c2, snd (zk_erase E actual z1))
                 else Some (True, c2, z1))"

definition GetCandidates :: "'z zk_ops \<Rightarrow> council \<times> 'z \<Rightarrow> (int, string) smap option \<times> council \<times> 'z" where
  "GetCandidates E cz =
    (case cz of (c, z) \<Rightarrow>
       case zk_get_children E (co_election_path c) z of (rc, children, z1) \<Rightarrow>
         if rc \<noteq> ZOK then (None, c\<lparr>co_size := -1\<rparr>, z1) else (Some (members children), c, z1))"

text \<open>The loop over the \<open>n\<close> candidates before position \<open>p\<close>; stepping before the first is undefined.\<close>

fun track_loop :: "'z zk_ops \<Rightarrow> string \<Rightarrow> (int, string) smap \<Rightarrow> nat \<Rightarrow> nat \<Rightarrow> 'z \<Rightarrow> (bool \<times> 'z) option" where
  "track_loop E path cands p 0 z = Some (True, z)"
| "track_loop E path cands p (Suc n) z =
    (if p = 0 then None
     else case zkt_track_existing E (member_path path (snd (cands ! (p - 1))) (fst (cands ! (p - 1)))) z of
       (ok, z1) \<Rightarrow> if ok then track_loop E path cands (p - 1) n z1 else Some (False, z1))"

definition Attend :: "'z zk_ops \<Rightarrow> council \<times> 'z \<Rightarrow> (council \<times> 'z) option" where
  "Attend E cz =
    Option.bind (CreateNodeAsNeeded E cz) (\<lambda>(ok, c, z).
      if \<not> ok then OnFired E False (c, z)
      else if co_actual_id c < 0 \<or> \<not> co_zk c then None
      else case GetCandidates E (c, z) of
        (None, c1, z1) \<Rightarrow> Some (c1, z1)
      | (Some cands, c1, z1) \<Rightarrow>
          if smap_find cands (co_actual_id c1) = None then OnFired E False (c1, z1)
          else let pos = length (takeWhile (\<lambda>e. fst e \<le> co_actual_id c1) cands);
                   p = length (takeWhile (\<lambda>e. fst e < co_actual_id c1) cands) in
            if int pos \<le> co_size c1 then
              (if co_id c1 \<ge> 0 then Some (c1, z1)
               else let c2 = c1\<lparr>co_id := co_actual_id c1\<rparr> in
                 Some (if co_cb c2 then c2\<lparr>co_calls := co_calls c2 @ [CalledElected (co_election_path c2) (co_id c2)]\<rparr>
                       else c2, z1))
            else if p = 0 then None
            else Option.bind (track_loop E (co_election_path c1) cands p (nat (co_size c1)) z1)
              (\<lambda>(recoverable, z2). Some (OnShrinked recoverable c1, z2)))"

definition CoOnData :: "'z zk_ops \<Rightarrow> string \<Rightarrow> string option \<Rightarrow> council \<times> 'z \<Rightarrow> (council \<times> 'z) option" where
  "CoOnData E path val cz =
    (case cz of (c, z) \<Rightarrow>
       if take (length (co_election_path c)) path \<noteq> co_election_path c then Some (c, z)
       else if co_election_path c = path then
         (case val of
            None \<Rightarrow> OnFired E True (c, z)
          | Some d \<Rightarrow>
              let n = atoi32 False (Some d) in
              if n \<le> 0 then Some (OnShrinked True (c\<lparr>co_size := -1\<rparr>), z)
              else Attend E (c\<lparr>co_size := n\<rparr>, z))
       else if val \<noteq> None \<or> co_id c \<ge> 0 then Some (c, z)
       else Attend E (c, zkt_cancel E path z))"

definition CoInitialize :: "'z zk_ops \<Rightarrow> bool \<Rightarrow> string \<Rightarrow> bool \<Rightarrow> council \<times> 'z \<Rightarrow> bool \<times> council \<times> 'z" where
  "CoInitialize E zk path cb cz =
    (case cz of (c, z) \<Rightarrow>
       if co_zk c \<or> \<not> zk \<or> length path < 2 \<or> hd path \<noteq> CHR ''/'' \<or> last path = CHR ''/'' then (False, c, z)
       else case zkt_initialize E z of (ok, z1) \<Rightarrow>
         if \<not> ok then (False, c, z1)
         else case zkt_track E path z1 of (ok, z2) \<Rightarrow>
           if \<not> ok then (False, c, zkt_shutdown E z2)
           else (True, (ResetState False (c\<lparr>co_zk := True, co_cb := cb, co_election_path := path\<rparr>))\<lparr>co_id := -1\<rparr>, z2))"

definition CoShutdown :: "'z zk_ops \<Rightarrow> council \<times> 'z \<Rightarrow> (council \<times> 'z) option" where
  "CoShutdown E cz =
    (case cz of (c, z) \<Rightarrow>
       if \<not> co_zk c then Some (c, z)
       else Option.bind (OnQuit E (c, zkt_shutdown E z))
         (\<lambda>(c1, z1). Some (c1\<lparr>co_zk := False, co_cb := False, co_election_path := []\<rparr>, z1)))"


section \<open>Naming\<close>

datatype naming_call = CalledError string | CalledChanged "(int, string) smap"

record naming =
  nm_zk :: bool
  nm_cb :: bool
  nm_actual_path :: string
  nm_path :: string
  nm_naming :: "(int, string) smap"
  nm_calls :: "naming_call list"

definition new_naming :: naming where
  "new_naming = \<lparr>nm_zk = False, nm_cb = False, nm_actual_path = [], nm_path = [], nm_naming = [], nm_calls = []\<rparr>"

definition nm_call :: "naming_call \<Rightarrow> naming \<Rightarrow> naming" where
  "nm_call x n = (if nm_cb n then n\<lparr>nm_calls := nm_calls n @ [x]\<rparr> else n)"

definition RemoveNode :: "'z zk_ops \<Rightarrow> naming \<times> 'z \<Rightarrow> (bool \<times> naming \<times> 'z) option" where
  "RemoveNode E nz =
    (case nz of (n, z) \<Rightarrow>
       if nm_actual_path n = [] then Some (True, n, z)
       else if \<not> nm_zk n then None
       else case zk_erase E (nm_actual_path n) z of (rc, z1) \<Rightarrow>
         if rc \<noteq> ZOK then Some (False, n, z1) else Some (True, n\<lparr>nm_actual_path := []\<rparr>, z1))"

definition CreateNode :: "'z zk_ops \<Rightarrow> string \<Rightarrow> string \<Rightarrow> naming \<times> 'z \<Rightarrow> bool \<times> naming \<times> 'z" where
  "CreateNode E naming_path identity nz =
    (case nz of (n, z) \<Rightarrow>
       if nm_actual_path n \<noteq> [] then (True, n, z)
       else case zk_create E (naming_path @ ''/'' @ identity @ ''_'') z of (rc, actual, z1) \<Rightarrow>
         if rc \<noteq> ZOK then (False, n, z1) else (True, n\<lparr>nm_actual_path := actual\<rparr>, z1))"

definition NmGet :: "naming \<Rightarrow> (int, string) smap" where
  "NmGet n = nm_naming n"

definition NmShutdown :: "'z zk_ops \<Rightarrow> naming \<times> 'z \<Rightarrow> (naming \<times> 'z) option" where
  "NmShutdown E nz =
    (case nz of (n, z) \<Rightarrow>
       if \<not> nm_zk n then Some (n, z)
       else Option.bind (RemoveNode E (n, zkt_shutdown E z))
         (\<lambda>(_, n1, z1). Some (n1\<lparr>nm_actual_path := [], nm_path := [], nm_zk := False, nm_cb := False\<rparr>, z1)))"

definition NmOnError :: "'z zk_ops \<Rightarrow> string \<Rightarrow> naming \<times> 'z \<Rightarrow> (naming \<times> 'z) option" where
  "NmOnError E path nz =
    Option.bind (RemoveNode E nz) (\<lambda>(_, n, z). Some (nm_call (CalledError path) n, z))"

definition NmOnChildren :: "string \<Rightarrow> string list option \<Rightarrow> naming \<Rightarrow> naming" where
  "NmOnChildren path children n =
    (if path = [] \<or> hd path \<noteq> CHR ''/'' then n
     else let n1 = n\<lparr>nm_naming := (case children of None \<Rightarrow> [] | Some l \<Rightarrow> members l)\<rparr>
       in nm_call (CalledChanged (nm_naming n1)) n1)"

definition DoWatch :: "'z zk_ops \<Rightarrow> string \<Rightarrow> bool \<Rightarrow> naming \<times> 'z \<Rightarrow> bool \<times> naming \<times> 'z" where
  "DoWatch E naming_path cb nz =
    (case nz of (n, z) \<Rightarrow>
       case zkt_initialize E z of (ok, z1) \<Rightarrow>
         if \<not> ok then (False, n, z1)
         else case zkt_track E naming_path z1 of (ok, z2) \<Rightarrow>
           if \<not> ok then (False, n, zkt_shutdown E z2)
           else (True, n\<lparr>nm_path := naming_path, nm_cb := cb, nm_zk := True\<rparr>, z2))"

definition naming_path_ok :: "bool \<Rightarrow> string \<Rightarrow> bool" where
  "naming_path_ok zk path \<longleftrightarrow> zk \<and> length path \<ge> 2 \<and> hd path = CHR ''/'' \<and> last path \<noteq> CHR ''/''"

definition NmWatch :: "'z zk_ops \<Rightarrow> bool \<Rightarrow> string \<Rightarrow> bool \<Rightarrow> naming \<times> 'z \<Rightarrow> bool \<times> naming \<times> 'z" where
  "NmWatch E zk path cb nz =
    (case nz of (n, z) \<Rightarrow>
       if \<not> naming_path_ok zk path \<or> nm_zk n then (False, n, z) else DoWatch E path cb (n, z))"

definition NmAttend ::
  "'z zk_ops \<Rightarrow> bool \<Rightarrow> string \<Rightarrow> string \<Rightarrow> bool \<Rightarrow> naming \<times> 'z \<Rightarrow> bool \<times> naming \<times> 'z" where
  "NmAttend E zk path identity cb nz =
    (case nz of (n, z) \<Rightarrow>
       if \<not> naming_path_ok zk path \<or> identity = [] \<or> nm_zk n then (False, n, z)
       else case CreateNode E path identity (n, z) of (ok, n1, z1) \<Rightarrow>
         if \<not> ok then (False, n1, z1) else DoWatch E path cb (n1, z1))"

end
