(* ===== verification/Election_Correct.thy ===== *)
theory Election_Correct
  imports Election
begin

text \<open>
  The election: any number of councils over one node, with everybody else who creates and deletes
  children there. What ZooKeeper promises is \<open>zk_documented\<close>, the assumption of the locale
  \<open>zookeeper\<close>, which is interpreted on a service kept in memory. At no time are more councilmen in office
  than the council has seats; the calls of the callback alternate; the watches of a candidate
  in the queue are enough to call it up.
\<close>

section \<open>Numbers of members\<close>

definition number :: "string \<Rightarrow> int option" where
  "number s = map_option fst (parse_member s)"

definition numbers :: "string set \<Rightarrow> int set" where
  "numbers N = {n. \<exists>s \<in> N. number s = Some n}"

definition rank :: "string set \<Rightarrow> int \<Rightarrow> nat" where
  "rank N a = card {n \<in> numbers N. n \<le> a}"

lemma number_nonneg: "number s = Some n \<Longrightarrow> 0 \<le> n"
  by (auto simp: number_def parse_member_def Let_def split: option.splits if_splits)

lemma finite_rank: "finite {n \<in> numbers N. n \<le> a}"
proof -
  have "{n \<in> numbers N. n \<le> a} \<subseteq> {0..a}" by (auto simp: numbers_def dest: number_nonneg)
  then show ?thesis by (rule finite_subset) simp
qed

lemma rank_mono: "{n \<in> numbers M. n \<le> a} \<subseteq> {n \<in> numbers N. n \<le> a} \<Longrightarrow> rank M a \<le> rank N a"
  unfolding rank_def by (rule card_mono [OF finite_rank])

lemma last_underscore_name: "CHR ''_'' \<notin> set t \<Longrightarrow> last_underscore (s @ CHR ''_'' # t) = Some (length s)"
proof -
  assume t: "CHR ''_'' \<notin> set t"
  then have "last_underscore t = None" by (induction t) auto
  then show ?thesis by (induction s) auto
qed

lemma atoi32_digits:
  assumes "all_digits ds" "ds \<noteq> []" "digits_value ds < 2 ^ 31"
  shows "atoi32 e (Some ds) = int (digits_value ds)"
proof -
  have "denotes ds (int (digits_value ds))" unfolding denotes_def
    by (intro exI [of _ "[]"] exI [of _ ds]) (use assms in \<open>simp add: all_digits_def\<close>)
  from strtol_denotes [OF this] assms(2,3) show ?thesis by (simp add: atoi32_def)
qed

text \<open>Parsing reads the names ZooKeeper makes.\<close>

lemma parse_member_name:
  assumes "name \<noteq> []" "k < 2 ^ 31"
  shows "parse_member (name @ ''_'' @ pad10 k) = Some (int k, name)"
proof -
  have "\<not> is_digit (CHR ''_'')" by (simp add: is_digit_def)
  then have "CHR ''_'' \<notin> set (pad10 k)" using pad10_digits(2) [of k] unfolding all_digits_def by blast
  then have "last_underscore (name @ CHR ''_'' # pad10 k) = Some (length name)" by (rule last_underscore_name)
  moreover have "length (pad10 k) = 10" using assms(2) by (intro pad10_length) simp
  moreover have "atoi32 False (Some (pad10 k)) = int k"
    using atoi32_digits [OF pad10_digits(2,1), of k] assms(2) by (simp add: pad10_digits)
  ultimately show ?thesis using assms(1) by (simp add: parse_member_def)
qed

lemma members_wf_keys:
  "smap_wf (members l) \<and> fst ` set (members l) = numbers (set l)"
proof -
  define f where "f = (\<lambda>s m. case parse_member s of None \<Rightarrow> m | Some (i, name) \<Rightarrow> smap_insert i name m)"
  have "smap_wf (fold f l m) \<and> fst ` set (fold f l m) = fst ` set m \<union> numbers (set l)" if "smap_wf m" for m
    using that
  proof (induction l arbitrary: m)
    case Nil
    then show ?case by (simp add: numbers_def)
  next
    case (Cons s l)
    have keys: "fst ` set (f s m) = fst ` set m \<union> numbers {s}"
    proof (cases "parse_member s")
      case None
      then show ?thesis by (simp add: f_def numbers_def number_def)
    next
      case (Some p)
      obtain i nm where p: "p = (i, nm)" by (cases p)
      have "fst ` set (smap_insert i nm m) = insert i (fst ` set m)"
      proof (cases "smap_find m i")
        case None
        then show ?thesis using set_keys_smap_put [OF Cons.prems, of i nm] by (simp add: smap_insert_def)
      next
        case (Some v)
        then have "i \<in> fst ` set m" using smap_find_None [of m i] by simp
        with Some show ?thesis by (simp add: smap_insert_def insert_absorb)
      qed
      then show ?thesis using Some p by (auto simp: f_def numbers_def number_def)
    qed
    have "smap_wf (f s m)" using Cons.prems by (auto simp: f_def split: option.splits)
    from Cons.IH [OF this] keys show ?case by (auto simp: numbers_def)
  qed
  from this [of "[]"] show ?thesis by (simp add: members_def f_def)
qed

lemma count_upto:
  assumes "smap_wf (m :: (int, 'v) smap)"
  shows "length (takeWhile (\<lambda>e. fst e \<le> a) m) = card {k \<in> fst ` set m. k \<le> a}"
    and "length (takeWhile (\<lambda>e. fst e < a) m) = card {k \<in> fst ` set m. k < a}"
proof -
  have "length (takeWhile (\<lambda>e. P (fst e)) m) = card {k \<in> fst ` set m. P k}"
    if "\<And>x y. x < y \<Longrightarrow> P y \<Longrightarrow> P x" for P
    using assms
  proof (induction m)
    case (Cons e m)
    have gt: "\<forall>k \<in> fst ` set m. fst e < k" and wf: "smap_wf m" using Cons.prems by (auto simp: smap_wf_Cons)
    show ?case
    proof (cases "P (fst e)")
      case True
      have "{k \<in> fst ` set (e # m). P k} = insert (fst e) {k \<in> fst ` set m. P k}" using True by auto
      moreover have "fst e \<notin> {k \<in> fst ` set m. P k}" using gt by auto
      ultimately show ?thesis using True Cons.IH [OF wf] by simp
    next
      case False
      then have "{k \<in> fst ` set (e # m). P k} = {}" using gt that by auto
      then show ?thesis using False by simp
    qed
  qed simp
  from this [of "\<lambda>k. k \<le> a"] this [of "\<lambda>k. k < a"]
  show "length (takeWhile (\<lambda>e. fst e \<le> a) m) = card {k \<in> fst ` set m. k \<le> a}"
    and "length (takeWhile (\<lambda>e. fst e < a) m) = card {k \<in> fst ` set m. k < a}" by simp_all
qed

section \<open>What ZooKeeper promises\<close>

text \<open>
  \<open>names z\<close> are the children of the election node, \<open>next z\<close> is its counter of sequence numbers. Between two states
  children come and go; members come with numbers the counter has not reached before.
\<close>

definition later :: "('z \<Rightarrow> string set) \<Rightarrow> ('z \<Rightarrow> nat) \<Rightarrow> 'z \<Rightarrow> 'z \<Rightarrow> bool" where
  "later names counter z z' \<longleftrightarrow> counter z \<le> counter z' \<and>
    (\<forall>s \<in> names z' - names z. \<forall>k. number s = Some k \<longrightarrow> int (counter z) \<le> k)"

definition zk_documented :: "'z zk_ops \<Rightarrow> string \<Rightarrow> ('z \<Rightarrow> string set) \<Rightarrow> ('z \<Rightarrow> nat) \<Rightarrow> bool" where
  "zk_documented E P names counter \<longleftrightarrow>
    (\<forall>name z rc actual z'. zk_create E (P @ ''/'' @ name @ ''_'') z = (rc, actual, z') \<longrightarrow>
       later names counter z z' \<and>
       (rc = ZOK \<longrightarrow> (\<exists>k. counter z \<le> k \<and> k < counter z' \<and> k < 2 ^ 31 \<and> actual = P @ ''/'' @ name @ ''_'' @ pad10 k))) \<and>
    (\<forall>path z. later names counter z (snd (zk_erase E path z))) \<and>
    (\<forall>z rc l z'. zk_get_children E P z = (rc, l, z') \<longrightarrow>
       later names counter z z' \<and>
       (rc = ZOK \<longrightarrow> (\<forall>s \<in> names z. \<forall>t \<in> set l. \<forall>i j. number s = Some i \<and> number t = Some j \<and> i \<le> j \<longrightarrow> s \<in> set l))) \<and>
    (\<forall>z. later names counter z (snd (zkt_initialize E z))) \<and>
    (\<forall>path z. later names counter z (snd (zkt_track E path z))) \<and>
    (\<forall>path z. later names counter z (snd (zkt_track_existing E path z))) \<and>
    (\<forall>path z. later names counter z (zkt_cancel E path z)) \<and>
    (\<forall>z. later names counter z (zkt_shutdown E z)) \<and>
    (\<forall>z. later names counter z (zkt_clear_error_state E z))"

text \<open>A council over the node \<open>P\<close> that never has more than \<open>S\<close> seats.\<close>

definition co_ok :: "int \<Rightarrow> string \<Rightarrow> ('z \<Rightarrow> string set) \<Rightarrow> ('z \<Rightarrow> nat) \<Rightarrow> council \<times> 'z \<Rightarrow> bool" where
  "co_ok S P names counter cz \<longleftrightarrow> (case cz of (c, z) \<Rightarrow>
    0 \<le> S \<and> (0 \<le> co_id c \<longrightarrow> co_id c = co_actual_id c \<and> int (rank (names z) (co_id c)) \<le> S) \<and>
    co_actual_id c < int (counter z) \<and> co_size c \<le> S \<and>
    (co_zk c \<longrightarrow> co_election_path c = P) \<and> (\<not> co_zk c \<longrightarrow> co_id c < 0 \<and> co_actual_id c < 0))"

definition co_moves :: "int \<Rightarrow> string \<Rightarrow> ('z \<Rightarrow> string set) \<Rightarrow> ('z \<Rightarrow> nat) \<Rightarrow> council \<times> 'z \<Rightarrow> council \<times> 'z \<Rightarrow> bool" where
  "co_moves S P names counter cz cz' \<longleftrightarrow> (case (cz, cz') of ((c, z), (c', z')) \<Rightarrow>
    later names counter z z' \<and> co_ok S P names counter (c', z') \<and>
    (co_actual_id c' = co_actual_id c \<or> co_actual_id c' < 0 \<or> int (counter z) \<le> co_actual_id c'))"

lemma later_refl: "later names counter z z"
  by (simp add: later_def)

lemma later_trans:
  assumes "later names counter z z1" "later names counter z1 z2"
  shows "later names counter z z2"
  unfolding later_def
proof (intro conjI ballI allI impI)
  show "counter z \<le> counter z2" using assms by (simp add: later_def)
  fix s k assume s: "s \<in> names z2 - names z" and k: "number s = Some k"
  show "int (counter z) \<le> k"
  proof (cases "s \<in> names z1")
    case True
    with s k assms(1) show ?thesis unfolding later_def by blast
  next
    case False
    with s k assms(2) have "int (counter z1) \<le> k" unfolding later_def by blast
    moreover have "counter z \<le> counter z1" using assms(1) by (simp add: later_def)
    ultimately show ?thesis by simp
  qed
qed

lemma rank_later:
  assumes "later names counter z z'" "a < int (counter z)"
  shows "rank (names z') a \<le> rank (names z) a"
proof (rule rank_mono, intro subsetI)
  fix n assume n: "n \<in> {n \<in> numbers (names z'). n \<le> a}"
  then obtain s where s: "s \<in> names z'" "number s = Some n" "n \<le> a" by (auto simp: numbers_def)
  then have "s \<in> names z" using assms unfolding later_def by fastforce
  with s show "n \<in> {n \<in> numbers (names z). n \<le> a}" by (auto simp: numbers_def)
qed

lemma co_ok_later:
  assumes "co_ok S P names counter (c, z)" "later names counter z z'"
  shows "co_ok S P names counter (c, z')"
proof -
  have "co_actual_id c < int (counter z)" "counter z \<le> counter z'"
    using assms by (auto simp: co_ok_def later_def)
  moreover have "rank (names z') (co_id c) \<le> rank (names z) (co_id c)" if "0 \<le> co_id c"
    using rank_later [OF assms(2), of "co_id c"] assms(1) that by (auto simp: co_ok_def)
  ultimately show ?thesis using assms(1) by (fastforce simp: co_ok_def)
qed

lemma co_moves_trans:
  assumes "co_moves S P names counter (c, z) (c1, z1)" "co_moves S P names counter (c1, z1) (c2, z2)"
  shows "co_moves S P names counter (c, z) (c2, z2)"
proof -
  have l: "later names counter z z1" "later names counter z1 z2" using assms by (simp_all add: co_moves_def)
  then have "counter z \<le> counter z1" by (simp add: later_def)
  then show ?thesis using assms later_trans [OF l] by (auto simp: co_moves_def)
qed


lemma moves_ok_top: "co_moves S P names counter cz (c', z') \<Longrightarrow> co_ok S P names counter (c', z')"
  by (cases cz) (simp add: co_moves_def)

section \<open>Every operation of a council\<close>

lemma DoLostClean_simps [simp]:
  "co_id (DoLostClean r c) = (if r then -1 else -2)"
  "co_actual_id (DoLostClean r c) = (if r then co_actual_id c else -1)"
  "co_size (DoLostClean r c) = (if r then co_size c else -1)"
  "co_zk (DoLostClean r c) = co_zk c" "co_election_path (DoLostClean r c) = co_election_path c"
  "co_cb (DoLostClean r c) = co_cb c"
  by (simp_all add: DoLostClean_def ResetState_def Let_def)

locale zookeeper =
  fixes E :: "'z zk_ops" and P :: string and names :: "'z \<Rightarrow> string set" and counter :: "'z \<Rightarrow> nat"
  assumes documented: "zk_documented E P names counter"
begin

lemma later_create:
  "zk_create E (P @ ''/'' @ name @ ''_'') z = (rc, actual, z') \<Longrightarrow>
    later names counter z z' \<and>
    (rc = ZOK \<longrightarrow> (\<exists>k. counter z \<le> k \<and> k < counter z' \<and> k < 2 ^ 31 \<and> actual = P @ ''/'' @ name @ ''_'' @ pad10 k))"
  using documented unfolding zk_documented_def by (elim conjE) blast

lemma later_erase: "later names counter z (snd (zk_erase E path z))"
  using documented unfolding zk_documented_def by (elim conjE) blast

lemma later_children:
  "zk_get_children E P z = (rc, l, z') \<Longrightarrow>
    later names counter z z' \<and>
    (rc = ZOK \<longrightarrow> (\<forall>s \<in> names z. \<forall>t \<in> set l. \<forall>i j. number s = Some i \<and> number t = Some j \<and> i \<le> j \<longrightarrow> s \<in> set l))"
  using documented unfolding zk_documented_def by (elim conjE) blast

lemma later_tracker:
  "later names counter z (snd (zkt_initialize E z))" "later names counter z (snd (zkt_track E path z))"
  "later names counter z (snd (zkt_track_existing E path z))" "later names counter z (zkt_cancel E path z)"
  "later names counter z (zkt_shutdown E z)" "later names counter z (zkt_clear_error_state E z)"
  using documented unfolding zk_documented_def by (elim conjE, blast)+

lemma moves_lost:
  assumes "co_ok S P names counter (c, z)" "later names counter z z'"
  shows "co_moves S P names counter (c, z) (DoLostClean r c, z')"
  using assms co_ok_later [OF assms] by (auto simp: co_moves_def co_ok_def)

lemma moves_later:
  assumes "co_ok S P names counter (c, z)" "later names counter z z'"
  shows "co_moves S P names counter (c, z) (c, z')"
  using assms co_ok_later [OF assms] by (simp add: co_moves_def)

lemma ok_size: "co_ok S P names counter (c, z) \<Longrightarrow> n \<le> S \<Longrightarrow> co_ok S P names counter (c\<lparr>co_size := n\<rparr>, z)"
  by (simp add: co_ok_def)

lemma moves_same:
  "co_ok S P names counter (c, z) \<Longrightarrow> co_ok S P names counter (c', z) \<Longrightarrow> co_actual_id c' = co_actual_id c \<Longrightarrow>
    co_moves S P names counter (c, z) (c', z)"
  by (simp add: co_moves_def later_refl)

lemma moves_quit:
  assumes ok: "co_ok S P names counter (c, z)" and q: "DoQuitClean E r (c, z) = Some (c', z')"
  shows "co_moves S P names counter (c, z) (c', z')"
proof (cases "0 \<le> co_actual_id c")
  case False
  then have "c' = DoLostClean r c" "z' = z" using q by (auto simp: DoQuitClean_def split: if_splits)
  then show ?thesis using moves_lost [OF ok later_refl] by simp
next
  case True
  then obtain rc where e: "zk_erase E (member_path (co_election_path c) (co_node_name c) (co_actual_id c)) z = (rc, z')"
    and c': "c' = DoLostClean (r \<and> rc = ZOK) (c\<lparr>co_actual_id := -1\<rparr>)"
    using q by (auto simp: DoQuitClean_def split: if_splits prod.splits)
  have "later names counter z z'" using later_erase [of z] e by (metis snd_conv)
  with co_ok_later [OF ok this] show ?thesis
    by (auto simp: c' co_moves_def co_ok_def)
qed

lemma moves_create:
  assumes ok: "co_ok S P names counter (c, z)" and q: "CreateNodeAsNeeded E (c, z) = Some (done, c', z')"
  shows "co_moves S P names counter (c, z) (c', z')"
proof (cases "0 \<le> co_actual_id c")
  case True
  then have "c' = c" "z' = z" using q by (simp_all add: CreateNodeAsNeeded_def)
  then show ?thesis using moves_later [OF ok later_refl] by simp
next
  case False
  then have id: "co_id c < 0" using ok by (auto simp: co_ok_def)
  show ?thesis
  proof (cases "UpdateName E z c")
    case None
    with False q have "DoQuitClean E False (c, z) = Some (c', z')"
      by (auto simp: CreateNodeAsNeeded_def OnFired_def)
    then show ?thesis by (rule moves_quit [OF ok])
  next
    case (Some c1)
    have c1: "co_actual_id c1 = co_actual_id c" "co_id c1 = co_id c" "co_size c1 = co_size c" "co_zk c1 = co_zk c"
      "co_election_path c1 = co_election_path c"
      using Some by (auto simp: UpdateName_def split: if_splits option.splits)
    have ok1: "co_ok S P names counter (c1, z)" using ok by (simp add: co_ok_def c1)
    have zk: "co_zk c1" using q Some False by (auto simp: CreateNodeAsNeeded_def split: if_splits)
    then have path: "co_election_path c1 = P" using ok1 by (simp add: co_ok_def)
    obtain rc actual z1 where cr: "zk_create E (P @ ''/'' @ co_node_name c1 @ ''_'') z = (rc, actual, z1)"
      by (metis surj_pair)
    note L = later_create [OF cr]
    then have later1: "later names counter z z1" by blast
    have later2: "later names counter z (snd (zk_erase E actual z1))"
      using later_trans [OF later1 later_erase] .
    let ?ds = "drop (length P + 1 + length (co_node_name c1) + 1) actual"
    have cases: "(rc \<noteq> ZOK \<and> c' = c1\<lparr>co_size := -1\<rparr> \<and> z' = z1) \<or> (c' = c1 \<and> z' = snd (zk_erase E actual z1)) \<or>
        (rc = ZOK \<and> c' = c1\<lparr>co_actual_id := atoi32 False (Some ?ds)\<rparr> \<and>
          (if co_actual_id c' < 0 then z' = snd (zk_erase E actual z1) else z' = z1))"
      using q False Some zk cr path by (auto simp: CreateNodeAsNeeded_def Let_def split: if_splits)
    have lo1: "co_ok S P names counter (c1, z1)" by (rule co_ok_later [OF ok1 later1])
    have lo2: "co_ok S P names counter (c1, snd (zk_erase E actual z1))" by (rule co_ok_later [OF ok1 later2])
    from cases show ?thesis
    proof (elim disjE conjE)
      assume "c' = c1\<lparr>co_size := -1\<rparr>" "z' = z1"
      then show ?thesis using lo1 later1 by (simp add: co_moves_def co_ok_def c1)
    next
      assume "c' = c1" "z' = snd (zk_erase E actual z1)"
      then show ?thesis using lo2 later2 by (simp add: co_moves_def c1)
    next
      assume a: "rc = ZOK" "c' = c1\<lparr>co_actual_id := atoi32 False (Some ?ds)\<rparr>"
        "if co_actual_id c' < 0 then z' = snd (zk_erase E actual z1) else z' = z1"
      obtain k where k: "counter z \<le> k" "k < counter z1" "k < 2 ^ 31" "actual = P @ ''/'' @ co_node_name c1 @ ''_'' @ pad10 k"
        using L a(1) by blast
      have "?ds = pad10 k" unfolding k(4) by simp
      then have act: "co_actual_id c' = int k"
        using atoi32_digits [OF pad10_digits(2,1), of k] k(3) a(2) by (simp add: pad10_digits)
      then have "z' = z1" using a(3) by simp
      with lo1 later1 act k(1,2) id zk show ?thesis
        by (simp add: co_moves_def co_ok_def c1 a(2))
    qed
  qed
qed


lemma later_track_loop: "track_loop E path cands p n z = Some (b, z') \<Longrightarrow> later names counter z z'"
proof (induction n arbitrary: p z)
  case 0
  then show ?case by (simp add: later_refl)
next
  case (Suc n)
  let ?path = "member_path path (snd (cands ! (p - 1))) (fst (cands ! (p - 1)))"
  obtain t z1 where t: "zkt_track_existing E ?path z = (t, z1)" by fastforce
  have l: "later names counter z z1" using later_tracker(3) [of z ?path] t by simp
  have "p \<noteq> 0" by (rule notI) (use Suc.prems in simp)
  show ?case
  proof (cases t)
    case True
    then have "track_loop E path cands (p - 1) n z1 = Some (b, z')" using Suc.prems t \<open>p \<noteq> 0\<close> by simp
    from later_trans [OF l Suc.IH [OF this]] show ?thesis .
  next
    case False
    with Suc.prems t \<open>p \<noteq> 0\<close> l show ?thesis by simp
  qed
qed

text \<open>The position among the candidates is at least the rank among the members.\<close>

lemma position_rank:
  assumes "zk_get_children E P z = (rc, l, z')" "rc = ZOK" "smap_find (members l) a \<noteq> None"
  shows "rank (names z) a \<le> length (takeWhile (\<lambda>e. fst e \<le> a) (members l))"
proof -
  have keys: "smap_wf (members l)" "fst ` set (members l) = numbers (set l)" using members_wf_keys by blast+
  have "a \<in> numbers (set l)" using assms(3) smap_find_None [of "members l" a] keys(2) by auto
  then obtain t where t: "t \<in> set l" "number t = Some a" by (auto simp: numbers_def)
  have "{n \<in> numbers (names z). n \<le> a} \<subseteq> {n \<in> numbers (set l). n \<le> a}"
  proof
    fix n assume "n \<in> {n \<in> numbers (names z). n \<le> a}"
    then obtain s where s: "s \<in> names z" "number s = Some n" "n \<le> a" by (auto simp: numbers_def)
    then have "s \<in> set l" using later_children [OF assms(1)] assms(2) t by blast
    with s show "n \<in> {n \<in> numbers (set l). n \<le> a}" by (auto simp: numbers_def)
  qed
  then have "rank (names z) a \<le> card {n \<in> numbers (set l). n \<le> a}"
    unfolding rank_def by (rule card_mono [OF finite_rank])
  then show ?thesis using count_upto(1) [OF keys(1), of a] keys(2) by simp
qed

lemma moves_attend:
  assumes ok: "co_ok S P names counter (c, z)" and q: "Attend E (c, z) = Some (c', z')"
  shows "co_moves S P names counter (c, z) (c', z')"
proof -
  obtain b c1 z1 where cr: "CreateNodeAsNeeded E (c, z) = Some (b, c1, z1)"
    using q by (cases "CreateNodeAsNeeded E (c, z)") (auto simp: Attend_def)
  note m1 = moves_create [OF ok cr]
  note ok1 = moves_ok_top [OF m1]
  have "co_moves S P names counter (c1, z1) (c', z')"
  proof (cases b)
    case False
    then have "DoQuitClean E False (c1, z1) = Some (c', z')" using q cr by (simp add: Attend_def OnFired_def)
    then show ?thesis by (rule moves_quit [OF ok1])
  next
    case True
    then have "b" .
    then have act: "0 \<le> co_actual_id c1" and zk: "co_zk c1" using q cr by (auto simp: Attend_def split: if_splits)
    then have path: "co_election_path c1 = P" using ok1 by (simp add: co_ok_def)
    obtain rc l z2 where ch: "zk_get_children E P z1 = (rc, l, z2)" by (metis surj_pair)
    have later2: "later names counter z1 z2" using later_children [OF ch] by blast
    note ok2 = co_ok_later [OF ok1 later2]
    note m2 = moves_later [OF ok1 later2]
    show ?thesis
    proof (cases "rc = ZOK")
      case False
      then have "c' = c1\<lparr>co_size := -1\<rparr>" "z' = z2"
        using q cr True act zk path ch by (auto simp: Attend_def GetCandidates_def)
      then show ?thesis using m2 by (simp add: co_moves_def co_ok_def)
    next
      case rc: True
      let ?cands = "members l" and ?a = "co_actual_id c1"
      let ?pos = "length (takeWhile (\<lambda>e. fst e \<le> ?a) ?cands)" and ?p = "length (takeWhile (\<lambda>e. fst e < ?a) ?cands)"
      have gc: "GetCandidates E (c1, z1) = (Some ?cands, c1, z2)" using ch rc path by (simp add: GetCandidates_def)
      have usable: "(co_actual_id c1 < 0 \<or> \<not> co_zk c1) = False" using act zk by simp
      have q2: "(if smap_find ?cands ?a = None then OnFired E False (c1, z2)
          else if int ?pos \<le> co_size c1 then
              (if co_id c1 \<ge> 0 then Some (c1, z2)
               else let c2 = c1\<lparr>co_id := co_actual_id c1\<rparr> in
                 Some (if co_cb c2 then c2\<lparr>co_calls := co_calls c2 @ [CalledElected (co_election_path c2) (co_id c2)]\<rparr>
                       else c2, z2))
            else if ?p = 0 then None
            else Option.bind (track_loop E P ?cands ?p (nat (co_size c1)) z2)
              (\<lambda>(recoverable, z3). Some (OnShrinked recoverable c1, z3))) = Some (c', z')"
        using q by (simp only: Attend_def cr bind.bind_lunit prod.case \<open>b\<close> not_True_eq_False if_False usable gc option.case Let_def path)
      show ?thesis
      proof (cases "smap_find ?cands ?a = None")
        case True
        with q2 have "DoQuitClean E False (c1, z2) = Some (c', z')" by (simp add: OnFired_def)
        from co_moves_trans [OF m2 moves_quit [OF ok2 this]] show ?thesis .
      next
        case found: False
        show ?thesis
        proof (cases "int ?pos \<le> co_size c1")
          case True
          have "rank (names z1) ?a \<le> ?pos" by (rule position_rank [OF ch rc found])
          moreover have "rank (names z2) ?a \<le> rank (names z1) ?a"
            using rank_later [OF later2, of ?a] ok1 by (simp add: co_ok_def)
          moreover have "co_size c1 \<le> S" using ok1 by (simp add: co_ok_def)
          ultimately have "int (rank (names z2) ?a) \<le> S" using True by linarith
          then have ok3: "co_ok S P names counter (c1\<lparr>co_id := ?a\<rparr>, z2)"
            using ok2 act zk by (simp add: co_ok_def)
          have "z' = z2" "co_ok S P names counter (c', z2)" "co_actual_id c' = co_actual_id c1"
            using q2 found True ok3 ok2 by (auto simp: Let_def co_ok_def split: if_splits)
          with m2 show ?thesis by (simp add: co_moves_def)
        next
          case False
          with q2 found obtain r z3 where t: "track_loop E P ?cands ?p (nat (co_size c1)) z2 = Some (r, z3)"
              and c': "c' = DoLostClean r c1" "z' = z3"
            by (auto simp: OnShrinked_def bind_eq_Some_conv split: if_splits)
          have "later names counter z1 z3" using later_trans [OF later2 later_track_loop [OF t]] .
          from moves_lost [OF ok1 this] c' show ?thesis by simp
        qed
      qed
    qed
  qed
  from co_moves_trans [OF m1 this] show ?thesis .
qed

lemma moves_data:
  assumes ok: "co_ok S P names counter (c, z)" and size: "\<forall>d. val = Some d \<longrightarrow> atoi32 False (Some d) \<le> S"
    and q: "CoOnData E path val (c, z) = Some (c', z')"
  shows "co_moves S P names counter (c, z) (c', z')"
proof (cases "take (length (co_election_path c)) path \<noteq> co_election_path c")
  case True
  with q have "c' = c" "z' = z" by (simp_all add: CoOnData_def)
  then show ?thesis using moves_later [OF ok later_refl] by simp
next
  case pre: False
  show ?thesis
  proof (cases "co_election_path c = path")
    case False
    show ?thesis
    proof (cases "val \<noteq> None \<or> co_id c \<ge> 0")
      case True
      with False pre q have "c' = c" "z' = z" by (simp_all add: CoOnData_def)
      then show ?thesis using moves_later [OF ok later_refl] by simp
    next
      case other: False
      with False pre q have "Attend E (c, zkt_cancel E path z) = Some (c', z')" by (simp add: CoOnData_def)
      note m = moves_later [OF ok later_tracker(4) [of z path]]
      show ?thesis by (rule co_moves_trans [OF m moves_attend [OF moves_ok_top [OF m]]]) fact
    qed
  next
    case True
    show ?thesis
    proof (cases val)
      case None
      with True q have "DoQuitClean E True (c, z) = Some (c', z')" by (simp add: CoOnData_def OnFired_def)
      then show ?thesis by (rule moves_quit [OF ok])
    next
      case (Some d)
      let ?n = "atoi32 False (Some d)"
      have S: "0 \<le> S" "?n \<le> S" using ok size Some by (simp_all add: co_ok_def)
      show ?thesis
      proof (cases "?n \<le> 0")
        case True
        with \<open>co_election_path c = path\<close> Some q have c': "c' = DoLostClean True (c\<lparr>co_size := -1\<rparr>)" "z' = z"
          by (auto simp: CoOnData_def Let_def OnShrinked_def)
        have ok1: "co_ok S P names counter (c\<lparr>co_size := -1\<rparr>, z)" using ok_size [OF ok, of "-1"] S by simp
        note m1 = moves_same [OF ok ok1]
        have "co_moves S P names counter (c, z) (c\<lparr>co_size := -1\<rparr>, z)" by (rule m1) simp
        from co_moves_trans [OF this moves_lost [OF ok1 later_refl]] show ?thesis by (simp add: c')
      next
        case False
        with \<open>co_election_path c = path\<close> Some q have a: "Attend E (c\<lparr>co_size := ?n\<rparr>, z) = Some (c', z')"
          by (simp add: CoOnData_def Let_def)
        have ok1: "co_ok S P names counter (c\<lparr>co_size := ?n\<rparr>, z)" using ok_size [OF ok S(2)] .
        note m1 = moves_same [OF ok ok1]
        have "co_moves S P names counter (c, z) (c\<lparr>co_size := ?n\<rparr>, z)" by (rule m1) simp
        from co_moves_trans [OF this moves_attend [OF ok1 a]] show ?thesis .
      qed
    qed
  qed
qed

lemma moves_error:
  assumes ok: "co_ok S P names counter (c, z)" and q: "CoOnError E error (c, z) = Some (c', z')"
  shows "co_moves S P names counter (c, z) (c', z')"
proof -
  obtain c1 z1 where s: "(if error = ZSESSIONEXPIRED then Some (OnLost c, z) else OnFired E False (c, z)) = Some (c1, z1)"
    and e: "c' = c1" "z' = zkt_clear_error_state E z1"
    using q by (auto simp: CoOnError_def bind_eq_Some_conv)
  have m: "co_moves S P names counter (c, z) (c1, z1)"
  proof (cases "error = ZSESSIONEXPIRED")
    case True
    with s have "c1 = OnLost c" "z1 = z" by simp_all
    then show ?thesis using ok by (auto simp: co_moves_def co_ok_def later_refl OnLost_def)
  next
    case False
    with s have "DoQuitClean E False (c, z) = Some (c1, z1)" by (simp add: OnFired_def)
    then show ?thesis by (rule moves_quit [OF ok])
  qed
  from co_moves_trans [OF m moves_later [OF moves_ok_top [OF m] later_tracker(6)]] show ?thesis by (simp add: e)
qed

lemma moves_initialize:
  assumes ok: "co_ok S P names counter (c, z)" and q: "CoInitialize E zk P cb (c, z) = (b, c', z')"
  shows "co_moves S P names counter (c, z) (c', z')"
proof -
  obtain b1 z1 where i: "zkt_initialize E z = (b1, z1)" by fastforce
  obtain b2 z2 where t: "zkt_track E P z1 = (b2, z2)" by fastforce
  have l: "later names counter z z1" "later names counter z1 z2" "later names counter z2 (zkt_shutdown E z2)"
    using later_tracker(1) [of z] later_tracker(2) [of z1 P] later_tracker(5) i t by simp_all
  note l3 = later_trans [OF later_trans [OF l(1,2)] l(3)]
  have "(c' = c \<and> (z' = z \<or> z' = z1 \<or> z' = zkt_shutdown E z2)) \<or>
      (z' = z2 \<and> c' = (ResetState False (c\<lparr>co_zk := True, co_cb := cb, co_election_path := P\<rparr>))\<lparr>co_id := -1\<rparr>)"
    using q i t by (auto simp: CoInitialize_def split: if_splits)
  then show ?thesis
  proof (elim disjE conjE)
    assume "z' = z2" "c' = (ResetState False (c\<lparr>co_zk := True, co_cb := cb, co_election_path := P\<rparr>))\<lparr>co_id := -1\<rparr>"
    with co_ok_later [OF ok later_trans [OF l(1,2)]] later_trans [OF l(1,2)] show ?thesis
      by (auto simp: co_moves_def co_ok_def ResetState_def)
  qed (use moves_later [OF ok later_refl] moves_later [OF ok l(1)] moves_later [OF ok l3] in simp_all)
qed

lemma moves_shutdown:
  assumes ok: "co_ok S P names counter (c, z)" and q: "CoShutdown E (c, z) = Some (c', z')"
  shows "co_moves S P names counter (c, z) (c', z')"
proof (cases "co_zk c")
  case False
  with q have "c' = c" "z' = z" by (simp_all add: CoShutdown_def)
  then show ?thesis using moves_later [OF ok later_refl] by simp
next
  case True
  then obtain c1 where s: "DoQuitClean E True (c, zkt_shutdown E z) = Some (c1, z')"
    and c': "c' = c1\<lparr>co_zk := False, co_cb := False, co_election_path := []\<rparr>"
    using q by (auto simp: CoShutdown_def bind_eq_Some_conv OnQuit_def)
  note m = moves_later [OF ok later_tracker(5) [of z]]
  note m2 = co_moves_trans [OF m moves_quit [OF moves_ok_top [OF m] s]]
  have "co_id c1 < 0 \<and> co_actual_id c1 < 0"
    using s by (auto simp: DoQuitClean_def split: if_splits prod.splits)
  with m2 show ?thesis by (auto simp: co_moves_def co_ok_def c')
qed

end


section \<open>An election\<close>

text \<open>
  Councils over the node \<open>P\<close>, the callbacks their trackers make with any path and data (the data of the
  election node never asks for more than \<open>S\<close> seats), and everybody else.
\<close>

inductive election_step ::
  "'z zk_ops \<Rightarrow> string \<Rightarrow> ('z \<Rightarrow> string set) \<Rightarrow> ('z \<Rightarrow> nat) \<Rightarrow> int \<Rightarrow> council list \<times> 'z \<Rightarrow> council list \<times> 'z \<Rightarrow> bool"
  for E P names counter S where
  council_data: "i < length cs \<Longrightarrow> \<forall>d. val = Some d \<longrightarrow> atoi32 False (Some d) \<le> S \<Longrightarrow>
    CoOnData E path val (cs ! i, z) = Some (c, z') \<Longrightarrow> election_step E P names counter S (cs, z) (cs[i := c], z')"
| council_error: "i < length cs \<Longrightarrow> CoOnError E error (cs ! i, z) = Some (c, z') \<Longrightarrow>
    election_step E P names counter S (cs, z) (cs[i := c], z')"
| council_initialize: "i < length cs \<Longrightarrow> CoInitialize E zk P cb (cs ! i, z) = (b, c, z') \<Longrightarrow>
    election_step E P names counter S (cs, z) (cs[i := c], z')"
| council_shutdown: "i < length cs \<Longrightarrow> CoShutdown E (cs ! i, z) = Some (c, z') \<Longrightarrow>
    election_step E P names counter S (cs, z) (cs[i := c], z')"
| others: "later names counter z z' \<Longrightarrow> election_step E P names counter S (cs, z) (cs, z')"

definition election_ok :: "string \<Rightarrow> ('z \<Rightarrow> string set) \<Rightarrow> ('z \<Rightarrow> nat) \<Rightarrow> int \<Rightarrow> council list \<times> 'z \<Rightarrow> bool" where
  "election_ok P names counter S w \<longleftrightarrow> (case w of (cs, z) \<Rightarrow>
    (\<forall>i < length cs. co_ok S P names counter (cs ! i, z)) \<and>
    (\<forall>i < length cs. \<forall>j < length cs. i \<noteq> j \<and> 0 \<le> co_actual_id (cs ! i) \<longrightarrow> co_actual_id (cs ! i) \<noteq> co_actual_id (cs ! j)))"

lemma election_ok_move:
  assumes ok: "election_ok P names counter S (cs, z)" and i: "i < length cs"
    and m: "co_moves S P names counter (cs ! i, z) (c, z')"
  shows "election_ok P names counter S (cs[i := c], z')"
proof -
  have l: "later names counter z z'" using m by (simp add: co_moves_def)
  have co: "co_ok S P names counter (cs ! j, z)" if "j < length cs" for j using ok that by (simp add: election_ok_def)
  have all: "co_ok S P names counter (cs[i := c] ! j, z')" if "j < length cs" for j
    using co_ok_later [OF co [OF that] l] moves_ok_top [OF m] that by (cases "j = i") simp_all
  have act: "co_actual_id c = co_actual_id (cs ! i) \<or> co_actual_id c < 0 \<or> int (counter z) \<le> co_actual_id c"
    using m by (simp add: co_moves_def)
  have old: "co_actual_id (cs ! j) < int (counter z)" if "j < length cs" for j
    using co [OF that] by (simp add: co_ok_def)
  have diff: "co_actual_id (cs ! j) \<noteq> co_actual_id (cs ! k)"
    if "j < length cs" "k < length cs" "j \<noteq> k" "0 \<le> co_actual_id (cs ! j)" for j k
    using ok that by (simp add: election_ok_def)
  have one: "co_actual_id c \<noteq> co_actual_id (cs ! j)" if j: "j < length cs" "j \<noteq> i" "0 \<le> co_actual_id c" for j
  proof (cases "co_actual_id c = co_actual_id (cs ! i)")
    case True
    then show ?thesis using diff [OF i j(1)] j by simp
  next
    case False
    then show ?thesis using act old [OF j(1)] j(3) by auto
  qed
  have "co_actual_id (cs[i := c] ! j) \<noteq> co_actual_id (cs[i := c] ! k)"
    if j: "j < length cs" "k < length cs" "j \<noteq> k" "0 \<le> co_actual_id (cs[i := c] ! j)" for j k
  proof -
    consider "j = i" "k \<noteq> i" | "k = i" "j \<noteq> i" | "j \<noteq> i" "k \<noteq> i" using j(3) by blast
    then show ?thesis
    proof cases
      case 1
      then show ?thesis using one [of k] j by simp
    next
      case 2
      then show ?thesis using one [of j] j by (cases "0 \<le> co_actual_id c") auto
    next
      case 3
      then show ?thesis using diff [of j k] j by simp
    qed
  qed
  with all show ?thesis unfolding election_ok_def prod.case length_list_update by blast
qed

lemma election_ok_co:
  "election_ok P names counter S (cs, z) \<Longrightarrow> i < length cs \<Longrightarrow> co_ok S P names counter (cs ! i, z)"
  by (simp add: election_ok_def)

lemma election_step_keeps:
  assumes "zk_documented E P names counter"
  shows "election_step E P names counter S w w' \<Longrightarrow> election_ok P names counter S w \<Longrightarrow> election_ok P names counter S w'"
proof (induction rule: election_step.induct)
  case (council_data i cs val path z c z')
  from zookeeper.moves_data [OF zookeeper.intro [OF assms] election_ok_co [OF council_data(4,1)] council_data(2,3)]
  show ?case by (rule election_ok_move [OF council_data(4,1)])
next
  case (council_error i cs error z c z')
  from zookeeper.moves_error [OF zookeeper.intro [OF assms] election_ok_co [OF council_error(3,1)] council_error(2)]
  show ?case by (rule election_ok_move [OF council_error(3,1)])
next
  case (council_initialize i cs zk cb z b c z')
  from zookeeper.moves_initialize [OF zookeeper.intro [OF assms] election_ok_co [OF council_initialize(3,1)] council_initialize(2)]
  show ?case by (rule election_ok_move [OF council_initialize(3,1)])
next
  case (council_shutdown i cs z c z')
  from zookeeper.moves_shutdown [OF zookeeper.intro [OF assms] election_ok_co [OF council_shutdown(3,1)] council_shutdown(2)]
  show ?case by (rule election_ok_move [OF council_shutdown(3,1)])
next
  case (others z z' cs)
  have "co_ok S P names counter (cs ! i, z')" if "i < length cs" for i
    using co_ok_later [OF election_ok_co [OF others(2) that] others(1)] .
  with others(2) show ?case by (simp add: election_ok_def)
qed

lemma election_run_ok:
  assumes zk: "zk_documented E P names counter" and "0 \<le> S"
    and run: "(election_step E P names counter S)\<^sup>*\<^sup>* (map new_council ns, z0) w"
  shows "election_ok P names counter S w"
proof -
  have "step_invariant (election_step E P names counter S) (election_ok P names counter S)"
    by (rule step_invariant.intro) (rule election_step_keeps [OF zk])
  moreover have "election_ok P names counter S (map new_council ns, z0)"
    using assms(2) by (simp add: election_ok_def co_ok_def new_council_def)
  ultimately show ?thesis by (rule step_invariant.steps_keep [OF _ run])
qed

text \<open>
  C9. The seats are never exceeded: whatever the callbacks, errors and other participants do, the number
  of councilmen in office whose node exists is at most the largest size the election node ever held,
  also with stale lists of children and with nodes that vanish before their owner is told.
\<close>

theorem council_seats_bounded:
  assumes "zk_documented E P names counter" "0 \<le> S"
    and "(election_step E P names counter S)\<^sup>*\<^sup>* (map new_council ns, z0) (cs, z)"
  shows "card {i. i < length cs \<and> 0 \<le> co_id (cs ! i) \<and> (\<exists>s \<in> names z. number s = Some (co_id (cs ! i)))} \<le> nat S"
proof -
  have ok: "election_ok P names counter S (cs, z)" by (rule election_run_ok [OF assms])
  define I where "I = {i. i < length cs \<and> 0 \<le> co_id (cs ! i) \<and> (\<exists>s \<in> names z. number s = Some (co_id (cs ! i)))}"
  have fin: "finite I" by (simp add: I_def)
  have co: "co_ok S P names counter (cs ! i, z)" if "i \<in> I" for i using ok that by (simp add: election_ok_def I_def)
  have id: "co_id (cs ! i) = co_actual_id (cs ! i)" "0 \<le> co_id (cs ! i)" "int (rank (names z) (co_id (cs ! i))) \<le> S"
    "i < length cs" if "i \<in> I" for i using co [OF that] that by (auto simp: co_ok_def I_def)
  have inj: "inj_on (\<lambda>i. co_id (cs ! i)) I"
  proof (rule inj_onI, rule ccontr)
    fix i j assume ij: "i \<in> I" "j \<in> I" "co_id (cs ! i) = co_id (cs ! j)" "i \<noteq> j"
    then have "co_actual_id (cs ! i) = co_actual_id (cs ! j)" "0 \<le> co_actual_id (cs ! i)" using id by metis+
    with ok ij id(4) show False by (simp add: election_ok_def)
  qed
  show ?thesis
  proof (cases "I = {}")
    case True
    then show ?thesis unfolding I_def [symmetric] by simp
  next
    case False
    let ?ids = "(\<lambda>i. co_id (cs ! i)) ` I"
    have "Max ?ids \<in> ?ids" using fin False by (intro Max_in) simp_all
    then obtain m where m: "m \<in> I" "Max ?ids = co_id (cs ! m)" by blast
    have "?ids \<subseteq> {n \<in> numbers (names z). n \<le> co_id (cs ! m)}"
    proof
      fix n assume n: "n \<in> ?ids"
      then have "n \<le> co_id (cs ! m)" using Max_ge [of ?ids n] fin m(2) by simp
      with n show "n \<in> {n \<in> numbers (names z). n \<le> co_id (cs ! m)}" by (auto simp: I_def numbers_def)
    qed
    then have "card ?ids \<le> rank (names z) (co_id (cs ! m))" unfolding rank_def by (rule card_mono [OF finite_rank])
    then have "card I \<le> rank (names z) (co_id (cs ! m))" by (simp add: card_image [OF inj])
    with id(3) [OF m(1)] show ?thesis unfolding I_def [symmetric] by linarith
  qed
qed


section \<open>A service in memory\<close>

text \<open>The children of \<open>/e\<close> in the order of creation, and the counter.\<close>

type_synonym demo_state = "string list \<times> nat"

definition demo_zk :: "demo_state zk_ops" where
  "demo_zk = \<lparr>
     zk_create = (\<lambda>path (l, k). if int k < 2 ^ 31 then (ZOK, path @ pad10 k, (l @ [drop 3 path @ pad10 k], Suc k))
                               else (-1, [], (l, k))),
     zk_erase = (\<lambda>path (l, k). if drop 3 path \<in> set l then (ZOK, (filter (\<lambda>s. s \<noteq> drop 3 path) l, k)) else (ZNONODE, (l, k))),
     zk_get_children = (\<lambda>path (l, k). (ZOK, l, (l, k))),
     zkt_initialize = (\<lambda>z. (True, z)), zkt_track = (\<lambda>path z. (True, z)), zkt_track_existing = (\<lambda>path z. (True, z)),
     zkt_cancel = (\<lambda>path z. z), zkt_shutdown = (\<lambda>z. z), zkt_clear_error_state = (\<lambda>z. z), os_hostname = (\<lambda>z. None)\<rparr>"

definition demo_names :: "demo_state \<Rightarrow> string set" where
  "demo_names z = set (fst z)"

lemma demo_documented: "zk_documented demo_zk ''/e'' demo_names snd"
proof -
  have name: "number (name @ ''_'' @ pad10 k) = Some n \<Longrightarrow> n = int k" if "k < 2 ^ 31" for name k n
  proof (cases "name = []")
    case True
    have "\<not> is_digit (CHR ''_'')" by (simp add: is_digit_def)
    then have "CHR ''_'' \<notin> set (pad10 k)" using pad10_digits(2) [of k] unfolding all_digits_def by blast
    from last_underscore_name [OF this, of "[]"] have "last_underscore (''_'' @ pad10 k) = Some 0" by simp
    then have "number (''_'' @ pad10 k) = None" by (simp add: number_def parse_member_def)
    then show "number (name @ ''_'' @ pad10 k) = Some n \<Longrightarrow> n = int k" using True by simp
  next
    case False
    then show "number (name @ ''_'' @ pad10 k) = Some n \<Longrightarrow> n = int k"
      using parse_member_name [OF False that] by (simp add: number_def)
  qed
  have "later demo_names snd z z' \<and>
      (rc = ZOK \<longrightarrow> (\<exists>k. snd z \<le> k \<and> k < snd z' \<and> k < 2 ^ 31 \<and> actual = ''/e'' @ ''/'' @ name @ ''_'' @ pad10 k))"
    if "zk_create demo_zk (''/e'' @ ''/'' @ name @ ''_'') z = (rc, actual, z')" for name z rc actual z'
  proof (cases "snd z < 2 ^ 31")
    case True
    then have z': "z' = (fst z @ [name @ ''_'' @ pad10 (snd z)], Suc (snd z))" "actual = ''/e'' @ ''/'' @ name @ ''_'' @ pad10 (snd z)"
      using that by (auto simp: demo_zk_def case_prod_beta)
    have "later demo_names snd z z'" using name [OF True] by (auto simp: later_def demo_names_def z')
    with z' True show ?thesis by auto
  next
    case False
    with that show ?thesis by (auto simp: demo_zk_def case_prod_beta later_def ZOK_def)
  qed
  moreover have "later demo_names snd z (snd (zk_erase demo_zk path z))" for path z
    by (auto simp: demo_zk_def case_prod_beta later_def demo_names_def)
  ultimately show ?thesis
    unfolding zk_documented_def
    by (auto simp: demo_zk_def case_prod_beta later_refl demo_names_def)
qed

interpretation demo_service: zookeeper demo_zk "''/e''" demo_names snd
  by (rule zookeeper.intro [OF demo_documented])

text \<open>Two councils, one seat: \<open>a\<close> is elected, \<open>b\<close> waits.\<close>

definition demo_a :: council where
  "demo_a = \<lparr>co_zk = True, co_cb = True, co_actual_id = -1, co_election_path = ''/e'', co_node_name = [],
     co_name = ''a'', co_id = -1, co_size = -1, co_calls = []\<rparr>"

definition demo_elected :: council where
  "demo_elected = demo_a\<lparr>co_actual_id := 0, co_node_name := ''a'', co_id := 0, co_size := 1,
     co_calls := [CalledElected ''/e'' 0]\<rparr>"

definition demo_waiting :: council where
  "demo_waiting = demo_a\<lparr>co_name := ''b'', co_actual_id := 1, co_node_name := ''b'', co_size := 1\<rparr>"

definition demo_office :: "council list \<times> demo_state" where
  "demo_office = ([demo_elected, demo_waiting], ([''a_0000000000'', ''b_0000000001''], 2))"

abbreviation demo_run :: "council list \<times> demo_state \<Rightarrow> council list \<times> demo_state \<Rightarrow> bool" where
  "demo_run \<equiv> election_step demo_zk ''/e'' demo_names snd 1"

lemma demo_office_reached: "demo_run\<^sup>*\<^sup>* (map new_council [''a'', ''b''], ([], 0)) demo_office"
proof -
  let ?b = "demo_a\<lparr>co_name := ''b''\<rparr>" and ?z = "([''a_0000000000''], 1)"
  have 1: "CoInitialize demo_zk True ''/e'' True (new_council ''a'', ([], 0)) = (True, demo_a, ([], 0))"
    and 2: "CoInitialize demo_zk True ''/e'' True (new_council ''b'', ([], 0)) = (True, ?b, ([], 0))"
    and 3: "CoOnData demo_zk ''/e'' (Some ''1'') (demo_a, ([], 0)) = Some (demo_elected, ?z)"
    and 4: "CoOnData demo_zk ''/e'' (Some ''1'') (?b, ?z) = Some (demo_waiting, ([''a_0000000000'', ''b_0000000001''], 2))"
    and size: "atoi32 False (Some ''1'') = 1"
    by code_simp+
  have "demo_run\<^sup>*\<^sup>* ([new_council ''a'', new_council ''b''], ([], 0)) ([demo_a, new_council ''b''], ([], 0))"
    using council_initialize [where i = 0 and cs = "[new_council ''a'', new_council ''b'']" and z = "([], 0)" and P = "''/e''" and E = demo_zk and names = demo_names and counter = snd and S = 1]  1 by force
  also have "demo_run ([demo_a, new_council ''b''], ([], 0)) ([demo_a, ?b], ([], 0))"
    using council_initialize [where i = 1 and cs = "[demo_a, new_council ''b'']" and z = "([], 0)" and P = "''/e''" and E = demo_zk and names = demo_names and counter = snd and S = 1]  2 by force
  also have "demo_run ([demo_a, ?b], ([], 0)) ([demo_elected, ?b], ?z)"
    using council_data [where i = 0 and cs = "[demo_a, ?b]" and val = "Some ''1''" and z = "([], 0)" and P = "''/e''" and E = demo_zk and names = demo_names and counter = snd and S = 1]  3 size by force
  also have "demo_run ([demo_elected, ?b], ?z) demo_office"
    using council_data [where i = 1 and cs = "[demo_elected, ?b]" and val = "Some ''1''" and z = ?z and P = "''/e''" and E = demo_zk and names = demo_names and counter = snd and S = 1]  4 size
    by (force simp: demo_office_def)
  finally show ?thesis by simp
qed

lemma council_seats_bounded_witness:
  "card {i. i < 2 \<and> 0 \<le> co_id (fst demo_office ! i) \<and>
     (\<exists>s \<in> demo_names (snd demo_office). number s = Some (co_id (fst demo_office ! i)))} \<le> 1"
proof -
  have "demo_run\<^sup>*\<^sup>* (map new_council [''a'', ''b''], ([], 0)) (fst demo_office, snd demo_office)"
    using demo_office_reached by simp
  from council_seats_bounded [OF demo_documented _ this] show ?thesis by (simp add: demo_office_def numeral_2_eq_2)
qed

end
