(* ===== verification/Election_Life.thy ===== *)
theory Election_Life
  imports Election_Correct
begin

text \<open>
  More of a council's life: exactly when its assertions fail, the order of the calls of its callback (an
  invariant shown once for every property the steps of an election preserve, the locale
  \<open>council_invariant\<close>), and that a candidate watches enough; then the registry of names.
\<close>

section \<open>When a council aborts\<close>

lemma quit_returns: "co_zk c \<Longrightarrow> co_election_path c \<noteq> [] \<Longrightarrow> DoQuitClean E r (c, z) \<noteq> None"
  by (auto simp: DoQuitClean_def split: prod.split)

lemma create_returns:
  assumes "co_zk c" "co_election_path c \<noteq> []"
  shows "\<exists>b c' z'. CreateNodeAsNeeded E (c, z) = Some (b, c', z') \<and> co_zk c' \<and> co_election_path c' = co_election_path c \<and>
    (b \<longrightarrow> 0 \<le> co_actual_id c')"
proof (cases "0 \<le> co_actual_id c")
  case True
  then show ?thesis using assms by (auto simp: CreateNodeAsNeeded_def)
next
  case False
  show ?thesis
  proof (cases "UpdateName E z c")
    case None
    obtain c' z' where q: "DoQuitClean E False (c, z) = Some (c', z')"
      using quit_returns [OF assms] by (metis not_None_eq surj_pair)
    then have "co_zk c' \<and> co_election_path c' = co_election_path c"
      using assms by (auto simp: DoQuitClean_def split: if_splits prod.splits)
    with None False q show ?thesis by (auto simp: CreateNodeAsNeeded_def OnFired_def)
  next
    case (Some c1)
    have c1: "co_zk c1" "co_election_path c1 = co_election_path c"
      using Some assms by (auto simp: UpdateName_def split: if_splits option.splits)
    obtain rc actual z1 where cr: "zk_create E (co_election_path c1 @ ''/'' @ co_node_name c1 @ ''_'') z = (rc, actual, z1)"
      by (metis surj_pair)
    show ?thesis using Some False c1 cr by (auto simp: CreateNodeAsNeeded_def Let_def)
  qed
qed

lemma track_loop_returns: "track_loop E path cands p n z = None \<longleftrightarrow> False" if "n \<le> p"
  using that
proof (induction n arbitrary: p z)
  case 0
  then show ?case by simp
next
  case (Suc n)
  then show ?case by (auto split: prod.split)
qed

lemma attend_aborts:
  assumes "co_zk c" "co_election_path c \<noteq> []"
  shows "Attend E (c, z) = None \<longleftrightarrow>
    (\<exists>c1 z1 l z2. CreateNodeAsNeeded E (c, z) = Some (True, c1, z1) \<and>
       zk_get_children E (co_election_path c) z1 = (ZOK, l, z2) \<and> smap_find (members l) (co_actual_id c1) \<noteq> None \<and>
       (\<forall>k \<in> numbers (set l). co_actual_id c1 \<le> k) \<and> co_size c1 < 1)"
proof -
  obtain b c1 z1 where cr: "CreateNodeAsNeeded E (c, z) = Some (b, c1, z1)" and zk: "co_zk c1"
    and path: "co_election_path c1 = co_election_path c" and act: "b \<longrightarrow> 0 \<le> co_actual_id c1"
    using create_returns [OF assms] by metis
  have quit: "DoQuitClean E r (c1, w) \<noteq> None" for r w using quit_returns [OF zk] path assms(2) by simp
  obtain rc l z2 where ch: "zk_get_children E (co_election_path c) z1 = (rc, l, z2)" by (metis surj_pair)
  let ?a = "co_actual_id c1" and ?cands = "members l"
  let ?pos = "length (takeWhile (\<lambda>e. fst e \<le> ?a) ?cands)" and ?p = "length (takeWhile (\<lambda>e. fst e < ?a) ?cands)"
  have keys: "smap_wf ?cands" "fst ` set ?cands = numbers (set l)" using members_wf_keys by blast+
  show ?thesis
  proof (cases "b \<and> rc = ZOK \<and> smap_find ?cands ?a \<noteq> None")
    case False
    then have "Attend E (c, z) \<noteq> None"
      using cr zk path ch act quit
      by (cases b; cases "rc = ZOK") (auto simp: Attend_def GetCandidates_def OnFired_def)
    with False cr ch show ?thesis by auto
  next
    case True
    have fin: "finite {k \<in> fst ` set ?cands. k < ?a}" "finite {k \<in> fst ` set ?cands. k \<le> ?a}" by simp_all
    have "?a \<in> fst ` set ?cands" using True smap_find_None [of ?cands ?a] by simp
    then have "{k \<in> fst ` set ?cands. k \<le> ?a} = insert ?a {k \<in> fst ` set ?cands. k < ?a}" by auto
    then have pos: "?pos = Suc ?p" using count_upto [OF keys(1), of ?a] fin(1) by simp
    have first: "?p = 0 \<longleftrightarrow> (\<forall>k \<in> numbers (set l). ?a \<le> k)"
      using count_upto(2) [OF keys(1), of ?a] fin(1) keys(2) by auto
    have gc: "GetCandidates E (c1, z1) = (Some ?cands, c1, z2)" using ch True path by (simp add: GetCandidates_def)
    have att: "Attend E (c, z) =
        (if int ?pos \<le> co_size c1 then
              (if co_id c1 \<ge> 0 then Some (c1, z2)
               else let c2 = c1\<lparr>co_id := co_actual_id c1\<rparr> in
                 Some (if co_cb c2 then c2\<lparr>co_calls := co_calls c2 @ [CalledElected (co_election_path c2) (co_id c2)]\<rparr>
                       else c2, z2))
            else if ?p = 0 then None
            else Option.bind (track_loop E (co_election_path c1) ?cands ?p (nat (co_size c1)) z2)
              (\<lambda>(recoverable, z3). Some (OnShrinked recoverable c1, z3)))"
    proof -
      obtain y where "smap_find ?cands ?a = Some y" using True by auto
      then show ?thesis using True act zk by (simp add: Attend_def cr gc Let_def)
    qed
    have "Attend E (c, z) = None \<longleftrightarrow> \<not> int ?pos \<le> co_size c1 \<and> ?p = 0"
    proof (cases "int ?pos \<le> co_size c1 \<or> ?p = 0")
      case True
      then show ?thesis unfolding att by (auto simp: Let_def)
    next
      case False
      then have "nat (co_size c1) \<le> ?p" using pos by linarith
      then obtain y where "track_loop E (co_election_path c1) ?cands ?p (nat (co_size c1)) z2 = Some y"
        using track_loop_returns by (metis not_None_eq)
      moreover have "(int ?pos \<le> co_size c1) = False" "(?p = 0) = False" using False by blast+
      ultimately show ?thesis unfolding att by (simp only: if_False bind.bind_lunit case_prod_beta) simp
    qed
    also have "\<dots> \<longleftrightarrow> (\<forall>k \<in> numbers (set l). ?a \<le> k) \<and> co_size c1 < 1"
      using first pos by (cases "?p = 0") auto
    finally show ?thesis using True cr ch by auto
  qed
qed

text \<open>
  When a council aborts: in every state an election reaches, an initialized council gets through every
  error and through its shutdown, and its attempt to attend fails an assertion exactly when it is first
  in the queue while it knows no valid size.
\<close>

theorem council_aborts_iff:
  assumes "zk_documented E P names counter" "0 \<le> S" "P \<noteq> []"
    and "(election_step E P names counter S)\<^sup>*\<^sup>* (map new_council ns, z0) (cs, z)"
    and "i < length cs" "co_zk (cs ! i)"
  shows "CoOnError E error (cs ! i, z) \<noteq> None \<and> CoShutdown E (cs ! i, z) \<noteq> None \<and>
    (Attend E (cs ! i, z) = None \<longleftrightarrow>
      (\<exists>c1 z1 l z2. CreateNodeAsNeeded E (cs ! i, z) = Some (True, c1, z1) \<and> zk_get_children E P z1 = (ZOK, l, z2) \<and>
         smap_find (members l) (co_actual_id c1) \<noteq> None \<and> (\<forall>k \<in> numbers (set l). co_actual_id c1 \<le> k) \<and> co_size c1 < 1))"
proof -
  have "co_ok S P names counter (cs ! i, z)"
    using election_run_ok [OF assms(1,2,4)] assms(5) by (rule election_ok_co)
  then have path: "co_election_path (cs ! i) = P" using assms(6) by (simp add: co_ok_def)
  note q = quit_returns [OF assms(6)]
  have "CoOnError E error (cs ! i, z) \<noteq> None"
    using q [of E False z] path assms(3) by (auto simp: CoOnError_def OnFired_def)
  moreover have "CoShutdown E (cs ! i, z) \<noteq> None"
    using q [of E True "zkt_shutdown E z"] path assms(3) by (auto simp: CoShutdown_def OnQuit_def)
  moreover note attend_aborts [OF assms(6), of E z]
  ultimately show ?thesis using path assms(3) by simp
qed


text \<open>\<open>b\<close> waits behind \<open>a\<close>, the size is made invalid, and \<open>a\<close> goes: the next callback aborts \<open>b\<close>.\<close>

lemma demo_abort:
  "\<exists>cs z. demo_run\<^sup>*\<^sup>* (map new_council [''a'', ''b''], ([], 0)) (cs, z) \<and> 1 < length cs \<and> co_zk (cs ! 1) \<and>
    CoOnData demo_zk ''/e/a_0000000000'' None (cs ! 1, z) = None \<and> Attend demo_zk (cs ! 1, z) = None"
proof -
  let ?b = "demo_waiting\<lparr>co_size := -1\<rparr>" and ?z = "([''b_0000000001''], 2 :: nat)"
  have "CoOnData demo_zk ''/e'' (Some ''none'') (demo_waiting, ([''a_0000000000'', ''b_0000000001''], 2))
      = Some (?b, ([''a_0000000000'', ''b_0000000001''], 2))"
    and "atoi32 False (Some ''none'') = -1" by code_simp+
  then have "demo_run demo_office ([demo_elected, ?b], ([''a_0000000000'', ''b_0000000001''], 2))"
    using council_data [where i = 1 and cs = "[demo_elected, demo_waiting]" and val = "Some ''none''"
        and z = "([''a_0000000000'', ''b_0000000001''], 2)" and P = "''/e''" and E = demo_zk and names = demo_names
        and counter = snd and S = 1]
    by (force simp: demo_office_def)
  moreover have "demo_run ([demo_elected, ?b], ([''a_0000000000'', ''b_0000000001''], 2)) ([demo_elected, ?b], ?z)"
    by (rule others) (simp add: later_def demo_names_def)
  ultimately have run: "demo_run\<^sup>*\<^sup>* (map new_council [''a'', ''b''], ([], 0)) ([demo_elected, ?b], ?z)"
    using demo_office_reached by (meson rtranclp.rtrancl_into_rtrancl)
  have "CoOnData demo_zk ''/e/a_0000000000'' None (?b, ?z) = None" "Attend demo_zk (?b, ?z) = None" by code_simp+
  with run show ?thesis
    by (intro exI [of _ "[demo_elected, ?b]"] exI [of _ ?z]) (simp add: demo_waiting_def demo_a_def)
qed

lemma council_aborts_iff_witness:
  "\<exists>c z. CoShutdown demo_zk (c, z) \<noteq> None \<and> Attend demo_zk (c, z) = None \<and>
    (\<exists>c1 z1 l z2. CreateNodeAsNeeded demo_zk (c, z) = Some (True, c1, z1) \<and> zk_get_children demo_zk ''/e'' z1 = (ZOK, l, z2) \<and>
       smap_find (members l) (co_actual_id c1) \<noteq> None \<and> (\<forall>k \<in> numbers (set l). co_actual_id c1 \<le> k) \<and> co_size c1 < 1)"
proof -
  from demo_abort obtain cs z where run: "demo_run\<^sup>*\<^sup>* (map new_council [''a'', ''b''], ([], 0)) (cs, z)"
    and c: "1 < length cs" "co_zk (cs ! 1)" "Attend demo_zk (cs ! 1, z) = None" by blast
  have "0 \<le> (1 :: int)" "''/e'' \<noteq> []" by simp_all
  from council_aborts_iff [OF demo_documented this run c(1,2)] c(3) show ?thesis by blast
qed

section \<open>The calls of the callback\<close>

text \<open>A property of councils that every change an operation makes preserves.\<close>

locale council_invariant =
  fixes Q :: "council \<Rightarrow> bool"
  assumes keeps_lost: "Q c \<Longrightarrow> Q (DoLostClean r c)"
    and keeps_fields: "Q c \<Longrightarrow> Q (c\<lparr>co_actual_id := a\<rparr>)" "Q c \<Longrightarrow> Q (c\<lparr>co_size := n\<rparr>)" "Q c \<Longrightarrow> Q (c\<lparr>co_node_name := m\<rparr>)"
    and keeps_elected: "Q c \<Longrightarrow> co_zk c \<Longrightarrow> co_id c < 0 \<Longrightarrow> 0 \<le> co_actual_id c \<Longrightarrow>
      Q (if co_cb c then c\<lparr>co_id := co_actual_id c, co_calls := co_calls c @ [CalledElected (co_election_path c) (co_actual_id c)]\<rparr>
         else c\<lparr>co_id := co_actual_id c\<rparr>)"
    and keeps_initialize: "Q c \<Longrightarrow> \<not> co_zk c \<Longrightarrow> path \<noteq> [] \<Longrightarrow>
      Q ((ResetState False (c\<lparr>co_zk := True, co_cb := cb, co_election_path := path\<rparr>))\<lparr>co_id := -1\<rparr>)"
    and keeps_shutdown: "Q c \<Longrightarrow> co_id c < 0 \<Longrightarrow> Q (c\<lparr>co_zk := False, co_cb := False, co_election_path := []\<rparr>)"
begin

lemma keeps_quit: "Q c \<Longrightarrow> DoQuitClean E r (c, z) = Some (c', z') \<Longrightarrow> Q c'"
  by (auto simp: DoQuitClean_def keeps_lost keeps_fields split: if_splits prod.splits)

lemma keeps_create:
  assumes "Q c" "CreateNodeAsNeeded E (c, z) = Some (b, c', z')"
  shows "Q c'"
proof (cases "0 \<le> co_actual_id c")
  case True
  with assms show ?thesis by (simp add: CreateNodeAsNeeded_def)
next
  case False
  show ?thesis
  proof (cases "UpdateName E z c")
    case None
    with False assms show ?thesis using keeps_quit [OF assms(1)] by (auto simp: CreateNodeAsNeeded_def OnFired_def)
  next
    case (Some c1)
    then have "Q c1" using assms(1) by (auto simp: UpdateName_def keeps_fields split: if_splits option.splits)
    then show ?thesis using False Some assms(2)
      by (auto simp: CreateNodeAsNeeded_def Let_def keeps_fields split: if_splits prod.splits)
  qed
qed

lemma keeps_attend:
  assumes "Q c" "Attend E (c, z) = Some (c', z')"
  shows "Q c'"
proof -
  obtain b c1 z1 where cr: "CreateNodeAsNeeded E (c, z) = Some (b, c1, z1)"
    using assms(2) by (cases "CreateNodeAsNeeded E (c, z)") (auto simp: Attend_def)
  have q1: "Q c1" by (rule keeps_create [OF assms(1) cr])
  obtain rc l z2 where ch: "zk_get_children E (co_election_path c1) z1 = (rc, l, z2)" by (metis surj_pair)
  let ?cands = "members l"
  have quit: "DoQuitClean E False (c1, w) = Some (c', z') \<Longrightarrow> Q c'" for w by (rule keeps_quit [OF q1])
  show ?thesis
  proof (cases "b \<and> rc = ZOK \<and> smap_find ?cands (co_actual_id c1) \<noteq> None")
    case False
    then show ?thesis using assms(2) cr ch quit keeps_fields(2) [OF q1]
      by (cases b; cases "rc = ZOK") (auto simp: Attend_def GetCandidates_def OnFired_def split: if_splits)
  next
    case True
    then obtain y where y: "smap_find ?cands (co_actual_id c1) = Some y" by auto
    have elected: "Q (if co_cb c1 then c1\<lparr>co_id := co_actual_id c1, co_calls := co_calls c1 @ [CalledElected (co_election_path c1) (co_actual_id c1)]\<rparr>
        else c1\<lparr>co_id := co_actual_id c1\<rparr>)" if "co_id c1 < 0"
      by (rule keeps_elected [OF q1 _ that]) (use assms(2) cr True in \<open>auto simp: Attend_def split: if_splits\<close>)
    show ?thesis
    proof (cases "int (length (takeWhile (\<lambda>e. fst e \<le> co_actual_id c1) ?cands)) \<le> co_size c1")
      case pos: True
      then have "c' = (if co_id c1 \<ge> 0 then c1 else if co_cb c1 then c1\<lparr>co_id := co_actual_id c1, co_calls := co_calls c1 @ [CalledElected (co_election_path c1) (co_actual_id c1)]\<rparr>
        else c1\<lparr>co_id := co_actual_id c1\<rparr>)"
        using assms(2) cr ch True y by (auto simp: Attend_def GetCandidates_def Let_def split: if_splits)
      then show ?thesis using q1 elected by (cases "0 \<le> co_id c1") simp_all
    next
      case False
      then obtain r where "c' = DoLostClean r c1"
        using assms(2) cr ch True y
        by (auto simp: Attend_def GetCandidates_def Let_def OnShrinked_def bind_eq_Some_conv split: if_splits)
      then show ?thesis using keeps_lost [OF q1] by simp
    qed
  qed
qed

lemma keeps_data:
  assumes "Q c" "CoOnData E path val (c, z) = Some (c', z')"
  shows "Q c'"
  using assms keeps_attend [of c E _ c' z'] keeps_attend [of "c\<lparr>co_size := _\<rparr>" E _ c' z'] keeps_quit [of c E True z c' z']
    keeps_lost [of "c\<lparr>co_size := -1\<rparr>" True] keeps_fields(2) [of c]
  by (auto simp: CoOnData_def Let_def OnFired_def OnShrinked_def split: if_splits option.splits)

lemma keeps_error:
  assumes "Q c" "CoOnError E error (c, z) = Some (c', z')"
  shows "Q c'"
  using assms keeps_quit [of c E False z c'] keeps_lost [of c True] keeps_fields(1,2)
  by (auto simp: CoOnError_def OnFired_def OnLost_def bind_eq_Some_conv split: if_splits)

lemma keeps_init:
  assumes "Q c" "CoInitialize E zk path cb (c, z) = (b, c', z')"
  shows "Q c'"
proof -
  obtain b1 z1 where i: "zkt_initialize E z = (b1, z1)" by fastforce
  obtain b2 z2 where t: "zkt_track E path z1 = (b2, z2)" by fastforce
  show ?thesis
  proof (cases "path = []")
    case True
    with assms show ?thesis by (simp add: CoInitialize_def)
  next
    case False
    with assms i t keeps_initialize [OF assms(1), of path cb] show ?thesis
      by (auto simp: CoInitialize_def split: if_splits)
  qed
qed

lemma keeps_shut:
  assumes "Q c" "CoShutdown E (c, z) = Some (c', z')"
  shows "Q c'"
proof (cases "co_zk c")
  case True
  then obtain c1 where s: "DoQuitClean E True (c, zkt_shutdown E z) = Some (c1, z')"
    and c': "c' = c1\<lparr>co_zk := False, co_cb := False, co_election_path := []\<rparr>"
    using assms(2) by (auto simp: CoShutdown_def bind_eq_Some_conv OnQuit_def)
  have "co_id c1 < 0" using s by (auto simp: DoQuitClean_def split: if_splits prod.splits)
  with keeps_quit [OF assms(1) s] c' keeps_shutdown show ?thesis by simp
qed (use assms in \<open>simp add: CoShutdown_def\<close>)

lemma keeps_step:
  "election_step E P names counter S w w' \<Longrightarrow> \<forall>c \<in> set (fst w). Q c \<Longrightarrow> \<forall>c \<in> set (fst w'). Q c"
proof (induction rule: election_step.induct)
  case (council_data i cs val path z c z')
  then have "Q (cs ! i)" by simp
  from keeps_data [OF this council_data(3)] council_data(4) show ?case by (auto dest: set_update_subset_insert [THEN subsetD])
next
  case (council_error i cs error z c z')
  then have "Q (cs ! i)" by simp
  from keeps_error [OF this council_error(2)] council_error(3) show ?case by (auto dest: set_update_subset_insert [THEN subsetD])
next
  case (council_initialize i cs zk cb z b c z')
  then have "Q (cs ! i)" by simp
  from keeps_init [OF this council_initialize(2)] council_initialize(3) show ?case by (auto dest: set_update_subset_insert [THEN subsetD])
next
  case (council_shutdown i cs z c z')
  then have "Q (cs ! i)" by simp
  from keeps_shut [OF this council_shutdown(2)] council_shutdown(3) show ?case by (auto dest: set_update_subset_insert [THEN subsetD])
next
  case (others z z' cs)
  then show ?case by simp
qed

lemma keeps_run:
  assumes "(election_step E P names counter S)\<^sup>*\<^sup>* w w'" "\<forall>c \<in> set (fst w). Q c"
  shows "\<forall>c \<in> set (fst w'). Q c"
proof -
  have "step_invariant (election_step E P names counter S) (\<lambda>w. \<forall>c \<in> set (fst w). Q c)"
    by (rule step_invariant.intro) (rule keeps_step)
  then show ?thesis using assms by (rule step_invariant.steps_keep)
qed

end


fun elected_call :: "council_call \<Rightarrow> bool" where
  "elected_call (CalledElected path i) = True"
| "elected_call (CalledFired path recoverable) = False"

definition orderly :: "council_call list \<Rightarrow> bool" where
  "orderly calls \<longleftrightarrow> successively (\<lambda>x y. \<not> (elected_call x \<and> elected_call y)) calls"

definition calls_ok :: "council \<Rightarrow> bool" where
  "calls_ok c \<longleftrightarrow> orderly (co_calls c) \<and> (0 \<le> co_id c \<longrightarrow> co_zk c) \<and>
    (if co_cb c \<and> 0 \<le> co_id c then co_calls c \<noteq> [] \<and> last (co_calls c) = CalledElected (co_election_path c) (co_id c)
     else co_calls c = [] \<or> \<not> elected_call (last (co_calls c)))"

lemma orderly_snoc: "orderly (xs @ [x]) \<longleftrightarrow> orderly xs \<and> (xs = [] \<or> \<not> (elected_call (last xs) \<and> elected_call x))"
  by (auto simp: orderly_def successively_append_iff)

lemma orderly_call:
  "orderly xs \<Longrightarrow> xs = [] \<or> \<not> elected_call (last xs) \<Longrightarrow> orderly (xs @ [x])"
  by (auto simp: orderly_snoc)

interpretation calls: council_invariant calls_ok
proof
  show "calls_ok (DoLostClean r c)" if "calls_ok c" for c r
    using that by (cases "co_cb c"; cases "0 \<le> co_id c")
      (auto simp: calls_ok_def DoLostClean_def ResetState_def Let_def orderly_snoc)
  show "calls_ok (if co_cb c then c\<lparr>co_id := co_actual_id c, co_calls := co_calls c @ [CalledElected (co_election_path c) (co_actual_id c)]\<rparr>
         else c\<lparr>co_id := co_actual_id c\<rparr>)" if "calls_ok c" "co_zk c" "co_id c < 0" "0 \<le> co_actual_id c" for c
    using that by (auto simp: calls_ok_def orderly_snoc)
qed (auto simp: calls_ok_def ResetState_def split: if_splits)

text \<open>
  The callback hears a consistent story: in every state an election reaches, no council told its callback
  twice in a row that it was elected, and the last call was the election to its present number exactly
  while the council is in office.
\<close>

theorem council_calls_alternate:
  assumes "(election_step E P names counter S)\<^sup>*\<^sup>* (map new_council ns, z0) (cs, z)" "i < length cs"
  shows "orderly (co_calls (cs ! i)) \<and>
    (co_cb (cs ! i) \<longrightarrow> (0 \<le> co_id (cs ! i) \<longleftrightarrow> co_calls (cs ! i) \<noteq> [] \<and> elected_call (last (co_calls (cs ! i))))) \<and>
    (co_cb (cs ! i) \<and> 0 \<le> co_id (cs ! i) \<longrightarrow> last (co_calls (cs ! i)) = CalledElected (co_election_path (cs ! i)) (co_id (cs ! i)))"
proof -
  have "\<forall>c \<in> set (fst (map new_council ns, z0)). calls_ok c" by (auto simp: calls_ok_def new_council_def orderly_def)
  from calls.keeps_run [OF assms(1) this] assms(2) have "calls_ok (cs ! i)" by simp
  then show ?thesis by (auto simp: calls_ok_def split: if_splits)
qed

lemma council_calls_alternate_witness:
  "last (co_calls (fst demo_office ! 0)) = CalledElected ''/e'' 0"
proof -
  have "demo_run\<^sup>*\<^sup>* (map new_council [''a'', ''b''], ([], 0)) (fst demo_office, snd demo_office)"
    using demo_office_reached by simp
  from council_calls_alternate [OF this, of 0] show ?thesis
    by (simp add: demo_office_def demo_elected_def demo_a_def)
qed

section \<open>A candidate watches enough\<close>

lemma track_loop_watches:
  "track_loop E path cands p n z = Some (True, z') \<Longrightarrow> j < n \<Longrightarrow>
    \<exists>w w'. zkt_track_existing E (member_path path (snd (cands ! (p - 1 - j))) (fst (cands ! (p - 1 - j)))) w = (True, w')"
proof (induction n arbitrary: p z j)
  case 0
  then show ?case by simp
next
  case (Suc n)
  obtain t z1 where t: "zkt_track_existing E (member_path path (snd (cands ! (p - 1))) (fst (cands ! (p - 1)))) z = (t, z1)"
    by fastforce
  have p: "p \<noteq> 0" by (rule notI) (use Suc.prems in simp)
  with Suc.prems(1) t have t1: "t" "track_loop E path cands (p - 1) n z1 = Some (True, z')" by (auto split: if_splits)
  show ?case
  proof (cases j)
    case 0
    with t t1(1) show ?thesis by auto
  next
    case (Suc i)
    with Suc.IH [OF t1(2), of i] Suc.prems(2) show ?thesis by (simp add: diff_diff_left)
  qed
qed

lemma smap_wf_nth: "smap_wf m \<Longrightarrow> i < j \<Longrightarrow> j < length m \<Longrightarrow> fst (m ! i) < fst (m ! j)"
  by (auto simp: smap_wf_def sorted_wrt_iff_nth_less)

lemma nth_takeWhile_less:
  "i < length (takeWhile P m) \<Longrightarrow> P (m ! i)"
  by (metis nth_mem set_takeWhileD takeWhile_nth)

text \<open>
  C31. Nobody is forgotten in the queue: when an attempt to attend leaves a council waiting with a valid size,
  it watches as many members with smaller numbers as there are seats, and as long as these and its own
  node exist, whatever else comes and goes, it is too far back to be elected.
\<close>

theorem council_waits_while_full:
  assumes "co_zk c" "co_election_path c \<noteq> []" "Attend E (c, z) = Some (c', z')" "co_id c' = -1" "1 \<le> co_size c'"
  shows "\<exists>W. finite W \<and> int (card W) = co_size c' \<and>
    (\<forall>k \<in> W. k < co_actual_id c' \<and> (\<exists>name w w'. zkt_track_existing E (member_path (co_election_path c) name k) w = (True, w'))) \<and>
    (\<forall>N. W \<union> {co_actual_id c'} \<subseteq> numbers N \<longrightarrow> co_size c' < int (rank N (co_actual_id c')))"
proof -
  obtain b c1 z1 where cr: "CreateNodeAsNeeded E (c, z) = Some (b, c1, z1)" and zk: "co_zk c1"
    and path: "co_election_path c1 = co_election_path c" and act: "b \<longrightarrow> 0 \<le> co_actual_id c1"
    using create_returns [OF assms(1,2)] by metis
  obtain rc l z2 where ch: "zk_get_children E (co_election_path c) z1 = (rc, l, z2)" by (metis surj_pair)
  let ?a = "co_actual_id c1" and ?cands = "members l"
  let ?pos = "length (takeWhile (\<lambda>e. fst e \<le> ?a) ?cands)" and ?p = "length (takeWhile (\<lambda>e. fst e < ?a) ?cands)"
  have fired: "DoQuitClean E False (c1, w) \<noteq> Some (c', z')" for w
    using assms(4) by (auto simp: DoQuitClean_def split: prod.split)
  have ok: "b" "rc = ZOK" "smap_find ?cands ?a \<noteq> None"
    using assms(3,5) cr zk path act ch fired by (auto simp: Attend_def GetCandidates_def OnFired_def split: if_splits)
  then obtain y where y: "smap_find ?cands ?a = Some y" by auto
  have gc: "GetCandidates E (c1, z1) = (Some ?cands, c1, z2)" using ch ok(2) path by (simp add: GetCandidates_def)
  have usable: "(?a < 0 \<or> \<not> co_zk c1) = False" using act zk ok(1) by simp
  have att: "(if int ?pos \<le> co_size c1 then
              (if co_id c1 \<ge> 0 then Some (c1, z2)
               else let c2 = c1\<lparr>co_id := co_actual_id c1\<rparr> in
                 Some (if co_cb c2 then c2\<lparr>co_calls := co_calls c2 @ [CalledElected (co_election_path c2) (co_id c2)]\<rparr>
                       else c2, z2))
            else if ?p = 0 then None
            else Option.bind (track_loop E (co_election_path c1) ?cands ?p (nat (co_size c1)) z2)
              (\<lambda>(recoverable, z3). Some (OnShrinked recoverable c1, z3))) = Some (c', z')"
    using assms(3) by (simp only: Attend_def cr bind.bind_lunit prod.case \<open>b\<close> not_True_eq_False if_False usable gc option.case
        Let_def y option.distinct)
  have full: "\<not> int ?pos \<le> co_size c1"
    using att assms(4) act ok(1) by (auto simp: Let_def split: if_splits)
  have p0: "?p \<noteq> 0" by (rule notI) (use att full in simp)
  obtain r where t: "track_loop E (co_election_path c1) ?cands ?p (nat (co_size c1)) z2 = Some (r, z')"
    and c': "c' = DoLostClean r c1"
    using att full p0 by (auto simp: OnShrinked_def bind_eq_Some_conv split: if_splits)
  have r: "r" using c' assms(4) by (auto split: if_splits)
  then have same: "co_size c' = co_size c1" "co_actual_id c' = ?a" using c' by simp_all
  let ?n = "nat (co_size c1)"
  have n: "1 \<le> co_size c1" using assms(5) same by simp
  have wf: "smap_wf ?cands" "fst ` set ?cands = numbers (set l)" using members_wf_keys by blast+
  have "?a \<in> fst ` set ?cands" using y smap_find_None [of ?cands ?a] by simp
  then have "{k \<in> fst ` set ?cands. k \<le> ?a} = insert ?a {k \<in> fst ` set ?cands. k < ?a}" by auto
  then have "?pos = Suc ?p" using count_upto [OF wf(1), of ?a] by simp
  then have np: "?n \<le> ?p" using full by linarith
  have plen: "?p \<le> length ?cands" by (rule length_takeWhile_le)
  define W where "W = (\<lambda>j. fst (?cands ! (?p - 1 - j))) ` {..<?n}"
  have inj: "inj_on (\<lambda>j. fst (?cands ! (?p - 1 - j))) {..<?n}"
  proof (rule linorder_inj_onI)
    fix i j :: nat assume ij: "i < j" "i \<in> {..<?n}" "j \<in> {..<?n}"
    then have "?p - 1 - j < ?p - 1 - i" "?p - 1 - i < length ?cands" using np plen by auto
    then show "fst (?cands ! (?p - 1 - i)) \<noteq> fst (?cands ! (?p - 1 - j))"
      using smap_wf_nth [OF wf(1)] by fastforce
  qed auto
  have "card W = ?n" by (simp only: W_def card_image [OF inj] card_lessThan)
  then have card: "int (card W) = co_size c'" using n same by simp
  have below: "k < ?a \<and> (\<exists>name w w'. zkt_track_existing E (member_path (co_election_path c) name k) w = (True, w'))" if "k \<in> W" for k
  proof -
    obtain j where j: "j < ?n" "k = fst (?cands ! (?p - 1 - j))" using \<open>k \<in> W\<close> unfolding W_def by blast
    have "?p - 1 - j < ?p" using p0 by simp
    then have "k < ?a" using nth_takeWhile_less [of "?p - 1 - j" "\<lambda>e. fst e < ?a" ?cands] j(2) by simp
    moreover have "track_loop E (co_election_path c1) ?cands ?p ?n z2 = Some (True, z')" using t r by simp
    from track_loop_watches [OF this j(1)] obtain w w' where
      "zkt_track_existing E (member_path (co_election_path c) (snd (?cands ! (?p - 1 - j))) k) w = (True, w')"
      unfolding path j(2) by blast
    ultimately show ?thesis by blast
  qed
  have fin: "finite W" by (simp only: W_def finite_imageI finite_lessThan)
  have "?a \<notin> W" using below by blast
  have le: "\<forall>k \<in> W. k \<le> ?a" using below by (meson less_imp_le)
  have "co_size c' < int (rank N ?a)" if N: "W \<union> {?a} \<subseteq> numbers N" for N
  proof -
    have "W \<union> {?a} \<subseteq> {n \<in> numbers N. n \<le> ?a}" using N le by blast
    then have "card (W \<union> {?a}) \<le> rank N ?a" unfolding rank_def by (rule card_mono [OF finite_rank])
    moreover have "card (W \<union> {?a}) = Suc (card W)" using \<open>?a \<notin> W\<close> fin by simp
    ultimately show ?thesis using card by linarith
  qed
  with fin card below show ?thesis unfolding same(2) by blast
qed

lemma council_waits_while_full_witness:
  "\<exists>W. finite W \<and> card W = 1 \<and> (\<forall>N. W \<union> {1} \<subseteq> numbers N \<longrightarrow> 1 < int (rank N 1))"
proof -
  have "Attend demo_zk (demo_waiting, ([''a_0000000000'', ''b_0000000001''], 2)) =
      Some (demo_waiting, ([''a_0000000000'', ''b_0000000001''], 2))" by code_simp
  from council_waits_while_full [OF _ _ this] show ?thesis by (auto simp: demo_waiting_def demo_a_def)
qed


section \<open>The registry of names\<close>

lemma members_find:
  "s \<in> set l \<Longrightarrow> parse_member s = Some (i, name) \<Longrightarrow> \<forall>t \<in> set l. number t = Some i \<longrightarrow> t = s \<Longrightarrow>
    smap_find (members l) i = Some name"
proof -
  define f where "f = (\<lambda>s m. case parse_member s of None \<Rightarrow> m | Some (i, name) \<Rightarrow> smap_insert i name m)"
  assume s: "s \<in> set l" "parse_member s = Some (i, name)" and uniq: "\<forall>t \<in> set l. number t = Some i \<longrightarrow> t = s"
  have "smap_find (fold f l m) i = Some name"
    if "smap_wf m" "s \<in> set l \<and> smap_find m i = None \<or> smap_find m i = Some name" "\<forall>t \<in> set l. number t = Some i \<longrightarrow> t = s" for m l
    using that
  proof (induction l arbitrary: m)
    case Nil
    then show ?case by simp
  next
    case (Cons t l)
    have wf: "smap_wf (f t m)" using Cons.prems(1) by (auto simp: f_def split: option.splits)
    have "s \<in> set l \<and> smap_find (f t m) i = None \<or> smap_find (f t m) i = Some name"
    proof (cases "t = s")
      case True
      then show ?thesis using Cons.prems(1,2) s(2) by (auto simp: f_def split: option.splits)
    next
      case False
      then have "number t \<noteq> Some i" using Cons.prems(3) by auto
      then have "smap_find (f t m) i = smap_find m i"
        using Cons.prems(1) by (auto simp: f_def number_def split: option.splits)
      with Cons.prems(2) False show ?thesis by auto
    qed
    from Cons.IH [OF wf this] Cons.prems(3) show ?case by simp
  qed
  from this [of "[]" l] s uniq show ?thesis by (simp add: members_def f_def)
qed

text \<open>
  A name that is registered can be read: after a first \<open>Attend\<close>, the registry built from any list of
  children that contains the node created, and no other node of its number, maps the number to the
  very name given, whatever characters it has.
\<close>

theorem naming_reads_names:
  assumes "zk_documented E P names counter"
    and "NmAttend E True P identity cb (n, z) = (True, n', z')" "nm_actual_path n = []"
  shows "\<exists>k. nm_actual_path n' = P @ ''/'' @ identity @ ''_'' @ pad10 k \<and>
    (\<forall>l m. identity @ ''_'' @ pad10 k \<in> set l \<and>
      (\<forall>t \<in> set l. number t = Some (int k) \<longrightarrow> t = identity @ ''_'' @ pad10 k) \<longrightarrow>
      smap_find (NmGet (NmOnChildren P (Some l) m)) (int k) = Some identity)"
proof -
  have pre: "naming_path_ok True P" "identity \<noteq> []" "\<not> nm_zk n"
    using assms(2) by (auto simp: NmAttend_def split: if_splits)
  obtain rc actual z1 where cr: "zk_create E (P @ ''/'' @ identity @ ''_'') z = (rc, actual, z1)" by (metis surj_pair)
  have rc: "rc = ZOK"
    using assms(2,3) pre cr by (auto simp: NmAttend_def CreateNode_def split: if_splits)
  then obtain k where k: "k < 2 ^ 31" "actual = P @ ''/'' @ identity @ ''_'' @ pad10 k"
    using zookeeper.later_create [OF zookeeper.intro [OF assms(1)] cr] by blast
  have dw: "DoWatch E P cb (n\<lparr>nm_actual_path := actual\<rparr>, z1) = (True, n', z')"
    using assms(2,3) pre cr rc by (simp add: NmAttend_def CreateNode_def)
  have "nm_actual_path n' = actual"
    using dw by (auto simp: DoWatch_def split: prod.splits if_splits)
  moreover have "smap_find (NmGet (NmOnChildren P (Some l) m)) (int k) = Some identity"
    if "identity @ ''_'' @ pad10 k \<in> set l" "\<forall>t \<in> set l. number t = Some (int k) \<longrightarrow> t = identity @ ''_'' @ pad10 k" for l m
  proof -
    have "P \<noteq> []" "hd P = CHR ''/''" using pre(1) by (auto simp: naming_path_ok_def)
    moreover have "smap_find (members l) (int k) = Some identity"
      by (rule members_find [OF that(1) parse_member_name [OF pre(2) k(1)] that(2)])
    ultimately show ?thesis by (simp add: NmGet_def NmOnChildren_def nm_call_def Let_def)
  qed
  ultimately show ?thesis using k(2) by (intro exI [of _ k]) blast
qed

lemma naming_reads_names_witness:
  "smap_find (NmGet (NmOnChildren ''/e'' (Some [''host_1_0000000000'']) new_naming)) 0 = Some ''host_1''"
proof -
  have "NmAttend demo_zk True ''/e'' ''host_1'' True (new_naming, ([], 0)) =
      (True, new_naming\<lparr>nm_actual_path := ''/e/host_1_0000000000'', nm_path := ''/e'', nm_cb := True, nm_zk := True\<rparr>,
       ([''host_1_0000000000''], 1))" by code_simp
  from naming_reads_names [OF demo_documented this] obtain k
    where "''/e/host_1_0000000000'' = ''/e'' @ ''/'' @ ''host_1'' @ ''_'' @ pad10 k"
      and find: "\<forall>l m. ''host_1'' @ ''_'' @ pad10 k \<in> set l \<and>
        (\<forall>t \<in> set l. number t = Some (int k) \<longrightarrow> t = ''host_1'' @ ''_'' @ pad10 k) \<longrightarrow>
        smap_find (NmGet (NmOnChildren ''/e'' (Some l) m)) (int k) = Some ''host_1''"
    by (auto simp: new_naming_def)
  then have pad: "pad10 k = ''0000000000''" by simp
  then have "k = digits_value ''0000000000''" using pad10_digits(3) [of k] by simp
  then have "k = 0" by (simp add: digits_value_def digit_value_def)
  with find pad show ?thesis by simp
qed

text \<open>
  When tracking cannot be started, \<open>Attend\<close> fails but leaves its node, and the next \<open>Attend\<close>, with any name,
  keeps that node instead of registering its own.
\<close>

lemma failed_attend_stays_registered:
  assumes "naming_path_ok True P" "identity \<noteq> []" "\<not> nm_zk n" "nm_actual_path n = []"
    and "zk_create E (P @ ''/'' @ identity @ ''_'') z = (ZOK, actual, z1)" "actual \<noteq> []"
    and "zkt_initialize E z1 = (False, z2)"
  shows "NmAttend E True P identity cb (n, z) = (False, n\<lparr>nm_actual_path := actual\<rparr>, z2)"
    and "NmShutdown E (n\<lparr>nm_actual_path := actual\<rparr>, z2) = Some (n\<lparr>nm_actual_path := actual\<rparr>, z2)"
    and "CreateNode E P' identity' (n\<lparr>nm_actual_path := actual\<rparr>, z2) = (True, n\<lparr>nm_actual_path := actual\<rparr>, z2)"
  using assms by (simp_all add: NmAttend_def CreateNode_def DoWatch_def NmShutdown_def)

end
