(* ===== verification/Safe_Io.thy ===== *)
theory Safe_Io
  imports Flinter_Prelude "HOL-Library.Monad_Syntax" "HOL-Library.Signed_Division"
begin

text \<open>
  \<open>flinter/safeio.c\<close>: system calls that are retried when a signal interrupts them, and transfers with a
  time limit. What the kernel answers is a parameter, \<open>kernel\<close>; the state of the calling thread is an
  \<open>io_state\<close>. A call that blocks forever, and a loop that never ends, are \<open>None\<close>; a failed assertion is the
  result \<open>None\<close> of a call that ends. \<open>io_bytes\<close> is what the kernel has taken from, or put into, the buffer
  of the call, so after a read it is the filled part of the buffer.
\<close>

section \<open>The kernel\<close>

datatype errnum = EINTR | EAGAIN | EWOULDBLOCK | EPIPE | ETIMEDOUT | EINVAL | EINPROGRESS | Errno int

text \<open>
  A call gets its arguments, and where it matters whether the descriptor has \<open>O_NONBLOCK\<close>; it fails with an
  error number or gives a value. \<open>k_clock\<close> is \<open>get_monotonic_timestamp\<close>, \<open>k_poll\<close> answers whether the
  one descriptor is ready, \<open>k_so_error\<close> the pending error of a socket.
\<close>

record 'w kernel =
  k_clock :: "'w \<Rightarrow> int \<times> 'w"
  k_getfl :: "int \<Rightarrow> 'w \<Rightarrow> ((errnum + unit) \<times> 'w) option"
  k_setfl :: "int \<Rightarrow> bool \<Rightarrow> 'w \<Rightarrow> ((errnum + unit) \<times> 'w) option"
  k_poll :: "int \<Rightarrow> int \<Rightarrow> 'w \<Rightarrow> ((errnum + bool) \<times> 'w) option"
  k_read :: "bool \<Rightarrow> int \<Rightarrow> int \<Rightarrow> bool \<Rightarrow> nat \<Rightarrow> 'w \<Rightarrow> ((errnum + string) \<times> 'w) option"
  k_write :: "bool \<Rightarrow> int \<Rightarrow> int \<Rightarrow> string option \<Rightarrow> string \<Rightarrow> 'w \<Rightarrow> ((errnum + nat) \<times> 'w) option"
  k_accept :: "bool \<Rightarrow> int \<Rightarrow> 'w \<Rightarrow> ((errnum + int) \<times> 'w) option"
  k_connect :: "bool \<Rightarrow> int \<Rightarrow> string \<Rightarrow> 'w \<Rightarrow> ((errnum + unit) \<times> 'w) option"
  k_so_error :: "int \<Rightarrow> 'w \<Rightarrow> ((errnum + errnum option) \<times> 'w) option"
  k_close :: "int \<Rightarrow> 'w \<Rightarrow> ((errnum + unit) \<times> 'w) option"
  k_socket :: "'w \<Rightarrow> ((errnum + int) \<times> 'w) option"
  k_getaddrinfo :: "string \<Rightarrow> string \<Rightarrow> 'w \<Rightarrow> string list option \<times> 'w"

record 'w io_state =
  io_world :: 'w
  io_errno :: errnum
  io_nonblock :: "int set"
  io_open :: "int set"
  io_bytes :: string

type_synonym ('w, 'a) io = "'w io_state \<Rightarrow> ('a \<times> 'w io_state) option"

text \<open>A system call: it changes the world, and \<open>errno\<close> if it fails.\<close>

definition syscall :: "('w \<Rightarrow> ((errnum + 'a) \<times> 'w) option) \<Rightarrow> ('w, errnum + 'a) io" where
  "syscall call s = (case call (io_world s) of
      None \<Rightarrow> None
    | Some (Inl e, w) \<Rightarrow> Some (Inl e, s\<lparr>io_world := w, io_errno := e\<rparr>)
    | Some (Inr a, w) \<Rightarrow> Some (Inr a, s\<lparr>io_world := w\<rparr>))"

definition sys_clock :: "'w kernel \<Rightarrow> 'w io_state \<Rightarrow> int \<times> 'w io_state" where
  "sys_clock K s = (let (t, w) = k_clock K (io_world s) in (t, s\<lparr>io_world := w\<rparr>))"

definition sys_getfl :: "'w kernel \<Rightarrow> int \<Rightarrow> ('w, errnum + bool) io" where
  "sys_getfl K fd s = do {
     (r, s) \<leftarrow> syscall (k_getfl K fd) s;
     Some (map_sum id (\<lambda>_. fd \<in> io_nonblock s) r, s) }"

definition sys_setfl :: "'w kernel \<Rightarrow> int \<Rightarrow> bool \<Rightarrow> ('w, errnum + unit) io" where
  "sys_setfl K fd nonblock s = do {
     (r, s) \<leftarrow> syscall (k_setfl K fd nonblock) s;
     Some (r, case r of Inl _ \<Rightarrow> s
       | Inr _ \<Rightarrow> s\<lparr>io_nonblock := (if nonblock then insert fd (io_nonblock s) else io_nonblock s - {fd})\<rparr>) }"

definition sys_poll :: "'w kernel \<Rightarrow> int \<Rightarrow> int \<Rightarrow> ('w, errnum + bool) io" where
  "sys_poll K fd timeout = syscall (k_poll K fd timeout)"

text \<open>\<open>read\<close>, \<open>recv\<close> and \<open>recvfrom\<close>, which also fills in an address, are one call with more or fewer arguments.\<close>

definition sys_read :: "'w kernel \<Rightarrow> int \<Rightarrow> int \<Rightarrow> bool \<Rightarrow> nat \<Rightarrow> ('w, errnum + string) io" where
  "sys_read K fd flags addr count s = do {
     (r, s) \<leftarrow> syscall (k_read K (fd \<in> io_nonblock s) fd flags addr count) s;
     Some (r, case r of Inl _ \<Rightarrow> s | Inr b \<Rightarrow> s\<lparr>io_bytes := io_bytes s @ b\<rparr>) }"

definition sys_write :: "'w kernel \<Rightarrow> int \<Rightarrow> int \<Rightarrow> string option \<Rightarrow> string \<Rightarrow> ('w, errnum + nat) io" where
  "sys_write K fd flags addr buf s = do {
     (r, s) \<leftarrow> syscall (k_write K (fd \<in> io_nonblock s) fd flags addr buf) s;
     Some (r, case r of Inl _ \<Rightarrow> s | Inr n \<Rightarrow> s\<lparr>io_bytes := io_bytes s @ take n buf\<rparr>) }"

definition sys_accept :: "'w kernel \<Rightarrow> int \<Rightarrow> ('w, errnum + int) io" where
  "sys_accept K fd s = do {
     (r, s) \<leftarrow> syscall (k_accept K (fd \<in> io_nonblock s) fd) s;
     Some (r, case r of Inl _ \<Rightarrow> s | Inr p \<Rightarrow> s\<lparr>io_open := insert p (io_open s)\<rparr>) }"

definition sys_connect :: "'w kernel \<Rightarrow> int \<Rightarrow> string \<Rightarrow> ('w, errnum + unit) io" where
  "sys_connect K fd addr s = syscall (k_connect K (fd \<in> io_nonblock s) fd addr) s"

text \<open>A descriptor is gone after \<open>close\<close> even if it fails.\<close>

definition sys_close :: "'w kernel \<Rightarrow> int \<Rightarrow> ('w, errnum + unit) io" where
  "sys_close K fd s = do {
     (r, s) \<leftarrow> syscall (k_close K fd) s;
     Some (r, s\<lparr>io_open := io_open s - {fd}, io_nonblock := io_nonblock s - {fd}\<rparr>) }"

definition sys_socket :: "'w kernel \<Rightarrow> ('w, errnum + int) io" where
  "sys_socket K s = do {
     (r, s) \<leftarrow> syscall (k_socket K) s;
     Some (r, case r of Inl _ \<Rightarrow> s
       | Inr fd \<Rightarrow> s\<lparr>io_open := insert fd (io_open s), io_nonblock := io_nonblock s - {fd}\<rparr>) }"

section \<open>Calls that signals do not interrupt\<close>

text \<open>\<open>for (;;)\<close>: a round of the body leaves with a result, or goes on with new values of the variables.\<close>

partial_function (option) forever ::
    "('v \<Rightarrow> 'w io_state \<Rightarrow> (('r + 'v) \<times> 'w io_state) option) \<Rightarrow> 'v \<Rightarrow> 'w io_state \<Rightarrow> ('r \<times> 'w io_state) option" where
  "forever body v s = do {
     (r, s) \<leftarrow> body v s;
     case r of Inl result \<Rightarrow> Some (result, s) | Inr v \<Rightarrow> forever body v s }"

text \<open>\<open>do { ret = call; } while (ret < 0 && errno == EINTR);\<close>\<close>

definition uninterrupted :: "('w, errnum + 'a) io \<Rightarrow> ('w, errnum + 'a) io" where
  "uninterrupted call = forever (\<lambda>_ s. do {
     (r, s) \<leftarrow> call s;
     Some (if r = Inl EINTR then Inr () else Inl r, s) }) ()"

text \<open>The C result of a call: its value, or -1.\<close>

definition or_minus_one :: "('a \<Rightarrow> int) \<Rightarrow> errnum + 'a \<Rightarrow> int" where
  "or_minus_one f r = (case r of Inl _ \<Rightarrow> -1 | Inr a \<Rightarrow> f a)"

definition safe_close :: "'w kernel \<Rightarrow> int \<Rightarrow> ('w, int) io" where
  "safe_close K fd s =
    (if fd < 0 then Some (-1, s\<lparr>io_errno := EINVAL\<rparr>)
     else do { (r, s) \<leftarrow> uninterrupted (sys_close K fd) s; Some (or_minus_one (\<lambda>_. 0) r, s) })"

text \<open>A null buffer is \<open>None\<close>.\<close>

definition safe_read :: "'w kernel \<Rightarrow> int \<Rightarrow> unit option \<Rightarrow> nat \<Rightarrow> ('w, int) io" where
  "safe_read K fd buf count s =
    (if fd < 0 \<or> buf = None then Some (-1, s\<lparr>io_errno := EINVAL\<rparr>)
     else do { (r, s) \<leftarrow> uninterrupted (sys_read K fd 0 False count) s; Some (or_minus_one (int \<circ> length) r, s) })"

definition safe_write :: "'w kernel \<Rightarrow> int \<Rightarrow> string option \<Rightarrow> ('w, int) io" where
  "safe_write K fd buf s =
    (case buf of Some b \<Rightarrow>
       if fd < 0 then Some (-1, s\<lparr>io_errno := EINVAL\<rparr>)
       else do { (r, s) \<leftarrow> uninterrupted (sys_write K fd 0 None b) s; Some (or_minus_one int r, s) }
     | None \<Rightarrow> Some (-1, s\<lparr>io_errno := EINVAL\<rparr>))"

definition safe_accept :: "'w kernel \<Rightarrow> int \<Rightarrow> ('w, int) io" where
  "safe_accept K fd s =
    (if fd < 0 then Some (-1, s\<lparr>io_errno := EINVAL\<rparr>)
     else do { (r, s) \<leftarrow> uninterrupted (sys_accept K fd) s; Some (or_minus_one id r, s) })"

definition safe_connect :: "'w kernel \<Rightarrow> int \<Rightarrow> string option \<Rightarrow> ('w, int) io" where
  "safe_connect K fd addr s =
    (case addr of Some a \<Rightarrow>
       if fd < 0 \<or> a = [] then Some (-1, s\<lparr>io_errno := EINVAL\<rparr>)
       else do { (r, s) \<leftarrow> uninterrupted (sys_connect K fd a) s; Some (or_minus_one (\<lambda>_. 0) r, s) }
     | None \<Rightarrow> Some (-1, s\<lparr>io_errno := EINVAL\<rparr>))"

section \<open>Time limits\<close>

text \<open>\<open>safe_calculate_timeout\<close>: what is left of the limit; \<open>None\<close> is a failed assertion.\<close>

definition safe_calculate_timeout :: "'w kernel \<Rightarrow> int \<Rightarrow> int \<Rightarrow> 'w io_state \<Rightarrow> int option \<times> 'w io_state" where
  "safe_calculate_timeout K start milliseconds s =
    (if start < 0 \<or> milliseconds < 0 then (None, s)
     else let (now, s) = sys_clock K s in
       if now < 0 then (Some 0, s)
       else let timeout = sint (word_of_int ((now - start) sdiv 1000000) :: 32 word) in
         if timeout < 0 \<or> timeout > milliseconds then (Some 0, s) else (Some (milliseconds - timeout), s))"

text \<open>
  What the timed calls do first: take the time, and put the descriptor into non-blocking mode. The
  result is the time and whether it was in that mode before, or \<open>None\<close> after an error.
\<close>

definition nonblocking_mode :: "'w kernel \<Rightarrow> int \<Rightarrow> ('w, bool option) io" where
  "nonblocking_mode K fd s = do {
     (flag, s) \<leftarrow> sys_getfl K fd s;
     case flag of
       Inl _ \<Rightarrow> Some (None, s)
     | Inr True \<Rightarrow> Some (Some True, s)
     | Inr False \<Rightarrow> do {
         (r, s) \<leftarrow> sys_setfl K fd True s;
         Some (case r of Inl _ \<Rightarrow> None | Inr _ \<Rightarrow> Some False, s) } }"

definition start_timed :: "'w kernel \<Rightarrow> int \<Rightarrow> ('w, (int \<times> bool) option) io" where
  "start_timed K fd s = (let (start, s) = sys_clock K s in
     if start < 0 then Some (None, s)
     else do { (flag, s) \<leftarrow> nonblocking_mode K fd s; Some (map_option (Pair start) flag, s) })"

text \<open>What they do last: leave the mode the way it was.\<close>

definition restore_mode :: "'w kernel \<Rightarrow> int \<Rightarrow> bool \<Rightarrow> int \<Rightarrow> ('w, int) io" where
  "restore_mode K fd flag result s =
    (if flag then Some (result, s)
     else do { (r, s) \<leftarrow> sys_setfl K fd False s; Some (case r of Inl _ \<Rightarrow> -1 | Inr _ \<Rightarrow> result, s) })"

text \<open>How a loop over \<open>poll\<close> ends: by \<open>return\<close>, by \<open>break\<close>, or in a failed assertion.\<close>

datatype loop_exit = Return int | Break int bool | Abort

text \<open>\<open>timeout = safe_calculate_timeout(start, milliseconds); continue;\<close>\<close>

definition continue_loop :: "'w kernel \<Rightarrow> int \<Rightarrow> int \<Rightarrow> 'v \<Rightarrow> ('w, loop_exit + 'v \<times> int) io" where
  "continue_loop K start milliseconds v s = (case safe_calculate_timeout K start milliseconds s of
      (None, s) \<Rightarrow> Some (Inl Abort, s)
    | (Some timeout, s) \<Rightarrow> Some (Inr (v, timeout), s))"

text \<open>Leaving with an error: what was transferred counts.\<close>

definition return_transferred :: "int \<Rightarrow> loop_exit" where
  "return_transferred result = Return (if result = 0 then -1 else result)"

section \<open>Timed reads\<close>

text \<open>
  A round of the loop of \<open>safe_timed_read_ex\<close>: \<open>remain\<close> bytes are missing and \<open>result\<close> are there; \<open>Break\<close>
  says whether the peer has closed.
\<close>

definition timed_read_round ::
    "'w kernel \<Rightarrow> int \<Rightarrow> int \<Rightarrow> bool \<Rightarrow> bool \<Rightarrow> int \<Rightarrow> int \<Rightarrow> (nat \<times> int) \<times> int \<Rightarrow>
     ('w, loop_exit + (nat \<times> int) \<times> int) io" where
  "timed_read_round K fd flags addr all start milliseconds = (\<lambda>((remain, result), timeout) s. do {
     (ret, s) \<leftarrow> sys_poll K fd timeout s;
     case ret of
       Inl e \<Rightarrow>
         if e \<noteq> EINTR then Some (Inl (return_transferred result), s)
         else continue_loop K start milliseconds (remain, result) s
     | Inr ready \<Rightarrow>
         if \<not> ready then Some (Inl (return_transferred result), s\<lparr>io_errno := ETIMEDOUT\<rparr>)
         else do {
           (len, s) \<leftarrow> sys_read K fd flags addr remain s;
           case len of
             Inl e \<Rightarrow>
               if e = EINTR \<or> e = EAGAIN \<or> e = EWOULDBLOCK
               then continue_loop K start milliseconds (remain, result) s
               else Some (Inl (return_transferred result), s)
           | Inr bytes \<Rightarrow>
               if bytes = [] then Some (Inl (Break result True), s)
               else let result = result + int (length bytes); remain = remain - length bytes in
                 if remain = 0 \<or> \<not> all then Some (Inl (Break result False), s)
                 else continue_loop K start milliseconds (remain, result) s } })"

definition safe_timed_read_ex ::
    "'w kernel \<Rightarrow> int \<Rightarrow> nat \<Rightarrow> int \<Rightarrow> bool \<Rightarrow> int \<Rightarrow> bool \<Rightarrow> ('w, int option) io" where
  "safe_timed_read_ex K fd count flags addr milliseconds all s =
    (if milliseconds < 0 then map_option (apfst Some) (safe_read K fd (Some ()) count s)
     else do {
       (mode, s) \<leftarrow> start_timed K fd s;
       case mode of
         None \<Rightarrow> Some (Some (-1), s)
       | Some (start, flag) \<Rightarrow> do {
           (exit, s) \<leftarrow> forever (timed_read_round K fd flags addr all start milliseconds) ((count, 0), milliseconds) s;
           case exit of
             Abort \<Rightarrow> Some (None, s)
           | Return r \<Rightarrow> Some (Some r, s)
           | Break result hup \<Rightarrow>
               map_option (apfst Some) (restore_mode K fd flag (if result = 0 \<and> \<not> hup then -1 else result) s) } })"

definition safe_timed_read :: "'w kernel \<Rightarrow> int \<Rightarrow> nat \<Rightarrow> int \<Rightarrow> ('w, int option) io" where
  "safe_timed_read K fd count milliseconds = safe_timed_read_ex K fd count 0 False milliseconds False"

definition safe_timed_read_all :: "'w kernel \<Rightarrow> int \<Rightarrow> nat \<Rightarrow> int \<Rightarrow> ('w, int option) io" where
  "safe_timed_read_all K fd count milliseconds = safe_timed_read_ex K fd count 0 False milliseconds True"

definition safe_timed_recvfrom :: "'w kernel \<Rightarrow> int \<Rightarrow> nat \<Rightarrow> int \<Rightarrow> bool \<Rightarrow> int \<Rightarrow> ('w, int option) io" where
  "safe_timed_recvfrom K fd count flags addr milliseconds = safe_timed_read_ex K fd count flags addr milliseconds False"

section \<open>Timed writes\<close>

text \<open>A round of the loop of \<open>safe_timed_write_ex\<close>: \<open>rest\<close> is what \<open>ptr\<close> points at, of length \<open>remain\<close>.\<close>

definition timed_write_round ::
    "'w kernel \<Rightarrow> int \<Rightarrow> int \<Rightarrow> string option \<Rightarrow> bool \<Rightarrow> int \<Rightarrow> int \<Rightarrow> (string \<times> int) \<times> int \<Rightarrow>
     ('w, loop_exit + (string \<times> int) \<times> int) io" where
  "timed_write_round K fd flags addr all start milliseconds = (\<lambda>((rest, result), timeout) s. do {
     (ret, s) \<leftarrow> sys_poll K fd timeout s;
     case ret of
       Inl e \<Rightarrow>
         if e \<noteq> EINTR then Some (Inl (return_transferred result), s)
         else continue_loop K start milliseconds (rest, result) s
     | Inr ready \<Rightarrow>
         if \<not> ready then Some (Inl (return_transferred result), s\<lparr>io_errno := ETIMEDOUT\<rparr>)
         else do {
           (len, s) \<leftarrow> sys_write K fd flags addr rest s;
           case len of
             Inl e \<Rightarrow>
               if e = EINTR \<or> e = EAGAIN \<or> e = EWOULDBLOCK
               then continue_loop K start milliseconds (rest, result) s
               else if e = EPIPE then Some (Inl (Break result False), s)
               else Some (Inl (return_transferred result), s)
           | Inr n \<Rightarrow>
               let rest = drop n rest; result = result + int n in
                 if rest = [] \<or> \<not> all then Some (Inl (Break result False), s)
                 else continue_loop K start milliseconds (rest, result) s } })"

definition safe_timed_write_ex ::
    "'w kernel \<Rightarrow> int \<Rightarrow> string \<Rightarrow> int \<Rightarrow> string option \<Rightarrow> int \<Rightarrow> bool \<Rightarrow> ('w, int option) io" where
  "safe_timed_write_ex K fd buf flags addr milliseconds all s =
    (if milliseconds < 0 then map_option (apfst Some) (safe_write K fd (Some buf) s)
     else do {
       (mode, s) \<leftarrow> start_timed K fd s;
       case mode of
         None \<Rightarrow> Some (Some (-1), s)
       | Some (start, flag) \<Rightarrow> do {
           (exit, s) \<leftarrow> forever (timed_write_round K fd flags addr all start milliseconds) ((buf, 0), milliseconds) s;
           case exit of
             Abort \<Rightarrow> Some (None, s)
           | Return r \<Rightarrow> Some (Some r, s)
           | Break result _ \<Rightarrow>
               map_option (apfst Some) (restore_mode K fd flag (if result = 0 then -1 else result) s) } })"

definition safe_timed_write :: "'w kernel \<Rightarrow> int \<Rightarrow> string \<Rightarrow> int \<Rightarrow> ('w, int option) io" where
  "safe_timed_write K fd buf milliseconds = safe_timed_write_ex K fd buf 0 None milliseconds False"

definition safe_timed_write_all :: "'w kernel \<Rightarrow> int \<Rightarrow> string \<Rightarrow> int \<Rightarrow> ('w, int option) io" where
  "safe_timed_write_all K fd buf milliseconds = safe_timed_write_ex K fd buf 0 None milliseconds True"

definition safe_timed_sendto :: "'w kernel \<Rightarrow> int \<Rightarrow> string \<Rightarrow> int \<Rightarrow> string option \<Rightarrow> int \<Rightarrow> ('w, int option) io" where
  "safe_timed_sendto K fd buf flags addr milliseconds = safe_timed_write_ex K fd buf flags addr milliseconds False"

section \<open>Connections\<close>

text \<open>The value of the loop is the accepted descriptor.\<close>

definition timed_accept_round ::
    "'w kernel \<Rightarrow> int \<Rightarrow> int \<Rightarrow> int \<Rightarrow> unit \<times> int \<Rightarrow> ('w, loop_exit + unit \<times> int) io" where
  "timed_accept_round K fd start milliseconds = (\<lambda>(_, timeout) s. do {
     (ret, s) \<leftarrow> sys_poll K fd timeout s;
     case ret of
       Inl e \<Rightarrow> if e \<noteq> EINTR then Some (Inl (Return (-1)), s) else continue_loop K start milliseconds () s
     | Inr ready \<Rightarrow>
         if \<not> ready then Some (Inl (Return (-1)), s\<lparr>io_errno := ETIMEDOUT\<rparr>)
         else do {
           (ret, s) \<leftarrow> safe_accept K fd s;
           if ret < 0 then
             if io_errno s \<in> {EINTR, EAGAIN, EWOULDBLOCK} then continue_loop K start milliseconds () s
             else Some (Inl (Return (-1)), s)
           else Some (Inl (Break ret False), s) } })"

definition safe_timed_accept :: "'w kernel \<Rightarrow> int \<Rightarrow> int \<Rightarrow> ('w, int option) io" where
  "safe_timed_accept K fd milliseconds s =
    (if milliseconds < 0 then map_option (apfst Some) (safe_accept K fd s)
     else do {
       (mode, s) \<leftarrow> start_timed K fd s;
       case mode of
         None \<Rightarrow> Some (Some (-1), s)
       | Some (start, flag) \<Rightarrow> do {
           (exit, s) \<leftarrow> forever (timed_accept_round K fd start milliseconds) ((), milliseconds) s;
           case exit of
             Abort \<Rightarrow> Some (None, s)
           | Return r \<Rightarrow> Some (Some r, s)
           | Break result _ \<Rightarrow> map_option (apfst Some) (restore_mode K fd flag result s) } })"

definition safe_test_if_connected :: "'w kernel \<Rightarrow> int \<Rightarrow> ('w, int) io" where
  "safe_test_if_connected K fd s = do {
     (r, s) \<leftarrow> syscall (k_so_error K fd) s;
     case r of
       Inl _ \<Rightarrow> Some (-1, s)
     | Inr error \<Rightarrow> (case error of Some e \<Rightarrow> Some (-1, s\<lparr>io_errno := e\<rparr>) | None \<Rightarrow> Some (0, s)) }"

definition wait_connected_round ::
    "'w kernel \<Rightarrow> int \<Rightarrow> int \<Rightarrow> int \<Rightarrow> unit \<times> int \<Rightarrow> ('w, loop_exit + unit \<times> int) io" where
  "wait_connected_round K fd start milliseconds = (\<lambda>(_, timeout) s. do {
     (ret, s) \<leftarrow> sys_poll K fd timeout s;
     case ret of
       Inl e \<Rightarrow> if e \<noteq> EINTR then Some (Inl (Return (-1)), s) else continue_loop K start milliseconds () s
     | Inr ready \<Rightarrow>
         if \<not> ready then Some (Inl (Return (-1)), s\<lparr>io_errno := ETIMEDOUT\<rparr>)
         else do {
           (ret, s) \<leftarrow> safe_test_if_connected K fd s;
           Some (if ret \<noteq> 0 then Inl (Return (-1)) else Inl (Break 0 False), s) } })"

definition safe_wait_until_connected :: "'w kernel \<Rightarrow> int \<Rightarrow> int \<Rightarrow> ('w, int option) io" where
  "safe_wait_until_connected K fd milliseconds s = (let (start, s) = sys_clock K s in
     if start < 0 then Some (Some (-1), s)
     else do {
       (exit, s) \<leftarrow> forever (wait_connected_round K fd start milliseconds) ((), milliseconds) s;
       Some (case exit of Abort \<Rightarrow> None | Return r \<Rightarrow> Some r | Break r _ \<Rightarrow> Some r, s) })"

text \<open>\<open>errno\<close> is put back to what it was before \<open>connect\<close> when that is under way or done.\<close>

definition safe_timed_connect :: "'w kernel \<Rightarrow> int \<Rightarrow> string option \<Rightarrow> int \<Rightarrow> ('w, int option) io" where
  "safe_timed_connect K fd addr milliseconds s =
    (if milliseconds < 0 then map_option (apfst Some) (safe_connect K fd addr s)
     else do {
       (flag, s) \<leftarrow> nonblocking_mode K fd s;
       case flag of
         None \<Rightarrow> Some (Some (-1), s)
       | Some flag \<Rightarrow> do {
           (ret, s1) \<leftarrow> sys_connect K fd (case addr of Some a \<Rightarrow> a | None \<Rightarrow> []) s;
           case ret of
             Inl e \<Rightarrow>
               if e \<noteq> EINPROGRESS then Some (Some (-1), s1)
               else do {
                 (w, s) \<leftarrow> safe_wait_until_connected K fd milliseconds (s1\<lparr>io_errno := io_errno s\<rparr>);
                 if w = None then Some (None, s)
                 else if w \<noteq> Some 0 then Some (Some (-1), s)
                 else map_option (apfst Some) (restore_mode K fd flag 0 s) }
           | Inr _ \<Rightarrow> map_option (apfst Some) (restore_mode K fd flag 0 (s1\<lparr>io_errno := io_errno s\<rparr>)) } })"

text \<open>\<open>set_non_blocking_mode\<close> of \<open>utility.c\<close>.\<close>

definition set_non_blocking_mode :: "'w kernel \<Rightarrow> int \<Rightarrow> ('w, int) io" where
  "set_non_blocking_mode K fd s = do {
     (options, s) \<leftarrow> sys_getfl K fd s;
     case options of
       Inl _ \<Rightarrow> Some (-1, s)
     | Inr on \<Rightarrow> if on then Some (0, s)
         else do { (r, s) \<leftarrow> sys_setfl K fd True s; Some (or_minus_one (\<lambda>_. 0) r, s) } }"

text \<open>
  \<open>safe_resolve_and_connect\<close>: the result and the descriptor it stores. \<open>getaddrinfo\<close> gives the list of
  addresses, of which only the first is tried.
\<close>

definition safe_resolve_and_connect :: "'w kernel \<Rightarrow> string \<Rightarrow> nat \<Rightarrow> ('w, int \<times> int option) io" where
  "safe_resolve_and_connect K host port s =
    (if port = 0 then Some ((-1, None), s\<lparr>io_errno := EINVAL\<rparr>)
     else do {
       (r, s) \<leftarrow> sys_socket K s;
       case r of
         Inl _ \<Rightarrow> Some ((-1, None), s)
       | Inr fd \<Rightarrow> do {
           (m, s) \<leftarrow> set_non_blocking_mode K fd s;
           if m \<noteq> 0 then do { (_, s) \<leftarrow> safe_close K fd s; Some ((-1, None), s) }
           else (case k_getaddrinfo K host (dec_string (int port)) (io_world s) of
               (None, w) \<Rightarrow> do { (_, s) \<leftarrow> safe_close K fd (s\<lparr>io_world := w\<rparr>); Some ((-1, None), s) }
             | (Some res, w) \<Rightarrow> do {
                 (ret, s) \<leftarrow> safe_connect K fd (case res of a # _ \<Rightarrow> Some a | [] \<Rightarrow> None) (s\<lparr>io_world := w\<rparr>);
                 if ret < 0 then
                   if io_errno s = EINPROGRESS then Some ((1, Some fd), s)
                   else do { (_, s) \<leftarrow> safe_close K fd s; Some ((-1, None), s) }
                 else Some ((ret, Some fd), s) }) } })"

end
