(* ===== verification/Safe_Io_Correct.thy ===== *)
theory Safe_Io_Correct
  imports Safe_Io
begin

text \<open>
  What the calls of \<open>safeio.c\<close> do. A loop is shown to end, with what holds after it, by an invariant and a
  number that goes down (\<open>forever_rule\<close>). The locale \<open>timed_io\<close> is what the timed calls rely on: in
  non-blocking mode the kernel answers at once, and a descriptor is not interrupted, or woken up for
  nothing, infinitely often.
\<close>

section \<open>Loops\<close>

lemma forever_rule:
  fixes m :: "'v \<Rightarrow> 'w io_state \<Rightarrow> nat"
  assumes body: "\<And>v s. I v s \<Longrightarrow> \<exists>r s'. body v s = Some (r, s') \<and>
      (case r of Inl e \<Rightarrow> Q e s' | Inr v' \<Rightarrow> I v' s' \<and> m v' s' < m v s)"
    and "I v s"
  shows "\<exists>e s'. forever body v s = Some (e, s') \<and> Q e s'"
  using \<open>I v s\<close>
proof (induction "m v s" arbitrary: v s rule: less_induct)
  case less
  obtain r s' where r: "body v s = Some (r, s')" "case r of Inl e \<Rightarrow> Q e s' | Inr v' \<Rightarrow> I v' s' \<and> m v' s' < m v s"
    using body [OF less.prems] by blast
  show ?case
  proof (cases r)
    case (Inl e)
    with r show ?thesis by (auto simp: forever.simps [of body v s])
  next
    case (Inr v')
    with r have "\<exists>e t. forever body v' s' = Some (e, t) \<and> Q e t" by (intro less.hyps) auto
    with r Inr show ?thesis by (auto simp: forever.simps [of body v s])
  qed
qed

text \<open>Calls are retried while they are interrupted.\<close>

lemma uninterrupted_rule:
  fixes m :: "'w io_state \<Rightarrow> nat"
  assumes call: "\<And>s. I s \<Longrightarrow> \<exists>r s'. call s = Some (r, s') \<and>
      (if r = Inl EINTR then I s' \<and> m s' < m s else Q r s')"
    and "I s"
  shows "\<exists>r s'. uninterrupted call s = Some (r, s') \<and> r \<noteq> Inl EINTR \<and> Q r s'"
  unfolding uninterrupted_def
proof (rule forever_rule [where I = "\<lambda>_. I" and m = "\<lambda>_. m"])
  fix v :: unit and s assume "I s"
  from call [OF this] obtain r s' where "call s = Some (r, s')" "if r = Inl EINTR then I s' \<and> m s' < m s else Q r s'"
    by blast
  then show "\<exists>r s'. do { (r, s) \<leftarrow> call s; Some (if r = Inl EINTR then Inr () else Inl r, s) } = Some (r, s') \<and>
      (case r of Inl r \<Rightarrow> r \<noteq> Inl EINTR \<and> Q r s' | Inr v' \<Rightarrow> I s' \<and> m s' < m s)"
    by (cases "r = Inl EINTR") auto
qed (fact \<open>I s\<close>)

section \<open>What the timed calls rely on\<close>

definition retried :: "errnum set" where
  "retried = {EINTR, EAGAIN, EWOULDBLOCK}"

text \<open>A call ends; answers that make the caller try again use up some of \<open>W\<close>, the number of them to come.\<close>

definition answers :: "('w \<Rightarrow> nat) \<Rightarrow> ('w \<Rightarrow> ((errnum + 'a) \<times> 'w) option) \<Rightarrow> ('a \<Rightarrow> bool) \<Rightarrow> bool" where
  "answers W call ok \<longleftrightarrow> (\<forall>w. \<exists>r w'. call w = Some (r, w') \<and> W w' \<le> W w \<and>
     (case r of Inl e \<Rightarrow> e \<in> retried \<longrightarrow> W w' < W w | Inr a \<Rightarrow> ok a))"

definition patient :: "'w kernel \<Rightarrow> int \<Rightarrow> ('w \<Rightarrow> nat) \<Rightarrow> bool" where
  "patient K fd W \<longleftrightarrow>
     (\<forall>w. W (snd (k_clock K w)) \<le> W w) \<and>
     answers W (k_getfl K fd) (\<lambda>_. True) \<and>
     (\<forall>on. answers W (k_setfl K fd on) (\<lambda>_. True)) \<and>
     (\<forall>timeout \<ge> 0. answers W (k_poll K fd timeout) (\<lambda>_. True)) \<and>
     (\<forall>flags addr count. answers W (k_read K True fd flags addr count) (\<lambda>b. length b \<le> count)) \<and>
     (\<forall>flags addr buf. answers W (k_write K True fd flags addr buf) (\<lambda>n. n \<le> length buf \<and> (buf \<noteq> [] \<longrightarrow> 0 < n)))"

text \<open>Setting the mode of an open descriptor does not fail.\<close>

definition modes_settable :: "'w kernel \<Rightarrow> int \<Rightarrow> bool" where
  "modes_settable K fd \<longleftrightarrow> (\<forall>on w r w'. k_setfl K fd on w = Some (r, w') \<longrightarrow> r = Inr ())"

lemma syscall_answers:
  assumes "answers W call ok"
  obtains r s' where "syscall call s = Some (r, s')" "W (io_world s') \<le> W (io_world s)"
    "io_nonblock s' = io_nonblock s" "io_open s' = io_open s" "io_bytes s' = io_bytes s"
    "case r of Inl e \<Rightarrow> io_errno s' = e \<and> (e \<in> retried \<longrightarrow> W (io_world s') < W (io_world s))
       | Inr a \<Rightarrow> ok a \<and> io_errno s' = io_errno s"
    "call (io_world s) = Some (r, io_world s')"
proof -
  obtain r w' where "call (io_world s) = Some (r, w')" "W w' \<le> W (io_world s)"
    "case r of Inl e \<Rightarrow> e \<in> retried \<longrightarrow> W w' < W (io_world s) | Inr a \<Rightarrow> ok a"
    using assms unfolding answers_def by blast
  then show thesis
    by (cases r) (auto simp: syscall_def intro!: that)
qed

text \<open>Some call gave up: no time, no descriptor, time-out or error of \<open>poll\<close>, or the transfer failed.\<close>

definition obstructed :: "'w kernel \<Rightarrow> int \<Rightarrow> bool \<Rightarrow> bool" where
  "obstructed K fd refused \<longleftrightarrow> (\<exists>w. fst (k_clock K w) < 0) \<or> (\<exists>w e w'. k_getfl K fd w = Some (Inl e, w')) \<or>
     (\<exists>t w r w'. k_poll K fd t w = Some (r, w') \<and> r \<noteq> Inr True \<and> r \<noteq> Inl EINTR) \<or> refused"

definition read_refused :: "'w kernel \<Rightarrow> int \<Rightarrow> int \<Rightarrow> bool \<Rightarrow> bool" where
  "read_refused K fd flags addr \<longleftrightarrow>
     (\<exists>n w e w'. k_read K True fd flags addr n w = Some (Inl e, w') \<and> e \<notin> retried)"

definition end_of_file :: "'w kernel \<Rightarrow> int \<Rightarrow> int \<Rightarrow> bool \<Rightarrow> bool" where
  "end_of_file K fd flags addr \<longleftrightarrow> (\<exists>n w w'. k_read K True fd flags addr n w = Some (Inr [], w'))"

definition write_refused :: "'w kernel \<Rightarrow> int \<Rightarrow> int \<Rightarrow> string option \<Rightarrow> bool" where
  "write_refused K fd flags addr \<longleftrightarrow>
     (\<exists>b w e w'. k_write K True fd flags addr b w = Some (Inl e, w') \<and> e \<notin> retried)"

locale timed_io =
  fixes K :: "'w kernel" and fd :: int and W :: "'w \<Rightarrow> nat"
  assumes patient: "patient K fd W"
begin

lemma clock:
  obtains t s' where "sys_clock K s = (t, s')" "W (io_world s') \<le> W (io_world s)"
    "io_nonblock s' = io_nonblock s" "io_open s' = io_open s" "io_bytes s' = io_bytes s" "io_errno s' = io_errno s"
    "t < 0 \<longrightarrow> obstructed K fd refused"
proof -
  obtain t w where t: "k_clock K (io_world s) = (t, w)" by fastforce
  with patient have "W w \<le> W (io_world s)" unfolding patient_def by (metis snd_conv)
  with t show thesis by (intro that [of t "s\<lparr>io_world := w\<rparr>"]) (auto simp: sys_clock_def obstructed_def intro!: exI [of _ "io_world s"])
qed

lemma continue_loop:
  assumes "0 \<le> start" "0 \<le> milliseconds"
  obtains timeout s' where "continue_loop K start milliseconds v s = Some (Inr (v, timeout), s')" "0 \<le> timeout"
    "timeout \<le> milliseconds" "W (io_world s') \<le> W (io_world s)"
    "io_nonblock s' = io_nonblock s" "io_open s' = io_open s" "io_bytes s' = io_bytes s" "io_errno s' = io_errno s"
proof -
  obtain t s' where "sys_clock K s = (t, s')" "W (io_world s') \<le> W (io_world s)"
    "io_nonblock s' = io_nonblock s" "io_open s' = io_open s" "io_bytes s' = io_bytes s" "io_errno s' = io_errno s"
    by (rule clock)
  with assms show thesis
    by (intro that [of "if t < 0 then 0 else let timeout = sint (word_of_int ((t - start) sdiv 1000000) :: 32 word) in
        if timeout < 0 \<or> timeout > milliseconds then 0 else milliseconds - timeout" s'])
      (auto simp: continue_loop_def safe_calculate_timeout_def Let_def)
qed

lemma poll:
  assumes "0 \<le> timeout"
  obtains r s' where "sys_poll K fd timeout s = Some (r, s')" "W (io_world s') \<le> W (io_world s)"
    "io_nonblock s' = io_nonblock s" "io_open s' = io_open s" "io_bytes s' = io_bytes s"
    "case r of Inl e \<Rightarrow> io_errno s' = e \<and> (e \<in> retried \<longrightarrow> W (io_world s') < W (io_world s)) | Inr _ \<Rightarrow> True"
    "r \<noteq> Inr True \<and> r \<noteq> Inl EINTR \<longrightarrow> obstructed K fd refused"
proof -
  have "answers W (k_poll K fd timeout) (\<lambda>_. True)" using patient assms by (simp add: patient_def)
  then obtain r s' where "syscall (k_poll K fd timeout) s = Some (r, s')" "W (io_world s') \<le> W (io_world s)"
    "io_nonblock s' = io_nonblock s" "io_open s' = io_open s" "io_bytes s' = io_bytes s"
    "case r of Inl e \<Rightarrow> io_errno s' = e \<and> (e \<in> retried \<longrightarrow> W (io_world s') < W (io_world s))
       | Inr a \<Rightarrow> True \<and> io_errno s' = io_errno s" "k_poll K fd timeout (io_world s) = Some (r, io_world s')"
    by (rule syscall_answers)
  moreover from this(7) have "r \<noteq> Inr True \<and> r \<noteq> Inl EINTR \<longrightarrow> obstructed K fd refused"
    unfolding obstructed_def by blast
  ultimately show thesis by (intro that [of r s']) (auto simp: sys_poll_def split: sum.splits)
qed

lemma write_call:
  assumes "fd \<in> io_nonblock s"
  obtains r s' where "sys_write K fd flags addr buf s = Some (r, s')" "W (io_world s') \<le> W (io_world s)"
    "io_nonblock s' = io_nonblock s" "io_open s' = io_open s"
    "case r of Inl e \<Rightarrow> io_errno s' = e \<and> io_bytes s' = io_bytes s \<and> (e \<in> retried \<longrightarrow> W (io_world s') < W (io_world s)) \<and>
           (e \<notin> retried \<longrightarrow> write_refused K fd flags addr)
       | Inr n \<Rightarrow> n \<le> length buf \<and> (buf \<noteq> [] \<longrightarrow> 0 < n) \<and> io_bytes s' = io_bytes s @ take n buf"
proof -
  have "answers W (k_write K True fd flags addr buf) (\<lambda>n. n \<le> length buf \<and> (buf \<noteq> [] \<longrightarrow> 0 < n))"
    using patient by (simp add: patient_def)
  then obtain r s' where r: "syscall (k_write K True fd flags addr buf) s = Some (r, s')" "W (io_world s') \<le> W (io_world s)"
    "io_nonblock s' = io_nonblock s" "io_open s' = io_open s" "io_bytes s' = io_bytes s"
    "case r of Inl e \<Rightarrow> io_errno s' = e \<and> (e \<in> retried \<longrightarrow> W (io_world s') < W (io_world s))
       | Inr n \<Rightarrow> (n \<le> length buf \<and> (buf \<noteq> [] \<longrightarrow> 0 < n)) \<and> io_errno s' = io_errno s"
    "k_write K True fd flags addr buf (io_world s) = Some (r, io_world s')" by (rule syscall_answers)
  then show thesis
  proof (cases r)
    case (Inl e)
    with r have "e \<notin> retried \<Longrightarrow> write_refused K fd flags addr" unfolding write_refused_def by blast
    with r assms Inl show thesis by (intro that [of r s']) (simp_all add: sys_write_def)
  next
    case (Inr n)
    with r assms show thesis
      by (intro that [of r "s'\<lparr>io_bytes := io_bytes s' @ take n buf\<rparr>"]) (auto simp: sys_write_def)
  qed
qed

lemma read_call:
  assumes "fd \<in> io_nonblock s"
  obtains r s' where "sys_read K fd flags addr count s = Some (r, s')" "W (io_world s') \<le> W (io_world s)"
    "io_nonblock s' = io_nonblock s" "io_open s' = io_open s"
    "case r of Inl e \<Rightarrow> io_errno s' = e \<and> io_bytes s' = io_bytes s \<and> (e \<in> retried \<longrightarrow> W (io_world s') < W (io_world s)) \<and>
           (e \<notin> retried \<longrightarrow> read_refused K fd flags addr)
       | Inr b \<Rightarrow> length b \<le> count \<and> io_bytes s' = io_bytes s @ b \<and>
           (\<exists>w w'. k_read K True fd flags addr count w = Some (Inr b, w'))"
proof -
  have "answers W (k_read K True fd flags addr count) (\<lambda>b. length b \<le> count)"
    using patient by (simp add: patient_def)
  then obtain r s' where r: "syscall (k_read K True fd flags addr count) s = Some (r, s')" "W (io_world s') \<le> W (io_world s)"
    "io_nonblock s' = io_nonblock s" "io_open s' = io_open s" "io_bytes s' = io_bytes s"
    "case r of Inl e \<Rightarrow> io_errno s' = e \<and> (e \<in> retried \<longrightarrow> W (io_world s') < W (io_world s))
       | Inr b \<Rightarrow> length b \<le> count \<and> io_errno s' = io_errno s"
    "k_read K True fd flags addr count (io_world s) = Some (r, io_world s')" by (rule syscall_answers)
  then show thesis
  proof (cases r)
    case (Inl e)
    with r have "e \<notin> retried \<Longrightarrow> read_refused K fd flags addr" unfolding read_refused_def by blast
    with r assms Inl show thesis by (intro that [of r s']) (simp_all add: sys_read_def)
  next
    case (Inr b)
    have "\<exists>w w'. k_read K True fd flags addr count w = Some (Inr b, w')"
      using r(7) Inr by blast
    with r assms Inr show thesis
      by (intro that [of r "s'\<lparr>io_bytes := io_bytes s' @ b\<rparr>"]) (auto simp: sys_read_def)
  qed
qed

text \<open>The two ends of a timed call.\<close>

lemma start:
  assumes "modes_settable K fd"
  obtains mode s' where "start_timed K fd s = Some (mode, s')"
    "io_open s' = io_open s" "io_bytes s' = io_bytes s"
    "case mode of None \<Rightarrow> io_nonblock s' = io_nonblock s \<and> obstructed K fd refused
       | Some (start, flag) \<Rightarrow> 0 \<le> start \<and> (flag \<longleftrightarrow> fd \<in> io_nonblock s) \<and> io_nonblock s' = insert fd (io_nonblock s)"
proof -
  obtain t s1 where t: "sys_clock K s = (t, s1)" and same: "io_nonblock s1 = io_nonblock s"
    "io_open s1 = io_open s" "io_bytes s1 = io_bytes s" and past: "t < 0 \<longrightarrow> obstructed K fd refused"
    by (rule clock [where s = s and refused = refused])
  have "answers W (k_getfl K fd) (\<lambda>_. True)" using patient by (simp add: patient_def)
  then obtain r s2 where r: "syscall (k_getfl K fd) s1 = Some (r, s2)" "io_nonblock s2 = io_nonblock s1"
    "io_open s2 = io_open s1" "io_bytes s2 = io_bytes s1" "k_getfl K fd (io_world s1) = Some (r, io_world s2)"
    by (rule syscall_answers)
  have "answers W (k_setfl K fd True) (\<lambda>_. True)" using patient by (simp add: patient_def)
  then obtain q s3 where q: "syscall (k_setfl K fd True) s2 = Some (q, s3)" "io_nonblock s3 = io_nonblock s2"
    "io_open s3 = io_open s2" "io_bytes s3 = io_bytes s2" "k_setfl K fd True (io_world s2) = Some (q, io_world s3)"
    by (rule syscall_answers)
  have set: "q = Inr ()" using q(5) assms unfolding modes_settable_def by blast
  have closed: "obstructed K fd refused" if "r = Inl e" for e
    using r(5) that unfolding obstructed_def by blast
  note defs = start_timed_def nonblocking_mode_def sys_getfl_def sys_setfl_def
  consider "t < 0" | e where "0 \<le> t" "r = Inl e" | u where "0 \<le> t" "r = Inr u" "fd \<in> io_nonblock s"
    | u where "0 \<le> t" "r = Inr u" "fd \<notin> io_nonblock s" by (cases r) force+
  then show thesis
  proof cases
    case 1 with t same past show thesis by (intro that [of None s1]) (simp_all add: defs)
  next
    case 2 with t same r closed show thesis by (intro that [of None s2]) (simp_all add: defs)
  next
    case 3 with t same r show thesis by (intro that [of "Some (t, True)" s2]) (auto simp: defs)
  next
    case 4 with t same r q set show thesis
      by (intro that [of "Some (t, False)" "s3\<lparr>io_nonblock := insert fd (io_nonblock s3)\<rparr>"]) (simp_all add: defs)
  qed
qed

lemma restore:
  assumes "modes_settable K fd" "flag \<longleftrightarrow> fd \<in> N" "io_nonblock s = insert fd N"
  obtains s' where "restore_mode K fd flag result s = Some (result, s')" "io_nonblock s' = N"
    "io_open s' = io_open s" "io_bytes s' = io_bytes s" "io_errno s' = io_errno s"
proof (cases flag)
  case True
  with assms show thesis by (intro that [of s]) (auto simp: restore_mode_def)
next
  case False
  have "answers W (k_setfl K fd False) (\<lambda>_. True)" using patient by (simp add: patient_def)
  then obtain q s3 where q: "syscall (k_setfl K fd False) s = Some (q, s3)" "io_nonblock s3 = io_nonblock s"
    "io_open s3 = io_open s" "io_bytes s3 = io_bytes s"
    "case q of Inl e \<Rightarrow> io_errno s3 = e \<and> (e \<in> retried \<longrightarrow> W (io_world s3) < W (io_world s))
       | Inr a \<Rightarrow> True \<and> io_errno s3 = io_errno s" by (rule syscall_answers)
  have "q = Inr ()"
    using q(1) assms(1) unfolding modes_settable_def syscall_def
    by (simp split: option.splits sum.splits prod.splits) blast
  with False q assms show thesis
    by (intro that [of "s3\<lparr>io_nonblock := io_nonblock s3 - {fd}\<rparr>"]) (auto simp: restore_mode_def sys_setfl_def)
qed

end

section \<open>Writing\<close>

text \<open>What a loop leaves behind when \<open>n\<close> bytes of \<open>buf\<close> were written.\<close>

definition wrote :: "bool \<Rightarrow> string \<Rightarrow> loop_exit \<Rightarrow> bool \<Rightarrow> nat \<Rightarrow> bool" where
  "wrote all buf exit failed n \<longleftrightarrow> n \<le> length buf \<and>
    (case exit of
       Abort \<Rightarrow> False
     | Return r \<Rightarrow> r = (if n = 0 then -1 else int n) \<and> (all \<or> n = 0) \<and> failed \<and> (n < length buf \<or> buf = [])
     | Break r hup \<Rightarrow> r = int n \<and> \<not> hup \<and> (n < length buf \<and> (all \<or> n = 0) \<longrightarrow> failed))"

text \<open>The loop variables when \<open>n\<close> bytes are written and some are left.\<close>

definition writing :: "bool \<Rightarrow> string \<Rightarrow> string \<times> int \<Rightarrow> nat \<Rightarrow> bool" where
  "writing all buf v n \<longleftrightarrow> v = (drop n buf, int n) \<and> n \<le> length buf \<and> (n < length buf \<or> buf = []) \<and> (all \<or> n = 0)"

lemma wrote_return: "writing all buf (rest, result) n \<Longrightarrow> wrote all buf (return_transferred result) True n"
  by (auto simp: wrote_def writing_def return_transferred_def)

context timed_io
begin

text \<open>One round: the invariant of the loop, and what it leaves behind.\<close>

definition write_inv where
  "write_inv all buf B N O' = (\<lambda>(v, timeout :: int) (s :: 'w io_state). 0 \<le> timeout \<and> io_nonblock s = N \<and> io_open s = O' \<and>
     (\<exists>n. writing all buf v n \<and> io_bytes s = B @ take n buf))"

definition write_post where
  "write_post flags addr all buf B N O' = (\<lambda>e (s :: 'w io_state). io_nonblock s = N \<and> io_open s = O' \<and>
     (\<exists>n. wrote all buf e (obstructed K fd (write_refused K fd flags addr)) n \<and> io_bytes s = B @ take n buf))"

lemma continue_writing:
  assumes "0 \<le> start" "0 \<le> milliseconds" "writing all buf v n" "io_bytes s = B @ take n buf" "io_nonblock s = N" "io_open s = O'"
    and "W (io_world s) + length (fst v) < m"
  shows "\<exists>r s'. continue_loop K start milliseconds v s = Some (r, s') \<and>
    (case r of Inl e \<Rightarrow> write_post flags addr all buf B N O' e s'
       | Inr v' \<Rightarrow> write_inv all buf B N O' v' s' \<and> W (io_world s') + length (fst (fst v')) < m)"
  by (rule continue_loop [OF assms(1,2), of v s]) (use assms in \<open>auto simp: write_inv_def\<close>)

lemma write_round:
  assumes start: "0 \<le> start" "0 \<le> milliseconds" and N: "fd \<in> N" and inv: "write_inv all buf B N O' ((rest, result), timeout) s"
  shows "\<exists>r s'. timed_write_round K fd flags addr all start milliseconds ((rest, result), timeout) s = Some (r, s') \<and>
    (case r of Inl e \<Rightarrow> write_post flags addr all buf B N O' e s'
       | Inr v' \<Rightarrow> write_inv all buf B N O' v' s' \<and>
           W (io_world s') + length (fst (fst v')) < W (io_world s) + length rest)"
proof -
  obtain n where w: "writing all buf (rest, result) n"
    and i: "0 \<le> timeout" "io_nonblock s = N" "io_open s = O'" "io_bytes s = B @ take n buf"
    using inv by (auto simp: write_inv_def)
  obtain ret s1 where p: "sys_poll K fd timeout s = Some (ret, s1)" "W (io_world s1) \<le> W (io_world s)"
    "io_nonblock s1 = io_nonblock s" "io_open s1 = io_open s" "io_bytes s1 = io_bytes s"
    "case ret of Inl e \<Rightarrow> io_errno s1 = e \<and> (e \<in> retried \<longrightarrow> W (io_world s1) < W (io_world s)) | Inr _ \<Rightarrow> True"
    and stop: "ret \<noteq> Inr True \<and> ret \<noteq> Inl EINTR \<longrightarrow> obstructed K fd (write_refused K fd flags addr)"
    by (rule poll [OF i(1), where s = s and refused = "write_refused K fd flags addr"])
  have "fd \<in> io_nonblock s1" using p(3) i(2) N by simp
  then obtain len s2 where q: "sys_write K fd flags addr rest s1 = Some (len, s2)"
    "W (io_world s2) \<le> W (io_world s1)" "io_nonblock s2 = io_nonblock s1" "io_open s2 = io_open s1"
    "case len of Inl e \<Rightarrow> io_errno s2 = e \<and> io_bytes s2 = io_bytes s1 \<and> (e \<in> retried \<longrightarrow> W (io_world s2) < W (io_world s1)) \<and>
         (e \<notin> retried \<longrightarrow> write_refused K fd flags addr)
       | Inr k \<Rightarrow> k \<le> length rest \<and> (rest \<noteq> [] \<longrightarrow> 0 < k) \<and> io_bytes s2 = io_bytes s1 @ take k rest"
    by (rule write_call)
  consider (interrupted) "ret = Inl EINTR" | (failed) e where "ret = Inl e" "e \<noteq> EINTR" | (late) "ret = Inr False"
    | (again) e where "ret = Inr True" "len = Inl e" "e \<in> retried" | (pipe) "ret = Inr True" "len = Inl EPIPE"
    | (error) e where "ret = Inr True" "len = Inl e" "e \<notin> retried" "e \<noteq> EPIPE"
    | (wrote) k where "ret = Inr True" "len = Inr k"
    by (metis (full_types) sum.exhaust)
  then show ?thesis
  proof cases
    case interrupted
    have "W (io_world s1) + length (fst (rest, result)) < W (io_world s) + length rest"
      using p interrupted by (simp add: retried_def)
    from continue_writing [OF start w _ _ _ this, where B = B and N = N and O' = O'] interrupted p i show ?thesis
      by (simp add: timed_write_round_def)
  next
    case failed
    with p i wrote_return [OF w] stop show ?thesis
      by (auto simp: timed_write_round_def write_post_def)
  next
    case late
    with p i wrote_return [OF w] stop show ?thesis
      by (auto simp: timed_write_round_def write_post_def)
  next
    case again
    have "W (io_world s2) + length (fst (rest, result)) < W (io_world s) + length rest"
      using p q again by simp
    from continue_writing [OF start w _ _ _ this, where B = B and N = N and O' = O'] again p q i show ?thesis
      by (auto simp: timed_write_round_def retried_def)
  next
    case pipe
    with q have "obstructed K fd (write_refused K fd flags addr)" by (simp add: retried_def obstructed_def)
    with pipe p q i w show ?thesis
      by (auto simp: timed_write_round_def retried_def write_post_def wrote_def writing_def)
  next
    case error
    with q have "obstructed K fd (write_refused K fd flags addr)" by (simp add: obstructed_def)
    with error p q i wrote_return [OF w] show ?thesis
      by (auto simp: timed_write_round_def write_post_def retried_def)
  next
    case wrote
    define n' where "n' = n + k"
    show ?thesis
    proof (cases "drop k rest = [] \<or> \<not> all")
      case True
      with wrote p q i w show ?thesis
        by (auto simp: timed_write_round_def write_post_def wrote_def writing_def Let_def)
    next
      case False
      then have w': "writing all buf (drop k rest, result + int k) n'"
        using w q wrote by (auto simp: writing_def n'_def add.commute)
      have "W (io_world s2) + length (fst (drop k rest, result + int k)) < W (io_world s) + length rest"
        using p q wrote False by auto
      moreover have "io_bytes s2 = B @ take n' buf"
        using wrote p q i w by (auto simp: writing_def n'_def take_add)
      ultimately have "\<exists>r s'. continue_loop K start milliseconds (drop k rest, result + int k) s2 = Some (r, s') \<and>
          (case r of Inl e \<Rightarrow> write_post flags addr all buf B N O' e s'
             | Inr v' \<Rightarrow> write_inv all buf B N O' v' s' \<and> W (io_world s') + length (fst (fst v')) < W (io_world s) + length rest)"
        using p q i by (intro continue_writing [OF start w']) auto
      with wrote False p q show ?thesis
        by (simp add: timed_write_round_def Let_def)
    qed
  qed
qed

lemma write_loop:
  assumes "0 \<le> start" "0 \<le> milliseconds" "fd \<in> io_nonblock s"
  obtains e s' n where "forever (timed_write_round K fd flags addr all start milliseconds) ((buf, 0), milliseconds) s = Some (e, s')"
    "wrote all buf e (obstructed K fd (write_refused K fd flags addr)) n" "io_bytes s' = io_bytes s @ take n buf"
    "io_nonblock s' = io_nonblock s" "io_open s' = io_open s"
proof -
  have "\<exists>e s'. forever (timed_write_round K fd flags addr all start milliseconds) ((buf, 0), milliseconds) s = Some (e, s') \<and>
      write_post flags addr all buf (io_bytes s) (io_nonblock s) (io_open s) e s'"
  proof (rule forever_rule [where I = "write_inv all buf (io_bytes s) (io_nonblock s) (io_open s)"
        and m = "\<lambda>(v :: (string \<times> int) \<times> int) s. W (io_world s) + length (fst (fst v))"])
    show "write_inv all buf (io_bytes s) (io_nonblock s) (io_open s) ((buf, 0), milliseconds) s"
      using assms by (auto simp: write_inv_def writing_def)
  next
    fix v t assume "write_inv all buf (io_bytes s) (io_nonblock s) (io_open s) v t"
    moreover obtain rest result timeout where v: "v = ((rest, result), timeout)" by (metis prod.exhaust)
    ultimately have inv: "write_inv all buf (io_bytes s) (io_nonblock s) (io_open s) ((rest, result), timeout) t" by simp
    show "\<exists>r s'. timed_write_round K fd flags addr all start milliseconds v t = Some (r, s') \<and>
        (case r of Inl e \<Rightarrow> write_post flags addr all buf (io_bytes s) (io_nonblock s) (io_open s) e s'
           | Inr v' \<Rightarrow> write_inv all buf (io_bytes s) (io_nonblock s) (io_open s) v' s' \<and>
               W (io_world s') + length (fst (fst v')) < W (io_world t) + length (fst (fst v)))"
      unfolding v fst_conv by (rule write_round [OF assms inv])
  qed
  then show thesis unfolding write_post_def by (auto intro: that)
qed

lemma timed_write:
  assumes "modes_settable K fd" "0 \<le> milliseconds"
  shows "\<exists>r s' n. safe_timed_write_ex K fd buf flags addr milliseconds all s = Some (Some r, s') \<and>
    n \<le> length buf \<and> io_bytes s' = io_bytes s @ take n buf \<and> r = (if n = 0 then -1 else int n) \<and>
    (n < length buf \<and> (all \<or> n = 0) \<longrightarrow> obstructed K fd (write_refused K fd flags addr)) \<and>
    (0 < n \<and> (n = length buf \<or> \<not> all) \<longrightarrow> io_nonblock s' = io_nonblock s) \<and>
    io_nonblock s' \<in> {io_nonblock s, insert fd (io_nonblock s)}"
proof -
  obtain mode s1 where m: "start_timed K fd s = Some (mode, s1)" "io_open s1 = io_open s" "io_bytes s1 = io_bytes s"
    "case mode of None \<Rightarrow> io_nonblock s1 = io_nonblock s \<and> obstructed K fd (write_refused K fd flags addr)
       | Some (start, flag) \<Rightarrow> 0 \<le> start \<and> (flag \<longleftrightarrow> fd \<in> io_nonblock s) \<and> io_nonblock s1 = insert fd (io_nonblock s)"
    by (rule start [OF assms(1)])
  show ?thesis
  proof (cases mode)
    case None
    with m assms(2) show ?thesis
      by (intro exI [of _ "-1"] exI [of _ s1] exI [of _ 0]) (simp add: safe_timed_write_ex_def)
  next
    case (Some sf)
    obtain start flag where sf: "mode = Some (start, flag)" using Some by (cases sf) auto
    with m have f: "0 \<le> start" "flag \<longleftrightarrow> fd \<in> io_nonblock s" "io_nonblock s1 = insert fd (io_nonblock s)" by auto
    obtain e s2 n where l: "forever (timed_write_round K fd flags addr all start milliseconds) ((buf, 0), milliseconds) s1 = Some (e, s2)"
      "wrote all buf e (obstructed K fd (write_refused K fd flags addr)) n" "io_bytes s2 = io_bytes s @ take n buf" "io_nonblock s2 = insert fd (io_nonblock s)"
      by (rule write_loop [of start milliseconds s1]) (use f assms m in auto)
    show ?thesis
    proof (cases e)
      case (Return r)
      with l sf m assms(2) show ?thesis
        by (intro exI [of _ r] exI [of _ s2] exI [of _ n]) (auto simp: safe_timed_write_ex_def wrote_def)
    next
      case (Break r hup)
      obtain s3 where "restore_mode K fd flag (if r = 0 then -1 else r) s2 = Some (if r = 0 then -1 else r, s3)"
        "io_nonblock s3 = io_nonblock s" "io_bytes s3 = io_bytes s2" "io_errno s3 = io_errno s2"
        by (rule restore [OF assms(1) f(2) l(4), of "if r = 0 then -1 else r"])
      with Break l sf m assms(2) show ?thesis
        by (intro exI [of _ "if r = 0 then -1 else r"] exI [of _ s3] exI [of _ n])
          (auto simp: safe_timed_write_ex_def wrote_def)
    qed (use l in \<open>simp add: wrote_def\<close>)
  qed
qed

end

section \<open>Reading\<close>

text \<open>The loop variables when \<open>got\<close> was read, and what the loop leaves behind; \<open>eof\<close>: the kernel reported end of file.\<close>

definition reading :: "bool \<Rightarrow> nat \<Rightarrow> nat \<times> int \<Rightarrow> string \<Rightarrow> bool" where
  "reading all count v got \<longleftrightarrow> v = (count - length got, int (length got)) \<and> length got \<le> count \<and>
    (length got < count \<or> count = 0) \<and> (all \<or> got = [])"

definition did_read :: "bool \<Rightarrow> nat \<Rightarrow> loop_exit \<Rightarrow> bool \<Rightarrow> bool \<Rightarrow> string \<Rightarrow> bool" where
  "did_read all count exit failed eof got \<longleftrightarrow> length got \<le> count \<and>
    (case exit of
       Abort \<Rightarrow> False
     | Return r \<Rightarrow> r = (if got = [] then -1 else int (length got)) \<and> (all \<or> got = []) \<and> failed \<and>
         (length got < count \<or> got = [])
     | Break r hup \<Rightarrow> r = int (length got) \<and> (if hup then eof else got \<noteq> [] \<and> (all \<longrightarrow> length got = count)))"

lemma did_read_return:
  "reading all count (remain, result) got \<Longrightarrow> did_read all count (return_transferred result) True eof got"
  by (auto simp: did_read_def reading_def return_transferred_def)

context timed_io
begin

definition read_inv where
  "read_inv all count B N O' = (\<lambda>(v, timeout :: int) (s :: 'w io_state). 0 \<le> timeout \<and> io_nonblock s = N \<and> io_open s = O' \<and>
     (\<exists>got. reading all count v got \<and> io_bytes s = B @ got))"

definition read_post where
  "read_post flags addr all count B N O' = (\<lambda>e (s :: 'w io_state). io_nonblock s = N \<and> io_open s = O' \<and>
     (\<exists>got. did_read all count e (obstructed K fd (read_refused K fd flags addr)) (end_of_file K fd flags addr) got \<and> io_bytes s = B @ got))"

lemma continue_reading:
  assumes "0 \<le> start" "0 \<le> milliseconds" "reading all count v got" "io_bytes s = B @ got" "io_nonblock s = N" "io_open s = O'"
    and "W (io_world s) + fst v < m"
  shows "\<exists>r s'. continue_loop K start milliseconds v s = Some (r, s') \<and>
    (case r of Inl e \<Rightarrow> read_post flags addr all count B N O' e s'
       | Inr v' \<Rightarrow> read_inv all count B N O' v' s' \<and> W (io_world s') + fst (fst v') < m)"
  by (rule continue_loop [OF assms(1,2), of v s]) (use assms in \<open>auto simp: read_inv_def\<close>)

lemma read_round:
  assumes start: "0 \<le> start" "0 \<le> milliseconds" and N: "fd \<in> N"
    and inv: "read_inv all count B N O' ((remain, result), timeout) s"
  shows "\<exists>r s'. timed_read_round K fd flags addr all start milliseconds ((remain, result), timeout) s = Some (r, s') \<and>
    (case r of Inl e \<Rightarrow> read_post flags addr all count B N O' e s'
       | Inr v' \<Rightarrow> read_inv all count B N O' v' s' \<and> W (io_world s') + fst (fst v') < W (io_world s) + remain)"
proof -
  obtain got where w: "reading all count (remain, result) got"
    and i: "0 \<le> timeout" "io_nonblock s = N" "io_open s = O'" "io_bytes s = B @ got"
    using inv by (auto simp: read_inv_def)
  obtain ret s1 where p: "sys_poll K fd timeout s = Some (ret, s1)" "W (io_world s1) \<le> W (io_world s)"
    "io_nonblock s1 = io_nonblock s" "io_open s1 = io_open s" "io_bytes s1 = io_bytes s"
    "case ret of Inl e \<Rightarrow> io_errno s1 = e \<and> (e \<in> retried \<longrightarrow> W (io_world s1) < W (io_world s)) | Inr _ \<Rightarrow> True"
    and stop: "ret \<noteq> Inr True \<and> ret \<noteq> Inl EINTR \<longrightarrow> obstructed K fd (read_refused K fd flags addr)"
    by (rule poll [OF i(1), where s = s and refused = "read_refused K fd flags addr"])
  have "fd \<in> io_nonblock s1" using p(3) i(2) N by simp
  then obtain len s2 where q: "sys_read K fd flags addr remain s1 = Some (len, s2)"
    "W (io_world s2) \<le> W (io_world s1)" "io_nonblock s2 = io_nonblock s1" "io_open s2 = io_open s1"
    "case len of Inl e \<Rightarrow> io_errno s2 = e \<and> io_bytes s2 = io_bytes s1 \<and> (e \<in> retried \<longrightarrow> W (io_world s2) < W (io_world s1)) \<and>
         (e \<notin> retried \<longrightarrow> read_refused K fd flags addr)
       | Inr b \<Rightarrow> length b \<le> remain \<and> io_bytes s2 = io_bytes s1 @ b \<and>
           (\<exists>w w'. k_read K True fd flags addr remain w = Some (Inr b, w'))"
    by (rule read_call)
  consider (interrupted) "ret = Inl EINTR" | (failed) e where "ret = Inl e" "e \<noteq> EINTR" | (late) "ret = Inr False"
    | (again) e where "ret = Inr True" "len = Inl e" "e \<in> retried"
    | (error) e where "ret = Inr True" "len = Inl e" "e \<notin> retried" | (hup) "ret = Inr True" "len = Inr []"
    | (got) b where "ret = Inr True" "len = Inr b" "b \<noteq> []"
    by (metis (full_types) sum.exhaust)
  then show ?thesis
  proof cases
    case interrupted
    have "W (io_world s1) + fst (remain, result) < W (io_world s) + remain"
      using p interrupted by (simp add: retried_def)
    from continue_reading [OF start w _ _ _ this, where B = B and N = N and O' = O'] interrupted p i show ?thesis
      by (simp add: timed_read_round_def)
  next
    case failed
    with p i did_read_return [OF w] stop show ?thesis
      by (auto simp: timed_read_round_def read_post_def)
  next
    case late
    with p i did_read_return [OF w] stop show ?thesis
      by (auto simp: timed_read_round_def read_post_def)
  next
    case again
    have "W (io_world s2) + fst (remain, result) < W (io_world s) + remain"
      using p q again by simp
    from continue_reading [OF start w _ _ _ this, where B = B and N = N and O' = O'] again p q i show ?thesis
      by (auto simp: timed_read_round_def retried_def)
  next
    case error
    with q have "obstructed K fd (read_refused K fd flags addr)" by (simp add: obstructed_def)
    with error p q i did_read_return [OF w] show ?thesis
      by (auto simp: timed_read_round_def read_post_def retried_def)
  next
    case hup
    with q have "end_of_file K fd flags addr" by (auto simp: end_of_file_def)
    with hup p q i w show ?thesis
      by (auto simp: timed_read_round_def read_post_def did_read_def reading_def)
  next
    case got
    show ?thesis
    proof (cases "remain - length b = 0 \<or> \<not> all")
      case True
      with got p q i w show ?thesis
        by (auto simp: timed_read_round_def read_post_def did_read_def reading_def Let_def intro!: exI [of _ "got @ b"])
    next
      case False
      then have w': "reading all count (remain - length b, result + int (length b)) (got @ b)"
        using w q got by (auto simp: reading_def)
      have "W (io_world s2) + fst (remain - length b, result + int (length b)) < W (io_world s) + remain"
        using p q got False by (cases b) auto
      moreover have "io_bytes s2 = B @ got @ b" using got p q i by simp
      ultimately have "\<exists>r s'. continue_loop K start milliseconds (remain - length b, result + int (length b)) s2 = Some (r, s') \<and>
          (case r of Inl e \<Rightarrow> read_post flags addr all count B N O' e s'
             | Inr v' \<Rightarrow> read_inv all count B N O' v' s' \<and> W (io_world s') + fst (fst v') < W (io_world s) + remain)"
        using p q i by (intro continue_reading [OF start w']) auto
      with got False p q show ?thesis
        by (simp add: timed_read_round_def Let_def)
    qed
  qed
qed

lemma read_loop:
  assumes "0 \<le> start" "0 \<le> milliseconds" "fd \<in> io_nonblock s"
  obtains e s' got where
    "forever (timed_read_round K fd flags addr all start milliseconds) ((count, 0), milliseconds) s = Some (e, s')"
    "did_read all count e (obstructed K fd (read_refused K fd flags addr)) (end_of_file K fd flags addr) got" "io_bytes s' = io_bytes s @ got"
    "io_nonblock s' = io_nonblock s" "io_open s' = io_open s"
proof -
  have "\<exists>e s'. forever (timed_read_round K fd flags addr all start milliseconds) ((count, 0), milliseconds) s = Some (e, s') \<and>
      read_post flags addr all count (io_bytes s) (io_nonblock s) (io_open s) e s'"
  proof (rule forever_rule [where I = "read_inv all count (io_bytes s) (io_nonblock s) (io_open s)"
        and m = "\<lambda>(v :: (nat \<times> int) \<times> int) s. W (io_world s) + fst (fst v)"])
    show "read_inv all count (io_bytes s) (io_nonblock s) (io_open s) ((count, 0), milliseconds) s"
      using assms by (auto simp: read_inv_def reading_def)
  next
    fix v t assume "read_inv all count (io_bytes s) (io_nonblock s) (io_open s) v t"
    moreover obtain remain result timeout where v: "v = ((remain, result), timeout)" by (metis prod.exhaust)
    ultimately have inv: "read_inv all count (io_bytes s) (io_nonblock s) (io_open s) ((remain, result), timeout) t" by simp
    show "\<exists>r s'. timed_read_round K fd flags addr all start milliseconds v t = Some (r, s') \<and>
        (case r of Inl e \<Rightarrow> read_post flags addr all count (io_bytes s) (io_nonblock s) (io_open s) e s'
           | Inr v' \<Rightarrow> read_inv all count (io_bytes s) (io_nonblock s) (io_open s) v' s' \<and>
               W (io_world s') + fst (fst v') < W (io_world t) + fst (fst v))"
      unfolding v fst_conv by (rule read_round [OF assms inv])
  qed
  then show thesis unfolding read_post_def by (auto intro: that)
qed

lemma timed_read:
  assumes "modes_settable K fd" "0 \<le> milliseconds"
  shows "\<exists>r s' got. safe_timed_read_ex K fd count flags addr milliseconds all s = Some (Some r, s') \<and>
    length got \<le> count \<and> io_bytes s' = io_bytes s @ got \<and> (got \<noteq> [] \<longrightarrow> r = int (length got)) \<and>
    (got = [] \<longrightarrow> r = -1 \<or> r = 0) \<and> (r = 0 \<longrightarrow> end_of_file K fd flags addr) \<and>
    (length got < count \<and> (all \<or> r = -1) \<longrightarrow> obstructed K fd (read_refused K fd flags addr) \<or> end_of_file K fd flags addr) \<and>
    (r = 0 \<or> got \<noteq> [] \<and> (all \<longrightarrow> length got = count) \<longrightarrow> io_nonblock s' = io_nonblock s) \<and>
    io_nonblock s' \<in> {io_nonblock s, insert fd (io_nonblock s)}"
proof -
  obtain mode s1 where m: "start_timed K fd s = Some (mode, s1)" "io_open s1 = io_open s" "io_bytes s1 = io_bytes s"
    "case mode of None \<Rightarrow> io_nonblock s1 = io_nonblock s \<and> obstructed K fd (read_refused K fd flags addr)
       | Some (start, flag) \<Rightarrow> 0 \<le> start \<and> (flag \<longleftrightarrow> fd \<in> io_nonblock s) \<and> io_nonblock s1 = insert fd (io_nonblock s)"
    by (rule start [OF assms(1)])
  show ?thesis
  proof (cases mode)
    case None
    with m assms(2) show ?thesis
      by (intro exI [of _ "-1"] exI [of _ s1] exI [of _ "[]"]) (simp add: safe_timed_read_ex_def)
  next
    case (Some sf)
    obtain start flag where sf: "mode = Some (start, flag)" using Some by (cases sf) auto
    with m have f: "0 \<le> start" "flag \<longleftrightarrow> fd \<in> io_nonblock s" "io_nonblock s1 = insert fd (io_nonblock s)" by auto
    obtain e s2 got where l: "forever (timed_read_round K fd flags addr all start milliseconds) ((count, 0), milliseconds) s1 = Some (e, s2)"
      "did_read all count e (obstructed K fd (read_refused K fd flags addr)) (end_of_file K fd flags addr) got" "io_bytes s2 = io_bytes s @ got"
      "io_nonblock s2 = insert fd (io_nonblock s)"
      by (rule read_loop [of start milliseconds s1]) (use f assms m in auto)
    show ?thesis
    proof (cases e)
      case (Return r)
      with l sf m assms(2) show ?thesis
        by (intro exI [of _ r] exI [of _ s2] exI [of _ got]) (auto simp: safe_timed_read_ex_def did_read_def)
    next
      case (Break r hup)
      obtain s3 where "restore_mode K fd flag (if r = 0 \<and> \<not> hup then -1 else r) s2 = Some (if r = 0 \<and> \<not> hup then -1 else r, s3)"
        "io_nonblock s3 = io_nonblock s" "io_bytes s3 = io_bytes s2" "io_errno s3 = io_errno s2"
        by (rule restore [OF assms(1) f(2) l(4), of "if r = 0 \<and> \<not> hup then -1 else r"])
      with Break l sf m assms(2) show ?thesis
        by (intro exI [of _ "if r = 0 \<and> \<not> hup then -1 else r"] exI [of _ s3] exI [of _ got])
          (auto simp: safe_timed_read_ex_def did_read_def split: if_splits)
    qed (use l in \<open>simp add: did_read_def\<close>)
  qed
qed

end

section \<open>Properties\<close>

text \<open>
  A kernel that answers as documented: a pipe that delivers a signal to the first calls of \<open>poll\<close> and moves
  at most two bytes at a time. Its state is the number of signals to come and the bytes that can be read.
\<close>

definition pipe_kernel :: "(nat \<times> string) kernel" where
  "pipe_kernel = \<lparr>k_clock = (\<lambda>w. (1000, w)), k_getfl = (\<lambda>fd w. Some (Inr (), w)), k_setfl = (\<lambda>fd on w. Some (Inr (), w)),
     k_poll = (\<lambda>fd t (n, b). Some (if n > 0 then (Inl EINTR, (n - 1, b)) else (Inr True, (n, b)))),
     k_read = (\<lambda>nb fd flags addr count (n, b). Some (Inr (take (min 2 count) b), (n, drop (min 2 count) b))),
     k_write = (\<lambda>nb fd flags addr buf w. Some (Inr (min 2 (length buf)), w)),
     k_accept = (\<lambda>nb fd w. Some (Inr (fd + 1), w)), k_connect = (\<lambda>nb fd a w. Some (Inl EINPROGRESS, w)),
     k_so_error = (\<lambda>fd w. Some (Inr None, w)), k_close = (\<lambda>fd w. Some (Inr (), w)),
     k_socket = (\<lambda>w. Some (Inr 4, w)), k_getaddrinfo = (\<lambda>host port w. (Some [host], w))\<rparr>"

definition demo_io :: "(nat \<times> string) io_state" where
  "demo_io = \<lparr>io_world = (3, ''hello''), io_errno = EINVAL, io_nonblock = {}, io_open = {3}, io_bytes = []\<rparr>"

lemma pipe_kernel_patient: "patient pipe_kernel fd fst" and pipe_kernel_settable: "modes_settable pipe_kernel fd"
  by (auto simp: patient_def answers_def modes_settable_def pipe_kernel_def retried_def)

interpretation pipe: timed_io pipe_kernel 3 fst
  by unfold_locales (rule pipe_kernel_patient)



text \<open>
  A timed read returns under the same condition: the bytes in the buffer are as many as the result says; a
  result of 0 means that the kernel reported the end of the file; -1 means that nothing was read. A read
  of everything ends early only there, when the time is up, or when a call fails for good. After a complete read, and at the end of the file, the descriptor is in the mode it was in.
\<close>

theorem timed_read_exact:
  assumes "patient K fd W" "modes_settable K fd" "0 \<le> milliseconds"
  shows "\<exists>r s' got. safe_timed_read_ex K fd count flags addr milliseconds all s = Some (Some r, s') \<and>
    length got \<le> count \<and> io_bytes s' = io_bytes s @ got \<and> (got \<noteq> [] \<longrightarrow> r = int (length got)) \<and>
    (got = [] \<longrightarrow> r = -1 \<or> r = 0) \<and> (r = 0 \<longrightarrow> end_of_file K fd flags addr) \<and>
    (length got < count \<and> (all \<or> r = -1) \<longrightarrow> obstructed K fd (read_refused K fd flags addr) \<or> end_of_file K fd flags addr) \<and>
    (r = 0 \<or> got \<noteq> [] \<and> (all \<longrightarrow> length got = count) \<longrightarrow> io_nonblock s' = io_nonblock s) \<and>
    io_nonblock s' \<in> {io_nonblock s, insert fd (io_nonblock s)}"
  by (rule timed_io.timed_read [OF timed_io.intro [OF assms(1)] assms(2,3)])

lemma timed_read_exact_witness:
  "\<exists>r s' got. safe_timed_read_ex pipe_kernel 3 4 0 False 100 True demo_io = Some (Some r, s') \<and>
    length got \<le> 4 \<and> io_bytes s' = io_bytes demo_io @ got \<and> (got \<noteq> [] \<longrightarrow> r = int (length got)) \<and>
    (got = [] \<longrightarrow> r = -1 \<or> r = 0) \<and> (r = 0 \<longrightarrow> end_of_file pipe_kernel 3 0 False) \<and>
    (length got < 4 \<and> (True \<or> r = -1) \<longrightarrow> obstructed pipe_kernel 3 (read_refused pipe_kernel 3 0 False) \<or> end_of_file pipe_kernel 3 0 False) \<and>
    (r = 0 \<or> got \<noteq> [] \<and> (True \<longrightarrow> length got = 4) \<longrightarrow> io_nonblock s' = io_nonblock demo_io) \<and>
    io_nonblock s' \<in> {io_nonblock demo_io, insert 3 (io_nonblock demo_io)}"
  by (rule timed_read_exact [OF pipe_kernel_patient pipe_kernel_settable]) simp

text \<open>
  A call that times out leaves a descriptor that was in blocking mode in non-blocking mode: the mode is
  restored after the loop, and the time-out returns from within.
\<close>

theorem timed_out_stays_nonblocking:
  assumes "0 \<le> milliseconds" "fd \<notin> io_nonblock s"
    and "k_clock K (io_world s) = (now, w1)" "0 \<le> now" "k_getfl K fd w1 = Some (Inr (), w2)"
    and "k_setfl K fd True w2 = Some (Inr (), w3)" "k_poll K fd milliseconds w3 = Some (Inr False, w4)"
  shows "safe_timed_read_ex K fd count flags addr milliseconds all s =
    Some (Some (-1), s\<lparr>io_world := w4, io_errno := ETIMEDOUT, io_nonblock := insert fd (io_nonblock s)\<rparr>)"
  using assms
  by (simp add: safe_timed_read_ex_def start_timed_def sys_clock_def nonblocking_mode_def sys_getfl_def sys_setfl_def
      syscall_def forever.simps timed_read_round_def sys_poll_def return_transferred_def)

definition idle_kernel :: "unit kernel" where
  "idle_kernel = \<lparr>k_clock = (\<lambda>w. (7, w)), k_getfl = (\<lambda>fd w. Some (Inr (), w)), k_setfl = (\<lambda>fd on w. Some (Inr (), w)),
     k_poll = (\<lambda>fd t w. Some (Inr False, w)), k_read = (\<lambda>nb fd flags addr count w. Some (Inl EAGAIN, w)),
     k_write = (\<lambda>nb fd flags addr buf w. Some (Inl EAGAIN, w)), k_accept = (\<lambda>nb fd w. Some (Inl EAGAIN, w)),
     k_connect = (\<lambda>nb fd a w. Some (Inl EINPROGRESS, w)), k_so_error = (\<lambda>fd w. Some (Inr None, w)),
     k_close = (\<lambda>fd w. Some (Inr (), w)), k_socket = (\<lambda>w. Some (Inr 4, w)), k_getaddrinfo = (\<lambda>host port w. (None, w))\<rparr>"

lemma timed_out_stays_nonblocking_witness:
  "safe_timed_read_ex idle_kernel 3 10 0 False 50 False \<lparr>io_world = (), io_errno = EINVAL, io_nonblock = {}, io_open = {3}, io_bytes = []\<rparr>
    = Some (Some (-1), \<lparr>io_world = (), io_errno = ETIMEDOUT, io_nonblock = {3}, io_open = {3}, io_bytes = []\<rparr>)"
  by (subst timed_out_stays_nonblocking [where now = 7 and ?w1.0 = "()" and ?w2.0 = "()" and ?w3.0 = "()" and ?w4.0 = "()"])
    (simp_all add: idle_kernel_def)

text \<open>The time left of a limit, as long as less than 24 days have passed.\<close>

lemma time_left:
  assumes "k_clock K (io_world s) = (now, w)" "0 \<le> start" "start \<le> now" "(now - start) div 1000000 < 2 ^ 31" "0 \<le> milliseconds"
  shows "safe_calculate_timeout K start milliseconds s =
    (Some (max 0 (milliseconds - (now - start) div 1000000)), s\<lparr>io_world := w\<rparr>)"
proof -
  define t where "t = (now - start) div 1000000"
  have t: "0 \<le> t" "t < 2 ^ 31" "(now - start) sdiv 1000000 = t"
    using assms by (simp_all add: t_def signed_divide_int_def sgn_if)
  then have "sint (word_of_int t :: 32 word) = t"
    by (simp add: sint_uint uint_word_of_int signed_take_bit_int_eq_self)
  with t assms show ?thesis
    by (simp add: safe_calculate_timeout_def sys_clock_def Let_def t_def)
qed

section \<open>Connecting\<close>

text \<open>What \<open>safe_resolve_and_connect\<close> relies on: its calls return, and a new socket is a descriptor of its own.\<close>

definition connecting :: "'w kernel \<Rightarrow> ('w \<Rightarrow> nat) \<Rightarrow> bool" where
  "connecting K W \<longleftrightarrow> answers W (k_socket K) (\<lambda>fd. 0 \<le> fd) \<and>
     (\<forall>fd. answers W (k_getfl K fd) (\<lambda>_. True) \<and> (\<forall>on. answers W (k_setfl K fd on) (\<lambda>_. True)) \<and>
        answers W (k_close K fd) (\<lambda>_. True) \<and> (\<forall>a. answers W (k_connect K True fd a) (\<lambda>_. True)))"

lemma close_returns:
  fixes K :: "'a kernel"
  assumes "connecting K W" "0 \<le> fd"
  obtains r s' where "safe_close K fd s = Some (r, s')" "io_open s' = io_open s - {fd}"
proof -
  have ok: "answers W (k_close K fd) (\<lambda>_. True)" using assms by (simp add: connecting_def)
  have "\<exists>r s'. uninterrupted (sys_close K fd) s = Some (r, s') \<and> r \<noteq> Inl EINTR \<and> io_open s' = io_open s - {fd}"
  proof (rule uninterrupted_rule [where m = "\<lambda>s. W (io_world s)" and I = "\<lambda>t. io_open t - {fd} = io_open s - {fd}"])
    fix t :: "'a io_state" assume I: "io_open t - {fd} = io_open s - {fd}"
    obtain r u where "syscall (k_close K fd) t = Some (r, u)" "io_open u = io_open t"
      "case r of Inl e \<Rightarrow> io_errno u = e \<and> (e \<in> retried \<longrightarrow> W (io_world u) < W (io_world t)) | Inr a \<Rightarrow> True \<and> io_errno u = io_errno t"
      by (rule syscall_answers [OF ok])
    with I show "\<exists>r s'. sys_close K fd t = Some (r, s') \<and>
        (if r = Inl EINTR then io_open s' - {fd} = io_open s - {fd} \<and> W (io_world s') < W (io_world t)
         else io_open s' = io_open s - {fd})"
      by (auto simp: sys_close_def retried_def split: sum.splits)
  qed simp
  with assms show thesis by (auto simp: safe_close_def intro: that)
qed

lemma connect_returns:
  fixes K :: "'a kernel"
  assumes "connecting K W" "0 \<le> fd" "fd \<in> io_nonblock s"
  obtains r s' where "safe_connect K fd addr s = Some (r, s')" "io_open s' = io_open s" "io_nonblock s' = io_nonblock s" "r = 0 \<or> r = -1"
proof (cases "addr = None \<or> addr = Some []")
  case True
  then show thesis by (intro that [of "-1" "s\<lparr>io_errno := EINVAL\<rparr>"]) (auto simp: safe_connect_def)
next
  case False
  then obtain a where a: "addr = Some a" "a \<noteq> []" by auto
  have ok: "answers W (k_connect K True fd a) (\<lambda>_. True)" using assms by (simp add: connecting_def)
  have "\<exists>r s'. uninterrupted (sys_connect K fd a) s = Some (r, s') \<and> r \<noteq> Inl EINTR \<and>
      (io_open s' = io_open s \<and> io_nonblock s' = io_nonblock s)"
  proof (rule uninterrupted_rule [where m = "\<lambda>s. W (io_world s)" and
        I = "\<lambda>t. io_open t = io_open s \<and> io_nonblock t = io_nonblock s"])
    fix t :: "'a io_state" assume I: "io_open t = io_open s \<and> io_nonblock t = io_nonblock s"
    obtain r u where "syscall (k_connect K True fd a) t = Some (r, u)" "io_open u = io_open t" "io_nonblock u = io_nonblock t"
      "case r of Inl e \<Rightarrow> io_errno u = e \<and> (e \<in> retried \<longrightarrow> W (io_world u) < W (io_world t)) | Inr a \<Rightarrow> True \<and> io_errno u = io_errno t"
      by (rule syscall_answers [OF ok])
    with I assms(3) show "\<exists>r s'. sys_connect K fd a t = Some (r, s') \<and>
        (if r = Inl EINTR then (io_open s' = io_open s \<and> io_nonblock s' = io_nonblock s) \<and> W (io_world s') < W (io_world t)
         else io_open s' = io_open s \<and> io_nonblock s' = io_nonblock s)"
      by (auto simp: sys_connect_def retried_def split: sum.splits)
  qed simp
  then obtain r s' where "uninterrupted (sys_connect K fd a) s = Some (r, s')" "io_open s' = io_open s" "io_nonblock s' = io_nonblock s"
    by blast
  with a assms(2) show thesis
    by (cases r) (auto simp: safe_connect_def or_minus_one_def intro: that)
qed

lemma set_non_blocking_returns:
  assumes "connecting K W"
  obtains r s' where "set_non_blocking_mode K fd s = Some (r, s')" "io_open s' = io_open s" "r = 0 \<Longrightarrow> fd \<in> io_nonblock s'"
proof -
  have ok: "answers W (k_getfl K fd) (\<lambda>_. True)" "answers W (k_setfl K fd True) (\<lambda>_. True)"
    using assms by (auto simp: connecting_def)
  obtain r t where t: "syscall (k_getfl K fd) s = Some (r, t)" "io_open t = io_open s" "io_nonblock t = io_nonblock s"
    by (rule syscall_answers [OF ok(1)])
  obtain q u where u: "syscall (k_setfl K fd True) t = Some (q, u)" "io_open u = io_open t"
    by (rule syscall_answers [OF ok(2)])
  note defs = set_non_blocking_mode_def sys_getfl_def sys_setfl_def or_minus_one_def
  show thesis
  proof (cases r)
    case (Inl e)
    with t show thesis by (intro that [of "-1" t]) (simp_all add: defs)
  next
    case (Inr v)
    show thesis
    proof (cases "fd \<in> io_nonblock s")
      case True
      with Inr t show thesis by (intro that [of 0 t]) (simp_all add: defs)
    next
      case False
      with Inr t u show thesis
        by (cases q) (auto simp: defs intro: that [of "-1" u] that [of 0 "u\<lparr>io_nonblock := insert fd (io_nonblock u)\<rparr>"])
    qed
  qed
qed

text \<open>
  \<open>safe_resolve_and_connect\<close> returns and leaks nothing: after an error the descriptors that are open are
  those from before; otherwise there is exactly one more, the one it stores, in non-blocking mode, and the
  result says whether the connection is established (0) or under way (1).
\<close>

theorem resolve_and_connect_leaks_nothing:
  assumes "connecting K W"
    and "\<And>fd w. k_socket K (io_world s) = Some (Inr fd, w) \<Longrightarrow> fd \<notin> io_open s"
  shows "\<exists>ret sock s'. safe_resolve_and_connect K host port s = Some ((ret, sock), s') \<and>
    (if ret < 0 then sock = None \<and> io_open s' = io_open s
     else ret \<in> {0, 1} \<and> (\<exists>fd. sock = Some fd \<and> fd \<notin> io_open s \<and> io_open s' = insert fd (io_open s) \<and> fd \<in> io_nonblock s'))"
proof (cases "port = 0")
  case True
  then show ?thesis by (simp add: safe_resolve_and_connect_def)
next
  case port: False
  have "answers W (k_socket K) (\<lambda>fd. 0 \<le> fd)" using assms(1) by (simp add: connecting_def)
  then obtain r t where t: "syscall (k_socket K) s = Some (r, t)" "io_open t = io_open s"
    "case r of Inl e \<Rightarrow> io_errno t = e \<and> (e \<in> retried \<longrightarrow> W (io_world t) < W (io_world s)) | Inr fd \<Rightarrow> 0 \<le> fd \<and> io_errno t = io_errno s"
    "k_socket K (io_world s) = Some (r, io_world t)"
    by (rule syscall_answers)
  show ?thesis
  proof (cases r)
    case (Inl e)
    with port t show ?thesis by (simp add: safe_resolve_and_connect_def sys_socket_def)
  next
    case (Inr fd)
    define t' where "t' = t\<lparr>io_open := insert fd (io_open t), io_nonblock := io_nonblock t - {fd}\<rparr>"
    have fresh: "fd \<notin> io_open s" "0 \<le> fd" using assms(2) t Inr by auto
    have sock: "sys_socket K s = Some (Inr fd, t')" using t Inr by (simp add: sys_socket_def t'_def)
    obtain m u where u: "set_non_blocking_mode K fd t' = Some (m, u)" "io_open u = io_open t'" "m = 0 \<longrightarrow> fd \<in> io_nonblock u"
      by (rule set_non_blocking_returns [OF assms(1), of fd t']) blast
    obtain res w where g: "k_getaddrinfo K host (dec_string (int port)) (io_world u) = (res, w)" by fastforce
    have failed: ?thesis
      if "safe_resolve_and_connect K host port s = do { (_, s) \<leftarrow> safe_close K fd v; Some ((-1, None), s) }"
        "io_open v = io_open t'" for v
    proof -
      obtain c z where "safe_close K fd v = Some (c, z)" "io_open z = io_open v - {fd}"
        by (rule close_returns [OF assms(1) fresh(2)])
      with that fresh t(2) show ?thesis
        by (intro exI [of _ "-1"] exI [of _ None] exI [of _ z]) (simp add: t'_def)
    qed
    show ?thesis
    proof (cases "m = 0")
      case False
      with port sock u failed [of u] show ?thesis by (simp add: safe_resolve_and_connect_def)
    next
      case ok: True
      show ?thesis
      proof (cases res)
        case None
        with port sock u g ok failed [of "u\<lparr>io_world := w\<rparr>"] show ?thesis
          by (simp add: safe_resolve_and_connect_def)
      next
        case (Some list)
        let ?a = "case list of a # _ \<Rightarrow> Some a | [] \<Rightarrow> None"
        have "fd \<in> io_nonblock (u\<lparr>io_world := w\<rparr>)" using u ok by simp
        then obtain ret v where v: "safe_connect K fd ?a (u\<lparr>io_world := w\<rparr>) = Some (ret, v)"
          "io_open v = io_open t'" "io_nonblock v = io_nonblock u" "ret = 0 \<or> ret = -1"
          using connect_returns [OF assms(1) fresh(2), of "u\<lparr>io_world := w\<rparr>" ?a] u(2) by auto
        have open': "io_open t' = insert fd (io_open s)" using t by (simp add: t'_def)
        consider "ret = 0" | "ret = -1" "io_errno v = EINPROGRESS" | "ret = -1" "io_errno v \<noteq> EINPROGRESS"
          using v(4) by blast
        then show ?thesis
        proof cases
          case 3
          then show ?thesis
            using failed [of v] port sock u g ok v Some by (simp add: safe_resolve_and_connect_def)
        qed (use port sock u g ok v Some fresh open' in \<open>auto simp: safe_resolve_and_connect_def\<close>)
      qed
    qed
  qed
qed

lemma resolve_and_connect_leaks_nothing_witness:
  "\<exists>ret sock s'. safe_resolve_and_connect pipe_kernel ''host'' 80 demo_io = Some ((ret, sock), s') \<and>
    (if ret < 0 then sock = None \<and> io_open s' = io_open demo_io
     else ret \<in> {0, 1} \<and> (\<exists>fd. sock = Some fd \<and> fd \<notin> io_open demo_io \<and>
       io_open s' = insert fd (io_open demo_io) \<and> fd \<in> io_nonblock s'))"
proof (rule resolve_and_connect_leaks_nothing)
  show "connecting pipe_kernel fst"
    by (auto simp: connecting_def answers_def pipe_kernel_def retried_def)
qed (simp add: pipe_kernel_def demo_io_def)

end
