(* ===== verification/Ssl_Io.thy ===== *)
theory Ssl_Io
  imports File_Descriptor_Io
begin

text \<open>
  \<open>flinter/linkage/ssl_io.cpp\<close>: the transport over TLS. OpenSSL and the calls on the socket are a
  parameter, the record \<open>openssl\<close> over a state of its own. What survives every call of a transport
  survives everything a connection does with it: the locale \<open>transport_invariant\<close>, interpreted for
  both transports. For TLS it gives that no data reaches OpenSSL before the handshake is done.
\<close>

section \<open>OpenSSL\<close>

datatype ssl_error =
    SSL_ERROR_WANT_READ
  | SSL_ERROR_WANT_WRITE
  | SSL_ERROR_ZERO_RETURN
  | SSL_ERROR_SYSCALL
  | SSL_ERROR_WANT_X509_LOOKUP
  | SSL_ERROR_SSL
  | SSL_ERROR_OTHER

text \<open>What can be read from the peer's certificate; a part that cannot be converted is \<open>None\<close>.\<close>

record certificate =
  x_subject :: "string option"
  x_issuer :: "string option"
  x_serial :: "string option"

record 'k openssl =
  SSL_read :: "nat \<Rightarrow> 'k \<Rightarrow> (int \<times> bytes) \<times> 'k"
  SSL_write :: "bytes \<Rightarrow> 'k \<Rightarrow> int \<times> 'k"
  SSL_connect :: "'k \<Rightarrow> int \<times> 'k"
  SSL_accept :: "'k \<Rightarrow> int \<times> 'k"
  SSL_shutdown :: "'k \<Rightarrow> int \<times> 'k"
  SSL_pending :: "'k \<Rightarrow> int"
  SSL_get_error :: "int \<Rightarrow> 'k \<Rightarrow> ssl_error"
  ERR_get_error :: "'k \<Rightarrow> 'k"
  SSL_get_version :: "'k \<Rightarrow> string"
  SSL_get_cipher_name :: "'k \<Rightarrow> string"
  SSL_get_peer_certificate :: "'k \<Rightarrow> certificate option"
  k_errno :: "'k \<Rightarrow> int"
  k_connected :: "'k \<Rightarrow> bool \<times> 'k"
  k_shutdown :: "'k \<Rightarrow> bool \<times> 'k"

datatype ssl_peer =
    SslPeer string string
  | SslPeerWithCertificate string string string string string

text \<open>
  The members of \<open>SslIo\<close>. \<open>s_early\<close> records whether data was passed to OpenSSL while there was no
  \<open>_peer\<close>, that is before the handshake; no operation reads it.
\<close>

record 'k ssl_io =
  s_ssl :: 'k
  s_client_mode :: bool
  s_connecting :: bool
  s_peer :: "ssl_peer option"
  s_early :: bool

definition new_ssl_io :: "bool \<Rightarrow> bool \<Rightarrow> 'k \<Rightarrow> 'k ssl_io" where
  "new_ssl_io client_or_server socket_connecting k =
    \<lparr>s_ssl = k, s_client_mode = client_or_server, s_connecting = socket_connecting, s_peer = None, s_early = False\<rparr>"

section \<open>The transport\<close>

text \<open>\<open>HandleError\<close>; the values it leaves in \<open>errno\<close> are only logged.\<close>

definition HandleError :: "'k openssl \<Rightarrow> int \<Rightarrow> 'k ssl_io \<Rightarrow> io_status \<times> 'k ssl_io" where
  "HandleError K ret io = (case SSL_get_error K ret (s_ssl io) of
      SSL_ERROR_WANT_READ \<Rightarrow> (kStatusWannaRead, io)
    | SSL_ERROR_WANT_WRITE \<Rightarrow> (kStatusWannaWrite, io)
    | SSL_ERROR_ZERO_RETURN \<Rightarrow> (kStatusClosed, io)
    | SSL_ERROR_SYSCALL \<Rightarrow> (if k_errno K (s_ssl io) = 0 then kStatusClosed else kStatusError, io)
    | SSL_ERROR_WANT_X509_LOOKUP \<Rightarrow> (kStatusError, io)
    | SSL_ERROR_SSL \<Rightarrow> (kStatusError, io\<lparr>s_ssl := ERR_get_error K (s_ssl io)\<rparr>)
    | SSL_ERROR_OTHER \<Rightarrow> (kStatusError, io))"

definition SslWrite :: "'k openssl \<Rightarrow> bytes \<Rightarrow> 'k ssl_io \<Rightarrow> (io_status \<times> nat) \<times> 'k ssl_io" where
  "SslWrite K buffer io =
    (if length buffer > INT_MAX then ((kStatusBug, 0), io)
     else case SSL_write K buffer (s_ssl io) of (ret, k) \<Rightarrow>
       let io = io\<lparr>s_ssl := k, s_early := s_early io \<or> s_peer io = None\<rparr> in
       if ret > 0 then ((kStatusOk, nat ret), io)
       else case HandleError K ret io of (status, io) \<Rightarrow> ((status, 0), io))"

definition SslRead :: "'k openssl \<Rightarrow> nat \<Rightarrow> 'k ssl_io \<Rightarrow> (io_status \<times> bytes \<times> bool) \<times> 'k ssl_io" where
  "SslRead K n io =
    (if n > INT_MAX then ((kStatusBug, [], False), io)
     else case SSL_read K n (s_ssl io) of ((ret, data), k) \<Rightarrow>
       let io = io\<lparr>s_ssl := k, s_early := s_early io \<or> s_peer io = None\<rparr> in
       if ret > 0 then ((kStatusOk, take (nat ret) data, SSL_pending K k \<noteq> 0), io)
       else case HandleError K ret io of (status, io) \<Rightarrow> ((status, [], False), io))"

definition OnHandshaked :: "'k openssl \<Rightarrow> 'k ssl_io \<Rightarrow> bool \<times> 'k ssl_io" where
  "OnHandshaked K io =
    (let version = SSL_get_version K (s_ssl io); cipher = SSL_get_cipher_name K (s_ssl io) in
     case SSL_get_peer_certificate K (s_ssl io) of
       None \<Rightarrow> (True, io\<lparr>s_peer := Some (SslPeer version cipher)\<rparr>)
     | Some x509 \<Rightarrow> (case x_subject x509 of None \<Rightarrow> (False, io) | Some subject_name \<Rightarrow>
         (case x_issuer x509 of None \<Rightarrow> (False, io) | Some issuer_name \<Rightarrow>
           (case x_serial x509 of None \<Rightarrow> (False, io) | Some serial_number \<Rightarrow>
             (True, io\<lparr>s_peer := Some (SslPeerWithCertificate version cipher subject_name issuer_name serial_number)\<rparr>)))))"

text \<open>The head of \<open>Connect\<close> and \<open>Accept\<close>: whether a connection in progress has been established.\<close>

definition established :: "'k openssl \<Rightarrow> 'k ssl_io \<Rightarrow> bool \<times> 'k ssl_io" where
  "established K io =
    (if s_connecting io then
       case k_connected K (s_ssl io) of (ok, k) \<Rightarrow>
         if \<not> ok then (False, io\<lparr>s_ssl := k\<rparr>) else (True, io\<lparr>s_ssl := k, s_connecting := False\<rparr>)
     else (True, io))"

definition SslConnect :: "'k openssl \<Rightarrow> 'k ssl_io \<Rightarrow> io_status \<times> 'k ssl_io" where
  "SslConnect K io = (case established K io of (ok, io) \<Rightarrow>
     if \<not> ok then (kStatusError, io)
     else case SSL_connect K (s_ssl io) of (ret, k) \<Rightarrow>
       let io = io\<lparr>s_ssl := k\<rparr> in
       if ret = 1 then (case OnHandshaked K io of (ok, io) \<Rightarrow> (if \<not> ok then kStatusError else kStatusOk, io))
       else if ret = 0 then (kStatusClosed, io)
       else HandleError K ret io)"

definition SslAccept :: "'k openssl \<Rightarrow> 'k ssl_io \<Rightarrow> io_status \<times> 'k ssl_io" where
  "SslAccept K io = (case established K io of (ok, io) \<Rightarrow>
     if \<not> ok then (kStatusError, io)
     else case SSL_accept K (s_ssl io) of (ret, k) \<Rightarrow>
       let io = io\<lparr>s_ssl := k\<rparr> in
       if ret = 1 then (case OnHandshaked K io of (ok, io) \<Rightarrow> (if \<not> ok then kStatusError else kStatusOk, io))
       else HandleError K ret io)"

definition SslShutdown :: "'k openssl \<Rightarrow> 'k ssl_io \<Rightarrow> io_status \<times> 'k ssl_io" where
  "SslShutdown K io =
    (case SSL_shutdown K (s_ssl io) of (ret, k) \<Rightarrow>
     case (if ret = 0 then SSL_shutdown K k else (ret, k)) of (ret, k) \<Rightarrow>
       let io = io\<lparr>s_ssl := k\<rparr> in
       if ret = 1 then
         (case k_shutdown K (s_ssl io) of (ok, k) \<Rightarrow>
            (if \<not> ok then kStatusError else kStatusClosed, io\<lparr>s_ssl := k\<rparr>))
       else HandleError K ret io)"

definition SslInitialize :: "'k ssl_io \<Rightarrow> (bool \<times> io_action \<times> io_action \<times> bool \<times> bool) \<times> 'k ssl_io" where
  "SslInitialize io =
    (let handshake = (if s_client_mode io then kActionConnect else kActionAccept) in
     ((if s_connecting io then (True, kActionNone, handshake, False, True)
       else (True, handshake, kActionNone, False, False)), io))"

definition ssl_vt :: "'k openssl \<Rightarrow> 'k ssl_io io_vt" where
  "ssl_vt K = \<lparr>ioInitialize = SslInitialize, ioRead = SslRead K, ioWrite = SslWrite K,
     ioShutdown = SslShutdown K, ioConnect = SslConnect K, ioAccept = SslAccept K\<rparr>"

section \<open>What a connection keeps of its transport\<close>

named_theorems l_io_simps \<open>operations that do not touch the transport\<close>

lemma l_io_updates [l_io_simps]:
  "l_io (UpdateLastReceived s) = l_io s" "l_io (UpdateReceiveJam b s) = l_io s" "l_io (UpdateConnectJam b s) = l_io s"
  "l_io (UpdateLastSent x y s) = l_io s" "l_io (ConsumeSendingBuffer n s) = l_io s" "l_io (DumpSendingBuffer s) = l_io s"
  "l_io (snd (AppendSendingBuffer m s)) = l_io s" "l_io (snd (PickSendingBuffer s)) = l_io s"
  by (auto simp: UpdateLastReceived_def UpdateReceiveJam_def UpdateConnectJam_def UpdateLastSent_def Let_def
      ConsumeSendingBuffer_def DumpSendingBuffer_def AppendSendingBuffer_def PickSendingBuffer_def)

lemma l_io_wanna [l_io_simps]:
  "l_io (set_wanna r w s) = l_io s" "l_io (set_wanna_read b s) = l_io s" "l_io (set_wanna_write b s) = l_io s"
  "l_io (restore_wanna s) = l_io s"
  using set_wanna_events [of r w s] set_wanna_read_events [of b s] set_wanna_write_events [of b s]
    set_wanna_events [of True "GetSendingBufferSize s \<noteq> 0" s]
  by (auto simp: restore_wanna_def)

lemma l_io_append [l_io_simps]: "AppendSendingBuffer m s = (ok, s') \<Longrightarrow> l_io s' = l_io s"
  by (metis l_io_updates(7) snd_conv)

lemma l_io_pick [l_io_simps]: "PickSendingBuffer s = (b, s') \<Longrightarrow> l_io s' = l_io s"
  by (metis l_io_updates(8) snd_conv)

lemma l_io_after [l_io_simps]: "l_io (snd (AfterEvent st s)) = l_io s"
  by (cases st) (simp_all add: AfterEvent_def l_io_simps)

lemma l_io_finish [l_io_simps]: "l_io (snd (finish_event a st s)) = l_io s"
  using l_io_after [of st "s\<lparr>l_action := (if INCOMPLETE st then a else kActionNone)\<rparr>"]
  by (simp add: finish_event_def case_prod_unfold)

lemma l_io_determine [l_io_simps]:
  "determine_length H p s = Inr s1 \<Longrightarrow> l_io s1 = l_io s"
  "determine_length H p s = Inl (r, s1) \<Longrightarrow> l_io s1 = l_io s"
  by (auto simp: determine_length_def Let_def l_io_simps split: if_splits)

locale transport_invariant =
  fixes V :: "'io io_vt" and Q :: "'io \<Rightarrow> bool"
  assumes Q_read: "Q io \<Longrightarrow> Q (snd (ioRead V n io))"
    and Q_write: "Q io \<Longrightarrow> Q (snd (ioWrite V b io))"
    and Q_shutdown: "Q io \<Longrightarrow> Q (snd (ioShutdown V io))"
    and Q_connect: "Q io \<Longrightarrow> Q (snd (ioConnect V io))"
    and Q_accept: "Q io \<Longrightarrow> Q (snd (ioAccept V io))"
begin

lemma Q_io_write: "Q (l_io s) \<Longrightarrow> io_write V b s = (r, s') \<Longrightarrow> Q (l_io s')"
  using Q_write [of "l_io s" b] by (auto simp: io_write_def split: prod.splits)

lemma Q_Send: "Q (l_io s) \<Longrightarrow> Q (l_io (snd (Send V b s)))"
proof (cases b)
  case (Some m)
  assume Q: "Q (l_io s)"
  obtain st n s1 where w: "io_write V m s = ((st, n), s1)" by (metis prod.exhaust)
  then have Q1: "Q (l_io s1)" using Q by (rule Q_io_write [rotated])
  have append: "Q (l_io (snd (AppendSendingBuffer c t)))" if "Q (l_io t)" for c and t :: "('io, 'b) linkage"
    using that by (simp add: l_io_simps)
  obtain ok s2 where a: "AppendSendingBuffer m s1 = (ok, s2)" by fastforce
  obtain ok' s3 where d: "AppendSendingBuffer (drop n m) s1 = (ok', s3)" by fastforce
  have "Q (l_io s2)" "Q (l_io s3)" using Q1 l_io_append [OF a] l_io_append [OF d] by simp_all
  then show ?thesis
    unfolding Some Send_def option.case w prod.case a d
    using Q Q1 append [OF Q] by (simp add: l_io_simps split: io_status.split)
qed (simp add: Send_def)

lemma Q_Shutdown_event: "Q (l_io s) \<Longrightarrow> Q (l_io (snd (OnEventShutdown V s)))"
proof -
  assume Q: "Q (l_io s)"
  obtain ret st s1 where r: "LinkageShutdown V kStatusBug s = ((ret, st), s1)" by (metis prod.exhaust)
  have "Q (l_io s1)"
    using r Q Q_shutdown [of "l_io s"]
    by (auto simp: LinkageShutdown_def Let_def UpdateConnectJam_def split: if_splits prod.splits)
  then show ?thesis using r by (auto simp: OnEventShutdown_def l_io_simps)
qed

lemma Q_Disconnect: "Q (l_io s) \<Longrightarrow> Q (l_io (snd (Disconnect V f s)))"
  using Q_Shutdown_event [of "s\<lparr>l_graceful := True\<rparr>"] Q_Shutdown_event [of "DumpSendingBuffer (s\<lparr>l_graceful := True\<rparr>)"]
  by (auto simp: Disconnect_def Let_def l_io_simps split: prod.splits)

lemma Q_calls: "Q (l_io s) \<Longrightarrow> Q (l_io (apply_calls V cs s))"
proof (induction cs arbitrary: s)
  case (Cons c cs)
  then show ?case by (cases c) (simp_all add: Q_Send Q_Disconnect)
qed simp

lemma Q_OnMessage: "Q (l_io s) \<Longrightarrow> OnMessage V H m s = (r, s') \<Longrightarrow> Q (l_io s')"
  by (auto simp: OnMessage_def Q_calls split: prod.splits)

lemma Q_DoReceived: "Q (l_io s) \<Longrightarrow> DoReceived V H p c s = (r, s') \<Longrightarrow> Q (l_io s')"
proof (induction V\<equiv>V H p c s arbitrary: r s' rule: DoReceived.induct)
  case (1 H p c s)
  note eq = "1.prems"(2) [unfolded DoReceived.simps [of V H p c s]]
  show ?case
  proof (cases "p = []")
    case True
    with "1.prems" eq show ?thesis by simp
  next
    case p: False
    show ?thesis
    proof (cases "determine_length H p s")
      case (Inl x)
      with p eq "1.prems"(1) show ?thesis by (cases x) (auto simp: l_io_determine(2))
    next
      case (Inr s1)
      then have Q1: "Q (l_io s1)" using "1.prems"(1) by (simp add: l_io_determine(1))
      show ?thesis
      proof (cases "length p < l_rlength s1")
        case True
        with p Inr eq Q1 show ?thesis by (auto simp: l_io_simps)
      next
        case False
        obtain n s2 where m: "OnMessage V H (take (l_rlength s1) p) (UpdateReceiveJam False s1) = (n, s2)" by fastforce
        have Q2: "Q (l_io s2)" by (rule Q_OnMessage [OF _ m]) (simp add: l_io_simps Q1)
        show ?thesis
        proof (cases "n > 0")
          case True
          then have "DoReceived V H (drop (l_rlength s1) p) (c + l_rlength s1) (s2\<lparr>l_rlength := 0\<rparr>) = (r, s')"
            using p Inr False m eq by simp
          then show ?thesis
            using "1.hyps" [OF p Inr False m [symmetric]] True Q2 by simp
        next
          case no: False
          with p Inr False m eq Q2 show ?thesis by (auto split: if_splits)
        qed
      qed
    qed
  qed
qed

lemma Q_OnReceived:
  assumes "Q (l_io s)"
  shows "Q (l_io (snd (OnReceived V H b s)))"
proof -
  have 1: "Q (l_io (snd (DoReceived V H p c t)))" if "Q (l_io t)" for p c t
    using that Q_DoReceived [of t H p c] by (cases "DoReceived V H p c t") simp
  have 2: "Q (l_io (UpdateLastReceived s))" using assms by (simp add: l_io_simps)
  show ?thesis
    using assms by (simp add: OnReceived_def Let_def case_prod_unfold 1 2)
qed

lemma Q_DoConnected: "Q (l_io s) \<Longrightarrow> Q (l_io (snd (DoConnected V H s)))"
  by (auto simp: DoConnected_def OnConnected_def Let_def l_io_simps intro!: Q_calls split: prod.splits)

lemma Q_EventRead: "Q (l_io s) \<Longrightarrow> Q (l_io (snd (EventRead V H s)))"
proof -
  assume Q: "Q (l_io s)"
  obtain st d m io where r: "ioRead V kReadBuffer (l_io s) = ((st, d, m), io)" by (metis prod.exhaust)
  have Q1: "Q io" using Q_read [OF Q, of kReadBuffer] r by simp
  have "Q (l_io (snd (OnReceived V H d (s\<lparr>l_io := io, l_action := kActionNone\<rparr>))))"
    by (rule Q_OnReceived) (simp add: Q1)
  then show ?thesis using r Q1
    by (auto simp: EventRead_def Let_def l_io_simps split: prod.splits)
qed

lemma Q_EventWrite: "Q (l_io s) \<Longrightarrow> Q (l_io (snd (EventWrite V s)))"
proof -
  assume Q: "Q (l_io s)"
  obtain b s0 where p: "PickSendingBuffer s = (b, s0)" by fastforce
  obtain st n s1 where w: "io_write V b s0 = ((st, n), s1)" by (metis prod.exhaust)
  have Q0: "Q (l_io s0)" using Q l_io_pick [OF p] by simp
  have Q1: "Q (l_io s1)" by (rule Q_io_write [OF Q0 w])
  show ?thesis using Q0 Q1
    by (auto simp: EventWrite_def p w Let_def l_io_simps)
qed

lemma Q_EventHandshake: "Q (l_io s) \<Longrightarrow> Q (l_io (snd (EventHandshake V H a st s)))"
  using Q_DoConnected [of "s\<lparr>l_action := kActionNone\<rparr>" H]
  by (auto simp: EventHandshake_def l_io_simps split: prod.splits)

lemma Q_OnEventOnce: "Q (l_io s) \<Longrightarrow> Q (l_io (snd (OnEventOnce V H a s)))"
proof -
  assume Q: "Q (l_io s)"
  obtain st1 io1 where 1: "ioConnect V (l_io s) = (st1, io1)" by fastforce
  obtain st2 io2 where 2: "ioAccept V (l_io s) = (st2, io2)" by fastforce
  have Q1: "Q io1" and Q2: "Q io2" using Q_connect [OF Q] Q_accept [OF Q] 1 2 by simp_all
  show ?thesis
    using Q Q_EventHandshake [of "s\<lparr>l_io := io1\<rparr>" H a st1] Q_EventHandshake [of "s\<lparr>l_io := io2\<rparr>" H a st2] Q1 Q2
      Q_EventRead [OF Q, of H] Q_EventWrite [OF Q] Q_Shutdown_event [OF Q]
    by (cases a) (auto simp: OnEventOnce_def 1 2 l_io_simps split: prod.splits)
qed

lemma Q_event_loop:
  assumes loop: "event_loop V H a s = Some r" and "Q (l_io s)"
  shows "Q (l_io (snd r))"
proof -
  have "V = V \<longrightarrow> Q (l_io s) \<longrightarrow> Q (l_io (snd r))"
  proof (rule event_loop.raw_induct [where P = "\<lambda>W H a s r. W = V \<longrightarrow> Q (l_io s) \<longrightarrow> Q (l_io (snd r))", OF _ loop])
    fix f W H a s r
    assume IH: "\<And>W H a s r. f W H a s = Some r \<Longrightarrow> W = V \<longrightarrow> Q (l_io s) \<longrightarrow> Q (l_io (snd r))"
      and eq: "(case OnEventOnce W H a s of ((ret, next_action), s1) \<Rightarrow>
        if next_action = kActionNone then Some (ret, s1) else f W H next_action s1) = Some r"
    show "W = V \<longrightarrow> Q (l_io s) \<longrightarrow> Q (l_io (snd r))"
    proof (intro impI)
      assume W: "W = V" and s: "Q (l_io s)"
      obtain ret na s1 where o: "OnEventOnce V H a s = ((ret, na), s1)" by (metis prod.exhaust)
      with Q_OnEventOnce [OF s, of H a] have "Q (l_io s1)" by simp
      with eq o W IH [of V H na s1 r] show "Q (l_io (snd r))" by (auto split: if_splits)
    qed
  qed
  with assms(2) show ?thesis by blast
qed

lemma Q_OnEvent: "OnEvent V H a s = Some (r, s') \<Longrightarrow> Q (l_io s) \<Longrightarrow> Q (l_io s')"
  using Q_event_loop by (fastforce simp: OnEvent_def Let_def l_io_simps split: option.splits)

lemma Q_handlers:
  "Q (l_io s) \<Longrightarrow> Q (l_io (LinkageOnError V H b s))"
  "Q (l_io s) \<Longrightarrow> Q (l_io (LinkageOnDisconnected V H s))"
  "Q (l_io s) \<Longrightarrow> Q (l_io (snd (LinkageCleanup V H now s)))"
  by (auto simp: LinkageOnError_def LinkageOnDisconnected_def LinkageCleanup_def Let_def intro!: Q_calls split: prod.splits)

end

text \<open>A plain socket keeps its descriptor, and a TLS connection that has shaken hands stays so.\<close>

definition shaken :: "'k ssl_io \<Rightarrow> bool" where
  "shaken io \<longleftrightarrow> s_peer io \<noteq> None \<and> \<not> s_early io"

lemma handle_error_keeps [simp]:
  "s_peer (snd (HandleError K r io)) = s_peer io" "s_early (snd (HandleError K r io)) = s_early io"
  "HandleError K r io = (st, io') \<Longrightarrow> s_peer io' = s_peer io \<and> s_early io' = s_early io \<and> st \<noteq> kStatusOk"
  by (auto simp: HandleError_def split: ssl_error.splits if_splits)

lemma handshaked_keeps:
  "OnHandshaked K io = (ok, io') \<Longrightarrow> s_early io' = s_early io \<and> (ok \<longrightarrow> s_peer io' \<noteq> None) \<and> (\<not> ok \<longrightarrow> io' = io) \<and>
    (s_peer io \<noteq> None \<longrightarrow> s_peer io' \<noteq> None)"
  by (auto simp: OnHandshaked_def Let_def split: option.splits)

lemma established_keeps:
  "established K io = (ok, io') \<Longrightarrow> s_early io' = s_early io \<and> s_peer io' = s_peer io"
  by (auto simp: established_def split: if_splits prod.splits)

text \<open>A handshake: data is not touched, success makes the peer known, and nothing else does.\<close>

lemma handshake_keeps:
  assumes "SslConnect K io = (st, io') \<or> SslAccept K io = (st, io')"
  shows "s_early io' = s_early io \<and> (st = kStatusOk \<longrightarrow> s_peer io' \<noteq> None) \<and>
    (s_peer io \<noteq> None \<longrightarrow> s_peer io' \<noteq> None) \<and> (st \<noteq> kStatusOk \<and> s_peer io = None \<longrightarrow> s_peer io' = None)"
proof -
  obtain e io1 where e: "established K io = (e, io1)" by fastforce
  have 1: "s_early io1 = s_early io" "s_peer io1 = s_peer io" using established_keeps [OF e] by simp_all
  obtain rc kc where c: "SSL_connect K (s_ssl io1) = (rc, kc)" by fastforce
  obtain ra ka where a: "SSL_accept K (s_ssl io1) = (ra, ka)" by fastforce
  obtain oc ioc where hc: "OnHandshaked K (io1\<lparr>s_ssl := kc\<rparr>) = (oc, ioc)" by fastforce
  obtain oa ioa where ha: "OnHandshaked K (io1\<lparr>s_ssl := ka\<rparr>) = (oa, ioa)" by fastforce
  from assms show ?thesis
  proof
    assume "SslConnect K io = (st, io')"
    then show ?thesis
      using handshaked_keeps [OF hc] 1 handle_error_keeps(3) [of K rc "io1\<lparr>s_ssl := kc\<rparr>" st io']
      unfolding SslConnect_def e c hc by (auto simp: c hc Let_def split: if_splits)
  next
    assume "SslAccept K io = (st, io')"
    then show ?thesis
      using handshaked_keeps [OF ha] 1 handle_error_keeps(3) [of K ra "io1\<lparr>s_ssl := ka\<rparr>" st io']
      unfolding SslAccept_def e by (auto simp: a ha Let_def split: if_splits)
  qed
qed

interpretation plain: transport_invariant "fd_vt K" "\<lambda>io. f_fd io = fd" for K fd
  by unfold_locales
    (auto simp: fd_vt_def FdRead_def FdWrite_def FdShutdown_def FdConnect_def FdAccept_def split: prod.splits)

interpretation tls: transport_invariant "ssl_vt K" shaken for K
proof
  fix io :: "'a ssl_io" assume "shaken io"
  then show "shaken (snd (ioConnect (ssl_vt K) io))" "shaken (snd (ioAccept (ssl_vt K) io))"
    using handshake_keeps [of K io "fst (SslConnect K io)" "snd (SslConnect K io)"]
      handshake_keeps [of K io "fst (SslAccept K io)" "snd (SslAccept K io)"]
    by (auto simp: shaken_def ssl_vt_def)
  show "shaken (snd (ioRead (ssl_vt K) n io))" for n
    using \<open>shaken io\<close> by (auto simp: shaken_def ssl_vt_def SslRead_def Let_def split: prod.splits)
  show "shaken (snd (ioWrite (ssl_vt K) b io))" for b
    using \<open>shaken io\<close> by (auto simp: shaken_def ssl_vt_def SslWrite_def Let_def split: prod.splits)
  show "shaken (snd (ioShutdown (ssl_vt K) io))"
    using \<open>shaken io\<close> by (auto simp: shaken_def ssl_vt_def SslShutdown_def Let_def split: prod.splits if_splits)
qed

section \<open>A connection over TLS\<close>

text \<open>
  What happens to an attached connection while the worker keeps it, that is while its events return a
  positive number: calls of the user, events, health checks, and anything else that leaves it alone.
\<close>

inductive tls_life :: "'k openssl \<Rightarrow> (('k ssl_io, 'u) linkage, 'u) handler_vt \<Rightarrow>
    ('k ssl_io, 'u) linkage \<Rightarrow> ('k ssl_io, 'u) linkage \<Rightarrow> bool"
  for K :: "'k openssl" and H :: "(('k ssl_io, 'u) linkage, 'u) handler_vt" where
  life_send: "tls_life K H s (snd (Send (ssl_vt K) b s))"
| life_disconnect: "tls_life K H s (snd (Disconnect (ssl_vt K) f s))"
| life_readable: "LinkageOnReadable (ssl_vt K) H s = Some (ret, s') \<Longrightarrow> 0 < ret \<Longrightarrow> tls_life K H s s'"
| life_writable: "LinkageOnWritable (ssl_vt K) H s = Some (ret, s') \<Longrightarrow> 0 < ret \<Longrightarrow> tls_life K H s s'"
| life_cleanup: "LinkageCleanup (ssl_vt K) H now s = (True, s') \<Longrightarrow> tls_life K H s s'"
| life_other: "l_io s' = l_io s \<Longrightarrow> l_action s' = l_action s \<Longrightarrow> tls_life K H s s'"

definition handshaking :: "('k ssl_io, 'u) linkage \<Rightarrow> bool" where
  "handshaking s \<longleftrightarrow> l_action s \<in> {kActionConnect, kActionAccept} \<and> s_peer (l_io s) = None \<and> \<not> s_early (l_io s)"

definition handshake_first :: "('k ssl_io, 'u) linkage \<Rightarrow> bool" where
  "handshake_first s \<longleftrightarrow> handshaking s \<or> shaken (l_io s)"

lemma l_action_append: "l_action (snd (AppendSendingBuffer m s)) = l_action s"
  by (simp add: AppendSendingBuffer_def Let_def)

lemma handshaking_Send: "handshaking s \<Longrightarrow> handshaking (snd (Send V b s))"
proof (cases b)
  case (Some m)
  assume h: "handshaking s"
  then have "l_action s \<noteq> kActionNone" by (auto simp: handshaking_def)
  with h Some show ?thesis by (simp add: Send_def handshaking_def l_action_append l_io_simps)
qed (simp add: Send_def)

lemma handshaking_Disconnect: "handshaking s \<Longrightarrow> handshaking (snd (Disconnect V f s))"
  by (auto simp: Disconnect_def Let_def handshaking_def DumpSendingBuffer_def)

lemma handshaking_calls: "handshaking s \<Longrightarrow> handshaking (apply_calls V cs s)"
proof (induction cs arbitrary: s)
  case (Cons c cs)
  then show ?case by (cases c) (simp_all add: handshaking_Send handshaking_Disconnect)
qed simp

lemma after_event_action: "l_action (snd (AfterEvent st s)) = l_action s" "0 < fst (AfterEvent st s) \<Longrightarrow> st = kStatusOk \<or> INCOMPLETE st"
  using set_wanna_events [of True False s] set_wanna_events [of False True s]
  by (cases st; auto simp: AfterEvent_def INCOMPLETE_def)+

text \<open>An event of a connection that is shaking hands.\<close>

lemma handshaking_event:
  assumes "handshaking s" "OnEvent (ssl_vt K) H a s = Some (ret, s')" "0 < ret"
  shows "handshake_first s'"
proof -
  let ?a = "l_action s"
  have a: "?a \<in> {kActionConnect, kActionAccept}" and p: "s_peer (l_io s) = None" "\<not> s_early (l_io s)"
    using assms(1) by (auto simp: handshaking_def)
  obtain st io where h: "(if ?a = kActionConnect then SslConnect K (l_io s) else SslAccept K (l_io s)) = (st, io)" by fastforce
  have keeps: "\<not> s_early io" "st = kStatusOk \<Longrightarrow> s_peer io \<noteq> None" "st \<noteq> kStatusOk \<Longrightarrow> s_peer io = None"
    using handshake_keeps [of K "l_io s" st io] h p by (auto split: if_splits)
  have once: "OnEventOnce (ssl_vt K) H ?a s = EventHandshake (ssl_vt K) H ?a st (s\<lparr>l_io := io\<rparr>)"
    using a h by (auto simp: OnEventOnce_def ssl_vt_def split: if_splits)
  obtain r n s1 where e: "EventHandshake (ssl_vt K) H ?a st (s\<lparr>l_io := io\<rparr>) = ((r, n), s1)" by (metis prod.exhaust)
  have n: "n = kActionNone"
    using e by (auto simp: EventHandshake_def finish_event_def split: if_splits prod.splits)
  have "event_loop (ssl_vt K) H ?a s = Some (r, s1)"
    by (subst event_loop.simps) (simp add: once e n)
  then have ret: "r = ret" "s' = restore_wanna s1" using assms(2) a by (auto simp: OnEvent_def Let_def)
  show ?thesis
  proof (cases "st = kStatusOk")
    case True
    have "shaken (l_io (s\<lparr>l_io := io\<rparr>))" using keeps True by (simp add: shaken_def)
    then have "shaken (l_io s1)" using tls.Q_EventHandshake [of "s\<lparr>l_io := io\<rparr>" K H ?a st] e by simp
    then show ?thesis using ret by (simp add: handshake_first_def l_io_simps)
  next
    case False
    let ?t = "(s\<lparr>l_io := io\<rparr>)\<lparr>l_action := (if INCOMPLETE st then ?a else kActionNone)\<rparr>"
    have f: "AfterEvent st ?t = (r, s1)"
      using e False by (auto simp: EventHandshake_def finish_event_def split: prod.splits)
    have "INCOMPLETE st" using after_event_action(2) [of st ?t] f False ret assms(3) by simp
    moreover have "l_action s1 = l_action ?t" using after_event_action(1) [of st ?t] unfolding f by simp
    moreover have "l_io s1 = io" using l_io_after [of st ?t] unfolding f by simp
    ultimately have "l_action s1 = ?a" "l_io s1 = io" by simp_all
    then show ?thesis
      using a keeps False ret by (auto simp: handshake_first_def handshaking_def restore_wanna_def)
  qed
qed

lemma handshake_first_event:
  assumes "handshake_first s" "OnEvent (ssl_vt K) H a s = Some (ret, s')" "0 < ret"
  shows "handshake_first s'"
  using assms handshaking_event [OF _ assms(2,3)] tls.Q_OnEvent [OF assms(2)]
  by (auto simp: handshake_first_def)

lemma handshake_first_calls: "handshake_first s \<Longrightarrow> handshake_first (apply_calls (ssl_vt K) cs s)"
  unfolding handshake_first_def by (elim disjE) (simp_all add: handshaking_calls tls.Q_calls)

lemma tls_life_keeps: "tls_life K H s s' \<Longrightarrow> handshake_first s \<Longrightarrow> handshake_first s'"
proof (induction rule: tls_life.induct)
  case (life_send s b)
  then show ?case
    unfolding handshake_first_def by (elim disjE) (simp_all add: handshaking_Send tls.Q_Send)
next
  case (life_disconnect s f)
  then show ?case
    unfolding handshake_first_def by (elim disjE) (simp_all add: handshaking_Disconnect tls.Q_Disconnect)
next
  case (life_readable s ret s')
  then show ?case using handshake_first_event by (auto simp: LinkageOnReadable_def)
next
  case (life_writable s ret s')
  then show ?case using handshake_first_event by (auto simp: LinkageOnWritable_def)
next
  case (life_cleanup now s s')
  then obtain calls u where "s' = apply_calls (ssl_vt K) calls (s\<lparr>l_user := u\<rparr>)"
    by (auto simp: LinkageCleanup_def Let_def split: if_splits prod.splits)
  moreover have "handshake_first (s\<lparr>l_user := u\<rparr>)"
    using life_cleanup by (simp add: handshake_first_def handshaking_def)
  ultimately show ?case by (simp add: handshake_first_calls)
next
  case (life_other s' s)
  then show ?case by (simp add: handshake_first_def handshaking_def)
qed

interpretation life: step_invariant "tls_life K H" handshake_first for K H
  by unfold_locales (rule tls_life_keeps)

lemma attach_keeps:
  "Attach l fd r w a s = (ok, s') \<Longrightarrow> l_io s' = l_io (s :: ('io, 'u) linkage)"
  by (auto simp: Attach_def Let_def set_client_def split: if_splits)

lemma attach_handshakes:
  assumes "LinkageAttach (ssl_vt K) H w s = Some (True, s')" "l_worker s = 0" "s_peer (l_io s) = None" "\<not> s_early (l_io s)"
  shows "handshake_first s'"
proof -
  define a where "a = (if s_client_mode (l_io s) then kActionConnect else kActionAccept)"
  define c where "c = s_connecting (l_io s)"
  have a: "a \<in> {kActionConnect, kActionAccept}" and an: "a \<noteq> kActionNone" by (simp_all add: a_def)
  have ini: "ioInitialize (ssl_vt K) (l_io s) =
      ((True, if c then kActionNone else a, if c then a else kActionNone, False, c), l_io s)"
    by (auto simp: ssl_vt_def SslInitialize_def a_def c_def Let_def)
  obtain ok t where t: "Attach (l_self s) (l_fd s) False c True s = (ok, t)" by fastforce
  have io: "l_io t = l_io s" by (rule attach_keeps [OF t])
  let ?u = "UpdateConnectJam True (t\<lparr>l_worker := w\<rparr>)"
  have u: "handshaking (?u\<lparr>l_action := a\<rparr>)"
    using a io assms(3,4) by (auto simp: handshaking_def l_io_simps)
  have att: "LinkageAttach (ssl_vt K) H w s =
      (if w = 0 then Some (False, s) else if \<not> ok then Some (False, t)
       else if c then Some (True, ?u\<lparr>l_action := a\<rparr>)
       else case OnEvent (ssl_vt K) H a (?u\<lparr>l_action := a\<rparr>) of
              None \<Rightarrow> None
            | Some (ret, s5) \<Rightarrow>
                if ret \<le> 0 then Some (False, (snd (Detach (l_self s5) s5))\<lparr>l_worker := 0\<rparr>) else Some (True, s5))"
    using t an assms(2) by (cases c) (simp_all add: LinkageAttach_def ini)
  show ?thesis
  proof (cases c)
    case True
    with att assms(1) u show ?thesis by (auto simp: handshake_first_def split: if_splits)
  next
    case False
    define e where "e = OnEvent (ssl_vt K) H a (?u\<lparr>l_action := a\<rparr>)"
    have "w \<noteq> 0" "ok" using att assms(1) by (simp_all split: if_splits)
    with att assms(1) False have "(case e of None \<Rightarrow> None | Some (ret, s5) \<Rightarrow>
        if ret \<le> 0 then Some (False, (snd (Detach (l_self s5) s5))\<lparr>l_worker := 0\<rparr>) else Some (True, s5)) = Some (True, s')"
      by (simp only: e_def if_False if_True not_True_eq_False)
    then obtain ret where e: "e = Some (ret, s')" and ret: "0 < ret"
    proof (cases e)
      case (Some r)
      obtain ret s5 where r: "r = (ret, s5)" by fastforce
      assume "(case e of None \<Rightarrow> None | Some (ret, s5) \<Rightarrow>
        if ret \<le> 0 then Some (False, (snd (Detach (l_self s5) s5))\<lparr>l_worker := 0\<rparr>) else Some (True, s5)) = Some (True, s')"
      then have "(if ret \<le> 0 then Some (False, (snd (Detach (l_self s5) s5))\<lparr>l_worker := 0\<rparr>) else Some (True, s5)) = Some (True, s')"
        unfolding Some r by simp
      then have "0 < ret" "s5 = s'" by (simp_all split: if_splits)
      with Some r that show thesis by blast
    qed simp
    show ?thesis by (rule handshaking_event [OF u e [unfolded e_def] ret])
  qed
qed


text \<open>A server whose peer is silent.\<close>

definition silent_peer :: "unit openssl" where
  "silent_peer = \<lparr>SSL_read = (\<lambda>n k. ((-1, []), k)), SSL_write = (\<lambda>b k. (-1, k)), SSL_connect = (\<lambda>k. (-1, k)),
     SSL_accept = (\<lambda>k. (-1, k)), SSL_shutdown = (\<lambda>k. (-1, k)), SSL_pending = (\<lambda>k. 0),
     SSL_get_error = (\<lambda>r k. SSL_ERROR_WANT_READ), ERR_get_error = id, SSL_get_version = (\<lambda>k. ''TLSv1.2''),
     SSL_get_cipher_name = (\<lambda>k. ''AES''), SSL_get_peer_certificate = (\<lambda>k. None), k_errno = (\<lambda>k. 0),
     k_connected = (\<lambda>k. (True, k)), k_shutdown = (\<lambda>k. (True, k))\<rparr>"

definition mute_handler :: "((unit ssl_io, unit) linkage, unit) handler_vt" where
  "mute_handler = \<lparr>hGetMessageLength = (\<lambda>p s. 0), hOnMessage = (\<lambda>m s. (1, [], ())), hOnConnected = (\<lambda>s. (True, [], ())),
     hOnDisconnected = (\<lambda>s. ([], ())), hOnError = (\<lambda>b s. ([], ())), hCleanup = (\<lambda>now s. (True, [], ()))\<rparr>"


text \<open>
  \<open>HandleError\<close> takes one entry off OpenSSL's queue of errors, and nothing clears the queue. As OpenSSL
  documents, \<open>SSL_get_error\<close> reports an error as long as the queue of the thread has entries; then a call
  that only has to wait, on any connection of the thread, is taken for an error.
\<close>

lemma stale_error_kills:
  assumes "\<And>ret. queue k \<noteq> ([] :: int list) \<Longrightarrow> SSL_get_error K ret k = SSL_ERROR_SSL"
    and "queue k \<noteq> []" "s_ssl io = k" "SSL_read K n k = ((-1, []), k)" "n \<le> INT_MAX"
  shows "fst (fst (SslRead K n io)) = kStatusError"
  using assms by (simp add: SslRead_def HandleError_def)

end
