(* ===== verification/Resolver.thy ===== *)
theory Resolver
  imports Utility "HOL-Library.List_Lexorder" "HOL-Library.Char_ord"
begin

text \<open>
  \<open>flinter/linkage/resolver.cpp\<close>: a cache of addresses of hosts. An entry is looked up by the thread that
  finds it stale while the others wait for that thread. The name service is a parameter: each lookup gives
  one of the answers of \<open>getaddrinfo\<close>. An address is of any type \<open>'a\<close>; both families share the code.
\<close>

section \<open>Entries\<close>

record 'a cache =
  c_addr :: "'a list"
  c_resolved :: int
  c_current :: int
  c_resolving :: bool

definition new_cache :: "'a cache" where
  "new_cache = \<lparr>c_addr = [], c_resolved = -1, c_current = -1, c_resolving = False\<rparr>"

text \<open>The loop that compares: \<open>s\<close> is the set of the old addresses, from which the new ones are erased.\<close>

fun same_addresses :: "'a list \<Rightarrow> 'a list \<Rightarrow> bool" where
  "same_addresses s [] = (s = [])"
| "same_addresses s (a # res) = (if a \<in> set s then same_addresses (remove1 a s) res else False)"

definition CacheSet :: "'a list option \<Rightarrow> 'a cache \<Rightarrow> 'a cache" where
  "CacheSet res c = (case res of
      None \<Rightarrow> c\<lparr>c_addr := [], c_current := -1\<rparr>
    | Some r \<Rightarrow> if same_addresses (remdups (c_addr c)) r then c else c\<lparr>c_addr := r, c_current := -1\<rparr>)"

text \<open>\<open>Pick\<close>: an index at or past the size reads beyond the vector. \<open>None\<close>: the random number is never drawn.\<close>

datatype pick_option = kFirst | kRandom | kSequential

datatype 'a pick = NoAddress | Picked 'a | PastEnd

definition pick_at :: "int \<Rightarrow> 'a cache \<Rightarrow> 'a pick \<times> 'a cache" where
  "pick_at i c = (if 0 \<le> i \<and> i < int (length (c_addr c)) then Picked (c_addr c ! nat i) else PastEnd, c\<lparr>c_current := i\<rparr>)"

definition Pick :: "int \<Rightarrow> ('s \<Rightarrow> int \<times> 's) \<Rightarrow> pick_option \<Rightarrow> 'a cache \<Rightarrow> 's \<Rightarrow> (('a pick \<times> 'a cache) \<times> 's) option" where
  "Pick rand_max rnd option c seed =
    (if c_addr c = [] then Some ((NoAddress, c), seed)
     else let size = int (length (c_addr c)) in
       if option = kFirst \<or> size = 1 then Some (pick_at 0 c, seed)
       else if option = kSequential then Some (pick_at ((c_current c + 1) mod size) c, seed)
       else map_option (\<lambda>(i, seed). (pick_at i c, seed)) (ranged_rand rand_max rnd size seed))"

section \<open>The cache\<close>

definition kRefreshTime :: int where "kRefreshTime = 300000000000"
definition kCacheExpire :: int where "kCacheExpire = 3600000000000"
definition kAgingInterval :: int where "kAgingInterval = 300000000000"

type_synonym entry = nat

record ('a, 's) resolver =
  rv_addr4 :: "(string, entry) smap"
  rv_addr6 :: "(string, entry) smap"
  rv_cell :: "entry \<Rightarrow> 'a cache option"
  rv_last_aging :: int
  rv_seed :: 's

definition new_resolver :: "int \<Rightarrow> 's \<Rightarrow> ('a, 's) resolver" where
  "new_resolver now seed = \<lparr>rv_addr4 = [], rv_addr6 = [], rv_cell = (\<lambda>_. None), rv_last_aging = now, rv_seed = seed\<rparr>"

datatype family = V4 | V6

fun rv_hosts :: "family \<Rightarrow> ('a, 's) resolver \<Rightarrow> (string, entry) smap" where
  "rv_hosts V4 r = rv_addr4 r"
| "rv_hosts V6 r = rv_addr6 r"

fun set_hosts :: "family \<Rightarrow> (string, entry) smap \<Rightarrow> ('a, 's) resolver \<Rightarrow> ('a, 's) resolver" where
  "set_hosts V4 m r = r\<lparr>rv_addr4 := m\<rparr>"
| "set_hosts V6 m r = r\<lparr>rv_addr6 := m\<rparr>"

text \<open>The loops of \<open>Clear\<close> and \<open>Aging\<close>: delete the entries that satisfy a condition.\<close>

definition sweep_one :: "('a cache \<Rightarrow> bool) \<Rightarrow> family \<Rightarrow> string \<times> entry \<Rightarrow> ('a, 's) resolver \<Rightarrow> ('a, 's) resolver" where
  "sweep_one P fam q r = (case rv_cell r (snd q) of
      Some c \<Rightarrow> if P c then set_hosts fam (smap_erase (fst q) (rv_hosts fam r)) (r\<lparr>rv_cell := (rv_cell r)(snd q := None)\<rparr>) else r
    | None \<Rightarrow> r)"

definition sweep :: "('a cache \<Rightarrow> bool) \<Rightarrow> family \<Rightarrow> ('a, 's) resolver \<Rightarrow> ('a, 's) resolver" where
  "sweep P fam r = fold (sweep_one P fam) (rv_hosts fam r) r"

definition RvClear :: "('a, 's) resolver \<Rightarrow> ('a, 's) resolver" where
  "RvClear r = sweep (\<lambda>c. \<not> c_resolving c) V6 (sweep (\<lambda>c. \<not> c_resolving c) V4 r)"

definition Aging :: "int \<Rightarrow> ('a, 's) resolver \<Rightarrow> ('a, 's) resolver" where
  "Aging now r =
    (if now - rv_last_aging r < kAgingInterval then r
     else let deadline = now - kCacheExpire; old = (\<lambda>c. \<not> c_resolving c \<and> c_resolved c < deadline)
       in sweep old V6 (sweep old V4 (r\<lparr>rv_last_aging := now\<rparr>)))"

section \<open>Resolving\<close>

text \<open>
  Where a thread is in \<open>DoResolve\<close>: waiting for another one, in \<open>getaddrinfo\<close>, or back from it and about to
  take the lock; \<open>j_entry\<close> is the pointer \<open>c\<close>. A call ends with an address and a port, or with \<open>false\<close>; an
  entry that has been deleted, or an index past the end, is the outcome of its own.
\<close>

record job =
  j_family :: family
  j_host :: string
  j_port :: nat
  j_option :: pick_option
  j_deadline :: int
  j_entry :: entry

datatype where_at = Waiting job | Fetching job | Fetched job bool

datatype 'a outcome = Answer 'a nat | NoAnswer | Past_end | Freed

text \<open>The loop of \<open>DoResolve\<close> up to where the thread unlocks, waits or returns.\<close>

definition resolve_loop :: "int \<Rightarrow> ('s \<Rightarrow> int \<times> 's) \<Rightarrow> job \<Rightarrow> ('a, 's) resolver \<Rightarrow>
    ((where_at + 'a outcome) \<times> ('a, 's) resolver) option" where
  "resolve_loop rand_max rnd j r = (case rv_cell r (j_entry j) of
      None \<Rightarrow> Some (Inr Freed, r)
    | Some c \<Rightarrow>
        if c_resolved c < 0 \<or> c_resolved c < j_deadline j then
          if c_resolving c then Some (Inl (Waiting j), r)
          else Some (Inl (Fetching j), r\<lparr>rv_cell := (rv_cell r)(j_entry j \<mapsto> c\<lparr>c_resolving := True\<rparr>)\<rparr>)
        else map_option (\<lambda>((p, c'), seed).
            (Inr (case p of NoAddress \<Rightarrow> NoAnswer | Picked a \<Rightarrow> Answer a (j_port j) | PastEnd \<Rightarrow> Past_end),
             r\<lparr>rv_cell := (rv_cell r)(j_entry j \<mapsto> c'), rv_seed := seed\<rparr>))
          (Pick rand_max rnd (j_option j) c (rv_seed r)))"

definition to_lower :: "char \<Rightarrow> char" where
  "to_lower c = (if CHR ''A'' \<le> c \<and> c \<le> CHR ''Z'' then char_of (of_char c + 32 :: nat) else c)"

text \<open>
  \<open>DoResolve\<close> up to there: \<open>pton\<close> is \<open>inet_pton\<close>, \<open>now\<close> the clock, \<open>fresh\<close> the pointer \<open>new C\<close> would give.
\<close>

definition DoResolve :: "int \<Rightarrow> ('s \<Rightarrow> int \<times> 's) \<Rightarrow> (family \<Rightarrow> string \<Rightarrow> 'a option) \<Rightarrow>
    family \<Rightarrow> string option \<Rightarrow> nat \<Rightarrow> pick_option \<Rightarrow> int \<Rightarrow> entry \<Rightarrow> ('a, 's) resolver \<Rightarrow>
    ((where_at + 'a outcome) \<times> ('a, 's) resolver) option" where
  "DoResolve rand_max rnd pton fam hostname port option now fresh r = (case hostname of
      None \<Rightarrow> Some (Inr NoAnswer, r)
    | Some name \<Rightarrow>
        if name = [] \<or> port = 0 then Some (Inr NoAnswer, r)
        else (case pton fam name of
            Some a \<Rightarrow> Some (Inr (Answer a port), r)
          | None \<Rightarrow>
              if length name \<ge> 1024 then Some (Inr NoAnswer, r)
              else let host = map to_lower name; r1 = Aging now r;
                     j = \<lparr>j_family = fam, j_host = host, j_port = port, j_option = option,
                          j_deadline = now - kRefreshTime, j_entry = fresh\<rparr>
                in case smap_find (rv_hosts fam r1) host of
                     Some p \<Rightarrow> resolve_loop rand_max rnd (j\<lparr>j_entry := p\<rparr>) r1
                   | None \<Rightarrow> resolve_loop rand_max rnd j
                       (set_hosts fam (smap_insert host fresh (rv_hosts fam r1))
                          (r1\<lparr>rv_cell := (rv_cell r1)(fresh \<mapsto> new_cache)\<rparr>))))"

text \<open>Awake from \<open>_condition.Wait\<close>: \<open>c->_resolving\<close> is read again.\<close>

definition resolve_wake :: "int \<Rightarrow> ('s \<Rightarrow> int \<times> 's) \<Rightarrow> job \<Rightarrow> ('a, 's) resolver \<Rightarrow>
    ((where_at + 'a outcome) \<times> ('a, 's) resolver) option" where
  "resolve_wake rand_max rnd j r = (case rv_cell r (j_entry j) of
      None \<Rightarrow> Some (Inr Freed, r)
    | Some c \<Rightarrow> if c_resolving c then Some (Inl (Waiting j), r) else resolve_loop rand_max rnd j r)"

text \<open>\<open>DoResolve_getaddrinfo\<close>, without the lock.\<close>

datatype 'a lookup = Found "'a list" | EAI_NONAME | EAI_OTHER

definition DoResolve_getaddrinfo :: "'a lookup \<Rightarrow> entry \<Rightarrow> ('a, 's) resolver \<Rightarrow> bool \<times> ('a, 's) resolver" where
  "DoResolve_getaddrinfo answer p r = (case rv_cell r p of
      None \<Rightarrow> (False, r)
    | Some c \<Rightarrow> (case answer of
        Found res \<Rightarrow> if res = [] then (False, r) else (True, r\<lparr>rv_cell := (rv_cell r)(p \<mapsto> CacheSet (Some res) c)\<rparr>)
      | EAI_NONAME \<Rightarrow> (True, r\<lparr>rv_cell := (rv_cell r)(p \<mapsto> CacheSet None c)\<rparr>)
      | EAI_OTHER \<Rightarrow> (False, r)))"

text \<open>The rest of the body of the loop, with the lock, and the next round of the loop.\<close>

definition resolve_relock :: "int \<Rightarrow> ('s \<Rightarrow> int \<times> 's) \<Rightarrow> job \<Rightarrow> bool \<Rightarrow> int \<Rightarrow> ('a, 's) resolver \<Rightarrow>
    ((where_at + 'a outcome) \<times> ('a, 's) resolver) option" where
  "resolve_relock rand_max rnd j ret now r = (case rv_cell r (j_entry j) of
      None \<Rightarrow> Some (Inr Freed, r)
    | Some c \<Rightarrow> resolve_loop rand_max rnd j
        (r\<lparr>rv_cell := (rv_cell r)(j_entry j \<mapsto>
           (if ret then c\<lparr>c_resolving := False, c_resolved := now\<rparr> else c\<lparr>c_resolving := False\<rparr>))\<rparr>))"

section \<open>Threads\<close>

text \<open>
  Any number of threads over one resolver: what each one is at, and the calls that have returned. A thread
  that is woken runs within an hour (\<open>prompt\<close>): an entry that is looked up is not aged under its waiters.
\<close>

type_synonym ('a, 's) resolving = "('a, 's) resolver \<times> (nat \<Rightarrow> where_at option) \<times> 'a outcome list"

definition continue_with :: "nat \<Rightarrow> (where_at + 'a outcome) \<times> ('a, 's) resolver \<Rightarrow> (nat \<Rightarrow> where_at option) \<Rightarrow>
    'a outcome list \<Rightarrow> ('a, 's) resolving" where
  "continue_with t res T outs = (case res of
      (Inl w, r) \<Rightarrow> (r, T(t \<mapsto> w), outs)
    | (Inr out, r) \<Rightarrow> (r, T(t := None), outs @ [out]))"

definition prompt :: "int \<Rightarrow> ('a, 's) resolver \<Rightarrow> (nat \<Rightarrow> where_at option) \<Rightarrow> bool" where
  "prompt now r T \<longleftrightarrow> (\<forall>t j c. T t = Some (Waiting j) \<longrightarrow> rv_cell r (j_entry j) = Some c \<longrightarrow>
     c_resolving c \<or> now - kCacheExpire \<le> c_resolved c)"

inductive resolver_step :: "int \<Rightarrow> ('s \<Rightarrow> int \<times> 's) \<Rightarrow> (family \<Rightarrow> string \<Rightarrow> 'a option) \<Rightarrow>
    ('a, 's) resolving \<Rightarrow> ('a, 's) resolving \<Rightarrow> bool"
  for rand_max rnd pton where
  resolver_call: "T t = None \<Longrightarrow> rv_cell r fresh = None \<Longrightarrow> prompt now r T \<Longrightarrow>
    DoResolve rand_max rnd pton fam hostname port option now fresh r = Some res \<Longrightarrow>
    resolver_step rand_max rnd pton (r, T, outs) (continue_with t res T outs)"
| resolver_wake: "T t = Some (Waiting j) \<Longrightarrow> resolve_wake rand_max rnd j r = Some res \<Longrightarrow>
    resolver_step rand_max rnd pton (r, T, outs) (continue_with t res T outs)"
| resolver_fetch: "T t = Some (Fetching j) \<Longrightarrow> DoResolve_getaddrinfo answer (j_entry j) r = (ret, r') \<Longrightarrow>
    resolver_step rand_max rnd pton (r, T, outs) (r', T(t \<mapsto> Fetched j ret), outs)"
| resolver_relock: "T t = Some (Fetched j ret) \<Longrightarrow> resolve_relock rand_max rnd j ret now r = Some res \<Longrightarrow>
    resolver_step rand_max rnd pton (r, T, outs) (continue_with t res T outs)"

text \<open>The same with \<open>Clear\<close>.\<close>

inductive clearing_step :: "int \<Rightarrow> ('s \<Rightarrow> int \<times> 's) \<Rightarrow> (family \<Rightarrow> string \<Rightarrow> 'a option) \<Rightarrow>
    ('a, 's) resolving \<Rightarrow> ('a, 's) resolving \<Rightarrow> bool"
  for rand_max rnd pton where
  clearing_other: "resolver_step rand_max rnd pton s s' \<Longrightarrow> clearing_step rand_max rnd pton s s'"
| clearing_clear: "clearing_step rand_max rnd pton (r, T, outs) (RvClear r, T, outs)"

end
