(* ===== verification/Resolver_Correct.thy ===== *)
theory Resolver_Correct
  imports Resolver
begin

text \<open>
  The cache of the resolver: what \<open>CacheSet\<close> and \<open>Pick\<close> do, and that threads share the entries safely as long
  as nobody calls \<open>Clear\<close>: one lookup at a time for an entry, and no entry deleted under a thread.
\<close>

section \<open>Entries\<close>

lemma same_addresses_iff: "distinct s \<Longrightarrow> same_addresses s r \<longleftrightarrow> distinct r \<and> set r = set s"
proof (induction r arbitrary: s)
  case (Cons a r)
  then have "distinct (remove1 a s)" "set (remove1 a s) = set s - {a}" by (simp_all add: distinct_remove1)
  with Cons show ?case by auto
qed auto

lemma cache_set_addresses: "set (c_addr (CacheSet (Some res) c)) = set res"
  by (auto simp: CacheSet_def same_addresses_iff)

text \<open>
  A new answer of the name service: afterwards the addresses of the entry are those of the answer, and an
  answer that lists the same addresses again leaves the entry, its order and the position of the
  round robin alone; the next sequential picks go through all addresses in turn.
\<close>

theorem resolver_round_robin:
  assumes "c' = CacheSet (Some res) c" "i < length (c_addr c')" "c_addr c' ! i = a" "1 < length (c_addr c')"
  shows "set (c_addr c') = set res \<and> (distinct res \<and> set res = set (c_addr c) \<longrightarrow> c' = c) \<and>
    (\<exists>n seed'. n < length (c_addr c') \<and>
       Pick rand_max rnd kSequential (((\<lambda>c. snd (fst (the (Pick rand_max rnd kSequential c seed)))) ^^ n) c') seed
         = Some ((Picked a, c'\<lparr>c_current := int i\<rparr>), seed'))"
proof -
  let ?size = "int (length (c_addr c'))"
  let ?next = "\<lambda>c. snd (fst (the (Pick rand_max rnd kSequential c seed)))"
  have step: "Pick rand_max rnd kSequential (c'\<lparr>c_current := k\<rparr>) seed =
      Some ((Picked (c_addr c' ! nat ((k + 1) mod ?size)), c'\<lparr>c_current := (k + 1) mod ?size\<rparr>), seed)" for k
    using assms(4) by (auto simp: Pick_def Let_def pick_at_def)
  have iter: "(?next ^^ n) (c'\<lparr>c_current := k\<rparr>) = c'\<lparr>c_current := (k + int n) mod ?size\<rparr>" if "0 < n" for n k
    using that
  proof (induction n)
    case (Suc n)
    show ?case
    proof (cases "n = 0")
      case True
      then show ?thesis by (simp add: step)
    next
      case False
      then have "(?next ^^ n) (c'\<lparr>c_current := k\<rparr>) = c'\<lparr>c_current := (k + int n) mod ?size\<rparr>" using Suc.IH by simp
      then show ?thesis by (simp add: step mod_add_right_eq ac_simps)
    qed
  qed simp
  define k where "k = c_current c'"
  have c': "c' = c'\<lparr>c_current := k\<rparr>" by (simp add: k_def)
  define n where "n = nat ((int i - k - 1) mod ?size)"
  have size: "0 < ?size" using assms(4) by linarith
  have n: "int n = (int i - k - 1) mod ?size" "n < length (c_addr c')"
    using size by (simp_all add: n_def nat_less_iff)
  have kn: "(k + int n + 1) mod ?size = int i"
  proof -
    have "(k + int n + 1) mod ?size = ((int i - k - 1) mod ?size + (k + 1)) mod ?size"
      by (simp only: n(1) ac_simps)
    also have "\<dots> = (int i - k - 1 + (k + 1)) mod ?size" by (rule mod_add_left_eq)
    also have "\<dots> = int i" using assms(2) by simp
    finally show ?thesis .
  qed
  have "Pick rand_max rnd kSequential ((?next ^^ n) c') seed = Some ((Picked a, c'\<lparr>c_current := int i\<rparr>), seed)"
  proof (cases "n = 0")
    case True
    with kn assms(3) step [of k] c' show ?thesis by simp
  next
    case False
    have "Pick rand_max rnd kSequential ((?next ^^ n) (c'\<lparr>c_current := k\<rparr>)) seed = Some ((Picked a, c'\<lparr>c_current := int i\<rparr>), seed)"
      using False kn assms(3) by (simp add: iter step mod_add_left_eq)
    with c' show ?thesis by simp
  qed
  moreover have "set (c_addr c') = set res" using cache_set_addresses assms(1) by simp
  moreover have "c' = c" if "distinct res" "set res = set (c_addr c)"
    using that assms(1) by (simp add: CacheSet_def same_addresses_iff)
  ultimately show ?thesis using n(2) by blast
qed

lemma resolver_round_robin_witness:
  "\<exists>n seed'. n < 3 \<and> Pick 2147483647 (\<lambda>s. (s, s)) kSequential
     (((\<lambda>c. snd (fst (the (Pick 2147483647 (\<lambda>s. (s, s)) kSequential c 0)))) ^^ n)
        (CacheSet (Some ''abc'') new_cache)) (0 :: int)
     = Some ((Picked (CHR ''b''), (CacheSet (Some ''abc'') new_cache)\<lparr>c_current := int 1\<rparr>), seed')"
proof -
  have "c_addr (CacheSet (Some ''abc'') new_cache) = ''abc''" by (simp add: CacheSet_def new_cache_def)
  then show ?thesis
    using resolver_round_robin [OF refl, of 1 "''abc''" new_cache "CHR ''b''" 2147483647 "\<lambda>s. (s, s)" "0 :: int"]
    by (simp add: numeral_3_eq_3)
qed

text \<open>A random pick draws a number from 0 to the size, both included: the last one is past the end.\<close>

lemma random_pick_past_end:
  assumes "ranged_rand rand_max rnd (int (length (c_addr c))) seed = Some (int (length (c_addr c)), seed')" "1 < length (c_addr c)"
  shows "fst (fst (the (Pick rand_max rnd kRandom c seed))) = PastEnd"
  using assms by (auto simp: Pick_def Let_def pick_at_def)

section \<open>Sharing the entries\<close>

fun job_of :: "where_at \<Rightarrow> job" where
  "job_of (Waiting j) = j"
| "job_of (Fetching j) = j"
| "job_of (Fetched j ret) = j"

fun looking_up :: "where_at \<Rightarrow> bool" where
  "looking_up (Waiting j) = False"
| "looking_up (Fetching j) = True"
| "looking_up (Fetched j ret) = True"

text \<open>The tables: keys are distinct, and every entry is alive and in one place.\<close>

definition hosts_ok :: "('a, 's) resolver \<Rightarrow> bool" where
  "hosts_ok r \<longleftrightarrow> smap_wf (rv_addr4 r) \<and> smap_wf (rv_addr6 r) \<and>
     distinct (map snd (rv_addr4 r) @ map snd (rv_addr6 r)) \<and>
     (\<forall>p \<in> set (map snd (rv_addr4 r) @ map snd (rv_addr6 r)). rv_cell r p \<noteq> None)"

lemma set_erase_snd:
  assumes "smap_wf m" "(h, p) \<in> set m" "distinct (map snd m)"
  shows "snd ` set (smap_erase h m) = snd ` set m - {p}" "distinct (map snd (smap_erase h m))"
proof -
  have "q \<noteq> p" if "(g, q) \<in> set m" "g \<noteq> h" for g q
  proof
    assume "q = p"
    with that(1) assms(2,3) have "(g, q) = (h, p)"
      by (metis distinct_map inj_onD snd_conv)
    with that(2) show False by simp
  qed
  moreover have "q = p" if "(h, q) \<in> set m" for q
    using that assms(1,2) by (meson eq_key_imp_eq_value smap_wf_distinct)
  ultimately show "snd ` set (smap_erase h m) = snd ` set m - {p}"
    by (force simp: smap_erase_def)
  show "distinct (map snd (smap_erase h m))"
    unfolding smap_erase_def using assms(3) by (rule distinct_map_filter)
qed

lemma hosts_split:
  "set (map snd (rv_addr4 r) @ map snd (rv_addr6 r)) = snd ` set (rv_hosts V4 r) \<union> snd ` set (rv_hosts V6 r)"
  by auto

lemma one_place: "hosts_ok r \<Longrightarrow> (h, e) \<in> set (rv_addr4 r) \<Longrightarrow> (g, e) \<in> set (rv_addr6 r) \<Longrightarrow> False"
  by (force simp: hosts_ok_def disjoint_iff image_iff)

lemma sweep_one_ok:
  assumes "hosts_ok r" "q \<in> set (rv_hosts fam r)"
  shows "hosts_ok (sweep_one P fam q r)"
    and "rv_cell (sweep_one P fam q r) p = rv_cell r p \<or>
      rv_cell (sweep_one P fam q r) p = None \<and> (\<exists>c. rv_cell r p = Some c \<and> P c)"
    and "x \<in> set (rv_hosts fam r) \<Longrightarrow> fst x \<noteq> fst q \<Longrightarrow> x \<in> set (rv_hosts fam (sweep_one P fam q r))"
proof -
  obtain h e where q: "q = (h, e)" by fastforce
  let ?m = "rv_hosts fam r"
  have m: "smap_wf ?m" "distinct (map snd ?m)" using assms(1) by (cases fam; simp add: hosts_ok_def)+
  note erase = set_erase_snd [OF m(1) _ m(2), of h e]
  show "hosts_ok (sweep_one P fam q r)"
    using assms q erase smap_wf_erase [OF m(1), of h] one_place [OF assms(1)]
    by (cases fam) (auto simp: hosts_ok_def sweep_one_def split: option.splits)
  show "rv_cell (sweep_one P fam q r) p = rv_cell r p \<or>
      rv_cell (sweep_one P fam q r) p = None \<and> (\<exists>c. rv_cell r p = Some c \<and> P c)"
    by (cases fam) (auto simp: sweep_one_def split: option.splits)
  show "x \<in> set (rv_hosts fam (sweep_one P fam q r))" if "x \<in> set (rv_hosts fam r)" "fst x \<noteq> fst q"
    using that by (cases fam) (auto simp: sweep_one_def smap_erase_def split: option.splits)
qed

lemma sweep_list_ok:
  assumes "hosts_ok r" "set xs \<subseteq> set (rv_hosts fam r)" "distinct (map fst xs)"
  shows "hosts_ok (fold (sweep_one P fam) xs r) \<and>
    (rv_cell (fold (sweep_one P fam) xs r) p = rv_cell r p \<or>
     rv_cell (fold (sweep_one P fam) xs r) p = None \<and> (\<exists>c. rv_cell r p = Some c \<and> P c))"
  using assms
proof (induction xs arbitrary: r)
  case (Cons q xs)
  have q: "q \<in> set (rv_hosts fam r)" using Cons.prems by simp
  have "set xs \<subseteq> set (rv_hosts fam (sweep_one P fam q r))"
    using Cons.prems sweep_one_ok(3) [OF Cons.prems(1) q] by (fastforce simp: image_iff)
  then have "hosts_ok (fold (sweep_one P fam) xs (sweep_one P fam q r)) \<and>
    (rv_cell (fold (sweep_one P fam) xs (sweep_one P fam q r)) p = rv_cell (sweep_one P fam q r) p \<or>
     rv_cell (fold (sweep_one P fam) xs (sweep_one P fam q r)) p = None \<and>
       (\<exists>c. rv_cell (sweep_one P fam q r) p = Some c \<and> P c))"
    using Cons.IH [OF sweep_one_ok(1) [OF Cons.prems(1) q]] Cons.prems(3) by simp
  with sweep_one_ok(2) [OF Cons.prems(1) q, of P p] show ?case by simp metis
qed simp

lemma sweep_ok:
  assumes "hosts_ok r"
  shows "hosts_ok (sweep P fam r)"
    and "rv_cell (sweep P fam r) p = rv_cell r p \<or> rv_cell (sweep P fam r) p = None \<and> (\<exists>c. rv_cell r p = Some c \<and> P c)"
proof -
  have "distinct (map fst (rv_hosts fam r))"
    using assms by (cases fam) (simp_all add: hosts_ok_def smap_wf_distinct)
  from sweep_list_ok [OF assms subset_refl this] show "hosts_ok (sweep P fam r)"
    "rv_cell (sweep P fam r) p = rv_cell r p \<or> rv_cell (sweep P fam r) p = None \<and> (\<exists>c. rv_cell r p = Some c \<and> P c)"
    by (simp_all add: sweep_def)
qed

text \<open>Aging deletes only entries that nobody looks up and that are an hour old.\<close>

lemma aging_ok:
  assumes "hosts_ok r"
  shows "hosts_ok (Aging now r)"
    and "rv_cell (Aging now r) p = rv_cell r p \<or> rv_cell (Aging now r) p = None \<and>
      (\<exists>c. rv_cell r p = Some c \<and> \<not> c_resolving c \<and> c_resolved c < now - kCacheExpire)"
proof -
  let ?P = "\<lambda>c. \<not> c_resolving c \<and> c_resolved c < now - kCacheExpire" and ?r = "r\<lparr>rv_last_aging := now\<rparr>"
  have 0: "hosts_ok ?r" using assms by (simp add: hosts_ok_def)
  have 1: "hosts_ok (sweep ?P V4 ?r)" by (rule sweep_ok(1) [OF 0])
  show "hosts_ok (Aging now r)" using assms sweep_ok(1) [OF 1] by (simp add: Aging_def Let_def)
  show "rv_cell (Aging now r) p = rv_cell r p \<or> rv_cell (Aging now r) p = None \<and>
      (\<exists>c. rv_cell r p = Some c \<and> \<not> c_resolving c \<and> c_resolved c < now - kCacheExpire)"
  proof (cases "now - rv_last_aging r < kAgingInterval")
    case False
    define b where "b = sweep ?P V6 (sweep ?P V4 ?r)"
    have "rv_cell (sweep ?P V4 ?r) p = rv_cell r p \<or>
        rv_cell (sweep ?P V4 ?r) p = None \<and> (\<exists>c. rv_cell r p = Some c \<and> ?P c)"
      using sweep_ok(2) [OF 0, of ?P V4 p] by simp
    moreover have "rv_cell b p = rv_cell (sweep ?P V4 ?r) p \<or>
        rv_cell b p = None \<and> (\<exists>c. rv_cell (sweep ?P V4 ?r) p = Some c \<and> ?P c)"
      unfolding b_def by (rule sweep_ok(2) [OF 1])
    ultimately have "rv_cell b p = rv_cell r p \<or> rv_cell b p = None \<and> (\<exists>c. rv_cell r p = Some c \<and> ?P c)"
      by (elim disjE conjE exE) simp_all
    moreover have "Aging now r = b" using False by (simp add: Aging_def Let_def b_def)
    ultimately show ?thesis by simp
  qed (simp add: Aging_def)
qed

text \<open>
  What holds between the steps: an entry is marked as looked up exactly while one thread, and only one, is
  looking it up, and the entries the threads point at are alive. \<open>M\<close> gives the mark of an entry.
\<close>

abbreviation at_entry :: "where_at \<Rightarrow> entry" where
  "at_entry w \<equiv> j_entry (job_of w)"

definition shared :: "(entry \<Rightarrow> bool option) \<Rightarrow> (nat \<Rightarrow> where_at option) \<Rightarrow> bool" where
  "shared M T \<longleftrightarrow>
     (\<forall>t w. T t = Some w \<longrightarrow> M (at_entry w) \<noteq> None \<and> (looking_up w \<longrightarrow> M (at_entry w) = Some True)) \<and>
     (\<forall>t u w v. T t = Some w \<and> T u = Some v \<and> looking_up w \<and> looking_up v \<and> at_entry w = at_entry v \<longrightarrow> t = u) \<and>
     (\<forall>p. M p = Some True \<longrightarrow> (\<exists>t w. T t = Some w \<and> looking_up w \<and> at_entry w = p))"

lemma shared_pointed:
  "shared M T \<Longrightarrow> T t = Some w \<Longrightarrow> M (at_entry w) \<noteq> None"
  "shared M T \<Longrightarrow> T t = Some w \<Longrightarrow> looking_up w \<Longrightarrow> M (at_entry w) = Some True"
  unfolding shared_def by blast+

lemma shared_one:
  "shared M T \<Longrightarrow> T t = Some w \<Longrightarrow> T u = Some v \<Longrightarrow> looking_up w \<Longrightarrow> looking_up v \<Longrightarrow> at_entry w = at_entry v \<Longrightarrow> t = u"
  unfolding shared_def by blast

lemma sharedI:
  assumes "\<And>t w. T t = Some w \<Longrightarrow> M (at_entry w) \<noteq> None \<and> (looking_up w \<longrightarrow> M (at_entry w) = Some True)"
    and "\<And>t u w v. T t = Some w \<Longrightarrow> T u = Some v \<Longrightarrow> looking_up w \<Longrightarrow> looking_up v \<Longrightarrow>
      at_entry w = at_entry v \<Longrightarrow> t = u"
    and "\<And>p. M p = Some True \<Longrightarrow> \<exists>t w. T t = Some w \<and> looking_up w \<and> at_entry w = p"
  shows "shared M T"
  unfolding shared_def using assms by meson

lemma shared_wait: "shared M T \<Longrightarrow> T t = None \<Longrightarrow> M (j_entry j) \<noteq> None \<Longrightarrow> shared M (T(t \<mapsto> Waiting j))"
  unfolding shared_def
  by (intro conjI allI impI) (auto split: if_splits, metis option.distinct(1))

lemma shared_fetch:
  assumes "shared M T" "T t = None" "M (j_entry j) = Some False"
  shows "shared (M(j_entry j \<mapsto> True)) (T(t \<mapsto> Fetching j))"
proof -
  have "at_entry w \<noteq> j_entry j" if "T u = Some w" "looking_up w" for u w
    using that assms(1,3) unfolding shared_def by fastforce
  then show ?thesis
    using assms unfolding shared_def
    by (intro conjI allI impI) (auto split: if_splits, metis option.distinct(1))
qed

lemma shared_fetched:
  assumes "shared M T" "T t = Some (Fetching j)"
  shows "shared M (T(t \<mapsto> Fetched j ret))"
proof -
  have *: "(T(t \<mapsto> Fetched j ret)) u = Some w \<Longrightarrow>
      \<exists>v. T u = Some v \<and> looking_up v = looking_up w \<and> at_entry v = at_entry w" for u w
    using assms(2) by (auto split: if_splits)
  have "\<exists>u w. (T(t \<mapsto> Fetched j ret)) u = Some w \<and> looking_up w \<and> at_entry w = p" if m: "M p = Some True" for p
  proof -
    obtain u w where u: "T u = Some w" "looking_up w" "at_entry w = p" using assms(1) m unfolding shared_def by blast
    show ?thesis
    proof (cases "u = t")
      case True
      with u assms(2) have "w = Fetching j" by simp
      with u show ?thesis by (intro exI [of _ t] exI [of _ "Fetched j ret"]) simp
    qed (use u in auto)
  qed
  then show ?thesis
  proof (intro sharedI)
    fix u w assume "(T(t \<mapsto> Fetched j ret)) u = Some w"
    then obtain v where "T u = Some v" "looking_up v = looking_up w" "at_entry v = at_entry w" using * by blast
    then show "M (at_entry w) \<noteq> None \<and> (looking_up w \<longrightarrow> M (at_entry w) = Some True)"
      using shared_pointed [OF assms(1), of u v] by simp
  next
    fix u v x y
    assume "(T(t \<mapsto> Fetched j ret)) u = Some x" "(T(t \<mapsto> Fetched j ret)) v = Some y"
      "looking_up x" "looking_up y" "at_entry x = at_entry y"
    then show "u = v" using * shared_one [OF assms(1)] by metis
  qed
qed

lemma shared_done:
  assumes "shared M T" "T t = Some w" "looking_up w"
  shows "shared (M(at_entry w \<mapsto> False)) (T(t := None))"
proof -
  have other: "at_entry v \<noteq> at_entry w" if "T u = Some v" "looking_up v" "u \<noteq> t" for u v
    using that assms unfolding shared_def by blast
  have "\<exists>u v. (T(t := None)) u = Some v \<and> looking_up v \<and> at_entry v = p" if "M p = Some True" "p \<noteq> at_entry w" for p
    using that assms unfolding shared_def by (metis fun_upd_other option.inject)
  then have "\<forall>p. (M(at_entry w \<mapsto> False)) p = Some True \<longrightarrow>
      (\<exists>u v. (T(t := None)) u = Some v \<and> looking_up v \<and> at_entry v = p)" by (simp split: if_splits)
  moreover have "\<forall>u v. (T(t := None)) u = Some v \<longrightarrow> (M(at_entry w \<mapsto> False)) (at_entry v) \<noteq> None \<and>
      (looking_up v \<longrightarrow> (M(at_entry w \<mapsto> False)) (at_entry v) = Some True)"
    using other assms(1) unfolding shared_def by (auto split: if_splits)
  moreover have "\<forall>u v x y. (T(t := None)) u = Some x \<and> (T(t := None)) v = Some y \<and> looking_up x \<and> looking_up y \<and>
      at_entry x = at_entry y \<longrightarrow> u = v"
    using assms(1) unfolding shared_def by (metis fun_upd_apply option.distinct(1))
  ultimately show ?thesis unfolding shared_def by blast
qed

lemma shared_awake:
  assumes "shared M T" "T t = Some (Waiting j)"
  shows "shared M (T(t := None))"
proof -
  have "\<exists>u v. (T(t := None)) u = Some v \<and> looking_up v \<and> at_entry v = p" if "M p = Some True" for p
    using that assms unfolding shared_def by (metis fun_upd_other looking_up.simps(1) option.inject)
  with assms(1) show ?thesis
    unfolding shared_def by (intro conjI allI impI) (auto split: if_splits)
qed

lemma shared_marks:
  assumes "shared M T"
    and "\<And>p. M' p = M p \<or> (M' p \<noteq> Some True \<and> M p \<noteq> Some True \<and> (\<forall>t w. T t = Some w \<longrightarrow> at_entry w \<noteq> p))"
  shows "shared M' T"
  using assms unfolding shared_def by (intro conjI allI impI) metis+

definition marks :: "('a, 's) resolver \<Rightarrow> entry \<Rightarrow> bool option" where
  "marks r p = map_option c_resolving (rv_cell r p)"

lemma marks_simps [simp]:
  "marks (r\<lparr>rv_cell := (rv_cell r)(p \<mapsto> c)\<rparr>) = (marks r)(p \<mapsto> c_resolving c)"
  "marks (r\<lparr>rv_cell := (rv_cell r)(p \<mapsto> c), rv_seed := seed\<rparr>) = (marks r)(p \<mapsto> c_resolving c)"
  "marks (set_hosts fam m r) = marks r"
  by (cases fam; auto simp: marks_def fun_eq_iff)+

definition resolver_ok :: "('a, 's) resolving \<Rightarrow> bool" where
  "resolver_ok = (\<lambda>(r, T, outs). hosts_ok r \<and> shared (marks r) T \<and> Freed \<notin> set outs)"

lemma hosts_ok_cell [simp]:
  "rv_cell r p \<noteq> None \<Longrightarrow> hosts_ok (r\<lparr>rv_cell := (rv_cell r)(p \<mapsto> c)\<rparr>) = hosts_ok r"
  "hosts_ok (r\<lparr>rv_cell := f, rv_seed := seed\<rparr>) = hosts_ok (r\<lparr>rv_cell := f\<rparr>)"
  by (auto simp: hosts_ok_def)

lemma hosts_ok_insert:
  assumes "hosts_ok r" "rv_cell r fresh = None" "smap_find (rv_hosts fam r) host = None"
  shows "hosts_ok (set_hosts fam (smap_insert host fresh (rv_hosts fam r)) (r\<lparr>rv_cell := (rv_cell r)(fresh \<mapsto> new)\<rparr>))"
proof -
  have wf: "smap_wf (rv_hosts fam r)" using assms(1) by (cases fam) (simp_all add: hosts_ok_def)
  obtain a b where ab: "rv_hosts fam r = a @ b" "\<forall>w. smap_put host w (rv_hosts fam r) = a @ (host, w) # b"
    by (rule smap_new_split [OF wf assms(3)])
  have ins: "smap_insert host fresh (rv_hosts fam r) = a @ (host, fresh) # b"
    using assms(3) ab(2) by (simp add: smap_insert_def)
  have wf': "smap_wf (a @ (host, fresh) # b)" using smap_wf_insert [OF wf, of host fresh] by (simp add: ins)
  have "fresh \<notin> set (map snd (rv_addr4 r) @ map snd (rv_addr6 r))"
    using assms(1,2) unfolding hosts_ok_def by blast
  then have new: "fresh \<notin> snd ` set (rv_addr4 r)" "fresh \<notin> snd ` set (rv_addr6 r)" by simp_all
  show ?thesis
    using assms(1) ab(1) wf' new unfolding ins
    by (cases fam) (simp_all add: hosts_ok_def ball_Un disjoint_iff image_Un Int_Un_distrib Int_Un_distrib2)
qed

lemma pick_keeps:
  "Pick rand_max rnd option c seed = Some ((p, c'), seed') \<Longrightarrow> c_resolving c' = c_resolving c"
  by (auto simp: Pick_def Let_def pick_at_def split: if_splits)

text \<open>The rest of a call of a thread that is not counted among the others.\<close>

lemma loop_keeps:
  assumes ok: "resolver_ok (r, T, outs)" and t: "T t = None" and c: "rv_cell r (j_entry j) = Some c"
    and loop: "resolve_loop rand_max rnd j r = Some res"
  shows "resolver_ok (continue_with t res T outs)"
proof -
  have r: "hosts_ok r" "shared (marks r) T" "Freed \<notin> set outs" using ok by (auto simp: resolver_ok_def)
  have mark: "marks r (j_entry j) = Some (c_resolving c)" using c by (simp add: marks_def)
  show ?thesis
  proof (cases "c_resolved c < 0 \<or> c_resolved c < j_deadline j")
    case stale: True
    show ?thesis
    proof (cases "c_resolving c")
      case True
      with loop c stale have "res = (Inl (Waiting j), r)" by (auto simp: resolve_loop_def)
      then show ?thesis using r t mark by (simp add: resolver_ok_def continue_with_def shared_wait)
    next
      case False
      with loop c stale have
        "res = (Inl (Fetching j), r\<lparr>rv_cell := (rv_cell r)(j_entry j \<mapsto> c\<lparr>c_resolving := True\<rparr>)\<rparr>)"
        by (auto simp: resolve_loop_def)
      then show ?thesis using r t c mark False by (simp add: resolver_ok_def continue_with_def shared_fetch)
    qed
  next
    case fresh: False
    then obtain p c' seed where p: "Pick rand_max rnd (j_option j) c (rv_seed r) = Some ((p, c'), seed)"
      using loop c by (auto simp: resolve_loop_def)
    with fresh loop c have
      "res = (Inr (case p of NoAddress \<Rightarrow> NoAnswer | Picked a \<Rightarrow> Answer a (j_port j) | PastEnd \<Rightarrow> Past_end),
        r\<lparr>rv_cell := (rv_cell r)(j_entry j \<mapsto> c'), rv_seed := seed\<rparr>)"
      by (auto simp: resolve_loop_def)
    moreover have "(marks r)(j_entry j \<mapsto> c_resolving c') = marks r"
      using mark pick_keeps [OF p] by (simp add: fun_upd_idem)
    moreover have "T(t := None) = T" using t by (simp add: fun_upd_idem)
    ultimately show ?thesis
      using r c by (simp add: resolver_ok_def continue_with_def split: pick.splits)
  qed
qed

lemma aging_shared:
  assumes "hosts_ok r" "shared (marks r) T" "prompt now r T"
  shows "shared (marks (Aging now r)) T"
proof (rule shared_marks [OF assms(2)])
  fix p
  consider "rv_cell (Aging now r) p = rv_cell r p"
    | c where "rv_cell (Aging now r) p = None" "rv_cell r p = Some c" "\<not> c_resolving c" "c_resolved c < now - kCacheExpire"
    using aging_ok(2) [OF assms(1), of now p] by blast
  then show "marks (Aging now r) p = marks r p \<or> marks (Aging now r) p \<noteq> Some True \<and> marks r p \<noteq> Some True \<and>
      (\<forall>t w. T t = Some w \<longrightarrow> at_entry w \<noteq> p)"
  proof cases
    case 1 then show ?thesis by (simp add: marks_def)
  next
    case 2
    have "at_entry w \<noteq> p" if w: "T t = Some w" for t w
    proof
      assume p: "at_entry w = p"
      show False
      proof (cases w)
        case (Waiting j)
        with assms(3) [unfolded prompt_def, rule_format, of t j c] w p 2 show False by auto
      qed (use shared_pointed(2) [OF assms(2) w] p 2 in \<open>auto simp: marks_def\<close>)
    qed
    with 2 show ?thesis by (simp add: marks_def)
  qed
qed

lemma resolver_step_keeps:
  "resolver_step rand_max rnd pton s s' \<Longrightarrow> resolver_ok s \<Longrightarrow> resolver_ok s'"
proof (induction rule: resolver_step.induct)
  case (resolver_call T t r fresh now fam hostname port option res outs)
  have idle: "T(t := None) = T" using resolver_call.hyps(1) by (simp add: fun_upd_idem)
  show ?case
  proof (cases "\<exists>out. res = (Inr out, r) \<and> out \<noteq> Freed")
    case True
    then show ?thesis using resolver_call.prems idle by (auto simp: resolver_ok_def continue_with_def)
  next
    case False
    define r1 where "r1 = Aging now r"
    have ok1: "hosts_ok r1" "shared (marks r1) T" "Freed \<notin> set outs"
      using resolver_call aging_ok(1) aging_shared by (auto simp: resolver_ok_def r1_def)
    obtain name where name: "hostname = Some name" "name \<noteq> []" "port \<noteq> 0" "pton fam name = None" "length name < 1024"
      using resolver_call.hyps(4) False
      by (auto simp: DoResolve_def split: option.splits if_splits)
    define host where "host = map to_lower name"
    define j where "j = \<lparr>j_family = fam, j_host = host, j_port = port, j_option = option,
        j_deadline = now - kRefreshTime, j_entry = fresh\<rparr>"
    show ?thesis
    proof (cases "smap_find (rv_hosts fam r1) host")
      case (Some p)
      then have "(host, p) \<in> set (rv_hosts fam r1)" by (rule smap_find_in)
      then have "p \<in> set (map snd (rv_addr4 r1) @ map snd (rv_addr6 r1))" by (cases fam) force+
      then have "rv_cell r1 p \<noteq> None" using ok1(1) unfolding hosts_ok_def by blast
      then obtain c where "rv_cell r1 p = Some c" by blast
      moreover have "resolve_loop rand_max rnd (j\<lparr>j_entry := p\<rparr>) r1 = Some res"
        using resolver_call.hyps(4) name Some by (simp add: DoResolve_def Let_def r1_def host_def j_def)
      ultimately show ?thesis
        using ok1 resolver_call.hyps(1) by (intro loop_keeps [where r = r1]) (auto simp: resolver_ok_def)
    next
      case None
      let ?r2 = "set_hosts fam (smap_insert host fresh (rv_hosts fam r1)) (r1\<lparr>rv_cell := (rv_cell r1)(fresh \<mapsto> new_cache)\<rparr>)"
      have free: "rv_cell r1 fresh = None"
        using aging_ok(2) [of r now fresh] resolver_call.hyps(2) resolver_call.prems by (auto simp: r1_def resolver_ok_def)
      have "shared (marks ?r2) T"
      proof (rule shared_marks [OF ok1(2)])
        fix p
        show "marks ?r2 p = marks r1 p \<or> marks ?r2 p \<noteq> Some True \<and> marks r1 p \<noteq> Some True \<and>
            (\<forall>t w. T t = Some w \<longrightarrow> at_entry w \<noteq> p)"
        proof (cases "p = fresh")
          case True
          with free have none: "marks r1 p = None" by (simp add: marks_def)
          then have "\<forall>t w. T t = Some w \<longrightarrow> at_entry w \<noteq> p" using shared_pointed(1) [OF ok1(2)] by metis
          with none True show ?thesis by (simp add: new_cache_def)
        qed simp
      qed
      moreover have "hosts_ok ?r2" by (rule hosts_ok_insert [OF ok1(1) free None])
      moreover have "rv_cell ?r2 (j_entry j) = Some new_cache" by (cases fam) (simp_all add: j_def)
      moreover have "resolve_loop rand_max rnd j ?r2 = Some res"
        using resolver_call.hyps(4) name None by (simp add: DoResolve_def Let_def r1_def host_def j_def)
      ultimately show ?thesis
        using ok1(3) resolver_call.hyps(1) by (intro loop_keeps [where r = ?r2]) (auto simp: resolver_ok_def)
    qed
  qed
next
  case (resolver_wake T t j r res outs)
  have ok: "hosts_ok r" "shared (marks r) T" "Freed \<notin> set outs" using resolver_wake.prems by (auto simp: resolver_ok_def)
  then obtain c where c: "rv_cell r (j_entry j) = Some c"
    using resolver_wake.hyps(1) by (fastforce simp: shared_def marks_def)
  have gone: "shared (marks r) (T(t := None))" by (rule shared_awake [OF ok(2) resolver_wake.hyps(1)])
  have same: "continue_with t res T outs = continue_with t res (T(t := None)) outs"
    by (auto simp: continue_with_def split: prod.splits sum.splits)
  show ?case
  proof (cases "c_resolving c")
    case True
    then have "res = (Inl (Waiting j), r)" using resolver_wake.hyps(2) c by (simp add: resolve_wake_def)
    moreover have "T(t \<mapsto> Waiting j) = T" using resolver_wake.hyps(1) by (simp add: fun_upd_idem)
    ultimately show ?thesis using ok by (simp add: continue_with_def resolver_ok_def)
  next
    case False
    then have "resolve_loop rand_max rnd j r = Some res" using resolver_wake.hyps(2) c by (simp add: resolve_wake_def)
    with ok gone c show ?thesis unfolding same
      by (intro loop_keeps [where r = r]) (auto simp: resolver_ok_def)
  qed
next
  case (resolver_fetch T t j answer r ret r' outs)
  have ok: "hosts_ok r" "shared (marks r) T" "Freed \<notin> set outs" using resolver_fetch.prems by (auto simp: resolver_ok_def)
  then obtain c where c: "rv_cell r (j_entry j) = Some c"
    using resolver_fetch.hyps(1) by (fastforce simp: shared_def marks_def)
  have "c_resolving (CacheSet a c) = c_resolving c" for a by (auto simp: CacheSet_def split: option.splits)
  then have "marks r' = marks r" "hosts_ok r'"
    using resolver_fetch.hyps(2) c ok(1)
    by (auto simp: DoResolve_getaddrinfo_def marks_def fun_eq_iff split: lookup.splits if_splits)
  with ok resolver_fetch.hyps(1) show ?case by (simp add: resolver_ok_def shared_fetched)
next
  case (resolver_relock T t j ret now r res outs)
  have ok: "hosts_ok r" "shared (marks r) T" "Freed \<notin> set outs" using resolver_relock.prems by (auto simp: resolver_ok_def)
  then obtain c where c: "rv_cell r (j_entry j) = Some c"
    using resolver_relock.hyps(1) by (fastforce simp: shared_def marks_def)
  let ?c = "if ret then c\<lparr>c_resolving := False, c_resolved := now\<rparr> else c\<lparr>c_resolving := False\<rparr>"
  let ?r = "r\<lparr>rv_cell := (rv_cell r)(j_entry j \<mapsto> ?c)\<rparr>"
  have same: "continue_with t res T outs = continue_with t res (T(t := None)) outs"
    by (auto simp: continue_with_def split: prod.splits sum.splits)
  have "resolve_loop rand_max rnd j ?r = Some res" using resolver_relock.hyps(2) c by (simp add: resolve_relock_def)
  moreover have "shared (marks ?r) (T(t := None))"
    using shared_done [OF ok(2) resolver_relock.hyps(1)] by simp
  moreover have "hosts_ok ?r" using ok(1) c by simp
  ultimately show ?case unfolding same
    using ok(3) by (intro loop_keeps [where r = ?r]) (auto simp: resolver_ok_def)
qed

interpretation resolving: step_invariant "resolver_step rand_max rnd pton" resolver_ok for rand_max rnd pton
  by unfold_locales (rule resolver_step_keeps)

section \<open>Properties\<close>

definition idle_resolver :: "int \<Rightarrow> 's \<Rightarrow> ('a, 's) resolving" where
  "idle_resolver now seed = (new_resolver now seed, (\<lambda>_. None), [])"

lemma idle_resolver_ok: "resolver_ok (idle_resolver now seed)"
  by (simp add: resolver_ok_def idle_resolver_def new_resolver_def hosts_ok_def shared_def marks_def)


text \<open>One thread looks a host up and a second one waits for it.\<close>

definition demo_rnd :: "int \<Rightarrow> int \<times> int" where "demo_rnd s = (s, s)"

definition no_literal :: "family \<Rightarrow> string \<Rightarrow> int option" where "no_literal fam s = None"

definition demo_job :: job where
  "demo_job = \<lparr>j_family = V4, j_host = ''h'', j_port = 80, j_option = kFirst, j_deadline = 1 - kRefreshTime, j_entry = 5\<rparr>"

definition demo_looked_up :: "(int, int) resolver" where
  "demo_looked_up = \<lparr>rv_addr4 = [(''h'', 5)], rv_addr6 = [], rv_cell = (\<lambda>_. None)(5 \<mapsto> new_cache\<lparr>c_resolving := True\<rparr>),
     rv_last_aging = 0, rv_seed = 9\<rparr>"

lemma to_lower_h: "to_lower (CHR ''H'') = CHR ''h''" "to_lower (CHR ''h'') = CHR ''h''"
  by code_simp+

lemma demo_first:
  "DoResolve 100 demo_rnd no_literal V4 (Some ''H'') 80 kFirst 1 5 (new_resolver 0 9) =
    Some (Inl (Fetching demo_job), demo_looked_up)"
  by (simp add: DoResolve_def no_literal_def Aging_def new_resolver_def kAgingInterval_def Let_def smap_find_def
      smap_insert_def smap_put_def resolve_loop_def demo_job_def demo_looked_up_def new_cache_def to_lower_h)

lemma demo_second:
  "DoResolve 100 demo_rnd no_literal V4 (Some ''h'') 80 kFirst 1 6 demo_looked_up =
    Some (Inl (Waiting demo_job), demo_looked_up)"
  by (simp add: DoResolve_def no_literal_def Aging_def demo_looked_up_def kAgingInterval_def Let_def smap_find_def
      resolve_loop_def demo_job_def new_cache_def to_lower_h)

definition demo_threads :: "nat \<Rightarrow> where_at option" where
  "demo_threads = (\<lambda>_. None)(0 \<mapsto> Fetching demo_job, 1 \<mapsto> Waiting demo_job)"

lemma demo_two_threads:
  "(resolver_step 100 demo_rnd no_literal)\<^sup>*\<^sup>* (idle_resolver 0 9) (demo_looked_up, demo_threads, [])"
proof -
  have "resolver_step 100 demo_rnd no_literal (idle_resolver 0 9)
      (continue_with 0 (Inl (Fetching demo_job), demo_looked_up) (\<lambda>_. None) [])"
    unfolding idle_resolver_def
    by (rule resolver_call [where fresh = 5, OF _ _ _ demo_first]) (simp_all add: new_resolver_def prompt_def)
  then have 1: "resolver_step 100 demo_rnd no_literal (idle_resolver 0 9)
      (demo_looked_up, (\<lambda>_. None)(0 \<mapsto> Fetching demo_job), [])" by (simp add: continue_with_def)
  have "resolver_step 100 demo_rnd no_literal (demo_looked_up, (\<lambda>_. None)(0 \<mapsto> Fetching demo_job), [])
      (continue_with 1 (Inl (Waiting demo_job), demo_looked_up) ((\<lambda>_. None)(0 \<mapsto> Fetching demo_job)) [])"
    by (rule resolver_call [where fresh = 6, OF _ _ _ demo_second])
      (simp_all add: demo_looked_up_def prompt_def split: if_splits)
  then have 2: "resolver_step 100 demo_rnd no_literal (demo_looked_up, (\<lambda>_. None)(0 \<mapsto> Fetching demo_job), [])
      (demo_looked_up, demo_threads, [])" by (simp add: continue_with_def demo_threads_def)
  from 1 2 show ?thesis by (meson r_into_rtranclp rtranclp_trans)
qed


text \<open>
  With \<open>Clear\<close> that is no longer so: the looking thread comes back and returns, \<open>Clear\<close> deletes the entry,
  which is not being looked up any more, and the waiting thread wakes up to a deleted entry.
\<close>

theorem clear_frees_under_waiters:
  "\<exists>r T. (clearing_step 100 demo_rnd no_literal)\<^sup>*\<^sup>* (idle_resolver 0 9) (r, T, [Answer 7 80, Freed])"
proof -
  let ?step = "clearing_step 100 demo_rnd no_literal"
  have lift: "(resolver_step 100 demo_rnd no_literal)\<^sup>*\<^sup>* s s' \<Longrightarrow> ?step\<^sup>*\<^sup>* s s'" for s s'
    by (induction rule: rtranclp_induct) (auto intro: clearing_other rtranclp.rtrancl_into_rtrancl)
  let ?c = "\<lparr>c_addr = [7], c_resolved = -1, c_current = -1, c_resolving = True\<rparr> :: int cache"
  let ?r1 = "demo_looked_up\<lparr>rv_cell := (rv_cell demo_looked_up)(5 \<mapsto> ?c)\<rparr>"
  let ?T1 = "demo_threads(0 \<mapsto> Fetched demo_job True)"
  have 1: "?step (demo_looked_up, demo_threads, []) (?r1, ?T1, [])"
    by (rule clearing_other, rule resolver_fetch [where j = demo_job and answer = "Found [7]"])
      (simp_all add: demo_threads_def DoResolve_getaddrinfo_def demo_looked_up_def demo_job_def CacheSet_def new_cache_def)
  let ?r2 = "?r1\<lparr>rv_cell := (rv_cell demo_looked_up)(5 \<mapsto> ?c\<lparr>c_resolving := False, c_resolved := 2, c_current := 0\<rparr>)\<rparr>"
  have "resolve_relock 100 demo_rnd demo_job True 2 ?r1 = Some (Inr (Answer 7 80), ?r2)"
    by (simp add: resolve_relock_def demo_job_def resolve_loop_def kRefreshTime_def Pick_def pick_at_def demo_looked_up_def)
  then have "?step (?r1, ?T1, []) (continue_with 0 (Inr (Answer 7 80), ?r2) ?T1 [])"
    by (intro clearing_other resolver_relock [where j = demo_job and ret = True and now = 2]) simp_all
  then have 2: "?step (?r1, ?T1, []) (?r2, ?T1(0 := None), [Answer 7 80])" by (simp add: continue_with_def)
  obtain r3 where r3: "r3 = RvClear ?r2" by blast
  have 3: "?step (?r2, ?T1(0 := None), [Answer 7 80]) (r3, ?T1(0 := None), [Answer 7 80])"
    unfolding r3 by (rule clearing_clear)
  have gone: "rv_cell r3 5 = None"
    by (simp add: r3 RvClear_def sweep_def sweep_one_def demo_looked_up_def smap_erase_def)
  have "?step (r3, ?T1(0 := None), [Answer 7 80]) (continue_with 1 (Inr Freed, r3) (?T1(0 := None)) [Answer 7 80])"
    by (intro clearing_other resolver_wake [where j = demo_job])
      (simp_all add: demo_threads_def resolve_wake_def demo_job_def gone)
  then have 4: "?step (r3, ?T1(0 := None), [Answer 7 80]) (r3, ?T1(0 := None, 1 := None), [Answer 7 80, Freed])"
    by (simp add: continue_with_def)
  have "?step\<^sup>*\<^sup>* (idle_resolver 0 9) (r3, ?T1(0 := None, 1 := None), [Answer 7 80, Freed])"
    using lift [OF demo_two_threads] 1 2 3 4 by (meson rtranclp.rtrancl_into_rtrancl)
  then show ?thesis by blast
qed

text \<open>A lookup that fails for another reason than an unknown name is repeated at once, and for ever if it keeps failing.\<close>

lemma failed_lookup_repeats:
  assumes "rv_cell r (j_entry j) = Some c" "c_resolving c" "c_resolved c < 0 \<or> c_resolved c < j_deadline j"
    and "DoResolve_getaddrinfo EAI_OTHER (j_entry j) r = (ret, r')"
  shows "resolve_relock rand_max rnd j ret now r' = Some (Inl (Fetching j), r)"
proof -
  have "c\<lparr>c_resolving := True\<rparr> = c" using assms(2) by (cases c) simp
  moreover have "ret = False" "r' = r" using assms(1,4) by (auto simp: DoResolve_getaddrinfo_def)
  moreover have "r\<lparr>rv_cell := (rv_cell r)(j_entry j \<mapsto> c)\<rparr> = r" using assms(1) by (simp add: fun_upd_idem)
  ultimately show ?thesis using assms(1,3) by (simp add: resolve_relock_def resolve_loop_def)
qed

end
