(* ===== verification/Zoo_Keeper.thy ===== *)
theory Zoo_Keeper
  imports Election "HOL-Library.Word" "HOL-Library.Product_Lexorder" "HOL-Library.List_Lexorder" "HOL-Library.Char_ord"
begin

text \<open>
  \<open>flinter/zookeeper/zookeeper.cpp\<close>: the wrapper of the ZooKeeper client library. For every request or watch
  the class allocates a \<open>Pending\<close>, hands its address to the library and keeps it in the set \<open>_pending\<close>; the
  library gives the address back with the completion and with the event. An address is a number, \<open>zk_heap\<close>
  holds the objects that are allocated. What the library answers is an argument of each operation; what user
  code is told goes to \<open>zk_calls\<close>. A failed assertion and an access to a deleted object are outcomes of their
  own. Where the code lets go of the mutex around a call to user code or to \<open>zookeeper_close\<close>, the definition
  is split, so that other calls can come between (\<open>zoo_do\<close> below).
\<close>

section \<open>Constants of the client library\<close>

definition ZCLOSING :: int where "ZCLOSING = -116"
definition ZINVALIDSTATE :: int where "ZINVALIDSTATE = -9"
definition ZBADARGUMENTS :: int where "ZBADARGUMENTS = -8"
definition ZAUTHFAILED :: int where "ZAUTHFAILED = -115"
definition ZAPIERROR :: int where "ZAPIERROR = -100"
definition ZSYSTEMERROR :: int where "ZSYSTEMERROR = -1"

definition ZOO_EXPIRED_SESSION_STATE :: int where "ZOO_EXPIRED_SESSION_STATE = -112"
definition ZOO_AUTH_FAILED_STATE :: int where "ZOO_AUTH_FAILED_STATE = -113"
definition ZOO_CONNECTING_STATE :: int where "ZOO_CONNECTING_STATE = 1"
definition ZOO_ASSOCIATING_STATE :: int where "ZOO_ASSOCIATING_STATE = 2"
definition ZOO_CONNECTED_STATE :: int where "ZOO_CONNECTED_STATE = 3"

definition ZOO_CREATED_EVENT :: int where "ZOO_CREATED_EVENT = 1"
definition ZOO_DELETED_EVENT :: int where "ZOO_DELETED_EVENT = 2"
definition ZOO_CHANGED_EVENT :: int where "ZOO_CHANGED_EVENT = 3"
definition ZOO_CHILD_EVENT :: int where "ZOO_CHILD_EVENT = 4"
definition ZOO_SESSION_EVENT :: int where "ZOO_SESSION_EVENT = -1"
definition ZOO_NOTWATCHING_EVENT :: int where "ZOO_NOTWATCHING_EVENT = -2"

lemmas zoo_codes = ZOK_def ZNONODE_def ZSESSIONEXPIRED_def ZCLOSING_def ZINVALIDSTATE_def ZBADARGUMENTS_def
  ZAUTHFAILED_def ZAPIERROR_def ZSYSTEMERROR_def
lemmas zoo_states = ZOO_EXPIRED_SESSION_STATE_def ZOO_AUTH_FAILED_STATE_def ZOO_CONNECTING_STATE_def
  ZOO_ASSOCIATING_STATE_def ZOO_CONNECTED_STATE_def
lemmas zoo_events = ZOO_CREATED_EVENT_def ZOO_DELETED_EVENT_def ZOO_CHANGED_EVENT_def ZOO_CHILD_EVENT_def
  ZOO_SESSION_EVENT_def ZOO_NOTWATCHING_EVENT_def

definition zoo_strerror :: "int \<Rightarrow> string" where
  "zoo_strerror e =
    (if e = ZOK then ''Everything is OK''
     else if e = -2 then ''A runtime inconsistency was found''
     else if e = -3 then ''A data inconsistency was found''
     else if e = -4 then ''Connection to the server has been lost''
     else if e = -5 then ''Error while marshalling or unmarshalling data''
     else if e = -6 then ''Operation is unimplemented''
     else if e = -7 then ''Operation timeout''
     else if e = ZBADARGUMENTS then ''Invalid arguments''
     else if e = ZINVALIDSTATE then ''Invalid zhandle state''
     else if e = ZNONODE then ''Node does not exist''
     else if e = -102 then ''Not authenticated''
     else if e = -103 then ''Version conflict''
     else if e = -108 then ''Ephemeral nodes may not have children''
     else if e = -110 then ''The node already exists''
     else if e = -111 then ''The node has children''
     else if e = ZSESSIONEXPIRED then ''The session has been expired by the server''
     else if e = -113 then ''Invalid callback specified''
     else if e = -114 then ''Invalid ACL specified''
     else if e = ZAUTHFAILED then ''Client authentication failed''
     else if e = ZCLOSING then ''ZooKeeper is closing''
     else if e = -117 then ''(not error) no server responses to process''
     else if e = -118 then ''Session moved to another server, so operation is ignored''
     else if e < ZSYSTEMERROR \<and> e > ZAPIERROR then ''Unknown system and server-wide error.''
     else if e < ZAPIERROR then ''Unknown API error''
     else ''Unknown error'')"

section \<open>Pending operations\<close>

datatype zoo_operation = OP_SESSION | OP_CREATE | OP_DELETE | OP_EXISTS | OP_SYNC | OP_GET | OP_SET | OP_GETA | OP_SETA
  | OP_GETC

record zoo_pending =
  pd_op :: zoo_operation
  pd_path :: string
  pd_zkw :: "nat option"
  pd_zkc :: "nat option"
  pd_zkw_detached :: bool

definition clear_callback :: "zoo_pending \<Rightarrow> zoo_pending" where
  "clear_callback q = q\<lparr>pd_zkc := None\<rparr>"

definition clear_watcher :: "zoo_pending \<Rightarrow> zoo_pending" where
  "clear_watcher q = q\<lparr>pd_zkw := None, pd_zkw_detached := False\<rparr>"

definition detach_watcher :: "zoo_pending \<Rightarrow> zoo_pending" where
  "detach_watcher q = q\<lparr>pd_zkw := None, pd_zkw_detached := True\<rparr>"

text \<open>An ACL: the permissions of each identity, as the map of the class and as the vector of the library.\<close>

type_synonym zoo_id = "string \<times> string"
type_synonym zoo_acl = "(zoo_id, 32 word) smap"

definition Translate_out :: "zoo_acl \<Rightarrow> (32 word \<times> zoo_id) list" where
  "Translate_out acl = map (\<lambda>(i, perms). (perms, i)) acl"

definition translate_entry :: "32 word \<times> zoo_id \<Rightarrow> zoo_acl \<Rightarrow> zoo_acl" where
  "translate_entry a m = (case smap_find m (snd a) of
      Some perms \<Rightarrow> smap_put (snd a) (or perms (fst a)) m
    | None \<Rightarrow> smap_insert (snd a) (fst a) m)"

definition Translate_in :: "(32 word \<times> zoo_id) list \<Rightarrow> zoo_acl" where
  "Translate_in v = fold translate_entry v []"

text \<open>What user code is told: \<open>OnEvent\<close> of a watcher, and the completion methods of a callback.\<close>

datatype zoo_answer = No_value | Value string | Names "string list" | Acl_of zoo_acl

datatype zoo_call =
    To_watcher nat int int string
  | To_callback nat zoo_operation int string zoo_answer

record zoo =
  zk_heap :: "nat \<Rightarrow> zoo_pending option"
  zk_pending :: "nat list"
  zk_resuming :: bool
  zk_handle :: "nat option"
  zk_connecting :: bool
  zk_client_id :: int
  zk_hosts :: string
  zk_timeout :: int
  zk_vectors :: nat
  zk_calls :: "zoo_call list"

definition new_zoo :: zoo where
  "new_zoo = \<lparr>zk_heap = (\<lambda>_. None), zk_pending = [], zk_resuming = False, zk_handle = None, zk_connecting = False,
     zk_client_id = 0, zk_hosts = [], zk_timeout = -1, zk_vectors = 0, zk_calls = []\<rparr>"

datatype 'a zoo_result = Fine 'a | Assertion_fails | Use_after_free

fun fine_map :: "('a \<Rightarrow> 'b) \<Rightarrow> 'a zoo_result \<Rightarrow> 'b zoo_result" where
  "fine_map f (Fine a) = Fine (f a)"
| "fine_map f Assertion_fails = Assertion_fails"
| "fine_map f Use_after_free = Use_after_free"

definition zoo_put :: "nat \<Rightarrow> zoo_pending \<Rightarrow> zoo \<Rightarrow> zoo" where
  "zoo_put p q zk = zk\<lparr>zk_heap := (zk_heap zk)(p \<mapsto> q)\<rparr>"

definition zoo_tell :: "zoo_call list \<Rightarrow> zoo \<Rightarrow> zoo" where
  "zoo_tell cs zk = zk\<lparr>zk_calls := zk_calls zk @ cs\<rparr>"

definition zoo_add :: "nat \<Rightarrow> zoo_pending \<Rightarrow> zoo \<Rightarrow> zoo" where
  "zoo_add p q zk = zk\<lparr>zk_heap := (zk_heap zk)(p \<mapsto> q), zk_pending := insort p (zk_pending zk)\<rparr>"

definition zoo_delete :: "nat list \<Rightarrow> zoo \<Rightarrow> zoo" where
  "zoo_delete ps zk = zk\<lparr>zk_heap := (\<lambda>p. if p \<in> set ps then None else zk_heap zk p)\<rparr>"

definition ErasePending :: "nat \<Rightarrow> zoo \<Rightarrow> zoo zoo_result" where
  "ErasePending p zk = (case zk_heap zk p of
      None \<Rightarrow> Use_after_free
    | Some q \<Rightarrow>
        if pd_zkc q \<noteq> None \<or> pd_zkw q \<noteq> None \<or> pd_zkw_detached q then Assertion_fails
        else Fine (if p \<in> set (zk_pending zk) then zoo_delete [p] (zk\<lparr>zk_pending := remove1 p (zk_pending zk)\<rparr>) else zk))"

definition ZkDetach :: "nat option \<Rightarrow> nat option \<Rightarrow> zoo \<Rightarrow> zoo" where
  "ZkDetach zkw zkc zk = zk\<lparr>zk_heap := (\<lambda>p.
      if p \<in> set (zk_pending zk) then
        map_option (\<lambda>q.
          let q = (if zkc \<noteq> None \<and> pd_zkc q = zkc then clear_callback q else q)
          in if zkw \<noteq> None \<and> pd_zkw q = zkw then detach_watcher q else q) (zk_heap zk p)
      else zk_heap zk p)\<rparr>"

section \<open>Requests\<close>

definition rooted :: "string option \<Rightarrow> bool" where
  "rooted path = (case path of Some (c # _) \<Rightarrow> c = CHR ''/'' | _ \<Rightarrow> False)"

text \<open>
  The asynchronous requests: \<open>p\<close> is the address \<open>new Pending\<close> gives, \<open>rc\<close> the answer of the library to the
  request. They differ in the operation only.
\<close>

definition async_call :: "zoo_operation \<Rightarrow> nat \<Rightarrow> int \<Rightarrow> string option \<Rightarrow> nat option \<Rightarrow> nat option \<Rightarrow> zoo \<Rightarrow> int \<times> zoo" where
  "async_call oper p rc path zkc watcher zk =
    (if \<not> rooted path \<or> (zkc = None \<and> watcher = None) then (ZBADARGUMENTS, zk)
     else if zk_handle zk = None then (ZINVALIDSTATE, zk)
     else if rc \<noteq> ZOK then (rc, zk)
     else (ZOK, zoo_add p \<lparr>pd_op = oper, pd_path = the path, pd_zkw = watcher, pd_zkc = zkc, pd_zkw_detached = False\<rparr> zk))"

definition AsyncGet :: "nat \<Rightarrow> int \<Rightarrow> string option \<Rightarrow> nat option \<Rightarrow> nat option \<Rightarrow> zoo \<Rightarrow> int \<times> zoo" where
  "AsyncGet = async_call OP_GET"

definition AsyncExists :: "nat \<Rightarrow> int \<Rightarrow> string option \<Rightarrow> nat option \<Rightarrow> nat option \<Rightarrow> zoo \<Rightarrow> int \<times> zoo" where
  "AsyncExists = async_call OP_EXISTS"

definition AsyncGetChildren :: "nat \<Rightarrow> int \<Rightarrow> string option \<Rightarrow> nat option \<Rightarrow> nat option \<Rightarrow> zoo \<Rightarrow> int \<times> zoo" where
  "AsyncGetChildren = async_call OP_GETC"

text \<open>The synchronous ones that can leave a watch; the answer of the library has the data, if any.\<close>

definition sync_watch :: "zoo_operation \<Rightarrow> bool \<Rightarrow> nat \<Rightarrow> string \<Rightarrow> nat option \<Rightarrow> zoo \<Rightarrow> zoo" where
  "sync_watch oper good p path watcher zk =
    (if watcher \<noteq> None \<and> good
     then zoo_add p \<lparr>pd_op = oper, pd_path = path, pd_zkw = watcher, pd_zkc = None, pd_zkw_detached = False\<rparr> zk
     else zk)"

definition ZkExists :: "nat \<Rightarrow> int \<Rightarrow> string option \<Rightarrow> nat option \<Rightarrow> zoo \<Rightarrow> int \<times> zoo" where
  "ZkExists p rc path watcher zk =
    (if \<not> rooted path then (ZBADARGUMENTS, zk)
     else if zk_handle zk = None then (ZINVALIDSTATE, zk)
     else (rc, sync_watch OP_EXISTS (rc = ZOK \<or> rc = ZNONODE) p (the path) watcher zk))"

text \<open>\<open>std::string::resize\<close>; the library fills the buffer it is given and sets the length.\<close>

definition resize :: "nat \<Rightarrow> string \<Rightarrow> string" where
  "resize n s = take n s @ replicate (n - length s) (CHR 0x00)"

definition zoo_int_max :: int where "zoo_int_max = 2147483647"

definition get_buffer :: "string \<Rightarrow> string" where
  "get_buffer data = (if data = [] then resize 1024 data else data)"

definition get_length :: "string \<Rightarrow> int" where
  "get_length data = (if data = [] then 1024 else if int (length data) > zoo_int_max then zoo_int_max else int (length data))"

definition ZkGet :: "nat \<Rightarrow> (string option \<Rightarrow> int \<Rightarrow> int \<times> string option \<times> int) \<Rightarrow> string option \<Rightarrow> string option \<Rightarrow>
    nat option \<Rightarrow> zoo \<Rightarrow> int \<times> string option \<times> zoo" where
  "ZkGet p lib path data watcher zk =
    (if \<not> rooted path then (ZBADARGUMENTS, data, zk)
     else let buffer = map_option get_buffer data; len = (case data of Some d \<Rightarrow> get_length d | None \<Rightarrow> 0) in
       if zk_handle zk = None then (ZINVALIDSTATE, buffer, zk)
       else let (rc, filled, n) = lib buffer len in
         (rc, map_option (\<lambda>d. if n < 0 then [] else resize (nat n) d) filled,
          sync_watch OP_GET (rc = ZOK) p (the path) watcher zk))"

definition ZkGetChildren :: "nat \<Rightarrow> int \<Rightarrow> string list \<Rightarrow> string option \<Rightarrow> string list option \<Rightarrow> nat option \<Rightarrow> zoo \<Rightarrow>
    int \<times> string list option \<times> zoo" where
  "ZkGetChildren p rc strings path children watcher zk =
    (if \<not> rooted path then (ZBADARGUMENTS, children, zk)
     else if zk_handle zk = None then (ZINVALIDSTATE, children, zk)
     else (rc, if rc \<noteq> ZOK then children else map_option (\<lambda>_. strings) children,
           sync_watch OP_GETC (rc = ZOK) p (the path) watcher zk))"

text \<open>
  The other synchronous ones: whether the library is called, with what, and the answer. \<open>zk_vectors\<close> counts
  the ACL vectors that have been allocated and not freed.
\<close>

definition ZkSet :: "(string \<Rightarrow> string \<Rightarrow> int \<Rightarrow> int) \<Rightarrow> string option \<Rightarrow> string \<Rightarrow> int \<Rightarrow> zoo \<Rightarrow> int" where
  "ZkSet lib path data version zk =
    (if \<not> rooted path then ZBADARGUMENTS
     else if int (length data) > zoo_int_max then ZBADARGUMENTS
     else if zk_handle zk = None then ZINVALIDSTATE
     else lib (the path) data version)"

definition ZkErase :: "(string \<Rightarrow> int \<Rightarrow> int) \<Rightarrow> string option \<Rightarrow> int \<Rightarrow> zoo \<Rightarrow> int" where
  "ZkErase lib path version zk =
    (if \<not> rooted path then ZBADARGUMENTS else if zk_handle zk = None then ZINVALIDSTATE else lib (the path) version)"

definition ZOO_EPHEMERAL :: int where "ZOO_EPHEMERAL = 1"
definition ZOO_SEQUENCE :: int where "ZOO_SEQUENCE = 2"

definition vectors_of :: "zoo_acl \<Rightarrow> nat" where
  "vectors_of acl = (if acl = [] then 0 else 1)"

definition ZkCreate :: "(string \<Rightarrow> string \<Rightarrow> (32 word \<times> zoo_id) list \<Rightarrow> int \<Rightarrow> int \<Rightarrow> int \<times> string) \<Rightarrow> string option \<Rightarrow>
    string option \<Rightarrow> string option \<Rightarrow> bool \<Rightarrow> bool \<Rightarrow> zoo_acl \<Rightarrow> zoo \<Rightarrow> int \<times> string option \<times> zoo" where
  "ZkCreate lib path data actual_path ephemeral sequence acl zk =
    (if \<not> rooted path \<or> data = None then (ZBADARGUMENTS, actual_path, zk)
     else if int (length (the path)) > zoo_int_max - 16 then (ZBADARGUMENTS, actual_path, zk)
     else if int (length (the data)) > zoo_int_max then (ZBADARGUMENTS, actual_path, zk)
     else let zk1 = zk\<lparr>zk_vectors := zk_vectors zk + vectors_of acl\<rparr>;
              flags = (if ephemeral then ZOO_EPHEMERAL else 0) + (if sequence then ZOO_SEQUENCE else 0);
              freed = zk1\<lparr>zk_vectors := zk_vectors zk1 - vectors_of acl\<rparr>
       in if zk_handle zk1 = None then (ZINVALIDSTATE, actual_path, freed)
          else let (rc, actual) = lib (the path) (the data) (Translate_out acl) flags (int (length (the path)) + 16) in
            if rc \<noteq> ZOK then (rc, actual_path, freed)
            else (ZOK, map_option (\<lambda>_. actual) actual_path, freed))"

definition ZkGetAcl :: "int \<Rightarrow> (32 word \<times> zoo_id) list \<Rightarrow> string option \<Rightarrow> zoo_acl option \<Rightarrow> zoo \<Rightarrow> int \<times> zoo_acl option" where
  "ZkGetAcl rc av path acl zk =
    (if \<not> rooted path \<or> acl = None then (ZBADARGUMENTS, acl)
     else if zk_handle zk = None then (ZINVALIDSTATE, acl)
     else if rc \<noteq> ZOK then (rc, acl)
     else (ZOK, Some (Translate_in av)))"

definition ZkSetAcl :: "(string \<Rightarrow> int \<Rightarrow> (32 word \<times> zoo_id) list \<Rightarrow> int) \<Rightarrow> string option \<Rightarrow> zoo_acl \<Rightarrow> int \<Rightarrow> zoo \<Rightarrow>
    int \<times> zoo" where
  "ZkSetAcl lib path acl version zk =
    (if \<not> rooted path then (ZBADARGUMENTS, zk)
     else let zk1 = zk\<lparr>zk_vectors := zk_vectors zk + vectors_of acl\<rparr> in
       if zk_handle zk1 = None then (ZINVALIDSTATE, zk1)
       else (lib (the path) version (Translate_out acl), zk1\<lparr>zk_vectors := zk_vectors zk1 - vectors_of acl\<rparr>))"

text \<open>
  \<open>lib\<close> is \<open>zoo_state\<close> of the handle. \<open>wait_until_connected\<close> looks at the states and times it meets; it is
  \<open>None\<close> when they run out while it waits.
\<close>

definition zoo_state :: "(nat \<Rightarrow> int) \<Rightarrow> zoo \<Rightarrow> int" where
  "zoo_state lib zk = (case zk_handle zk of None \<Rightarrow> ZINVALIDSTATE | Some h \<Rightarrow> lib h)"

definition zk_is_connected :: "(nat \<Rightarrow> int) \<Rightarrow> zoo \<Rightarrow> int" where
  "zk_is_connected lib zk =
    (let s = zoo_state lib zk in
     if s = ZOO_CONNECTED_STATE then 0 else if s = ZOO_AUTH_FAILED_STATE then -1 else 1)"

fun wait_until_connected :: "int \<Rightarrow> (int \<times> int) list \<Rightarrow> bool option" where
  "wait_until_connected deadline [] = None"
| "wait_until_connected deadline ((s, now) # rest) =
    (if s = ZOO_CONNECTED_STATE then Some True
     else if s = ZOO_AUTH_FAILED_STATE then Some False
     else if deadline \<ge> 0 \<and> now \<ge> deadline then Some False
     else wait_until_connected deadline rest)"

definition WaitUntilConnected :: "int \<Rightarrow> int \<Rightarrow> (int \<times> int) list \<Rightarrow> bool option" where
  "WaitUntilConnected now timeout = wait_until_connected (if timeout \<ge> 0 then now + timeout else -1)"

section \<open>Completions and events\<close>

text \<open>
  Up to the call of user code: \<open>True\<close> when user code has been called, so that the rest of the handler is still
  to come. \<open>watched_completion\<close> is the shape of the completions of requests that can have a watcher.
\<close>

definition watchless_completion :: "(zoo_operation \<Rightarrow> bool) \<Rightarrow> nat \<Rightarrow> int \<Rightarrow> zoo_answer \<Rightarrow> zoo \<Rightarrow> (bool \<times> zoo) zoo_result" where
  "watchless_completion serves p rc answer zk = (case zk_heap zk p of
      None \<Rightarrow> Use_after_free
    | Some q \<Rightarrow>
        if pd_zkw q \<noteq> None then Assertion_fails
        else (case pd_zkc q of
            None \<Rightarrow> Fine (False, zk)
          | Some c \<Rightarrow> Fine (True, zoo_tell
              (if serves (pd_op q) then [To_callback c (pd_op q) rc (pd_path q) answer] else []) zk)))"

definition watched_completion :: "zoo_operation \<Rightarrow> (zoo_operation \<Rightarrow> bool) \<Rightarrow> nat \<Rightarrow> int \<Rightarrow> zoo_answer \<Rightarrow> zoo \<Rightarrow>
    (bool \<times> zoo) zoo_result" where
  "watched_completion resumed serves p rc answer zk = (case zk_heap zk p of
      None \<Rightarrow> Use_after_free
    | Some q \<Rightarrow> (case pd_zkc q of
        None \<Rightarrow>
          if pd_zkw_detached q then Fine (False, zk)
          else if pd_zkw q = None \<or> pd_op q \<noteq> resumed then Assertion_fails
          else if rc = ZOK then Fine (False, zk)
          else fine_map (Pair False) (ErasePending p zk)
      | Some c \<Rightarrow> Fine (True, zoo_tell
          (if serves (pd_op q) then [To_callback c (pd_op q) rc (pd_path q) answer] else []) zk)))"

definition GlobalVoidCompletion :: "nat \<Rightarrow> int \<Rightarrow> zoo \<Rightarrow> (bool \<times> zoo) zoo_result" where
  "GlobalVoidCompletion p rc = watchless_completion (\<lambda>oper. oper = OP_DELETE \<or> oper = OP_SETA) p rc No_value"

definition GlobalStatCompletion :: "nat \<Rightarrow> int \<Rightarrow> zoo \<Rightarrow> (bool \<times> zoo) zoo_result" where
  "GlobalStatCompletion p rc = watched_completion OP_EXISTS (\<lambda>oper. oper = OP_EXISTS \<or> oper = OP_SET) p rc No_value"

definition GlobalDataCompletion :: "nat \<Rightarrow> int \<Rightarrow> string \<Rightarrow> zoo \<Rightarrow> (bool \<times> zoo) zoo_result" where
  "GlobalDataCompletion p rc value = watched_completion OP_GET (\<lambda>oper. oper = OP_GET) p rc (Value value)"

definition GlobalStringsStatCompletion :: "nat \<Rightarrow> int \<Rightarrow> string list option \<Rightarrow> zoo \<Rightarrow> (bool \<times> zoo) zoo_result" where
  "GlobalStringsStatCompletion p rc strings =
    watched_completion OP_GETC (\<lambda>oper. oper = OP_GETC) p rc (Names (case strings of None \<Rightarrow> [] | Some l \<Rightarrow> l))"

definition GlobalStringCompletion :: "nat \<Rightarrow> int \<Rightarrow> string \<Rightarrow> zoo \<Rightarrow> (bool \<times> zoo) zoo_result" where
  "GlobalStringCompletion p rc value =
    watchless_completion (\<lambda>oper. oper = OP_CREATE \<or> oper = OP_SYNC) p rc (Value value)"

definition GlobalAclCompletion :: "nat \<Rightarrow> int \<Rightarrow> (32 word \<times> zoo_id) list \<Rightarrow> zoo \<Rightarrow> (bool \<times> zoo) zoo_result" where
  "GlobalAclCompletion p rc acl = watchless_completion (\<lambda>oper. oper = OP_GETA) p rc (Acl_of (Translate_in acl))"

text \<open>
  The rest of the completions once the callback has returned (\<open>True\<close> for \<open>GlobalVoidCompletion\<close>, which erases
  whatever watcher there is), and of \<open>GlobalWatcher\<close>.
\<close>

definition completion_ends :: "bool \<Rightarrow> nat \<Rightarrow> zoo \<Rightarrow> zoo zoo_result" where
  "completion_ends void p zk = (case zk_heap zk p of
      None \<Rightarrow> Use_after_free
    | Some q \<Rightarrow>
        let q1 = clear_callback q; zk1 = zoo_put p q1 zk in
        if void \<or> (pd_zkw q1 = None \<and> \<not> pd_zkw_detached q1) then ErasePending p zk1 else Fine zk1)"

definition GlobalWatcher :: "nat \<Rightarrow> int \<Rightarrow> int \<Rightarrow> string \<Rightarrow> zoo \<Rightarrow> zoo zoo_result" where
  "GlobalWatcher p type state path zk = (case zk_heap zk p of
      None \<Rightarrow> Use_after_free
    | Some q \<Rightarrow>
        if pd_zkw_detached q then Fine zk
        else (case pd_zkw q of
            None \<Rightarrow> Assertion_fails
          | Some w \<Rightarrow> Fine (zoo_tell [To_watcher w type state path] zk)))"

definition watcher_ends :: "nat \<Rightarrow> int \<Rightarrow> zoo \<Rightarrow> zoo zoo_result" where
  "watcher_ends p type zk =
    (if type = ZOO_SESSION_EVENT then Fine zk
     else case zk_heap zk p of
        None \<Rightarrow> Use_after_free
      | Some q \<Rightarrow> ErasePending p (zoo_put p (clear_watcher q) zk))"

section \<open>The session\<close>

text \<open>
  \<open>init hosts milliseconds client_id\<close> is \<open>zookeeper_init\<close>: the error, or the handle. Its timeout is truncated
  to 32 bits.
\<close>

type_synonym zoo_init = "string \<Rightarrow> 32 word \<Rightarrow> int \<Rightarrow> int + nat"

definition ReconnectNolock :: "zoo_init \<Rightarrow> zoo \<Rightarrow> (int \<times> zoo) zoo_result" where
  "ReconnectNolock init zk =
    (if zk_handle zk \<noteq> None then Assertion_fails
     else if zk_hosts zk = [] \<or> zk_timeout zk < 0 then Fine (ZBADARGUMENTS, zk)
     else (case init (zk_hosts zk) (word_of_int (zk_timeout zk div 1000000)) (zk_client_id zk) of
         Inl err \<Rightarrow> Fine (err, zk)
       | Inr h \<Rightarrow> Fine (ZOK, zk\<lparr>zk_handle := Some h\<rparr>)))"

definition ZkInitialize :: "zoo_init \<Rightarrow> string \<Rightarrow> int \<Rightarrow> zoo \<Rightarrow> (int \<times> zoo) zoo_result" where
  "ZkInitialize init hosts timeout zk =
    (if zk_handle zk \<noteq> None then Fine (ZINVALIDSTATE, zk)
     else if zk_connecting zk then Fine (ZOK, zk)
     else ReconnectNolock init (zk\<lparr>zk_hosts := hosts, zk_timeout := timeout, zk_connecting := False, zk_client_id := 0\<rparr>))"

text \<open>\<open>Inl\<close> of the handle: the thread is in \<open>zookeeper_close\<close>, without the mutex. \<open>Inr\<close>: the call returns.\<close>

definition ZkShutdown :: "zoo \<Rightarrow> ((nat + int) \<times> zoo) zoo_result" where
  "ZkShutdown zk = (case zk_handle zk of
      None \<Rightarrow> Fine (Inr ZOK, zk)
    | Some h \<Rightarrow>
        if zk_connecting zk then Assertion_fails
        else Fine (Inl h, zk\<lparr>zk_client_id := 0, zk_handle := None, zk_connecting := True\<rparr>))"

definition shutdown_closed :: "int \<Rightarrow> zoo \<Rightarrow> (int \<times> zoo) zoo_result" where
  "shutdown_closed rc zk =
    (if rc \<noteq> ZOK then Fine (rc, zk)
     else if zk_handle zk \<noteq> None \<or> \<not> zk_connecting zk then Assertion_fails
     else Fine (ZOK, zoo_delete (zk_pending zk) (zk\<lparr>zk_connecting := False, zk_pending := []\<rparr>)))"

definition reconnect_rest :: "zoo_init \<Rightarrow> zoo \<Rightarrow> (int \<times> zoo) zoo_result" where
  "reconnect_rest init zk = ReconnectNolock init (zk\<lparr>zk_client_id := 0, zk_resuming := True\<rparr>)"

definition Reconnect :: "zoo_init \<Rightarrow> zoo \<Rightarrow> ((nat + int) \<times> zoo) zoo_result" where
  "Reconnect init zk =
    (if zk_connecting zk then Fine (Inr ZOK, zk)
     else (case zk_handle zk of
         Some h \<Rightarrow> Fine (Inl h, zk\<lparr>zk_handle := None, zk_connecting := True\<rparr>)
       | None \<Rightarrow> fine_map (\<lambda>(rc, z). (Inr rc, z)) (reconnect_rest init zk)))"

definition reconnect_closed :: "zoo_init \<Rightarrow> zoo \<Rightarrow> (int \<times> zoo) zoo_result" where
  "reconnect_closed init zk = reconnect_rest init (zk\<lparr>zk_connecting := False\<rparr>)"

text \<open>
  \<open>OnConnected\<close>: the pending operations it takes out of the set, for \<open>ResumeSession\<close>. \<open>cid\<close> is the session of
  the handle; without one the assertion fails.
\<close>

definition ZkOnConnected :: "int option \<Rightarrow> zoo \<Rightarrow> (nat list \<times> zoo) zoo_result" where
  "ZkOnConnected cid zk =
    (if zk_handle zk = None then (if zk_connecting zk then Fine ([], zk) else Assertion_fails)
     else (case cid of
         None \<Rightarrow> Assertion_fails
       | Some i \<Rightarrow>
           let zk1 = zk\<lparr>zk_client_id := i\<rparr> in
           if zk_resuming zk1
           then Fine (zk_pending zk1, zk1\<lparr>zk_resuming := False, zk_pending := []\<rparr>)
           else Fine ([], zk1)))"

text \<open>
  One round of the loop of \<open>ResumeSession\<close> for \<open>p\<close>: \<open>p'\<close> and \<open>rc\<close> are the address and the answer of the library
  should the request be made again; \<open>True\<close> when that failed.
\<close>

definition async_again :: "zoo_operation \<Rightarrow> nat \<Rightarrow> int \<Rightarrow> string option \<Rightarrow> nat option \<Rightarrow> nat option \<Rightarrow> zoo \<Rightarrow> int \<times> zoo" where
  "async_again oper = (if oper = OP_EXISTS then AsyncExists else if oper = OP_GET then AsyncGet else AsyncGetChildren)"

definition failed_answer :: "zoo_operation \<Rightarrow> zoo_answer" where
  "failed_answer oper = (if oper = OP_EXISTS then No_value else if oper = OP_GET then Value [] else Names [])"

definition forced_event :: "zoo_operation \<Rightarrow> int" where
  "forced_event oper =
    (if oper = OP_EXISTS then ZOO_CREATED_EVENT else if oper = OP_GET then ZOO_CHANGED_EVENT else ZOO_CHILD_EVENT)"

definition resume_one :: "int \<Rightarrow> nat \<Rightarrow> int \<Rightarrow> nat \<Rightarrow> zoo \<Rightarrow> (bool \<times> zoo) zoo_result" where
  "resume_one status p' rc p zk = (case zk_heap zk p of
      None \<Rightarrow> Use_after_free
    | Some q \<Rightarrow>
        if pd_zkc q = None \<and> (pd_zkw q = None \<or> pd_zkw_detached q) then Fine (False, zk)
        else if pd_op q = OP_EXISTS \<or> pd_op q = OP_GET \<or> pd_op q = OP_GETC then
          (case pd_zkc q of
             None \<Rightarrow> Fine (False, zoo_tell [To_watcher (the (pd_zkw q)) (forced_event (pd_op q)) status (pd_path q)] zk)
           | Some c \<Rightarrow>
               let (err, zk1) = async_again (pd_op q) p' rc (Some (pd_path q)) (Some c) (pd_zkw q) zk in
               if err = ZOK then Fine (False, zk1)
               else Fine (True, zoo_tell [To_callback c (pd_op q) ZSESSIONEXPIRED (pd_path q) (failed_answer (pd_op q))] zk1))
        else if pd_op q = OP_SESSION then Assertion_fails
        else if pd_zkc q = None \<or> pd_zkw q \<noteq> None then Assertion_fails
        else Fine (False, zk))"

text \<open>All rounds, when nothing comes between; \<open>answers\<close> gives \<open>p'\<close> and \<open>rc\<close> of each.\<close>

fun resume_loop_zk :: "int \<Rightarrow> nat list \<Rightarrow> (nat \<times> int) list \<Rightarrow> zoo \<Rightarrow> (nat \<times> zoo) zoo_result" where
  "resume_loop_zk status (p # ps) ((p', rc) # answers) zk = (case resume_one status p' rc p zk of
      Fine (failed, zk1) \<Rightarrow> fine_map (\<lambda>(n, z). (if failed then Suc n else n, z)) (resume_loop_zk status ps answers zk1)
    | Assertion_fails \<Rightarrow> Assertion_fails
    | Use_after_free \<Rightarrow> Use_after_free)"
| "resume_loop_zk status _ _ zk = Fine (0, zk)"

definition ResumeSession :: "int \<Rightarrow> nat list \<Rightarrow> (nat \<times> int) list \<Rightarrow> zoo \<Rightarrow> (nat \<times> zoo) zoo_result" where
  "ResumeSession status ps answers zk = fine_map (\<lambda>(n, z). (n, zoo_delete ps z)) (resume_loop_zk status ps answers zk)"

text \<open>What a session event makes the class do.\<close>

datatype session_action = Stay | Connect_now | Reconnect_now | Shutdown_now

definition ZkOnSession :: "int \<Rightarrow> session_action" where
  "ZkOnSession state =
    (if state = ZOO_CONNECTING_STATE \<or> state = ZOO_ASSOCIATING_STATE then Stay
     else if state = ZOO_CONNECTED_STATE then Connect_now
     else if state = ZOO_EXPIRED_SESSION_STATE then Reconnect_now
     else if state = ZOO_AUTH_FAILED_STATE then Shutdown_now
     else Stay)"

text \<open>\<open>ZooKeeperWatcher::OnEvent\<close>: the method the event goes to.\<close>

datatype watch_method = Created | Erased | Changed | Child | Session | Not_watching | No_method

definition ZkOnEvent :: "int \<Rightarrow> watch_method" where
  "ZkOnEvent type =
    (if type = ZOO_CREATED_EVENT then Created
     else if type = ZOO_DELETED_EVENT then Erased
     else if type = ZOO_CHANGED_EVENT then Changed
     else if type = ZOO_CHILD_EVENT then Child
     else if type = ZOO_SESSION_EVENT then Session
     else if type = ZOO_NOTWATCHING_EVENT then Not_watching
     else No_method)"

section \<open>Interleaving\<close>

text \<open>
  The wrapper with its client library: \<open>zs_flight\<close> are the addresses of the requests the library has not
  completed, \<open>zs_armed\<close> those of the watches it holds, \<open>zs_frames\<close> what its event thread is in the middle of,
  innermost first, and \<open>zs_closing\<close> whether another thread is in \<open>zookeeper_close\<close> for \<open>Shutdown\<close>.
\<close>

datatype zoo_frame =
    In_completion nat
  | In_watcher nat int
  | In_resume "nat list" "nat list" int
  | In_reconnect

record zoo_system =
  zs_zk :: zoo
  zs_flight :: "nat list"
  zs_armed :: "nat list"
  zs_frames :: "zoo_frame list"
  zs_closing :: bool

definition new_zoo_system :: zoo_system where
  "new_zoo_system = \<lparr>zs_zk = new_zoo, zs_flight = [], zs_armed = [], zs_frames = [], zs_closing = False\<rparr>"

datatype zoo_event =
    Call_initialize zoo_init string int
  | Call_async zoo_operation nat int "string option" "nat option" "nat option"
  | Call_exists nat int "string option" "nat option"
  | Call_get nat "string option \<Rightarrow> int \<Rightarrow> int \<times> string option \<times> int" "string option" "string option" "nat option"
  | Call_get_children nat int "string list" "string option" "string list option" "nat option"
  | Call_detach "nat option" "nat option"
  | Call_shutdown
  | Shutdown_closes int
  | Completion nat int zoo_answer
  | Watch_fires nat int int string
  | Handler_returns
  | Session_event int "int option" zoo_init int
  | Reconnect_closes zoo_init
  | Resume_next nat int

text \<open>The completion of the library that goes with a request.\<close>

definition complete :: "nat \<Rightarrow> int \<Rightarrow> zoo_answer \<Rightarrow> zoo \<Rightarrow> (bool \<times> zoo) zoo_result" where
  "complete p rc answer zk = (case zk_heap zk p of
      None \<Rightarrow> Use_after_free
    | Some q \<Rightarrow>
        if pd_op q = OP_EXISTS then GlobalStatCompletion p rc zk
        else if pd_op q = OP_GET then GlobalDataCompletion p rc (case answer of Value s \<Rightarrow> s | _ \<Rightarrow> []) zk
        else GlobalStringsStatCompletion p rc (case answer of Names l \<Rightarrow> Some l | _ \<Rightarrow> None) zk)"

text \<open>
  The library holds a watch from the successful answer on, and \<open>exists\<close> also leaves one at a node that is
  missing.
\<close>

definition leaves_watch :: "zoo_pending \<Rightarrow> int \<Rightarrow> bool" where
  "leaves_watch q rc \<longleftrightarrow> (pd_zkw q \<noteq> None \<or> pd_zkw_detached q) \<and> (rc = ZOK \<or> (pd_op q = OP_EXISTS \<and> rc = ZNONODE))"

definition arm :: "nat \<Rightarrow> bool \<Rightarrow> zoo \<Rightarrow> zoo_system \<Rightarrow> zoo_system" where
  "arm p armed zk s = s\<lparr>zs_zk := zk, zs_armed := (if armed then p # zs_armed s else zs_armed s)\<rparr>"

fun zoo_do :: "zoo_event \<Rightarrow> zoo_system \<Rightarrow> zoo_system zoo_result" where
  "zoo_do (Call_initialize init hosts timeout) s =
    fine_map (\<lambda>(rc, zk). s\<lparr>zs_zk := zk\<rparr>) (ZkInitialize init hosts timeout (zs_zk s))"
| "zoo_do (Call_async oper p rc path zkc zkw) s =
    (let (err, zk) = async_again oper p rc path zkc zkw (zs_zk s) in
     Fine (s\<lparr>zs_zk := zk, zs_flight := (if err = ZOK then p # zs_flight s else zs_flight s)\<rparr>))"
| "zoo_do (Call_exists p rc path zkw) s =
    (let (err, zk) = ZkExists p rc path zkw (zs_zk s) in
     Fine (arm p (zkw \<noteq> None \<and> p \<in> set (zk_pending zk)) zk s))"
| "zoo_do (Call_get p lib path data zkw) s =
    (let (err, d, zk) = ZkGet p lib path data zkw (zs_zk s) in
     Fine (arm p (zkw \<noteq> None \<and> p \<in> set (zk_pending zk)) zk s))"
| "zoo_do (Call_get_children p rc strings path children zkw) s =
    (let (err, l, zk) = ZkGetChildren p rc strings path children zkw (zs_zk s) in
     Fine (arm p (zkw \<noteq> None \<and> p \<in> set (zk_pending zk)) zk s))"
| "zoo_do (Call_detach zkw zkc) s = Fine (s\<lparr>zs_zk := ZkDetach zkw zkc (zs_zk s)\<rparr>)"
| "zoo_do Call_shutdown s =
    fine_map (\<lambda>(r, zk). s\<lparr>zs_zk := zk, zs_closing := (zs_closing s \<or> isl r)\<rparr>) (ZkShutdown (zs_zk s))"
| "zoo_do (Shutdown_closes rc) s =
    fine_map (\<lambda>(err, zk). s\<lparr>zs_zk := zk, zs_closing := False, zs_flight := [], zs_armed := []\<rparr>) (shutdown_closed rc (zs_zk s))"
| "zoo_do (Completion p rc answer) s =
    fine_map (\<lambda>(called, zk). s\<lparr>zs_zk := zk, zs_flight := remove1 p (zs_flight s),
        zs_armed := (if leaves_watch (the (zk_heap (zs_zk s) p)) rc then p # zs_armed s else zs_armed s),
        zs_frames := (if called then In_completion p # zs_frames s else zs_frames s)\<rparr>)
      (complete p rc answer (zs_zk s))"
| "zoo_do (Watch_fires p type state path) s =
    fine_map (\<lambda>zk. s\<lparr>zs_zk := zk,
        zs_armed := (if type = ZOO_SESSION_EVENT then zs_armed s else remove1 p (zs_armed s)),
        zs_frames := In_watcher p type # zs_frames s\<rparr>)
      (GlobalWatcher p type state path (zs_zk s))"
| "zoo_do Handler_returns s = (case zs_frames s of
      In_completion p # fs \<Rightarrow> fine_map (\<lambda>zk. s\<lparr>zs_zk := zk, zs_frames := fs\<rparr>) (completion_ends False p (zs_zk s))
    | In_watcher p type # fs \<Rightarrow> fine_map (\<lambda>zk. s\<lparr>zs_zk := zk, zs_frames := fs\<rparr>) (watcher_ends p type (zs_zk s))
    | In_resume [] ps status # fs \<Rightarrow> Fine (s\<lparr>zs_zk := zoo_delete ps (zs_zk s), zs_frames := fs\<rparr>)
    | _ \<Rightarrow> Fine s)"
| "zoo_do (Session_event state cid init status) s = (case ZkOnSession state of
      Stay \<Rightarrow> Fine s
    | Connect_now \<Rightarrow>
        fine_map (\<lambda>(ps, zk). s\<lparr>zs_zk := zk, zs_frames := (if ps = [] then zs_frames s else In_resume ps ps status # zs_frames s)\<rparr>)
          (ZkOnConnected cid (zs_zk s))
    | Reconnect_now \<Rightarrow>
        fine_map (\<lambda>(r, zk). s\<lparr>zs_zk := zk, zs_frames := (if isl r then In_reconnect # zs_frames s else zs_frames s)\<rparr>)
          (Reconnect init (zs_zk s))
    | Shutdown_now \<Rightarrow>
        fine_map (\<lambda>(r, zk). s\<lparr>zs_zk := zk, zs_closing := (zs_closing s \<or> isl r)\<rparr>) (ZkShutdown (zs_zk s)))"
| "zoo_do (Reconnect_closes init) s =
    fine_map (\<lambda>(err, zk). s\<lparr>zs_zk := zk, zs_flight := [], zs_armed := [], zs_frames := tl (zs_frames s)\<rparr>)
      (reconnect_closed init (zs_zk s))"
| "zoo_do (Resume_next p' rc) s = (case zs_frames s of
      In_resume (p # todo) ps status # fs \<Rightarrow>
        fine_map (\<lambda>(failed, zk). s\<lparr>zs_zk := zk,
            zs_flight := (if p' \<in> set (zk_pending zk) then p' # zs_flight s else zs_flight s),
            zs_frames := In_resume todo ps status # fs\<rparr>)
          (resume_one status p' rc p (zs_zk s))
    | _ \<Rightarrow> Fine s)"

text \<open>
  When an event can happen. Of the library: it completes the requests that are in flight and fires the watches
  it holds, from one event thread, which is in one handler at a time; but \<open>zookeeper_close\<close> completes what is
  left before it returns, and then nothing more comes for the handle; closed by another thread, it waits for
  the event thread. \<open>new\<close> gives the address of no live object. Of the users of the class: an asynchronous
  request has a callback, nothing is requested between a reconnect and the session event that says it is done,
  and \<open>Detach\<close> takes watchers only.
\<close>

fun in_handler :: "zoo_frame list \<Rightarrow> bool" where
  "in_handler [] = False"
| "in_handler [In_reconnect] = False"
| "in_handler _ = True"

fun zoo_may :: "zoo_event \<Rightarrow> zoo_system \<Rightarrow> bool" where
  "zoo_may (Call_initialize init hosts timeout) s = True"
| "zoo_may (Call_async oper p rc path zkc zkw) s =
    (oper \<in> {OP_EXISTS, OP_GET, OP_GETC} \<and> zk_heap (zs_zk s) p = None \<and> zkc \<noteq> None \<and> \<not> zk_resuming (zs_zk s))"
| "zoo_may (Call_exists p rc path zkw) s = (zk_heap (zs_zk s) p = None \<and> \<not> zk_resuming (zs_zk s))"
| "zoo_may (Call_get p lib path data zkw) s = (zk_heap (zs_zk s) p = None \<and> \<not> zk_resuming (zs_zk s))"
| "zoo_may (Call_get_children p rc strings path children zkw) s =
    (zk_heap (zs_zk s) p = None \<and> \<not> zk_resuming (zs_zk s))"
| "zoo_may (Call_detach zkw zkc) s = (zkc = None)"
| "zoo_may Call_shutdown s = True"
| "zoo_may (Shutdown_closes rc) s = (zs_closing s \<and> zs_frames s = [])"
| "zoo_may (Completion p rc answer) s = (p \<in> set (zs_flight s) \<and> \<not> in_handler (zs_frames s))"
| "zoo_may (Watch_fires p type state path) s = (p \<in> set (zs_armed s) \<and> \<not> in_handler (zs_frames s))"
| "zoo_may Handler_returns s = (case zs_frames s of In_resume (p # todo) ps status # fs \<Rightarrow> False | fs \<Rightarrow> in_handler fs)"
| "zoo_may (Session_event state cid init status) s =
    (zs_frames s = [] \<and> cid \<noteq> None \<and> (zk_handle (zs_zk s) \<noteq> None \<or> zk_connecting (zs_zk s)))"
| "zoo_may (Reconnect_closes init) s = (zs_frames s = [In_reconnect])"
| "zoo_may (Resume_next p' rc) s =
    (zk_heap (zs_zk s) p' = None \<and> (case zs_frames s of In_resume (p # todo) ps status # fs \<Rightarrow> True | _ \<Rightarrow> False))"

inductive zoo_step :: "zoo_system \<Rightarrow> zoo_system \<Rightarrow> bool" where
  zoo_step: "zoo_may e s \<Longrightarrow> zoo_do e s = Fine t \<Longrightarrow> zoo_step s t"

fun zoo_run :: "zoo_event list \<Rightarrow> zoo_system \<Rightarrow> zoo_system zoo_result" where
  "zoo_run [] s = Fine s"
| "zoo_run (e # es) s = (case zoo_do e s of
      Fine t \<Rightarrow> zoo_run es t
    | Assertion_fails \<Rightarrow> Assertion_fails
    | Use_after_free \<Rightarrow> Use_after_free)"

end
