(* ===== verification/Zoo_Keeper_Correct.thy ===== *)
theory Zoo_Keeper_Correct
  imports Zoo_Keeper
begin

text \<open>
  The bookkeeping of \<open>Zoo_Keeper\<close>: no completion and no event of the client library meets a deleted object or
  fails an assertion, as long as the users of the class keep to the rules of \<open>zoo_may\<close>; a new session takes
  every pending operation over; and what goes wrong without each of the rules.
\<close>

section \<open>The invariant\<close>

definition read_operation :: "zoo_operation \<Rightarrow> bool" where
  "read_operation oper \<longleftrightarrow> oper = OP_EXISTS \<or> oper = OP_GET \<or> oper = OP_GETC"

definition at :: "zoo \<Rightarrow> nat \<Rightarrow> (zoo_pending \<Rightarrow> bool) \<Rightarrow> bool" where
  "at zk p P \<longleftrightarrow> (\<exists>q. zk_heap zk p = Some q \<and> P q)"

lemma at_mono: "at zk p P \<Longrightarrow> (\<And>q. P q \<Longrightarrow> Q q) \<Longrightarrow> at zk p Q"
  by (auto simp: at_def)

definition watched :: "zoo_pending \<Rightarrow> bool" where
  "watched q \<longleftrightarrow> pd_zkw q \<noteq> None \<or> pd_zkw_detached q"

text \<open>Of the pending operations, the library and the event thread: what each still needs.\<close>

definition pendings_ok :: "zoo_system \<Rightarrow> bool" where
  "pendings_ok s \<longleftrightarrow> distinct (zk_pending (zs_zk s)) \<and>
    (\<forall>p\<in>set (zk_pending (zs_zk s)). at (zs_zk s) p (\<lambda>q. read_operation (pd_op q)))"

definition flight_ok :: "zoo_system \<Rightarrow> bool" where
  "flight_ok s \<longleftrightarrow> distinct (zs_flight s) \<and> set (zs_flight s) \<subseteq> set (zk_pending (zs_zk s)) \<and>
    (\<forall>p\<in>set (zs_flight s). at (zs_zk s) p (\<lambda>q. pd_zkc q \<noteq> None))"

definition armed_ok :: "zoo_system \<Rightarrow> bool" where
  "armed_ok s \<longleftrightarrow> distinct (zs_armed s) \<and> set (zs_armed s) \<subseteq> set (zk_pending (zs_zk s)) - set (zs_flight s) \<and>
    (\<forall>p\<in>set (zs_armed s). at (zs_zk s) p (\<lambda>q. watched q \<and> (pd_zkc q = None \<or> In_completion p \<in> set (zs_frames s))))"

definition frame_ok :: "zoo_system \<Rightarrow> zoo_frame \<Rightarrow> bool" where
  "frame_ok s f \<longleftrightarrow> (case f of
      In_completion p \<Rightarrow> p \<in> set (zk_pending (zs_zk s)) \<and> p \<notin> set (zs_flight s)
    | In_watcher p type \<Rightarrow> type = ZOO_SESSION_EVENT \<or>
        (p \<in> set (zk_pending (zs_zk s)) - set (zs_flight s) - set (zs_armed s) \<and> at (zs_zk s) p (\<lambda>q. pd_zkc q = None))
    | In_resume todo ps status \<Rightarrow> set todo \<subseteq> set ps \<and> set ps \<inter> set (zk_pending (zs_zk s)) = {} \<and>
        (\<forall>p\<in>set ps. at (zs_zk s) p (\<lambda>q. read_operation (pd_op q))) \<and> \<not> zk_resuming (zs_zk s)
    | In_reconnect \<Rightarrow> zk_connecting (zs_zk s) \<and> \<not> zs_closing s)"

text \<open>A thread is in one handler, which \<open>zookeeper_close\<close> within \<open>Reconnect\<close> may have called.\<close>

definition in_reconnect :: "zoo_frame list \<Rightarrow> bool" where
  "in_reconnect fs \<longleftrightarrow> fs = [] \<or> fs = [In_reconnect]"

definition frames_ok :: "zoo_system \<Rightarrow> bool" where
  "frames_ok s \<longleftrightarrow> (\<forall>f\<in>set (zs_frames s). frame_ok s f) \<and>
    (in_reconnect (zs_frames s) \<or> in_reconnect (tl (zs_frames s))) \<and>
    (\<forall>todo ps status. In_resume todo ps status \<in> set (zs_frames s) \<longrightarrow> length (zs_frames s) = 1)"

definition session_ok :: "zoo_system \<Rightarrow> bool" where
  "session_ok s \<longleftrightarrow> (zk_connecting (zs_zk s) \<longrightarrow> zk_handle (zs_zk s) = None) \<and> (zs_closing s \<longrightarrow> zk_connecting (zs_zk s)) \<and>
    (zk_resuming (zs_zk s) \<longrightarrow> zs_flight s = [] \<and> zs_armed s = [])"

definition zoo_inv :: "zoo_system \<Rightarrow> bool" where
  "zoo_inv s \<longleftrightarrow> pendings_ok s \<and> flight_ok s \<and> armed_ok s \<and> frames_ok s \<and> session_ok s"

lemmas zoo_inv_defs = zoo_inv_def pendings_ok_def flight_ok_def armed_ok_def frames_ok_def session_ok_def

lemma zoo_inv_new: "zoo_inv new_zoo_system"
  by (simp add: zoo_inv_defs new_zoo_system_def new_zoo_def in_reconnect_def)

lemma not_in_handler: "in_reconnect (zs_frames s) = (\<not> in_handler (zs_frames s))"
  by (cases "zs_frames s" rule: in_handler.cases) (auto simp: in_reconnect_def)

lemma fine_map_Fine: "fine_map f r = Fine t \<longleftrightarrow> (\<exists>a. r = Fine a \<and> t = f a)"
  by (cases r) auto

lemma at_add: "zk_heap zk p = None \<Longrightarrow> at zk p' P \<Longrightarrow> at (zoo_add p q zk) p' P"
  by (auto simp: at_def zoo_add_def)

lemma at_add_new: "P q \<Longrightarrow> at (zoo_add p q zk) p P"
  by (auto simp: at_def zoo_add_def)

lemma set_pending_add [simp]: "set (zk_pending (zoo_add p q zk)) = insert p (set (zk_pending zk))"
  by (simp add: zoo_add_def set_insort_key)

lemma distinct_pending_add [simp]:
  "distinct (zk_pending (zoo_add p q zk)) \<longleftrightarrow> p \<notin> set (zk_pending zk) \<and> distinct (zk_pending zk)"
  by (simp add: zoo_add_def distinct_insort)

lemma at_heap: "at zk p P \<Longrightarrow> zk_heap zk p \<noteq> None"
  by (auto simp: at_def)

lemma zoo_add_sel [simp]:
  "zk_resuming (zoo_add p q zk) = zk_resuming zk" "zk_handle (zoo_add p q zk) = zk_handle zk"
  "zk_connecting (zoo_add p q zk) = zk_connecting zk"
  by (simp_all add: zoo_add_def)

lemma pending_live: "zoo_inv s \<Longrightarrow> p \<in> set (zk_pending (zs_zk s)) \<Longrightarrow> at (zs_zk s) p (\<lambda>q. read_operation (pd_op q))"
  by (simp add: zoo_inv_def pendings_ok_def)

lemma fresh_unused:
  assumes "zoo_inv s" and "zk_heap (zs_zk s) p = None"
  shows "p \<notin> set (zk_pending (zs_zk s))" "p \<notin> set (zs_flight s)" "p \<notin> set (zs_armed s)"
proof -
  show "p \<notin> set (zk_pending (zs_zk s))" using pending_live[of s p] assms by (auto simp: at_def)
  then show "p \<notin> set (zs_flight s)" "p \<notin> set (zs_armed s)"
    using assms(1) by (auto simp: zoo_inv_def flight_ok_def armed_ok_def)
qed

text \<open>A new pending operation, in flight or armed.\<close>

lemma zoo_inv_add:
  assumes inv: "zoo_inv s" and fresh: "zk_heap (zs_zk s) p = None" and res: "\<not> zk_resuming (zs_zk s)"
    and q: "read_operation (pd_op q)" "fly \<Longrightarrow> pd_zkc q \<noteq> None" "\<not> fly \<Longrightarrow> watched q \<and> pd_zkc q = None"
  shows "zoo_inv (s\<lparr>zs_zk := zoo_add p q (zs_zk s), zs_flight := (if fly then p # zs_flight s else zs_flight s),
    zs_armed := (if fly then zs_armed s else p # zs_armed s)\<rparr>)" (is "zoo_inv ?t")
proof -
  note new = fresh_unused[OF inv fresh]
  have keep: "\<And>p' P. at (zs_zk s) p' P \<Longrightarrow> at (zoo_add p q (zs_zk s)) p' P"
    using fresh by (rule at_add)
  have "pendings_ok ?t"
    using inv new keep q(1) by (auto simp: zoo_inv_def pendings_ok_def intro!: at_add_new)
  moreover have "flight_ok ?t" using inv new keep q(2) by (auto simp: zoo_inv_defs intro!: at_add_new)
  moreover have "armed_ok ?t" using inv new keep q(3) by (auto simp: zoo_inv_defs intro!: at_add_new)
  moreover have "frames_ok ?t"
  proof -
    have "frame_ok ?t f" if f: "frame_ok s f" "f \<in> set (zs_frames s)" for f
    proof (cases f)
      case (In_resume todo ps status)
      then have "p \<notin> set ps" using f fresh by (auto simp: frame_ok_def at_def)
      then show ?thesis using f In_resume keep by (auto simp: frame_ok_def)
    qed (use f new keep in \<open>auto simp: frame_ok_def\<close>)
    then show ?thesis using inv by (auto simp: zoo_inv_def frames_ok_def)
  qed
  moreover have "session_ok ?t" using inv res by (auto simp: zoo_inv_defs)
  ultimately show ?thesis by (simp add: zoo_inv_def)
qed

lemma async_again_cases:
  assumes "oper \<in> {OP_EXISTS, OP_GET, OP_GETC}"
  shows "async_again oper p rc path zkc zkw zk = (err, zk1) \<Longrightarrow>
    (err \<noteq> ZOK \<and> zk1 = zk) \<or> (err = ZOK \<and> zk_handle zk \<noteq> None \<and>
      zk1 = zoo_add p \<lparr>pd_op = oper, pd_path = the path, pd_zkw = zkw, pd_zkc = zkc, pd_zkw_detached = False\<rparr> zk)"
  using assms by (auto simp: async_again_def AsyncGet_def AsyncExists_def AsyncGetChildren_def async_call_def zoo_codes
      split: if_splits)

lemma inv_async:
  assumes inv: "zoo_inv s" and may: "zoo_may (Call_async oper p rc path zkc zkw) s"
  shows "\<exists>t. zoo_do (Call_async oper p rc path zkc zkw) s = Fine t \<and> zoo_inv t"
proof -
  obtain err zk where r: "async_again oper p rc path zkc zkw (zs_zk s) = (err, zk)" by fastforce
  have "oper \<in> {OP_EXISTS, OP_GET, OP_GETC}" using may by simp
  from async_again_cases[OF this r] show ?thesis
  proof
    assume "err \<noteq> ZOK \<and> zk = zs_zk s"
    then show ?thesis using r inv by simp
  next
    let ?q = "\<lparr>pd_op = oper, pd_path = the path, pd_zkw = zkw, pd_zkc = zkc, pd_zkw_detached = False\<rparr>"
    assume "err = ZOK \<and> zk_handle (zs_zk s) \<noteq> None \<and> zk = zoo_add p ?q (zs_zk s)"
    then show ?thesis using r zoo_inv_add[OF inv, of p ?q True] may by (auto simp: read_operation_def)
  qed
qed

lemma inv_sync:
  assumes inv: "zoo_inv s" and fresh: "zk_heap (zs_zk s) p = None" and res: "\<not> zk_resuming (zs_zk s)" and oper: "read_operation oper"
  shows "zoo_inv (arm p (zkw \<noteq> None \<and> p \<in> set (zk_pending (sync_watch oper good p path zkw (zs_zk s))))
    (sync_watch oper good p path zkw (zs_zk s)) s)"
proof -
  show ?thesis
    using inv fresh_unused[OF inv fresh] zoo_inv_add[OF inv fresh res, of "\<lparr>pd_op = oper, pd_path = path, pd_zkw = zkw, pd_zkc = None, pd_zkw_detached = False\<rparr>" False] oper
    by (auto simp: sync_watch_def arm_def watched_def)
qed

lemma inv_same: "zoo_inv s \<Longrightarrow> zk_heap (zs_zk s) p = None \<Longrightarrow> zoo_inv (arm p (w \<and> p \<in> set (zk_pending (zs_zk s))) (zs_zk s) s)"
  by (auto simp: arm_def zoo_inv_def pendings_ok_def at_def)

lemma inv_syncs:
  assumes "zoo_inv s" and "zoo_may e s"
    and "e = Call_exists p rc path zkw \<or> e = Call_get p lib path data zkw \<or> e = Call_get_children p rc strings path children zkw"
  shows "\<exists>t. zoo_do e s = Fine t \<and> zoo_inv t"
  using assms inv_sync[of s p] inv_same[of s p]
  by (auto simp: ZkExists_def ZkGet_def ZkGetChildren_def read_operation_def Let_def split: prod.splits if_splits)

text \<open>What only the session changes does not touch: the other parts of the invariant.\<close>

lemma inv_session_only:
  assumes inv: "zoo_inv s" and heap: "zk_heap zk = zk_heap (zs_zk s)" and pend: "zk_pending zk = zk_pending (zs_zk s)"
    and res: "zk_resuming zk = zk_resuming (zs_zk s)"
    and session: "zk_connecting zk \<Longrightarrow> zk_handle zk = None" "cl \<Longrightarrow> zk_connecting zk"
    and frames: "fs = zs_frames s \<and> (In_reconnect \<in> set fs \<longrightarrow> zk_connecting zk \<and> \<not> cl) \<or>
        zs_frames s = [] \<and> fs = [In_reconnect] \<and> zk_connecting zk \<and> \<not> cl"
  shows "zoo_inv (s\<lparr>zs_zk := zk, zs_closing := cl, zs_frames := fs\<rparr>)" (is "zoo_inv ?t")
proof -
  have at: "at zk = at (zs_zk s)" by (simp add: at_def heap fun_eq_iff)
  have "pendings_ok ?t" "flight_ok ?t" "armed_ok ?t" "session_ok ?t"
    using inv session frames by (auto simp: zoo_inv_defs at pend res)
  moreover have "frames_ok ?t"
    using frames
  proof
    assume f: "fs = zs_frames s \<and> (In_reconnect \<in> set fs \<longrightarrow> zk_connecting zk \<and> \<not> cl)"
    have "frame_ok ?t g" if "frame_ok s g" "g \<in> set fs" for g
      using that f by (cases g) (auto simp: frame_ok_def at pend res)
    then show ?thesis using inv f by (auto simp: zoo_inv_def frames_ok_def)
  next
    assume "zs_frames s = [] \<and> fs = [In_reconnect] \<and> zk_connecting zk \<and> \<not> cl"
    then show ?thesis by (simp add: frames_ok_def frame_ok_def in_reconnect_def)
  qed
  ultimately show ?thesis by (simp add: zoo_inv_def)
qed

lemma reconnect_frame: "zoo_inv s \<Longrightarrow> In_reconnect \<in> set (zs_frames s) \<Longrightarrow> zk_connecting (zs_zk s) \<and> \<not> zs_closing s"
  by (auto simp: zoo_inv_def frames_ok_def frame_ok_def dest: bspec split: zoo_frame.splits)

lemma connecting_no_handle: "zoo_inv s \<Longrightarrow> zk_connecting (zs_zk s) \<Longrightarrow> zk_handle (zs_zk s) = None"
  by (simp add: zoo_inv_def session_ok_def)

lemma sys_unchanged: "s\<lparr>zs_zk := zk, zs_closing := zs_closing s, zs_frames := zs_frames s\<rparr> = s\<lparr>zs_zk := zk\<rparr>"
  "s\<lparr>zs_zk := zk, zs_closing := c, zs_frames := zs_frames s\<rparr> = s\<lparr>zs_zk := zk, zs_closing := c\<rparr>"
  "s\<lparr>zs_zk := zk, zs_closing := zs_closing s, zs_frames := fs\<rparr> = s\<lparr>zs_zk := zk, zs_frames := fs\<rparr>"
  by simp_all

lemma inv_initialize: "zoo_inv s \<Longrightarrow> \<exists>t. zoo_do (Call_initialize init hosts timeout) s = Fine t \<and> zoo_inv t"
proof -
  assume inv: "zoo_inv s"
  have keep: "zoo_inv (s\<lparr>zs_zk := zk\<rparr>)" if "zk_heap zk = zk_heap (zs_zk s)" "zk_pending zk = zk_pending (zs_zk s)"
    "zk_resuming zk = zk_resuming (zs_zk s)" "\<not> zk_connecting (zs_zk s)" "\<not> zk_connecting zk" for zk
    using inv_session_only[OF inv that(1-3), of "zs_closing s" "zs_frames s"] that inv reconnect_frame[OF inv]
    by (auto simp: zoo_inv_def session_ok_def)
  show ?thesis
    using inv by (auto simp: ZkInitialize_def ReconnectNolock_def split: sum.splits intro!: keep)
qed

lemma inv_shutdown_call:
  assumes inv: "zoo_inv s"
  shows "\<exists>r zk. ZkShutdown (zs_zk s) = Fine (r, zk) \<and> zoo_inv (s\<lparr>zs_zk := zk, zs_closing := (zs_closing s \<or> isl r)\<rparr>)"
proof (cases "zk_handle (zs_zk s)")
  case None
  then show ?thesis using inv by (simp add: ZkShutdown_def)
next
  case (Some h)
  then have idle: "\<not> zk_connecting (zs_zk s)" using connecting_no_handle[OF inv] by auto
  let ?zk = "(zs_zk s)\<lparr>zk_client_id := 0, zk_handle := None, zk_connecting := True\<rparr>"
  have "In_reconnect \<notin> set (zs_frames s)" using reconnect_frame[OF inv] idle by auto
  then have "zoo_inv (s\<lparr>zs_zk := ?zk, zs_closing := True, zs_frames := zs_frames s\<rparr>)"
    by (intro inv_session_only[OF inv]) auto
  then show ?thesis using Some idle by (auto simp: ZkShutdown_def)
qed

lemma inv_shutdown: "zoo_inv s \<Longrightarrow> \<exists>t. zoo_do Call_shutdown s = Fine t \<and> zoo_inv t"
  using inv_shutdown_call[of s] by auto

lemma inv_shutdown_closes:
  assumes inv: "zoo_inv s" and may: "zoo_may (Shutdown_closes rc) s"
  shows "\<exists>t. zoo_do (Shutdown_closes rc) s = Fine t \<and> zoo_inv t"
proof -
  have "zk_connecting (zs_zk s)" "zk_handle (zs_zk s) = None"
    using inv may by (auto simp: zoo_inv_def session_ok_def)
  then show ?thesis
    using inv may by (auto simp: shutdown_closed_def zoo_inv_defs zoo_delete_def in_reconnect_def at_def)
qed

lemma reconnect_rest_fine:
  assumes "zk_handle zk = None"
  obtains rc z where "reconnect_rest init zk = Fine (rc, z)" "zk_heap z = zk_heap zk" "zk_pending z = zk_pending zk"
    "zk_connecting z = zk_connecting zk"
proof -
  have "\<exists>rc z. reconnect_rest init zk = Fine (rc, z) \<and> zk_heap z = zk_heap zk \<and> zk_pending z = zk_pending zk \<and>
      zk_connecting z = zk_connecting zk"
    using assms by (auto simp: reconnect_rest_def ReconnectNolock_def split: sum.splits)
  then show ?thesis using that by blast
qed

lemma inv_reconnect_closes:
  assumes inv: "zoo_inv s" and may: "zoo_may (Reconnect_closes init) s"
  shows "\<exists>t. zoo_do (Reconnect_closes init) s = Fine t \<and> zoo_inv t"
proof -
  have idle: "zk_connecting (zs_zk s)" "\<not> zs_closing s" using reconnect_frame[OF inv] may by auto
  then have none: "zk_handle ((zs_zk s)\<lparr>zk_connecting := False\<rparr>) = None" using connecting_no_handle[OF inv] by simp
  obtain rc z where "reconnect_rest init ((zs_zk s)\<lparr>zk_connecting := False\<rparr>) = Fine (rc, z)"
    "zk_heap z = zk_heap (zs_zk s)" "zk_pending z = zk_pending (zs_zk s)" "\<not> zk_connecting z"
    using reconnect_rest_fine[OF none, of init] by auto
  then show ?thesis
    using inv may idle by (auto simp: reconnect_closed_def zoo_inv_defs in_reconnect_def at_def)
qed

lemma no_frames: "zs_frames s = [] \<Longrightarrow> s\<lparr>zs_frames := []\<rparr> = s"
  by (cases s) simp

text \<open>Connected: the pending operations leave the set, and wait for \<open>ResumeSession\<close>.\<close>

lemma inv_connected:
  assumes inv: "zoo_inv s" and idle: "zs_frames s = []" "\<not> zk_connecting (zs_zk s)" "zk_resuming (zs_zk s)"
    and ps: "ps = zk_pending (zs_zk s)"
  shows "zoo_inv (s\<lparr>zs_zk := (zs_zk s)\<lparr>zk_client_id := i, zk_resuming := False, zk_pending := []\<rparr>,
    zs_frames := (if ps = [] then [] else [In_resume ps ps status])\<rparr>)" (is "zoo_inv ?t")
proof -
  have none: "zs_flight s = []" "zs_armed s = []" "\<not> zs_closing s"
    using inv idle by (auto simp: zoo_inv_def session_ok_def)
  have "\<forall>p\<in>set ps. at (zs_zk s) p (\<lambda>q. read_operation (pd_op q))" using pending_live[OF inv] ps by simp
  then have "frames_ok ?t" by (auto simp: frames_ok_def in_reconnect_def frame_ok_def at_def)
  then show ?thesis using none idle inv by (simp add: zoo_inv_def pendings_ok_def flight_ok_def armed_ok_def session_ok_def)
qed

lemma inv_session_event:
  assumes inv: "zoo_inv s" and may: "zoo_may (Session_event state cid init status) s"
  shows "\<exists>t. zoo_do (Session_event state cid init status) s = Fine t \<and> zoo_inv t"
proof (cases "ZkOnSession state")
  case Stay
  then show ?thesis using inv by simp
next
  case Shutdown_now
  then show ?thesis using inv_shutdown_call[OF inv] by auto
next
  case Reconnect_now
  show ?thesis
  proof (cases "zk_connecting (zs_zk s)")
    case True
    then show ?thesis using Reconnect_now inv by (simp add: Reconnect_def)
  next
    case False
    then obtain h where h: "zk_handle (zs_zk s) = Some h" using may by auto
    let ?zk = "(zs_zk s)\<lparr>zk_handle := None, zk_connecting := True\<rparr>"
    have "\<not> zs_closing s" using inv False by (auto simp: zoo_inv_def session_ok_def)
    then have "zoo_inv (s\<lparr>zs_zk := ?zk, zs_closing := zs_closing s, zs_frames := [In_reconnect]\<rparr>)"
      using may by (intro inv_session_only[OF inv]) auto
    then show ?thesis using Reconnect_now False h may by (simp add: Reconnect_def)
  qed
next
  case Connect_now
  show ?thesis
  proof (cases "zk_handle (zs_zk s)")
    case None
    then show ?thesis using Connect_now may inv by (simp add: ZkOnConnected_def no_frames)
  next
    case (Some h)
    then have idle: "\<not> zk_connecting (zs_zk s)" using connecting_no_handle[OF inv] by auto
    obtain i where i: "cid = Some i" using may by auto
    show ?thesis
    proof (cases "zk_resuming (zs_zk s)")
      case True
      then show ?thesis
        using Connect_now Some may i inv_connected[OF inv _ idle True refl, of status i]
        by (auto simp: ZkOnConnected_def Let_def)
    next
      case False
      have "zoo_inv (s\<lparr>zs_zk := (zs_zk s)\<lparr>zk_client_id := i\<rparr>, zs_closing := zs_closing s, zs_frames := []\<rparr>)"
        using inv may by (intro inv_session_only[OF inv]) (auto simp: zoo_inv_def session_ok_def)
      then show ?thesis using Connect_now Some may i False by (simp add: ZkOnConnected_def Let_def)
    qed
  qed
qed

lemma detach_at: "at (ZkDetach zkw None zk) p P \<longleftrightarrow>
    at zk p (\<lambda>q. P (if p \<in> set (zk_pending zk) \<and> zkw \<noteq> None \<and> pd_zkw q = zkw then detach_watcher q else q))"
  by (cases "zk_heap zk p") (simp_all add: ZkDetach_def at_def)

lemma detach_sel [simp]:
  "zk_pending (ZkDetach zkw zkc zk) = zk_pending zk" "zk_resuming (ZkDetach zkw zkc zk) = zk_resuming zk"
  "zk_handle (ZkDetach zkw zkc zk) = zk_handle zk" "zk_connecting (ZkDetach zkw zkc zk) = zk_connecting zk"
  by (simp_all add: ZkDetach_def)

lemma detach_watcher_sel [simp]:
  "pd_op (detach_watcher q) = pd_op q" "pd_zkc (detach_watcher q) = pd_zkc q" "watched (detach_watcher q)"
  by (simp_all add: detach_watcher_def watched_def)

lemma inv_detach: "zoo_inv s \<Longrightarrow> zoo_may (Call_detach zkw zkc) s \<Longrightarrow> \<exists>t. zoo_do (Call_detach zkw zkc) s = Fine t \<and> zoo_inv t"
proof -
  assume inv: "zoo_inv s" and "zoo_may (Call_detach zkw zkc) s"
  then have [simp]: "zkc = None" by simp
  let ?t = "s\<lparr>zs_zk := ZkDetach zkw None (zs_zk s)\<rparr>"
  have keep: "at (zs_zk ?t) p P" if "at (zs_zk s) p P" "\<And>q. P q \<Longrightarrow> P (detach_watcher q)" for p P
  proof -
    have "at (zs_zk s) p (\<lambda>q. P (if p \<in> set (zk_pending (zs_zk s)) \<and> zkw \<noteq> None \<and> pd_zkw q = zkw then detach_watcher q else q))"
      using that(1) by (rule at_mono) (simp add: that(2))
    then show ?thesis by (simp add: detach_at)
  qed
  have "pendings_ok ?t" using inv keep by (simp add: zoo_inv_def pendings_ok_def)
  moreover have "flight_ok ?t" using inv keep by (simp add: zoo_inv_def flight_ok_def)
  moreover have "armed_ok ?t"
  proof -
    have "at (zs_zk ?t) p (\<lambda>q. watched q \<and> (pd_zkc q = None \<or> In_completion p \<in> set (zs_frames s)))"
      if "p \<in> set (zs_armed s)" for p
      using that inv by (intro keep) (auto simp: zoo_inv_def armed_ok_def)
    then show ?thesis using inv by (simp add: zoo_inv_def armed_ok_def)
  qed
  moreover have "session_ok ?t" using inv by (simp add: zoo_inv_def session_ok_def)
  moreover have "frames_ok ?t"
  proof -
    have "frame_ok ?t f" if "frame_ok s f" for f
      using that keep by (cases f) (auto simp: frame_ok_def)
    then show ?thesis using inv by (auto simp: zoo_inv_def frames_ok_def)
  qed
  ultimately show ?thesis by (simp add: zoo_inv_def)
qed

lemma at_put: "at (zoo_put p q zk) p' P \<longleftrightarrow> (if p' = p then P q else at zk p' P)"
  by (simp add: at_def zoo_put_def)

lemma zoo_put_sel [simp]:
  "zk_pending (zoo_put p q zk) = zk_pending zk" "zk_resuming (zoo_put p q zk) = zk_resuming zk"
  "zk_handle (zoo_put p q zk) = zk_handle zk" "zk_connecting (zoo_put p q zk) = zk_connecting zk"
  by (simp_all add: zoo_put_def)

lemma at_delete: "at (zoo_delete ps zk) p P \<longleftrightarrow> p \<notin> set ps \<and> at zk p P"
  by (simp add: at_def zoo_delete_def)

lemma at_pending [simp]: "at (zk\<lparr>zk_pending := l\<rparr>) = at zk" "at (zoo_tell cs zk) = at zk"
  by (simp_all add: at_def fun_eq_iff zoo_tell_def)

lemma zoo_delete_sel [simp]:
  "zk_pending (zoo_delete ps zk) = zk_pending zk" "zk_resuming (zoo_delete ps zk) = zk_resuming zk"
  "zk_handle (zoo_delete ps zk) = zk_handle zk" "zk_connecting (zoo_delete ps zk) = zk_connecting zk"
  by (simp_all add: zoo_delete_def)

lemma zoo_tell_sel [simp]:
  "zk_pending (zoo_tell cs zk) = zk_pending zk" "zk_resuming (zoo_tell cs zk) = zk_resuming zk"
  "zk_handle (zoo_tell cs zk) = zk_handle zk" "zk_connecting (zoo_tell cs zk) = zk_connecting zk"
  "zk_heap (zoo_tell cs zk) = zk_heap zk"
  by (simp_all add: zoo_tell_def)

text \<open>A handler ends: its frame goes, and the pending operation \<open>p\<close> stays without its callback or goes as well.\<close>

lemma armed_elsewhere:
  assumes inv: "zoo_inv s" and fs: "zs_frames s = f # fs" "in_reconnect fs" and f: "f = In_completion p \<or> f = In_watcher p type"
    and p': "p' \<in> set (zs_armed s)" "p' \<noteq> p"
  shows "at (zs_zk s) p' (\<lambda>q. watched q \<and> pd_zkc q = None)"
proof -
  have "In_completion p' \<notin> set (zs_frames s)" using fs f p'(2) by (auto simp: in_reconnect_def)
  moreover have "at (zs_zk s) p' (\<lambda>q. watched q \<and> (pd_zkc q = None \<or> In_completion p' \<in> set (zs_frames s)))"
    using inv p'(1) by (simp add: zoo_inv_def armed_ok_def)
  ultimately show ?thesis by (auto elim: at_mono)
qed

lemma inv_handler_ends:
  assumes inv: "zoo_inv s" and fs: "zs_frames s = f # fs" "in_reconnect fs" and f: "f = In_completion p \<or> f = In_watcher p type"
    and p: "p \<in> set (zk_pending (zs_zk s))" "p \<notin> set (zs_flight s)"
    and keep: "\<And>p' P. p' \<noteq> p \<Longrightarrow> at (zs_zk s) p' P \<Longrightarrow> at zk p' P"
    and session: "zk_resuming zk = zk_resuming (zs_zk s)" "zk_handle zk = zk_handle (zs_zk s)" "zk_connecting zk = zk_connecting (zs_zk s)"
    and how: "zk_pending zk = zk_pending (zs_zk s) \<and> at zk p (\<lambda>q. read_operation (pd_op q) \<and> pd_zkc q = None) \<and>
          (p \<in> set (zs_armed s) \<longrightarrow> at zk p (\<lambda>q. watched q \<and> pd_zkc q = None)) \<or>
        zk_pending zk = remove1 p (zk_pending (zs_zk s)) \<and> p \<notin> set (zs_armed s)"
  shows "zoo_inv (s\<lparr>zs_zk := zk, zs_frames := fs\<rparr>)" (is "zoo_inv ?t")
proof -
  have d: "distinct (zk_pending (zs_zk s))" using inv by (simp add: zoo_inv_def pendings_ok_def)
  have pend: "set (zk_pending zk) - {p} = set (zk_pending (zs_zk s)) - {p}" using how d by auto
  have "pendings_ok ?t"
  proof -
    have "at zk x (\<lambda>q. read_operation (pd_op q))" if "x \<in> set (zk_pending zk)" for x
    proof (cases "x = p")
      case True
      then show ?thesis using how that d by (auto elim: at_mono)
    next
      case False
      then show ?thesis using that pend by (auto intro!: keep pending_live[OF inv])
    qed
    then show ?thesis using how d by (auto simp: pendings_ok_def)
  qed
  moreover have "flight_ok ?t"
  proof -
    have "at zk x (\<lambda>q. pd_zkc q \<noteq> None)" if "x \<in> set (zs_flight s)" for x
      using inv that p by (intro keep) (auto simp: zoo_inv_def flight_ok_def)
    moreover have "set (zs_flight s) \<subseteq> set (zk_pending (zs_zk s))" using inv by (simp add: zoo_inv_def flight_ok_def)
    ultimately show ?thesis using inv p pend by (auto simp: zoo_inv_def flight_ok_def)
  qed
  moreover have "armed_ok ?t"
  proof -
    have "at zk x (\<lambda>q. watched q \<and> (pd_zkc q = None \<or> In_completion x \<in> set fs))" if x: "x \<in> set (zs_armed s)" for x
    proof (cases "x = p")
      case True
      then show ?thesis using how x by (auto elim: at_mono)
    next
      case False
      then show ?thesis using keep[OF False armed_elsewhere[OF inv fs f x False]] by (auto elim: at_mono)
    qed
    moreover have "set (zs_armed s) \<subseteq> set (zk_pending zk) - set (zs_flight s)"
    proof -
      have "set (zs_armed s) \<subseteq> set (zk_pending (zs_zk s)) - set (zs_flight s)"
        using inv by (simp add: zoo_inv_def armed_ok_def)
      then show ?thesis using how pend by auto
    qed
    ultimately show ?thesis using inv by (simp add: zoo_inv_def armed_ok_def)
  qed
  moreover have "frames_ok ?t"
    using inv fs session by (auto simp: zoo_inv_def frames_ok_def in_reconnect_def frame_ok_def)
  moreover have "session_ok ?t" using inv session by (auto simp: zoo_inv_def session_ok_def)
  ultimately show ?thesis by (simp add: zoo_inv_def)
qed

lemma frames_tail: "zoo_inv s \<Longrightarrow> zs_frames s = f # fs \<Longrightarrow> f \<noteq> In_reconnect \<Longrightarrow> in_reconnect fs"
  by (auto simp: zoo_inv_def frames_ok_def in_reconnect_def)

lemma frame_of: "zoo_inv s \<Longrightarrow> zs_frames s = f # fs \<Longrightarrow> frame_ok s f"
  by (simp add: zoo_inv_def frames_ok_def)

lemma erased:
  assumes "pd_zkc q = None" "pd_zkw q = None" "\<not> pd_zkw_detached q" "p \<in> set (zk_pending zk)"
  shows "ErasePending p (zoo_put p q zk) = Fine (zoo_delete [p] ((zoo_put p q zk)\<lparr>zk_pending := remove1 p (zk_pending zk)\<rparr>))"
  using assms by (simp add: ErasePending_def zoo_put_def)

lemma inv_completion_ends:
  assumes inv: "zoo_inv s" and fs: "zs_frames s = In_completion p # fs"
  shows "\<exists>t. zoo_do Handler_returns s = Fine t \<and> zoo_inv t"
proof -
  have tl: "in_reconnect fs" using frames_tail[OF inv fs] by simp
  have p: "p \<in> set (zk_pending (zs_zk s))" "p \<notin> set (zs_flight s)"
    using frame_of[OF inv fs] by (auto simp: frame_ok_def)
  obtain q where q: "zk_heap (zs_zk s) p = Some q" "read_operation (pd_op q)"
    using pending_live[OF inv p(1)] by (auto simp: at_def)
  have armed: "p \<in> set (zs_armed s) \<longrightarrow> watched q"
    using inv q by (auto simp: zoo_inv_def armed_ok_def at_def)
  show ?thesis
  proof (cases "watched q")
    case True
    have "zoo_inv (s\<lparr>zs_zk := zoo_put p (clear_callback q) (zs_zk s), zs_frames := fs\<rparr>)"
      by (rule inv_handler_ends[OF inv fs tl _ p]) (use True q(2) in \<open>auto simp: at_put clear_callback_def watched_def\<close>)
    then show ?thesis using True fs q by (auto simp: completion_ends_def Let_def watched_def clear_callback_def)
  next
    case False
    then have "pd_zkw (clear_callback q) = None" "\<not> pd_zkw_detached (clear_callback q)" "pd_zkc (clear_callback q) = None"
      by (auto simp: watched_def clear_callback_def)
    then have e: "completion_ends False p (zs_zk s) =
        Fine (zoo_delete [p] ((zoo_put p (clear_callback q) (zs_zk s))\<lparr>zk_pending := remove1 p (zk_pending (zs_zk s))\<rparr>))"
      using p(1) q(1) by (simp add: completion_ends_def Let_def erased)
    have "zoo_inv (s\<lparr>zs_zk := zoo_delete [p] ((zoo_put p (clear_callback q) (zs_zk s))\<lparr>zk_pending := remove1 p (zk_pending (zs_zk s))\<rparr>), zs_frames := fs\<rparr>)"
      by (rule inv_handler_ends[OF inv fs tl _ p]) (use False armed in \<open>auto simp: at_put at_delete\<close>)
    then show ?thesis using fs e by simp
  qed
qed

lemma inv_watcher_ends:
  assumes inv: "zoo_inv s" and fs: "zs_frames s = In_watcher p type # fs"
  shows "\<exists>t. zoo_do Handler_returns s = Fine t \<and> zoo_inv t"
proof (cases "type = ZOO_SESSION_EVENT")
  case True
  have tl: "in_reconnect fs" using frames_tail[OF inv fs] by simp
  have "zoo_inv (s\<lparr>zs_frames := fs\<rparr>)"
    using inv fs tl by (auto simp: zoo_inv_defs in_reconnect_def frame_ok_def)
  then show ?thesis using True fs by (simp add: watcher_ends_def)
next
  case False
  have tl: "in_reconnect fs" using frames_tail[OF inv fs] by simp
  have p: "p \<in> set (zk_pending (zs_zk s))" "p \<notin> set (zs_flight s)" "p \<notin> set (zs_armed s)"
    and at: "at (zs_zk s) p (\<lambda>q. pd_zkc q = None)"
    using frame_of[OF inv fs] False by (auto simp: frame_ok_def)
  obtain q where q: "zk_heap (zs_zk s) p = Some q" "pd_zkc q = None" using at by (auto simp: at_def)
  let ?q = "clear_watcher q"
  have "pd_zkw ?q = None" "\<not> pd_zkw_detached ?q" "pd_zkc ?q = None" using q by (auto simp: clear_watcher_def)
  then have e: "watcher_ends p type (zs_zk s) =
        Fine (zoo_delete [p] ((zoo_put p ?q (zs_zk s))\<lparr>zk_pending := remove1 p (zk_pending (zs_zk s))\<rparr>))"
    using p(1) q(1) False by (simp add: watcher_ends_def erased)
  have "zoo_inv (s\<lparr>zs_zk := zoo_delete [p] ((zoo_put p ?q (zs_zk s))\<lparr>zk_pending := remove1 p (zk_pending (zs_zk s))\<rparr>), zs_frames := fs\<rparr>)"
    by (rule inv_handler_ends[OF inv fs tl _ p(1,2)]) (use p(3) in \<open>auto simp: at_put at_delete\<close>)
  then show ?thesis using fs e by simp
qed

lemma inv_resume_ends:
  assumes inv: "zoo_inv s" and fs: "zs_frames s = In_resume [] ps status # fs"
  shows "\<exists>t. zoo_do Handler_returns s = Fine t \<and> zoo_inv t"
proof -
  have fs0: "fs = []" using inv fs by (auto simp: zoo_inv_def frames_ok_def)
  have "set ps \<inter> set (zk_pending (zs_zk s)) = {}" using frame_of[OF inv fs] by (simp add: frame_ok_def)
  then have "zoo_inv (s\<lparr>zs_zk := zoo_delete ps (zs_zk s), zs_frames := []\<rparr>)"
    using inv fs fs0 unfolding zoo_inv_defs by (auto simp: at_delete in_reconnect_def)
  then show ?thesis using fs fs0 by simp
qed

lemma inv_handler_returns:
  assumes inv: "zoo_inv s" and may: "zoo_may Handler_returns s"
  shows "\<exists>t. zoo_do Handler_returns s = Fine t \<and> zoo_inv t"
proof -
  obtain f fs where fs: "zs_frames s = f # fs" using may by (cases "zs_frames s") auto
  then show ?thesis
  proof (cases f)
    case (In_resume todo ps status)
    then show ?thesis using may fs inv_resume_ends[OF inv] by (cases todo) auto
  next
    case In_reconnect
    then show ?thesis using inv fs by simp
  qed (use inv_completion_ends[OF inv] inv_watcher_ends[OF inv] fs in auto)
qed

lemma inv_tell: "zoo_inv s \<Longrightarrow> zoo_inv (s\<lparr>zs_zk := zoo_tell cs (zs_zk s)\<rparr>)"
proof -
  assume inv: "zoo_inv s"
  have "frame_ok (s\<lparr>zs_zk := zoo_tell cs (zs_zk s)\<rparr>) f = frame_ok s f" for f
    by (cases f) (simp_all add: frame_ok_def)
  then show ?thesis using inv
    by (simp add: zoo_inv_def pendings_ok_def flight_ok_def armed_ok_def frames_ok_def session_ok_def)
qed

text \<open>What the library delivers.\<close>

lemma complete_called:
  assumes q: "zk_heap zk p = Some q" "read_operation (pd_op q)" "pd_zkc q \<noteq> None"
  obtains cs where "complete p rc answer zk = Fine (True, zoo_tell cs zk)"
  using assms that
  by (auto simp: complete_def GlobalStatCompletion_def GlobalDataCompletion_def GlobalStringsStatCompletion_def
      watched_completion_def read_operation_def)

lemma inv_completion:
  assumes inv: "zoo_inv s" and may: "zoo_may (Completion p rc answer) s"
  shows "\<exists>t. zoo_do (Completion p rc answer) s = Fine t \<and> zoo_inv t"
proof -
  have p: "p \<in> set (zs_flight s)" and fs: "in_reconnect (zs_frames s)" using may by (auto simp: not_in_handler)
  then have pend: "p \<in> set (zk_pending (zs_zk s))" "p \<notin> set (zs_armed s)"
    using inv by (auto simp: zoo_inv_def flight_ok_def armed_ok_def)
  obtain q where q: "zk_heap (zs_zk s) p = Some q" "read_operation (pd_op q)" "pd_zkc q \<noteq> None"
    using pending_live[OF inv pend(1)] inv p by (auto simp: at_def zoo_inv_def flight_ok_def)
  obtain cs where c: "complete p rc answer (zs_zk s) = Fine (True, zoo_tell cs (zs_zk s))"
    using complete_called[OF q] by metis
  let ?s = "s\<lparr>zs_zk := zoo_tell cs (zs_zk s)\<rparr>"
  let ?armed = "if leaves_watch q rc then p # zs_armed s else zs_armed s"
  let ?t = "?s\<lparr>zs_flight := remove1 p (zs_flight s), zs_armed := ?armed, zs_frames := In_completion p # zs_frames s\<rparr>"
  have "distinct (zs_flight s)" using inv by (simp add: zoo_inv_def flight_ok_def)
  then have gone: "p \<notin> set (remove1 p (zs_flight s))" by simp
  have "pendings_ok ?t" using inv by (simp add: zoo_inv_def pendings_ok_def)
  moreover have "flight_ok ?t" using inv by (auto simp: zoo_inv_def flight_ok_def dest: set_remove1_subset[THEN subsetD])
  moreover have "armed_ok ?t"
  proof -
    have "at (zs_zk s) x (\<lambda>q. watched q \<and> (pd_zkc q = None \<or> In_completion x \<in> set (zs_frames ?t)))"
      if "x \<in> set (zs_armed s)" for x
    proof -
      have "at (zs_zk s) x (\<lambda>q. watched q \<and> (pd_zkc q = None \<or> In_completion x \<in> set (zs_frames s)))"
        using inv that by (simp add: zoo_inv_def armed_ok_def)
      then show ?thesis by (auto elim: at_mono)
    qed
    moreover have "at (zs_zk s) p watched" if "leaves_watch q rc"
      using that q(1) by (auto simp: at_def leaves_watch_def watched_def)
    moreover have "set (zs_armed s) \<subseteq> set (zk_pending (zs_zk s)) - set (zs_flight s)" "distinct (zs_armed s)"
      using inv by (auto simp: zoo_inv_def armed_ok_def)
    ultimately show ?thesis
      using pend gone by (auto simp: armed_ok_def dest: set_remove1_subset[THEN subsetD])
  qed
  moreover have "frames_ok ?t"
    using inv fs pend gone by (auto simp: zoo_inv_def frames_ok_def in_reconnect_def frame_ok_def)
  moreover have "session_ok ?t" using inv p by (auto simp: zoo_inv_def session_ok_def)
  ultimately have "zoo_inv ?t" by (simp add: zoo_inv_def)
  then show ?thesis using c q(1) by simp
qed

lemma inv_watch_fires:
  assumes inv: "zoo_inv s" and may: "zoo_may (Watch_fires p type state path) s"
  shows "\<exists>t. zoo_do (Watch_fires p type state path) s = Fine t \<and> zoo_inv t"
proof -
  have p: "p \<in> set (zs_armed s)" and fs: "in_reconnect (zs_frames s)" using may by (auto simp: not_in_handler)
  then have none: "In_completion p \<notin> set (zs_frames s)" by (auto simp: in_reconnect_def)
  have pend: "p \<in> set (zk_pending (zs_zk s))" "p \<notin> set (zs_flight s)" "distinct (zs_armed s)"
    using inv p by (auto simp: zoo_inv_def armed_ok_def)
  obtain q where q: "zk_heap (zs_zk s) p = Some q" "watched q" "pd_zkc q = None"
    using inv p none by (auto simp: at_def zoo_inv_def armed_ok_def)
  obtain cs where c: "GlobalWatcher p type state path (zs_zk s) = Fine (zoo_tell cs (zs_zk s))"
  proof (cases "pd_zkw_detached q")
    case True
    then show ?thesis using that[of "[]"] q by (simp add: GlobalWatcher_def zoo_tell_def)
  qed (use that q in \<open>auto simp: GlobalWatcher_def watched_def\<close>)
  let ?s = "s\<lparr>zs_zk := zoo_tell cs (zs_zk s)\<rparr>"
  let ?armed = "if type = ZOO_SESSION_EVENT then zs_armed s else remove1 p (zs_armed s)"
  let ?t = "?s\<lparr>zs_armed := ?armed, zs_frames := In_watcher p type # zs_frames s\<rparr>"
  have sub: "set ?armed \<subseteq> set (zs_armed s)" by (auto dest: set_remove1_subset[THEN subsetD])
  have "pendings_ok ?t" using inv by (simp add: zoo_inv_def pendings_ok_def)
  moreover have "flight_ok ?t" using inv by (simp add: zoo_inv_def flight_ok_def)
  moreover have "armed_ok ?t"
  proof -
    have "set (zs_armed s) \<subseteq> set (zk_pending (zs_zk s)) - set (zs_flight s)"
      "\<forall>x\<in>set (zs_armed s). at (zs_zk s) x (\<lambda>q. watched q \<and> (pd_zkc q = None \<or> In_completion x \<in> set (zs_frames s)))"
      using inv by (auto simp: zoo_inv_def armed_ok_def)
    then show ?thesis using sub pend(3) by (auto simp: armed_ok_def)
  qed
  moreover have "frames_ok ?t"
  proof -
    have "frame_ok ?t (In_watcher p type)" using pend q by (auto simp: frame_ok_def at_def)
    then show ?thesis using inv fs by (auto simp: zoo_inv_def frames_ok_def in_reconnect_def frame_ok_def)
  qed
  moreover have "session_ok ?t" using inv by (auto simp: zoo_inv_def session_ok_def)
  ultimately have "zoo_inv ?t" by (simp add: zoo_inv_def)
  then show ?thesis using c by simp
qed

text \<open>One more pending operation resumed.\<close>

lemma zk_frames_swap: "s\<lparr>zs_zk := zk, zs_frames := fs\<rparr> = s\<lparr>zs_frames := fs, zs_zk := zk\<rparr>"
  "s\<lparr>zs_zk := zk, zs_flight := fl, zs_frames := fs\<rparr> = s\<lparr>zs_frames := fs, zs_zk := zk, zs_flight := fl\<rparr>"
  by (cases s, simp)+

lemma inv_resume_frame:
  assumes inv: "zoo_inv s" and fs: "zs_frames s = [In_resume (p # todo) ps status]"
  shows "zoo_inv (s\<lparr>zs_frames := [In_resume todo ps status]\<rparr>)"
  using inv fs by (auto simp: zoo_inv_defs in_reconnect_def frame_ok_def)

lemma resume_one_fine:
  assumes q: "zk_heap zk p = Some q" "read_operation (pd_op q)"
  shows "(\<exists>b cs. resume_one status p' rc p zk = Fine (b, zoo_tell cs zk)) \<or>
    (\<exists>q'. read_operation (pd_op q') \<and> pd_zkc q' \<noteq> None \<and> resume_one status p' rc p zk = Fine (False, zoo_add p' q' zk))"
proof (cases "pd_zkc q")
  case None
  have "zk = zoo_tell [] zk" by (simp add: zoo_tell_def)
  then show ?thesis using q None by (auto simp: resume_one_def read_operation_def)
next
  case (Some c)
  have oper: "pd_op q \<in> {OP_EXISTS, OP_GET, OP_GETC}" using q(2) by (auto simp: read_operation_def)
  obtain err zk1 where r: "async_again (pd_op q) p' rc (Some (pd_path q)) (Some c) (pd_zkw q) zk = (err, zk1)" by fastforce
  have "resume_one status p' rc p zk = (if err = ZOK then Fine (False, zk1)
      else Fine (True, zoo_tell [To_callback c (pd_op q) ZSESSIONEXPIRED (pd_path q) (failed_answer (pd_op q))] zk1))"
    using q Some r by (simp add: resume_one_def read_operation_def)
  moreover from async_again_cases[OF oper r]
  have "err \<noteq> ZOK \<and> zk1 = zk \<or> err = ZOK \<and> (\<exists>q'. read_operation (pd_op q') \<and> pd_zkc q' \<noteq> None \<and> zk1 = zoo_add p' q' zk)"
    using q(2) by (metis option.distinct(1) zoo_pending.select_convs(1) zoo_pending.select_convs(4))
  ultimately show ?thesis by auto
qed

lemma inv_resume_next:
  assumes inv: "zoo_inv s" and may: "zoo_may (Resume_next p' rc) s"
  shows "\<exists>t. zoo_do (Resume_next p' rc) s = Fine t \<and> zoo_inv t"
proof -
  obtain p todo ps status fs where f: "zs_frames s = In_resume (p # todo) ps status # fs"
    using may by (auto split: list.splits zoo_frame.splits)
  then have fs: "zs_frames s = [In_resume (p # todo) ps status]" using inv by (auto simp: zoo_inv_def frames_ok_def)
  have fresh: "zk_heap (zs_zk s) p' = None" using may by simp
  have res: "\<not> zk_resuming (zs_zk s)" and "at (zs_zk s) p (\<lambda>q. read_operation (pd_op q))"
    using frame_of[OF inv f] by (auto simp: frame_ok_def)
  then obtain q where q: "zk_heap (zs_zk s) p = Some q" "read_operation (pd_op q)" by (auto simp: at_def)
  let ?s = "s\<lparr>zs_frames := [In_resume todo ps status]\<rparr>"
  have inv1: "zoo_inv ?s" by (rule inv_resume_frame[OF inv fs])
  from resume_one_fine[OF q, of status p' rc] show ?thesis
  proof
    assume "\<exists>b cs. resume_one status p' rc p (zs_zk s) = Fine (b, zoo_tell cs (zs_zk s))"
    then obtain b cs where r: "resume_one status p' rc p (zs_zk s) = Fine (b, zoo_tell cs (zs_zk s))" by blast
    then show ?thesis
      using inv_tell[OF inv1, of cs] fresh_unused[OF inv fresh] fs by (simp add: zk_frames_swap)
  next
    assume "\<exists>q'. read_operation (pd_op q') \<and> pd_zkc q' \<noteq> None \<and> resume_one status p' rc p (zs_zk s) = Fine (False, zoo_add p' q' (zs_zk s))"
    then obtain q' where r: "read_operation (pd_op q')" "pd_zkc q' \<noteq> None" "resume_one status p' rc p (zs_zk s) = Fine (False, zoo_add p' q' (zs_zk s))"
      by blast
    then show ?thesis
      using zoo_inv_add[OF inv1, of p' q' True] fresh res fs by (simp add: zk_frames_swap)
  qed
qed

section \<open>Nothing dangles\<close>

lemma zoo_step_fine:
  assumes inv: "zoo_inv s" and may: "zoo_may e s"
  shows "\<exists>t. zoo_do e s = Fine t \<and> zoo_inv t"
proof (cases e)
  case (Call_exists p rc path zkw)
  then show ?thesis using inv_syncs[OF inv may, of p rc path zkw] by simp
next
  case (Call_get p lib path data zkw)
  then show ?thesis using inv_syncs[OF inv may, of p _ path zkw lib data] by simp
next
  case (Call_get_children p rc strings path children zkw)
  then show ?thesis using inv_syncs[OF inv may, of p rc path zkw _ _ strings children] by simp
next
  case (Call_initialize init hosts timeout)
  then show ?thesis using inv_initialize[OF inv] by blast
next
  case (Call_async oper p rc path zkc zkw)
  then show ?thesis using inv_async[OF inv] may by blast
next
  case (Call_detach zkw zkc)
  then show ?thesis using inv_detach[OF inv] may by blast
next
  case Call_shutdown
  then show ?thesis using inv_shutdown[OF inv] by blast
next
  case (Shutdown_closes rc)
  then show ?thesis using inv_shutdown_closes[OF inv] may by blast
next
  case (Completion p rc answer)
  then show ?thesis using inv_completion[OF inv] may by blast
next
  case (Watch_fires p type state path)
  then show ?thesis using inv_watch_fires[OF inv] may by blast
next
  case Handler_returns
  then show ?thesis using inv_handler_returns[OF inv] may by blast
next
  case (Session_event state cid init status)
  then show ?thesis using inv_session_event[OF inv] may by blast
next
  case (Reconnect_closes init)
  then show ?thesis using inv_reconnect_closes[OF inv] may by blast
next
  case (Resume_next p' rc)
  then show ?thesis using inv_resume_next[OF inv] may by blast
qed

interpretation zoo: step_invariant zoo_step zoo_inv
proof (unfold_locales, elim zoo_step.cases)
  fix s t e s' t'
  assume "s = s'" "t = t'" "zoo_may e s'" "zoo_do e s' = Fine t'" "zoo_inv s"
  then show "zoo_inv t" using zoo_step_fine[of s' e] by auto
qed

lemma zoo_reachable_inv: "zoo_step\<^sup>*\<^sup>* new_zoo_system s \<Longrightarrow> zoo_inv s"
  using zoo.steps_keep[OF _ zoo_inv_new] by blast


text \<open>A run: a watched request is answered, the session is lost, and the new session takes the watch over.\<close>

definition tidy_run :: "zoo_event list" where
  "tidy_run = [Call_initialize (\<lambda>_ _ _. Inr 5) ''h'' 10000000000, Session_event ZOO_CONNECTED_STATE (Some 77) (\<lambda>_ _ _. Inl 0) 3,
     Call_async OP_GET 1 ZOK (Some ''/a'') (Some 8) (Some 9), Completion 1 ZOK (Value ''x''), Handler_returns,
     Session_event ZOO_EXPIRED_SESSION_STATE (Some 77) (\<lambda>_ _ _. Inl 0) 3, Reconnect_closes (\<lambda>_ _ _. Inr 6),
     Session_event ZOO_CONNECTED_STATE (Some 78) (\<lambda>_ _ _. Inl 0) 3, Resume_next 2 ZOK]"

fun zoo_may_all :: "zoo_event list \<Rightarrow> zoo_system \<Rightarrow> bool" where
  "zoo_may_all [] s = True"
| "zoo_may_all (e # es) s = (zoo_may e s \<and> (case zoo_do e s of Fine t \<Rightarrow> zoo_may_all es t | _ \<Rightarrow> False))"

lemma run_reachable: "zoo_may_all es s \<Longrightarrow> \<exists>t. zoo_run es s = Fine t \<and> zoo_step\<^sup>*\<^sup>* s t"
proof (induction es arbitrary: s)
  case Nil
  then show ?case by simp
next
  case (Cons e es)
  then obtain u where u: "zoo_do e s = Fine u" "zoo_may e s" "zoo_may_all es u" by (auto split: zoo_result.splits)
  then obtain t where "zoo_run es u = Fine t" "zoo_step\<^sup>*\<^sup>* u t" using Cons.IH by blast
  then show ?case using u by (auto intro: converse_rtranclp_into_rtranclp zoo_step.intros)
qed

lemmas zoo_eval = new_zoo_system_def new_zoo_def zoo_states zoo_events zoo_codes ZkInitialize_def ReconnectNolock_def ZkOnSession_def
  ZkOnConnected_def async_again_def AsyncGet_def AsyncExists_def AsyncGetChildren_def async_call_def rooted_def zoo_add_def complete_def
  GlobalDataCompletion_def GlobalStatCompletion_def GlobalStringsStatCompletion_def watched_completion_def zoo_tell_def
  leaves_watch_def completion_ends_def clear_callback_def zoo_put_def Reconnect_def reconnect_closed_def reconnect_rest_def
  resume_one_def forced_event_def failed_answer_def zoo_delete_def ErasePending_def ZkShutdown_def shutdown_closed_def
  GlobalWatcher_def watcher_ends_def clear_watcher_def detach_watcher_def ZkDetach_def

lemma tidy_run_ok: "zoo_may_all tidy_run new_zoo_system"
  by (simp add: tidy_run_def zoo_eval Let_def)


section \<open>A new session\<close>

text \<open>
  What \<open>ResumeSession\<close> owes the pending operation \<open>q\<close>: a request is made again if the library takes it, and its
  callback is told that the session expired otherwise; the watcher of an answered request is told of an event.
\<close>

definition made_again :: "zoo \<Rightarrow> zoo_pending \<Rightarrow> int \<Rightarrow> bool" where
  "made_again zk q rc \<longleftrightarrow> pd_zkc q \<noteq> None \<and> rc = ZOK \<and> zk_handle zk \<noteq> None \<and> rooted (Some (pd_path q))"

definition owed :: "zoo \<Rightarrow> int \<Rightarrow> zoo_pending \<Rightarrow> int \<Rightarrow> zoo_call list" where
  "owed zk status q rc = (case pd_zkc q of
      Some c \<Rightarrow> if made_again zk q rc then [] else [To_callback c (pd_op q) ZSESSIONEXPIRED (pd_path q) (failed_answer (pd_op q))]
    | None \<Rightarrow> (case pd_zkw q of
        Some w \<Rightarrow> if pd_zkw_detached q then [] else [To_watcher w (forced_event (pd_op q)) status (pd_path q)]
      | None \<Rightarrow> []))"

definition the_pending :: "zoo \<Rightarrow> nat \<Rightarrow> zoo_pending" where
  "the_pending zk p = the (zk_heap zk p)"

definition made :: "zoo \<Rightarrow> nat list \<Rightarrow> (nat \<times> int) list \<Rightarrow> (nat \<times> zoo_pending) list" where
  "made zk ps answers = concat (map2 (\<lambda>p (p', rc).
      if made_again zk (the_pending zk p) rc then [(p', (the_pending zk p)\<lparr>pd_zkw_detached := False\<rparr>)] else []) ps answers)"

lemma async_again_eq:
  assumes "read_operation (pd_op q)" and "pd_zkc q = Some c"
  shows "async_again (pd_op q) p' rc (Some (pd_path q)) (Some c) (pd_zkw q) zk =
    (if made_again zk q rc then (ZOK, zoo_add p' (q\<lparr>pd_zkw_detached := False\<rparr>) zk)
     else (if \<not> rooted (Some (pd_path q)) then ZBADARGUMENTS else if zk_handle zk = None then ZINVALIDSTATE else rc, zk))"
  using assms
  by (cases q) (auto simp: async_again_def AsyncGet_def AsyncExists_def AsyncGetChildren_def async_call_def made_again_def read_operation_def)

lemma resume_one_eq:
  assumes "zk_heap zk p = Some q" and "read_operation (pd_op q)"
  shows "\<exists>b. resume_one status p' rc p zk = Fine (b, zoo_tell (owed zk status q rc)
    (if made_again zk q rc then zoo_add p' (q\<lparr>pd_zkw_detached := False\<rparr>) zk else zk))"
proof (cases "pd_zkc q")
  case None
  then show ?thesis
    using assms by (cases "pd_zkw q") (auto simp: resume_one_def owed_def made_again_def read_operation_def zoo_tell_def)
next
  case (Some c)
  then show ?thesis
    using assms async_again_eq[OF assms(2) Some, of p' rc zk]
    by (auto simp: resume_one_def owed_def read_operation_def zoo_tell_def made_again_def zoo_codes)
qed

definition telling :: "zoo \<Rightarrow> int \<Rightarrow> nat list \<Rightarrow> (nat \<times> int) list \<Rightarrow> zoo_call list" where
  "telling zk status ps answers = concat (map2 (\<lambda>p (p', rc). owed zk status (the_pending zk p) rc) ps answers)"

lemma made_again_handle: "zk_handle zk1 = zk_handle zk \<Longrightarrow> made_again zk1 q rc = made_again zk q rc"
  by (simp add: made_again_def)

lemma owed_handle: "zk_handle zk1 = zk_handle zk \<Longrightarrow> owed zk1 status q rc = owed zk status q rc"
  by (simp add: owed_def made_again_handle[of zk1 zk] split: option.splits)

lemma made_rec [simp]:
  "made zk [] answers = []" "telling zk status [] answers = []"
  "made zk (p # ps) ((p', rc) # answers) =
    (if made_again zk (the_pending zk p) rc then [(p', (the_pending zk p)\<lparr>pd_zkw_detached := False\<rparr>)] else []) @ made zk ps answers"
  "telling zk status (p # ps) ((p', rc) # answers) = owed zk status (the_pending zk p) rc @ telling zk status ps answers"
  "made zk (p # ps) [] = []" "telling zk status (p # ps) [] = []"
  by (simp_all add: made_def telling_def)

lemma resume_same:
  assumes h: "zk_handle zk1 = zk_handle zk"
  shows "\<forall>x\<in>set ps. zk_heap zk1 x = zk_heap zk x \<Longrightarrow>
    made zk1 ps answers = made zk ps answers \<and> telling zk1 status ps answers = telling zk status ps answers"
proof (induction ps arbitrary: answers)
  case (Cons p ps)
  then show ?case
    by (cases answers) (auto simp: the_pending_def made_again_handle[OF h] owed_handle[OF h])
qed simp

lemma made_keys: "fst ` set (made zk ps answers) \<subseteq> set (map fst answers)"
proof (induction ps arbitrary: answers)
  case (Cons p ps)
  then show ?case by (cases answers) (auto, metis fst_conv image_eqI subsetD)
qed simp

lemma resume_loop_eq:
  assumes "\<forall>p\<in>set ps. at zk p (\<lambda>q. read_operation (pd_op q))" and "length answers = length ps" and "distinct (map fst answers)"
    and "\<forall>a\<in>set answers. zk_heap zk (fst a) = None"
  shows "\<exists>n zk'. resume_loop_zk status ps answers zk = Fine (n, zk') \<and>
    zk_calls zk' = zk_calls zk @ telling zk status ps answers \<and>
    zk_heap zk' = zk_heap zk ++ map_of (made zk ps answers) \<and>
    set (zk_pending zk') = set (zk_pending zk) \<union> fst ` set (made zk ps answers)"
  using assms
proof (induction ps arbitrary: answers zk)
  case Nil
  then show ?case by simp
next
  case (Cons p ps)
  obtain p' rc rest where a: "answers = (p', rc) # rest" using Cons.prems(2) by (cases answers) auto
  obtain q where q: "zk_heap zk p = Some q" "read_operation (pd_op q)" using Cons.prems(1) by (auto simp: at_def)
  have pq: "the_pending zk p = q" using q by (simp add: the_pending_def)
  let ?new = "(p', q\<lparr>pd_zkw_detached := False\<rparr>)"
  let ?zk = "zoo_tell (owed zk status q rc) (if made_again zk q rc then zoo_add p' (q\<lparr>pd_zkw_detached := False\<rparr>) zk else zk)"
  obtain b where one: "resume_one status p' rc p zk = Fine (b, ?zk)" using resume_one_eq[OF q] by blast
  have fresh: "zk_heap zk p' = None" "p' \<notin> set (map fst rest)" "\<forall>a\<in>set rest. zk_heap zk (fst a) = None"
    using Cons.prems a by auto
  have heap: "x \<noteq> p' \<Longrightarrow> zk_heap ?zk x = zk_heap zk x" for x by (simp add: zoo_add_def)
  have old: "x \<in> set ps \<Longrightarrow> x \<noteq> p'" for x using Cons.prems(1) fresh(1) by (auto simp: at_def)
  have "\<forall>p\<in>set ps. at ?zk p (\<lambda>q. read_operation (pd_op q))"
    using Cons.prems(1) old heap by (fastforce simp: at_def)
  moreover have "\<forall>a\<in>set rest. zk_heap ?zk (fst a) = None" using fresh heap by (metis image_eqI image_set)
  ultimately obtain n zk' where IH: "resume_loop_zk status ps rest ?zk = Fine (n, zk')"
    "zk_calls zk' = zk_calls ?zk @ telling ?zk status ps rest" "zk_heap zk' = zk_heap ?zk ++ map_of (made ?zk ps rest)"
    "set (zk_pending zk') = set (zk_pending ?zk) \<union> fst ` set (made ?zk ps rest)"
    using Cons.IH[of ?zk rest] Cons.prems a by auto
  have same: "made ?zk ps rest = made zk ps rest" "telling ?zk status ps rest = telling zk status ps rest"
    using resume_same[of ?zk zk ps rest status] heap old by (simp_all add: zoo_add_def)
  have hd: "made zk (p # ps) answers = (if made_again zk q rc then [?new] else []) @ made zk ps rest"
    "telling zk status (p # ps) answers = owed zk status q rc @ telling zk status ps rest"
    by (simp_all add: a pq)
  have sub: "fst ` set (made zk ps rest) \<subseteq> set (map fst rest)"
    by (rule made_keys)
  have "zk_heap ?zk ++ map_of (made zk ps rest) = zk_heap zk ++ map_of (made zk (p # ps) answers)"
  proof (cases "made_again zk q rc")
    case True
    have "p' \<notin> dom (map_of (made zk ps rest))" using sub fresh(2) by (auto simp: dom_map_of_conv_image_fst)
    then show ?thesis using True hd by (simp add: zoo_add_def map_add_upd_left)
  qed (simp add: hd)
  then show ?case
    using one IH same hd a by (auto simp: zoo_tell_def zoo_add_def set_insort_key)
qed

text \<open>
  C39. A new session accounts for every pending operation exactly once: requests in flight are made again or their
  callback is told that the session expired, watches are given an event, what has been detached is left
  alone; and the old objects are freed.
\<close>

theorem resume_accounts_for_pendings:
  assumes "\<forall>p\<in>set ps. \<exists>q. zk_heap zk p = Some q \<and> read_operation (pd_op q)" and "length answers = length ps"
    and "distinct (map fst answers)" and "\<forall>a\<in>set answers. zk_heap zk (fst a) = None"
  shows "\<exists>n zk'. ResumeSession status ps answers zk = Fine (n, zk') \<and>
    zk_calls zk' = zk_calls zk @ telling zk status ps answers \<and>
    (\<forall>p\<in>set ps. zk_heap zk' p = None) \<and>
    (\<forall>p. p \<notin> set ps \<longrightarrow> zk_heap zk' p = (zk_heap zk ++ map_of (made zk ps answers)) p) \<and>
    set (zk_pending zk') = set (zk_pending zk) \<union> fst ` set (made zk ps answers)"
proof -
  have "\<forall>p\<in>set ps. at zk p (\<lambda>q. read_operation (pd_op q))" using assms(1) by (simp add: at_def)
  from resume_loop_eq[OF this assms(2-4), of status] obtain n zk' where
    "resume_loop_zk status ps answers zk = Fine (n, zk')" "zk_calls zk' = zk_calls zk @ telling zk status ps answers"
    "zk_heap zk' = zk_heap zk ++ map_of (made zk ps answers)"
    "set (zk_pending zk') = set (zk_pending zk) \<union> fst ` set (made zk ps answers)"
    by auto
  then show ?thesis by (auto simp: ResumeSession_def zoo_delete_def)
qed

theorem resume_accounts_for_pendings_witness:
  "let q = \<lparr>pd_op = OP_GET, pd_path = ''/a'', pd_zkw = Some 9, pd_zkc = Some 8, pd_zkw_detached = False\<rparr>;
       w = \<lparr>pd_op = OP_GETC, pd_path = ''/b'', pd_zkw = Some 9, pd_zkc = None, pd_zkw_detached = False\<rparr>;
       zk = zoo_add 2 w (zoo_add 1 q (new_zoo\<lparr>zk_handle := Some 5\<rparr>))
   in \<exists>n zk'. ResumeSession 3 [1, 2] [(7, ZOK), (8, ZOK)] zk = Fine (n, zk') \<and>
     zk_calls zk' = [To_watcher 9 ZOO_CHILD_EVENT 3 ''/b''] \<and> zk_heap zk' 7 = Some q \<and> zk_heap zk' 1 = None"
proof -
  define q where "q = \<lparr>pd_op = OP_GET, pd_path = ''/a'', pd_zkw = Some 9, pd_zkc = Some 8, pd_zkw_detached = False\<rparr>"
  define w where "w = \<lparr>pd_op = OP_GETC, pd_path = ''/b'', pd_zkw = Some 9, pd_zkc = None, pd_zkw_detached = False\<rparr>"
  define zk where "zk = zoo_add 2 w (zoo_add 1 q (new_zoo\<lparr>zk_handle := Some 5\<rparr>))"
  have h: "zk_heap zk = [1 \<mapsto> q, 2 \<mapsto> w]" "zk_calls zk = []" "zk_handle zk = Some 5"
    by (simp_all add: zk_def zoo_add_def new_zoo_def)
  have "telling zk 3 [1, 2] [(7, ZOK), (8, ZOK)] = [To_watcher 9 ZOO_CHILD_EVENT 3 ''/b'']"
    "made zk [1, 2] [(7, ZOK), (8, ZOK)] = [(7, q)]"
    by (simp_all add: h owed_def made_again_def the_pending_def q_def w_def rooted_def forced_event_def)
  then have "\<exists>n zk'. ResumeSession 3 [1, 2] [(7, ZOK), (8, ZOK)] zk = Fine (n, zk') \<and>
     zk_calls zk' = [To_watcher 9 ZOO_CHILD_EVENT 3 ''/b''] \<and> zk_heap zk' 7 = Some q \<and> zk_heap zk' 1 = None"
    using resume_accounts_for_pendings[of "[1, 2]" zk "[(7, ZOK), (8, ZOK)]" 3]
    by (auto simp: h q_def w_def read_operation_def)
  then show ?thesis by (simp add: zk_def q_def w_def Let_def)
qed

section \<open>Outside the rules\<close>

text \<open>
  A request between a reconnect and the event that says the session is up, which the code accepts: the resumed
  session makes the request again and frees its first \<open>Pending\<close>, which the library still has.
\<close>

definition session_up :: "zoo_event list" where
  "session_up = [Call_initialize (\<lambda>_ _ _. Inr 5) ''h'' 10000000000,
     Session_event ZOO_CONNECTED_STATE (Some 77) (\<lambda>_ _ _. Inl 0) 3]"

definition session_lost :: "zoo_event list" where
  "session_lost = [Session_event ZOO_EXPIRED_SESSION_STATE (Some 77) (\<lambda>_ _ _. Inl 0) 3, Reconnect_closes (\<lambda>_ _ _. Inr 6)]"

theorem early_request_dangles:
  "zoo_run (session_up @ session_lost @
     [Call_async OP_GET 1 ZOK (Some ''/a'') (Some 8) None, Session_event ZOO_CONNECTED_STATE (Some 78) (\<lambda>_ _ _. Inl 0) 3,
      Resume_next 2 ZOK, Handler_returns, Completion 1 ZOK (Value ''x'')]) new_zoo_system = Use_after_free"
  by (simp add: session_up_def session_lost_def zoo_eval Let_def)

text \<open>\<open>Shutdown\<close> called by a completion frees the \<open>Pending\<close> the completion goes on to use.\<close>

lemma shutdown_in_callback_dangles:
  "zoo_run (session_up @ [Call_async OP_GET 1 ZOK (Some ''/a'') (Some 8) None, Completion 1 ZOK (Value ''x''),
     Call_shutdown, Shutdown_closes ZOK, Handler_returns]) new_zoo_system = Use_after_free"
  by (simp add: session_up_def zoo_eval Let_def)

text \<open>A callback that is detached while its request, without a watcher, is in flight: the completion aborts.\<close>

lemma detached_callback_aborts:
  assumes "zk_heap zk p = Some q" and "p \<in> set (zk_pending zk)" and "pd_zkc q = Some c" and "\<not> watched q"
  shows "GlobalDataCompletion p rc value (ZkDetach None (Some c) zk) = Assertion_fails"
  using assms by (simp add: GlobalDataCompletion_def watched_completion_def ZkDetach_def clear_callback_def watched_def)

text \<open>A request with a watcher and no callback that fails: the completion aborts, and \<open>exists\<close> of a missing node is one.\<close>

lemma watcher_only_aborts:
  assumes "zk_heap zk p = Some q" and "pd_op q = OP_EXISTS" and "pd_zkc q = None" and "pd_zkw q = Some w" and "\<not> pd_zkw_detached q"
  shows "GlobalStatCompletion p ZNONODE zk = Assertion_fails"
  using assms by (simp add: GlobalStatCompletion_def watched_completion_def ErasePending_def zoo_codes)

text \<open>
  \<open>Detach\<close> while a session is resumed does not find the operations still to come: the second watcher is told of
  its event although it has been detached.
\<close>

lemma detach_misses_resuming:
  "\<exists>s. zoo_run (session_up @
     [Call_exists 1 ZOK (Some ''/a'') (Some 8), Call_exists 2 ZOK (Some ''/b'') (Some 9)] @ session_lost @
     [Session_event ZOO_CONNECTED_STATE (Some 78) (\<lambda>_ _ _. Inl 0) 3, Resume_next 3 ZOK, Call_detach (Some 9) None,
      Resume_next 3 ZOK]) new_zoo_system = Fine s \<and> To_watcher 9 ZOO_CREATED_EVENT 3 ''/b'' \<in> set (zk_calls (zs_zk s))"
  by (simp add: session_up_def session_lost_def zoo_eval Let_def ZkExists_def sync_watch_def arm_def)

text \<open>
  A close that fails leaves the wrapper closing for good: \<open>Initialize\<close> then says that all is well and does
  nothing, and so does \<open>Shutdown\<close>, with the pending operations still there.
\<close>

lemma failed_close_wedges:
  assumes "ZkShutdown zk = Fine (Inl h, zk1)" and "rc \<noteq> ZOK" and "shutdown_closed rc zk1 = Fine (err, zk2)"
  shows "ZkInitialize init hosts timeout zk2 = Fine (ZOK, zk2)" "ZkShutdown zk2 = Fine (Inr ZOK, zk2)"
    "zk_handle zk2 = None" "zk_pending zk2 = zk_pending zk"
  using assms by (auto simp: ZkShutdown_def shutdown_closed_def ZkInitialize_def split: option.splits if_splits)

text \<open>\<open>Shutdown\<close> while \<open>Reconnect\<close> closes the old handle returns at once, and the session comes up again.\<close>

lemma shutdown_during_reconnect_ignored:
  "\<exists>s. zoo_run (session_up @ [Session_event ZOO_EXPIRED_SESSION_STATE (Some 77) (\<lambda>_ _ _. Inl 0) 3, Call_shutdown,
     Reconnect_closes (\<lambda>_ _ _. Inr 6)]) new_zoo_system = Fine s \<and> zk_handle (zs_zk s) = Some 6"
  by (simp add: session_up_def zoo_eval Let_def)

text \<open>A watched request that fails leaves its \<open>Pending\<close> behind: no watch is held, and nothing will free it.\<close>

lemma failed_request_leaks:
  "\<exists>s. zoo_run (session_up @ [Call_async OP_GET 1 ZOK (Some ''/a'') (Some 8) (Some 9), Completion 1 ZNONODE No_value,
     Handler_returns]) new_zoo_system = Fine s \<and> zk_pending (zs_zk s) = [1] \<and> zs_flight s = [] \<and> zs_armed s = [] \<and> zs_frames s = []"
  by (simp add: session_up_def zoo_eval Let_def)

text \<open>\<open>SetAcl\<close> without a session does not free the vector it has made; \<open>Create\<close> does.\<close>

lemma set_acl_leaks:
  assumes "rooted path" and "zk_handle zk = None" and "acl \<noteq> []"
  shows "zk_vectors (snd (ZkSetAcl lib path acl version zk)) = Suc (zk_vectors zk)"
    "zk_vectors (snd (snd (ZkCreate lib2 path data actual e sq acl zk))) = zk_vectors zk"
  using assms by (auto simp: ZkSetAcl_def ZkCreate_def vectors_of_def Let_def)

section \<open>Access control lists\<close>

lemma translate_entry_wf: "smap_wf m \<Longrightarrow> smap_wf (translate_entry a m)"
  by (simp add: translate_entry_def split: option.splits)

lemma translate_entry_find:
  assumes "smap_wf m"
  shows "smap_find (translate_entry a m) i =
    (if i = snd a then Some (case smap_find m i of Some perms \<Rightarrow> or perms (fst a) | None \<Rightarrow> fst a) else smap_find m i)"
  using assms by (auto simp: translate_entry_def split: option.splits)

lemma translate_fold_find:
  assumes "smap_wf m"
  shows "smap_find (fold translate_entry v m) i =
    (let ps = map fst (filter (\<lambda>a. snd a = i) v) in
     case smap_find m i of Some p \<Rightarrow> Some (fold (\<lambda>q acc. or acc q) ps p)
       | None \<Rightarrow> (case ps of [] \<Rightarrow> None | p # qs \<Rightarrow> Some (fold (\<lambda>q acc. or acc q) qs p)))"
  using assms
  by (induction v arbitrary: m) (auto simp: translate_entry_find translate_entry_wf Let_def split: option.splits list.splits)

lemma translate_out_in: "smap_wf acl \<Longrightarrow> Translate_in (Translate_out acl) = acl"
proof (induction acl rule: rev_induct)
  case Nil
  then show ?case by (simp add: Translate_in_def Translate_out_def)
next
  case (snoc a acl)
  obtain i perms where a: "a = (i, perms)" by (cases a)
  have wf: "smap_wf acl" and less: "\<forall>k\<in>fst ` set acl. k < i"
    using snoc.prems a by (auto simp: smap_wf_def sorted_wrt_append)
  have "smap_find acl i = None" using less by (auto simp: smap_find_None)
  moreover have "takeWhile (\<lambda>e. fst e < i) acl = acl" "dropWhile (\<lambda>e. fst e \<le> i) acl = []"
    using less by (auto simp: takeWhile_eq_all_conv dropWhile_eq_Nil_conv order.strict_implies_order)
  ultimately have "translate_entry (perms, i) acl = acl @ [(i, perms)]"
    by (simp add: translate_entry_def smap_insert_def smap_put_def)
  then show ?case using snoc.IH[OF wf] a by (simp add: Translate_in_def Translate_out_def)
qed

text \<open>
  The list that comes from the library: an identity has the union of the permissions of its entries; and what
  goes to the library comes back the same.
\<close>

theorem acl_translates:
  "smap_find (Translate_in v) i =
      (case map fst (filter (\<lambda>a. snd a = i) v) of [] \<Rightarrow> None | p # qs \<Rightarrow> Some (fold (\<lambda>q acc. or acc q) qs p)) \<and>
    (smap_wf acl \<longrightarrow> Translate_in (Translate_out acl) = acl)"
  using translate_fold_find[OF smap_wf_Nil, of v i] translate_out_in[of acl]
  by (simp add: Translate_in_def Let_def)

theorem acl_translates_witness:
  "Translate_in (Translate_out [((''ip'', ''10''), 3), ((''world'', ''anyone''), 31)]) = [((''ip'', ''10''), 3), ((''world'', ''anyone''), 31 :: 32 word)]"
proof -
  have "smap_wf [((''ip'', ''10''), 3), ((''world'', ''anyone''), 31 :: 32 word)]"
    by (simp add: smap_wf_def less_char_def)
  then show ?thesis using acl_translates[of "[]" "([], [])" "[((''ip'', ''10''), 3), ((''world'', ''anyone''), 31)]"] by blast
qed

end
