(* ===== verification/Zk_Tracker.thy ===== *)
theory Zk_Tracker
  imports Zoo_Keeper
begin

text \<open>
  \<open>flinter/zookeeper/zookeeper_tracker.cpp\<close>: callbacks that are told of the data and of the children of nodes,
  kept up to date by a watch after each request. A callback is a number. What the object \<open>ZooKeeper\<close> answers
  during an operation is its argument: the state of the session, and the result of each kind of request; the
  requests that were taken go to \<open>zt_sent\<close>. User code is called after the mutex is released, from a copy of the
  tracks: the calls are recorded in \<open>zt_told\<close>.
\<close>

section \<open>State\<close>

record tracking =
  tk_cb :: nat
  tk_data :: bool
  tk_children :: bool
  tk_cancel_on_missing :: bool
  tk_null :: bool

datatype tracking_call =
    Told_error nat int "string option"
  | Told_data nat string "string option"
  | Told_children nat string "string list option"

record tracker =
  zt_zk :: bool
  zt_tracks :: "(string \<times> tracking) list"
  zt_exists :: "string list"
  zt_data :: "string list"
  zt_children :: "string list"
  zt_error_has_broadcasted :: bool
  zt_sent :: "(zoo_operation \<times> string) list"
  zt_told :: "tracking_call list"

definition new_tracker :: tracker where
  "new_tracker = \<lparr>zt_zk = False, zt_tracks = [], zt_exists = [], zt_data = [], zt_children = [],
     zt_error_has_broadcasted = False, zt_sent = [], zt_told = []\<rparr>"

text \<open>
  \<open>equal_range\<close> of the multimap gives the entries of a key. The
  callbacks of a range are collected in a set of pointers, which orders them.
\<close>

definition track_range :: "string \<Rightarrow> (string \<times> tracking) list \<Rightarrow> tracking list" where
  "track_range path m = map snd (filter (\<lambda>e. fst e = path) m)"

definition callbacks_of :: "tracking list \<Rightarrow> nat list" where
  "callbacks_of ts = sort (remdups (map tk_cb ts))"

definition track_tell :: "tracking_call list \<Rightarrow> tracker \<Rightarrow> tracker" where
  "track_tell cs t = t\<lparr>zt_told := zt_told t @ cs\<rparr>"

section \<open>Requests\<close>

record tracker_zk =
  tz_state :: int
  tz_answer :: "zoo_operation \<Rightarrow> int"

text \<open>A request of a kind, unless one is outstanding: \<open>None\<close> then.\<close>

definition send :: "tracker_zk \<Rightarrow> zoo_operation \<Rightarrow> string \<Rightarrow> string list \<Rightarrow> int option" where
  "send z oper path outstanding = (if path \<in> set outstanding then None else Some (tz_answer z oper))"

definition get_children_part :: "tracker_zk \<Rightarrow> string \<Rightarrow> bool \<Rightarrow> tracker \<Rightarrow> int \<times> tracker" where
  "get_children_part z path creq t =
    (if \<not> creq then (ZOK, t)
     else (case send z OP_GETC path (zt_children t) of
         None \<Rightarrow> (ZOK, t)
       | Some err \<Rightarrow> if err \<noteq> ZOK then (err, t)
           else (ZOK, t\<lparr>zt_children := path # zt_children t, zt_sent := zt_sent t @ [(OP_GETC, path)]\<rparr>)))"

definition TkGet :: "tracker_zk \<Rightarrow> string \<Rightarrow> bool \<Rightarrow> bool \<Rightarrow> bool \<Rightarrow> tracker \<Rightarrow> int \<times> tracker" where
  "TkGet z path dreq creq exist_first t =
    (if \<not> zt_zk t then (ZINVALIDSTATE, t)
     else if tz_state z \<noteq> ZOO_CONNECTED_STATE then (ZINVALIDSTATE, t)
     else if exist_first then
       (case send z OP_EXISTS path (zt_exists t) of
          None \<Rightarrow> (ZOK, t)
        | Some err \<Rightarrow> if err \<noteq> ZOK then (err, t)
            else (ZOK, t\<lparr>zt_exists := path # zt_exists t, zt_sent := zt_sent t @ [(OP_EXISTS, path)]\<rparr>))
     else if dreq then
       (case send z OP_GET path (zt_data t) of
          None \<Rightarrow> (ZOK, t)
        | Some err \<Rightarrow> if err \<noteq> ZOK then (err, t)
            else get_children_part z path creq (t\<lparr>zt_data := path # zt_data t, zt_sent := zt_sent t @ [(OP_GET, path)]\<rparr>))
     else get_children_part z path creq t)"

text \<open>The loop of \<open>ProcessNolock\<close>, which ends when both are needed.\<close>

fun track_needs :: "bool \<Rightarrow> tracking list \<Rightarrow> bool \<Rightarrow> bool \<Rightarrow> bool \<times> bool" where
  "track_needs erased [] dneed cneed = (dneed, cneed)"
| "track_needs erased (t # ts) dneed cneed =
    (if erased \<and> tk_cancel_on_missing t then track_needs erased ts dneed cneed
     else let dneed' = (dneed \<or> tk_data t) in
       if tk_data t \<and> cneed then (dneed', cneed)
       else let cneed' = (cneed \<or> tk_children t) in
         if tk_children t \<and> dneed' then (dneed', cneed')
         else track_needs erased ts dneed' cneed')"

definition ProcessNolock :: "tracker_zk \<Rightarrow> string \<Rightarrow> bool \<Rightarrow> bool \<Rightarrow> bool \<Rightarrow> tracker \<Rightarrow> int \<times> tracker" where
  "ProcessNolock z path dreq creq erased t =
    (let (d, c) = track_needs erased (track_range path (zt_tracks t)) False False;
         dneed = (d \<and> dreq); cneed = (c \<and> creq)
     in if \<not> dneed \<and> \<not> cneed then (ZOK, t) else TkGet z path dneed cneed erased t)"

definition NotifyError :: "(string \<times> tracking) list \<Rightarrow> string \<Rightarrow> int \<Rightarrow> tracker \<Rightarrow> tracker" where
  "NotifyError tracks path err =
    track_tell (map (\<lambda>cb. Told_error cb err (Some path)) (callbacks_of (track_range path tracks)))"

definition NotifyNull :: "(string \<times> tracking) list \<Rightarrow> string \<Rightarrow> tracker \<Rightarrow> tracker" where
  "NotifyNull tracks path = track_tell
    (map (\<lambda>cb. Told_data cb path None) (callbacks_of (filter tk_data (track_range path tracks))) @
     map (\<lambda>cb. Told_children cb path None) (callbacks_of (filter tk_children (track_range path tracks))))"

section \<open>Operations of users\<close>

definition TkInitialize :: "bool \<Rightarrow> tracker \<Rightarrow> bool \<times> tracker" where
  "TkInitialize zk t =
    (if zt_zk t \<or> \<not> zk then (False, t) else (True, t\<lparr>zt_zk := True, zt_error_has_broadcasted := False\<rparr>))"

text \<open>What the detaching of the watcher does is in \<open>library_does\<close>.\<close>

definition TkShutdown :: "tracker \<Rightarrow> tracker" where
  "TkShutdown t =
    (if \<not> zt_zk t then t
     else t\<lparr>zt_children := [], zt_tracks := [], zt_exists := [], zt_data := [], zt_zk := False\<rparr>)"

definition CancelNolock :: "string \<Rightarrow> nat option \<Rightarrow> tracker \<Rightarrow> tracker" where
  "CancelNolock path cb t = t\<lparr>zt_tracks :=
     filter (\<lambda>e. \<not> (fst e = path \<and> (case cb of None \<Rightarrow> True | Some c \<Rightarrow> c = tk_cb (snd e)))) (zt_tracks t)\<rparr>"

definition TkCancel :: "string option \<Rightarrow> nat option \<Rightarrow> tracker \<Rightarrow> tracker" where
  "TkCancel path cb t = (if rooted path then CancelNolock (the path) cb t else t)"

text \<open>The loop over the tracks of the path, which ends when both are covered.\<close>

fun track_covered :: "nat \<Rightarrow> bool \<Rightarrow> bool \<Rightarrow> tracking list \<Rightarrow> bool \<Rightarrow> bool \<Rightarrow> bool \<times> bool" where
  "track_covered cb data children [] dc cc = (dc, cc)"
| "track_covered cb data children (t # ts) dc cc =
    (if cb \<noteq> tk_cb t then track_covered cb data children ts dc cc
     else let d = (\<not> data \<or> tk_data t); dc' = (dc \<or> d) in
       if d \<and> cc then (dc', cc)
       else let c = (\<not> children \<or> tk_children t); cc' = (cc \<or> c) in
         if c \<and> dc' then (dc', cc') else track_covered cb data children ts dc' cc')"

definition DoTrack :: "tracker_zk \<Rightarrow> string option \<Rightarrow> bool \<Rightarrow> bool \<Rightarrow> bool \<Rightarrow> bool \<Rightarrow> nat option \<Rightarrow> tracker \<Rightarrow> bool \<times> tracker" where
  "DoTrack z path track_data track_children notify_missing cancel_on_missing cb t =
    (if \<not> rooted path \<or> cb = None then (False, t)
     else if \<not> track_data \<and> \<not> track_children then (False, t)
     else if \<not> zt_zk t then (False, t)
     else let p = the path; c = the cb;
              (dc, cc) = track_covered c track_data track_children (track_range p (zt_tracks t)) False False
       in if dc \<and> cc then (True, t)
          else let new = \<lparr>tk_cb = c, tk_data = track_data, tk_children = track_children,
                   tk_cancel_on_missing = cancel_on_missing, tk_null = notify_missing\<rparr>;
                   (ret, t1) = ProcessNolock z p True True False (t\<lparr>zt_tracks := mmap_insert p new (zt_tracks t)\<rparr>)
            in if ret = ZOK then (True, t1)
               else let t2 = CancelNolock p (Some c) t1 in (False, NotifyError (zt_tracks t2) p ret t2))"

definition TkTrack :: "tracker_zk \<Rightarrow> string option \<Rightarrow> bool \<Rightarrow> bool \<Rightarrow> bool \<Rightarrow> nat option \<Rightarrow> tracker \<Rightarrow> bool \<times> tracker" where
  "TkTrack z path track_data track_children notify_missing cb =
    DoTrack z path track_data track_children notify_missing False cb"

definition TkTrackExisting :: "tracker_zk \<Rightarrow> string option \<Rightarrow> bool \<Rightarrow> bool \<Rightarrow> nat option \<Rightarrow> tracker \<Rightarrow> bool \<times> tracker" where
  "TkTrackExisting z path track_data track_children cb = DoTrack z path track_data track_children True True cb"

definition ClearErrorState :: "tracker \<Rightarrow> tracker" where
  "ClearErrorState t = t\<lparr>zt_error_has_broadcasted := False\<rparr>"

section \<open>Events\<close>

definition process_session :: "int \<Rightarrow> tracker \<Rightarrow> bool \<times> tracker" where
  "process_session state t =
    (if state = ZOO_CONNECTED_STATE then (True, t)
     else if state = ZOO_CONNECTING_STATE \<or> state = ZOO_ASSOCIATING_STATE then (True, t)
     else let err = (if state = ZOO_EXPIRED_SESSION_STATE then ZSESSIONEXPIRED else ZAUTHFAILED) in
       if zt_error_has_broadcasted t then (False, t)
       else (False, track_tell (map (\<lambda>cb. Told_error cb err None) (callbacks_of (map snd (zt_tracks t))))
          (t\<lparr>zt_error_has_broadcasted := True\<rparr>)))"

definition process_path :: "tracker_zk \<Rightarrow> string \<Rightarrow> bool \<Rightarrow> bool \<Rightarrow> bool \<Rightarrow> tracker \<Rightarrow> bool \<times> tracker" where
  "process_path z path dreq creq erased t =
    (let (ret, t1) = ProcessNolock z path dreq creq erased t in
     if ret = ZOK then (True, if erased then NotifyNull (zt_tracks t1) path t1 else t1)
     else (False, NotifyError (zt_tracks t1) path ret t1))"

text \<open>The methods of the watcher.\<close>

definition tracker_watch :: "tracker_zk \<Rightarrow> int \<Rightarrow> int \<Rightarrow> string \<Rightarrow> tracker \<Rightarrow> tracker" where
  "tracker_watch z type state path t = (case ZkOnEvent type of
      Session \<Rightarrow> snd (process_session state t)
    | Erased \<Rightarrow> snd (process_path z path True True True t)
    | Created \<Rightarrow> snd (process_path z path True True False t)
    | Changed \<Rightarrow> snd (process_path z path True False False t)
    | Child \<Rightarrow> snd (process_path z path False True False t)
    | _ \<Rightarrow> t)"

text \<open>A node is missing: the callbacks that track it while it exists are cancelled.\<close>

definition cancel_missing :: "string \<Rightarrow> tracker \<Rightarrow> tracker" where
  "cancel_missing path t =
    fold (\<lambda>k t. CancelNolock path (Some (tk_cb k)) t) (filter tk_cancel_on_missing (track_range path (zt_tracks t))) t"

definition TkOnExists :: "tracker_zk \<Rightarrow> int \<Rightarrow> string \<Rightarrow> tracker \<Rightarrow> tracker" where
  "TkOnExists z rc path t =
    (let t0 = t\<lparr>zt_exists := removeAll path (zt_exists t)\<rparr>;
         (rc1, t1) = (if rc = ZOK then ProcessNolock z path True True False t0 else (rc, t0))
     in if rc = ZOK \<and> rc1 = ZOK then t1
        else if rc1 \<noteq> ZNONODE then NotifyError (zt_tracks t1) path rc1 t1
        else cancel_missing path t1)"

text \<open>What \<open>OnGet\<close> and \<open>OnGetChildren\<close> share: the node is missing, or the request failed.\<close>

definition tracked_failure :: "tracker_zk \<Rightarrow> int \<Rightarrow> string \<Rightarrow> tracker \<Rightarrow> tracker" where
  "tracked_failure z rc path t =
    (if rc = ZNONODE then
       let (rc1, t1) = ProcessNolock z path True True True t in
       if rc1 = ZOK then NotifyNull (zt_tracks t) path t1 else NotifyError (zt_tracks t) path rc1 t1
     else NotifyError (zt_tracks t) path rc t)"

definition TkOnGet :: "tracker_zk \<Rightarrow> int \<Rightarrow> string \<Rightarrow> string \<Rightarrow> tracker \<Rightarrow> tracker" where
  "TkOnGet z rc path data t =
    (let t0 = t\<lparr>zt_data := removeAll path (zt_data t)\<rparr> in
     if rc \<noteq> ZOK then tracked_failure z rc path t0
     else track_tell (map (\<lambda>cb. Told_data cb path (Some data)) (callbacks_of (filter tk_data (track_range path (zt_tracks t0))))) t0)"

definition TkOnGetChildren :: "tracker_zk \<Rightarrow> int \<Rightarrow> string \<Rightarrow> string list \<Rightarrow> tracker \<Rightarrow> tracker" where
  "TkOnGetChildren z rc path children t =
    (let t0 = t\<lparr>zt_children := removeAll path (zt_children t)\<rparr> in
     if rc \<noteq> ZOK then tracked_failure z rc path t0
     else track_tell (map (\<lambda>cb. Told_children cb path (Some children))
       (callbacks_of (filter tk_children (track_range path (zt_tracks t0))))) t0)"

section \<open>Runs\<close>

text \<open>
  A tracker with what \<open>ZooKeeper\<close> does for it: \<open>ts_flight\<close> are the requests it has not completed, \<open>ts_armed\<close> the
  watches it holds (a request leaves one when it succeeds, \<open>exists\<close> also when the node is missing), and
  \<open>ts_failed\<close> the callbacks that have been told of an error of a node since they last began to track it.
\<close>

record tracker_system =
  ts_tracker :: tracker
  ts_flight :: "(zoo_operation \<times> string) list"
  ts_armed :: "(zoo_operation \<times> string) list"
  ts_failed :: "(nat \<times> string) list"

definition new_tracker_system :: tracker_system where
  "new_tracker_system = \<lparr>ts_tracker = new_tracker, ts_flight = [], ts_armed = [], ts_failed = []\<rparr>"

datatype tracker_event =
    Tk_initialize bool
  | Tk_shutdown
  | Tk_track tracker_zk "string option" bool bool bool bool "nat option"
  | Tk_cancel "string option" "nat option"
  | Tk_clear
  | Tk_session int
  | Tk_watch tracker_zk zoo_operation int int string
  | Tk_completed tracker_zk zoo_operation int string string "string list"

fun tracker_do :: "tracker_event \<Rightarrow> tracker \<Rightarrow> tracker" where
  "tracker_do (Tk_initialize zk) t = snd (TkInitialize zk t)"
| "tracker_do Tk_shutdown t = TkShutdown t"
| "tracker_do (Tk_track z path d c n m cb) t = snd (DoTrack z path d c n m cb t)"
| "tracker_do (Tk_cancel path cb) t = TkCancel path cb t"
| "tracker_do Tk_clear t = ClearErrorState t"
| "tracker_do (Tk_session state) t = snd (process_session state t)"
| "tracker_do (Tk_watch z oper type state path) t = tracker_watch z type state path t"
| "tracker_do (Tk_completed z oper rc path data children) t =
    (if oper = OP_EXISTS then TkOnExists z rc path t
     else if oper = OP_GET then TkOnGet z rc path data t
     else TkOnGetChildren z rc path children t)"

text \<open>The events a watch of each kind of request can have.\<close>

definition watch_types :: "zoo_operation \<Rightarrow> int list" where
  "watch_types oper =
    (if oper = OP_EXISTS then [ZOO_CREATED_EVENT, ZOO_DELETED_EVENT, ZOO_CHANGED_EVENT]
     else if oper = OP_GET then [ZOO_CHANGED_EVENT, ZOO_DELETED_EVENT]
     else [ZOO_CHILD_EVENT, ZOO_DELETED_EVENT])"

fun tracker_may :: "tracker_event \<Rightarrow> tracker_system \<Rightarrow> bool" where
  "tracker_may (Tk_initialize zk) s = (ts_flight s = [])"
| "tracker_may (Tk_watch z oper type state path) s = ((oper, path) \<in> set (ts_armed s) \<and> type \<in> set (watch_types oper))"
| "tracker_may (Tk_completed z oper rc path data children) s = ((oper, path) \<in> set (ts_flight s))"
| "tracker_may _ s = True"

fun library_does :: "tracker_event \<Rightarrow> tracker_system \<Rightarrow> tracker_system" where
  "library_does (Tk_watch z oper type state path) s = s\<lparr>ts_armed := remove1 (oper, path) (ts_armed s)\<rparr>"
| "library_does (Tk_completed z oper rc path data children) s = s\<lparr>ts_flight := remove1 (oper, path) (ts_flight s),
     ts_armed := (if rc = ZOK \<or> (oper = OP_EXISTS \<and> rc = ZNONODE) then (oper, path) # ts_armed s else ts_armed s)\<rparr>"
| "library_does Tk_shutdown s = (if zt_zk (ts_tracker s) then s\<lparr>ts_armed := []\<rparr> else s)"
| "library_does _ s = s"

definition began :: "tracker_event \<Rightarrow> tracker \<Rightarrow> tracker \<Rightarrow> nat \<times> string \<Rightarrow> bool" where
  "began e t t' k \<longleftrightarrow> (case e of
      Tk_track z path d c n m cb \<Rightarrow> Some (fst k) = cb \<and> Some (snd k) = path \<and> zt_tracks t' \<noteq> zt_tracks t
    | _ \<Rightarrow> False)"

definition told_errors :: "tracking_call list \<Rightarrow> (nat \<times> string) list" where
  "told_errors cs = concat (map (\<lambda>c. case c of Told_error cb err (Some path) \<Rightarrow> [(cb, path)] | _ \<Rightarrow> []) cs)"

definition tracker_next :: "tracker_event \<Rightarrow> tracker_system \<Rightarrow> tracker_system" where
  "tracker_next e s =
    (let t = (ts_tracker s)\<lparr>zt_sent := [], zt_told := []\<rparr>; t' = tracker_do e t; s' = library_does e s in
     s'\<lparr>ts_tracker := t', ts_flight := ts_flight s' @ zt_sent t',
       ts_failed := filter (\<lambda>k. \<not> began e t t' k) (ts_failed s') @ told_errors (zt_told t')\<rparr>)"

inductive tracker_step :: "tracker_system \<Rightarrow> tracker_system \<Rightarrow> bool" where
  tracker_step: "tracker_may e s \<Longrightarrow> tracker_step s (tracker_next e s)"

end
