(* ===== verification/Zk_Tracker_Correct.thy ===== *)
theory Zk_Tracker_Correct
  imports Zk_Tracker
begin

text \<open>
  Properties of \<open>Zk_Tracker\<close>: a request of a kind is never outstanding twice for a node, a callback that tracks
  the data of a node never loses it silently, and the cases in which the code does lose a node.
\<close>

section \<open>Loops\<close>

lemma track_needs_eq: "track_needs erased ts d c =
   (d \<or> (\<exists>t\<in>set ts. \<not> (erased \<and> tk_cancel_on_missing t) \<and> tk_data t),
    c \<or> (\<exists>t\<in>set ts. \<not> (erased \<and> tk_cancel_on_missing t) \<and> tk_children t))"
  by (induction erased ts d c rule: track_needs.induct) (auto simp: Let_def)

lemma track_covered_eq: "track_covered cb data children ts dc cc =
   (dc \<or> (\<exists>t\<in>set ts. tk_cb t = cb \<and> (data \<longrightarrow> tk_data t)), cc \<or> (\<exists>t\<in>set ts. tk_cb t = cb \<and> (children \<longrightarrow> tk_children t)))"
  by (induction cb data children ts dc cc rule: track_covered.induct) (auto simp: Let_def)

lemma set_track_range: "k \<in> set (track_range p m) \<longleftrightarrow> (p, k) \<in> set m"
  by (force simp: track_range_def)

lemma set_callbacks_of [simp]: "set (callbacks_of ts) = tk_cb ` set ts"
  by (simp add: callbacks_of_def)

section \<open>What an operation sends\<close>

definition marked :: "tracker \<Rightarrow> (zoo_operation \<times> string) set" where
  "marked t = Pair OP_EXISTS ` set (zt_exists t) \<union> Pair OP_GET ` set (zt_data t) \<union> Pair OP_GETC ` set (zt_children t)"

text \<open>From \<open>t\<close> to \<open>t'\<close> nothing is sent that is outstanding, all that is sent is marked, and only then.\<close>

definition sends :: "tracker \<Rightarrow> tracker \<Rightarrow> bool" where
  "sends t t' \<longleftrightarrow> (\<exists>new. zt_sent t' = zt_sent t @ new \<and> distinct new \<and> set new \<inter> marked t = {} \<and>
     marked t' = marked t \<union> set new \<and> zt_zk t' = zt_zk t \<and> (zt_zk t \<or> new = []))"

lemma sends_refl: "zt_sent t' = zt_sent t \<Longrightarrow> marked t' = marked t \<Longrightarrow> zt_zk t' = zt_zk t \<Longrightarrow> sends t t'"
  by (auto simp: sends_def)

lemma sends_trans: "sends t u \<Longrightarrow> sends u v \<Longrightarrow> sends t v"
  unfolding sends_def by (elim exE conjE) (rule exI, auto)

lemma get_children_sends: "zt_zk t \<Longrightarrow> get_children_part z path creq t = (r, t') \<Longrightarrow> sends t t'"
  by (auto simp: get_children_part_def send_def sends_def marked_def split: if_splits)

lemma get_children_keeps:
  "get_children_part z path creq t = (r, t') \<Longrightarrow>
    zt_tracks t' = zt_tracks t \<and> zt_told t' = zt_told t \<and> zt_zk t' = zt_zk t \<and> marked t \<subseteq> marked t'"
  by (auto simp: get_children_part_def send_def marked_def split: if_splits)

lemma get_sends:
  assumes "TkGet z path dreq creq exist_first t = (r, t')"
  shows "sends t t'"
proof (cases "zt_zk t \<and> tz_state z = ZOO_CONNECTED_STATE")
  case False
  then show ?thesis using assms by (auto simp: TkGet_def sends_refl split: if_splits)
next
  case True
  show ?thesis
  proof (cases "exist_first \<or> \<not> dreq \<or> path \<in> set (zt_data t) \<or> tz_answer z OP_GET \<noteq> ZOK")
    case True
    then show ?thesis
      using assms \<open>zt_zk t \<and> _\<close> get_children_sends
      by (auto simp: TkGet_def send_def sends_def marked_def split: if_splits)
  next
    case False
    let ?t = "t\<lparr>zt_data := path # zt_data t, zt_sent := zt_sent t @ [(OP_GET, path)]\<rparr>"
    have "sends t ?t" using False True by (auto simp: sends_def marked_def)
    moreover have "sends ?t t'"
      using assms True False by (intro get_children_sends[of ?t z path creq r]) (auto simp: TkGet_def send_def split: if_splits)
    ultimately show ?thesis by (rule sends_trans)
  qed
qed

lemma get_keeps:
  "TkGet z path dreq creq exist_first t = (r, t') \<Longrightarrow> zt_tracks t' = zt_tracks t \<and> zt_told t' = zt_told t"
  by (auto simp: TkGet_def send_def dest: get_children_keeps split: if_splits option.splits)

text \<open>A request for data that returns without an error has one outstanding.\<close>

lemma get_marks:
  "TkGet z path True creq exist_first t = (ZOK, t') \<Longrightarrow> (OP_EXISTS, path) \<in> marked t' \<or> (OP_GET, path) \<in> marked t'"
  by (auto simp: TkGet_def send_def zoo_codes marked_def dest!: get_children_keeps split: if_splits)

lemma process_sends: "ProcessNolock z path dreq creq erased t = (r, t') \<Longrightarrow> sends t t'"
  by (auto simp: ProcessNolock_def Let_def sends_refl dest: get_sends split: if_splits prod.splits)

lemma process_keeps:
  "ProcessNolock z path dreq creq erased t = (r, t') \<Longrightarrow> zt_tracks t' = zt_tracks t \<and> zt_told t' = zt_told t"
  by (auto simp: ProcessNolock_def Let_def dest: get_keeps split: if_splits prod.splits)

lemma process_marks:
  assumes "ProcessNolock z path True creq erased t = (ZOK, t')"
    and "(path, k) \<in> set (zt_tracks t)" "tk_data k" "\<not> tk_cancel_on_missing k"
  shows "(OP_EXISTS, path) \<in> marked t' \<or> (OP_GET, path) \<in> marked t'"
proof -
  have "\<exists>k\<in>set (track_range path (zt_tracks t)). \<not> (erased \<and> tk_cancel_on_missing k) \<and> tk_data k"
    using assms(2-4) by (auto simp: set_track_range)
  then show ?thesis using assms(1) by (auto simp: ProcessNolock_def track_needs_eq dest: get_marks)
qed

section \<open>What users are told\<close>

lemma told_errors_append [simp]: "told_errors (a @ b) = told_errors a @ told_errors b"
  by (simp add: told_errors_def)

lemma told_errors_simps [simp]:
  "told_errors [] = []"
  "told_errors (map (\<lambda>cb. Told_error cb e (Some p)) cbs) = map (\<lambda>cb. (cb, p)) cbs"
  "told_errors (map (\<lambda>cb. Told_error cb e None) cbs) = []"
  "told_errors (map (\<lambda>cb. Told_data cb q d) cbs) = []"
  "told_errors (map (\<lambda>cb. Told_children cb q l) cbs) = []"
  by (induction cbs) (simp_all add: told_errors_def)

lemma track_tell_sel [simp]:
  "zt_tracks (track_tell cs t) = zt_tracks t" "zt_sent (track_tell cs t) = zt_sent t" "zt_zk (track_tell cs t) = zt_zk t"
  "zt_told (track_tell cs t) = zt_told t @ cs" "marked (track_tell cs t) = marked t"
  by (simp_all add: track_tell_def marked_def)

lemma notify_sel [simp]:
  "zt_tracks (NotifyError ts p e t) = zt_tracks t" "zt_sent (NotifyError ts p e t) = zt_sent t" "zt_zk (NotifyError ts p e t) = zt_zk t"
  "marked (NotifyError ts p e t) = marked t"
  "zt_tracks (NotifyNull ts p t) = zt_tracks t" "zt_sent (NotifyNull ts p t) = zt_sent t" "zt_zk (NotifyNull ts p t) = zt_zk t"
  "marked (NotifyNull ts p t) = marked t"
  "told_errors (zt_told (NotifyNull ts p t)) = told_errors (zt_told t)"
  by (simp_all add: NotifyError_def NotifyNull_def)

lemma notify_error_tells:
  "set (told_errors (zt_told (NotifyError ts p e t))) =
    set (told_errors (zt_told t)) \<union> {(tk_cb k, p) |k. (p, k) \<in> set ts}"
  by (auto simp: NotifyError_def set_track_range)

lemma cancel_sel [simp]:
  "zt_sent (CancelNolock p c t) = zt_sent t" "zt_zk (CancelNolock p c t) = zt_zk t" "marked (CancelNolock p c t) = marked t"
  "zt_told (CancelNolock p c t) = zt_told t" "set (zt_tracks (CancelNolock p c t)) \<subseteq> set (zt_tracks t)"
  by (auto simp: CancelNolock_def marked_def)

lemma cancel_missing_sel [simp]:
  "zt_sent (cancel_missing p t) = zt_sent t" "zt_zk (cancel_missing p t) = zt_zk t" "marked (cancel_missing p t) = marked t"
  "zt_told (cancel_missing p t) = zt_told t" "set (zt_tracks (cancel_missing p t)) \<subseteq> set (zt_tracks t)"
proof -
  have *: "zt_sent (fold (\<lambda>k t. CancelNolock p (Some (tk_cb k)) t) ks t) = zt_sent t \<and>
      zt_zk (fold (\<lambda>k t. CancelNolock p (Some (tk_cb k)) t) ks t) = zt_zk t \<and>
      marked (fold (\<lambda>k t. CancelNolock p (Some (tk_cb k)) t) ks t) = marked t \<and>
      zt_told (fold (\<lambda>k t. CancelNolock p (Some (tk_cb k)) t) ks t) = zt_told t \<and>
      set (zt_tracks (fold (\<lambda>k t. CancelNolock p (Some (tk_cb k)) t) ks t)) \<subseteq> set (zt_tracks t)" for ks
  proof (induction ks arbitrary: t)
    case (Cons k ks)
    show ?case
      using Cons[of "CancelNolock p (Some (tk_cb k)) t"] subset_trans[OF _ cancel_sel(5)[of p "Some (tk_cb k)" t]] by simp
  qed simp
  note this = *[of "filter tk_cancel_on_missing (track_range p (zt_tracks t))"]
  then show "zt_sent (cancel_missing p t) = zt_sent t" "zt_zk (cancel_missing p t) = zt_zk t"
    "marked (cancel_missing p t) = marked t" "zt_told (cancel_missing p t) = zt_told t"
    "set (zt_tracks (cancel_missing p t)) \<subseteq> set (zt_tracks t)"
    unfolding cancel_missing_def by blast+
qed

section \<open>Every request once\<close>

definition once :: "tracker \<Rightarrow> (zoo_operation \<times> string) list \<Rightarrow> bool" where
  "once t flight \<longleftrightarrow> (if zt_zk t then distinct flight \<and> set flight = marked t else zt_tracks t = [] \<and> marked t = {})"

lemma once_sends:
  assumes "once t flight" and "zt_sent t = []" and "sends t t'" and "set (zt_tracks t') \<subseteq> set (zt_tracks t) \<or> zt_zk t"
  shows "once t' (flight @ zt_sent t')"
  using assms by (auto simp: once_def sends_def split: if_splits)

lemma sends_tell: "sends t t1 \<Longrightarrow> zt_sent t2 = zt_sent t1 \<Longrightarrow> marked t2 = marked t1 \<Longrightarrow> zt_zk t2 = zt_zk t1 \<Longrightarrow> sends t t2"
  by (auto intro: sends_trans sends_refl)

lemma do_track_sends: "DoTrack z path d c n m cb t = (r, t') \<Longrightarrow> sends t t' \<and> (set (zt_tracks t') \<subseteq> set (zt_tracks t) \<or> zt_zk t)"
proof -
  assume *: "DoTrack z path d c n m cb t = (r, t')"
  have "sends t t'"
  proof (cases "t' = t")
    case True
    then show ?thesis by (simp add: sends_refl)
  next
    case False
    define u where "u = t\<lparr>zt_tracks := mmap_insert (the path) \<lparr>tk_cb = the cb, tk_data = d, tk_children = c,
      tk_cancel_on_missing = m, tk_null = n\<rparr> (zt_tracks t)\<rparr>"
    obtain ret t1 where p: "ProcessNolock z (the path) True True False u = (ret, t1)" by fastforce
    have "sends t u" by (simp add: u_def sends_refl marked_def)
    then have s1: "sends t t1" using process_sends[OF p] by (rule sends_trans)
    have "t' = t1 \<or> t' = NotifyError (zt_tracks (CancelNolock (the path) (Some (the cb)) t1)) (the path) ret
        (CancelNolock (the path) (Some (the cb)) t1)"
      using * False p unfolding DoTrack_def Let_def u_def[symmetric] by (auto split: if_splits prod.splits)
    then show ?thesis using s1 by (auto intro: sends_tell)
  qed
  moreover have "t' = t \<or> zt_zk t" using * by (auto simp: DoTrack_def split: if_splits)
  ultimately show ?thesis by auto
qed

lemma process_path_sends: "process_path z path d c e t = (r, t') \<Longrightarrow> sends t t' \<and> zt_tracks t' = zt_tracks t"
proof -
  assume *: "process_path z path d c e t = (r, t')"
  obtain ret t1 where p: "ProcessNolock z path d c e t = (ret, t1)" by fastforce
  have "zt_sent t' = zt_sent t1 \<and> marked t' = marked t1 \<and> zt_zk t' = zt_zk t1 \<and> zt_tracks t' = zt_tracks t1"
    using * p by (auto simp: process_path_def split: if_splits)
  then show ?thesis using process_sends[OF p] process_keeps[OF p] by (auto intro: sends_tell)
qed

lemma session_sends: "process_session state t = (r, t') \<Longrightarrow> sends t t' \<and> zt_tracks t' = zt_tracks t"
  by (auto simp: process_session_def Let_def track_tell_def marked_def intro!: sends_refl split: if_splits)

lemma watch_sends: "sends t (tracker_watch z type state path t) \<and> zt_tracks (tracker_watch z type state path t) = zt_tracks t"
proof -
  have "sends t (snd (process_path z path d c e t)) \<and> zt_tracks (snd (process_path z path d c e t)) = zt_tracks t" for d c e
    using process_path_sends[of z path d c e t] by (metis prod.collapse)
  moreover have "sends t (snd (process_session state t)) \<and> zt_tracks (snd (process_session state t)) = zt_tracks t"
    using session_sends[of state t] by (metis prod.collapse)
  moreover have "sends t t" by (simp add: sends_refl)
  ultimately show ?thesis by (auto simp: tracker_watch_def split: watch_method.splits)
qed

lemma failure_sends: "sends t (tracked_failure z rc path t) \<and> zt_tracks (tracked_failure z rc path t) = zt_tracks t"
proof (cases "rc = ZNONODE")
  case True
  obtain ret t1 where p: "ProcessNolock z path True True True t = (ret, t1)" by fastforce
  have "zt_sent (tracked_failure z rc path t) = zt_sent t1 \<and> marked (tracked_failure z rc path t) = marked t1 \<and>
      zt_zk (tracked_failure z rc path t) = zt_zk t1 \<and> zt_tracks (tracked_failure z rc path t) = zt_tracks t1"
    using True p by (simp add: tracked_failure_def)
  then show ?thesis using process_sends[OF p] process_keeps[OF p] by (auto intro: sends_tell)
next
  case False
  then show ?thesis by (simp add: tracked_failure_def sends_refl)
qed

text \<open>A completion takes its mark away first.\<close>

definition unmark :: "zoo_operation \<Rightarrow> string \<Rightarrow> tracker \<Rightarrow> tracker" where
  "unmark oper path t =
    (if oper = OP_EXISTS then t\<lparr>zt_exists := removeAll path (zt_exists t)\<rparr>
     else if oper = OP_GET then t\<lparr>zt_data := removeAll path (zt_data t)\<rparr>
     else t\<lparr>zt_children := removeAll path (zt_children t)\<rparr>)"

lemma unmark_sel [simp]:
  "zt_tracks (unmark oper path t) = zt_tracks t" "zt_sent (unmark oper path t) = zt_sent t"
  "zt_zk (unmark oper path t) = zt_zk t" "zt_told (unmark oper path t) = zt_told t"
  by (simp_all add: unmark_def)

lemma unmark_marked: "oper \<in> {OP_EXISTS, OP_GET, OP_GETC} \<Longrightarrow> marked (unmark oper path t) = marked t - {(oper, path)}"
  by (auto simp: unmark_def marked_def)

lemma exists_sends:
  "sends (unmark OP_EXISTS path t) (TkOnExists z rc path t) \<and> set (zt_tracks (TkOnExists z rc path t)) \<subseteq> set (zt_tracks t)"
proof -
  let ?t0 = "unmark OP_EXISTS path t"
  obtain rc1 t1 where p: "(if rc = ZOK then ProcessNolock z path True True False ?t0 else (rc, ?t0)) = (rc1, t1)" by fastforce
  have s: "sends ?t0 t1" "zt_tracks t1 = zt_tracks t"
    using p process_sends process_keeps by (auto simp: sends_refl split: if_splits)
  have "TkOnExists z rc path t = (if rc = ZOK \<and> rc1 = ZOK then t1
      else if rc1 \<noteq> ZNONODE then NotifyError (zt_tracks t1) path rc1 t1 else cancel_missing path t1)"
  proof -
    have u: "t\<lparr>zt_exists := removeAll path (zt_exists t)\<rparr> = ?t0" by (simp add: unmark_def)
    show ?thesis unfolding TkOnExists_def Let_def u p by simp
  qed
  then show ?thesis using s cancel_missing_sel(5)[of path t1] by (auto intro: sends_tell)
qed

lemma get_answer_sends:
  "sends (unmark OP_GET path t) (TkOnGet z rc path data t) \<and> zt_tracks (TkOnGet z rc path data t) = zt_tracks t"
  "sends (unmark OP_GETC path t) (TkOnGetChildren z rc path children t) \<and> zt_tracks (TkOnGetChildren z rc path children t) = zt_tracks t"
proof -
  have "TkOnGet z rc path data t = (let t0 = unmark OP_GET path t in if rc \<noteq> ZOK then tracked_failure z rc path t0
     else track_tell (map (\<lambda>cb. Told_data cb path (Some data)) (callbacks_of (filter tk_data (track_range path (zt_tracks t0))))) t0)"
    by (simp add: TkOnGet_def unmark_def)
  then show "sends (unmark OP_GET path t) (TkOnGet z rc path data t) \<and> zt_tracks (TkOnGet z rc path data t) = zt_tracks t"
    using failure_sends[of "unmark OP_GET path t" z rc path] by (simp add: Let_def sends_refl)
  have "TkOnGetChildren z rc path children t = (let t0 = unmark OP_GETC path t in if rc \<noteq> ZOK then tracked_failure z rc path t0
     else track_tell (map (\<lambda>cb. Told_children cb path (Some children)) (callbacks_of (filter tk_children (track_range path (zt_tracks t0))))) t0)"
    by (simp add: TkOnGetChildren_def unmark_def)
  then show "sends (unmark OP_GETC path t) (TkOnGetChildren z rc path children t) \<and>
      zt_tracks (TkOnGetChildren z rc path children t) = zt_tracks t"
    using failure_sends[of "unmark OP_GETC path t" z rc path] by (simp add: Let_def sends_refl)
qed

definition once_inv :: "tracker_system \<Rightarrow> bool" where
  "once_inv s \<longleftrightarrow> (\<forall>x\<in>set (ts_flight s). fst x \<in> {OP_EXISTS, OP_GET, OP_GETC}) \<and> once (ts_tracker s) (ts_flight s)"

lemma sent_kinds: "sends t t' \<Longrightarrow> zt_sent t = [] \<Longrightarrow> x \<in> set (zt_sent t') \<Longrightarrow> fst x \<in> {OP_EXISTS, OP_GET, OP_GETC}"
proof -
  assume "sends t t'" "zt_sent t = []" "x \<in> set (zt_sent t')"
  then have "x \<in> marked t'" by (auto simp: sends_def)
  then show ?thesis by (auto simp: marked_def)
qed

lemma once_step:
  assumes inv: "once_inv s" and may: "tracker_may e s"
  shows "once_inv (tracker_next e s)"
proof -
  let ?t = "(ts_tracker s)\<lparr>zt_sent := [], zt_told := []\<rparr>"
  have once: "once ?t (ts_flight s)" and kinds: "\<forall>x\<in>set (ts_flight s). fst x \<in> {OP_EXISTS, OP_GET, OP_GETC}"
    using inv by (auto simp: once_inv_def once_def marked_def)
  have general: "once_inv (tracker_next e s)" if f: "ts_flight (library_does e s) = flight" and o: "once u flight" and u: "zt_sent u = []"
    and s: "sends u (tracker_do e ?t)" "set (zt_tracks (tracker_do e ?t)) \<subseteq> set (zt_tracks u) \<or> zt_zk u"
    and k: "set flight \<subseteq> set (ts_flight s)" for u flight
    using once_sends[OF o u s] sent_kinds[OF s(1) u] f k kinds by (auto simp: once_inv_def tracker_next_def Let_def)
  show ?thesis
  proof (cases e)
    case (Tk_initialize zk)
    have "marked ?t = {} \<or> zt_zk ?t" using once by (auto simp: once_def)
    then show ?thesis
      using Tk_initialize once may kinds
      by (auto simp: once_inv_def tracker_next_def Let_def TkInitialize_def once_def marked_def)
  next
    case Tk_shutdown
    then show ?thesis using once kinds by (auto simp: once_inv_def tracker_next_def Let_def TkShutdown_def once_def marked_def)
  next
    case (Tk_track z path d c n m cb)
    show ?thesis
      by (rule general[OF _ once]) (use do_track_sends[of z path d c n m cb ?t, OF prod.collapse[symmetric]] Tk_track in auto)
  next
    case (Tk_cancel path cb)
    show ?thesis
      by (rule general[OF _ once]) (use Tk_cancel in \<open>auto simp: TkCancel_def CancelNolock_def marked_def intro!: sends_refl\<close>)
  next
    case Tk_clear
    show ?thesis
      by (rule general[OF _ once]) (use Tk_clear in \<open>auto simp: ClearErrorState_def marked_def intro!: sends_refl\<close>)
  next
    case (Tk_session state)
    show ?thesis
      by (rule general[OF _ once]) (use session_sends[of state ?t, OF prod.collapse[symmetric]] Tk_session in auto)
  next
    case (Tk_watch z oper type state path)
    show ?thesis
      by (rule general[OF _ once]) (use watch_sends[of ?t z type state path] Tk_watch in auto)
  next
    case (Tk_completed z oper rc path data children)
    then have x: "(oper, path) \<in> set (ts_flight s)" using may by simp
    then have oper: "oper \<in> {OP_EXISTS, OP_GET, OP_GETC}" using kinds by force
    have "once (unmark oper path ?t) (remove1 (oper, path) (ts_flight s))"
      using once oper by (auto simp: once_def unmark_marked)
    then show ?thesis
    proof (rule general[rotated])
      show "sends (unmark oper path ?t) (tracker_do e ?t)"
        using oper Tk_completed exists_sends[of path ?t z rc] get_answer_sends[of path ?t z rc] by auto
      show "set (zt_tracks (tracker_do e ?t)) \<subseteq> set (zt_tracks (unmark oper path ?t)) \<or> zt_zk (unmark oper path ?t)"
        using oper Tk_completed exists_sends[of path ?t z rc] get_answer_sends[of path ?t z rc] by auto
      show "set (remove1 (oper, path) (ts_flight s)) \<subseteq> set (ts_flight s)" by (rule set_remove1_subset)
    qed (use Tk_completed in auto)
  qed
qed

interpretation once: step_invariant tracker_step once_inv
  by unfold_locales (auto elim!: tracker_step.cases intro: once_step)

lemma once_new: "once_inv new_tracker_system"
  by (simp add: once_inv_def once_def new_tracker_system_def new_tracker_def marked_def)

text \<open>
  C14. While the tracker is up, no request of a kind is made for a node that has one outstanding, and the sets
  \<open>_exists\<close>, \<open>_data\<close> and \<open>_children\<close> are exactly the requests in flight.
\<close>

theorem tracker_requests_once:
  assumes "tracker_step\<^sup>*\<^sup>* new_tracker_system s" and "zt_zk (ts_tracker s)"
  shows "distinct (ts_flight s) \<and> set (ts_flight s) = marked (ts_tracker s)"
  using once.steps_keep[OF assms(1) once_new] assms(2) by (simp add: once_inv_def once_def)

section \<open>No data track is lost\<close>

definition data_covered :: "tracker_system \<Rightarrow> string \<Rightarrow> bool" where
  "data_covered s p \<longleftrightarrow> (\<exists>oper\<in>{OP_EXISTS, OP_GET}. (oper, p) \<in> set (ts_flight s) \<union> set (ts_armed s))"

definition data_kept :: "tracker_system \<Rightarrow> bool" where
  "data_kept s \<longleftrightarrow> (\<forall>p k. (p, k) \<in> set (zt_tracks (ts_tracker s)) \<longrightarrow> tk_data k \<longrightarrow> \<not> tk_cancel_on_missing k \<longrightarrow>
     data_covered s p \<or> (tk_cb k, p) \<in> set (ts_failed s))"

lemma began_False [simp]: "(\<forall>z path d c n m cb. e \<noteq> Tk_track z path d c n m cb) \<Longrightarrow> \<not> began e t t' k"
  by (cases e) (auto simp: began_def)

text \<open>Events that are not \<open>Track\<close>: what they need to keep covered is the node the library took something from.\<close>

lemma data_kept_event:
  assumes kept: "data_kept s" and no: "\<forall>z path d c n m cb. e \<noteq> Tk_track z path d c n m cb"
    and t: "t = (ts_tracker s)\<lparr>zt_sent := [], zt_told := []\<rparr>"
    and tracks: "set (zt_tracks (tracker_do e t)) \<subseteq> set (zt_tracks t)"
    and other: "\<And>q. q \<noteq> path \<Longrightarrow> data_covered s q \<Longrightarrow> data_covered (library_does e s) q"
    and failed: "ts_failed (library_does e s) = ts_failed s"
    and here: "\<And>k. (path, k) \<in> set (zt_tracks (tracker_do e t)) \<Longrightarrow> tk_data k \<Longrightarrow> \<not> tk_cancel_on_missing k \<Longrightarrow>
       data_covered (tracker_next e s) path \<or> (tk_cb k, path) \<in> set (told_errors (zt_told (tracker_do e t))) \<or>
       (data_covered s path \<longrightarrow> data_covered (library_does e s) path)"
  shows "data_kept (tracker_next e s)"
  unfolding data_kept_def
proof (intro allI impI)
  have more: "data_covered (library_does e s) q \<Longrightarrow> data_covered (tracker_next e s) q" for q
    by (auto simp: data_covered_def tracker_next_def Let_def)
  have fail: "set (ts_failed (tracker_next e s)) = set (ts_failed s) \<union> set (told_errors (zt_told (tracker_do e t)))"
    using no failed t by (auto simp: tracker_next_def Let_def)
  fix q k
  assume k: "(q, k) \<in> set (zt_tracks (ts_tracker (tracker_next e s)))" "tk_data k" "\<not> tk_cancel_on_missing k"
  then have q: "(q, k) \<in> set (zt_tracks (tracker_do e t))" using t by (simp add: tracker_next_def Let_def)
  then have old: "data_covered s q \<or> (tk_cb k, q) \<in> set (ts_failed s)"
    using kept tracks k t unfolding data_kept_def by (metis subsetD tracker.select_convs(2) tracker.surjective tracker.update_convs(7,8))
  show "data_covered (tracker_next e s) q \<or> (tk_cb k, q) \<in> set (ts_failed (tracker_next e s))"
  proof (cases "q = path")
    case True
    then show ?thesis using here[of k] q k old more fail by auto
  next
    case False
    then show ?thesis using other[OF False] old more fail by auto
  qed
qed

text \<open>A mark is a request in flight.\<close>

lemma marked_covered:
  assumes "once_inv s" "tracker_may e s" "zt_zk (ts_tracker (tracker_next e s))"
    and "(OP_EXISTS, p) \<in> marked (ts_tracker (tracker_next e s)) \<or> (OP_GET, p) \<in> marked (ts_tracker (tracker_next e s))"
  shows "data_covered (tracker_next e s) p"
  using once_step[OF assms(1,2)] assms(3,4) by (auto simp: once_inv_def once_def data_covered_def)

lemma next_tracker [simp]: "ts_tracker (tracker_next e s) = tracker_do e ((ts_tracker s)\<lparr>zt_sent := [], zt_told := []\<rparr>)"
  by (simp add: tracker_next_def Let_def)

lemma tracks_up: "once_inv s \<Longrightarrow> x \<in> set (zt_tracks (ts_tracker s)) \<Longrightarrow> zt_zk (ts_tracker s)"
  by (auto simp: once_inv_def once_def split: if_splits)

text \<open>\<open>Process\<close> with a request for data, and a request for data that failed.\<close>

lemma process_path_serves:
  assumes "(path, k) \<in> set (zt_tracks t)" "tk_data k" "\<not> tk_cancel_on_missing k"
  shows "(OP_EXISTS, path) \<in> marked (snd (process_path z path True c e t)) \<or> (OP_GET, path) \<in> marked (snd (process_path z path True c e t)) \<or>
    (tk_cb k, path) \<in> set (told_errors (zt_told (snd (process_path z path True c e t))))"
proof -
  obtain ret t1 where p: "ProcessNolock z path True c e t = (ret, t1)" by fastforce
  show ?thesis
  proof (cases "ret = ZOK")
    case True
    then show ?thesis using process_marks[OF p[unfolded True] assms] p by (auto simp: process_path_def)
  next
    case False
    then show ?thesis using p process_keeps[OF p] assms by (auto simp: process_path_def notify_error_tells)
  qed
qed

lemma failure_serves:
  assumes "(path, k) \<in> set (zt_tracks t)" "tk_data k" "\<not> tk_cancel_on_missing k"
  shows "(OP_EXISTS, path) \<in> marked (tracked_failure z rc path t) \<or> (OP_GET, path) \<in> marked (tracked_failure z rc path t) \<or>
    (tk_cb k, path) \<in> set (told_errors (zt_told (tracked_failure z rc path t)))"
proof (cases "rc = ZNONODE")
  case True
  obtain ret t1 where p: "ProcessNolock z path True True True t = (ret, t1)" by fastforce
  show ?thesis
  proof (cases "ret = ZOK")
    case ok: True
    then show ?thesis using True process_marks[OF p[unfolded ok] assms] p by (auto simp: tracked_failure_def)
  next
    case False
    then show ?thesis using True p assms by (auto simp: tracked_failure_def notify_error_tells)
  qed
next
  case False
  then show ?thesis using assms by (auto simp: tracked_failure_def notify_error_tells)
qed

lemma remove1_other: "x \<noteq> y \<Longrightarrow> x \<in> set (remove1 y xs) \<longleftrightarrow> x \<in> set xs"
  by simp

lemma kept_watch:
  assumes once: "once_inv s" and kept: "data_kept s" and may: "tracker_may (Tk_watch z oper type state path) s" (is "tracker_may ?e s")
  shows "data_kept (tracker_next ?e s)"
proof (rule data_kept_event[OF kept _ refl, where path = path])
  let ?t = "(ts_tracker s)\<lparr>zt_sent := [], zt_told := []\<rparr>"
  show tr: "set (zt_tracks (tracker_do ?e ?t)) \<subseteq> set (zt_tracks ?t)" using watch_sends[of ?t z type state path] by simp
  show "data_covered (library_does ?e s) q" if "q \<noteq> path" "data_covered s q" for q
    using that by (auto simp: data_covered_def remove1_other)
  fix k
  assume k: "(path, k) \<in> set (zt_tracks (tracker_do ?e ?t))" "tk_data k" "\<not> tk_cancel_on_missing k"
  then have kt: "(path, k) \<in> set (zt_tracks ?t)" using tr by blast
  have up: "zt_zk (ts_tracker (tracker_next ?e s))" using tracks_up[OF once_step[OF once may], of "(path, k)"] k(1) by simp
  show "data_covered (tracker_next ?e s) path \<or> (tk_cb k, path) \<in> set (told_errors (zt_told (tracker_do ?e ?t))) \<or>
       (data_covered s path \<longrightarrow> data_covered (library_does ?e s) path)"
  proof (cases "oper = OP_EXISTS \<or> oper = OP_GET")
    case True
    then have "\<exists>c e. tracker_do ?e ?t = snd (process_path z path True c e ?t)"
      using may by (auto simp: watch_types_def tracker_watch_def ZkOnEvent_def zoo_events)
    then obtain c e where d: "tracker_do ?e ?t = snd (process_path z path True c e ?t)" by blast
    then show ?thesis
      using process_path_serves[OF kt k(2,3), of z c e] marked_covered[OF once may up, of path] by auto
  next
    case False
    then show ?thesis by (auto simp: data_covered_def remove1_other)
  qed
qed simp_all

lemma kept_completed:
  assumes once: "once_inv s" and kept: "data_kept s"
    and may: "tracker_may (Tk_completed z oper rc path data children) s" (is "tracker_may ?e s")
  shows "data_kept (tracker_next ?e s)"
proof (rule data_kept_event[OF kept _ refl, where path = path])
  let ?t = "(ts_tracker s)\<lparr>zt_sent := [], zt_told := []\<rparr>"
  have oper: "oper \<in> {OP_EXISTS, OP_GET, OP_GETC}" using may once by (force simp: once_inv_def)
  show tr: "set (zt_tracks (tracker_do ?e ?t)) \<subseteq> set (zt_tracks ?t)"
    using exists_sends[of path ?t z rc] get_answer_sends[of path ?t z rc] by simp
  show "data_covered (library_does ?e s) q" if "q \<noteq> path" "data_covered s q" for q
    using that by (auto simp: data_covered_def remove1_other)
  fix k
  assume k: "(path, k) \<in> set (zt_tracks (tracker_do ?e ?t))" "tk_data k" "\<not> tk_cancel_on_missing k"
  then have kt: "(path, k) \<in> set (zt_tracks (unmark oper path ?t))" using tr by auto
  have up: "zt_zk (ts_tracker (tracker_next ?e s))" using tracks_up[OF once_step[OF once may], of "(path, k)"] k(1) by simp
  show "data_covered (tracker_next ?e s) path \<or> (tk_cb k, path) \<in> set (told_errors (zt_told (tracker_do ?e ?t))) \<or>
       (data_covered s path \<longrightarrow> data_covered (library_does ?e s) path)"
  proof (cases "oper = OP_GETC \<or> rc = ZOK \<or> (oper = OP_EXISTS \<and> rc = ZNONODE)")
    case True
    then show ?thesis using oper by (auto simp: data_covered_def remove1_other tracker_next_def Let_def)
  next
    case False
    show ?thesis
    proof (cases "oper = OP_GET")
      case True
      then have "tracker_do ?e ?t = tracked_failure z rc path (unmark oper path ?t)"
        using False by (simp add: TkOnGet_def unmark_def)
      then show ?thesis
        using failure_serves[OF kt k(2,3), of z rc] marked_covered[OF once may up, of path] by auto
    next
      case ex: False
      then have "tracker_do ?e ?t = NotifyError (zt_tracks (unmark oper path ?t)) path rc (unmark oper path ?t)"
        using False oper by (simp add: TkOnExists_def unmark_def)
      then show ?thesis using kt by (auto simp: notify_error_tells)
    qed
  qed
qed simp_all

lemma rooted_some: "rooted path \<Longrightarrow> \<exists>p. path = Some p"
  by (cases path) (simp_all add: rooted_def)

lemma kept_track:
  assumes once: "once_inv s" and kept: "data_kept s"
  shows "data_kept (tracker_next (Tk_track z path d c n m cb) s)" (is "data_kept (tracker_next ?e s)")
proof -
  let ?t = "(ts_tracker s)\<lparr>zt_sent := [], zt_told := []\<rparr>"
  have may: "tracker_may ?e s" by simp
  obtain r t' where dt: "DoTrack z path d c n m cb ?t = (r, t')" by fastforce
  have t': "ts_tracker (tracker_next ?e s) = t'" using dt by simp
  have more: "data_covered s q \<Longrightarrow> data_covered (tracker_next ?e s) q" for q
    by (auto simp: data_covered_def tracker_next_def Let_def)
  have fail: "x \<in> set (ts_failed (tracker_next ?e s)) \<longleftrightarrow>
      x \<in> set (ts_failed s) \<and> \<not> began ?e ?t t' x \<or> x \<in> set (told_errors (zt_told t'))" for x
    using dt by (auto simp: tracker_next_def Let_def)
  have old: "data_covered s q \<or> (tk_cb k, q) \<in> set (ts_failed s)"
    if "(q, k) \<in> set (zt_tracks (ts_tracker s))" "tk_data k" "\<not> tk_cancel_on_missing k" for q k
    using kept that by (auto simp: data_kept_def)
  show ?thesis
  proof (cases "zt_tracks t' = zt_tracks ?t")
    case True
    then have "\<not> began ?e ?t t' x" for x by (simp add: began_def)
    then show ?thesis unfolding data_kept_def t' fail using True more old by fastforce
  next
    case False
    define u where "u = ?t\<lparr>zt_tracks := mmap_insert (the path) \<lparr>tk_cb = the cb, tk_data = d, tk_children = c,
      tk_cancel_on_missing = m, tk_null = n\<rparr> (zt_tracks ?t)\<rparr>"
    obtain ret t1 where p: "ProcessNolock z (the path) True True False u = (ret, t1)" by fastforce
    let ?t2 = "CancelNolock (the path) (Some (the cb)) t1"
    have c: "t' = (if ret = ZOK then t1 else NotifyError (zt_tracks ?t2) (the path) ret ?t2)" and some: "path \<noteq> None" "cb \<noteq> None"
      using dt False p unfolding DoTrack_def Let_def u_def[symmetric] by (auto split: if_splits prod.splits dest: rooted_some)
    have tr1: "zt_tracks t1 = zt_tracks u" using process_keeps[OF p] by simp
    show ?thesis
      unfolding data_kept_def t' fail
    proof (intro allI impI)
      fix q k
      assume k: "(q, k) \<in> set (zt_tracks t')" "tk_data k" "\<not> tk_cancel_on_missing k"
      have up: "zt_zk (ts_tracker (tracker_next ?e s))"
        using tracks_up[OF once_step[OF once may], of "(q, k)"] k(1) t' by simp
      show "data_covered (tracker_next ?e s) q \<or>
        (tk_cb k, q) \<in> set (ts_failed s) \<and> \<not> began ?e ?t t' (tk_cb k, q) \<or> (tk_cb k, q) \<in> set (told_errors (zt_told t'))"
      proof (cases "q = the path")
        case here: True
        show ?thesis
        proof (cases "ret = ZOK")
          case True
          then have "(OP_EXISTS, q) \<in> marked t' \<or> (OP_GET, q) \<in> marked t'"
            using process_marks[OF p[unfolded True], of k] k c tr1 here by auto
          then show ?thesis using marked_covered[OF once may up, of q] t' by auto
        next
          case False
          then show ?thesis using c k here by (auto simp: notify_error_tells)
        qed
      next
        case other: False
        have "(q, k) \<in> set (zt_tracks u)"
          using k(1) c tr1 cancel_sel(5)[of "the path" "Some (the cb)" t1] by (auto split: if_splits)
        then have "(q, k) \<in> set (zt_tracks (ts_tracker s))" using other by (simp add: u_def set_mmap_insert)
        moreover have "\<not> began ?e ?t t' (tk_cb k, q)" using other some by (auto simp: began_def)
        ultimately show ?thesis using old[of q k] k(2,3) more by auto
      qed
    qed
  qed
qed

lemma kept_step:
  assumes once: "once_inv s" and kept: "data_kept s" and may: "tracker_may e s"
  shows "data_kept (tracker_next e s)"
proof -
  have general: "data_kept (tracker_next e s)"
    if "library_does e s = s" "\<forall>z path d c n m cb. e \<noteq> Tk_track z path d c n m cb"
      "set (zt_tracks (tracker_do e ((ts_tracker s)\<lparr>zt_sent := [], zt_told := []\<rparr>))) \<subseteq> set (zt_tracks (ts_tracker s))"
    using that by (intro data_kept_event[OF kept _ refl]) auto
  show ?thesis
  proof (cases e)
    case Tk_shutdown
    then show ?thesis using once by (auto simp: data_kept_def TkShutdown_def once_inv_def once_def)
  next
    case (Tk_track z path d c n m cb)
    then show ?thesis using kept_track[OF once kept] by simp
  next
    case (Tk_watch z oper type state path)
    then show ?thesis using kept_watch[OF once kept] may by simp
  next
    case (Tk_completed z oper rc path data children)
    then show ?thesis using kept_completed[OF once kept] may by simp
  next
    case (Tk_session state)
    then show ?thesis
      using session_sends[of state "(ts_tracker s)\<lparr>zt_sent := [], zt_told := []\<rparr>", OF prod.collapse[symmetric]] by (intro general) auto
  qed (intro general; auto simp: TkInitialize_def TkCancel_def CancelNolock_def ClearErrorState_def)+
qed

interpretation kept: step_invariant tracker_step "\<lambda>s. once_inv s \<and> data_kept s"
  by unfold_locales (auto elim!: tracker_step.cases intro: once_step kept_step)

text \<open>
  C40. A callback that tracks the data of a node for good never loses it silently: a request for the node is in
  flight or a watch on it is held, or the callback has been told of an error of the node.
\<close>

theorem data_tracks_never_lost:
  assumes "tracker_step\<^sup>*\<^sup>* new_tracker_system s"
    and "(p, k) \<in> set (zt_tracks (ts_tracker s))" and "tk_data k" and "\<not> tk_cancel_on_missing k"
  shows "(\<exists>oper\<in>{OP_EXISTS, OP_GET}. (oper, p) \<in> set (ts_flight s) \<union> set (ts_armed s)) \<or> (tk_cb k, p) \<in> set (ts_failed s)"
proof -
  have "once_inv new_tracker_system \<and> data_kept new_tracker_system"
    using once_new by (simp add: data_kept_def new_tracker_system_def new_tracker_def)
  then have "data_kept s" using kept.steps_keep[OF assms(1)] by blast
  then show ?thesis using assms(2-4) by (auto simp: data_kept_def data_covered_def)
qed

section \<open>Runs\<close>

definition view_up :: tracker_zk where
  "view_up = \<lparr>tz_state = ZOO_CONNECTED_STATE, tz_answer = (\<lambda>_. ZOK)\<rparr>"

fun tracker_run :: "tracker_event list \<Rightarrow> tracker_system \<Rightarrow> tracker_system option" where
  "tracker_run [] s = Some s"
| "tracker_run (e # es) s = (if tracker_may e s then tracker_run es (tracker_next e s) else None)"

lemma tracker_run_reachable: "tracker_run es s = Some s' \<Longrightarrow> tracker_step\<^sup>*\<^sup>* s s'"
proof (induction es arbitrary: s)
  case (Cons e es)
  then show ?case
    by (auto split: if_splits intro: converse_rtranclp_into_rtranclp tracker_step.intros)
qed simp

lemmas tracker_eval = new_tracker_system_def new_tracker_def view_up_def tracker_next_def Let_def TkInitialize_def DoTrack_def rooted_def
  track_range_def mmap_insert_def ProcessNolock_def TkGet_def send_def get_children_part_def zoo_codes zoo_states zoo_events began_def
  told_errors_def TkOnGet_def TkOnGetChildren_def TkOnExists_def tracked_failure_def tracker_watch_def process_path_def ZkOnEvent_def
  watch_types_def NotifyNull_def NotifyError_def callbacks_of_def track_tell_def CancelNolock_def cancel_missing_def process_session_def

theorem tracker_requests_once_witness:
  "\<exists>s. tracker_step\<^sup>*\<^sup>* new_tracker_system s \<and> zt_zk (ts_tracker s) \<and> distinct (ts_flight s) \<and> (OP_GET, ''/a'') \<in> set (ts_flight s)"
proof -
  obtain s where s: "tracker_run [Tk_initialize True, Tk_track view_up (Some ''/a'') True True True False (Some 1)] new_tracker_system = Some s"
    by (simp add: tracker_eval)
  then have "zt_zk (ts_tracker s) \<and> (OP_GET, ''/a'') \<in> set (ts_flight s)" by (auto simp: tracker_eval)
  then show ?thesis using tracker_requests_once[OF tracker_run_reachable[OF s]] tracker_run_reachable[OF s] by blast
qed

theorem data_tracks_never_lost_witness:
  "\<exists>s k. tracker_step\<^sup>*\<^sup>* new_tracker_system s \<and> (''/a'', k) \<in> set (zt_tracks (ts_tracker s)) \<and>
    ((\<exists>oper\<in>{OP_EXISTS, OP_GET}. (oper, ''/a'') \<in> set (ts_flight s) \<union> set (ts_armed s)) \<or> (tk_cb k, ''/a'') \<in> set (ts_failed s))"
proof -
  let ?k = "\<lparr>tk_cb = 1, tk_data = True, tk_children = False, tk_cancel_on_missing = False, tk_null = True\<rparr>"
  obtain s where s: "tracker_run [Tk_initialize True, Tk_track view_up (Some ''/a'') True False True False (Some 1),
      Tk_completed view_up OP_GET ZOK ''/a'' ''x'' [], Tk_watch view_up OP_GET ZOO_DELETED_EVENT 3 ''/a''] new_tracker_system = Some s"
    by (simp add: tracker_eval)
  then have "(''/a'', ?k) \<in> set (zt_tracks (ts_tracker s))" by (auto simp: tracker_eval)
  then show ?thesis using data_tracks_never_lost[OF tracker_run_reachable[OF s], of "''/a''" ?k] tracker_run_reachable[OF s]
    by (intro exI[of _ s] exI[of _ ?k]) simp
qed

text \<open>
  Children are lost: a second callback that tracks data and children of a node whose data are outstanding is
  told that all is well, and its request for the children is never made.
\<close>

theorem children_track_lost:
  "tracker_run [Tk_initialize True, Tk_track view_up (Some ''/a'') True False True False (Some 1),
      Tk_track view_up (Some ''/a'') True True True False (Some 2), Tk_completed view_up OP_GET ZOK ''/a'' ''x'' []] new_tracker_system =
    Some \<lparr>ts_tracker = \<lparr>zt_zk = True,
      zt_tracks = [(''/a'', \<lparr>tk_cb = 1, tk_data = True, tk_children = False, tk_cancel_on_missing = False, tk_null = True\<rparr>),
        (''/a'', \<lparr>tk_cb = 2, tk_data = True, tk_children = True, tk_cancel_on_missing = False, tk_null = True\<rparr>)],
      zt_exists = [], zt_data = [], zt_children = [], zt_error_has_broadcasted = False, zt_sent = [],
      zt_told = [Told_data 1 ''/a'' (Some ''x''), Told_data 2 ''/a'' (Some ''x'')]\<rparr>,
      ts_flight = [], ts_armed = [(OP_GET, ''/a'')], ts_failed = []\<rparr>"
  by (simp add: tracker_eval)

text \<open>
  A track that is to end when the node goes away: after the event that says so it is still there, though nothing
  watches the node, and tracking the node again is answered with yes and does nothing.
\<close>

lemma vanished_track_stays:
  "\<exists>s. tracker_run [Tk_initialize True, Tk_track view_up (Some ''/a'') True False True True (Some 1),
      Tk_completed view_up OP_GET ZOK ''/a'' ''x'' [], Tk_watch view_up OP_GET ZOO_DELETED_EVENT 3 ''/a''] new_tracker_system = Some s \<and>
    ts_flight s = [] \<and> ts_armed s = [] \<and> zt_tracks (ts_tracker s) \<noteq> [] \<and>
    DoTrack view_up (Some ''/a'') True False True False (Some 1) (ts_tracker s) = (True, ts_tracker s)"
  by (simp add: tracker_eval)

text \<open>A failed \<open>Track\<close> takes the earlier tracks of its callback with it, and the callback is not told.\<close>

lemma failed_track_takes_earlier:
  "\<exists>s. tracker_run [Tk_initialize True, Tk_track view_up (Some ''/a'') True False True False (Some 1),
      Tk_completed view_up OP_GET ZOK ''/a'' ''x'' [],
      Tk_track (view_up\<lparr>tz_answer := (\<lambda>_. -4)\<rparr>) (Some ''/a'') False True True False (Some 1)] new_tracker_system = Some s \<and>
    zt_tracks (ts_tracker s) = [] \<and> zt_told (ts_tracker s) = []"
  by (simp add: tracker_eval)

text \<open>The broadcast of a session error comes once until \<open>ClearErrorState\<close>.\<close>

lemma broadcast_once:
  assumes "process_session state t = (False, t')"
  shows "process_session state' t' = (b, t'') \<Longrightarrow> zt_told t'' = zt_told t'"
  using assms by (auto simp: process_session_def track_tell_def Let_def split: if_splits)

text \<open>
  \<open>Shutdown\<close> detaches the watcher of the tracker only: a request in flight still calls the tracker back, which
  its destructor does not wait for.
\<close>

lemma shutdown_keeps_callback:
  assumes "zk_heap zk p = Some q" and "pd_zkc q = Some me" and "pd_op q = OP_GET"
  shows "\<exists>zk'. GlobalDataCompletion p rc v (ZkDetach (Some w) None zk) = Fine (True, zk') \<and>
    To_callback me OP_GET rc (pd_path q) (Value v) \<in> set (zk_calls zk')"
  using assms
  by (auto simp: GlobalDataCompletion_def watched_completion_def ZkDetach_def detach_watcher_def zoo_tell_def Let_def)

end
