(* ===== verification/Fast_Cgi.thy ===== *)
theory Fast_Cgi
  imports Text_Encode Text_Explode Utility Value_Tree
begin

text \<open>
  \<open>flinter/fastcgi/cgi.cpp\<close>, \<open>dispatcher.cpp\<close>, \<open>default_handlers.cpp\<close>, \<open>common_filters.cpp\<close>: a web request is given
  to the handler of its path; the handler sets headers and puts out a body, which is buffered or sent at once.
  An exception leaves the state as it was when it was thrown. ClearSilver and FastCGI are parameters: \<open>wire\<close>
  tells whether the next write succeeds after those that were made, \<open>strip\<close> is \<open>neos_strip\<close>.
\<close>

section \<open>Status codes\<close>

definition kStatusCodes :: "(int \<times> string) list" where
  "kStatusCodes =
    [(100, ''Continue''), (101, ''Switching Protocols''), (102, ''Processing''), (200, ''OK''),
     (201, ''Created''), (202, ''Accepted''), (203, ''Non-Authoritative Information''), (204, ''No Content''),
     (205, ''Reset Content''), (206, ''Partial Content''), (207, ''Multi-Status''),
     (208, ''Already Reported''), (226, ''IM Used''), (300, ''Multiple Choises''),
     (301, ''Moved Permanently''), (302, ''Found''), (303, ''See Other''), (304, ''Not Modified''),
     (305, ''Use Proxy''), (306, ''Switch Proxy''), (307, ''Temporary Redirect''),
     (308, ''Permanent Redirect''), (400, ''Bad Request''), (401, ''Unauthorized''),
     (402, ''Payment Required''), (403, ''Forbidden''), (404, ''Not Found''), (405, ''Method Not Allowed''),
     (406, ''Not Acceptable''), (407, ''Proxy Authentication Required''), (408, ''Request Timeout''),
     (409, ''Conflict''), (410, ''Gone''), (411, ''Length Required''), (412, ''Precondition Failed''),
     (413, ''Request Entity Too Large''), (414, ''Request-URI Too Long''), (415, ''Unsupported Media Type''),
     (416, ''Requested Range Not Satisfiable''), (417, ''Expectation Failed''),
     (419, ''Authentication Timeout''), (422, ''Unprocessable Entity''), (423, ''Locked''),
     (424, ''Failed Dependency''), (424, ''Method Failure''), (425, ''Unordered Collection''),
     (426, ''Upgrade Required''), (428, ''Precondition Required''), (429, ''Too Many Requests''),
     (431, ''Request Header Fields Too Large''), (451, ''Unavailable For Legal Reasons''),
     (500, ''Internal Server Error''), (501, ''Not Implemented''), (502, ''Bad Gateway''),
     (503, ''Service Unavailable''), (504, ''Gateway Timeout''), (505, ''HTTP Version Not Supported''),
     (506, ''Variant Also Negotiates''), (507, ''Insufficient Storage''), (508, ''Loop Detected''),
     (510, ''Not Extended''), (511, ''Network Authentication Required'')]"

text \<open>The map keeps the first entry of a key.\<close>

definition kHttpStatusCodes :: "(int, string) smap" where
  "kHttpStatusCodes = fold (\<lambda>(k, v). smap_insert k v) kStatusCodes []"

section \<open>The response\<close>

datatype cgi_exception =
    End_exception | Http_exception int | Logic_error | Out_of_range | Runtime_error | Past_the_end

record cgi =
  cg_headers :: "(string \<times> string) list"
  cg_buffered_body :: string
  cg_request_body :: string
  cg_request_handled :: bool
  cg_header_sent :: bool
  cg_body_sent :: bool
  cg_buffered :: bool
  cg_status :: int
  cg_server :: tree
  cg_out :: "string list"

definition new_cgi :: "tree \<Rightarrow> cgi" where
  "new_cgi server = \<lparr>cg_headers = [], cg_buffered_body = [], cg_request_body = [], cg_request_handled = False,
     cg_header_sent = False, cg_body_sent = False, cg_buffered = True, cg_status = 200, cg_server = server, cg_out = []\<rparr>"

text \<open>What a call leaves: the exception it throws, if any, and the state.\<close>

type_synonym effect = "cgi_exception option \<times> cgi"

definition and_then :: "effect \<Rightarrow> (cgi \<Rightarrow> effect) \<Rightarrow> effect" where
  "and_then r f = (case fst r of None \<Rightarrow> f (snd r) | Some e \<Rightarrow> r)"

definition cgi_server :: "cgi \<Rightarrow> string \<Rightarrow> string" where
  "cgi_server c k = t_value (TreeGetConst k (cg_server c))"

text \<open>\<open>RealOutput\<close>: at most \<open>kMaximum\<close> bytes at a time; the last piece may be empty.\<close>

definition kMaximum :: nat where "kMaximum = 1073741823"

function pieces :: "nat \<Rightarrow> string \<Rightarrow> string list" where
  "pieces n s = (if 0 < n \<and> n < length s then take n s # pieces n (drop n s) else [s])"
  by pat_completeness auto
termination
  by (relation "measure (\<lambda>(n, s). length s)") auto

declare pieces.simps [simp del]

fun write_pieces :: "(string list \<Rightarrow> bool) \<Rightarrow> string list \<Rightarrow> cgi \<Rightarrow> effect" where
  "write_pieces wire [] c = (None, c)"
| "write_pieces wire (p # ps) c =
    (if wire (cg_out c) then write_pieces wire ps (c\<lparr>cg_out := cg_out c @ [p]\<rparr>) else (Some (Http_exception 400), c))"

definition RealOutput :: "(string list \<Rightarrow> bool) \<Rightarrow> string \<Rightarrow> cgi \<Rightarrow> effect" where
  "RealOutput wire what c = write_pieces wire (pieces kMaximum what) c"

definition status_line :: "int \<Rightarrow> string \<Rightarrow> string" where
  "status_line status str = ''Status: '' @ dec_string status @ '' '' @ str @ [CHR 0x0A]"

definition OutputStatusHeader :: "(string list \<Rightarrow> bool) \<Rightarrow> cgi \<Rightarrow> effect" where
  "OutputStatusHeader wire c = (case smap_find kHttpStatusCodes (cg_status c) of
      None \<Rightarrow> (Some Past_the_end, c)
    | Some str \<Rightarrow> RealOutput wire (status_line (cg_status c) str) c)"

definition header_line :: "string \<times> string \<Rightarrow> string" where
  "header_line h = Value_Tree.c_str (fst h) @ '': '' @ snd h @ [CHR 0x0A]"

definition OutputHeaders :: "(string list \<Rightarrow> bool) \<Rightarrow> cgi \<Rightarrow> effect" where
  "OutputHeaders wire c =
    (if cg_header_sent c then (None, c)
     else and_then
       (fold (\<lambda>h r. and_then r (RealOutput wire (header_line h))) (cg_headers c)
         (OutputStatusHeader wire (c\<lparr>cg_header_sent := True\<rparr>)))
       (RealOutput wire [CHR 0x0A]))"

text \<open>A multimap: \<open>insert\<close> puts an entry after those with its key.\<close>

definition set_header :: "string \<Rightarrow> string \<Rightarrow> bool \<Rightarrow> (string \<times> string) list \<Rightarrow> (string \<times> string) list" where
  "set_header key value allow_duplicate headers =
    (if value = [] then filter (\<lambda>h. fst h \<noteq> key) headers
     else if key \<notin> fst ` set headers \<or> allow_duplicate then mmap_insert key value headers
     else takeWhile (\<lambda>h. fst h \<noteq> key) headers @ (key, value) # tl (dropWhile (\<lambda>h. fst h \<noteq> key) headers))"

definition SetHeaderInternal :: "string \<Rightarrow> string \<Rightarrow> bool \<Rightarrow> cgi \<Rightarrow> effect" where
  "SetHeaderInternal key value allow_duplicate c =
    (if cg_header_sent c then (Some Logic_error, c)
     else (None, c\<lparr>cg_headers := set_header key value allow_duplicate (cg_headers c)\<rparr>))"

definition ascii_lower :: "char \<Rightarrow> char" where
  "ascii_lower ch = (if CHR ''A'' \<le> ch \<and> ch \<le> CHR ''Z'' then char_of (of_char ch + 32 :: nat) else ch)"

definition IsForbiddenToken :: "(string \<Rightarrow> string) \<Rightarrow> string \<Rightarrow> string list \<Rightarrow> bool" where
  "IsForbiddenToken strip key array \<longleftrightarrow> map ascii_lower (strip (Value_Tree.c_str key)) \<in> set array"

definition kForbiddenHeaders :: "string list" where
  "kForbiddenHeaders = [''status'', ''location'', ''set-cookie'', ''content-type'', ''content-length'', ''transfer-encoding'']"

definition kForbiddenCookies :: "string list" where
  "kForbiddenCookies = [''path'', ''domain'', ''expires'', ''max-age'']"

definition SetHeader :: "(string \<Rightarrow> string) \<Rightarrow> string \<Rightarrow> string \<Rightarrow> cgi \<Rightarrow> effect" where
  "SetHeader strip key value c =
    (if key = [] \<or> IsForbiddenToken strip key kForbiddenHeaders then (None, c) else SetHeaderInternal key value False c)"

definition SetContentType :: "string \<Rightarrow> string \<Rightarrow> cgi \<Rightarrow> effect" where
  "SetContentType type charset =
    SetHeaderInternal ''Content-Type'' (if charset = [] then type else type @ ''; charset='' @ charset) False"

definition SetStatusCode :: "int \<Rightarrow> cgi \<Rightarrow> effect" where
  "SetStatusCode status c =
    (if smap_find kHttpStatusCodes status = None then (Some Out_of_range, c) else (None, c\<lparr>cg_status := status\<rparr>))"

definition Redirect :: "string \<Rightarrow> bool \<Rightarrow> cgi \<Rightarrow> effect" where
  "Redirect url moved_permanently c =
    and_then (SetHeaderInternal ''Location'' url False c)
      (\<lambda>c. (None, c\<lparr>cg_status := (if moved_permanently then 301 else 302)\<rparr>))"

text \<open>\<open>date\<close> is \<open>gmtime_r\<close> and \<open>strftime\<close>, \<open>now\<close> the time.\<close>

definition cookie_text :: "(int \<Rightarrow> string) \<Rightarrow> int \<Rightarrow> string \<Rightarrow> string \<Rightarrow> int \<Rightarrow> string \<Rightarrow> string \<Rightarrow> string \<Rightarrow> string" where
  "cookie_text date now key value max_age path domain flags =
    key @ ''='' @ value @
    (if max_age \<noteq> 0 then ''; max-age='' @ dec_string max_age @ ''; expires='' @ date (now + max_age) else []) @
    ''; path='' @ (if path \<noteq> [] then path else ''/'') @
    (if domain \<noteq> [] then ''; domain='' @ domain else []) @
    (if flags \<noteq> [] then ''; '' @ flags else [])"

definition SetCookie :: "(string \<Rightarrow> string) \<Rightarrow> (int \<Rightarrow> string) \<Rightarrow> int \<Rightarrow> string \<Rightarrow> string \<Rightarrow> int \<Rightarrow> string \<Rightarrow> string \<Rightarrow> string \<Rightarrow>
    cgi \<Rightarrow> effect" where
  "SetCookie strip date now key value max_age path domain flags c =
    (if key = [] \<or> IsForbiddenToken strip key kForbiddenCookies then (None, c)
     else SetHeaderInternal ''Set-Cookie'' (cookie_text date now key value max_age path domain flags) True c)"

definition RemoveCookie :: "(string \<Rightarrow> string) \<Rightarrow> (int \<Rightarrow> string) \<Rightarrow> int \<Rightarrow> string \<Rightarrow> string \<Rightarrow> string \<Rightarrow> cgi \<Rightarrow> effect" where
  "RemoveCookie strip date now key path domain = SetCookie strip date now key ''deleted'' (-31536001) path domain []"

definition OutputBody :: "(string list \<Rightarrow> bool) \<Rightarrow> string \<Rightarrow> cgi \<Rightarrow> effect" where
  "OutputBody wire body c =
    (if body = [] then (None, c)
     else if cg_buffered c then (None, c\<lparr>cg_buffered_body := cg_buffered_body c @ body\<rparr>)
     else and_then (OutputHeaders wire c) (\<lambda>c. RealOutput wire body (c\<lparr>cg_body_sent := True\<rparr>)))"

text \<open>\<open>BODY.flush()\<close> does nothing: the stream keeps no buffer.\<close>

definition FlushBody :: "(string list \<Rightarrow> bool) \<Rightarrow> cgi \<Rightarrow> effect" where
  "FlushBody wire c =
    (if cg_buffered_body c = [] then OutputHeaders wire c
     else and_then
       (if cg_header_sent c then (None, c)
        else if cg_request_handled c
        then SetHeaderInternal ''Content-Length'' (dec_string (int (length (cg_buffered_body c)))) False c
        else SetHeaderInternal ''Transfer-Encoding'' ''chunked'' False c)
       (\<lambda>c. let body = cg_buffered_body c in
         and_then (OutputHeaders wire (c\<lparr>cg_buffered_body := []\<rparr>))
           (\<lambda>c. RealOutput wire body (c\<lparr>cg_body_sent := True\<rparr>))))"

definition SetBodyBuffered :: "(string list \<Rightarrow> bool) \<Rightarrow> bool \<Rightarrow> cgi \<Rightarrow> effect" where
  "SetBodyBuffered wire buffered c =
    (let c = c\<lparr>cg_buffered := buffered\<rparr> in if \<not> buffered then FlushBody wire c else (None, c))"

definition End :: "cgi \<Rightarrow> effect" where
  "End c = (Some End_exception, c)"

section \<open>The request\<close>

text \<open>What user code calls, in the order in which it does; a call that throws ends it.\<close>

datatype cgi_call =
    Call_header string string
  | Call_content_type string string
  | Call_status int
  | Call_redirect string bool
  | Call_cookie string string int string string string
  | Call_remove_cookie string string string
  | Call_buffered bool
  | Call_output string
  | Call_end
  | Call_throw cgi_exception

record cgi_world =
  cw_wire :: "string list \<Rightarrow> bool"
  cw_strip :: "string \<Rightarrow> string"
  cw_date :: "int \<Rightarrow> string"
  cw_now :: int

fun cgi_do :: "cgi_world \<Rightarrow> cgi_call \<Rightarrow> cgi \<Rightarrow> effect" where
  "cgi_do w (Call_header k v) = SetHeader (cw_strip w) k v"
| "cgi_do w (Call_content_type type charset) = SetContentType type charset"
| "cgi_do w (Call_status status) = SetStatusCode status"
| "cgi_do w (Call_redirect url moved) = Redirect url moved"
| "cgi_do w (Call_cookie k v age path domain flags) = SetCookie (cw_strip w) (cw_date w) (cw_now w) k v age path domain flags"
| "cgi_do w (Call_remove_cookie k path domain) = RemoveCookie (cw_strip w) (cw_date w) (cw_now w) k path domain"
| "cgi_do w (Call_buffered b) = SetBodyBuffered (cw_wire w) b"
| "cgi_do w (Call_output s) = OutputBody (cw_wire w) s"
| "cgi_do w Call_end = End"
| "cgi_do w (Call_throw e) = (\<lambda>c. (Some e, c))"

fun cgi_calls :: "cgi_world \<Rightarrow> cgi_call list \<Rightarrow> cgi \<Rightarrow> effect" where
  "cgi_calls w [] c = (None, c)"
| "cgi_calls w (a # as) c = and_then (cgi_do w a c) (cgi_calls w as)"

text \<open>A filter makes calls, and comes to a result unless one of them throws.\<close>

datatype filter_result = kResultPass | kResultFail | kResultBreak | kResultNext

type_synonym cgi_filter = "cgi \<Rightarrow> cgi_call list \<times> filter_result"

text \<open>The loop over the filters: what is thrown, the state, and \<open>ready\<close>.\<close>

fun run_filters :: "cgi_world \<Rightarrow> cgi_filter list \<Rightarrow> bool \<Rightarrow> cgi \<Rightarrow> effect \<times> bool" where
  "run_filters w [] ready c = ((None, c), ready)"
| "run_filters w (f # fs) ready c =
    (let (calls, ret) = f c; r = cgi_calls w calls c in
     if fst r \<noteq> None then (r, ready)
     else let ready' = (if ret = kResultFail \<or> ret = kResultNext then False else ready) in
       if ret = kResultFail \<or> ret = kResultBreak then (r, ready') else run_filters w fs ready' (snd r))"

definition ProcessRequest :: "cgi_world \<Rightarrow> cgi_filter list \<Rightarrow> (cgi \<Rightarrow> cgi_call list) \<Rightarrow> cgi \<Rightarrow> effect" where
  "ProcessRequest w filters run c =
    (let (r, ready) = run_filters w filters True c;
         r = (if fst r = None \<and> ready then cgi_calls w (run (snd r)) (snd r) else r)
     in if fst r \<noteq> None \<and> fst r \<noteq> Some End_exception then r
        else FlushBody (cw_wire w) ((snd r)\<lparr>cg_request_handled := True\<rparr>))"

text \<open>The common filters.\<close>

definition HttpsFilter :: "nat \<Rightarrow> cgi_filter" where
  "HttpsFilter port c =
    (if cgi_server c ''REQUEST_SCHEME'' = ''https'' then ([], kResultPass)
     else let port = (if port = 0 then 443 else port);
              hostname = takeWhile (\<lambda>ch. ch \<noteq> CHR '':'') (cgi_server c ''HTTP_HOST'');
              url = ''https://'' @ hostname @ (if port \<noteq> 443 then '':'' @ dec_string (int port) else []) @ cgi_server c ''REQUEST_URI''
       in ([Call_redirect url False], kResultFail))"

definition NoCacheFilter :: cgi_filter where
  "NoCacheFilter c =
    ([Call_header ''Cache-Control'' ''private, no-cache, no-store, must-revalidate, max-age=0'', Call_header ''Pragma'' ''no-cache''],
     kResultPass)"

definition AllowedMethodsFilter :: "string \<Rightarrow> cgi_filter" where
  "AllowedMethodsFilter methods c =
    (if cgi_server c ''REQUEST_METHOD'' \<notin> explode_set methods '','' then [Call_throw (Http_exception 405)] else [], kResultPass)"

definition DeniedMethodsFilter :: "string \<Rightarrow> cgi_filter" where
  "DeniedMethodsFilter methods c =
    (if cgi_server c ''REQUEST_METHOD'' \<in> explode_set methods '','' then [Call_throw (Http_exception 405)] else [], kResultPass)"

definition AllowedContentTypeFilter :: "string \<Rightarrow> cgi_filter" where
  "AllowedContentTypeFilter allowed c =
    (let t = cgi_server c ''CONTENT_TYPE''; alen = length allowed in
     (if length t < alen \<or> (length t > alen \<and> t ! alen \<noteq> CHR '';'') \<or> take alen t \<noteq> allowed
      then [Call_throw (Http_exception 400)] else [], kResultPass))"

text \<open>
  The body of a POST request that ClearSilver does not parse. Each read gives the next of \<open>reads\<close>, and nothing
  when they are used up.
\<close>

datatype parsed = Parsed string | Invalid_length | Short_read string

fun read_body :: "string list \<Rightarrow> int \<Rightarrow> int \<Rightarrow> string \<Rightarrow> int \<times> string" where
  "read_body [] expected len body = (len, body)"
| "read_body (r # reads) expected len body =
    (if r = [] then (len, body)
     else let len' = len + int (length r); body' = body @ r in
       if len' < expected then read_body reads expected len' body' else (len', body'))"

definition Parse :: "bool \<Rightarrow> string list \<Rightarrow> cgi \<Rightarrow> parsed" where
  "Parse erange reads c =
    (let expected = atoi32 erange (Some (Value_Tree.c_str (cgi_server c ''CONTENT_LENGTH'')));
         type = Value_Tree.c_str (cgi_server c ''CONTENT_TYPE'') in
     if expected < 0 then Invalid_length
     else if expected = 0 then Parsed []
     else if type = ''application/x-www-form-urlencoded'' \<or> take 19 type = ''multipart/form-data'' then Parsed []
     else let (len, body) = read_body reads expected 0 [] in if len \<noteq> expected then Short_read body else Parsed body)"

text \<open>
  The trees of values, from the pairs ClearSilver gives; \<open>is_file\<close> tells whether a key of the POST data is a file.
\<close>

definition TranslatePairs :: "(string \<times> string) list \<Rightarrow> tree \<Rightarrow> tree" where
  "TranslatePairs kvs maps = fold (\<lambda>(k, v). TreeSet k v) kvs maps"

definition TranslatePost :: "(string \<Rightarrow> bool) \<Rightarrow> (string \<times> string) list \<Rightarrow> tree \<Rightarrow> tree" where
  "TranslatePost is_file kvs posts = fold (\<lambda>(k, v) t. if is_file k then t else TreeSet k v t) kvs posts"

definition request_all :: "tree \<Rightarrow> tree \<Rightarrow> tree" where
  "request_all queries posts = Merge True (assign_tree new_tree queries) posts"

section \<open>Error pages\<close>

definition nl :: string where "nl = [CHR 0x0A]"
definition dq :: string where "dq = [CHR 0x22]"

text \<open>The part of the page that depends on the status; \<open>final\<close>, \<open>admin\<close> and \<open>methd\<close> are escaped.\<close>

definition page_text :: "int \<Rightarrow> string \<Rightarrow> string \<Rightarrow> string \<Rightarrow> string" where
  "page_text status final admin methd =
    (if status \<in> {301, 302, 307, 308} then
       ''<p>The document has moved <a href='' @ dq @ final @ dq @ ''>here</a>.</p>'' @ nl
     else if status = 303 then
       ''<p>The answer to your request is located <a href='' @ dq @ final @ dq @ ''>here</a>.</p>'' @ nl
     else if status = 305 then
       ''<p>This resource is only accessible through the proxy'' @ nl @ final @ ''<br />'' @ nl @
       ''You will need to configure your client to use that proxy.</p>'' @ nl
     else if status = 400 then
       ''<p>Your browser sent a request that this server could not understand.<br />'' @ nl
     else if status \<in> {403, 407} then
       ''<p>You don'' @ [CHR 0x27] @ ''t have permission to access '' @ final @ nl @ ''on this server.<br /></p>'' @ nl
     else if status = 404 then
       ''<p>The requested URL '' @ final @ '' was not found on this server.</p>'' @ nl
     else if status = 405 then
       ''<p>The requested method '' @ methd @ '' is not allowed for the URL '' @ final @ ''.</p>'' @ nl
     else if status = 406 then
       ''<p>An appropriate representation of the requested resource '' @ final @ '' could not be found on this server.</p>'' @ nl
     else if status = 412 then
       ''<p>The precondition on the request for the URL '' @ final @ '' evaluated to false.</p>'' @ nl
     else if status = 415 then
       ''<p>The supplied request data is not in a format'' @ nl @ ''acceptable for processing by this resource.</p>'' @ nl
     else if status = 416 then
       ''<p>None of the range-specifier values in the Range'' @ nl @ ''request-header field overlap the current extent'' @ nl @
       ''of the selected resource.</p>'' @ nl
     else if status = 428 then
       ''<p>The request is required to be conditional.</p>'' @ nl
     else if status = 501 then
       ''<p>'' @ methd @ '' to '' @ final @ '' not supported.<br /></p>'' @ nl
     else if status = 502 then
       ''<p>The proxy server received an invalid'' @ nl @ ''response from an upstream server.<br /></p>'' @ nl
     else if status = 503 then
       ''<p>The server is temporarily unable to service your'' @ nl @ ''request due to maintenance downtime or capacity'' @ nl @
       ''problems. Please try again later.</p>'' @ nl
     else if status = 504 then
       ''<p>The gateway did not receive a timely response'' @ nl @ ''from the upstream server or application.</p>'' @ nl
     else
       ''<p>The server encountered an internal error or'' @ nl @ ''misconfiguration and was unable to complete'' @ nl @
       ''your request.</p>'' @ nl @ ''<p>Please contact the server administrator at '' @ nl @
       '' '' @ admin @ '' to inform them of the time this error occurred,'' @ nl @
       '' and the actions you performed just before this error.</p>'' @ nl @
       ''<p>More information about this error may be available'' @ nl @ ''in the server error log.</p>'' @ nl)"

definition error_page :: "int \<Rightarrow> string \<Rightarrow> string \<Rightarrow> string \<Rightarrow> string \<Rightarrow> string" where
  "error_page status reason final admin methd =
    ''<!DOCTYPE HTML PUBLIC '' @ dq @ ''-//IETF//DTD HTML 2.0//EN'' @ dq @ ''>'' @ nl @ ''<html><head>'' @ nl @
    ''<title>'' @ dec_string status @ '' '' @ reason @ ''</title>'' @ nl @ ''</head><body>'' @ nl @
    ''<h1>'' @ reason @ ''</h1>'' @ nl @ page_text status final admin methd @ ''</body></html>'' @ nl"

text \<open>The calls of \<open>RunStandardHandler\<close>; \<open>decode\<close> is \<open>DecodeUrl\<close>.\<close>

definition RunStandardHandler :: "(string \<Rightarrow> string) \<Rightarrow> int \<Rightarrow> cgi \<Rightarrow> cgi_call list" where
  "RunStandardHandler decode status_code c =
    (let known = (smap_find kHttpStatusCodes status_code \<noteq> None);
         status = (if known then status_code else 500);
         reason = the (smap_find kHttpStatusCodes status);
         path = takeWhile (\<lambda>ch. ch \<noteq> CHR ''?'') (cgi_server c ''REQUEST_URI'')
     in [Call_status status_code, Call_buffered True, Call_content_type ''text/html'' ''iso-8859-1'',
         Call_output (error_page status reason (EscapeHtml (decode path) False)
           (EscapeHtml (cgi_server c ''SERVER_ADMIN'') False) (EscapeHtml (cgi_server c ''REQUEST_METHOD'') False))])"

text \<open>The default handler, a \<open>CGI\<close> without filters.\<close>

definition default_handler :: "cgi_world \<Rightarrow> (string \<Rightarrow> string) \<Rightarrow> int \<Rightarrow> tree \<Rightarrow> effect" where
  "default_handler w decode status_code server =
    ProcessRequest w [] (RunStandardHandler decode status_code) (new_cgi server)"

section \<open>The dispatcher\<close>

record 'h dispatcher =
  dp_factories :: "(string, 'h) smap"
  dp_site_root :: string
  dp_single_handler_mode :: bool

definition new_dispatcher :: "'h dispatcher" where
  "new_dispatcher = \<lparr>dp_factories = [], dp_site_root = ''/'', dp_single_handler_mode = True\<rparr>"

definition set_site_root :: "string \<Rightarrow> 'h dispatcher \<Rightarrow> 'h dispatcher option" where
  "set_site_root root d =
    (if root = [] \<or> hd root \<noteq> CHR ''/'' \<or> last root \<noteq> CHR ''/'' then None else Some (d\<lparr>dp_site_root := root\<rparr>))"

definition RegisterFactory :: "'h \<Rightarrow> string \<Rightarrow> 'h dispatcher \<Rightarrow> 'h dispatcher" where
  "RegisterFactory factory path d = d\<lparr>dp_factories := smap_put path factory (dp_factories d)\<rparr>"

definition PassthroughDispatcher :: "string \<Rightarrow> string" where
  "PassthroughDispatcher request_uri = takeWhile (\<lambda>ch. ch \<noteq> CHR ''?'') request_uri"

datatype 'h handler = No_handler | Default_handler | The_handler 'h

text \<open>There are no system factories; \<open>to_path\<close> is the custom dispatcher, \<open>uri\<close> the variable \<open>REQUEST_URI\<close>.\<close>

definition GetHandler :: "(string \<Rightarrow> string) \<Rightarrow> string option \<Rightarrow> 'h dispatcher \<Rightarrow> 'h handler" where
  "GetHandler to_path uri d =
    (if dp_single_handler_mode d \<and> length (dp_factories d) = 1 then The_handler (snd (hd (dp_factories d)))
     else (case uri of
         None \<Rightarrow> No_handler
       | Some path \<Rightarrow>
           if path = [] \<or> hd path \<noteq> CHR ''/'' then No_handler
           else let cut = takeWhile (\<lambda>ch. ch \<noteq> CHR ''?'') path; n = length (dp_site_root d) in
             if take n cut \<noteq> dp_site_root d then Default_handler
             else let u = to_path (drop (n - 1) path) in
               if u = [] then Default_handler
               else (case smap_find (dp_factories d) u of Some h \<Rightarrow> The_handler h | None \<Rightarrow> Default_handler)))"

text \<open>
  \<open>DispatchRequest\<close>: the result and what has been put out, or an exception that leaves it. \<open>build h\<close> is the
  constructor of a handler and \<open>process h\<close> its \<open>ProcessRequest\<close>.
\<close>

datatype dispatched = Dispatched bool "string list" | Escaped cgi_exception

definition ProcessException :: "cgi_world \<Rightarrow> (string \<Rightarrow> string) \<Rightarrow> tree \<Rightarrow> cgi option \<Rightarrow> int \<Rightarrow> dispatched" where
  "ProcessException w decode server c status =
    (if (case c of None \<Rightarrow> True | Some c \<Rightarrow> \<not> cg_header_sent c) then
       (case default_handler w decode status server of
          (Some e, _) \<Rightarrow> Escaped e
        | (None, c') \<Rightarrow> Dispatched True (cg_out c'))
     else Dispatched True (cg_out (the c)))"

definition DispatchRequest :: "cgi_world \<Rightarrow> (string \<Rightarrow> string) \<Rightarrow> (string \<Rightarrow> string) \<Rightarrow> tree \<Rightarrow> string option \<Rightarrow>
    ('h \<Rightarrow> cgi_exception option) \<Rightarrow> ('h \<Rightarrow> effect) \<Rightarrow> 'h dispatcher \<Rightarrow> dispatched" where
  "DispatchRequest w decode to_path server uri build process d =
    (let caught = (\<lambda>c e. case e of
         Http_exception status \<Rightarrow> ProcessException w decode server c status
       | _ \<Rightarrow> Dispatched False (case c of Some c \<Rightarrow> cg_out c | None \<Rightarrow> []));
         processed = (\<lambda>r. case r of (None, c) \<Rightarrow> Dispatched True (cg_out c) | (Some e, c) \<Rightarrow> caught (Some c) e)
     in case GetHandler to_path uri d of
          No_handler \<Rightarrow> Dispatched False []
        | Default_handler \<Rightarrow> processed (default_handler w decode 404 server)
        | The_handler h \<Rightarrow> (case build h of Some e \<Rightarrow> caught None e | None \<Rightarrow> processed (process h)))"

text \<open>
  A worker of the FastCGI server: the requests it accepts are dispatched one after the other. The number it
  finishes, and whether it ran to the end; an exception that is not caught ends the program.
\<close>

datatype worker_end = Worker_returns bool | Terminates

fun fcgi_worker :: "('r \<Rightarrow> dispatched) \<Rightarrow> 'r list \<Rightarrow> nat \<times> worker_end" where
  "fcgi_worker dispatch [] = (0, Worker_returns True)"
| "fcgi_worker dispatch (r # rs) = (case dispatch r of
      Dispatched ok out \<Rightarrow>
        if \<not> ok then (0, Worker_returns False)
        else (case fcgi_worker dispatch rs of (n, e) \<Rightarrow> (Suc n, e))
    | Escaped e \<Rightarrow> (0, Terminates))"

section \<open>The environment of a FastCGI request\<close>

text \<open>A cell of \<open>envp\<close>: a string, the null that ends it, or memory that has not been written.\<close>

datatype env_cell = Env string | Env_null | Env_unset

text \<open>\<open>None\<close>: the loop reads memory that has not been written.\<close>

fun env_find :: "string \<Rightarrow> env_cell list \<Rightarrow> nat option option" where
  "env_find k [] = None"
| "env_find k (Env_unset # es) = None"
| "env_find k (Env_null # es) = Some None"
| "env_find k (Env s # es) = (if take (length k) s = k then Some (Some 0) else map_option (map_option Suc) (env_find k es))"

fun env_count :: "env_cell list \<Rightarrow> nat" where
  "env_count (Env s # es) = Suc (env_count es)"
| "env_count _ = 0"

definition EmulatedPutenv :: "string \<Rightarrow> string \<Rightarrow> env_cell list \<Rightarrow> env_cell list option" where
  "EmulatedPutenv key value envp =
    (let n = key @ ''='' @ value in
     case env_find (key @ ''='') envp of
       None \<Rightarrow> None
     | Some (Some i) \<Rightarrow> Some (envp[i := Env n])
     | Some None \<Rightarrow> let c = env_count envp in Some (take c envp @ [Env n] @ replicate 1 Env_unset))"

text \<open>The entry \<open>i\<close>: \<open>Some None\<close> at the end, or where there is no \<open>=\<close>.\<close>

definition EmulatedIterenv :: "nat \<Rightarrow> env_cell list \<Rightarrow> (string \<times> string) option option" where
  "EmulatedIterenv i envp = (if i < length envp then
      (case envp ! i of
         Env_unset \<Rightarrow> None
       | Env_null \<Rightarrow> Some None
       | Env s \<Rightarrow> if CHR ''='' \<in> set s
           then Some (Some (takeWhile (\<lambda>ch. ch \<noteq> CHR ''='') s, tl (dropWhile (\<lambda>ch. ch \<noteq> CHR ''='') s)))
           else Some None)
    else None)"

text \<open>\<open>setenv\<close> of the process, and what \<open>RunAsExecutable\<close> sets up; \<open>None\<close>: the path is not valid.\<close>

definition setenv :: "string \<Rightarrow> string \<Rightarrow> bool \<Rightarrow> (string, string) smap \<Rightarrow> (string, string) smap" where
  "setenv k v overwrite env = (if overwrite \<or> smap_find env k = None then smap_put k v env else env)"

definition executable_environment :: "string option \<Rightarrow> (string, string) smap \<Rightarrow> (string, string) smap option" where
  "executable_environment arg env =
    (if (case arg of Some a \<Rightarrow> a = [] \<or> hd a \<noteq> CHR ''/'' | None \<Rightarrow> False) then None
     else let env = (case arg of Some a \<Rightarrow> setenv ''REQUEST_URI'' a True env | None \<Rightarrow> setenv ''REQUEST_URI'' ''/'' False env);
              path = the (smap_find env ''REQUEST_URI'');
              env = (if CHR ''?'' \<in> set path then
                       setenv ''QUERY_STRING'' (tl (dropWhile (\<lambda>ch. ch \<noteq> CHR ''?'') path)) True
                         (setenv ''SCRIPT_NAME'' (takeWhile (\<lambda>ch. ch \<noteq> CHR ''?'') path) True env)
                     else env)
       in Some (fold (\<lambda>(k, v, ov). setenv k v ov)
         [(''HTTP_HOST'', ''localhost'', False), (''REMOTE_ADDR'', ''127.0.0.1'', False), (''REMOTE_PORT'', ''49152'', False),
          (''REQUEST_METHOD'', ''GET'', False), (''REQUEST_SCHEME'', ''http'', False), (''SERVER_ADDR'', ''127.0.0.1'', False),
          (''SERVER_PORT'', ''80'', False), (''GATEWAY_INTERFACE'', ''CGI/1.1'', True), (''SERVER_PROTOCOL'', ''HTTP/1.1'', True),
          (''SERVER_SOFTWARE'', ''Apache'', True)] env))"

end
