(* ===== verification/Fast_Cgi_Correct.thy ===== *)
theory Fast_Cgi_Correct
  imports Fast_Cgi
begin

text \<open>
  What the client of a web server is sent: the headers once and before the body, the output of the handler in
  order and complete, the page of an error instead of the output of a handler that failed, which shows the text
  of the request as text; which handler a path has; what is wrong with the error path.
\<close>

named_theorems cgi_simps \<open>the operations on a response\<close>

lemma and_then_None [simp]: "and_then (None, c) f = f c"
  by (simp add: and_then_def)

lemma and_then_Some [simp]: "and_then (Some e, c) f = (Some e, c)"
  by (simp add: and_then_def)

lemma and_then_eqD:
  "and_then r f = (e, c') \<Longrightarrow> (\<exists>c. r = (None, c) \<and> f c = (e, c')) \<or> (\<exists>x. r = (Some x, c') \<and> e = Some x)"
  by (cases r) (auto simp: and_then_def split: option.splits)

section \<open>What is written\<close>

lemma concat_pieces: "concat (pieces n s) = s"
proof (induction n s rule: pieces.induct)
  case (1 n s)
  then show ?case by (subst pieces.simps) simp
qed

lemma write_pieces_ok:
  "\<forall>ps. wire ps \<Longrightarrow> write_pieces wire ps c = (None, c\<lparr>cg_out := cg_out c @ ps\<rparr>)"
  by (induction ps arbitrary: c) auto

lemma RealOutput_ok:
  "\<forall>ps. wire ps \<Longrightarrow> RealOutput wire s c = (None, c\<lparr>cg_out := cg_out c @ pieces kMaximum s\<rparr>)"
  by (simp add: RealOutput_def write_pieces_ok)

lemma fold_RealOutput_ok:
  assumes "\<forall>ps. wire ps"
  shows "fold (\<lambda>h r. and_then r (RealOutput wire (f h))) hs (None, c) =
    (None, c\<lparr>cg_out := cg_out c @ concat (map (\<lambda>h. pieces kMaximum (f h)) hs)\<rparr>)"
  using assms by (induction hs arbitrary: c) (simp_all add: RealOutput_ok)

lemma concat_concat_pieces: "concat (concat (map (\<lambda>h. pieces n (f h)) hs)) = concat (map f hs)"
  by (induction hs) (simp_all add: concat_pieces)

text \<open>The text of the headers.\<close>

definition head_text :: "int \<Rightarrow> string \<Rightarrow> (string \<times> string) list \<Rightarrow> string" where
  "head_text status reason hs = status_line status reason @ concat (map header_line hs) @ [CHR 0x0A]"

lemma OutputHeaders_ok:
  assumes "\<forall>ps. wire ps" and "smap_find kHttpStatusCodes (cg_status c) = Some reason" and "\<not> cg_header_sent c"
  obtains out where "OutputHeaders wire c = (None, c\<lparr>cg_header_sent := True, cg_out := out\<rparr>)"
    and "concat out = concat (cg_out c) @ head_text (cg_status c) reason (cg_headers c)"
proof -
  let ?p = "pieces kMaximum"
  let ?out = "cg_out c @ ?p (status_line (cg_status c) reason) @
    concat (map (\<lambda>h. ?p (header_line h)) (cg_headers c)) @ ?p [CHR 0x0A]"
  have "OutputHeaders wire c = (None, c\<lparr>cg_header_sent := True, cg_out := ?out\<rparr>)"
    using assms by (simp add: OutputHeaders_def OutputStatusHeader_def RealOutput_ok fold_RealOutput_ok)
  moreover have "concat ?out = concat (cg_out c) @ head_text (cg_status c) reason (cg_headers c)"
    by (simp add: concat_pieces concat_concat_pieces head_text_def)
  ultimately show thesis by (rule that)
qed

lemma OutputHeaders_sent: "cg_header_sent c \<Longrightarrow> OutputHeaders wire c = (None, c)"
  by (simp add: OutputHeaders_def)

section \<open>The invariant of a response\<close>

definition known_status :: "int \<Rightarrow> bool" where
  "known_status status \<longleftrightarrow> smap_find kHttpStatusCodes status \<noteq> None"

text \<open>\<open>body\<close> is all that the handler has put out so far.\<close>

definition head_ok :: "cgi \<Rightarrow> string \<Rightarrow> bool" where
  "head_ok c body \<longleftrightarrow>
    (if cg_header_sent c
     then \<exists>status reason. smap_find kHttpStatusCodes status = Some reason \<and>
       concat (cg_out c) @ cg_buffered_body c = head_text status reason (cg_headers c) @ body
     else cg_out c = [] \<and> cg_buffered_body c = body)"

definition cgi_ok :: "string \<Rightarrow> cgi \<Rightarrow> bool" where
  "cgi_ok body c \<longleftrightarrow> known_status (cg_status c) \<and> head_ok c body"

definition no_length :: "cgi \<Rightarrow> bool" where
  "no_length c \<longleftrightarrow> ''Content-Length'' \<notin> fst ` set (cg_headers c)"

lemma find_fold_insert:
  "smap_wf m \<Longrightarrow> smap_find (fold (\<lambda>(k, v). smap_insert k v) xs m) k =
    (case smap_find m k of Some v \<Rightarrow> Some v | None \<Rightarrow> map_of xs k)"
  by (induction xs arbitrary: m) (auto split: option.splits)

lemma find_status: "smap_find kHttpStatusCodes status = map_of kStatusCodes status"
  by (simp add: kHttpStatusCodes_def find_fold_insert)

lemma known_standard: "known_status 200" "known_status 301" "known_status 302"
  by (simp_all add: known_status_def find_status kStatusCodes_def)

lemma new_cgi_ok: "cgi_ok [] (new_cgi server) \<and> no_length (new_cgi server) \<and> \<not> cg_request_handled (new_cgi server)"
  by (simp add: cgi_ok_def head_ok_def new_cgi_def known_standard no_length_def)

lemma SetHeaderInternal_sent: "cg_header_sent c \<Longrightarrow> SetHeaderInternal k v d c = (Some Logic_error, c)"
  by (simp add: SetHeaderInternal_def)

lemma set_header_adds: "set (set_header k v d hs) \<subseteq> insert (k, v) (set hs)"
proof -
  have "set (tl (dropWhile (\<lambda>h. fst h \<noteq> k) hs)) \<subseteq> set hs"
    by (metis list.set_sel(2) set_dropWhileD subsetI tl_Nil)
  then show ?thesis by (auto simp: set_header_def set_mmap_insert dest: set_takeWhileD)
qed

lemma SetHeaderInternal_unsent:
  "\<not> cg_header_sent c \<Longrightarrow> SetHeaderInternal k v d c = (None, c\<lparr>cg_headers := set_header k v d (cg_headers c)\<rparr>)"
  by (simp add: SetHeaderInternal_def)

lemma head_ok_headers:
  "\<not> cg_header_sent c \<Longrightarrow> head_ok (c\<lparr>cg_headers := hs\<rparr>) body = head_ok c body"
  by (simp add: head_ok_def)

lemma cgi_ok_headers: "\<not> cg_header_sent c \<Longrightarrow> cgi_ok body (c\<lparr>cg_headers := hs\<rparr>) = cgi_ok body c"
  by (simp add: cgi_ok_def head_ok_headers)

lemma cgi_ok_handled: "cgi_ok body (c\<lparr>cg_request_handled := b\<rparr>) = cgi_ok body c"
  by (simp add: cgi_ok_def head_ok_def)

text \<open>What the calls keep of a state.\<close>

definition cgi_keeps :: "cgi \<Rightarrow> cgi \<Rightarrow> bool" where
  "cgi_keeps c c' \<longleftrightarrow> cg_request_handled c' = cg_request_handled c \<and> (no_length c \<longrightarrow> no_length c') \<and>
    cg_buffered c' = cg_buffered c \<and> cg_buffered_body c' = cg_buffered_body c"

lemma cgi_keeps_refl [simp]: "cgi_keeps c c"
  by (simp add: cgi_keeps_def)

lemma cgi_keeps_trans: "cgi_keeps a b \<Longrightarrow> cgi_keeps b c \<Longrightarrow> cgi_keeps a c"
  by (simp add: cgi_keeps_def)

lemma SetHeaderInternal_ok:
  assumes "SetHeaderInternal k v d c = (e, c')" and "k \<noteq> ''Content-Length''" and "cgi_ok body c"
  shows "cgi_ok body c' \<and> cgi_keeps c c'"
proof (cases "cg_header_sent c")
  case True
  then show ?thesis using assms by (simp add: SetHeaderInternal_sent)
next
  case False
  then have "c' = c\<lparr>cg_headers := set_header k v d (cg_headers c)\<rparr>"
    using assms by (simp add: SetHeaderInternal_unsent)
  then show ?thesis using assms False set_header_adds [of k v d "cg_headers c"]
    by (auto simp: cgi_ok_headers cgi_keeps_def no_length_def)
qed

text \<open>The end of \<open>FlushBody\<close>.\<close>

lemma flush_tail:
  assumes w: "\<forall>ps. wire ps" and ok: "cgi_ok body c"
  obtains c' where "and_then (OutputHeaders wire (c\<lparr>cg_buffered_body := []\<rparr>))
      (\<lambda>c1. RealOutput wire (cg_buffered_body c) (c1\<lparr>cg_body_sent := True\<rparr>)) = (None, c')"
    and "cgi_ok body c'" and "cg_header_sent c'" and "cg_buffered_body c' = []"
    and "cg_headers c' = cg_headers c" and "cg_request_handled c' = cg_request_handled c" and "cg_buffered c' = cg_buffered c"
proof (cases "cg_header_sent c")
  case True
  show thesis
    by (rule that [of "c\<lparr>cg_buffered_body := [], cg_body_sent := True, cg_out := cg_out c @ pieces kMaximum (cg_buffered_body c)\<rparr>"])
      (use w ok True in \<open>simp_all add: OutputHeaders_sent RealOutput_ok cgi_ok_def head_ok_def concat_pieces\<close>)
next
  case False
  obtain reason where r: "smap_find kHttpStatusCodes (cg_status c) = Some reason"
    using ok by (auto simp: cgi_ok_def known_status_def)
  obtain out where o: "OutputHeaders wire (c\<lparr>cg_buffered_body := []\<rparr>) =
      (None, c\<lparr>cg_buffered_body := [], cg_header_sent := True, cg_out := out\<rparr>)"
      "concat out = concat (cg_out c) @ head_text (cg_status c) reason (cg_headers c)"
    by (rule OutputHeaders_ok [OF w, of "c\<lparr>cg_buffered_body := []\<rparr>" reason]) (use r False in simp_all)
  show thesis
    by (rule that [of "c\<lparr>cg_buffered_body := [], cg_header_sent := True, cg_body_sent := True,
        cg_out := out @ pieces kMaximum (cg_buffered_body c)\<rparr>"])
      (use w ok False o r in \<open>auto simp: RealOutput_ok cgi_ok_def head_ok_def concat_pieces\<close>)
qed

lemma OutputHeaders_keeps:
  assumes w: "\<forall>ps. wire ps" and ok: "cgi_ok body c" and e: "cg_header_sent c \<or> cg_buffered_body c = []"
  obtains c' where "OutputHeaders wire c = (None, c')" and "cgi_ok body c'" and "cg_header_sent c'"
    and "cg_buffered_body c' = cg_buffered_body c"
    and "cg_headers c' = cg_headers c" and "cg_request_handled c' = cg_request_handled c" and "cg_buffered c' = cg_buffered c"
proof (cases "cg_header_sent c")
  case True
  then show thesis using that ok by (simp add: OutputHeaders_sent)
next
  case False
  obtain reason where r: "smap_find kHttpStatusCodes (cg_status c) = Some reason"
    using ok by (auto simp: cgi_ok_def known_status_def)
  obtain out where o: "OutputHeaders wire c = (None, c\<lparr>cg_header_sent := True, cg_out := out\<rparr>)"
      "concat out = concat (cg_out c) @ head_text (cg_status c) reason (cg_headers c)"
    by (rule OutputHeaders_ok [OF w r False])
  show thesis
    by (rule that [of "c\<lparr>cg_header_sent := True, cg_out := out\<rparr>"])
      (use ok False o r e in \<open>auto simp: cgi_ok_def head_ok_def\<close>)
qed

text \<open>While the handler runs.\<close>

definition running_ok :: "string \<Rightarrow> cgi \<Rightarrow> bool" where
  "running_ok body c \<longleftrightarrow> cgi_ok body c \<and> no_length c \<and> \<not> cg_request_handled c \<and>
    (cg_buffered c \<or> cg_buffered_body c = [])"

definition length_right :: "string \<Rightarrow> cgi \<Rightarrow> bool" where
  "length_right body c \<longleftrightarrow> (\<forall>v. (''Content-Length'', v) \<in> set (cg_headers c) \<longrightarrow> v = dec_string (int (length body)))"

lemma no_length_right: "no_length c \<Longrightarrow> length_right body c"
  by (force simp: no_length_def length_right_def)

text \<open>The header that \<open>FlushBody\<close> sets before it sends the buffer.\<close>

definition flush_header :: "cgi \<Rightarrow> effect" where
  "flush_header c =
    (if cg_header_sent c then (None, c)
     else if cg_request_handled c
     then SetHeaderInternal ''Content-Length'' (dec_string (int (length (cg_buffered_body c)))) False c
     else SetHeaderInternal ''Transfer-Encoding'' ''chunked'' False c)"

lemma flush_header_ok:
  assumes "cgi_ok body c" and "no_length c"
  obtains c1 where "flush_header c = (None, c1)" and "cgi_ok body c1" and "cg_buffered_body c1 = cg_buffered_body c"
    and "cg_request_handled c1 = cg_request_handled c" and "cg_buffered c1 = cg_buffered c"
    and "length_right body c1" and "\<not> cg_request_handled c \<longrightarrow> no_length c1"
proof (cases "cg_header_sent c")
  case True
  then show thesis using that [of c] assms by (simp add: flush_header_def no_length_right)
next
  case False
  let ?kv = "if cg_request_handled c then (''Content-Length'', dec_string (int (length (cg_buffered_body c))))
    else (''Transfer-Encoding'', ''chunked'')"
  let ?hs = "set_header (fst ?kv) (snd ?kv) False (cg_headers c)"
  have b: "cg_buffered_body c = body" using assms(1) False by (simp add: cgi_ok_def head_ok_def)
  have hs: "set ?hs \<subseteq> insert ?kv (set (cg_headers c))" using set_header_adds by (metis prod.collapse)
  show thesis
  proof (rule that [of "c\<lparr>cg_headers := ?hs\<rparr>"])
    show "flush_header c = (None, c\<lparr>cg_headers := ?hs\<rparr>)"
      using False by (simp add: flush_header_def SetHeaderInternal_unsent)
    show "length_right body (c\<lparr>cg_headers := ?hs\<rparr>)"
      using hs assms(2) b by (force simp: length_right_def no_length_def split: if_splits)
    show "\<not> cg_request_handled c \<longrightarrow> no_length (c\<lparr>cg_headers := ?hs\<rparr>)"
      using hs assms(2) by (auto simp: no_length_def)
  qed (use False assms(1) in \<open>simp_all add: cgi_ok_headers\<close>)
qed

lemma FlushBody_ok:
  assumes w: "\<forall>ps. wire ps" and ok: "cgi_ok body c" and nl: "no_length c"
  obtains c' where "FlushBody wire c = (None, c')" and "cgi_ok body c'" and "cg_header_sent c'"
    and "cg_buffered_body c' = []" and "length_right body c'" and "cg_request_handled c' = cg_request_handled c"
    and "\<not> cg_request_handled c \<longrightarrow> no_length c'"
proof (cases "cg_buffered_body c = []")
  case True
  obtain c' where "OutputHeaders wire c = (None, c')" "cgi_ok body c'" "cg_header_sent c'"
    "cg_buffered_body c' = cg_buffered_body c" "cg_headers c' = cg_headers c" "cg_request_handled c' = cg_request_handled c"
    by (rule OutputHeaders_keeps [OF w ok]) (use True in auto)
  then show thesis using that [of c'] True nl no_length_right [OF nl]
    by (simp add: FlushBody_def length_right_def no_length_def)
next
  case False
  obtain c1 where h: "flush_header c = (None, c1)" "cgi_ok body c1" "cg_buffered_body c1 = cg_buffered_body c"
    "cg_request_handled c1 = cg_request_handled c" "length_right body c1" "\<not> cg_request_handled c \<longrightarrow> no_length c1"
    by (rule flush_header_ok [OF ok nl])
  obtain c' where t: "and_then (OutputHeaders wire (c1\<lparr>cg_buffered_body := []\<rparr>))
      (\<lambda>c2. RealOutput wire (cg_buffered_body c1) (c2\<lparr>cg_body_sent := True\<rparr>)) = (None, c')"
    "cgi_ok body c'" "cg_header_sent c'" "cg_buffered_body c' = []" "cg_headers c' = cg_headers c1"
    "cg_request_handled c' = cg_request_handled c1"
    by (rule flush_tail [OF w h(2)])
  have "FlushBody wire c = (None, c')"
    using False h(1) t(1) by (simp add: FlushBody_def flush_header_def Let_def)
  then show thesis using that [of c'] h t by (simp add: length_right_def no_length_def)
qed

section \<open>What the handler puts out\<close>

fun payload :: "cgi_call \<Rightarrow> string" where
  "payload (Call_output s) = s"
| "payload _ = []"

definition sound_world :: "cgi_world \<Rightarrow> bool" where
  "sound_world w \<longleftrightarrow> (\<forall>ps. cw_wire w ps) \<and> cw_strip w ''Content-Length'' = ''Content-Length''"

lemma status_update_ok: "running_ok body c \<Longrightarrow> known_status st \<Longrightarrow> running_ok body (c\<lparr>cg_status := st\<rparr>)"
  by (simp add: running_ok_def cgi_ok_def head_ok_def no_length_def)

lemma running_SetHeaderInternal:
  "SetHeaderInternal k v d c = (e, c') \<Longrightarrow> k \<noteq> ''Content-Length'' \<Longrightarrow> running_ok body c \<Longrightarrow> running_ok body c'"
  using SetHeaderInternal_ok [of k v d c e c' body] by (auto simp: running_ok_def cgi_keeps_def)

lemma running_OutputBody:
  assumes w: "\<forall>ps. wire ps" and ok: "running_ok body c"
  shows "\<exists>c'. OutputBody wire s c = (None, c') \<and> running_ok (body @ s) c'"
proof (cases "s = [] \<or> cg_buffered c")
  case True
  then show ?thesis using ok
    by (auto simp: OutputBody_def running_ok_def cgi_ok_def head_ok_def no_length_def)
next
  case False
  have ok': "cgi_ok body c" and e: "cg_buffered_body c = []" using ok False by (auto simp: running_ok_def cgi_ok_def)
  obtain c1 where "OutputHeaders wire c = (None, c1)" "cgi_ok body c1" "cg_header_sent c1"
    "cg_buffered_body c1 = cg_buffered_body c" "cg_headers c1 = cg_headers c" "cg_request_handled c1 = cg_request_handled c"
    by (rule OutputHeaders_keeps [OF w ok']) (use e in auto)
  then show ?thesis using False ok e w
    by (auto simp: OutputBody_def RealOutput_ok running_ok_def cgi_ok_def head_ok_def no_length_def concat_pieces)
qed

lemma running_SetBodyBuffered:
  assumes w: "\<forall>ps. wire ps" and ok: "running_ok body c"
  shows "\<exists>c'. SetBodyBuffered wire b c = (None, c') \<and> running_ok body c'"
proof (cases b)
  case True
  then show ?thesis using ok by (simp add: SetBodyBuffered_def running_ok_def cgi_ok_def head_ok_def no_length_def)
next
  case False
  let ?c = "c\<lparr>cg_buffered := b\<rparr>"
  have "cgi_ok body ?c" and "no_length ?c"
    using ok by (simp_all add: running_ok_def cgi_ok_def head_ok_def no_length_def)
  then obtain c' where "FlushBody wire ?c = (None, c')" "cgi_ok body c'" "cg_buffered_body c' = []"
    "cg_request_handled c' = cg_request_handled ?c" "\<not> cg_request_handled ?c \<longrightarrow> no_length c'"
    by (rule FlushBody_ok [OF w])
  then show ?thesis using ok False by (simp add: SetBodyBuffered_def running_ok_def Let_def)
qed

lemma lower_length: "map ascii_lower ''Content-Length'' = ''content-length''"
  by code_simp

lemma running_call:
  assumes w: "sound_world w" and ok: "running_ok body c" and d: "cgi_do w a c = (e, c')"
  shows "running_ok (body @ payload a) c'"
proof -
  have wire: "\<forall>ps. cw_wire w ps" using w by (simp add: sound_world_def)
  have f: "IsForbiddenToken (cw_strip w) ''Content-Length'' kForbiddenHeaders"
    using w by (simp add: sound_world_def IsForbiddenToken_def Value_Tree.c_str_def kForbiddenHeaders_def lower_length [simplified])
  have set: "running_ok body c2" if "SetHeaderInternal k v b c1 = (x, c2)" "k \<noteq> ''Content-Length''" "running_ok body c1"
    for k v b c1 x c2 using that by (rule running_SetHeaderInternal)
  show ?thesis
  proof (cases a)
    case (Call_header k v)
    then show ?thesis using d ok f set [of k v False c] by (auto simp: SetHeader_def split: if_splits)
  next
    case (Call_content_type x y)
    then show ?thesis using d ok set by (fastforce simp: SetContentType_def)
  next
    case (Call_status st)
    then show ?thesis using d ok status_update_ok by (auto simp: SetStatusCode_def known_status_def split: if_splits)
  next
    case (Call_redirect url m)
    then show ?thesis using d ok set [of "''Location''" url False c] status_update_ok known_standard
      by (auto simp: Redirect_def dest!: and_then_eqD)
  next
    case (Call_cookie k v age p dom fl)
    then show ?thesis using d ok set [of "''Set-Cookie''"] by (fastforce simp: SetCookie_def split: if_splits)
  next
    case (Call_remove_cookie k p dom)
    then show ?thesis using d ok set [of "''Set-Cookie''"] by (fastforce simp: RemoveCookie_def SetCookie_def split: if_splits)
  next
    case (Call_buffered b)
    then show ?thesis using d running_SetBodyBuffered [OF wire ok, of b] by auto
  next
    case (Call_output s)
    then show ?thesis using d running_OutputBody [OF wire ok, of s] by auto
  qed (use d ok in \<open>auto simp: End_def\<close>)
qed

text \<open>The output of the calls that are made: those up to the first that throws.\<close>

fun written :: "cgi_world \<Rightarrow> cgi_call list \<Rightarrow> cgi \<Rightarrow> string" where
  "written w [] c = []"
| "written w (a # as) c = payload a @ (case cgi_do w a c of (None, c') \<Rightarrow> written w as c' | _ \<Rightarrow> [])"

fun filters_written :: "cgi_world \<Rightarrow> cgi_filter list \<Rightarrow> cgi \<Rightarrow> string" where
  "filters_written w [] c = []"
| "filters_written w (f # fs) c =
    (let (calls, ret) = f c in written w calls c @
      (case cgi_calls w calls c of
         (None, c') \<Rightarrow> if ret = kResultFail \<or> ret = kResultBreak then [] else filters_written w fs c'
       | _ \<Rightarrow> []))"

definition request_written :: "cgi_world \<Rightarrow> cgi_filter list \<Rightarrow> (cgi \<Rightarrow> cgi_call list) \<Rightarrow> cgi \<Rightarrow> string" where
  "request_written w filters run c = filters_written w filters c @
    (case run_filters w filters True c of ((None, c'), True) \<Rightarrow> written w (run c') c' | _ \<Rightarrow> [])"

lemma running_calls:
  assumes "sound_world w" and "running_ok body c" and "cgi_calls w as c = (e, c')"
  shows "running_ok (body @ written w as c) c'"
  using assms
proof (induction as arbitrary: body c)
  case (Cons a as)
  obtain x c1 where d: "cgi_do w a c = (x, c1)" by fastforce
  have ok: "running_ok (body @ payload a) c1" by (rule running_call [OF Cons.prems(1,2) d])
  show ?case
    using Cons.IH [OF Cons.prems(1) ok] Cons.prems(3) ok d by (cases x) auto
qed simp

lemma running_filters:
  assumes "sound_world w" and "running_ok body c" and "run_filters w fs ready c = ((e, c'), ready')"
  shows "running_ok (body @ filters_written w fs c) c'"
  using assms
proof (induction fs arbitrary: body c ready)
  case (Cons f fs)
  obtain calls ret where f: "f c = (calls, ret)" by fastforce
  obtain x c1 where d: "cgi_calls w calls c = (x, c1)" by fastforce
  have ok: "running_ok (body @ written w calls c) c1" by (rule running_calls [OF Cons.prems(1,2) d])
  show ?case
    using Cons.IH [OF Cons.prems(1) ok] Cons.prems(3) ok d f
    by (cases x) (auto simp: Let_def split: if_splits)
qed simp

lemma running_request:
  assumes w: "sound_world w" and ok: "running_ok [] c"
    and p: "ProcessRequest w filters run c = (e, c')"
  shows "if e = None
    then cgi_ok (request_written w filters run c) c' \<and> cg_header_sent c' \<and> cg_buffered_body c' = [] \<and>
      length_right (request_written w filters run c) c'
    else running_ok (request_written w filters run c) c'"
proof -
  have wire: "\<forall>ps. cw_wire w ps" using w by (simp add: sound_world_def)
  obtain x c1 ready where f: "run_filters w filters True c = ((x, c1), ready)" by (metis prod.collapse)
  define r where "r = (if x = None \<and> ready then cgi_calls w (run c1) c1 else (x, c1))"
  have f_ok: "running_ok (filters_written w filters c) c1" using running_filters [OF w ok f] by simp
  have r_ok: "running_ok (request_written w filters run c) (snd r)"
  proof (cases "x = None \<and> ready")
    case True
    then show ?thesis using running_calls [OF w f_ok] f
      by (simp add: r_def request_written_def prod_eq_iff split_beta)
  next
    case False
    then have "request_written w filters run c = filters_written w filters c"
      using f by (auto simp: request_written_def split: option.splits bool.splits)
    then show ?thesis using f_ok False by (auto simp: r_def)
  qed
  have pr: "ProcessRequest w filters run c = (if fst r \<noteq> None \<and> fst r \<noteq> Some End_exception then r
      else FlushBody (cw_wire w) ((snd r)\<lparr>cg_request_handled := True\<rparr>))"
    unfolding r_def ProcessRequest_def f Let_def prod.case fst_conv snd_conv by (rule refl)
  show ?thesis
  proof (cases "fst r \<noteq> None \<and> fst r \<noteq> Some End_exception")
    case True
    then show ?thesis using pr p r_ok by auto
  next
    case False
    let ?c = "(snd r)\<lparr>cg_request_handled := True\<rparr>"
    have "cgi_ok (request_written w filters run c) ?c" and "no_length ?c"
      using r_ok by (simp_all add: running_ok_def cgi_ok_handled no_length_def)
    then obtain c2 where "FlushBody (cw_wire w) ?c = (None, c2)" "cgi_ok (request_written w filters run c) c2"
      "cg_header_sent c2" "cg_buffered_body c2 = []" "length_right (request_written w filters run c) c2"
      by (rule FlushBody_ok [OF wire])
    then show ?thesis using pr p False by auto
  qed
qed

lemma new_running_ok: "running_ok [] (new_cgi server)"
  using new_cgi_ok by (simp add: running_ok_def new_cgi_def)

text \<open>
  C11. A request that ends well is sent one status line, the headers, an empty line and all that its filters and
  its handler have put out, in order, whatever was buffered or flushed; a \<open>Content-Length\<close> is the length of that.
\<close>

theorem response_is_headers_then_body:
  assumes "sound_world w" and "ProcessRequest w filters run (new_cgi server) = (None, c)"
  shows "\<exists>status reason. smap_find kHttpStatusCodes status = Some reason \<and>
    concat (cg_out c) = status_line status reason @ concat (map header_line (cg_headers c)) @ [CHR 0x0A] @
      request_written w filters run (new_cgi server) \<and>
    (\<forall>v. (''Content-Length'', v) \<in> set (cg_headers c) \<longrightarrow>
      v = dec_string (int (length (request_written w filters run (new_cgi server)))))"
  using running_request [OF assms(1) new_running_ok assms(2)]
  by (auto simp: cgi_ok_def head_ok_def head_text_def length_right_def)

definition open_world :: cgi_world where
  "open_world = \<lparr>cw_wire = \<lambda>_. True, cw_strip = \<lambda>s. s, cw_date = \<lambda>_. [], cw_now = 0\<rparr>"

lemma open_world_sound: "sound_world open_world"
  by (simp add: sound_world_def open_world_def)

definition hello_handler :: "cgi \<Rightarrow> cgi_call list" where
  "hello_handler c = [Call_content_type ''text/plain'' [], Call_output ''Hello, '', Call_output ''world'', Call_end, Call_output ''!'']"

lemma request_returns:
  assumes w: "sound_world w" and f: "run_filters w filters True (new_cgi server) = ((None, c1), True)"
    and r: "cgi_calls w (run c1) c1 = (e, c2)" and e: "e = None \<or> e = Some End_exception"
  obtains c where "ProcessRequest w filters run (new_cgi server) = (None, c)"
proof -
  have "running_ok (filters_written w filters (new_cgi server)) c1"
    using running_filters [OF w new_running_ok f] by simp
  from running_calls [OF w this r] obtain body where ok: "running_ok body c2" by blast
  let ?c = "c2\<lparr>cg_request_handled := True\<rparr>"
  have wire: "\<forall>ps. cw_wire w ps" using w by (simp add: sound_world_def)
  have "cgi_ok body ?c" and "no_length ?c"
    using ok by (simp_all add: running_ok_def cgi_ok_handled no_length_def)
  then obtain c where "FlushBody (cw_wire w) ?c = (None, c)" by (rule FlushBody_ok [OF wire])
  then show thesis using that e by (auto simp: ProcessRequest_def f r)
qed

lemma hello_calls:
  "fst (cgi_calls open_world (hello_handler (new_cgi new_tree)) (new_cgi new_tree)) = Some End_exception"
  by (simp add: hello_handler_def SetContentType_def SetHeaderInternal_def OutputBody_def End_def new_cgi_def)

lemma hello_returns: "\<exists>c. ProcessRequest open_world [] hello_handler (new_cgi new_tree) = (None, c)"
proof -
  obtain e c2 where r: "cgi_calls open_world (hello_handler (new_cgi new_tree)) (new_cgi new_tree) = (e, c2)"
    by fastforce
  then have "e = Some End_exception" using hello_calls by simp
  then show ?thesis
    using request_returns [OF open_world_sound, of "[]" new_tree "new_cgi new_tree" hello_handler e c2] r by auto
qed

theorem response_is_headers_then_body_witness:
  "\<exists>(c::cgi) status reason. concat (cg_out c) = status_line status reason @ concat (map header_line (cg_headers c)) @ [CHR 0x0A] @
    request_written open_world [] hello_handler (new_cgi new_tree)"
proof -
  from hello_returns obtain c where "ProcessRequest open_world [] hello_handler (new_cgi new_tree) = (None, c)" ..
  from response_is_headers_then_body [OF open_world_sound this] show ?thesis
    by (elim exE conjE) (intro exI, assumption)
qed

section \<open>The page of an error\<close>

definition markup :: "string \<Rightarrow> string" where
  "markup s = filter (\<lambda>ch. ch \<in> {CHR ''<'', CHR ''>'', CHR 0x22, CHR 0x27}) s"

lemma markup_append: "markup (a @ b) = markup a @ markup b"
  by (simp add: markup_def)

lemma markup_escaped: "markup (EscapeHtml s ie) = []"
  using escape_html_roundtrip [of s ie] unfolding markup_def filter_empty_conv by blast

lemma markup_Nil: "markup [] = []"
  by (simp add: markup_def)

lemma markup_error_page:
  "markup (error_page status reason (EscapeHtml a ie) (EscapeHtml b ie) (EscapeHtml c ie)) =
   markup (error_page status reason [] [] [])"
  by (simp only: error_page_def page_text_def markup_append if_distrib [of markup] markup_escaped markup_Nil)

text \<open>The calls that \<open>RunStandardHandler\<close> makes for a status and a page.\<close>

definition standard_page :: "(string \<Rightarrow> string) \<Rightarrow> int \<Rightarrow> cgi \<Rightarrow> string" where
  "standard_page decode status_code c = concat (map payload (RunStandardHandler decode status_code c))"

lemma standard_handler:
  "RunStandardHandler decode status_code c =
    [Call_status status_code, Call_buffered True, Call_content_type ''text/html'' ''iso-8859-1'',
     Call_output (standard_page decode status_code c)]"
  by (simp only: standard_page_def RunStandardHandler_def Let_def list.map payload.simps concat.simps append_Nil append_Nil2)


section \<open>Exceptions of a handler\<close>

lemma standard_calls:
  assumes "smap_find kHttpStatusCodes st = Some reason"
  shows "cgi_calls w (RunStandardHandler decode st c0) (new_cgi server) =
    (None, (new_cgi server)\<lparr>cg_status := st, cg_headers := [(''Content-Type'', ''text/html; charset=iso-8859-1'')],
      cg_buffered_body := standard_page decode st c0\<rparr>)"
proof -
  have "cgi_calls w [Call_status st, Call_buffered True, Call_content_type ''text/html'' ''iso-8859-1'', Call_output page]
      (new_cgi server) =
    (None, (new_cgi server)\<lparr>cg_status := st, cg_headers := [(''Content-Type'', ''text/html; charset=iso-8859-1'')],
      cg_buffered_body := page\<rparr>)" for page
    using assms by (simp add: SetStatusCode_def SetBodyBuffered_def SetContentType_def SetHeaderInternal_def Let_def
      OutputBody_def new_cgi_def set_header_def mmap_insert_def)
  then show ?thesis unfolding standard_handler .
qed

text \<open>What the client is sent for an error.\<close>

definition error_response :: "(string \<Rightarrow> string) \<Rightarrow> tree \<Rightarrow> int \<Rightarrow> string \<Rightarrow> string" where
  "error_response decode server status reason =
    (let page = standard_page decode status (new_cgi server)
     in head_text status reason [(''Content-Length'', dec_string (int (length page))),
          (''Content-Type'', ''text/html; charset=iso-8859-1'')] @ page)"

lemma standard_page_nonempty: "standard_page decode status c \<noteq> []"
  by (simp add: standard_page_def RunStandardHandler_def error_page_def Let_def)

lemma dec_string_nonempty: "dec_string n \<noteq> []"
  by (simp add: dec_string_def, subst dec_digits.simps) simp

lemma length_before_type:
  "set_header ''Content-Length'' (dec_string n) False [(''Content-Type'', v)] = [(''Content-Length'', dec_string n), (''Content-Type'', v)]"
  by (simp add: set_header_def mmap_insert_def dec_string_nonempty)

lemma default_handler_responds:
  assumes w: "sound_world w" and st: "smap_find kHttpStatusCodes st = Some reason"
  obtains c where "default_handler w decode st server = (None, c)"
    and "concat (cg_out c) = error_response decode server st reason"
proof -
  let ?page = "standard_page decode st (new_cgi server)"
  let ?hs = "[(''Content-Length'', dec_string (int (length ?page))), (''Content-Type'', ''text/html; charset=iso-8859-1'')]"
  let ?c = "(new_cgi server)\<lparr>cg_status := st, cg_headers := ?hs, cg_request_handled := True\<rparr>"
  have wire: "\<forall>ps. cw_wire w ps" using w by (simp add: sound_world_def)
  obtain out where o: "OutputHeaders (cw_wire w) ?c = (None, ?c\<lparr>cg_header_sent := True, cg_out := out\<rparr>)"
      "concat out = head_text st reason ?hs"
    by (rule OutputHeaders_ok [OF wire, of ?c reason]) (use st in \<open>simp_all add: new_cgi_def\<close>)
  have "default_handler w decode st server =
      FlushBody (cw_wire w) ((new_cgi server)\<lparr>cg_status := st, cg_headers := [(''Content-Type'', ''text/html; charset=iso-8859-1'')],
        cg_buffered_body := ?page, cg_request_handled := True\<rparr>)"
    by (simp add: default_handler_def ProcessRequest_def standard_calls [OF st])
  also have "\<dots> = and_then (OutputHeaders (cw_wire w) ?c) (\<lambda>c. RealOutput (cw_wire w) ?page (c\<lparr>cg_body_sent := True\<rparr>))"
    by (simp add: FlushBody_def standard_page_nonempty SetHeaderInternal_unsent new_cgi_def length_before_type)
  finally show thesis
    using that o by (auto simp: RealOutput_ok [OF wire] error_response_def concat_pieces Let_def)
qed


definition failing_handler :: "cgi \<Rightarrow> cgi_call list" where
  "failing_handler c = [Call_header ''X-Secret'' ''1'', Call_output ''secret'', Call_throw (Http_exception 403)]"

lemma find_403: "smap_find kHttpStatusCodes 403 = Some ''Forbidden''"
  by (simp add: find_status kStatusCodes_def)

lemma failing_fails:
  "fst (ProcessRequest open_world [] failing_handler (new_cgi new_tree)) = Some (Http_exception 403) \<and>
   \<not> cg_header_sent (snd (ProcessRequest open_world [] failing_handler (new_cgi new_tree)))"
  by (simp add: ProcessRequest_def failing_handler_def SetHeader_def SetHeaderInternal_def OutputBody_def new_cgi_def)

definition one_handler :: "unit dispatcher" where
  "one_handler = RegisterFactory () ''/x'' new_dispatcher"

lemma one_handler_handles: "GetHandler to_path uri one_handler = The_handler ()"
  by (simp add: GetHandler_def one_handler_def RegisterFactory_def new_dispatcher_def smap_put_def)


section \<open>Routing\<close>

lemma takeWhile_drop: "k \<le> length (takeWhile P xs) \<Longrightarrow> takeWhile P (drop k xs) = drop k (takeWhile P xs)"
proof (induction k arbitrary: xs)
  case (Suc k)
  then show ?case by (cases xs) (auto split: if_splits)
qed simp

lemma take_eq_iff_prefix: "take (length r) s = r \<longleftrightarrow> (\<exists>t. s = r @ t)"
  by (metis append_eq_conv_conj append_take_drop_id)

lemma root_parts:
  assumes "set_site_root root d0 = Some d"
  obtains r where "dp_site_root d = r @ ''/''" and "r = [] \<or> hd r = CHR ''/''"
proof -
  have r: "dp_site_root d = root" "root \<noteq> []" "hd root = CHR ''/''" "last root = CHR ''/''"
    using assms by (auto simp: set_site_root_def split: if_splits)
  then show thesis using that [of "butlast root"]
    by (metis append_butlast_last_id hd_append2)
qed


definition two_handlers :: "nat dispatcher" where
  "two_handlers = RegisterFactory 2 ''/b'' (RegisterFactory 1 ''/a'' new_dispatcher)"


section \<open>Filters\<close>

text \<open>
  A request that did not come by HTTPS is redirected by \<open>HttpsFilter\<close> and does not reach the filters after it nor
  the handler; one that did passes.
\<close>

lemma https_filter_guards:
  "run_filters w (HttpsFilter port # fs) True (new_cgi server) =
    (if cgi_server (new_cgi server) ''REQUEST_SCHEME'' = ''https'' then run_filters w fs True (new_cgi server)
     else (Redirect (''https://'' @ takeWhile (\<lambda>ch. ch \<noteq> CHR '':'') (cgi_server (new_cgi server) ''HTTP_HOST'') @
         (if port \<noteq> 0 \<and> port \<noteq> 443 then '':'' @ dec_string (int port) else []) @
         cgi_server (new_cgi server) ''REQUEST_URI'') False (new_cgi server), False))"
proof -
  have r: "Redirect url False (new_cgi server) =
      (None, (new_cgi server)\<lparr>cg_headers := set_header ''Location'' url False [], cg_status := 302\<rparr>)" for url
    by (simp add: Redirect_def SetHeaderInternal_def new_cgi_def)
  show ?thesis by (simp add: HttpsFilter_def Let_def r)
qed

text \<open>The name of a host that is an IPv6 address ends at its first colon.\<close>

lemma https_cuts_ipv6_host: "takeWhile (\<lambda>ch. ch \<noteq> CHR '':'') ''[::1]:8080'' = ''[''"
  by simp

section \<open>What goes wrong\<close>

text \<open>An exception with a status that is not in the table is not answered and leaves the dispatcher.\<close>

lemma unknown_status_escapes:
  assumes "GetHandler to_path uri d = The_handler h" and "build h = Some (Http_exception st)"
    and "smap_find kHttpStatusCodes st = None"
  shows "DispatchRequest w decode to_path server uri build process d = Escaped Out_of_range"
proof -
  have "default_handler w decode st server = (Some Out_of_range, new_cgi server)"
    using assms(3) by (simp add: default_handler_def ProcessRequest_def standard_handler SetStatusCode_def)
  then show ?thesis using assms(1,2) by (simp add: DispatchRequest_def ProcessException_def)
qed

text \<open>A request whose URI does not begin with a slash, as in \<open>OPTIONS *\<close>, ends the worker that has it.\<close>

lemma bad_uri_ends_worker:
  assumes "\<not> (dp_single_handler_mode d \<and> length (dp_factories d) = 1)" and "uri = [] \<or> hd uri \<noteq> CHR ''/''"
    and "dispatch r = DispatchRequest w decode to_path server (Some uri) build process d"
  shows "fcgi_worker dispatch (r # rs) = (0, Worker_returns False)"
proof -
  have "GetHandler to_path (Some uri) d = No_handler" using assms(1,2) by (auto simp: GetHandler_def)
  then show ?thesis using assms(3) by (simp add: DispatchRequest_def)
qed

text \<open>So does an exception of another kind.\<close>

lemma logic_error_ends_worker:
  assumes "GetHandler to_path uri d = The_handler h" and "build h = None" and "process h = (Some Logic_error, c)"
    and "dispatch r = DispatchRequest w decode to_path server uri build process d"
  shows "fcgi_worker dispatch (r # rs) = (0, Worker_returns False)"
  using assms by (simp add: DispatchRequest_def)

text \<open>A header after an unbuffered body is such an exception.\<close>

lemma late_header_throws: "cg_header_sent c \<Longrightarrow> key \<noteq> [] \<Longrightarrow> \<not> IsForbiddenToken strip key kForbiddenHeaders \<Longrightarrow>
    SetHeader strip key v c = (Some Logic_error, c)"
  by (simp add: SetHeader_def SetHeaderInternal_sent)

text \<open>While a late status is accepted and has no effect on what is sent.\<close>

lemma late_status_is_lost:
  "cg_header_sent c \<Longrightarrow> smap_find kHttpStatusCodes st \<noteq> None \<Longrightarrow>
    SetStatusCode st c = (None, c\<lparr>cg_status := st\<rparr>) \<and> OutputHeaders wire (c\<lparr>cg_status := st\<rparr>) = (None, c\<lparr>cg_status := st\<rparr>)"
  by (simp add: SetStatusCode_def OutputHeaders_sent)

text \<open>A buffer that is flushed early is announced as chunked and sent as it is.\<close>

lemma chunked_body_is_raw:
  assumes "\<forall>ps. wire ps" and "s \<noteq> []"
  shows "\<exists>c. and_then (OutputBody wire s (new_cgi server)) (SetBodyBuffered wire False) = (None, c) \<and>
    concat (cg_out c) = ''Status: 200 OK'' @ [CHR 0x0A] @ ''Transfer-Encoding: chunked'' @ [CHR 0x0A, CHR 0x0A] @ s"
proof -
  let ?c = "(new_cgi server)\<lparr>cg_buffered := False, cg_headers := [(''Transfer-Encoding'', ''chunked'')]\<rparr>"
  have "smap_find kHttpStatusCodes 200 = Some ''OK''" by (simp add: find_status kStatusCodes_def)
  then obtain out where o: "OutputHeaders wire ?c = (None, ?c\<lparr>cg_header_sent := True, cg_out := out\<rparr>)"
      "concat out = head_text 200 ''OK'' [(''Transfer-Encoding'', ''chunked'')]"
    by - (rule OutputHeaders_ok [OF assms(1), of ?c "''OK''"], auto simp: new_cgi_def)
  have d: "dec_string 200 = ''200''" by code_simp
  have h: "set_header ''Transfer-Encoding'' ''chunked'' False [] = [(''Transfer-Encoding'', ''chunked'')]"
    by (simp add: set_header_def mmap_insert_def)
  have "and_then (OutputBody wire s (new_cgi server)) (SetBodyBuffered wire False) =
      and_then (OutputHeaders wire ?c) (\<lambda>c. RealOutput wire s (c\<lparr>cg_body_sent := True\<rparr>))"
    using assms(2) by (simp add: OutputBody_def SetBodyBuffered_def FlushBody_def SetHeaderInternal_def new_cgi_def h Let_def)
  then show ?thesis
    using o by (simp add: RealOutput_ok [OF assms(1)] concat_pieces head_text_def status_line_def header_line_def
        Value_Tree.c_str_def d)
qed

text \<open>The second entry of a status is never used.\<close>

lemma method_failure_never: "(424, ''Method Failure'') \<in> set kStatusCodes \<and> smap_find kHttpStatusCodes 424 = Some ''Failed Dependency''"
  by (simp add: find_status kStatusCodes_def)

section \<open>The environment of a request\<close>

lemma env_find_Some:
  "env_find k envp = Some (Some i) \<Longrightarrow> i < length envp \<and> (\<exists>s. envp ! i = Env s \<and> take (length k) s = k)"
proof (induction k envp arbitrary: i rule: env_find.induct)
  case (4 k s es)
  then show ?case by (cases i) (auto split: if_splits)
qed auto

lemma takeWhile_append_stop: "a \<notin> set xs \<Longrightarrow> takeWhile (\<lambda>x. x \<noteq> a) (xs @ a # ys) = xs \<and> dropWhile (\<lambda>x. x \<noteq> a) (xs @ a # ys) = a # ys"
  by (induction xs) auto

text \<open>The value of a variable that is there can be set and read, and the others stay.\<close>

lemma putenv_replaces:
  assumes "CHR ''='' \<notin> set key" and "env_find (key @ ''='') envp = Some (Some i)"
  obtains envp' where "EmulatedPutenv key v envp = Some envp'"
    and "EmulatedIterenv i envp' = Some (Some (key, v))"
    and "\<And>j. j \<noteq> i \<Longrightarrow> EmulatedIterenv j envp' = EmulatedIterenv j envp"
proof (rule that [of "envp[i := Env (key @ ''='' @ v)]"])
  show "EmulatedIterenv i (envp[i := Env (key @ ''='' @ v)]) = Some (Some (key, v))"
    using takeWhile_append_stop [OF assms(1), of v] env_find_Some [OF assms(2)] by (simp add: EmulatedIterenv_def)
qed (simp_all add: EmulatedPutenv_def EmulatedIterenv_def assms(2) Let_def)

text \<open>After a new variable there is no null: who iterates over the environment reads memory that was not written.\<close>

lemma env_count_find: "env_find k envp = Some None \<Longrightarrow> env_count envp \<le> length envp"
  by (induction k envp rule: env_find.induct) (auto split: if_splits)

lemma putenv_unterminated:
  assumes "env_find (key @ ''='') envp = Some None" and "EmulatedPutenv key v envp = Some envp'"
  shows "EmulatedIterenv (Suc (env_count envp)) envp' = None"
  using assms env_count_find [OF assms(1)]
  by (auto simp: EmulatedPutenv_def EmulatedIterenv_def Let_def nth_append)

end
