(* ===== verification/Net_Interface.thy ===== *)
theory Net_Interface
  imports Safe_Io
begin

text \<open>
  \<open>flinter/linkage/interface.cpp\<close>, \<open>linkage_peer.cpp\<close>, \<open>listener.cpp\<close>: sockets that listen, connect and accept,
  over the calls of \<open>Safe_Io\<close> and a kernel that answers. A state \<open>'w net\<close> is that of the calling thread with one
  \<open>Interface\<close> and the two \<open>LinkagePeer\<close> objects a call fills in. A call that never returns is \<open>None\<close>; the result
  \<open>None\<close> of a call that does is a failed assertion or a null pointer that is followed.
\<close>

section \<open>Addresses\<close>

datatype net_domain = AF_UNSPEC | AF_INET | AF_INET6 | AF_UNIX | AF_other int

datatype sock_type = SOCK_STREAM | SOCK_DGRAM | SOCK_other int

text \<open>
  An address as it lies in memory: the four bytes of an IPv4 address are read as a little-endian word, a path is
  as many bytes of \<open>sun_path\<close> as are given with it.
\<close>

datatype sockaddr = Sin "32 word" nat | Sin6 "8 word list" nat | Sun string

definition sa_family :: "sockaddr \<Rightarrow> net_domain" where
  "sa_family a = (case a of Sin _ _ \<Rightarrow> AF_INET | Sin6 _ _ \<Rightarrow> AF_INET6 | Sun _ \<Rightarrow> AF_UNIX)"

definition in_bytes :: "32 word \<Rightarrow> 8 word list" where
  "in_bytes p = map (\<lambda>i. ucast (drop_bit (8 * i) p)) [0..<4]"

definition byte_chars :: "8 word list \<Rightarrow> string" where
  "byte_chars bs = map (\<lambda>b. char_of (unat b)) bs"

definition port_chars :: "nat \<Rightarrow> string" where
  "port_chars port = [char_of (port div 256), char_of port]"

text \<open>The structures that \<open>connect\<close> takes.\<close>

definition sockaddr_bytes :: "sockaddr \<Rightarrow> string" where
  "sockaddr_bytes a = (case a of
      Sin ip port \<Rightarrow> [CHR 0x02, CHR 0x00] @ port_chars port @ byte_chars (in_bytes ip) @ replicate 8 (CHR 0x00)
    | Sin6 ip port \<Rightarrow> [CHR 0x0A, CHR 0x00] @ port_chars port @ replicate 4 (CHR 0x00) @ byte_chars ip @ replicate 4 (CHR 0x00)
    | Sun path \<Rightarrow> [CHR 0x01, CHR 0x00] @ path)"

record linkage_peer =
  lp_ip :: "8 word list"
  lp_ip_str :: string
  lp_port :: nat
  lp_fd :: int
  lp_uid :: nat
  lp_gid :: nat
  lp_pid :: nat

definition new_peer :: linkage_peer where
  "new_peer = \<lparr>lp_ip = [], lp_ip_str = [], lp_port = 0, lp_fd = -1, lp_uid = 0, lp_gid = 0, lp_pid = 0\<rparr>"

section \<open>Sockets and options\<close>

text \<open>A C string that may be null is an option.\<close>

record socket_spec =
  sk_domain :: net_domain
  sk_type :: sock_type
  sk_protocol :: int
  sk_interface :: "string option"
  sk_hostname :: "string option"
  sk_bind_port :: nat
  sk_port :: nat
  sk_abstract :: "string option"
  sk_pathname :: "string option"
  sk_mode :: nat

definition new_socket_spec :: socket_spec where
  "new_socket_spec = \<lparr>sk_domain = AF_UNSPEC, sk_type = SOCK_STREAM, sk_protocol = 0, sk_interface = None, sk_hostname = None,
     sk_bind_port = 0, sk_port = 0, sk_abstract = None, sk_pathname = None, sk_mode = 438\<rparr>"

record socket_option =
  tcp_defer_accept :: bool
  tcp_nodelay :: bool
  udp_broadcast :: bool
  udp_multicast :: bool
  socket_close_on_exec :: bool
  socket_reuse_address :: bool
  socket_non_blocking :: bool
  socket_keepalive :: bool

definition new_socket_option :: socket_option where
  "new_socket_option = \<lparr>tcp_defer_accept = False, tcp_nodelay = False, udp_broadcast = False, udp_multicast = False,
     socket_close_on_exec = False, socket_reuse_address = False, socket_non_blocking = False, socket_keepalive = False\<rparr>"

datatype sockopt = SO_REUSEADDR | SO_KEEPALIVE | SO_BROADCAST | TCP_NODELAY | TCP_DEFER_ACCEPT | IP_ADD_MEMBERSHIP

text \<open>
  The kernel and the resolver. \<open>n_getsockname T\<close> writes into a structure of the family \<open>T\<close>; \<open>n_ntop\<close> is
  \<open>inet_ntop\<close>, \<open>n_aton\<close> tells whether \<open>inet_aton\<close> accepts a string; \<open>n_resolve\<close> is \<open>Resolver::Resolve\<close>, which
  gets the first address or any; \<open>n_stack\<close> is what memory that was not written holds.
\<close>

record 'w net_kernel =
  n_kernel :: "'w kernel"
  n_socket :: "net_domain \<Rightarrow> sock_type \<Rightarrow> int \<Rightarrow> 'w \<Rightarrow> ((errnum + int) \<times> 'w) option"
  n_setsockopt :: "sockopt \<Rightarrow> int \<Rightarrow> 'w \<Rightarrow> ((errnum + unit) \<times> 'w) option"
  n_getfd :: "int \<Rightarrow> 'w \<Rightarrow> ((errnum + bool) \<times> 'w) option"
  n_setfd :: "int \<Rightarrow> 'w \<Rightarrow> ((errnum + unit) \<times> 'w) option"
  n_bind :: "int \<Rightarrow> sockaddr \<Rightarrow> 'w \<Rightarrow> ((errnum + unit) \<times> 'w) option"
  n_listen :: "int \<Rightarrow> int \<Rightarrow> 'w \<Rightarrow> ((errnum + unit) \<times> 'w) option"
  n_getsockname :: "net_domain \<Rightarrow> int \<Rightarrow> 'w \<Rightarrow> ((errnum + sockaddr) \<times> 'w) option"
  n_getpeername :: "net_domain \<Rightarrow> int \<Rightarrow> 'w \<Rightarrow> ((errnum + sockaddr) \<times> 'w) option"
  n_peercred :: "int \<Rightarrow> 'w \<Rightarrow> ((errnum + nat \<times> nat \<times> nat) \<times> 'w) option"
  n_shutdown :: "int \<Rightarrow> 'w \<Rightarrow> ((errnum + unit) \<times> 'w) option"
  n_chmod :: "string \<Rightarrow> nat \<Rightarrow> 'w \<Rightarrow> ((errnum + unit) \<times> 'w) option"
  n_unlink :: "string \<Rightarrow> 'w \<Rightarrow> ((errnum + unit) \<times> 'w) option"
  n_resolve :: "net_domain \<Rightarrow> bool \<Rightarrow> string \<Rightarrow> nat \<Rightarrow> 'w \<Rightarrow> ((errnum + sockaddr) \<times> 'w) option"
  n_ntop :: "8 word list \<Rightarrow> string"
  n_aton :: "string \<Rightarrow> bool"
  n_stack :: string

record 'w net =
  ns_io :: "'w io_state"
  ns_socket :: int
  ns_domain :: net_domain
  ns_sockname :: string
  ns_peer :: linkage_peer
  ns_me :: linkage_peer

type_synonym ('w, 'a) net_op = "'w net \<Rightarrow> ('a \<times> 'w net) option"

definition on_io :: "('w, 'a) io \<Rightarrow> ('w, 'a) net_op" where
  "on_io f s = do { (r, io) \<leftarrow> f (ns_io s); Some (r, s\<lparr>ns_io := io\<rparr>) }"

definition net_call :: "('w \<Rightarrow> ((errnum + 'a) \<times> 'w) option) \<Rightarrow> ('w, errnum + 'a) net_op" where
  "net_call call = on_io (syscall call)"

definition set_errno :: "errnum \<Rightarrow> 'w net \<Rightarrow> 'w net" where
  "set_errno e s = s\<lparr>ns_io := (ns_io s)\<lparr>io_errno := e\<rparr>\<rparr>"

definition net_errno :: "'w net \<Rightarrow> errnum" where
  "net_errno s = io_errno (ns_io s)"

text \<open>A call of which only success matters.\<close>

definition succeeds :: "('w \<Rightarrow> ((errnum + 'a) \<times> 'w) option) \<Rightarrow> ('w, bool) net_op" where
  "succeeds call s = do { (r, s) \<leftarrow> net_call call s; Some (case r of Inl _ \<Rightarrow> False | Inr _ \<Rightarrow> True, s) }"

definition net_socket :: "'w net_kernel \<Rightarrow> socket_spec \<Rightarrow> ('w, errnum + int) net_op" where
  "net_socket N sk = on_io (\<lambda>s. do {
     (r, s) \<leftarrow> syscall (n_socket N (sk_domain sk) (sk_type sk) (sk_protocol sk)) s;
     Some (r, case r of Inl _ \<Rightarrow> s
       | Inr fd \<Rightarrow> s\<lparr>io_open := insert fd (io_open s), io_nonblock := io_nonblock s - {fd}\<rparr>) })"

definition net_close :: "'w net_kernel \<Rightarrow> int \<Rightarrow> ('w, int) net_op" where
  "net_close N fd = on_io (safe_close (n_kernel N) fd)"

text \<open>\<open>safe_close(s); return v;\<close>\<close>

definition close_and :: "'w net_kernel \<Rightarrow> int \<Rightarrow> 'a \<Rightarrow> ('w, 'a) net_op" where
  "close_and N fd v s = do { (_, s) \<leftarrow> net_close N fd s; Some (v, s) }"

section \<open>Peers\<close>

text \<open>The three \<open>LinkagePeer::Set\<close>; \<open>None\<close>: the family is not the one expected.\<close>

definition un_path :: "'w net_kernel \<Rightarrow> string \<Rightarrow> string" where
  "un_path N path = take 108 (path @ drop (length path) (n_stack N))"

definition un_string :: "string \<Rightarrow> string" where
  "un_string p = (if hd p \<noteq> CHR 0x00 then ''file://'' @ takeWhile (\<lambda>ch. ch \<noteq> CHR 0x00) p
     else ''unix://'' @ takeWhile (\<lambda>ch. ch \<noteq> CHR 0x00) (tl p))"

definition LinkagePeerSet :: "'w net_kernel \<Rightarrow> net_domain \<Rightarrow> sockaddr \<Rightarrow> int \<Rightarrow> linkage_peer \<Rightarrow>
    ('w, (bool \<times> linkage_peer) option) net_op" where
  "LinkagePeerSet N T a fd lp s =
    (if sa_family a \<noteq> T then Some (None, s)
     else (case a of
         Sin ip port \<Rightarrow> Some (Some (True, lp\<lparr>lp_ip := in_bytes ip, lp_ip_str := n_ntop N (in_bytes ip), lp_port := port,
           lp_fd := fd, lp_uid := 0, lp_gid := 0, lp_pid := 0\<rparr>), s)
       | Sin6 ip port \<Rightarrow> Some (Some (True, lp\<lparr>lp_ip := ip, lp_ip_str := n_ntop N ip, lp_port := port,
           lp_fd := fd, lp_uid := 0, lp_gid := 0, lp_pid := 0\<rparr>), s)
       | Sun path \<Rightarrow> do {
           (r, s) \<leftarrow> net_call (n_peercred N fd) s;
           Some (case r of
               Inl _ \<Rightarrow> Some (False, lp)
             | Inr (u, g, p) \<Rightarrow> Some (True, lp\<lparr>lp_uid := u, lp_gid := g, lp_pid := p, lp_ip_str := un_string (un_path N path),
                 lp_ip := [], lp_port := 0, lp_fd := fd\<rparr>), s) }))"

definition set_peer :: "'w net_kernel \<Rightarrow> net_domain \<Rightarrow> sockaddr \<Rightarrow> int \<Rightarrow> ('w, bool option) net_op" where
  "set_peer N T a fd s = do {
     (r, s) \<leftarrow> LinkagePeerSet N T a fd (ns_peer s) s;
     Some (case r of None \<Rightarrow> (None, s) | Some (ok, lp) \<Rightarrow> (Some ok, s\<lparr>ns_peer := lp\<rparr>)) }"

definition set_me :: "'w net_kernel \<Rightarrow> net_domain \<Rightarrow> sockaddr \<Rightarrow> int \<Rightarrow> ('w, bool option) net_op" where
  "set_me N T a fd s = do {
     (r, s) \<leftarrow> LinkagePeerSet N T a fd (ns_me s) s;
     Some (case r of None \<Rightarrow> (None, s) | Some (ok, lp) \<Rightarrow> (Some ok, s\<lparr>ns_me := lp\<rparr>)) }"

text \<open>One half of \<open>GetPeerOrClose\<close>: get a name and store it, or close.\<close>

definition name_or_close :: "'w net_kernel \<Rightarrow> int \<Rightarrow> ('w \<Rightarrow> ((errnum + sockaddr) \<times> 'w) option) \<Rightarrow>
    (sockaddr \<Rightarrow> ('w, bool option) net_op) \<Rightarrow> ('w, bool option) net_op" where
  "name_or_close N fd call store s = do {
     (r, s) \<leftarrow> net_call call s;
     case r of
       Inl _ \<Rightarrow> close_and N fd (Some False) s
     | Inr a \<Rightarrow> do {
         (ok, s) \<leftarrow> store a s;
         if ok = Some False then close_and N fd (Some False) s else Some (ok, s) } }"

definition GetPeerOrClose :: "'w net_kernel \<Rightarrow> net_domain \<Rightarrow> int \<Rightarrow> bool \<Rightarrow> bool \<Rightarrow> ('w, bool option) net_op" where
  "GetPeerOrClose N T fd peer me s = do {
     (ok, s) \<leftarrow> (if peer then name_or_close N fd (n_getpeername N T fd) (\<lambda>a. set_peer N T a fd) s else Some (Some True, s));
     if ok \<noteq> Some True then Some (ok, s)
     else if me then name_or_close N fd (n_getsockname N T fd) (\<lambda>a. set_me N T a fd) s
     else Some (Some True, s) }"

section \<open>Creating sockets\<close>

definition set_close_on_exec :: "'w net_kernel \<Rightarrow> int \<Rightarrow> ('w, bool) net_op" where
  "set_close_on_exec N fd s = do {
     (r, s) \<leftarrow> net_call (n_getfd N fd) s;
     case r of
       Inl _ \<Rightarrow> Some (False, s)
     | Inr on \<Rightarrow> if on then Some (True, s) else succeeds (n_setfd N fd) s }"

definition non_blocking :: "'w net_kernel \<Rightarrow> int \<Rightarrow> ('w, bool) net_op" where
  "non_blocking N fd s = do { (r, s) \<leftarrow> on_io (set_non_blocking_mode (n_kernel N) fd) s; Some (r = 0, s) }"

text \<open>The calls of those options that are set, up to the first that fails.\<close>

fun set_options :: "(bool \<times> ('w, bool) net_op) list \<Rightarrow> ('w, bool) net_op" where
  "set_options [] s = Some (True, s)"
| "set_options ((wanted, f) # fs) s =
    (if \<not> wanted then set_options fs s
     else do { (ok, s) \<leftarrow> f s; if ok then set_options fs s else Some (False, s) })"

definition InitializeSocket :: "'w net_kernel \<Rightarrow> socket_option \<Rightarrow> int \<Rightarrow> ('w, bool) net_op" where
  "InitializeSocket N op fd = set_options
    [(socket_reuse_address op, succeeds (n_setsockopt N SO_REUSEADDR fd)),
     (socket_non_blocking op, non_blocking N fd),
     (socket_close_on_exec op, set_close_on_exec N fd),
     (socket_keepalive op, succeeds (n_setsockopt N SO_KEEPALIVE fd)),
     (tcp_defer_accept op, succeeds (n_setsockopt N TCP_DEFER_ACCEPT fd)),
     (tcp_nodelay op, succeeds (n_setsockopt N TCP_NODELAY fd)),
     (udp_broadcast op, succeeds (n_setsockopt N SO_BROADCAST fd))]"

definition CreateSocket :: "'w net_kernel \<Rightarrow> socket_spec \<Rightarrow> socket_option \<Rightarrow> ('w, int) net_op" where
  "CreateSocket N sk op s = do {
     (r, s) \<leftarrow> net_socket N sk s;
     case r of
       Inl _ \<Rightarrow> Some (-1, s)
     | Inr fd \<Rightarrow> do {
         (ok, s) \<leftarrow> InitializeSocket N op fd s;
         if ok then Some (fd, s) else close_and N fd (-1) s } }"

definition kMaximumQueueLength :: int where "kMaximumQueueLength = 256"

definition CreateListenSocket :: "'w net_kernel \<Rightarrow> socket_spec \<Rightarrow> socket_option \<Rightarrow> sockaddr \<Rightarrow> ('w, int) net_op" where
  "CreateListenSocket N sk op a s = do {
     (fd, s) \<leftarrow> CreateSocket N sk op s;
     if fd < 0 then Some (-1, s)
     else do {
       (ok, s) \<leftarrow> succeeds (n_bind N fd a) s;
       if \<not> ok then close_and N fd (-1) s
       else if sk_type sk = SOCK_STREAM then do {
         (ok, s) \<leftarrow> succeeds (n_listen N fd kMaximumQueueLength) s;
         if \<not> ok then close_and N fd (-1) s else Some (fd, s) }
       else Some (fd, s) } }"

section \<open>Connecting\<close>

text \<open>\<open>p && *p\<close>\<close>

definition given :: "string option \<Rightarrow> bool" where
  "given p \<longleftrightarrow> (case p of None \<Rightarrow> False | Some s \<Rightarrow> s \<noteq> [])"

text \<open>Binding to the interface that is asked for.\<close>

definition bind_interface :: "'w net_kernel \<Rightarrow> net_domain \<Rightarrow> socket_spec \<Rightarrow> int \<Rightarrow> ('w, bool) net_op" where
  "bind_interface N T sk fd s =
    (if \<not> given (sk_interface sk) then Some (True, s)
     else do {
       (r, s) \<leftarrow> net_call (n_resolve N T False (the (sk_interface sk)) (sk_bind_port sk)) s;
       case r of
         Inl _ \<Rightarrow> close_and N fd False s
       | Inr a \<Rightarrow> do { (ok, s) \<leftarrow> succeeds (n_bind N fd a) s; if ok then Some (True, s) else close_and N fd False s } })"

text \<open>\<open>DoConnectTcp\<close> from the end: the names of a socket that is connected, or is about to be; connecting; the whole.\<close>

definition connected_tcp :: "'w net_kernel \<Rightarrow> net_domain \<Rightarrow> sockaddr \<Rightarrow> int \<Rightarrow> int \<Rightarrow> bool \<Rightarrow> bool \<Rightarrow> ('w, int option) net_op" where
  "connected_tcp N T a fd ret peer me s = do {
     (ok, s) \<leftarrow> GetPeerOrClose N T fd False me s;
     if ok = None then Some (None, s)
     else if ok = Some False then Some (Some (-1), s)
     else do {
       (ok, s) \<leftarrow> (if peer then set_peer N T a fd s else Some (Some True, s));
       if ok = None then Some (None, s)
       else if ok = Some False then close_and N fd (Some (-1)) s
       else Some (Some (if ret = 0 then 0 else 1), s\<lparr>ns_socket := fd, ns_domain := AF_INET\<rparr>) } }"

definition connect_tcp :: "'w net_kernel \<Rightarrow> net_domain \<Rightarrow> socket_spec \<Rightarrow> int \<Rightarrow> bool \<Rightarrow> bool \<Rightarrow> ('w, int option) net_op" where
  "connect_tcp N T sk fd peer me s = do {
     (r, s) \<leftarrow> net_call (n_resolve N T False (the (sk_hostname sk)) (sk_port sk)) s;
     case r of
       Inl _ \<Rightarrow> close_and N fd (Some (-1)) s
     | Inr a \<Rightarrow> do {
         (ret, s) \<leftarrow> on_io (safe_connect (n_kernel N) fd (Some (sockaddr_bytes a))) s;
         if ret < 0 \<and> net_errno s \<noteq> EINPROGRESS then close_and N fd (Some (-1)) s
         else connected_tcp N T a fd ret peer me s } }"

definition DoConnectTcp :: "'w net_kernel \<Rightarrow> net_domain \<Rightarrow> socket_spec \<Rightarrow> socket_option \<Rightarrow> bool \<Rightarrow> bool \<Rightarrow> ('w, int option) net_op" where
  "DoConnectTcp N T sk op peer me s =
    (if \<not> given (sk_hostname sk) \<or> sk_port sk = 0 then Some (Some (-1), set_errno EINVAL s)
     else do {
       (fd, s) \<leftarrow> CreateSocket N sk op s;
       if fd < 0 then Some (Some (-1), s)
       else do {
         (ok, s) \<leftarrow> bind_interface N T sk fd s;
         if \<not> ok then Some (Some (-1), s) else connect_tcp N T sk fd peer me s } })"

text \<open>\<open>sun_path\<close> has 108 bytes; the length that is passed covers one more byte than the name.\<close>

definition sun_path_size :: nat where "sun_path_size = 108"

definition pad_path :: "string \<Rightarrow> string" where
  "pad_path p = p @ replicate (sun_path_size - length p) (CHR 0x00)"

definition connect_unix :: "'w net_kernel \<Rightarrow> string \<Rightarrow> int \<Rightarrow> bool \<Rightarrow> ('w, int option) net_op" where
  "connect_unix N path fd peer s = do {
     (ret, s) \<leftarrow> on_io (safe_connect (n_kernel N) fd (Some (sockaddr_bytes (Sun path)))) s;
     if ret \<noteq> 0 then close_and N fd (Some (-1)) s
     else do {
       (ok, s) \<leftarrow> (if peer then set_peer N AF_UNIX (Sun (pad_path path)) fd s else Some (Some True, s));
       if ok = None then Some (None, s)
       else if ok = Some False then Some (Some (-1), s)
       else Some (Some 0, s\<lparr>ns_socket := fd, ns_domain := AF_UNIX\<rparr>) } }"

definition DoConnectUnix :: "'w net_kernel \<Rightarrow> socket_spec \<Rightarrow> socket_option \<Rightarrow> bool \<Rightarrow> ('w, int option) net_op" where
  "DoConnectUnix N sk op peer s =
    (case (if given (sk_pathname sk) then Some (True, the (sk_pathname sk))
           else if given (sk_abstract sk) then Some (False, the (sk_abstract sk)) else None) of
       None \<Rightarrow> Some (None, s)
     | Some (file_based, name) \<Rightarrow>
         if length name \<ge> sun_path_size then Some (Some (-1), set_errno EINVAL s)
         else do {
           (fd, s) \<leftarrow> CreateSocket N sk op s;
           if fd < 0 then Some (Some (-1), s)
           else connect_unix N (if file_based then name @ [CHR 0x00] else CHR 0x00 # name) fd peer s })"

section \<open>Closing\<close>

definition unlink_sockname :: "'w net_kernel \<Rightarrow> ('w, unit) net_op" where
  "unlink_sockname N s =
    (if ns_sockname s = [] then Some ((), s)
     else do { (_, s) \<leftarrow> net_call (n_unlink N (ns_sockname s)) s; Some ((), s\<lparr>ns_sockname := []\<rparr>) })"

definition IfClose :: "'w net_kernel \<Rightarrow> ('w, bool) net_op" where
  "IfClose N s =
    (if ns_socket s < 0 then Some (True, s)
     else do {
       (_, s) \<leftarrow> unlink_sockname N s;
       let fd = ns_socket s;
       (r, s) \<leftarrow> net_close N fd (s\<lparr>ns_socket := -1\<rparr>);
       if r \<noteq> 0 then Some (False, s) else Some (True, s\<lparr>ns_domain := AF_UNSPEC\<rparr>) })"

definition ENOTCONN :: errnum where "ENOTCONN = Errno 107"

definition IfShutdown :: "'w net_kernel \<Rightarrow> ('w, bool) net_op" where
  "IfShutdown N s =
    (if ns_socket s < 0 then Some (True, s)
     else do {
       (r, s) \<leftarrow> net_call (n_shutdown N (ns_socket s)) s;
       Some (case r of Inl e \<Rightarrow> e = ENOTCONN | Inr _ \<Rightarrow> True, s) })"

definition IfConnect :: "'w net_kernel \<Rightarrow> socket_spec \<Rightarrow> socket_option \<Rightarrow> bool \<Rightarrow> bool \<Rightarrow> ('w, int option) net_op" where
  "IfConnect N sk op peer me s =
    (if sk_type sk \<noteq> SOCK_STREAM \<and> sk_type sk \<noteq> SOCK_DGRAM then Some (Some (-1), set_errno EINVAL s)
     else do {
       (closed, s) \<leftarrow> IfClose N s;
       if \<not> closed then Some (Some (-1), s)
       else if sk_domain sk = AF_INET6 then DoConnectTcp N AF_INET6 sk op peer me s
       else if sk_domain sk = AF_INET then DoConnectTcp N AF_INET sk op peer me s
       else if sk_domain sk = AF_UNIX then DoConnectUnix N sk op peer s
       else Some (Some (-1), s) })"

section \<open>Listening\<close>

text \<open>The end of \<open>DoListenTcp4\<close> and \<open>DoListenTcp6\<close>.\<close>

definition join_group :: "'w net_kernel \<Rightarrow> bool \<Rightarrow> int \<Rightarrow> ('w, bool) net_op" where
  "join_group N multicast fd s = (if multicast then succeeds (n_setsockopt N IP_ADD_MEMBERSHIP fd) s else Some (True, s))"

definition listen_on :: "'w net_kernel \<Rightarrow> net_domain \<Rightarrow> socket_spec \<Rightarrow> socket_option \<Rightarrow> bool \<Rightarrow> bool \<Rightarrow> sockaddr \<Rightarrow>
    ('w, bool option) net_op" where
  "listen_on N T sk op multicast me a s = do {
     (fd, s) \<leftarrow> CreateListenSocket N sk op a s;
     if fd < 0 then Some (Some False, s)
     else do {
       (ok, s) \<leftarrow> join_group N multicast fd s;
       if \<not> ok then close_and N fd (Some False) s
       else do {
         (ok, s) \<leftarrow> GetPeerOrClose N T fd False me s;
         if ok \<noteq> Some True then Some (ok, s) else Some (Some True, s\<lparr>ns_socket := fd, ns_domain := T\<rparr>) } } }"

definition listen_address :: "string \<Rightarrow> socket_spec \<Rightarrow> string" where
  "listen_address any sk = (if given (sk_interface sk) then the (sk_interface sk) else any)"

definition DoListenTcp4 :: "'w net_kernel \<Rightarrow> socket_spec \<Rightarrow> socket_option \<Rightarrow> bool \<Rightarrow> ('w, bool option) net_op" where
  "DoListenTcp4 N sk op me s =
    (let multicast = (sk_type sk = SOCK_DGRAM \<and> udp_multicast op) in
     if multicast \<and> (\<not> given (sk_interface sk) \<or> \<not> n_aton N (the (sk_interface sk))) then Some (Some False, set_errno EINVAL s)
     else if multicast \<and> sk_hostname sk = None then Some (None, s)
     else do {
       (r, s) \<leftarrow> net_call (n_resolve N AF_INET True
         (if multicast then the (sk_hostname sk) else listen_address ''0.0.0.0'' sk) (sk_bind_port sk)) s;
       case r of
         Inl _ \<Rightarrow> Some (Some False, s)
       | Inr a \<Rightarrow> listen_on N AF_INET sk op multicast me a s })"

definition DoListenTcp6 :: "'w net_kernel \<Rightarrow> socket_spec \<Rightarrow> socket_option \<Rightarrow> bool \<Rightarrow> ('w, bool option) net_op" where
  "DoListenTcp6 N sk op me s = do {
     (r, s) \<leftarrow> net_call (n_resolve N AF_INET6 True (listen_address ''::'' sk) (sk_bind_port sk)) s;
     case r of
       Inl _ \<Rightarrow> Some (Some False, s)
     | Inr a \<Rightarrow> listen_on N AF_INET6 sk op False me a s }"

text \<open>\<open>safe_close(s); unlink(pathname); return false;\<close>\<close>

definition close_and_unlink :: "'w net_kernel \<Rightarrow> int \<Rightarrow> string \<Rightarrow> ('w, bool option) net_op" where
  "close_and_unlink N fd path s = do {
     (_, s) \<leftarrow> net_close N fd s;
     (_, s) \<leftarrow> net_call (n_unlink N path) s;
     Some (Some False, s) }"

definition listen_unix :: "'w net_kernel \<Rightarrow> socket_spec \<Rightarrow> string \<Rightarrow> int \<Rightarrow> ('w, bool option) net_op" where
  "listen_unix N sk path fd s = do {
     (ok, s) \<leftarrow> succeeds (n_bind N fd (Sun (path @ [CHR 0x00]))) s;
     if \<not> ok then close_and N fd (Some False) s
     else do {
       (ok, s) \<leftarrow> succeeds (n_chmod N path (sk_mode sk)) s;
       if \<not> ok then close_and_unlink N fd path s
       else do {
         (ok, s) \<leftarrow> succeeds (n_listen N fd kMaximumQueueLength) s;
         if \<not> ok then close_and_unlink N fd path s
         else Some (Some True, s\<lparr>ns_socket := fd, ns_domain := AF_UNIX, ns_sockname := path\<rparr>) } } }"

definition DoListenUnixSocket :: "'w net_kernel \<Rightarrow> socket_spec \<Rightarrow> socket_option \<Rightarrow> string \<Rightarrow> ('w, bool option) net_op" where
  "DoListenUnixSocket N sk op path s =
    (if length path \<ge> sun_path_size then Some (Some False, set_errno EINVAL s)
     else do {
       (fd, s) \<leftarrow> CreateSocket N sk op s;
       if fd < 0 then Some (Some False, s) else listen_unix N sk path fd s })"

text \<open>\<open>memcpy(dst, p, n)\<close> from a C string: \<open>None\<close> if \<open>p\<close> is null or the string and its end are shorter.\<close>

definition copy_bytes :: "string option \<Rightarrow> nat \<Rightarrow> string option" where
  "copy_bytes p n = (case p of None \<Rightarrow> None
    | Some s \<Rightarrow> if n \<le> Suc (length s) then Some (take n (s @ [CHR 0x00])) else None)"

definition DoListenUnixNamespace :: "'w net_kernel \<Rightarrow> socket_spec \<Rightarrow> socket_option \<Rightarrow> string \<Rightarrow> ('w, bool option) net_op" where
  "DoListenUnixNamespace N sk op abstract s =
    (let len = length abstract in
     if len \<ge> sun_path_size then Some (Some False, set_errno EINVAL s)
     else case copy_bytes (sk_pathname sk) len of
         None \<Rightarrow> Some (None, s)
       | Some name \<Rightarrow> do {
           (fd, s) \<leftarrow> CreateListenSocket N sk op (Sun (CHR 0x00 # name)) s;
           if fd < 0 then Some (Some False, s)
           else Some (Some True, s\<lparr>ns_socket := fd, ns_domain := AF_UNIX\<rparr>) })"

definition DoListenUnix :: "'w net_kernel \<Rightarrow> socket_spec \<Rightarrow> socket_option \<Rightarrow> ('w, bool option) net_op" where
  "DoListenUnix N sk op s =
    (if given (sk_pathname sk) then DoListenUnixSocket N sk op (the (sk_pathname sk)) s
     else if given (sk_abstract sk) then DoListenUnixNamespace N sk op (the (sk_abstract sk)) s
     else Some (Some False, set_errno EINVAL s))"

definition IfListen :: "'w net_kernel \<Rightarrow> socket_spec \<Rightarrow> socket_option \<Rightarrow> bool \<Rightarrow> ('w, bool option) net_op" where
  "IfListen N sk op me s =
    (if sk_type sk \<noteq> SOCK_STREAM \<and> sk_type sk \<noteq> SOCK_DGRAM then Some (Some False, set_errno EINVAL s)
     else do {
       (closed, s) \<leftarrow> IfClose N s;
       if \<not> closed then Some (Some False, s)
       else if sk_domain sk = AF_INET6 then DoListenTcp6 N sk op me s
       else if sk_domain sk = AF_INET then DoListenTcp4 N sk op me s
       else if sk_domain sk = AF_UNIX then DoListenUnix N sk op s
       else Some (Some False, set_errno EINVAL s) })"

definition tcp_listen_option :: socket_option where
  "tcp_listen_option = new_socket_option\<lparr>socket_non_blocking := True, socket_reuse_address := True, socket_close_on_exec := True\<rparr>"

definition stream_option :: socket_option where
  "stream_option = new_socket_option\<lparr>socket_non_blocking := True, socket_close_on_exec := True\<rparr>"

definition ListenTcp6 :: "'w net_kernel \<Rightarrow> nat \<Rightarrow> bool \<Rightarrow> ('w, bool option) net_op" where
  "ListenTcp6 N port loopback = IfListen N (new_socket_spec\<lparr>sk_domain := AF_INET6, sk_type := SOCK_STREAM,
     sk_bind_port := port, sk_interface := Some (if loopback then ''::1'' else ''::'')\<rparr>) tcp_listen_option False"

definition ListenTcp4 :: "'w net_kernel \<Rightarrow> nat \<Rightarrow> bool \<Rightarrow> ('w, bool option) net_op" where
  "ListenTcp4 N port loopback = IfListen N (new_socket_spec\<lparr>sk_domain := AF_INET, sk_type := SOCK_STREAM,
     sk_bind_port := port, sk_interface := Some (if loopback then ''127.0.0.1'' else ''0.0.0.0'')\<rparr>) tcp_listen_option False"

definition ListenTcp :: "'w net_kernel \<Rightarrow> nat \<Rightarrow> bool \<Rightarrow> ('w, bool option) net_op" where
  "ListenTcp N port loopback s = do {
     (ok, s) \<leftarrow> ListenTcp6 N port loopback s;
     if ok = Some False then ListenTcp4 N port loopback s else Some (ok, s) }"

definition ListenUnix :: "'w net_kernel \<Rightarrow> string \<Rightarrow> bool \<Rightarrow> bool \<Rightarrow> ('w, bool option) net_op" where
  "ListenUnix N sockname file_based privileged =
    (let sk = new_socket_spec\<lparr>sk_domain := AF_UNIX, sk_type := SOCK_STREAM\<rparr> in
     IfListen N (if file_based then sk\<lparr>sk_pathname := Some sockname, sk_mode := (if privileged then 384 else 438)\<rparr>
       else sk\<lparr>sk_abstract := Some sockname\<rparr>) stream_option False)"

definition ConnectUnix :: "'w net_kernel \<Rightarrow> string \<Rightarrow> bool \<Rightarrow> bool \<Rightarrow> bool \<Rightarrow> ('w, int option) net_op" where
  "ConnectUnix N sockname file_based =
    (let sk = new_socket_spec\<lparr>sk_domain := AF_UNIX, sk_type := SOCK_STREAM\<rparr> in
     IfConnect N (if file_based then sk\<lparr>sk_pathname := Some sockname\<rparr> else sk\<lparr>sk_abstract := Some sockname\<rparr>) stream_option)"

definition ConnectTcp4 :: "'w net_kernel \<Rightarrow> string \<Rightarrow> nat \<Rightarrow> bool \<Rightarrow> bool \<Rightarrow> ('w, int option) net_op" where
  "ConnectTcp4 N hostname port = IfConnect N (new_socket_spec\<lparr>sk_domain := AF_INET, sk_type := SOCK_STREAM,
     sk_port := port, sk_hostname := Some hostname\<rparr>) stream_option"

section \<open>Accepting\<close>

definition DoAccept :: "'w net_kernel \<Rightarrow> net_domain \<Rightarrow> bool \<Rightarrow> ('w, int option) net_op" where
  "DoAccept N T me s = do {
     (fd, s) \<leftarrow> on_io (safe_accept (n_kernel N) (ns_socket s)) s;
     if fd < 0 then Some (Some (-1), s)
     else do {
       (ok, s) \<leftarrow> GetPeerOrClose N T fd True me s;
       Some (case ok of None \<Rightarrow> None | Some False \<Rightarrow> Some 1 | Some True \<Rightarrow> Some 0, s) } }"

definition ESOCKTNOSUPPORT :: errnum where "ESOCKTNOSUPPORT = Errno 94"

definition IfAccept :: "'w net_kernel \<Rightarrow> socket_option \<Rightarrow> bool \<Rightarrow> ('w, int option) net_op" where
  "IfAccept N op me s =
    (if ns_socket s < 0 then Some (None, s)
     else do {
       (ret, s) \<leftarrow> (if ns_domain s \<in> {AF_INET6, AF_INET, AF_UNIX} then DoAccept N (ns_domain s) me s
                   else Some (Some (-1), set_errno ESOCKTNOSUPPORT s));
       if ret \<noteq> Some 0 then Some (ret, s)
       else let fd = lp_fd (ns_peer s) in do {
         (ok, s) \<leftarrow> InitializeSocket N op fd s;
         if ok then Some (Some 0, s) else close_and N fd (Some 1) s } })"

definition IfAccepted :: "'w net_kernel \<Rightarrow> socket_option \<Rightarrow> int \<Rightarrow> ('w, bool) net_op" where
  "IfAccepted N op fd s = do {
     (closed, s) \<leftarrow> IfClose N s;
     if \<not> closed then Some (False, s)
     else do {
       (ok, s) \<leftarrow> InitializeSocket N op fd s;
       if \<not> ok then Some (False, s) else Some (True, s\<lparr>ns_domain := AF_UNSPEC, ns_socket := fd\<rparr>) } }"

definition wait_milliseconds :: "int \<Rightarrow> int" where
  "wait_milliseconds timeout = (if timeout \<ge> 0 then sint (word_of_int (timeout div 1000000) :: 32 word) else -1)"

definition IfWaitUntilConnected :: "'w net_kernel \<Rightarrow> int \<Rightarrow> ('w, bool option) net_op" where
  "IfWaitUntilConnected N timeout s =
    (if ns_socket s < 0 then Some (Some False, s)
     else do {
       (r, s) \<leftarrow> on_io (safe_wait_until_connected (n_kernel N) (ns_socket s) (wait_milliseconds timeout)) s;
       Some (map_option (\<lambda>r. r = 0) r, s) })"

definition EBADF :: errnum where "EBADF = Errno 9"

definition TestIfConnected :: "'w net_kernel \<Rightarrow> ('w, bool) net_op" where
  "TestIfConnected N s =
    (if ns_socket s < 0 then Some (False, set_errno EBADF s)
     else do { (r, s) \<leftarrow> on_io (safe_test_if_connected (n_kernel N) (ns_socket s)) s; Some (r = 0, s) })"

section \<open>The listener\<close>

text \<open>
  \<open>Listener::OnReadable\<close>: what it returns or throws. \<open>create\<close> is \<open>CreateLinkage\<close>, which may decline the peer,
  and then \<open>Attach\<close> of what it made; a linkage that is not attached is deleted, which closes its socket.
\<close>

datatype accept_end = Continue | Limit_exceeded | Bad_alloc | Accept_failed

definition ECONNABORTED :: errnum where "ECONNABORTED = Errno 103"

definition accept_errno :: "errnum \<Rightarrow> accept_end" where
  "accept_errno e =
    (if e \<in> {EINTR, EAGAIN, EWOULDBLOCK, ECONNABORTED} then Continue
     else if e \<in> {Errno 23, Errno 24} then Limit_exceeded
     else if e = Errno 12 then Bad_alloc
     else Accept_failed)"

datatype created = Declined | Attached | Not_attached

definition ListenerOnReadable :: "'w net_kernel \<Rightarrow> (linkage_peer \<Rightarrow> linkage_peer \<Rightarrow> created) \<Rightarrow> ('w, accept_end option) net_op" where
  "ListenerOnReadable N create s = do {
     (ret, s) \<leftarrow> IfAccept N new_socket_option True (s\<lparr>ns_me := new_peer, ns_peer := new_peer\<rparr>);
     case ret of
       None \<Rightarrow> Some (None, s)
     | Some ret \<Rightarrow>
         if ret < 0 then Some (Some (accept_errno (net_errno s)), s)
         else if ret > 0 then Some (Some Continue, s)
         else (case create (ns_peer s) (ns_me s) of
             Attached \<Rightarrow> Some (Some Continue, s)
           | _ \<Rightarrow> close_and N (lp_fd (ns_peer s)) (Some Continue) s) }"

text \<open>\<open>Listener::Listen\<close> tries both families when none is given.\<close>

definition ListenerListen :: "'w net_kernel \<Rightarrow> socket_spec \<Rightarrow> socket_option \<Rightarrow> ('w, bool option) net_op" where
  "ListenerListen N sk op s =
    (if sk_domain sk = AF_UNSPEC then do {
       (ok, s) \<leftarrow> IfListen N (sk\<lparr>sk_domain := AF_INET6\<rparr>) op False s;
       if ok = Some False then IfListen N (sk\<lparr>sk_domain := AF_INET\<rparr>) op False s else Some (ok, s) }
     else IfListen N sk op False s)"

text \<open>
  The listener as a client of the workers it is attached to; \<open>ok\<close> is the result of \<open>DoAttach\<close> or \<open>DoDetach\<close>. To
  disconnect it stops reading at all of them and shuts its socket down.
\<close>

definition ListenerAttach :: "nat \<Rightarrow> bool \<Rightarrow> nat set \<Rightarrow> bool \<times> nat set" where
  "ListenerAttach worker ok workers =
    (if worker = 0 then (False, workers) else if worker \<in> workers then (True, workers)
     else if \<not> ok then (False, workers) else (True, insert worker workers))"

definition ListenerDetach :: "nat \<Rightarrow> bool \<Rightarrow> nat set \<Rightarrow> bool \<times> nat set" where
  "ListenerDetach worker ok workers =
    (if worker = 0 then (False, workers) else if worker \<notin> workers then (True, workers)
     else if \<not> ok then (False, workers) else (True, workers - {worker}))"

definition ListenerDisconnect :: "'w net_kernel \<Rightarrow> nat set \<Rightarrow> ('w, int \<times> nat set) net_op" where
  "ListenerDisconnect N workers s = do { (ok, s) \<leftarrow> IfShutdown N s; Some ((if ok then 0 else -1, workers), s) }"

end
