(* ===== verification/Net_Interface_Correct.thy ===== *)
theory Net_Interface_Correct
  imports Net_Interface Safe_Io_Correct
begin

text \<open>
  The sockets of an \<open>Interface\<close> and of a listener: over a kernel that keeps its own table of descriptors
  (\<open>posix_net\<close>), every sequence of operations returns and leaves open what was open before and the one socket
  the object holds. Then what goes wrong with UNIX sockets.
\<close>

section \<open>What POSIX documents\<close>

text \<open>
  \<open>Opened\<close> is the kernel's table, \<open>W\<close> the number of interruptions to come. A call ends; one that fails opens and
  closes nothing.
\<close>

definition calm :: "('w \<Rightarrow> nat) \<Rightarrow> ('w \<Rightarrow> int set) \<Rightarrow> ('w \<Rightarrow> ((errnum + 'a) \<times> 'w) option) \<Rightarrow>
    ('a \<Rightarrow> int set \<Rightarrow> int set \<Rightarrow> bool) \<Rightarrow> bool" where
  "calm W Opened call effect \<longleftrightarrow> (\<forall>w. \<exists>r w'. call w = Some (r, w') \<and> (case r of
      Inl e \<Rightarrow> Opened w' = Opened w \<and> (e = EINTR \<longrightarrow> W w' < W w)
    | Inr a \<Rightarrow> effect a (Opened w) (Opened w')))"

definition leaves :: "'a \<Rightarrow> int set \<Rightarrow> int set \<Rightarrow> bool" where
  "leaves a A B \<longleftrightarrow> B = A"

definition opens :: "int \<Rightarrow> int set \<Rightarrow> int set \<Rightarrow> bool" where
  "opens fd A B \<longleftrightarrow> 0 \<le> fd \<and> fd \<notin> A \<and> B = insert fd A"

definition names :: "net_domain \<Rightarrow> sockaddr \<Rightarrow> int set \<Rightarrow> int set \<Rightarrow> bool" where
  "names T a A B \<longleftrightarrow> sa_family a = T \<and> B = A"

text \<open>A name has the family of the structure it is asked for with; \<open>close\<close> closes even when it fails.\<close>

definition posix_net :: "'w net_kernel \<Rightarrow> ('w \<Rightarrow> nat) \<Rightarrow> ('w \<Rightarrow> int set) \<Rightarrow> bool" where
  "posix_net N W Opened \<longleftrightarrow> (\<forall>fd.
     calm W Opened (k_getfl (n_kernel N) fd) leaves \<and>
     (\<forall>on. calm W Opened (k_setfl (n_kernel N) fd on) leaves) \<and>
     (\<forall>nb a. calm W Opened (k_connect (n_kernel N) nb fd a) leaves) \<and>
     (\<forall>nb. calm W Opened (k_accept (n_kernel N) nb fd) opens) \<and>
     (\<forall>w. \<exists>r w'. k_close (n_kernel N) fd w = Some (r, w') \<and> Opened w' = Opened w - {fd} \<and> (r = Inl EINTR \<longrightarrow> W w' < W w)) \<and>
     (\<forall>opt. calm W Opened (n_setsockopt N opt fd) leaves) \<and>
     calm W Opened (n_getfd N fd) leaves \<and> calm W Opened (n_setfd N fd) leaves \<and>
     (\<forall>a. calm W Opened (n_bind N fd a) leaves) \<and> (\<forall>n. calm W Opened (n_listen N fd n) leaves) \<and>
     (\<forall>T. calm W Opened (n_getsockname N T fd) (names T)) \<and> (\<forall>T. calm W Opened (n_getpeername N T fd) (names T)) \<and>
     calm W Opened (n_peercred N fd) leaves \<and> calm W Opened (n_shutdown N fd) leaves) \<and>
   (\<forall>d t p. calm W Opened (n_socket N d t p) opens) \<and>
   (\<forall>path m. calm W Opened (n_chmod N path m) leaves) \<and> (\<forall>path. calm W Opened (n_unlink N path) leaves) \<and>
   (\<forall>T first host port. calm W Opened (n_resolve N T first host port) (names T))"

section \<open>Calls that end\<close>

definition ends :: "('a \<times> 's) option \<Rightarrow> ('a \<Rightarrow> 's \<Rightarrow> bool) \<Rightarrow> bool" where
  "ends m Q \<longleftrightarrow> (\<exists>r t. m = Some (r, t) \<and> Q r t)"

lemma ends_Some [simp]: "ends (Some (r, t)) Q = Q r t"
  by (simp add: ends_def)

lemma ends_bind: "ends m Q \<Longrightarrow> (\<And>r t. Q r t \<Longrightarrow> ends (f (r, t)) P) \<Longrightarrow> ends (m \<bind> f) P"
  by (auto simp: ends_def)

lemma ends_mono: "ends m Q \<Longrightarrow> (\<And>r t. Q r t \<Longrightarrow> P r t) \<Longrightarrow> ends m P"
  by (auto simp: ends_def)

abbreviation open_fds :: "'w net \<Rightarrow> int set" where
  "open_fds s \<equiv> io_open (ns_io s)"

locale sockets =
  fixes N :: "'w net_kernel" and W :: "'w \<Rightarrow> nat" and Opened :: "'w \<Rightarrow> int set"
  assumes posix: "posix_net N W Opened"
begin

text \<open>The thread's descriptors are those of the kernel; a call changes nothing else.\<close>

definition sound :: "'w net \<Rightarrow> bool" where
  "sound s \<longleftrightarrow> open_fds s = Opened (io_world (ns_io s))"

definition changed :: "int set \<Rightarrow> 'w net \<Rightarrow> 'w net \<Rightarrow> bool" where
  "changed A s t \<longleftrightarrow> sound t \<and> open_fds t = A \<and> ns_socket t = ns_socket s \<and> ns_domain t = ns_domain s \<and>
     ns_sockname t = ns_sockname s \<and> ns_peer t = ns_peer s"

lemma changed_sound: "changed A s t \<Longrightarrow> sound t"
  by (simp add: changed_def)

lemma changed_trans: "changed A s t \<Longrightarrow> changed B t u \<Longrightarrow> changed B s u"
  by (simp add: changed_def)

lemma changed_refl: "sound s \<Longrightarrow> changed (open_fds s) s s"
  by (simp add: changed_def)

lemma changed_open: "changed A s t \<Longrightarrow> open_fds t = A"
  by (simp add: changed_def)

lemma changed_errno: "changed A s (set_errno e t) = changed A s t"
  by (simp add: changed_def set_errno_def sound_def)

lemma calm_leaves:
  assumes "calm W Opened call leaves"
  obtains r w' where "call w = Some (r, w')" and "Opened w' = Opened w"
proof -
  obtain r w' where "call w = Some (r, w')" "case r of Inl e \<Rightarrow> Opened w' = Opened w \<and> (e = EINTR \<longrightarrow> W w' < W w)
      | Inr a \<Rightarrow> leaves a (Opened w) (Opened w')"
    using assms unfolding calm_def by blast
  then show thesis by (cases r) (auto simp: leaves_def intro: that)
qed

lemma calm_call:
  assumes "calm W Opened call effect" and "sound s" and "\<And>a A B. effect a A B \<Longrightarrow> B = A \<and> P a"
  shows "ends (net_call call s) (\<lambda>r t. changed (open_fds s) s t \<and> (\<forall>a. r = Inr a \<longrightarrow> P a))"
proof -
  obtain r w' where "call (io_world (ns_io s)) = Some (r, w')"
    "case r of Inl e \<Rightarrow> Opened w' = Opened (io_world (ns_io s)) \<and> (e = EINTR \<longrightarrow> W w' < W (io_world (ns_io s)))
     | Inr a \<Rightarrow> effect a (Opened (io_world (ns_io s))) (Opened w')"
    using assms(1) unfolding calm_def by blast
  with assms(2) show ?thesis
    by (cases r) (auto simp: net_call_def on_io_def syscall_def changed_def sound_def dest: assms(3))
qed

lemma net_call_leaves:
  assumes "calm W Opened call leaves" and "sound s"
  shows "ends (net_call call s) (\<lambda>_. changed (open_fds s) s)"
  by (rule ends_mono [OF calm_call [OF assms, of "\<lambda>_. True"]]) (simp_all add: leaves_def)

lemma net_call_names:
  assumes "calm W Opened call (names T)" and "sound s"
  shows "ends (net_call call s) (\<lambda>r t. changed (open_fds s) s t \<and> (\<forall>a. r = Inr a \<longrightarrow> sa_family a = T))"
  by (rule calm_call [OF assms]) (simp add: names_def)

lemma succeeds_leaves:
  "calm W Opened call leaves \<Longrightarrow> sound s \<Longrightarrow> ends (succeeds call s) (\<lambda>_. changed (open_fds s) s)"
  unfolding succeeds_def by (rule ends_bind, rule net_call_leaves) (auto split: sum.splits)

lemma socket_opens:
  assumes "sound s"
  shows "ends (net_socket N sk s) (\<lambda>r t. case r of Inl e \<Rightarrow> changed (open_fds s) s t
    | Inr fd \<Rightarrow> 0 \<le> fd \<and> fd \<notin> open_fds s \<and> changed (insert fd (open_fds s)) s t)"
proof -
  have c: "calm W Opened (n_socket N (sk_domain sk) (sk_type sk) (sk_protocol sk)) opens"
    using posix by (simp add: posix_net_def)
  then obtain r w' where "n_socket N (sk_domain sk) (sk_type sk) (sk_protocol sk) (io_world (ns_io s)) = Some (r, w')"
    "case r of Inl e \<Rightarrow> Opened w' = Opened (io_world (ns_io s))
     | Inr a \<Rightarrow> opens a (Opened (io_world (ns_io s))) (Opened w')"
    unfolding calm_def by (metis (no_types, lifting) old.sum.simps(5,6) sum.exhaust)
  with assms show ?thesis
    by (cases r) (auto simp: net_socket_def on_io_def syscall_def changed_def sound_def opens_def)
qed

text \<open>The calls that are retried.\<close>

definition io_sound :: "'w io_state \<Rightarrow> bool" where
  "io_sound s \<longleftrightarrow> io_open s = Opened (io_world s)"

lemma on_io_ends:
  assumes "\<exists>r u. f (ns_io s) = Some (r, u) \<and> io_sound u \<and> io_open u = A \<and> P r"
  shows "ends (on_io f s) (\<lambda>r t. changed A s t \<and> P r)"
  using assms by (auto simp: on_io_def changed_def sound_def io_sound_def)

lemma safe_close_ends:
  assumes "io_sound s" and "0 \<le> fd"
  shows "\<exists>r u. safe_close (n_kernel N) fd s = Some (r, u) \<and> io_sound u \<and> io_open u = io_open s - {fd}"
proof -
  have "\<exists>r u. uninterrupted (sys_close (n_kernel N) fd) s = Some (r, u) \<and> r \<noteq> Inl EINTR \<and>
      (io_sound u \<and> io_open u = io_open s - {fd})"
  proof (rule uninterrupted_rule [where m = "\<lambda>s. W (io_world s)" and I = "\<lambda>t. io_sound t \<and> io_open t - {fd} = io_open s - {fd}"])
    fix t :: "'w io_state" assume I: "io_sound t \<and> io_open t - {fd} = io_open s - {fd}"
    obtain r w' where "k_close (n_kernel N) fd (io_world t) = Some (r, w')" "Opened w' = Opened (io_world t) - {fd}"
      "r = Inl EINTR \<longrightarrow> W w' < W (io_world t)"
      using posix unfolding posix_net_def by meson
    with I show "\<exists>r u. sys_close (n_kernel N) fd t = Some (r, u) \<and>
        (if r = Inl EINTR then (io_sound u \<and> io_open u - {fd} = io_open s - {fd}) \<and> W (io_world u) < W (io_world t)
         else io_sound u \<and> io_open u = io_open s - {fd})"
      by (cases r) (auto simp: sys_close_def syscall_def io_sound_def)
  qed (use assms in simp)
  with assms(2) show ?thesis by (auto simp: safe_close_def)
qed

lemma net_close_ends: "sound s \<Longrightarrow> 0 \<le> fd \<Longrightarrow> ends (net_close N fd s) (\<lambda>_. changed (open_fds s - {fd}) s)"
  unfolding net_close_def
  by (rule ends_mono, rule on_io_ends [where P = "\<lambda>_. True"])
    (use safe_close_ends in \<open>auto simp: sound_def io_sound_def\<close>)

lemma close_and_ends:
  "sound s \<Longrightarrow> 0 \<le> fd \<Longrightarrow> ends (close_and N fd v s) (\<lambda>r t. r = v \<and> changed (open_fds s - {fd}) s t)"
  unfolding close_and_def by (rule ends_bind, rule net_close_ends) auto

lemma safe_connect_ends:
  assumes "io_sound s"
  shows "\<exists>r u. safe_connect (n_kernel N) fd addr s = Some (r, u) \<and> io_sound u \<and> io_open u = io_open s \<and> (r = 0 \<or> r = -1)"
proof (cases "fd < 0 \<or> addr = None \<or> addr = Some []")
  case True
  then show ?thesis using assms by (cases addr) (auto simp: safe_connect_def io_sound_def)
next
  case False
  then obtain a where a: "addr = Some a" "a \<noteq> []" "0 \<le> fd" by auto
  have "\<exists>r u. uninterrupted (sys_connect (n_kernel N) fd a) s = Some (r, u) \<and> r \<noteq> Inl EINTR \<and>
      (io_sound u \<and> io_open u = io_open s)"
  proof (rule uninterrupted_rule [where m = "\<lambda>s. W (io_world s)" and I = "\<lambda>t. io_sound t \<and> io_open t = io_open s"])
    fix t :: "'w io_state" assume I: "io_sound t \<and> io_open t = io_open s"
    have "calm W Opened (k_connect (n_kernel N) (fd \<in> io_nonblock t) fd a) leaves" using posix by (simp add: posix_net_def)
    then obtain r w' where "k_connect (n_kernel N) (fd \<in> io_nonblock t) fd a (io_world t) = Some (r, w')"
      "case r of Inl e \<Rightarrow> Opened w' = Opened (io_world t) \<and> (e = EINTR \<longrightarrow> W w' < W (io_world t))
       | Inr x \<Rightarrow> leaves x (Opened (io_world t)) (Opened w')"
      unfolding calm_def by blast
    with I show "\<exists>r u. sys_connect (n_kernel N) fd a t = Some (r, u) \<and>
        (if r = Inl EINTR then (io_sound u \<and> io_open u = io_open s) \<and> W (io_world u) < W (io_world t)
         else io_sound u \<and> io_open u = io_open s)"
      by (cases r) (auto simp: sys_connect_def syscall_def io_sound_def leaves_def)
  qed (use assms in simp)
  then obtain r u where "uninterrupted (sys_connect (n_kernel N) fd a) s = Some (r, u)" "io_sound u" "io_open u = io_open s"
    by blast
  with a show ?thesis by (cases r) (auto simp: safe_connect_def or_minus_one_def)
qed

lemma safe_accept_ends:
  assumes "io_sound s"
  shows "\<exists>r u. safe_accept (n_kernel N) fd s = Some (r, u) \<and> io_sound u \<and>
    (if r < 0 then io_open u = io_open s else r \<notin> io_open s \<and> io_open u = insert r (io_open s))"
proof (cases "fd < 0")
  case True
  then show ?thesis using assms by (auto simp: safe_accept_def io_sound_def)
next
  case False
  let ?Q = "\<lambda>r u. io_sound u \<and> (case r of Inl e \<Rightarrow> io_open u = io_open s
    | Inr p \<Rightarrow> 0 \<le> p \<and> p \<notin> io_open s \<and> io_open u = insert p (io_open s))"
  have "\<exists>r u. uninterrupted (sys_accept (n_kernel N) fd) s = Some (r, u) \<and> r \<noteq> Inl EINTR \<and> ?Q r u"
  proof (rule uninterrupted_rule [where m = "\<lambda>s. W (io_world s)" and I = "\<lambda>t. io_sound t \<and> io_open t = io_open s"])
    fix t :: "'w io_state" assume I: "io_sound t \<and> io_open t = io_open s"
    have "calm W Opened (k_accept (n_kernel N) (fd \<in> io_nonblock t) fd) opens" using posix by (simp add: posix_net_def)
    then obtain r w' where "k_accept (n_kernel N) (fd \<in> io_nonblock t) fd (io_world t) = Some (r, w')"
      "case r of Inl e \<Rightarrow> Opened w' = Opened (io_world t) \<and> (e = EINTR \<longrightarrow> W w' < W (io_world t))
       | Inr x \<Rightarrow> opens x (Opened (io_world t)) (Opened w')"
      unfolding calm_def by blast
    with I show "\<exists>r u. sys_accept (n_kernel N) fd t = Some (r, u) \<and>
        (if r = Inl EINTR then (io_sound u \<and> io_open u = io_open s) \<and> W (io_world u) < W (io_world t) else ?Q r u)"
      by (cases r) (auto simp: sys_accept_def syscall_def io_sound_def opens_def)
  qed (use assms in simp)
  then obtain r u where "uninterrupted (sys_accept (n_kernel N) fd) s = Some (r, u)" "?Q r u"
    by blast
  with False show ?thesis by (cases r) (auto simp: safe_accept_def or_minus_one_def)
qed

lemma non_blocking_ends:
  assumes "sound s"
  shows "ends (non_blocking N fd s) (\<lambda>_. changed (open_fds s) s)"
proof -
  have "\<exists>r u. set_non_blocking_mode (n_kernel N) fd (ns_io s) = Some (r, u) \<and> io_sound u \<and> io_open u = open_fds s \<and> True"
  proof -
    have c: "calm W Opened (k_getfl (n_kernel N) fd) leaves" "calm W Opened (k_setfl (n_kernel N) fd True) leaves"
      using posix by (simp_all add: posix_net_def)
    obtain r w where r: "k_getfl (n_kernel N) fd (io_world (ns_io s)) = Some (r, w)" "Opened w = Opened (io_world (ns_io s))"
      by (rule calm_leaves [OF c(1)])
    obtain q v where q: "k_setfl (n_kernel N) fd True w = Some (q, v)" "Opened v = Opened w"
      by (rule calm_leaves [OF c(2)])
    show ?thesis using assms r q
      by (cases r; cases q) (simp_all add: set_non_blocking_mode_def sys_getfl_def sys_setfl_def syscall_def sound_def io_sound_def)
  qed
  then show ?thesis unfolding non_blocking_def
    by (intro ends_bind [OF on_io_ends [where P = "\<lambda>_. True"]]) auto
qed

text \<open>Options and new sockets.\<close>

definition quiet :: "('w, 'a) net_op \<Rightarrow> bool" where
  "quiet f \<longleftrightarrow> (\<forall>s. sound s \<longrightarrow> ends (f s) (\<lambda>_. changed (open_fds s) s))"

lemma quiet_ends: "quiet f \<Longrightarrow> sound s \<Longrightarrow> ends (f s) (\<lambda>_. changed (open_fds s) s)"
  by (simp add: quiet_def)

lemma quiet_succeeds: "calm W Opened call leaves \<Longrightarrow> quiet (succeeds call)"
  by (simp add: quiet_def succeeds_leaves)

lemma quiet_non_blocking: "quiet (non_blocking N fd)"
  by (simp add: quiet_def non_blocking_ends)

lemma quiet_close_on_exec: "quiet (set_close_on_exec N fd)"
  unfolding quiet_def
proof (intro allI impI)
  fix s :: "'w net" assume s: "sound s"
  have c: "calm W Opened (n_getfd N fd) leaves" "calm W Opened (n_setfd N fd) leaves"
    using posix by (simp_all add: posix_net_def)
  show "ends (set_close_on_exec N fd s) (\<lambda>_. changed (open_fds s) s)"
    unfolding set_close_on_exec_def
  proof (rule ends_bind [OF net_call_leaves [OF c(1) s]])
    fix r :: "errnum + bool" and t :: "'w net"
    assume t: "changed (open_fds s) s t"
    have "ends (succeeds (n_setfd N fd) t) (\<lambda>_. changed (open_fds s) s)"
      by (rule ends_mono [OF succeeds_leaves [OF c(2) changed_sound [OF t]]])
        (use t in \<open>auto simp: changed_open intro: changed_trans\<close>)
    with t show "ends (case (r, t) of (r, s) \<Rightarrow> case r of Inl _ \<Rightarrow> Some (False, s)
        | Inr on \<Rightarrow> if on then Some (True, s) else succeeds (n_setfd N fd) s) (\<lambda>_. changed (open_fds s) s)"
      by (simp split: sum.splits)
  qed
qed

lemma quiet_set_options:
  assumes "\<forall>x \<in> set fs. quiet (snd x)"
  shows "quiet (set_options fs)"
  using assms
proof (induction fs)
  case Nil
  then show ?case by (simp add: quiet_def changed_refl)
next
  case (Cons x fs)
  obtain wanted f where x: "x = (wanted, f)" by fastforce
  have f: "quiet f" and fs: "quiet (set_options fs)" using Cons x by auto
  show ?case unfolding quiet_def
  proof (intro allI impI)
    fix s :: "'w net" assume s: "sound s"
    have "ends (f s \<bind> (\<lambda>(ok, s). if ok then set_options fs s else Some (False, s))) (\<lambda>_. changed (open_fds s) s)"
    proof (rule ends_bind [OF quiet_ends [OF f s]])
      fix ok and t :: "'w net" assume t: "changed (open_fds s) s t"
      have "ends (set_options fs t) (\<lambda>_. changed (open_fds s) s)"
        by (rule ends_mono [OF quiet_ends [OF fs changed_sound [OF t]]])
          (use t in \<open>auto simp: changed_open intro: changed_trans\<close>)
      with t show "ends (case (ok, t) of (ok, s) \<Rightarrow> if ok then set_options fs s else Some (False, s)) (\<lambda>_. changed (open_fds s) s)"
        by simp
    qed
    with s show "ends (set_options (x # fs) s) (\<lambda>_. changed (open_fds s) s)"
      using quiet_ends [OF fs s] by (simp add: x)
  qed
qed

lemma quiet_InitializeSocket: "quiet (InitializeSocket N op fd)"
  unfolding InitializeSocket_def using posix
  by (intro quiet_set_options) (auto simp: posix_net_def intro: quiet_succeeds quiet_non_blocking quiet_close_on_exec)

text \<open>The result is a new socket, or negative and nothing is new.\<close>

definition made :: "'w net \<Rightarrow> int \<Rightarrow> 'w net \<Rightarrow> bool" where
  "made s fd t \<longleftrightarrow> (if fd < 0 then changed (open_fds s) s t
    else fd \<notin> open_fds s \<and> changed (insert fd (open_fds s)) s t)"

lemma made_failed: "made s (-1) t = changed (open_fds s) s t"
  by (simp add: made_def)

lemma made_next: "made s fd t \<Longrightarrow> 0 \<le> fd \<Longrightarrow> changed (open_fds t) t u \<Longrightarrow> made s fd u"
  by (simp add: made_def changed_def)

lemma made_sound: "made s fd t \<Longrightarrow> sound t"
  by (auto simp: made_def changed_def split: if_splits)

text \<open>Closing it again undoes it.\<close>

lemma made_closed:
  "made s fd t \<Longrightarrow> 0 \<le> fd \<Longrightarrow> ends (close_and N fd v t) (\<lambda>r u. r = v \<and> changed (open_fds s) s u)"
  by (rule ends_mono [OF close_and_ends]) (auto simp: made_def changed_def)

lemma CreateSocket_ends:
  assumes s: "sound s"
  shows "ends (CreateSocket N sk op s) (made s)"
  unfolding CreateSocket_def
proof (rule ends_bind [OF socket_opens [OF s]])
  fix r :: "errnum + int" and t :: "'w net"
  assume r: "case r of Inl e \<Rightarrow> changed (open_fds s) s t
    | Inr fd \<Rightarrow> 0 \<le> fd \<and> fd \<notin> open_fds s \<and> changed (insert fd (open_fds s)) s t"
  show "ends (case (r, t) of (r, s) \<Rightarrow> case r of Inl _ \<Rightarrow> Some (-1, s)
    | Inr fd \<Rightarrow> InitializeSocket N op fd s \<bind> (\<lambda>(ok, s). if ok then Some (fd, s) else close_and N fd (-1) s)) (made s)"
  proof (cases r)
    case (Inl e)
    with r show ?thesis by (simp add: made_failed)
  next
    case (Inr fd)
    with r have m: "made s fd t" and fd: "0 \<le> fd" by (simp_all add: made_def)
    have "ends (InitializeSocket N op fd t \<bind> (\<lambda>(ok, s). if ok then Some (fd, s) else close_and N fd (-1) s)) (made s)"
    proof (rule ends_bind [OF quiet_ends [OF quiet_InitializeSocket made_sound [OF m]]])
      fix ok and u :: "'w net" assume "changed (open_fds t) t u"
      then have m': "made s fd u" by (rule made_next [OF m fd])
      show "ends (case (ok, u) of (ok, s) \<Rightarrow> if ok then Some (fd, s) else close_and N fd (-1) s) (made s)"
        using m' ends_mono [OF made_closed [OF m' fd, of "-1"], of "made s"] by (auto simp: made_failed)
    qed
    with Inr show ?thesis by simp
  qed
qed

lemma made_quiet: "made s fd t \<Longrightarrow> 0 \<le> fd \<Longrightarrow> quiet f \<Longrightarrow> ends (f t) (\<lambda>_. made s fd)"
  by (rule ends_mono [OF quiet_ends]) (auto intro: made_sound made_next)

lemma made_names:
  "made s fd t \<Longrightarrow> 0 \<le> fd \<Longrightarrow> calm W Opened call (names T) \<Longrightarrow>
    ends (net_call call t) (\<lambda>r u. made s fd u \<and> (\<forall>a. r = Inr a \<longrightarrow> sa_family a = T))"
  by (rule ends_mono [OF net_call_names]) (auto intro: made_sound made_next)

lemma made_undone: "made s fd t \<Longrightarrow> 0 \<le> fd \<Longrightarrow> ends (close_and N fd (-1) t) (made s)"
  by (rule ends_mono [OF made_closed]) (auto simp: made_failed)

lemma calm_bind: "calm W Opened (n_bind N fd a) leaves"
  and calm_listen: "calm W Opened (n_listen N fd n) leaves"
  and calm_sockopt: "calm W Opened (n_setsockopt N opt fd) leaves"
  and calm_chmod: "calm W Opened (n_chmod N path m) leaves"
  and calm_unlink: "calm W Opened (n_unlink N path) leaves"
  and calm_peercred: "calm W Opened (n_peercred N fd) leaves"
  and calm_shutdown: "calm W Opened (n_shutdown N fd) leaves"
  and calm_sockname: "calm W Opened (n_getsockname N T fd) (names T)"
  and calm_peername: "calm W Opened (n_getpeername N T fd) (names T)"
  and calm_resolve: "calm W Opened (n_resolve N T first host port) (names T)"
  using posix by (simp_all add: posix_net_def)

lemmas quiet_calls = quiet_succeeds [OF calm_bind] quiet_succeeds [OF calm_listen] quiet_succeeds [OF calm_sockopt]
  quiet_succeeds [OF calm_chmod] quiet_InitializeSocket

lemma CreateListenSocket_ends:
  assumes s: "sound s"
  shows "ends (CreateListenSocket N sk op a s) (made s)"
  unfolding CreateListenSocket_def
proof (rule ends_bind [OF CreateSocket_ends [OF s]])
  fix fd t assume t: "made s fd t"
  have "ends (succeeds (n_bind N fd a) t \<bind> (\<lambda>(ok, s). if \<not> ok then close_and N fd (-1) s
      else if sk_type sk = SOCK_STREAM
      then succeeds (n_listen N fd kMaximumQueueLength) s \<bind> (\<lambda>(ok, s). if \<not> ok then close_and N fd (-1) s else Some (fd, s))
      else Some (fd, s))) (made s)" if fd: "0 \<le> fd"
  proof (rule ends_bind [OF made_quiet [OF t fd quiet_calls(1)]])
    fix ok u assume u: "made s fd u"
    have "ends (succeeds (n_listen N fd kMaximumQueueLength) u \<bind>
        (\<lambda>(ok, s). if \<not> ok then close_and N fd (-1) s else Some (fd, s))) (made s)"
      by (rule ends_bind [OF made_quiet [OF u fd quiet_calls(2)]]) (auto intro: made_undone fd)
    with u show "ends (case (ok, u) of (ok, s) \<Rightarrow> if \<not> ok then close_and N fd (-1) s
      else if sk_type sk = SOCK_STREAM
      then succeeds (n_listen N fd kMaximumQueueLength) s \<bind> (\<lambda>(ok, s). if \<not> ok then close_and N fd (-1) s else Some (fd, s))
      else Some (fd, s)) (made s)"
      by (auto intro: made_undone fd)
  qed
  with t show "ends (case (fd, t) of (fd, s) \<Rightarrow> if fd < 0 then Some (-1, s)
      else succeeds (n_bind N fd a) s \<bind> (\<lambda>(ok, s). if \<not> ok then close_and N fd (-1) s
        else if sk_type sk = SOCK_STREAM
        then succeeds (n_listen N fd kMaximumQueueLength) s \<bind> (\<lambda>(ok, s). if \<not> ok then close_and N fd (-1) s else Some (fd, s))
        else Some (fd, s))) (made s)"
    by (auto simp: made_def)
qed

text \<open>Everything but the peer.\<close>

definition near :: "int set \<Rightarrow> 'w net \<Rightarrow> 'w net \<Rightarrow> bool" where
  "near A s t \<longleftrightarrow> sound t \<and> open_fds t = A \<and> ns_socket t = ns_socket s \<and> ns_domain t = ns_domain s \<and>
     ns_sockname t = ns_sockname s"

lemma changed_near: "changed A s t \<Longrightarrow> near A s t"
  by (simp add: changed_def near_def)

lemma near_changed: "near A s t \<Longrightarrow> changed B t u \<Longrightarrow> near B s u"
  by (simp add: changed_def near_def)

lemma near_sound: "near A s t \<Longrightarrow> sound t"
  by (simp add: near_def)

lemma near_open: "near A s t \<Longrightarrow> open_fds t = A"
  by (simp add: near_def)

lemma LinkagePeerSet_ends:
  assumes "sound s" and "sa_family a = T"
  shows "ends (LinkagePeerSet N T a fd lp s) (\<lambda>r t. changed (open_fds s) s t \<and>
    (\<exists>ok lp'. r = Some (ok, lp') \<and> (ok \<longrightarrow> lp_fd lp' = fd) \<and> (T \<noteq> AF_UNIX \<longrightarrow> ok)))"
proof (cases a)
  case (Sun path)
  have "ends (net_call (n_peercred N fd) s \<bind> (\<lambda>(r, s). Some (case r of
        Inl _ \<Rightarrow> Some (False, lp)
      | Inr (u, g, p) \<Rightarrow> Some (True, lp\<lparr>lp_uid := u, lp_gid := g, lp_pid := p, lp_ip_str := un_string (un_path N path),
          lp_ip := [], lp_port := 0, lp_fd := fd\<rparr>), s)))
    (\<lambda>r t. changed (open_fds s) s t \<and> (\<exists>ok lp'. r = Some (ok, lp') \<and> (ok \<longrightarrow> lp_fd lp' = fd) \<and> (T \<noteq> AF_UNIX \<longrightarrow> ok)))"
    by (rule ends_bind [OF net_call_leaves [OF calm_peercred assms(1)]])
      (use assms(2) Sun in \<open>auto simp: sa_family_def split: sum.splits\<close>)
  with assms Sun show ?thesis by (simp add: LinkagePeerSet_def)
qed (use assms in \<open>auto simp: LinkagePeerSet_def changed_refl\<close>)

text \<open>The peer that is stored has the descriptor.\<close>

lemma set_peer_ends:
  assumes "sound s" and "sa_family a = T"
  shows "ends (set_peer N T a fd s) (\<lambda>r t. near (open_fds s) s t \<and> (r = Some True \<and> lp_fd (ns_peer t) = fd \<or>
    r = Some False \<and> T = AF_UNIX))"
  unfolding set_peer_def
  by (rule ends_bind [OF LinkagePeerSet_ends [OF assms]]) (auto simp: near_def changed_def sound_def)

lemma set_me_ends:
  assumes "sound s" and "sa_family a = T"
  shows "ends (set_me N T a fd s) (\<lambda>r t. changed (open_fds s) s t \<and> (r = Some True \<or> r = Some False))"
  unfolding set_me_def
  by (rule ends_bind [OF LinkagePeerSet_ends [OF assms]]) (auto simp: near_def changed_def sound_def)

lemma name_or_close_ends:
  assumes s: "sound s" and fd: "0 \<le> fd" and call: "calm W Opened call (names T)"
    and store: "\<And>a u. sound u \<Longrightarrow> sa_family a = T \<Longrightarrow>
      ends (store a u) (\<lambda>r t. near (open_fds u) u t \<and> (r = Some True \<and> Q u t \<or> r = Some False))"
    and Q: "\<And>u t. changed (open_fds s) s u \<Longrightarrow> Q u t \<Longrightarrow> Q s t"
  shows "ends (name_or_close N fd call store s) (\<lambda>r t. r = Some True \<and> near (open_fds s) s t \<and> Q s t \<or>
    r = Some False \<and> near (open_fds s - {fd}) s t)"
  unfolding name_or_close_def
proof (rule ends_bind [OF net_call_names [OF call s]])
  fix r :: "errnum + sockaddr" and t :: "'w net"
  assume t: "changed (open_fds s) s t \<and> (\<forall>a. r = Inr a \<longrightarrow> sa_family a = T)"
  have closed: "ends (close_and N fd (Some False) u) (\<lambda>r t. r = Some True \<and> near (open_fds s) s t \<and> Q s t \<or>
      r = Some False \<and> near (open_fds s - {fd}) s t)" if "near (open_fds s) s u" for u
    by (rule ends_mono [OF close_and_ends [OF near_sound [OF that] fd]]) (use that in \<open>auto simp: near_def changed_def\<close>)
  show "ends (case (r, t) of (r, s) \<Rightarrow> case r of Inl _ \<Rightarrow> close_and N fd (Some False) s
      | Inr a \<Rightarrow> store a s \<bind> (\<lambda>(ok, s). if ok = Some False then close_and N fd (Some False) s else Some (ok, s)))
    (\<lambda>r t. r = Some True \<and> near (open_fds s) s t \<and> Q s t \<or> r = Some False \<and> near (open_fds s - {fd}) s t)"
  proof (cases r)
    case (Inl e)
    then show ?thesis using closed [of t] t by (simp add: changed_near)
  next
    case (Inr a)
    have "ends (store a t \<bind> (\<lambda>(ok, s). if ok = Some False then close_and N fd (Some False) s else Some (ok, s)))
      (\<lambda>r t. r = Some True \<and> near (open_fds s) s t \<and> Q s t \<or> r = Some False \<and> near (open_fds s - {fd}) s t)"
    proof (rule ends_bind [OF store])
      fix ok u assume u: "near (open_fds t) t u \<and> (ok = Some True \<and> Q t u \<or> ok = Some False)"
      then have n: "near (open_fds s) s u" using t by (simp add: near_def changed_def)
      show "ends (case (ok, u) of (ok, s) \<Rightarrow> if ok = Some False then close_and N fd (Some False) s else Some (ok, s))
        (\<lambda>r t. r = Some True \<and> near (open_fds s) s t \<and> Q s t \<or> r = Some False \<and> near (open_fds s - {fd}) s t)"
        using closed [OF n] u n Q t by auto
    qed (use t Inr in \<open>auto intro: changed_sound\<close>)
    with Inr show ?thesis by simp
  qed
qed

lemma GetPeerOrClose_ends:
  assumes s: "sound s" and fd: "0 \<le> fd"
  shows "ends (GetPeerOrClose N T fd peer me s) (\<lambda>r t.
    r = Some True \<and> near (open_fds s) s t \<and> (peer \<longrightarrow> lp_fd (ns_peer t) = fd) \<or>
    r = Some False \<and> near (open_fds s - {fd}) s t)"
proof -
  have first: "ends (if peer then name_or_close N fd (n_getpeername N T fd) (\<lambda>a. set_peer N T a fd) s else Some (Some True, s))
      (\<lambda>r t. r = Some True \<and> near (open_fds s) s t \<and> (peer \<longrightarrow> lp_fd (ns_peer t) = fd) \<or>
        r = Some False \<and> near (open_fds s - {fd}) s t)"
  proof (cases peer)
    case True
    have "ends (name_or_close N fd (n_getpeername N T fd) (\<lambda>a. set_peer N T a fd) s)
      (\<lambda>r t. r = Some True \<and> near (open_fds s) s t \<and> lp_fd (ns_peer t) = fd \<or> r = Some False \<and> near (open_fds s - {fd}) s t)"
      by (rule name_or_close_ends [OF s fd calm_peername, where Q = "\<lambda>u t. lp_fd (ns_peer t) = fd"])
        (auto intro: ends_mono [OF set_peer_ends])
    with True show ?thesis by simp
  qed (use s in \<open>simp add: near_def\<close>)
  have second: "ends (name_or_close N fd (n_getsockname N T fd) (\<lambda>a. set_me N T a fd) u)
      (\<lambda>r t. r = Some True \<and> near (open_fds u) u t \<and> ns_peer t = ns_peer u \<or> r = Some False \<and> near (open_fds u - {fd}) u t)"
    if "sound u" for u
    by (rule name_or_close_ends [OF that fd calm_sockname, where Q = "\<lambda>u t. ns_peer t = ns_peer u"])
      (auto intro!: ends_mono [OF set_me_ends] simp: changed_def near_def)
  show ?thesis unfolding GetPeerOrClose_def
  proof (rule ends_bind [OF first])
    fix r t assume t: "r = Some True \<and> near (open_fds s) s t \<and> (peer \<longrightarrow> lp_fd (ns_peer t) = fd) \<or>
      r = Some False \<and> near (open_fds s - {fd}) s t"
    show "ends (case (r, t) of (ok, s) \<Rightarrow> if ok \<noteq> Some True then Some (ok, s)
        else if me then name_or_close N fd (n_getsockname N T fd) (\<lambda>a. set_me N T a fd) s else Some (Some True, s))
      (\<lambda>r t. r = Some True \<and> near (open_fds s) s t \<and> (peer \<longrightarrow> lp_fd (ns_peer t) = fd) \<or>
        r = Some False \<and> near (open_fds s - {fd}) s t)"
    proof (cases "r = Some True \<and> me")
      case True
      then have n: "near (open_fds s) s t" "peer \<longrightarrow> lp_fd (ns_peer t) = fd" using t by auto
      have "ends (name_or_close N fd (n_getsockname N T fd) (\<lambda>a. set_me N T a fd) t)
        (\<lambda>r t. r = Some True \<and> near (open_fds s) s t \<and> (peer \<longrightarrow> lp_fd (ns_peer t) = fd) \<or>
          r = Some False \<and> near (open_fds s - {fd}) s t)"
        by (rule ends_mono [OF second [OF near_sound [OF n(1)]]]) (use n in \<open>auto simp: near_def\<close>)
      with True show ?thesis by simp
    qed (use t in auto)
  qed
qed

text \<open>What \<open>Listen\<close> and \<open>Connect\<close> leave: the socket of the object is new, or nothing is.\<close>

definition opened :: "'w net \<Rightarrow> bool \<Rightarrow> 'w net \<Rightarrow> bool" where
  "opened s ok t \<longleftrightarrow> sound t \<and>
    (if ok then 0 \<le> ns_socket t \<and> ns_socket t \<notin> open_fds s \<and> open_fds t = insert (ns_socket t) (open_fds s)
     else ns_socket t = ns_socket s \<and> open_fds t = open_fds s)"

lemma opened_failed: "near (open_fds s) s t \<Longrightarrow> opened s False t"
  by (simp add: opened_def near_def)

lemma opened_refl: "sound s \<Longrightarrow> opened s False s"
  by (simp add: opened_def)

lemma made_opened: "made s fd t \<Longrightarrow> fd < 0 \<Longrightarrow> opened s False t"
  by (simp add: opened_failed changed_near made_def)

lemma close_opened:
  "made s fd t \<Longrightarrow> 0 \<le> fd \<Longrightarrow> ends (close_and N fd v t) (\<lambda>r u. r = v \<and> opened s False u)"
  by (rule ends_mono [OF made_closed]) (auto intro: opened_failed changed_near)

lemma quiet_connect: "quiet (on_io (safe_connect (n_kernel N) fd addr))"
  unfolding quiet_def
  by (auto intro!: ends_mono [OF on_io_ends [where P = "\<lambda>r. r = 0 \<or> r = -1"]] safe_connect_ends
      simp: sound_def io_sound_def)

lemma bind_interface_ends:
  assumes t: "made s fd t" and fd: "0 \<le> fd"
  shows "ends (bind_interface N T sk fd t) (\<lambda>ok u. (ok \<longrightarrow> made s fd u) \<and> (\<not> ok \<longrightarrow> opened s False u))"
proof (cases "given (sk_interface sk)")
  case False
  then show ?thesis using t by (simp add: bind_interface_def)
next
  case True
  have closed: "ends (close_and N fd False u) (\<lambda>ok u. (ok \<longrightarrow> made s fd u) \<and> (\<not> ok \<longrightarrow> opened s False u))" if "made s fd u" for u
    by (rule ends_mono [OF close_opened [OF that fd]]) simp
  have "ends (succeeds (n_bind N fd a) u \<bind> (\<lambda>(ok, s). if ok then Some (True, s) else close_and N fd False s))
      (\<lambda>ok u. (ok \<longrightarrow> made s fd u) \<and> (\<not> ok \<longrightarrow> opened s False u))" if "made s fd u" for a u
    by (rule ends_bind [OF made_quiet [OF that fd quiet_calls(1)]]) (auto intro: closed)
  with True show ?thesis unfolding bind_interface_def
    by (simp, intro ends_bind [OF made_names [OF t fd calm_resolve]]) (auto intro: closed split: sum.splits)
qed

section \<open>Connecting and listening\<close>

text \<open>The results of \<open>Connect\<close> and \<open>Listen\<close>.\<close>

definition connects :: "'w net \<Rightarrow> int option \<Rightarrow> 'w net \<Rightarrow> bool" where
  "connects s r t \<longleftrightarrow> (\<exists>v. r = Some v \<and> opened s (0 \<le> v) t)"

definition listens :: "'w net \<Rightarrow> bool option \<Rightarrow> 'w net \<Rightarrow> bool" where
  "listens s r t \<longleftrightarrow> (\<exists>v. r = Some v \<and> opened s v t)"

lemma connects_Some [simp]: "connects s (Some v) t = opened s (0 \<le> v) t"
  by (simp add: connects_def)

lemma listens_Some [simp]: "listens s (Some v) t = opened s v t"
  by (simp add: listens_def)

lemma closed_connects: "made s fd t \<Longrightarrow> 0 \<le> fd \<Longrightarrow> ends (close_and N fd (Some (-1)) t) (connects s)"
  by (rule ends_mono [OF close_opened]) auto

lemma closed_listens: "made s fd t \<Longrightarrow> 0 \<le> fd \<Longrightarrow> ends (close_and N fd (Some False) t) (listens s)"
  by (rule ends_mono [OF close_opened]) auto

text \<open>A socket whose names have been taken.\<close>

definition holding :: "'w net \<Rightarrow> int \<Rightarrow> 'w net \<Rightarrow> bool" where
  "holding s fd t \<longleftrightarrow> 0 \<le> fd \<and> fd \<notin> open_fds s \<and> near (insert fd (open_fds s)) s t"

lemma holding_made: "made s fd t \<Longrightarrow> 0 \<le> fd \<Longrightarrow> holding s fd t"
  by (simp add: holding_def made_def changed_near)

lemma holding_opened: "holding s fd t \<Longrightarrow> opened s True (t\<lparr>ns_socket := fd, ns_domain := d\<rparr>)"
  by (auto simp: holding_def opened_def near_def sound_def)

lemma holding_sockname: "holding s fd t \<Longrightarrow> opened s True (t\<lparr>ns_socket := fd, ns_domain := d, ns_sockname := n\<rparr>)"
  by (auto simp: holding_def opened_def near_def sound_def)

lemma holding_closed: "holding s fd t \<Longrightarrow> ends (close_and N fd v t) (\<lambda>r u. r = v \<and> opened s False u)"
  by (rule ends_mono [OF close_and_ends]) (auto simp: holding_def near_def changed_def opened_def)

lemma GetPeerOrClose_holding:
  assumes "holding s fd t"
  shows "ends (GetPeerOrClose N T fd False me t) (\<lambda>r u. r = Some True \<and> holding s fd u \<or> r = Some False \<and> opened s False u)"
  by (rule ends_mono [OF GetPeerOrClose_ends]) (use assms in \<open>auto simp: holding_def near_def opened_def\<close>)

lemma set_peer_holding:
  assumes "holding s fd t" and "sa_family a = T"
  shows "ends (set_peer N T a fd t) (\<lambda>r u. holding s fd u \<and> (r = Some True \<or> r = Some False))"
  by (rule ends_mono [OF set_peer_ends]) (use assms in \<open>auto simp: holding_def near_def\<close>)

lemma connected_tcp_ends:
  assumes t: "holding s fd t" and a: "sa_family a = T"
  shows "ends (connected_tcp N T a fd ret peer me t) (connects s)"
  unfolding connected_tcp_def
proof (rule ends_bind [OF GetPeerOrClose_holding [OF t]])
  fix r u assume u: "r = Some True \<and> holding s fd u \<or> r = Some False \<and> opened s False u"
  have tail: "ends ((if peer then set_peer N T a fd u else Some (Some True, u)) \<bind> (\<lambda>(ok, s).
        if ok = None then Some (None, s) else if ok = Some False then close_and N fd (Some (-1)) s
        else Some (Some (if ret = 0 then 0 else 1), s\<lparr>ns_socket := fd, ns_domain := AF_INET\<rparr>))) (connects s)"
    if h: "holding s fd u"
  proof (rule ends_bind)
    show "ends (if peer then set_peer N T a fd u else Some (Some True, u))
      (\<lambda>r v. holding s fd v \<and> (r = Some True \<or> r = Some False))"
      using set_peer_holding [OF h a] h by simp
  next
    fix ok v assume v: "holding s fd v \<and> (ok = Some True \<or> ok = Some False)"
    have "ends (close_and N fd (Some (-1)) v) (connects s)"
      by (rule ends_mono [OF holding_closed]) (use v in auto)
    with v show "ends (case (ok, v) of (ok, s) \<Rightarrow> if ok = None then Some (None, s)
        else if ok = Some False then close_and N fd (Some (-1)) s
        else Some (Some (if ret = 0 then 0 else 1), s\<lparr>ns_socket := fd, ns_domain := AF_INET\<rparr>)) (connects s)"
      by (auto simp: holding_opened)
  qed
  with u show "ends (case (r, u) of (ok, s) \<Rightarrow> if ok = None then Some (None, s)
      else if ok = Some False then Some (Some (-1), s)
      else (if peer then set_peer N T a fd s else Some (Some True, s)) \<bind> (\<lambda>(ok, s).
        if ok = None then Some (None, s) else if ok = Some False then close_and N fd (Some (-1)) s
        else Some (Some (if ret = 0 then 0 else 1), s\<lparr>ns_socket := fd, ns_domain := AF_INET\<rparr>))) (connects s)"
    by (cases "r = Some True") simp_all
qed

lemma connect_tcp_ends:
  assumes t: "made s fd t" and fd: "0 \<le> fd"
  shows "ends (connect_tcp N T sk fd peer me t) (connects s)"
  unfolding connect_tcp_def
proof (rule ends_bind [OF made_names [OF t fd calm_resolve]])
  fix r :: "errnum + sockaddr" and u
  assume u: "made s fd u \<and> (\<forall>a. r = Inr a \<longrightarrow> sa_family a = T)"
  have tail: "ends (on_io (safe_connect (n_kernel N) fd (Some (sockaddr_bytes a))) u \<bind> (\<lambda>(ret, s).
      if ret < 0 \<and> net_errno s \<noteq> EINPROGRESS then close_and N fd (Some (-1)) s
      else connected_tcp N T a fd ret peer me s)) (connects s)" if a: "r = Inr a" for a
  proof (rule ends_bind [OF made_quiet [OF _ fd quiet_connect]])
    fix ret v assume v: "made s fd v"
    have "ends (connected_tcp N T a fd ret peer me v) (connects s)"
      by (rule connected_tcp_ends [OF holding_made [OF v fd]]) (use u a in simp)
    with v show "ends (case (ret, v) of (ret, s) \<Rightarrow> if ret < 0 \<and> net_errno s \<noteq> EINPROGRESS then close_and N fd (Some (-1)) s
      else connected_tcp N T a fd ret peer me s) (connects s)"
      by (auto intro: closed_connects fd)
  qed (use u in simp)
  show "ends (case (r, u) of (r, s) \<Rightarrow> case r of Inl _ \<Rightarrow> close_and N fd (Some (-1)) s
    | Inr a \<Rightarrow> on_io (safe_connect (n_kernel N) fd (Some (sockaddr_bytes a))) s \<bind> (\<lambda>(ret, s).
      if ret < 0 \<and> net_errno s \<noteq> EINPROGRESS then close_and N fd (Some (-1)) s
      else connected_tcp N T a fd ret peer me s)) (connects s)"
    using u tail by (cases r) (auto intro: closed_connects fd)
qed

lemma errno_opened: "sound s \<Longrightarrow> opened s False (set_errno e s)"
  by (simp add: opened_def set_errno_def sound_def)

lemma DoConnectTcp_ends:
  assumes s: "sound s"
  shows "ends (DoConnectTcp N T sk op peer me s) (connects s)"
proof -
  have "ends (CreateSocket N sk op s \<bind> (\<lambda>(fd, s). if fd < 0 then Some (Some (-1), s)
      else bind_interface N T sk fd s \<bind> (\<lambda>(ok, s). if \<not> ok then Some (Some (-1), s) else connect_tcp N T sk fd peer me s)))
    (connects s)"
  proof (rule ends_bind [OF CreateSocket_ends [OF s]])
    fix fd t assume t: "made s fd t"
    have "ends (bind_interface N T sk fd t \<bind> (\<lambda>(ok, s). if \<not> ok then Some (Some (-1), s) else connect_tcp N T sk fd peer me s))
        (connects s)" if fd: "0 \<le> fd"
      by (rule ends_bind [OF bind_interface_ends [OF t fd]]) (auto intro: connect_tcp_ends fd)
    with t show "ends (case (fd, t) of (fd, s) \<Rightarrow> if fd < 0 then Some (Some (-1), s)
      else bind_interface N T sk fd s \<bind> (\<lambda>(ok, s). if \<not> ok then Some (Some (-1), s) else connect_tcp N T sk fd peer me s))
      (connects s)"
      by (auto intro: made_opened)
  qed
  with s show ?thesis by (auto simp: DoConnectTcp_def errno_opened)
qed

lemma connect_unix_ends:
  assumes t: "made s fd t" and fd: "0 \<le> fd"
  shows "ends (connect_unix N path fd False t) (connects s)"
  unfolding connect_unix_def
proof (rule ends_bind [OF made_quiet [OF t fd quiet_connect]])
  fix ret u assume u: "made s fd u"
  show "ends (case (ret, u) of (ret, s) \<Rightarrow> if ret \<noteq> 0 then close_and N fd (Some (-1)) s
    else (if False then set_peer N AF_UNIX (Sun (pad_path path)) fd s else Some (Some True, s)) \<bind> (\<lambda>(ok, s).
      if ok = None then Some (None, s) else if ok = Some False then Some (Some (-1), s)
      else Some (Some 0, s\<lparr>ns_socket := fd, ns_domain := AF_UNIX\<rparr>))) (connects s)"
    using closed_connects [OF u fd] holding_opened [OF holding_made [OF u fd]] by simp
qed

lemma DoConnectUnix_ends:
  assumes s: "sound s" and g: "given (sk_pathname sk) \<or> given (sk_abstract sk)"
  shows "ends (DoConnectUnix N sk op False s) (connects s)"
proof -
  have "ends (CreateSocket N sk op s \<bind> (\<lambda>(fd, s). if fd < 0 then Some (Some (-1), s) else connect_unix N path fd False s))
    (connects s)" for path
    by (rule ends_bind [OF CreateSocket_ends [OF s]])
      (auto simp: not_less intro: made_opened intro!: connect_unix_ends)
  with s g show ?thesis by (auto simp: DoConnectUnix_def errno_opened)
qed

lemma listen_on_ends:
  assumes s: "sound s"
  shows "ends (listen_on N T sk op multicast me a s) (listens s)"
  unfolding listen_on_def
proof (rule ends_bind [OF CreateListenSocket_ends [OF s]])
  fix fd t assume t: "made s fd t"
  have q: "quiet (join_group N multicast fd)"
    unfolding join_group_def using quiet_calls(3) by (auto simp: quiet_def changed_refl)
  have peer: "ends (GetPeerOrClose N T fd False me u \<bind> (\<lambda>(ok, s). if ok \<noteq> Some True then Some (ok, s)
      else Some (Some True, s\<lparr>ns_socket := fd, ns_domain := T\<rparr>))) (listens s)" if "made s fd u" and "0 \<le> fd" for u
  proof (rule ends_bind [OF GetPeerOrClose_holding [OF holding_made [OF that]]])
    fix r v assume "r = Some True \<and> holding s fd v \<or> r = Some False \<and> opened s False v"
    then show "ends (case (r, v) of (ok, s) \<Rightarrow> if ok \<noteq> Some True then Some (ok, s)
        else Some (Some True, s\<lparr>ns_socket := fd, ns_domain := T\<rparr>)) (listens s)"
      using holding_opened [of s fd v T] by (cases "r = Some True") simp_all
  qed
  have "ends (join_group N multicast fd t \<bind> (\<lambda>(ok, s). if \<not> ok then close_and N fd (Some False) s
      else GetPeerOrClose N T fd False me s \<bind> (\<lambda>(ok, s). if ok \<noteq> Some True then Some (ok, s)
        else Some (Some True, s\<lparr>ns_socket := fd, ns_domain := T\<rparr>)))) (listens s)" if fd: "0 \<le> fd"
    by (rule ends_bind [OF made_quiet [OF t fd q]]) (auto intro: closed_listens peer fd)
  with t show "ends (case (fd, t) of (fd, s) \<Rightarrow> if fd < 0 then Some (Some False, s)
      else join_group N multicast fd s \<bind> (\<lambda>(ok, s). if \<not> ok then close_and N fd (Some False) s
        else GetPeerOrClose N T fd False me s \<bind> (\<lambda>(ok, s). if ok \<noteq> Some True then Some (ok, s)
          else Some (Some True, s\<lparr>ns_socket := fd, ns_domain := T\<rparr>)))) (listens s)"
    by (auto intro: made_opened)
qed

lemma resolved_listens:
  assumes s: "sound s"
  shows "ends (net_call (n_resolve N T True host port) s \<bind> (\<lambda>(r, s). case r of
      Inl _ \<Rightarrow> Some (Some False, s) | Inr a \<Rightarrow> listen_on N T sk op multicast me a s)) (listens s)"
proof (rule ends_bind [OF net_call_names [OF calm_resolve s]])
  fix r :: "errnum + sockaddr" and t assume t: "changed (open_fds s) s t \<and> (\<forall>a. r = Inr a \<longrightarrow> sa_family a = T)"
  have "ends (listen_on N T sk op multicast me a t) (listens s)" for a
    by (rule ends_mono [OF listen_on_ends])
      (use t in \<open>auto simp: listens_def opened_def changed_def\<close>)
  with t show "ends (case (r, t) of (r, s) \<Rightarrow> case r of Inl _ \<Rightarrow> Some (Some False, s)
    | Inr a \<Rightarrow> listen_on N T sk op multicast me a s) (listens s)"
    by (auto simp: opened_failed changed_near split: sum.splits)
qed

lemma DoListenTcp4_ends:
  assumes "sound s" and "sk_type sk = SOCK_DGRAM \<and> udp_multicast op \<longrightarrow> sk_hostname sk \<noteq> None"
  shows "ends (DoListenTcp4 N sk op me s) (listens s)"
  using assms resolved_listens [OF assms(1)] by (auto simp: DoListenTcp4_def errno_opened Let_def)

lemma DoListenTcp6_ends: "sound s \<Longrightarrow> ends (DoListenTcp6 N sk op me s) (listens s)"
  unfolding DoListenTcp6_def by (rule resolved_listens)

lemma unlink_opened: "opened s ok t \<Longrightarrow> ends (net_call (n_unlink N path) t) (\<lambda>_. opened s ok)"
  by (rule ends_mono [OF net_call_leaves [OF calm_unlink]]) (auto simp: opened_def changed_def)

lemma close_and_unlink_ends:
  assumes "made s fd t" and "0 \<le> fd"
  shows "ends (close_and_unlink N fd path t) (listens s)"
proof -
  have "ends (net_close N fd t) (\<lambda>_ u. opened s False u)"
    by (rule ends_mono [OF net_close_ends [OF made_sound [OF assms(1)] assms(2)]])
      (use assms in \<open>auto simp: made_def changed_def opened_def\<close>)
  moreover have "ends (net_call (n_unlink N path) u \<bind> (\<lambda>(_, s). Some (Some False, s))) (listens s)" if "opened s False u" for u
    by (rule ends_bind [OF unlink_opened [OF that]]) auto
  ultimately show ?thesis unfolding close_and_unlink_def by (auto elim: ends_bind)
qed

lemma listen_unix_ends:
  assumes t: "made s fd t" and fd: "0 \<le> fd"
  shows "ends (listen_unix N sk path fd t) (listens s)"
proof -
  let ?listen = "\<lambda>s. succeeds (n_listen N fd kMaximumQueueLength) s \<bind> (\<lambda>(ok, s). if \<not> ok then close_and_unlink N fd path s
      else Some (Some True, s\<lparr>ns_socket := fd, ns_domain := AF_UNIX, ns_sockname := path\<rparr>))"
  let ?chmod = "\<lambda>s. succeeds (n_chmod N path (sk_mode sk)) s \<bind> (\<lambda>(ok, s). if \<not> ok then close_and_unlink N fd path s
      else ?listen s)"
  have listen: "ends (?listen u) (listens s)" if u: "made s fd u" for u
  proof (rule ends_bind [OF made_quiet [OF u fd quiet_calls(2)]])
    fix ok v assume v: "made s fd v"
    show "ends (case (ok, v) of (ok, s) \<Rightarrow> if \<not> ok then close_and_unlink N fd path s
        else Some (Some True, s\<lparr>ns_socket := fd, ns_domain := AF_UNIX, ns_sockname := path\<rparr>)) (listens s)"
      using close_and_unlink_ends [OF v fd, of path] holding_sockname [OF holding_made [OF v fd], of path AF_UNIX]
      by simp
  qed
  have chmod: "ends (?chmod u) (listens s)" if u: "made s fd u" for u
    by (rule ends_bind [OF made_quiet [OF u fd quiet_calls(4)]]) (auto intro: close_and_unlink_ends listen fd)
  show ?thesis unfolding listen_unix_def
    by (rule ends_bind [OF made_quiet [OF t fd quiet_calls(1)]]) (auto intro: closed_listens chmod fd)
qed

lemma DoListenUnix_ends:
  assumes s: "sound s" and g: "given (sk_pathname sk) \<or> \<not> given (sk_abstract sk)"
  shows "ends (DoListenUnix N sk op s) (listens s)"
proof -
  have "ends (CreateSocket N sk op s \<bind> (\<lambda>(fd, s). if fd < 0 then Some (Some False, s) else listen_unix N sk path fd s))
    (listens s)" for path
    by (rule ends_bind [OF CreateSocket_ends [OF s]])
      (auto simp: not_less intro: made_opened intro!: listen_unix_ends)
  with s g show ?thesis
    by (auto simp: DoListenUnix_def DoListenUnixSocket_def errno_opened)
qed

section \<open>A sequence of operations\<close>

text \<open>What is open is \<open>R\<close> and the socket of the object.\<close>

definition balanced :: "int set \<Rightarrow> 'w net \<Rightarrow> bool" where
  "balanced R s \<longleftrightarrow> sound s \<and> (if ns_socket s < 0 then open_fds s = R
     else ns_socket s \<notin> R \<and> open_fds s = insert (ns_socket s) R)"

lemma balanced_errno: "balanced R (set_errno e s) = balanced R s"
  by (simp add: balanced_def set_errno_def sound_def)

lemma opened_balanced: "balanced R s \<Longrightarrow> ns_socket s < 0 \<Longrightarrow> opened s ok t \<Longrightarrow> balanced R t"
  by (auto simp: balanced_def opened_def split: if_splits)

lemma changed_balanced: "changed (open_fds s) s t \<Longrightarrow> balanced R s \<Longrightarrow> balanced R t"
  by (auto simp: balanced_def changed_def)

lemma IfClose_ends:
  assumes b: "balanced R s"
  shows "ends (IfClose N s) (\<lambda>_ t. balanced R t \<and> ns_socket t < 0)"
proof (cases "ns_socket s < 0")
  case True
  with b show ?thesis by (simp add: IfClose_def)
next
  case False
  have s: "sound s" using b by (simp add: balanced_def)
  have u: "ends (unlink_sockname N s) (\<lambda>_ t. sound t \<and> open_fds t = open_fds s \<and> ns_socket t = ns_socket s)"
    unfolding unlink_sockname_def using s
    by (auto intro!: ends_bind [OF net_call_leaves [OF calm_unlink s]] simp: changed_def sound_def)
  have c: "ends (net_close N (ns_socket s) t) (\<lambda>_ u. balanced R u \<and> ns_socket u < 0)"
    if "sound t" "open_fds t = open_fds s" "ns_socket t < 0" for t
    by (rule ends_mono [OF net_close_ends]) (use that b False in \<open>auto simp: balanced_def changed_def\<close>)
  have "ends (unlink_sockname N s \<bind> (\<lambda>(_, s). let fd = ns_socket s in net_close N fd (s\<lparr>ns_socket := -1\<rparr>) \<bind>
      (\<lambda>(r, s). if r \<noteq> 0 then Some (False, s) else Some (True, s\<lparr>ns_domain := AF_UNSPEC\<rparr>))))
    (\<lambda>_ t. balanced R t \<and> ns_socket t < 0)"
  proof (rule ends_bind [OF u])
    fix r t assume t: "sound t \<and> open_fds t = open_fds s \<and> ns_socket t = ns_socket s"
    have "ends (net_close N (ns_socket s) (t\<lparr>ns_socket := -1\<rparr>) \<bind>
        (\<lambda>(r, s). if r \<noteq> 0 then Some (False, s) else Some (True, s\<lparr>ns_domain := AF_UNSPEC\<rparr>)))
      (\<lambda>_ t. balanced R t \<and> ns_socket t < 0)"
      by (rule ends_bind [OF c]) (use t in \<open>auto simp: sound_def balanced_def\<close>)
    with t show "ends (case (r, t) of (_, s) \<Rightarrow> let fd = ns_socket s in net_close N fd (s\<lparr>ns_socket := -1\<rparr>) \<bind>
        (\<lambda>(r, s). if r \<noteq> 0 then Some (False, s) else Some (True, s\<lparr>ns_domain := AF_UNSPEC\<rparr>)))
      (\<lambda>_ t. balanced R t \<and> ns_socket t < 0)"
      by (simp add: Let_def)
  qed
  with False show ?thesis by (simp add: IfClose_def)
qed

lemma IfShutdown_ends:
  assumes "balanced R s"
  shows "ends (IfShutdown N s) (\<lambda>_. balanced R)"
proof -
  have "sound s" using assms by (simp add: balanced_def)
  then have "ends (net_call (n_shutdown N (ns_socket s)) s) (\<lambda>_. balanced R)"
    by (intro ends_mono [OF net_call_leaves [OF calm_shutdown]]) (auto intro: changed_balanced assms)
  then show ?thesis using assms by (auto simp: IfShutdown_def elim!: ends_bind)
qed

text \<open>The shape of \<open>Listen\<close> and \<open>Connect\<close>.\<close>

lemma closed_first:
  assumes b: "balanced R s"
    and next_op: "\<And>t. sound t \<Longrightarrow> ends (f t) (\<lambda>r u. \<exists>ok. opened t ok u)"
    and failed: "\<And>t. f' t = Some (v, t)"
  shows "ends (IfClose N s \<bind> (\<lambda>(closed, s). if \<not> closed then f' s else f s)) (\<lambda>_. balanced R)"
proof (rule ends_bind [OF IfClose_ends [OF b]])
  fix closed t assume t: "balanced R t \<and> ns_socket t < 0"
  then have "sound t" by (simp add: balanced_def)
  then have "ends (f t) (\<lambda>_. balanced R)"
    by (rule ends_mono [OF next_op]) (use t opened_balanced in blast)
  with t show "ends (case (closed, t) of (closed, s) \<Rightarrow> if \<not> closed then f' s else f s) (\<lambda>_. balanced R)"
    by (simp add: failed)
qed

lemma connects_opened: "ends m (connects s) \<Longrightarrow> ends m (\<lambda>_ t. \<exists>ok. opened s ok t)"
  by (erule ends_mono) (auto simp: connects_def)

lemma listens_opened: "ends m (listens s) \<Longrightarrow> ends m (\<lambda>_ t. \<exists>ok. opened s ok t)"
  by (erule ends_mono) (auto simp: listens_def)

lemma IfConnect_ends:
  assumes b: "balanced R s" and unix: "sk_domain sk = AF_UNIX \<Longrightarrow> \<not> peer \<and> (given (sk_pathname sk) \<or> given (sk_abstract sk))"
  shows "ends (IfConnect N sk op peer me s) (\<lambda>_. balanced R)"
proof -
  let ?f = "\<lambda>s. if sk_domain sk = AF_INET6 then DoConnectTcp N AF_INET6 sk op peer me s
    else if sk_domain sk = AF_INET then DoConnectTcp N AF_INET sk op peer me s
    else if sk_domain sk = AF_UNIX then DoConnectUnix N sk op peer s else Some (Some (-1), s)"
  have "ends (?f t) (\<lambda>r u. \<exists>ok. opened t ok u)" if "sound t" for t
    using unix that by (auto intro!: connects_opened intro: DoConnectTcp_ends DoConnectUnix_ends opened_refl)
  then have "ends (IfClose N s \<bind> (\<lambda>(closed, s). if \<not> closed then Some (Some (-1), s) else ?f s)) (\<lambda>_. balanced R)"
    by (rule closed_first [OF b]) simp_all
  then show ?thesis using b by (simp add: IfConnect_def balanced_errno)
qed

lemma IfListen_ends:
  assumes b: "balanced R s"
    and unix: "sk_domain sk = AF_UNIX \<Longrightarrow> given (sk_pathname sk) \<or> \<not> given (sk_abstract sk)"
    and multicast: "sk_type sk = SOCK_DGRAM \<Longrightarrow> udp_multicast op \<Longrightarrow> sk_hostname sk \<noteq> None"
  shows "ends (IfListen N sk op me s) (\<lambda>_. balanced R)"
proof -
  let ?f = "\<lambda>s. if sk_domain sk = AF_INET6 then DoListenTcp6 N sk op me s
    else if sk_domain sk = AF_INET then DoListenTcp4 N sk op me s
    else if sk_domain sk = AF_UNIX then DoListenUnix N sk op s else Some (Some False, set_errno EINVAL s)"
  have "ends (?f t) (\<lambda>r u. \<exists>ok. opened t ok u)" if "sound t" for t
    using unix multicast that
    by (auto intro!: listens_opened DoListenTcp6_ends DoListenTcp4_ends DoListenUnix_ends intro: errno_opened)
  then have "ends (IfClose N s \<bind> (\<lambda>(closed, s). if \<not> closed then Some (Some False, s) else ?f s)) (\<lambda>_. balanced R)"
    by (rule closed_first [OF b]) simp_all
  then show ?thesis using b by (simp add: IfListen_def balanced_errno)
qed

text \<open>A peer that is accepted is open and named by its peer object.\<close>

definition accepts :: "'w net \<Rightarrow> int option \<Rightarrow> 'w net \<Rightarrow> bool" where
  "accepts s r t \<longleftrightarrow> sound t \<and> ns_socket t = ns_socket s \<and> (\<exists>v. r = Some v \<and>
    (if v = 0 then 0 \<le> lp_fd (ns_peer t) \<and> lp_fd (ns_peer t) \<notin> open_fds s \<and> open_fds t = insert (lp_fd (ns_peer t)) (open_fds s)
     else open_fds t = open_fds s))"

lemma accepts_Some [simp]: "accepts s (Some v) t \<longleftrightarrow> sound t \<and> ns_socket t = ns_socket s \<and>
    (if v = 0 then 0 \<le> lp_fd (ns_peer t) \<and> lp_fd (ns_peer t) \<notin> open_fds s \<and> open_fds t = insert (lp_fd (ns_peer t)) (open_fds s)
     else open_fds t = open_fds s)"
  by (simp add: accepts_def)

lemma DoAccept_ends:
  assumes s: "sound s"
  shows "ends (DoAccept N T me s) (accepts s)"
proof -
  have "ends (on_io (safe_accept (n_kernel N) (ns_socket s)) s) (\<lambda>fd t. sound t \<and> ns_socket t = ns_socket s \<and>
      (if fd < 0 then open_fds t = open_fds s else fd \<notin> open_fds s \<and> open_fds t = insert fd (open_fds s)))"
  proof -
    obtain r u where "safe_accept (n_kernel N) (ns_socket s) (ns_io s) = Some (r, u)" "io_sound u"
      "if r < 0 then io_open u = open_fds s else r \<notin> open_fds s \<and> io_open u = insert r (open_fds s)"
      using safe_accept_ends [of "ns_io s" "ns_socket s"] s by (auto simp: sound_def io_sound_def)
    then show ?thesis by (cases "r < 0") (simp_all add: on_io_def sound_def io_sound_def)
  qed
  then show ?thesis unfolding DoAccept_def
  proof (rule ends_bind)
    fix fd t assume t: "sound t \<and> ns_socket t = ns_socket s \<and>
      (if fd < 0 then open_fds t = open_fds s else fd \<notin> open_fds s \<and> open_fds t = insert fd (open_fds s))"
    have "ends (GetPeerOrClose N T fd True me t \<bind> (\<lambda>(ok, s).
        Some (case ok of None \<Rightarrow> None | Some False \<Rightarrow> Some 1 | Some True \<Rightarrow> Some 0, s))) (accepts s)" if fd: "0 \<le> fd"
    proof (rule ends_bind [OF GetPeerOrClose_ends [OF _ fd]])
      fix r u assume u: "r = Some True \<and> near (open_fds t) t u \<and> (True \<longrightarrow> lp_fd (ns_peer u) = fd) \<or>
        r = Some False \<and> near (open_fds t - {fd}) t u"
      then show "ends (case (r, u) of (ok, s) \<Rightarrow>
          Some (case ok of None \<Rightarrow> None | Some False \<Rightarrow> Some 1 | Some True \<Rightarrow> Some 0, s)) (accepts s)"
        using t fd by (auto simp: near_def)
    qed (use t in simp)
    with t show "ends (case (fd, t) of (fd, s) \<Rightarrow> if fd < 0 then Some (Some (-1), s)
        else GetPeerOrClose N T fd True me s \<bind> (\<lambda>(ok, s).
          Some (case ok of None \<Rightarrow> None | Some False \<Rightarrow> Some 1 | Some True \<Rightarrow> Some 0, s))) (accepts s)"
      by (auto simp: accepts_def)
  qed
qed

lemma accepts_next: "accepts s (Some 0) t \<Longrightarrow> changed (open_fds t) t u \<Longrightarrow> accepts s (Some 0) u"
  by (simp add: accepts_def changed_def)

lemma accepts_closed:
  assumes t: "accepts s (Some 0) t"
  shows "ends (close_and N (lp_fd (ns_peer t)) v t)
    (\<lambda>r u. r = v \<and> sound u \<and> ns_socket u = ns_socket s \<and> open_fds u = open_fds s)"
  by (rule ends_mono [OF close_and_ends]) (use t in \<open>auto simp: accepts_def changed_def\<close>)

lemma IfAccept_ends:
  assumes s: "sound s" and sock: "0 \<le> ns_socket s"
  shows "ends (IfAccept N op me s) (accepts s)"
proof -
  have first: "ends (if ns_domain s \<in> {AF_INET6, AF_INET, AF_UNIX} then DoAccept N (ns_domain s) me s
      else Some (Some (-1), set_errno ESOCKTNOSUPPORT s)) (accepts s)"
    using DoAccept_ends [OF s] s by (simp add: accepts_def set_errno_def sound_def)
  have "ends ((if ns_domain s \<in> {AF_INET6, AF_INET, AF_UNIX} then DoAccept N (ns_domain s) me s
      else Some (Some (-1), set_errno ESOCKTNOSUPPORT s)) \<bind> (\<lambda>(ret, s). if ret \<noteq> Some 0 then Some (ret, s)
        else let fd = lp_fd (ns_peer s) in InitializeSocket N op fd s \<bind> (\<lambda>(ok, s).
          if ok then Some (Some 0, s) else close_and N fd (Some 1) s))) (accepts s)"
  proof (rule ends_bind [OF first])
    fix ret t assume t: "accepts s ret t"
    have "ends (InitializeSocket N op (lp_fd (ns_peer t)) t \<bind> (\<lambda>(ok, s).
        if ok then Some (Some 0, s) else close_and N (lp_fd (ns_peer t)) (Some 1) s)) (accepts s)" if r: "ret = Some 0"
    proof (rule ends_bind [OF quiet_ends [OF quiet_InitializeSocket]])
      fix ok u assume u: "changed (open_fds t) t u"
      then have a: "accepts s (Some 0) u" and p: "ns_peer u = ns_peer t"
        using accepts_next t r by (auto simp: changed_def)
      have "ends (close_and N (lp_fd (ns_peer t)) (Some 1) u) (accepts s)"
        using ends_mono [OF accepts_closed [OF a, of "Some 1"], of "accepts s"] p by (simp add: accepts_def)
      with a show "ends (case (ok, u) of (ok, s) \<Rightarrow>
          if ok then Some (Some 0, s) else close_and N (lp_fd (ns_peer t)) (Some 1) s) (accepts s)"
        by simp
    qed (use t in \<open>simp add: accepts_def\<close>)
    with t show "ends (case (ret, t) of (ret, s) \<Rightarrow> if ret \<noteq> Some 0 then Some (ret, s)
        else let fd = lp_fd (ns_peer s) in InitializeSocket N op fd s \<bind> (\<lambda>(ok, s).
          if ok then Some (Some 0, s) else close_and N fd (Some 1) s)) (accepts s)"
      by (simp add: Let_def)
  qed
  with sock show ?thesis by (simp add: IfAccept_def)
qed

lemma OnReadable_ends:
  assumes s: "sound s" and sock: "0 \<le> ns_socket s"
  shows "ends (ListenerOnReadable N create s) (\<lambda>r t. r \<noteq> None \<and> ns_socket t = ns_socket s \<and>
    (open_fds t = open_fds s \<or> create (ns_peer t) (ns_me t) = Attached \<and> lp_fd (ns_peer t) \<notin> open_fds s \<and>
       open_fds t = insert (lp_fd (ns_peer t)) (open_fds s)))"
proof -
  let ?s = "s\<lparr>ns_me := new_peer, ns_peer := new_peer\<rparr>"
  have "sound ?s" and "0 \<le> ns_socket ?s" using s sock by (simp_all add: sound_def)
  then have a: "ends (IfAccept N new_socket_option True ?s) (accepts ?s)" by (rule IfAccept_ends)
  show ?thesis unfolding ListenerOnReadable_def
  proof (rule ends_bind [OF a])
    fix ret t assume t: "accepts ?s ret t"
    then obtain v where v: "ret = Some v" by (auto simp: accepts_def)
    show "ends (case (ret, t) of (ret, s) \<Rightarrow> case ret of None \<Rightarrow> Some (None, s)
        | Some ret \<Rightarrow> if ret < 0 then Some (Some (accept_errno (net_errno s)), s)
          else if ret > 0 then Some (Some Continue, s)
          else (case create (ns_peer s) (ns_me s) of Attached \<Rightarrow> Some (Some Continue, s)
            | _ \<Rightarrow> close_and N (lp_fd (ns_peer s)) (Some Continue) s))
      (\<lambda>r t. r \<noteq> None \<and> ns_socket t = ns_socket s \<and>
        (open_fds t = open_fds s \<or> create (ns_peer t) (ns_me t) = Attached \<and> lp_fd (ns_peer t) \<notin> open_fds s \<and>
           open_fds t = insert (lp_fd (ns_peer t)) (open_fds s)))"
    proof (cases "v = 0")
      case True
      have "ends (close_and N (lp_fd (ns_peer t)) (Some Continue) t)
        (\<lambda>r u. r = Some Continue \<and> sound u \<and> ns_socket u = ns_socket ?s \<and> open_fds u = open_fds ?s)"
        by (rule accepts_closed) (use t v True in simp)
      then have "ends (close_and N (lp_fd (ns_peer t)) (Some Continue) t) (\<lambda>r t. r \<noteq> None \<and> ns_socket t = ns_socket s \<and>
        (open_fds t = open_fds s \<or> create (ns_peer t) (ns_me t) = Attached \<and> lp_fd (ns_peer t) \<notin> open_fds s \<and>
           open_fds t = insert (lp_fd (ns_peer t)) (open_fds s)))"
        by (rule ends_mono) auto
      then show ?thesis using t v True by (simp add: accepts_def split: created.splits)
    qed (use t v in \<open>auto simp: accepts_def\<close>)
  qed
qed

end

text \<open>The operations of a program on an \<open>Interface\<close>, used as its header says: a UNIX socket has a name.\<close>

datatype if_op =
    Op_listen socket_spec socket_option bool
  | Op_connect socket_spec socket_option bool bool
  | Op_shutdown
  | Op_close

fun if_do :: "'w net_kernel \<Rightarrow> if_op \<Rightarrow> ('w, unit) net_op" where
  "if_do N (Op_listen sk op me) s = do { (_, s) \<leftarrow> IfListen N sk op me s; Some ((), s) }"
| "if_do N (Op_connect sk op peer me) s = do { (_, s) \<leftarrow> IfConnect N sk op peer me s; Some ((), s) }"
| "if_do N Op_shutdown s = do { (_, s) \<leftarrow> IfShutdown N s; Some ((), s) }"
| "if_do N Op_close s = do { (_, s) \<leftarrow> IfClose N s; Some ((), s) }"

fun if_ops :: "'w net_kernel \<Rightarrow> if_op list \<Rightarrow> ('w, unit) net_op" where
  "if_ops N [] s = Some ((), s)"
| "if_ops N (a # as) s = do { (_, s) \<leftarrow> if_do N a s; if_ops N as s }"

fun op_named :: "if_op \<Rightarrow> bool" where
  "op_named (Op_listen sk op me) \<longleftrightarrow>
    (sk_domain sk = AF_UNIX \<longrightarrow> given (sk_pathname sk) \<or> \<not> given (sk_abstract sk)) \<and>
    (sk_type sk = SOCK_DGRAM \<and> udp_multicast op \<longrightarrow> sk_hostname sk \<noteq> None)"
| "op_named (Op_connect sk op peer me) \<longleftrightarrow>
    (sk_domain sk = AF_UNIX \<longrightarrow> \<not> peer \<and> (given (sk_pathname sk) \<or> given (sk_abstract sk)))"
| "op_named _ \<longleftrightarrow> True"

context sockets
begin

lemma if_do_ends: "op_named a \<Longrightarrow> balanced R s \<Longrightarrow> ends (if_do N a s) (\<lambda>_. balanced R)"
  by (cases a) (auto intro!: ends_bind [OF IfListen_ends] ends_bind [OF IfConnect_ends] ends_bind [OF IfShutdown_ends]
    ends_bind [OF IfClose_ends])

lemma if_ops_ends: "list_all op_named as \<Longrightarrow> balanced R s \<Longrightarrow> ends (if_ops N as s) (\<lambda>_. balanced R)"
proof (induction as arbitrary: s)
  case (Cons a as)
  show ?case using Cons.prems
    by (auto intro!: ends_bind [OF if_do_ends] Cons.IH)
qed simp

end

section \<open>Nothing leaks\<close>

text \<open>A kernel that keeps the table of descriptors and grants everything.\<close>

definition next_fd :: "int list \<Rightarrow> int" where
  "next_fd w = fold max w 0 + 1"

lemma next_fd_fresh: "0 \<le> next_fd w \<and> next_fd w \<notin> set w"
proof -
  have m: "fold max w 0 = Max (set (0 # w))" by (rule Max.set_eq_fold [symmetric])
  have "x \<le> fold max w 0" if "x \<in> set (0 # w)" for x using that unfolding m by (intro Max_ge) auto
  then show ?thesis by (force simp: next_fd_def)
qed

definition table_kernel :: "int list kernel" where
  "table_kernel = \<lparr>k_clock = \<lambda>w. (0, w), k_getfl = \<lambda>_ w. Some (Inr (), w), k_setfl = \<lambda>_ _ w. Some (Inr (), w),
     k_poll = \<lambda>_ _ w. Some (Inr True, w), k_read = \<lambda>_ _ _ _ _ w. Some (Inr [], w), k_write = \<lambda>_ _ _ _ b w. Some (Inr (length b), w),
     k_accept = \<lambda>_ _ w. Some (Inr (next_fd w), next_fd w # w), k_connect = \<lambda>_ _ _ w. Some (Inr (), w),
     k_so_error = \<lambda>_ w. Some (Inr None, w), k_close = \<lambda>fd w. Some (Inr (), filter (\<lambda>x. x \<noteq> fd) w),
     k_socket = \<lambda>w. Some (Inr (next_fd w), next_fd w # w), k_getaddrinfo = \<lambda>_ _ w. (None, w)\<rparr>"

definition some_name :: "net_domain \<Rightarrow> sockaddr" where
  "some_name T = (case T of AF_INET \<Rightarrow> Sin 0x0100007F 80 | AF_INET6 \<Rightarrow> Sin6 (replicate 15 0 @ [1]) 80 | _ \<Rightarrow> Sun [])"

definition name_call :: "net_domain \<Rightarrow> int list \<Rightarrow> ((errnum + sockaddr) \<times> int list) option" where
  "name_call T w = (if sa_family (some_name T) = T then Some (Inr (some_name T), w) else Some (Inl EINVAL, w))"

definition table_net :: "int list net_kernel" where
  "table_net = \<lparr>n_kernel = table_kernel, n_socket = \<lambda>_ _ _ w. Some (Inr (next_fd w), next_fd w # w),
     n_setsockopt = \<lambda>_ _ w. Some (Inr (), w), n_getfd = \<lambda>_ w. Some (Inr False, w), n_setfd = \<lambda>_ w. Some (Inr (), w),
     n_bind = \<lambda>_ _ w. Some (Inr (), w), n_listen = \<lambda>_ _ w. Some (Inr (), w), n_getsockname = \<lambda>T _. name_call T,
     n_getpeername = \<lambda>T _. name_call T, n_peercred = \<lambda>_ w. Some (Inr (0, 0, 0), w), n_shutdown = \<lambda>_ w. Some (Inr (), w),
     n_chmod = \<lambda>_ _ w. Some (Inr (), w), n_unlink = \<lambda>_ w. Some (Inr (), w), n_resolve = \<lambda>T _ _ _. name_call T,
     n_ntop = \<lambda>_. [], n_aton = \<lambda>_. True, n_stack = replicate 108 (CHR 0x55)\<rparr>"

lemma name_call_calm: "calm W set (name_call T) (names T)"
  by (auto simp: calm_def name_call_def names_def)

lemma table_posix: "posix_net table_net (\<lambda>_. 0) set"
  using next_fd_fresh
  by (auto simp: posix_net_def table_net_def table_kernel_def name_call_calm)
    (auto simp: calm_def leaves_def opens_def)

interpretation table: sockets table_net "\<lambda>_. 0" set
  by unfold_locales (rule table_posix)

definition idle_net :: "int list net" where
  "idle_net = \<lparr>ns_io = \<lparr>io_world = [0, 1, 2], io_errno = EINTR, io_nonblock = {}, io_open = {0, 1, 2}, io_bytes = []\<rparr>,
     ns_socket = -1, ns_domain = AF_UNSPEC, ns_sockname = [], ns_peer = new_peer, ns_me = new_peer\<rparr>"


lemma idle_facts: "io_open (ns_io idle_net) = set (io_world (ns_io idle_net))" "ns_socket idle_net < 0"
  by (simp_all add: idle_net_def)

definition demo_ops :: "if_op list" where
  "demo_ops = [Op_listen (new_socket_spec\<lparr>sk_domain := AF_INET, sk_bind_port := 80\<rparr>) tcp_listen_option True,
     Op_connect (new_socket_spec\<lparr>sk_domain := AF_INET6, sk_port := 80, sk_hostname := Some ''h''\<rparr>) stream_option True True,
     Op_shutdown]"

lemma demo_ops_named: "list_all op_named demo_ops"
  by (simp add: demo_ops_def new_socket_spec_def)


text \<open>
  C34. A listener that is woken up returns or throws, and the peer it accepts is either handed to a linkage that is
  attached, or closed: whatever fails, no descriptor is left open without an owner.
\<close>

theorem listener_owns_or_closes:
  assumes "posix_net N W Opened" and "io_open (ns_io s) = Opened (io_world (ns_io s))" and "0 \<le> ns_socket s"
  shows "\<exists>r t. ListenerOnReadable N create s = Some (Some r, t) \<and> ns_socket t = ns_socket s \<and>
    (io_open (ns_io t) = io_open (ns_io s) \<or>
     create (ns_peer t) (ns_me t) = Attached \<and> lp_fd (ns_peer t) \<notin> io_open (ns_io s) \<and>
       io_open (ns_io t) = insert (lp_fd (ns_peer t)) (io_open (ns_io s)))"
proof -
  have N: "sockets N W Opened" by (rule sockets.intro [OF assms(1)])
  have "sockets.sound Opened s" using assms(2) by (simp add: sockets.sound_def [OF N])
  from sockets.OnReadable_ends [OF N this assms(3), of create] show ?thesis by (auto simp: ends_def)
qed

theorem listener_owns_or_closes_witness:
  "\<exists>r t. ListenerOnReadable table_net (\<lambda>_ _. Declined) (idle_net\<lparr>ns_socket := 0, ns_domain := AF_INET\<rparr>) = Some (Some r, t) \<and>
    ns_socket t = 0 \<and> io_open (ns_io t) = {0, 1, 2}"
  using listener_owns_or_closes [OF table_posix, of "idle_net\<lparr>ns_socket := 0, ns_domain := AF_INET\<rparr>" "\<lambda>_ _. Declined"]
  by (simp add: idle_net_def)

section \<open>What goes wrong with UNIX sockets\<close>

text \<open>A name in the abstract name space is copied from the path name that is not given.\<close>

lemma abstract_listen_crashes:
  assumes "ns_socket s < 0" and "name \<noteq> []" and "length name < 108"
  shows "ListenUnix N name False privileged s = Some (None, s)"
  using assms by (simp add: ListenUnix_def IfListen_def IfClose_def DoListenUnix_def DoListenUnixNamespace_def
      new_socket_spec_def given_def copy_bytes_def sun_path_size_def)

text \<open>Without either name, \<open>Connect\<close> follows a null pointer where \<open>Listen\<close> fails.\<close>

lemma nameless_connect_crashes:
  assumes "ns_socket s < 0"
  shows "IfConnect N (new_socket_spec\<lparr>sk_domain := AF_UNIX\<rparr>) op peer me s = Some (None, s)"
    and "IfListen N (new_socket_spec\<lparr>sk_domain := AF_UNIX\<rparr>) op me s = Some (Some False, set_errno EINVAL s)"
  using assms by (simp_all add: IfConnect_def IfListen_def IfClose_def DoConnectUnix_def DoListenUnix_def new_socket_spec_def given_def)

text \<open>A connection to a UNIX socket whose credentials cannot be read is left open, and nobody knows it.\<close>

lemma uninterrupted_once:
  "call s = Some (r, t) \<Longrightarrow> r \<noteq> Inl EINTR \<Longrightarrow> uninterrupted call s = Some (r, t)"
  by (simp add: uninterrupted_def forever.simps [of _ "()"])

lemma unix_peer_leaks:
  "\<exists>t. ConnectUnix (table_net\<lparr>n_peercred := \<lambda>_ w. Some (Inl EINVAL, w)\<rparr>) ''/run/x'' True True False idle_net = Some (Some (-1), t) \<and>
    ns_socket t < 0 \<and> io_open (ns_io t) = {0, 1, 2, 3}"
proof -
  let ?N = "table_net\<lparr>n_peercred := \<lambda>_ w. Some (Inl EINVAL, w)\<rparr>"
  let ?io = "\<lparr>io_world = [3, 0, 1, 2], io_errno = EINTR, io_nonblock = {3}, io_open = {0, 1, 2, 3}, io_bytes = []\<rparr>"
  let ?s = "idle_net\<lparr>ns_io := ?io\<rparr>"
  let ?sk = "new_socket_spec\<lparr>sk_domain := AF_UNIX, sk_type := SOCK_STREAM, sk_pathname := Some ''/run/x''\<rparr>"
  have "CreateSocket ?N ?sk stream_option idle_net = Some (3, ?s)"
    by (auto simp: CreateSocket_def net_socket_def on_io_def syscall_def table_net_def table_kernel_def idle_net_def next_fd_def
        InitializeSocket_def stream_option_def new_socket_option_def non_blocking_def set_non_blocking_mode_def sys_getfl_def
        sys_setfl_def set_close_on_exec_def net_call_def succeeds_def or_minus_one_def)
  moreover have "safe_connect (n_kernel ?N) 3 (Some a) ?io = Some (0, ?io)" if "a \<noteq> []" for a
    using that uninterrupted_once [of "sys_connect (n_kernel ?N) 3 a" ?io "Inr ()" ?io]
    by (simp add: safe_connect_def sys_connect_def syscall_def table_net_def table_kernel_def or_minus_one_def)
  ultimately show ?thesis
    by (simp add: ConnectUnix_def IfConnect_def IfClose_def DoConnectUnix_def connect_unix_def given_def new_socket_spec_def
        sun_path_size_def on_io_def sockaddr_bytes_def set_peer_def LinkagePeerSet_def sa_family_def net_call_def syscall_def
        idle_net_def)
qed

text \<open>The name of a peer that has none is what the memory held before.\<close>

lemma unnamed_peer_is_garbage: "un_string (un_path table_net []) = ''file://'' @ replicate 108 (CHR 0x55)"
  by (simp add: un_string_def un_path_def table_net_def takeWhile_replicate)

text \<open>A limit of 25 days or more is none.\<close>

lemma long_wait_is_endless: "wait_milliseconds (2147483648 * 1000000) < 0"
  by (simp add: wait_milliseconds_def)

end
