(* ===== verification/Unix_Files.thy ===== *)
theory Unix_Files
  imports Flinter_Prelude
begin

text \<open>
  \<open>flinter/mkdirs.c\<close> and \<open>rmdirs.c\<close>: making the directories of a path, and deleting a directory with what is
  in it. The functions that make directories give the calls they make and their result. A directory that is
  deleted is a tree whose entries lie in the blocks that \<open>getdents\<close> gives; what may be opened, listed and deleted
  is a record of the rights. Symbolic links are plain entries: they are never followed. The code for systems
  without \<open>openat\<close> does the same with path names.
\<close>

section \<open>Making directories\<close>

datatype mkdir_answer = Made | Exists | Failed

text \<open>\<open>strtok_r(path, "/")\<close>: where the tokens begin and how long they are.\<close>

function tokens :: "nat \<Rightarrow> string \<Rightarrow> (nat \<times> nat) list" where
  "tokens i s =
    (let a = takeWhile (\<lambda>c. c = CHR ''/'') s; r = dropWhile (\<lambda>c. c = CHR ''/'') s;
         t = takeWhile (\<lambda>c. c \<noteq> CHR ''/'') r
     in if r = [] then [] else (i + length a, length t) # tokens (i + length a + length t) (drop (length t) r))"
  by pat_completeness auto

lemma dropWhile_hd: "dropWhile P s \<noteq> [] \<Longrightarrow> takeWhile (\<lambda>c. \<not> P c) (dropWhile P s) \<noteq> []"
  by (induction s) auto

lemma token_shorter:
  assumes "dropWhile P s \<noteq> []"
  shows "length (dropWhile P s) - length (takeWhile (\<lambda>c. \<not> P c) (dropWhile P s)) < length s"
proof -
  have "0 < length (takeWhile (\<lambda>c. \<not> P c) (dropWhile P s))" using dropWhile_hd [OF assms] by simp
  moreover have "length (dropWhile P s) \<le> length s" by (rule length_dropWhile_le)
  ultimately show ?thesis using assms by (metis diff_less length_greater_0_conv order_less_le_trans)
qed

termination tokens
proof (relation "measure (\<lambda>(i, s). length s)", goal_cases)
  case (2 i s a r t)
  then show ?case using token_shorter [of "\<lambda>c. c = CHR ''/''" s] by simp
qed simp

declare tokens.simps [simp del]

definition c_string :: "string \<Rightarrow> string" where
  "c_string s = takeWhile (\<lambda>c. c \<noteq> CHR 0x00) s"

text \<open>
  The loop: \<open>copy\<close> is cut after the component, the slash it was cut at before is put back; \<open>prev\<close> is the last
  character of the component before, \<open>pos\<close> where \<open>copy\<close> is cut.
\<close>

fun mkdirs_loop :: "(string \<Rightarrow> mkdir_answer) \<Rightarrow> string \<Rightarrow> int \<Rightarrow> int option \<Rightarrow> (nat \<times> nat) list \<Rightarrow> string list \<times> int" where
  "mkdirs_loop mkdir copy pos prev [] = ([], 0)"
| "mkdirs_loop mkdir copy pos prev ((start, len) # ts) =
    (let copy = (if pos \<ge> 0 then copy[nat pos := CHR ''/''] else copy);
         pos = (case prev of Some p \<Rightarrow> pos + (int start - p) - 1 + int len | None \<Rightarrow> pos + int len + 1);
         copy = copy[nat pos := CHR 0x00]
     in if mkdir (c_string copy) = Failed then ([c_string copy], -1)
        else (case mkdirs_loop mkdir copy pos (Some (int start + int len - 1)) ts of (calls, ret) \<Rightarrow> (c_string copy # calls, ret)))"

text \<open>The copies have a null at the end; the first position is that before the first token.\<close>

definition mkdirs :: "(string \<Rightarrow> mkdir_answer) \<Rightarrow> string option \<Rightarrow> string list \<times> int" where
  "mkdirs mkdir pathname =
    (case pathname of
       None \<Rightarrow> ([], -1)
     | Some path \<Rightarrow>
         if path = [] then ([], -1)
         else mkdirs_loop mkdir (path @ [CHR 0x00])
           (case tokens 0 path of [] \<Rightarrow> 0 | (start, _) # _ \<Rightarrow> int start - 1) None (tokens 0 path))"

section \<open>Deleting directories\<close>

datatype fnode = Plain | Dir "(string \<times> fnode) list list"

type_synonym path = "string list"

text \<open>
  What the system allows: to open a directory, to get its \<open>k\<close>-th block, to get the status of an entry, and to
  unlink an entry, where a directory must be empty; \<open>r_typed\<close> tells whether the type comes with the entry,
  \<open>r_readdir\<close> whether \<open>readdir_r\<close> gets as far as an entry, and \<open>r_getdents\<close> whether the system has \<open>getdents\<close>: if not, its
  first call says so before anything is deleted, and \<open>readdir_r\<close> is used from then on.
\<close>

record rights =
  r_open :: "path \<Rightarrow> bool"
  r_list :: "path \<Rightarrow> nat \<Rightarrow> bool"
  r_stat :: "path \<Rightarrow> bool"
  r_unlink :: "path \<Rightarrow> bool"
  r_typed :: "path \<Rightarrow> bool"
  r_readdir :: "path \<Rightarrow> bool"
  r_getdents :: bool

definition dots :: "string set" where
  "dots = {''.'', ''..''}"

definition is_dir :: "fnode \<Rightarrow> bool" where
  "is_dir n \<longleftrightarrow> (case n of Plain \<Rightarrow> False | Dir _ \<Rightarrow> True)"

definition empty_dir :: "fnode \<Rightarrow> bool" where
  "empty_dir n \<longleftrightarrow> (case n of Plain \<Rightarrow> False | Dir bs \<Rightarrow> \<forall>e \<in> set (concat bs). fst e \<in> dots)"

text \<open>The result and what is left; an error ends the loop over a block, and not that over the blocks.\<close>

fun rmdirs_with_getdents :: "rights \<Rightarrow> path \<Rightarrow> fnode \<Rightarrow> int \<times> fnode"
  and rm_blocks :: "rights \<Rightarrow> path \<Rightarrow> nat \<Rightarrow> (string \<times> fnode) list list \<Rightarrow> int \<times> (string \<times> fnode) list list"
  and rm_block :: "rights \<Rightarrow> path \<Rightarrow> (string \<times> fnode) list \<Rightarrow> (string \<times> fnode) list"
where
  "rmdirs_with_getdents R path Plain = (-1, Plain)"
| "rmdirs_with_getdents R path (Dir bs) =
    (if \<not> r_open R path then (-1, Dir bs)
     else case rm_blocks R path 0 bs of (ret, bs') \<Rightarrow> (ret, Dir bs'))"
| "rm_blocks R path k [] = (if r_list R path k then 0 else -1, [])"
| "rm_blocks R path k (b # bs) =
    (if \<not> r_list R path k then (-1, b # bs)
     else case rm_blocks R path (Suc k) bs of (ret, bs') \<Rightarrow> (ret, rm_block R path b # bs'))"
| "rm_block R path [] = []"
| "rm_block R path ((n, d) # es) =
    (let p = path @ [n] in
     if n \<in> dots then (n, d) # rm_block R path es
     else if \<not> r_typed R p \<and> \<not> r_stat R p then (n, d) # es
     else if \<not> is_dir d then (if r_unlink R p then rm_block R path es else (n, d) # es)
     else (case rmdirs_with_getdents R p d of (ret, d') \<Rightarrow>
       if ret \<noteq> 0 \<or> \<not> (r_unlink R p \<and> empty_dir d') then (n, d') # es else rm_block R path es))"

text \<open>With \<open>readdir_r\<close> an error ends all; the boolean tells whether to go on.\<close>

fun rmdirs_with_readdir :: "rights \<Rightarrow> path \<Rightarrow> fnode \<Rightarrow> int \<times> fnode"
  and rm_rest :: "rights \<Rightarrow> path \<Rightarrow> (string \<times> fnode) list list \<Rightarrow> int \<times> (string \<times> fnode) list list"
  and rm_entries :: "rights \<Rightarrow> path \<Rightarrow> (string \<times> fnode) list \<Rightarrow> (int \<times> bool) \<times> (string \<times> fnode) list"
where
  "rmdirs_with_readdir R path Plain = (-1, Plain)"
| "rmdirs_with_readdir R path (Dir bs) =
    (if \<not> r_open R path then (-1, Dir bs)
     else case rm_rest R path bs of (ret, bs') \<Rightarrow> (ret, Dir bs'))"
| "rm_rest R path [] = (0, [])"
| "rm_rest R path (b # bs) =
    (case rm_entries R path b of ((ret, go_on), b') \<Rightarrow>
       if \<not> go_on then (ret, b' # bs) else (case rm_rest R path bs of (ret, bs') \<Rightarrow> (ret, b' # bs')))"
| "rm_entries R path [] = ((0, True), [])"
| "rm_entries R path ((n, d) # es) =
    (let p = path @ [n] in
     if \<not> r_readdir R p then ((0, False), (n, d) # es)
     else if n \<in> dots then (case rm_entries R path es of (r, es') \<Rightarrow> (r, (n, d) # es'))
     else if \<not> r_stat R p then ((-1, False), (n, d) # es)
     else if is_dir d then (case rmdirs_with_readdir R p d of (ret, d') \<Rightarrow>
       if ret \<noteq> 0 \<or> \<not> (r_unlink R p \<and> empty_dir d') then ((-1, False), (n, d') # es) else rm_entries R path es)
     else if r_unlink R p then rm_entries R path es else ((-1, False), (n, d) # es))"

text \<open>\<open>None\<close>: there is nothing at the path.\<close>

definition rmdirs_internal :: "rights \<Rightarrow> path \<Rightarrow> bool \<Rightarrow> fnode option \<Rightarrow> int \<times> fnode option" where
  "rmdirs_internal R path leave_dir_along node =
    (case node of
       None \<Rightarrow> (if r_stat R path then 0 else -1, None)
     | Some d \<Rightarrow>
         if \<not> r_stat R path then (-1, Some d)
         else if \<not> is_dir d then (if leave_dir_along then (0, Some d) else if r_unlink R path then (0, None) else (-1, Some d))
         else (case (if r_getdents R then rmdirs_with_getdents R path d else rmdirs_with_readdir R path d) of (ret, d') \<Rightarrow>
           if ret \<noteq> 0 then (-1, Some d')
           else if leave_dir_along then (0, Some d')
           else if r_unlink R path \<and> empty_dir d' then (0, None) else (-1, Some d')))"

definition rmdirs :: "rights \<Rightarrow> path \<Rightarrow> fnode option \<Rightarrow> int \<times> fnode option" where
  "rmdirs R path = rmdirs_internal R path False"

definition rmdirs_inside :: "rights \<Rightarrow> path \<Rightarrow> fnode option \<Rightarrow> int \<times> fnode option" where
  "rmdirs_inside R path = rmdirs_internal R path True"

section \<open>Making directories makes its prefixes\<close>

text \<open>The places after the last character of a component.\<close>

fun component_ends :: "nat \<Rightarrow> string \<Rightarrow> nat list" where
  "component_ends n [] = []"
| "component_ends n (c # cs) =
    (if c \<noteq> CHR ''/'' \<and> (cs = [] \<or> hd cs = CHR ''/'') then [Suc n] else []) @ component_ends (Suc n) cs"

definition directories :: "string \<Rightarrow> string list" where
  "directories path = map (\<lambda>n. take n path) (component_ends 0 path)"

fun mkdir_each :: "(string \<Rightarrow> mkdir_answer) \<Rightarrow> string list \<Rightarrow> string list \<times> int" where
  "mkdir_each mkdir [] = ([], 0)"
| "mkdir_each mkdir (p # ps) =
    (if mkdir p = Failed then ([p], -1) else (case mkdir_each mkdir ps of (calls, ret) \<Rightarrow> (p # calls, ret)))"

lemma ends_slashes: "\<forall>c \<in> set u. c = CHR ''/'' \<Longrightarrow> component_ends n (u @ r) = component_ends (n + length u) r"
  by (induction u arbitrary: n) auto

lemma ends_component:
  "\<forall>c \<in> set t. c \<noteq> CHR ''/'' \<Longrightarrow> t \<noteq> [] \<Longrightarrow> (r \<noteq> [] \<longrightarrow> hd r = CHR ''/'') \<Longrightarrow>
   component_ends n (t @ r) = (n + length t) # component_ends (n + length t) r"
proof (induction t arbitrary: n)
  case (Cons c t)
  then show ?case by (cases t) auto
qed simp

text \<open>A string with a component: the slashes before it, the component, and the rest.\<close>

lemma tokens_split:
  "tokens i s = [] \<and> (\<forall>c \<in> set s. c = CHR ''/'') \<or>
   (\<exists>u t r. s = u @ t @ r \<and> (\<forall>c \<in> set u. c = CHR ''/'') \<and> (\<forall>c \<in> set t. c \<noteq> CHR ''/'') \<and> t \<noteq> [] \<and>
     (r \<noteq> [] \<longrightarrow> hd r = CHR ''/'') \<and> tokens i s = (i + length u, length t) # tokens (i + length u + length t) r)"
proof -
  define u where "u = takeWhile (\<lambda>c. c = CHR ''/'') s"
  define v where "v = dropWhile (\<lambda>c. c = CHR ''/'') s"
  define t where "t = takeWhile (\<lambda>c. c \<noteq> CHR ''/'') v"
  define r where "r = dropWhile (\<lambda>c. c \<noteq> CHR ''/'') v"
  have d: "drop (length t) v = r" unfolding t_def r_def by (rule dropWhile_eq_drop [symmetric])
  have eq: "tokens i s = (if v = [] then [] else (i + length u, length t) # tokens (i + length u + length t) r)"
    by (subst tokens.simps) (simp add: u_def v_def t_def Let_def d [unfolded v_def t_def])
  have u: "\<forall>c \<in> set u. c = CHR ''/''" unfolding u_def by (blast dest: set_takeWhileD)
  have t: "\<forall>c \<in> set t. c \<noteq> CHR ''/''" unfolding t_def by (blast dest: set_takeWhileD)
  have s: "s = u @ t @ r" unfolding u_def t_def r_def v_def by simp
  have r: "r \<noteq> [] \<longrightarrow> hd r = CHR ''/''" using hd_dropWhile [of "\<lambda>c. c \<noteq> CHR ''/''" v] unfolding r_def by blast
  show ?thesis
  proof (cases "v = []")
    case True
    then have "s = u" using s unfolding t_def r_def by simp
    then show ?thesis using eq True u by simp
  next
    case False
    then have "t \<noteq> []" unfolding t_def v_def by (rule dropWhile_hd)
    moreover have "tokens i s = (i + length u, length t) # tokens (i + length u + length t) r" using eq False by simp
    ultimately show ?thesis using u t s r by blast
  qed
qed

lemma tokens_ends: "map (\<lambda>(a, l). a + l) (tokens i s) = component_ends i s"
proof (induction "length s" arbitrary: i s rule: less_induct)
  case less
  from tokens_split [of i s] show ?case
  proof (elim disjE exE conjE, goal_cases)
    case 1
    then show ?case using ends_slashes [of s i "[]"] by simp
  next
    case (2 u t r)
    then have "length r < length s" by simp
    then have ih: "map (\<lambda>(a, l). a + l) (tokens (i + length u + length t) r) = component_ends (i + length u + length t) r"
      by (rule less)
    have "component_ends i s = (i + length u + length t) # component_ends (i + length u + length t) r"
      unfolding 2(1) ends_slashes [OF 2(2)] by (rule ends_component [OF 2(3-5)])
    with ih show ?case unfolding 2(6) by simp
  qed
qed

lemma restored: "n < length xs \<Longrightarrow> xs ! n = c \<Longrightarrow> (xs[n := b])[n := c] = xs"
  by (metis list_update_id list_update_overwrite)

lemma cut: "CHR 0x00 \<notin> set path \<Longrightarrow> n \<le> length path \<Longrightarrow> c_string ((path @ [CHR 0x00])[n := CHR 0x00]) = take n path"
proof -
  assume a: "CHR 0x00 \<notin> set path" "n \<le> length path"
  have "(path @ [CHR 0x00])[n := CHR 0x00] = take n path @ CHR 0x00 # drop (Suc n) (path @ [CHR 0x00])"
    using a(2) by (simp add: upd_conv_take_nth_drop)
  moreover have "CHR 0x00 \<notin> set (take n path)" using a(1) by (meson in_set_takeD)
  ultimately show ?thesis unfolding c_string_def by (simp add: takeWhile_append takeWhile_eq_all_conv)
qed

text \<open>The loop after a component that ends at \<open>length pre\<close>.\<close>

lemma mkdirs_loop_next:
  assumes "CHR 0x00 \<notin> set (pre @ s)" "s \<noteq> [] \<longrightarrow> hd s = CHR ''/''"
  shows "mkdirs_loop mkdir (((pre @ s) @ [CHR 0x00])[length pre := CHR 0x00]) (int (length pre)) (Some (int (length pre) - 1))
      (tokens (length pre) s) =
    mkdir_each mkdir (map (\<lambda>(a, l). take (a + l) (pre @ s)) (tokens (length pre) s))"
  using assms
proof (induction "length s" arbitrary: pre s rule: less_induct)
  case less
  let ?path = "pre @ s" and ?n = "length pre"
  from tokens_split [of ?n s] show ?case
  proof (elim disjE exE conjE, goal_cases)
    case (2 u t r)
    let ?m = "?n + length u + length t" and ?pre = "pre @ u @ t"
    have path: "?path = ?pre @ r" using 2(1) by simp
    have m: "?m = length ?pre" by simp
    have "s \<noteq> []" using 2 by auto
    then have slash: "(?path @ [CHR 0x00]) ! ?n = CHR ''/''" using less(3) by (cases s) (auto simp: nth_append)
    have undo: "((?path @ [CHR 0x00])[?n := CHR 0x00])[?n := CHR ''/''] = ?path @ [CHR 0x00]"
      using restored [OF _ slash] by simp
    have plus: "int ?n + (int (?n + length u) - (int ?n - 1)) - 1 + int (length t) = int ?m" by simp
    have "CHR 0x00 \<notin> set (?pre @ r)" using less(2) unfolding path .
    moreover have "length r < length s" using 2 by simp
    ultimately have ih: "mkdirs_loop mkdir ((?path @ [CHR 0x00])[?m := CHR 0x00]) (int ?m) (Some (int ?m - 1)) (tokens ?m r) =
        mkdir_each mkdir (map (\<lambda>(a, l). take (a + l) ?path) (tokens ?m r))"
      unfolding path m using less(1) 2(5) by blast
    have cs: "c_string ((?path @ [CHR 0x00])[?m := CHR 0x00]) = take ?m ?path"
      by (rule cut [OF less(2)]) (use 2 in simp)
    have last: "int (?n + length u) + int (length t) - 1 = int ?m - 1" by simp
    show ?case unfolding 2(6)
      by (simp only: mkdirs_loop.simps undo plus cs last nat_int option.case Let_def list.map split_conv mkdir_each.simps ih
        of_nat_0_le_iff if_True)
  qed simp
qed

lemma mkdirs_each:
  assumes "CHR 0x00 \<notin> set path" "path \<noteq> []"
  shows "mkdirs mkdir (Some path) = mkdir_each mkdir (directories path)"
proof -
  have dirs: "directories path = map (\<lambda>(a, l). take (a + l) path) (tokens 0 path)"
    unfolding directories_def tokens_ends [symmetric] by (simp add: split_beta)
  from tokens_split [of 0 path] show ?thesis
  proof (elim disjE exE conjE, goal_cases)
    case (2 u t r)
    let ?m = "length u + length t" and ?pre = "u @ t"
    have tk: "tokens 0 path = (length u, length t) # tokens ?m r" using 2(6) by simp
    have path: "path = ?pre @ r" using 2(1) by simp
    have ih: "mkdirs_loop mkdir ((path @ [CHR 0x00])[?m := CHR 0x00]) (int ?m) (Some (int ?m - 1)) (tokens ?m r) =
        mkdir_each mkdir (map (\<lambda>(a, l). take (a + l) path) (tokens ?m r))"
      using mkdirs_loop_next [of ?pre r mkdir] assms(1) 2(5) unfolding path by simp
    have cs: "c_string ((path @ [CHR 0x00])[?m := CHR 0x00]) = take ?m path"
      by (rule cut [OF assms(1)]) (use path in simp)
    have same: "(if int (length u) - 1 \<ge> 0 then (path @ [CHR 0x00])[nat (int (length u) - 1) := CHR ''/''] else path @ [CHR 0x00]) =
        path @ [CHR 0x00]"
    proof (cases u rule: rev_cases)
      case (snoc v c)
      then show ?thesis using 2(1,2) by (simp add: list_update_append)
    qed simp
    have plus: "int (length u) - 1 + int (length t) + 1 = int ?m" and last: "int (length u) + int (length t) - 1 = int ?m - 1" by auto
    show ?thesis unfolding mkdirs_def dirs tk
      by (simp only: assms(2) option.case tk list.case split_conv if_False mkdirs_loop.simps Let_def same plus last cs nat_int ih
        list.map mkdir_each.simps)
  qed (simp add: mkdirs_def dirs assms)
qed

section \<open>Deleting a directory\<close>

definition granted :: "rights \<Rightarrow> bool" where
  "granted R \<longleftrightarrow> (\<forall>p. r_open R p \<and> (\<forall>k. r_list R p k) \<and> r_stat R p \<and> r_unlink R p \<and> r_readdir R p)"

definition readable :: "rights \<Rightarrow> bool" where
  "readable R \<longleftrightarrow> (\<forall>p. (\<forall>k. r_list R p k) \<and> r_stat R p \<and> r_readdir R p)"

lemma readableD [simp]: "readable R \<Longrightarrow> r_list R p k" "readable R \<Longrightarrow> r_stat R p" "readable R \<Longrightarrow> r_readdir R p"
  by (auto simp: readable_def)

lemma grantedD [simp]: "granted R \<Longrightarrow> r_open R p" "granted R \<Longrightarrow> r_unlink R p" "granted R \<Longrightarrow> readable R"
  unfolding granted_def readable_def by blast+

definition only_dots :: "(string \<times> fnode) list \<Rightarrow> bool" where
  "only_dots es \<longleftrightarrow> (\<forall>e \<in> set es. fst e \<in> dots)"

lemma only_dots_simps [simp]:
  "only_dots []" "only_dots (e # es) \<longleftrightarrow> fst e \<in> dots \<and> only_dots es" "empty_dir (Dir bs) \<longleftrightarrow> list_all only_dots bs"
  "\<not> empty_dir Plain" "is_dir (Dir bs)" "\<not> is_dir Plain"
  by (auto simp: only_dots_def empty_dir_def is_dir_def list_all_iff)

lemma getdents_empties:
  "granted R \<Longrightarrow> is_dir n \<Longrightarrow> fst (rmdirs_with_getdents R path n) = 0 \<and> empty_dir (snd (rmdirs_with_getdents R path n))"
  "granted R \<Longrightarrow> fst (rm_blocks R path k bs) = 0 \<and> list_all only_dots (snd (rm_blocks R path k bs))"
  "granted R \<Longrightarrow> only_dots (rm_block R path es)"
proof (induction R path n and R path k bs and R path es rule: rmdirs_with_getdents_rm_blocks_rm_block.induct)
  case (6 R path n d es)
  then show ?case by (cases "n \<in> dots"; cases "is_dir d"; cases "rmdirs_with_getdents R (path @ [n]) d") (simp_all add: Let_def split_beta)
next
  case (4 R path k b bs)
  then show ?case by (cases "rm_blocks R path (Suc k) bs") simp
qed (simp_all add: split_beta)

lemma readdir_empties:
  "granted R \<Longrightarrow> is_dir n \<Longrightarrow> fst (rmdirs_with_readdir R path n) = 0 \<and> empty_dir (snd (rmdirs_with_readdir R path n))"
  "granted R \<Longrightarrow> fst (rm_rest R path bs) = 0 \<and> list_all only_dots (snd (rm_rest R path bs))"
  "granted R \<Longrightarrow> fst (rm_entries R path es) = (0, True) \<and> only_dots (snd (rm_entries R path es))"
proof (induction R path n and R path bs and R path es rule: rmdirs_with_readdir_rm_rest_rm_entries.induct)
  case (6 R path n d es)
  let ?p = "path @ [n]"
  consider (dot) "n \<in> dots" | (dir) "n \<notin> dots" "is_dir d" | (plain) "n \<notin> dots" "\<not> is_dir d" by blast
  then show ?case
  proof cases
    case dot
    then have "fst (rm_entries R path es) = (0, True) \<and> only_dots (snd (rm_entries R path es))" using 6(1) 6(5) by simp
    then show ?thesis using dot 6(5) by (simp add: split_beta)
  next
    case dir
    then have "fst (rmdirs_with_readdir R ?p d) = 0 \<and> empty_dir (snd (rmdirs_with_readdir R ?p d))" using 6(2) 6(5) by simp
    then obtain d' where d': "rmdirs_with_readdir R ?p d = (0, d')" "empty_dir d'"
      by (cases "rmdirs_with_readdir R ?p d") auto
    then have "fst (rm_entries R path es) = (0, True) \<and> only_dots (snd (rm_entries R path es))" using 6(3) dir 6(5) by simp
    then show ?thesis using dir d' 6(5) by simp
  next
    case plain
    then show ?thesis using 6(4) 6(5) by simp
  qed
next
  case (4 R path b bs)
  obtain b' where b: "rm_entries R path b = ((0, True), b')" and "only_dots b'"
    using 4(1) [OF 4(3)] by (cases "rm_entries R path b") auto
  moreover have "fst (rm_rest R path bs) = 0 \<and> list_all only_dots (snd (rm_rest R path bs))"
    using 4(2) [OF b [symmetric] refl _ 4(3)] by simp
  ultimately show ?case by (simp add: split_beta)
qed (simp_all add: split_beta)

text \<open>Where all can be read, \<open>readdir\<close> ends with an error or at the end.\<close>

lemma entries_stop: "readable R \<Longrightarrow> fst (rm_entries R path es) = (0, True) \<or> fst (rm_entries R path es) = (-1, False)"
proof (induction es)
  case (Cons e es)
  obtain n d where e: "e = (n, d)" by (cases e)
  show ?case using Cons unfolding e by (cases "n \<in> dots"; cases "is_dir d") (simp_all add: Let_def split_beta)
qed simp

lemma readdir_getdents:
  "readable R \<Longrightarrow> rmdirs_with_readdir R path n = (0, n') \<longleftrightarrow> rmdirs_with_getdents R path n = (0, n') \<and> empty_dir n'"
  "readable R \<Longrightarrow> rm_rest R path bs = (0, bs') \<longleftrightarrow> rm_blocks R path k bs = (0, bs') \<and> list_all only_dots bs'"
  "readable R \<Longrightarrow> rm_entries R path es = ((0, True), es') \<longleftrightarrow> rm_block R path es = es' \<and> only_dots es'"
proof (induction R path n and R path bs and R path es arbitrary: n' and bs' k and es' rule: rmdirs_with_readdir_rm_rest_rm_entries.induct)
  case (2 R path bs)
  then show ?case by (cases n') (auto simp: split_beta prod_eq_iff)
next
  case (4 R path b bs)
  show ?case
  proof (cases "fst (rm_entries R path b) = (0, True)")
    case True
    then have b: "rm_entries R path b = ((0, True), snd (rm_entries R path b))" by (simp add: prod_eq_iff)
    from 4(1) [OF 4(3)] b have "rm_block R path b = snd (rm_entries R path b) \<and> only_dots (snd (rm_entries R path b))" by blast
    moreover have "rm_rest R path bs = (0, v) \<longleftrightarrow> rm_blocks R path (Suc k) bs = (0, v) \<and> list_all only_dots v" for v
      using 4(2) [OF b [symmetric] refl _ 4(3)] by simp
    moreover obtain r v where rest: "rm_rest R path bs = (r, v)" by fastforce
    moreover obtain q w where blocks: "rm_blocks R path (Suc k) bs = (q, w)" by fastforce
    ultimately have block: "rm_block R path b = snd (rm_entries R path b)" "only_dots (snd (rm_entries R path b))"
      and agree: "\<And>u. (r = 0 \<and> v = u) \<longleftrightarrow> (q = 0 \<and> w = u) \<and> list_all only_dots u"
      by auto
    have "rm_rest R path (b # bs) = (r, snd (rm_entries R path b) # v)" by (subst rm_rest.simps, subst b) (simp add: rest)
    moreover have "rm_blocks R path k (b # bs) = (q, snd (rm_entries R path b) # w)" using 4(3) by (simp add: blocks block(1))
    ultimately show ?thesis using agree block(2) by (cases bs') auto
  next
    case False
    then have "fst (rm_entries R path b) = (-1, False)" using entries_stop [OF 4(3)] by blast
    moreover have "\<not> only_dots (rm_block R path b)" using 4(1) [OF 4(3)] False by (metis fst_conv)
    ultimately show ?thesis using 4(3) by (auto simp: split_beta)
  qed
next
  case (6 R path n d es)
  let ?p = "path @ [n]"
  consider (dot) "n \<in> dots" | (dir) "n \<notin> dots" "is_dir d" | (plain) "n \<notin> dots" "\<not> is_dir d" by blast
  then show ?case
  proof cases
    case dot
    then show ?thesis using 6 by (cases es') (auto simp: Let_def split_beta prod_eq_iff)
  next
    case dir
    have ih: "rmdirs_with_readdir R ?p d = (0, v) \<longleftrightarrow> rmdirs_with_getdents R ?p d = (0, v) \<and> empty_dir v" for v
      using 6 dir by simp
    obtain r v where rd: "rmdirs_with_readdir R ?p d = (r, v)" by fastforce
    obtain r' v' where gd: "rmdirs_with_getdents R ?p d = (r', v')" by fastforce
    show ?thesis
    proof (cases "r = 0")
      case True
      then have same: "r' = 0" "v' = v" "empty_dir v" using ih [of v] rd gd by auto
      have es: "r_unlink R ?p \<Longrightarrow> rm_entries R path es = ((0, True), es') \<longleftrightarrow> rm_block R path es = es' \<and> only_dots es'"
        using 6 dir rd True same by simp
      show ?thesis using dir rd gd True same es 6(5) by (cases "r_unlink R ?p") (auto simp: Let_def)
    next
      case False
      then have "\<not> (r' = 0 \<and> empty_dir v')" using ih [of v'] rd gd by auto
      then show ?thesis using dir rd gd False 6(5) by (auto simp: Let_def)
    qed
  next
    case plain
    then show ?thesis using 6 by (auto simp: Let_def)
  qed
qed auto

lemma mkdir_each_eq:
  "mkdir_each mkdir ps =
    (take (Suc (length (takeWhile (\<lambda>p. mkdir p \<noteq> Failed) ps))) ps, if \<exists>p \<in> set ps. mkdir p = Failed then -1 else 0)"
  by (induction ps) auto

section \<open>Properties\<close>

text \<open>C18. For a path without a null, \<open>mkdirs\<close> calls \<open>mkdir\<close> on the path up to the end of each component, the
  shortest first, up to and with the first call that fails for another reason than that the name exists; it gives
  \<open>0\<close> if there is no such call.\<close>

theorem mkdirs_makes_prefixes:
  assumes "CHR 0x00 \<notin> set path" "path \<noteq> []"
  shows "mkdirs mkdir (Some path) =
    (let ps = directories path; made = takeWhile (\<lambda>p. mkdir p \<noteq> Failed) ps
     in (take (Suc (length made)) ps, if \<exists>p \<in> set ps. mkdir p = Failed then -1 else 0))"
  by (simp add: mkdirs_each [OF assms] mkdir_each_eq Let_def)

theorem mkdirs_makes_prefixes_witness:
  "mkdirs (\<lambda>p. if p = ''/a'' then Exists else if p = ''/a//bc'' then Failed else Made) (Some ''/a//bc/d/'') = ([''/a'', ''/a//bc''], -1)"
  by (subst mkdirs_makes_prefixes) (simp_all add: directories_def Let_def)

text \<open>C19. Where all can be read, \<open>rmdirs_with_readdir\<close> deletes everything with no error if and only if
  \<open>rmdirs_with_getdents\<close> gives \<open>0\<close> and has deleted everything, and then they leave the same.\<close>

theorem rmdirs_methods_agree:
  assumes "readable R"
  shows "rmdirs_with_readdir R path n = (0, n') \<longleftrightarrow> rmdirs_with_getdents R path n = (0, n') \<and> empty_dir n'"
  by (rule readdir_getdents(1) [OF assms])

definition all_rights :: rights where
  "all_rights = \<lparr>r_open = \<lambda>_. True, r_list = \<lambda>_ _. True, r_stat = \<lambda>_. True, r_unlink = \<lambda>_. True, r_typed = \<lambda>_. True,
    r_readdir = \<lambda>_. True, r_getdents = True\<rparr>"

definition kept_file :: rights where
  "kept_file = all_rights\<lparr>r_unlink := \<lambda>p. p \<noteq> [''d'', ''a'']\<rparr>"

definition some_dir :: fnode where
  "some_dir = Dir [[(''.'', Dir []), (''..'', Dir [])], [(''a'', Plain), (''b'', Plain)], [(''c'', Dir [[(''e'', Plain)]])]]"

lemmas samples = all_rights_def kept_file_def some_dir_def dots_def Let_def is_dir_def empty_dir_def

lemma readable_samples: "readable all_rights" "readable kept_file"
  by (simp_all add: readable_def samples)

theorem rmdirs_methods_agree_witness:
  "readable kept_file \<and> rmdirs_with_readdir kept_file [''d''] some_dir \<noteq> (0, Dir [[(''.'', Dir []), (''..'', Dir [])], [(''a'', Plain), (''b'', Plain)], []])"
  using rmdirs_methods_agree [OF readable_samples(2), of "[''d'']" some_dir
    "Dir [[(''.'', Dir []), (''..'', Dir [])], [(''a'', Plain), (''b'', Plain)], []]"] readable_samples(2)
  by (simp add: samples)

text \<open>With all the rights, by either method, \<open>rmdirs\<close> deletes whatever is at the path and gives \<open>0\<close>, and
  \<open>rmdirs_inside\<close> empties a directory, leaves another entry as it is and gives \<open>0\<close>.\<close>

theorem rmdirs_deletes_all:
  assumes "granted R"
  shows "rmdirs R path (Some n) = (0, None) \<and>
    (\<exists>n'. rmdirs_inside R path (Some n) = (0, Some n') \<and> (if is_dir n then empty_dir n' else n' = n))"
  using getdents_empties(1) [OF assms, of n path] readdir_empties(1) [OF assms, of n path] assms
  by (auto simp: rmdirs_def rmdirs_inside_def rmdirs_internal_def split_beta)

lemma granted_all: "granted all_rights"
  by (simp add: granted_def samples)

theorem rmdirs_deletes_all_witness: "granted all_rights \<and> rmdirs all_rights [''d''] (Some some_dir) = (0, None)"
  using granted_all rmdirs_deletes_all [OF granted_all] by blast

text \<open>
  A file that cannot be deleted: the rest of its block stays with it, the blocks after it are deleted, and
  \<open>rmdirs_inside\<close> gives \<open>0\<close>; with \<open>readdir\<close> it gives an error.
\<close>

lemma rmdirs_inside_leaves_entries:
  "rmdirs_inside kept_file [''d''] (Some some_dir) =
    (0, Some (Dir [[(''.'', Dir []), (''..'', Dir [])], [(''a'', Plain), (''b'', Plain)], []]))"
  "rmdirs_inside (kept_file\<lparr>r_getdents := False\<rparr>) [''d''] (Some some_dir) = (-1, Some some_dir)"
  by code_simp+

text \<open>An error of \<open>readdir_r\<close> is taken for the end of the directory.\<close>

lemma readdir_error_is_the_end:
  "r_open R path \<Longrightarrow> \<not> r_readdir R (path @ [n]) \<Longrightarrow> rmdirs_with_readdir R path (Dir [(n, d) # es]) = (0, Dir [(n, d) # es])"
  by simp

text \<open>A file with the name of the last directory: \<open>mkdirs\<close> gives \<open>0\<close>.\<close>

lemma mkdirs_over_a_file: "mkdirs (\<lambda>_. Exists) (Some ''a'') = ([''a''], 0)"
  by (simp add: mkdirs_each mkdir_each_eq directories_def)

end
