(* ===== verification/Spec2Isabelle.thy ===== *)
theory Spec2Isabelle
  imports Loop_Correct File_Descriptor_Io Easy_Server_Life Object_Map_Correct Pools
    Thread_Pools_Correct Growable_Pool Text_Explode Text_Encode Decimal_Text
    Read_Write_Lock Value_Tree_Correct Async_Router
    Election_Life Safe_Io_Correct Ssl_Io Resolver_Correct Zoo_Keeper_Correct Zk_Tracker_Correct Fast_Cgi_Correct
    Net_Interface_Correct Unix_Files
begin

text \<open>
  flinter is a C++ library for network servers on Unix. This development models its core and proves
  what makes it correct. It follows the code: a class is a record of its fields, an operation a
  function from the old state to the result and the new state, an error or an exception a value, a
  failed assertion or an undefined operation a value of its own; a 64-bit word is a word where it
  wraps around or carries bits. What the code calls outside the repository (the kernel, \<open>libev\<close>,
  \<open>libuuid\<close>) and the handlers a user supplies are arguments.

  \<^bold>\<open>The parts of the program and how they interact.\<close> A \<open>Linkage\<close> is one connection: it queues what is
  sent, cuts what is received into messages, and drives its transport, an \<open>AbstractIo\<close>, through
  handshake, reads, writes and shutdown. A \<open>LinkageWorker\<close> is the event loop of one thread: it watches
  the descriptors of its connections, calls them back, runs timers and commands from other threads,
  and drops connections that ask for it or are overdue. \<open>FileDescriptorIo\<close> is the transport over a
  plain socket, \<open>SslIo\<close> the one over TLS; an \<open>Interface\<close> owns the socket and a \<open>Listener\<close> accepts new ones. An \<open>EasyServer\<close> owns a worker per I/O thread, gives every connection a 64-bit channel,
  keeps the tables from channels to connections, and hands jobs to job workers, which run in a
  thread pool. An \<open>AsyncRouter\<close> makes calls over a set of such connections: an \<open>ObjectMap\<close> keeps the
  connections while calls use them, a \<open>TimeoutPool\<close> the calls until they are answered or overdue.
  A \<open>Council\<close> elects a process among those that registered under one node of ZooKeeper; a \<open>Naming\<close> is
  the registry of names kept there. Under them \<open>ZooKeeper\<close> is the client: it keeps the session, resumes it, and turns the
  calls and answers of the C library into requests and callbacks; a \<open>ZooKeeperTracker\<close> keeps the watches of nodes alive
  over it. The FastCGI part serves web requests: a \<open>Dispatcher\<close> finds the handler of a path, a \<open>CGI\<close> runs its filters
  and keeps its response. A \<open>Resolver\<close> caches the addresses of hosts. \<open>ReadWriteLock\<close> is the lock the library makes where the system has
  none. \<open>Tree\<close> and \<open>Decimal\<close> are the values a service exchanges; strings are split, trimmed, encoded and
  made into paths and numbers by free functions.

  \<^bold>\<open>Theories.\<close>
  \<^item> \<open>Flinter_Prelude\<close>: \<open>std::map\<close> as an ordered association list, \<open>mmap_insert\<close> for \<open>std::multimap\<close>, and the interfaces as locales:
    \<open>ordered_map\<close> (interpreted for \<open>std::map\<close>), \<open>three_way\<close> (comparison methods, interpreted for
    \<open>uint128_t\<close>), \<open>step_invariant\<close> (interpreted wherever a component has a step relation),
    \<open>refines_operation\<close> and \<open>refines_machine\<close> (an implementation and what it promises).
  \<^item> \<open>Linkage_Worker\<close>: \<open>linkage_worker.cpp\<close>, \<open>linkage_base.h\<close>; clients, timers and commands of a
    worker, what \<open>libev\<close> watches, \<open>Attach\<close>, \<open>Detach\<close>, \<open>SetWanna\<close>, \<open>DoRelease\<close>, \<open>OnHealthCheck\<close>,
    \<open>OnCommand\<close>, and the step relation \<open>worker_step\<close>; an interface \<open>linkage_base\<close> for what the worker
    expects of the connections it calls.
  \<^item> \<open>Linkage\<close>: \<open>linkage.cpp\<close>; the record of a connection and every operation of the class. The loop of
    \<open>OnEvent\<close> is a \<open>partial_function\<close>, because a transport may keep it busy forever.
  \<^item> \<open>Linkage_Receive\<close>, \<open>Linkage_Events\<close>, \<open>Linkage_Send\<close>, \<open>Linkage_Correct\<close>, \<open>Linkage_Lifecycle\<close>: properties
    of a connection: framing, the byte stream, the bound of the sending buffer, attaching, closing
    and timing out. \<open>linkage_invariant\<close> is the locale of invariants of connections.
  \<^item> \<open>Linkage_Loop\<close>, \<open>Loop_Correct\<close>: a worker with the connections of \<open>Linkage\<close>, that is the interface
    \<open>linkage_base\<close> interpreted, and properties of the whole loop.
  \<^item> \<open>File_Descriptor_Io\<close>: \<open>file_descriptor_io.cpp\<close>, and a connection over it.
  \<^item> \<open>Ssl_Io\<close>: \<open>ssl_io.cpp\<close>, a connection over it, and the locale \<open>transport_invariant\<close>, what a connection
    keeps of its transport, interpreted for both.
  \<^item> \<open>Resolver\<close>, \<open>Resolver_Correct\<close>: \<open>resolver.cpp\<close>; the cache of addresses and the threads that share it.
  \<^item> \<open>Safe_Io\<close>, \<open>Safe_Io_Correct\<close>: \<open>safeio.c\<close>; system calls that are not interrupted and transfers with a time
    limit, over a kernel that is a parameter; the locale \<open>timed_io\<close> is what they rely on.
  \<^item> \<open>Net_Interface\<close>, \<open>Net_Interface_Correct\<close>: \<open>interface.cpp\<close>, \<open>linkage_peer.cpp\<close>, \<open>listener.cpp\<close>; sockets that connect,
    listen and accept. The locale \<open>sockets\<close> is what POSIX documents of descriptors, interpreted on a kernel that keeps
    a table; nothing leaks.
  \<^item> \<open>Easy_Server\<close>, \<open>Easy_Server_Correct\<close>, \<open>Easy_Server_Life\<close>: \<open>easy_server.cpp\<close>; channels, tables, counters,
    jobs, starting and stopping; the invariant of the tables and the properties of the reachable
    states.
  \<^item> \<open>Object_Map\<close>, \<open>Object_Map_Correct\<close>: \<open>object_map.h\<close>; reference counts and the round robin.
  \<^item> \<open>Pools\<close>: \<open>timeout_pool.h\<close> and \<open>object_pool.h\<close>.
  \<^item> \<open>Async_Router\<close>: \<open>async_router.h\<close> over the two; which connections a router keeps alive, and what becomes
    of every call.
  \<^item> \<open>Thread_Pools\<close>, \<open>Thread_Pools_Correct\<close>, \<open>Growable_Pool\<close>: the three thread pools; \<open>job_pool\<close> is what
    they share, interpreted for each; the step relation of the growable pool's threads.
  \<^item> \<open>Read_Write_Lock\<close>: \<open>read_write_lock.cpp\<close>, the implementation over a mutex and two semaphores, as a
    refinement of an abstract lock with two queues.
  \<^item> \<open>Election\<close>: \<open>council.cpp\<close> and \<open>naming.cpp\<close>. \<open>Election_Correct\<close>, \<open>Election_Life\<close>: any number of councils over
    one node. What ZooKeeper documents is the assumption of the locale \<open>zookeeper\<close>, interpreted on a
    service that keeps the node in a list; \<open>council_invariant\<close> is the locale of the invariants.
  \<^item> \<open>Zoo_Keeper\<close>, \<open>Zoo_Keeper_Correct\<close>: \<open>zookeeper.cpp\<close>; requests, their pending records, which the C library gives back
    once each, sessions and their resumption; every record is accounted for until the client is destroyed.
  \<^item> \<open>Zk_Tracker\<close>, \<open>Zk_Tracker_Correct\<close>: \<open>zookeeper_tracker.cpp\<close>; the callbacks of a node, the requests outstanding and
    the watches held; no request is made twice, and no track of data is lost.
  \<^item> \<open>Fast_Cgi\<close>, \<open>Fast_Cgi_Correct\<close>: \<open>cgi.cpp\<close>, \<open>dispatcher.cpp\<close>, \<open>default_handlers.cpp\<close>, \<open>common_filters.cpp\<close>; what a client
    is sent, on success and on error, and the handler it reaches.
  \<^item> \<open>Value_Tree\<close>, \<open>Value_Tree_Correct\<close>: \<open>tree.cpp\<close>; a tree is a finite map from sequences of keys to values.
  \<^item> \<open>Decimal\<close>, \<open>Decimal_Correct\<close>, \<open>Decimal_Text\<close>: \<open>decimal.cpp\<close>; arithmetic as that of the rationals, rounding,
    and strings. What GMP documents is the assumption of the locales \<open>gmp_arith\<close> and \<open>gmp_text\<close>, both
    interpreted on functions that compute what its manual says.
  \<^item> \<open>Digits\<close>, \<open>Utility\<close>: strings of digits; numbers, paths and random numbers of \<open>utility.c\<close>.
  \<^item> \<open>Unix_Files\<close>: \<open>mkdirs.c\<close>, \<open>rmdirs.c\<close>; which directories are made, and what is left of a tree of files that is
    deleted by either of the two ways the code lists a directory, whatever the system forbids.
  \<^item> \<open>Text_Explode\<close>, \<open>Text_Encode\<close>: \<open>explode.cpp\<close>, \<open>trim.cpp\<close>, \<open>encode.cpp\<close>, \<open>uint128_t.cpp\<close>.

  \<^bold>\<open>Concurrency.\<close> What the code does under one mutex is one step; the step relations interleave the
  steps of all threads arbitrarily. A wait on a condition variable is a step that may be retried at
  any time, which covers spurious wake-ups.

  \<^bold>\<open>Bounds.\<close> Channels are numbered below \<open>2^63\<close> (\<open>room\<close>): a server that accepted a million connections a
  second would take 290000 years. Timestamps are integers: \<open>int64_t\<close> nanoseconds last 292 years. A
  growable pool has fewer than \<open>2^63\<close> threads and a batch below \<open>2^62\<close>, a router fewer than \<open>2^64\<close> calls in
  progress, a read-write lock fewer than \<open>2^31\<close> waiting threads, and ZooKeeper numbers the children of a node below \<open>2^31\<close>,
  where its counter overflows. No definition uses fuel: loops are structural, have a measure, or are
  partial functions whose return is proved.

  \<^bold>\<open>Not modelled.\<close> Logging has no effect on the state. \<open>ObjectMap::GetRandom\<close> does not compile when
  instantiated. The handlers' callbacks of \<open>EasyServer\<close> that only forward to user code, the set-up of TLS,
  uploaded files and the start of the modes of FastCGI, HTTP crawling, the exporters of trees
  to XML and templates, the other Unix utilities and the vendored hash function are listed in the
  manifest with the reason.
\<close>

end
